(* ===== verification/Plant_Prelude.thy ===== *)
theory Plant_Prelude
  imports
    Main
    "HOL-Library.Char_ord"
    "HOL-Library.List_Lexorder"
    "HOL-Library.Product_Lexorder"
    "HOL-Library.Option_ord"
    "HOL-Library.AList"
    "HOL-Library.Multiset"
begin

text \<open>
  Shared vocabulary of the development: the errors Python raises, a result type that carries
  them, names compared by their lower-case form, dictionaries in insertion order, points in
  time, and the facts about lists and sums that the component theories use.

  Names (people, work centers, groups) are \<open>string\<close>s. Python's \<open>str.lower\<close> is modelled on the
  ASCII letters; other characters are left alone.
  A Python \<open>dict\<close> whose iteration order matters is an association list: \<open>AList.update\<close>
  overwrites a present key in place and appends a new one at the end, as Python does.
  An aware UTC \<open>datetime\<close> is the integer number of microseconds since the epoch, and a
  \<open>timedelta\<close> a number of microseconds.
\<close>

section \<open>Errors and results\<close>

datatype py_error =
    ValueError string
  | TypeError string
  | KeyError
  | RuntimeError string
  | AssertionError

type_synonym 'a result = "py_error + 'a"

definition rbind :: "'a result \<Rightarrow> ('a \<Rightarrow> 'b result) \<Rightarrow> 'b result" where
  "rbind m f = (case m of Inl e \<Rightarrow> Inl e | Inr a \<Rightarrow> f a)"

definition guard_error :: "bool \<Rightarrow> py_error \<Rightarrow> unit result" where
  "guard_error bad e = (if bad then Inl e else Inr ())"

fun rmap :: "('a \<Rightarrow> 'b result) \<Rightarrow> 'a list \<Rightarrow> 'b list result" where
  "rmap f [] = Inr []"
| "rmap f (x # xs) = rbind (f x) (\<lambda>y. rbind (rmap f xs) (\<lambda>ys. Inr (y # ys)))"

text \<open>A loop of checks that stops at the first error.\<close>

fun check_each :: "('a \<Rightarrow> unit result) \<Rightarrow> 'a list \<Rightarrow> unit result" where
  "check_each f [] = Inr ()"
| "check_each f (x # xs) = rbind (f x) (\<lambda>_. check_each f xs)"

lemma rbind_simps [simp]:
  "rbind (Inl e) f = Inl e"
  "rbind (Inr a) f = f a"
  by (simp_all add: rbind_def)

lemma guard_error_False [simp]: "guard_error False e = Inr ()"
  by (simp add: guard_error_def)

lemma rbind_Inr_iff: "rbind m f = Inr b \<longleftrightarrow> (\<exists>a. m = Inr a \<and> f a = Inr b)"
  by (cases m) auto

lemma rbind_InrE [elim!]:
  assumes "rbind m f = Inr b"
  obtains a where "m = Inr a" and "f a = Inr b"
  using assms by (auto simp: rbind_Inr_iff)

lemma rbind_check: "rbind r (\<lambda>_. f) = Inr v \<longleftrightarrow> r = Inr () \<and> f = Inr v"
  by (cases r) auto

lemma guard_error_Inr [simp]: "guard_error bad e = Inr u \<longleftrightarrow> \<not> bad"
  by (simp add: guard_error_def)

lemma check_each_Inr: "check_each f xs = Inr u \<longleftrightarrow> (\<forall>x \<in> set xs. f x = Inr ())"
  by (induction xs) (auto simp: rbind_Inr_iff)

lemma rmap_Inr_length: "rmap f xs = Inr ys \<Longrightarrow> length ys = length xs"
  by (induction xs arbitrary: ys) (auto split: sum.splits)

lemma rmap_Inr_nth: "rmap f xs = Inr ys \<Longrightarrow> i < length xs \<Longrightarrow> f (xs ! i) = Inr (ys ! i)"
  by (induction xs arbitrary: ys i) (auto simp: nth_Cons split: nat.splits)

lemma rmap_Inr_list_all2: "rmap f xs = Inr ys \<longleftrightarrow> list_all2 (\<lambda>x y. f x = Inr y) xs ys"
  by (induction xs arbitrary: ys) (auto simp: rbind_Inr_iff list_all2_Cons1)

text \<open>
  A computation that may also never return: \<open>None\<close> stands for a loop that does not end.
\<close>

type_synonym 'a run = "'a result option"

definition run_bind :: "'a run \<Rightarrow> ('a \<Rightarrow> 'b run) \<Rightarrow> 'b run" where
  "run_bind m f =
     (case m of None \<Rightarrow> None | Some r \<Rightarrow> (case r of Inl e \<Rightarrow> Some (Inl e) | Inr a \<Rightarrow> f a))"

lemma run_bind_simps [simp]:
  "run_bind None f = None"
  "run_bind (Some (Inl e)) f = Some (Inl e)"
  "run_bind (Some (Inr a)) f = f a"
  by (simp_all add: run_bind_def)

lemma run_bind_cong [fundef_cong]:
  "m = m' \<Longrightarrow> (\<And>a. m' = Some (Inr a) \<Longrightarrow> f a = f' a) \<Longrightarrow> run_bind m f = run_bind m' f'"
  by (cases m') (auto simp: run_bind_def split: sum.splits)

text \<open>A \<open>for\<close> loop over a list whose body updates a state and may fail.\<close>

fun fold_run :: "('a \<Rightarrow> 's \<Rightarrow> 's run) \<Rightarrow> 'a list \<Rightarrow> 's \<Rightarrow> 's run" where
  "fold_run f [] st = Some (Inr st)"
| "fold_run f (x # xs) st = run_bind (f x st) (fold_run f xs)"

lemma fold_run_cong [fundef_cong]:
  "xs = ys \<Longrightarrow> st = st' \<Longrightarrow> (\<And>x st. x \<in> set ys \<Longrightarrow> f x st = g x st) \<Longrightarrow>
     fold_run f xs st = fold_run g ys st'"
proof (induction ys arbitrary: xs st st')
  case (Cons y ys)
  then show ?case by (auto intro!: run_bind_cong)
qed simp

lemma fold_run_last [simp]: "run_bind r (fold_run f []) = r"
  by (simp add: run_bind_def split: option.splits sum.splits)

lemma fold_run_append:
  "fold_run f (xs @ ys) st = run_bind (fold_run f xs st) (fold_run f ys)"
  by (induction xs arbitrary: st) (auto simp: run_bind_def split: option.splits sum.splits)

lemma fold_run_concat:
  "fold_run f (concat (map g xs)) st = fold_run (\<lambda>x. fold_run f (g x)) xs st"
proof (induction xs arbitrary: st)
  case (Cons x xs)
  then show ?case
    by (auto simp: fold_run_append run_bind_def split: option.splits sum.splits)
qed simp

lemma fold_run_map: "fold_run f (map g xs) st = fold_run (\<lambda>x. f (g x)) xs st"
proof (induction xs arbitrary: st)
  case (Cons x xs)
  then show ?case by (auto simp: run_bind_def split: option.splits sum.splits)
qed simp

lemma fold_run_filter:
  "fold_run f (filter P xs) st = fold_run (\<lambda>x st. if \<not> P x then Some (Inr st) else f x st) xs st"
proof (induction xs arbitrary: st)
  case (Cons x xs)
  then show ?case by (auto simp: run_bind_def split: option.splits sum.splits)
qed simp

lemma fold_run_total:
  "(\<And>x st. x \<in> set xs \<Longrightarrow> f x st = Some (Inr (g x st))) \<Longrightarrow>
     fold_run f xs st = Some (Inr (foldl (\<lambda>st x. g x st) st xs))"
  by (induction xs arbitrary: st) simp_all

text \<open>
  A loop invariant, and a relation that grows along the loop: what each pass establishes about
  its element survives the later passes.
\<close>

lemma fold_run_invariant:
  assumes "I st"
    and "\<And>x st. x \<in> set xs \<Longrightarrow> I st \<Longrightarrow>
      \<exists>st'. f x st = Some (Inr st') \<and> I st' \<and> R st st' \<and> Q x st'"
    and "\<And>st. R st st" and "\<And>a b c. R a b \<Longrightarrow> R b c \<Longrightarrow> R a c"
    and "\<And>x a b. Q x a \<Longrightarrow> R a b \<Longrightarrow> Q x b"
  shows "\<exists>st'. fold_run f xs st = Some (Inr st') \<and> I st' \<and> R st st' \<and> (\<forall>x \<in> set xs. Q x st')"
  using assms(1,2)
proof (induction xs arbitrary: st)
  case Nil
  then show ?case using assms(3) by simp
next
  case (Cons x xs)
  obtain st1 where 1: "f x st = Some (Inr st1)" "I st1" "R st st1" "Q x st1"
    using Cons.prems(2) [OF list.set_intros(1) Cons.prems(1)] by blast
  obtain st2 where 2: "fold_run f xs st1 = Some (Inr st2)" "I st2" "R st1 st2" "\<forall>x \<in> set xs. Q x st2"
    using Cons.IH [OF 1(2) Cons.prems(2) [OF list.set_intros(2)]] by blast
  have "Q x st2" by (rule assms(5) [OF 1(4) 2(3)])
  moreover have "R st st2" by (rule assms(4) [OF 1(3) 2(3)])
  ultimately show ?case using 1(1) 2 by simp
qed

section \<open>Names\<close>

definition lower_char :: "char \<Rightarrow> char" where
  "lower_char c =
     (if CHR ''A'' \<le> c \<and> c \<le> CHR ''Z'' then char_of (of_char c + 32 :: nat) else c)"

definition lower :: "string \<Rightarrow> string" where
  "lower = map lower_char"

lemma length_lower [simp]: "length (lower s) = length s"
  by (simp add: lower_def)

text \<open>\<open>str(n)\<close>\<close>

fun show_nat :: "nat \<Rightarrow> string" where
  "show_nat n = (if n < 10 then [char_of (48 + n)] else show_nat (n div 10) @ [char_of (48 + n mod 10)])"

declare show_nat.simps [simp del]

definition show_int :: "int \<Rightarrow> string" where
  "show_int n = (if n < 0 then ''-'' @ show_nat (nat (- n)) else show_nat (nat n))"

text \<open>\<open>", ".join(names)\<close>\<close>

fun join_names :: "string list \<Rightarrow> string" where
  "join_names [] = ''''"
| "join_names [x] = x"
| "join_names (x # y # ys) = x @ '', '' @ join_names (y # ys)"

section \<open>Time\<close>

type_synonym datetime = int
type_synonym timedelta = int
type_synonym date = int
type_synonym time_of_day = int

definition seconds :: "int \<Rightarrow> timedelta" where
  "seconds n = n * 1000000"

definition minutes :: "int \<Rightarrow> timedelta" where
  "minutes n = n * 60000000"

section \<open>Dictionaries in insertion order\<close>

text \<open>\<open>d.setdefault(k, []).append(x)\<close>\<close>

fun dict_push :: "'k \<Rightarrow> 'v \<Rightarrow> ('k \<times> 'v list) list \<Rightarrow> ('k \<times> 'v list) list" where
  "dict_push k x [] = [(k, [x])]"
| "dict_push k x ((k', xs) # d) = (if k' = k then (k', xs @ [x]) # d else (k', xs) # dict_push k x d)"

definition dict_get :: "('k \<times> 'v) list \<Rightarrow> 'k \<Rightarrow> 'v \<Rightarrow> 'v" where
  "dict_get d k v0 = (case map_of d k of None \<Rightarrow> v0 | Some v \<Rightarrow> v)"

lemma dict_get_Nil [simp]: "dict_get [] k v0 = v0"
  by (simp add: dict_get_def)

lemma map_of_dict_push:
  "map_of (dict_push k x d) =
     (map_of d)(k \<mapsto> (case map_of d k of None \<Rightarrow> [x] | Some xs \<Rightarrow> xs @ [x]))"
  by (induction k x d rule: dict_push.induct) (auto simp: fun_eq_iff)

lemma dict_get_push:
  "dict_get (dict_push k x d) k' [] = (if k' = k then dict_get d k [] @ [x] else dict_get d k' [])"
  by (simp add: dict_get_def map_of_dict_push split: option.splits)

lemma keys_dict_push: "fst ` set (dict_push k x d) = insert k (fst ` set d)"
  by (induction k x d rule: dict_push.induct) auto

lemma distinct_dict_push:
  "distinct (map fst d) \<Longrightarrow> distinct (map fst (dict_push k x d))"
proof (induction k x d rule: dict_push.induct)
  case (2 k x k' xs d)
  then show ?case using keys_dict_push [of k x d] by (auto simp: image_iff)
qed simp

definition group_by :: "('a \<Rightarrow> 'k) \<Rightarrow> 'a list \<Rightarrow> ('k \<times> 'a list) list" where
  "group_by key xs = foldl (\<lambda>d x. dict_push (key x) x d) [] xs"

lemma group_by_snoc: "group_by key (xs @ [x]) = dict_push (key x) x (group_by key xs)"
  by (simp add: group_by_def)

lemma group_by_Nil [simp]: "group_by key [] = []"
  by (simp add: group_by_def)

lemma dict_get_group_by: "dict_get (group_by key xs) k [] = filter (\<lambda>x. key x = k) xs"
  by (induction xs rule: rev_induct) (auto simp: group_by_snoc dict_get_push)

lemma keys_group_by: "fst ` set (group_by key xs) = key ` set xs"
  by (induction xs rule: rev_induct) (auto simp: group_by_snoc keys_dict_push)

lemma distinct_group_by: "distinct (map fst (group_by key xs))"
  by (induction xs rule: rev_induct) (auto simp: group_by_snoc distinct_dict_push)

lemma group_by_member:
  assumes "(k, ys) \<in> set (group_by key xs)"
  shows "ys = filter (\<lambda>x. key x = k) xs"
proof -
  have "map_of (group_by key xs) k = Some ys"
    using assms distinct_group_by [of key xs] by (simp add: map_of_is_SomeI)
  then show ?thesis using dict_get_group_by [of key xs k] by (simp add: dict_get_def)
qed

section \<open>Sums over lists\<close>

lemma sum_list_map_filter_split:
  "sum_list (map f xs) =
     sum_list (map f (filter P xs)) + sum_list (map (f :: 'a \<Rightarrow> int) (filter (\<lambda>x. \<not> P x) xs))"
  by (induction xs) auto

lemma sum_list_mset:
  assumes "mset xs = mset ys"
  shows "(\<Sum>x \<leftarrow> xs. f x) = (\<Sum>x \<leftarrow> ys. f x :: int)"
proof -
  have "mset (map f xs) = mset (map f ys)" using assms by simp
  then show ?thesis by (metis sum_mset_sum_list)
qed

lemma sum_list_nonneg_int: "(\<And>x. x \<in> set xs \<Longrightarrow> 0 \<le> f x) \<Longrightarrow> 0 \<le> sum_list (map f xs :: int list)"
  by (induction xs) auto

lemma sum_list_mono_int:
  "(\<And>x. x \<in> set xs \<Longrightarrow> f x \<le> g x) \<Longrightarrow> sum_list (map f xs) \<le> sum_list (map g xs :: int list)"
  by (induction xs) (auto intro: add_mono)

lemma member_le_sum_list_int:
  "x \<in> set xs \<Longrightarrow> (\<And>y. y \<in> set xs \<Longrightarrow> 0 \<le> f y) \<Longrightarrow> f x \<le> sum_list (map f xs :: int list)"
proof (induction xs)
  case (Cons y ys)
  then show ?case using sum_list_nonneg_int [of ys f] by (fastforce intro: add_increasing)
qed simp

section \<open>Reordered lists\<close>

lemma distinct_map_mset: "mset xs = mset ys \<Longrightarrow> distinct (map f xs) \<longleftrightarrow> distinct (map f ys)"
  by (metis mset_eq_imp_distinct_iff mset_map)

lemma distinct_map_sort_key [simp]: "distinct (map f (sort_key k xs)) \<longleftrightarrow> distinct (map f xs)"
  by (rule distinct_map_mset) simp

lemma find_SomeD: "find P xs = Some x \<Longrightarrow> x \<in> set xs \<and> P x"
  by (induction xs) (auto split: if_splits)

end
