(* ===== verification/Schedule_Model.thy ===== *)
theory Schedule_Model
  imports Plant_Prelude
begin

text \<open>
  The data of \<open>schedule_solver.py\<close> (lines 7-134): candidate edges, crews, requirements,
  decisions, issues and results, and the small functions every solver there shares.
  Sequences are lists; a \<open>frozenset\<close> of names is a set.
\<close>

section \<open>Data\<close>

datatype preference = Primary | Regular | Occasional | Never

record candidate_rejection =
  rej_person :: string
  rej_code :: string
  rej_detail :: string

record candidate_edge =
  edge_person :: string
  edge_center :: string
  edge_level :: int
  edge_preference :: preference
  edge_rank_cost :: int

definition override_cost :: "candidate_edge \<Rightarrow> int" where
  "override_cost e = (if edge_preference e = Never then 1 else 0)"

record crew_option =
  crew_center :: string
  crew_members :: "candidate_edge list"

definition crew_people :: "crew_option \<Rightarrow> string list" where
  "crew_people option = map edge_person (crew_members option)"

record center_requirement =
  req_center :: string
  req_group :: string
  req_remaining_slots :: int
  req_protected_people :: "string list"
  req_candidates :: "candidate_edge list"
  req_crew_options :: "crew_option list"
  req_level_zero_people :: "string list"
  req_rejections :: "candidate_rejection list"
  req_unresolved_code :: string
  req_unresolved_message :: string

record assignment_decision =
  dec_center :: string
  dec_person :: string
  dec_level :: int
  dec_preference :: preference
  dec_reason_code :: string
  dec_reason :: string
  dec_rank_cost :: int

record coverage_issue =
  issue_center :: string
  issue_group :: string
  issue_code :: string
  issue_message :: string
  issue_rejections :: "candidate_rejection list"

record coverage_result =
  cov_decisions :: "assignment_decision list"
  cov_staffed_centers :: "string list"
  cov_unresolved_centers :: "string list"
  cov_issues :: "coverage_issue list"

definition assigned_people :: "coverage_result \<Rightarrow> string set" where
  "assigned_people r = set (map dec_person (cov_decisions r))"

record complete_center =
  cc_center :: string
  cc_group :: string
  cc_minimum :: int
  cc_capacity :: int
  cc_protected_people :: "string list"
  cc_crew_options :: "crew_option list"

record placement_issue =
  pi_code :: string
  pi_message :: string
  pi_person :: "string option"
  pi_centers :: "string list"
  pi_rejections :: "candidate_rejection list"

record complete_schedule_result =
  csr_complete :: bool
  csr_decisions :: "assignment_decision list"
  csr_placed_people :: "string list"
  csr_unplaced_people :: "string list"
  csr_staffed_centers :: "string list"
  csr_issues :: "placement_issue list"
  csr_total_cost :: int

section \<open>Shared functions\<close>

definition decision :: "candidate_edge \<Rightarrow> assignment_decision" where
  "decision edge =
     (let override = (edge_preference edge = Never)
      in \<lparr>dec_center = edge_center edge, dec_person = edge_person edge,
          dec_level = edge_level edge, dec_preference = edge_preference edge,
          dec_reason_code = (if override then ''preference_override'' else ''minimum_coverage''),
          dec_reason = (if override then ''Assigned despite Never to meet minimum coverage.''
                        else ''Assigned to meet minimum coverage.''),
          dec_rank_cost = edge_rank_cost edge\<rparr>)"

definition crew_decisions :: "crew_option \<Rightarrow> assignment_decision list" where
  "crew_decisions option = map decision (crew_members option)"

text \<open>The order in which crew options are tried: overrides, then cost, then names.\<close>

definition option_key :: "crew_option \<Rightarrow> int \<times> int \<times> string list" where
  "option_key option =
     (int (length (filter (\<lambda>m. edge_preference m = Never) (crew_members option))),
      (\<Sum>m \<leftarrow> crew_members option. edge_rank_cost m),
      map lower (crew_people option))"

text \<open>\<open>key=lambda item: (item.center.lower(), item.person.lower())\<close>\<close>

definition decision_key :: "assignment_decision \<Rightarrow> string \<times> string" where
  "decision_key d = (lower (dec_center d), lower (dec_person d))"

definition sort_decisions :: "assignment_decision list \<Rightarrow> assignment_decision list" where
  "sort_decisions ds = sort_key decision_key ds"

definition count_overrides :: "assignment_decision list \<Rightarrow> int" where
  "count_overrides ds = int (length (filter (\<lambda>d. dec_preference d = Never) ds))"

definition total_rank_cost :: "assignment_decision list \<Rightarrow> int" where
  "total_rank_cost ds = (\<Sum>d \<leftarrow> ds. dec_rank_cost d)"

text \<open>
  The position a \<open>dict\<close> comprehension over \<open>enumerate(names)\<close> stores for a name: with
  duplicates the last one wins.
\<close>

fun dict_index :: "string list \<Rightarrow> string \<Rightarrow> nat" where
  "dict_index [] x = 0"
| "dict_index (y # ys) x = (if x \<in> set ys then Suc (dict_index ys x) else 0)"

lemma dict_index_bound: "x \<in> set xs \<Longrightarrow> dict_index xs x < length xs"
  by (induction xs) auto

lemma dict_index_nth: "x \<in> set xs \<Longrightarrow> xs ! dict_index xs x = x"
  by (induction xs) auto

lemma dict_index_inj:
  "x \<in> set xs \<Longrightarrow> y \<in> set xs \<Longrightarrow> dict_index xs x = dict_index xs y \<longleftrightarrow> x = y"
  by (metis dict_index_nth)

lemma dict_index_of_nth: "distinct xs \<Longrightarrow> i < length xs \<Longrightarrow> dict_index xs (xs ! i) = i"
  by (induction xs arbitrary: i) (auto simp: nth_Cons split: nat.splits)

lemma decision_simps [simp]:
  "dec_center (decision e) = edge_center e"
  "dec_person (decision e) = edge_person e"
  "dec_level (decision e) = edge_level e"
  "dec_preference (decision e) = edge_preference e"
  "dec_rank_cost (decision e) = edge_rank_cost e"
  by (simp_all add: decision_def Let_def)

lemma override_cost_range: "override_cost e = 0 \<or> override_cost e = 1"
  by (simp add: override_cost_def)

lemma count_overrides_decisions:
  "count_overrides (map decision es) = (\<Sum>e \<leftarrow> es. override_cost e)"
  by (induction es) (auto simp: count_overrides_def override_cost_def)

lemma total_rank_cost_decisions: "total_rank_cost (map decision es) = (\<Sum>e \<leftarrow> es. edge_rank_cost e)"
  by (simp add: total_rank_cost_def comp_def)

lemma count_append [simp]:
  "count_overrides (xs @ ys) = count_overrides xs + count_overrides ys"
  "total_rank_cost (xs @ ys) = total_rank_cost xs + total_rank_cost ys"
  "count_overrides [] = 0" "total_rank_cost [] = 0"
  by (simp_all add: count_overrides_def total_rank_cost_def)

lemma set_sort_decisions [simp]: "set (sort_decisions ds) = set ds"
  by (simp add: sort_decisions_def)

lemma mset_sort_decisions [simp]: "mset (sort_decisions ds) = mset ds"
  by (simp add: sort_decisions_def)

lemma length_sort_decisions [simp]: "length (sort_decisions ds) = length ds"
  by (simp add: sort_decisions_def)

lemma sort_decisions_sums [simp]:
  "count_overrides (sort_decisions ds) = count_overrides ds"
  "total_rank_cost (sort_decisions ds) = total_rank_cost ds"
proof -
  have "mset (filter (\<lambda>d. dec_preference d = Never) (sort_decisions ds)) =
      mset (filter (\<lambda>d. dec_preference d = Never) ds)"
    by (simp only: mset_filter mset_sort_decisions)
  then show "count_overrides (sort_decisions ds) = count_overrides ds"
    unfolding count_overrides_def by (metis size_mset)
  have "mset (map dec_rank_cost (sort_decisions ds)) = mset (map dec_rank_cost ds)" by simp
  then show "total_rank_cost (sort_decisions ds) = total_rank_cost ds"
    unfolding total_rank_cost_def by (metis sum_mset_sum_list)
qed

lemma overrides_mset: "mset ds = mset ds' \<Longrightarrow> count_overrides ds = count_overrides ds'"
  unfolding count_overrides_def by (metis mset_filter size_mset)

lemma rank_cost_mset: "mset ds = mset ds' \<Longrightarrow> total_rank_cost ds = total_rank_cost ds'"
  unfolding total_rank_cost_def by (metis mset_map sum_mset_sum_list)

end
