(* ===== verification/Flow_Graph.thy ===== *)
theory Flow_Graph
  imports Plant_Prelude
begin

text \<open>
  The residual graph both schedule solvers of \<open>schedule_solver.py\<close> build and the
  shortest-augmenting-path loop both run on it (lines 137-149, 217-248 and 582-613).
  The graph is an adjacency list of arcs; every arc knows the position of its reverse in the
  adjacency list of its head. A loop that might not end, and a missing predecessor that would
  raise, are \<open>None\<close>; that neither happens is proved in \<open>Flow_Correctness\<close>.
\<close>

section \<open>Arcs and graphs\<close>

record arc =
  arc_to :: nat
  arc_reverse :: nat
  arc_capacity :: int
  arc_cost :: int

type_synonym graph = "arc list list"

text \<open>What the callers pass to \<open>_add_arc\<close>: start, end, capacity, cost.\<close>

type_synonym arc_spec = "nat \<times> nat \<times> int \<times> int"

definition add_arc :: "graph \<Rightarrow> nat \<Rightarrow> nat \<Rightarrow> int \<Rightarrow> int \<Rightarrow> graph \<times> nat" where
  "add_arc graph start end capacity cost =
     (let forward_index = length (graph ! start);
          forward = \<lparr>arc_to = end, arc_reverse = length (graph ! end),
                     arc_capacity = capacity, arc_cost = cost\<rparr>;
          graph1 = graph[start := graph ! start @ [forward]];
          backward = \<lparr>arc_to = start, arc_reverse = forward_index,
                      arc_capacity = 0, arc_cost = - cost\<rparr>
      in (graph1[end := graph1 ! end @ [backward]], forward_index))"

text \<open>A loop of \<open>_add_arc\<close> calls, collecting the returned indices.\<close>

fun add_arcs :: "graph \<Rightarrow> arc_spec list \<Rightarrow> graph \<times> nat list" where
  "add_arcs graph [] = (graph, [])"
| "add_arcs graph ((start, end, capacity, cost) # specs) =
     (let (graph1, index) = add_arc graph start end capacity cost;
          (graph2, indices) = add_arcs graph1 specs
      in (graph2, index # indices))"

definition empty_graph :: "nat \<Rightarrow> graph" where
  "empty_graph node_count = replicate node_count []"

section \<open>Queue-based shortest paths\<close>

record spfa =
  distance :: "int option list"
  previous :: "(nat \<times> nat) option list"
  pending :: "nat list"
  queued :: "nat set"

definition spfa_init :: "nat \<Rightarrow> nat \<Rightarrow> spfa" where
  "spfa_init node_count source =
     \<lparr>distance = (replicate node_count None)[source := Some 0],
      previous = replicate node_count None,
      pending = [source],
      queued = {source}\<rparr>"

definition improves :: "int \<Rightarrow> int option \<Rightarrow> bool" where
  "improves candidate old = (case old of None \<Rightarrow> True | Some d \<Rightarrow> candidate < d)"

definition relax :: "nat \<Rightarrow> int \<Rightarrow> nat \<times> arc \<Rightarrow> spfa \<Rightarrow> spfa" where
  "relax node node_distance = (\<lambda>(arc_index, arc) st.
     (let candidate = node_distance + arc_cost arc
      in if arc_capacity arc \<noteq> 0 \<and> improves candidate (distance st ! arc_to arc)
         then (let st1 = st\<lparr>distance := (distance st)[arc_to arc := Some candidate],
                            previous := (previous st)[arc_to arc := Some (node, arc_index)]\<rparr>
               in if arc_to arc \<notin> queued st1
                  then st1\<lparr>pending := pending st1 @ [arc_to arc],
                           queued := insert (arc_to arc) (queued st1)\<rparr>
                  else st1)
         else st))"

definition relax_arcs :: "nat \<Rightarrow> int \<Rightarrow> (nat \<times> arc) list \<Rightarrow> spfa \<Rightarrow> spfa" where
  "relax_arcs node node_distance arcs st = fold (relax node node_distance) arcs st"

definition spfa_step :: "graph \<Rightarrow> spfa \<Rightarrow> spfa" where
  "spfa_step graph st =
     (case pending st of
        [] \<Rightarrow> st
      | node # rest \<Rightarrow>
          (let st1 = st\<lparr>pending := rest, queued := queued st - {node}\<rparr>
           in case distance st1 ! node of
                None \<Rightarrow> st1
              | Some node_distance \<Rightarrow>
                  relax_arcs node node_distance (enumerate 0 (graph ! node)) st1))"

partial_function (option) spfa_loop :: "graph \<Rightarrow> spfa \<Rightarrow> spfa option" where
  "spfa_loop graph st =
     (if pending st = [] then Some st else spfa_loop graph (spfa_step graph st))"

section \<open>Augmentation\<close>

text \<open>One step back along the path: an arc loses a unit of capacity, its reverse gains one.\<close>

definition push_arc :: "graph \<Rightarrow> nat \<Rightarrow> nat \<Rightarrow> nat \<Rightarrow> graph" where
  "push_arc graph prior_node arc_index node =
     (let arc = graph ! prior_node ! arc_index;
          graph1 = graph[prior_node := (graph ! prior_node)
                     [arc_index := arc\<lparr>arc_capacity := arc_capacity arc - 1\<rparr>]];
          back = graph1 ! node ! arc_reverse arc
      in graph1[node := (graph1 ! node)
           [arc_reverse arc := back\<lparr>arc_capacity := arc_capacity back + 1\<rparr>]])"

partial_function (option) augment ::
    "nat \<Rightarrow> (nat \<times> nat) option list \<Rightarrow> graph \<Rightarrow> nat \<Rightarrow> graph option" where
  "augment source prev graph node =
     (if node = source then Some graph
      else case prev ! node of
             None \<Rightarrow> None
           | Some (prior_node, arc_index) \<Rightarrow>
               augment source prev (push_arc graph prior_node arc_index node) prior_node)"

section \<open>The flow loop\<close>

partial_function (option) flow_loop :: "nat \<Rightarrow> nat \<Rightarrow> graph \<Rightarrow> graph option" where
  "flow_loop source sink graph =
     Option.bind (spfa_loop graph (spfa_init (length graph) source)) (\<lambda>st.
       case previous st ! sink of
         None \<Rightarrow> Some graph
       | Some _ \<Rightarrow>
           Option.bind (augment source (previous st) graph sink) (\<lambda>graph'.
             flow_loop source sink graph'))"

declare spfa_loop.simps [code] augment.simps [code] flow_loop.simps [code]

end
