(* ===== verification/Flow_Search.thy ===== *)
theory Flow_Search
  imports Flow_Graph
begin

text \<open>
  Correctness of the queue-based search of \<open>Flow_Graph\<close>. A graph with a feasible potential
  (a node labelling under which no arc with capacity is shorter than the drop in potential, so
  that there is no negative cycle) makes the search stop with exact distances and a predecessor
  tree of tight arcs that leads back to the source.
\<close>

section \<open>Well-formed residual graphs\<close>

definition wf_arc :: "graph \<Rightarrow> nat \<Rightarrow> nat \<Rightarrow> bool" where
  "wf_arc g u i =
     (let a = g ! u ! i
      in arc_to a < length g \<and> arc_to a \<noteq> u \<and> 0 \<le> arc_capacity a \<and>
         arc_reverse a < length (g ! arc_to a) \<and>
         (let b = g ! arc_to a ! arc_reverse a
          in arc_to b = u \<and> arc_reverse b = i \<and> arc_cost b = - arc_cost a))"

definition wf_graph :: "graph \<Rightarrow> bool" where
  "wf_graph g = (\<forall>u < length g. \<forall>i < length (g ! u). wf_arc g u i)"

text \<open>A potential under which every arc with capacity has a nonnegative reduced cost.\<close>

definition feasible :: "(nat \<Rightarrow> int) \<Rightarrow> graph \<Rightarrow> bool" where
  "feasible p g =
     (\<forall>u < length g. \<forall>i < length (g ! u).
        arc_capacity (g ! u ! i) \<noteq> 0 \<longrightarrow> p (arc_to (g ! u ! i)) \<le> p u + arc_cost (g ! u ! i))"

lemma wf_graphD:
  assumes "wf_graph g" and "u < length g" and "i < length (g ! u)"
  shows "arc_to (g ! u ! i) < length g" and "arc_to (g ! u ! i) \<noteq> u"
    and "0 \<le> arc_capacity (g ! u ! i)"
    and "arc_reverse (g ! u ! i) < length (g ! arc_to (g ! u ! i))"
    and "arc_to (g ! arc_to (g ! u ! i) ! arc_reverse (g ! u ! i)) = u"
    and "arc_reverse (g ! arc_to (g ! u ! i) ! arc_reverse (g ! u ! i)) = i"
    and "arc_cost (g ! arc_to (g ! u ! i) ! arc_reverse (g ! u ! i)) = - arc_cost (g ! u ! i)"
  using assms by (auto simp: wf_graph_def wf_arc_def Let_def)

lemma feasibleD:
  "feasible p g \<Longrightarrow> u < length g \<Longrightarrow> i < length (g ! u) \<Longrightarrow> arc_capacity (g ! u ! i) \<noteq> 0 \<Longrightarrow>
     p (arc_to (g ! u ! i)) \<le> p u + arc_cost (g ! u ! i)"
  by (simp add: feasible_def)

section \<open>The invariant of the search\<close>

text \<open>The predecessor relation: parent, child.\<close>

definition parents :: "spfa \<Rightarrow> (nat \<times> nat) set" where
  "parents st = {(u, v). v < length (previous st) \<and> (\<exists>i. previous st ! v = Some (u, i))}"

definition tight_tree :: "graph \<Rightarrow> spfa \<Rightarrow> bool" where
  "tight_tree g st =
     (\<forall>v < length g. \<forall>u i. previous st ! v = Some (u, i) \<longrightarrow>
        u < length g \<and> i < length (g ! u) \<and> arc_to (g ! u ! i) = v \<and> arc_capacity (g ! u ! i) \<noteq> 0 \<and>
        (\<exists>du dv. distance st ! u = Some du \<and> distance st ! v = Some dv \<and>
                 du + arc_cost (g ! u ! i) \<le> dv))"

definition search_inv :: "graph \<Rightarrow> (nat \<Rightarrow> int) \<Rightarrow> nat \<Rightarrow> spfa \<Rightarrow> bool" where
  "search_inv g p s st =
     (length (distance st) = length g \<and> length (previous st) = length g \<and>
      distance st ! s = Some 0 \<and> previous st ! s = None \<and>
      (\<forall>v < length g. \<forall>d. distance st ! v = Some d \<longrightarrow> p v \<le> d) \<and>
      (\<forall>v < length g. v \<noteq> s \<longrightarrow> (distance st ! v = None) = (previous st ! v = None)) \<and>
      tight_tree g st \<and> acyclic (parents st) \<and>
      set (pending st) \<subseteq> {..<length g} \<and> distinct (pending st) \<and> queued st = set (pending st))"

definition arc_relaxed :: "graph \<Rightarrow> spfa \<Rightarrow> nat \<Rightarrow> nat \<Rightarrow> bool" where
  "arc_relaxed g st u i =
     (arc_capacity (g ! u ! i) \<noteq> 0 \<longrightarrow>
        (\<forall>du. distance st ! u = Some du \<longrightarrow>
           (\<exists>dv. distance st ! arc_to (g ! u ! i) = Some dv \<and> dv \<le> du + arc_cost (g ! u ! i))))"

definition settled_inv :: "graph \<Rightarrow> spfa \<Rightarrow> bool" where
  "settled_inv g st =
     (\<forall>u < length g. u \<notin> set (pending st) \<longrightarrow> (\<forall>i < length (g ! u). arc_relaxed g st u i))"

definition unreached :: "graph \<Rightarrow> spfa \<Rightarrow> nat" where
  "unreached g st = card {v. v < length g \<and> distance st ! v = None}"

definition slack :: "graph \<Rightarrow> (nat \<Rightarrow> int) \<Rightarrow> spfa \<Rightarrow> nat" where
  "slack g p st =
     (\<Sum>v < length g. case distance st ! v of None \<Rightarrow> 0 | Some d \<Rightarrow> nat (d - p v))"

definition progress :: "graph \<Rightarrow> (nat \<Rightarrow> int) \<Rightarrow> (spfa \<times> spfa) set" where
  "progress g p = measures [unreached g, slack g p]"

lemma trans_progress: "trans (progress g p)"
  by (auto simp: progress_def intro!: trans_def [THEN iffD2])

text \<open>Distances only ever drop, and only for nodes that are then pending.\<close>

definition improves_to :: "graph \<Rightarrow> spfa \<Rightarrow> spfa \<Rightarrow> bool" where
  "improves_to g st st' =
     ((\<forall>v < length g. \<forall>d. distance st ! v = Some d \<longrightarrow> (\<exists>d'. distance st' ! v = Some d' \<and> d' \<le> d)) \<and>
      (\<forall>v < length g. v \<notin> set (pending st') \<longrightarrow> distance st' ! v = distance st ! v) \<and>
      set (pending st) \<subseteq> set (pending st'))"

lemma improves_to_refl [simp]: "improves_to g st st"
  by (simp add: improves_to_def)

lemma improves_toD:
  assumes "improves_to g st st'" and "v < length g"
  shows "distance st ! v = Some d \<Longrightarrow> \<exists>d'. distance st' ! v = Some d' \<and> d' \<le> d"
    and "v \<notin> set (pending st') \<Longrightarrow> distance st' ! v = distance st ! v"
  using assms by (simp_all add: improves_to_def)

lemma improves_to_trans:
  assumes ab: "improves_to g a b" and bc: "improves_to g b c"
  shows "improves_to g a c"
  unfolding improves_to_def
proof (intro conjI allI impI)
  fix v d assume v: "v < length g" and d: "distance a ! v = Some d"
  obtain d' where d': "distance b ! v = Some d'" "d' \<le> d"
    using improves_toD(1) [OF ab v d] by blast
  obtain d'' where "distance c ! v = Some d''" "d'' \<le> d'"
    using improves_toD(1) [OF bc v d'(1)] by blast
  with d' show "\<exists>d'. distance c ! v = Some d' \<and> d' \<le> d" by auto
next
  fix v assume v: "v < length g" and np: "v \<notin> set (pending c)"
  then have "v \<notin> set (pending b)" using bc by (auto simp: improves_to_def)
  then show "distance c ! v = distance a ! v"
    using improves_toD(2) [OF ab v] improves_toD(2) [OF bc v np] by simp
next
  show "set (pending a) \<subseteq> set (pending c)"
    using ab bc by (auto simp: improves_to_def)
qed

lemma arc_relaxed_improves:
  assumes rel: "arc_relaxed g st u i" and imp: "improves_to g st st'"
    and to: "arc_to (g ! u ! i) < length g"
    and same: "distance st' ! u = distance st ! u"
  shows "arc_relaxed g st' u i"
  unfolding arc_relaxed_def
proof (intro impI allI)
  fix du assume cap: "arc_capacity (g ! u ! i) \<noteq> 0" and "distance st' ! u = Some du"
  then obtain dv where dv: "distance st ! arc_to (g ! u ! i) = Some dv"
      "dv \<le> du + arc_cost (g ! u ! i)"
    using rel same by (auto simp: arc_relaxed_def)
  obtain d' where "distance st' ! arc_to (g ! u ! i) = Some d'" "d' \<le> dv"
    using improves_toD(1) [OF imp to dv(1)] by blast
  with dv(2) show "\<exists>dv. distance st' ! arc_to (g ! u ! i) = Some dv \<and> dv \<le> du + arc_cost (g ! u ! i)"
    by auto
qed

section \<open>One relaxation\<close>

text \<open>Labels reduced by the potential never decrease from parent to child.\<close>

definition reduced :: "(nat \<Rightarrow> int) \<Rightarrow> spfa \<Rightarrow> nat \<Rightarrow> int" where
  "reduced p st v = the (distance st ! v) - p v"

lemma parents_reduced_mono:
  assumes inv: "search_inv g p s st" and feas: "feasible p g" and uv: "(u, v) \<in> parents st"
  shows "reduced p st u \<le> reduced p st v \<and> distance st ! u \<noteq> None"
proof -
  from uv inv obtain i where v: "v < length g" and pv: "previous st ! v = Some (u, i)"
    by (auto simp: parents_def search_inv_def)
  then obtain du dv where u: "u < length g" and i: "i < length (g ! u)"
    and to: "arc_to (g ! u ! i) = v" and cap: "arc_capacity (g ! u ! i) \<noteq> 0"
    and d: "distance st ! u = Some du" "distance st ! v = Some dv" "du + arc_cost (g ! u ! i) \<le> dv"
    using inv unfolding search_inv_def tight_tree_def by blast
  from feasibleD [OF feas u i cap] to have "p v \<le> p u + arc_cost (g ! u ! i)" by simp
  with d show ?thesis by (simp add: reduced_def)
qed

lemma parents_rtrancl_reduced:
  assumes inv: "search_inv g p s st" and feas: "feasible p g" and uv: "(u, v) \<in> (parents st)\<^sup>*"
  shows "reduced p st u \<le> reduced p st v"
  using uv
proof (induction rule: rtrancl_induct)
  case (step y z)
  then show ?case using parents_reduced_mono [OF inv feas step(2)] by simp
qed simp

lemma no_cycle_through_improved:
  assumes inv: "search_inv g p s st" and feas: "feasible p g"
    and node: "node < length g" and i: "i < length (g ! node)"
    and cap: "arc_capacity (g ! node ! i) \<noteq> 0"
    and dn: "distance st ! node = Some nd" and ne: "arc_to (g ! node ! i) \<noteq> node"
    and better: "improves (nd + arc_cost (g ! node ! i)) (distance st ! arc_to (g ! node ! i))"
  shows "(arc_to (g ! node ! i), node) \<notin> (parents st)\<^sup>*"
proof
  let ?v = "arc_to (g ! node ! i)"
  assume path: "(?v, node) \<in> (parents st)\<^sup>*"
  with ne obtain y where y: "(?v, y) \<in> parents st"
    by (meson converse_rtranclE)
  have reached: "distance st ! ?v \<noteq> None"
    using parents_reduced_mono [OF inv feas y] by simp
  then obtain dv where dv: "distance st ! ?v = Some dv" by blast
  have "reduced p st ?v \<le> reduced p st node"
    by (rule parents_rtrancl_reduced [OF inv feas path])
  moreover have "p ?v \<le> p node + arc_cost (g ! node ! i)"
    by (rule feasibleD [OF feas node i cap])
  moreover have "nd + arc_cost (g ! node ! i) < dv"
    using better dv by (simp add: improves_def)
  ultimately show False using dn dv by (simp add: reduced_def)
qed

text \<open>The two outcomes of \<open>relax\<close>: nothing, or the head of the arc gets a new label and parent.\<close>

definition improved :: "nat \<Rightarrow> nat \<Rightarrow> nat \<Rightarrow> int \<Rightarrow> spfa \<Rightarrow> spfa" where
  "improved node i v c st =
     \<lparr>distance = (distance st)[v := Some c], previous = (previous st)[v := Some (node, i)],
      pending = (if v \<in> queued st then pending st else pending st @ [v]),
      queued = insert v (queued st)\<rparr>"

lemma relax_cases:
  "relax node nd (i, a) st =
     (if arc_capacity a \<noteq> 0 \<and> improves (nd + arc_cost a) (distance st ! arc_to a)
      then improved node i (arc_to a) (nd + arc_cost a) st else st)"
  by (auto simp: relax_def improved_def Let_def insert_absorb)

lemma improved_improves_to:
  assumes inv: "search_inv g p s st" and better: "improves c (distance st ! v)"
    and v: "v < length g"
  shows "improves_to g st (improved node i v c st)"
proof -
  have len: "length (distance st) = length g" and q: "queued st = set (pending st)"
    using inv by (simp_all add: search_inv_def)
  show ?thesis
    using better v len q
    by (auto simp: improves_to_def improved_def nth_list_update improves_def split: if_splits)
qed

lemma improved_parents:
  assumes "v < length (previous st)"
  shows "parents (improved node i v c st) \<subseteq> insert (node, v) (parents st)"
  using assms by (auto simp: parents_def improved_def nth_list_update split: if_splits)

lemma source_not_improved:
  assumes inv: "search_inv g p s st" and feas: "feasible p g" and ps: "p s = 0"
    and node: "node < length g" and i: "i < length (g ! node)"
    and cap: "arc_capacity (g ! node ! i) \<noteq> 0" and dn: "distance st ! node = Some nd"
    and better: "improves (nd + arc_cost (g ! node ! i)) (distance st ! arc_to (g ! node ! i))"
  shows "arc_to (g ! node ! i) \<noteq> s"
proof
  assume s: "arc_to (g ! node ! i) = s"
  have "p node \<le> nd" using inv node dn by (auto simp: search_inv_def)
  moreover have "distance st ! s = Some 0" using inv by (simp add: search_inv_def)
  ultimately show False
    using feasibleD [OF feas node i cap] better s ps by (simp add: improves_def)
qed

lemma improved_tight_tree:
  assumes inv: "search_inv g p s st" and wf: "wf_graph g"
    and node: "node < length g" and i: "i < length (g ! node)"
    and cap: "arc_capacity (g ! node ! i) \<noteq> 0" and dn: "distance st ! node = Some nd"
    and better: "improves (nd + arc_cost (g ! node ! i)) (distance st ! arc_to (g ! node ! i))"
  shows "tight_tree g (improved node i (arc_to (g ! node ! i)) (nd + arc_cost (g ! node ! i)) st)"
    (is "tight_tree g ?st")
  unfolding tight_tree_def
proof (intro allI impI)
  let ?v = "arc_to (g ! node ! i)"
  note wfD = wf_graphD [OF wf node i]
  have len: "length (distance st) = length g" "length (previous st) = length g"
    and tree: "tight_tree g st" using inv by (simp_all add: search_inv_def)
  fix w u j assume w: "w < length g" and pw: "previous ?st ! w = Some (u, j)"
  show "u < length g \<and> j < length (g ! u) \<and> arc_to (g ! u ! j) = w \<and> arc_capacity (g ! u ! j) \<noteq> 0 \<and>
    (\<exists>du dw. distance ?st ! u = Some du \<and> distance ?st ! w = Some dw \<and> du + arc_cost (g ! u ! j) \<le> dw)"
  proof (cases "w = ?v")
    case True
    then have "u = node" "j = i" using pw w len by (simp_all add: improved_def)
    then show ?thesis
      using True node i cap dn len wfD(1,2) by (auto simp: improved_def)
  next
    case False
    then have "previous st ! w = Some (u, j)" using pw by (simp add: improved_def)
    then obtain du dw where u: "u < length g" "j < length (g ! u)" "arc_to (g ! u ! j) = w"
      "arc_capacity (g ! u ! j) \<noteq> 0"
      and d: "distance st ! u = Some du" "distance st ! w = Some dw" "du + arc_cost (g ! u ! j) \<le> dw"
      using tree w unfolding tight_tree_def by blast
    show ?thesis
    proof (cases "u = ?v")
      case True
      then have "nd + arc_cost (g ! node ! i) < du" using better d(1) by (simp add: improves_def)
      then show ?thesis using u d False True len by (auto simp: improved_def)
    next
      case nv: False
      show ?thesis using u d False nv by (auto simp: improved_def)
    qed
  qed
qed

lemma improved_search_inv:
  assumes inv: "search_inv g p s st" and wf: "wf_graph g" and feas: "feasible p g" and ps: "p s = 0"
    and node: "node < length g" and i: "i < length (g ! node)"
    and cap: "arc_capacity (g ! node ! i) \<noteq> 0" and dn: "distance st ! node = Some nd"
    and better: "improves (nd + arc_cost (g ! node ! i)) (distance st ! arc_to (g ! node ! i))"
  shows "search_inv g p s (improved node i (arc_to (g ! node ! i)) (nd + arc_cost (g ! node ! i)) st)"
    (is "search_inv g p s ?st")
proof -
  let ?v = "arc_to (g ! node ! i)"
  note wfD = wf_graphD [OF wf node i]
  have len: "length (distance st) = length g" "length (previous st) = length g"
    and lb: "\<forall>v < length g. \<forall>d. distance st ! v = Some d \<longrightarrow> p v \<le> d"
    and acyc: "acyclic (parents st)"
    using inv by (simp_all add: search_inv_def)
  have vs: "?v \<noteq> s"
    by (rule source_not_improved [OF inv feas ps node i cap dn better])
  have tree: "tight_tree g ?st"
    by (rule improved_tight_tree [OF inv wf node i cap dn better])
  have "p node \<le> nd" using lb node dn by blast
  then have pv: "p ?v \<le> nd + arc_cost (g ! node ! i)"
    using feasibleD [OF feas node i cap] by linarith
  have "acyclic (insert (node, ?v) (parents st))"
    using acyc no_cycle_through_improved [OF inv feas node i cap dn wfD(2) better]
    by (simp add: acyclic_insert)
  then have acyc': "acyclic (parents ?st)"
    by (rule acyclic_subset) (rule improved_parents, simp add: wfD(1) len)
  show ?thesis
    using inv vs tree acyc' wfD(1) pv len
    by (auto simp: search_inv_def improved_def nth_list_update split: if_splits)
qed

lemma improved_progress:
  assumes inv: "search_inv g p s st" and v: "v < length g"
    and better: "improves c (distance st ! v)" and pv: "p v \<le> c"
  shows "(improved node i v c st, st) \<in> progress g p"
proof -
  let ?st = "improved node i v c st"
  have len: "length (distance st) = length g" using inv by (simp add: search_inv_def)
  have fin: "finite {w. w < length g \<and> distance st ! w = None}" by simp
  show ?thesis
  proof (cases "distance st ! v")
    case None
    have "{w. w < length g \<and> distance ?st ! w = None} \<subset> {w. w < length g \<and> distance st ! w = None}"
      using None v len by (auto simp: improved_def nth_list_update split: if_splits)
    then have "unreached g ?st < unreached g st"
      unfolding unreached_def by (rule psubset_card_mono [OF fin])
    then show ?thesis by (simp add: progress_def)
  next
    case (Some d)
    have "{w. w < length g \<and> distance ?st ! w = None} = {w. w < length g \<and> distance st ! w = None}"
      using Some v len by (auto simp: improved_def nth_list_update split: if_splits)
    then have same: "unreached g ?st = unreached g st" by (simp add: unreached_def)
    have "slack g p ?st < slack g p st"
      unfolding slack_def
    proof (rule sum_strict_mono_ex1)
      show "\<forall>w \<in> {..<length g}.
        (case distance ?st ! w of None \<Rightarrow> 0 | Some d \<Rightarrow> nat (d - p w))
          \<le> (case distance st ! w of None \<Rightarrow> 0 | Some d \<Rightarrow> nat (d - p w))"
        using Some better len v
        by (auto simp: improved_def nth_list_update improves_def split: option.splits if_splits)
      show "\<exists>w \<in> {..<length g}.
        (case distance ?st ! w of None \<Rightarrow> 0 | Some d \<Rightarrow> nat (d - p w))
          < (case distance st ! w of None \<Rightarrow> 0 | Some d \<Rightarrow> nat (d - p w))"
        using Some better pv v len by (intro bexI [of _ v]) (auto simp: improved_def improves_def)
    qed simp
    with same show ?thesis by (simp add: progress_def)
  qed
qed

section \<open>All arcs of a node\<close>

lemma relax_preserves:
  assumes inv: "search_inv g p s st" and wf: "wf_graph g" and feas: "feasible p g" and ps: "p s = 0"
    and node: "node < length g" and i: "i < length (g ! node)" and dn: "distance st ! node = Some nd"
  shows "search_inv g p s (relax node nd (i, g ! node ! i) st)" (is ?I)
    and "improves_to g st (relax node nd (i, g ! node ! i) st)" (is ?M)
    and "distance (relax node nd (i, g ! node ! i) st) ! node = Some nd" (is ?D)
    and "arc_relaxed g (relax node nd (i, g ! node ! i) st) node i" (is ?R)
    and "relax node nd (i, g ! node ! i) st = st \<or>
         (relax node nd (i, g ! node ! i) st, st) \<in> progress g p" (is ?P)
proof -
  let ?a = "g ! node ! i" and ?st = "relax node nd (i, g ! node ! i) st"
  let ?c = "nd + arc_cost ?a"
  note wfD = wf_graphD [OF wf node i]
  have len: "length (distance st) = length g" using inv by (simp add: search_inv_def)
  have pn: "p node \<le> nd" using inv node dn by (auto simp: search_inv_def)
  have "?I \<and> ?M \<and> ?D \<and> ?R \<and> ?P"
  proof (cases "arc_capacity ?a \<noteq> 0 \<and> improves ?c (distance st ! arc_to ?a)")
    case True
    then have cap: "arc_capacity ?a \<noteq> 0" and better: "improves ?c (distance st ! arc_to ?a)"
      by simp_all
    have eq: "?st = improved node i (arc_to ?a) ?c st" using True by (simp add: relax_cases)
    have "p (arc_to ?a) \<le> ?c" using feasibleD [OF feas node i cap] pn by linarith
    moreover have "distance ?st ! node = Some nd" and "distance ?st ! arc_to ?a = Some ?c"
      using eq dn wfD len by (simp_all add: improved_def)
    ultimately show ?thesis
      using improved_search_inv [OF inv wf feas ps node i cap dn better]
        improved_improves_to [OF inv better wfD(1)] improved_progress [OF inv wfD(1) better]
        eq by (auto simp: arc_relaxed_def)
  next
    case False
    then have "?st = st" by (auto simp: relax_cases)
    moreover have "arc_relaxed g st node i"
      using False dn by (auto simp: arc_relaxed_def improves_def split: option.splits)
    ultimately show ?thesis using inv dn by simp
  qed
  then show ?I ?M ?D ?R ?P by simp_all
qed

lemma relax_arcs_preserves:
  assumes "search_inv g p s st" and wf: "wf_graph g" and feas: "feasible p g" and ps: "p s = 0"
    and node: "node < length g" and "distance st ! node = Some nd"
    and "\<forall>(i, a) \<in> set arcs. i < length (g ! node) \<and> a = g ! node ! i"
  shows "search_inv g p s (relax_arcs node nd arcs st) \<and>
    improves_to g st (relax_arcs node nd arcs st) \<and>
    distance (relax_arcs node nd arcs st) ! node = Some nd \<and>
    (\<forall>(i, a) \<in> set arcs. arc_relaxed g (relax_arcs node nd arcs st) node i) \<and>
    (relax_arcs node nd arcs st = st \<or> (relax_arcs node nd arcs st, st) \<in> progress g p)"
  using assms(1,6,7)
proof (induction arcs arbitrary: st)
  case Nil
  then show ?case by (simp add: relax_arcs_def)
next
  case (Cons ia arcs)
  obtain i a where ia: "ia = (i, a)" by (cases ia)
  with Cons.prems(3) have i: "i < length (g ! node)" and a: "a = g ! node ! i" by auto
  let ?st = "relax node nd (i, g ! node ! i) st"
  note one = relax_preserves [OF Cons.prems(1) wf feas ps node i Cons.prems(2)]
  have rest: "\<forall>(i, a) \<in> set arcs. i < length (g ! node) \<and> a = g ! node ! i"
    using Cons.prems(3) by simp
  have step: "relax_arcs node nd (ia # arcs) st = relax_arcs node nd arcs ?st"
    using ia a by (simp add: relax_arcs_def)
  note IH = Cons.IH [OF one(1,3) rest]
  let ?last = "relax_arcs node nd arcs ?st"
  have to: "arc_to (g ! node ! i) < length g" by (rule wf_graphD(1) [OF wf node i])
  have "arc_relaxed g ?last node i"
    by (rule arc_relaxed_improves [OF one(4)]) (use IH one(3) to in auto)
  moreover have "improves_to g st ?last"
    by (rule improves_to_trans [OF one(2)]) (use IH in simp)
  moreover have "?last = st \<or> (?last, st) \<in> progress g p"
    using IH one(5) trans_progress [of g p] by (auto dest: transD)
  ultimately show ?case unfolding step using IH by (auto simp: ia)
qed

section \<open>One step and the whole search\<close>

lemma settled_step:
  assumes set0: "settled_inv g st" and wf: "wf_graph g" and pend: "pending st = node # rest"
    and imp: "improves_to g (st\<lparr>pending := rest, queued := q\<rparr>) st'"
    and relaxed: "\<forall>i < length (g ! node). arc_relaxed g st' node i"
  shows "settled_inv g st'"
  unfolding settled_inv_def
proof (intro allI impI)
  let ?st = "st\<lparr>pending := rest, queued := q\<rparr>"
  fix u i assume u: "u < length g" and np: "u \<notin> set (pending st')" and i: "i < length (g ! u)"
  show "arc_relaxed g st' u i"
  proof (cases "u = node")
    case True
    then show ?thesis using relaxed i by simp
  next
    case False
    have "set rest \<subseteq> set (pending st')" using imp by (simp add: improves_to_def)
    then have "u \<notin> set (pending st)" using np False pend by auto
    then have "arc_relaxed g st u i" using set0 u i by (simp add: settled_inv_def)
    then have "arc_relaxed g ?st u i" by (simp add: arc_relaxed_def)
    then show ?thesis
      using imp wf_graphD(1) [OF wf u i] improves_toD(2) [OF imp u np]
      by (rule arc_relaxed_improves)
  qed
qed

lemma pending_reached:
  assumes inv: "search_inv g p s st" and feas: "feasible p g"
    and "v < length g" and "previous st ! v \<noteq> None \<or> v = s"
  shows "distance st ! v \<noteq> None"
  using assms by (auto simp: search_inv_def)

definition spfa_order :: "graph \<Rightarrow> (nat \<Rightarrow> int) \<Rightarrow> (spfa \<times> spfa) set" where
  "spfa_order g p = measures [unreached g, slack g p, length \<circ> pending]"

lemma wf_spfa_order: "wf (spfa_order g p)"
  by (simp add: spfa_order_def)

lemma progress_spfa_order: "(st', st) \<in> progress g p \<Longrightarrow> (st', st) \<in> spfa_order g p"
  by (auto simp: progress_def spfa_order_def)

lemma search_inv_pop:
  assumes "search_inv g p s st" and "pending st = node # rest"
  shows "search_inv g p s (st\<lparr>pending := rest, queued := queued st - {node}\<rparr>)"
  using assms by (auto simp: search_inv_def tight_tree_def parents_def)

lemma measure_pop:
  "unreached g (st\<lparr>pending := rest, queued := q\<rparr>) = unreached g st"
  "slack g p (st\<lparr>pending := rest, queued := q\<rparr>) = slack g p st"
  by (simp_all add: unreached_def slack_def)

lemma spfa_step_preserves:
  assumes inv: "search_inv g p s st" and settled: "settled_inv g st"
    and wf: "wf_graph g" and feas: "feasible p g" and ps: "p s = 0" and ne: "pending st \<noteq> []"
  shows "search_inv g p s (spfa_step g st) \<and> settled_inv g (spfa_step g st) \<and>
    (spfa_step g st, st) \<in> spfa_order g p"
proof -
  obtain node rest where pend: "pending st = node # rest" using ne by (cases "pending st") auto
  let ?st = "st\<lparr>pending := rest, queued := queued st - {node}\<rparr>"
  have inv1: "search_inv g p s ?st" by (rule search_inv_pop [OF inv pend])
  have node: "node < length g" using inv pend by (simp add: search_inv_def)
  have smaller: "(?st, st) \<in> spfa_order g p"
    using pend by (simp add: spfa_order_def measure_pop)
  show ?thesis
  proof (cases "distance ?st ! node")
    case None
    have "\<forall>i < length (g ! node). arc_relaxed g ?st node i"
      using None by (simp add: arc_relaxed_def)
    then have "settled_inv g ?st"
      by (rule settled_step [OF settled wf pend improves_to_refl])
    then show ?thesis using None inv1 smaller pend by (simp add: spfa_step_def Let_def)
  next
    case (Some nd)
    let ?arcs = "enumerate 0 (g ! node)"
    let ?last = "relax_arcs node nd ?arcs ?st"
    have arcs: "\<forall>(i, a) \<in> set ?arcs. i < length (g ! node) \<and> a = g ! node ! i"
      by (auto simp: in_set_enumerate_eq)
    have eq: "spfa_step g st = ?last" using Some pend by (simp add: spfa_step_def Let_def)
    note all = relax_arcs_preserves [OF inv1 wf feas ps node Some arcs]
    have "\<forall>i < length (g ! node). arc_relaxed g ?last node i"
      using all by (auto simp: in_set_enumerate_eq)
    then have "settled_inv g ?last"
      using all by (blast intro: settled_step [OF settled wf pend])
    moreover have "(?last, st) \<in> spfa_order g p"
    proof (cases "?last = ?st")
      case False
      then have "(?last, ?st) \<in> progress g p" using all by blast
      then show ?thesis by (auto simp: progress_def spfa_order_def measure_pop)
    qed (use smaller in simp)
    ultimately show ?thesis using all eq by simp
  qed
qed

lemma spfa_loop_total:
  assumes "search_inv g p s st" and "settled_inv g st"
    and wf: "wf_graph g" and feas: "feasible p g" and ps: "p s = 0"
  shows "\<exists>st'. spfa_loop g st = Some st' \<and> search_inv g p s st' \<and> settled_inv g st' \<and>
    pending st' = []"
  using assms(1,2)
proof (induction st rule: wf_induct_rule [OF wf_spfa_order [of g p]])
  case (1 st)
  show ?case
  proof (cases "pending st = []")
    case True
    then show ?thesis using "1.prems" by (simp add: spfa_loop.simps [of g st])
  next
    case False
    note step = spfa_step_preserves [OF "1.prems" wf feas ps False]
    then have "\<exists>st'. spfa_loop g (spfa_step g st) = Some st' \<and> search_inv g p s st' \<and>
        settled_inv g st' \<and> pending st' = []"
      by (blast intro: "1.IH")
    then show ?thesis using False by (simp add: spfa_loop.simps [of g st])
  qed
qed

lemma spfa_init_inv:
  assumes s: "s < length g" and ps: "p s = 0"
  shows "search_inv g p s (spfa_init (length g) s) \<and> settled_inv g (spfa_init (length g) s)"
proof -
  have "parents (spfa_init (length g) s) = {}" by (auto simp: parents_def spfa_init_def)
  then show ?thesis
    using s ps
    by (auto simp: search_inv_def settled_inv_def tight_tree_def spfa_init_def arc_relaxed_def
        nth_list_update acyclic_def split: if_splits)
qed

end
