(* ===== verification/Flow_Correctness.thy ===== *)
theory Flow_Correctness
  imports Flow_Search
begin

text \<open>
  Correctness of the augmentation and of the flow loop of \<open>Flow_Graph\<close>: on a well-formed graph
  with a feasible potential the loop returns; the graph it returns is a residual graph of the
  one it was given, conserves the flow at every inner node, still has a feasible potential
  (no negative cycle, so the flow is cheapest for its value) and a cut no arc with capacity
  leaves (so the flow is largest).
\<close>

section \<open>Residual graphs\<close>

definition residual_of :: "graph \<Rightarrow> graph \<Rightarrow> bool" where
  "residual_of g h =
     (length h = length g \<and>
      (\<forall>u < length g. length (h ! u) = length (g ! u) \<and>
         (\<forall>i < length (g ! u).
            arc_to (h ! u ! i) = arc_to (g ! u ! i) \<and>
            arc_reverse (h ! u ! i) = arc_reverse (g ! u ! i) \<and>
            arc_cost (h ! u ! i) = arc_cost (g ! u ! i) \<and>
            arc_capacity (h ! u ! i) +
              arc_capacity (h ! arc_to (g ! u ! i) ! arc_reverse (g ! u ! i)) =
            arc_capacity (g ! u ! i) +
              arc_capacity (g ! arc_to (g ! u ! i) ! arc_reverse (g ! u ! i)))))"

lemma residual_of_refl [simp]: "residual_of g g"
  by (simp add: residual_of_def)

lemma residual_of_trans: "residual_of f g \<Longrightarrow> residual_of g h \<Longrightarrow> residual_of f h"
  by (auto simp: residual_of_def)

lemma residual_ofD:
  assumes "residual_of g h"
  shows "length h = length g"
    and "u < length g \<Longrightarrow> length (h ! u) = length (g ! u)"
    and "u < length g \<Longrightarrow> i < length (g ! u) \<Longrightarrow> arc_to (h ! u ! i) = arc_to (g ! u ! i)"
    and "u < length g \<Longrightarrow> i < length (g ! u) \<Longrightarrow> arc_reverse (h ! u ! i) = arc_reverse (g ! u ! i)"
    and "u < length g \<Longrightarrow> i < length (g ! u) \<Longrightarrow> arc_cost (h ! u ! i) = arc_cost (g ! u ! i)"
    and "u < length g \<Longrightarrow> i < length (g ! u) \<Longrightarrow>
      arc_capacity (h ! u ! i) + arc_capacity (h ! arc_to (g ! u ! i) ! arc_reverse (g ! u ! i)) =
      arc_capacity (g ! u ! i) + arc_capacity (g ! arc_to (g ! u ! i) ! arc_reverse (g ! u ! i))"
  using assms by (auto simp: residual_of_def)

definition residual_out :: "graph \<Rightarrow> nat \<Rightarrow> int" where
  "residual_out g u = sum_list (map arc_capacity (g ! u))"

lemma residual_out_nonneg: "wf_graph g \<Longrightarrow> u < length g \<Longrightarrow> 0 \<le> residual_out g u"
  unfolding residual_out_def
  by (rule sum_list_nonneg_int) (auto simp: in_set_conv_nth dest: wf_graphD(3))

lemma sum_list_map_update:
  "i < length xs \<Longrightarrow> sum_list (map f (xs[i := y])) = sum_list (map f xs) - f (xs ! i) + (f y :: int)"
  by (induction xs arbitrary: i) (auto simp: nth_Cons split: nat.splits)

section \<open>Pushing a unit along one arc\<close>


lemma push_arc_nth:
  assumes wf: "wf_graph g" and u: "u < length g" and i: "i < length (g ! u)"
    and v: "v = arc_to (g ! u ! i)" and x: "x < length g"
  shows "push_arc g u i v ! x =
    (if x = u then (g ! u)[i := (g ! u ! i)\<lparr>arc_capacity := arc_capacity (g ! u ! i) - 1\<rparr>]
     else if x = v
       then (g ! v)[arc_reverse (g ! u ! i) := (g ! v ! arc_reverse (g ! u ! i))
              \<lparr>arc_capacity := arc_capacity (g ! v ! arc_reverse (g ! u ! i)) + 1\<rparr>]
     else g ! x)"
  using wf_graphD(1,2) [OF wf u i] u v x by (simp add: push_arc_def Let_def nth_list_update)

lemma length_push_arc [simp]: "length (push_arc g u i v) = length g"
  by (simp add: push_arc_def Let_def)

lemma push_arc_at:
  assumes wf: "wf_graph g" and u: "u < length g" and i: "i < length (g ! u)"
    and v: "v = arc_to (g ! u ! i)" and x: "x < length g" and j: "j < length (g ! x)"
  shows "push_arc g u i v ! x ! j = (g ! x ! j)\<lparr>arc_capacity := arc_capacity (g ! x ! j)
           - (if x = u \<and> j = i then 1 else 0)
           + (if x = v \<and> j = arc_reverse (g ! u ! i) then 1 else 0)\<rparr>"
  unfolding push_arc_nth [OF wf u i v x]
  using wf_graphD(2) [OF wf u i] v j by (auto simp: nth_list_update)

lemma push_arc_lengths:
  assumes "wf_graph g" and "u < length g" and "i < length (g ! u)" and "v = arc_to (g ! u ! i)"
    and "x < length g"
  shows "length (push_arc g u i v ! x) = length (g ! x)"
  by (simp add: push_arc_nth [OF assms])

lemma push_arc_reverse_position:
  assumes wf: "wf_graph g" and u: "u < length g" and i: "i < length (g ! u)"
    and x: "x < length g" and j: "j < length (g ! x)"
  shows "(x = arc_to (g ! u ! i) \<and> j = arc_reverse (g ! u ! i)) \<longleftrightarrow>
    (arc_to (g ! x ! j) = u \<and> arc_reverse (g ! x ! j) = i)"
  using wf_graphD(5,6) [OF wf u i] wf_graphD(5,6) [OF wf x j] by auto

lemma push_arc_residual:
  assumes wf: "wf_graph g" and u: "u < length g" and i: "i < length (g ! u)"
    and v: "v = arc_to (g ! u ! i)"
  shows "residual_of g (push_arc g u i v)"
  unfolding residual_of_def
proof (intro conjI allI impI)
  fix x j assume x: "x < length g" and j: "j < length (g ! x)"
  note at = push_arc_at [OF wf u i v]
  note rev_arc = wf_graphD(1,4) [OF wf x j]
  have swap1: "(arc_to (g ! x ! j) = u \<and> arc_reverse (g ! x ! j) = i) =
      (x = v \<and> j = arc_reverse (g ! u ! i))"
    using push_arc_reverse_position [OF wf u i x j] v by simp
  have swap2: "(arc_to (g ! x ! j) = v \<and> arc_reverse (g ! x ! j) = arc_reverse (g ! u ! i)) =
      (x = u \<and> j = i)"
    using push_arc_reverse_position [OF wf u i rev_arc] wf_graphD(5,6) [OF wf x j] v by simp
  show "arc_capacity (push_arc g u i v ! x ! j) +
      arc_capacity (push_arc g u i v ! arc_to (g ! x ! j) ! arc_reverse (g ! x ! j)) =
    arc_capacity (g ! x ! j) + arc_capacity (g ! arc_to (g ! x ! j) ! arc_reverse (g ! x ! j))"
    unfolding at [OF x j] at [OF rev_arc] by (simp add: swap1 swap2)
qed (simp_all add: push_arc_at [OF wf u i v] push_arc_lengths [OF wf u i v])

lemma push_arc_wf:
  assumes wf: "wf_graph g" and u: "u < length g" and i: "i < length (g ! u)"
    and v: "v = arc_to (g ! u ! i)" and cap: "1 \<le> arc_capacity (g ! u ! i)"
  shows "wf_graph (push_arc g u i v)"
proof -
  note at = push_arc_at [OF wf u i v] and len = push_arc_lengths [OF wf u i v]
  have "wf_arc (push_arc g u i v) x j" if x: "x < length g" and j: "j < length (g ! x)" for x j
    using wf_graphD [OF wf x j] cap x j
    by (auto simp: wf_arc_def Let_def at len)
  then show ?thesis by (simp add: wf_graph_def len)
qed

lemma push_arc_feasible:
  assumes wf: "wf_graph g" and u: "u < length g" and i: "i < length (g ! u)"
    and v: "v = arc_to (g ! u ! i)" and feas: "feasible q g"
    and tight: "q v = q u + arc_cost (g ! u ! i)"
    and cap: "1 \<le> arc_capacity (g ! u ! i)"
  shows "feasible q (push_arc g u i v)"
proof -
  note at = push_arc_at [OF wf u i v] and len = push_arc_lengths [OF wf u i v]
  have "q (arc_to (g ! x ! j)) \<le> q x + arc_cost (g ! x ! j)"
    if x: "x < length g" and j: "j < length (g ! x)"
      and c: "arc_capacity (push_arc g u i v ! x ! j) \<noteq> 0" for x j
  proof (cases "x = v \<and> j = arc_reverse (g ! u ! i)")
    case True
    then show ?thesis using wf_graphD(5,7) [OF wf u i] tight v by simp
  next
    case False
    then have "arc_capacity (g ! x ! j) \<noteq> 0"
      using c cap by (auto simp: at [OF x j] split: if_splits)
    then show ?thesis by (rule feasibleD [OF feas x j])
  qed
  then show ?thesis by (simp add: feasible_def at len)
qed

lemma push_arc_residual_out:
  assumes wf: "wf_graph g" and u: "u < length g" and i: "i < length (g ! u)"
    and v: "v = arc_to (g ! u ! i)" and x: "x < length g"
  shows "residual_out (push_arc g u i v) x =
    residual_out g x - (if x = u then 1 else 0) + (if x = v then 1 else 0)"
  unfolding residual_out_def push_arc_nth [OF wf u i v x]
  using wf_graphD(2,4) [OF wf u i] i v by (auto simp: sum_list_map_update)

section \<open>Augmenting along the predecessor tree\<close>

text \<open>The distances of a finished search, extended to the nodes it did not reach.\<close>

definition new_potential :: "graph \<Rightarrow> (nat \<Rightarrow> int) \<Rightarrow> spfa \<Rightarrow> nat \<Rightarrow> int" where
  "new_potential g p st v =
     (case distance st ! v of Some d \<Rightarrow> d | None \<Rightarrow> p v + int (slack g p st))"

lemma slack_bound:
  assumes "v < length g" and "distance st ! v = Some d"
  shows "d \<le> p v + int (slack g p st)"
proof -
  have "(case distance st ! v of None \<Rightarrow> 0 | Some d \<Rightarrow> nat (d - p v)) \<le> slack g p st"
    unfolding slack_def
    by (rule member_le_sum [where f = "\<lambda>v. case distance st ! v of None \<Rightarrow> 0 | Some d \<Rightarrow> nat (d - p v)"])
      (use assms in auto)
  then show ?thesis using assms by simp
qed

lemma new_potential_feasible:
  assumes inv: "search_inv g p s st" and settled: "settled_inv g st" and fin: "pending st = []"
    and wf: "wf_graph g" and feas: "feasible p g"
  shows "feasible (new_potential g p st) g"
  unfolding feasible_def
proof (intro allI impI)
  fix u i assume u: "u < length g" and i: "i < length (g ! u)" and cap: "arc_capacity (g ! u ! i) \<noteq> 0"
  let ?v = "arc_to (g ! u ! i)" and ?q = "new_potential g p st"
  have v: "?v < length g" by (rule wf_graphD(1) [OF wf u i])
  have rel: "arc_relaxed g st u i" using settled fin u i by (simp add: settled_inv_def)
  have pot: "p ?v \<le> p u + arc_cost (g ! u ! i)" by (rule feasibleD [OF feas u i cap])
  show "?q ?v \<le> ?q u + arc_cost (g ! u ! i)"
  proof (cases "distance st ! u")
    case None
    then show ?thesis
      using pot slack_bound [OF v, of st _ p]
      by (cases "distance st ! ?v") (fastforce simp: new_potential_def)+
  next
    case (Some du)
    then show ?thesis using rel cap by (auto simp: arc_relaxed_def new_potential_def)
  qed
qed

lemma new_potential_source: "search_inv g p s st \<Longrightarrow> new_potential g p st s = 0"
  by (simp add: new_potential_def search_inv_def)

lemma tree_arc:
  assumes inv: "search_inv g p s st" and settled: "settled_inv g st" and fin: "pending st = []"
    and v: "v < length g" and pv: "previous st ! v = Some (u, i)"
  shows "u < length g" and "i < length (g ! u)" and "arc_to (g ! u ! i) = v"
    and "arc_capacity (g ! u ! i) \<noteq> 0"
    and "new_potential g p st v = new_potential g p st u + arc_cost (g ! u ! i)"
    and "u = s \<or> previous st ! u \<noteq> None"
proof -
  obtain du dv where t: "u < length g" "i < length (g ! u)" "arc_to (g ! u ! i) = v"
      "arc_capacity (g ! u ! i) \<noteq> 0" "distance st ! u = Some du" "distance st ! v = Some dv"
      "du + arc_cost (g ! u ! i) \<le> dv"
    using inv v pv unfolding search_inv_def tight_tree_def by blast
  have "arc_relaxed g st u i" using settled fin t by (simp add: settled_inv_def)
  then have "dv \<le> du + arc_cost (g ! u ! i)" using t by (auto simp: arc_relaxed_def)
  with t show "new_potential g p st v = new_potential g p st u + arc_cost (g ! u ! i)"
    by (simp add: new_potential_def)
  show "u = s \<or> previous st ! u \<noteq> None" using inv t by (auto simp: search_inv_def)
qed (use inv v pv in \<open>unfold search_inv_def tight_tree_def, blast\<close>)+

lemma wf_parents:
  assumes "search_inv g p s st"
  shows "wf (parents st)"
proof (rule finite_acyclic_wf)
  have "parents st \<subseteq> {..<length g} \<times> {..<length g}"
    using assms by (auto simp: parents_def search_inv_def tight_tree_def)
  then show "finite (parents st)" by (rule finite_subset) simp
  show "acyclic (parents st)" using assms by (simp add: search_inv_def)
qed

lemma augment_total:
  assumes inv: "search_inv g p s st" and settled: "settled_inv g st" and fin: "pending st = []"
    and v: "v < length g" and reach: "v = s \<or> previous st ! v \<noteq> None"
    and res: "residual_of g h" and wf: "wf_graph h" and feas: "feasible (new_potential g p st) h"
    and caps: "\<forall>w u i. (w, v) \<in> (parents st)\<^sup>* \<longrightarrow> w < length g \<longrightarrow> previous st ! w = Some (u, i) \<longrightarrow>
                 1 \<le> arc_capacity (h ! u ! i)"
  shows "\<exists>h'. augment s (previous st) h v = Some h' \<and> residual_of h h' \<and> wf_graph h' \<and>
    feasible (new_potential g p st) h' \<and>
    (\<forall>x < length g. residual_out h' x =
       residual_out h x - (if x = s then 1 else 0) + (if x = v then 1 else 0))"
  using v reach res wf feas caps
proof (induction v arbitrary: h rule: wf_induct_rule [OF wf_parents [OF inv]])
  case (1 v)
  show ?case
  proof (cases "v = s")
    case True
    then show ?thesis using "1.prems" by (simp add: augment.simps)
  next
    case False
    then obtain u i where pv: "previous st ! v = Some (u, i)" using "1.prems"(2) by auto
    note arc = tree_arc [OF inv settled fin "1.prems"(1) pv]
    note resD = residual_ofD [OF "1.prems"(3)]
    have uv: "(u, v) \<in> parents st" using pv "1.prems"(1) inv by (auto simp: parents_def search_inv_def)
    have cap: "1 \<le> arc_capacity (h ! u ! i)" using "1.prems"(6) pv "1.prems"(1) by blast
    have uh: "u < length h" and ih: "i < length (h ! u)" and vh: "v = arc_to (h ! u ! i)"
      using arc resD by simp_all
    let ?h = "push_arc h u i v"
    have res1: "residual_of h ?h" by (rule push_arc_residual [OF "1.prems"(4) uh ih vh])
    have wf1: "wf_graph ?h" by (rule push_arc_wf [OF "1.prems"(4) uh ih vh cap])
    have feas1: "feasible (new_potential g p st) ?h"
      using arc resD by (intro push_arc_feasible [OF "1.prems"(4) uh ih vh "1.prems"(5) _ cap]) simp
    have caps1: "1 \<le> arc_capacity (?h ! x ! j)"
      if w: "(w, u) \<in> (parents st)\<^sup>*" "w < length g" and pw: "previous st ! w = Some (x, j)" for w x j
    proof -
      note arcw = tree_arc [OF inv settled fin w(2) pw]
      have "w \<noteq> v"
      proof
        assume "w = v"
        then have "(v, v) \<in> (parents st)\<^sup>+" using w(1) uv by (simp add: rtrancl_into_trancl1)
        then show False using inv by (auto simp: search_inv_def acyclic_def)
      qed
      then have "\<not> (x = u \<and> j = i)" using arcw arc by auto
      moreover have "1 \<le> arc_capacity (h ! x ! j)"
        using "1.prems"(6) w pw uv by (meson rtrancl.rtrancl_into_rtrancl)
      moreover have "x < length h" "j < length (h ! x)" using arcw resD by simp_all
      ultimately show ?thesis
        by (auto simp: push_arc_at [OF "1.prems"(4) uh ih vh] split del: if_split split: if_splits)
    qed
    obtain h' where h': "augment s (previous st) ?h u = Some h'" "residual_of ?h h'" "wf_graph h'"
        "feasible (new_potential g p st) h'"
        "\<forall>x < length g. residual_out h' x =
           residual_out ?h x - (if x = s then 1 else 0) + (if x = u then 1 else 0)"
      using "1.IH" [OF uv arc(1,6) residual_of_trans [OF "1.prems"(3) res1] wf1 feas1] caps1 by blast
    have "augment s (previous st) h v = Some h'"
      using False pv h'(1) by (simp add: augment.simps [of s _ h v])
    moreover have "residual_of h h'" by (rule residual_of_trans [OF res1 h'(2)])
    ultimately show ?thesis
      using h' push_arc_residual_out [OF "1.prems"(4) uh ih vh] resD(1) by auto
  qed
qed

section \<open>The flow loop\<close>

definition cut_off :: "graph \<Rightarrow> nat \<Rightarrow> nat \<Rightarrow> nat set \<Rightarrow> bool" where
  "cut_off g s t C =
     (s \<in> C \<and> t \<notin> C \<and>
      (\<forall>u \<in> C. u < length g \<longrightarrow> (\<forall>i < length (g ! u). arc_capacity (g ! u ! i) \<noteq> 0 \<longrightarrow> arc_to (g ! u ! i) \<in> C)))"

lemma cut_offD:
  "cut_off g s t C \<Longrightarrow> u \<in> C \<Longrightarrow> u < length g \<Longrightarrow> i < length (g ! u) \<Longrightarrow>
     arc_capacity (g ! u ! i) \<noteq> 0 \<Longrightarrow> arc_to (g ! u ! i) \<in> C"
  by (simp add: cut_off_def)

definition flow_result :: "nat \<Rightarrow> nat \<Rightarrow> graph \<Rightarrow> graph \<Rightarrow> bool" where
  "flow_result s t g h =
     (residual_of g h \<and> wf_graph h \<and> (\<exists>q. feasible q h) \<and> (\<exists>C. cut_off h s t C) \<and>
      (\<forall>x < length g. x \<noteq> s \<and> x \<noteq> t \<longrightarrow> residual_out h x = residual_out g x))"

lemma finished_cut:
  assumes inv: "search_inv g p s st" and settled: "settled_inv g st" and fin: "pending st = []"
    and t: "t < length g" "t \<noteq> s" and none: "previous st ! t = None"
  shows "cut_off g s t {v. distance st ! v \<noteq> None}"
proof -
  have "distance st ! s \<noteq> None" "distance st ! t = None"
    using inv t none by (auto simp: search_inv_def)
  moreover have "distance st ! arc_to (g ! u ! i) \<noteq> None"
    if "distance st ! u \<noteq> None" "u < length g" "i < length (g ! u)" "arc_capacity (g ! u ! i) \<noteq> 0" for u i
    using settled fin that unfolding settled_inv_def arc_relaxed_def by fastforce
  ultimately show ?thesis by (auto simp: cut_off_def)
qed

theorem flow_loop_total:
  assumes "wf_graph g" and "feasible p g" and "p s = 0"
    and "s < length g" and "t < length g" and "s \<noteq> t"
  shows "\<exists>h. flow_loop s t g = Some h \<and> flow_result s t g h"
  using assms
proof (induction "nat (residual_out g s)" arbitrary: g p rule: less_induct)
  case less
  note wf = less.prems(1) and feas = less.prems(2) and ps = less.prems(3)
  obtain st where st: "spfa_loop g (spfa_init (length g) s) = Some st"
      and inv: "search_inv g p s st" and settled: "settled_inv g st" and fin: "pending st = []"
    using spfa_loop_total [OF _ _ wf feas ps] spfa_init_inv [of s g p] less.prems by blast
  have feas': "feasible (new_potential g p st) g"
    by (rule new_potential_feasible [OF inv settled fin wf feas])
  show ?case
  proof (cases "previous st ! t")
    case None
    then have "flow_loop s t g = Some g" by (simp add: flow_loop.simps [of s t g] st)
    moreover have "flow_result s t g g"
      using finished_cut [OF inv settled fin less.prems(5) _ None] less.prems(6) feas' wf
      by (auto simp: flow_result_def)
    ultimately show ?thesis by blast
  next
    case (Some pr)
    have caps: "\<forall>w u i. (w, t) \<in> (parents st)\<^sup>* \<longrightarrow> w < length g \<longrightarrow> previous st ! w = Some (u, i) \<longrightarrow>
                 1 \<le> arc_capacity (g ! u ! i)"
    proof (intro allI impI)
      fix w u i assume "w < length g" "previous st ! w = Some (u, i)"
      note arc = tree_arc [OF inv settled fin this]
      show "1 \<le> arc_capacity (g ! u ! i)" using wf_graphD(3) [OF wf arc(1,2)] arc(4) by simp
    qed
    obtain h where h: "augment s (previous st) g t = Some h" "residual_of g h" "wf_graph h"
        "feasible (new_potential g p st) h"
        "\<forall>x < length g. residual_out h x =
           residual_out g x - (if x = s then 1 else 0) + (if x = t then 1 else 0)"
      using augment_total [OF inv settled fin less.prems(5) _ residual_of_refl wf feas' caps] Some
      by blast
    have len: "length h = length g" by (rule residual_ofD(1) [OF h(2)])
    have "residual_out h s = residual_out g s - 1" using h(5) less.prems(4,6) by simp
    moreover have "0 \<le> residual_out h s" using residual_out_nonneg [OF h(3)] less.prems(4) len by simp
    ultimately have "nat (residual_out h s) < nat (residual_out g s)" by simp
    then obtain k where k: "flow_loop s t h = Some k" "flow_result s t h k"
      using less.hyps [of h "new_potential g p st"] h(3,4) new_potential_source [OF inv] less.prems len
      by auto
    have "flow_loop s t g = Some k" by (simp add: flow_loop.simps [of s t g] st Some h(1) k(1))
    moreover have "flow_result s t g k"
      using k(2) h(2,5) len residual_of_trans [OF h(2)] by (auto simp: flow_result_def)
    ultimately show ?thesis by blast
  qed
qed

end
