(* ===== verification/Flow_Network.thy ===== *)
theory Flow_Network
  imports Flow_Correctness
begin

text \<open>
  From arc lists to flows. A graph built by \<open>add_arcs\<close> keeps every arc of the list at a known
  slot, so a residual graph of it is a flow on the list; the result of the flow loop is then a
  flow of largest value and, among those, of least cost.
\<close>

section \<open>Building a graph\<close>

definition spec_ok :: "nat \<Rightarrow> arc_spec \<Rightarrow> bool" where
  "spec_ok n = (\<lambda>(u, v, c, w). u < n \<and> v < n \<and> u \<noteq> v \<and> 0 \<le> c)"

text \<open>Where each arc and its reverse end up.\<close>

fun slots :: "graph \<Rightarrow> arc_spec list \<Rightarrow> (nat \<times> nat) list" where
  "slots g [] = []"
| "slots g ((u, v, c, w) # specs) =
     (length (g ! u), length (g ! v)) # slots (fst (add_arc g u v c w)) specs"

lemma length_slots [simp]: "length (slots g specs) = length specs"
  by (induction g specs rule: slots.induct) auto

lemma add_arc_index: "snd (add_arc g u v c w) = length (g ! u)"
  by (simp add: add_arc_def Let_def)

lemma add_arcs_indices: "snd (add_arcs g specs) = map fst (slots g specs)"
  by (induction g specs rule: slots.induct)
    (auto simp: case_prod_beta Let_def add_arc_index)

lemma add_arcs_graph_Cons:
  "fst (add_arcs g ((u, v, c, w) # specs)) = fst (add_arcs (fst (add_arc g u v c w)) specs)"
  by (simp add: case_prod_beta Let_def)

lemma add_arc_nth:
  assumes "u < length g" and "v < length g" and "u \<noteq> v" and "x < length g"
  shows "fst (add_arc g u v c w) ! x =
    (if x = u then g ! u @ [\<lparr>arc_to = v, arc_reverse = length (g ! v), arc_capacity = c, arc_cost = w\<rparr>]
     else if x = v then g ! v @ [\<lparr>arc_to = u, arc_reverse = length (g ! u), arc_capacity = 0, arc_cost = - w\<rparr>]
     else g ! x)"
  using assms by (simp add: add_arc_def Let_def nth_list_update)

lemma length_add_arc [simp]: "length (fst (add_arc g u v c w)) = length g"
  by (simp add: add_arc_def Let_def)

lemma length_add_arcs [simp]: "length (fst (add_arcs g specs)) = length g"
proof (induction specs arbitrary: g)
  case (Cons sp specs)
  then show ?case by (cases sp) (simp add: add_arcs_graph_Cons del: add_arcs.simps)
qed simp

lemma add_arcs_prefix:
  assumes "\<forall>sp \<in> set specs. spec_ok (length g) sp" and "x < length g"
  shows "\<exists>tail. fst (add_arcs g specs) ! x = g ! x @ tail"
  using assms
proof (induction specs arbitrary: g)
  case (Cons sp specs)
  obtain u v c w where sp: "sp = (u, v, c, w)" by (cases sp)
  let ?g = "fst (add_arc g u v c w)"
  have ok: "u < length g" "v < length g" "u \<noteq> v" using Cons.prems(1) sp by (auto simp: spec_ok_def)
  have "\<exists>tail. fst (add_arcs ?g specs) ! x = ?g ! x @ tail"
    using Cons by simp
  moreover have "\<exists>tail. ?g ! x = g ! x @ tail"
    using ok Cons.prems(2) by (simp add: add_arc_nth)
  ultimately show ?case by (auto simp: sp add_arcs_graph_Cons simp del: add_arcs.simps)
qed simp

lemma add_arcs_keeps:
  assumes "\<forall>sp \<in> set specs. spec_ok (length g) sp" and "x < length g" and "i < length (g ! x)"
  shows "i < length (fst (add_arcs g specs) ! x)" and "fst (add_arcs g specs) ! x ! i = g ! x ! i"
  using add_arcs_prefix [OF assms(1,2)] assms(3) by (auto simp: nth_append)

lemma add_arcs_slot:
  assumes "\<forall>sp \<in> set specs. spec_ok (length g) sp" and "k < length specs"
    and "specs ! k = (u, v, c, w)" and "slots g specs ! k = (i, r)"
  shows "i < length (fst (add_arcs g specs) ! u) \<and> r < length (fst (add_arcs g specs) ! v) \<and>
    fst (add_arcs g specs) ! u ! i = \<lparr>arc_to = v, arc_reverse = r, arc_capacity = c, arc_cost = w\<rparr> \<and>
    fst (add_arcs g specs) ! v ! r = \<lparr>arc_to = u, arc_reverse = i, arc_capacity = 0, arc_cost = - w\<rparr>"
  using assms
proof (induction specs arbitrary: g k)
  case (Cons sp specs)
  obtain u' v' c' w' where sp: "sp = (u', v', c', w')" by (cases sp)
  let ?g = "fst (add_arc g u' v' c' w')"
  have ok: "u' < length g" "v' < length g" "u' \<noteq> v'" using Cons.prems(1) sp by (auto simp: spec_ok_def)
  have rest: "\<forall>sp \<in> set specs. spec_ok (length ?g) sp" using Cons.prems(1) by simp
  have step: "fst (add_arcs g (sp # specs)) = fst (add_arcs ?g specs)"
    by (simp add: sp add_arcs_graph_Cons del: add_arcs.simps)
  show ?case
  proof (cases k)
    case 0
    then have eq: "u' = u" "v' = v" "c' = c" "w' = w" "i = length (g ! u)" "r = length (g ! v)"
      using Cons.prems sp by simp_all
    have pos: "i < length (?g ! u)" "r < length (?g ! v)" using ok eq by (simp_all add: add_arc_nth)
    have at: "?g ! u ! i = \<lparr>arc_to = v, arc_reverse = r, arc_capacity = c, arc_cost = w\<rparr>"
      "?g ! v ! r = \<lparr>arc_to = u, arc_reverse = i, arc_capacity = 0, arc_cost = - w\<rparr>"
      using ok eq by (simp_all add: add_arc_nth)
    show ?thesis
      using add_arcs_keeps [OF rest, of u i] add_arcs_keeps [OF rest, of v r] pos at ok eq
      unfolding step by simp
  next
    case (Suc k')
    then show ?thesis
      unfolding step using Cons.IH [OF rest, of k'] Cons.prems sp by simp
  qed
qed simp

lemma add_arcs_wf:
  assumes "wf_graph g" and "\<forall>sp \<in> set specs. spec_ok (length g) sp"
  shows "wf_graph (fst (add_arcs g specs))"
  using assms
proof (induction specs arbitrary: g)
  case (Cons sp specs)
  obtain u v c w where sp: "sp = (u, v, c, w)" by (cases sp)
  let ?g = "fst (add_arc g u v c w)"
  have ok: "u < length g" "v < length g" "u \<noteq> v" "0 \<le> c"
    using Cons.prems(2) sp by (auto simp: spec_ok_def)
  note at = add_arc_nth [OF ok(1-3)]
  have "wf_arc ?g x i" if x: "x < length g" and i: "i < length (?g ! x)" for x i
  proof (cases "i < length (g ! x)")
    case True
    then have old: "?g ! x ! i = g ! x ! i" using x by (auto simp: at nth_append)
    note D = wf_graphD [OF Cons.prems(1) x True]
    have "arc_reverse (g ! x ! i) < length (?g ! arc_to (g ! x ! i))"
      "?g ! arc_to (g ! x ! i) ! arc_reverse (g ! x ! i) = g ! arc_to (g ! x ! i) ! arc_reverse (g ! x ! i)"
      using D by (auto simp: at nth_append)
    then show ?thesis using D by (simp add: wf_arc_def Let_def old)
  next
    case False
    then have "x = u \<and> i = length (g ! u) \<or> x = v \<and> i = length (g ! v)"
      using i x by (auto simp: at split: if_splits)
    then show ?thesis using ok by (auto simp: wf_arc_def Let_def at)
  qed
  then have "wf_graph ?g" by (simp add: wf_graph_def)
  then show ?case using Cons by (simp add: sp add_arcs_graph_Cons del: add_arcs.simps)
qed simp

lemma add_arcs_feasible:
  assumes "feasible p g" and "\<forall>sp \<in> set specs. spec_ok (length g) sp"
    and "\<forall>(u, v, c, w) \<in> set specs. c \<noteq> 0 \<longrightarrow> p v \<le> p u + w"
  shows "feasible p (fst (add_arcs g specs))"
  using assms
proof (induction specs arbitrary: g)
  case (Cons sp specs)
  obtain u v c w where sp: "sp = (u, v, c, w)" by (cases sp)
  let ?g = "fst (add_arc g u v c w)"
  have ok: "u < length g" "v < length g" "u \<noteq> v"
    using Cons.prems(2) sp by (auto simp: spec_ok_def)
  have "feasible p ?g"
    using Cons.prems(1,3) ok
    by (auto simp: feasible_def add_arc_nth nth_append sp less_Suc_eq split: if_splits)
  then show ?case using Cons by (simp add: sp add_arcs_graph_Cons del: add_arcs.simps)
qed simp

text \<open>The arcs at a node are the forward arcs that leave it and the reverses of those that enter.\<close>

fun slot_sum :: "(nat \<Rightarrow> nat \<Rightarrow> int) \<Rightarrow> nat \<Rightarrow> arc_spec list \<Rightarrow> (nat \<times> nat) list \<Rightarrow> int" where
  "slot_sum F x ((u, v, c, w) # specs) ((i, r) # sl) =
     (if u = x then F x i else 0) + (if v = x then F x r else 0) + slot_sum F x specs sl"
| "slot_sum F x _ _ = 0"

lemma add_arcs_sum:
  assumes "\<forall>sp \<in> set specs. spec_ok (length g) sp" and "x < length g"
  shows "(\<Sum>i < length (fst (add_arcs g specs) ! x). F x i) =
    (\<Sum>i < length (g ! x). F x i) + slot_sum F x specs (slots g specs)"
  using assms
proof (induction specs arbitrary: g)
  case (Cons sp specs)
  obtain u v c w where sp: "sp = (u, v, c, w)" by (cases sp)
  let ?g = "fst (add_arc g u v c w)"
  have ok: "u < length g" "v < length g" "u \<noteq> v"
    using Cons.prems(1) sp by (auto simp: spec_ok_def)
  have "(\<Sum>i < length (?g ! x). F x i) =
      (\<Sum>i < length (g ! x). F x i) + (if u = x then F x (length (g ! u)) else 0)
        + (if v = x then F x (length (g ! v)) else 0)"
    using ok Cons.prems(2) by (auto simp: add_arc_nth)
  then show ?case
    using Cons by (simp add: sp add_arcs_graph_Cons del: add_arcs.simps)
qed simp

section \<open>Flows on an arc list\<close>

abbreviation spec_src :: "arc_spec \<Rightarrow> nat" where "spec_src sp \<equiv> fst sp"
abbreviation spec_dst :: "arc_spec \<Rightarrow> nat" where "spec_dst sp \<equiv> fst (snd sp)"
abbreviation spec_cap :: "arc_spec \<Rightarrow> int" where "spec_cap sp \<equiv> fst (snd (snd sp))"
abbreviation spec_cost :: "arc_spec \<Rightarrow> int" where "spec_cost sp \<equiv> snd (snd (snd sp))"

definition net_flow :: "arc_spec list \<Rightarrow> (nat \<Rightarrow> int) \<Rightarrow> nat \<Rightarrow> int" where
  "net_flow specs f x =
     (\<Sum>k < length specs. (if spec_dst (specs ! k) = x then f k else 0)
                        - (if spec_src (specs ! k) = x then f k else 0))"

definition is_flow :: "nat \<Rightarrow> arc_spec list \<Rightarrow> nat \<Rightarrow> nat \<Rightarrow> (nat \<Rightarrow> int) \<Rightarrow> bool" where
  "is_flow n specs s t f =
     ((\<forall>k < length specs. 0 \<le> f k \<and> f k \<le> spec_cap (specs ! k)) \<and>
      (\<forall>x < n. x \<noteq> s \<and> x \<noteq> t \<longrightarrow> net_flow specs f x = 0))"

definition flow_cost :: "arc_spec list \<Rightarrow> (nat \<Rightarrow> int) \<Rightarrow> int" where
  "flow_cost specs f = (\<Sum>k < length specs. f k * spec_cost (specs ! k))"

text \<open>The flow a residual graph stands for: how much of an arc's capacity is gone.\<close>

definition spec_flow :: "graph \<Rightarrow> arc_spec list \<Rightarrow> (nat \<times> nat) list \<Rightarrow> nat \<Rightarrow> int" where
  "spec_flow h specs sl k =
     spec_cap (specs ! k) - arc_capacity (h ! spec_src (specs ! k) ! fst (sl ! k))"

lemma flow_duality:
  assumes "\<forall>sp \<in> set specs. spec_ok n sp"
  shows "(\<Sum>k < length specs. f k * (q (spec_dst (specs ! k)) - q (spec_src (specs ! k)))) =
    (\<Sum>x < n. q x * net_flow specs f x)"
proof -
  have "(\<Sum>x < n. q x * net_flow specs f x) =
      (\<Sum>x < n. \<Sum>k < length specs. (if spec_dst (specs ! k) = x then q x * f k else 0)
                        - (if spec_src (specs ! k) = x then q x * f k else 0))"
    unfolding net_flow_def sum_distrib_left
    by (intro sum.cong refl) (simp add: right_diff_distrib)
  also have "\<dots> = (\<Sum>k < length specs. \<Sum>x < n. (if spec_dst (specs ! k) = x then q x * f k else 0)
                        - (if spec_src (specs ! k) = x then q x * f k else 0))"
    by (rule sum.swap)
  also have "\<dots> = (\<Sum>k < length specs. f k * (q (spec_dst (specs ! k)) - q (spec_src (specs ! k))))"
  proof (rule sum.cong [OF refl])
    fix k assume "k \<in> {..<length specs}"
    then have "spec_ok n (specs ! k)" using assms by simp
    then show "(\<Sum>x < n. (if spec_dst (specs ! k) = x then q x * f k else 0)
                        - (if spec_src (specs ! k) = x then q x * f k else 0)) =
        f k * (q (spec_dst (specs ! k)) - q (spec_src (specs ! k)))"
      by (auto simp: sum_subtractf sum.delta spec_ok_def algebra_simps)
  qed
  finally show ?thesis by simp
qed

lemma sum_two_points:
  assumes "s < n" and "t < n" and "s \<noteq> (t :: nat)"
    and "\<And>x. x < n \<Longrightarrow> x \<noteq> s \<Longrightarrow> x \<noteq> t \<Longrightarrow> F x = (0 :: int)"
  shows "(\<Sum>x < n. F x) = F s + F t"
proof -
  have "(\<Sum>x < n. F x) = (\<Sum>x \<in> {s, t}. F x)"
    by (rule sum.mono_neutral_right) (use assms in auto)
  then show ?thesis using assms(3) by simp
qed

lemma is_flow_dual:
  assumes ok: "\<forall>sp \<in> set specs. spec_ok n sp" and st: "s < n" "t < n" "s \<noteq> t"
    and flow: "is_flow n specs s t f"
  shows "(\<Sum>k < length specs. f k * (q (spec_dst (specs ! k)) - q (spec_src (specs ! k)))) =
    (q t - q s) * net_flow specs f t"
proof -
  have zero: "x < n \<Longrightarrow> x \<noteq> s \<Longrightarrow> x \<noteq> t \<Longrightarrow> net_flow specs f x = 0" for x
    using flow by (simp add: is_flow_def)
  have split: "(\<Sum>x < n. r x * net_flow specs f x) = r s * net_flow specs f s + r t * net_flow specs f t"
    for r by (rule sum_two_points [OF st]) (simp add: zero)
  have "net_flow specs f s + net_flow specs f t = 0"
    using flow_duality [OF ok, of f "\<lambda>_. 1"] split [of "\<lambda>_. 1"] by simp
  then have "net_flow specs f s = - net_flow specs f t" by linarith
  then show ?thesis using flow_duality [OF ok, of f q] split [of q] by (simp add: algebra_simps)
qed

section \<open>The flow of a result\<close>

lemma slot_sum_eq:
  "length sl = length specs \<Longrightarrow> slot_sum F x specs sl =
     (\<Sum>k < length specs. (if spec_src (specs ! k) = x then F x (fst (sl ! k)) else 0)
                       + (if spec_dst (specs ! k) = x then F x (snd (sl ! k)) else 0))"
  by (induction F x specs sl rule: slot_sum.induct)
    (auto simp: sum.lessThan_Suc_shift simp del: sum.lessThan_Suc cong: if_cong)

lemma residual_out_sum: "residual_out h x = (\<Sum>i < length (h ! x). arc_capacity (h ! x ! i))"
  by (simp add: residual_out_def sum_list_sum_nth atLeast0LessThan)

definition built :: "nat \<Rightarrow> arc_spec list \<Rightarrow> graph" where
  "built n specs = fst (add_arcs (empty_graph n) specs)"

abbreviation built_slots :: "nat \<Rightarrow> arc_spec list \<Rightarrow> (nat \<times> nat) list" where
  "built_slots n specs \<equiv> slots (empty_graph n) specs"

lemma empty_graph_facts [simp]:
  "length (empty_graph n) = n" "wf_graph (empty_graph n)" "feasible p (empty_graph n)"
  "x < n \<Longrightarrow> empty_graph n ! x = []"
  by (simp_all add: empty_graph_def wf_graph_def feasible_def)

lemma built_facts:
  assumes ok: "\<forall>sp \<in> set specs. spec_ok n sp"
  shows "length (built n specs) = n" and "wf_graph (built n specs)"
    and "\<forall>(u, v, c, w) \<in> set specs. c \<noteq> 0 \<longrightarrow> p v \<le> p u + w \<Longrightarrow> feasible p (built n specs)"
  using add_arcs_wf [of "empty_graph n" specs] add_arcs_feasible [of p "empty_graph n" specs] ok
  by (simp_all add: built_def)

lemma residual_capacities:
  assumes ok: "\<forall>sp \<in> set specs. spec_ok n sp" and res: "residual_of (built n specs) h"
    and wf: "wf_graph h" and k: "k < length specs"
  shows "arc_capacity (h ! spec_src (specs ! k) ! fst (built_slots n specs ! k)) =
      spec_cap (specs ! k) - spec_flow h specs (built_slots n specs) k"
    and "arc_capacity (h ! spec_dst (specs ! k) ! snd (built_slots n specs ! k)) =
      spec_flow h specs (built_slots n specs) k"
    and "0 \<le> spec_flow h specs (built_slots n specs) k"
    and "spec_flow h specs (built_slots n specs) k \<le> spec_cap (specs ! k)"
proof -
  obtain u v c w where sp: "specs ! k = (u, v, c, w)" by (cases "specs ! k")
  obtain i r where sl: "built_slots n specs ! k = (i, r)" by (cases "built_slots n specs ! k")
  have uv: "u < n" "v < n" "spec_ok n (specs ! k)" using ok k sp by (auto simp: spec_ok_def dest!: nth_mem)
  have "\<forall>sp \<in> set specs. spec_ok (length (empty_graph n)) sp" using ok by simp
  from add_arcs_slot [OF this k sp sl]
  have slot: "i < length (built n specs ! u)" "r < length (built n specs ! v)"
    "built n specs ! u ! i = \<lparr>arc_to = v, arc_reverse = r, arc_capacity = c, arc_cost = w\<rparr>"
    "built n specs ! v ! r = \<lparr>arc_to = u, arc_reverse = i, arc_capacity = 0, arc_cost = - w\<rparr>"
    by (simp_all add: built_def)
  have len: "length (built n specs) = n" by (rule built_facts(1) [OF ok])
  note resD = residual_ofD [OF res]
  have pair: "arc_capacity (h ! u ! i) + arc_capacity (h ! v ! r) = c"
    using resD(6) [of u i] slot uv len by simp
  have nonneg: "0 \<le> arc_capacity (h ! u ! i)" "0 \<le> arc_capacity (h ! v ! r)"
    using wf_graphD(3) [OF wf, of u i] wf_graphD(3) [OF wf, of v r] slot uv len resD(1,2) by simp_all
  show "arc_capacity (h ! spec_src (specs ! k) ! fst (built_slots n specs ! k)) =
      spec_cap (specs ! k) - spec_flow h specs (built_slots n specs) k"
    "arc_capacity (h ! spec_dst (specs ! k) ! snd (built_slots n specs ! k)) =
      spec_flow h specs (built_slots n specs) k"
    "0 \<le> spec_flow h specs (built_slots n specs) k"
    "spec_flow h specs (built_slots n specs) k \<le> spec_cap (specs ! k)"
    using pair nonneg by (simp_all add: spec_flow_def sp sl)
qed

lemma residual_out_flow:
  assumes ok: "\<forall>sp \<in> set specs. spec_ok n sp" and res: "residual_of (built n specs) h"
    and wf: "wf_graph h" and x: "x < n"
  shows "residual_out h x =
    residual_out (built n specs) x + net_flow specs (spec_flow h specs (built_slots n specs)) x"
proof -
  let ?sl = "built_slots n specs" and ?g = "built n specs"
  have ok': "\<forall>sp \<in> set specs. spec_ok (length (empty_graph n)) sp" using ok by simp
  have out: "residual_out k x =
      (\<Sum>j < length specs. (if spec_src (specs ! j) = x then arc_capacity (k ! x ! fst (?sl ! j)) else 0)
                       + (if spec_dst (specs ! j) = x then arc_capacity (k ! x ! snd (?sl ! j)) else 0))"
    if "length (k ! x) = length (?g ! x)" for k
    using add_arcs_sum [OF ok', of x "\<lambda>x i. arc_capacity (k ! x ! i)"] x that
    by (simp add: residual_out_sum built_def slot_sum_eq)
  have len: "length (h ! x) = length (?g ! x)"
    using residual_ofD(2) [OF res] built_facts(1) [OF ok] x by simp
  have wfg: "wf_graph ?g" by (rule built_facts(2) [OF ok])
  have zero: "spec_flow ?g specs ?sl j = 0" if j: "j < length specs" for j
  proof -
    obtain u v c w where sp: "specs ! j = (u, v, c, w)" by (cases "specs ! j")
    obtain i r where sl: "?sl ! j = (i, r)" by (cases "?sl ! j")
    show ?thesis using add_arcs_slot [OF ok' j sp sl] by (simp add: spec_flow_def sp sl built_def)
  qed
  have "spec_src (specs ! j) \<noteq> spec_dst (specs ! j)" if "j < length specs" for j
    using ok that by (auto simp: spec_ok_def dest!: nth_mem)
  then have apart: "\<not> (spec_src (specs ! j) = x \<and> spec_dst (specs ! j) = x)" if "j < length specs" for j
    using that by metis
  have "residual_out h x - residual_out ?g x =
      (\<Sum>j < length specs. (if spec_dst (specs ! j) = x then spec_flow h specs ?sl j else 0)
                       - (if spec_src (specs ! j) = x then spec_flow h specs ?sl j else 0))"
    unfolding out [OF len] out [OF refl] sum_subtractf [symmetric]
  proof (rule sum.cong [OF refl])
    fix j assume "j \<in> {..<length specs}"
    then have j: "j < length specs" by simp
    show "(if spec_src (specs ! j) = x then arc_capacity (h ! x ! fst (?sl ! j)) else 0)
          + (if spec_dst (specs ! j) = x then arc_capacity (h ! x ! snd (?sl ! j)) else 0)
        - ((if spec_src (specs ! j) = x then arc_capacity (?g ! x ! fst (?sl ! j)) else 0)
          + (if spec_dst (specs ! j) = x then arc_capacity (?g ! x ! snd (?sl ! j)) else 0)) =
        (if spec_dst (specs ! j) = x then spec_flow h specs ?sl j else 0)
          - (if spec_src (specs ! j) = x then spec_flow h specs ?sl j else 0)"
      using residual_capacities(1,2) [OF ok res wf j] zero [OF j] apart [OF j]
        residual_capacities(1,2) [OF ok residual_of_refl wfg j] by auto
  qed
  then show ?thesis by (simp add: net_flow_def)
qed

theorem flow_loop_optimal:
  assumes ok: "\<forall>sp \<in> set specs. spec_ok n sp" and st: "s < n" "t < n" "s \<noteq> t"
    and pot: "\<forall>(u, v, c, w) \<in> set specs. c \<noteq> 0 \<longrightarrow> p v \<le> p u + w" and ps: "p s = 0"
  shows "\<exists>h. flow_loop s t (built n specs) = Some h \<and>
    (let f = spec_flow h specs (built_slots n specs)
     in is_flow n specs s t f \<and>
        (\<forall>f'. is_flow n specs s t f' \<longrightarrow>
           net_flow specs f' t \<le> net_flow specs f t \<and>
           (net_flow specs f' t = net_flow specs f t \<longrightarrow> flow_cost specs f \<le> flow_cost specs f')))"
proof -
  let ?g = "built n specs" and ?sl = "built_slots n specs"
  note built = built_facts [OF ok]
  obtain h where h: "flow_loop s t ?g = Some h" "flow_result s t ?g h"
    using flow_loop_total [of ?g p s t] built(1,2) built(3) [OF pot] ps st by auto
  then obtain q C where res: "residual_of ?g h" and wf: "wf_graph h" and q: "feasible q h"
      and C: "cut_off h s t C"
      and inner: "\<forall>x < n. x \<noteq> s \<and> x \<noteq> t \<longrightarrow> residual_out h x = residual_out ?g x"
    by (auto simp: flow_result_def built(1))
  let ?f = "spec_flow h specs ?sl"
  note caps = residual_capacities [OF ok res wf]
  have flow: "is_flow n specs s t ?f"
    using caps(3,4) inner residual_out_flow [OF ok res wf] by (simp add: is_flow_def)
  have slack: "(?f k < spec_cap (specs ! k) \<longrightarrow>
        q (spec_dst (specs ! k)) \<le> q (spec_src (specs ! k)) + spec_cost (specs ! k) \<and>
        (spec_src (specs ! k) \<in> C \<longrightarrow> spec_dst (specs ! k) \<in> C)) \<and>
      (0 < ?f k \<longrightarrow>
        q (spec_src (specs ! k)) + spec_cost (specs ! k) \<le> q (spec_dst (specs ! k)) \<and>
        (spec_dst (specs ! k) \<in> C \<longrightarrow> spec_src (specs ! k) \<in> C))"
    if k: "k < length specs" for k
  proof -
    obtain u v c w where sp: "specs ! k = (u, v, c, w)" by (cases "specs ! k")
    obtain i r where sl: "?sl ! k = (i, r)" by (cases "?sl ! k")
    have ok': "\<forall>sp \<in> set specs. spec_ok (length (empty_graph n)) sp" using ok by simp
    have uv: "u < n" "v < n" using ok k sp by (auto simp: spec_ok_def dest!: nth_mem)
    note slot = add_arcs_slot [OF ok' k sp sl, folded built_def]
    have pos: "u < length h" "i < length (h ! u)" "arc_to (h ! u ! i) = v" "arc_cost (h ! u ! i) = w"
      "v < length h" "r < length (h ! v)" "arc_to (h ! v ! r) = u" "arc_cost (h ! v ! r) = - w"
      using slot uv residual_ofD [OF res] built(1) by simp_all
    have "arc_capacity (h ! u ! i) \<noteq> 0 \<longrightarrow> q v \<le> q u + w \<and> (u \<in> C \<longrightarrow> v \<in> C)"
      using feasibleD [OF q pos(1,2)] cut_offD [OF C _ pos(1,2)] pos by simp
    moreover have "arc_capacity (h ! v ! r) \<noteq> 0 \<longrightarrow> q u \<le> q v - w \<and> (v \<in> C \<longrightarrow> u \<in> C)"
      using feasibleD [OF q pos(5,6)] cut_offD [OF C _ pos(5,6)] pos by simp
    ultimately show ?thesis using caps(1,2) [OF k] by (auto simp: sp sl)
  qed
  have best: "net_flow specs f' t \<le> net_flow specs ?f t \<and>
      (net_flow specs f' t = net_flow specs ?f t \<longrightarrow> flow_cost specs ?f \<le> flow_cost specs f')"
    if f': "is_flow n specs s t f'" for f'
  proof
    let ?D = "\<lambda>r k. r (spec_dst (specs ! k)) - r (spec_src (specs ! k)) :: int"
    let ?in = "\<lambda>x. if x \<in> C then 0 else (1 :: int)"
    have bound: "0 \<le> f' k \<and> f' k \<le> spec_cap (specs ! k)" if "k < length specs" for k
      using f' that by (simp add: is_flow_def)
    have "f' k * ?D ?in k \<le> ?f k * ?D ?in k" if k: "k < length specs" for k
      using slack [OF k] bound [OF k] caps(3,4) [OF k]
      by (cases "spec_src (specs ! k) \<in> C"; cases "spec_dst (specs ! k) \<in> C") auto
    then have "(\<Sum>k < length specs. f' k * ?D ?in k) \<le> (\<Sum>k < length specs. ?f k * ?D ?in k)"
      by (intro sum_mono) simp
    then show "net_flow specs f' t \<le> net_flow specs ?f t"
      using is_flow_dual [OF ok st f', of ?in] is_flow_dual [OF ok st flow, of ?in] C
      by (simp add: cut_off_def)
    show "net_flow specs f' t = net_flow specs ?f t \<longrightarrow> flow_cost specs ?f \<le> flow_cost specs f'"
    proof
      assume same: "net_flow specs f' t = net_flow specs ?f t"
      let ?R = "\<lambda>k. spec_cost (specs ! k) - ?D q k"
      have "?f k * ?R k \<le> f' k * ?R k" if k: "k < length specs" for k
      proof -
        have "0 \<le> (f' k - ?f k) * ?R k"
          using slack [OF k] bound [OF k] caps(3,4) [OF k]
          by (cases "?f k = f' k"; cases "?f k < f' k") (auto intro: mult_nonneg_nonneg mult_nonpos_nonpos)
        then show ?thesis by (simp add: algebra_simps)
      qed
      then have "(\<Sum>k < length specs. ?f k * ?R k) \<le> (\<Sum>k < length specs. f' k * ?R k)"
        by (intro sum_mono) simp
      moreover have "(\<Sum>k < length specs. f k * ?R k) =
          flow_cost specs f - (\<Sum>k < length specs. f k * ?D q k)" for f
        by (simp add: flow_cost_def right_diff_distrib sum_subtractf)
      ultimately show "flow_cost specs ?f \<le> flow_cost specs f'"
        using is_flow_dual [OF ok st f', of q] is_flow_dual [OF ok st flow, of q] same by simp
    qed
  qed
  show ?thesis using h(1) flow best by (auto simp: Let_def)
qed

end
