(* ===== verification/Assignment_Network.thy ===== *)
theory Assignment_Network
  imports Flow_Network
begin

text \<open>
  The shape of both flow networks of \<open>schedule_solver.py\<close>: a source, a node for each person,
  a node for each work center, a sink; unit arcs from the source to every person, a unit arc
  for every candidate edge, and arcs from the centers to the sink. A flow is an assignment of
  people to centers, and its value is the number of people placed.
\<close>

type_synonym edge_spec = "nat \<times> nat \<times> int"
type_synonym exit_spec = "nat \<times> int \<times> int"

definition person_arcs :: "nat \<Rightarrow> arc_spec list" where
  "person_arcs np = map (\<lambda>i. (0, 1 + i, 1, 0)) [0..<np]"

definition edge_arcs :: "nat \<Rightarrow> edge_spec list \<Rightarrow> arc_spec list" where
  "edge_arcs np es = map (\<lambda>(i, j, w). (1 + i, 1 + np + j, 1, w)) es"

definition exit_arcs :: "nat \<Rightarrow> nat \<Rightarrow> exit_spec list \<Rightarrow> arc_spec list" where
  "exit_arcs np nc zs = map (\<lambda>(j, c, w). (1 + np + j, 1 + np + nc, c, w)) zs"

lemma length_arcs [simp]:
  "length (person_arcs np) = np" "length (edge_arcs np es) = length es"
  "length (exit_arcs np nc zs) = length zs"
  by (simp_all add: person_arcs_def edge_arcs_def exit_arcs_def)

section \<open>Sums over appended arc lists\<close>

lemma sum_lessThan_add: "(\<Sum>k < a + b. F k) = (\<Sum>k < a. F k) + (\<Sum>k < b. F (a + k) :: int)" for a b :: nat
  by (induction b) simp_all

lemma net_flow_append:
  "net_flow (xs @ ys) f x = net_flow xs f x + net_flow ys (\<lambda>k. f (length xs + k)) x"
  unfolding net_flow_def length_append sum_lessThan_add
  by (intro arg_cong2 [where f = "(+)"] sum.cong refl) (simp_all add: nth_append)

lemma flow_cost_append:
  "flow_cost (xs @ ys) f = flow_cost xs f + flow_cost ys (\<lambda>k. f (length xs + k))"
  unfolding flow_cost_def length_append sum_lessThan_add
  by (intro arg_cong2 [where f = "(+)"] sum.cong refl) (simp_all add: nth_append)

lemma net_flow_cong:
  "(\<And>k. k < length specs \<Longrightarrow> f k = g k) \<Longrightarrow> net_flow specs f x = net_flow specs g x"
  unfolding net_flow_def by (intro sum.cong refl) auto

lemma flow_cost_cong:
  "(\<And>k. k < length specs \<Longrightarrow> f k = g k) \<Longrightarrow> flow_cost specs f = flow_cost specs g"
  unfolding flow_cost_def by (intro sum.cong refl) auto

section \<open>Loads\<close>

definition person_load :: "edge_spec list \<Rightarrow> (nat \<Rightarrow> int) \<Rightarrow> nat \<Rightarrow> int" where
  "person_load es f i = (\<Sum>k < length es. if fst (es ! k) = i then f k else 0)"

definition center_load :: "edge_spec list \<Rightarrow> (nat \<Rightarrow> int) \<Rightarrow> nat \<Rightarrow> int" where
  "center_load es f j = (\<Sum>k < length es. if fst (snd (es ! k)) = j then f k else 0)"

definition exit_load :: "exit_spec list \<Rightarrow> (nat \<Rightarrow> int) \<Rightarrow> nat \<Rightarrow> int" where
  "exit_load zs f j = (\<Sum>k < length zs. if fst (zs ! k) = j then f k else 0)"

lemma net_person_arcs:
  "i < np \<Longrightarrow> net_flow (person_arcs np) f (Suc i) = f i"
  "Suc np \<le> x \<Longrightarrow> net_flow (person_arcs np) f x = 0"
  by (auto simp: net_flow_def person_arcs_def sum.delta intro!: sum.neutral)

lemma net_edge_arcs:
  assumes "\<forall>(i, j, w) \<in> set es. i < np \<and> j < nc"
  shows "i < np \<Longrightarrow> net_flow (edge_arcs np es) f (Suc i) = - person_load es f i"
    and "net_flow (edge_arcs np es) f (Suc (np + j)) = center_load es f j"
    and "net_flow (edge_arcs np es) f (Suc (np + nc)) = 0"
proof -
  have in_range: "fst (es ! k) < np" "fst (snd (es ! k)) < nc" if "k < length es" for k
    using assms that by (auto dest!: nth_mem)
  have spec: "edge_arcs np es ! k = (Suc (fst (es ! k)), Suc (np + fst (snd (es ! k))), 1, snd (snd (es ! k)))"
    if "k < length es" for k
    using that by (simp add: edge_arcs_def case_prod_beta)
  show "net_flow (edge_arcs np es) f (Suc i) = - person_load es f i" if i: "i < np"
  proof -
    have "net_flow (edge_arcs np es) f (Suc i) = (\<Sum>k < length es. - (if fst (es ! k) = i then f k else 0))"
      unfolding net_flow_def length_arcs
      by (rule sum.cong [OF refl]) (use in_range i spec in auto)
    then show ?thesis by (simp add: person_load_def sum_negf)
  qed
  show "net_flow (edge_arcs np es) f (Suc (np + j)) = center_load es f j"
    unfolding net_flow_def length_arcs center_load_def
    by (rule sum.cong [OF refl]) (use in_range spec in \<open>fastforce\<close>)
  show "net_flow (edge_arcs np es) f (Suc (np + nc)) = 0"
    unfolding net_flow_def length_arcs
    by (rule sum.neutral) (use in_range spec in \<open>fastforce\<close>)
qed

lemma net_exit_arcs:
  assumes "\<forall>(j, c, w) \<in> set zs. j < nc"
  shows "i < np \<Longrightarrow> net_flow (exit_arcs np nc zs) f (Suc i) = 0"
    and "j < nc \<Longrightarrow> net_flow (exit_arcs np nc zs) f (Suc (np + j)) = - exit_load zs f j"
    and "net_flow (exit_arcs np nc zs) f (Suc (np + nc)) = (\<Sum>k < length zs. f k)"
proof -
  have in_range: "fst (zs ! k) < nc" if "k < length zs" for k
    using assms that by (auto dest!: nth_mem)
  have spec: "exit_arcs np nc zs ! k = (Suc (np + fst (zs ! k)), Suc (np + nc), fst (snd (zs ! k)), snd (snd (zs ! k)))"
    if "k < length zs" for k
    using that by (simp add: exit_arcs_def case_prod_beta)
  show "net_flow (exit_arcs np nc zs) f (Suc i) = 0" if "i < np"
    unfolding net_flow_def length_arcs
    by (rule sum.neutral) (use in_range spec that in auto)
  show "net_flow (exit_arcs np nc zs) f (Suc (np + j)) = - exit_load zs f j" if "j < nc"
    unfolding net_flow_def length_arcs exit_load_def sum_negf [symmetric]
    by (rule sum.cong [OF refl]) (use in_range spec that in auto)
  show "net_flow (exit_arcs np nc zs) f (Suc (np + nc)) = (\<Sum>k < length zs. f k)"
    unfolding net_flow_def length_arcs
    by (rule sum.cong [OF refl]) (use in_range spec in fastforce)
qed

lemma edge_cost: "flow_cost (edge_arcs np es) f = (\<Sum>k < length es. f k * snd (snd (es ! k)))"
  unfolding flow_cost_def length_arcs
  by (rule sum.cong [OF refl]) (simp add: edge_arcs_def case_prod_beta)

lemma exit_cost: "flow_cost (exit_arcs np nc zs) f = (\<Sum>k < length zs. f k * snd (snd (zs ! k)))"
  unfolding flow_cost_def length_arcs
  by (rule sum.cong [OF refl]) (simp add: exit_arcs_def case_prod_beta)

lemma person_cost [simp]: "flow_cost (person_arcs np) f = 0"
  unfolding flow_cost_def by (rule sum.neutral) (simp add: person_arcs_def)

lemma arc_caps:
  "k < np \<Longrightarrow> spec_cap (person_arcs np ! k) = 1"
  "k < length es \<Longrightarrow> spec_cap (edge_arcs np es ! k) = 1"
  "k < length zs \<Longrightarrow> spec_cap (exit_arcs np nc zs ! k) = fst (snd (zs ! k))"
  by (simp_all add: person_arcs_def edge_arcs_def exit_arcs_def case_prod_beta)

lemma load_total:
  assumes "\<forall>k < length es. key (es ! k) < (m :: nat)"
  shows "(\<Sum>j < m. \<Sum>k < length es. if key (es ! k) = j then f k else 0) = (\<Sum>k < length es. f k :: int)"
proof -
  have "(\<Sum>j < m. \<Sum>k < length es. if key (es ! k) = j then f k else 0) =
      (\<Sum>k < length es. \<Sum>j < m. if key (es ! k) = j then f k else 0)"
    by (rule sum.swap)
  also have "\<dots> = (\<Sum>k < length es. f k)"
    by (rule sum.cong [OF refl]) (use assms in \<open>simp add: sum.delta\<close>)
  finally show ?thesis .
qed

section \<open>Assignments as flows\<close>

text \<open>
  An assignment \<open>f\<close> of the candidate edges with the amounts \<open>z\<close> it sends through the exits.
\<close>

definition is_assignment :: "nat \<Rightarrow> nat \<Rightarrow> edge_spec list \<Rightarrow> exit_spec list \<Rightarrow>
    (nat \<Rightarrow> int) \<Rightarrow> (nat \<Rightarrow> int) \<Rightarrow> bool" where
  "is_assignment np nc es zs f z =
     ((\<forall>k < length es. 0 \<le> f k \<and> f k \<le> 1) \<and>
      (\<forall>k < length zs. 0 \<le> z k \<and> z k \<le> fst (snd (zs ! k))) \<and>
      (\<forall>i < np. person_load es f i \<le> 1) \<and>
      (\<forall>j < nc. center_load es f j = exit_load zs z j))"

definition in_network :: "nat \<Rightarrow> nat \<Rightarrow> edge_spec list \<Rightarrow> exit_spec list \<Rightarrow> bool" where
  "in_network np nc es zs =
     ((\<forall>(i, j, w) \<in> set es. i < np \<and> j < nc) \<and> (\<forall>(j, c, w) \<in> set zs. j < nc \<and> 0 \<le> c))"

lemma in_networkD:
  assumes "in_network np nc es zs"
  shows "\<forall>(i, j, w) \<in> set es. i < np \<and> j < nc" and "\<forall>(j, c, w) \<in> set zs. j < nc"
    and "\<forall>k < length es. fst (snd (es ! k)) < nc" and "\<forall>k < length zs. fst (zs ! k) < nc"
  using assms by (fastforce simp: in_network_def dest: nth_mem)+

lemma assignment_value:
  assumes net: "in_network np nc es zs" and asg: "is_assignment np nc es zs f z"
  shows "(\<Sum>k < length zs. z k) = (\<Sum>k < length es. f k)"
proof -
  have "(\<Sum>k < length zs. z k) = (\<Sum>j < nc. exit_load zs z j)"
    unfolding exit_load_def by (rule load_total [symmetric]) (rule in_networkD(4) [OF net])
  also have "\<dots> = (\<Sum>j < nc. center_load es f j)"
    using asg by (simp add: is_assignment_def)
  also have "\<dots> = (\<Sum>k < length es. f k)"
    unfolding center_load_def by (rule load_total) (rule in_networkD(3) [OF net])
  finally show ?thesis .
qed

lemma person_load_nonneg:
  "\<forall>k < length es. 0 \<le> f k \<Longrightarrow> 0 \<le> person_load es f i"
  unfolding person_load_def by (rule sum_nonneg) auto

definition assignment_cost :: "edge_spec list \<Rightarrow> exit_spec list \<Rightarrow> (nat \<Rightarrow> int) \<Rightarrow> (nat \<Rightarrow> int) \<Rightarrow> int" where
  "assignment_cost es zs f z =
     (\<Sum>k < length es. f k * snd (snd (es ! k))) + (\<Sum>k < length zs. z k * snd (snd (zs ! k)))"

text \<open>Flow conservation at people and centers, with the flow split over the three arc groups.\<close>

definition conserves :: "nat \<Rightarrow> nat \<Rightarrow> edge_spec list \<Rightarrow> exit_spec list \<Rightarrow>
    (nat \<Rightarrow> int) \<Rightarrow> (nat \<Rightarrow> int) \<Rightarrow> (nat \<Rightarrow> int) \<Rightarrow> bool" where
  "conserves np nc es zs a f z =
     (\<forall>x < np + nc + 2. x \<noteq> 0 \<and> x \<noteq> Suc (np + nc) \<longrightarrow>
        net_flow (person_arcs np) a x + net_flow (edge_arcs np es) f x + net_flow (exit_arcs np nc zs) z x = 0)"

lemma conserves_iff:
  assumes net: "in_network np nc es zs"
  shows "conserves np nc es zs a f z \<longleftrightarrow>
    (\<forall>i < np. a i = person_load es f i) \<and> (\<forall>j < nc. center_load es f j = exit_load zs z j)"
proof -
  note E = net_edge_arcs [OF in_networkD(1) [OF net]] and Z = net_exit_arcs [OF in_networkD(2) [OF net]]
  have node: "(x < np + nc + 2 \<and> x \<noteq> 0 \<and> x \<noteq> Suc (np + nc)) \<longleftrightarrow>
      (\<exists>i < np. x = Suc i) \<or> (\<exists>j < nc. x = Suc (np + j))" for x
  proof
    assume "x < np + nc + 2 \<and> x \<noteq> 0 \<and> x \<noteq> Suc (np + nc)"
    then have "x - 1 < np \<and> x = Suc (x - 1) \<or> x - 1 - np < nc \<and> x = Suc (np + (x - 1 - np))" by auto
    then show "(\<exists>i < np. x = Suc i) \<or> (\<exists>j < nc. x = Suc (np + j))" by blast
  qed auto
  have "conserves np nc es zs a f z \<longleftrightarrow>
      (\<forall>i < np. a i - person_load es f i = 0) \<and> (\<forall>j < nc. center_load es f j - exit_load zs z j = 0)"
    unfolding conserves_def
  proof (intro iffI conjI allI impI)
    assume *: "\<forall>x < np + nc + 2. x \<noteq> 0 \<and> x \<noteq> Suc (np + nc) \<longrightarrow>
        net_flow (person_arcs np) a x + net_flow (edge_arcs np es) f x + net_flow (exit_arcs np nc zs) z x = 0"
    show "a i - person_load es f i = 0" if "i < np" for i
      using * [rule_format, of "Suc i"] that by (simp add: net_person_arcs E Z)
    show "center_load es f j - exit_load zs z j = 0" if "j < nc" for j
      using * [rule_format, of "Suc (np + j)"] that by (simp add: net_person_arcs E Z)
  next
    fix x
    assume *: "(\<forall>i < np. a i - person_load es f i = 0) \<and> (\<forall>j < nc. center_load es f j - exit_load zs z j = 0)"
      and "x < np + nc + 2" "x \<noteq> 0 \<and> x \<noteq> Suc (np + nc)"
    with node [of x] consider i where "i < np" "x = Suc i" | j where "j < nc" "x = Suc (np + j)" by auto
    then show "net_flow (person_arcs np) a x + net_flow (edge_arcs np es) f x + net_flow (exit_arcs np nc zs) z x = 0"
      using * by cases (simp_all add: net_person_arcs E Z)
  qed
  then show ?thesis by simp
qed

lemma sink_value:
  assumes net: "in_network np nc es zs"
  shows "net_flow (person_arcs np) a (Suc (np + nc)) + net_flow (edge_arcs np es) f (Suc (np + nc))
    + net_flow (exit_arcs np nc zs) z (Suc (np + nc)) = (\<Sum>k < length zs. z k)"
  by (simp add: net_person_arcs net_edge_arcs(3) [OF in_networkD(1) [OF net]]
      net_exit_arcs(3) [OF in_networkD(2) [OF net]])

section \<open>Optimal assignments\<close>

definition optimal_assignment :: "nat \<Rightarrow> nat \<Rightarrow> edge_spec list \<Rightarrow> exit_spec list \<Rightarrow>
    (nat \<Rightarrow> int) \<Rightarrow> (nat \<Rightarrow> int) \<Rightarrow> bool" where
  "optimal_assignment np nc es zs f z =
     (is_assignment np nc es zs f z \<and>
      (\<forall>f' z'. is_assignment np nc es zs f' z' \<longrightarrow>
         (\<Sum>k < length es. f' k) \<le> (\<Sum>k < length es. f k) \<and>
         ((\<Sum>k < length es. f' k) = (\<Sum>k < length es. f k) \<longrightarrow>
            assignment_cost es zs f z \<le> assignment_cost es zs f' z')))"

text \<open>
  The arcs may be added in either order the code uses: people, exits, edges
  (\<open>_match_single_requirements\<close>) or people, edges, exits (\<open>_complete_flow_attempt\<close>). Both are
  covered by an offset for the edges and one for the exits.
\<close>

definition layered :: "nat \<Rightarrow> nat \<Rightarrow> edge_spec list \<Rightarrow> exit_spec list \<Rightarrow>
    arc_spec list \<Rightarrow> nat \<Rightarrow> nat \<Rightarrow> bool" where
  "layered np nc es zs specs oe oz =
     (specs = person_arcs np @ exit_arcs np nc zs @ edge_arcs np es \<and> oz = np \<and> oe = np + length zs \<or>
      specs = person_arcs np @ edge_arcs np es @ exit_arcs np nc zs \<and> oe = np \<and> oz = np + length es)"

lemma layered_facts:
  assumes "layered np nc es zs specs oe oz"
  shows "length specs = np + length es + length zs"
    and "set specs = set (person_arcs np) \<union> set (edge_arcs np es) \<union> set (exit_arcs np nc zs)"
    and "net_flow specs f x = net_flow (person_arcs np) f x
      + net_flow (edge_arcs np es) (\<lambda>k. f (oe + k)) x + net_flow (exit_arcs np nc zs) (\<lambda>k. f (oz + k)) x"
    and "flow_cost specs f = assignment_cost es zs (\<lambda>k. f (oe + k)) (\<lambda>k. f (oz + k))"
    and "k < np \<Longrightarrow> spec_cap (specs ! k) = 1"
    and "k < length es \<Longrightarrow> oe + k < length specs \<and> specs ! (oe + k) = edge_arcs np es ! k"
    and "k < length zs \<Longrightarrow> oz + k < length specs \<and> specs ! (oz + k) = exit_arcs np nc zs ! k"
  using assms
  by (auto simp: layered_def net_flow_append flow_cost_append assignment_cost_def edge_cost exit_cost
      nth_append arc_caps add.assoc)

lemma layered_index:
  assumes "layered np nc es zs specs oe oz" and "k < length specs"
  shows "k < np \<or> (\<exists>j < length es. k = oe + j) \<or> (\<exists>j < length zs. k = oz + j)"
proof (cases "k < np")
  case False
  then have "k - oe < length es \<and> k = oe + (k - oe) \<or> k - oz < length zs \<and> k = oz + (k - oz)"
    using assms layered_facts(1) [OF assms(1)] by (auto simp: layered_def)
  then show ?thesis by blast
qed simp

lemma layered_ok:
  assumes lay: "layered np nc es zs specs oe oz" and net: "in_network np nc es zs"
  shows "\<forall>sp \<in> set specs. spec_ok (np + nc + 2) sp"
  using net unfolding layered_facts(2) [OF lay]
  by (fastforce simp: spec_ok_def person_arcs_def edge_arcs_def exit_arcs_def in_network_def)

lemma is_flow_iff_assignment:
  assumes lay: "layered np nc es zs specs oe oz" and net: "in_network np nc es zs"
  shows "is_flow (np + nc + 2) specs 0 (Suc (np + nc)) f \<longleftrightarrow>
    is_assignment np nc es zs (\<lambda>k. f (oe + k)) (\<lambda>k. f (oz + k)) \<and>
    (\<forall>i < np. f i = person_load es (\<lambda>k. f (oe + k)) i)" (is "_ \<longleftrightarrow> is_assignment _ _ _ _ ?e ?z \<and> ?L")
proof -
  note facts = layered_facts [OF lay]
  have cons: "(\<forall>x < np + nc + 2. x \<noteq> 0 \<and> x \<noteq> Suc (np + nc) \<longrightarrow> net_flow specs f x = 0) =
      conserves np nc es zs f ?e ?z"
    by (simp add: conserves_def facts(3))
  have len: "np \<le> length specs" using facts(1) by simp
  have caps: "(\<forall>k < length specs. 0 \<le> f k \<and> f k \<le> spec_cap (specs ! k)) \<longleftrightarrow>
      (\<forall>i < np. 0 \<le> f i \<and> f i \<le> 1) \<and> (\<forall>k < length es. 0 \<le> ?e k \<and> ?e k \<le> 1) \<and>
      (\<forall>k < length zs. 0 \<le> ?z k \<and> ?z k \<le> fst (snd (zs ! k)))" (is "?A \<longleftrightarrow> ?B")
  proof
    assume A: ?A
    have "0 \<le> f i \<and> f i \<le> 1" if "i < np" for i
      using A [rule_format, of i] facts(5) [OF that] len that by simp
    moreover have "0 \<le> ?e k \<and> ?e k \<le> 1" if "k < length es" for k
      using A [rule_format, of "oe + k"] facts(6) [OF that] that by (simp add: arc_caps)
    moreover have "0 \<le> ?z k \<and> ?z k \<le> fst (snd (zs ! k))" if "k < length zs" for k
      using A [rule_format, of "oz + k"] facts(7) [OF that] that by (simp add: arc_caps)
    ultimately show ?B by blast
  next
    assume B: ?B
    show ?A
    proof (intro allI impI)
      fix k assume "k < length specs"
      then show "0 \<le> f k \<and> f k \<le> spec_cap (specs ! k)"
        using layered_index [OF lay, of k] B facts(5-7) by (auto simp: arc_caps)
    qed
  qed
  show ?thesis
    unfolding is_flow_def cons caps conserves_iff [OF net] is_assignment_def
    using person_load_nonneg [of es ?e] by auto
qed

theorem layered_optimal:
  assumes lay: "layered np nc es zs specs oe oz" and net: "in_network np nc es zs"
  shows "\<exists>h. flow_loop 0 (Suc (np + nc)) (built (np + nc + 2) specs) = Some h \<and>
    (let f = spec_flow h specs (built_slots (np + nc + 2) specs)
     in optimal_assignment np nc es zs (\<lambda>k. f (oe + k)) (\<lambda>k. f (oz + k)))"
proof -
  let ?n = "np + nc + 2" and ?t = "Suc (np + nc)"
  note facts = layered_facts [OF lay]
  let ?K = "\<Sum>(i, j, w) \<leftarrow> es. \<bar>w\<bar>" and ?L = "\<Sum>(j, c, w) \<leftarrow> zs. \<bar>w\<bar>"
  define p where "p x = (if x \<le> np then 0 else if x \<le> np + nc then - ?K else - ?K - ?L)" for x :: nat
  have K: "\<bar>w\<bar> \<le> ?K" if "(i, j, w) \<in> set es" for i j w
    using member_le_sum_list_int [OF that, of "\<lambda>(i, j, w). \<bar>w\<bar>"] by (auto simp: case_prod_beta)
  have L: "\<bar>w\<bar> \<le> ?L" if "(j, c, w) \<in> set zs" for j c w
    using member_le_sum_list_int [OF that, of "\<lambda>(i, j, w). \<bar>w\<bar>"] by (auto simp: case_prod_beta)
  have pot: "\<forall>(u, v, c, w) \<in> set specs. c \<noteq> 0 \<longrightarrow> p v \<le> p u + w"
    unfolding facts(2)
  proof (intro ballI, clarify)
    fix u v c w
    assume "(u, v, c, w) \<in> set (person_arcs np) \<union> set (edge_arcs np es) \<union> set (exit_arcs np nc zs)"
    then consider "u = 0" "v \<le> np" "w = 0" | i j where "(i, j, w) \<in> set es" "u = 1 + i" "v = 1 + np + j"
      | j where "(j, c, w) \<in> set zs" "u = 1 + np + j" "v = 1 + np + nc"
      by (auto simp: person_arcs_def edge_arcs_def exit_arcs_def)
    then show "p v \<le> p u + w"
    proof cases
      case 1
      then show ?thesis by (simp add: p_def)
    next
      case 2
      then show ?thesis using K [OF 2(1)] net by (auto simp: p_def in_network_def)
    next
      case 3
      then show ?thesis using L [OF 3(1)] net by (auto simp: p_def in_network_def)
    qed
  qed
  have "p 0 = 0" by (simp add: p_def)
  from flow_loop_optimal [OF layered_ok [OF lay net] _ _ _ pot this, of ?t]
  obtain h f where h: "flow_loop 0 ?t (built ?n specs) = Some h"
      and f: "f = spec_flow h specs (built_slots ?n specs)"
      and flow: "is_flow ?n specs 0 ?t f"
      and best: "\<And>f'. is_flow ?n specs 0 ?t f' \<Longrightarrow>
        net_flow specs f' ?t \<le> net_flow specs f ?t \<and>
        (net_flow specs f' ?t = net_flow specs f ?t \<longrightarrow> flow_cost specs f \<le> flow_cost specs f')"
    by (auto simp: Let_def)
  have asg: "is_assignment np nc es zs (\<lambda>k. f (oe + k)) (\<lambda>k. f (oz + k))"
    using flow unfolding is_flow_iff_assignment [OF lay net] by blast
  have opt: "(\<Sum>k < length es. e k) \<le> (\<Sum>k < length es. f (oe + k)) \<and>
      ((\<Sum>k < length es. e k) = (\<Sum>k < length es. f (oe + k)) \<longrightarrow>
        assignment_cost es zs (\<lambda>k. f (oe + k)) (\<lambda>k. f (oz + k)) \<le> assignment_cost es zs e z)"
    if ez: "is_assignment np nc es zs e z" for e z
  proof -
    define f' where "f' k = (if k < np then person_load es e k
        else if oe \<le> k \<and> k < oe + length es then e (k - oe) else z (k - oz))" for k
    have "f' (oz + k) = z k" if "k < length zs" for k
      using lay that by (auto simp: f'_def layered_def)
    moreover have "f' (oe + k) = e k" if "k < length es" for k
      using lay that by (auto simp: f'_def layered_def)
    ultimately have same: "\<And>k. k < length es \<Longrightarrow> f' (oe + k) = e k" "\<And>k. k < length zs \<Longrightarrow> f' (oz + k) = z k"
      by auto
    have loads: "person_load es (\<lambda>k. f' (oe + k)) i = person_load es e i"
      "center_load es (\<lambda>k. f' (oe + k)) i = center_load es e i"
      "exit_load zs (\<lambda>k. f' (oz + k)) i = exit_load zs z i" for i
      using same by (auto simp: person_load_def center_load_def exit_load_def intro!: sum.cong)
    have asg': "is_assignment np nc es zs (\<lambda>k. f' (oe + k)) (\<lambda>k. f' (oz + k))"
      using ez same by (simp add: is_assignment_def loads)
    have "f' i = person_load es (\<lambda>k. f' (oe + k)) i" if "i < np" for i
      unfolding loads using that by (simp add: f'_def)
    then have flow': "is_flow ?n specs 0 ?t f'"
      unfolding is_flow_iff_assignment [OF lay net] using asg' by blast
    have "net_flow specs f'' ?t = (\<Sum>k < length es. f'' (oe + k))"
      if "is_assignment np nc es zs (\<lambda>k. f'' (oe + k)) (\<lambda>k. f'' (oz + k))" for f''
      using sink_value [OF net] assignment_value [OF net that] by (simp add: facts(3))
    note placed = this [OF asg] this [OF asg']
    have "assignment_cost es zs (\<lambda>k. f' (oe + k)) (\<lambda>k. f' (oz + k)) = assignment_cost es zs e z"
      using same by (simp add: assignment_cost_def)
    then show ?thesis using best [OF flow'] same by (simp add: placed facts(4))
  qed
  show ?thesis using h asg opt by (auto simp: Let_def optimal_assignment_def f)
qed

end
