(* ===== verification/Edge_Selection.thy ===== *)
theory Edge_Selection
  imports Schedule_Model Assignment_Network
begin

text \<open>
  Between 0/1 flows on a list of candidate edges and lists of chosen edges: the chosen edges of
  a flow have the sums of the flow, and every duplicate-free choice of edges is the chosen list
  of some flow, up to order. Also what the two solvers share when they read a residual graph.
\<close>

section \<open>Appended arc lists\<close>

lemma add_arcs_append:
  "add_arcs g (xs @ ys) =
     (let (g1, is1) = add_arcs g xs; (g2, is2) = add_arcs g1 ys in (g2, is1 @ is2))"
proof (induction xs arbitrary: g)
  case (Cons sp xs)
  then show ?case by (cases sp) (auto simp: Let_def case_prod_beta)
qed simp

lemma slots_append: "slots g (xs @ ys) = slots g xs @ slots (fst (add_arcs g xs)) ys"
proof (induction xs arbitrary: g)
  case (Cons sp xs)
  then show ?case by (cases sp) (simp add: add_arcs_graph_Cons del: add_arcs.simps)
qed simp

section \<open>Counting\<close>

lemma distinct_iff_count:
  "distinct xs \<longleftrightarrow> (\<forall>y. (\<Sum>x \<leftarrow> xs. if x = y then 1 else 0) \<le> (1 :: int))"
proof (induction xs)
  case (Cons a xs)
  have nonneg: "0 \<le> (\<Sum>x \<leftarrow> xs. if x = y then 1 else (0 :: int))" for y
    by (rule sum_list_nonneg_int) simp
  have zero: "(\<Sum>x \<leftarrow> xs. if x = a then 1 else (0 :: int)) = 0 \<longleftrightarrow> a \<notin> set xs"
  proof
    assume *: "(\<Sum>x \<leftarrow> xs. if x = a then 1 else (0 :: int)) = 0"
    show "a \<notin> set xs"
    proof
      assume "a \<in> set xs"
      then have "(if a = a then 1 else 0) \<le> (\<Sum>x \<leftarrow> xs. if x = a then 1 else (0 :: int))"
        by (rule member_le_sum_list_int) simp
      with * show False by simp
    qed
  next
    show "a \<notin> set xs \<Longrightarrow> (\<Sum>x \<leftarrow> xs. if x = a then 1 else (0 :: int)) = 0"
      by (induction xs) auto
  qed
  show ?case
  proof
    assume "distinct (a # xs)"
    then have a: "a \<notin> set xs" and d: "distinct xs" by simp_all
    show "\<forall>y. (\<Sum>x \<leftarrow> a # xs. if x = y then 1 else 0) \<le> (1 :: int)"
    proof
      fix y
      show "(\<Sum>x \<leftarrow> a # xs. if x = y then 1 else 0) \<le> (1 :: int)"
        using Cons.IH d zero a by (cases "y = a") auto
    qed
  next
    assume *: "\<forall>y. (\<Sum>x \<leftarrow> a # xs. if x = y then 1 else 0) \<le> (1 :: int)"
    have "distinct xs" unfolding Cons.IH
    proof
      fix y show "(\<Sum>x \<leftarrow> xs. if x = y then 1 else 0) \<le> (1 :: int)"
        using * [rule_format, of y] by (auto split: if_splits)
    qed
    moreover have "a \<notin> set xs"
      using * [rule_format, of a] nonneg [of a] zero by simp
    ultimately show "distinct (a # xs)" by simp
  qed
qed simp

lemma sum_list_as_sum: "(\<Sum>x \<leftarrow> xs. g x) = (\<Sum>k < length xs. g (xs ! k) :: int)"
  by (simp add: sum_list_sum_nth atLeast0LessThan)

section \<open>Chosen edges\<close>

definition chosen :: "'a list \<Rightarrow> (nat \<Rightarrow> int) \<Rightarrow> 'a list" where
  "chosen xs f = map ((!) xs) (filter (\<lambda>k. f k = 1) [0..<length xs])"

lemma set_chosen: "set (chosen xs f) \<subseteq> set xs"
  by (auto simp: chosen_def)

lemma chosen_sum:
  assumes "\<forall>k < length xs. f k = 0 \<or> f k = 1"
  shows "(\<Sum>k < length xs. f k * g (xs ! k)) = (\<Sum>x \<leftarrow> chosen xs f. g x)"
proof -
  have "(\<Sum>x \<leftarrow> chosen xs f. g x) = (\<Sum>k \<leftarrow> filter (\<lambda>k. f k = 1) [0..<length xs]. g (xs ! k))"
    by (simp add: chosen_def comp_def)
  also have "\<dots> = (\<Sum>k \<leftarrow> [0..<length xs]. if f k = 1 then g (xs ! k) else 0)"
    by (rule sum_list_map_filter')
  also have "\<dots> = (\<Sum>k < length xs. if f k = 1 then g (xs ! k) else 0)"
    by (simp add: sum_list_as_sum cong: if_cong)
  also have "\<dots> = (\<Sum>k < length xs. f k * g (xs ! k))"
    by (rule sum.cong [OF refl]) (use assms in auto)
  finally show ?thesis by simp
qed

lemma zip_filter_chosen:
  assumes "length ys = length xs" and "\<And>k. k < length xs \<Longrightarrow> P (ys ! k) \<longleftrightarrow> f k = 1"
  shows "map snd (filter (\<lambda>(y, x). P y) (zip ys xs)) = chosen xs f"
proof -
  have "zip ys xs = map (\<lambda>k. (ys ! k, xs ! k)) [0..<length xs]"
    by (rule nth_equalityI) (use assms(1) in auto)
  then have "map snd (filter (\<lambda>(y, x). P y) (zip ys xs)) =
      map ((!) xs) (filter (\<lambda>k. P (ys ! k)) [0..<length xs])"
    by (simp add: filter_map comp_def)
  also have "filter (\<lambda>k. P (ys ! k)) [0..<length xs] = filter (\<lambda>k. f k = 1) [0..<length xs]"
    by (rule filter_cong) (use assms(2) in auto)
  finally show ?thesis by (simp add: chosen_def)
qed

lemma choice_as_flow:
  assumes sub: "set ms \<subseteq> set xs" and dist: "distinct ms"
  shows "\<exists>f. (\<forall>k < length xs. f k = 0 \<or> f k = 1) \<and>
    (\<forall>g. (\<Sum>k < length xs. f k * g (xs ! k)) = (\<Sum>x \<leftarrow> ms. g x :: int))"
proof -
  let ?K = "{k. k < length xs \<and> xs ! k \<in> set ms \<and> (\<forall>j < k. xs ! j \<noteq> xs ! k)}"
  define f where "f k = (if k \<in> ?K then 1 else (0 :: int))" for k
  have inj: "inj_on ((!) xs) ?K"
    by (rule inj_onI) (metis (mono_tags, lifting) mem_Collect_eq nat_neq_iff)
  have img: "(!) xs ` ?K = set ms"
  proof
    show "set ms \<subseteq> (!) xs ` ?K"
    proof
      fix x assume x: "x \<in> set ms"
      then have ex: "\<exists>k. k < length xs \<and> xs ! k = x" using sub by (metis in_set_conv_nth subsetD)
      then obtain k where k: "k < length xs \<and> xs ! k = x"
          and first: "\<And>j. j < k \<Longrightarrow> \<not> (j < length xs \<and> xs ! j = x)"
        using exists_least_iff [of "\<lambda>k. k < length xs \<and> xs ! k = x"] by blast
      then have "k \<in> ?K" using x by fastforce
      then show "x \<in> (!) xs ` ?K" using k by blast
    qed
  qed auto
  have "(\<Sum>k < length xs. f k * g (xs ! k)) = (\<Sum>x \<leftarrow> ms. g x)" for g :: "'a \<Rightarrow> int"
  proof -
    have "(\<Sum>k < length xs. f k * g (xs ! k)) = (\<Sum>k \<in> ?K. g (xs ! k))"
      by (rule sum.mono_neutral_cong_right) (auto simp: f_def)
    also have "\<dots> = (\<Sum>x \<in> (!) xs ` ?K. g x)"
      by (simp add: sum.reindex [OF inj])
    also have "\<dots> = (\<Sum>x \<leftarrow> ms. g x)"
      by (simp only: img sum_list_distinct_conv_sum_set [OF dist])
    finally show ?thesis .
  qed
  moreover have "\<forall>k < length xs. f k = 0 \<or> f k = 1" by (simp add: f_def)
  ultimately show ?thesis by blast
qed

section \<open>Edges as numbers\<close>

definition edge_spec_of :: "string list \<Rightarrow> string list \<Rightarrow> (candidate_edge \<Rightarrow> int) \<Rightarrow> candidate_edge \<Rightarrow> edge_spec" where
  "edge_spec_of people centers cost e =
     (dict_index people (edge_person e), dict_index centers (edge_center e), cost e)"

definition edges_within :: "string list \<Rightarrow> string list \<Rightarrow> candidate_edge list \<Rightarrow> bool" where
  "edges_within people centers edges =
     (\<forall>e \<in> set edges. edge_person e \<in> set people \<and> edge_center e \<in> set centers)"

lemma load_as_count:
  "(\<Sum>k < length xs. if key (xs ! k) = i then f k else 0) =
     (\<Sum>k < length xs. f k * (if key (xs ! k) = i then 1 else (0 :: int)))"
  by (rule sum.cong [OF refl]) simp

lemma person_load_names:
  "person_load (map (edge_spec_of people centers cost) edges) f i =
     (\<Sum>k < length edges. f k * (if dict_index people (edge_person (edges ! k)) = i then 1 else 0))"
  unfolding person_load_def length_map
  by (rule sum.cong [OF refl]) (simp add: edge_spec_of_def)

lemma center_load_names:
  "center_load (map (edge_spec_of people centers cost) edges) f j =
     (\<Sum>k < length edges. f k * (if dict_index centers (edge_center (edges ! k)) = j then 1 else 0))"
  unfolding center_load_def length_map
  by (rule sum.cong [OF refl]) (simp add: edge_spec_of_def)

text \<open>How many of the chosen edges have a given person, or a given center.\<close>

definition person_count :: "string \<Rightarrow> candidate_edge list \<Rightarrow> int" where
  "person_count p es = (\<Sum>e \<leftarrow> es. if edge_person e = p then 1 else 0)"

definition center_count :: "string \<Rightarrow> candidate_edge list \<Rightarrow> int" where
  "center_count c es = (\<Sum>e \<leftarrow> es. if edge_center e = c then 1 else 0)"

lemma index_count:
  assumes "set (map key es) \<subseteq> set names" and "distinct names" and "i < length names"
  shows "(\<Sum>e \<leftarrow> es. if dict_index names (key e) = i then 1 else 0) =
    (\<Sum>e \<leftarrow> es. if key e = names ! i then 1 else (0 :: int))"
proof -
  have "dict_index names (key e) = i \<longleftrightarrow> key e = names ! i" if "e \<in> set es" for e
    using assms that dict_index_nth [of "key e" names] dict_index_of_nth [OF assms(2,3)] by auto
  then show ?thesis by (intro arg_cong [of _ _ sum_list] map_cong) auto
qed

lemma distinct_people_iff:
  "distinct (map edge_person es) \<longleftrightarrow> (\<forall>p. person_count p es \<le> 1)"
  by (simp add: distinct_iff_count person_count_def comp_def)

lemma distinct_centers_iff:
  "distinct (map edge_center es) \<longleftrightarrow> (\<forall>c. center_count c es \<le> 1)"
  by (simp add: distinct_iff_count center_count_def comp_def)

lemma person_count_absent: "p \<notin> set (map edge_person es) \<Longrightarrow> person_count p es = 0"
  unfolding person_count_def by (induction es) auto

lemma center_count_absent: "c \<notin> set (map edge_center es) \<Longrightarrow> center_count c es = 0"
  unfolding center_count_def by (induction es) auto

lemma center_count_nonneg: "0 \<le> center_count c es"
  unfolding center_count_def by (rule sum_list_nonneg_int) simp

end
