(* ===== verification/Single_Matching.thy ===== *)
theory Single_Matching
  imports Edge_Selection
begin

text \<open>
  \<open>_match_single_requirements\<close> of \<open>schedule_solver.py\<close> (lines 169-255): one open slot in each
  center, people with candidate edges, a largest and then cheapest matching. Costs pack three
  digits: preference overrides, rank, and a tie digit that makes the answer unique.
  Python iterates a \<open>set\<close> of people before sorting it by lower-case name; the order of two
  names that differ in case only is therefore not fixed by the code, and the model takes
  the order of \<open>remdups\<close>. A candidate of a center that is not among the requirements is
  the \<open>KeyError\<close> of \<open>center_place[edge.center]\<close>.
\<close>

section \<open>The problem\<close>

definition single_centers :: "center_requirement list \<Rightarrow> center_requirement list" where
  "single_centers requirements = sort_key (\<lambda>item. lower (req_center item)) requirements"

definition single_edges ::
    "center_requirement list \<Rightarrow> string set \<Rightarrow> candidate_edge list" where
  "single_edges requirements unavailable_people =
     sort_key (\<lambda>edge. (lower (edge_person edge), lower (edge_center edge), edge_rank_cost edge))
       (filter (\<lambda>edge. edge_person edge \<notin> unavailable_people)
          (concat (map req_candidates (single_centers requirements))))"

definition edge_people :: "candidate_edge list \<Rightarrow> string list" where
  "edge_people edges = sort_key lower (remdups (map edge_person edges))"

section \<open>Costs\<close>

definition single_ordinary_bound :: "candidate_edge list \<Rightarrow> int" where
  "single_ordinary_bound edges = (\<Sum>edge \<leftarrow> edges. max 0 (edge_rank_cost edge)) + int (length edges) + 1"

definition single_primary_cost :: "int \<Rightarrow> candidate_edge \<Rightarrow> int" where
  "single_primary_cost ordinary_bound edge =
     override_cost edge * ordinary_bound + max 0 (edge_rank_cost edge)"

definition single_tie_range :: "nat \<Rightarrow> nat \<Rightarrow> int" where
  "single_tie_range n_people n_centers = (int n_people + 1) ^ n_centers - 1"

definition single_tie_cost :: "string list \<Rightarrow> string list \<Rightarrow> candidate_edge \<Rightarrow> int" where
  "single_tie_cost people centers edge =
     (int (dict_index people (edge_person edge)) - int (length people)) *
     (int (length people) + 1) ^ (length centers - dict_index centers (edge_center edge) - 1)"

definition single_cost :: "candidate_edge list \<Rightarrow> string list \<Rightarrow> string list \<Rightarrow> candidate_edge \<Rightarrow> int" where
  "single_cost edges people centers edge =
     single_primary_cost (single_ordinary_bound edges) edge *
       (single_tie_range (length people) (length centers) + 1)
     + single_tie_cost people centers edge"

section \<open>The network and the matching\<close>

definition person_node :: "string list \<Rightarrow> string \<Rightarrow> nat" where
  "person_node people name = dict_index people name + 1"

definition center_node :: "string list \<Rightarrow> string list \<Rightarrow> string \<Rightarrow> nat" where
  "center_node people centers name = 1 + length people + dict_index centers name"

definition match_single ::
    "center_requirement list \<Rightarrow> string set \<Rightarrow> assignment_decision list run" where
  "match_single requirements unavailable_people =
     (let centers = map req_center (single_centers requirements);
          edges = single_edges requirements unavailable_people;
          people = edge_people edges;
          source = 0;
          sink = 1 + length people + length centers;
          graph0 = empty_graph (sink + 1);
          (graph1, _) = add_arcs graph0
             (map (\<lambda>person. (source, person_node people person, 1, 0)) people);
          (graph2, _) = add_arcs graph1
             (map (\<lambda>center. (center_node people centers center, sink, 1, 0)) centers);
          starts = map (\<lambda>edge. person_node people (edge_person edge)) edges;
          (graph3, arc_indices) = add_arcs graph2
             (map (\<lambda>edge. (person_node people (edge_person edge),
                           center_node people centers (edge_center edge), 1,
                           single_cost edges people centers edge)) edges);
          chosen_arcs = zip starts (zip arc_indices edges)
      in if \<exists>edge \<in> set edges. edge_center edge \<notin> set centers then Some (Inl KeyError)
         else map_option (\<lambda>graph. Inr
             (sort_decisions
               (map (\<lambda>(start, arc_index, edge). decision edge)
                  (filter (\<lambda>(start, arc_index, edge).
                             arc_capacity (graph ! start ! arc_index) = 0) chosen_arcs))))
           (flow_loop source sink graph3))"

section \<open>What a matching is\<close>

definition valid_matching :: "candidate_edge list \<Rightarrow> candidate_edge list \<Rightarrow> bool" where
  "valid_matching edges ms =
     (set ms \<subseteq> set edges \<and> distinct (map edge_person ms) \<and> distinct (map edge_center ms))"

definition edge_overrides :: "candidate_edge list \<Rightarrow> int" where
  "edge_overrides ms = (\<Sum>e \<leftarrow> ms. override_cost e)"

definition edge_ranks :: "candidate_edge list \<Rightarrow> int" where
  "edge_ranks ms = (\<Sum>e \<leftarrow> ms. max 0 (edge_rank_cost e))"

definition edge_ties :: "string list \<Rightarrow> string list \<Rightarrow> candidate_edge list \<Rightarrow> int" where
  "edge_ties people centers ms = (\<Sum>e \<leftarrow> ms. single_tie_cost people centers e)"

section \<open>The cost digits do not interfere\<close>

lemma digit_sum: "(\<Sum>j < n. (int b) * (int b + 1) ^ j) = (int b + 1) ^ n - 1"
  by (induction n) (simp_all add: algebra_simps)

lemma tie_term_bounds:
  assumes "edge_person e \<in> set people"
  shows "single_tie_cost people centers e \<le> 0"
    and "- (int (length people) * (int (length people) + 1) ^
           (length centers - dict_index centers (edge_center e) - 1))
         \<le> single_tie_cost people centers e"
proof -
  let ?d = "int (dict_index people (edge_person e)) - int (length people)"
  let ?p = "(int (length people) + 1) ^ (length centers - dict_index centers (edge_center e) - 1)"
  have d: "?d \<le> 0" "- int (length people) \<le> ?d" using dict_index_bound [OF assms] by simp_all
  have p: "0 \<le> ?p" by simp
  show "single_tie_cost people centers e \<le> 0"
    unfolding single_tie_cost_def using d(1) p by (rule mult_nonpos_nonneg)
  show "- (int (length people) * ?p) \<le> single_tie_cost people centers e"
    unfolding single_tie_cost_def using mult_right_mono [OF d(2) p] by simp
qed

lemma edge_ties_bounds:
  assumes within: "edges_within people centers edges" and valid: "valid_matching edges ms"
  shows "edge_ties people centers ms \<le> 0"
    and "- single_tie_range (length people) (length centers) \<le> edge_ties people centers ms"
proof -
  let ?b = "int (length people)" and ?n = "length centers"
  let ?place = "\<lambda>e. ?n - dict_index centers (edge_center e) - 1"
  have person: "edge_person e \<in> set people" and center: "edge_center e \<in> set centers"
    if "e \<in> set ms" for e
    using within valid that by (auto simp: edges_within_def valid_matching_def)
  have "edge_ties people centers ms \<le> (\<Sum>e \<leftarrow> ms. 0)"
    unfolding edge_ties_def by (rule sum_list_mono_int) (simp add: tie_term_bounds(1) person)
  then show "edge_ties people centers ms \<le> 0" by simp
  have dist: "distinct ms" using valid by (auto simp: valid_matching_def distinct_map)
  have inj: "inj_on ?place (set ms)"
  proof (rule inj_onI)
    fix e e' assume e: "e \<in> set ms" "e' \<in> set ms" and "?place e = ?place e'"
    then have "dict_index centers (edge_center e) = dict_index centers (edge_center e')"
      using dict_index_bound [OF center [OF e(1)]] dict_index_bound [OF center [OF e(2)]] by linarith
    then have "edge_center e = edge_center e'"
      using dict_index_inj [OF center [OF e(1)] center [OF e(2)]] by simp
    then show "e = e'" using valid e by (auto simp: valid_matching_def distinct_map inj_on_def)
  qed
  have "(\<Sum>e \<leftarrow> ms. ?b * (?b + 1) ^ ?place e) = (\<Sum>j \<in> ?place ` set ms. ?b * (?b + 1) ^ j)"
    by (simp only: sum.reindex [OF inj] sum_list_distinct_conv_sum_set [OF dist] comp_def)
  also have "\<dots> \<le> (\<Sum>j < ?n. ?b * (?b + 1) ^ j)"
  proof (rule sum_mono2)
    show "?place ` set ms \<subseteq> {..<?n}"
      using dict_index_bound [OF center] by fastforce
  qed simp_all
  finally have upper: "(\<Sum>e \<leftarrow> ms. ?b * (?b + 1) ^ ?place e) \<le> single_tie_range (length people) ?n"
    by (simp add: digit_sum single_tie_range_def)
  have "(\<Sum>e \<leftarrow> ms. - (?b * (?b + 1) ^ ?place e)) \<le> edge_ties people centers ms"
    unfolding edge_ties_def by (rule sum_list_mono_int) (use tie_term_bounds(2) person in blast)
  moreover have "(\<Sum>e \<leftarrow> ms. - (?b * (?b + 1) ^ ?place e)) = - (\<Sum>e \<leftarrow> ms. ?b * (?b + 1) ^ ?place e)"
    by (induction ms) auto
  ultimately show "- single_tie_range (length people) ?n \<le> edge_ties people centers ms"
    using upper by linarith
qed

lemma sum_list_distinct_subset:
  assumes "distinct ms" and "set ms \<subseteq> set xs" and "\<And>x. x \<in> set xs \<Longrightarrow> 0 \<le> g x"
  shows "(\<Sum>x \<leftarrow> ms. g x) \<le> (\<Sum>x \<leftarrow> xs. g x :: int)"
proof -
  have "(\<Sum>x \<leftarrow> ms. g x) = (\<Sum>x \<in> set ms. g x)"
    by (rule sum_list_distinct_conv_sum_set [OF assms(1)])
  also have "\<dots> \<le> (\<Sum>x \<in> set xs. g x)"
    by (rule sum_mono2) (use assms in auto)
  also have "\<dots> \<le> (\<Sum>x \<leftarrow> xs. g x)"
    using assms(3)
  proof (induction xs)
    case (Cons a xs)
    have "(\<Sum>x \<in> set (a # xs). g x) \<le> g a + (\<Sum>x \<in> set xs. g x)"
      using Cons.prems [of a] by (cases "a \<in> set xs") (auto simp: insert_absorb)
    also have "\<dots> \<le> (\<Sum>x \<leftarrow> a # xs. g x)"
      using Cons.IH [OF Cons.prems] by simp
    finally show ?case .
  qed simp
  finally show ?thesis .
qed

lemma edge_ranks_bounds:
  assumes "valid_matching edges ms"
  shows "0 \<le> edge_ranks ms" and "edge_ranks ms < single_ordinary_bound edges"
proof -
  show "0 \<le> edge_ranks ms" unfolding edge_ranks_def by (rule sum_list_nonneg_int) simp
  have "distinct ms" "set ms \<subseteq> set edges"
    using assms by (auto simp: valid_matching_def distinct_map)
  then have "edge_ranks ms \<le> (\<Sum>e \<leftarrow> edges. max 0 (edge_rank_cost e))"
    unfolding edge_ranks_def by (rule sum_list_distinct_subset) simp
  then show "edge_ranks ms < single_ordinary_bound edges" by (simp add: single_ordinary_bound_def)
qed

lemma single_cost_sum:
  "(\<Sum>e \<leftarrow> ms. single_cost edges people centers e) =
     (edge_overrides ms * single_ordinary_bound edges + edge_ranks ms)
       * (single_tie_range (length people) (length centers) + 1) + edge_ties people centers ms"
  unfolding edge_overrides_def edge_ranks_def edge_ties_def
  by (induction ms) (simp_all add: single_cost_def single_primary_cost_def algebra_simps)

text \<open>Two-digit numbers: the high digits decide, then the low ones.\<close>

lemma digits_le:
  fixes a a' b b' n :: int
  assumes "a * n + b \<le> a' * n + b'" and "0 \<le> b" "b < n" "0 \<le> b'" "b' < n"
  shows "a < a' \<or> a = a' \<and> b \<le> b'"
proof (cases "a \<le> a'")
  case True
  then show ?thesis using assms(1) by (cases "a = a'") auto
next
  case False
  then have "(a' + 1) * n \<le> a * n" using assms by (intro mult_right_mono) auto
  then show ?thesis using assms by (simp add: algebra_simps)
qed

lemma cost_order:
  assumes within: "edges_within people centers edges"
    and ms: "valid_matching edges ms" and ms': "valid_matching edges ms'"
    and le: "(\<Sum>e \<leftarrow> ms. single_cost edges people centers e) \<le>
             (\<Sum>e \<leftarrow> ms'. single_cost edges people centers e)"
  shows "(edge_overrides ms, edge_ranks ms, edge_ties people centers ms) \<le>
    (edge_overrides ms', edge_ranks ms', edge_ties people centers ms')"
proof -
  let ?r = "single_tie_range (length people) (length centers)" and ?b = "single_ordinary_bound edges"
  let ?P = "\<lambda>ms. edge_overrides ms * ?b + edge_ranks ms"
  have "?P ms * (?r + 1) + (edge_ties people centers ms + ?r) \<le>
      ?P ms' * (?r + 1) + (edge_ties people centers ms' + ?r)"
    using le by (simp add: single_cost_sum)
  then have high: "?P ms < ?P ms' \<or> ?P ms = ?P ms' \<and> edge_ties people centers ms \<le> edge_ties people centers ms'"
    using digits_le edge_ties_bounds [OF within ms] edge_ties_bounds [OF within ms']
    by fastforce
  then have "?P ms \<le> ?P ms'" by auto
  then have "edge_overrides ms < edge_overrides ms' \<or>
      edge_overrides ms = edge_overrides ms' \<and> edge_ranks ms \<le> edge_ranks ms'"
    by (rule digits_le) (rule edge_ranks_bounds [OF ms] edge_ranks_bounds [OF ms'])+
  with high show ?thesis by (auto simp: less_eq_prod_def)
qed

section \<open>The network of the matching problem\<close>

definition unit_exits :: "nat \<Rightarrow> exit_spec list" where
  "unit_exits n = map (\<lambda>j. (j, 1, 0)) [0..<n]"

lemma exit_load_unit: "j < n \<Longrightarrow> exit_load (unit_exits n) z j = z j"
  by (simp add: exit_load_def unit_exits_def sum.delta cong: if_cong)

lemma unit_exits_facts [simp]: "length (unit_exits n) = n" "k < n \<Longrightarrow> unit_exits n ! k = (k, 1, 0)"
  by (simp_all add: unit_exits_def)

lemma single_person_arcs:
  "distinct people \<Longrightarrow>
     map (\<lambda>person. (0, person_node people person, 1, 0)) people = person_arcs (length people)"
  unfolding person_arcs_def
  by (rule nth_equalityI) (simp_all add: person_node_def dict_index_of_nth)

lemma single_exit_arcs:
  "distinct centers \<Longrightarrow>
     map (\<lambda>center. (center_node people centers center, 1 + length people + length centers, 1, 0)) centers =
     exit_arcs (length people) (length centers) (unit_exits (length centers))"
  unfolding exit_arcs_def
  by (rule nth_equalityI) (simp_all add: center_node_def dict_index_of_nth)

lemma single_edge_arcs:
  "map (\<lambda>edge. (person_node people (edge_person edge), center_node people centers (edge_center edge),
                1, cost edge)) edges =
     edge_arcs (length people) (map (edge_spec_of people centers cost) edges)"
  by (simp add: edge_arcs_def edge_spec_of_def person_node_def center_node_def comp_def)

lemma single_in_network:
  "edges_within people centers edges \<Longrightarrow>
     in_network (length people) (length centers) (map (edge_spec_of people centers cost) edges)
       (unit_exits (length centers))"
  by (auto simp: in_network_def edges_within_def edge_spec_of_def unit_exits_def dict_index_bound)

lemma unit_assignment_iff:
  assumes within: "edges_within people centers edges"
    and dp: "distinct people" and dc: "distinct centers"
    and f01: "\<forall>k < length edges. f k = 0 \<or> f k = 1"
    and sums: "\<And>g. (\<Sum>k < length edges. f k * g (edges ! k)) = (\<Sum>e \<leftarrow> ms. g e)"
    and sub: "set ms \<subseteq> set edges"
    and z: "\<forall>j < length centers. z j = center_load (map (edge_spec_of people centers cost) edges) f j"
  shows "is_assignment (length people) (length centers) (map (edge_spec_of people centers cost) edges)
      (unit_exits (length centers)) f z \<longleftrightarrow>
    distinct (map edge_person ms) \<and> distinct (map edge_center ms)"
proof -
  let ?es = "map (edge_spec_of people centers cost) edges"
  have ms: "set (map edge_person ms) \<subseteq> set people" "set (map edge_center ms) \<subseteq> set centers"
    using within sub by (auto simp: edges_within_def)
  have pl: "person_load ?es f i = person_count (people ! i) ms" if "i < length people" for i
    unfolding person_load_names person_count_def sums [of "\<lambda>e. if dict_index people (edge_person e) = i then 1 else 0"]
    by (rule index_count [OF ms(1) dp that])
  have cl: "center_load ?es f j = center_count (centers ! j) ms" if "j < length centers" for j
    unfolding center_load_names center_count_def sums [of "\<lambda>e. if dict_index centers (edge_center e) = j then 1 else 0"]
    by (rule index_count [OF ms(2) dc that])
  have p: "(\<forall>i < length people. person_load ?es f i \<le> 1) \<longleftrightarrow> distinct (map edge_person ms)"
    unfolding distinct_people_iff using pl ms(1) person_count_absent [of _ ms]
    by (metis in_set_conv_nth subsetD zero_le_one)
  have c: "(\<forall>j < length centers. center_load ?es f j \<le> 1) \<longleftrightarrow> distinct (map edge_center ms)"
    unfolding distinct_centers_iff using cl ms(2) center_count_absent [of _ ms]
    by (metis in_set_conv_nth subsetD zero_le_one)
  have "0 \<le> z j" if "j < length centers" for j
    using z cl [OF that] center_count_nonneg [of "centers ! j" ms] that by simp
  then show ?thesis
    using f01 z p c by (auto simp: is_assignment_def exit_load_unit)
qed

lemma zero_exit_cost:
  "assignment_cost es (unit_exits n) f z = (\<Sum>k < length es. f k * snd (snd (es ! k)))"
  by (simp add: assignment_cost_def)

lemma edge_spec_cost_sum:
  assumes "\<And>g. (\<Sum>k < length edges. f k * g (edges ! k)) = (\<Sum>e \<leftarrow> ms. g e)"
  shows "assignment_cost (map (edge_spec_of people centers cost) edges) (unit_exits n) f z = (\<Sum>e \<leftarrow> ms. cost e)"
  using assms [of cost] by (simp add: zero_exit_cost edge_spec_of_def)

lemma zero_one: "0 \<le> f \<Longrightarrow> f \<le> 1 \<Longrightarrow> f = 0 \<or> f = (1 :: int)"
  by linarith

text \<open>The chosen edges of an optimal assignment are a best matching.\<close>

lemma optimal_single_matching:
  assumes within: "edges_within people centers edges"
    and dp: "distinct people" and dc: "distinct centers"
    and opt: "optimal_assignment (length people) (length centers)
      (map (edge_spec_of people centers cost) edges) (unit_exits (length centers)) f z"
  shows "valid_matching edges (chosen edges f)"
    and "valid_matching edges ms \<Longrightarrow> length ms \<le> length (chosen edges f)"
    and "valid_matching edges ms \<Longrightarrow> length ms = length (chosen edges f) \<Longrightarrow>
      (\<Sum>e \<leftarrow> chosen edges f. cost e) \<le> (\<Sum>e \<leftarrow> ms. cost e)"
proof -
  let ?es = "map (edge_spec_of people centers cost) edges" and ?zs = "unit_exits (length centers)"
  have asg: "is_assignment (length people) (length centers) ?es ?zs f z"
    and best: "\<And>f' z'. is_assignment (length people) (length centers) ?es ?zs f' z' \<Longrightarrow>
         (\<Sum>k < length ?es. f' k) \<le> (\<Sum>k < length ?es. f k) \<and>
         ((\<Sum>k < length ?es. f' k) = (\<Sum>k < length ?es. f k) \<longrightarrow>
            assignment_cost ?es ?zs f z \<le> assignment_cost ?es ?zs f' z')"
    using opt by (simp_all add: optimal_assignment_def)
  have f01: "\<forall>k < length edges. f k = 0 \<or> f k = 1"
    using asg by (auto simp: is_assignment_def intro!: zero_one)
  note sums = chosen_sum [OF f01]
  have "\<forall>j < length centers. z j = center_load ?es f j"
    using asg by (simp add: is_assignment_def exit_load_unit)
  from unit_assignment_iff [OF within dp dc f01 sums set_chosen this] asg
  show "valid_matching edges (chosen edges f)" by (simp add: valid_matching_def set_chosen)
  have both: "length ms \<le> length (chosen edges f) \<and>
      (length ms = length (chosen edges f) \<longrightarrow> (\<Sum>e \<leftarrow> chosen edges f. cost e) \<le> (\<Sum>e \<leftarrow> ms. cost e))"
    if ms: "valid_matching edges ms"
  proof -
    have sub: "set ms \<subseteq> set edges" and "distinct ms"
      using ms by (auto simp: valid_matching_def distinct_map)
    then obtain f' where f': "\<forall>k < length edges. f' k = 0 \<or> f' k = 1"
        and sums': "\<And>g. (\<Sum>k < length edges. f' k * g (edges ! k)) = (\<Sum>e \<leftarrow> ms. g e :: int)"
      using choice_as_flow by blast
    have "is_assignment (length people) (length centers) ?es ?zs f' (center_load ?es f')"
      using unit_assignment_iff [OF within dp dc f' sums' sub] ms by (simp add: valid_matching_def)
    from best [OF this] show ?thesis
      using sums [of "\<lambda>_. 1"] sums' [of "\<lambda>_. 1"] edge_spec_cost_sum [OF sums] edge_spec_cost_sum [OF sums']
      by (simp add: sum_list_triv)
  qed
  show "valid_matching edges ms \<Longrightarrow> length ms \<le> length (chosen edges f)"
    and "valid_matching edges ms \<Longrightarrow> length ms = length (chosen edges f) \<Longrightarrow>
      (\<Sum>e \<leftarrow> chosen edges f. cost e) \<le> (\<Sum>e \<leftarrow> ms. cost e)"
    using both by blast+
qed

section \<open>The matching is largest, then cheapest\<close>

lemma distinct_edge_people: "distinct (edge_people edges)"
  by (simp add: edge_people_def)

lemma set_edge_people: "set (edge_people edges) = edge_person ` set edges"
  by (simp add: edge_people_def)

lemma set_single_edges:
  "set (single_edges reqs un) =
     {e. \<exists>r \<in> set reqs. e \<in> set (req_candidates r) \<and> edge_person e \<notin> un}"
  by (auto simp: single_edges_def single_centers_def)

lemma chosen_decisions:
  "map (\<lambda>x. decision (snd (snd x)))
     (filter (\<lambda>x. P (fst x) (fst (snd x))) (zip ss (zip ns es))) =
   map decision (map snd (filter (\<lambda>x. P (fst (fst x)) (snd (fst x))) (zip (zip ss ns) es)))"
proof (induction ss arbitrary: ns es)
  case (Cons s ss)
  then show ?case by (cases ns; cases es) (auto simp: comp_def)
qed simp

text \<open>Candidates name the center of the requirement that lists them.\<close>

definition center_scoped :: "center_requirement list \<Rightarrow> bool" where
  "center_scoped reqs =
     (distinct (map req_center reqs) \<and>
      (\<forall>r \<in> set reqs. \<forall>e \<in> set (req_candidates r). edge_center e = req_center r))"

lemma single_edges_within:
  assumes "center_scoped reqs"
  shows "edges_within (edge_people (single_edges reqs un)) (map req_center (single_centers reqs))
    (single_edges reqs un)"
  using assms
  by (auto simp: edges_within_def set_edge_people set_single_edges center_scoped_def single_centers_def)

lemma distinct_single_centers:
  "center_scoped reqs \<Longrightarrow> distinct (map req_center (single_centers reqs))"
  using distinct_map_mset [of "single_centers reqs" reqs req_center]
  by (simp add: center_scoped_def single_centers_def)

definition matching_ties :: "center_requirement list \<Rightarrow> string set \<Rightarrow> candidate_edge list \<Rightarrow> int" where
  "matching_ties reqs un ms =
     edge_ties (edge_people (single_edges reqs un)) (map req_center (single_centers reqs)) ms"

theorem match_single_chooses:
  assumes scoped: "center_scoped reqs"
  shows "\<exists>ms. match_single reqs un = Some (Inr (sort_decisions (map decision ms))) \<and>
    valid_matching (single_edges reqs un) ms \<and>
    (\<forall>ms'. valid_matching (single_edges reqs un) ms' \<longrightarrow>
       length ms' \<le> length ms \<and>
       (length ms' = length ms \<longrightarrow>
          (edge_overrides ms, edge_ranks ms, matching_ties reqs un ms) \<le>
          (edge_overrides ms', edge_ranks ms', matching_ties reqs un ms')))"
proof -
  define centers where "centers = map req_center (single_centers reqs)"
  define edges where "edges = single_edges reqs un"
  define people where "people = edge_people edges"
  define cost where "cost = single_cost edges people centers"
  let ?np = "length people" and ?nc = "length centers"
  let ?es = "map (edge_spec_of people centers cost) edges" and ?zs = "unit_exits ?nc"
  let ?A = "person_arcs ?np" and ?Z = "exit_arcs ?np ?nc ?zs" and ?E = "edge_arcs ?np ?es"
  let ?specs = "?A @ ?Z @ ?E"
  have dp: "distinct people" by (simp add: people_def distinct_edge_people)
  have dc: "distinct centers" by (simp add: centers_def distinct_single_centers [OF scoped])
  have within: "edges_within people centers edges"
    unfolding people_def centers_def edges_def by (rule single_edges_within [OF scoped])
  have lay: "layered ?np ?nc ?es ?zs ?specs (?np + ?nc) ?np" by (simp add: layered_def)
  define n where "n = ?np + ?nc + 2"
  define specs where "specs = ?specs"
  obtain h where h: "flow_loop 0 (Suc (?np + ?nc)) (built n specs) = Some h"
    and opt0: "optimal_assignment ?np ?nc ?es ?zs
       (\<lambda>k. spec_flow h specs (built_slots n specs) (?np + ?nc + k))
       (\<lambda>k. spec_flow h specs (built_slots n specs) (?np + k))"
    using layered_optimal [OF lay single_in_network [OF within]]
    unfolding n_def specs_def Let_def by blast
  define f where "f = (\<lambda>k. spec_flow h specs (built_slots n specs) (?np + ?nc + k))"
  have opt: "optimal_assignment ?np ?nc ?es ?zs f
      (\<lambda>k. spec_flow h specs (built_slots n specs) (?np + k))"
    using opt0 unfolding f_def .
  define g2 where "g2 = fst (add_arcs (fst (add_arcs (empty_graph n) ?A)) ?Z)"
  define idx where "idx = snd (add_arcs g2 ?E)"
  define starts where "starts = map (\<lambda>edge. person_node people (edge_person edge)) edges"
  have built: "fst (add_arcs g2 ?E) = built n specs"
    by (simp add: built_def add_arcs_append case_prod_beta Let_def g2_def specs_def)
  have len: "length idx = length edges" "length starts = length edges"
    by (simp_all add: idx_def add_arcs_indices starts_def)
  have free: "arc_capacity (h ! (starts ! k) ! (idx ! k)) = 0 \<longleftrightarrow> f k = 1"
    if k: "k < length edges" for k
  proof -
    have spec: "specs ! (?np + ?nc + k) = ?E ! k"
      by (simp add: nth_append specs_def)
    have slot: "built_slots n specs ! (?np + ?nc + k) = slots g2 ?E ! k"
      by (simp add: slots_append nth_append specs_def g2_def)
    have edge: "?E ! k = (starts ! k, 1 + ?np + dict_index centers (edge_center (edges ! k)), 1, cost (edges ! k))"
      using k by (simp add: edge_arcs_def edge_spec_of_def person_node_def starts_def)
    have "idx ! k = fst (slots g2 ?E ! k)"
      using k by (simp only: idx_def add_arcs_indices nth_map length_slots length_arcs length_map)
    then have "f k = 1 - arc_capacity (h ! (starts ! k) ! (idx ! k))"
      unfolding f_def spec_flow_def spec slot edge by simp
    then show ?thesis by simp
  qed
  have sel: "map snd (filter (\<lambda>x. arc_capacity (h ! fst (fst x) ! snd (fst x)) = 0) (zip (zip starts idx) edges)) =
      chosen edges f"
    using zip_filter_chosen [of "zip starts idx" edges "\<lambda>x. arc_capacity (h ! fst x ! snd x) = 0" f]
      len free by (simp add: case_prod_unfold)
  have exits: "map (\<lambda>center. (center_node people centers center, Suc (?np + ?nc), 1, 0)) centers = ?Z"
    using single_exit_arcs [OF dc, of people] by simp
  have edge_list: "map (\<lambda>edge. (person_node people (edge_person edge),
      center_node people centers (edge_center edge), 1, single_cost edges people centers edge)) edges = ?E"
    by (simp add: single_edge_arcs cost_def)
  have known: "\<not> (\<exists>edge \<in> set edges. edge_center edge \<notin> set centers)"
    using within by (auto simp: edges_within_def)
  have size: "n = Suc (Suc (?np + ?nc))" by (simp add: n_def)
  note picked = chosen_decisions [of "\<lambda>s i. arc_capacity (h ! s ! i) = 0" starts idx edges, unfolded sel]
  have "match_single reqs un = Some (Inr (sort_decisions (map decision (chosen edges f))))"
    unfolding match_single_def Let_def case_prod_beta edges_def [symmetric] centers_def [symmetric]
      people_def [symmetric] single_person_arcs [OF dp] edge_list
    using h built picked
    by (simp add: exits known size [symmetric] g2_def idx_def starts_def)
  moreover note optimal_single_matching [OF within dp dc opt]
  moreover have "(edge_overrides (chosen edges f), edge_ranks (chosen edges f), edge_ties people centers (chosen edges f)) \<le>
      (edge_overrides ms', edge_ranks ms', edge_ties people centers ms')"
    if "valid_matching edges ms'" "length ms' = length (chosen edges f)" for ms'
    using cost_order [OF within calculation(2) that(1)] calculation(4) [OF that] by (simp add: cost_def)
  ultimately show ?thesis
    unfolding matching_ties_def by (auto simp flip: centers_def edges_def people_def)
qed

end
