(* ===== verification/Coverage_Solver.thy ===== *)
theory Coverage_Solver
  imports Single_Matching
begin

text \<open>
  Minimum coverage (\<open>schedule_solver.py\<close>, lines 258-474): \<open>_issue\<close>, \<open>_assemble_result\<close>,
  \<open>_result_is_better\<close> and the branch-and-bound \<open>solve_minimum_coverage\<close> with its nested \<open>visit\<close>.
  The variables \<open>visit\<close> shares with the enclosing function are a record of the problem and a
  record of the search state; the matching of the open single slots is a parameter of the search,
  which \<open>solve_minimum_coverage\<close> instantiates with \<open>match_single\<close>.
\<close>

section \<open>Results\<close>

text \<open>\<open>{item.person: item.center for item in decisions}\<close>: the last decision of a person wins.\<close>

definition assigned_center :: "assignment_decision list \<Rightarrow> string \<Rightarrow> string option" where
  "assigned_center decisions = map_of (rev (map (\<lambda>d. (dec_person d, dec_center d)) decisions))"

definition candidate_rejection_for ::
    "center_requirement \<Rightarrow> assignment_decision list \<Rightarrow> string \<Rightarrow> candidate_rejection" where
  "candidate_rejection_for requirement decisions person =
     (case assigned_center decisions person of
        Some other_center \<Rightarrow>
          if other_center \<noteq> [] \<and> other_center \<noteq> req_center requirement
          then \<lparr>rej_person = person, rej_code = ''needed_elsewhere'',
                rej_detail = ''Used at '' @ other_center @ '' by the maximum-coverage solution.''\<rparr>
          else \<lparr>rej_person = person, rej_code = ''global_tie_break'',
                rej_detail = ''Available, but assigning them here would not improve total coverage.''\<rparr>
      | None \<Rightarrow>
          \<lparr>rej_person = person, rej_code = ''global_tie_break'',
           rej_detail = ''Available, but assigning them here would not improve total coverage.''\<rparr>)"

definition requirement_people :: "center_requirement \<Rightarrow> string list" where
  "requirement_people requirement =
     sort_key lower (remdups
       (map edge_person (req_candidates requirement)
        @ concat (map crew_people (req_crew_options requirement))))"

definition issue :: "center_requirement \<Rightarrow> assignment_decision list \<Rightarrow> coverage_issue" where
  "issue requirement decisions =
     (let training = (req_level_zero_people requirement \<noteq> [] \<and> req_candidates requirement = []
                      \<and> req_crew_options requirement = []);
          code = (if training then ''training_required'' else req_unresolved_code requirement);
          message = (if training
            then req_center requirement @ '' could not be staffed. Training is required for ''
                 @ req_group requirement @ ''.''
            else if req_unresolved_message requirement \<noteq> [] then req_unresolved_message requirement
            else req_center requirement @ '' could not be staffed to its minimum.'');
          known = set (map (\<lambda>r. (rej_person r, rej_code r)) (req_rejections requirement));
          added = filter (\<lambda>r. (rej_person r, rej_code r) \<notin> known)
            (map (candidate_rejection_for requirement decisions) (requirement_people requirement))
      in \<lparr>issue_center = req_center requirement, issue_group = req_group requirement,
          issue_code = code, issue_message = message,
          issue_rejections = req_rejections requirement @ added\<rparr>)"

definition is_staffed :: "assignment_decision list \<Rightarrow> center_requirement \<Rightarrow> bool" where
  "is_staffed decisions requirement =
     (req_remaining_slots requirement = 0 \<or> req_center requirement \<in> set (map dec_center decisions))"

definition staffed_set :: "center_requirement list \<Rightarrow> assignment_decision list \<Rightarrow> string list" where
  "staffed_set requirements decisions =
     remdups (map req_center (filter (is_staffed decisions) requirements))"

definition assemble_result ::
    "center_requirement list \<Rightarrow> assignment_decision list \<Rightarrow> coverage_result" where
  "assemble_result requirements decisions =
     (let staffed = staffed_set requirements decisions;
          unresolved = sort_key (\<lambda>item. lower (req_center item))
            (filter (\<lambda>item. req_center item \<notin> set staffed) requirements)
      in \<lparr>cov_decisions = sort_decisions decisions,
          cov_staffed_centers = sort_key lower staffed,
          cov_unresolved_centers = map req_center unresolved,
          cov_issues = map (\<lambda>item. issue item decisions) unresolved\<rparr>)"

fun result_is_better :: "coverage_result \<Rightarrow> coverage_result option \<Rightarrow> bool" where
  "result_is_better candidate None = True"
| "result_is_better candidate (Some current) =
     (if length (cov_staffed_centers candidate) \<noteq> length (cov_staffed_centers current)
      then length (cov_staffed_centers candidate) > length (cov_staffed_centers current)
      else if count_overrides (cov_decisions candidate) \<noteq> count_overrides (cov_decisions current)
      then count_overrides (cov_decisions candidate) < count_overrides (cov_decisions current)
      else if total_rank_cost (cov_decisions candidate) \<noteq> total_rank_cost (cov_decisions current)
      then total_rank_cost (cov_decisions candidate) < total_rank_cost (cov_decisions current)
      else map decision_key (cov_decisions candidate) < map decision_key (cov_decisions current))"

section \<open>The problem\<close>

definition normalized_of :: "center_requirement list \<Rightarrow> center_requirement list" where
  "normalized_of requirements = sort_key (\<lambda>item. lower (req_center item)) requirements"

definition singles_of :: "center_requirement list \<Rightarrow> center_requirement list" where
  "singles_of normalized = filter (\<lambda>item. req_remaining_slots item = 1) normalized"

definition coupled_of :: "center_requirement list \<Rightarrow> center_requirement list" where
  "coupled_of normalized =
     sort_key (\<lambda>item. (length (req_crew_options item), lower (req_center item)))
       (filter (\<lambda>item. req_remaining_slots item > 1) normalized)"

definition crew_malformed :: "center_requirement \<Rightarrow> crew_option \<Rightarrow> bool" where
  "crew_malformed requirement option =
     (int (length (crew_members option)) \<noteq> req_remaining_slots requirement
      \<or> crew_center option \<noteq> req_center requirement
      \<or> \<not> distinct (crew_people option)
      \<or> (\<exists>member \<in> set (crew_members option). edge_center member \<noteq> req_center requirement))"

definition crews_malformed :: "center_requirement list \<Rightarrow> bool" where
  "crews_malformed coupled =
     (\<exists>requirement \<in> set coupled. \<exists>option \<in> set (req_crew_options requirement).
        crew_malformed requirement option)"

definition all_edges_of :: "center_requirement list \<Rightarrow> center_requirement list \<Rightarrow> candidate_edge list" where
  "all_edges_of normalized coupled =
     concat (map req_candidates normalized)
     @ concat (map (\<lambda>r. concat (map crew_members (req_crew_options r))) coupled)"

definition levels_invalid :: "candidate_edge list \<Rightarrow> bool" where
  "levels_invalid edges = (\<exists>edge \<in> set edges. edge_level edge \<notin> {1, 2, 3})"

type_synonym prefix_score = "int \<times> int \<times> int \<times> (string \<times> string) list"

definition prefix_score_of :: "assignment_decision list \<Rightarrow> prefix_score" where
  "prefix_score_of decisions =
     (- int (length (remdups (map dec_center decisions))),
      count_overrides decisions,
      total_rank_cost decisions,
      sort (map decision_key decisions))"

definition ordered_options :: "center_requirement \<Rightarrow> crew_option list" where
  "ordered_options requirement = sort_key option_key (req_crew_options requirement)"

section \<open>The search\<close>

record coverage_problem =
  cp_normalized :: "center_requirement list"
  cp_singles :: "center_requirement list"
  cp_coupled :: "center_requirement list"

record coverage_search =
  best :: "coverage_result option"
  single_match_cache :: "string set \<Rightarrow> assignment_decision list option"
  seen_prefix :: "nat \<times> string set \<Rightarrow> prefix_score option"

definition single_candidate_people :: "coverage_problem \<Rightarrow> string set" where
  "single_candidate_people pb = set (map edge_person (concat (map req_candidates (cp_singles pb))))"

definition optimistic :: "coverage_problem \<Rightarrow> nat \<Rightarrow> assignment_decision list \<Rightarrow> int" where
  "optimistic pb index decisions =
     int (length (filter (\<lambda>item. req_remaining_slots item = 0) (cp_normalized pb)))
     + int (length (remdups (map dec_center decisions)))
     + (int (length (cp_coupled pb)) - int index)
     + int (length (cp_singles pb))"

text \<open>The end of a branch: match the single slots, through the cache, and keep the better result.\<close>

definition visit_leaf ::
    "(string set \<Rightarrow> assignment_decision list run) \<Rightarrow> coverage_problem \<Rightarrow> string set \<Rightarrow>
     assignment_decision list \<Rightarrow> coverage_search \<Rightarrow> coverage_search run" where
  "visit_leaf match_singles pb used_people decisions st =
     (let unavailable_singles = used_people \<inter> single_candidate_people pb
      in run_bind
           (case single_match_cache st unavailable_singles of
              Some matched \<Rightarrow> Some (Inr matched)
            | None \<Rightarrow> match_singles unavailable_singles)
           (\<lambda>matched.
              let st = st\<lparr>single_match_cache := (single_match_cache st)(unavailable_singles \<mapsto> matched)\<rparr>;
                  candidate = assemble_result (cp_normalized pb) (decisions @ matched)
              in Some (Inr (if result_is_better candidate (best st) then st\<lparr>best := Some candidate\<rparr>
                            else st))))"

function visit ::
    "(string set \<Rightarrow> assignment_decision list run) \<Rightarrow> coverage_problem \<Rightarrow> nat \<Rightarrow> string set \<Rightarrow>
     assignment_decision list \<Rightarrow> coverage_search \<Rightarrow> coverage_search run" where
  "visit match_singles pb index used_people decisions st =
     (let score = prefix_score_of decisions
      in if (case seen_prefix st (index, used_people) of
               Some earlier \<Rightarrow> earlier \<le> score | None \<Rightarrow> False)
         then Some (Inr st)
         else
           let st = st\<lparr>seen_prefix := (seen_prefix st)((index, used_people) \<mapsto> score)\<rparr>
           in if (case best st of
                    Some current \<Rightarrow>
                      optimistic pb index decisions < int (length (cov_staffed_centers current))
                  | None \<Rightarrow> False)
              then Some (Inr st)
              else if length (cp_coupled pb) \<le> index
              then visit_leaf match_singles pb used_people decisions st
              else run_bind
                (fold_run
                  (\<lambda>option st.
                     if set (crew_people option) \<inter> used_people \<noteq> {} then Some (Inr st)
                     else visit match_singles pb (Suc index) (used_people \<union> set (crew_people option))
                            (decisions @ crew_decisions option) st)
                  (ordered_options (cp_coupled pb ! index)) st)
                (\<lambda>st. visit match_singles pb (Suc index) used_people decisions st))"
  by pat_completeness auto
termination
  by (relation "measure (\<lambda>(match_singles, pb, index, _). length (cp_coupled pb) - index)") auto

declare visit.simps [simp del]

definition empty_search :: coverage_search where
  "empty_search = \<lparr>best = None, single_match_cache = (\<lambda>_. None), seen_prefix = (\<lambda>_. None)\<rparr>"

definition reserved_people :: "center_requirement list \<Rightarrow> string set" where
  "reserved_people normalized = set (concat (map req_protected_people normalized))"

definition coverage_problem_of :: "center_requirement list \<Rightarrow> coverage_problem" where
  "coverage_problem_of requirements =
     (let normalized = normalized_of requirements
      in \<lparr>cp_normalized = normalized, cp_singles = singles_of normalized,
          cp_coupled = coupled_of normalized\<rparr>)"

definition solve_minimum_coverage :: "center_requirement list \<Rightarrow> coverage_result run" where
  "solve_minimum_coverage requirements =
     (let pb = coverage_problem_of requirements;
          normalized = cp_normalized pb;
          coupled = cp_coupled pb
      in if crews_malformed coupled
         then Some (Inl (ValueError ''crew options must be complete, unique, and center-scoped''))
         else if levels_invalid (all_edges_of normalized coupled)
         then Some (Inl (ValueError ''candidate and crew member levels must be 1, 2, or 3''))
         else run_bind
           (visit (match_single (cp_singles pb)) pb 0 (reserved_people normalized) [] empty_search)
           (\<lambda>st. Some (Inr (case best st of Some result \<Rightarrow> result
                            | None \<Rightarrow> assemble_result normalized []))))"

end
