(* ===== verification/Crew_Plans.thy ===== *)
theory Crew_Plans
  imports Schedule_Model
begin

text \<open>
  Choosing crews. Both solvers of \<open>schedule_solver.py\<close> walk over the centers that need a whole
  crew and take one of its options, when nobody in it is used yet, or none. A pool is a center
  with its options; \<open>crew_plans\<close> lists the choices of such a walk in the order the code makes
  them, and the choices are the sets of disjoint crews, one at most per center.
\<close>

section \<open>Plans\<close>

type_synonym crew_pool = "string \<times> crew_option list"

definition plan_decisions :: "crew_option list \<Rightarrow> assignment_decision list" where
  "plan_decisions ws = concat (map crew_decisions ws)"

definition plan_people :: "crew_option list \<Rightarrow> string set" where
  "plan_people ws = set (concat (map crew_people ws))"

fun crew_plans :: "crew_pool list \<Rightarrow> string set \<Rightarrow> crew_option list list" where
  "crew_plans [] used = [[]]"
| "crew_plans ((center, options) # pools) used =
     concat (map (\<lambda>option. map ((#) option) (crew_plans pools (used \<union> set (crew_people option))))
       (filter (\<lambda>option. set (crew_people option) \<inter> used = {}) options))
     @ crew_plans pools used"

lemma plan_simps [simp]:
  "plan_decisions [] = []" "plan_decisions (w # ws) = crew_decisions w @ plan_decisions ws"
  "plan_people [] = {}" "plan_people (w # ws) = set (crew_people w) \<union> plan_people ws"
  "plan_decisions (ws @ ws') = plan_decisions ws @ plan_decisions ws'"
  "plan_people (ws @ ws') = plan_people ws \<union> plan_people ws'"
  by (auto simp: plan_decisions_def plan_people_def)

lemma plan_decisions_mset:
  assumes "mset ws = mset ws'"
  shows "mset (plan_decisions ws) = mset (plan_decisions ws')"
  using assms unfolding plan_decisions_def mset_concat by (metis mset_map sum_mset_sum_list)

lemma crew_plans_Cons_iff:
  "ws \<in> set (crew_plans (p # pools) used) \<longleftrightarrow>
     ws \<in> set (crew_plans pools used) \<or>
     (\<exists>option ws'. ws = option # ws' \<and> option \<in> set (snd p) \<and>
        set (crew_people option) \<inter> used = {} \<and> ws' \<in> set (crew_plans pools (used \<union> set (crew_people option))))"
  by (cases p) auto

declare crew_plans.simps(2) [simp del]

lemma crew_plans_length: "ws \<in> set (crew_plans pools used) \<Longrightarrow> length ws \<le> length pools"
proof (induction pools arbitrary: ws used)
  case (Cons p pools)
  from Cons.prems consider "ws \<in> set (crew_plans pools used)"
    | w ws' where "ws = w # ws'" "ws' \<in> set (crew_plans pools (used \<union> set (crew_people w)))"
    unfolding crew_plans_Cons_iff by blast
  then show ?case using Cons.IH by cases force+
qed simp

lemma no_crews: "[] \<in> set (crew_plans pools used)"
  by (induction pools arbitrary: used) (simp_all add: crew_plans_Cons_iff)

section \<open>Plans are the choices of disjoint crews\<close>

definition pools_ok :: "crew_pool list \<Rightarrow> bool" where
  "pools_ok pools =
     (distinct (map fst pools) \<and>
      (\<forall>(center, options) \<in> set pools. \<forall>w \<in> set options. crew_center w = center \<and> distinct (crew_people w)))"

definition crew_choice :: "crew_pool list \<Rightarrow> string set \<Rightarrow> crew_option list \<Rightarrow> bool" where
  "crew_choice pools used ws =
     ((\<forall>w \<in> set ws. \<exists>p \<in> set pools. w \<in> set (snd p)) \<and> distinct (map crew_center ws) \<and>
      distinct (concat (map crew_people ws)) \<and> plan_people ws \<inter> used = {})"

lemma pools_okD:
  assumes "pools_ok pools" "p \<in> set pools" "w \<in> set (snd p)"
  shows "crew_center w = fst p" and "distinct (crew_people w)"
  using assms by (auto simp: pools_ok_def)

lemma pools_ok_Cons: "pools_ok (p # pools) \<Longrightarrow> pools_ok pools \<and> fst p \<notin> set (map fst pools)"
  by (auto simp: pools_ok_def)

lemma crew_choiceD:
  assumes "crew_choice pools used ws"
  shows "w \<in> set ws \<Longrightarrow> \<exists>p \<in> set pools. w \<in> set (snd p)"
    and "distinct (map crew_center ws)"
  using assms by (simp_all add: crew_choice_def)

lemma crew_plans_choice:
  assumes "pools_ok pools" and "ws \<in> set (crew_plans pools used)"
  shows "crew_choice pools used ws"
  using assms
proof (induction pools arbitrary: ws used)
  case Nil
  then show ?case by (simp add: crew_choice_def)
next
  case (Cons p pools)
  have ok: "pools_ok pools" and fresh: "fst p \<notin> set (map fst pools)"
    using pools_ok_Cons [OF Cons.prems(1)] by auto
  from Cons.prems(2) consider "ws \<in> set (crew_plans pools used)"
    | w ws' where "ws = w # ws'" "w \<in> set (snd p)" "set (crew_people w) \<inter> used = {}"
        "ws' \<in> set (crew_plans pools (used \<union> set (crew_people w)))"
    unfolding crew_plans_Cons_iff by blast
  then show ?case
  proof cases
    case 1
    then show ?thesis using Cons.IH [OF ok] by (auto simp: crew_choice_def)
  next
    case 2
    have rest: "crew_choice pools (used \<union> set (crew_people w)) ws'" by (rule Cons.IH [OF ok 2(4)])
    have two: "distinct (crew_people w)" "crew_center w = fst p"
      using pools_okD [OF Cons.prems(1) _ 2(2)] by simp_all
    have "crew_center w' \<noteq> fst p" if "w' \<in> set ws'" for w'
    proof -
      obtain p' where "p' \<in> set pools" "w' \<in> set (snd p')"
        using crew_choiceD(1) [OF rest \<open>w' \<in> set ws'\<close>] by blast
      then have "crew_center w' = fst p'" "fst p' \<in> set (map fst pools)"
        using pools_okD(1) [OF ok] by simp_all
      then show ?thesis using fresh by metis
    qed
    then have "fst p \<notin> crew_center ` set ws'" by (metis imageE)
    with two show ?thesis
      using rest 2(1-3) unfolding crew_choice_def 2(1) by (simp add: plan_people_def) blast
  qed
qed

lemma crew_choice_plan:
  assumes "pools_ok pools" and "crew_choice pools used ws"
  shows "\<exists>ws' \<in> set (crew_plans pools used). mset ws' = mset ws"
  using assms
proof (induction pools arbitrary: ws used)
  case Nil
  then show ?case by (auto simp: crew_choice_def)
next
  case (Cons p pools)
  have ok: "pools_ok pools" using pools_ok_Cons [OF Cons.prems(1)] by simp
  show ?case
  proof (cases "\<exists>w \<in> set ws. w \<in> set (snd p)")
    case False
    then have "crew_choice pools used ws" using Cons.prems(2) by (auto simp: crew_choice_def)
    from Cons.IH [OF ok this] obtain ws' where "ws' \<in> set (crew_plans pools used)" "mset ws' = mset ws"
      by (elim bexE)
    then show ?thesis by (intro bexI [of _ ws']) (simp_all add: crew_plans_Cons_iff)
  next
    case True
    then obtain w where w: "w \<in> set (snd p)" and "w \<in> set ws" by (elim bexE)
    obtain xs ys where ws: "ws = xs @ w # ys"
      using split_list [OF \<open>w \<in> set ws\<close>] by (elim exE)
    have others: "v \<notin> set (snd p)" if "v \<in> set (xs @ ys)" for v
    proof
      assume v: "v \<in> set (snd p)"
      have "distinct (map crew_center (xs @ w # ys))"
        using crew_choiceD(2) [OF Cons.prems(2)] by (simp add: ws)
      then have "crew_center w \<notin> set (map crew_center (xs @ ys))" by simp
      moreover have "crew_center v = crew_center w"
        using pools_okD(1) [OF Cons.prems(1) _ v] pools_okD(1) [OF Cons.prems(1) _ w] by simp
      moreover have "crew_center v \<in> set (map crew_center (xs @ ys))"
        using that unfolding set_map by (rule imageI)
      ultimately show False by simp
    qed
    have "crew_choice pools (used \<union> set (crew_people w)) (xs @ ys)"
      using Cons.prems(2) others by (auto simp: crew_choice_def ws plan_people_def)
    from Cons.IH [OF ok this] obtain ws' where
      "ws' \<in> set (crew_plans pools (used \<union> set (crew_people w)))" "mset ws' = mset (xs @ ys)" by blast
    moreover have "set (crew_people w) \<inter> used = {}"
      using Cons.prems(2) by (auto simp: crew_choice_def ws)
    ultimately show ?thesis
      using w by (intro bexI [of _ "w # ws'"]) (simp_all add: crew_plans_Cons_iff ws)
  qed
qed

end
