(* ===== verification/Coverage_Search.thy ===== *)
theory Coverage_Search
  imports Coverage_Solver Crew_Plans
begin

text \<open>
  What the branch-and-bound of \<open>solve_minimum_coverage\<close> explores: the crew plans below a node,
  the score a plan leads to, and the proof that pruning by \<open>seen_prefix\<close> and by the optimistic
  bound never loses a plan better than the one kept.
\<close>

section \<open>Crew plans of requirements\<close>

definition crew_pool_of :: "center_requirement \<Rightarrow> crew_pool" where
  "crew_pool_of r = (req_center r, req_crew_options r)"

definition requirement_plans :: "center_requirement list \<Rightarrow> string set \<Rightarrow> crew_option list list" where
  "requirement_plans rs used = crew_plans (map crew_pool_of rs) used"

lemma requirement_plans_Nil [simp]: "requirement_plans [] used = [[]]"
  by (simp add: requirement_plans_def)

lemma requirement_plans_Cons_iff:
  "ws \<in> set (requirement_plans (r # rs) used) \<longleftrightarrow>
     ws \<in> set (requirement_plans rs used) \<or>
     (\<exists>option ws'. ws = option # ws' \<and> option \<in> set (req_crew_options r) \<and>
        set (crew_people option) \<inter> used = {} \<and>
        ws' \<in> set (requirement_plans rs (used \<union> set (crew_people option))))"
  by (simp add: requirement_plans_def crew_plans_Cons_iff crew_pool_of_def)

lemma requirement_plans_length: "ws \<in> set (requirement_plans rs used) \<Longrightarrow> length ws \<le> length rs"
  using crew_plans_length [of ws "map crew_pool_of rs" used] by (simp add: requirement_plans_def)

section \<open>Well-formed searches\<close>

text \<open>
  The matching of the open slots is total and yields at most one decision for each single center.
\<close>

definition crews_ok :: "center_requirement list \<Rightarrow> bool" where
  "crews_ok coupled =
     (distinct (map req_center coupled) \<and> (\<forall>r \<in> set coupled. req_remaining_slots r > 1) \<and>
      \<not> crews_malformed coupled)"

definition search_ok ::
    "coverage_problem \<Rightarrow> (string set \<Rightarrow> assignment_decision list run) \<Rightarrow>
     (string set \<Rightarrow> assignment_decision list) \<Rightarrow> bool" where
  "search_ok pb match_singles mt =
     (distinct (map req_center (cp_normalized pb)) \<and>
      set (cp_singles pb) = {r \<in> set (cp_normalized pb). req_remaining_slots r = 1} \<and>
      set (cp_coupled pb) \<subseteq> set (cp_normalized pb) \<and> distinct (map req_center (cp_singles pb)) \<and>
      crews_ok (cp_coupled pb) \<and>
      (\<forall>V. match_singles V = Some (Inr (mt V)) \<and> distinct (map dec_center (mt V)) \<and>
           set (map dec_center (mt V)) \<subseteq> set (map req_center (cp_singles pb))))"

definition zero_slots :: "coverage_problem \<Rightarrow> int" where
  "zero_slots pb = int (length (filter (\<lambda>item. req_remaining_slots item = 0) (cp_normalized pb)))"

lemma crew_option_ok:
  assumes "crews_ok coupled" "r \<in> set coupled" "w \<in> set (req_crew_options r)"
  shows "crew_members w \<noteq> []" and "\<forall>m \<in> set (crew_members w). edge_center m = req_center r"
    and "distinct (crew_people w)" and "set (map dec_center (crew_decisions w)) = {req_center r}"
proof -
  have w: "\<not> crew_malformed r w" and slots: "req_remaining_slots r > 1"
    using assms by (auto simp: crews_ok_def crews_malformed_def)
  then show 1: "crew_members w \<noteq> []" and 2: "\<forall>m \<in> set (crew_members w). edge_center m = req_center r"
    and "distinct (crew_people w)"
    by (auto simp: crew_malformed_def)
  have "set (map dec_center (crew_decisions w)) = edge_center ` set (crew_members w)"
    by (auto simp: crew_decisions_def)
  also have "\<dots> = {req_center r}" using 1 2 by (cases "crew_members w") auto
  finally show "set (map dec_center (crew_decisions w)) = {req_center r}" .
qed

lemma plan_centers:
  assumes "crews_ok rs" "ws \<in> set (requirement_plans rs used)"
  shows "set (map dec_center (plan_decisions ws)) \<subseteq> set (map req_center rs)"
    and "card (set (map dec_center (plan_decisions ws))) = length ws"
proof -
  have "set (map dec_center (plan_decisions ws)) \<subseteq> set (map req_center rs) \<and>
    card (set (map dec_center (plan_decisions ws))) = length ws"
    using assms
  proof (induction rs arbitrary: ws used)
    case (Cons r rs)
    have ok: "crews_ok rs" and fresh: "req_center r \<notin> set (map req_center rs)"
      using Cons.prems(1) by (auto simp: crews_ok_def crews_malformed_def)
    from Cons.prems(2) consider "ws \<in> set (requirement_plans rs used)"
      | w ws' where "ws = w # ws'" "w \<in> set (req_crew_options r)" "set (crew_people w) \<inter> used = {}"
          "ws' \<in> set (requirement_plans rs (used \<union> set (crew_people w)))"
      unfolding requirement_plans_Cons_iff by blast
    then show ?case
    proof cases
      case 1
      then show ?thesis using Cons.IH [OF ok] by auto
    next
      case 2
      have w: "set (map dec_center (crew_decisions w)) = {req_center r}"
        using crew_option_ok(4) [OF Cons.prems(1) _ 2(2)] by simp
      from Cons.IH [OF ok 2(4)] have
        sub: "set (map dec_center (plan_decisions ws')) \<subseteq> set (map req_center rs)"
        and card: "card (set (map dec_center (plan_decisions ws'))) = length ws'" by auto
      define C where "C = set (map dec_center (plan_decisions ws'))"
      have eq: "set (map dec_center (plan_decisions ws)) = insert (req_center r) C"
        using w by (simp add: 2(1) C_def)
      have "req_center r \<notin> C" "finite C" "C \<subseteq> set (map req_center rs)" "card C = length ws'"
        using sub card fresh by (auto simp: C_def)
      then show ?thesis unfolding eq by (auto simp: 2(1))
    qed
  qed simp
  then show "set (map dec_center (plan_decisions ws)) \<subseteq> set (map req_center rs)"
    and "card (set (map dec_center (plan_decisions ws))) = length ws" by auto
qed

section \<open>Scores\<close>

definition result_score :: "coverage_result \<Rightarrow> int \<times> int \<times> int" where
  "result_score r =
     (- int (length (cov_staffed_centers r)), count_overrides (cov_decisions r),
      total_rank_cost (cov_decisions r))"

definition branch_score ::
    "coverage_problem \<Rightarrow> prefix_score \<Rightarrow> crew_option list \<Rightarrow> assignment_decision list \<Rightarrow>
     int \<times> int \<times> int" where
  "branch_score pb s ws ms =
     (fst s - zero_slots pb - int (length ws) - int (length ms),
      fst (snd s) + count_overrides (plan_decisions ws @ ms),
      fst (snd (snd s)) + total_rank_cost (plan_decisions ws @ ms))"

lemma better_score: "result_is_better c (Some b) \<Longrightarrow> result_score c \<le> result_score b"
  by (auto simp: result_score_def split: if_splits)

lemma not_better_score: "\<not> result_is_better c (Some b) \<Longrightarrow> result_score b \<le> result_score c"
  by (auto simp: result_score_def split: if_splits)

lemma branch_score_mono:
  "s \<le> s' \<Longrightarrow> branch_score pb s ws ms \<le> branch_score pb s' ws ms"
  by (cases s; cases s') (auto simp: branch_score_def)

section \<open>The score of a branch\<close>

definition prefix_ok :: "coverage_problem \<Rightarrow> nat \<Rightarrow> assignment_decision list \<Rightarrow> bool" where
  "prefix_ok pb index decs =
     (set (map dec_center decs) \<subseteq> set (map req_center (take index (cp_coupled pb))))"

lemma same_requirement:
  "search_ok pb f mt \<Longrightarrow> r \<in> set (cp_normalized pb) \<Longrightarrow> r' \<in> set (cp_normalized pb) \<Longrightarrow>
     req_center r = req_center r' \<Longrightarrow> r = r'"
  by (auto simp: search_ok_def distinct_map inj_on_def)

lemma coupled_slots: "search_ok pb f mt \<Longrightarrow> r \<in> set (cp_coupled pb) \<Longrightarrow>
    r \<in> set (cp_normalized pb) \<and> req_remaining_slots r > 1"
  by (auto simp: search_ok_def crews_ok_def)

lemma single_slots: "search_ok pb f mt \<Longrightarrow> r \<in> set (cp_singles pb) \<Longrightarrow>
    r \<in> set (cp_normalized pb) \<and> req_remaining_slots r = 1"
  by (auto simp: search_ok_def)

lemma matched_facts:
  assumes "search_ok pb f mt"
  shows "f V = Some (Inr (mt V))" and "distinct (map dec_center (mt V))"
    and "set (map dec_center (mt V)) \<subseteq> set (map req_center (cp_singles pb))"
    and "card (set (map dec_center (mt V))) = length (mt V)"
proof -
  show "f V = Some (Inr (mt V))" and 1: "distinct (map dec_center (mt V))"
    and "set (map dec_center (mt V)) \<subseteq> set (map req_center (cp_singles pb))"
    using assms unfolding search_ok_def by blast+
  show "card (set (map dec_center (mt V))) = length (mt V)"
    using distinct_card [OF 1] by simp
qed

lemma staffed_length:
  assumes ok: "search_ok pb f mt"
    and sub: "set (map dec_center ds) \<subseteq>
      req_center ` {r \<in> set (cp_normalized pb). req_remaining_slots r \<noteq> 0}"
  shows "int (length (cov_staffed_centers (assemble_result (cp_normalized pb) ds))) =
    zero_slots pb + int (card (set (map dec_center ds)))"
proof -
  let ?N = "cp_normalized pb" and ?C = "set (map dec_center ds)"
  let ?Z = "req_center ` {r \<in> set ?N. req_remaining_slots r = 0}"
  have inj: "inj_on req_center (set ?N)" and dist: "distinct ?N"
    using ok by (auto simp: search_ok_def distinct_map)
  have "set (staffed_set ?N ds) = req_center ` {r \<in> set ?N. req_remaining_slots r = 0 \<or> req_center r \<in> ?C}"
    by (simp add: staffed_set_def is_staffed_def)
  also have "\<dots> = ?Z \<union> ?C" using sub by blast
  finally have "set (staffed_set ?N ds) = ?Z \<union> ?C" .
  moreover have "length (cov_staffed_centers (assemble_result ?N ds)) = card (set (staffed_set ?N ds))"
    by (simp add: assemble_result_def Let_def staffed_set_def length_remdups_card_conv)
  ultimately have "length (cov_staffed_centers (assemble_result ?N ds)) = card (?Z \<union> ?C)" by simp
  also have "\<dots> = card ?Z + card ?C"
  proof (rule card_Un_disjoint)
    show "?Z \<inter> ?C = {}"
    proof (rule ccontr)
      assume "?Z \<inter> ?C \<noteq> {}"
      then obtain x where x: "x \<in> ?Z" "x \<in> ?C" by blast
      from x(1) obtain r where r: "r \<in> set ?N" "req_remaining_slots r = 0" "x = req_center r" by blast
      from subsetD [OF sub x(2)] obtain r' where
        r': "r' \<in> set ?N" "req_remaining_slots r' \<noteq> 0" "x = req_center r'" by blast
      have "r = r'" using same_requirement [OF ok r(1) r'(1)] r r' by simp
      then show False using r r' by simp
    qed
  qed simp_all
  also have "card ?Z = card {r \<in> set ?N. req_remaining_slots r = 0}"
    by (rule card_image) (rule inj_on_subset [OF inj], auto)
  also have "\<dots> = length (filter (\<lambda>item. req_remaining_slots item = 0) ?N)"
    using dist distinct_card [of "filter (\<lambda>item. req_remaining_slots item = 0) ?N"] by (simp add: distinct_filter)
  finally show ?thesis by (simp add: zero_slots_def)
qed

lemma take_drop_centers:
  assumes "distinct (map req_center xs)"
  shows "set (map req_center (take i xs)) \<inter> set (map req_center (drop i xs)) = {}"
  using assms append_take_drop_id [of i xs] by (metis distinct_append map_append)

lemma leaf_score:
  assumes ok: "search_ok pb f mt" and pre: "prefix_ok pb i decs"
    and ws: "ws \<in> set (requirement_plans (drop i (cp_coupled pb)) used)"
  shows "result_score (assemble_result (cp_normalized pb) (decs @ plan_decisions ws @ mt V)) =
    branch_score pb (prefix_score_of decs) ws (mt V)"
proof -
  let ?N = "cp_normalized pb" and ?K = "cp_coupled pb"
  define A where "A = set (map dec_center decs)"
  define B where "B = set (map dec_center (plan_decisions ws))"
  define C where "C = set (map dec_center (mt V))"
  have K: "crews_ok ?K" using ok by (simp add: search_ok_def)
  have "set (drop i ?K) \<subseteq> set ?K" by (rule set_drop_subset)
  then have "crews_ok (drop i ?K)"
    using K by (auto simp: crews_ok_def crews_malformed_def drop_map [symmetric])
  note plan = plan_centers [OF this ws]
  have A: "A \<subseteq> set (map req_center (take i ?K))" using pre by (simp add: prefix_ok_def A_def)
  have B: "B \<subseteq> set (map req_center (drop i ?K))" "card B = length ws"
    using plan by (simp_all add: B_def)
  have C: "C \<subseteq> set (map req_center (cp_singles pb))" "card C = length (mt V)"
    using matched_facts(3,4) [OF ok, of V] by (simp_all add: C_def)
  have AB: "A \<inter> B = {}"
    using A B(1) take_drop_centers [of ?K i] K by (auto simp: crews_ok_def)
  have AB_K: "A \<union> B \<subseteq> req_center ` set ?K"
    using A B(1) set_take_subset [of i ?K] set_drop_subset [of i ?K] by fastforce
  have ABC: "(A \<union> B) \<inter> C = {}"
  proof (rule ccontr)
    assume "(A \<union> B) \<inter> C \<noteq> {}"
    then obtain x where x: "x \<in> A \<union> B" "x \<in> C" by blast
    from subsetD [OF AB_K x(1)] obtain r where r: "r \<in> set ?K" "x = req_center r" by blast
    from subsetD [OF C(1) x(2)] obtain r' where r': "r' \<in> set (cp_singles pb)" "x = req_center r'" by auto
    note slots = coupled_slots [OF ok r(1)] single_slots [OF ok r'(1)]
    have "r = r'" using same_requirement [OF ok, of r r'] slots r(2) r'(2) by simp
    then show False using slots by simp
  qed
  have all: "set (map dec_center (decs @ plan_decisions ws @ mt V)) = A \<union> B \<union> C"
    by (auto simp: A_def B_def C_def)
  have "A \<union> B \<union> C \<subseteq> req_center ` {r \<in> set ?N. req_remaining_slots r \<noteq> 0}"
  proof -
    have 1: "req_center ` set ?K \<subseteq> req_center ` {r \<in> set ?N. req_remaining_slots r \<noteq> 0}"
      by (rule image_mono) (auto dest: coupled_slots [OF ok])
    have 2: "req_center ` set (cp_singles pb) \<subseteq> req_center ` {r \<in> set ?N. req_remaining_slots r \<noteq> 0}"
      by (rule image_mono) (auto dest: single_slots [OF ok])
    show ?thesis
      by (rule Un_least [OF order_trans [OF AB_K 1] order_trans [OF C(1) [unfolded set_map] 2]])
  qed
  from staffed_length [OF ok, of "decs @ plan_decisions ws @ mt V", unfolded all, OF this]
  have "int (length (cov_staffed_centers (assemble_result ?N (decs @ plan_decisions ws @ mt V)))) =
      zero_slots pb + int (card (A \<union> B \<union> C))" .
  also have "card (A \<union> B \<union> C) = card A + length ws + length (mt V)"
  proof -
    have "finite A" "finite B" "finite C" by (simp_all add: A_def B_def C_def)
    then show ?thesis using card_Un_disjoint [OF _ _ ABC] card_Un_disjoint [OF _ _ AB] B(2) C(2) by simp
  qed
  finally show ?thesis
    by (simp add: result_score_def branch_score_def prefix_score_of_def assemble_result_def Let_def
        length_remdups_card_conv A_def)
qed

text \<open>Taking a crew moves its center, overrides and cost from the branch to the prefix.\<close>

lemma prefix_step:
  assumes ok: "search_ok pb f mt" and pre: "prefix_ok pb i decs" and i: "i < length (cp_coupled pb)"
    and w: "w \<in> set (req_crew_options (cp_coupled pb ! i))"
  shows "prefix_ok pb (Suc i) (decs @ crew_decisions w)"
    and "branch_score pb (prefix_score_of (decs @ crew_decisions w)) ws ms =
      branch_score pb (prefix_score_of decs) (w # ws) ms"
proof -
  let ?K = "cp_coupled pb" and ?r = "cp_coupled pb ! i"
  have K: "crews_ok ?K" using ok by (simp add: search_ok_def)
  have center: "set (map dec_center (crew_decisions w)) = {req_center ?r}"
    by (rule crew_option_ok(4) [OF K nth_mem [OF i] w])
  show "prefix_ok pb (Suc i) (decs @ crew_decisions w)"
    using pre center i by (auto simp: prefix_ok_def take_Suc_conv_app_nth)
  have "req_center ?r \<in> set (map req_center (drop i ?K))"
    using i by (auto simp: Cons_nth_drop_Suc [symmetric])
  then have "req_center ?r \<notin> set (map dec_center decs)"
    using pre take_drop_centers [of ?K i] K by (auto simp: prefix_ok_def crews_ok_def)
  then have "card (insert (req_center ?r) (dec_center ` set decs)) = Suc (card (dec_center ` set decs))"
    by simp
  moreover have "set (map dec_center (decs @ crew_decisions w)) =
      insert (req_center ?r) (dec_center ` set decs)"
    using center by auto
  ultimately have "length (remdups (map dec_center (decs @ crew_decisions w))) =
      Suc (length (remdups (map dec_center decs)))"
    by (simp only: length_remdups_card_conv set_map)
  then show "branch_score pb (prefix_score_of (decs @ crew_decisions w)) ws ms =
      branch_score pb (prefix_score_of decs) (w # ws) ms"
    by (simp add: branch_score_def prefix_score_of_def)
qed

lemma prefix_ok_Suc: "prefix_ok pb i decs \<Longrightarrow> prefix_ok pb (Suc i) decs"
  using set_take_subset_set_take [OF le_SucI [OF order_refl], of i "cp_coupled pb"]
  unfolding prefix_ok_def set_map by blast

text \<open>No branch staffs more centers than the optimistic bound.\<close>

lemma branch_bound:
  assumes ok: "search_ok pb f mt" and i: "i \<le> length (cp_coupled pb)"
    and ws: "ws \<in> set (requirement_plans (drop i (cp_coupled pb)) used)"
  shows "- fst (branch_score pb (prefix_score_of decs) ws (mt V)) \<le> optimistic pb i decs"
proof -
  have "length ws \<le> length (cp_coupled pb) - i" using requirement_plans_length [OF ws] by simp
  moreover have "length (mt V) \<le> length (cp_singles pb)"
  proof -
    have "length (mt V) \<le> card (set (map req_center (cp_singles pb)))"
      using card_mono [OF _ matched_facts(3) [OF ok, of V]] by (simp add: matched_facts(4) [OF ok, simplified])
    also have "\<dots> \<le> length (map req_center (cp_singles pb))" by (rule card_length)
    finally show ?thesis by simp
  qed
  ultimately show ?thesis
    using i by (simp add: branch_score_def prefix_score_of_def optimistic_def zero_slots_def)
qed

section \<open>The invariant of the search\<close>

definition matched_at :: "coverage_problem \<Rightarrow> (string set \<Rightarrow> assignment_decision list) \<Rightarrow>
    string set \<Rightarrow> assignment_decision list" where
  "matched_at pb mt used = mt (used \<inter> single_candidate_people pb)"

definition best_at_most :: "coverage_search \<Rightarrow> int \<times> int \<times> int \<Rightarrow> bool" where
  "best_at_most st v = (\<exists>b. best st = Some b \<and> result_score b \<le> v)"

definition explored :: "coverage_problem \<Rightarrow> (string set \<Rightarrow> assignment_decision list) \<Rightarrow>
    coverage_search \<Rightarrow> nat \<Rightarrow> string set \<Rightarrow> prefix_score \<Rightarrow> bool" where
  "explored pb mt st j used s =
     (\<forall>ws \<in> set (requirement_plans (drop j (cp_coupled pb)) used).
        best_at_most st (branch_score pb s ws (matched_at pb mt (used \<union> plan_people ws))))"

definition plan_result :: "coverage_problem \<Rightarrow> (string set \<Rightarrow> assignment_decision list) \<Rightarrow>
    string set \<Rightarrow> crew_option list \<Rightarrow> coverage_result" where
  "plan_result pb mt reserved ws =
     assemble_result (cp_normalized pb) (plan_decisions ws @ matched_at pb mt (reserved \<union> plan_people ws))"

definition search_inv :: "coverage_problem \<Rightarrow> (string set \<Rightarrow> assignment_decision list) \<Rightarrow>
    string set \<Rightarrow> nat \<Rightarrow> coverage_search \<Rightarrow> bool" where
  "search_inv pb mt reserved i st =
     ((\<forall>j used s. i \<le> j \<longrightarrow> seen_prefix st (j, used) = Some s \<longrightarrow> explored pb mt st j used s) \<and>
      (\<forall>V ms. single_match_cache st V = Some ms \<longrightarrow> ms = mt V) \<and>
      (\<forall>b. best st = Some b \<longrightarrow>
         (\<exists>ws \<in> set (requirement_plans (cp_coupled pb) reserved). b = plan_result pb mt reserved ws)))"

definition search_step :: "nat \<Rightarrow> coverage_search \<Rightarrow> coverage_search \<Rightarrow> bool" where
  "search_step i st st' =
     ((\<forall>v. best_at_most st v \<longrightarrow> best_at_most st' v) \<and>
      (\<forall>j used. j < i \<longrightarrow> seen_prefix st' (j, used) = seen_prefix st (j, used)))"

definition node_ok :: "coverage_problem \<Rightarrow> string set \<Rightarrow> nat \<Rightarrow> string set \<Rightarrow>
    assignment_decision list \<Rightarrow> bool" where
  "node_ok pb reserved i used decs =
     (i \<le> length (cp_coupled pb) \<and> prefix_ok pb i decs \<and>
      (\<exists>ws0. decs = plan_decisions ws0 \<and> used = reserved \<union> plan_people ws0 \<and>
         (\<forall>ws \<in> set (requirement_plans (drop i (cp_coupled pb)) used).
            ws0 @ ws \<in> set (requirement_plans (cp_coupled pb) reserved))))"

lemma search_step_refl [simp]: "search_step i st st"
  by (simp add: search_step_def)

lemma search_step_trans: "search_step i a b \<Longrightarrow> search_step i b c \<Longrightarrow> search_step i a c"
  by (simp add: search_step_def)

lemma explored_step: "search_step i a b \<Longrightarrow> explored pb mt a j used s \<Longrightarrow> explored pb mt b j used s"
  unfolding search_step_def explored_def by blast

lemma best_at_most_mono: "best_at_most st v \<Longrightarrow> v \<le> v' \<Longrightarrow> best_at_most st v'"
  by (auto simp: best_at_most_def intro: order_trans)

lemma explored_mono: "explored pb mt st j used s \<Longrightarrow> s \<le> s' \<Longrightarrow> explored pb mt st j used s'"
  by (auto simp: explored_def intro: best_at_most_mono branch_score_mono)

lemma node_root: "node_ok pb reserved 0 reserved []"
  unfolding node_ok_def prefix_ok_def by (auto intro!: exI [of _ "[]"])

lemma node_skip:
  assumes node: "node_ok pb reserved i used decs" and i: "i < length (cp_coupled pb)"
  shows "node_ok pb reserved (Suc i) used decs"
  using node i prefix_ok_Suc [of pb i decs]
  by (auto simp: node_ok_def Cons_nth_drop_Suc [OF i, symmetric] requirement_plans_Cons_iff)

lemma node_take:
  assumes ok: "search_ok pb f mt" and node: "node_ok pb reserved i used decs"
    and i: "i < length (cp_coupled pb)" and w: "w \<in> set (req_crew_options (cp_coupled pb ! i))"
    and free: "set (crew_people w) \<inter> used = {}"
  shows "node_ok pb reserved (Suc i) (used \<union> set (crew_people w)) (decs @ crew_decisions w)"
proof -
  from node obtain ws0 where decs: "decs = plan_decisions ws0" and used: "used = reserved \<union> plan_people ws0"
    and plans: "\<And>ws. ws \<in> set (requirement_plans (drop i (cp_coupled pb)) used) \<Longrightarrow>
      ws0 @ ws \<in> set (requirement_plans (cp_coupled pb) reserved)"
    and pre: "prefix_ok pb i decs"
    by (auto simp: node_ok_def)
  have "(ws0 @ [w]) @ ws \<in> set (requirement_plans (cp_coupled pb) reserved)"
    if "ws \<in> set (requirement_plans (drop (Suc i) (cp_coupled pb)) (used \<union> set (crew_people w)))" for ws
  proof -
    have "w # ws \<in> set (requirement_plans (drop i (cp_coupled pb)) used)"
      using that w free unfolding Cons_nth_drop_Suc [OF i, symmetric] requirement_plans_Cons_iff by blast
    from plans [OF this] show ?thesis by simp
  qed
  then show ?thesis
    using i prefix_step(1) [OF ok pre i w]
    by (auto simp: node_ok_def decs used intro!: exI [of _ "ws0 @ [w]"])
qed

text \<open>A node is explored when skipping its center is and every crew that fits is.\<close>

lemma explored_node:
  assumes ok: "search_ok pb f mt" and node: "node_ok pb reserved i used decs"
    and i: "i < length (cp_coupled pb)"
    and skip: "explored pb mt st (Suc i) used (prefix_score_of decs)"
    and crews: "\<And>w. w \<in> set (req_crew_options (cp_coupled pb ! i)) \<Longrightarrow>
      set (crew_people w) \<inter> used = {} \<Longrightarrow>
      explored pb mt st (Suc i) (used \<union> set (crew_people w)) (prefix_score_of (decs @ crew_decisions w))"
  shows "explored pb mt st i used (prefix_score_of decs)"
  unfolding explored_def
proof
  fix ws assume "ws \<in> set (requirement_plans (drop i (cp_coupled pb)) used)"
  then consider "ws \<in> set (requirement_plans (drop (Suc i) (cp_coupled pb)) used)"
    | w ws' where "ws = w # ws'" "w \<in> set (req_crew_options (cp_coupled pb ! i))"
        "set (crew_people w) \<inter> used = {}"
        "ws' \<in> set (requirement_plans (drop (Suc i) (cp_coupled pb)) (used \<union> set (crew_people w)))"
    unfolding Cons_nth_drop_Suc [OF i, symmetric] requirement_plans_Cons_iff by blast
  then show "best_at_most st (branch_score pb (prefix_score_of decs) ws
      (matched_at pb mt (used \<union> plan_people ws)))"
  proof cases
    case 1
    then show ?thesis using skip by (simp add: explored_def)
  next
    case 2
    have "prefix_ok pb i decs" using node by (simp add: node_ok_def)
    note step = prefix_step(2) [OF ok this i 2(2)]
    have "best_at_most st (branch_score pb (prefix_score_of (decs @ crew_decisions w)) ws'
        (matched_at pb mt (used \<union> set (crew_people w) \<union> plan_people ws')))"
      using crews [OF 2(2,3)] 2(4) by (simp add: explored_def)
    then show ?thesis by (simp add: step 2(1) Un_assoc)
  qed
qed

lemma explored_bound:
  assumes ok: "search_ok pb f mt" and i: "i \<le> length (cp_coupled pb)" and best: "best st = Some b"
    and bound: "optimistic pb i decs < int (length (cov_staffed_centers b))"
  shows "explored pb mt st i used (prefix_score_of decs)"
  unfolding explored_def
proof
  fix ws assume ws: "ws \<in> set (requirement_plans (drop i (cp_coupled pb)) used)"
  let ?s = "branch_score pb (prefix_score_of decs) ws (matched_at pb mt (used \<union> plan_people ws))"
  have "fst (result_score b) < fst ?s"
    using branch_bound [OF ok i ws, of decs "(used \<union> plan_people ws) \<inter> single_candidate_people pb"] bound
    by (simp add: matched_at_def result_score_def)
  then have "result_score b \<le> ?s" by (cases "result_score b"; cases ?s) auto
  then show "best_at_most st ?s" using best by (simp add: best_at_most_def)
qed

section \<open>The search is complete\<close>

lemma keep_better:
  assumes "st' = (if result_is_better c (best st) then st\<lparr>best := Some c\<rparr> else st)"
  shows "best_at_most st' (result_score c)" and "best_at_most st v \<Longrightarrow> best_at_most st' v"
proof -
  show "best_at_most st' (result_score c)"
    using not_better_score [of c] assms
    by (cases "best st") (auto simp: best_at_most_def simp del: result_is_better.simps(2))
  show "best_at_most st' v" if v: "best_at_most st v"
  proof (cases "result_is_better c (best st)")
    case True
    from v obtain b where b: "best st = Some b" "result_score b \<le> v" by (auto simp: best_at_most_def)
    have "result_score c \<le> v" using order_trans [OF better_score [of c b] b(2)] True b(1) by simp
    then show ?thesis using assms True by (simp add: best_at_most_def)
  next
    case False
    then show ?thesis using assms v by simp
  qed
qed

lemma visit_leaf_ok:
  assumes ok: "search_ok pb f mt" and node: "node_ok pb reserved i used decs"
    and leaf: "length (cp_coupled pb) \<le> i" and inv: "search_inv pb mt reserved (Suc i) st"
  shows "\<exists>st'. visit_leaf f pb used decs st = Some (Inr st') \<and> search_inv pb mt reserved (Suc i) st' \<and>
    search_step (Suc i) st st' \<and> explored pb mt st' i used (prefix_score_of decs)"
proof -
  let ?V = "used \<inter> single_candidate_people pb"
  define c where "c = assemble_result (cp_normalized pb) (decs @ mt ?V)"
  define st1 where "st1 = st\<lparr>single_match_cache := (single_match_cache st)(?V \<mapsto> mt ?V)\<rparr>"
  define st2 where "st2 = (if result_is_better c (best st1) then st1\<lparr>best := Some c\<rparr> else st1)"
  have cache: "single_match_cache st V = Some ms \<Longrightarrow> ms = mt V" for V ms
    using inv by (simp add: search_inv_def)
  have "(case single_match_cache st ?V of Some ms \<Rightarrow> Some (Inr ms) | None \<Rightarrow> f ?V) = Some (Inr (mt ?V))"
    using cache matched_facts(1) [OF ok] by (auto split: option.splits)
  then have run: "visit_leaf f pb used decs st = Some (Inr st2)"
    by (simp add: visit_leaf_def Let_def st1_def st2_def c_def)
  have same: "best_at_most st1 v = best_at_most st v" for v by (simp add: st1_def best_at_most_def)
  note best = keep_better(1) [OF st2_def] and keep = keep_better(2) [OF st2_def, unfolded same]
  have step: "search_step (Suc i) st st2"
    using keep by (simp add: search_step_def st2_def st1_def)
  obtain ws0 where ws0: "decs = plan_decisions ws0" "used = reserved \<union> plan_people ws0"
      "ws0 \<in> set (requirement_plans (cp_coupled pb) reserved)" and pre: "prefix_ok pb i decs"
    using node leaf by (auto simp: node_ok_def)
  have c: "c = plan_result pb mt reserved ws0"
    by (simp add: plan_result_def matched_at_def ws0 c_def)
  have "search_inv pb mt reserved (Suc i) st2"
    using inv explored_step [OF step] ws0(3)
    by (auto simp: search_inv_def st2_def st1_def c split: if_splits)
  moreover have "explored pb mt st2 i used (prefix_score_of decs)"
    using best leaf leaf_score [OF ok pre, of "[]" used] by (simp add: explored_def matched_at_def c_def)
  ultimately show ?thesis using run step by blast
qed

lemma search_inv_enter:
  assumes "search_inv pb mt reserved i st"
  shows "search_inv pb mt reserved (Suc i) (st\<lparr>seen_prefix := (seen_prefix st)((i, used) \<mapsto> s)\<rparr>)"
    (is "search_inv pb mt reserved (Suc i) ?st1")
proof -
  have same: "explored pb mt ?st1 j u s' = explored pb mt st j u s'" for j u s'
    by (simp add: explored_def best_at_most_def)
  have "explored pb mt ?st1 j u s'" if "Suc i \<le> j" "seen_prefix ?st1 (j, u) = Some s'" for j u s'
  proof -
    have "i \<le> j" "seen_prefix st (j, u) = Some s'" using that by auto
    then show ?thesis unfolding same using assms unfolding search_inv_def by blast
  qed
  then show ?thesis using assms unfolding search_inv_def by simp
qed

text \<open>What a finished visit of node \<open>i\<close> means for the entry it recorded and for its level.\<close>

lemma visit_done:
  assumes inv: "search_inv pb mt reserved i st" and st1: "st1 = st\<lparr>seen_prefix := (seen_prefix st)((i, used) \<mapsto> s)\<rparr>"
    and step: "search_step (Suc i) st1 st2" and inv2: "search_inv pb mt reserved (Suc i) st2"
    and this_node: "explored pb mt st2 i used s"
  shows "search_inv pb mt reserved i st2" and "search_step i st st2"
proof -
  have same: "best_at_most st1 v = best_at_most st v" for v by (simp add: st1 best_at_most_def)
  then have keep: "explored pb mt st2 j u s'" if "explored pb mt st j u s'" for j u s'
    using that step unfolding explored_def search_step_def by blast
  have seen: "seen_prefix st2 (j, u) = (if j = i \<and> u = used then Some s else seen_prefix st (j, u))"
    if "j \<le> i" for j u
    using step that by (auto simp: search_step_def st1)
  have "explored pb mt st2 j u s'" if "i \<le> j" "seen_prefix st2 (j, u) = Some s'" for j u s'
  proof (cases "j = i")
    case True
    have entry: "(if u = used then Some s else seen_prefix st (j, u)) = Some s'"
      using that seen [of j u] True by simp
    have old: "seen_prefix st (j, u) = Some s' \<Longrightarrow> explored pb mt st j u s'"
      using inv that(1) unfolding search_inv_def by blast
    show ?thesis
    proof (cases "u = used")
      case True
      then show ?thesis using entry this_node \<open>j = i\<close> by simp
    next
      case False
      then show ?thesis using entry old by (intro keep) simp
    qed
  next
    case False
    then have "Suc i \<le> j" using that(1) by simp
    then show ?thesis using that(2) inv2 unfolding search_inv_def by blast
  qed
  then show "search_inv pb mt reserved i st2"
    using inv2 unfolding search_inv_def by blast
  show "search_step i st st2"
    unfolding search_step_def
  proof (intro conjI allI impI)
    fix v assume "best_at_most st v"
    then show "best_at_most st2 v" using step unfolding search_step_def same by blast
  next
    fix j u assume "j < i"
    then show "seen_prefix st2 (j, u) = seen_prefix st (j, u)" using seen [of j u] by simp
  qed
qed

theorem visit_ok:
  assumes ok: "search_ok pb f mt" and node: "node_ok pb reserved i used decs"
    and inv: "search_inv pb mt reserved i st"
  shows "\<exists>st'. visit f pb i used decs st = Some (Inr st') \<and> search_inv pb mt reserved i st' \<and>
    search_step i st st' \<and> explored pb mt st' i used (prefix_score_of decs)"
  using node inv
proof (induction "length (cp_coupled pb) - i" arbitrary: i used decs st rule: less_induct)
  case (less i)
  let ?s = "prefix_score_of decs"
  define st1 where "st1 = st\<lparr>seen_prefix := (seen_prefix st)((i, used) \<mapsto> ?s)\<rparr>"
  have le: "i \<le> length (cp_coupled pb)" using less.prems(1) by (simp add: node_ok_def)
  have inv1: "search_inv pb mt reserved (Suc i) st1"
    unfolding st1_def by (rule search_inv_enter [OF less.prems(2)])
  note finish = visit_done [OF less.prems(2) st1_def]
  show ?case
  proof (cases "\<exists>e. seen_prefix st (i, used) = Some e \<and> e \<le> ?s")
    case True
    then obtain e where e: "seen_prefix st (i, used) = Some e" "e \<le> ?s" by blast
    have "explored pb mt st i used e"
      using less.prems(2) e(1) order_refl [of i] unfolding search_inv_def by blast
    then have "explored pb mt st i used ?s" using e(2) by (rule explored_mono)
    moreover have "visit f pb i used decs st = Some (Inr st)"
      using e by (subst visit.simps) (simp add: Let_def)
    ultimately show ?thesis using less.prems(2) by auto
  next
    case unseen: False
    then have new: "\<not> (case seen_prefix st (i, used) of Some e \<Rightarrow> e \<le> ?s | None \<Rightarrow> False)"
      by (auto split: option.splits)
    have best1: "best st1 = best st" by (simp add: st1_def)
    show ?thesis
    proof (cases "\<exists>b. best st = Some b \<and> optimistic pb i decs < int (length (cov_staffed_centers b))")
      case True
      then obtain b where b: "best st1 = Some b" "optimistic pb i decs < int (length (cov_staffed_centers b))"
        by (auto simp: best1)
      note this_node = explored_bound [OF ok le b]
      have "visit f pb i used decs st = Some (Inr st1)"
        using b new unfolding best1 by (subst visit.simps) (simp add: Let_def st1_def)
      then show ?thesis using finish [OF search_step_refl inv1 this_node] this_node by blast
    next
      case False
      then have open_node: "\<not> (case best st of
          Some b \<Rightarrow> optimistic pb i decs < int (length (cov_staffed_centers b)) | None \<Rightarrow> False)"
        by (auto split: option.splits)
      show ?thesis
      proof (cases "length (cp_coupled pb) \<le> i")
        case True
        from visit_leaf_ok [OF ok less.prems(1) True inv1] obtain st2 where
          st2: "visit_leaf f pb used decs st1 = Some (Inr st2)" "search_inv pb mt reserved (Suc i) st2"
            "search_step (Suc i) st1 st2" "explored pb mt st2 i used ?s" by blast
        have "visit f pb i used decs st = Some (Inr st2)"
          using st2(1) new open_node True by (subst visit.simps) (simp add: Let_def st1_def)
        then show ?thesis using finish [OF st2(3,2,4)] st2(4) by blast
      next
        case False
        then have i: "i < length (cp_coupled pb)" by simp
        let ?body = "\<lambda>w st. if set (crew_people w) \<inter> used \<noteq> {} then Some (Inr st)
          else visit f pb (Suc i) (used \<union> set (crew_people w)) (decs @ crew_decisions w) st"
        let ?Q = "\<lambda>w st. set (crew_people w) \<inter> used = {} \<longrightarrow>
          explored pb mt st (Suc i) (used \<union> set (crew_people w)) (prefix_score_of (decs @ crew_decisions w))"
        have smaller: "length (cp_coupled pb) - Suc i < length (cp_coupled pb) - i" using i by simp
        have "\<exists>st'. fold_run ?body (ordered_options (cp_coupled pb ! i)) st1 = Some (Inr st') \<and>
            search_inv pb mt reserved (Suc i) st' \<and> search_step (Suc i) st1 st' \<and>
            (\<forall>w \<in> set (ordered_options (cp_coupled pb ! i)). ?Q w st')"
        proof (rule fold_run_invariant [where I = "search_inv pb mt reserved (Suc i)" and
              R = "search_step (Suc i)" and Q = ?Q, OF inv1])
          fix w st assume w: "w \<in> set (ordered_options (cp_coupled pb ! i))"
            and inv: "search_inv pb mt reserved (Suc i) st"
          show "\<exists>st'. ?body w st = Some (Inr st') \<and> search_inv pb mt reserved (Suc i) st' \<and>
              search_step (Suc i) st st' \<and> ?Q w st'"
          proof (cases "set (crew_people w) \<inter> used = {}")
            case True
            have "node_ok pb reserved (Suc i) (used \<union> set (crew_people w)) (decs @ crew_decisions w)"
              by (rule node_take [OF ok less.prems(1) i _ True]) (use w in \<open>simp add: ordered_options_def\<close>)
            from less.hyps [OF smaller this inv] show ?thesis using True by simp
          next
            case False
            then show ?thesis using inv by simp
          qed
        qed (auto intro: search_step_trans explored_step)
        then obtain st2 where st2: "fold_run ?body (ordered_options (cp_coupled pb ! i)) st1 = Some (Inr st2)"
            "search_inv pb mt reserved (Suc i) st2" "search_step (Suc i) st1 st2"
            "\<forall>w \<in> set (ordered_options (cp_coupled pb ! i)). ?Q w st2" by blast
        from less.hyps [OF smaller node_skip [OF less.prems(1) i] st2(2)] obtain st3 where
          st3: "visit f pb (Suc i) used decs st2 = Some (Inr st3)" "search_inv pb mt reserved (Suc i) st3"
            "search_step (Suc i) st2 st3" "explored pb mt st3 (Suc i) used ?s" by blast
        have "visit f pb i used decs st = Some (Inr st3)"
          using st2(1) st3(1) new open_node i by (subst visit.simps) (simp add: Let_def st1_def)
        moreover have this_node: "explored pb mt st3 i used ?s"
        proof (rule explored_node [OF ok less.prems(1) i st3(4)])
          fix w assume "w \<in> set (req_crew_options (cp_coupled pb ! i))" "set (crew_people w) \<inter> used = {}"
          then show "explored pb mt st3 (Suc i) (used \<union> set (crew_people w)) (prefix_score_of (decs @ crew_decisions w))"
            using st2(4) explored_step [OF st3(3)] by (simp add: ordered_options_def)
        qed
        ultimately show ?thesis
          using finish [OF search_step_trans [OF st2(3) st3(3)] st3(2) this_node] by blast
      qed
    qed
  qed
qed

end
