(* ===== verification/Coverage_Optimality.thy ===== *)
theory Coverage_Optimality
  imports Coverage_Search
begin

text \<open>
  \<open>solve_minimum_coverage\<close> returns a best coverage plan. The search only relies on what the
  matching of the single slots promises: the locale \<open>single_matcher\<close>, whose interpretation on
  \<open>match_single\<close> is the min-cost flow theorem.
\<close>

section \<open>Coverage plans\<close>

definition coverage_wf :: "center_requirement list \<Rightarrow> bool" where
  "coverage_wf reqs =
     (distinct (map req_center reqs) \<and>
      (\<forall>r \<in> set reqs. req_remaining_slots r = 1 \<longrightarrow>
         (\<forall>e \<in> set (req_candidates r). edge_center e = req_center r)))"

text \<open>
  A plan takes at most one crew or one candidate per center, uses nobody twice and nobody who is
  protected.
\<close>

definition coverage_plan :: "center_requirement list \<Rightarrow> crew_option list \<Rightarrow> candidate_edge list \<Rightarrow> bool" where
  "coverage_plan reqs ws ms =
     ((\<forall>w \<in> set ws. \<exists>r \<in> set reqs. req_remaining_slots r > 1 \<and> w \<in> set (req_crew_options r)) \<and>
      (\<forall>e \<in> set ms. \<exists>r \<in> set reqs. req_remaining_slots r = 1 \<and> e \<in> set (req_candidates r)) \<and>
      distinct (map crew_center ws) \<and> distinct (map edge_center ms) \<and>
      distinct (concat (map crew_people ws) @ map edge_person ms) \<and>
      set (concat (map crew_people ws) @ map edge_person ms) \<inter> reserved_people reqs = {})"

definition plan_score :: "coverage_problem \<Rightarrow> crew_option list \<Rightarrow> candidate_edge list \<Rightarrow> int \<times> int \<times> int" where
  "plan_score pb ws ms =
     (- zero_slots pb - int (length ws) - int (length ms),
      count_overrides (plan_decisions ws @ map decision ms),
      total_rank_cost (plan_decisions ws @ map decision ms))"

definition ranks_nonneg :: "center_requirement list \<Rightarrow> bool" where
  "ranks_nonneg reqs = (\<forall>r \<in> set reqs. \<forall>e \<in> set (req_candidates r). 0 \<le> edge_rank_cost e)"

lemma branch_plan_score:
  "branch_score pb (prefix_score_of []) ws (sort_decisions (map decision ms)) = plan_score pb ws ms"
  by (simp add: branch_score_def plan_score_def prefix_score_of_def)

lemma plan_score_mset:
  assumes "mset ws = mset ws'"
  shows "plan_score pb ws ms = plan_score pb ws' ms"
proof -
  have "mset (plan_decisions ws) = mset (plan_decisions ws')"
    by (rule plan_decisions_mset [OF assms])
  then have "mset (plan_decisions ws @ map decision ms) = mset (plan_decisions ws' @ map decision ms)" by simp
  then show ?thesis
    unfolding plan_score_def using overrides_mset rank_cost_mset mset_eq_length [OF assms] by metis
qed

section \<open>Crew plans are the crews of coverage plans\<close>

lemma coupled_pools_ok: "crews_ok rs \<Longrightarrow> pools_ok (map crew_pool_of rs)"
  by (auto simp: crews_ok_def crews_malformed_def crew_malformed_def pools_ok_def crew_pool_of_def comp_def)

section \<open>Problems and their single slots\<close>

lemma problem_facts:
  "set (cp_normalized (coverage_problem_of reqs)) = set reqs"
  "set (cp_singles (coverage_problem_of reqs)) = {r \<in> set reqs. req_remaining_slots r = 1}"
  "set (cp_coupled (coverage_problem_of reqs)) = {r \<in> set reqs. req_remaining_slots r > 1}"
  by (auto simp: coverage_problem_of_def Let_def normalized_of_def singles_of_def coupled_of_def)

lemma problem_distinct:
  assumes "distinct (map req_center reqs)"
  shows "distinct (map req_center (cp_normalized (coverage_problem_of reqs)))"
    and "distinct (map req_center (cp_singles (coverage_problem_of reqs)))"
    and "distinct (map req_center (cp_coupled (coverage_problem_of reqs)))"
  using assms
  by (simp_all add: coverage_problem_of_def Let_def normalized_of_def singles_of_def coupled_of_def
      distinct_map_sort_key distinct_map_filter)

lemma singles_scoped: "coverage_wf reqs \<Longrightarrow> center_scoped (cp_singles (coverage_problem_of reqs))"
  using problem_distinct(2) [of reqs] problem_facts(2) [of reqs]
  by (auto simp: coverage_wf_def center_scoped_def)

lemma reserved_normalized: "reserved_people (cp_normalized (coverage_problem_of reqs)) = reserved_people reqs"
  by (simp add: reserved_people_def problem_facts)

lemma single_edges_in_plan:
  "set (single_edges (cp_singles (coverage_problem_of reqs)) un) =
     {e. edge_person e \<notin> un \<and> (\<exists>r \<in> set reqs. req_remaining_slots r = 1 \<and> e \<in> set (req_candidates r))}"
  by (auto simp: set_single_edges problem_facts)

text \<open>A coverage plan is a crew choice and a matching of the people it leaves.\<close>

lemma coverage_plan_split:
  fixes reqs
  defines "pb \<equiv> coverage_problem_of reqs"
  defines "V ws \<equiv> (reserved_people reqs \<union> plan_people ws) \<inter> single_candidate_people pb"
  shows "coverage_plan reqs ws ms \<longleftrightarrow>
    crew_choice (map crew_pool_of (cp_coupled pb)) (reserved_people reqs) ws \<and>
    valid_matching (single_edges (cp_singles pb) (V ws)) ms"
proof -
  have cand: "edge_person e \<in> single_candidate_people pb"
    if "r \<in> set reqs" "req_remaining_slots r = 1" "e \<in> set (req_candidates r)" for r e
    using that by (auto simp: single_candidate_people_def pb_def problem_facts)
  have single: "set ms \<subseteq> set (single_edges (cp_singles pb) (V ws)) \<longleftrightarrow>
      (\<forall>e \<in> set ms. \<exists>r \<in> set reqs. req_remaining_slots r = 1 \<and> e \<in> set (req_candidates r)) \<and>
      edge_person ` set ms \<inter> (reserved_people reqs \<union> plan_people ws) = {}"
    unfolding pb_def single_edges_in_plan V_def using cand by (auto simp: pb_def)
  have people: "set (concat (map crew_people ws)) = plan_people ws" by (simp add: plan_people_def)
  have crews: "(\<forall>w \<in> set ws. \<exists>p \<in> crew_pool_of ` set (cp_coupled pb). w \<in> set (snd p)) \<longleftrightarrow>
      (\<forall>w \<in> set ws. \<exists>r \<in> set reqs. req_remaining_slots r > 1 \<and> w \<in> set (req_crew_options r))"
    by (auto simp: pb_def problem_facts crew_pool_of_def)
  show ?thesis
    unfolding coverage_plan_def crew_choice_def valid_matching_def single crews distinct_append
      set_append people set_map
    by (simp add: Int_Un_distrib Int_Un_distrib2) (simp add: Int_commute; blast)
qed

lemma nonneg_rank_cost:
  assumes "ranks_nonneg reqs" and "valid_matching (single_edges (cp_singles (coverage_problem_of reqs)) un) ms"
  shows "total_rank_cost (map decision ms) = edge_ranks ms"
proof -
  have "0 \<le> edge_rank_cost e" if "e \<in> set ms" for e
    using assms that by (auto simp: valid_matching_def single_edges_in_plan ranks_nonneg_def)
  then show ?thesis
    unfolding total_rank_cost_decisions edge_ranks_def by (intro arg_cong [where f = sum_list] map_cong) auto
qed

section \<open>The interface of the matching and the best plan\<close>

locale single_matcher =
  fixes matcher :: "center_requirement list \<Rightarrow> string set \<Rightarrow> assignment_decision list run"
  assumes matches: "center_scoped singles \<Longrightarrow>
    \<exists>ms. matcher singles un = Some (Inr (sort_decisions (map decision ms))) \<and>
      valid_matching (single_edges singles un) ms \<and>
      (\<forall>ms'. valid_matching (single_edges singles un) ms' \<longrightarrow> length ms' \<le> length ms \<and>
         (length ms' = length ms \<longrightarrow> (edge_overrides ms, edge_ranks ms) \<le> (edge_overrides ms', edge_ranks ms')))"
begin

lemma best_matchings:
  assumes "center_scoped singles"
  obtains g where "\<And>un. matcher singles un = Some (Inr (sort_decisions (map decision (g un))))"
    and "\<And>un. valid_matching (single_edges singles un) (g un)"
    and "\<And>un ms'. valid_matching (single_edges singles un) ms' \<Longrightarrow> length ms' \<le> length (g un) \<and>
         (length ms' = length (g un) \<longrightarrow>
            (edge_overrides (g un), edge_ranks (g un)) \<le> (edge_overrides ms', edge_ranks ms'))"
  using choice [OF allI [of "\<lambda>un. \<exists>ms. matcher singles un = Some (Inr (sort_decisions (map decision ms))) \<and>
      valid_matching (single_edges singles un) ms \<and>
      (\<forall>ms'. valid_matching (single_edges singles un) ms' \<longrightarrow> length ms' \<le> length ms \<and>
         (length ms' = length ms \<longrightarrow> (edge_overrides ms, edge_ranks ms) \<le> (edge_overrides ms', edge_ranks ms')))",
    OF matches [OF assms]]] by blast

lemma search_space:
  assumes wf: "coverage_wf reqs" and crews: "\<not> crews_malformed (cp_coupled (coverage_problem_of reqs))"
    and run: "\<And>un. matcher (cp_singles (coverage_problem_of reqs)) un = Some (Inr (sort_decisions (map decision (g un))))"
    and valid: "\<And>un. valid_matching (single_edges (cp_singles (coverage_problem_of reqs)) un) (g un)"
  shows "search_ok (coverage_problem_of reqs) (matcher (cp_singles (coverage_problem_of reqs)))
    (\<lambda>un. sort_decisions (map decision (g un)))"
proof -
  let ?pb = "coverage_problem_of reqs"
  have scoped: "center_scoped (cp_singles ?pb)" by (rule singles_scoped [OF wf])
  have "distinct (map dec_center (sort_decisions (map decision (g un))))" for un
    using valid [of un] by (simp add: valid_matching_def sort_decisions_def distinct_map_sort_key comp_def)
  moreover have "set (map dec_center (sort_decisions (map decision (g un)))) \<subseteq> set (map req_center (cp_singles ?pb))" for un
    using valid [of un] scoped by (fastforce simp: valid_matching_def set_single_edges center_scoped_def)
  moreover have "crews_ok (cp_coupled ?pb)"
    using crews problem_distinct(3) [of reqs] wf by (auto simp: crews_ok_def problem_facts coverage_wf_def)
  ultimately show ?thesis
    using problem_distinct [of reqs] wf run by (auto simp: search_ok_def problem_facts coverage_wf_def)
qed

theorem best_plan:
  fixes reqs
  defines "pb \<equiv> coverage_problem_of reqs"
  assumes wf: "coverage_wf reqs" and crews: "\<not> crews_malformed (cp_coupled pb)"
  shows "\<exists>st ws ms.
    visit (matcher (cp_singles pb)) pb 0 (reserved_people (cp_normalized pb)) [] empty_search = Some (Inr st) \<and>
    coverage_plan reqs ws ms \<and>
    best st = Some (assemble_result (cp_normalized pb) (plan_decisions ws @ sort_decisions (map decision ms))) \<and>
    result_score (the (best st)) = plan_score pb ws ms \<and>
    (\<forall>ws' ms'. coverage_plan reqs ws' ms' \<longrightarrow>
       fst (plan_score pb ws ms) \<le> fst (plan_score pb ws' ms') \<and>
       (fst (plan_score pb ws ms) = fst (plan_score pb ws' ms') \<longrightarrow>
          fst (snd (plan_score pb ws ms)) \<le> fst (snd (plan_score pb ws' ms'))) \<and>
       (ranks_nonneg reqs \<longrightarrow> plan_score pb ws ms \<le> plan_score pb ws' ms'))"
proof -
  let ?res = "reserved_people reqs" and ?S = "cp_singles pb"
  obtain g where run: "\<And>un. matcher ?S un = Some (Inr (sort_decisions (map decision (g un))))"
      and valid: "\<And>un. valid_matching (single_edges ?S un) (g un)"
      and top: "\<And>un ms'. valid_matching (single_edges ?S un) ms' \<Longrightarrow> length ms' \<le> length (g un) \<and>
         (length ms' = length (g un) \<longrightarrow>
            (edge_overrides (g un), edge_ranks (g un)) \<le> (edge_overrides ms', edge_ranks ms'))"
    using best_matchings [OF singles_scoped [OF wf]] unfolding pb_def by blast
  define mt where "mt un = sort_decisions (map decision (g un))" for un
  have ok: "search_ok pb (matcher ?S) mt"
    unfolding mt_def pb_def
    by (rule search_space [OF wf crews [unfolded pb_def] run [unfolded pb_def] valid [unfolded pb_def]])
  then have K: "crews_ok (cp_coupled pb)" by (simp add: search_ok_def)
  have inv: "search_inv pb mt ?res 0 empty_search" by (simp add: search_inv_def empty_search_def)
  from visit_ok [OF ok node_root inv] obtain st where
    visit: "visit (matcher ?S) pb 0 ?res [] empty_search = Some (Inr st)"
    and inv': "search_inv pb mt ?res 0 st"
    and seen: "explored pb mt st 0 ?res (prefix_score_of [])" by blast
  define V where "V ws = (?res \<union> plan_people ws) \<inter> single_candidate_people pb" for ws
  have at: "matched_at pb mt (?res \<union> plan_people ws) = mt (V ws)" for ws
    by (simp add: matched_at_def V_def)
  have plans: "coverage_plan reqs ws ms \<longleftrightarrow>
      crew_choice (map crew_pool_of (cp_coupled pb)) ?res ws \<and> valid_matching (single_edges ?S (V ws)) ms" for ws ms
    unfolding V_def pb_def by (rule coverage_plan_split)
  have reach: "\<exists>b. best st = Some b \<and> result_score b \<le> plan_score pb ws (g (V ws))"
    if "ws \<in> set (requirement_plans (cp_coupled pb) ?res)" for ws
    using seen that by (simp add: explored_def best_at_most_def at mt_def branch_plan_score)
  have "[] \<in> set (requirement_plans (cp_coupled pb) ?res)" unfolding requirement_plans_def by (rule no_crews)
  from reach [OF this] obtain b where b: "best st = Some b" by blast
  then obtain ws where ws: "ws \<in> set (requirement_plans (cp_coupled pb) ?res)" and b_ws: "b = plan_result pb mt ?res ws"
    using inv' by (auto simp: search_inv_def)
  have score: "result_score b = plan_score pb ws (g (V ws))"
    using leaf_score [OF ok, of 0 "[]" ws ?res "V ws"] ws
    by (simp add: b_ws plan_result_def at prefix_ok_def mt_def branch_plan_score)
  have plan: "coverage_plan reqs ws (g (V ws))"
    unfolding plans using crew_plans_choice [OF coupled_pools_ok [OF K] ws [unfolded requirement_plans_def]] valid by blast
  have least: "fst (plan_score pb ws (g (V ws))) \<le> fst (plan_score pb ws' ms') \<and>
       (fst (plan_score pb ws (g (V ws))) = fst (plan_score pb ws' ms') \<longrightarrow>
          fst (snd (plan_score pb ws (g (V ws)))) \<le> fst (snd (plan_score pb ws' ms'))) \<and>
       (ranks_nonneg reqs \<longrightarrow> plan_score pb ws (g (V ws)) \<le> plan_score pb ws' ms')"
    if plan': "coverage_plan reqs ws' ms'" for ws' ms'
  proof -
    have m': "valid_matching (single_edges ?S (V ws')) ms'" using plan' unfolding plans by blast
    obtain ws'' where ws'': "ws'' \<in> set (requirement_plans (cp_coupled pb) ?res)" and perm: "mset ws'' = mset ws'"
      using crew_choice_plan [OF coupled_pools_ok [OF K]] plan' unfolding plans requirement_plans_def by blast
    have V: "V ws'' = V ws'" using mset_eq_setD [OF perm] by (simp add: V_def plan_people_def)
    have "plan_score pb ws (g (V ws)) \<le> plan_score pb ws' (g (V ws'))"
      using reach [OF ws''] by (simp add: b score V plan_score_mset [OF perm])
    moreover note top [OF m']
    moreover have "ranks_nonneg reqs \<Longrightarrow> total_rank_cost (map decision (g (V ws'))) = edge_ranks (g (V ws')) \<and>
        total_rank_cost (map decision ms') = edge_ranks ms'"
      using nonneg_rank_cost m' valid unfolding pb_def by blast
    ultimately show ?thesis
      by (auto simp: plan_score_def count_overrides_decisions edge_overrides_def)
  qed
  have "visit (matcher ?S) pb 0 (reserved_people (cp_normalized pb)) [] empty_search = Some (Inr st)"
    using visit unfolding pb_def reserved_normalized .
  moreover have "best st = Some (assemble_result (cp_normalized pb) (plan_decisions ws @ sort_decisions (map decision (g (V ws)))))"
    by (simp add: b b_ws plan_result_def at mt_def)
  moreover have "result_score (the (best st)) = plan_score pb ws (g (V ws))"
    by (simp add: b score)
  ultimately show ?thesis using plan least by blast
qed

end

interpretation flow_matcher: single_matcher match_single
proof
  fix singles un assume "center_scoped singles"
  from match_single_chooses [OF this, of un] show "\<exists>ms. match_single singles un = Some (Inr (sort_decisions (map decision ms))) \<and>
      valid_matching (single_edges singles un) ms \<and>
      (\<forall>ms'. valid_matching (single_edges singles un) ms' \<longrightarrow> length ms' \<le> length ms \<and>
         (length ms' = length ms \<longrightarrow> (edge_overrides ms, edge_ranks ms) \<le> (edge_overrides ms', edge_ranks ms')))"
    by (elim exE conjE) (intro exI conjI allI impI; force)
qed

section \<open>The solver\<close>

lemma solve_minimum_coverage_best:
  fixes reqs
  defines "pb \<equiv> coverage_problem_of reqs"
  assumes wf: "coverage_wf reqs" and crews: "\<not> crews_malformed (cp_coupled pb)"
    and levels: "\<not> levels_invalid (all_edges_of (cp_normalized pb) (cp_coupled pb))"
  shows "\<exists>r ws ms. solve_minimum_coverage reqs = Some (Inr r) \<and> coverage_plan reqs ws ms \<and>
    r = assemble_result (cp_normalized pb) (plan_decisions ws @ sort_decisions (map decision ms)) \<and>
    result_score r = plan_score pb ws ms \<and>
    (\<forall>ws' ms'. coverage_plan reqs ws' ms' \<longrightarrow>
       fst (plan_score pb ws ms) \<le> fst (plan_score pb ws' ms') \<and>
       (fst (plan_score pb ws ms) = fst (plan_score pb ws' ms') \<longrightarrow>
          fst (snd (plan_score pb ws ms)) \<le> fst (snd (plan_score pb ws' ms'))) \<and>
       (ranks_nonneg reqs \<longrightarrow> plan_score pb ws ms \<le> plan_score pb ws' ms'))"
proof -
  from flow_matcher.best_plan [OF wf crews [unfolded pb_def]] obtain st ws ms where
    visit: "visit (match_single (cp_singles pb)) pb 0 (reserved_people (cp_normalized pb)) [] empty_search = Some (Inr st)"
    and plan: "coverage_plan reqs ws ms"
    and result: "best st = Some (assemble_result (cp_normalized pb) (plan_decisions ws @ sort_decisions (map decision ms)))"
    and score: "result_score (the (best st)) = plan_score pb ws ms"
    and least: "\<forall>ws' ms'. coverage_plan reqs ws' ms' \<longrightarrow>
       fst (plan_score pb ws ms) \<le> fst (plan_score pb ws' ms') \<and>
       (fst (plan_score pb ws ms) = fst (plan_score pb ws' ms') \<longrightarrow>
          fst (snd (plan_score pb ws ms)) \<le> fst (snd (plan_score pb ws' ms'))) \<and>
       (ranks_nonneg reqs \<longrightarrow> plan_score pb ws ms \<le> plan_score pb ws' ms')"
    unfolding pb_def by blast
  have "solve_minimum_coverage reqs = Some (Inr (the (best st)))"
    using visit crews levels result by (simp add: solve_minimum_coverage_def pb_def [symmetric])
  then show ?thesis using plan result score least by (intro exI conjI) (assumption | simp)+
qed

end
