(* ===== verification/Complete_Flow.thy ===== *)
theory Complete_Flow
  imports Single_Matching
begin

text \<open>
  \<open>_complete_flow_attempt\<close> of \<open>schedule_solver.py\<close> (lines 490-635): people against centers with a
  minimum and a capacity. Each center has two exits, one of the still missing minimum with a large
  reward and one of the remaining capacity; a maximum flow of least cost places as many people as
  possible, then fills as many required slots as possible, then is cheapest.
\<close>

section \<open>Attempts\<close>

record complete_attempt =
  att_decisions :: "assignment_decision list"
  att_placed_people :: "string list"
  att_staffed_centers :: "string list"
  att_unsatisfied_slots :: int
  att_all_people_placed :: bool

definition attempt_complete :: "complete_attempt \<Rightarrow> bool" where
  "attempt_complete a = (att_all_people_placed a \<and> att_unsatisfied_slots a = 0)"

definition edge_weight :: "candidate_edge \<Rightarrow> int \<times> int" where
  "edge_weight edge = (override_cost edge, max 0 (edge_rank_cost edge))"

text \<open>One edge per person and center, in a dictionary filled from the sorted candidates.\<close>

definition keep_cheaper ::
    "((string \<times> string) \<times> candidate_edge) list \<Rightarrow> candidate_edge \<Rightarrow>
     ((string \<times> string) \<times> candidate_edge) list" where
  "keep_cheaper best_edge edge =
     (let key = (edge_person edge, edge_center edge)
      in case map_of best_edge key of
           None \<Rightarrow> AList.update key edge best_edge
         | Some current \<Rightarrow>
             if edge_weight edge < edge_weight current then AList.update key edge best_edge
             else best_edge)"

definition best_edges ::
    "string list \<Rightarrow> string list \<Rightarrow> candidate_edge list \<Rightarrow> candidate_edge list" where
  "best_edges people center_names candidates =
     map snd (foldl keep_cheaper []
       (filter (\<lambda>edge. edge_person edge \<in> set people \<and> edge_center edge \<in> set center_names)
         (sort_key (\<lambda>edge. (lower (edge_person edge), lower (edge_center edge),
                            override_cost edge, max 0 (edge_rank_cost edge))) candidates)))"

definition remaining_minimum :: "complete_center \<Rightarrow> int" where
  "remaining_minimum center = max 0 (cc_minimum center - int (length (cc_protected_people center)))"

definition remaining_capacity :: "complete_center \<Rightarrow> int" where
  "remaining_capacity center = cc_capacity center - int (length (cc_protected_people center))"

definition complete_ordinary_bound :: "candidate_edge list \<Rightarrow> int" where
  "complete_ordinary_bound edges =
     1 + (\<Sum>edge \<leftarrow> edges. max 0 (edge_rank_cost edge) + override_cost edge) + int (length edges)"

definition complete_tie_scale :: "nat \<Rightarrow> nat \<Rightarrow> int" where
  "complete_tie_scale np nc = max 1 (int np * max 1 (int nc) + 1) * (int np + 1)"

definition complete_tie_cost :: "string list \<Rightarrow> string list \<Rightarrow> candidate_edge \<Rightarrow> int" where
  "complete_tie_cost people centers edge =
     int (dict_index centers (edge_center edge)) * max 1 (int (length people))
     + int (dict_index people (edge_person edge))"

definition complete_cost ::
    "candidate_edge list \<Rightarrow> string list \<Rightarrow> string list \<Rightarrow> candidate_edge \<Rightarrow> int" where
  "complete_cost edges people centers edge =
     single_primary_cost (complete_ordinary_bound edges) edge
       * complete_tie_scale (length people) (length centers)
     + complete_tie_cost people centers edge"

definition required_reward ::
    "candidate_edge list \<Rightarrow> string list \<Rightarrow> string list \<Rightarrow> int" where
  "required_reward edges people centers =
     (1 + (\<Sum>edge \<leftarrow> edges. \<bar>complete_cost edges people centers edge\<bar>)) * (int (length people) + 1)"

definition count_center :: "assignment_decision list \<Rightarrow> string \<Rightarrow> int" where
  "count_center decisions name = int (length (filter (\<lambda>d. dec_center d = name) decisions))"

definition complete_flow_attempt ::
    "string list \<Rightarrow> complete_center list \<Rightarrow> candidate_edge list \<Rightarrow> complete_attempt option" where
  "complete_flow_attempt people0 centers0 candidates =
     (let people = sort_key lower people0;
          ordered_centers = sort_key (\<lambda>item. lower (cc_center item)) centers0;
          centers = map cc_center ordered_centers;
          edges = best_edges people centers candidates;
          source = 0;
          sink = 1 + length people + length centers;
          graph0 = empty_graph (sink + 1);
          (graph1, _) = add_arcs graph0
             (map (\<lambda>person. (source, person_node people person, 1, 0)) people);
          starts = map (\<lambda>edge. person_node people (edge_person edge)) edges;
          (graph2, arc_indices) = add_arcs graph1
             (map (\<lambda>edge. (person_node people (edge_person edge),
                           center_node people centers (edge_center edge), 1,
                           complete_cost edges people centers edge)) edges);
          chosen_arcs = zip starts (zip arc_indices edges);
          reward = required_reward edges people centers;
          (graph3, exit_indices) = add_arcs graph2
             (concat (map (\<lambda>center.
                let node = center_node people centers (cc_center center)
                in [(node, sink, remaining_minimum center, - reward),
                    (node, sink, max 0 (remaining_capacity center - remaining_minimum center), 0)])
               ordered_centers));
          required_arcs = map (\<lambda>j. exit_indices ! (2 * j)) [0..<length ordered_centers]
      in map_option (\<lambda>graph.
           let selected = sort_decisions
                 (map (\<lambda>(start, arc_index, edge). decision edge)
                   (filter (\<lambda>(start, arc_index, edge).
                              arc_capacity (graph ! start ! arc_index) = 0) chosen_arcs));
               placed = sort_key lower (map dec_person selected);
               staffed = sort_key lower (map cc_center
                 (filter (\<lambda>center. int (length (cc_protected_people center))
                            + count_center selected (cc_center center) \<ge> cc_minimum center)
                   ordered_centers));
               unsatisfied = (\<Sum>(center, arc_index) \<leftarrow> zip centers required_arcs.
                 arc_capacity (graph ! center_node people centers center ! arc_index))
           in \<lparr>att_decisions = selected, att_placed_people = placed, att_staffed_centers = staffed,
               att_unsatisfied_slots = unsatisfied,
               att_all_people_placed = (length placed = length people)\<rparr>)
         (flow_loop source sink graph3))"

section \<open>Best edges\<close>

definition edge_dict :: "((string \<times> string) \<times> candidate_edge) list \<Rightarrow> candidate_edge list \<Rightarrow> bool" where
  "edge_dict d es =
     (distinct (map fst d) \<and>
      (\<forall>k e. map_of d k = Some e \<longrightarrow> e \<in> set es \<and> k = (edge_person e, edge_center e)) \<and>
      (\<forall>e \<in> set es. \<exists>e'. map_of d (edge_person e, edge_center e) = Some e' \<and> edge_weight e' \<le> edge_weight e))"

lemma edge_dict_keep:
  assumes "edge_dict d es"
  shows "edge_dict (keep_cheaper d e) (es @ [e])"
proof (cases "map_of d (edge_person e, edge_center e)")
  case None
  then show ?thesis using assms
    by (fastforce simp: edge_dict_def keep_cheaper_def Let_def update_conv' distinct_update)
next
  case (Some c)
  show ?thesis
  proof (cases "edge_weight e < edge_weight c")
    case True
    then show ?thesis using assms Some
      by (fastforce simp: edge_dict_def keep_cheaper_def Let_def update_conv' distinct_update)
  next
    case False
    then show ?thesis using assms Some
      by (auto simp: edge_dict_def keep_cheaper_def Let_def)
  qed
qed

lemma edge_dict_foldl: "edge_dict (foldl keep_cheaper [] es) es"
  by (induction es rule: rev_induct) (simp_all add: edge_dict_keep, simp add: edge_dict_def)

lemma best_edges_facts:
  shows "e \<in> set (best_edges people names cands) \<Longrightarrow>
      e \<in> set cands \<and> edge_person e \<in> set people \<and> edge_center e \<in> set names"
    and "e \<in> set cands \<Longrightarrow> edge_person e \<in> set people \<Longrightarrow> edge_center e \<in> set names \<Longrightarrow>
      \<exists>e' \<in> set (best_edges people names cands). edge_person e' = edge_person e \<and>
        edge_center e' = edge_center e \<and> edge_weight e' \<le> edge_weight e"
proof -
  define es where "es = filter (\<lambda>e. edge_person e \<in> set people \<and> edge_center e \<in> set names)
    (sort_key (\<lambda>e. (lower (edge_person e), lower (edge_center e), override_cost e, max 0 (edge_rank_cost e))) cands)"
  define d where "d = foldl keep_cheaper [] es"
  have best: "best_edges people names cands = map snd d"
    by (simp add: best_edges_def d_def es_def)
  have dict: "edge_dict d es" unfolding d_def by (rule edge_dict_foldl)
  have es: "set es = {e \<in> set cands. edge_person e \<in> set people \<and> edge_center e \<in> set names}"
    by (auto simp: es_def)
  show "e \<in> set cands \<and> edge_person e \<in> set people \<and> edge_center e \<in> set names"
    if e: "e \<in> set (best_edges people names cands)"
  proof -
    obtain k where k: "(k, e) \<in> set d" using e unfolding best by auto
    have "map_of d k = Some e" using dict k by (simp add: edge_dict_def)
    then have "e \<in> set es" using dict unfolding edge_dict_def by blast
    then show ?thesis by (simp add: es)
  qed
  assume "e \<in> set cands" "edge_person e \<in> set people" "edge_center e \<in> set names"
  then have "e \<in> set es" by (simp add: es)
  then obtain e' where e': "map_of d (edge_person e, edge_center e) = Some e'" "edge_weight e' \<le> edge_weight e"
    using dict unfolding edge_dict_def by blast
  have "e' \<in> set (best_edges people names cands)" using map_of_SomeD [OF e'(1)] unfolding best by force
  moreover have "(edge_person e, edge_center e) = (edge_person e', edge_center e')"
    using dict e'(1) unfolding edge_dict_def by blast
  ultimately show "\<exists>e' \<in> set (best_edges people names cands). edge_person e' = edge_person e \<and>
        edge_center e' = edge_center e \<and> edge_weight e' \<le> edge_weight e"
    using e'(2) by auto
qed

section \<open>Two exits for each center\<close>

definition paired_exits :: "nat \<Rightarrow> (nat \<Rightarrow> int) \<Rightarrow> (nat \<Rightarrow> int) \<Rightarrow> int \<Rightarrow> exit_spec list" where
  "paired_exits n a b r = concat (map (\<lambda>j. [(j, a j, - r), (j, b j, 0)]) [0..<n])"

lemma length_paired [simp]: "length (paired_exits n a b r) = 2 * n"
  by (induction n) (simp_all add: paired_exits_def)

lemma paired_Suc: "paired_exits (Suc n) a b r = paired_exits n a b r @ [(n, a n, - r), (n, b n, 0)]"
  by (simp add: paired_exits_def)

lemma nth_paired:
  "j < n \<Longrightarrow> paired_exits n a b r ! (2 * j) = (j, a j, - r)"
  "j < n \<Longrightarrow> paired_exits n a b r ! Suc (2 * j) = (j, b j, 0)"
  by (induction n) (auto simp: paired_Suc nth_append less_Suc_eq)

lemma sum_pairs: "(\<Sum>k < 2 * n. F k) = (\<Sum>j < n. F (2 * j) + F (Suc (2 * j)) :: int)"
  by (induction n) simp_all

lemma all_pairs: "(\<forall>k < 2 * n. P k) \<longleftrightarrow> (\<forall>j < n. P (2 * j) \<and> P (Suc (2 * j)))"
proof
  assume *: "\<forall>j < n. P (2 * j) \<and> P (Suc (2 * j))"
  show "\<forall>k < 2 * n. P k"
  proof (intro allI impI)
    fix k assume "k < 2 * n"
    then have "k div 2 < n" "k = 2 * (k div 2) \<or> k = Suc (2 * (k div 2))" by auto
    then show "P k" using * by metis
  qed
qed auto

lemma exit_load_paired: "j < n \<Longrightarrow> exit_load (paired_exits n a b r) z j = z (2 * j) + z (Suc (2 * j))"
  by (simp add: exit_load_def sum_pairs nth_paired sum.distrib sum.delta cong: if_cong)

lemma cost_paired:
  "assignment_cost es (paired_exits n a b r) f z =
     (\<Sum>k < length es. f k * snd (snd (es ! k))) - r * (\<Sum>j < n. z (2 * j))"
proof -
  have "(\<Sum>k < 2 * n. z k * snd (snd (paired_exits n a b r ! k))) = (\<Sum>j < n. - (r * z (2 * j)))"
    unfolding sum_pairs by (rule sum.cong [OF refl]) (simp add: nth_paired)
  then show ?thesis by (simp add: assignment_cost_def sum_negf sum_distrib_left)
qed

section \<open>Placements\<close>

text \<open>
  A placement uses every person at most once and at most \<open>a j + b j\<close> people at center \<open>j\<close>;
  \<open>filled\<close> counts the required slots it fills.
\<close>

definition placement :: "string list \<Rightarrow> (nat \<Rightarrow> int) \<Rightarrow> candidate_edge list \<Rightarrow> candidate_edge list \<Rightarrow> bool" where
  "placement centers cap edges ms =
     (set ms \<subseteq> set edges \<and> distinct (map edge_person ms) \<and>
      (\<forall>j < length centers. center_count (centers ! j) ms \<le> cap j))"

definition filled :: "string list \<Rightarrow> (nat \<Rightarrow> int) \<Rightarrow> candidate_edge list \<Rightarrow> int" where
  "filled centers need ms = (\<Sum>j < length centers. min (need j) (center_count (centers ! j) ms))"

lemma paired_assignment:
  assumes within: "edges_within people centers edges"
    and dp: "distinct people" and dc: "distinct centers"
    and f01: "\<forall>k < length edges. f k = 0 \<or> f k = 1"
    and sums: "\<And>g. (\<Sum>k < length edges. f k * g (edges ! k)) = (\<Sum>e \<leftarrow> ms. g e)"
    and sub: "set ms \<subseteq> set edges"
  shows "is_assignment (length people) (length centers) (map (edge_spec_of people centers cost) edges)
      (paired_exits (length centers) a b r) f z \<longleftrightarrow>
    distinct (map edge_person ms) \<and>
    (\<forall>j < length centers. z (2 * j) + z (Suc (2 * j)) = center_count (centers ! j) ms \<and>
       0 \<le> z (2 * j) \<and> z (2 * j) \<le> a j \<and> 0 \<le> z (Suc (2 * j)) \<and> z (Suc (2 * j)) \<le> b j)"
proof -
  let ?es = "map (edge_spec_of people centers cost) edges"
  have ms: "set (map edge_person ms) \<subseteq> set people" "set (map edge_center ms) \<subseteq> set centers"
    using within sub by (auto simp: edges_within_def)
  have pl: "person_load ?es f i = person_count (people ! i) ms" if "i < length people" for i
    unfolding person_load_names person_count_def sums [of "\<lambda>e. if dict_index people (edge_person e) = i then 1 else 0"]
    by (rule index_count [OF ms(1) dp that])
  have cl: "center_load ?es f j = center_count (centers ! j) ms" if "j < length centers" for j
    unfolding center_load_names center_count_def sums [of "\<lambda>e. if dict_index centers (edge_center e) = j then 1 else 0"]
    by (rule index_count [OF ms(2) dc that])
  have p: "(\<forall>i < length people. person_load ?es f i \<le> 1) \<longleftrightarrow> distinct (map edge_person ms)"
    unfolding distinct_people_iff using pl ms(1) person_count_absent [of _ ms]
    by (metis in_set_conv_nth subsetD zero_le_one)
  show ?thesis
    using f01 p cl by (auto simp: is_assignment_def all_pairs nth_paired exit_load_paired)
qed

text \<open>The optimal placement: most people, then most required slots, then cheapest.\<close>

lemma optimal_placement:
  assumes within: "edges_within people centers edges"
    and dp: "distinct people" and dc: "distinct centers" and r: "0 < r"
    and ab: "\<forall>j < length centers. 0 \<le> a j \<and> 0 \<le> b j"
    and opt: "optimal_assignment (length people) (length centers)
      (map (edge_spec_of people centers cost) edges) (paired_exits (length centers) a b r) f z"
  shows "placement centers (\<lambda>j. a j + b j) edges (chosen edges f)"
    and "(\<Sum>j < length centers. z (2 * j)) = filled centers a (chosen edges f)"
    and "placement centers (\<lambda>j. a j + b j) edges ms \<Longrightarrow> length ms \<le> length (chosen edges f) \<and>
      (length ms = length (chosen edges f) \<longrightarrow>
        (\<Sum>e \<leftarrow> chosen edges f. cost e) - r * filled centers a (chosen edges f) \<le>
        (\<Sum>e \<leftarrow> ms. cost e) - r * filled centers a ms)"
proof -
  let ?es = "map (edge_spec_of people centers cost) edges" and ?zs = "paired_exits (length centers) a b r"
  let ?n = "length centers"
  have asg: "is_assignment (length people) ?n ?es ?zs f z"
    and best: "\<And>f' z'. is_assignment (length people) ?n ?es ?zs f' z' \<Longrightarrow>
         (\<Sum>k < length ?es. f' k) \<le> (\<Sum>k < length ?es. f k) \<and>
         ((\<Sum>k < length ?es. f' k) = (\<Sum>k < length ?es. f k) \<longrightarrow>
            assignment_cost ?es ?zs f z \<le> assignment_cost ?es ?zs f' z')"
    using opt by (simp_all add: optimal_assignment_def)
  have f01: "\<forall>k < length edges. f k = 0 \<or> f k = 1"
    using asg by (auto simp: is_assignment_def intro!: zero_one)
  note sums = chosen_sum [OF f01]
  have cost: "assignment_cost ?es ?zs f' z' = (\<Sum>e \<leftarrow> ms'. cost e) - r * (\<Sum>j < ?n. z' (2 * j))"
    if "\<And>g. (\<Sum>k < length edges. f' k * g (edges ! k)) = (\<Sum>e \<leftarrow> ms'. g e)" for f' z' ms'
    using that [of cost] by (simp add: cost_paired edge_spec_of_def)
  have asg_iff: "distinct (map edge_person (chosen edges f)) \<and>
    (\<forall>j < ?n. z (2 * j) + z (Suc (2 * j)) = center_count (centers ! j) (chosen edges f) \<and>
       0 \<le> z (2 * j) \<and> z (2 * j) \<le> a j \<and> 0 \<le> z (Suc (2 * j)) \<and> z (Suc (2 * j)) \<le> b j)"
    using asg unfolding paired_assignment [OF within dp dc f01 sums set_chosen] .
  then show pl: "placement centers (\<lambda>j. a j + b j) edges (chosen edges f)"
    using set_chosen [of edges f] by (fastforce simp: placement_def)
  have fill: "is_assignment (length people) ?n ?es ?zs f'
      (\<lambda>k. if even k then min (a (k div 2)) (center_count (centers ! (k div 2)) ms')
           else center_count (centers ! (k div 2)) ms' - min (a (k div 2)) (center_count (centers ! (k div 2)) ms'))"
    if "placement centers (\<lambda>j. a j + b j) edges ms'" "\<forall>k < length edges. f' k = 0 \<or> f' k = 1"
      "\<And>g. (\<Sum>k < length edges. f' k * g (edges ! k)) = (\<Sum>e \<leftarrow> ms'. g e)" for f' ms'
    using that ab center_count_nonneg [of _ ms']
    by (subst paired_assignment [OF within dp dc that(2,3)]) (auto simp: placement_def min_def)
  have filled: "(\<Sum>j < ?n. (\<lambda>k. if even k then min (a (k div 2)) (center_count (centers ! (k div 2)) ms')
           else center_count (centers ! (k div 2)) ms' - min (a (k div 2)) (center_count (centers ! (k div 2)) ms')) (2 * j))
       = filled centers a ms'" for ms'
    by (simp add: filled_def)
  have upper: "(\<Sum>j < ?n. z (2 * j)) \<le> filled centers a (chosen edges f)"
    unfolding filled_def by (rule sum_mono) (use asg_iff in \<open>fastforce\<close>)
  from best [OF fill [OF pl f01 sums]]
  have "r * filled centers a (chosen edges f) \<le> r * (\<Sum>j < ?n. z (2 * j))"
    by (simp add: cost [OF sums] filled_def del: mult_le_cancel_left)
  then show z: "(\<Sum>j < ?n. z (2 * j)) = filled centers a (chosen edges f)"
    using upper r by simp
  show "length ms \<le> length (chosen edges f) \<and>
      (length ms = length (chosen edges f) \<longrightarrow>
        (\<Sum>e \<leftarrow> chosen edges f. cost e) - r * filled centers a (chosen edges f) \<le>
        (\<Sum>e \<leftarrow> ms. cost e) - r * filled centers a ms)"
    if ms: "placement centers (\<lambda>j. a j + b j) edges ms"
  proof -
    have "set ms \<subseteq> set edges" "distinct ms"
      using ms by (auto simp: placement_def distinct_map)
    then obtain f' where f': "\<forall>k < length edges. f' k = 0 \<or> f' k = 1"
        and sums': "\<And>g. (\<Sum>k < length edges. f' k * g (edges ! k)) = (\<Sum>e \<leftarrow> ms. g e :: int)"
      using choice_as_flow by blast
    from best [OF fill [OF ms f' sums']] show ?thesis
      using sums [of "\<lambda>_. 1"] sums' [of "\<lambda>_. 1"]
      by (simp add: cost [OF sums] cost [OF sums'] z sum_list_triv filled_def [of _ _ ms] del: mult_le_cancel_left)
  qed
qed

section \<open>The cost digits\<close>

lemma complete_tie_bounds:
  assumes within: "edges_within people centers edges" and e: "e \<in> set edges"
  shows "0 \<le> complete_tie_cost people centers e"
    and "complete_tie_cost people centers e \<le> max 1 (int (length people) * max 1 (int (length centers)) + 1)"
proof -
  let ?np = "int (length people)" and ?nc = "int (length centers)"
  have p: "int (dict_index people (edge_person e)) < ?np" and c: "int (dict_index centers (edge_center e)) + 1 \<le> ?nc"
    using within e dict_index_bound by (fastforce simp: edges_within_def)+
  then have np: "max 1 ?np = ?np" and nc: "max 1 ?nc = ?nc" by linarith+
  show "0 \<le> complete_tie_cost people centers e" by (simp add: complete_tie_cost_def)
  have "(int (dict_index centers (edge_center e)) + 1) * ?np \<le> ?nc * ?np"
    by (rule mult_right_mono [OF c]) simp
  then show "complete_tie_cost people centers e \<le> max 1 (?np * max 1 ?nc + 1)"
    using p by (simp add: complete_tie_cost_def np nc algebra_simps)
qed

lemma complete_cost_nonneg:
  assumes "edges_within people centers edges" and "e \<in> set edges"
  shows "0 \<le> complete_cost edges people centers e"
proof -
  have "0 \<le> complete_ordinary_bound edges"
    unfolding complete_ordinary_bound_def
    using sum_list_nonneg_int [of edges "\<lambda>e. max 0 (edge_rank_cost e) + override_cost e"]
    by (simp add: override_cost_def)
  then have "0 \<le> single_primary_cost (complete_ordinary_bound edges) e"
    by (simp add: single_primary_cost_def override_cost_def)
  moreover have "0 \<le> complete_tie_scale (length people) (length centers)"
    by (simp add: complete_tie_scale_def)
  ultimately show ?thesis
    unfolding complete_cost_def using complete_tie_bounds(1) [OF assms] by simp
qed

lemma distinct_subset_length:
  "distinct xs \<Longrightarrow> set xs \<subseteq> set ys \<Longrightarrow> length xs \<le> length ys"
  by (metis List.finite_set card_length card_mono distinct_card le_trans)

lemma placement_facts:
  assumes "placement centers cap edges ms" and "edges_within people centers edges"
  shows "distinct ms" and "set ms \<subseteq> set edges" and "length ms \<le> length people"
proof -
  show "distinct ms" and sub: "set ms \<subseteq> set edges"
    using assms(1) by (auto simp: placement_def distinct_map)
  have "distinct (map edge_person ms)" using assms(1) by (simp add: placement_def)
  moreover have "set (map edge_person ms) \<subseteq> set people"
    using sub assms(2) by (auto simp: edges_within_def)
  ultimately show "length ms \<le> length people"
    using distinct_subset_length by fastforce
qed

lemma complete_cost_sum:
  "(\<Sum>e \<leftarrow> ms. complete_cost edges people centers e) =
     (edge_overrides ms * complete_ordinary_bound edges + edge_ranks ms)
       * complete_tie_scale (length people) (length centers) + (\<Sum>e \<leftarrow> ms. complete_tie_cost people centers e)"
  unfolding edge_overrides_def edge_ranks_def
  by (induction ms) (simp_all add: complete_cost_def single_primary_cost_def algebra_simps)

lemma complete_cost_order:
  assumes within: "edges_within people centers edges"
    and ms: "placement centers cap edges ms" and ms': "placement centers cap edges ms'"
    and le: "(\<Sum>e \<leftarrow> ms. complete_cost edges people centers e) \<le> (\<Sum>e \<leftarrow> ms'. complete_cost edges people centers e)"
  shows "(edge_overrides ms, edge_ranks ms) \<le> (edge_overrides ms', edge_ranks ms')"
proof -
  let ?T = "complete_tie_scale (length people) (length centers)" and ?B = "complete_ordinary_bound edges"
  let ?W = "max 1 (int (length people) * max 1 (int (length centers)) + 1)"
  let ?tie = "\<lambda>ms. \<Sum>e \<leftarrow> ms. complete_tie_cost people centers e"
  have tie: "0 \<le> ?tie ms \<and> ?tie ms < ?T" if m: "placement centers cap edges ms" for ms
  proof -
    note facts = placement_facts [OF m within]
    have b: "0 \<le> complete_tie_cost people centers e \<and> complete_tie_cost people centers e \<le> ?W" if "e \<in> set ms" for e
      using complete_tie_bounds [OF within, of e] facts(2) that by blast
    have "?tie ms \<le> (\<Sum>e \<leftarrow> ms. ?W)" by (rule sum_list_mono_int) (use b in blast)
    also have "\<dots> = int (length ms) * ?W" by (simp only: sum_list_triv of_nat_id)
    also have "\<dots> \<le> int (length people) * ?W" by (rule mult_right_mono) (use facts(3) in auto)
    also have "\<dots> < ?T"
    proof -
      have "?T = ?W * int (length people) + ?W"
        unfolding complete_tie_scale_def by (simp only: distrib_left mult_1_right)
      moreover have "1 \<le> ?W" by (rule max.cobounded1)
      ultimately show ?thesis by (simp only: mult.commute)
    qed
    finally show ?thesis using sum_list_nonneg_int [of ms] b by blast
  qed
  have rank: "0 \<le> edge_ranks ms \<and> edge_ranks ms < ?B" if m: "placement centers cap edges ms" for ms
  proof -
    note facts = placement_facts [OF m within]
    have "edge_ranks ms \<le> (\<Sum>e \<leftarrow> edges. max 0 (edge_rank_cost e))"
      unfolding edge_ranks_def by (rule sum_list_distinct_subset [OF facts(1,2)]) simp
    also have "\<dots> \<le> (\<Sum>e \<leftarrow> edges. max 0 (edge_rank_cost e) + override_cost e)"
      by (rule sum_list_mono_int) (simp add: override_cost_def)
    finally show ?thesis
      using sum_list_nonneg_int [of ms "\<lambda>e. max 0 (edge_rank_cost e)"]
      by (simp add: complete_ordinary_bound_def edge_ranks_def)
  qed
  have "edge_overrides ms * ?B + edge_ranks ms \<le> edge_overrides ms' * ?B + edge_ranks ms'"
    using digits_le [OF le [unfolded complete_cost_sum]] tie [OF ms] tie [OF ms'] by fastforce
  from digits_le [OF this] show ?thesis
    using rank [OF ms] rank [OF ms'] by (auto simp: less_eq_prod_def)
qed

lemma reward_order:
  assumes within: "edges_within people centers edges"
    and ms: "placement centers cap edges ms" and ms': "placement centers cap edges ms'"
    and le: "(\<Sum>e \<leftarrow> ms. complete_cost edges people centers e) - required_reward edges people centers * F \<le>
      (\<Sum>e \<leftarrow> ms'. complete_cost edges people centers e) - required_reward edges people centers * F'"
  shows "(- F, edge_overrides ms, edge_ranks ms) \<le> (- F', edge_overrides ms', edge_ranks ms')"
proof -
  let ?R = "required_reward edges people centers"
  let ?S = "\<Sum>e \<leftarrow> edges. \<bar>complete_cost edges people centers e\<bar>"
  let ?c = "\<lambda>ms. \<Sum>e \<leftarrow> ms. complete_cost edges people centers e"
  have S: "0 \<le> ?S" by (rule sum_list_nonneg_int) simp
  then have "?S < (1 + ?S) * 1" by simp
  also have "\<dots> \<le> ?R" unfolding required_reward_def by (rule mult_left_mono) (use S in auto)
  finally have R: "?S < ?R" .
  have c: "0 \<le> ?c ms \<and> ?c ms < ?R" if m: "placement centers cap edges ms" for ms
  proof -
    note facts = placement_facts [OF m within]
    have "?c ms \<le> (\<Sum>e \<leftarrow> ms. \<bar>complete_cost edges people centers e\<bar>)" by (rule sum_list_mono_int) simp
    also have "\<dots> \<le> ?S" by (rule sum_list_distinct_subset [OF facts(1,2)]) simp
    finally have "?c ms < ?R" using R by simp
    moreover have "0 \<le> ?c ms"
      by (rule sum_list_nonneg_int) (use complete_cost_nonneg [OF within] facts(2) in blast)
    ultimately show ?thesis by simp
  qed
  have "- F * ?R + ?c ms \<le> - F' * ?R + ?c ms'" using le by (simp add: algebra_simps)
  from digits_le [OF this] have "- F < - F' \<or> - F = - F' \<and> ?c ms \<le> ?c ms'"
    using c [OF ms] c [OF ms'] by simp
  then show ?thesis using complete_cost_order [OF within ms ms'] by (auto simp: less_eq_prod_def)
qed

section \<open>The attempt is the best placement\<close>

definition center_room :: "complete_center \<Rightarrow> int" where
  "center_room center =
     remaining_minimum center + max 0 (remaining_capacity center - remaining_minimum center)"

definition in_scope :: "string list \<Rightarrow> complete_center list \<Rightarrow> candidate_edge \<Rightarrow> bool" where
  "in_scope people centers e = (edge_person e \<in> set people \<and> edge_center e \<in> cc_center ` set centers)"

definition complete_placement ::
    "string list \<Rightarrow> complete_center list \<Rightarrow> candidate_edge list \<Rightarrow> candidate_edge list \<Rightarrow> bool" where
  "complete_placement people centers candidates ms =
     ((\<forall>e \<in> set ms. e \<in> set candidates \<and> in_scope people centers e) \<and> distinct (map edge_person ms) \<and>
      (\<forall>c \<in> set centers. center_count (cc_center c) ms \<le> center_room c))"

definition required_filled :: "complete_center list \<Rightarrow> candidate_edge list \<Rightarrow> int" where
  "required_filled centers ms =
     (\<Sum>c \<leftarrow> centers. min (remaining_minimum c) (center_count (cc_center c) ms))"

definition required_total :: "complete_center list \<Rightarrow> int" where
  "required_total centers = (\<Sum>c \<leftarrow> centers. remaining_minimum c)"

lemma sum_list_sort_key: "(\<Sum>x \<leftarrow> sort_key k xs. g x) = (\<Sum>x \<leftarrow> xs. g x :: int)"
proof -
  have "mset (map g (sort_key k xs)) = mset (map g xs)" by simp
  then show ?thesis by (metis sum_mset_sum_list)
qed

text \<open>Replacing every edge by the kept edge of the same person and center never costs more.\<close>

lemma cheaper_placement:
  assumes ms: "complete_placement people centers candidates ms"
    and set: "set people' = set people" "set names = cc_center ` set centers"
  shows "\<exists>ms'. set ms' \<subseteq> set (best_edges people' names candidates) \<and>
    map edge_person ms' = map edge_person ms \<and> map edge_center ms' = map edge_center ms \<and>
    (edge_overrides ms', edge_ranks ms') \<le> (edge_overrides ms, edge_ranks ms)"
proof -
  have "\<forall>e \<in> set ms. \<exists>e' \<in> set (best_edges people' names candidates). edge_person e' = edge_person e \<and>
      edge_center e' = edge_center e \<and> edge_weight e' \<le> edge_weight e"
    using ms set best_edges_facts(2) [of _ candidates people' names]
    unfolding complete_placement_def in_scope_def by blast
  then show ?thesis
  proof (induction ms)
    case (Cons e ms)
    then obtain e' ms' where e': "e' \<in> set (best_edges people' names candidates)" "edge_person e' = edge_person e"
        "edge_center e' = edge_center e" "edge_weight e' \<le> edge_weight e"
      and ms': "set ms' \<subseteq> set (best_edges people' names candidates)"
        "map edge_person ms' = map edge_person ms" "map edge_center ms' = map edge_center ms"
        "(edge_overrides ms', edge_ranks ms') \<le> (edge_overrides ms, edge_ranks ms)" by force
    have "(edge_overrides (e' # ms'), edge_ranks (e' # ms')) \<le> (edge_overrides (e # ms), edge_ranks (e # ms))"
      using e'(4) ms'(4) by (auto simp: edge_overrides_def edge_ranks_def edge_weight_def less_eq_prod_def)
    then show ?case using e' ms' by (intro exI [of _ "e' # ms'"]) auto
  qed auto
qed

lemma center_count_names: "map edge_center ms = map edge_center ms' \<Longrightarrow> center_count c ms = center_count c ms'"
proof -
  assume *: "map edge_center ms = map edge_center ms'"
  have "center_count c ms = (\<Sum>x \<leftarrow> map edge_center ms. if x = c then 1 else 0)" for ms
    by (simp add: center_count_def comp_def)
  then show ?thesis by (simp only: *)
qed

lemma flow_exit_arcs:
  assumes dist: "distinct (map cc_center cs)" and centers: "centers = map cc_center cs"
  shows "concat (map (\<lambda>center. let node = center_node people centers (cc_center center)
           in [(node, 1 + length people + length centers, A center, - r),
               (node, 1 + length people + length centers, B center, 0)]) cs) =
    exit_arcs (length people) (length centers)
      (paired_exits (length centers) (\<lambda>j. A (cs ! j)) (\<lambda>j. B (cs ! j)) r)"
proof -
  let ?n = "length cs" and ?t = "1 + length people + length centers"
  let ?f = "\<lambda>center. let node = center_node people centers (cc_center center)
           in [(node, ?t, A center, - r), (node, ?t, B center, 0)]"
  have node: "center_node people centers (cc_center (cs ! j)) = 1 + length people + j" if "j < ?n" for j
    using that dict_index_of_nth [OF dist, of j] by (simp add: center_node_def centers)
  have "concat (map ?f cs) = concat (map (\<lambda>j. ?f (cs ! j)) [0..<?n])"
    by (rule arg_cong [where f = concat]) (rule nth_equalityI, simp_all)
  also have "\<dots> = concat (map (\<lambda>j. [(1 + length people + j, ?t, A (cs ! j), - r),
      (1 + length people + j, ?t, B (cs ! j), 0)]) [0..<?n])"
    by (intro arg_cong [where f = concat] map_cong refl) (simp add: node)
  also have "\<dots> = exit_arcs (length people) (length centers)
      (paired_exits (length centers) (\<lambda>j. A (cs ! j)) (\<lambda>j. B (cs ! j)) r)"
    by (simp add: exit_arcs_def paired_exits_def map_concat comp_def centers)
  finally show ?thesis .
qed

lemma placement_complete:
  assumes centers: "centers = map cc_center ordered" and cs: "set ordered = set centers0"
    and people: "set people = set people0" and edges: "edges = best_edges people centers candidates"
    and cap: "\<forall>j < length ordered. cap j = center_room (ordered ! j)"
  shows "placement centers cap edges ms \<Longrightarrow> complete_placement people0 centers0 candidates ms"
    and "complete_placement people0 centers0 candidates ms \<Longrightarrow>
      \<exists>ms'. placement centers cap edges ms' \<and> length ms' = length ms \<and>
        required_filled centers0 ms' = required_filled centers0 ms \<and>
        (edge_overrides ms', edge_ranks ms') \<le> (edge_overrides ms, edge_ranks ms)"
proof -
  have names: "set centers = cc_center ` set centers0" by (simp add: centers cs)
  have rooms: "(\<forall>j < length centers. center_count (centers ! j) ms \<le> cap j) \<longleftrightarrow>
      (\<forall>c \<in> set centers0. center_count (cc_center c) ms \<le> center_room c)" for ms
    unfolding cs [symmetric] all_set_conv_all_nth using cap by (simp add: centers)
  show "complete_placement people0 centers0 candidates ms" if pl: "placement centers cap edges ms"
  proof -
    have "e \<in> set candidates \<and> in_scope people0 centers0 e" if "e \<in> set ms" for e
      using pl that best_edges_facts(1) [of e people centers candidates]
      by (auto simp: placement_def edges in_scope_def people names)
    then show ?thesis using pl rooms by (simp add: placement_def complete_placement_def)
  qed
  assume ms: "complete_placement people0 centers0 candidates ms"
  from cheaper_placement [OF ms people names] obtain ms' where
    ms': "set ms' \<subseteq> set edges" "map edge_person ms' = map edge_person ms" "map edge_center ms' = map edge_center ms"
      "(edge_overrides ms', edge_ranks ms') \<le> (edge_overrides ms, edge_ranks ms)"
    unfolding edges by blast
  note count = center_count_names [OF ms'(3)]
  have "placement centers cap edges ms'"
    using ms ms'(1,2) rooms [of ms] by (simp add: placement_def complete_placement_def count)
  then show "\<exists>ms'. placement centers cap edges ms' \<and> length ms' = length ms \<and>
        required_filled centers0 ms' = required_filled centers0 ms \<and>
        (edge_overrides ms', edge_ranks ms') \<le> (edge_overrides ms, edge_ranks ms)"
    using ms'(2,4) by (intro exI [of _ ms']) (auto simp: required_filled_def count dest: map_eq_imp_length_eq)
qed

lemma index_sum: "(\<Sum>j < length xs. G (xs ! j)) = (\<Sum>x \<leftarrow> xs. G x :: int)"
  by (simp add: sum_list_sum_nth atLeast0LessThan)

theorem complete_flow_chooses:
  assumes people: "distinct people0" and names: "distinct (map cc_center centers0)"
  shows "\<exists>a ms. complete_flow_attempt people0 centers0 candidates = Some a \<and>
    complete_placement people0 centers0 candidates ms \<and>
    att_decisions a = sort_decisions (map decision ms) \<and>
    att_placed_people a = sort_key lower (map dec_person (att_decisions a)) \<and>
    att_staffed_centers a = sort_key lower (map cc_center
      (filter (\<lambda>c. int (length (cc_protected_people c)) + count_center (att_decisions a) (cc_center c) \<ge> cc_minimum c)
        (sort_key (\<lambda>item. lower (cc_center item)) centers0))) \<and>
    att_unsatisfied_slots a = required_total centers0 - required_filled centers0 ms \<and>
    att_all_people_placed a = (length ms = length people0) \<and>
    (\<forall>ms'. complete_placement people0 centers0 candidates ms' \<longrightarrow> length ms' \<le> length ms \<and>
       (length ms' = length ms \<longrightarrow>
         (- required_filled centers0 ms, edge_overrides ms, edge_ranks ms) \<le>
         (- required_filled centers0 ms', edge_overrides ms', edge_ranks ms')))"
proof -
  define people where "people = sort_key lower people0"
  define ordered where "ordered = sort_key (\<lambda>item. lower (cc_center item)) centers0"
  define centers where "centers = map cc_center ordered"
  define edges where "edges = best_edges people centers candidates"
  define cost where "cost = complete_cost edges people centers"
  define r where "r = required_reward edges people centers"
  define a where "a j = remaining_minimum (ordered ! j)" for j
  define b where "b j = max 0 (remaining_capacity (ordered ! j) - remaining_minimum (ordered ! j))" for j
  let ?np = "length people" and ?nc = "length centers"
  let ?es = "map (edge_spec_of people centers cost) edges" and ?zs = "paired_exits ?nc a b r"
  let ?A = "person_arcs ?np" and ?Z = "exit_arcs ?np ?nc ?zs" and ?E = "edge_arcs ?np ?es"
  have sets: "set people = set people0" "set centers = cc_center ` set centers0" "set ordered = set centers0"
    by (simp_all add: people_def centers_def ordered_def)
  have dp: "distinct people" using people by (simp add: people_def)
  have dc: "distinct centers"
    using names distinct_map_mset [of ordered centers0 cc_center] by (simp add: centers_def ordered_def)
  have within: "edges_within people centers edges"
    using best_edges_facts(1) unfolding edges_within_def edges_def by blast
  have net: "in_network ?np ?nc ?es ?zs"
    using within by (auto simp: in_network_def edges_within_def edge_spec_of_def paired_exits_def
        dict_index_bound a_def b_def remaining_minimum_def)
  define n where "n = ?np + ?nc + 2"
  define specs where "specs = ?A @ ?E @ ?Z"
  have lay: "layered ?np ?nc ?es ?zs specs ?np (?np + length edges)" by (simp add: layered_def specs_def)
  define f where "f h k = spec_flow h specs (built_slots n specs) (?np + k)" for h k
  define z where "z h k = spec_flow h specs (built_slots n specs) (?np + length edges + k)" for h k
  obtain h where h: "flow_loop 0 (Suc (?np + ?nc)) (built n specs) = Some h"
    and opt: "optimal_assignment ?np ?nc ?es ?zs (f h) (z h)"
    using layered_optimal [OF lay net] unfolding n_def f_def z_def Let_def by blast
  define ms where "ms = chosen edges (f h)"
  define g1 where "g1 = fst (add_arcs (empty_graph n) ?A)"
  define g2 where "g2 = fst (add_arcs g1 ?E)"
  define idx where "idx = snd (add_arcs g1 ?E)"
  define exits where "exits = snd (add_arcs g2 ?Z)"
  define starts where "starts = map (\<lambda>edge. person_node people (edge_person edge)) edges"
  have built: "fst (add_arcs g2 ?Z) = built n specs"
    by (simp add: built_def add_arcs_append case_prod_beta Let_def g1_def g2_def specs_def)
  have len: "length idx = length edges" "length starts = length edges" "length exits = 2 * ?nc"
    by (simp_all add: idx_def add_arcs_indices starts_def exits_def)
  have free: "arc_capacity (h ! (starts ! k) ! (idx ! k)) = 0 \<longleftrightarrow> f h k = 1" if k: "k < length edges" for k
  proof -
    have spec: "specs ! (?np + k) = ?E ! k" using k by (simp add: nth_append specs_def)
    have slot: "built_slots n specs ! (?np + k) = slots g1 ?E ! k"
      using k by (simp add: slots_append nth_append specs_def g1_def)
    have edge: "?E ! k = (starts ! k, 1 + ?np + dict_index centers (edge_center (edges ! k)), 1, cost (edges ! k))"
      using k by (simp add: edge_arcs_def edge_spec_of_def person_node_def starts_def)
    have "idx ! k = fst (slots g1 ?E ! k)"
      using k by (simp only: idx_def add_arcs_indices nth_map length_slots length_arcs length_map)
    then have "f h k = 1 - arc_capacity (h ! (starts ! k) ! (idx ! k))"
      unfolding f_def spec_flow_def spec slot edge by simp
    then show ?thesis by simp
  qed
  have sel: "map snd (filter (\<lambda>x. arc_capacity (h ! fst (fst x) ! snd (fst x)) = 0) (zip (zip starts idx) edges)) = ms"
    using zip_filter_chosen [of "zip starts idx" edges "\<lambda>x. arc_capacity (h ! fst x ! snd x) = 0" "f h"]
      len free by (simp add: case_prod_unfold ms_def)
  note picked = chosen_decisions [of "\<lambda>s i. arc_capacity (h ! s ! i) = 0" starts idx edges, unfolded sel]
  have picked_length: "length (filter (\<lambda>x. arc_capacity (h ! fst x ! fst (snd x)) = 0) (zip starts (zip idx edges))) = length ms"
    using arg_cong [OF picked, of length] by simp
  have left: "arc_capacity (h ! (1 + ?np + j) ! (exits ! (2 * j))) = a j - z h (2 * j)" if j: "j < ?nc" for j
  proof -
    have k: "2 * j < length ?Z" using j by simp
    have spec: "specs ! (?np + length edges + 2 * j) = ?Z ! (2 * j)"
      by (simp add: nth_append specs_def)
    have slot: "built_slots n specs ! (?np + length edges + 2 * j) = slots g2 ?Z ! (2 * j)"
      by (simp add: slots_append nth_append specs_def g1_def g2_def)
    have exit: "?Z ! (2 * j) = (1 + ?np + j, 1 + ?np + ?nc, a j, - r)"
      using j k by (simp add: exit_arcs_def nth_paired)
    have "exits ! (2 * j) = fst (slots g2 ?Z ! (2 * j))"
      using k by (simp only: exits_def add_arcs_indices nth_map length_slots length_arcs)
    then show ?thesis unfolding z_def spec_flow_def spec slot exit by simp
  qed
  have r: "0 < r"
  proof -
    have "0 \<le> (\<Sum>edge \<leftarrow> edges. \<bar>complete_cost edges people centers edge\<bar>)"
      by (rule sum_list_nonneg_int) simp
    then show ?thesis unfolding r_def required_reward_def by (intro mult_pos_pos) auto
  qed
  have ab: "\<forall>j < ?nc. 0 \<le> a j \<and> 0 \<le> b j" by (simp add: a_def b_def remaining_minimum_def)
  note best = optimal_placement [OF within dp dc r ab opt, folded ms_def]
  have "\<forall>j < length ordered. a j + b j = center_room (ordered ! j)"
    by (simp add: a_def b_def center_room_def)
  note convert = placement_complete [OF centers_def sets(3) sets(1) edges_def this]
  have filled: "filled centers a m = required_filled centers0 m" for m
    using index_sum [of "\<lambda>c. min (remaining_minimum c) (center_count (cc_center c) m)" ordered]
    by (simp add: filled_def required_filled_def centers_def a_def ordered_def sum_list_sort_key)
  have total: "(\<Sum>j < ?nc. a j) = required_total centers0"
    using index_sum [of remaining_minimum ordered]
    by (simp add: required_total_def centers_def a_def ordered_def sum_list_sort_key)
  have least: "length ms' \<le> length ms \<and> (length ms' = length ms \<longrightarrow>
         (- required_filled centers0 ms, edge_overrides ms, edge_ranks ms) \<le>
         (- required_filled centers0 ms', edge_overrides ms', edge_ranks ms'))"
    if "complete_placement people0 centers0 candidates ms'" for ms'
  proof -
    from convert(2) [OF that] obtain m where m: "placement centers (\<lambda>j. a j + b j) edges m" "length m = length ms'"
      "required_filled centers0 m = required_filled centers0 ms'"
      "(edge_overrides m, edge_ranks m) \<le> (edge_overrides ms', edge_ranks ms')" by blast
    have "(- required_filled centers0 ms, edge_overrides ms, edge_ranks ms) \<le>
        (- required_filled centers0 m, edge_overrides m, edge_ranks m)" if "length ms' = length ms"
      using reward_order [OF within best(1) m(1)] best(3) [OF m(1)] that m(2)
      by (simp add: cost_def r_def filled)
    then show ?thesis using best(3) [OF m(1)] m(2-4) by (auto simp: less_eq_prod_def)
  qed
  have node: "center_node people centers (centers ! j) = 1 + ?np + j" if "j < ?nc" for j
    using dict_index_of_nth [OF dc that] by (simp add: center_node_def)
  have unsat: "(\<Sum>x \<leftarrow> zip centers (map (\<lambda>j. exits ! (2 * j)) [0..<?nc]).
      arc_capacity (h ! center_node people centers (fst x) ! snd x)) =
      required_total centers0 - required_filled centers0 ms"
  proof -
    have "(\<Sum>x \<leftarrow> zip centers (map (\<lambda>j. exits ! (2 * j)) [0..<?nc]).
      arc_capacity (h ! center_node people centers (fst x) ! snd x)) = (\<Sum>j < ?nc. a j - z h (2 * j))"
      unfolding index_sum [symmetric] by (rule sum.cong) (simp_all add: node left [simplified])
    then show ?thesis by (simp add: sum_subtractf total best(2) filled)
  qed
  have exit_list: "concat (map (\<lambda>center. let node = center_node people centers (cc_center center)
           in [(node, 1 + ?np + ?nc, remaining_minimum center, - r),
               (node, 1 + ?np + ?nc, max 0 (remaining_capacity center - remaining_minimum center), 0)]) ordered) = ?Z"
    unfolding a_def b_def using dc by (intro flow_exit_arcs) (simp_all add: centers_def)
  have edge_list: "map (\<lambda>edge. (person_node people (edge_person edge),
      center_node people centers (edge_center edge), 1, complete_cost edges people centers edge)) edges = ?E"
    by (simp add: single_edge_arcs cost_def)
  have size: "Suc (?np + ?nc) + 1 = n" and sink: "1 + ?np + ?nc = Suc (?np + ?nc)" by (simp_all add: n_def)
  have lens: "length ordered = ?nc" "length people = length people0" by (simp_all add: centers_def people_def)
  have "complete_flow_attempt people0 centers0 candidates = Some
    \<lparr>att_decisions = sort_decisions (map decision ms),
     att_placed_people = sort_key lower (map dec_person (sort_decisions (map decision ms))),
     att_staffed_centers = sort_key lower (map cc_center
      (filter (\<lambda>c. int (length (cc_protected_people c)) + count_center (sort_decisions (map decision ms)) (cc_center c)
         \<ge> cc_minimum c) ordered)),
     att_unsatisfied_slots = required_total centers0 - required_filled centers0 ms,
     att_all_people_placed = (length ms = length people0)\<rparr>"
    unfolding complete_flow_attempt_def Let_def case_prod_beta people_def [symmetric] ordered_def [symmetric]
      centers_def [symmetric] edges_def [symmetric] r_def [symmetric] size single_person_arcs [OF dp]
      edge_list exit_list [unfolded Let_def sink] starts_def [symmetric] g1_def [symmetric] idx_def [symmetric]
      g2_def [symmetric] exits_def [symmetric] built sink h
    using picked picked_length unsat lens by simp
  then show ?thesis using convert(1) [OF best(1)] least unfolding ordered_def
    by (intro exI conjI allI impI) (assumption | simp)+
qed

end
