(* ===== verification/Complete_Solver.thy ===== *)
theory Complete_Solver
  imports Complete_Flow Crew_Plans
begin

text \<open>
  \<open>schedule_solver.py\<close>, lines 638-948: the validation of a complete problem, the best-effort
  schedule and the all-or-nothing \<open>solve_complete_schedule\<close>, which tries every choice of crews and
  places the remaining people by \<open>complete_flow_attempt\<close>.
\<close>

section \<open>Validation\<close>

definition validate_member :: "complete_center \<Rightarrow> string set \<Rightarrow> candidate_edge \<Rightarrow> unit result" where
  "validate_member center requested member =
     rbind (guard_error (edge_center member \<noteq> cc_center center)
              (ValueError ''crew members must match their option center'')) (\<lambda>_.
     rbind (guard_error (edge_person member \<notin> requested)
              (ValueError ''crew option people must be requested'')) (\<lambda>_.
     guard_error (edge_level member \<notin> {1, 2, 3})
       (ValueError ''candidate and crew member levels must be 1, 2, or 3'')))"

definition validate_option :: "complete_center \<Rightarrow> string set \<Rightarrow> crew_option \<Rightarrow> unit result" where
  "validate_option center requested option =
     rbind (guard_error (crew_center option \<noteq> cc_center center)
              (ValueError ''crew options must be center-scoped'')) (\<lambda>_.
     rbind (guard_error (\<not> distinct (crew_people option))
              (ValueError ''crew option people must be unique'')) (\<lambda>_.
     rbind (guard_error (\<not> (remaining_minimum center \<le> int (length (crew_members option))
                            \<and> int (length (crew_members option)) \<le> remaining_capacity center))
              (ValueError ''crew option size must satisfy remaining center bounds'')) (\<lambda>_.
     rbind (guard_error (set (crew_people option) \<inter> set (cc_protected_people center) \<noteq> {})
              (ValueError ''crew options cannot include protected people'')) (\<lambda>_.
     check_each (validate_member center requested) (crew_members option)))))"

definition validate_center :: "string set \<Rightarrow> string set \<Rightarrow> complete_center \<Rightarrow> unit result" where
  "validate_center requested protected_seen center =
     rbind (guard_error (cc_minimum center < 0 \<or> cc_capacity center < 0)
              (ValueError ''center minimums and capacities must be nonnegative'')) (\<lambda>_.
     rbind (guard_error (cc_minimum center > cc_capacity center)
              (ValueError ''center minimum cannot exceed capacity'')) (\<lambda>_.
     rbind (guard_error (\<not> distinct (cc_protected_people center))
              (ValueError ''protected people must be unique within a center'')) (\<lambda>_.
     rbind (guard_error (protected_seen \<inter> set (cc_protected_people center) \<noteq> {})
              (ValueError ''a protected person cannot occupy multiple centers'')) (\<lambda>_.
     rbind (guard_error (int (length (cc_protected_people center)) > cc_capacity center)
              (ValueError ''protected people cannot exceed center capacity'')) (\<lambda>_.
     check_each (validate_option center requested) (cc_crew_options center))))))"

fun validate_centers :: "string set \<Rightarrow> string set \<Rightarrow> complete_center list \<Rightarrow> unit result" where
  "validate_centers requested protected_seen [] = Inr ()"
| "validate_centers requested protected_seen (center # centers) =
     rbind (validate_center requested protected_seen center) (\<lambda>_.
     validate_centers requested (protected_seen \<union> set (cc_protected_people center)) centers)"

definition validate_candidate :: "string set \<Rightarrow> string set \<Rightarrow> candidate_edge \<Rightarrow> unit result" where
  "validate_candidate requested known_centers edge =
     rbind (guard_error (edge_person edge \<notin> requested)
              (ValueError ''candidate people must be requested'')) (\<lambda>_.
     rbind (guard_error (edge_center edge \<notin> known_centers)
              (ValueError ''candidate centers must exist'')) (\<lambda>_.
     guard_error (edge_level edge \<notin> {1, 2, 3})
       (ValueError ''candidate and crew member levels must be 1, 2, or 3'')))"

definition validate_complete_problem ::
    "string list \<Rightarrow> complete_center list \<Rightarrow> candidate_edge list \<Rightarrow> unit result" where
  "validate_complete_problem people centers candidates =
     rbind (guard_error (\<not> distinct people) (ValueError ''requested people must be unique'')) (\<lambda>_.
     rbind (guard_error (\<not> distinct (map cc_center centers))
              (ValueError ''complete center names must be unique'')) (\<lambda>_.
     rbind (validate_centers (set people) {} centers) (\<lambda>_.
     check_each (validate_candidate (set people) (cc_center ` set centers)) candidates)))"

section \<open>Best effort\<close>

definition attempt_result ::
    "string list \<Rightarrow> complete_attempt \<Rightarrow> complete_schedule_result" where
  "attempt_result people attempt =
     \<lparr>csr_complete = att_all_people_placed attempt,
      csr_decisions = att_decisions attempt,
      csr_placed_people = att_placed_people attempt,
      csr_unplaced_people =
        filter (\<lambda>person. person \<notin> set (att_placed_people attempt)) (sort_key lower people),
      csr_staffed_centers = att_staffed_centers attempt,
      csr_issues = [],
      csr_total_cost = total_rank_cost (att_decisions attempt)\<rparr>"

definition best_effort_center :: "complete_center \<Rightarrow> unit result" where
  "best_effort_center center =
     rbind (guard_error (cc_crew_options center \<noteq> [])
              (ValueError ''best-effort centers must not carry crew options'')) (\<lambda>_.
     guard_error (cc_minimum center > cc_capacity center)
       (ValueError ''center minimum cannot exceed capacity''))"

definition solve_best_effort_schedule ::
    "string list \<Rightarrow> complete_center list \<Rightarrow> candidate_edge list \<Rightarrow> complete_schedule_result run" where
  "solve_best_effort_schedule people centers candidates =
     run_bind (Some (check_each best_effort_center centers)) (\<lambda>_.
     map_option (\<lambda>attempt. Inr (attempt_result people attempt))
       (complete_flow_attempt people centers candidates))"

section \<open>All or nothing\<close>

record complete_search =
  best_complete :: "complete_attempt option"
  best_diagnostic :: "complete_attempt option"

type_synonym attempt_key = "int \<times> int \<times> (string \<times> string) list"

definition complete_attempt_key :: "complete_attempt \<Rightarrow> attempt_key" where
  "complete_attempt_key attempt =
     (count_overrides (att_decisions attempt), total_rank_cost (att_decisions attempt),
      map decision_key (att_decisions attempt))"

definition diagnostic_key :: "complete_attempt \<Rightarrow> int \<times> int \<times> attempt_key" where
  "diagnostic_key attempt =
     (- int (length (att_placed_people attempt)), att_unsatisfied_slots attempt,
      complete_attempt_key attempt)"

text \<open>\<open>assigned_by_center\<close>: the counts of the crews, then one more for every decision of the flow.\<close>

definition count_up :: "(string \<rightharpoonup> int) \<Rightarrow> assignment_decision \<Rightarrow> (string \<rightharpoonup> int)" where
  "count_up counts d =
     counts(dec_center d \<mapsto> (case counts (dec_center d) of None \<Rightarrow> 0 | Some n \<Rightarrow> n) + 1)"

definition assigned_count :: "(string \<rightharpoonup> int) \<Rightarrow> string \<Rightarrow> int" where
  "assigned_count counts name = (case counts name of None \<Rightarrow> 0 | Some n \<Rightarrow> n)"

definition combine_attempt ::
    "string list \<Rightarrow> complete_center list \<Rightarrow> assignment_decision list \<Rightarrow> (string \<rightharpoonup> int) \<Rightarrow>
     complete_attempt \<Rightarrow> complete_attempt" where
  "combine_attempt ordered_people ordered_centers crews chosen_by_center flow =
     (let decisions = sort_decisions (crews @ att_decisions flow);
          placed = sort_key lower (map dec_person decisions);
          assigned = foldl count_up chosen_by_center (att_decisions flow);
          staffed = sort_key lower (map cc_center
            (filter (\<lambda>center. int (length (cc_protected_people center))
                       + assigned_count assigned (cc_center center) \<ge> cc_minimum center)
              ordered_centers));
          unsatisfied = (\<Sum>center \<leftarrow> ordered_centers.
            max 0 (cc_minimum center - int (length (cc_protected_people center))
                   - assigned_count assigned (cc_center center)))
      in \<lparr>att_decisions = decisions, att_placed_people = placed, att_staffed_centers = staffed,
          att_unsatisfied_slots = unsatisfied,
          att_all_people_placed = (length placed = length ordered_people)\<rparr>)"

definition keep_attempt :: "complete_attempt \<Rightarrow> complete_search \<Rightarrow> complete_search" where
  "keep_attempt attempt st =
     (let st = (if attempt_complete attempt \<and>
                   (case best_complete st of None \<Rightarrow> True
                    | Some b \<Rightarrow> complete_attempt_key attempt < complete_attempt_key b)
                then st\<lparr>best_complete := Some attempt\<rparr> else st)
      in if (case best_diagnostic st of None \<Rightarrow> True
             | Some b \<Rightarrow> diagnostic_key attempt < diagnostic_key b)
         then st\<lparr>best_diagnostic := Some attempt\<rparr> else st)"

definition consider_attempt ::
    "string list \<Rightarrow> complete_center list \<Rightarrow> candidate_edge list \<Rightarrow> assignment_decision list \<Rightarrow>
     (string \<rightharpoonup> int) \<Rightarrow> complete_search \<Rightarrow> complete_search run" where
  "consider_attempt ordered_people ordered_centers ordinary_candidates crews chosen_by_center st =
     (let crew_names = set (map dec_person crews);
          remaining_people = filter (\<lambda>person. person \<notin> crew_names) ordered_people;
          ordinary = filter (\<lambda>center. cc_crew_options center = []) ordered_centers
      in map_option
           (\<lambda>flow. Inr (keep_attempt
              (combine_attempt ordered_people ordered_centers crews chosen_by_center flow) st))
           (complete_flow_attempt remaining_people ordinary ordinary_candidates))"

text \<open>\<open>visit(index, ...)\<close>, with \<open>coupled[index:]\<close> in place of the index.\<close>

fun complete_visit ::
    "(assignment_decision list \<Rightarrow> (string \<rightharpoonup> int) \<Rightarrow> complete_search \<Rightarrow> complete_search run) \<Rightarrow>
     complete_center list \<Rightarrow> string set \<Rightarrow> assignment_decision list \<Rightarrow> (string \<rightharpoonup> int) \<Rightarrow>
     complete_search \<Rightarrow> complete_search run" where
  "complete_visit leaf [] used_people decisions chosen_by_center st = leaf decisions chosen_by_center st"
| "complete_visit leaf (center # rest) used_people decisions chosen_by_center st =
     run_bind
       (fold_run
         (\<lambda>option st.
            if set (crew_people option) \<inter> used_people \<noteq> {} then Some (Inr st)
            else complete_visit leaf rest (used_people \<union> set (crew_people option))
                   (decisions @ crew_decisions option)
                   (chosen_by_center(cc_center center \<mapsto> int (length (crew_members option)))) st)
         (sort_key option_key (cc_crew_options center)) st)
       (\<lambda>st. complete_visit leaf rest used_people decisions chosen_by_center st)"

definition coupled_centers :: "complete_center list \<Rightarrow> complete_center list" where
  "coupled_centers ordered_centers =
     sort_key (\<lambda>item. (length (cc_crew_options item), lower (cc_center item)))
       (filter (\<lambda>center. cc_crew_options center \<noteq> []) ordered_centers)"

text \<open>
  \<open>candidate_centers[person]\<close>: the centers of the candidate edges of a person and the coupled
  centers with a crew option that includes the person.
\<close>

definition person_centers ::
    "candidate_edge list \<Rightarrow> complete_center list \<Rightarrow> string \<Rightarrow> string list" where
  "person_centers candidates coupled person =
     sort_key lower (remdups
       (map edge_center (filter (\<lambda>edge. edge_person edge = person) candidates)
        @ map cc_center (filter (\<lambda>center. \<exists>option \<in> set (cc_crew_options center).
            person \<in> set (crew_people option)) coupled)))"

definition person_issue ::
    "candidate_edge list \<Rightarrow> complete_center list \<Rightarrow> string \<Rightarrow> placement_issue" where
  "person_issue candidates coupled person =
     (let centers = person_centers candidates coupled person
      in if centers = []
         then \<lparr>pi_code = ''person_no_enabled_qualified_center'',
               pi_message = person @ '' has no enabled work center they are qualified to run. ''
                            @ ''Previous schedule kept.'',
               pi_person = Some person, pi_centers = [], pi_rejections = []\<rparr>
         else \<lparr>pi_code = ''person_all_qualified_centers_full'',
               pi_message = ''Every enabled work center '' @ person @ '' is qualified for is full. ''
                            @ ''Previous schedule kept.'',
               pi_person = Some person, pi_centers = centers, pi_rejections = []\<rparr>)"

definition center_issue :: "complete_center \<Rightarrow> placement_issue" where
  "center_issue center =
     \<lparr>pi_code = (if cc_crew_options center \<noteq> [] then ''no_safe_complete_crew''
                 else ''center_minimum_unmet''),
      pi_message = cc_center center @ '' cannot be staffed safely to its minimum. ''
                   @ ''Previous schedule kept.'',
      pi_person = None, pi_centers = [cc_center center], pi_rejections = []\<rparr>"

definition empty_attempt :: complete_attempt where
  "empty_attempt = \<lparr>att_decisions = [], att_placed_people = [], att_staffed_centers = [],
     att_unsatisfied_slots = 0, att_all_people_placed = False\<rparr>"

definition complete_result ::
    "string list \<Rightarrow> complete_center list \<Rightarrow> candidate_edge list \<Rightarrow> complete_search \<Rightarrow>
     complete_schedule_result" where
  "complete_result ordered_people ordered_centers candidates st =
     (case best_complete st of
        Some b \<Rightarrow>
          \<lparr>csr_complete = True, csr_decisions = att_decisions b,
           csr_placed_people = att_placed_people b, csr_unplaced_people = [],
           csr_staffed_centers = att_staffed_centers b, csr_issues = [],
           csr_total_cost = total_rank_cost (att_decisions b)\<rparr>
      | None \<Rightarrow>
          (let diagnostic = (case best_diagnostic st of Some d \<Rightarrow> d | None \<Rightarrow> empty_attempt);
               unplaced = filter (\<lambda>person. person \<notin> set (att_placed_people diagnostic)) ordered_people;
               coupled = coupled_centers ordered_centers
           in \<lparr>csr_complete = False, csr_decisions = [],
               csr_placed_people = att_placed_people diagnostic,
               csr_unplaced_people = unplaced,
               csr_staffed_centers = att_staffed_centers diagnostic,
               csr_issues =
                 map (person_issue candidates coupled) unplaced
                 @ map center_issue
                     (filter (\<lambda>center. cc_center center \<notin> set (att_staffed_centers diagnostic))
                       ordered_centers),
               csr_total_cost = 0\<rparr>))"

definition solve_complete_schedule ::
    "string list \<Rightarrow> complete_center list \<Rightarrow> candidate_edge list \<Rightarrow> complete_schedule_result run" where
  "solve_complete_schedule people centers candidates =
     run_bind (Some (validate_complete_problem people centers candidates)) (\<lambda>_.
       let ordered_people = sort_key lower people;
           ordered_centers = sort_key (\<lambda>item. lower (cc_center item)) centers;
           coupled = coupled_centers ordered_centers;
           coupled_names = set (map cc_center coupled);
           ordinary_candidates = filter (\<lambda>edge. edge_center edge \<notin> coupled_names) candidates
       in run_bind
            (complete_visit (consider_attempt ordered_people ordered_centers ordinary_candidates)
               coupled {} [] (\<lambda>_. None) \<lparr>best_complete = None, best_diagnostic = None\<rparr>)
            (\<lambda>st. Some (Inr (complete_result ordered_people ordered_centers candidates st))))"

end
