(* ===== verification/Complete_Properties.thy ===== *)
theory Complete_Properties
  imports Complete_Solver
begin

text \<open>
  \<open>solve_complete_schedule\<close> is complete and sound: on a validated problem it returns, it places
  everybody exactly when a complete plan exists, with the fewest overrides and then the least cost,
  and otherwise it changes nothing and names at least one reason.
\<close>

section \<open>What the validation accepts\<close>

definition option_ok :: "complete_center \<Rightarrow> string set \<Rightarrow> crew_option \<Rightarrow> bool" where
  "option_ok center requested w =
     (crew_center w = cc_center center \<and> distinct (crew_people w) \<and>
      remaining_minimum center \<le> int (length (crew_members w)) \<and>
      int (length (crew_members w)) \<le> remaining_capacity center \<and>
      set (crew_people w) \<inter> set (cc_protected_people center) = {} \<and>
      (\<forall>m \<in> set (crew_members w). edge_center m = cc_center center \<and> edge_person m \<in> requested \<and>
         edge_level m \<in> {1, 2, 3}))"

definition center_ok :: "string set \<Rightarrow> complete_center \<Rightarrow> bool" where
  "center_ok requested center =
     (0 \<le> cc_minimum center \<and> cc_minimum center \<le> cc_capacity center \<and>
      int (length (cc_protected_people center)) \<le> cc_capacity center \<and>
      (\<forall>w \<in> set (cc_crew_options center). option_ok center requested w))"

definition complete_problem_ok :: "string list \<Rightarrow> complete_center list \<Rightarrow> candidate_edge list \<Rightarrow> bool" where
  "complete_problem_ok people centers candidates =
     (distinct people \<and> distinct (map cc_center centers) \<and>
      distinct (concat (map cc_protected_people centers)) \<and>
      (\<forall>c \<in> set centers. center_ok (set people) c) \<and>
      (\<forall>e \<in> set candidates. edge_person e \<in> set people \<and> edge_center e \<in> cc_center ` set centers \<and>
         edge_level e \<in> {1, 2, 3}))"

lemma validate_option_iff: "validate_option center requested w = Inr () \<longleftrightarrow> option_ok center requested w"
  by (auto simp: validate_option_def validate_member_def option_ok_def rbind_Inr_iff check_each_Inr)

lemma validate_center_iff:
  "validate_center requested seen center = Inr () \<longleftrightarrow>
     center_ok requested center \<and> distinct (cc_protected_people center) \<and>
     seen \<inter> set (cc_protected_people center) = {}"
  by (auto simp: validate_center_def center_ok_def rbind_Inr_iff check_each_Inr validate_option_iff)

lemma validate_centers_iff:
  "validate_centers requested seen centers = Inr () \<longleftrightarrow>
     (\<forall>c \<in> set centers. center_ok requested c) \<and> distinct (concat (map cc_protected_people centers)) \<and>
     seen \<inter> set (concat (map cc_protected_people centers)) = {}"
proof (induction centers arbitrary: seen)
  case (Cons c cs)
  show ?case
    by (simp add: rbind_Inr_iff validate_center_iff Cons.IH) blast
qed simp

lemma validate_complete_iff:
  "validate_complete_problem people centers candidates = Inr () \<longleftrightarrow>
     complete_problem_ok people centers candidates"
  by (auto simp: validate_complete_problem_def complete_problem_ok_def rbind_Inr_iff check_each_Inr
      validate_centers_iff validate_candidate_def)

section \<open>The walk over the crews is a loop over the crew plans\<close>

definition complete_pool :: "complete_center \<Rightarrow> crew_pool" where
  "complete_pool c = (cc_center c, sort_key option_key (cc_crew_options c))"

definition crew_counts :: "(string \<rightharpoonup> int) \<Rightarrow> crew_option list \<Rightarrow> (string \<rightharpoonup> int)" where
  "crew_counts counts ws =
     foldl (\<lambda>m w. m(crew_center w \<mapsto> int (length (crew_members w)))) counts ws"

lemma crew_counts_simps [simp]:
  "crew_counts counts [] = counts"
  "crew_counts counts (w # ws) = crew_counts (counts(crew_center w \<mapsto> int (length (crew_members w)))) ws"
  by (simp_all add: crew_counts_def)

lemma complete_visit_plans:
  assumes "\<forall>c \<in> set cs. \<forall>w \<in> set (cc_crew_options c). crew_center w = cc_center c"
  shows "complete_visit leaf cs used decs counts st =
    fold_run (\<lambda>ws st. leaf (decs @ plan_decisions ws) (crew_counts counts ws) st)
      (crew_plans (map complete_pool cs) used) st"
  using assms
proof (induction cs arbitrary: used decs counts st)
  case Nil
  then show ?case by simp
next
  case (Cons c cs)
  let ?leaf = "\<lambda>ws st. leaf (decs @ plan_decisions ws) (crew_counts counts ws) st"
  let ?options = "sort_key option_key (cc_crew_options c)"
  have option: "fold_run ?leaf (map ((#) w) (crew_plans (map complete_pool cs) (used \<union> set (crew_people w)))) st =
      complete_visit leaf cs (used \<union> set (crew_people w)) (decs @ crew_decisions w)
        (counts(cc_center c \<mapsto> int (length (crew_members w)))) st"
    if "w \<in> set ?options" for w st
  proof -
    have center: "crew_center w = cc_center c" and rest: "\<forall>c \<in> set cs. \<forall>w \<in> set (cc_crew_options c). crew_center w = cc_center c"
      using that Cons.prems by simp_all
    show ?thesis unfolding Cons.IH [OF rest] fold_run_map crew_counts_simps center plan_simps append_assoc ..
  qed
  have "fold_run ?leaf (crew_plans (map complete_pool (c # cs)) used) st =
      run_bind (fold_run (\<lambda>w st. if \<not> set (crew_people w) \<inter> used = {} then Some (Inr st)
            else fold_run ?leaf (map ((#) w) (crew_plans (map complete_pool cs) (used \<union> set (crew_people w)))) st)
          ?options st)
        (\<lambda>st. fold_run ?leaf (crew_plans (map complete_pool cs) used) st)"
    by (simp add: complete_pool_def [of c] crew_plans.simps fold_run_append fold_run_concat fold_run_filter)
  also have "\<dots> = complete_visit leaf (c # cs) used decs counts st"
    using Cons.prems by (auto simp: Cons.IH option cong: run_bind_cong intro!: run_bind_cong fold_run_cong)
  finally show ?case by simp
qed

section \<open>Keeping the best attempt\<close>

definition kept :: "complete_attempt list \<Rightarrow> complete_search \<Rightarrow> bool" where
  "kept as st =
     ((case best_complete st of
         None \<Rightarrow> \<forall>a \<in> set as. \<not> attempt_complete a
       | Some b \<Rightarrow> b \<in> set as \<and> attempt_complete b \<and>
           (\<forall>a \<in> set as. attempt_complete a \<longrightarrow> complete_attempt_key b \<le> complete_attempt_key a)) \<and>
      (case best_diagnostic st of None \<Rightarrow> as = [] | Some d \<Rightarrow> d \<in> set as))"

lemma kept_Nil: "kept [] \<lparr>best_complete = None, best_diagnostic = None\<rparr>"
  by (simp add: kept_def)

lemma kept_snoc:
  assumes "kept as st"
  shows "kept (as @ [a]) (keep_attempt a st)"
proof -
  define st1 where "st1 = (if attempt_complete a \<and>
      (case best_complete st of None \<Rightarrow> True | Some b \<Rightarrow> complete_attempt_key a < complete_attempt_key b)
    then st\<lparr>best_complete := Some a\<rparr> else st)"
  have keep: "keep_attempt a st = (if (case best_diagnostic st of None \<Rightarrow> True
      | Some b \<Rightarrow> diagnostic_key a < diagnostic_key b) then st1\<lparr>best_diagnostic := Some a\<rparr> else st1)"
    by (simp add: keep_attempt_def Let_def st1_def)
  have "case best_complete st1 of
         None \<Rightarrow> \<forall>a \<in> set (as @ [a]). \<not> attempt_complete a
       | Some b \<Rightarrow> b \<in> set (as @ [a]) \<and> attempt_complete b \<and>
           (\<forall>a \<in> set (as @ [a]). attempt_complete a \<longrightarrow> complete_attempt_key b \<le> complete_attempt_key a)"
    using assms
    by (cases "best_complete st") (auto simp: kept_def st1_def less_imp_le not_less intro: order_trans)
  moreover have "best_complete (keep_attempt a st) = best_complete st1" by (simp add: keep)
  moreover have "case best_diagnostic (keep_attempt a st) of None \<Rightarrow> as @ [a] = [] | Some d \<Rightarrow> d \<in> set (as @ [a])"
    using assms by (auto simp: kept_def keep st1_def split: option.splits)
  ultimately show ?thesis by (simp add: kept_def)
qed

lemma kept_foldl:
  "kept (map g ws) (foldl (\<lambda>st w. keep_attempt (g w) st) \<lparr>best_complete = None, best_diagnostic = None\<rparr> ws)"
  by (induction ws rule: rev_induct) (simp_all add: kept_Nil kept_snoc)

section \<open>Counting assignments\<close>

lemma assigned_count_foldl:
  "assigned_count (foldl count_up m ds) c = assigned_count m c + count_center ds c"
proof (induction ds arbitrary: m)
  case (Cons d ds)
  then show ?case by (simp add: count_center_def assigned_count_def count_up_def)
qed (simp add: count_center_def)

lemma count_center_simps [simp]:
  "count_center [] c = 0" "count_center (xs @ ys) c = count_center xs c + count_center ys c"
  by (simp_all add: count_center_def)

lemma count_center_sort [simp]: "count_center (sort_decisions ds) c = count_center ds c"
proof -
  have "mset (filter (\<lambda>d. dec_center d = c) (sort_decisions ds)) = mset (filter (\<lambda>d. dec_center d = c) ds)"
    by (simp only: mset_filter mset_sort_decisions)
  then show ?thesis unfolding count_center_def by (metis size_mset)
qed

lemma count_center_decisions: "count_center (map decision ms) c = center_count c ms"
  unfolding center_count_def by (induction ms) (auto simp: count_center_def)

definition crew_load :: "crew_option list \<Rightarrow> string \<Rightarrow> int" where
  "crew_load ws c = (\<Sum>w \<leftarrow> ws. if crew_center w = c then int (length (crew_members w)) else 0)"

definition crew_scoped :: "crew_option \<Rightarrow> bool" where
  "crew_scoped w = (\<forall>m \<in> set (crew_members w). edge_center m = crew_center w)"

lemma count_crew: "crew_scoped w \<Longrightarrow>
    count_center (crew_decisions w) c = (if crew_center w = c then int (length (crew_members w)) else 0)"
  by (auto simp: crew_scoped_def count_center_def crew_decisions_def filter_map comp_def
      intro!: filter_True filter_False)

lemma count_plan: "\<forall>w \<in> set ws. crew_scoped w \<Longrightarrow> count_center (plan_decisions ws) c = crew_load ws c"
  by (induction ws) (auto simp: crew_load_def count_crew)

lemma crew_load_absent: "c \<notin> set (map crew_center ws) \<Longrightarrow> crew_load ws c = 0"
  by (induction ws) (auto simp: crew_load_def)

lemma crew_load_chosen:
  "distinct (map crew_center ws) \<Longrightarrow> w \<in> set ws \<Longrightarrow>
     crew_load ws (crew_center w) = int (length (crew_members w))"
proof (induction ws)
  case (Cons v ws)
  then show ?case
  proof (cases "w = v")
    case True
    then have "crew_load ws (crew_center w) = 0" using Cons.prems by (intro crew_load_absent) simp
    then show ?thesis using True by (simp add: crew_load_def)
  next
    case False
    then have "crew_center v \<noteq> crew_center w" using Cons.prems by (auto simp: image_iff)
    then show ?thesis using False Cons by (simp add: crew_load_def)
  qed
qed simp

lemma assigned_crews:
  "distinct (map crew_center ws) \<Longrightarrow> crew_center ` set ws \<inter> dom counts = {} \<Longrightarrow>
     assigned_count (crew_counts counts ws) c = assigned_count counts c + crew_load ws c"
proof (induction ws arbitrary: counts)
  case (Cons w ws)
  have "assigned_count (crew_counts counts (w # ws)) c =
      assigned_count (counts(crew_center w \<mapsto> int (length (crew_members w)))) c + crew_load ws c"
    unfolding crew_counts_simps by (rule Cons.IH) (use Cons.prems in \<open>auto simp: dom_def image_iff\<close>)
  then show ?case
    using Cons.prems crew_load_absent [of "crew_center w" ws]
    by (auto simp: assigned_count_def crew_load_def domIff split: option.splits)
qed (simp add: crew_load_def)

section \<open>Attempts and complete plans\<close>

definition remaining_people :: "string list \<Rightarrow> crew_option list \<Rightarrow> string list" where
  "remaining_people people ws =
     filter (\<lambda>person. person \<notin> set (map dec_person (plan_decisions ws))) (sort_key lower people)"

definition center_order :: "complete_center list \<Rightarrow> complete_center list" where
  "center_order centers = sort_key (\<lambda>item. lower (cc_center item)) centers"

definition ordinary_centers :: "complete_center list \<Rightarrow> complete_center list" where
  "ordinary_centers centers = filter (\<lambda>center. cc_crew_options center = []) (center_order centers)"

definition ordinary_edges :: "complete_center list \<Rightarrow> candidate_edge list \<Rightarrow> candidate_edge list" where
  "ordinary_edges centers candidates =
     filter (\<lambda>edge. edge_center edge \<notin> set (map cc_center (coupled_centers (center_order centers)))) candidates"

definition crew_walk :: "complete_center list \<Rightarrow> crew_option list list" where
  "crew_walk centers = crew_plans (map complete_pool (coupled_centers (center_order centers))) {}"

definition attempt_of ::
    "string list \<Rightarrow> complete_center list \<Rightarrow> candidate_edge list \<Rightarrow> crew_option list \<Rightarrow> complete_attempt" where
  "attempt_of people centers candidates ws =
     combine_attempt (sort_key lower people) (center_order centers) (plan_decisions ws)
       (crew_counts (\<lambda>_. None) ws)
       (the (complete_flow_attempt (remaining_people people ws) (ordinary_centers centers)
         (ordinary_edges centers candidates)))"

text \<open>
  A complete plan: whole crews for coupled centers, candidates for the others, everybody placed
  exactly once, every minimum met and no capacity exceeded.
\<close>

definition plan_load :: "crew_option list \<Rightarrow> candidate_edge list \<Rightarrow> string \<Rightarrow> int" where
  "plan_load ws ms c = count_center (plan_decisions ws @ map decision ms) c"

definition complete_plan ::
    "string list \<Rightarrow> complete_center list \<Rightarrow> candidate_edge list \<Rightarrow> crew_option list \<Rightarrow>
     candidate_edge list \<Rightarrow> bool" where
  "complete_plan people centers candidates ws ms =
     ((\<forall>w \<in> set ws. \<exists>c \<in> set centers. w \<in> set (cc_crew_options c)) \<and> distinct (map crew_center ws) \<and>
      (\<forall>e \<in> set ms. e \<in> set candidates \<and>
         (\<exists>c \<in> set centers. cc_crew_options c = [] \<and> edge_center e = cc_center c)) \<and>
      distinct (map dec_person (plan_decisions ws @ map decision ms)) \<and>
      set (map dec_person (plan_decisions ws @ map decision ms)) = set people \<and>
      (\<forall>c \<in> set centers. cc_minimum c \<le> int (length (cc_protected_people c)) + plan_load ws ms (cc_center c) \<and>
         int (length (cc_protected_people c)) + plan_load ws ms (cc_center c) \<le> cc_capacity c))"

lemma set_center_order [simp]: "set (center_order centers) = set centers"
  by (simp add: center_order_def)

lemma set_coupled: "set (coupled_centers (center_order centers)) = {c \<in> set centers. cc_crew_options c \<noteq> []}"
  by (auto simp: coupled_centers_def)

lemma set_ordinary: "set (ordinary_centers centers) = {c \<in> set centers. cc_crew_options c = []}"
  by (auto simp: ordinary_centers_def)

lemma same_center:
  "complete_problem_ok people centers candidates \<Longrightarrow> c \<in> set centers \<Longrightarrow> c' \<in> set centers \<Longrightarrow>
     cc_center c = cc_center c' \<Longrightarrow> c = c'"
  by (auto simp: complete_problem_ok_def distinct_map inj_on_def)

lemma option_okD:
  assumes "complete_problem_ok people centers candidates" "c \<in> set centers" "w \<in> set (cc_crew_options c)"
  shows "option_ok c (set people) w"
  using assms by (auto simp: complete_problem_ok_def center_ok_def)

lemma coupled_pools:
  assumes "complete_problem_ok people centers candidates"
  shows "pools_ok (map complete_pool (coupled_centers (center_order centers)))"
proof -
  have "distinct (map cc_center centers)" using assms by (simp add: complete_problem_ok_def)
  then have "distinct (map cc_center (coupled_centers (center_order centers)))"
    by (simp add: coupled_centers_def center_order_def distinct_map_filter)
  moreover have "crew_center w = cc_center c \<and> distinct (crew_people w)"
    if "c \<in> set (coupled_centers (center_order centers))" "w \<in> set (cc_crew_options c)" for c w
    using option_okD [OF assms, of c w] that by (simp add: set_coupled option_ok_def)
  ultimately show ?thesis
    by (auto simp: pools_ok_def complete_pool_def comp_def)
qed

lemma dec_persons: "set (map dec_person (plan_decisions ws)) = plan_people ws"
  by (induction ws) (auto simp: crew_decisions_def crew_people_def)

lemma dec_person_list: "map dec_person (plan_decisions ws) = concat (map crew_people ws)"
  by (induction ws) (simp_all add: crew_decisions_def crew_people_def comp_def)

lemma walk_choice:
  assumes ok: "complete_problem_ok people centers candidates" and ws: "ws \<in> set (crew_walk centers)"
  shows "\<forall>w \<in> set ws. \<exists>c \<in> set centers. w \<in> set (cc_crew_options c) \<and> option_ok c (set people) w"
    and "distinct (map crew_center ws)" and "distinct (map dec_person (plan_decisions ws))"
    and "plan_people ws \<subseteq> set people" and "\<forall>w \<in> set ws. crew_scoped w"
proof -
  have choice: "crew_choice (map complete_pool (coupled_centers (center_order centers))) {} ws"
    using crew_plans_choice [OF coupled_pools [OF ok]] ws by (simp add: crew_walk_def)
  then show 1: "\<forall>w \<in> set ws. \<exists>c \<in> set centers. w \<in> set (cc_crew_options c) \<and> option_ok c (set people) w"
    using option_okD [OF ok] by (fastforce simp: crew_choice_def set_coupled complete_pool_def)
  show "distinct (map crew_center ws)" "distinct (map dec_person (plan_decisions ws))"
    using choice by (simp_all add: crew_choice_def dec_person_list)
  show "plan_people ws \<subseteq> set people"
    using 1 by (fastforce simp: plan_people_def option_ok_def crew_people_def)
  show "\<forall>w \<in> set ws. crew_scoped w"
    using 1 by (fastforce simp: crew_scoped_def option_ok_def)
qed

lemma distinct_remaining: "distinct people \<Longrightarrow> distinct (remaining_people people ws)"
  by (simp add: remaining_people_def)

lemma set_remaining: "set (remaining_people people ws) = set people - plan_people ws"
  unfolding remaining_people_def dec_persons by auto

lemma distinct_ordinary:
  "complete_problem_ok people centers candidates \<Longrightarrow> distinct (map cc_center (ordinary_centers centers))"
  by (simp add: ordinary_centers_def center_order_def complete_problem_ok_def distinct_map_filter)

lemma solve_complete_folds:
  assumes ok: "complete_problem_ok people centers candidates"
  shows "solve_complete_schedule people centers candidates =
    Some (Inr (complete_result (sort_key lower people) (center_order centers) candidates
      (foldl (\<lambda>st ws. keep_attempt (attempt_of people centers candidates ws) st)
        \<lparr>best_complete = None, best_diagnostic = None\<rparr> (crew_walk centers))))"
proof -
  have scoped: "\<forall>c \<in> set (coupled_centers (center_order centers)). \<forall>w \<in> set (cc_crew_options c). crew_center w = cc_center c"
    using option_okD [OF ok] by (simp add: set_coupled option_ok_def)
  have "consider_attempt (sort_key lower people) (center_order centers) (ordinary_edges centers candidates)
      ([] @ plan_decisions ws) (crew_counts (\<lambda>_. None) ws) st =
      Some (Inr (keep_attempt (attempt_of people centers candidates ws) st))" for ws st
    using complete_flow_chooses [OF distinct_remaining distinct_ordinary [OF ok], of people ws
        "ordinary_edges centers candidates"] ok
    by (auto simp: consider_attempt_def Let_def attempt_of_def remaining_people_def ordinary_centers_def
        complete_problem_ok_def)
  then have "complete_visit (consider_attempt (sort_key lower people) (center_order centers) (ordinary_edges centers candidates))
       (coupled_centers (center_order centers)) {} [] (\<lambda>_. None) \<lparr>best_complete = None, best_diagnostic = None\<rparr> =
    Some (Inr (foldl (\<lambda>st ws. keep_attempt (attempt_of people centers candidates ws) st)
        \<lparr>best_complete = None, best_diagnostic = None\<rparr> (crew_walk centers)))"
    unfolding complete_visit_plans [OF scoped] crew_walk_def by (intro fold_run_total)
  moreover have "validate_complete_problem people centers candidates = Inr ()"
    using ok by (simp add: validate_complete_iff)
  ultimately show ?thesis
    by (simp add: solve_complete_schedule_def Let_def center_order_def ordinary_edges_def)
qed

section \<open>An attempt is complete when it is a complete plan\<close>

text \<open>What the flow of an attempt guarantees, whatever crews were chosen.\<close>

definition best_placement ::
    "string list \<Rightarrow> complete_center list \<Rightarrow> candidate_edge list \<Rightarrow> crew_option list \<Rightarrow>
     candidate_edge list \<Rightarrow> bool" where
  "best_placement people centers candidates ws ms =
     (let placed = complete_placement (remaining_people people ws) (ordinary_centers centers)
                     (ordinary_edges centers candidates)
      in placed ms \<and>
         (\<forall>ms'. placed ms' \<longrightarrow> length ms' \<le> length ms \<and>
            (length ms' = length ms \<longrightarrow>
              (- required_filled (ordinary_centers centers) ms, edge_overrides ms, edge_ranks ms) \<le>
              (- required_filled (ordinary_centers centers) ms', edge_overrides ms', edge_ranks ms'))))"

lemma plan_load_split:
  "\<forall>w \<in> set ws. crew_scoped w \<Longrightarrow> plan_load ws ms c = crew_load ws c + center_count c ms"
  by (simp add: plan_load_def count_plan count_center_decisions)

lemma attempt_facts:
  assumes ok: "complete_problem_ok people centers candidates" and ws: "ws \<in> set (crew_walk centers)"
  shows "\<exists>ms. best_placement people centers candidates ws ms \<and>
    att_decisions (attempt_of people centers candidates ws) =
      sort_decisions (plan_decisions ws @ sort_decisions (map decision ms)) \<and>
    att_placed_people (attempt_of people centers candidates ws) =
      sort_key lower (map dec_person (att_decisions (attempt_of people centers candidates ws))) \<and>
    set (att_staffed_centers (attempt_of people centers candidates ws)) =
      {cc_center c | c. c \<in> set centers \<and>
         cc_minimum c \<le> int (length (cc_protected_people c)) + plan_load ws ms (cc_center c)} \<and>
    att_unsatisfied_slots (attempt_of people centers candidates ws) =
      (\<Sum>c \<leftarrow> centers. max 0 (cc_minimum c - int (length (cc_protected_people c)) - plan_load ws ms (cc_center c))) \<and>
    att_all_people_placed (attempt_of people centers candidates ws) =
      (length (plan_decisions ws) + length ms = length people)"
proof -
  note walk = walk_choice [OF ok ws]
  have people: "distinct people" using ok by (simp add: complete_problem_ok_def)
  from complete_flow_chooses [OF distinct_remaining [OF people, of ws] distinct_ordinary [OF ok],
      of "ordinary_edges centers candidates"]
  obtain a ms where flow: "complete_flow_attempt (remaining_people people ws) (ordinary_centers centers)
        (ordinary_edges centers candidates) = Some a"
    and best: "best_placement people centers candidates ws ms"
    and decs: "att_decisions a = sort_decisions (map decision ms)"
    unfolding best_placement_def Let_def by blast
  have no_count: "assigned_count (\<lambda>_. None) c = 0" for c by (simp add: assigned_count_def)
  have load: "assigned_count (foldl count_up (crew_counts (\<lambda>_. None) ws) (sort_decisions (map decision ms))) c =
      plan_load ws ms c" for c
    using walk(2,5) by (simp add: assigned_count_foldl assigned_crews plan_load_split no_count
        count_center_decisions)
  show ?thesis
    using best
    by (intro exI [of _ ms])
       (auto simp: attempt_of_def flow combine_attempt_def Let_def decs load sum_list_sort_key center_order_def
         diff_diff_eq)
qed

lemma sum_zero_iff:
  "(\<And>x. x \<in> set xs \<Longrightarrow> 0 \<le> f x) \<Longrightarrow> (\<Sum>x \<leftarrow> xs. f x) = (0 :: int) \<longleftrightarrow> (\<forall>x \<in> set xs. f x = 0)"
proof (induction xs)
  case (Cons x xs)
  moreover have "0 \<le> (\<Sum>x \<leftarrow> xs. f x)" by (rule sum_list_nonneg_int) (use Cons.prems in auto)
  ultimately show ?case by (auto simp: add_nonneg_eq_0_iff)
qed simp

lemma minimums_met:
  "(\<Sum>c \<leftarrow> centers. max 0 (cc_minimum c - int (length (cc_protected_people c)) - L c)) = 0 \<longleftrightarrow>
     (\<forall>c \<in> set centers. cc_minimum c \<le> int (length (cc_protected_people c)) + L c)"
  by (subst sum_zero_iff) (auto simp: max_def)

lemma center_room_ok:
  "center_ok requested c \<Longrightarrow> center_room c = remaining_capacity c \<and> 0 \<le> remaining_capacity c"
  by (auto simp: center_ok_def center_room_def remaining_capacity_def remaining_minimum_def max_def)

lemma crew_load_ok:
  assumes ok: "complete_problem_ok people centers candidates" and ws: "ws \<in> set (crew_walk centers)"
    and c: "c \<in> set centers"
  shows "0 \<le> crew_load ws (cc_center c) \<and> crew_load ws (cc_center c) \<le> remaining_capacity c \<and>
    (cc_crew_options c = [] \<longrightarrow> crew_load ws (cc_center c) = 0)"
proof (cases "cc_center c \<in> set (map crew_center ws)")
  case True
  then obtain w where w: "w \<in> set ws" "crew_center w = cc_center c" by (metis imageE set_map)
  from bspec [OF walk_choice(1) [OF ok ws] w(1)] obtain c' where
    c': "c' \<in> set centers" "w \<in> set (cc_crew_options c')" "option_ok c' (set people) w" by (elim bexE conjE)
  have "crew_center w = cc_center c'" using c'(3) unfolding option_ok_def by (elim conjE)
  then have "c' = c" using w(2) by (intro same_center [OF ok c'(1) c]) (rule trans [OF sym])
  then show ?thesis
    using crew_load_chosen [OF walk_choice(2) [OF ok ws] w(1)] c' w(2) by (auto simp: option_ok_def)
next
  case False
  then show ?thesis
    using crew_load_absent center_room_ok ok c by (auto simp: complete_problem_ok_def)
qed

definition ordinary_placement ::
    "string list \<Rightarrow> complete_center list \<Rightarrow> candidate_edge list \<Rightarrow> crew_option list \<Rightarrow>
     candidate_edge list \<Rightarrow> bool" where
  "ordinary_placement people centers candidates ws ms =
     complete_placement (remaining_people people ws) (ordinary_centers centers)
       (ordinary_edges centers candidates) ms"

lemma best_placementD:
  assumes "best_placement people centers candidates ws ms"
  shows "ordinary_placement people centers candidates ws ms"
    and "ordinary_placement people centers candidates ws ms' \<Longrightarrow> length ms' \<le> length ms \<and>
      (length ms' = length ms \<longrightarrow>
        (- required_filled (ordinary_centers centers) ms, edge_overrides ms, edge_ranks ms) \<le>
        (- required_filled (ordinary_centers centers) ms', edge_overrides ms', edge_ranks ms'))"
  using assms by (simp_all add: best_placement_def ordinary_placement_def Let_def)

lemma ordinary_placementD:
  assumes ok: "complete_problem_ok people centers candidates"
    and pl: "ordinary_placement people centers candidates ws ms"
  shows "\<forall>e \<in> set ms. e \<in> set candidates \<and> (\<exists>c \<in> set centers. cc_crew_options c = [] \<and> edge_center e = cc_center c)"
    and "distinct (map edge_person ms)" and "edge_person ` set ms \<subseteq> set people - plan_people ws"
    and "c \<in> set centers \<Longrightarrow> 0 \<le> center_count (cc_center c) ms \<and>
      (if cc_crew_options c = [] then center_count (cc_center c) ms \<le> remaining_capacity c
       else center_count (cc_center c) ms = 0)"
proof -
  have scope: "e \<in> set candidates \<and> edge_person e \<in> set people - plan_people ws \<and>
      (\<exists>c \<in> set centers. cc_crew_options c = [] \<and> edge_center e = cc_center c)" if "e \<in> set ms" for e
    using pl that unfolding ordinary_placement_def complete_placement_def in_scope_def set_ordinary set_remaining
    by (auto simp: ordinary_edges_def)
  then show edges: "\<forall>e \<in> set ms. e \<in> set candidates \<and> (\<exists>c \<in> set centers. cc_crew_options c = [] \<and> edge_center e = cc_center c)"
    and "edge_person ` set ms \<subseteq> set people - plan_people ws" by blast+
  show "distinct (map edge_person ms)" using pl by (simp add: ordinary_placement_def complete_placement_def)
  show "0 \<le> center_count (cc_center c) ms \<and>
      (if cc_crew_options c = [] then center_count (cc_center c) ms \<le> remaining_capacity c
       else center_count (cc_center c) ms = 0)" if c: "c \<in> set centers"
  proof (cases "cc_crew_options c = []")
    case True
    have "center_ok (set people) c" using ok c by (simp add: complete_problem_ok_def)
    then show ?thesis
      using True c pl center_room_ok [of "set people" c] center_count_nonneg [of "cc_center c" ms]
      by (auto simp: ordinary_placement_def complete_placement_def set_ordinary)
  next
    case False
    have "cc_center c \<notin> set (map edge_center ms)"
    proof
      assume "cc_center c \<in> set (map edge_center ms)"
      then obtain e where e: "e \<in> set ms" "cc_center c = edge_center e" by (metis imageE set_map)
      from bspec [OF edges e(1)] obtain c' where
        c': "c' \<in> set centers" "cc_crew_options c' = []" "edge_center e = cc_center c'" by (elim conjE bexE)
      have "c = c'" using e(2) c'(3) by (intro same_center [OF ok c c'(1)]) (rule trans)
      then show False using False c'(2) by simp
    qed
    then show ?thesis using False by (simp add: center_count_absent)
  qed
qed

lemma attempt_plan:
  assumes ok: "complete_problem_ok people centers candidates" and ws: "ws \<in> set (crew_walk centers)"
    and pl: "ordinary_placement people centers candidates ws ms"
    and everyone: "length (plan_decisions ws) + length ms = length people"
    and minimums: "\<forall>c \<in> set centers. cc_minimum c \<le> int (length (cc_protected_people c)) + plan_load ws ms (cc_center c)"
  shows "complete_plan people centers candidates ws ms"
proof -
  note walk = walk_choice [OF ok ws] and pl' = ordinary_placementD [OF ok pl]
  let ?ps = "map dec_person (plan_decisions ws @ map decision ms)"
  have people: "distinct people" using ok by (simp add: complete_problem_ok_def)
  have "distinct ?ps"
    using walk(3) pl'(2,3) dec_persons [of ws] by (auto simp: comp_def)
  moreover have "set ?ps \<subseteq> set people" using walk(4) pl'(3) dec_persons [of ws] by auto
  moreover have "length ?ps = length people" using everyone by simp
  ultimately have all: "distinct ?ps \<and> set ?ps = set people"
    using people by (metis card_subset_eq distinct_card List.finite_set)
  have "int (length (cc_protected_people c)) + plan_load ws ms (cc_center c) \<le> cc_capacity c"
    if c: "c \<in> set centers" for c
    using crew_load_ok [OF ok ws c] pl'(4) [OF c]
    by (auto simp: plan_load_split [OF walk(5)] remaining_capacity_def split: if_splits)
  moreover have "\<forall>w \<in> set ws. \<exists>c \<in> set centers. w \<in> set (cc_crew_options c)"
    using walk(1) by blast
  ultimately show ?thesis
    unfolding complete_plan_def using walk(2) pl'(1) all minimums by blast
qed

text \<open>Every complete plan is reached: some attempt with the same crews is complete and no worse.\<close>

lemma plan_attempt:
  assumes ok: "complete_problem_ok people centers candidates" and plan: "complete_plan people centers candidates ws ms"
  shows "\<exists>ws' \<in> set (crew_walk centers). mset ws' = mset ws \<and>
    ordinary_placement people centers candidates ws' ms \<and>
    length (plan_decisions ws') + length ms = length people \<and>
    required_filled (ordinary_centers centers) ms = required_total (ordinary_centers centers)"
proof -
  have "\<forall>w \<in> set ws. \<exists>c \<in> set centers. cc_crew_options c \<noteq> [] \<and> w \<in> set (cc_crew_options c)"
    using plan unfolding complete_plan_def by (metis empty_iff list.set(1))
  then have "crew_choice (map complete_pool (coupled_centers (center_order centers))) {} ws"
    using plan by (auto simp: crew_choice_def complete_plan_def set_coupled complete_pool_def dec_person_list)
  from crew_choice_plan [OF coupled_pools [OF ok] this] obtain ws' where
    ws': "ws' \<in> set (crew_walk centers)" and perm: "mset ws' = mset ws" unfolding crew_walk_def by blast
  note walk = walk_choice [OF ok ws']
  have "set ws' = set ws" using perm by (rule mset_eq_setD)
  then have scoped: "\<forall>w \<in> set ws. crew_scoped w" and same: "plan_people ws' = plan_people ws"
    using walk(5) by (simp_all add: plan_people_def)
  have people: "distinct people" using ok by (simp add: complete_problem_ok_def)
  have all: "distinct (map dec_person (plan_decisions ws @ map decision ms))"
    "set (map dec_person (plan_decisions ws @ map decision ms)) = set people"
    using plan by (simp_all add: complete_plan_def)
  have "length (map dec_person (plan_decisions ws @ map decision ms)) = length people"
    using distinct_card [OF all(1)] distinct_card [OF people] unfolding all(2) by simp
  moreover have "length (plan_decisions ws') = length (plan_decisions ws)"
    using plan_decisions_mset [OF perm] by (rule mset_eq_length)
  ultimately have len: "length (plan_decisions ws') + length ms = length people" by simp
  have persons: "distinct (map edge_person ms)" "edge_person ` set ms = set people - plan_people ws'"
    using all dec_persons [of ws] by (auto simp: same comp_def)
  have edge: "e \<in> set candidates \<and> (\<exists>c \<in> set centers. cc_crew_options c = [] \<and> edge_center e = cc_center c)"
    if "e \<in> set ms" for e using plan that by (simp add: complete_plan_def)
  have ordinary: "e \<in> set (ordinary_edges centers candidates) \<and> edge_center e \<in> cc_center ` set (ordinary_centers centers)"
    if "e \<in> set ms" for e
  proof -
    from edge [OF that] obtain c where
      c: "e \<in> set candidates" "c \<in> set centers" "cc_crew_options c = []" "edge_center e = cc_center c" by (elim conjE bexE)
    have "edge_center e \<notin> cc_center ` set (coupled_centers (center_order centers))"
      using same_center [OF ok c(2)] c(3,4) by (auto simp: set_coupled)
    then show ?thesis using c by (auto simp: ordinary_edges_def set_ordinary)
  qed
  have count: "center_count (cc_center c) ms \<le> remaining_capacity c \<and>
      remaining_minimum c \<le> center_count (cc_center c) ms" if c: "c \<in> set (ordinary_centers centers)" for c
  proof -
    have c': "c \<in> set centers" "cc_crew_options c = []" using c by (simp_all add: set_ordinary)
    have "crew_load ws (cc_center c) = crew_load ws' (cc_center c)"
      unfolding crew_load_def by (rule sum_list_mset [OF perm, symmetric])
    then have "plan_load ws ms (cc_center c) = center_count (cc_center c) ms"
      using crew_load_ok [OF ok ws' c'(1)] c'(2) by (simp add: plan_load_split [OF scoped])
    then show ?thesis
      using plan c'(1) center_count_nonneg [of "cc_center c" ms]
      by (auto simp: complete_plan_def remaining_capacity_def remaining_minimum_def)
  qed
  have "center_count (cc_center c) ms \<le> center_room c" if "c \<in> set (ordinary_centers centers)" for c
    using count [OF that] by (simp add: center_room_def)
  then have "ordinary_placement people centers candidates ws' ms"
    using persons ordinary by (auto simp: ordinary_placement_def complete_placement_def in_scope_def set_remaining)
  moreover have "required_filled (ordinary_centers centers) ms = required_total (ordinary_centers centers)"
    unfolding required_filled_def required_total_def
    by (intro arg_cong [where f = sum_list] map_cong refl) (use count in \<open>simp add: min_absorb1\<close>)
  ultimately show ?thesis using ws' perm len by blast
qed

lemma filled_all:
  assumes "required_filled cs ms = required_total cs" and "c \<in> set cs"
  shows "remaining_minimum c \<le> center_count (cc_center c) ms"
proof -
  have "(\<Sum>c \<leftarrow> cs. remaining_minimum c - min (remaining_minimum c) (center_count (cc_center c) ms)) = 0"
    using assms(1) by (simp add: required_filled_def required_total_def sum_list_subtractf)
  then show ?thesis using assms(2) by (subst (asm) sum_zero_iff) (auto simp: min_def split: if_splits)
qed

lemma filled_le: "required_filled cs ms \<le> required_total cs"
  unfolding required_filled_def required_total_def by (rule sum_list_mono_int) simp

lemma placement_length:
  assumes ok: "complete_problem_ok people centers candidates" and ws: "ws \<in> set (crew_walk centers)"
    and pl: "ordinary_placement people centers candidates ws ms"
  shows "length (plan_decisions ws) + length ms \<le> length people"
proof -
  have "distinct (map dec_person (plan_decisions ws) @ map edge_person ms)"
    using walk_choice(3) [OF ok ws] ordinary_placementD(2,3) [OF ok pl] dec_persons [of ws] by auto
  moreover have "set (map dec_person (plan_decisions ws) @ map edge_person ms) \<subseteq> set people"
    using walk_choice(4) [OF ok ws] ordinary_placementD(3) [OF ok pl] dec_persons [of ws] by auto
  ultimately have "length (map dec_person (plan_decisions ws) @ map edge_person ms) \<le> length people"
    by (rule distinct_subset_length)
  then show ?thesis by simp
qed

lemma plan_best:
  assumes ok: "complete_problem_ok people centers candidates" and plan: "complete_plan people centers candidates ws ms"
    and ws': "ws' \<in> set (crew_walk centers)" and perm: "mset ws' = mset ws"
    and pl: "ordinary_placement people centers candidates ws' ms"
    and len: "length (plan_decisions ws') + length ms = length people"
    and filled: "required_filled (ordinary_centers centers) ms = required_total (ordinary_centers centers)"
    and best: "best_placement people centers candidates ws' ms'"
  shows "length (plan_decisions ws') + length ms' = length people"
    and "\<forall>c \<in> set centers. cc_minimum c \<le> int (length (cc_protected_people c)) + plan_load ws' ms' (cc_center c)"
    and "(edge_overrides ms', edge_ranks ms') \<le> (edge_overrides ms, edge_ranks ms)"
proof -
  note pl' = best_placementD(1) [OF best] and least = best_placementD(2) [OF best pl]
  show len': "length (plan_decisions ws') + length ms' = length people"
    using placement_length [OF ok ws' pl'] least len by linarith
  then have "length ms = length ms'" using len by simp
  then have lex: "(- required_filled (ordinary_centers centers) ms', edge_overrides ms', edge_ranks ms') \<le>
        (- required_filled (ordinary_centers centers) ms, edge_overrides ms, edge_ranks ms)" using least by simp
  moreover have "required_filled (ordinary_centers centers) ms' \<le> required_total (ordinary_centers centers)"
    by (rule filled_le)
  ultimately have filled': "required_filled (ordinary_centers centers) ms' = required_total (ordinary_centers centers)"
    and "(edge_overrides ms', edge_ranks ms') \<le> (edge_overrides ms, edge_ranks ms)"
    using filled by (auto simp: less_eq_prod_def)
  then show "(edge_overrides ms', edge_ranks ms') \<le> (edge_overrides ms, edge_ranks ms)" by simp
  have scoped': "\<forall>w \<in> set ws'. crew_scoped w" by (rule walk_choice(5) [OF ok ws'])
  have load: "crew_load ws' c = crew_load ws c" for c
    unfolding crew_load_def by (rule sum_list_mset [OF perm])
  show "\<forall>c \<in> set centers. cc_minimum c \<le> int (length (cc_protected_people c)) + plan_load ws' ms' (cc_center c)"
  proof
    fix c assume c: "c \<in> set centers"
    have split: "plan_load ws' ms' (cc_center c) = crew_load ws' (cc_center c) + center_count (cc_center c) ms'"
      by (rule plan_load_split [OF scoped'])
    show "cc_minimum c \<le> int (length (cc_protected_people c)) + plan_load ws' ms' (cc_center c)"
    proof (cases "cc_crew_options c = []")
      case True
      then have "remaining_minimum c \<le> center_count (cc_center c) ms'"
        using filled_all [OF filled'] c by (simp add: set_ordinary)
      then show ?thesis
        using crew_load_ok [OF ok ws' c] by (simp add: split remaining_minimum_def)
    next
      case False
      have "\<forall>w \<in> set ws. crew_scoped w" using scoped' mset_eq_setD [OF perm] by simp
      from plan_load_split [OF this, of ms "cc_center c"]
      have "plan_load ws ms (cc_center c) = plan_load ws' ms' (cc_center c)"
        using ordinary_placementD(4) [OF ok pl c] ordinary_placementD(4) [OF ok pl' c] False by (simp add: split load)
      moreover have "cc_minimum c \<le> int (length (cc_protected_people c)) + plan_load ws ms (cc_center c)"
        using plan c unfolding complete_plan_def by blast
      ultimately show ?thesis by simp
    qed
  qed
qed

section \<open>The outcome\<close>

definition plan_decisions_of :: "crew_option list \<Rightarrow> candidate_edge list \<Rightarrow> assignment_decision list" where
  "plan_decisions_of ws ms = plan_decisions ws @ map decision ms"

definition all_ranks_nonneg :: "candidate_edge list \<Rightarrow> bool" where
  "all_ranks_nonneg candidates = (\<forall>e \<in> set candidates. 0 \<le> edge_rank_cost e)"

lemma attempt_costs:
  assumes "att_decisions a = sort_decisions (plan_decisions ws @ sort_decisions (map decision ms))"
  shows "count_overrides (att_decisions a) = count_overrides (plan_decisions ws) + edge_overrides ms"
    and "(\<forall>e \<in> set ms. 0 \<le> edge_rank_cost e) \<Longrightarrow>
      total_rank_cost (att_decisions a) = total_rank_cost (plan_decisions ws) + edge_ranks ms"
proof -
  show "count_overrides (att_decisions a) = count_overrides (plan_decisions ws) + edge_overrides ms"
    by (simp add: assms count_overrides_decisions edge_overrides_def)
  assume "\<forall>e \<in> set ms. 0 \<le> edge_rank_cost e"
  then have "(\<Sum>e \<leftarrow> ms. edge_rank_cost e) = edge_ranks ms"
    unfolding edge_ranks_def by (intro arg_cong [where f = sum_list] map_cong refl) auto
  then show "total_rank_cost (att_decisions a) = total_rank_cost (plan_decisions ws) + edge_ranks ms"
    by (simp add: assms total_rank_cost_decisions)
qed

text \<open>An attempt with the same crews as a complete plan is complete, and no worse.\<close>

lemma attempt_of_plan:
  assumes ok: "complete_problem_ok people centers candidates" and plan: "complete_plan people centers candidates ws ms"
  shows "\<exists>ws' \<in> set (crew_walk centers). let a = attempt_of people centers candidates ws' in
    attempt_complete a \<and> count_overrides (att_decisions a) \<le> count_overrides (plan_decisions_of ws ms) \<and>
    (all_ranks_nonneg candidates \<longrightarrow>
      (count_overrides (att_decisions a), total_rank_cost (att_decisions a)) \<le>
      (count_overrides (plan_decisions_of ws ms), total_rank_cost (plan_decisions_of ws ms)))"
proof -
  from plan_attempt [OF ok plan] obtain ws' where ws': "ws' \<in> set (crew_walk centers)" and perm: "mset ws' = mset ws"
    and pl: "ordinary_placement people centers candidates ws' ms"
    and len: "length (plan_decisions ws') + length ms = length people"
    and filled: "required_filled (ordinary_centers centers) ms = required_total (ordinary_centers centers)" by blast
  define a where "a = attempt_of people centers candidates ws'"
  from attempt_facts [OF ok ws', folded a_def] obtain ms' where
    best: "best_placement people centers candidates ws' ms'"
    and decs: "att_decisions a = sort_decisions (plan_decisions ws' @ sort_decisions (map decision ms'))"
    and unsat: "att_unsatisfied_slots a =
      (\<Sum>c \<leftarrow> centers. max 0 (cc_minimum c - int (length (cc_protected_people c)) - plan_load ws' ms' (cc_center c)))"
    and all: "att_all_people_placed a = (length (plan_decisions ws') + length ms' = length people)" by blast
  note b = plan_best [OF ok plan ws' perm pl len filled best]
  have "attempt_complete a"
    using b(1,2) by (simp add: attempt_complete_def all unsat minimums_met)
  moreover have crews: "count_overrides (plan_decisions ws') = count_overrides (plan_decisions ws)"
      "total_rank_cost (plan_decisions ws') = total_rank_cost (plan_decisions ws)"
    using plan_decisions_mset [OF perm] by (rule overrides_mset, rule rank_cost_mset)
  have ov: "count_overrides (att_decisions a) = count_overrides (plan_decisions ws) + edge_overrides ms'"
    "count_overrides (plan_decisions_of ws ms) = count_overrides (plan_decisions ws) + edge_overrides ms"
    using attempt_costs(1) [OF decs] crews
    by (simp_all add: plan_decisions_of_def count_overrides_decisions edge_overrides_def)
  moreover have "(count_overrides (att_decisions a), total_rank_cost (att_decisions a)) \<le>
      (count_overrides (plan_decisions_of ws ms), total_rank_cost (plan_decisions_of ws ms))"
    if "all_ranks_nonneg candidates"
  proof -
    have nonneg: "\<forall>e \<in> set ms'. 0 \<le> edge_rank_cost e" "\<forall>e \<in> set ms. 0 \<le> edge_rank_cost e"
      using ordinary_placementD(1) [OF ok best_placementD(1) [OF best]] ordinary_placementD(1) [OF ok pl] that
      unfolding all_ranks_nonneg_def by blast+
    have "(\<Sum>e \<leftarrow> ms. edge_rank_cost e) = edge_ranks ms"
      unfolding edge_ranks_def by (intro arg_cong [where f = sum_list] map_cong refl) (use nonneg(2) in auto)
    then have "total_rank_cost (plan_decisions_of ws ms) = total_rank_cost (plan_decisions ws) + edge_ranks ms"
      by (simp add: plan_decisions_of_def total_rank_cost_decisions)
    then show ?thesis
      using attempt_costs(2) [OF decs nonneg(1)] ov crews b(3) by (auto simp: less_eq_prod_def)
  qed
  ultimately have "attempt_complete a \<and> count_overrides (att_decisions a) \<le> count_overrides (plan_decisions_of ws ms) \<and>
    (all_ranks_nonneg candidates \<longrightarrow>
      (count_overrides (att_decisions a), total_rank_cost (att_decisions a)) \<le>
      (count_overrides (plan_decisions_of ws ms), total_rank_cost (plan_decisions_of ws ms)))"
    using b(3) by (auto simp: less_eq_prod_def)
  then show ?thesis using ws' unfolding a_def Let_def by blast
qed

lemma incomplete_reason:
  assumes ok: "complete_problem_ok people centers candidates" and ws: "ws \<in> set (crew_walk centers)"
    and incomplete: "\<not> attempt_complete (attempt_of people centers candidates ws)"
  shows "(\<exists>p \<in> set people. p \<notin> set (att_placed_people (attempt_of people centers candidates ws))) \<or>
    (\<exists>c \<in> set centers. cc_center c \<notin> set (att_staffed_centers (attempt_of people centers candidates ws)))"
proof -
  define a where "a = attempt_of people centers candidates ws"
  from attempt_facts [OF ok ws, folded a_def] obtain ms where
    best: "best_placement people centers candidates ws ms"
    and decs: "att_decisions a = sort_decisions (plan_decisions ws @ sort_decisions (map decision ms))"
    and placed: "att_placed_people a = sort_key lower (map dec_person (att_decisions a))"
    and staffed: "set (att_staffed_centers a) = {cc_center c | c. c \<in> set centers \<and>
         cc_minimum c \<le> int (length (cc_protected_people c)) + plan_load ws ms (cc_center c)}"
    and unsat: "att_unsatisfied_slots a =
      (\<Sum>c \<leftarrow> centers. max 0 (cc_minimum c - int (length (cc_protected_people c)) - plan_load ws ms (cc_center c)))"
    and all: "att_all_people_placed a = (length (plan_decisions ws) + length ms = length people)" by blast
  show ?thesis
  proof (cases "att_all_people_placed a")
    case True
    then have "att_unsatisfied_slots a \<noteq> 0" using incomplete by (simp add: attempt_complete_def a_def)
    then obtain c where c: "c \<in> set centers"
      "\<not> cc_minimum c \<le> int (length (cc_protected_people c)) + plan_load ws ms (cc_center c)"
      unfolding unsat minimums_met by blast
    have "cc_center c \<notin> set (att_staffed_centers a)"
      unfolding staffed using c same_center [OF ok c(1)] by auto
    then show ?thesis using c(1) by (auto simp: a_def)
  next
    case False
    have "length (map dec_person (att_decisions a)) < length people"
      using False placement_length [OF ok ws best_placementD(1) [OF best]] by (simp add: all decs)
    moreover have "distinct people" using ok by (simp add: complete_problem_ok_def)
    ultimately have "\<not> set people \<subseteq> set (map dec_person (att_decisions a))"
      using distinct_subset_length [of people "map dec_person (att_decisions a)"] by auto
    then show ?thesis unfolding a_def [symmetric] placed set_sort by blast
  qed
qed

theorem solve_complete_outcome:
  assumes ok: "complete_problem_ok people centers candidates"
  shows "\<exists>r. solve_complete_schedule people centers candidates = Some (Inr r) \<and>
    (csr_complete r \<longrightarrow> csr_unplaced_people r = [] \<and> csr_issues r = [] \<and>
       (\<exists>ws ms. complete_plan people centers candidates ws ms \<and>
          mset (csr_decisions r) = mset (plan_decisions_of ws ms))) \<and>
    (\<not> csr_complete r \<longrightarrow> csr_decisions r = [] \<and> csr_total_cost r = 0 \<and> csr_issues r \<noteq> []) \<and>
    (\<forall>ws ms. complete_plan people centers candidates ws ms \<longrightarrow> csr_complete r \<and>
       count_overrides (csr_decisions r) \<le> count_overrides (plan_decisions_of ws ms) \<and>
       (all_ranks_nonneg candidates \<longrightarrow>
         (count_overrides (csr_decisions r), total_rank_cost (csr_decisions r)) \<le>
         (count_overrides (plan_decisions_of ws ms), total_rank_cost (plan_decisions_of ws ms))))"
proof -
  let ?att = "attempt_of people centers candidates"
  define st where "st = foldl (\<lambda>st ws. keep_attempt (?att ws) st)
        \<lparr>best_complete = None, best_diagnostic = None\<rparr> (crew_walk centers)"
  define r where "r = complete_result (sort_key lower people) (center_order centers) candidates st"
  have run: "solve_complete_schedule people centers candidates = Some (Inr r)"
    unfolding r_def st_def by (rule solve_complete_folds [OF ok])
  have kept: "kept (map ?att (crew_walk centers)) st" unfolding st_def by (rule kept_foldl)
  show ?thesis
  proof (cases "best_complete st")
    case (Some b)
    then have b: "b \<in> ?att ` set (crew_walk centers)" "attempt_complete b"
      and least: "\<And>ws. ws \<in> set (crew_walk centers) \<Longrightarrow> attempt_complete (?att ws) \<Longrightarrow>
         complete_attempt_key b \<le> complete_attempt_key (?att ws)"
      using kept by (auto simp: kept_def)
    have r: "csr_complete r" "csr_decisions r = att_decisions b" "csr_unplaced_people r = []" "csr_issues r = []"
      by (simp_all add: r_def complete_result_def Some)
    from b(1) obtain ws where ws: "ws \<in> set (crew_walk centers)" and b_ws: "b = ?att ws" by blast
    from attempt_facts [OF ok ws, folded b_ws] obtain ms where
      best: "best_placement people centers candidates ws ms"
      and decs: "att_decisions b = sort_decisions (plan_decisions ws @ sort_decisions (map decision ms))"
      and unsat: "att_unsatisfied_slots b =
        (\<Sum>c \<leftarrow> centers. max 0 (cc_minimum c - int (length (cc_protected_people c)) - plan_load ws ms (cc_center c)))"
      and all: "att_all_people_placed b = (length (plan_decisions ws) + length ms = length people)" by blast
    have "complete_plan people centers candidates ws ms"
      using attempt_plan [OF ok ws best_placementD(1) [OF best]] b(2)
      by (simp add: attempt_complete_def all unsat minimums_met)
    moreover have "mset (csr_decisions r) = mset (plan_decisions_of ws ms)"
      by (simp add: r decs plan_decisions_of_def)
    moreover have "count_overrides (csr_decisions r) \<le> count_overrides (plan_decisions_of ws ms) \<and>
       (all_ranks_nonneg candidates \<longrightarrow>
         (count_overrides (csr_decisions r), total_rank_cost (csr_decisions r)) \<le>
         (count_overrides (plan_decisions_of ws ms), total_rank_cost (plan_decisions_of ws ms)))"
      if plan: "complete_plan people centers candidates ws ms" for ws ms
    proof -
      from attempt_of_plan [OF ok plan] obtain ws' where ws': "ws' \<in> set (crew_walk centers)" "attempt_complete (?att ws')"
        and cheap: "count_overrides (att_decisions (?att ws')) \<le> count_overrides (plan_decisions_of ws ms)"
          "all_ranks_nonneg candidates \<longrightarrow>
            (count_overrides (att_decisions (?att ws')), total_rank_cost (att_decisions (?att ws'))) \<le>
            (count_overrides (plan_decisions_of ws ms), total_rank_cost (plan_decisions_of ws ms))"
        unfolding Let_def by blast
      have "(count_overrides (att_decisions b), total_rank_cost (att_decisions b)) \<le>
          (count_overrides (att_decisions (?att ws')), total_rank_cost (att_decisions (?att ws')))"
        using least [OF ws'] by (auto simp: complete_attempt_key_def less_eq_prod_def)
      then show ?thesis using cheap unfolding r(2) by (auto simp: less_eq_prod_def)
    qed
    ultimately show ?thesis using run r by blast
  next
    case None
    then have none: "\<not> attempt_complete (?att ws)" if "ws \<in> set (crew_walk centers)" for ws
      using kept that by (simp add: kept_def)
    have "crew_walk centers \<noteq> []" using no_crews [of "map complete_pool (coupled_centers (center_order centers))" "{}"]
      unfolding crew_walk_def by (metis empty_iff list.set(1))
    then obtain d where d: "best_diagnostic st = Some d" "d \<in> ?att ` set (crew_walk centers)"
      using kept by (cases "best_diagnostic st") (auto simp: kept_def)
    from d(2) obtain ws where ws: "ws \<in> set (crew_walk centers)" "d = ?att ws" by blast
    have "csr_issues r \<noteq> []"
      using incomplete_reason [OF ok ws(1) none [OF ws(1)]] unfolding ws(2) [symmetric]
      by (auto simp: r_def complete_result_def None d(1) Let_def filter_empty_conv)
    moreover have "\<not> complete_plan people centers candidates ws ms" for ws ms
      using attempt_of_plan [OF ok, of ws ms] none unfolding Let_def by blast
    moreover have "\<not> csr_complete r" "csr_decisions r = []" "csr_total_cost r = 0"
      by (simp_all add: r_def complete_result_def None Let_def)
    ultimately show ?thesis using run by blast
  qed
qed

end
