(* ===== verification/Solver_Properties.thy ===== *)
theory Solver_Properties
  imports Coverage_Optimality Complete_Properties
begin

text \<open>
  The properties of \<open>schedule_solver.py\<close>, over the definitions of the solver theories, each with a
  concrete schedule on which its hypotheses hold.
\<close>

section \<open>Concrete schedules\<close>

definition demo_edge :: "string \<Rightarrow> string \<Rightarrow> int \<Rightarrow> candidate_edge" where
  "demo_edge person center cost =
     \<lparr>edge_person = person, edge_center = center, edge_level = 3, edge_preference = Regular,
      edge_rank_cost = cost\<rparr>"

definition demo_requirement ::
    "string \<Rightarrow> int \<Rightarrow> candidate_edge list \<Rightarrow> crew_option list \<Rightarrow> center_requirement" where
  "demo_requirement center remaining candidates options =
     \<lparr>req_center = center, req_group = ''Repair'', req_remaining_slots = remaining,
      req_protected_people = [], req_candidates = candidates, req_crew_options = options,
      req_level_zero_people = [], req_rejections = [], req_unresolved_code = ''no_candidate'',
      req_unresolved_message = ''''\<rparr>"

definition demo_requirements :: "center_requirement list" where
  "demo_requirements =
     [demo_requirement ''R1'' 1 [demo_edge ''Ann'' ''R1'' 1, demo_edge ''Bob'' ''R1'' 2] [],
      demo_requirement ''R2'' 1 [demo_edge ''Ann'' ''R2'' 5] [],
      demo_requirement ''D1'' 2 []
        [\<lparr>crew_center = ''D1'', crew_members = [demo_edge ''Cid'' ''D1'' 1, demo_edge ''Dee'' ''D1'' 1]\<rparr>]]"

definition demo_people :: "string list" where
  "demo_people = [''Bob'', ''Ann'']"

definition demo_centers :: "complete_center list" where
  "demo_centers =
     [\<lparr>cc_center = ''R1'', cc_group = ''Repair'', cc_minimum = 1, cc_capacity = 1,
       cc_protected_people = [], cc_crew_options = []\<rparr>,
      \<lparr>cc_center = ''R2'', cc_group = ''Repair'', cc_minimum = 0, cc_capacity = 1,
       cc_protected_people = [], cc_crew_options = []\<rparr>]"

definition demo_candidates :: "candidate_edge list" where
  "demo_candidates = [demo_edge ''Ann'' ''R1'' 1, demo_edge ''Bob'' ''R1'' 2, demo_edge ''Ann'' ''R2'' 5]"

section \<open>Minimum coverage\<close>

text \<open>
  C1. \<open>solve_minimum_coverage\<close> returns on every well-formed problem (distinct centers, candidates of
  single slots scoped to their center, crews and levels that pass its two checks), and what it
  returns is a best plan: a choice of whole crews and single candidates, nobody used twice and
  nobody protected, that staffs the most centers of all such plans and, among those, has the fewest
  preference overrides and, when no rank cost is negative, the least total rank cost.
\<close>

theorem coverage_is_optimal:
  fixes reqs
  defines "pb \<equiv> coverage_problem_of reqs"
  assumes "coverage_wf reqs" and "\<not> crews_malformed (cp_coupled pb)"
    and "\<not> levels_invalid (all_edges_of (cp_normalized pb) (cp_coupled pb))"
  shows "\<exists>r ws ms. solve_minimum_coverage reqs = Some (Inr r) \<and> coverage_plan reqs ws ms \<and>
    mset (cov_decisions r) = mset (plan_decisions_of ws ms) \<and>
    int (length (cov_staffed_centers r)) = zero_slots pb + int (length ws + length ms) \<and>
    (\<forall>ws' ms'. coverage_plan reqs ws' ms' \<longrightarrow> length ws' + length ms' \<le> length ws + length ms \<and>
       (length ws' + length ms' = length ws + length ms \<longrightarrow>
          count_overrides (plan_decisions_of ws ms) \<le> count_overrides (plan_decisions_of ws' ms') \<and>
          (ranks_nonneg reqs \<longrightarrow>
             (count_overrides (plan_decisions_of ws ms), total_rank_cost (plan_decisions_of ws ms)) \<le>
             (count_overrides (plan_decisions_of ws' ms'), total_rank_cost (plan_decisions_of ws' ms')))))"
proof -
  from solve_minimum_coverage_best [OF assms(2-4) [unfolded pb_def]] obtain r ws ms where
    run: "solve_minimum_coverage reqs = Some (Inr r)" and plan: "coverage_plan reqs ws ms"
    and r: "r = assemble_result (cp_normalized pb) (plan_decisions ws @ sort_decisions (map decision ms))"
    and score: "result_score r = plan_score pb ws ms"
    and least: "\<And>ws' ms'. coverage_plan reqs ws' ms' \<Longrightarrow>
       fst (plan_score pb ws ms) \<le> fst (plan_score pb ws' ms') \<and>
       (fst (plan_score pb ws ms) = fst (plan_score pb ws' ms') \<longrightarrow>
          fst (snd (plan_score pb ws ms)) \<le> fst (snd (plan_score pb ws' ms'))) \<and>
       (ranks_nonneg reqs \<longrightarrow> plan_score pb ws ms \<le> plan_score pb ws' ms')"
    unfolding pb_def by blast
  have "mset (cov_decisions r) = mset (plan_decisions_of ws ms)"
    by (simp add: r assemble_result_def Let_def plan_decisions_of_def)
  moreover have "int (length (cov_staffed_centers r)) = zero_slots pb + int (length ws + length ms)"
    using score by (simp add: result_score_def plan_score_def)
  moreover have "length ws' + length ms' \<le> length ws + length ms \<and>
       (length ws' + length ms' = length ws + length ms \<longrightarrow>
          count_overrides (plan_decisions_of ws ms) \<le> count_overrides (plan_decisions_of ws' ms') \<and>
          (ranks_nonneg reqs \<longrightarrow>
             (count_overrides (plan_decisions_of ws ms), total_rank_cost (plan_decisions_of ws ms)) \<le>
             (count_overrides (plan_decisions_of ws' ms'), total_rank_cost (plan_decisions_of ws' ms'))))"
    if "coverage_plan reqs ws' ms'" for ws' ms'
    using least [OF that] by (auto simp: plan_score_def plan_decisions_of_def)
  ultimately show ?thesis using run plan by blast
qed

theorem coverage_is_optimal_witness:
  "coverage_wf demo_requirements \<and> (\<exists>r ws ms. solve_minimum_coverage demo_requirements = Some (Inr r) \<and>
     coverage_plan demo_requirements ws ms \<and> mset (cov_decisions r) = mset (plan_decisions_of ws ms))"
proof -
  have "coverage_wf demo_requirements" by code_simp
  moreover have "\<not> crews_malformed (cp_coupled (coverage_problem_of demo_requirements))" by code_simp
  moreover have "\<not> levels_invalid (all_edges_of (cp_normalized (coverage_problem_of demo_requirements))
      (cp_coupled (coverage_problem_of demo_requirements)))" by code_simp
  ultimately show ?thesis using coverage_is_optimal [of demo_requirements] by blast
qed



text \<open>
  C3. A result of \<open>solve_minimum_coverage\<close> is safe and reports every center: nobody is assigned
  twice, nobody protected is assigned, every assignment is a candidate of a single slot or a member
  of a crew option of its center, the staffed and the unresolved centers partition the centers, and
  there is one issue for each unresolved center, in the same order.
\<close>

theorem coverage_is_safe:
  assumes wf: "coverage_wf reqs" and run: "solve_minimum_coverage reqs = Some (Inr r)"
  shows "distinct (map dec_person (cov_decisions r)) \<and> assigned_people r \<inter> reserved_people reqs = {} \<and>
    (\<forall>d \<in> set (cov_decisions r). \<exists>q \<in> set reqs. dec_center d = req_center q \<and>
      (req_remaining_slots q = 1 \<and> d \<in> decision ` set (req_candidates q) \<or>
       req_remaining_slots q > 1 \<and> (\<exists>w \<in> set (req_crew_options q). d \<in> set (crew_decisions w)))) \<and>
    set (cov_staffed_centers r) \<union> set (cov_unresolved_centers r) = req_center ` set reqs \<and>
    set (cov_staffed_centers r) \<inter> set (cov_unresolved_centers r) = {} \<and>
    map issue_center (cov_issues r) = cov_unresolved_centers r"
proof -
  let ?pb = "coverage_problem_of reqs"
  have crews: "\<not> crews_malformed (cp_coupled ?pb)"
    and levels: "\<not> levels_invalid (all_edges_of (cp_normalized ?pb) (cp_coupled ?pb))"
    using run by (auto simp: solve_minimum_coverage_def Let_def split: if_splits)
  from solve_minimum_coverage_best [OF wf crews levels] run obtain ws ms where plan: "coverage_plan reqs ws ms"
    and r: "r = assemble_result (cp_normalized ?pb) (plan_decisions ws @ sort_decisions (map decision ms))" by auto
  have decs: "mset (cov_decisions r) = mset (plan_decisions ws @ map decision ms)"
    by (simp add: r assemble_result_def Let_def)
  then have "mset (map dec_person (cov_decisions r)) = mset (map dec_person (plan_decisions ws @ map decision ms))"
    by (metis mset_map)
  moreover have persons: "map dec_person (plan_decisions ws @ map decision ms) =
      concat (map crew_people ws) @ map edge_person ms"
    by (simp add: dec_person_list comp_def)
  ultimately have perm: "mset (map dec_person (cov_decisions r)) = mset (concat (map crew_people ws) @ map edge_person ms)"
    by (simp only:)
  have "distinct (map dec_person (cov_decisions r))"
    using plan mset_eq_imp_distinct_iff [OF perm] by (simp add: coverage_plan_def)
  moreover have "assigned_people r \<inter> reserved_people reqs = {}"
    using plan mset_eq_setD [OF perm] unfolding assigned_people_def coverage_plan_def by (simp only:)
  moreover have "\<exists>q \<in> set reqs. dec_center d = req_center q \<and>
      (req_remaining_slots q = 1 \<and> d \<in> decision ` set (req_candidates q) \<or>
       req_remaining_slots q > 1 \<and> (\<exists>w \<in> set (req_crew_options q). d \<in> set (crew_decisions w)))"
    if "d \<in> set (cov_decisions r)" for d
  proof -
    have "d \<in> set (plan_decisions ws) \<or> d \<in> decision ` set ms"
      using that mset_eq_setD [OF decs] by auto
    then consider w where "w \<in> set ws" "d \<in> set (crew_decisions w)" | e where "e \<in> set ms" "d = decision e"
      by (auto simp: plan_decisions_def)
    then show ?thesis
    proof cases
      case 1
      then obtain q where q: "q \<in> set reqs" "req_remaining_slots q > 1" "w \<in> set (req_crew_options q)"
        using plan unfolding coverage_plan_def by blast
      then have "dec_center d = req_center q"
        using crews 1(2) by (auto simp: crews_malformed_def crew_malformed_def problem_facts crew_decisions_def)
      then show ?thesis using q 1(2) by blast
    next
      case 2
      then obtain q where q: "q \<in> set reqs" "req_remaining_slots q = 1" "e \<in> set (req_candidates q)"
        using plan unfolding coverage_plan_def by blast
      then have "dec_center d = req_center q" using wf 2(2) by (simp add: coverage_wf_def)
      then show ?thesis using q 2(2) by blast
    qed
  qed
  moreover have "set (cov_unresolved_centers r) = req_center ` set reqs - set (cov_staffed_centers r)"
    by (auto simp: r assemble_result_def Let_def problem_facts)
  moreover have "set (cov_staffed_centers r) \<subseteq> req_center ` set reqs"
    by (auto simp: r assemble_result_def Let_def staffed_set_def problem_facts)
  moreover have "map issue_center (cov_issues r) = cov_unresolved_centers r"
    by (simp add: r assemble_result_def Let_def issue_def comp_def)
  ultimately show ?thesis by auto
qed

definition demo_single :: "center_requirement list" where
  "demo_single = [demo_requirement ''R1'' 1 [] []]"

theorem coverage_is_safe_witness:
  "\<exists>r. solve_minimum_coverage demo_single = Some (Inr r) \<and>
     set (cov_staffed_centers r) \<union> set (cov_unresolved_centers r) = {''R1''}"
proof -
  have wf: "coverage_wf demo_single" by code_simp
  have "\<not> crews_malformed (cp_coupled (coverage_problem_of demo_single))"
    "\<not> levels_invalid (all_edges_of (cp_normalized (coverage_problem_of demo_single))
        (cp_coupled (coverage_problem_of demo_single)))" by code_simp+
  then obtain r where r: "solve_minimum_coverage demo_single = Some (Inr r)"
    using solve_minimum_coverage_best [OF wf] by blast
  from coverage_is_safe [OF wf r] have "set (cov_staffed_centers r) \<union> set (cov_unresolved_centers r) =
      req_center ` set demo_single" by blast
  then show ?thesis using r by (simp add: demo_single_def demo_requirement_def)
qed

section \<open>Complete schedules\<close>

text \<open>
  C4. \<open>solve_complete_schedule\<close> is all or nothing and complete: on every problem its validation
  accepts it returns; it reports a complete schedule exactly when there is a complete plan (whole
  crews, everybody placed once, every minimum met, no capacity exceeded), and its decisions are such
  a plan; otherwise it decides nothing, costs nothing and names at least one reason.
\<close>

theorem complete_schedule_exact:
  assumes "validate_complete_problem people centers candidates = Inr ()"
  shows "\<exists>r. solve_complete_schedule people centers candidates = Some (Inr r) \<and>
    (csr_complete r \<longleftrightarrow> (\<exists>ws ms. complete_plan people centers candidates ws ms)) \<and>
    (csr_complete r \<longrightarrow> csr_unplaced_people r = [] \<and> csr_issues r = [] \<and>
       (\<exists>ws ms. complete_plan people centers candidates ws ms \<and>
          mset (csr_decisions r) = mset (plan_decisions_of ws ms))) \<and>
    (\<not> csr_complete r \<longrightarrow> csr_decisions r = [] \<and> csr_total_cost r = 0 \<and> csr_issues r \<noteq> [])"
  using solve_complete_outcome [OF assms [unfolded validate_complete_iff]] by blast

theorem complete_schedule_exact_witness:
  "validate_complete_problem demo_people demo_centers demo_candidates = Inr () \<and>
   (\<exists>r. solve_complete_schedule demo_people demo_centers demo_candidates = Some (Inr r) \<and> csr_complete r)"
proof -
  have ok: "validate_complete_problem demo_people demo_centers demo_candidates = Inr ()" by code_simp
  have "complete_plan demo_people demo_centers demo_candidates [] [demo_edge ''Bob'' ''R1'' 2, demo_edge ''Ann'' ''R2'' 5]"
    by code_simp
  then show ?thesis using complete_schedule_exact [OF ok] ok by blast
qed

text \<open>
  C5. A complete schedule is a cheapest one: of all complete plans, the one returned has the fewest
  preference overrides and, when no candidate has a negative rank cost, then the least total cost.
\<close>

theorem complete_schedule_cheapest:
  assumes "validate_complete_problem people centers candidates = Inr ()"
    and "solve_complete_schedule people centers candidates = Some (Inr r)"
    and "complete_plan people centers candidates ws ms"
  shows "count_overrides (csr_decisions r) \<le> count_overrides (plan_decisions_of ws ms) \<and>
    (all_ranks_nonneg candidates \<longrightarrow>
      (count_overrides (csr_decisions r), total_rank_cost (csr_decisions r)) \<le>
      (count_overrides (plan_decisions_of ws ms), total_rank_cost (plan_decisions_of ws ms)))"
  using solve_complete_outcome [OF assms(1) [unfolded validate_complete_iff]] assms(2,3) by auto

theorem complete_schedule_cheapest_witness:
  "\<exists>r. solve_complete_schedule demo_people demo_centers demo_candidates = Some (Inr r) \<and>
     (count_overrides (csr_decisions r), total_rank_cost (csr_decisions r)) \<le> (0, 7)"
proof -
  let ?ms = "[demo_edge ''Bob'' ''R1'' 2, demo_edge ''Ann'' ''R2'' 5]"
  have ok: "validate_complete_problem demo_people demo_centers demo_candidates = Inr ()" by code_simp
  have plan: "complete_plan demo_people demo_centers demo_candidates [] ?ms" by code_simp
  obtain r where r: "solve_complete_schedule demo_people demo_centers demo_candidates = Some (Inr r)"
    using solve_complete_outcome [OF ok [unfolded validate_complete_iff]] by blast
  have "all_ranks_nonneg demo_candidates" by code_simp
  moreover have "(count_overrides (plan_decisions_of [] ?ms), total_rank_cost (plan_decisions_of [] ?ms)) = (0, 7)"
    by code_simp
  ultimately show ?thesis using complete_schedule_cheapest [OF ok r plan] r by auto
qed

text \<open>
  A well-formed problem, read off the data alone. An edge is in order when it joins a requested person to one of the
  given centers at a level from 1 to 3. A center is judged by its rosters: a crew and the protected people
  together are what the center would be staffed with, so they must be different people, as many as
  its minimum to its capacity allows. Nobody holds more than one protected place of the whole plant.
\<close>

definition edge_in_order :: "string list \<Rightarrow> string set \<Rightarrow> candidate_edge \<Rightarrow> bool" where
  "edge_in_order people names edge =
     (edge_person edge \<in> set people \<and> edge_center edge \<in> names \<and> 1 \<le> edge_level edge \<and> edge_level edge \<le> 3)"

definition crew_roster :: "complete_center \<Rightarrow> crew_option \<Rightarrow> string list" where
  "crew_roster center w = map edge_person (crew_members w) @ cc_protected_people center"

definition staffable :: "string list \<Rightarrow> complete_center \<Rightarrow> bool" where
  "staffable people center =
     (0 \<le> cc_minimum center \<and> cc_minimum center \<le> cc_capacity center \<and>
      int (length (cc_protected_people center)) \<le> cc_capacity center \<and>
      (\<forall>w \<in> set (cc_crew_options center).
         crew_center w = cc_center center \<and> list_all (edge_in_order people {cc_center center}) (crew_members w) \<and>
         distinct (crew_roster center w) \<and>
         int (length (crew_roster center w)) \<in> {cc_minimum center .. cc_capacity center}))"

definition protected_places :: "complete_center list \<Rightarrow> string \<Rightarrow> nat" where
  "protected_places centers person = (\<Sum>center \<leftarrow> centers. count_list (cc_protected_people center) person)"

definition well_formed_problem :: "string list \<Rightarrow> complete_center list \<Rightarrow> candidate_edge list \<Rightarrow> bool" where
  "well_formed_problem people centers candidates =
     (list_all (\<lambda>person. count_list people person = 1) people \<and>
      (\<forall>i < length centers. \<forall>j < length centers. cc_center (centers ! i) = cc_center (centers ! j) \<longrightarrow> i = j) \<and>
      list_all (\<lambda>person. protected_places centers person = 1) (concat (map cc_protected_people centers)) \<and>
      list_all (staffable people) centers \<and>
      list_all (edge_in_order people (set (map cc_center centers))) candidates)"

lemma distinct_counts: "distinct xs \<longleftrightarrow> (\<forall>x. count_list xs x \<le> 1)"
proof (induction xs)
  case (Cons a xs)
  have at: "count_list (a # xs) x \<le> 1 \<longleftrightarrow> count_list xs x \<le> (if x = a then 0 else 1)" for x by simp
  have "a \<notin> set xs \<and> (\<forall>x. count_list xs x \<le> 1) \<longleftrightarrow> (\<forall>x. count_list xs x \<le> (if x = a then 0 else 1))"
    unfolding count_list_0_iff [symmetric] by (metis le_zero_eq zero_le)
  then show ?case unfolding at distinct.simps Cons.IH .
qed simp

lemma counted_once: "list_all (\<lambda>x. count_list xs x = 1) xs \<longleftrightarrow> distinct xs"
  unfolding distinct_counts list_all_iff by (metis count_list_0_iff le_antisym le_numeral_extra(4) less_one linorder_not_less zero_le)

lemma protected_counts: "protected_places centers person = count_list (concat (map cc_protected_people centers)) person"
  by (induction centers) (simp_all add: protected_places_def)

lemma staffable_iff: "distinct (cc_protected_people c) \<Longrightarrow> staffable people c \<longleftrightarrow> center_ok (set people) c"
proof -
  assume c: "distinct (cc_protected_people c)"
  have level: "1 \<le> l \<and> l \<le> 3 \<longleftrightarrow> l \<in> {1, 2, 3}" for l :: int by auto
  have "crew_center w = cc_center c \<and> list_all (edge_in_order people {cc_center c}) (crew_members w) \<and>
      distinct (crew_roster c w) \<and> int (length (crew_roster c w)) \<in> {cc_minimum c .. cc_capacity c} \<longleftrightarrow>
      option_ok c (set people) w" for w
    using c by (auto simp: crew_roster_def option_ok_def edge_in_order_def level list_all_iff crew_people_def
        remaining_minimum_def remaining_capacity_def)
  then show ?thesis by (auto simp: staffable_def center_ok_def)
qed

lemma well_formed_iff: "well_formed_problem people centers candidates \<longleftrightarrow> complete_problem_ok people centers candidates"
proof -
  have level: "1 \<le> l \<and> l \<le> 3 \<longleftrightarrow> l \<in> {1, 2, 3}" for l :: int by auto
  have names: "distinct (map cc_center centers) \<longleftrightarrow>
      (\<forall>i < length centers. \<forall>j < length centers. cc_center (centers ! i) = cc_center (centers ! j) \<longrightarrow> i = j)"
    by (auto simp: distinct_conv_nth)
  have centers: "list_all (staffable people) centers \<longleftrightarrow> (\<forall>c \<in> set centers. center_ok (set people) c)"
    if "distinct (concat (map cc_protected_people centers))"
    using that staffable_iff by (auto simp: list_all_iff distinct_concat_iff)
  have edges: "list_all (edge_in_order people (set (map cc_center centers))) candidates \<longleftrightarrow>
      (\<forall>e \<in> set candidates. edge_person e \<in> set people \<and> edge_center e \<in> cc_center ` set centers \<and> edge_level e \<in> {1, 2, 3})"
    by (auto simp: list_all_iff edge_in_order_def level)
  show ?thesis
    unfolding well_formed_problem_def complete_problem_ok_def protected_counts counted_once names edges
    using centers by blast
qed

text \<open>Whatever the validation objects to, it objects by a \<open>ValueError\<close>.\<close>

definition value_errors_only :: "'a result \<Rightarrow> bool" where
  "value_errors_only r = (\<forall>e. r = Inl e \<longrightarrow> (\<exists>m. e = ValueError m))"

lemma guard_value_error: "value_errors_only (guard_error bad (ValueError m))"
  by (simp add: value_errors_only_def guard_error_def)

lemma rbind_value_error: "value_errors_only a \<Longrightarrow> (\<And>u. value_errors_only (f u)) \<Longrightarrow> value_errors_only (rbind a f)"
  by (cases a) (auto simp: value_errors_only_def)

lemma each_value_error: "(\<And>x. value_errors_only (f x)) \<Longrightarrow> value_errors_only (check_each f xs)"
  by (induction xs) (auto intro: rbind_value_error simp: value_errors_only_def [of "Inr ()"])

lemmas value_errors = guard_value_error rbind_value_error each_value_error

lemma option_value_error: "value_errors_only (validate_option center requested w)"
  unfolding validate_option_def validate_member_def by (intro value_errors)

lemma centers_value_error: "value_errors_only (validate_centers requested seen centers)"
proof (induction centers arbitrary: seen)
  case Nil
  show ?case by (simp add: value_errors_only_def)
next
  case (Cons center centers)
  show ?case unfolding validate_centers.simps validate_center_def by (intro value_errors option_value_error Cons.IH)
qed

lemma problem_value_error: "value_errors_only (validate_complete_problem people centers candidates)"
  unfolding validate_complete_problem_def validate_candidate_def by (intro value_errors centers_value_error)

text \<open>
  C6. The validation of a complete problem raises nothing exactly on well-formed problems, and a \<open>ValueError\<close> on
  all others. Well-formed says, without the checks of the code: nobody is requested twice, no two centers have one name,
  nobody holds two protected places, within one center or across the plant, every center can be
  staffed - its bounds are in order, its protected people fit, and each of its crews consists of
  requested people with levels 1 to 3 at that center and makes, together with the protected people, a roster of different people
  whose number is between minimum and capacity - and candidates join requested people and known centers.
\<close>

theorem complete_validation_exact:
  "(validate_complete_problem people centers candidates = Inr ()) = well_formed_problem people centers candidates \<and>
   (\<exists>m. validate_complete_problem people centers candidates = Inl (ValueError m)) = (\<not> well_formed_problem people centers candidates)"
proof (cases "validate_complete_problem people centers candidates")
  case (Inl e)
  then obtain m where "e = ValueError m" using problem_value_error [of people centers candidates] by (auto simp: value_errors_only_def)
  then show ?thesis using Inl validate_complete_iff [of people centers candidates] by (simp add: well_formed_iff)
next
  case (Inr u)
  then show ?thesis using validate_complete_iff [of people centers candidates] by (simp add: well_formed_iff)
qed

text \<open>
  C7. \<open>solve_best_effort_schedule\<close> never strands a person another placement could keep: for distinct
  people and centers that pass its two checks it returns, its decisions are a placement within the
  capacities, no placement from the same candidates has more people, and exactly the people it did
  not place are reported as unplaced.
\<close>

theorem best_effort_places_most:
  assumes people: "distinct people" and names: "distinct (map cc_center centers)"
    and checks: "\<forall>c \<in> set centers. cc_crew_options c = [] \<and> cc_minimum c \<le> cc_capacity c"
  shows "\<exists>r ms. solve_best_effort_schedule people centers candidates = Some (Inr r) \<and>
    complete_placement people centers candidates ms \<and> mset (csr_decisions r) = mset (map decision ms) \<and>
    (\<forall>ms'. complete_placement people centers candidates ms' \<longrightarrow> length ms' \<le> length ms) \<and>
    set (csr_unplaced_people r) = set people - edge_person ` set ms \<and>
    (csr_complete r \<longleftrightarrow> length ms = length people)"
proof -
  have "check_each best_effort_center centers = Inr ()"
    using checks by (auto simp: check_each_Inr best_effort_center_def)
  moreover from complete_flow_chooses [OF people names, of candidates] obtain a ms where
    "complete_flow_attempt people centers candidates = Some a" "complete_placement people centers candidates ms"
    "att_decisions a = sort_decisions (map decision ms)"
    "att_placed_people a = sort_key lower (map dec_person (att_decisions a))"
    "att_all_people_placed a = (length ms = length people)"
    "\<forall>ms'. complete_placement people centers candidates ms' \<longrightarrow> length ms' \<le> length ms" by blast
  ultimately show ?thesis
    by (intro exI [of _ "attempt_result people a"] exI [of _ ms])
       (auto simp: solve_best_effort_schedule_def attempt_result_def image_iff)
qed

theorem best_effort_places_most_witness:
  "\<exists>r ms. solve_best_effort_schedule demo_people demo_centers demo_candidates = Some (Inr r) \<and>
     complete_placement demo_people demo_centers demo_candidates ms \<and> 2 \<le> length ms"
proof -
  have "distinct demo_people" "distinct (map cc_center demo_centers)"
    "\<forall>c \<in> set demo_centers. cc_crew_options c = [] \<and> cc_minimum c \<le> cc_capacity c" by code_simp+
  from best_effort_places_most [OF this] obtain r ms where
    "solve_best_effort_schedule demo_people demo_centers demo_candidates = Some (Inr r)"
    "complete_placement demo_people demo_centers demo_candidates ms"
    "\<forall>ms'. complete_placement demo_people demo_centers demo_candidates ms' \<longrightarrow> length ms' \<le> length ms" by blast
  moreover have "complete_placement demo_people demo_centers demo_candidates
      [demo_edge ''Bob'' ''R1'' 2, demo_edge ''Ann'' ''R2'' 5]" by code_simp
  ultimately show ?thesis by fastforce
qed

section \<open>The matching and the flow\<close>

text \<open>
  C8. \<open>_match_single_requirements\<close> returns, for distinct centers whose candidates are scoped to them,
  a matching of available people and centers with the most pairs and, among those, the fewest
  overrides, then the least clipped rank cost, then the first in the tie-break order.
\<close>

theorem single_matching_optimal:
  assumes "center_scoped reqs"
  shows "\<exists>ms. match_single reqs un = Some (Inr (sort_decisions (map decision ms))) \<and>
    valid_matching (single_edges reqs un) ms \<and>
    (\<forall>ms'. valid_matching (single_edges reqs un) ms' \<longrightarrow>
       length ms' \<le> length ms \<and>
       (length ms' = length ms \<longrightarrow>
          (edge_overrides ms, edge_ranks ms, matching_ties reqs un ms) \<le>
          (edge_overrides ms', edge_ranks ms', matching_ties reqs un ms')))"
  by (rule match_single_chooses [OF assms])

theorem single_matching_optimal_witness:
  "center_scoped demo_single \<and>
   (\<exists>ms. match_single demo_single {} = Some (Inr (sort_decisions (map decision ms))) \<and>
      valid_matching (single_edges demo_single {}) ms)"
proof -
  have "center_scoped demo_single" by code_simp
  then show ?thesis using single_matching_optimal [of demo_single "{}"] by blast
qed

text \<open>
  C9. \<open>_complete_flow_attempt\<close> returns for distinct people and centers; its decisions are a
  placement within the capacities with the most people placed, then the most required slots filled,
  then the fewest overrides, then the least clipped rank cost, over all placements from the
  candidates; \<open>unsatisfied_slots\<close> is exactly what is missing to the minimums.
\<close>

theorem flow_attempt_optimal:
  assumes "distinct people" and "distinct (map cc_center centers)"
  shows "\<exists>a ms. complete_flow_attempt people centers candidates = Some a \<and>
    complete_placement people centers candidates ms \<and>
    att_decisions a = sort_decisions (map decision ms) \<and>
    att_unsatisfied_slots a = required_total centers - required_filled centers ms \<and>
    (\<forall>ms'. complete_placement people centers candidates ms' \<longrightarrow> length ms' \<le> length ms \<and>
       (length ms' = length ms \<longrightarrow>
         (- required_filled centers ms, edge_overrides ms, edge_ranks ms) \<le>
         (- required_filled centers ms', edge_overrides ms', edge_ranks ms')))"
  using complete_flow_chooses [OF assms, of candidates] by blast

theorem flow_attempt_optimal_witness:
  "\<exists>a ms. complete_flow_attempt demo_people demo_centers demo_candidates = Some a \<and>
     complete_placement demo_people demo_centers demo_candidates ms"
proof -
  have "distinct demo_people" "distinct (map cc_center demo_centers)" by code_simp+
  from flow_attempt_optimal [OF this, of demo_candidates] show ?thesis by blast
qed

text \<open>
  C10. The augmenting loop of both solvers ends and yields a maximum flow of least cost: on a graph
  built by \<open>_add_arc\<close> from arcs with nonnegative capacities and a potential that bounds their
  negative costs (no negative cycle), the final residual graph reads as a flow, no flow has a larger
  value at the sink, and none of the same value is cheaper.
\<close>

theorem augmenting_flow_optimal:
  assumes "\<forall>sp \<in> set specs. spec_ok n sp" and "s < n" "t < n" "s \<noteq> t"
    and "\<forall>(u, v, c, w) \<in> set specs. c \<noteq> 0 \<longrightarrow> p v \<le> p u + w" and "p s = 0"
  shows "\<exists>h. flow_loop s t (built n specs) = Some h \<and>
    (let f = spec_flow h specs (built_slots n specs)
     in is_flow n specs s t f \<and>
        (\<forall>f'. is_flow n specs s t f' \<longrightarrow>
           net_flow specs f' t \<le> net_flow specs f t \<and>
           (net_flow specs f' t = net_flow specs f t \<longrightarrow> flow_cost specs f \<le> flow_cost specs f')))"
  by (rule flow_loop_optimal [OF assms])

theorem augmenting_flow_optimal_witness:
  "\<exists>h. flow_loop 0 2 (built 3 [(0, 1, 1, -2), (1, 2, 1, 3)]) = Some h"
proof -
  let ?p = "\<lambda>x :: nat. if x = 0 then 0 else - 2 :: int"
  have "\<forall>sp \<in> set [(0, 1, 1, -2), (1, 2, 1, 3)]. spec_ok 3 sp" by (simp add: spec_ok_def)
  moreover have "\<forall>(u, v, c, w) \<in> set [(0, 1, 1, -2), (1, 2, 1, 3)]. c \<noteq> (0 :: int) \<longrightarrow> ?p v \<le> ?p u + w" by simp
  ultimately show ?thesis using augmenting_flow_optimal [of "[(0, 1, 1, -2), (1, 2, 1, 3)]" 3 0 2 ?p] by auto
qed

end
