(* ===== verification/Python_Values.thy ===== *)
theory Python_Values
  imports Plant_Prelude
begin

text \<open>
  Dynamic Python values as the validating layers of the program receive them, their equality, and
  string-keyed dictionaries kept as association lists. A dictionary that is compared or stored is
  in key order without repeated keys (\<open>key_sorted\<close>), so that equal dictionaries are equal lists.
\<close>

section \<open>Values\<close>

text \<open>
  A \<open>datetime\<close> carries its UTC instant and its offset in microseconds; a naive one has no offset
  and its instant is its wall-clock reading. Floats do not occur in the rows and plans modelled.
  \<open>PyOther\<close> is any other object, known by its type's name and its identity.
\<close>

datatype pyvalue =
    PyNone
  | PyBool bool
  | PyInt int
  | PyStr string
  | PyDatetime datetime "timedelta option"
  | PyList "pyvalue list"
  | PyTuple "pyvalue list"
  | PyMap "(string \<times> pyvalue) list"
  | PyOther string nat

type_synonym dict = "(string \<times> pyvalue) list"

definition py_number :: "pyvalue \<Rightarrow> int option" where
  "py_number v = (case v of PyBool b \<Rightarrow> Some (of_bool b) | PyInt n \<Rightarrow> Some n | _ \<Rightarrow> None)"

text \<open>Python's \<open>==\<close>: booleans are the numbers 0 and 1, dictionaries compare by key.\<close>

function py_eq :: "pyvalue \<Rightarrow> pyvalue \<Rightarrow> bool" where
  "py_eq v w =
     (case v of
        PyNone \<Rightarrow> w = PyNone
      | PyBool b \<Rightarrow> py_number w = Some (of_bool b)
      | PyInt n \<Rightarrow> py_number w = Some n
      | PyStr s \<Rightarrow> w = PyStr s
      | PyDatetime t z \<Rightarrow> (case w of PyDatetime t' z' \<Rightarrow> t = t' \<and> (z = None \<longleftrightarrow> z' = None) | _ \<Rightarrow> False)
      | PyList xs \<Rightarrow> (case w of PyList ys \<Rightarrow> length xs = length ys \<and> (\<forall>(x, y) \<in> set (zip xs ys). py_eq x y) | _ \<Rightarrow> False)
      | PyTuple xs \<Rightarrow> (case w of PyTuple ys \<Rightarrow> length xs = length ys \<and> (\<forall>(x, y) \<in> set (zip xs ys). py_eq x y) | _ \<Rightarrow> False)
      | PyMap d \<Rightarrow> (case w of
            PyMap d' \<Rightarrow> length d = length d' \<and>
              (\<forall>(k, x) \<in> set d. case map_of d' k of None \<Rightarrow> False | Some y \<Rightarrow> py_eq x y)
          | _ \<Rightarrow> False)
      | PyOther ty i \<Rightarrow> w = PyOther ty i)"
  by pat_completeness auto
termination
proof (relation "measure (\<lambda>(v, _). size v)", goal_cases)
  case 1
  then show ?case by simp
next
  case 2
  then show ?case by (auto dest!: set_zip_leftD simp: less_Suc_eq_le intro: le_imp_less_Suc size_list_estimation')
next
  case 3
  then show ?case by (auto dest!: set_zip_leftD simp: less_Suc_eq_le intro: le_imp_less_Suc size_list_estimation')
next
  case 4
  then show ?case
    by (fastforce simp: less_Suc_eq_le size_prod_simp intro: size_list_estimation')
qed

declare py_eq.simps [simp del]


text \<open>\<open>d.get(name)\<close>\<close>

definition field :: "dict \<Rightarrow> string \<Rightarrow> pyvalue" where
  "field d name = (case map_of d name of Some v \<Rightarrow> v | None \<Rightarrow> PyNone)"

section \<open>Key-ordered dictionaries\<close>

definition key_sorted :: "('k::linorder \<times> 'v) list \<Rightarrow> bool" where
  "key_sorted d = sorted_wrt (<) (map fst d)"

text \<open>\<open>d[k] = v\<close> and \<open>d.pop(k, None)\<close>\<close>

fun put :: "'k::linorder \<Rightarrow> 'v \<Rightarrow> ('k \<times> 'v) list \<Rightarrow> ('k \<times> 'v) list" where
  "put k v [] = [(k, v)]"
| "put k v ((k', v') # d) =
     (if k < k' then (k, v) # (k', v') # d
      else if k = k' then (k, v) # d
      else (k', v') # put k v d)"

definition drop_key :: "'k \<Rightarrow> ('k \<times> 'v) list \<Rightarrow> ('k \<times> 'v) list" where
  "drop_key k d = filter (\<lambda>(k', _). k' \<noteq> k) d"

text \<open>\<open>d.update(changes)\<close>\<close>

definition put_all :: "('k::linorder \<times> 'v) list \<Rightarrow> ('k \<times> 'v) list \<Rightarrow> ('k \<times> 'v) list" where
  "put_all changes d = foldl (\<lambda>acc (k, v). put k v acc) d changes"

lemma key_sorted_Nil [simp]: "key_sorted []"
  by (simp add: key_sorted_def)

lemma key_sorted_Cons:
  "key_sorted ((k, v) # d) \<longleftrightarrow> (\<forall>k' \<in> fst ` set d. k < k') \<and> key_sorted d"
  by (simp add: key_sorted_def)

lemma key_sorted_distinct: "key_sorted d \<Longrightarrow> distinct (map fst d)"
  unfolding key_sorted_def by (induction d) auto

lemma keys_put [simp]: "fst ` set (put k v d) = insert k (fst ` set d)"
  by (induction k v d rule: put.induct) auto

lemma key_sorted_put [simp]: "key_sorted d \<Longrightarrow> key_sorted (put k v d)"
  by (induction k v d rule: put.induct) (auto simp: key_sorted_Cons)

lemma map_of_put [simp]: "map_of (put k v d) = (map_of d)(k \<mapsto> v)"
  by (induction k v d rule: put.induct) (auto simp: fun_eq_iff)

lemma key_sorted_filter [simp]: "key_sorted d \<Longrightarrow> key_sorted (filter P d)"
  unfolding key_sorted_def by (induction d) auto

lemma map_of_filter_keys: "map_of (filter (\<lambda>(k, _). P k) d) = (\<lambda>k. if P k then map_of d k else None)"
  by (induction d) (auto simp: fun_eq_iff)

lemma key_sorted_drop [simp]: "key_sorted d \<Longrightarrow> key_sorted (drop_key k d)"
  by (simp add: drop_key_def)

lemma map_of_drop [simp]: "map_of (drop_key k d) = (map_of d)(k := None)"
  using map_of_filter_keys [of "\<lambda>k'. k' \<noteq> k" d] by (auto simp: drop_key_def fun_eq_iff)

lemma put_all_simps [simp]:
  "put_all [] d = d"
  "put_all ((k, v) # changes) d = put_all changes (put k v d)"
  by (simp_all add: put_all_def)

lemma key_sorted_put_all [simp]: "key_sorted d \<Longrightarrow> key_sorted (put_all changes d)"
  by (induction changes arbitrary: d) auto

lemma map_of_put_all:
  "distinct (map fst changes) \<Longrightarrow> map_of (put_all changes d) = map_of d ++ map_of changes"
proof (induction changes arbitrary: d)
  case (Cons c changes)
  obtain k v where c: "c = (k, v)" by (cases c)
  then have "map_of changes k = None" using Cons.prems by (auto simp: map_of_eq_None_iff)
  then show ?case using Cons by (auto simp: c fun_eq_iff map_add_def split: option.splits)
qed simp

lemma key_sorted_ext:
  "key_sorted d \<Longrightarrow> key_sorted d' \<Longrightarrow> map_of d = map_of d' \<Longrightarrow> d = d'"
proof (induction d arbitrary: d')
  case Nil
  then show ?case by (cases d') (auto dest: fun_cong [of _ _ "fst (hd d')"] split: if_splits)
next
  case (Cons p d)
  obtain k v where p: "p = (k, v)" by (cases p)
  have dom: "fst ` set (p # d) = fst ` set d'" using Cons.prems(3) by (metis dom_map_of_conv_image_fst)
  then obtain q e where d': "d' = q # e" by (cases d') auto
  obtain k' v' where q: "q = (k', v')" by (cases q)
  have low: "\<forall>x \<in> fst ` set d. k < x" "\<forall>x \<in> fst ` set e. k' < x" "key_sorted d" "key_sorted e"
    using Cons.prems(1,2) by (simp_all add: p d' q key_sorted_Cons)
  have "k = k'"
  proof (rule ccontr)
    assume ne: "k \<noteq> k'"
    have "k \<in> fst ` set e" "k' \<in> fst ` set d" using dom ne by (auto simp: p d' q)
    then show False using low by (meson less_asym)
  qed
  moreover have "v = v'" using fun_cong [OF Cons.prems(3), of k] calculation by (simp add: p d' q)
  moreover have "map_of d = map_of e"
  proof
    fix x
    show "map_of d x = map_of e x"
    proof (cases "x = k")
      case True
      have "k \<notin> fst ` set d" "k \<notin> fst ` set e" using low calculation(1) by auto
      then show ?thesis using True by (metis map_of_eq_None_iff)
    next
      case False
      then show ?thesis using fun_cong [OF Cons.prems(3), of x] calculation(1) by (simp add: p d' q)
    qed
  qed
  then have "d = e" by (rule Cons.IH [OF low(3,4)])
  moreover have "k = k'" "v = v'" by fact+
  ultimately show ?case by (simp add: p d' q)
qed

lemma key_sorted_sort: "distinct (map fst d) \<Longrightarrow> key_sorted (sort_key fst d)"
  unfolding key_sorted_def by (simp add: strict_sorted_iff)

lemma map_of_sort_key: "distinct (map fst d) \<Longrightarrow> map_of (sort_key fst d) = map_of d"
  by (subst map_of_inject_set) simp_all

section \<open>Freezing\<close>

text \<open>
  \<open>_freeze_value\<close> and \<open>_FrozenMapping\<close>: values are frozen in key order, so the first failing key in
  that order decides the error.
\<close>

definition freeze_datetime :: "datetime \<Rightarrow> timedelta option \<Rightarrow> pyvalue result" where
  "freeze_datetime t z =
     (case z of
        None \<Rightarrow> Inl (TypeError ''datetime value must be an aware UTC datetime'')
      | Some offset \<Rightarrow> if offset \<noteq> 0 then Inl (ValueError ''datetime value must use UTC'')
                       else Inr (PyDatetime t (Some 0)))"

definition named_result :: "string \<times> 'a result \<Rightarrow> (string \<times> 'a) result" where
  "named_result kr = (case kr of (k, r) \<Rightarrow> rbind r (\<lambda>v. Inr (k, v)))"

definition frozen_items :: "(string \<times> pyvalue result) list \<Rightarrow> dict result" where
  "frozen_items items = rmap named_result (sort_key fst items)"

function freeze_value :: "pyvalue \<Rightarrow> pyvalue result" where
  "freeze_value v =
     (case v of
        PyDatetime t z \<Rightarrow> freeze_datetime t z
      | PyMap d \<Rightarrow> rbind (frozen_items (map (\<lambda>(k, x). (k, freeze_value x)) d)) (\<lambda>d'. Inr (PyMap d'))
      | PyList xs \<Rightarrow> rbind (rmap (\<lambda>r. r) (map freeze_value xs)) (\<lambda>ys. Inr (PyTuple ys))
      | PyTuple xs \<Rightarrow> rbind (rmap (\<lambda>r. r) (map freeze_value xs)) (\<lambda>ys. Inr (PyTuple ys))
      | PyOther ty i \<Rightarrow> Inl (TypeError (''unsupported immutable plan value: '' @ ty))
      | _ \<Rightarrow> Inr v)"
  by pat_completeness auto
termination
proof (relation "measure size", goal_cases)
  case 1
  then show ?case by simp
next
  case 2
  then show ?case
    by (fastforce simp: less_Suc_eq_le size_prod_simp intro: size_list_estimation')
qed (auto simp: less_Suc_eq_le intro: le_imp_less_Suc size_list_estimation')

declare freeze_value.simps [simp del]

definition freeze_mapping :: "dict \<Rightarrow> dict result" where
  "freeze_mapping d = frozen_items (map (\<lambda>(k, x). (k, freeze_value x)) d)"

lemma freeze_value_simps:
  "freeze_value PyNone = Inr PyNone"
  "freeze_value (PyBool b) = Inr (PyBool b)"
  "freeze_value (PyInt n) = Inr (PyInt n)"
  "freeze_value (PyStr s) = Inr (PyStr s)"
  "freeze_value (PyDatetime t (Some 0)) = Inr (PyDatetime t (Some 0))"
  "freeze_value (PyMap d) = rbind (freeze_mapping d) (\<lambda>d'. Inr (PyMap d'))"
  "freeze_value (PyTuple xs) = rbind (rmap (\<lambda>r. r) (map freeze_value xs)) (\<lambda>ys. Inr (PyTuple ys))"
  "freeze_value (PyList xs) = rbind (rmap (\<lambda>r. r) (map freeze_value xs)) (\<lambda>ys. Inr (PyTuple ys))"
  by (simp_all add: freeze_value.simps [of "PyMap d" for d] freeze_value.simps freeze_mapping_def freeze_datetime_def)

text \<open>Values whose dictionaries have no repeated keys, and values that freezing leaves alone.\<close>

function value_ok :: "pyvalue \<Rightarrow> bool" where
  "value_ok v =
     (case v of
        PyMap d \<Rightarrow> distinct (map fst d) \<and> (\<forall>(k, x) \<in> set d. value_ok x)
      | PyList xs \<Rightarrow> (\<forall>x \<in> set xs. value_ok x)
      | PyTuple xs \<Rightarrow> (\<forall>x \<in> set xs. value_ok x)
      | _ \<Rightarrow> True)"
  by pat_completeness auto
termination
proof (relation "measure size", goal_cases)
  case 1
  then show ?case by simp
next
  case 2
  then show ?case by (fastforce simp: less_Suc_eq_le size_prod_simp intro: size_list_estimation')
qed (auto simp: less_Suc_eq_le intro: le_imp_less_Suc size_list_estimation')

function frozen :: "pyvalue \<Rightarrow> bool" where
  "frozen v =
     (case v of
        PyDatetime t z \<Rightarrow> z = Some 0
      | PyMap d \<Rightarrow> key_sorted d \<and> (\<forall>(k, x) \<in> set d. frozen x)
      | PyList xs \<Rightarrow> False
      | PyTuple xs \<Rightarrow> (\<forall>x \<in> set xs. frozen x)
      | PyOther ty i \<Rightarrow> False
      | _ \<Rightarrow> True)"
  by pat_completeness auto
termination
proof (relation "measure size", goal_cases)
  case 1
  then show ?case by simp
next
  case 2
  then show ?case by (fastforce simp: less_Suc_eq_le size_prod_simp intro: size_list_estimation')
qed (auto simp: less_Suc_eq_le intro: le_imp_less_Suc size_list_estimation')

declare value_ok.simps [simp del] frozen.simps [simp del]

definition frozen_dict :: "dict \<Rightarrow> bool" where
  "frozen_dict d = (key_sorted d \<and> (\<forall>x \<in> snd ` set d. frozen x))"

definition dict_ok :: "dict \<Rightarrow> bool" where
  "dict_ok d = (distinct (map fst d) \<and> (\<forall>x \<in> snd ` set d. value_ok x))"

lemma frozen_simps [simp]:
  "frozen PyNone" "frozen (PyBool b)" "frozen (PyInt n)" "frozen (PyStr s)"
  "frozen (PyDatetime t z) \<longleftrightarrow> z = Some 0"
  "frozen (PyMap d) \<longleftrightarrow> frozen_dict d"
  "frozen (PyTuple xs) \<longleftrightarrow> (\<forall>x \<in> set xs. frozen x)"
  "\<not> frozen (PyList xs)" "\<not> frozen (PyOther ty i)"
  by (auto simp: frozen.simps [of "PyMap d"] frozen.simps frozen_dict_def)

lemma value_ok_simps [simp]:
  "value_ok (PyMap d) \<longleftrightarrow> dict_ok d"
  "value_ok (PyTuple xs) \<longleftrightarrow> (\<forall>x \<in> set xs. value_ok x)"
  "value_ok (PyList xs) \<longleftrightarrow> (\<forall>x \<in> set xs. value_ok x)"
  by (auto simp: value_ok.simps [of "PyMap d"] value_ok.simps dict_ok_def)

lemma rmap_same: "(\<And>x. x \<in> set xs \<Longrightarrow> f x = Inr (g x)) \<Longrightarrow> rmap f xs = Inr (map g xs)"
  by (induction xs) auto

lemma freeze_frozen: "frozen v \<Longrightarrow> freeze_value v = Inr v"
proof (induction v)
  case (PyMap d)
  have each: "freeze_value x = Inr x" if "(k, x) \<in> set d" for k x
    using PyMap.IH [of "(k, x)" x] PyMap.prems that by (force simp: frozen_dict_def)
  have "sort_key fst (map (\<lambda>(k, x). (k, freeze_value x)) d) = map (\<lambda>(k, x). (k, freeze_value x)) d"
    using PyMap.prems by (intro sort_key_id_if_sorted)
      (auto simp: frozen_dict_def key_sorted_def case_prod_unfold comp_def strict_sorted_iff)
  then have "freeze_mapping d = rmap named_result (map (\<lambda>(k, x). (k, freeze_value x)) d)"
    by (simp add: freeze_mapping_def frozen_items_def)
  also have "\<dots> = Inr (map (\<lambda>(k, r). (k, projr r)) (map (\<lambda>(k, x). (k, freeze_value x)) d))"
    by (rule rmap_same) (auto simp: named_result_def each)
  also have "map (\<lambda>(k, r). (k, projr r)) (map (\<lambda>(k, x). (k, freeze_value x)) d) = d"
    unfolding map_map by (rule map_idI) (auto simp: each)
  finally show ?case by (simp add: freeze_value_simps)
next
  case (PyTuple xs)
  have "rmap (\<lambda>r. r) (map freeze_value xs) = Inr (map projr (map freeze_value xs))"
    by (rule rmap_same) (use PyTuple in auto)
  moreover have "map projr (map freeze_value xs) = xs" using PyTuple by (auto intro: map_idI)
  ultimately show ?case by (simp add: freeze_value_simps)
qed (simp_all add: freeze_value_simps)

lemma freeze_frozen_mapping: "frozen_dict d \<Longrightarrow> freeze_mapping d = Inr d"
  using freeze_frozen [of "PyMap d"] by (auto simp: freeze_value_simps rbind_Inr_iff)

lemma py_eq_refl: "value_ok v \<Longrightarrow> py_eq v v"
proof (induction v)
  case (PyMap d)
  have "\<forall>(k, x) \<in> set d. map_of d k = Some x \<and> py_eq x x"
    using PyMap by (fastforce simp: dict_ok_def)
  then show ?case by (auto simp: py_eq.simps [of "PyMap d"])
next
  case (PyList xs)
  then show ?case by (auto simp: py_eq.simps [of "PyList xs"] zip_same)
next
  case (PyTuple xs)
  then show ?case by (auto simp: py_eq.simps [of "PyTuple xs"] zip_same)
qed (simp_all add: py_eq.simps py_number_def)

lemma frozen_value_ok: "frozen v \<Longrightarrow> value_ok v"
proof (induction v)
  case (PyMap d)
  then show ?case using key_sorted_distinct [of d] by (fastforce simp: dict_ok_def frozen_dict_def)
qed (auto simp: value_ok.simps)

lemma frozen_dict_ok: "frozen_dict d \<Longrightarrow> dict_ok d"
  using frozen_value_ok [of "PyMap d"] by simp

lemma frozen_dict_eq: "frozen_dict d \<Longrightarrow> py_eq (PyMap d) (PyMap d)"
  by (rule py_eq_refl) (simp add: frozen_dict_ok)

lemma rmap_members: "rmap f xs = Inr ys \<Longrightarrow> y \<in> set ys \<Longrightarrow> \<exists>x \<in> set xs. f x = Inr y"
  by (induction xs arbitrary: ys) (auto simp: rbind_Inr_iff)

lemma freeze_value_frozen: "value_ok v \<Longrightarrow> freeze_value v = Inr w \<Longrightarrow> frozen w"
proof (induction v arbitrary: w)
  case (PyDatetime t z)
  then show ?case by (auto simp: freeze_value.simps freeze_datetime_def split: option.splits if_splits)
next
  case (PyMap d)
  then obtain e where e: "w = PyMap e" "freeze_mapping d = Inr e" by (auto simp: freeze_value_simps rbind_Inr_iff)
  let ?items = "sort_key fst (map (\<lambda>(k, x). (k, freeze_value x)) d)"
  have run: "rmap named_result ?items = Inr e" using e(2) by (simp add: freeze_mapping_def frozen_items_def)
  have "map fst ys = map fst xs" if "rmap named_result xs = Inr ys" for xs ys
    using that by (induction xs arbitrary: ys) (auto simp: rbind_Inr_iff named_result_def)
  from this [OF run] have "map fst e = map fst ?items" .
  moreover have "distinct (map fst d)" using PyMap.prems by (simp add: dict_ok_def)
  ultimately have "key_sorted e"
    using key_sorted_sort [of "map (\<lambda>(k, x). (k, freeze_value x)) d"]
    by (simp add: key_sorted_def case_prod_unfold comp_def)
  moreover have "frozen x" if mem: "(k, x) \<in> set e" for k x
  proof -
    from rmap_members [OF run mem] obtain y where "(k, y) \<in> set d" "freeze_value y = Inr x"
      by (auto simp: named_result_def rbind_Inr_iff)
    moreover have "value_ok y" using PyMap.prems(1) calculation(1) by (force simp: dict_ok_def)
    ultimately show ?thesis using PyMap.IH [of "(k, y)" y] by simp
  qed
  ultimately show ?case by (auto simp: e(1) frozen_dict_def)
next
  case (PyList xs)
  then obtain ys where ys: "w = PyTuple ys" "rmap (\<lambda>r. r) (map freeze_value xs) = Inr ys"
    by (auto simp: freeze_value_simps rbind_Inr_iff)
  have "frozen y" if "y \<in> set ys" for y
    using rmap_members [OF ys(2) that] PyList.IH PyList.prems(1) by auto
  then show ?case by (simp add: ys(1))
next
  case (PyTuple xs)
  then obtain ys where ys: "w = PyTuple ys" "rmap (\<lambda>r. r) (map freeze_value xs) = Inr ys"
    by (auto simp: freeze_value_simps rbind_Inr_iff)
  have "frozen y" if "y \<in> set ys" for y
    using rmap_members [OF ys(2) that] PyTuple.IH PyTuple.prems(1) by auto
  then show ?case by (simp add: ys(1))
qed (auto simp: freeze_value.simps)

lemma freeze_mapping_frozen: "dict_ok d \<Longrightarrow> freeze_mapping d = Inr e \<Longrightarrow> frozen_dict e"
  using freeze_value_frozen [of "PyMap d" "PyMap e"] by (simp add: freeze_value_simps)

lemma frozen_dict_put [simp]: "frozen_dict d \<Longrightarrow> frozen v \<Longrightarrow> frozen_dict (put k v d)"
proof -
  assume d: "frozen_dict d" "frozen v"
  have "snd ` set (put k v d) \<subseteq> insert v (snd ` set d)"
    by (induction k v d rule: put.induct) auto
  then show ?thesis using d unfolding frozen_dict_def by (auto dest!: subsetD)
qed

lemma frozen_dict_filter [simp]: "frozen_dict d \<Longrightarrow> frozen_dict (filter P d)"
  by (auto simp: frozen_dict_def)

lemma frozen_dict_drop [simp]: "frozen_dict d \<Longrightarrow> frozen_dict (drop_key k d)"
  by (simp add: drop_key_def)

lemma frozen_dict_Nil [simp]: "frozen_dict []"
  by (simp add: frozen_dict_def)

lemma frozen_dict_put_all [simp]:
  "frozen_dict d \<Longrightarrow> \<forall>(k, v) \<in> set changes. frozen v \<Longrightarrow> frozen_dict (put_all changes d)"
  by (induction changes arbitrary: d) auto

lemma frozen_dict_ext: "frozen_dict d \<Longrightarrow> frozen_dict e \<Longrightarrow> map_of d = map_of e \<Longrightarrow> d = e"
  by (rule key_sorted_ext) (simp_all add: frozen_dict_def)

end
