(* ===== verification/Attendance_Rows.thy ===== *)
theory Attendance_Rows
  imports Python_Values
begin

text \<open>
  The rows of the attendance mirror as \<open>attendance_timeline.py\<close> reads them (lines 52-183): the
  validation of a raw mapping into a \<open>_SourceRow\<close> and the normalisation of a whole feed. A raw row
  is a dictionary of dynamically typed values (\<open>Python_Values\<close>).
\<close>

section \<open>Validators\<close>

type_synonym raw_row = dict

definition aware_utc :: "pyvalue \<Rightarrow> string \<Rightarrow> datetime result" where
  "aware_utc v field_name =
     (case v of
        PyDatetime t (Some offset) \<Rightarrow>
          if offset \<noteq> 0 then Inl (ValueError (field_name @ '' must be an aware UTC datetime''))
          else Inr t
      | _ \<Rightarrow> Inl (TypeError (field_name @ '' must be an aware UTC datetime'')))"

definition optional_aware_utc :: "pyvalue \<Rightarrow> string \<Rightarrow> datetime option result" where
  "optional_aware_utc v field_name =
     (if v = PyNone then Inr None else rbind (aware_utc v field_name) (\<lambda>t. Inr (Some t)))"

definition positive_int :: "pyvalue \<Rightarrow> string \<Rightarrow> int result" where
  "positive_int v field_name =
     (case v of
        PyInt n \<Rightarrow> if n \<le> 0 then Inl (ValueError (field_name @ '' must be a positive integer'')) else Inr n
      | _ \<Rightarrow> Inl (ValueError (field_name @ '' must be a positive integer'')))"

definition optional_positive_int :: "pyvalue \<Rightarrow> string \<Rightarrow> int option result" where
  "optional_positive_int v field_name =
     (if v = PyNone then Inr None else rbind (positive_int v field_name) (\<lambda>n. Inr (Some n)))"

text \<open>\<open>not value.strip()\<close>: only white space.\<close>

definition is_space :: "char \<Rightarrow> bool" where
  "is_space c = (of_char c \<in> {9, 10, 11, 12, 13, 28, 29, 30, 31, 32 :: nat})"

definition text_of :: "pyvalue \<Rightarrow> string \<Rightarrow> string result" where
  "text_of v field_name =
     (case v of
        PyStr s \<Rightarrow> if list_all is_space s then Inl (TypeError (field_name @ '' must be non-empty text''))
                   else Inr s
      | _ \<Rightarrow> Inl (TypeError (field_name @ '' must be non-empty text'')))"

definition optional_text :: "pyvalue \<Rightarrow> string \<Rightarrow> string option result" where
  "optional_text v field_name =
     (case v of
        PyNone \<Rightarrow> Inr None
      | PyStr s \<Rightarrow> Inr (Some s)
      | _ \<Rightarrow> Inl (TypeError (field_name @ '' must be text or None'')))"

section \<open>Source rows\<close>

record source_row =
  attendance_id :: int
  employee_id :: int
  employee_name :: string
  check_in :: datetime
  check_out :: "datetime option"
  work_center_id :: "int option"
  work_center_name :: "string option"
  department_id :: "int option"
  department_name :: "string option"
  wage_type :: "string option"
  write_date :: datetime

definition effective_end :: "datetime \<Rightarrow> source_row \<Rightarrow> datetime" where
  "effective_end as_of_utc source =
     (case check_out source of Some t \<Rightarrow> t | None \<Rightarrow> as_of_utc)"

definition row_fields :: "string list" where
  "row_fields =
     [''odoo_attendance_id'', ''employee_odoo_id'', ''employee_name'', ''check_in_utc'',
      ''check_out_utc'', ''odoo_work_center_id'', ''odoo_work_center_name'',
      ''odoo_department_id'', ''odoo_department_name'', ''odoo_write_date'']"

definition source_row_of :: "raw_row \<Rightarrow> source_row result" where
  "source_row_of raw =
     (let missing = filter (\<lambda>name. map_of raw name = None) row_fields
      in if missing \<noteq> []
         then Inl (ValueError (''attendance row omitted required field(s): '' @ join_names missing))
         else
           rbind (aware_utc (field raw ''check_in_utc'') ''check_in_utc'') (\<lambda>cin.
           rbind (optional_aware_utc (field raw ''check_out_utc'') ''check_out_utc'') (\<lambda>cout.
           rbind (guard_error (case cout of Some t \<Rightarrow> t \<le> cin | None \<Rightarrow> False)
                    (ValueError ''check_out_utc must be after check_in_utc'')) (\<lambda>_.
           rbind (positive_int (field raw ''odoo_attendance_id'') ''odoo_attendance_id'') (\<lambda>aid.
           rbind (positive_int (field raw ''employee_odoo_id'') ''employee_odoo_id'') (\<lambda>eid.
           rbind (text_of (field raw ''employee_name'') ''employee_name'') (\<lambda>ename.
           rbind (optional_positive_int (field raw ''odoo_work_center_id'') ''odoo_work_center_id'') (\<lambda>wid.
           rbind (optional_text (field raw ''odoo_work_center_name'') ''odoo_work_center_name'') (\<lambda>wname.
           rbind (optional_positive_int (field raw ''odoo_department_id'') ''odoo_department_id'') (\<lambda>did.
           rbind (optional_text (field raw ''odoo_department_name'') ''odoo_department_name'') (\<lambda>dname.
           rbind (optional_text (field raw ''employee_wage_type'') ''employee_wage_type'') (\<lambda>wtype.
           rbind (aware_utc (field raw ''odoo_write_date'') ''odoo_write_date'') (\<lambda>wdate.
             Inr \<lparr>attendance_id = aid, employee_id = eid, employee_name = ename, check_in = cin,
                  check_out = cout, work_center_id = wid, work_center_name = wname,
                  department_id = did, department_name = dname, wage_type = wtype,
                  write_date = wdate\<rparr>)))))))))))))"

text \<open>The loop of \<open>_normalize_rows\<close>: the ids and names seen so far, and the rows accepted.\<close>

fun normalize_loop ::
    "raw_row list \<Rightarrow> int set \<Rightarrow> (int \<rightharpoonup> string) \<Rightarrow> source_row list \<Rightarrow> source_row list result" where
  "normalize_loop [] attendance_ids employee_names normalized = Inr normalized"
| "normalize_loop (raw # rows) attendance_ids employee_names normalized =
     rbind (source_row_of raw) (\<lambda>source.
     if attendance_id source \<in> attendance_ids
     then Inl (ValueError (''duplicate odoo_attendance_id '' @ show_int (attendance_id source)))
     else
       let prior_name = (case employee_names (employee_id source) of
             Some n \<Rightarrow> n | None \<Rightarrow> employee_name source)
       in if prior_name \<noteq> employee_name source
          then Inl (ValueError (''inconsistent employee identity for employee_odoo_id ''
                 @ show_int (employee_id source)))
          else normalize_loop rows (insert (attendance_id source) attendance_ids)
                 (employee_names(employee_id source \<mapsto> prior_name)) (normalized @ [source]))"

definition row_key :: "source_row \<Rightarrow> int \<times> datetime \<times> int" where
  "row_key source = (employee_id source, check_in source, attendance_id source)"

definition normalize_rows :: "raw_row list \<Rightarrow> source_row list result" where
  "normalize_rows rows =
     rbind (normalize_loop rows {} (\<lambda>_. None) []) (\<lambda>normalized. Inr (sort_key row_key normalized))"

section \<open>What normalisation guarantees\<close>

definition row_ok :: "source_row \<Rightarrow> bool" where
  "row_ok source =
     (0 < attendance_id source \<and> 0 < employee_id source \<and> employee_name source \<noteq> [] \<and>
      (case check_out source of Some t \<Rightarrow> check_in source < t | None \<Rightarrow> True) \<and>
      (case work_center_id source of Some w \<Rightarrow> 0 < w | None \<Rightarrow> True) \<and>
      (case department_id source of Some d \<Rightarrow> 0 < d | None \<Rightarrow> True))"

definition rows_ok :: "source_row list \<Rightarrow> bool" where
  "rows_ok rows =
     ((\<forall>r \<in> set rows. row_ok r) \<and> distinct (map attendance_id rows) \<and>
      (\<exists>name_of. \<forall>r \<in> set rows. employee_name r = name_of (employee_id r)))"

lemma positive_int_Inr: "positive_int v f = Inr n \<Longrightarrow> 0 < n"
  by (auto simp: positive_int_def split: pyvalue.splits if_splits)

lemma optional_positive_int_Inr:
  "optional_positive_int v f = Inr x \<Longrightarrow> (case x of Some n \<Rightarrow> 0 < n | None \<Rightarrow> True)"
  by (auto simp: optional_positive_int_def dest: positive_int_Inr split: if_splits)

lemma text_of_Inr: "text_of v f = Inr s \<Longrightarrow> s \<noteq> []"
  by (auto simp: text_of_def split: pyvalue.splits if_splits)

lemma source_row_of_ok:
  assumes "source_row_of raw = Inr r"
  shows "row_ok r"
proof -
  have "filter (\<lambda>name. map_of raw name = None) row_fields = []"
    using assms unfolding source_row_of_def Let_def by (cases "filter (\<lambda>name. map_of raw name = None) row_fields = []") simp_all
  with assms show ?thesis
    unfolding source_row_of_def Let_def
    apply (simp only: if_False not_True_eq_False simp_thms if_True)
    apply (elim rbind_InrE)
    apply (drule sum.inject(2) [THEN iffD1])
    apply (simp only: guard_error_Inr)
    apply (drule positive_int_Inr, drule positive_int_Inr, drule text_of_Inr)
    apply (drule optional_positive_int_Inr, drule optional_positive_int_Inr)
    subgoal for cin cout u aid eid ename wid wname did dname wtype wdate
      unfolding row_ok_def
      apply hypsubst
      apply (simp only: source_row.select_convs)
      apply (cases cout)
       apply (simp_all only: option.case not_le simp_thms)
      done
    done
qed

lemma normalize_step:
  assumes "normalize_loop (raw # rows) ids names acc = Inr out"
  obtains r where "source_row_of raw = Inr r" and "attendance_id r \<notin> ids"
    and "names (employee_id r) = None \<or> names (employee_id r) = Some (employee_name r)"
    and "normalize_loop rows (insert (attendance_id r) ids) (names(employee_id r \<mapsto> employee_name r)) (acc @ [r]) = Inr out"
proof -
  from assms obtain r where r: "source_row_of raw = Inr r" by (auto simp: rbind_Inr_iff)
  show ?thesis
  proof (rule that [OF r])
    show "attendance_id r \<notin> ids" using assms r by (auto split: if_splits)
    show "names (employee_id r) = None \<or> names (employee_id r) = Some (employee_name r)"
      using assms r by (auto simp: Let_def split: if_splits option.splits)
    then show "normalize_loop rows (insert (attendance_id r) ids) (names(employee_id r \<mapsto> employee_name r)) (acc @ [r]) = Inr out"
      using assms r by (auto simp: Let_def split: if_splits)
  qed
qed

lemma normalize_loop_ok:
  assumes "normalize_loop rows ids names acc = Inr out"
    and "rows_ok acc" and "ids = attendance_id ` set acc"
    and "\<forall>r \<in> set acc. names (employee_id r) = Some (employee_name r)"
  shows "rows_ok out"
  using assms
proof (induction rows arbitrary: ids names acc)
  case (Cons raw rows)
  from normalize_step [OF Cons.prems(1)] obtain r where r: "source_row_of raw = Inr r" "attendance_id r \<notin> ids"
    and name: "names (employee_id r) = None \<or> names (employee_id r) = Some (employee_name r)"
    and rest: "normalize_loop rows (insert (attendance_id r) ids) (names(employee_id r \<mapsto> employee_name r)) (acc @ [r]) = Inr out" .
  show ?case
  proof (rule Cons.IH [OF rest])
    from Cons.prems(2) obtain name_of where
      names: "\<forall>a \<in> set acc. employee_name a = name_of (employee_id a)" by (auto simp: rows_ok_def)
    have same: "employee_name a = employee_name r" if "a \<in> set acc" "employee_id a = employee_id r" for a
      using Cons.prems(4) that name by fastforce
    have "\<forall>a \<in> set (acc @ [r]). employee_name a = (name_of(employee_id r := employee_name r)) (employee_id a)"
      using names same by auto
    then have "\<exists>name_of. \<forall>a \<in> set (acc @ [r]). employee_name a = name_of (employee_id a)" by blast
    then show "rows_ok (acc @ [r])"
      using Cons.prems(2,3) r(2) source_row_of_ok [OF r(1)] unfolding rows_ok_def by simp
    show "insert (attendance_id r) ids = attendance_id ` set (acc @ [r])" using Cons.prems(3) by simp
    show "\<forall>a \<in> set (acc @ [r]). (names(employee_id r \<mapsto> employee_name r)) (employee_id a) = Some (employee_name a)"
      using Cons.prems(4) same by auto
  qed
qed simp

lemma normalize_rows_ok:
  assumes "normalize_rows rows = Inr out"
  shows "rows_ok out" and "sorted (map row_key out)"
proof -
  from assms obtain n where n: "normalize_loop rows {} (\<lambda>_. None) [] = Inr n" "out = sort_key row_key n"
    by (auto simp: normalize_rows_def)
  have "rows_ok n" by (rule normalize_loop_ok [OF n(1)]) (simp_all add: rows_ok_def)
  moreover have "distinct (map attendance_id out) = distinct (map attendance_id n)"
    unfolding n(2) by (metis mset_eq_imp_distinct_iff mset_map mset_sort)
  ultimately show "rows_ok out" by (simp add: rows_ok_def n(2))
  show "sorted (map row_key out)" by (simp add: n(2))
qed

end
