(* ===== verification/Attendance_Timeline.thy ===== *)
theory Attendance_Timeline
  imports Attendance_Rows
begin

text \<open>
  The projection of attendance rows into location spans (\<open>attendance_timeline.py\<close>, lines 23-81 and
  186-601). The site calendar (\<open>zoneinfo\<close>) and the three lookups of the caller are parameters of
  the projection.
\<close>

section \<open>Spans\<close>

datatype location_status =
    Valid_Location | Pending_First_Location | Exempt_No_Location | Missing_Required_Location
  | Unmapped_Location | Conflicting_Location | Stale_Open_Location

record location_span =
  ls_employee_id :: int
  ls_employee_name :: string
  ls_start :: datetime
  ls_end :: datetime
  ls_status :: location_status
  ls_app_work_center :: "string option"
  ls_odoo_work_center_id :: "int option"
  ls_odoo_work_center_name :: "string option"
  ls_attendance_ids :: "int list"
  ls_department_repair :: "(int \<times> int \<times> datetime) option"
  ls_is_open :: bool

record day_state =
  day_start_utc :: datetime
  day_end_utc :: datetime
  grace_boundary :: datetime
  first_work_center_at :: "datetime option"

text \<open>
  The parameters of a projection: the calendar of the site (local midnight of a day number as an
  instant, and the day number of an instant), the lookups, and the durations.
\<close>

record projection =
  day_start :: "int \<Rightarrow> datetime"
  local_day :: "datetime \<Rightarrow> int"
  map_work_center :: "int \<Rightarrow> string option"
  department_requirement :: "string option \<Rightarrow> bool"
  expected_department :: "string \<Rightarrow> int option"
  as_of_utc :: datetime
  verified_through :: datetime
  grace_duration :: timedelta
  stale_duration :: timedelta

section \<open>Helpers of a slice\<close>

definition max_first :: "('a \<Rightarrow> 'b::linorder) \<Rightarrow> 'a list \<Rightarrow> 'a" where
  "max_first key xs = foldl (\<lambda>m x. if key m < key x then x else m) (hd xs) (tl xs)"

definition raw_work_center_name :: "source_row list \<Rightarrow> int \<Rightarrow> string option" where
  "raw_work_center_name active wc =
     (let named = filter (\<lambda>s. work_center_id s = Some wc \<and> work_center_name s \<noteq> None) active
      in if named = [] then None
         else work_center_name (max_first (\<lambda>s. (write_date s, attendance_id s)) named))"

definition requires_location :: "projection \<Rightarrow> source_row \<Rightarrow> bool" where
  "requires_location pr source =
     (if wage_type source = Some ''monthly'' then False
      else department_requirement pr (department_name source))"

definition validated_expected_department :: "int option \<Rightarrow> int option result" where
  "validated_expected_department v =
     (case v of
        None \<Rightarrow> Inr None
      | Some d \<Rightarrow> if d \<le> 0
          then Inl (TypeError ''expected_department_id must return a positive integer or None'')
          else Inr (Some d))"

definition department_repair ::
    "source_row list \<Rightarrow> int \<Rightarrow> int option \<Rightarrow> (int \<times> int \<times> datetime) option result" where
  "department_repair active wc target =
     (case target of
        None \<Rightarrow> Inr None
      | Some target_id \<Rightarrow>
          (let candidates = sort_key attendance_id
                 (filter (\<lambda>s. work_center_id s = Some wc \<and> department_id s \<noteq> Some target_id) active)
           in case candidates of
                [] \<Rightarrow> Inr None
              | [s] \<Rightarrow> Inr (Some (attendance_id s, target_id, write_date s))
              | _ \<Rightarrow> Inl (ValueError (''multiple department repairs required for ''
                          @ join_names (map (\<lambda>s. show_int (attendance_id s)) candidates)))))"

definition make_span ::
    "projection \<Rightarrow> source_row list \<Rightarrow> datetime \<Rightarrow> datetime \<Rightarrow> location_status \<Rightarrow> string option \<Rightarrow>
     int option \<Rightarrow> string option \<Rightarrow> (int \<times> int \<times> datetime) option \<Rightarrow> location_span" where
  "make_span pr source_rows left right status app odoo_id odoo_name repair =
     \<lparr>ls_employee_id = employee_id (hd source_rows), ls_employee_name = employee_name (hd source_rows),
      ls_start = left, ls_end = right, ls_status = status, ls_app_work_center = app,
      ls_odoo_work_center_id = odoo_id, ls_odoo_work_center_name = odoo_name,
      ls_attendance_ids = sort (map attendance_id source_rows), ls_department_repair = repair,
      ls_is_open = (right = as_of_utc pr \<and> (\<exists>s \<in> set source_rows. check_out s = None))\<rparr>"

section \<open>Days\<close>

definition plant_days :: "projection \<Rightarrow> datetime \<Rightarrow> datetime \<Rightarrow> int list" where
  "plant_days pr start_utc end_utc = [local_day pr start_utc .. local_day pr (end_utc - 1)]"

definition state_of_day :: "projection \<Rightarrow> source_row list \<Rightarrow> int \<Rightarrow> day_state" where
  "state_of_day pr covered day =
     (let ds = day_start pr day; de = day_start pr (day + 1);
          active = filter (\<lambda>s. check_in s < de \<and> effective_end (as_of_utc pr) s > ds) covered;
          located = filter (\<lambda>s. work_center_id s \<noteq> None) active
      in \<lparr>day_start_utc = ds, day_end_utc = de,
          grace_boundary = Min (set (map (\<lambda>s. max (check_in s) ds) active)) + grace_duration pr,
          first_work_center_at =
            (if located = [] then None else Some (Min (set (map (\<lambda>s. max (check_in s) ds) located))))\<rparr>)"

definition days_of :: "projection \<Rightarrow> source_row list \<Rightarrow> int list" where
  "days_of pr covered =
     sort (remdups (concat (map (\<lambda>s. plant_days pr (check_in s) (effective_end (as_of_utc pr) s)) covered)))"

definition day_states :: "projection \<Rightarrow> source_row list \<Rightarrow> (int \<times> day_state) list" where
  "day_states pr covered = map (\<lambda>day. (day, state_of_day pr covered day)) (days_of pr covered)"

section \<open>Slices\<close>

definition source_is_stale :: "projection \<Rightarrow> bool" where
  "source_is_stale pr = (as_of_utc pr - verified_through pr > stale_duration pr)"

definition stale_from :: "projection \<Rightarrow> source_row \<Rightarrow> datetime" where
  "stale_from pr source = min (as_of_utc pr) (max (check_in source) (verified_through pr))"

definition day_boundaries :: "projection \<Rightarrow> source_row list \<Rightarrow> day_state \<Rightarrow> datetime list" where
  "day_boundaries pr covered state =
     (if \<exists>s \<in> set covered. work_center_id s = None
           \<and> max (check_in s) (day_start_utc state) < grace_boundary state
           \<and> grace_boundary state < min (effective_end (as_of_utc pr) s) (day_end_utc state)
      then [grace_boundary state] else [])
     @ [day_start_utc state, day_end_utc state]"

definition stale_boundaries :: "projection \<Rightarrow> source_row list \<Rightarrow> datetime list" where
  "stale_boundaries pr covered =
     (if source_is_stale pr
      then map (stale_from pr)
             (filter (\<lambda>s. check_out s = None \<and> check_in s < stale_from pr s
                          \<and> stale_from pr s < as_of_utc pr) covered)
      else [])"

definition boundaries :: "projection \<Rightarrow> source_row list \<Rightarrow> datetime list" where
  "boundaries pr covered =
     sort (remdups
       (concat (map (\<lambda>s. [check_in s, effective_end (as_of_utc pr) s]) covered)
        @ concat (map (\<lambda>(day, state). day_boundaries pr covered state) (day_states pr covered))
        @ stale_boundaries pr covered))"

definition pairwise :: "'a list \<Rightarrow> ('a \<times> 'a) list" where
  "pairwise xs = zip xs (tl xs)"

definition active_rows :: "projection \<Rightarrow> source_row list \<Rightarrow> datetime \<Rightarrow> datetime \<Rightarrow> source_row list" where
  "active_rows pr covered left right =
     filter (\<lambda>s. check_in s < right \<and> effective_end (as_of_utc pr) s > left) covered"

definition distinct_work_centers :: "source_row list \<Rightarrow> int list" where
  "distinct_work_centers active = sort (remdups (List.map_filter work_center_id active))"

definition stale_active :: "projection \<Rightarrow> source_row list \<Rightarrow> datetime \<Rightarrow> bool" where
  "stale_active pr active left =
     (source_is_stale pr \<and> (\<exists>s \<in> set active. check_out s = None \<and> stale_from pr s \<le> left))"

definition carried_app_work_center ::
    "location_span list \<Rightarrow> source_row list \<Rightarrow> datetime \<Rightarrow> int option \<Rightarrow> string option" where
  "carried_app_work_center projected active left wc =
     (if projected \<noteq> []
         \<and> ls_employee_id (last projected) = employee_id (hd active)
         \<and> ls_end (last projected) = left
         \<and> ls_odoo_work_center_id (last projected) = wc
         \<and> ls_attendance_ids (last projected) = sort (map attendance_id active)
         \<and> ls_status (last projected) \<in> {Valid_Location, Stale_Open_Location}
      then ls_app_work_center (last projected) else None)"

definition unlocated_status ::
    "projection \<Rightarrow> day_state \<Rightarrow> source_row list \<Rightarrow> datetime \<Rightarrow> location_status" where
  "unlocated_status pr state active left =
     (if \<not> (\<exists>s \<in> set active. requires_location pr s) then Exempt_No_Location
      else if left < grace_boundary state
              \<and> (case first_work_center_at state of None \<Rightarrow> True | Some t \<Rightarrow> left < t)
      then Pending_First_Location else Missing_Required_Location)"

definition slice_span ::
    "projection \<Rightarrow> source_row list \<Rightarrow> location_span list \<Rightarrow> datetime \<Rightarrow> datetime \<Rightarrow>
     location_span option result" where
  "slice_span pr covered projected left right =
     (let active = active_rows pr covered left right;
          wcs = distinct_work_centers active
      in if active = [] then Inr None
         else if stale_active pr active left then
           (let wc = (if length wcs = 1 then Some (hd wcs) else None);
                name = (case wc of Some w \<Rightarrow> raw_work_center_name active w | None \<Rightarrow> None)
            in Inr (Some (make_span pr active left right Stale_Open_Location
                 (carried_app_work_center projected active left wc) wc name None)))
         else if length wcs > 1 then
           Inr (Some (make_span pr active left right Conflicting_Location None None None None))
         else if wcs = [] then
           (case map_of (day_states pr covered) (local_day pr left) of
              None \<Rightarrow> Inl KeyError
            | Some state \<Rightarrow>
                Inr (Some (make_span pr active left right (unlocated_status pr state active left)
                  None None None None)))
         else
           (let wc = hd wcs; name = raw_work_center_name active wc
            in case map_work_center pr wc of
                 None \<Rightarrow> Inr (Some (make_span pr active left right Unmapped_Location None (Some wc) name None))
               | Some app \<Rightarrow>
                   rbind (validated_expected_department (expected_department pr app)) (\<lambda>target.
                   rbind (department_repair active wc target) (\<lambda>repair.
                   Inr (Some (make_span pr active left right Valid_Location (Some app) (Some wc) name repair))))))"

fun project_slices ::
    "projection \<Rightarrow> source_row list \<Rightarrow> (datetime \<times> datetime) list \<Rightarrow> location_span list \<Rightarrow>
     location_span list result" where
  "project_slices pr covered [] projected = Inr projected"
| "project_slices pr covered ((left, right) # slices) projected =
     rbind (slice_span pr covered projected left right) (\<lambda>span.
       project_slices pr covered slices
         (case span of None \<Rightarrow> projected | Some sp \<Rightarrow> projected @ [sp]))"

section \<open>Merging and projecting\<close>

definition semantic_key where
  "semantic_key sp =
     (ls_employee_id sp, ls_employee_name sp, ls_status sp, ls_app_work_center sp,
      ls_odoo_work_center_id sp, ls_odoo_work_center_name sp, ls_attendance_ids sp,
      ls_department_repair sp, ls_is_open sp)"

fun merge_loop :: "location_span list \<Rightarrow> location_span list \<Rightarrow> location_span list result" where
  "merge_loop [] merged = Inr merged"
| "merge_loop (sp # spans) merged =
     (if ls_end sp \<le> ls_start sp
      then Inl (ValueError ''location spans must have positive duration'')
      else if merged \<noteq> [] \<and> ls_end (last merged) = ls_start sp
              \<and> semantic_key (last merged) = semantic_key sp
      then merge_loop spans (butlast merged @ [(last merged)\<lparr>ls_end := ls_end sp\<rparr>])
      else merge_loop spans (merged @ [sp]))"

definition merge_adjacent :: "location_span list \<Rightarrow> location_span list result" where
  "merge_adjacent spans = merge_loop spans []"

definition project_employee :: "projection \<Rightarrow> source_row list \<Rightarrow> location_span list result" where
  "project_employee pr employee_rows =
     (let covered = filter (\<lambda>s. effective_end (as_of_utc pr) s > check_in s) employee_rows
      in if covered = [] then Inr []
         else rbind (project_slices pr covered (pairwise (boundaries pr covered)) []) merge_adjacent)"

definition project_rows :: "projection \<Rightarrow> raw_row list \<Rightarrow> location_span list result" where
  "project_rows pr rows =
     rbind (guard_error (grace_duration pr < 0) (ValueError ''grace cannot be negative'')) (\<lambda>_.
     rbind (guard_error (stale_duration pr < 0) (ValueError ''stale_after cannot be negative'')) (\<lambda>_.
     rbind (normalize_rows rows) (\<lambda>normalized.
     rbind (rmap (\<lambda>(employee, employee_rows). project_employee pr employee_rows)
              (sort_key fst (group_by employee_id normalized))) (\<lambda>parts.
     Inr (concat parts)))))"

text \<open>\<open>timeline_for_range\<close>, after the mirror has been read: clip to the range and merge again.\<close>

definition clip_span :: "datetime \<Rightarrow> datetime \<Rightarrow> location_span \<Rightarrow> location_span" where
  "clip_span start_utc end_utc sp =
     sp\<lparr>ls_start := max start_utc (ls_start sp), ls_end := min end_utc (ls_end sp),
        ls_is_open := (ls_is_open sp \<and> min end_utc (ls_end sp) = ls_end sp)\<rparr>"

definition clip_timeline :: "datetime \<Rightarrow> datetime \<Rightarrow> location_span list \<Rightarrow> location_span list result" where
  "clip_timeline start_utc end_utc projected =
     merge_adjacent (map (clip_span start_utc end_utc)
       (filter (\<lambda>sp. min end_utc (ls_end sp) > max start_utc (ls_start sp)) projected))"

text \<open>
  \<open>timeline_for_range\<close> over what it reads: the mirror rows that overlap its days, with the employee
  profile filled in, and the time of the last completed mirror run.
\<close>

definition timeline_for_range ::
    "projection \<Rightarrow> datetime \<Rightarrow> datetime \<Rightarrow> datetime option \<Rightarrow> raw_row list \<Rightarrow> location_span list result" where
  "timeline_for_range pr start_utc end_utc last_completed rows =
     rbind (guard_error (end_utc \<le> start_utc) (ValueError ''end_utc must be after start_utc'')) (\<lambda>_.
     if rows = [] then Inr []
     else (case last_completed of
             None \<Rightarrow> Inl (RuntimeError ''attendance mirror has no verified freshness'')
           | Some verified \<Rightarrow>
               rbind (project_rows (pr\<lparr>verified_through := verified\<rparr>) rows)
                 (clip_timeline start_utc end_utc)))"

end
