(* ===== verification/Timeline_Properties.thy ===== *)
theory Timeline_Properties
  imports Attendance_Timeline
begin

text \<open>
  The sweep over the boundaries of a person's rows computes, at every instant, exactly what the
  rows active at that instant say: the specification \<open>status_at\<close> and \<open>ids_at\<close> look at a single
  instant, and every span of the projection agrees with them throughout.
\<close>

section \<open>The specification at an instant\<close>

definition active_at :: "projection \<Rightarrow> source_row list \<Rightarrow> datetime \<Rightarrow> source_row list" where
  "active_at pr covered t =
     filter (\<lambda>s. check_in s \<le> t \<and> t < effective_end (as_of_utc pr) s) covered"

definition ids_at :: "projection \<Rightarrow> source_row list \<Rightarrow> datetime \<Rightarrow> int list" where
  "ids_at pr covered t = sort (map attendance_id (active_at pr covered t))"

definition status_at :: "projection \<Rightarrow> source_row list \<Rightarrow> datetime \<Rightarrow> location_status" where
  "status_at pr covered t =
     (let active = active_at pr covered t;
          wcs = set (List.map_filter work_center_id active)
      in if source_is_stale pr \<and> (\<exists>s \<in> set active. check_out s = None \<and> stale_from pr s \<le> t)
         then Stale_Open_Location
         else if wcs = {} then unlocated_status pr (state_of_day pr covered (local_day pr t)) active t
         else if \<exists>w. wcs = {w}
         then (if map_work_center pr (the_elem wcs) = None then Unmapped_Location else Valid_Location)
         else Conflicting_Location)"

definition calendar_ok :: "projection \<Rightarrow> bool" where
  "calendar_ok pr =
     ((\<forall>d. day_start pr d < day_start pr (d + 1)) \<and>
      (\<forall>t d. local_day pr t = d \<longleftrightarrow> day_start pr d \<le> t \<and> t < day_start pr (d + 1)))"

definition covers :: "location_span \<Rightarrow> datetime \<Rightarrow> bool" where
  "covers sp t = (ls_start sp \<le> t \<and> t < ls_end sp)"

section \<open>Consecutive boundaries\<close>

lemma pairwise_Cons: "pairwise (x # y # ys) = (x, y) # pairwise (y # ys)"
  by (simp add: pairwise_def)

lemma pairwise_short [simp]: "pairwise [] = []" "pairwise [x] = []"
  by (simp_all add: pairwise_def)

lemma pairwise_gap:
  assumes "sorted bs" "distinct bs" "(l, r) \<in> set (pairwise bs)"
  shows "l < r \<and> l \<in> set bs \<and> r \<in> set bs \<and> (\<forall>b \<in> set bs. b \<le> l \<or> r \<le> b)"
  using assms
proof (induction bs)
  case (Cons x bs)
  show ?case
  proof (cases bs)
    case Nil
    then show ?thesis using Cons.prems by simp
  next
    case (Cons y ys)
    from Cons.prems(3) consider "(l, r) = (x, y)" | "(l, r) \<in> set (pairwise bs)"
      unfolding Cons pairwise_Cons by auto
    then show ?thesis
    proof cases
      case 1
      then show ?thesis using Cons.prems(1,2) unfolding Cons by auto
    next
      case 2
      then have *: "l < r \<and> l \<in> set bs \<and> r \<in> set bs \<and> (\<forall>b \<in> set bs. b \<le> l \<or> r \<le> b)"
        using Cons.IH Cons.prems(1,2) by simp
      moreover have "x \<le> l" using * Cons.prems(1) by simp
      ultimately show ?thesis by simp
    qed
  qed
qed simp

lemma pairwise_cover:
  assumes "sorted bs" "a \<in> set bs" "b \<in> set bs" "a \<le> t" "t < b"
  shows "\<exists>(l, r) \<in> set (pairwise bs). l \<le> t \<and> t < r"
  using assms
proof (induction bs arbitrary: a)
  case (Cons x bs)
  show ?case
  proof (cases bs)
    case Nil
    then show ?thesis using Cons.prems by auto
  next
    case (Cons y ys)
    show ?thesis
    proof (cases "t < y")
      case True
      have "x \<le> a" using Cons.prems(1,2) by auto
      then show ?thesis using True Cons.prems(4) unfolding Cons pairwise_Cons by auto
    next
      case False
      have "b \<in> set bs" using Cons.prems False unfolding Cons by auto
      moreover have "sorted bs" using Cons.prems(1) by simp
      ultimately have "\<exists>(l, r) \<in> set (pairwise bs). l \<le> t \<and> t < r"
        using Cons.IH [of y] False Cons.prems(5) unfolding Cons by auto
      then show ?thesis unfolding Cons pairwise_Cons by auto
    qed
  qed
qed simp

lemma pairwise_order:
  "sorted bs \<Longrightarrow> distinct bs \<Longrightarrow> sorted_wrt (\<lambda>p q. snd p \<le> fst q) (pairwise bs)"
proof (induction bs)
  case (Cons x bs)
  show ?case
  proof (cases bs)
    case (Cons y ys)
    have "y \<le> l" if "(l, r) \<in> set (pairwise bs)" for l r
      using pairwise_gap [of bs l r] that Cons.prems unfolding Cons by auto
    then show ?thesis using Cons.IH Cons.prems unfolding Cons pairwise_Cons by fastforce
  qed simp
qed simp

section \<open>Boundaries\<close>

lemma boundaries_sorted: "sorted (boundaries pr covered)" "distinct (boundaries pr covered)"
  by (simp_all add: boundaries_def)

lemma row_boundaries:
  "s \<in> set covered \<Longrightarrow> check_in s \<in> set (boundaries pr covered) \<and>
     effective_end (as_of_utc pr) s \<in> set (boundaries pr covered)"
  by (auto simp: boundaries_def)

lemma day_state_boundaries:
  assumes "d \<in> set (days_of pr covered)"
  shows "set (day_boundaries pr covered (state_of_day pr covered d)) \<subseteq> set (boundaries pr covered)"
  using assms by (auto simp: boundaries_def day_states_def)

lemma stale_boundaries_in: "set (stale_boundaries pr covered) \<subseteq> set (boundaries pr covered)"
  by (auto simp: boundaries_def)

lemma day_boundaries_ends:
  "day_start pr d \<in> set (day_boundaries pr covered (state_of_day pr covered d))"
  "day_start pr (d + 1) \<in> set (day_boundaries pr covered (state_of_day pr covered d))"
  by (simp_all add: day_boundaries_def state_of_day_def Let_def)

lemma day_start_mono:
  assumes "calendar_ok pr" "d \<le> e"
  shows "day_start pr d \<le> day_start pr e"
  using assms(2)
proof (induction e rule: int_ge_induct)
  case (step i)
  have "day_start pr i < day_start pr (i + 1)" using assms(1) by (simp add: calendar_ok_def)
  then show ?case using step by simp
qed simp

lemma local_day_bounds:
  assumes "calendar_ok pr"
  shows "day_start pr (local_day pr t) \<le> t" and "t < day_start pr (local_day pr t + 1)"
  using assms unfolding calendar_ok_def by blast+

lemma local_day_eq:
  "calendar_ok pr \<Longrightarrow> day_start pr d \<le> t \<Longrightarrow> t < day_start pr (d + 1) \<Longrightarrow> local_day pr t = d"
  unfolding calendar_ok_def by blast

lemma local_day_mono:
  assumes "calendar_ok pr" "a \<le> b"
  shows "local_day pr a \<le> local_day pr b"
proof (rule ccontr)
  assume "\<not> local_day pr a \<le> local_day pr b"
  then have "local_day pr b + 1 \<le> local_day pr a" by simp
  from day_start_mono [OF assms(1) this] show False
    using local_day_bounds [OF assms(1)] assms(2) by (meson leD le_less_trans order_trans)
qed

section \<open>Everything is constant on a slice\<close>

definition slice_at :: "projection \<Rightarrow> source_row list \<Rightarrow> datetime \<Rightarrow> datetime \<Rightarrow> datetime \<Rightarrow> bool" where
  "slice_at pr covered l r t = ((l, r) \<in> set (pairwise (boundaries pr covered)) \<and> l \<le> t \<and> t < r)"

lemma slice_gap:
  assumes "slice_at pr covered l r t" "b \<in> set (boundaries pr covered)"
  shows "b \<le> l \<or> r \<le> b"
  using pairwise_gap [OF boundaries_sorted, of l r pr covered] assms by (auto simp: slice_at_def)

lemma active_constant:
  assumes "slice_at pr covered l r t"
  shows "active_rows pr covered l r = active_at pr covered t"
  unfolding active_rows_def active_at_def
proof (rule filter_cong [OF refl])
  fix s assume "s \<in> set covered"
  then have "check_in s \<le> l \<or> r \<le> check_in s" "effective_end (as_of_utc pr) s \<le> l \<or> r \<le> effective_end (as_of_utc pr) s"
    using slice_gap [OF assms] row_boundaries by blast+
  then show "(check_in s < r \<and> effective_end (as_of_utc pr) s > l) = (check_in s \<le> t \<and> t < effective_end (as_of_utc pr) s)"
    using assms by (auto simp: slice_at_def)
qed

lemma slice_self: "slice_at pr covered l r t \<Longrightarrow> slice_at pr covered l r l"
  by (auto simp: slice_at_def)

lemma slice_day:
  assumes cal: "calendar_ok pr" and sl: "slice_at pr covered l r t" and s: "s \<in> set (active_at pr covered t)"
  shows "local_day pr t = local_day pr l" and "local_day pr l \<in> set (days_of pr covered)"
    and "r \<le> day_start pr (local_day pr l + 1)" and "day_start pr (local_day pr l) \<le> l"
proof -
  let ?d = "local_day pr l"
  have sl': "s \<in> set covered" "check_in s \<le> l" "l < effective_end (as_of_utc pr) s"
    using s slice_gap [OF sl, of "check_in s"] slice_gap [OF sl, of "effective_end (as_of_utc pr) s"]
      row_boundaries [of s covered pr] sl
    by (auto simp: active_at_def slice_at_def)
  have "?d \<in> set (plant_days pr (check_in s) (effective_end (as_of_utc pr) s))"
    using local_day_mono [OF cal] sl' by (simp add: plant_days_def)
  then show d: "?d \<in> set (days_of pr covered)" using sl'(1) by (auto simp: days_of_def)
  have "day_start pr (?d + 1) \<in> set (boundaries pr covered)"
    using day_state_boundaries [OF d] day_boundaries_ends(2) by blast
  moreover have "l < day_start pr (?d + 1)" by (rule local_day_bounds(2) [OF cal])
  ultimately show r: "r \<le> day_start pr (?d + 1)" using slice_gap [OF sl] by fastforce
  show ds: "day_start pr ?d \<le> l" by (rule local_day_bounds(1) [OF cal])
  show "local_day pr t = ?d"
    by (rule local_day_eq [OF cal]) (use ds r sl in \<open>auto simp: slice_at_def\<close>)
qed

lemma stale_constant:
  assumes sl: "slice_at pr covered l r t"
  shows "stale_active pr (active_at pr covered t) l =
    (source_is_stale pr \<and> (\<exists>s \<in> set (active_at pr covered t). check_out s = None \<and> stale_from pr s \<le> t))"
proof -
  have "stale_from pr s \<le> l \<longleftrightarrow> stale_from pr s \<le> t"
    if stale: "source_is_stale pr" and s: "s \<in> set (active_at pr covered t)" and out: "check_out s = None" for s
  proof -
    have s': "s \<in> set covered" "check_in s \<le> l" "r \<le> as_of_utc pr"
      using s out row_boundaries [of s covered pr] slice_gap [OF sl, of "check_in s"]
        slice_gap [OF sl, of "effective_end (as_of_utc pr) s"] sl
      by (auto simp: active_at_def slice_at_def effective_end_def)
    have "stale_from pr s \<in> set (boundaries pr covered)"
      if "check_in s < stale_from pr s" "stale_from pr s < as_of_utc pr"
      using stale_boundaries_in [of pr covered] that s'(1) out stale
      by (auto simp: stale_boundaries_def)
    then show ?thesis
      using slice_gap [OF sl, of "stale_from pr s"] s'(2,3) sl by (fastforce simp: slice_at_def)
  qed
  then show ?thesis unfolding stale_active_def by blast
qed

lemma distinct_work_centers_set: "set (distinct_work_centers active) = set (List.map_filter work_center_id active)"
  by (simp add: distinct_work_centers_def)

lemma distinct_work_centers_distinct: "distinct (distinct_work_centers active)"
  by (simp add: distinct_work_centers_def)

lemma unlocated_constant:
  assumes cal: "calendar_ok pr" and sl: "slice_at pr covered l r t" and some: "active_at pr covered t \<noteq> []"
    and none: "distinct_work_centers (active_at pr covered t) = []"
  shows "unlocated_status pr (state_of_day pr covered (local_day pr l)) (active_at pr covered t) l =
    unlocated_status pr (state_of_day pr covered (local_day pr t)) (active_at pr covered t) t"
proof -
  let ?d = "local_day pr l" and ?st = "state_of_day pr covered (local_day pr l)"
  from some obtain s where s: "s \<in> set (active_at pr covered t)" by (cases "active_at pr covered t") auto
  note day = slice_day [OF cal sl s]
  have ends: "day_start_utc ?st = day_start pr ?d" "day_end_utc ?st = day_start pr (?d + 1)"
    by (simp_all add: state_of_day_def Let_def)
  have wc: "work_center_id s = None"
    using none s distinct_work_centers_set [of "active_at pr covered t"]
    by (auto simp: List.map_filter_def image_iff)
  have s': "s \<in> set covered" "check_in s \<le> l" "r \<le> effective_end (as_of_utc pr) s"
    using s slice_gap [OF sl, of "check_in s"] slice_gap [OF sl, of "effective_end (as_of_utc pr) s"]
      row_boundaries [of s covered pr] sl
    by (auto simp: active_at_def slice_at_def)
  have g: "l < grace_boundary ?st \<longleftrightarrow> t < grace_boundary ?st"
  proof -
    have "grace_boundary ?st \<in> set (boundaries pr covered)" if "l < grace_boundary ?st" "grace_boundary ?st < r"
    proof -
      have "max (check_in s) (day_start_utc ?st) < grace_boundary ?st \<and>
          grace_boundary ?st < min (effective_end (as_of_utc pr) s) (day_end_utc ?st)"
        using that s' day(3,4) by (auto simp: ends)
      then have "\<exists>s \<in> set covered. work_center_id s = None \<and> max (check_in s) (day_start_utc ?st) < grace_boundary ?st
           \<and> grace_boundary ?st < min (effective_end (as_of_utc pr) s) (day_end_utc ?st)"
        using s'(1) wc by blast
      then have "grace_boundary ?st \<in> set (day_boundaries pr covered ?st)"
        by (simp add: day_boundaries_def)
      then show ?thesis using day_state_boundaries [OF day(2)] by blast
    qed
    then show ?thesis using slice_gap [OF sl, of "grace_boundary ?st"] sl by (fastforce simp: slice_at_def)
  qed
  have f: "l < f \<longleftrightarrow> t < f" if first: "first_work_center_at ?st = Some f" for f
  proof -
    have "f \<in> set (boundaries pr covered)"
    proof -
      let ?ds = "day_start pr ?d"
      define located where "located = filter (\<lambda>s. work_center_id s \<noteq> None)
        (filter (\<lambda>s. check_in s < day_start pr (?d + 1) \<and> effective_end (as_of_utc pr) s > ?ds) covered)"
      have "first_work_center_at ?st = (if located = [] then None
          else Some (Min (set (map (\<lambda>s. max (check_in s) ?ds) located))))"
        unfolding located_def state_of_day_def Let_def by (simp only: day_state.select_convs)
      then have "located \<noteq> []" "f = Min (set (map (\<lambda>s. max (check_in s) ?ds) located))"
        using first by (simp_all split: if_splits)
      then have "f \<in> set (map (\<lambda>s. max (check_in s) ?ds) located)"
        using Min_in [of "set (map (\<lambda>s. max (check_in s) ?ds) located)"] by simp
      then have "f = ?ds \<or> (\<exists>s \<in> set covered. f = check_in s)"
        by (auto simp: max_def located_def)
      then show ?thesis
        using row_boundaries day_state_boundaries [OF day(2)] day_boundaries_ends(1) by blast
    qed
    then show ?thesis using slice_gap [OF sl, of f] sl by (fastforce simp: slice_at_def)
  qed
  show ?thesis
    unfolding day(1) unlocated_status_def using g f by (auto split: option.splits)
qed

section \<open>A slice says what its instants say\<close>

definition agrees :: "projection \<Rightarrow> source_row list \<Rightarrow> location_span \<Rightarrow> bool" where
  "agrees pr covered sp =
     (ls_start sp < ls_end sp \<and>
      (\<forall>t. covers sp t \<longrightarrow> active_at pr covered t \<noteq> [] \<and>
         ls_attendance_ids sp = ids_at pr covered t \<and> ls_status sp = status_at pr covered t))"

lemma make_span_simps [simp]:
  "ls_start (make_span pr rs l r st app i n rep) = l"
  "ls_end (make_span pr rs l r st app i n rep) = r"
  "ls_status (make_span pr rs l r st app i n rep) = st"
  "ls_attendance_ids (make_span pr rs l r st app i n rep) = sort (map attendance_id rs)"
  "ls_employee_id (make_span pr rs l r st app i n rep) = employee_id (hd rs)"
  "ls_employee_name (make_span pr rs l r st app i n rep) = employee_name (hd rs)"
  by (simp_all add: make_span_def)

lemma work_center_cases:
  assumes "set wcs = W" "distinct wcs"
  shows "wcs = [] \<longleftrightarrow> W = {}" and "length wcs > 1 \<longleftrightarrow> W \<noteq> {} \<and> \<not> (\<exists>w. W = {w})"
    and "W = {w} \<Longrightarrow> wcs = [w]"
proof -
  show "wcs = [] \<longleftrightarrow> W = {}" using assms(1) by auto
  have card: "card W = length wcs" using assms distinct_card by fastforce
  show "W = {w} \<Longrightarrow> wcs = [w]"
    using assms card by (cases wcs; cases "tl wcs") auto
  show "length wcs > 1 \<longleftrightarrow> W \<noteq> {} \<and> \<not> (\<exists>w. W = {w})"
    unfolding card [symmetric] using assms(1) card_1_singleton_iff [of W]
    by (metis One_nat_def card_0_eq List.finite_set less_one linorder_neqE_nat not_less_zero)
qed

lemma slice_span_agrees:
  assumes cal: "calendar_ok pr" and sl: "slice_at pr covered l r t"
    and run: "slice_span pr covered projected l r = Inr res"
  shows "case res of
      None \<Rightarrow> active_at pr covered t = []
    | Some sp \<Rightarrow> active_at pr covered t \<noteq> [] \<and> ls_start sp = l \<and> ls_end sp = r \<and>
        ls_attendance_ids sp = ids_at pr covered t \<and> ls_status sp = status_at pr covered t \<and>
        ls_employee_id sp = employee_id (hd (active_at pr covered t))"
proof -
  let ?A = "active_at pr covered t"
  let ?wcs = "distinct_work_centers ?A" and ?W = "set (List.map_filter work_center_id ?A)"
  have act: "active_rows pr covered l r = ?A" by (rule active_constant [OF sl])
  note stale = stale_constant [OF sl]
  note wcs = work_center_cases [OF distinct_work_centers_set distinct_work_centers_distinct, of ?A]
  note run' = run [unfolded slice_span_def Let_def act]
  show ?thesis
  proof (cases "?A = []")
    case True
    then show ?thesis using run' by (simp split: option.splits)
  next
    case some: False
    show ?thesis
    proof (cases "stale_active pr ?A l")
      case True
      then have "status_at pr covered t = Stale_Open_Location"
        using stale by (simp add: status_at_def Let_def)
      then show ?thesis using run' some True by (auto simp: ids_at_def)
    next
      case fresh: False
      then have st: "status_at pr covered t = (if ?W = {}
          then unlocated_status pr (state_of_day pr covered (local_day pr t)) ?A t
          else if \<exists>w. ?W = {w} then (if map_work_center pr (the_elem ?W) = None then Unmapped_Location else Valid_Location)
          else Conflicting_Location)"
        using stale unfolding status_at_def Let_def by (simp only: if_False)
      consider "?W = {}" | w where "?W = {w}" | "length ?wcs > 1" using wcs(2) by blast
      then show ?thesis
      proof cases
        case 1
        then have none: "?wcs = []" using wcs(1) by blast
        obtain s where s: "s \<in> set ?A" using some by (cases ?A) auto
        have "map_of (day_states pr covered) (local_day pr l) = Some (state_of_day pr covered (local_day pr l))"
          using slice_day(2) [OF cal sl s] by (simp add: day_states_def map_of_map_restrict)
        then have "res = Some (make_span pr ?A l r
            (unlocated_status pr (state_of_day pr covered (local_day pr l)) ?A l) None None None None)"
          using run' some fresh none by simp
        moreover note unlocated_constant [OF cal sl some none]
        ultimately show ?thesis using some st 1 by (simp add: ids_at_def)
      next
        case 2
        then have one: "?wcs = [w]" by (rule wcs(3))
        have st': "status_at pr covered t = (if map_work_center pr w = None then Unmapped_Location else Valid_Location)"
          using st 2 by simp
        show ?thesis
          using run' some fresh st' unfolding one
          by (auto simp: ids_at_def rbind_Inr_iff split: option.splits)
      next
        case 3
        then have "?W \<noteq> {}" "\<not> (\<exists>w. ?W = {w})" using wcs(2) by blast+
        then have "status_at pr covered t = Conflicting_Location" using st by simp
        then show ?thesis using run' some fresh 3 by (auto simp: ids_at_def)
      qed
    qed
  qed
qed

lemma project_slices_agrees:
  assumes cal: "calendar_ok pr" and sub: "set ps \<subseteq> set (pairwise (boundaries pr covered))"
    and run: "project_slices pr covered ps projected = Inr out"
  shows "\<exists>new. out = projected @ new \<and> (\<forall>sp \<in> set new. agrees pr covered sp) \<and>
    map (\<lambda>sp. (ls_start sp, ls_end sp)) new = filter (\<lambda>(l, r). active_rows pr covered l r \<noteq> []) ps"
  using sub run
proof (induction ps arbitrary: projected)
  case (Cons p ps)
  obtain l r where p: "p = (l, r)" by (cases p)
  have gap: "l < r" using pairwise_gap [OF boundaries_sorted, of l r pr covered] Cons.prems(1) by (simp add: p)
  have sl: "slice_at pr covered l r t" if "l \<le> t" "t < r" for t
    using that Cons.prems(1) by (simp add: slice_at_def p)
  from Cons.prems(2) obtain res where res: "slice_span pr covered projected l r = Inr res"
    and rest: "project_slices pr covered ps (case res of None \<Rightarrow> projected | Some sp \<Rightarrow> projected @ [sp]) = Inr out"
    by (auto simp: p)
  from Cons.IH [OF _ rest] Cons.prems(1) obtain new where
    new: "out = (case res of None \<Rightarrow> projected | Some sp \<Rightarrow> projected @ [sp]) @ new"
      "\<forall>sp \<in> set new. agrees pr covered sp"
      "map (\<lambda>sp. (ls_start sp, ls_end sp)) new = filter (\<lambda>(l, r). active_rows pr covered l r \<noteq> []) ps" by auto
  note at = slice_span_agrees [OF cal sl res]
  have act: "active_rows pr covered l r = active_at pr covered l"
    by (rule active_constant) (use sl gap in simp)
  show ?case
  proof (cases res)
    case None
    then show ?thesis using new at [of l] gap act by (intro exI [of _ new]) (simp add: p)
  next
    case (Some sp)
    note at_t = at [unfolded Some option.case]
    have ends: "ls_start sp = l" "ls_end sp = r" using at_t [of l] gap by simp_all
    have "agrees pr covered sp"
      unfolding agrees_def covers_def ends using at_t gap by blast
    then show ?thesis
      using new at [of l] gap act unfolding Some by (intro exI [of _ "sp # new"]) (simp add: p)
  qed
qed simp

section \<open>Merging keeps every instant\<close>

definition ordered_spans :: "location_span list \<Rightarrow> bool" where
  "ordered_spans spans =
     (sorted_wrt (\<lambda>a b. ls_end a \<le> ls_start b) spans \<and> (\<forall>sp \<in> set spans. ls_start sp < ls_end sp))"

definition unmergeable :: "location_span \<Rightarrow> location_span \<Rightarrow> bool" where
  "unmergeable a b = (ls_end a \<noteq> ls_start b \<or> semantic_key a \<noteq> semantic_key b)"

definition says :: "location_span list \<Rightarrow> datetime \<Rightarrow> _ \<Rightarrow> bool" where
  "says spans t k = (\<exists>sp \<in> set spans. covers sp t \<and> semantic_key sp = k)"

lemma says_append: "says (xs @ ys) t k \<longleftrightarrow> says xs t k \<or> says ys t k"
  by (auto simp: says_def)

lemma semantic_key_end [simp]: "semantic_key (sp\<lparr>ls_end := e\<rparr>) = semantic_key sp"
  by (simp add: semantic_key_def)

lemma merged_pair:
  assumes "ls_end a = ls_start b" "semantic_key a = semantic_key b" "ls_start a < ls_end a" "ls_start b < ls_end b"
  shows "says [a\<lparr>ls_end := ls_end b\<rparr>] t k \<longleftrightarrow> says [a, b] t k"
  using assms by (auto simp: says_def covers_def)

lemma ordered_append:
  "ordered_spans (xs @ ys) \<longleftrightarrow> ordered_spans xs \<and> ordered_spans ys \<and>
     (\<forall>a \<in> set xs. \<forall>b \<in> set ys. ls_end a \<le> ls_start b)"
  by (auto simp: ordered_spans_def sorted_wrt_append)

lemma ordered_single: "ordered_spans [a] \<longleftrightarrow> ls_start a < ls_end a"
  by (simp add: ordered_spans_def)

lemma merge_loop_keeps:
  assumes "ordered_spans (merged @ spans)" and "successively unmergeable merged"
  shows "\<exists>out. merge_loop spans merged = Inr out \<and> ordered_spans out \<and> successively unmergeable out \<and>
    (\<forall>t k. says out t k \<longleftrightarrow> says (merged @ spans) t k)"
  using assms
proof (induction spans arbitrary: merged)
  case (Cons sp spans)
  have pos: "ls_start sp < ls_end sp" using Cons.prems(1) by (auto simp: ordered_spans_def)
  show ?case
  proof (cases "merged \<noteq> [] \<and> ls_end (last merged) = ls_start sp \<and> semantic_key (last merged) = semantic_key sp")
    case True
    then obtain ms m where m: "merged = ms @ [m]" by (metis append_butlast_last_id)
    let ?m = "m\<lparr>ls_end := ls_end sp\<rparr>"
    have touch: "ls_end m = ls_start sp" "semantic_key m = semantic_key sp" using True by (simp_all add: m)
    have m_pos: "ls_start m < ls_end m" using Cons.prems(1) by (auto simp: m ordered_spans_def)
    have "ordered_spans ((ms @ [?m]) @ spans)"
      using Cons.prems(1) pos m_pos touch by (auto simp: m ordered_spans_def sorted_wrt_append)
    moreover have "successively unmergeable (ms @ [?m])"
      using Cons.prems(2) unfolding m by (auto simp: successively_append_iff unmergeable_def)
    ultimately obtain out where out: "merge_loop spans (ms @ [?m]) = Inr out" "ordered_spans out"
        "successively unmergeable out" "\<forall>t k. says out t k \<longleftrightarrow> says ((ms @ [?m]) @ spans) t k"
      using Cons.IH by blast
    have "says ((ms @ [?m]) @ spans) t k \<longleftrightarrow> says (merged @ sp # spans) t k" for t k
      using merged_pair [OF touch m_pos pos, of t k] says_append [of "[m]" "[sp]" t k]
      by (simp only: m says_append [of _ "_ # _"] append_assoc) (metis append_Cons append_Nil says_append)
    moreover have "merge_loop (sp # spans) merged = Inr out"
      using True pos out(1) by (simp add: m)
    ultimately show ?thesis using out by blast
  next
    case False
    have "successively unmergeable (merged @ [sp])"
      using Cons.prems(2) False by (auto simp: successively_append_iff unmergeable_def)
    moreover have "ordered_spans ((merged @ [sp]) @ spans)" using Cons.prems(1) by simp
    ultimately obtain out where out: "merge_loop spans (merged @ [sp]) = Inr out" "ordered_spans out"
        "successively unmergeable out" "\<forall>t k. says out t k \<longleftrightarrow> says ((merged @ [sp]) @ spans) t k"
      using Cons.IH by blast
    moreover have "merge_loop (sp # spans) merged = Inr out" using out(1) False pos by auto
    ultimately show ?thesis by simp
  qed
qed simp

lemma merge_adjacent_keeps:
  assumes "ordered_spans spans"
  shows "\<exists>out. merge_adjacent spans = Inr out \<and> ordered_spans out \<and> successively unmergeable out \<and>
    (\<forall>t k. says out t k \<longleftrightarrow> says spans t k)"
  using merge_loop_keeps [of "[]" spans] assms by (simp add: merge_adjacent_def)

text \<open>A list without mergeable neighbours is left alone.\<close>

lemma merge_loop_fixed:
  "successively unmergeable (merged @ spans) \<Longrightarrow> (\<forall>sp \<in> set spans. ls_start sp < ls_end sp) \<Longrightarrow>
     merge_loop spans merged = Inr (merged @ spans)"
proof (induction spans arbitrary: merged)
  case (Cons sp spans)
  have "\<not> (merged \<noteq> [] \<and> ls_end (last merged) = ls_start sp \<and> semantic_key (last merged) = semantic_key sp)"
    using Cons.prems(1) by (auto simp: successively_append_iff unmergeable_def)
  then show ?case using Cons by (auto simp: not_le [symmetric])
qed simp

section \<open>The projection of one employee\<close>

definition covered_rows :: "projection \<Rightarrow> source_row list \<Rightarrow> source_row list" where
  "covered_rows pr rows = filter (\<lambda>s. effective_end (as_of_utc pr) s > check_in s) rows"

lemma slices_ordered:
  "sorted_wrt (\<lambda>p q. snd p \<le> fst q) (filter P (pairwise (boundaries pr covered)))"
  by (rule sorted_wrt_filter) (rule pairwise_order [OF boundaries_sorted])

lemma employee_projection:
  assumes cal: "calendar_ok pr" and run: "project_employee pr rows = Inr spans"
  shows "ordered_spans spans \<and> successively unmergeable spans \<and>
    (\<forall>sp \<in> set spans. agrees pr (covered_rows pr rows) sp) \<and>
    (\<forall>t. (\<exists>sp \<in> set spans. covers sp t) \<longleftrightarrow> active_at pr (covered_rows pr rows) t \<noteq> [])"
proof (cases "covered_rows pr rows = []")
  case True
  then show ?thesis
    using run by (auto simp: project_employee_def covered_rows_def Let_def ordered_spans_def active_at_def)
next
  case False
  define covered where "covered = covered_rows pr rows"
  let ?ps = "pairwise (boundaries pr covered)"
  from run False obtain out where slices: "project_slices pr covered ?ps [] = Inr out"
    and merge: "merge_adjacent out = Inr spans"
    by (auto simp: project_employee_def covered_def covered_rows_def Let_def)
  from project_slices_agrees [OF cal subset_refl slices] have
    agree: "\<forall>sp \<in> set out. agrees pr covered sp"
    and ends: "map (\<lambda>sp. (ls_start sp, ls_end sp)) out = filter (\<lambda>(l, r). active_rows pr covered l r \<noteq> []) ?ps"
    by auto
  have "sorted_wrt (\<lambda>p q. snd p \<le> fst q) (map (\<lambda>sp. (ls_start sp, ls_end sp)) out)"
    unfolding ends by (rule slices_ordered)
  then have "ordered_spans out"
    using agree by (auto simp: ordered_spans_def sorted_wrt_map agrees_def)
  from merge_adjacent_keeps [OF this] merge have
    spans: "ordered_spans spans" "successively unmergeable spans" "\<And>t k. says spans t k \<longleftrightarrow> says out t k" by auto
  have same: "ls_attendance_ids a = ls_attendance_ids b \<and> ls_status a = ls_status b"
    if "semantic_key a = semantic_key b" for a b using that by (simp add: semantic_key_def)
  have "agrees pr covered sp" if sp: "sp \<in> set spans" for sp
    unfolding agrees_def
  proof (intro conjI allI impI)
    show "ls_start sp < ls_end sp" using spans(1) sp by (simp add: ordered_spans_def)
  next
    fix t assume "covers sp t"
    then have "says spans t (semantic_key sp)" using sp unfolding says_def by blast
    then have "says out t (semantic_key sp)" unfolding spans(3) .
    then obtain sp' where sp': "sp' \<in> set out" "covers sp' t" "semantic_key sp' = semantic_key sp"
      by (auto simp: says_def)
    then show "active_at pr covered t \<noteq> []" "ls_attendance_ids sp = ids_at pr covered t"
      "ls_status sp = status_at pr covered t"
      using agree same [OF sp'(3)] by (auto simp: agrees_def)
  qed
  moreover have "(\<exists>sp \<in> set spans. covers sp t) \<longleftrightarrow> active_at pr covered t \<noteq> []" for t
  proof
    assume "\<exists>sp \<in> set spans. covers sp t"
    then show "active_at pr covered t \<noteq> []" using calculation by (auto simp: agrees_def)
  next
    assume act: "active_at pr covered t \<noteq> []"
    then obtain s where s: "s \<in> set covered" "check_in s \<le> t" "t < effective_end (as_of_utc pr) s"
      by (auto simp: active_at_def filter_empty_conv)
    from pairwise_cover [OF boundaries_sorted(1) _ _ s(2,3)] row_boundaries [OF s(1)]
    obtain l r where lr: "(l, r) \<in> set ?ps" "l \<le> t" "t < r" by blast
    have "active_rows pr covered l r = active_at pr covered t"
      by (rule active_constant) (simp add: slice_at_def lr)
    then have "(l, r) \<in> set (map (\<lambda>sp. (ls_start sp, ls_end sp)) out)"
      unfolding ends using lr(1) act by simp
    then obtain sp where sp: "sp \<in> set out" "ls_start sp = l" "ls_end sp = r" by auto
    then have "says out t (semantic_key sp)" using lr by (auto simp: says_def covers_def)
    then have "says spans t (semantic_key sp)" using spans(3) by blast
    then show "\<exists>sp \<in> set spans. covers sp t" by (auto simp: says_def)
  qed
  ultimately show ?thesis using spans(1,2) by (simp add: covered_def)
qed

text \<open>Without repair targets, as on the request path, nothing is ever raised.\<close>

lemma employee_projection_total:
  assumes cal: "calendar_ok pr" and "\<And>app. expected_department pr app = None"
  shows "\<exists>spans. project_employee pr rows = Inr spans"
proof -
  define covered where "covered = covered_rows pr rows"
  have step: "\<exists>res. slice_span pr covered projected l r = Inr res"
    if p: "(l, r) \<in> set (pairwise (boundaries pr covered))" for projected l r
  proof -
    have "l < r" using pairwise_gap [OF boundaries_sorted p] by simp
    then have sl: "slice_at pr covered l r l" using p by (simp add: slice_at_def)
    show ?thesis
    proof (cases "active_rows pr covered l r = []")
      case True
      then show ?thesis by (simp add: slice_span_def)
    next
      case False
      then obtain s where "s \<in> set (active_at pr covered l)"
        unfolding active_constant [OF sl] by (cases "active_at pr covered l") auto
      from slice_day(2) [OF cal sl this]
      have "map_of (day_states pr covered) (local_day pr l) = Some (state_of_day pr covered (local_day pr l))"
        by (simp add: day_states_def map_of_map_restrict)
      then show ?thesis
        using assms(2) by (auto simp: slice_span_def Let_def validated_expected_department_def
          department_repair_def split: option.splits)
    qed
  qed
  have "\<exists>out. project_slices pr covered ps projected = Inr out"
    if "set ps \<subseteq> set (pairwise (boundaries pr covered))" for ps projected
    using that
  proof (induction ps arbitrary: projected)
    case (Cons p ps)
    obtain l r where p: "p = (l, r)" by (cases p)
    from step [of l r projected] Cons.prems obtain res where "slice_span pr covered projected l r = Inr res"
      by (auto simp: p)
    then show ?case using Cons by (simp add: p)
  qed simp
  from this [OF subset_refl, of "[]"] obtain out where out: "project_slices pr covered (pairwise (boundaries pr covered)) [] = Inr out" by blast
  from project_slices_agrees [OF cal subset_refl out] have
    agree: "\<forall>sp \<in> set out. agrees pr covered sp"
    and ends: "map (\<lambda>sp. (ls_start sp, ls_end sp)) out =
      filter (\<lambda>(l, r). active_rows pr covered l r \<noteq> []) (pairwise (boundaries pr covered))" by auto
  have "sorted_wrt (\<lambda>p q. snd p \<le> fst q) (map (\<lambda>sp. (ls_start sp, ls_end sp)) out)"
    unfolding ends by (rule slices_ordered)
  then have "ordered_spans out"
    using agree by (auto simp: ordered_spans_def sorted_wrt_map agrees_def)
  from merge_adjacent_keeps [OF this] out show ?thesis
    by (auto simp: project_employee_def covered_def covered_rows_def Let_def)
qed

section \<open>The projection of a feed\<close>

lemma slice_employee:
  assumes "slice_span pr covered projected l r = Inr (Some sp)" and "\<forall>s \<in> set covered. employee_id s = e"
  shows "ls_employee_id sp = e"
proof -
  have some: "active_rows pr covered l r \<noteq> []"
    using assms(1) by (auto simp: slice_span_def Let_def)
  then have "hd (active_rows pr covered l r) \<in> set covered"
    using hd_in_set [OF some] by (auto simp: active_rows_def)
  then have "employee_id (hd (active_rows pr covered l r)) = e" using assms(2) by blast
  then show ?thesis
    using assms(1) some by (auto simp: slice_span_def Let_def rbind_Inr_iff split: if_splits option.splits)
qed

lemma slices_employee:
  assumes "project_slices pr covered ps projected = Inr out" and "\<forall>s \<in> set covered. employee_id s = e"
    and "\<forall>sp \<in> set projected. ls_employee_id sp = e"
  shows "\<forall>sp \<in> set out. ls_employee_id sp = e"
  using assms
proof (induction ps arbitrary: projected)
  case (Cons p ps)
  obtain l r where p: "p = (l, r)" by (cases p)
  from Cons.prems(1) obtain res where res: "slice_span pr covered projected l r = Inr res"
    and rest: "project_slices pr covered ps (case res of None \<Rightarrow> projected | Some sp \<Rightarrow> projected @ [sp]) = Inr out"
    by (auto simp: p)
  have "\<forall>sp \<in> set (case res of None \<Rightarrow> projected | Some sp \<Rightarrow> projected @ [sp]). ls_employee_id sp = e"
    using Cons.prems(2,3) res slice_employee by (auto split: option.splits)
  then show ?case using Cons.IH [OF rest Cons.prems(2)] by blast
qed simp

lemma merge_employee:
  "merge_loop spans merged = Inr out \<Longrightarrow> \<forall>sp \<in> set (merged @ spans). ls_employee_id sp = e \<Longrightarrow>
     \<forall>sp \<in> set out. ls_employee_id sp = e"
proof (induction spans arbitrary: merged)
  case (Cons sp spans)
  show ?case
  proof (cases "merged \<noteq> [] \<and> ls_end (last merged) = ls_start sp \<and> semantic_key (last merged) = semantic_key sp")
    case True
    have "\<forall>x \<in> set (butlast merged @ [(last merged)\<lparr>ls_end := ls_end sp\<rparr>] @ spans). ls_employee_id x = e"
      using Cons.prems(2) True in_set_butlastD by fastforce
    then show ?thesis using Cons.IH [of "butlast merged @ [(last merged)\<lparr>ls_end := ls_end sp\<rparr>]"] Cons.prems(1) True
      by (simp split: if_splits)
  next
    case False
    then show ?thesis using Cons.IH [of "merged @ [sp]"] Cons.prems by (auto split: if_splits)
  qed
qed simp

lemma employee_spans:
  assumes "project_employee pr rows = Inr spans" and "\<forall>s \<in> set rows. employee_id s = e"
  shows "\<forall>sp \<in> set spans. ls_employee_id sp = e"
proof (cases "covered_rows pr rows = []")
  case True
  then show ?thesis using assms(1) by (simp add: project_employee_def covered_rows_def Let_def)
next
  case False
  from assms(1) False obtain out where slices: "project_slices pr (covered_rows pr rows) (pairwise (boundaries pr (covered_rows pr rows))) [] = Inr out"
    and merge: "merge_loop out [] = Inr spans"
    by (auto simp: project_employee_def covered_rows_def Let_def merge_adjacent_def)
  have "\<forall>s \<in> set (covered_rows pr rows). employee_id s = e" using assms(2) by (simp add: covered_rows_def)
  from slices_employee [OF slices this] have "\<forall>sp \<in> set out. ls_employee_id sp = e" by simp
  then show ?thesis using merge_employee [OF merge] by simp
qed

end
