(* ===== verification/Timeline_Claims.thy ===== *)
theory Timeline_Claims
  imports Timeline_Properties
begin

text \<open>
  The properties of \<open>attendance_timeline.py\<close>, stated over the projection of a whole feed, with a
  small feed on a fixed-offset calendar as the witness of their hypotheses.
\<close>

section \<open>The feed, employee by employee\<close>

definition rows_of :: "int \<Rightarrow> source_row list \<Rightarrow> source_row list" where
  "rows_of e sources = filter (\<lambda>r. employee_id r = e) sources"

definition spans_of :: "int \<Rightarrow> location_span list \<Rightarrow> location_span list" where
  "spans_of e spans = filter (\<lambda>sp. ls_employee_id sp = e) spans"

lemma filter_concat_unique:
  assumes "distinct (map fst ys)" and "\<And>k xs. (k, xs) \<in> set ys \<Longrightarrow> \<forall>x \<in> set xs. key x = k"
  shows "filter (\<lambda>x. key x = e) (concat (map snd ys)) = (case map_of ys e of Some xs \<Rightarrow> xs | None \<Rightarrow> [])"
  using assms
proof (induction ys)
  case (Cons y ys)
  obtain k xs where y: "y = (k, xs)" by (cases y)
  have own: "\<forall>x \<in> set xs. key x = k" using Cons.prems(2) y by auto
  have IH: "filter (\<lambda>x. key x = e) (concat (map snd ys)) = (case map_of ys e of Some xs \<Rightarrow> xs | None \<Rightarrow> [])"
    by (rule Cons.IH) (use Cons.prems in auto)
  show ?case
  proof (cases "k = e")
    case True
    then have "map_of ys e = None" using Cons.prems(1) y by (auto simp: map_of_eq_None_iff)
    moreover have "filter (\<lambda>x. key x = e) xs = xs" using own True by (simp add: filter_id_conv)
    ultimately show ?thesis using IH y True by simp
  next
    case False
    then have "filter (\<lambda>x. key x = e) xs = []" using own by (auto simp: filter_empty_conv)
    then show ?thesis using IH y False by simp
  qed
qed simp

lemma rmap_zip:
  "rmap f xs = Inr ys \<Longrightarrow> map fst xs = map fst (zip (map fst xs) ys) \<and> length ys = length xs"
  using rmap_Inr_length by fastforce

lemma project_rows_parts:
  assumes "project_rows pr rows = Inr spans"
  obtains sources where "normalize_rows rows = Inr sources"
    and "\<And>e. project_employee pr (rows_of e sources) = Inr (spans_of e spans)"
proof -
  from assms obtain sources parts where sources: "normalize_rows rows = Inr sources"
    and parts: "rmap (\<lambda>(employee, employee_rows). project_employee pr employee_rows)
              (sort_key fst (group_by employee_id sources)) = Inr parts"
    and spans: "spans = concat parts"
    unfolding project_rows_def by (elim rbind_InrE) simp
  let ?groups = "sort_key fst (group_by employee_id sources)"
  let ?ys = "zip (map fst ?groups) parts"
  have len: "length parts = length ?groups" using rmap_Inr_length [OF parts] .
  have snds: "map snd ?ys = parts" and fsts: "map fst ?ys = map fst ?groups" using len by simp_all
  have dist: "distinct (map fst ?ys)" unfolding fsts by (simp add: distinct_group_by)
  have group: "ys = rows_of k sources" if "(k, ys) \<in> set ?groups" for k ys
    using group_by_member that by (simp add: rows_of_def)
  have part: "project_employee pr (rows_of k sources) = Inr p" if mem: "(k, p) \<in> set ?ys" for k p
  proof -
    from mem obtain i where i: "i < length ?groups" "k = fst (?groups ! i)" "p = parts ! i"
      using len by (auto simp: in_set_zip)
    have "project_employee pr (snd (?groups ! i)) = Inr p"
      using rmap_Inr_nth [OF parts i(1)] i(3) by (simp add: case_prod_unfold)
    moreover have "(k, snd (?groups ! i)) \<in> set ?groups"
      using i by (metis nth_mem prod.collapse)
    ultimately show ?thesis using group by simp
  qed
  have own: "\<forall>sp \<in> set p. ls_employee_id sp = k" if "(k, p) \<in> set ?ys" for k p
    by (rule employee_spans [OF part [OF that]]) (simp add: rows_of_def)
  have "project_employee pr (rows_of e sources) = Inr (spans_of e spans)" for e
  proof -
    have flt: "spans_of e spans = (case map_of ?ys e of Some xs \<Rightarrow> xs | None \<Rightarrow> [])"
      using filter_concat_unique [OF dist own] snds spans by (simp add: spans_of_def)
    show ?thesis
    proof (cases "map_of ?ys e")
      case None
      then have "e \<notin> fst ` set ?ys" by (simp add: map_of_eq_None_iff)
      then have "e \<notin> set (map fst ?groups)" by (metis fsts set_map)
      then have "e \<notin> fst ` set (group_by employee_id sources)" by simp
      then have "rows_of e sources = []" unfolding keys_group_by by (auto simp: rows_of_def filter_empty_conv)
      then show ?thesis using flt None by (simp add: project_employee_def)
    next
      case (Some p)
      then have "(e, p) \<in> set ?ys" by (rule map_of_SomeD)
      from part [OF this] show ?thesis using flt Some by simp
    qed
  qed
  with sources show ?thesis using that by blast
qed

section \<open>Merging without an order\<close>

lemma merge_loop_says:
  "\<forall>sp \<in> set (merged @ spans). ls_start sp < ls_end sp \<Longrightarrow>
     \<exists>out. merge_loop spans merged = Inr out \<and> (\<forall>sp \<in> set out. ls_start sp < ls_end sp) \<and>
       (\<forall>t k. says out t k \<longleftrightarrow> says (merged @ spans) t k) \<and>
       (\<forall>sp \<in> set out. \<exists>a \<in> set (merged @ spans). \<exists>b \<in> set (merged @ spans). ls_start sp = ls_start a \<and> ls_end sp = ls_end b)"
proof (induction spans arbitrary: merged)
  case Nil
  then show ?case by auto
next
  case (Cons sp spans)
  have pos: "ls_start sp < ls_end sp" using Cons.prems by simp
  show ?case
  proof (cases "merged \<noteq> [] \<and> ls_end (last merged) = ls_start sp \<and> semantic_key (last merged) = semantic_key sp")
    case True
    let ?new = "(last merged)\<lparr>ls_end := ls_end sp\<rparr>"
    have ms: "set merged = insert (last merged) (set (butlast merged))"
      using True by (metis append_butlast_last_id list.simps(15) rotate1.simps(2) set_rotate1)
    have lastpos: "ls_start (last merged) < ls_end (last merged)" using True Cons.prems ms by simp
    have prem: "\<forall>x \<in> set ((butlast merged @ [?new]) @ spans). ls_start x < ls_end x"
      using Cons.prems lastpos pos True by (auto dest: in_set_butlastD)
    from Cons.IH [OF prem] obtain out where out: "merge_loop spans (butlast merged @ [?new]) = Inr out"
      "\<forall>x \<in> set out. ls_start x < ls_end x"
      "\<And>t k. says out t k \<longleftrightarrow> says ((butlast merged @ [?new]) @ spans) t k"
      "\<forall>x \<in> set out. \<exists>a \<in> set ((butlast merged @ [?new]) @ spans). \<exists>b \<in> set ((butlast merged @ [?new]) @ spans).
         ls_start x = ls_start a \<and> ls_end x = ls_end b" by blast
    have "merge_loop (sp # spans) merged = Inr out" using out(1) True pos by simp
    moreover have "covers ?new t \<longleftrightarrow> covers (last merged) t \<or> covers sp t" for t
      using True lastpos pos by (auto simp: covers_def)
    then have "says ((butlast merged @ [?new]) @ spans) t k \<longleftrightarrow> says (merged @ sp # spans) t k" for t k
      using True unfolding says_def set_append ms by auto
    moreover have "\<exists>a \<in> set (merged @ sp # spans). ls_start x = ls_start a"
      "\<exists>b \<in> set (merged @ sp # spans). ls_end x = ls_end b"
      if "x \<in> set ((butlast merged @ [?new]) @ spans)" for x
      using that True ms by auto
    ultimately show ?thesis using out(2,3,4) by metis
  next
    case False
    from Cons.IH [of "merged @ [sp]"] Cons.prems show ?thesis
      using False pos by (auto simp: not_le [symmetric])
  qed
qed

section \<open>A small feed\<close>

text \<open>
  Two attendances of employee 7 that meet at a change of work center, one of employee 8 without a
  location that is still open, on a calendar whose days are 24 hours from the epoch.
\<close>

definition day_length :: int where
  "day_length = 86400000000"

definition demo_projection :: projection where
  "demo_projection =
     \<lparr>day_start = (\<lambda>d. d * day_length), local_day = (\<lambda>t. t div day_length),
      map_work_center = (\<lambda>w. if w = 3 then Some ''Trim'' else None),
      department_requirement = (\<lambda>_. True), expected_department = (\<lambda>_. None),
      as_of_utc = minutes 600, verified_through = minutes 600,
      grace_duration = minutes 5, stale_duration = seconds 90\<rparr>"

definition demo_row ::
    "int \<Rightarrow> int \<Rightarrow> string \<Rightarrow> datetime \<Rightarrow> datetime option \<Rightarrow> int option \<Rightarrow> raw_row" where
  "demo_row attendance employee name t0 t1 wc =
     [(''odoo_attendance_id'', PyInt attendance), (''employee_odoo_id'', PyInt employee),
      (''employee_name'', PyStr name), (''check_in_utc'', PyDatetime t0 (Some 0)),
      (''check_out_utc'', case t1 of None \<Rightarrow> PyNone | Some t \<Rightarrow> PyDatetime t (Some 0)),
      (''odoo_work_center_id'', case wc of None \<Rightarrow> PyNone | Some w \<Rightarrow> PyInt w),
      (''odoo_work_center_name'', PyNone), (''odoo_department_id'', PyNone),
      (''odoo_department_name'', PyNone), (''odoo_write_date'', PyDatetime t0 (Some 0))]"

definition demo_rows :: "raw_row list" where
  "demo_rows =
     [demo_row 1 7 ''Ann'' (minutes 420) (Some (minutes 500)) (Some 3),
      demo_row 3 8 ''Bo'' (minutes 430) None None,
      demo_row 2 7 ''Ann'' (minutes 500) (Some (minutes 560)) (Some 4)]"

lemma demo_calendar: "calendar_ok demo_projection"
proof -
  have "t div day_length = d \<longleftrightarrow> d * day_length \<le> t \<and> t < (d + 1) * day_length" for t d
  proof -
    have "t = day_length * (t div day_length) + t mod day_length" "0 \<le> t mod day_length" "t mod day_length < day_length"
      by (simp_all add: day_length_def)
    then show ?thesis by (auto simp: day_length_def)
  qed
  then show ?thesis by (simp add: calendar_ok_def demo_projection_def day_length_def)
qed

lemma demo_projected:
  "\<exists>spans. project_rows demo_projection demo_rows = Inr spans \<and>
     map (\<lambda>sp. (ls_employee_id sp, ls_start sp, ls_end sp, ls_status sp)) spans =
       [(7, minutes 420, minutes 500, Valid_Location), (7, minutes 500, minutes 560, Unmapped_Location),
        (8, minutes 430, minutes 435, Pending_First_Location),
        (8, minutes 435, minutes 600, Missing_Required_Location)]"
proof -
  have "(case project_rows demo_projection demo_rows of Inl _ \<Rightarrow> False | Inr spans \<Rightarrow>
     map (\<lambda>sp. (ls_employee_id sp, ls_start sp, ls_end sp, ls_status sp)) spans =
       [(7, minutes 420, minutes 500, Valid_Location), (7, minutes 500, minutes 560, Unmapped_Location),
        (8, minutes 430, minutes 435, Pending_First_Location),
        (8, minutes 435, minutes 600, Missing_Required_Location)])"
    by code_simp
  then show ?thesis by (auto split: sum.splits)
qed

section \<open>Properties\<close>

text \<open>
  C11. A projection is right at every instant: for every employee and instant, some span of the
  employee covers the instant exactly when one of the employee's attendances is running, and a
  span that covers it lists exactly the running attendances and carries the status of that
  instant. The spans of an employee are disjoint, in order, and no two neighbours say the same.
\<close>

theorem timeline_pointwise:
  assumes "calendar_ok pr" and "project_rows pr rows = Inr spans"
  shows "\<exists>sources. normalize_rows rows = Inr sources \<and>
    (\<forall>e. ordered_spans (spans_of e spans) \<and> successively unmergeable (spans_of e spans) \<and>
       (\<forall>t. (\<exists>sp \<in> set (spans_of e spans). covers sp t) \<longleftrightarrow>
            active_at pr (covered_rows pr (rows_of e sources)) t \<noteq> []) \<and>
       (\<forall>sp \<in> set (spans_of e spans). \<forall>t. covers sp t \<longrightarrow>
            ls_attendance_ids sp = ids_at pr (covered_rows pr (rows_of e sources)) t \<and>
            ls_status sp = status_at pr (covered_rows pr (rows_of e sources)) t))"
proof -
  from project_rows_parts [OF assms(2)] obtain sources where sources: "normalize_rows rows = Inr sources"
    and parts: "\<And>e. project_employee pr (rows_of e sources) = Inr (spans_of e spans)" by blast
  then show ?thesis using employee_projection [OF assms(1) parts] by (auto simp: agrees_def)
qed

theorem timeline_pointwise_witness:
  "\<exists>spans sources. project_rows demo_projection demo_rows = Inr spans \<and>
     normalize_rows demo_rows = Inr sources \<and> spans \<noteq> [] \<and>
     (\<forall>t. (\<exists>sp \<in> set (spans_of 7 spans). covers sp t) \<longleftrightarrow>
          active_at demo_projection (covered_rows demo_projection (rows_of 7 sources)) t \<noteq> [])"
proof -
  from demo_projected obtain spans where "project_rows demo_projection demo_rows = Inr spans" "spans \<noteq> []"
    by auto
  then show ?thesis using timeline_pointwise [OF demo_calendar, of demo_rows spans] by blast
qed

text \<open>
  C12. On the request path, where no repair target is known, a projection raises nothing beyond
  its input checks: it fails exactly when a duration is negative or the feed does not normalise.
\<close>

theorem timeline_request_path_total:
  assumes "calendar_ok pr" and "\<forall>app. expected_department pr app = None"
  shows "(\<exists>spans. project_rows pr rows = Inr spans) \<longleftrightarrow>
    0 \<le> grace_duration pr \<and> 0 \<le> stale_duration pr \<and> (\<exists>sources. normalize_rows rows = Inr sources)"
proof
  assume "\<exists>spans. project_rows pr rows = Inr spans"
  then show "0 \<le> grace_duration pr \<and> 0 \<le> stale_duration pr \<and> (\<exists>sources. normalize_rows rows = Inr sources)"
    unfolding project_rows_def by (auto simp: rbind_Inr_iff guard_error_def not_less split: if_splits)
next
  assume ok: "0 \<le> grace_duration pr \<and> 0 \<le> stale_duration pr \<and> (\<exists>sources. normalize_rows rows = Inr sources)"
  have "\<exists>parts. rmap (\<lambda>(e, rs). project_employee pr rs) groups = Inr parts" for groups
  proof (induction groups)
    case (Cons g groups)
    obtain e rs where g: "g = (e, rs)" by (cases g)
    from employee_projection_total [OF assms(1), of rs] assms(2) Cons show ?case by (auto simp: g)
  qed simp
  then show "\<exists>spans. project_rows pr rows = Inr spans"
    using ok unfolding project_rows_def by (auto simp: guard_error_def rbind_Inr_iff)
qed

theorem timeline_request_path_total_witness:
  "0 \<le> grace_duration demo_projection \<and> (\<exists>sources. normalize_rows demo_rows = Inr sources)"
  using timeline_request_path_total [OF demo_calendar, of demo_rows] demo_projected
  by (auto simp: demo_projection_def)

text \<open>
  C13. Normalisation accepts only well-formed feeds: positive ids, a name, check-outs after their
  check-ins, no attendance twice, one name per employee; it keeps every row, sorted by employee,
  check-in and id.
\<close>

theorem normalized_feed:
  assumes "normalize_rows rows = Inr sources"
  shows "rows_ok sources \<and> sorted (map row_key sources) \<and> length sources = length rows \<and>
    (\<forall>raw \<in> set rows. \<exists>source \<in> set sources. source_row_of raw = Inr source)"
proof -
  have "length out = length acc + length raws \<and> set acc \<subseteq> set out \<and>
      (\<forall>raw \<in> set raws. \<exists>source \<in> set out. source_row_of raw = Inr source)"
    if "normalize_loop raws ids names acc = Inr out" for raws ids names acc out
    using that
  proof (induction raws arbitrary: ids names acc)
    case (Cons raw raws)
    from normalize_step [OF Cons.prems] obtain r where "source_row_of raw = Inr r"
      and rest: "normalize_loop raws (insert (attendance_id r) ids) (names(employee_id r \<mapsto> employee_name r)) (acc @ [r]) = Inr out" .
    then show ?case using Cons.IH [OF rest] by auto
  qed simp
  then have "length sources = length rows \<and> (\<forall>raw \<in> set rows. \<exists>source \<in> set sources. source_row_of raw = Inr source)"
    using assms by (fastforce simp: normalize_rows_def rbind_Inr_iff)
  then show ?thesis using normalize_rows_ok [OF assms] by blast
qed

theorem normalized_feed_witness: "\<exists>sources. normalize_rows demo_rows = Inr sources \<and> rows_ok sources"
proof -
  from demo_projected obtain spans where "project_rows demo_projection demo_rows = Inr spans" by auto
  then obtain sources where "normalize_rows demo_rows = Inr sources" by (rule project_rows_parts)
  then show ?thesis using normalized_feed by blast
qed

text \<open>
  C14. Merging is a normal form: on ordered spans it succeeds, every instant keeps what it said,
  the result is ordered without mergeable neighbours, and merging it again changes nothing.
\<close>

theorem merge_normal_form:
  assumes "ordered_spans spans"
  shows "\<exists>out. merge_adjacent spans = Inr out \<and> merge_adjacent out = Inr out \<and> ordered_spans out \<and>
    successively unmergeable out \<and> (\<forall>t k. says out t k \<longleftrightarrow> says spans t k)"
proof -
  from merge_adjacent_keeps [OF assms] obtain out where out: "merge_adjacent spans = Inr out"
    "ordered_spans out" "successively unmergeable out" "\<forall>t k. says out t k \<longleftrightarrow> says spans t k" by blast
  moreover have "merge_adjacent out = Inr out"
    unfolding merge_adjacent_def
    using merge_loop_fixed [of "[]" out] out(2,3) by (simp add: ordered_spans_def)
  ultimately show ?thesis by blast
qed

theorem merge_normal_form_witness:
  "\<exists>out. merge_adjacent
     [make_span demo_projection [] 0 5 Valid_Location None None None None,
      make_span demo_projection [] 5 9 Valid_Location None None None None] = Inr out \<and>
     merge_adjacent out = Inr out"
  using merge_normal_form [of "[make_span demo_projection [] 0 5 Valid_Location None None None None,
      make_span demo_projection [] 5 9 Valid_Location None None None None]"]
  by (auto simp: ordered_spans_def)

text \<open>What a span says of its instants, apart from whether it is still open.\<close>

definition place_key where
  "place_key sp =
     (ls_employee_id sp, ls_employee_name sp, ls_status sp, ls_app_work_center sp,
      ls_odoo_work_center_id sp, ls_odoo_work_center_name sp, ls_attendance_ids sp, ls_department_repair sp)"

lemma place_of_semantic:
  "semantic_key a = semantic_key b \<Longrightarrow> place_key a = place_key b"
  by (simp add: semantic_key_def place_key_def)

text \<open>
  C15. A range query clips and nothing else: every span it returns lies in the range and has a
  positive duration, and inside the range it says of every instant exactly what the projection of
  the same rows says.
\<close>

theorem clipped_timeline:
  assumes "rows \<noteq> []"
    and "timeline_for_range pr start_utc end_utc (Some verified) rows = Inr spans"
  shows "\<exists>projected. project_rows (pr\<lparr>verified_through := verified\<rparr>) rows = Inr projected \<and>
    (\<forall>sp \<in> set spans. start_utc \<le> ls_start sp \<and> ls_start sp < ls_end sp \<and> ls_end sp \<le> end_utc) \<and>
    (\<forall>t k. start_utc \<le> t \<and> t < end_utc \<longrightarrow>
       ((\<exists>sp \<in> set spans. covers sp t \<and> place_key sp = k) \<longleftrightarrow>
        (\<exists>sp \<in> set projected. covers sp t \<and> place_key sp = k)))"
proof -
  from assms obtain projected where projected: "project_rows (pr\<lparr>verified_through := verified\<rparr>) rows = Inr projected"
    and clip: "clip_timeline start_utc end_utc projected = Inr spans"
    unfolding timeline_for_range_def by (auto elim!: rbind_InrE)
  let ?keep = "filter (\<lambda>sp. min end_utc (ls_end sp) > max start_utc (ls_start sp)) projected"
  let ?cl = "map (clip_span start_utc end_utc) ?keep"
  have pos: "\<forall>sp \<in> set ([] @ ?cl). ls_start sp < ls_end sp" by (auto simp: clip_span_def)
  from merge_loop_says [OF pos] clip have
    spos: "\<forall>sp \<in> set spans. ls_start sp < ls_end sp"
    and same: "\<And>t k. says spans t k \<longleftrightarrow> says ?cl t k"
    and ends: "\<forall>sp \<in> set spans. \<exists>a \<in> set ?cl. \<exists>b \<in> set ?cl. ls_start sp = ls_start a \<and> ls_end sp = ls_end b"
    by (auto simp: clip_timeline_def merge_adjacent_def)
  have range: "start_utc \<le> ls_start sp \<and> ls_end sp \<le> end_utc" if "sp \<in> set ?cl" for sp
    using that by (auto simp: clip_span_def)
  have bounds: "start_utc \<le> ls_start sp \<and> ls_start sp < ls_end sp \<and> ls_end sp \<le> end_utc" if "sp \<in> set spans" for sp
    using that spos ends range by metis
  have by_key: "(\<exists>sp \<in> set xs. covers sp t \<and> place_key sp = k) \<longleftrightarrow> (\<exists>sp \<in> set ys. covers sp t \<and> place_key sp = k)"
    if "\<And>t k. says xs t k \<longleftrightarrow> says ys t k" for xs ys t k
    using that place_of_semantic unfolding says_def by metis
  have inside: "(\<exists>sp \<in> set ?cl. covers sp t \<and> place_key sp = k) \<longleftrightarrow> (\<exists>sp \<in> set projected. covers sp t \<and> place_key sp = k)"
    if "start_utc \<le> t" "t < end_utc" for t k
    using that by (auto simp: clip_span_def covers_def place_key_def)
  have "(\<exists>sp \<in> set spans. covers sp t \<and> place_key sp = k) \<longleftrightarrow> (\<exists>sp \<in> set projected. covers sp t \<and> place_key sp = k)"
    if "start_utc \<le> t \<and> t < end_utc" for t k
    using by_key [OF same, of t k] inside [of t k] that by simp
  then show ?thesis using projected bounds by simp
qed

theorem clipped_timeline_witness:
  "\<exists>spans. timeline_for_range demo_projection (minutes 450) (minutes 520) (Some (minutes 600)) demo_rows = Inr spans \<and>
     (\<forall>sp \<in> set spans. minutes 450 \<le> ls_start sp \<and> ls_end sp \<le> minutes 520)"
proof -
  have "\<exists>spans. timeline_for_range demo_projection (minutes 450) (minutes 520) (Some (minutes 600)) demo_rows = Inr spans"
  proof -
    have "\<not> isl (timeline_for_range demo_projection (minutes 450) (minutes 520) (Some (minutes 600)) demo_rows)"
      by code_simp
    then show ?thesis by (metis isl_def sum.collapse(2))
  qed
  moreover have "demo_rows \<noteq> []" by (simp add: demo_rows_def)
  ultimately show ?thesis using clipped_timeline [of demo_rows demo_projection "minutes 450" "minutes 520" "minutes 600"] by blast
qed

end
