(* ===== verification/Correction_Pieces.thy ===== *)
theory Correction_Pieces
  imports Python_Values
begin

text \<open>
  The interval surgery of the attendance correction planner (\<open>attendance_corrections.py\<close>, lines
  353-375 and 485-1104): how the attendance rows of one employee are cut into pieces so that a
  requested interval carries the requested work center and department, in the four variants
  (closed or open interval, plain or merging) with their no-op checks.
\<close>

section \<open>Rows, pieces and requests\<close>

record correction_row =
  cr_id :: int
  cr_employee :: int
  cr_start :: datetime
  cr_end :: "datetime option"
  cr_work_center :: "int option"
  cr_department :: "int option"
  cr_write_date :: datetime
  cr_values :: dict

record piece =
  pc_start :: datetime
  pc_end :: "datetime option"
  pc_work_center :: "int option"
  pc_department :: "int option"
  pc_attendance_id :: "int option"
  pc_source :: "correction_row option"
  pc_key_sources :: "correction_row list"
  pc_target :: bool

text \<open>The validated request: the interval, the location, and whether gaps are merged.\<close>

record request =
  rq_start :: datetime
  rq_end :: "datetime option"
  rq_work_center :: int
  rq_department :: "int option"
  rq_merge :: bool

text \<open>An end that is \<open>None\<close> is after every instant.\<close>

definition ends_after :: "datetime option \<Rightarrow> datetime \<Rightarrow> bool" where
  "ends_after e t = (case e of None \<Rightarrow> True | Some x \<Rightarrow> t < x)"

definition piece_from_source ::
    "correction_row \<Rightarrow> datetime \<Rightarrow> datetime option \<Rightarrow> int option \<Rightarrow> piece" where
  "piece_from_source source start fin attendance =
     \<lparr>pc_start = start, pc_end = fin, pc_work_center = cr_work_center source,
      pc_department = cr_department source, pc_attendance_id = attendance,
      pc_source = Some source, pc_key_sources = [source], pc_target = False\<rparr>"

definition untouched_piece :: "correction_row \<Rightarrow> piece" where
  "untouched_piece source =
     piece_from_source source (cr_start source) (cr_end source) (Some (cr_id source))"

definition target_piece ::
    "request \<Rightarrow> correction_row option \<Rightarrow> datetime \<Rightarrow> datetime option \<Rightarrow> correction_row list \<Rightarrow> piece" where
  "target_piece rq source start fin key_sources =
     \<lparr>pc_start = start, pc_end = fin, pc_work_center = Some (rq_work_center rq),
      pc_department = rq_department rq, pc_attendance_id = map_option cr_id source,
      pc_source = source,
      pc_key_sources = (case source of Some s \<Rightarrow> [s] | None \<Rightarrow> key_sources), pc_target = True\<rparr>"

section \<open>Planning\<close>

text \<open>The rows a range touches, and the runs of rows that meet end to start.\<close>

definition overlapping :: "datetime \<Rightarrow> datetime \<Rightarrow> correction_row list \<Rightarrow> correction_row list" where
  "overlapping start fin sources =
     filter (\<lambda>r. cr_start r < fin \<and> ends_after (cr_end r) start) sources"

definition from_onward :: "datetime \<Rightarrow> correction_row list \<Rightarrow> correction_row list" where
  "from_onward start sources = filter (\<lambda>r. ends_after (cr_end r) start) sources"

definition add_to_run :: "correction_row list list \<Rightarrow> correction_row \<Rightarrow> correction_row list list" where
  "add_to_run grouped item =
     (if grouped \<noteq> [] \<and> cr_end (last (last grouped)) = Some (cr_start item)
      then butlast grouped @ [last grouped @ [item]] else grouped @ [[item]])"

definition runs :: "correction_row list \<Rightarrow> correction_row list list" where
  "runs rows = foldl add_to_run [] rows"

text \<open>
  What is kept of a run (or of all touched rows, when merging): the time of the first row before
  the target, the time of the last row after it; the target reuses the first row inside it whose
  id is still free.
\<close>

definition left_remainder :: "datetime \<Rightarrow> correction_row list \<Rightarrow> piece list" where
  "left_remainder target_start rows =
     (if cr_start (hd rows) < target_start
      then [piece_from_source (hd rows) (cr_start (hd rows)) (Some target_start)
              (Some (cr_id (hd rows)))]
      else [])"

definition right_remainder :: "datetime \<Rightarrow> int set \<Rightarrow> correction_row list \<Rightarrow> piece list" where
  "right_remainder target_end used_ids rows =
     (if ends_after (cr_end (last rows)) target_end
      then [piece_from_source (last rows) target_end (cr_end (last rows))
              (if cr_id (last rows) \<in> used_ids then None else Some (cr_id (last rows)))]
      else [])"

definition piece_ids :: "piece list \<Rightarrow> int set" where
  "piece_ids pieces = set (List.map_filter pc_attendance_id pieces)"

definition reusable :: "datetime \<Rightarrow> datetime \<Rightarrow> int set \<Rightarrow> correction_row list \<Rightarrow> correction_row option" where
  "reusable target_start target_end used_ids rows =
     find (\<lambda>r. cr_id r \<notin> used_ids \<and> cr_start r \<ge> target_start
             \<and> cr_end r \<noteq> None \<and> \<not> ends_after (cr_end r) target_end) rows"

definition surgery :: "request \<Rightarrow> datetime \<Rightarrow> datetime \<Rightarrow> correction_row list \<Rightarrow> piece list" where
  "surgery rq target_start target_end rows =
     (let left = left_remainder target_start rows;
          right = right_remainder target_end (piece_ids left) rows
      in left @ right
         @ [target_piece rq (reusable target_start target_end (piece_ids left \<union> piece_ids right) rows)
              target_start (Some target_end) rows])"

definition run_pieces :: "request \<Rightarrow> datetime \<Rightarrow> correction_row list \<Rightarrow> piece list" where
  "run_pieces rq fin grp =
     (let last_end = (case cr_end (last grp) of Some e \<Rightarrow> e | None \<Rightarrow> fin)
      in surgery rq (max (rq_start rq) (cr_start (hd grp))) (min fin last_end) grp)"

definition unaffected :: "correction_row list \<Rightarrow> correction_row list \<Rightarrow> correction_row list" where
  "unaffected sources overlaps =
     filter (\<lambda>r. cr_id r \<notin> set (map cr_id overlaps)) sources"

definition closed_pieces :: "request \<Rightarrow> datetime \<Rightarrow> correction_row list \<Rightarrow> piece list" where
  "closed_pieces rq fin sources =
     (let overlaps = overlapping (rq_start rq) fin sources
      in if overlaps = []
         then map untouched_piece sources @ [target_piece rq None (rq_start rq) (Some fin) []]
         else map untouched_piece (unaffected sources overlaps)
              @ concat (map (run_pieces rq fin) (runs overlaps)))"

definition closed_merge_pieces :: "request \<Rightarrow> datetime \<Rightarrow> correction_row list \<Rightarrow> piece list" where
  "closed_merge_pieces rq fin sources =
     (let overlaps = overlapping (rq_start rq) fin sources
      in if overlaps = []
         then map untouched_piece sources @ [target_piece rq None (rq_start rq) (Some fin) []]
         else map untouched_piece (unaffected sources overlaps)
              @ surgery rq (rq_start rq) fin overlaps)"

definition open_pieces :: "request \<Rightarrow> correction_row list \<Rightarrow> piece list" where
  "open_pieces rq sources =
     (let affected = from_onward (rq_start rq) sources;
          kept = filter (\<lambda>r. \<not> ends_after (cr_end r) (rq_start rq)) sources;
          left = left_remainder (rq_start rq) affected
      in if affected = []
         then map untouched_piece sources @ [target_piece rq None (rq_start rq) None []]
         else map untouched_piece kept @ left
              @ [target_piece rq
                   (find (\<lambda>r. cr_id r \<notin> piece_ids left \<and> cr_start r \<ge> rq_start rq) affected)
                   (rq_start rq) None affected])"

definition open_merge_pieces :: "request \<Rightarrow> correction_row list \<Rightarrow> piece list result" where
  "open_merge_pieces rq sources =
     (let affected = from_onward (rq_start rq) sources;
          kept = filter (\<lambda>r. \<not> ends_after (cr_end r) (rq_start rq)) sources;
          refused = Inl (ValueError ''open merge requires the open attendance row inside the merge range'')
      in case find (\<lambda>r. cr_end r = None) sources of
           None \<Rightarrow> refused
         | Some live \<Rightarrow>
             if cr_start live < rq_start rq then refused
             else Inr (map untouched_piece kept @ left_remainder (rq_start rq) affected
                       @ [target_piece rq (Some live) (rq_start rq) None []]))"

definition at_target :: "request \<Rightarrow> correction_row \<Rightarrow> bool" where
  "at_target rq r = (cr_work_center r = Some (rq_work_center rq) \<and> cr_department r = rq_department rq)"

definition correction_is_no_op :: "request \<Rightarrow> correction_row list \<Rightarrow> bool" where
  "correction_is_no_op rq sources =
     (case rq_end rq of
        None \<Rightarrow> (case from_onward (rq_start rq) sources of
            [r] \<Rightarrow> cr_start r \<le> rq_start rq \<and> cr_end r = None \<and> at_target rq r
          | _ \<Rightarrow> False)
      | Some fin \<Rightarrow>
          (let overlaps = overlapping (rq_start rq) fin sources
           in overlaps \<noteq> [] \<and> list_all (at_target rq) overlaps))"

definition merge_is_no_op :: "request \<Rightarrow> correction_row list \<Rightarrow> bool" where
  "merge_is_no_op rq sources =
     (case (case rq_end rq of None \<Rightarrow> from_onward (rq_start rq) sources
                            | Some fin \<Rightarrow> overlapping (rq_start rq) fin sources) of
        [r] \<Rightarrow>
          (case rq_end rq of None \<Rightarrow> cr_end r = None
             | Some fin \<Rightarrow> (case cr_end r of None \<Rightarrow> True | Some e \<Rightarrow> e \<ge> fin))
          \<and> cr_start r \<le> rq_start rq \<and> at_target rq r
      | _ \<Rightarrow> False)"

definition merge_pieces_for_request :: "request \<Rightarrow> correction_row list \<Rightarrow> piece list result" where
  "merge_pieces_for_request rq sources =
     (if merge_is_no_op rq sources then Inr (map untouched_piece sources)
      else case rq_end rq of
             None \<Rightarrow> open_merge_pieces rq sources
           | Some fin \<Rightarrow> Inr (closed_merge_pieces rq fin sources))"

definition pieces_for_request :: "request \<Rightarrow> correction_row list \<Rightarrow> piece list result" where
  "pieces_for_request rq sources =
     (if rq_merge rq then merge_pieces_for_request rq sources
      else if correction_is_no_op rq sources then Inr (map untouched_piece sources)
      else case rq_end rq of
             None \<Rightarrow> Inr (open_pieces rq sources)
           | Some fin \<Rightarrow> Inr (closed_pieces rq fin sources))"

end
