(* ===== verification/Utc_Text.thy ===== *)
theory Utc_Text
  imports Python_Values
begin

text \<open>
  The text form of UTC instants (\<open>_utc_text\<close>, \<open>_parse_utc_text\<close> of \<open>attendance_corrections.py\<close>):
  \<open>datetime.isoformat\<close> over the proleptic Gregorian calendar of the \<open>datetime\<close> module, and its
  strict inverse.
\<close>

section \<open>Decimal numbers of fixed width\<close>

definition digit :: "nat \<Rightarrow> char" where
  "digit n = char_of (48 + n)"

definition is_digit :: "char \<Rightarrow> bool" where
  "is_digit c = (48 \<le> (of_char c :: nat) \<and> (of_char c :: nat) \<le> 57)"

definition digit_value :: "char \<Rightarrow> nat" where
  "digit_value c = of_char c - 48"

fun pad :: "nat \<Rightarrow> nat \<Rightarrow> string" where
  "pad 0 n = []"
| "pad (Suc w) n = pad w (n div 10) @ [digit (n mod 10)]"

definition read_nat :: "string \<Rightarrow> nat" where
  "read_nat s = foldl (\<lambda>acc c. 10 * acc + digit_value c) 0 s"

lemma digit_facts [simp]:
  assumes "n < 10"
  shows "is_digit (digit n)" "digit_value (digit n) = n"
  using assms by (simp_all add: is_digit_def digit_def digit_value_def)

lemma length_pad [simp]: "length (pad w n) = w"
  by (induction w n rule: pad.induct) auto

lemma pad_digits: "list_all is_digit (pad w n)"
  by (induction w n rule: pad.induct) auto

lemma read_nat_snoc: "read_nat (s @ [c]) = 10 * read_nat s + digit_value c"
  by (simp add: read_nat_def)

lemma read_pad: "n < 10 ^ w \<Longrightarrow> read_nat (pad w n) = n"
proof (induction w n rule: pad.induct)
  case (2 w n)
  then have "n div 10 < 10 ^ w" by (simp add: less_mult_imp_div_less)
  then show ?case using 2 by (simp add: read_nat_snoc)
qed (simp add: read_nat_def)

section \<open>The calendar\<close>

text \<open>Day 0 is 1970-01-01; ordinals count from 0001-01-01 as day 1, as \<open>date.toordinal\<close> does.\<close>

definition is_leap :: "int \<Rightarrow> bool" where
  "is_leap y = (y mod 4 = 0 \<and> (y mod 100 \<noteq> 0 \<or> y mod 400 = 0))"

definition days_before_year :: "int \<Rightarrow> int" where
  "days_before_year y = (let z = y - 1 in z * 365 + z div 4 - z div 100 + z div 400)"

definition month_starts :: "int list" where
  "month_starts = [0, 31, 59, 90, 120, 151, 181, 212, 243, 273, 304, 334, 365]"

definition days_before_month :: "bool \<Rightarrow> nat \<Rightarrow> int" where
  "days_before_month leap m = month_starts ! (m - 1) + of_bool (m > 2 \<and> leap)"

definition ordinal :: "int \<Rightarrow> nat \<Rightarrow> int \<Rightarrow> int" where
  "ordinal y m d = days_before_year y + days_before_month (is_leap y) m + d"

text \<open>The year of an ordinal and the day in it, by 400-, 100-, 4- and 1-year cycles.\<close>

definition year_day :: "int \<Rightarrow> int \<times> int" where
  "year_day ord =
     (let n = ord - 1; n400 = n div 146097; r = n mod 146097;
          n100 = r div 36524; r = r mod 36524;
          n4 = r div 1461; r = r mod 1461;
          n1 = r div 365; r = r mod 365;
          y = n400 * 400 + n100 * 100 + n4 * 4 + n1 + 1
      in if n1 = 4 \<or> n100 = 4 then (y - 1, 365) else (y, r))"

definition month_of :: "bool \<Rightarrow> int \<Rightarrow> nat" where
  "month_of leap r = last (filter (\<lambda>m. days_before_month leap m \<le> r) [1..<13])"

definition civil :: "int \<Rightarrow> int \<times> nat \<times> int" where
  "civil ord =
     (case year_day ord of (y, r) \<Rightarrow>
        let m = month_of (is_leap y) r in (y, m, r - days_before_month (is_leap y) m + 1))"

lemma cycle_div:
  fixes q b c a :: int
  assumes "0 \<le> a" "a \<le> 3" "0 \<le> b" "b \<le> 3" "0 \<le> c" "c \<le> 24"
  shows "(q * 400 + b * 100 + c * 4 + a) div 4 = 100 * q + 25 * b + c"
    "(q * 400 + b * 100 + c * 4 + a) div 100 = 4 * q + b"
    "(q * 400 + b * 100 + c * 4 + a) div 400 = q"
  using assms
  by (auto intro: int_div_pos_eq [where r = a] int_div_pos_eq [where r = "c * 4 + a"]
      int_div_pos_eq [where r = "b * 100 + c * 4 + a"])

lemma year_day_ordinal:
  assumes "year_day ord = (y, r)"
  shows "days_before_year y + r + 1 = ord \<and> 0 \<le> r \<and> r < 365 + of_bool (is_leap y)"
proof -
  define n where "n = ord - 1"
  define n400 where "n400 = n div 146097" define r400 where "r400 = n mod 146097"
  define n100 where "n100 = r400 div 36524" define r100 where "r100 = r400 mod 36524"
  define n4 where "n4 = r100 div 1461" define r4 where "r4 = r100 mod 1461"
  define n1 where "n1 = r4 div 365" define r1 where "r1 = r4 mod 365"
  have n: "n = n400 * 146097 + r400" "0 \<le> r400" "r400 < 146097"
    by (simp_all add: n400_def r400_def)
  have a: "r400 = n100 * 36524 + r100" "0 \<le> r100" "r100 < 36524"
    by (simp_all add: n100_def r100_def)
  have b: "r100 = n4 * 1461 + r4" "0 \<le> r4" "r4 < 1461" by (simp_all add: n4_def r4_def)
  have c: "r4 = n1 * 365 + r1" "0 \<le> r1" "r1 < 365" by (simp_all add: n1_def r1_def)
  have bounds: "0 \<le> n100" "n100 \<le> 4" "0 \<le> n4" "n4 \<le> 24" "0 \<le> n1" "n1 \<le> 4" using n a b c by linarith+
  let ?y = "n400 * 400 + n100 * 100 + n4 * 4 + n1 + 1"
  have yr: "(y, r) = (if n1 = 4 \<or> n100 = 4 then (?y - 1, 365) else (?y, r1))"
    by (simp only: assms [symmetric] year_day_def Let_def n_def n400_def r400_def n100_def r100_def n4_def r4_def n1_def r1_def)
  have dby: "days_before_year (z + 1) = z * 365 + z div 4 - z div 100 + z div 400" for z
    by (simp add: days_before_year_def)
  show ?thesis
  proof (cases "n1 = 4 \<or> n100 = 4")
    case False
    then have "n1 \<le> 3" "n100 \<le> 3" using bounds by linarith+
    let ?z = "n400 * 400 + n100 * 100 + n4 * 4 + n1"
    have d: "?z div 4 = 100 * n400 + 25 * n100 + n4" "?z div 100 = 4 * n400 + n100" "?z div 400 = n400"
      using bounds \<open>n1 \<le> 3\<close> \<open>n100 \<le> 3\<close>
      by (simp_all only: cycle_div)
    have "y = ?z + 1" "r = r1" using yr False by simp_all
    moreover have "days_before_year (?z + 1) + r1 + 1 = ord"
      unfolding dby d using n(1) a(1) b(1) c(1) by (simp add: n_def)
    ultimately show ?thesis using c by simp
  next
    case True
    show ?thesis
    proof (cases "n100 = 4")
      case True
      then have z: "n4 = 0" "n1 = 0" "r1 = 0" using n a b c bounds by linarith+
      let ?z = "n400 * 400 + 3 * 100 + 24 * 4 + 3"
      have d: "?z div 4 = 100 * n400 + 25 * 3 + 24" "?z div 100 = 4 * n400 + 3" "?z div 400 = n400"
        using cycle_div [of 3 3 24 n400] by simp_all
      have y: "y = ?z + 1" "r = 365" using yr True z by simp_all
      moreover have "days_before_year (?z + 1) + 366 = ord"
        unfolding dby d using n(1) a(1) b(1) c(1) True z by (simp add: n_def)
      moreover have "is_leap y"
      proof -
        have "y = 400 * (n400 + 1)" using y(1) by simp
        then have "y mod 400 = 0" "y mod 4 = (4 * (100 * (n400 + 1))) mod 4" by simp_all
        then show ?thesis by (simp add: is_leap_def)
      qed
      ultimately show ?thesis by simp
    next
      case False
      then have n1: "n1 = 4" "n100 \<le> 3" "r1 = 0" using True b c bounds by linarith+
      have n4: "n4 \<le> 23"
      proof (rule ccontr)
        assume "\<not> n4 \<le> 23"
        then have "n4 = 24" using bounds by linarith
        then show False using a b c n1 by linarith
      qed
      let ?z = "n400 * 400 + n100 * 100 + n4 * 4 + 3"
      have d: "?z div 4 = 100 * n400 + 25 * n100 + n4" "?z div 100 = 4 * n400 + n100" "?z div 400 = n400"
        using bounds n1 n4
        by (simp_all only: cycle_div)
      have y: "y = ?z + 1" "r = 365" using yr n1 by simp_all
      moreover have "days_before_year (?z + 1) + 366 = ord"
        unfolding dby d using n(1) a(1) b(1) c(1) n1 by (simp add: n_def)
      moreover have "is_leap y"
      proof -
        have "y = 4 * (100 * n400 + 25 * n100 + n4 + 1)" using y by simp
        then have "y mod 4 = 0" by simp
        moreover have "y mod 100 = n4 * 4 + 4"
        proof -
          have "y = (n4 * 4 + 4) + 100 * (4 * n400 + n100)" using y by simp
          then have "y mod 100 = (n4 * 4 + 4) mod 100" by (simp only: mod_mult_self2)
          then show ?thesis using n4 bounds by (simp add: mod_pos_pos_trivial)
        qed
        ultimately show ?thesis using bounds by (simp add: is_leap_def)
      qed
      ultimately show ?thesis by simp
    qed
  qed
qed

lemma days_before_month_one [simp]: "days_before_month leap 1 = 0" "days_before_month leap (Suc 0) = 0"
  by (simp_all add: days_before_month_def month_starts_def)

lemma month_of_facts:
  assumes "0 \<le> r" "r < 365 + of_bool leap"
  shows "month_of leap r \<in> {1..12} \<and> days_before_month leap (month_of leap r) \<le> r \<and>
    r < days_before_month leap (month_of leap r + 1)"
proof -
  let ?P = "\<lambda>m. days_before_month leap m \<le> r"
  let ?ms = "filter ?P [1..<13]"
  have ne: "?ms \<noteq> []" using assms by (auto simp: filter_empty_conv intro!: bexI [of _ 1])
  then have "last ?ms \<in> set ?ms" by (rule last_in_set)
  then have mem: "month_of leap r \<in> {1..12}" "?P (month_of leap r)" by (auto simp: month_of_def)
  have le_last: "x \<le> last xs" if "sorted xs" "x \<in> set xs" for x and xs :: "nat list"
    using that by (induction xs) auto
  have top: "x \<le> month_of leap r" if "x \<in> {1..12}" "?P x" for x
    unfolding month_of_def by (rule le_last) (use that in \<open>auto intro: sorted_wrt_filter\<close>)
  have "\<not> ?P (month_of leap r + 1)"
  proof (cases "month_of leap r = 12")
    case True
    then show ?thesis using assms by (simp add: days_before_month_def month_starts_def)
  next
    case False
    then show ?thesis using top [of "month_of leap r + 1"] mem by auto
  qed
  then show ?thesis using mem by simp
qed

lemma civil_ordinal:
  assumes "civil ord = (y, m, d)"
  shows "ordinal y m d = ord \<and> m \<in> {1..12} \<and> 1 \<le> d \<and>
    d \<le> days_before_month (is_leap y) (m + 1) - days_before_month (is_leap y) m"
proof -
  obtain y' r where yr: "year_day ord = (y', r)" by (cases "year_day ord")
  from year_day_ordinal [OF this] have r: "days_before_year y' + r + 1 = ord" "0 \<le> r" "r < 365 + of_bool (is_leap y')"
    by auto
  from assms yr have y: "y = y'" "m = month_of (is_leap y) r" "d = r - days_before_month (is_leap y) m + 1"
    by (auto simp: civil_def Let_def)
  from month_of_facts [OF r(2), of "is_leap y"] r(1,3) show ?thesis
    unfolding y(1) y(2,3) by (simp add: ordinal_def y(1))
qed

section \<open>Text\<close>

definition epoch_ordinal :: int where
  "epoch_ordinal = 719163"

definition day_micros :: int where
  "day_micros = 86400000000"

text \<open>\<open>isoformat\<close> of a UTC instant, with \<open>+00:00\<close> written \<open>Z\<close>; years 1 to 9999.\<close>

definition utc_text :: "datetime \<Rightarrow> string" where
  "utc_text t =
     (case civil (t div day_micros + epoch_ordinal) of (y, m, d) \<Rightarrow>
        let s = nat (t mod day_micros div 1000000); us = nat (t mod 1000000)
        in pad 4 (nat y) @ ''-'' @ pad 2 m @ ''-'' @ pad 2 (nat d) @ ''T''
           @ pad 2 (s div 3600) @ '':'' @ pad 2 (s div 60 mod 60) @ '':'' @ pad 2 (s mod 60)
           @ (if us = 0 then [] else ''.'' @ pad 6 us) @ ''Z'')"

definition is_datetime :: "datetime \<Rightarrow> bool" where
  "is_datetime t = (-62135596800000000 \<le> t \<and> t \<le> 253402300799999999)"

text \<open>The fields at their positions, then the check that the text is the canonical one.\<close>

definition text_shape :: "string \<Rightarrow> bool" where
  "text_shape s =
     ((length s = 20 \<or> length s = 27) \<and> last s = CHR ''Z'' \<and>
      list_all is_digit (take 4 s) \<and> s ! 4 = CHR ''-'' \<and> list_all is_digit (take 2 (drop 5 s)) \<and>
      s ! 7 = CHR ''-'' \<and> list_all is_digit (take 2 (drop 8 s)) \<and> s ! 10 = CHR ''T'' \<and>
      list_all is_digit (take 2 (drop 11 s)) \<and> s ! 13 = CHR '':'' \<and> list_all is_digit (take 2 (drop 14 s)) \<and>
      s ! 16 = CHR '':'' \<and> list_all is_digit (take 2 (drop 17 s)) \<and>
      (length s = 27 \<longrightarrow> s ! 19 = CHR ''.'' \<and> list_all is_digit (take 6 (drop 20 s))))"

definition text_field :: "nat \<Rightarrow> nat \<Rightarrow> string \<Rightarrow> nat" where
  "text_field i w s = read_nat (take w (drop i s))"

definition from_isoformat :: "string \<Rightarrow> datetime result" where
  "from_isoformat s =
     (let y = int (text_field 0 4 s); m = text_field 5 2 s; d = int (text_field 8 2 s);
          hh = text_field 11 2 s; mi = text_field 14 2 s; sec = text_field 17 2 s;
          us = (if length s = 27 then text_field 20 6 s else 0)
      in if y < 1 \<or> m < 1 \<or> 12 < m \<or> d < 1
            \<or> days_before_month (is_leap y) (m + 1) - days_before_month (is_leap y) m < d
            \<or> 23 < hh \<or> 59 < mi \<or> 59 < sec
         then Inl (ValueError ''invalid isoformat string'')
         else Inr ((ordinal y m d - epoch_ordinal) * day_micros
                   + (int hh * 3600 + int mi * 60 + int sec) * 1000000 + int us))"

definition parse_utc_text :: "pyvalue \<Rightarrow> string \<Rightarrow> datetime result" where
  "parse_utc_text v field_name =
     (let bad = ValueError (field_name @ '' must be a canonical UTC datetime'')
      in case v of
           PyStr s \<Rightarrow>
             if \<not> text_shape s then Inl bad
             else rbind (from_isoformat s) (\<lambda>parsed.
               if utc_text parsed \<noteq> s then Inl bad else Inr parsed)
         | _ \<Rightarrow> Inl bad)"

lemma year_days_bounds:
  "z \<le> -2 \<Longrightarrow> days_before_year (z + 1) \<le> -366"
  "10000 \<le> z \<Longrightarrow> 3652059 \<le> days_before_year (z + 1)"
proof -
  have q: "z = 4 * (z div 4) + z mod 4" "0 \<le> z mod 4" "z mod 4 < 4"
      "z = 100 * (z div 100) + z mod 100" "0 \<le> z mod 100" "z mod 100 < 100"
      "z = 400 * (z div 400) + z mod 400" "0 \<le> z mod 400" "z mod 400 < 400" for z :: int
    by simp_all
  show "z \<le> -2 \<Longrightarrow> days_before_year (z + 1) \<le> -366"
    using q [of z] by (simp add: days_before_year_def)
  show "10000 \<le> z \<Longrightarrow> 3652059 \<le> days_before_year (z + 1)"
    using q [of z] by (simp add: days_before_year_def)
qed

lemma year_range:
  assumes "is_datetime t" "civil (t div day_micros + epoch_ordinal) = (y, m, d)"
  shows "1 \<le> y" "y \<le> 9999"
proof -
  let ?o = "t div day_micros + epoch_ordinal"
  have lo: "-719162 \<le> t div day_micros"
    using assms(1) zdiv_mono1 [of "-62135596800000000" t day_micros] by (simp add: is_datetime_def day_micros_def)
  have hi: "t div day_micros \<le> 2932896"
    using assms(1) zdiv_mono1 [of t 253402300799999999 day_micros] by (simp add: is_datetime_def day_micros_def)
  obtain r where yr: "year_day ?o = (y, r)" using assms(2) by (cases "year_day ?o") (auto simp: civil_def Let_def)
  note yd = year_day_ordinal [OF yr]
  have r: "0 \<le> r" "r \<le> 365" using yd by (auto simp: of_bool_def split: if_splits)
  have sum: "days_before_year y + r + 1 = ?o" using yd by simp
  show "1 \<le> y"
  proof (rule ccontr)
    assume "\<not> 1 \<le> y"
    then consider "y - 1 = -1" | "y - 1 \<le> -2" by linarith
    then have "days_before_year y \<le> -366"
    proof cases
      case 1
      then have "y = 0" by simp
      then show ?thesis by (simp add: days_before_year_def)
    next
      case 2
      then show ?thesis using year_days_bounds(1) [of "y - 1"] by simp
    qed
    then show False using sum r lo by (simp add: epoch_ordinal_def)
  qed
  show "y \<le> 9999"
  proof (rule ccontr)
    assume "\<not> y \<le> 9999"
    then consider "y - 1 = 9999" | "10000 \<le> y - 1" by linarith
    then have "3652059 \<le> days_before_year y"
    proof cases
      case 1
      then have "y = 10000" by simp
      then show ?thesis by (simp add: days_before_year_def)
    next
      case 2
      then show ?thesis using year_days_bounds(2) [of "y - 1"] by simp
    qed
    then show False using sum r hi by (simp add: epoch_ordinal_def)
  qed
qed

lemma take_drop_pad: "take w (pad w n @ s) = pad w n" "drop w (pad w n @ s) = s"
  by simp_all

text \<open>Reading a text written from fields gives the fields back.\<close>

lemma text_fields:
  fixes y m d hh mi sec us :: nat and tail :: string
  assumes s: "s = pad 4 y @ ''-'' @ pad 2 m @ ''-'' @ pad 2 d @ ''T'' @ pad 2 hh @ '':'' @ pad 2 mi @ '':''
      @ pad 2 sec @ tail"
    and b: "y < 10000" "m < 100" "d < 100" "hh < 100" "mi < 100" "sec < 100"
  shows "text_field 0 4 s = y" "text_field 5 2 s = m" "text_field 8 2 s = d"
    "text_field 11 2 s = hh" "text_field 14 2 s = mi" "text_field 17 2 s = sec"
    "drop 19 s = tail" "length s = 19 + length tail"
    "list_all is_digit (take 4 s)" "s ! 4 = CHR ''-''" "list_all is_digit (take 2 (drop 5 s))"
    "s ! 7 = CHR ''-''" "list_all is_digit (take 2 (drop 8 s))" "s ! 10 = CHR ''T''"
    "list_all is_digit (take 2 (drop 11 s))" "s ! 13 = CHR '':''" "list_all is_digit (take 2 (drop 14 s))"
    "s ! 16 = CHR '':''" "list_all is_digit (take 2 (drop 17 s))"
  using b pad_digits read_pad [of y 4] read_pad [of _ 2]
  by (simp_all add: s text_field_def nth_append)

lemma parse_utc_text:
  assumes "is_datetime t"
  shows "parse_utc_text (PyStr (utc_text t)) field_name = Inr t"
proof -
  obtain y m d where c: "civil (t div day_micros + epoch_ordinal) = (y, m, d)" by (cases "civil (t div day_micros + epoch_ordinal)")
  note cf = civil_ordinal [OF c] year_range [OF assms c]
  define s where "s = nat (t mod day_micros div 1000000)"
  define us where "us = nat (t mod 1000000)"
  define tail where "tail = (if us = 0 then [] else ''.'' @ pad 6 us) @ ''Z''"
  have s_less: "s < 86400"
  proof -
    have "t mod day_micros < day_micros" "0 \<le> t mod day_micros" by (simp_all add: day_micros_def)
    then have "t mod day_micros div 1000000 < 86400" by (simp add: day_micros_def)
    then show ?thesis by (simp add: s_def)
  qed
  have us: "us < 1000000" by (simp add: us_def)
  have d31: "d \<le> 31"
  proof -
    have "days_before_month leap (m + 1) - days_before_month leap m \<le> 31" if "m \<in> {1..12}" for leap
    proof -
      have list: "\<forall>m \<in> set [1..<13]. days_before_month True (m + 1) - days_before_month True m \<le> 31
          \<and> days_before_month False (m + 1) - days_before_month False m \<le> 31" by code_simp
      then show ?thesis using that by (cases leap) auto
    qed
    note month = this
    have "m \<in> {1..12}" using cf(1) by blast
    from month [OF this, of "is_leap y"] cf(1) show ?thesis by auto
  qed
  let ?text = "utc_text t"
  have shown: "?text = pad 4 (nat y) @ ''-'' @ pad 2 m @ ''-'' @ pad 2 (nat d) @ ''T'' @ pad 2 (s div 3600) @ '':''
      @ pad 2 (s div 60 mod 60) @ '':'' @ pad 2 (s mod 60) @ tail"
    by (simp add: utc_text_def c Let_def s_def us_def tail_def)
  note f = text_fields [OF shown]
  have bounds: "nat y < 10000" "m < 100" "nat d < 100" "s div 3600 < 100" "s div 60 mod 60 < 100" "s mod 60 < 100"
    using cf d31 s_less by auto
  note f = f [OF bounds]
  have micro: "length ?text = 27 \<Longrightarrow> text_field 20 6 ?text = us" "length ?text \<noteq> 27 \<Longrightarrow> us = 0"
    "length ?text = 20 \<or> length ?text = 27" "last ?text = CHR ''Z''"
    "length ?text = 27 \<Longrightarrow> ?text ! 19 = CHR ''.'' \<and> list_all is_digit (take 6 (drop 20 ?text))"
  proof -
    have dr: "drop 20 ?text = drop 1 tail" using f(7) by (metis One_nat_def Suc_eq_plus1 drop_drop numeral_plus_one semiring_norm(5) add.commute semiring_norm(2) semiring_norm(8) numeral_eq_Suc)
    show "length ?text = 20 \<or> length ?text = 27" "length ?text \<noteq> 27 \<Longrightarrow> us = 0"
      unfolding f(8) by (auto simp: tail_def split: if_splits)
    show "last ?text = CHR ''Z''" unfolding shown tail_def by simp
    show "text_field 20 6 ?text = us" if "length ?text = 27"
      using that us unfolding f(8) text_field_def dr by (auto simp: tail_def read_pad split: if_splits)
    have "?text ! 19 = hd (drop 19 ?text)" if "length ?text = 27" using that by (simp add: hd_drop_conv_nth)
    then show "?text ! 19 = CHR ''.'' \<and> list_all is_digit (take 6 (drop 20 ?text))" if "length ?text = 27"
      using that pad_digits unfolding f(7,8) dr by (auto simp: tail_def split: if_splits)
  qed
  have shape: "text_shape ?text"
    unfolding text_shape_def using f(9-19) micro by blast
  have hms: "int (s div 3600) * 3600 + int (s div 60 mod 60) * 60 + int (s mod 60) = int s"
  proof -
    have "s div 3600 = s div 60 div 60" by (simp add: div_mult2_eq [symmetric])
    then have "s = s div 3600 * 3600 + s div 60 mod 60 * 60 + s mod 60"
      using div_mult_mod_eq [of s 60] div_mult_mod_eq [of "s div 60" 60] by linarith
    then show ?thesis by linarith
  qed
  have split: "t = (t div day_micros) * day_micros + int s * 1000000 + int us"
  proof -
    have "t mod day_micros mod 1000000 = t mod 1000000" by (simp add: day_micros_def mod_mod_cancel)
    then have "t mod day_micros = (t mod day_micros div 1000000) * 1000000 + t mod 1000000"
      by (metis div_mult_mod_eq)
    moreover have "0 \<le> t mod day_micros div 1000000" by (simp add: day_micros_def pos_imp_zdiv_nonneg_iff)
    ultimately have "t mod day_micros = int s * 1000000 + int us" by (simp add: s_def us_def)
    then show ?thesis using div_mult_mod_eq [of t day_micros] by linarith
  qed
  have us_part: "(if length ?text = 27 then text_field 20 6 ?text else 0) = us" using micro by auto
  have yd: "int (nat y) = y" "int (nat d) = d" using cf by auto
  have ranges: "\<not> (y < 1 \<or> m < 1 \<or> 12 < m \<or> d < 1
      \<or> days_before_month (is_leap y) (m + 1) - days_before_month (is_leap y) m < d
      \<or> 23 < s div 3600 \<or> 59 < s div 60 mod 60 \<or> 59 < s mod 60)"
    using cf s_less by auto
  have day: "ordinal y m d - epoch_ordinal = t div day_micros" using cf(1) by simp
  have "from_isoformat ?text = Inr t"
    unfolding from_isoformat_def Let_def f(1-6) us_part yd if_not_P [OF ranges] hms day split [symmetric] by (rule refl)
  then show ?thesis using shape by (simp add: parse_utc_text_def)
qed

lemma utc_text_inj: "is_datetime t \<Longrightarrow> is_datetime u \<Longrightarrow> utc_text t = utc_text u \<Longrightarrow> t = u"
  by (metis parse_utc_text sum.inject(2))

lemma read_nat_bound: "list_all is_digit s \<Longrightarrow> read_nat s < 10 ^ length s"
proof (induction s rule: rev_induct)
  case (snoc c s)
  have "digit_value c \<le> 9" using snoc.prems by (auto simp: is_digit_def digit_value_def)
  then show ?case using snoc by (simp add: read_nat_snoc)
qed (simp add: read_nat_def)

lemma text_field_bound:
  assumes "list_all is_digit (take w (drop i s))" shows "text_field i w s < 10 ^ w"
proof -
  have "(10::nat) ^ length (take w (drop i s)) \<le> 10 ^ w" by (rule power_increasing) simp_all
  then show ?thesis unfolding text_field_def by (rule less_le_trans [OF read_nat_bound [OF assms]])
qed

lemma year_length:
  assumes "1 \<le> y" "y \<le> 9999"
  shows "0 \<le> days_before_year y" "days_before_year y + 365 + of_bool (is_leap y) \<le> 3652059"
proof -
  define z where "z = y - 1"
  have d: "z = 4 * (z div 4) + z mod 4" "0 \<le> z mod 4" "z mod 4 < 4"
      "z = 100 * (z div 100) + z mod 100" "0 \<le> z mod 100" "z mod 100 < 100"
      "z = 400 * (z div 400) + z mod 400" "0 \<le> z mod 400" "z mod 400 < 400" by simp_all
  have z: "0 \<le> z" "z \<le> 9998" using assms by (simp_all add: z_def)
  show "0 \<le> days_before_year y" using d z by (simp add: days_before_year_def flip: z_def)
  have full: "days_before_year y = z * 365 + z div 4 - z div 100 + z div 400"
    by (simp add: days_before_year_def z_def Let_def)
  show "days_before_year y + 365 + of_bool (is_leap y) \<le> 3652059"
  proof (cases "z = 9998")
    case True
    then have "y = 9999" by (simp add: z_def)
    then show ?thesis by (simp add: days_before_year_def is_leap_def)
  next
    case False
    have "of_bool (is_leap y) \<le> (1::int)" by simp
    moreover have "z \<le> 9997" using False z by simp
    ultimately show ?thesis using d unfolding full by linarith
  qed
qed

lemma month_days:
  assumes "m \<in> {1..12}" "1 \<le> d" "d \<le> days_before_month leap (m + 1) - days_before_month leap m"
  shows "1 \<le> days_before_month leap m + d" "days_before_month leap m + d \<le> 365 + of_bool leap"
proof -
  have m: "m = 1 \<or> m = 2 \<or> m = 3 \<or> m = 4 \<or> m = 5 \<or> m = 6 \<or> m = 7 \<or> m = 8 \<or> m = 9 \<or> m = 10 \<or> m = 11 \<or> m = 12"
    using assms(1) unfolding atLeastAtMost_iff by presburger
  then show "1 \<le> days_before_month leap m + d" using assms(2)
    by (elim disjE) (simp_all add: days_before_month_def month_starts_def)
  from m show "days_before_month leap m + d \<le> 365 + of_bool leap" using assms(3)
    by (elim disjE) (simp_all add: days_before_month_def month_starts_def)
qed

text \<open>What \<open>fromisoformat\<close> reads from a text of the right shape is an instant of the range.\<close>

lemma from_isoformat_range:
  assumes "from_isoformat s = Inr t" and "text_shape s"
  shows "is_datetime t"
proof -
  define y where "y = int (text_field 0 4 s)" define m where "m = text_field 5 2 s"
  define d where "d = int (text_field 8 2 s)" define us where "us = (if length s = 27 then text_field 20 6 s else 0)"
  define day where "day = ordinal y m d"
  define sec where "sec = int (text_field 11 2 s) * 3600 + int (text_field 14 2 s) * 60 + int (text_field 17 2 s)"
  have ok: "1 \<le> y" "m \<in> {1..12}" "1 \<le> d" "d \<le> days_before_month (is_leap y) (m + 1) - days_before_month (is_leap y) m"
    "text_field 11 2 s \<le> 23" "text_field 14 2 s \<le> 59" "text_field 17 2 s \<le> 59"
    and t: "t = (day - epoch_ordinal) * day_micros + sec * 1000000 + int us"
    using assms(1) unfolding from_isoformat_def Let_def day_def sec_def y_def m_def d_def us_def
    by (auto split: if_splits)
  have "text_field 0 4 s < 10 ^ 4" by (rule text_field_bound) (use assms(2) in \<open>simp add: text_shape_def\<close>)
  then have "y \<le> 9999" by (simp add: y_def)
  note yl = year_length [OF ok(1) this]
  note md = month_days [OF ok(2,3,4)]
  have days: "1 \<le> day" "day \<le> 3652059" using yl md unfolding day_def ordinal_def by linarith+
  have us: "int us < 1000000"
  proof (cases "length s = 27")
    case True
    then have "text_field 20 6 s < 10 ^ 6" by (intro text_field_bound) (use assms(2) in \<open>simp add: text_shape_def\<close>)
    then show ?thesis using True by (simp add: us_def)
  qed (simp add: us_def)
  have "0 \<le> sec" "sec \<le> 86399" using ok(5,6,7) unfolding sec_def by linarith+
  then have "- 62135596800000000 \<le> t" "t \<le> 253402300799999999"
    using us days by (simp_all add: t epoch_ordinal_def day_micros_def left_diff_distrib)
  then show ?thesis by (simp add: is_datetime_def)
qed

lemma parse_utc_text_iff: "parse_utc_text (PyStr s) name = Inr t \<longleftrightarrow> s = utc_text t \<and> is_datetime t"
proof
  assume run: "parse_utc_text (PyStr s) name = Inr t"
  then have "s = utc_text t" "from_isoformat s = Inr t" "text_shape s"
    by (auto simp: parse_utc_text_def Let_def rbind_Inr_iff split: if_splits)
  then show "s = utc_text t \<and> is_datetime t" using from_isoformat_range by blast
next
  assume "s = utc_text t \<and> is_datetime t"
  then show "parse_utc_text (PyStr s) name = Inr t" using parse_utc_text by simp
qed

end
