(* ===== verification/Correction_Rows.thy ===== *)
theory Correction_Rows
  imports Correction_Pieces Utc_Text
begin

text \<open>
  The source rows of a correction (\<open>attendance_corrections.py\<close>, lines 232-255 and 388-482): the
  validators of the module, the normalisation of one attendance row with its alias checks, and the
  checks on a whole snapshot.
\<close>

section \<open>Field names\<close>

text \<open>The names the planner reads and writes, in their order; as constants they stay folded in proofs.\<close>

definition k_check_in :: string where
  "k_check_in = ''check_in_utc''"

definition k_check_out :: string where
  "k_check_out = ''check_out_utc''"

definition k_deleted :: string where
  "k_deleted = ''deleted_at''"

definition k_employee_alias :: string where
  "k_employee_alias = ''employee_id''"

definition k_employee :: string where
  "k_employee = ''employee_odoo_id''"

definition k_id :: string where
  "k_id = ''id''"

definition k_attendance :: string where
  "k_attendance = ''odoo_attendance_id''"

definition k_department :: string where
  "k_department = ''odoo_department_id''"

definition k_department_name :: string where
  "k_department_name = ''odoo_department_name''"

definition k_work_center :: string where
  "k_work_center = ''odoo_work_center_id''"

definition k_work_center_name :: string where
  "k_work_center_name = ''odoo_work_center_name''"

definition k_odoo_write_date :: string where
  "k_odoo_write_date = ''odoo_write_date''"

definition k_write_date :: string where
  "k_write_date = ''write_date''"

lemmas key_defs = k_check_in_def k_check_out_def k_deleted_def k_employee_alias_def k_employee_def k_id_def k_attendance_def k_department_def k_department_name_def k_work_center_def k_work_center_name_def k_odoo_write_date_def k_write_date_def

definition all_keys :: "string list" where
  "all_keys = [k_check_in, k_check_out, k_deleted, k_employee_alias, k_employee, k_id, k_attendance, k_department, k_department_name, k_work_center, k_work_center_name, k_odoo_write_date, k_write_date]"

lemma all_keys_sorted: "sorted_wrt (<) all_keys"
  by (simp only: all_keys_def key_defs) code_simp

lemma keys_less [simp]:
  "k_check_in < k_check_out"
  "k_check_in < k_deleted"
  "k_check_in < k_employee_alias"
  "k_check_in < k_employee"
  "k_check_in < k_id"
  "k_check_in < k_attendance"
  "k_check_in < k_department"
  "k_check_in < k_department_name"
  "k_check_in < k_work_center"
  "k_check_in < k_work_center_name"
  "k_check_in < k_odoo_write_date"
  "k_check_in < k_write_date"
  "k_check_out < k_deleted"
  "k_check_out < k_employee_alias"
  "k_check_out < k_employee"
  "k_check_out < k_id"
  "k_check_out < k_attendance"
  "k_check_out < k_department"
  "k_check_out < k_department_name"
  "k_check_out < k_work_center"
  "k_check_out < k_work_center_name"
  "k_check_out < k_odoo_write_date"
  "k_check_out < k_write_date"
  "k_deleted < k_employee_alias"
  "k_deleted < k_employee"
  "k_deleted < k_id"
  "k_deleted < k_attendance"
  "k_deleted < k_department"
  "k_deleted < k_department_name"
  "k_deleted < k_work_center"
  "k_deleted < k_work_center_name"
  "k_deleted < k_odoo_write_date"
  "k_deleted < k_write_date"
  "k_employee_alias < k_employee"
  "k_employee_alias < k_id"
  "k_employee_alias < k_attendance"
  "k_employee_alias < k_department"
  "k_employee_alias < k_department_name"
  "k_employee_alias < k_work_center"
  "k_employee_alias < k_work_center_name"
  "k_employee_alias < k_odoo_write_date"
  "k_employee_alias < k_write_date"
  "k_employee < k_id"
  "k_employee < k_attendance"
  "k_employee < k_department"
  "k_employee < k_department_name"
  "k_employee < k_work_center"
  "k_employee < k_work_center_name"
  "k_employee < k_odoo_write_date"
  "k_employee < k_write_date"
  "k_id < k_attendance"
  "k_id < k_department"
  "k_id < k_department_name"
  "k_id < k_work_center"
  "k_id < k_work_center_name"
  "k_id < k_odoo_write_date"
  "k_id < k_write_date"
  "k_attendance < k_department"
  "k_attendance < k_department_name"
  "k_attendance < k_work_center"
  "k_attendance < k_work_center_name"
  "k_attendance < k_odoo_write_date"
  "k_attendance < k_write_date"
  "k_department < k_department_name"
  "k_department < k_work_center"
  "k_department < k_work_center_name"
  "k_department < k_odoo_write_date"
  "k_department < k_write_date"
  "k_department_name < k_work_center"
  "k_department_name < k_work_center_name"
  "k_department_name < k_odoo_write_date"
  "k_department_name < k_write_date"
  "k_work_center < k_work_center_name"
  "k_work_center < k_odoo_write_date"
  "k_work_center < k_write_date"
  "k_work_center_name < k_odoo_write_date"
  "k_work_center_name < k_write_date"
  "k_odoo_write_date < k_write_date"
  using all_keys_sorted by (simp_all add: all_keys_def)

lemma keys_apart [simp]:
  "k_check_in \<noteq> k_check_out" "k_check_in \<noteq> k_deleted" "k_check_in \<noteq> k_employee_alias"
  "k_check_in \<noteq> k_employee" "k_check_in \<noteq> k_id" "k_check_in \<noteq> k_attendance"
  "k_check_in \<noteq> k_department" "k_check_in \<noteq> k_department_name" "k_check_in \<noteq> k_work_center"
  "k_check_in \<noteq> k_work_center_name" "k_check_in \<noteq> k_odoo_write_date" "k_check_in \<noteq> k_write_date"
  "k_check_out \<noteq> k_check_in" "k_check_out \<noteq> k_deleted" "k_check_out \<noteq> k_employee_alias"
  "k_check_out \<noteq> k_employee" "k_check_out \<noteq> k_id" "k_check_out \<noteq> k_attendance"
  "k_check_out \<noteq> k_department" "k_check_out \<noteq> k_department_name" "k_check_out \<noteq> k_work_center"
  "k_check_out \<noteq> k_work_center_name" "k_check_out \<noteq> k_odoo_write_date" "k_check_out \<noteq> k_write_date"
  "k_deleted \<noteq> k_check_in" "k_deleted \<noteq> k_check_out" "k_deleted \<noteq> k_employee_alias"
  "k_deleted \<noteq> k_employee" "k_deleted \<noteq> k_id" "k_deleted \<noteq> k_attendance"
  "k_deleted \<noteq> k_department" "k_deleted \<noteq> k_department_name" "k_deleted \<noteq> k_work_center"
  "k_deleted \<noteq> k_work_center_name" "k_deleted \<noteq> k_odoo_write_date" "k_deleted \<noteq> k_write_date"
  "k_employee_alias \<noteq> k_check_in" "k_employee_alias \<noteq> k_check_out" "k_employee_alias \<noteq> k_deleted"
  "k_employee_alias \<noteq> k_employee" "k_employee_alias \<noteq> k_id" "k_employee_alias \<noteq> k_attendance"
  "k_employee_alias \<noteq> k_department" "k_employee_alias \<noteq> k_department_name" "k_employee_alias \<noteq> k_work_center"
  "k_employee_alias \<noteq> k_work_center_name" "k_employee_alias \<noteq> k_odoo_write_date" "k_employee_alias \<noteq> k_write_date"
  "k_employee \<noteq> k_check_in" "k_employee \<noteq> k_check_out" "k_employee \<noteq> k_deleted"
  "k_employee \<noteq> k_employee_alias" "k_employee \<noteq> k_id" "k_employee \<noteq> k_attendance"
  "k_employee \<noteq> k_department" "k_employee \<noteq> k_department_name" "k_employee \<noteq> k_work_center"
  "k_employee \<noteq> k_work_center_name" "k_employee \<noteq> k_odoo_write_date" "k_employee \<noteq> k_write_date"
  "k_id \<noteq> k_check_in" "k_id \<noteq> k_check_out" "k_id \<noteq> k_deleted"
  "k_id \<noteq> k_employee_alias" "k_id \<noteq> k_employee" "k_id \<noteq> k_attendance"
  "k_id \<noteq> k_department" "k_id \<noteq> k_department_name" "k_id \<noteq> k_work_center"
  "k_id \<noteq> k_work_center_name" "k_id \<noteq> k_odoo_write_date" "k_id \<noteq> k_write_date"
  "k_attendance \<noteq> k_check_in" "k_attendance \<noteq> k_check_out" "k_attendance \<noteq> k_deleted"
  "k_attendance \<noteq> k_employee_alias" "k_attendance \<noteq> k_employee" "k_attendance \<noteq> k_id"
  "k_attendance \<noteq> k_department" "k_attendance \<noteq> k_department_name" "k_attendance \<noteq> k_work_center"
  "k_attendance \<noteq> k_work_center_name" "k_attendance \<noteq> k_odoo_write_date" "k_attendance \<noteq> k_write_date"
  "k_department \<noteq> k_check_in" "k_department \<noteq> k_check_out" "k_department \<noteq> k_deleted"
  "k_department \<noteq> k_employee_alias" "k_department \<noteq> k_employee" "k_department \<noteq> k_id"
  "k_department \<noteq> k_attendance" "k_department \<noteq> k_department_name" "k_department \<noteq> k_work_center"
  "k_department \<noteq> k_work_center_name" "k_department \<noteq> k_odoo_write_date" "k_department \<noteq> k_write_date"
  "k_department_name \<noteq> k_check_in" "k_department_name \<noteq> k_check_out" "k_department_name \<noteq> k_deleted"
  "k_department_name \<noteq> k_employee_alias" "k_department_name \<noteq> k_employee" "k_department_name \<noteq> k_id"
  "k_department_name \<noteq> k_attendance" "k_department_name \<noteq> k_department" "k_department_name \<noteq> k_work_center"
  "k_department_name \<noteq> k_work_center_name" "k_department_name \<noteq> k_odoo_write_date" "k_department_name \<noteq> k_write_date"
  "k_work_center \<noteq> k_check_in" "k_work_center \<noteq> k_check_out" "k_work_center \<noteq> k_deleted"
  "k_work_center \<noteq> k_employee_alias" "k_work_center \<noteq> k_employee" "k_work_center \<noteq> k_id"
  "k_work_center \<noteq> k_attendance" "k_work_center \<noteq> k_department" "k_work_center \<noteq> k_department_name"
  "k_work_center \<noteq> k_work_center_name" "k_work_center \<noteq> k_odoo_write_date" "k_work_center \<noteq> k_write_date"
  "k_work_center_name \<noteq> k_check_in" "k_work_center_name \<noteq> k_check_out" "k_work_center_name \<noteq> k_deleted"
  "k_work_center_name \<noteq> k_employee_alias" "k_work_center_name \<noteq> k_employee" "k_work_center_name \<noteq> k_id"
  "k_work_center_name \<noteq> k_attendance" "k_work_center_name \<noteq> k_department" "k_work_center_name \<noteq> k_department_name"
  "k_work_center_name \<noteq> k_work_center" "k_work_center_name \<noteq> k_odoo_write_date" "k_work_center_name \<noteq> k_write_date"
  "k_odoo_write_date \<noteq> k_check_in" "k_odoo_write_date \<noteq> k_check_out" "k_odoo_write_date \<noteq> k_deleted"
  "k_odoo_write_date \<noteq> k_employee_alias" "k_odoo_write_date \<noteq> k_employee" "k_odoo_write_date \<noteq> k_id"
  "k_odoo_write_date \<noteq> k_attendance" "k_odoo_write_date \<noteq> k_department" "k_odoo_write_date \<noteq> k_department_name"
  "k_odoo_write_date \<noteq> k_work_center" "k_odoo_write_date \<noteq> k_work_center_name" "k_odoo_write_date \<noteq> k_write_date"
  "k_write_date \<noteq> k_check_in" "k_write_date \<noteq> k_check_out" "k_write_date \<noteq> k_deleted"
  "k_write_date \<noteq> k_employee_alias" "k_write_date \<noteq> k_employee" "k_write_date \<noteq> k_id"
  "k_write_date \<noteq> k_attendance" "k_write_date \<noteq> k_department" "k_write_date \<noteq> k_department_name"
  "k_write_date \<noteq> k_work_center" "k_write_date \<noteq> k_work_center_name" "k_write_date \<noteq> k_odoo_write_date"
  by (simp_all add: key_defs)

section \<open>Validators\<close>

definition checked_positive_int :: "pyvalue \<Rightarrow> string \<Rightarrow> int result" where
  "checked_positive_int v field_name =
     (case v of
        PyInt n \<Rightarrow> if n \<le> 0 then Inl (ValueError (field_name @ '' must be a positive integer'')) else Inr n
      | _ \<Rightarrow> Inl (ValueError (field_name @ '' must be a positive integer'')))"

definition checked_optional_int :: "pyvalue \<Rightarrow> string \<Rightarrow> int option result" where
  "checked_optional_int v field_name =
     (if v = PyNone then Inr None else rbind (checked_positive_int v field_name) (\<lambda>n. Inr (Some n)))"

definition checked_utc :: "pyvalue \<Rightarrow> string \<Rightarrow> datetime result" where
  "checked_utc v field_name =
     (case v of
        PyDatetime t (Some offset) \<Rightarrow>
          if offset \<noteq> 0 then Inl (ValueError (field_name @ '' must use UTC'')) else Inr t
      | _ \<Rightarrow> Inl (TypeError (field_name @ '' must be an aware UTC datetime'')))"

definition checked_optional_utc :: "pyvalue \<Rightarrow> string \<Rightarrow> datetime option result" where
  "checked_optional_utc v field_name =
     (if v = PyNone then Inr None else rbind (checked_utc v field_name) (\<lambda>t. Inr (Some t)))"

text \<open>The values a validated field is stored as.\<close>

definition of_time :: "datetime \<Rightarrow> pyvalue" where
  "of_time t = PyDatetime t (Some 0)"

definition of_end :: "datetime option \<Rightarrow> pyvalue" where
  "of_end e = (case e of None \<Rightarrow> PyNone | Some t \<Rightarrow> of_time t)"

definition of_id :: "int option \<Rightarrow> pyvalue" where
  "of_id i = (case i of None \<Rightarrow> PyNone | Some n \<Rightarrow> PyInt n)"

section \<open>One row\<close>

definition has :: "dict \<Rightarrow> string \<Rightarrow> bool" where
  "has d k = (map_of d k \<noteq> None)"

definition aliased_required :: "dict \<Rightarrow> string \<Rightarrow> string \<Rightarrow> pyvalue result" where
  "aliased_required row canonical alias =
     (if \<not> has row canonical \<and> \<not> has row alias
      then Inl (ValueError (''attendance row omitted required '' @ canonical))
      else if has row canonical \<and> has row alias \<and> \<not> py_eq (field row canonical) (field row alias)
      then Inl (ValueError (''attendance row '' @ canonical @ ''/'' @ alias @ '' mismatch''))
      else Inr (if has row canonical then field row canonical else field row alias))"

definition source_required :: "string list" where
  "source_required = [k_employee, k_check_in, k_check_out, k_work_center, k_department]"

text \<open>The \<open>employee_id\<close> alias may be a many-to-one pair, whose first item is the id.\<close>

definition alias_employee :: "pyvalue \<Rightarrow> pyvalue result" where
  "alias_employee v =
     (case (case v of PyList xs \<Rightarrow> Some xs | PyTuple xs \<Rightarrow> Some xs | _ \<Rightarrow> None) of
        Some [] \<Rightarrow> Inl (ValueError ''attendance row employee_id alias is empty'')
      | Some (x # _) \<Rightarrow> Inr x
      | None \<Rightarrow> Inr v)"

definition check_employee_alias :: "dict \<Rightarrow> int \<Rightarrow> unit result" where
  "check_employee_alias raw row_employee_id =
     (if \<not> has raw k_employee_alias then Inr ()
      else rbind (alias_employee (field raw k_employee_alias)) (\<lambda>alias.
           rbind (checked_positive_int alias k_employee_alias) (\<lambda>n.
           guard_error (n \<noteq> row_employee_id)
             (ValueError ''attendance row employee identity aliases mismatch''))))"

definition row_identity :: "dict \<Rightarrow> int result" where
  "row_identity raw =
     rbind (aliased_required raw k_attendance k_id) (\<lambda>v.
     rbind (checked_positive_int v k_attendance) (\<lambda>attendance.
     rbind (if has raw k_attendance \<and> has raw k_id
            then rbind (checked_positive_int (field raw k_id) k_id) (\<lambda>alias.
              guard_error (alias \<noteq> attendance)
                (ValueError ''attendance row odoo_attendance_id/id mismatch''))
            else Inr ()) (\<lambda>_.
     Inr attendance)))"

definition row_version :: "dict \<Rightarrow> datetime result" where
  "row_version raw =
     rbind (aliased_required raw k_odoo_write_date k_write_date) (\<lambda>v.
     rbind (checked_utc v k_odoo_write_date) (\<lambda>written.
     rbind (if has raw k_odoo_write_date \<and> has raw k_write_date
            then rbind (checked_utc (field raw k_write_date) k_write_date) (\<lambda>alias.
              guard_error (alias \<noteq> written)
                (ValueError ''attendance row odoo_write_date/write_date mismatch''))
            else Inr ()) (\<lambda>_.
     Inr written)))"

text \<open>The stored values: the raw row without its aliases, its checked fields overwritten.\<close>

definition normalized_values ::
    "dict \<Rightarrow> int \<Rightarrow> datetime \<Rightarrow> int \<Rightarrow> datetime \<Rightarrow> datetime option \<Rightarrow> int option \<Rightarrow> int option \<Rightarrow> dict" where
  "normalized_values raw attendance written employee start fin wc dept =
     put_all [(k_attendance, PyInt attendance), (k_odoo_write_date, of_time written),
        (k_employee, PyInt employee), (k_check_in, of_time start), (k_check_out, of_end fin),
        (k_work_center, of_id wc), (k_department, of_id dept)]
       (drop_key k_write_date (drop_key k_id (sort_key fst raw)))"

definition normalize_source_row :: "pyvalue \<Rightarrow> int \<Rightarrow> correction_row result" where
  "normalize_source_row value employee =
     (case value of
        PyMap raw \<Rightarrow>
          (let missing = filter (\<lambda>k. \<not> has raw k) source_required
           in if missing \<noteq> []
              then Inl (ValueError (''attendance row omitted required field(s): '' @ join_names missing))
              else
                rbind (row_identity raw) (\<lambda>attendance.
                rbind (row_version raw) (\<lambda>written.
                rbind (checked_positive_int (field raw k_employee) k_employee) (\<lambda>row_employee.
                rbind (guard_error (row_employee \<noteq> employee)
                         (ValueError ''attendance row employee does not match selected employee'')) (\<lambda>_.
                rbind (check_employee_alias raw row_employee) (\<lambda>_.
                rbind (checked_utc (field raw k_check_in) k_check_in) (\<lambda>start.
                rbind (checked_optional_utc (field raw k_check_out) k_check_out) (\<lambda>fin.
                rbind (guard_error (\<not> ends_after fin start)
                         (ValueError ''attendance source interval must have positive duration'')) (\<lambda>_.
                rbind (checked_optional_int (field raw k_work_center) k_work_center) (\<lambda>wc.
                rbind (checked_optional_int (field raw k_department) k_department) (\<lambda>dept.
                rbind (guard_error (field raw k_deleted \<noteq> PyNone)
                         (ValueError ''deleted attendance rows cannot be corrected'')) (\<lambda>_.
                rbind (freeze_mapping (normalized_values raw attendance written row_employee start fin wc dept)) (\<lambda>values.
                Inr \<lparr>cr_id = attendance, cr_employee = row_employee, cr_start = start, cr_end = fin,
                     cr_work_center = wc, cr_department = dept, cr_write_date = written,
                     cr_values = values\<rparr>)))))))))))))
      | _ \<Rightarrow> Inl (TypeError ''attendance row must be a mapping''))"

section \<open>A snapshot\<close>

fun check_sources :: "correction_row list \<Rightarrow> int set \<Rightarrow> correction_row option \<Rightarrow> unit result" where
  "check_sources [] seen prev = Inr ()"
| "check_sources (r # rows) seen prev =
     (if cr_id r \<in> seen then Inl (ValueError ''duplicate attendance source id'')
      else if (case prev of None \<Rightarrow> False | Some p \<Rightarrow> ends_after (cr_end p) (cr_start r))
      then Inl (ValueError ''attendance source intervals overlap'')
      else check_sources rows (insert (cr_id r) seen) (Some r))"

definition normalize_source_rows :: "pyvalue list \<Rightarrow> int \<Rightarrow> correction_row list result" where
  "normalize_source_rows rows employee =
     rbind (rmap (\<lambda>row. normalize_source_row row employee) rows) (\<lambda>normalized.
       let ordered = sort_key (\<lambda>r. (cr_start r, cr_id r)) normalized
       in rbind (check_sources ordered {} None) (\<lambda>_. Inr ordered))"

end
