(* ===== verification/Correction_Plan.thy ===== *)
theory Correction_Plan
  imports Correction_Rows
begin

text \<open>
  Operations and plans (\<open>attendance_corrections.py\<close>, lines 258-350 and 807-1541): the writes that turn
  the source rows into the pieces, their authenticated keys, the expected intervals, the
  simulation of the writes, and the validation every plan passes when it is constructed.

  \<open>hashlib\<close> and \<open>json\<close> enter as one parameter, \<open>digest\<close>: the SHA-256 hex digest of the canonical
  JSON text of a value.
\<close>

section \<open>Mutable values\<close>

definition mutable_fields :: "string list" where
  "mutable_fields = [k_employee, k_check_in, k_check_out, k_work_center, k_department]"

text \<open>The literal of \<open>_mutable_values\<close>, in key order.\<close>

definition mutable_values ::
    "int \<Rightarrow> datetime \<Rightarrow> datetime option \<Rightarrow> int option \<Rightarrow> int option \<Rightarrow> dict" where
  "mutable_values employee start fin wc dept =
     [(k_check_in, of_time start), (k_check_out, of_end fin), (k_employee, PyInt employee),
      (k_department, of_id dept), (k_work_center, of_id wc)]"

definition source_mutable_values :: "correction_row \<Rightarrow> dict" where
  "source_mutable_values r =
     mutable_values (cr_employee r) (cr_start r) (cr_end r) (cr_work_center r) (cr_department r)"

definition piece_mutable_values :: "piece \<Rightarrow> int \<Rightarrow> dict" where
  "piece_mutable_values p employee =
     mutable_values employee (pc_start p) (pc_end p) (pc_work_center p) (pc_department p)"

definition without_versions :: "dict \<Rightarrow> dict" where
  "without_versions d = filter (\<lambda>(k, _). k \<notin> {k_odoo_write_date, k_write_date, k_id}) d"

text \<open>\<open>values.pop(name, None)\<close> when a location changed\<close>

definition drop_if :: "bool \<Rightarrow> string \<Rightarrow> dict \<Rightarrow> dict" where
  "drop_if changed k d = (if changed then drop_key k d else d)"

definition expected_mapping :: "piece \<Rightarrow> int \<Rightarrow> dict" where
  "expected_mapping p employee =
     (let base = (case pc_source p of
            Some r \<Rightarrow> if pc_attendance_id p = None then [] else without_versions (cr_values r)
          | None \<Rightarrow> []);
          values = put k_attendance (of_id (pc_attendance_id p))
                     (put_all (piece_mutable_values p employee) base)
      in case pc_source p of
           None \<Rightarrow> values
         | Some r \<Rightarrow> drop_if (cr_department r \<noteq> pc_department p) k_department_name
                      (drop_if (cr_work_center r \<noteq> pc_work_center p) k_work_center_name values))"

section \<open>Operations\<close>

datatype operation_kind = Create | Update | Delete

fun kind_name :: "operation_kind \<Rightarrow> string" where
  "kind_name Create = ''create''"
| "kind_name Update = ''update''"
| "kind_name Delete = ''delete''"

record source_version =
  sv_attendance_id :: int
  sv_write_date :: datetime

record operation =
  op_key :: string
  op_kind :: operation_kind
  op_attendance_id :: "int option"
  op_employee :: int
  op_before :: "dict option"
  op_after :: "dict option"

record plan =
  pl_versions :: "source_version list"
  pl_operations :: "operation list"
  pl_expected :: "dict list"
  pl_request :: dict
  pl_sources :: "dict list"

record pending_operation =
  po_kind :: operation_kind
  po_attendance_id :: "int option"
  po_employee :: int
  po_before :: "dict option"
  po_after :: "dict option"
  po_sources :: "correction_row list"
  po_effective_start :: datetime

text \<open>The last write wins, as in the dictionary built over the pieces.\<close>

definition pieces_by_id :: "piece list \<Rightarrow> int \<Rightarrow> piece option" where
  "pieces_by_id pieces i = find (\<lambda>p. pc_attendance_id p = Some i) (rev pieces)"

definition changed_fields :: "dict \<Rightarrow> dict \<Rightarrow> string list" where
  "changed_fields d e = filter (\<lambda>k. field d k \<noteq> field e k) mutable_fields"

definition select_fields :: "string list \<Rightarrow> dict \<Rightarrow> dict" where
  "select_fields names d = filter (\<lambda>(k, _). k \<in> set names) d"

definition source_operation :: "piece list \<Rightarrow> int \<Rightarrow> correction_row \<Rightarrow> pending_operation list" where
  "source_operation pieces employee r =
     (case pieces_by_id pieces (cr_id r) of
        None \<Rightarrow>
          [\<lparr>po_kind = Delete, po_attendance_id = Some (cr_id r), po_employee = employee,
            po_before = Some (source_mutable_values r), po_after = None, po_sources = [r],
            po_effective_start = cr_start r\<rparr>]
      | Some p \<Rightarrow>
          (let was = source_mutable_values r; becomes = piece_mutable_values p employee;
               changed = changed_fields was becomes
           in if changed = [] then []
              else [\<lparr>po_kind = Update, po_attendance_id = Some (cr_id r), po_employee = employee,
                     po_before = Some (select_fields changed was),
                     po_after = Some (select_fields changed becomes), po_sources = [r],
                     po_effective_start = pc_start p\<rparr>]))"

definition piece_operation :: "int \<Rightarrow> piece \<Rightarrow> pending_operation" where
  "piece_operation employee p =
     \<lparr>po_kind = Create, po_attendance_id = None, po_employee = employee, po_before = None,
      po_after = Some (piece_mutable_values p employee), po_sources = pc_key_sources p,
      po_effective_start = pc_start p\<rparr>"

definition operations_for_pieces ::
    "correction_row list \<Rightarrow> piece list \<Rightarrow> int \<Rightarrow> pending_operation list" where
  "operations_for_pieces sources pieces employee =
     concat (map (source_operation pieces employee) sources)
     @ map (piece_operation employee) (filter (\<lambda>p. pc_attendance_id p = None) pieces)"

section \<open>Operation keys\<close>

function operation_key_value :: "pyvalue \<Rightarrow> pyvalue result" where
  "operation_key_value v =
     (case v of
        PyDatetime t z \<Rightarrow> rbind (checked_utc (PyDatetime t z) ''operation key datetime'') (\<lambda>u. Inr (PyStr (utc_text u)))
      | PyMap d \<Rightarrow> rbind (frozen_items (map (\<lambda>(k, x). (k, operation_key_value x)) d)) (\<lambda>d'. Inr (PyMap d'))
      | PyTuple xs \<Rightarrow> rbind (rmap (\<lambda>r. r) (map operation_key_value xs)) (\<lambda>ys. Inr (PyList ys))
      | PyList xs \<Rightarrow> rbind (rmap (\<lambda>r. r) (map operation_key_value xs)) (\<lambda>ys. Inr (PyList ys))
      | _ \<Rightarrow> Inr v)"
  by pat_completeness auto
termination
proof (relation "measure size", goal_cases)
  case 1
  then show ?case by simp
next
  case 2
  then show ?case by (fastforce simp: less_Suc_eq_le size_prod_simp intro: size_list_estimation')
qed (auto simp: less_Suc_eq_le intro: le_imp_less_Suc size_list_estimation')

declare operation_key_value.simps [simp del]

definition key_source :: "correction_row \<Rightarrow> pyvalue" where
  "key_source r =
     PyMap [(''attendance_id'', PyInt (cr_id r)), (''write_date'', of_time (cr_write_date r)),
       (k_employee, PyInt (cr_employee r)), (k_check_in, of_time (cr_start r)),
       (k_check_out, of_end (cr_end r)), (k_work_center, of_id (cr_work_center r)),
       (k_department, of_id (cr_department r))]"

definition of_dict :: "dict option \<Rightarrow> pyvalue" where
  "of_dict d = (case d of None \<Rightarrow> PyNone | Some e \<Rightarrow> PyMap e)"

text \<open>The identity of an operation: its request, sources, kind, ids and values.\<close>

definition key_identity ::
    "operation_kind \<Rightarrow> int option \<Rightarrow> int \<Rightarrow> dict option \<Rightarrow> dict option \<Rightarrow> dict \<Rightarrow>
     correction_row list \<Rightarrow> pyvalue" where
  "key_identity kind attendance employee was becomes rq sources =
     PyMap [(''contract'', PyStr ''attendance-correction-operation-v2''), (''request'', PyMap rq),
       (''sources'', PyList (map key_source sources)), (''kind'', PyStr (kind_name kind)),
       (''attendance_id'', of_id attendance), (k_employee, PyInt employee),
       (''before'', of_dict was), (''after'', of_dict becomes)]"

definition key_prefix :: string where
  "key_prefix = ''attendance-correction-v2:''"

fun join_ids :: "int list \<Rightarrow> string" where
  "join_ids [] = ''''"
| "join_ids [i] = show_int i"
| "join_ids (i # j # is) = show_int i @ '','' @ join_ids (j # is)"

definition source_token :: "correction_row list \<Rightarrow> string" where
  "source_token sources = (if sources = [] then ''0'' else join_ids (map cr_id sources))"

definition operation_key ::
    "(pyvalue \<Rightarrow> string) \<Rightarrow> operation_kind \<Rightarrow> int option \<Rightarrow> int \<Rightarrow> dict option \<Rightarrow> dict option \<Rightarrow> dict \<Rightarrow>
     correction_row list \<Rightarrow> string result" where
  "operation_key digest kind attendance employee was becomes rq sources =
     rbind (operation_key_value (key_identity kind attendance employee was becomes rq sources)) (\<lambda>v.
       Inr (key_prefix @ source_token sources @ '':'' @ digest v))"

text \<open>\<open>_KEY_PATTERN\<close>: the prefix, a token of source ids, and a hex digest.\<close>

definition is_hex :: "char \<Rightarrow> bool" where
  "is_hex c = (is_digit c \<or> c \<in> set ''abcdef'')"

fun split_commas :: "string \<Rightarrow> string \<Rightarrow> string list" where
  "split_commas word [] = [word]"
| "split_commas word (c # cs) =
     (if c = CHR '','' then word # split_commas [] cs else split_commas (word @ [c]) cs)"

definition is_source_id :: "string \<Rightarrow> bool" where
  "is_source_id s = (s \<noteq> [] \<and> list_all is_digit s \<and> hd s \<noteq> CHR ''0'')"

definition key_token :: "string \<Rightarrow> string option" where
  "key_token key =
     (let rest = drop (length key_prefix) key; token = takeWhile (\<lambda>c. c \<noteq> CHR '':'') rest;
          tail = drop (length token) rest
      in if take (length key_prefix) key = key_prefix
            \<and> (token = ''0'' \<or> list_all is_source_id (split_commas [] token))
            \<and> tail \<noteq> [] \<and> length (tl tail) = 64 \<and> list_all is_hex (tl tail)
         then Some token else None)"

definition token_ids :: "string \<Rightarrow> int list" where
  "token_ids token =
     (if token = ''0'' then [] else map (\<lambda>s. int (read_nat s)) (split_commas [] token))"

section \<open>Checks on an operation\<close>

definition require :: "bool \<Rightarrow> string \<Rightarrow> unit result" where
  "require ok message = guard_error (\<not> ok) (ValueError message)"

definition when_has :: "dict \<Rightarrow> string \<Rightarrow> (pyvalue \<Rightarrow> 'a result) \<Rightarrow> unit result" where
  "when_has d k check = (if has d k then rbind (check (field d k)) (\<lambda>_. Inr ()) else Inr ())"

definition validate_mutable_mapping :: "dict \<Rightarrow> bool \<Rightarrow> string \<Rightarrow> unit result" where
  "validate_mutable_mapping d require_all context =
     (let unknown = sort (filter (\<lambda>k. k \<notin> set mutable_fields) (map fst d))
      in if unknown \<noteq> [] then Inl (ValueError (context @ '' contains unknown field '' @ hd unknown))
         else
           rbind (require (require_all \<longrightarrow> (\<forall>k \<in> set mutable_fields. has d k))
                    (context @ '' must contain every mutable attendance field'')) (\<lambda>_.
           rbind (when_has d k_employee (\<lambda>v. checked_positive_int v k_employee)) (\<lambda>_.
           rbind (when_has d k_check_in (\<lambda>v. checked_utc v k_check_in)) (\<lambda>_.
           rbind (when_has d k_check_out (\<lambda>v. checked_optional_utc v k_check_out)) (\<lambda>_.
           rbind (when_has d k_work_center (\<lambda>v. checked_optional_int v k_work_center)) (\<lambda>_.
           rbind (when_has d k_department (\<lambda>v. checked_optional_int v k_department)) (\<lambda>_.
           if has d k_check_in \<and> has d k_check_out
           then rbind (checked_utc (field d k_check_in) k_check_in) (\<lambda>start.
                rbind (checked_optional_utc (field d k_check_out) k_check_out) (\<lambda>fin.
                require (ends_after fin start) (context @ '' interval must have positive duration'')))
           else Inr ())))))))"

definition employee_matches :: "dict \<Rightarrow> int \<Rightarrow> bool" where
  "employee_matches d employee = (field d k_employee = PyInt employee)"

definition given :: "dict option \<Rightarrow> dict" where
  "given d = (case d of None \<Rightarrow> [] | Some e \<Rightarrow> e)"

definition validate_operation_mapping :: "operation \<Rightarrow> unit result" where
  "validate_operation_mapping oper =
     (let was = given (op_before oper); becomes = given (op_after oper)
      in case op_kind oper of
           Create \<Rightarrow>
             rbind (validate_mutable_mapping becomes True ''create after'') (\<lambda>_.
             require (employee_matches becomes (op_employee oper)) ''create employee does not match operation employee'')
         | Delete \<Rightarrow>
             rbind (validate_mutable_mapping was True ''delete before'') (\<lambda>_.
             require (employee_matches was (op_employee oper)) ''delete employee does not match operation employee'')
         | Update \<Rightarrow>
             rbind (validate_mutable_mapping was False ''update before'') (\<lambda>_.
             rbind (validate_mutable_mapping becomes False ''update after'') (\<lambda>_.
             rbind (require (list_all (\<lambda>(k, _). field was k \<noteq> field becomes k) was) ''every update field must change'') (\<lambda>_.
             require (list_all (\<lambda>d. has d k_employee \<longrightarrow> employee_matches d (op_employee oper)) [was, becomes])
               ''update employee does not match operation employee''))))"

text \<open>The constructor of \<open>CorrectionOperation\<close>.\<close>

definition freeze_optional :: "dict option \<Rightarrow> dict option result" where
  "freeze_optional d =
     (case d of None \<Rightarrow> Inr None | Some e \<Rightarrow> rbind (freeze_mapping e) (\<lambda>f. Inr (Some f)))"

definition check_shape ::
    "operation_kind \<Rightarrow> int option \<Rightarrow> dict option \<Rightarrow> dict option \<Rightarrow> unit result" where
  "check_shape kind attendance was becomes =
     (case kind of
        Create \<Rightarrow> require (attendance = None \<and> was = None \<and> becomes \<noteq> None)
                    ''create operations require only an after value''
      | Update \<Rightarrow>
          rbind (require (attendance \<noteq> None \<and> was \<noteq> None \<and> becomes \<noteq> None)
                   ''update operations require an id, before, and after'') (\<lambda>_.
          require (given was \<noteq> [] \<and> given becomes \<noteq> [] \<and> set (map fst (given was)) = set (map fst (given becomes)))
            ''update before and after fields must match'')
      | Delete \<Rightarrow> require (attendance \<noteq> None \<and> was \<noteq> None \<and> becomes = None)
                    ''delete operations require only an id and before value'')"

definition make_operation ::
    "string \<Rightarrow> operation_kind \<Rightarrow> pyvalue \<Rightarrow> pyvalue \<Rightarrow> dict option \<Rightarrow> dict option \<Rightarrow> operation result" where
  "make_operation key kind attendance_value employee_value was_value becomes_value =
     rbind (require (key_token key \<noteq> None) ''operation key is not a canonical correction key'') (\<lambda>_.
     rbind (checked_optional_int attendance_value ''attendance_id'') (\<lambda>attendance.
     rbind (checked_positive_int employee_value k_employee) (\<lambda>employee.
     rbind (freeze_optional was_value) (\<lambda>was.
     rbind (freeze_optional becomes_value) (\<lambda>becomes.
     rbind (check_shape kind attendance was becomes) (\<lambda>_.
       let oper = \<lparr>op_key = key, op_kind = kind, op_attendance_id = attendance, op_employee = employee,
                   op_before = was, op_after = becomes\<rparr>
       in rbind (validate_operation_mapping oper) (\<lambda>_. Inr oper)))))))"

definition keyed_operation ::
    "(pyvalue \<Rightarrow> string) \<Rightarrow> dict \<Rightarrow> pending_operation \<Rightarrow> operation result" where
  "keyed_operation digest rq po =
     rbind (operation_key digest (po_kind po) (po_attendance_id po) (po_employee po) (po_before po)
              (po_after po) rq (po_sources po)) (\<lambda>key.
       make_operation key (po_kind po) (of_id (po_attendance_id po)) (PyInt (po_employee po))
         (po_before po) (po_after po))"

section \<open>Orders\<close>

definition no_id :: int where
  "no_id = 2 ^ 63"

definition datetime_max :: datetime where
  "datetime_max = 253402300799999999"

definition id_order :: "int option \<Rightarrow> int" where
  "id_order i = (case i of None \<Rightarrow> no_id | Some n \<Rightarrow> n)"

definition time_of :: "pyvalue \<Rightarrow> datetime option" where
  "time_of v = (case v of PyDatetime t _ \<Rightarrow> Some t | _ \<Rightarrow> None)"

definition interval_key :: "dict \<Rightarrow> datetime \<times> int" where
  "interval_key d =
     ((case time_of (field d k_check_in) of Some t \<Rightarrow> t | None \<Rightarrow> 0),
      (case field d k_attendance of PyInt n \<Rightarrow> n | _ \<Rightarrow> no_id))"

definition interval_by_id :: "dict list \<Rightarrow> int \<Rightarrow> dict option" where
  "interval_by_id expected i = find (\<lambda>d. py_eq (PyInt i) (field d k_attendance)) (rev expected)"

definition operation_start :: "operation \<Rightarrow> dict list \<Rightarrow> datetime" where
  "operation_start oper expected =
     (let values = (case op_after oper of Some d \<Rightarrow> d | None \<Rightarrow> given (op_before oper))
      in case time_of (field values k_check_in) of
           Some t \<Rightarrow> t
         | None \<Rightarrow>
             (case (case op_attendance_id oper of None \<Rightarrow> None | Some i \<Rightarrow> interval_by_id expected i) of
                None \<Rightarrow> datetime_max
              | Some d \<Rightarrow> (case time_of (field d k_check_in) of Some t \<Rightarrow> t | None \<Rightarrow> datetime_max)))"

definition operation_sort_key ::
    "dict list \<Rightarrow> operation \<Rightarrow> datetime \<times> int \<times> string \<times> string" where
  "operation_sort_key expected oper =
     (operation_start oper expected, id_order (op_attendance_id oper), kind_name (op_kind oper), op_key oper)"

definition version_key :: "source_version \<Rightarrow> int \<times> datetime" where
  "version_key v = (sv_attendance_id v, sv_write_date v)"

definition piece_key :: "piece \<Rightarrow> datetime \<times> int" where
  "piece_key p = (pc_start p, id_order (pc_attendance_id p))"

definition source_versions :: "correction_row list \<Rightarrow> source_version list" where
  "source_versions sources =
     sort_key version_key (map (\<lambda>r. \<lparr>sv_attendance_id = cr_id r, sv_write_date = cr_write_date r\<rparr>) sources)"

definition expected_intervals :: "piece list \<Rightarrow> int \<Rightarrow> dict list" where
  "expected_intervals pieces employee = map (\<lambda>p. expected_mapping p employee) (sort_key piece_key pieces)"

section \<open>Checks on a plan\<close>

definition exact_keys :: "dict \<Rightarrow> string list \<Rightarrow> string \<Rightarrow> unit result" where
  "exact_keys d required context =
     (let unknown = sort (filter (\<lambda>k. k \<notin> set required) (map fst d));
          missing = sort (filter (\<lambda>k. \<not> has d k) required)
      in if unknown \<noteq> [] then Inl (ValueError (context @ '' contains unknown key '' @ hd unknown))
         else if missing \<noteq> [] then Inl (ValueError (context @ '' omitted required key '' @ hd missing))
         else Inr ())"

definition k_start :: string where
  "k_start = ''start_utc''"

definition k_end :: string where
  "k_end = ''end_utc''"

definition k_merge :: string where
  "k_merge = ''merge''"

definition request_fields :: "string list" where
  "request_fields = [k_employee, k_start, k_end, k_work_center, k_department]"

definition validate_request :: "dict \<Rightarrow> (int \<times> request) result" where
  "validate_request d =
     (let merge = has d k_merge
      in rbind (exact_keys d (if merge then k_merge # request_fields else request_fields) ''correction request'') (\<lambda>_.
         rbind (require (merge \<longrightarrow> field d k_merge = PyBool True)
                  ''correction request merge flag must be true when present'') (\<lambda>_.
         rbind (checked_positive_int (field d k_employee) k_employee) (\<lambda>employee.
         rbind (checked_utc (field d k_start) k_start) (\<lambda>start.
         rbind (checked_optional_utc (field d k_end) k_end) (\<lambda>fin.
         rbind (require (ends_after fin start) ''request interval must have positive duration'') (\<lambda>_.
         rbind (checked_positive_int (field d k_work_center) k_work_center) (\<lambda>wc.
         rbind (checked_optional_int (field d k_department) k_department) (\<lambda>dept.
         Inr (employee, \<lparr>rq_start = start, rq_end = fin, rq_work_center = wc,
                rq_department = dept, rq_merge = merge\<rparr>))))))))))"

definition expected_required :: "string list" where
  "expected_required = k_attendance # mutable_fields"

definition validate_expected_interval ::
    "dict \<Rightarrow> (datetime \<times> datetime option \<times> int option \<times> int) result" where
  "validate_expected_interval d =
     (let missing = filter (\<lambda>k. \<not> has d k) expected_required
      in if missing \<noteq> []
         then Inl (ValueError (''expected interval omitted required field(s): '' @ join_names missing))
         else
           rbind (checked_optional_int (field d k_attendance) k_attendance) (\<lambda>attendance.
           rbind (checked_positive_int (field d k_employee) k_employee) (\<lambda>employee.
           rbind (checked_utc (field d k_check_in) k_check_in) (\<lambda>start.
           rbind (checked_optional_utc (field d k_check_out) k_check_out) (\<lambda>fin.
           rbind (require (ends_after fin start) ''expected interval must have positive duration'') (\<lambda>_.
           rbind (checked_optional_int (field d k_work_center) k_work_center) (\<lambda>_.
           rbind (checked_optional_int (field d k_department) k_department) (\<lambda>_.
           Inr (start, fin, attendance, employee)))))))))"

section \<open>Simulation\<close>

definition source_expected_mapping :: "correction_row \<Rightarrow> dict" where
  "source_expected_mapping r =
     put k_attendance (PyInt (cr_id r))
       (put_all (source_mutable_values r) (without_versions (cr_values r)))"

type_synonym simulation = "(int \<times> dict) list \<times> dict list"

definition simulate_update :: "dict \<Rightarrow> dict \<Rightarrow> dict" where
  "simulate_update becomes current =
     put_all becomes
       (drop_if (has becomes k_department \<and> field current k_department \<noteq> field becomes k_department) k_department_name
         (drop_if (has becomes k_work_center \<and> field current k_work_center \<noteq> field becomes k_work_center)
            k_work_center_name current))"

definition simulate_operation ::
    "correction_row list \<Rightarrow> operation \<Rightarrow> simulation \<Rightarrow> simulation result" where
  "simulate_operation sources oper st =
     (case op_kind oper of
        Create \<Rightarrow> Inr (fst st, snd st @ [put_all (given (op_after oper)) [(k_attendance, PyNone)]])
      | _ \<Rightarrow>
        (case op_attendance_id oper of
           None \<Rightarrow> Inl AssertionError
         | Some i \<Rightarrow>
             (case map_of (fst st) i of
                None \<Rightarrow> Inl (ValueError ''operation projection references a consumed source row'')
              | Some current \<Rightarrow>
                  if op_kind oper = Delete
                  then (if (case find (\<lambda>r. cr_id r = i) (rev sources) of
                              None \<Rightarrow> True | Some r \<Rightarrow> given (op_before oper) \<noteq> source_mutable_values r)
                        then Inl (ValueError ''delete before values do not match the source snapshot'')
                        else Inr (drop_key i (fst st), snd st))
                  else if \<exists>(k, v) \<in> set (given (op_before oper)). field current k \<noteq> v
                  then Inl (ValueError ''update before values do not match the source snapshot'')
                  else Inr (AList.update i (simulate_update (given (op_after oper)) current) (fst st), snd st))))"

fun simulate_loop :: "correction_row list \<Rightarrow> operation list \<Rightarrow> simulation \<Rightarrow> simulation result" where
  "simulate_loop sources [] st = Inr st"
| "simulate_loop sources (oper # opers) st =
     rbind (simulate_operation sources oper st) (simulate_loop sources opers)"

definition simulate_operations :: "correction_row list \<Rightarrow> operation list \<Rightarrow> dict list result" where
  "simulate_operations sources opers =
     rbind (simulate_loop sources opers (map (\<lambda>r. (cr_id r, source_expected_mapping r)) sources, [])) (\<lambda>st.
     rmap freeze_mapping (sort_key interval_key (map snd (fst st) @ snd st)))"

section \<open>Validation of a plan\<close>

text \<open>The ids in the payload, and the rows they normalise to.\<close>

definition plan_sources :: "plan \<Rightarrow> int \<Rightarrow> correction_row list result" where
  "plan_sources pl employee =
     rbind (rmap (\<lambda>d. checked_positive_int (field d k_attendance) k_attendance) (pl_sources pl)) (\<lambda>ids.
     rbind (normalize_source_rows (map PyMap (pl_sources pl)) employee) (\<lambda>sources.
     rbind (require (ids = map cr_id sources) ''source intervals are not in canonical order'') (\<lambda>_.
     Inr sources)))"

definition check_versions :: "plan \<Rightarrow> correction_row list \<Rightarrow> unit result" where
  "check_versions pl sources =
     rbind (require (pl_versions pl = sort_key version_key (pl_versions pl))
              ''source versions are not in canonical order'') (\<lambda>_.
     rbind (require (distinct (map sv_attendance_id (pl_versions pl))) ''duplicate source attendance id'') (\<lambda>_.
     require (pl_versions pl = source_versions sources) ''source versions do not match source intervals''))"

text \<open>
  \<open>item["odoo_attendance_id"]\<close> as the key of a dictionary: absent is a \<open>KeyError\<close>, and a mapping is
  not hashable.
\<close>

fun hashable :: "pyvalue \<Rightarrow> bool" where
  "hashable (PyMap d) = False"
| "hashable (PyList xs) = False"
| "hashable (PyTuple xs) = list_all hashable xs"
| "hashable v = True"

definition check_expected_ids :: "dict list \<Rightarrow> unit result" where
  "check_expected_ids expected =
     check_each (\<lambda>d.
       if \<not> has d k_attendance then Inl KeyError
       else if \<not> hashable (field d k_attendance) then Inl (TypeError ''unhashable type'')
       else Inr ()) expected"

definition check_operation_order :: "plan \<Rightarrow> unit result" where
  "check_operation_order pl =
     rbind (require (distinct (map op_key (pl_operations pl))) ''duplicate correction operation key'') (\<lambda>_.
     rbind (require (distinct (List.map_filter op_attendance_id (pl_operations pl)))
              ''duplicate operation attendance id'') (\<lambda>_.
     rbind (check_expected_ids (pl_expected pl)) (\<lambda>_.
     require (pl_operations pl = sort_key (operation_sort_key (pl_expected pl)) (pl_operations pl))
       ''operations are not in canonical order'')))"

definition key_sources :: "correction_row list \<Rightarrow> int list \<Rightarrow> correction_row list result" where
  "key_sources sources ids =
     rmap (\<lambda>i. case find (\<lambda>r. cr_id r = i) (rev sources) of
                None \<Rightarrow> Inl (ValueError ''operation key references an unknown source attendance id'')
              | Some r \<Rightarrow> Inr r) ids"

definition check_operation ::
    "(pyvalue \<Rightarrow> string) \<Rightarrow> plan \<Rightarrow> int \<Rightarrow> correction_row list \<Rightarrow> operation \<Rightarrow> unit result" where
  "check_operation digest pl employee sources oper =
     rbind (require (case op_attendance_id oper of None \<Rightarrow> True
                       | Some i \<Rightarrow> i \<in> set (map sv_attendance_id (pl_versions pl)))
              ''operation references an unknown source attendance id'') (\<lambda>_.
     rbind (require (op_employee oper = employee) ''operation employee does not match correction request'') (\<lambda>_.
     case key_token (op_key oper) of
       None \<Rightarrow> Inl AssertionError
     | Some token \<Rightarrow>
         rbind (require (distinct (token_ids token)) ''operation key contains duplicate source attendance ids'') (\<lambda>_.
         rbind (key_sources sources (token_ids token)) (\<lambda>rows.
         rbind (require (op_kind oper = Create \<or> map Some (token_ids token) = [op_attendance_id oper])
                  ''operation key source does not match attendance id'') (\<lambda>_.
         rbind (operation_key digest (op_kind oper) (op_attendance_id oper) (op_employee oper)
                  (op_before oper) (op_after oper) (pl_request pl) rows) (\<lambda>expected_key.
         require (op_key oper = expected_key) ''operation key does not authenticate plan contents''))))))"

fun check_intervals ::
    "(datetime \<times> datetime option \<times> int option \<times> int) list \<Rightarrow> int set \<Rightarrow> int set \<Rightarrow>
     datetime option option \<Rightarrow> unit result" where
  "check_intervals [] known seen previous_end = Inr ()"
| "check_intervals ((start, fin, attendance, employee) # rest) known seen previous_end =
     (if (case previous_end of None \<Rightarrow> False | Some e \<Rightarrow> ends_after e start)
      then Inl (ValueError ''expected intervals overlap'')
      else case attendance of
             None \<Rightarrow> check_intervals rest known seen (Some fin)
           | Some i \<Rightarrow>
               if i \<in> seen then Inl (ValueError ''duplicate expected attendance id'')
               else if i \<notin> known then Inl (ValueError ''expected interval references unknown source id'')
               else check_intervals rest known (insert i seen) (Some fin))"

text \<open>Dictionaries and lists of them compare as Python values.\<close>

definition same_intervals :: "dict list \<Rightarrow> dict list \<Rightarrow> bool" where
  "same_intervals d e = py_eq (PyTuple (map PyMap d)) (PyTuple (map PyMap e))"

definition check_expected :: "plan \<Rightarrow> int \<Rightarrow> correction_row list \<Rightarrow> unit result" where
  "check_expected pl employee sources =
     rbind (rmap validate_expected_interval (pl_expected pl)) (\<lambda>states.
     rbind (require (same_intervals (pl_expected pl) (sort_key interval_key (pl_expected pl)))
              ''expected intervals are not in canonical order'') (\<lambda>_.
     rbind (require (list_all (\<lambda>(_, _, _, e). e = employee) states
                     \<and> list_all (\<lambda>oper. op_employee oper = employee) (pl_operations pl))
              ''correction plan contains mixed employees'') (\<lambda>_.
     rbind (check_intervals states (set (map sv_attendance_id (pl_versions pl))) {} None) (\<lambda>_.
     rbind (simulate_operations sources (pl_operations pl)) (\<lambda>projected.
     require (same_intervals (pl_expected pl) projected)
       ''operation projection does not match expected intervals'')))))"

text \<open>What the request plans from the sources, for the final comparison.\<close>

definition planned_operations ::
    "(pyvalue \<Rightarrow> string) \<Rightarrow> dict \<Rightarrow> int \<Rightarrow> correction_row list \<Rightarrow> piece list \<Rightarrow> dict list \<Rightarrow>
     operation list result" where
  "planned_operations digest rq employee sources pieces expected =
     rbind (rmap (keyed_operation digest rq) (operations_for_pieces sources pieces employee)) (\<lambda>opers.
     Inr (sort_key (operation_sort_key expected) opers))"

definition check_against_request ::
    "(pyvalue \<Rightarrow> string) \<Rightarrow> plan \<Rightarrow> int \<Rightarrow> request \<Rightarrow> correction_row list \<Rightarrow> unit result" where
  "check_against_request digest pl employee rq sources =
     rbind (pieces_for_request rq sources) (\<lambda>pieces.
     rbind (rmap freeze_mapping (expected_intervals pieces employee)) (\<lambda>expected.
     rbind (require (same_intervals (pl_expected pl) expected)
              ''expected intervals do not implement the correction request'') (\<lambda>_.
     rbind (planned_operations digest (pl_request pl) employee sources pieces expected) (\<lambda>opers.
     require (pl_operations pl = opers) ''operations do not implement the correction request''))))"

definition validate_plan :: "(pyvalue \<Rightarrow> string) \<Rightarrow> plan \<Rightarrow> unit result" where
  "validate_plan digest pl =
     rbind (validate_request (pl_request pl)) (\<lambda>(employee, rq).
     rbind (plan_sources pl employee) (\<lambda>sources.
     rbind (check_versions pl sources) (\<lambda>_.
     rbind (check_operation_order pl) (\<lambda>_.
     rbind (check_each (check_operation digest pl employee sources) (pl_operations pl)) (\<lambda>_.
     rbind (check_expected pl employee sources) (\<lambda>_.
     check_against_request digest pl employee rq sources))))))"

text \<open>The constructor of \<open>CorrectionPlan\<close>: freeze every mapping, then validate.\<close>

definition make_plan ::
    "(pyvalue \<Rightarrow> string) \<Rightarrow> source_version list \<Rightarrow> operation list \<Rightarrow> dict list \<Rightarrow> dict \<Rightarrow> dict list \<Rightarrow> plan result" where
  "make_plan digest versions opers expected rq sources =
     rbind (rmap freeze_mapping expected) (\<lambda>frozen_expected.
     rbind (freeze_mapping rq) (\<lambda>frozen_request.
     rbind (rmap freeze_mapping sources) (\<lambda>frozen_sources.
       let pl = \<lparr>pl_versions = versions, pl_operations = opers, pl_expected = frozen_expected,
                 pl_request = frozen_request, pl_sources = frozen_sources\<rparr>
       in rbind (validate_plan digest pl) (\<lambda>_. Inr pl))))"

section \<open>Planning a correction\<close>

definition request_values :: "int \<Rightarrow> request \<Rightarrow> dict" where
  "request_values employee rq =
     sort_key fst ([(k_employee, PyInt employee), (k_start, of_time (rq_start rq)),
        (k_end, of_end (rq_end rq)), (k_work_center, PyInt (rq_work_center rq)),
        (k_department, of_id (rq_department rq))]
       @ (if rq_merge rq then [(k_merge, PyBool True)] else []))"

definition check_request ::
    "pyvalue \<Rightarrow> pyvalue \<Rightarrow> pyvalue \<Rightarrow> pyvalue \<Rightarrow> pyvalue \<Rightarrow> pyvalue \<Rightarrow> (int \<times> request) result" where
  "check_request employee_value start_value end_value wc_value dept_value merge_value =
     (case merge_value of
        PyBool merge \<Rightarrow>
          rbind (checked_positive_int employee_value k_employee) (\<lambda>employee.
          rbind (checked_positive_int wc_value k_work_center) (\<lambda>wc.
          rbind (checked_optional_int dept_value k_department) (\<lambda>dept.
          rbind (checked_utc start_value k_start) (\<lambda>start.
          rbind (checked_optional_utc end_value k_end) (\<lambda>fin.
          rbind (require (ends_after fin start) ''end_utc must be later than start_utc'') (\<lambda>_.
          Inr (employee, \<lparr>rq_start = start, rq_end = fin, rq_work_center = wc,
                 rq_department = dept, rq_merge = merge\<rparr>)))))))
      | _ \<Rightarrow> Inl (TypeError ''merge must be a boolean''))"

definition plan_for ::
    "(pyvalue \<Rightarrow> string) \<Rightarrow> int \<Rightarrow> request \<Rightarrow> correction_row list \<Rightarrow> piece list \<Rightarrow> plan result" where
  "plan_for digest employee rq sources pieces =
     (let expected = expected_intervals pieces employee
      in rbind (planned_operations digest (request_values employee rq) employee sources pieces expected) (\<lambda>opers.
         make_plan digest (source_versions sources) opers expected (request_values employee rq)
           (map cr_values sources)))"

definition plan_correction ::
    "(pyvalue \<Rightarrow> string) \<Rightarrow> pyvalue list \<Rightarrow> pyvalue \<Rightarrow> pyvalue \<Rightarrow> pyvalue \<Rightarrow> pyvalue \<Rightarrow> pyvalue \<Rightarrow> pyvalue \<Rightarrow>
     plan result" where
  "plan_correction digest rows employee_value start_value end_value wc_value dept_value merge_value =
     rbind (check_request employee_value start_value end_value wc_value dept_value merge_value) (\<lambda>(employee, rq).
     rbind (normalize_source_rows rows employee) (\<lambda>sources.
     rbind (pieces_for_request rq sources) (\<lambda>pieces.
     plan_for digest employee rq sources pieces)))"

end
