(* ===== verification/Correction_Surgery.thy ===== *)
theory Correction_Surgery
  imports Correction_Pieces
begin

text \<open>
  What the pieces of a correction say at every instant, against the rows they were cut from: inside
  the request they carry the requested location, outside it nothing moves. The pieces reuse each
  attendance id at most once and have positive durations.
\<close>

section \<open>Rows and pieces at an instant\<close>

definition row_covers :: "correction_row \<Rightarrow> datetime \<Rightarrow> bool" where
  "row_covers r t = (cr_start r \<le> t \<and> ends_after (cr_end r) t)"

definition piece_covers :: "piece \<Rightarrow> datetime \<Rightarrow> bool" where
  "piece_covers p t = (pc_start p \<le> t \<and> ends_after (pc_end p) t)"

definition row_place :: "correction_row \<Rightarrow> int option \<times> int option" where
  "row_place r = (cr_work_center r, cr_department r)"

definition piece_place :: "piece \<Rightarrow> int option \<times> int option" where
  "piece_place p = (pc_work_center p, pc_department p)"

definition target_place :: "request \<Rightarrow> int option \<times> int option" where
  "target_place rq = (Some (rq_work_center rq), rq_department rq)"

definition rows_at :: "correction_row list \<Rightarrow> datetime \<Rightarrow> (int option \<times> int option) list" where
  "rows_at rows t = map row_place (filter (\<lambda>r. row_covers r t) rows)"

definition pieces_at :: "piece list \<Rightarrow> datetime \<Rightarrow> (int option \<times> int option) list" where
  "pieces_at ps t = map piece_place (filter (\<lambda>p. piece_covers p t) ps)"

definition before :: "correction_row \<Rightarrow> correction_row \<Rightarrow> bool" where
  "before a b = (case cr_end a of None \<Rightarrow> False | Some e \<Rightarrow> e \<le> cr_start b)"

definition sources_ok :: "correction_row list \<Rightarrow> bool" where
  "sources_ok rows =
     (distinct (map cr_id rows) \<and> (\<forall>r \<in> set rows. ends_after (cr_end r) (cr_start r)) \<and>
      sorted_wrt before rows)"

lemma ends_after_simps [simp]:
  "ends_after None t" "ends_after (Some x) t \<longleftrightarrow> t < x"
  by (simp_all add: ends_after_def)

lemma ends_after_mono: "ends_after e t \<Longrightarrow> s \<le> t \<Longrightarrow> ends_after e s"
  by (auto simp: ends_after_def split: option.splits)

lemma rows_at_simps [simp]:
  "rows_at [] t = []"
  "rows_at (r # rows) t = (if row_covers r t then row_place r # rows_at rows t else rows_at rows t)"
  by (simp_all add: rows_at_def)

lemma rows_at_append [simp]: "rows_at (xs @ ys) t = rows_at xs t @ rows_at ys t"
  by (simp add: rows_at_def)

lemma pieces_at_simps [simp]:
  "pieces_at [] t = []"
  "pieces_at (p # ps) t = (if piece_covers p t then piece_place p # pieces_at ps t else pieces_at ps t)"
  by (simp_all add: pieces_at_def)

lemma pieces_at_append [simp]: "pieces_at (xs @ ys) t = pieces_at xs t @ pieces_at ys t"
  by (simp add: pieces_at_def)

lemma rows_at_Nil_iff: "rows_at rows t = [] \<longleftrightarrow> (\<forall>r \<in> set rows. \<not> row_covers r t)"
  by (auto simp: rows_at_def filter_empty_conv)

lemma source_piece_simps [simp]:
  "pc_start (piece_from_source r s e i) = s" "pc_end (piece_from_source r s e i) = e"
  "pc_attendance_id (piece_from_source r s e i) = i" "pc_source (piece_from_source r s e i) = Some r"
  "piece_place (piece_from_source r s e i) = row_place r"
  "pc_key_sources (piece_from_source r s e i) = [r]"
  by (simp_all add: piece_from_source_def piece_place_def row_place_def)

lemma target_piece_simps [simp]:
  "pc_start (target_piece rq s b e ks) = b" "pc_end (target_piece rq s b e ks) = e"
  "pc_attendance_id (target_piece rq s b e ks) = map_option cr_id s" "pc_source (target_piece rq s b e ks) = s"
  "piece_place (target_piece rq s b e ks) = target_place rq"
  by (simp_all add: target_piece_def piece_place_def target_place_def)

lemma pieces_at_untouched [simp]: "pieces_at (map untouched_piece rows) t = rows_at rows t"
  by (induction rows) (simp_all add: untouched_piece_def piece_covers_def row_covers_def)

lemma sources_ok_Cons:
  "sources_ok (r # rows) \<longleftrightarrow> cr_id r \<notin> cr_id ` set rows \<and> ends_after (cr_end r) (cr_start r) \<and>
     (\<forall>b \<in> set rows. before r b) \<and> sources_ok rows"
  by (auto simp: sources_ok_def)

lemma sources_ok_append:
  "sources_ok (xs @ ys) \<longleftrightarrow> sources_ok xs \<and> sources_ok ys \<and> (\<forall>a \<in> set xs. \<forall>b \<in> set ys. before a b) \<and>
     cr_id ` set xs \<inter> cr_id ` set ys = {}"
  by (auto simp: sources_ok_def sorted_wrt_append)

lemma sources_ok_filter: "sources_ok rows \<Longrightarrow> sources_ok (filter P rows)"
  by (auto simp: sources_ok_def distinct_map_filter sorted_wrt_filter)

lemma before_disjoint: "before a b \<Longrightarrow> row_covers a t \<Longrightarrow> row_covers b t \<Longrightarrow> False"
  by (auto simp: before_def row_covers_def split: option.splits)

lemma rows_at_single: "sources_ok rows \<Longrightarrow> length (rows_at rows t) \<le> 1"
proof (induction rows)
  case (Cons r rows)
  then show ?case using before_disjoint by (fastforce simp: sources_ok_Cons rows_at_Nil_iff)
qed simp

lemma mset_eq_single: "mset xs = mset ys \<Longrightarrow> length ys \<le> 1 \<Longrightarrow> xs = ys"
  by (cases ys; cases xs) (auto dest: mset_eq_length)

section \<open>Surgery\<close>

lemma before_first:
  assumes "sources_ok rows" "r \<in> set rows" "r \<noteq> hd rows"
  shows "before (hd rows) r"
  using assms by (cases rows) (auto simp: sources_ok_Cons)

lemma last_before:
  assumes "sources_ok rows" "r \<in> set rows" "r \<noteq> last rows"
  shows "before r (last rows)"
  using assms
proof (induction rows)
  case (Cons a rows)
  then show ?case by (cases rows) (auto simp: sources_ok_Cons split: if_splits)
qed simp

lemma rows_at_one:
  assumes "sources_ok rows" "r \<in> set rows" "row_covers r t"
  shows "rows_at rows t = [row_place r]"
proof -
  have "row_place r \<in> set (rows_at rows t)" using assms by (simp add: rows_at_def)
  then show ?thesis using rows_at_single [OF assms(1), of t] by (cases "rows_at rows t") auto
qed

lemma surgery_at:
  assumes ok: "sources_ok rows" and ne: "rows \<noteq> []" and pos: "s < e"
    and touch: "\<forall>r \<in> set rows. cr_start r < e \<and> ends_after (cr_end r) s"
  shows "pieces_at (surgery rq s e rows) t = (if s \<le> t \<and> t < e then [target_place rq] else rows_at rows t)"
proof -
  have hd: "hd rows \<in> set rows" and la: "last rows \<in> set rows" using ne by simp_all
  have left: "pieces_at (left_remainder s rows) t = (if t < s then rows_at rows t else [])"
  proof (cases "t < s \<and> row_covers (hd rows) t")
    case True
    then show ?thesis using rows_at_one [OF ok hd]
      by (auto simp: left_remainder_def row_covers_def piece_covers_def)
  next
    case False
    have "rows_at rows t = []" if "t < s"
      unfolding rows_at_Nil_iff
    proof
      fix r assume r: "r \<in> set rows"
      show "\<not> row_covers r t"
      proof (cases "r = hd rows")
        case True
        then show ?thesis using False that by simp
      next
        case False
        from before_first [OF ok r this] touch hd that show ?thesis
          by (force simp: before_def row_covers_def split: option.splits)
      qed
    qed
    moreover have "row_covers (hd rows) t" if "cr_start (hd rows) \<le> t" "t < s"
      using that touch hd ends_after_mono [of _ s t] by (auto simp: row_covers_def)
    ultimately show ?thesis using False by (auto simp: left_remainder_def piece_covers_def)
  qed
  have right: "pieces_at (right_remainder e used rows) t = (if e \<le> t then rows_at rows t else [])" for used
  proof (cases "e \<le> t \<and> row_covers (last rows) t")
    case True
    then show ?thesis using rows_at_one [OF ok la] ends_after_mono [of _ t e]
      by (auto simp: right_remainder_def row_covers_def piece_covers_def)
  next
    case False
    have "rows_at rows t = []" if "e \<le> t"
      unfolding rows_at_Nil_iff
    proof
      fix r assume r: "r \<in> set rows"
      show "\<not> row_covers r t"
      proof (cases "r = last rows")
        case True
        then show ?thesis using False that by simp
      next
        case False
        from last_before [OF ok r this] touch la that show ?thesis
          by (force simp: before_def row_covers_def split: option.splits)
      qed
    qed
    moreover have "row_covers (last rows) t" if "e \<le> t" "ends_after (cr_end (last rows)) t"
      using that touch la by (force simp: row_covers_def)
    ultimately show ?thesis using False by (auto simp: right_remainder_def piece_covers_def)
  qed
  show ?thesis using pos by (auto simp: surgery_def Let_def left right piece_covers_def)
qed

section \<open>Runs\<close>

definition contiguous :: "correction_row list \<Rightarrow> bool" where
  "contiguous rows = (rows \<noteq> [] \<and> successively (\<lambda>a b. cr_end a = Some (cr_start b)) rows)"

lemma runs_snoc: "runs (rows @ [r]) = add_to_run (runs rows) r"
  by (simp add: runs_def)

lemma runs_ok: "concat (runs rows) = rows \<and> (\<forall>grp \<in> set (runs rows). contiguous grp)"
proof (induction rows rule: rev_induct)
  case (snoc r rows)
  show ?case
  proof (cases "runs rows \<noteq> [] \<and> cr_end (last (last (runs rows))) = Some (cr_start r)")
    case True
    then obtain gs g where g: "runs rows = gs @ [g]" by (metis append_butlast_last_id)
    have "contiguous (g @ [r])"
      using snoc True unfolding g by (auto simp: contiguous_def successively_append_iff)
    then show ?thesis using snoc True unfolding runs_snoc add_to_run_def g by auto
  next
    case False
    then show ?thesis using snoc unfolding runs_snoc add_to_run_def by (auto simp: contiguous_def)
  qed
qed (simp add: runs_def)

lemma contiguous_hull:
  "contiguous rows \<Longrightarrow> cr_start (hd rows) \<le> t \<Longrightarrow> ends_after (cr_end (last rows)) t \<Longrightarrow>
     rows_at rows t \<noteq> []"
proof (induction rows)
  case (Cons r rows)
  show ?case
  proof (cases "rows = []")
    case True
    then show ?thesis using Cons.prems by (simp add: row_covers_def)
  next
    case False
    then have "contiguous rows" and meet: "cr_end r = Some (cr_start (hd rows))"
      using Cons.prems(1) by (auto simp: contiguous_def successively_Cons)
    then show ?thesis using Cons False by (cases "cr_start (hd rows) \<le> t") (auto simp: row_covers_def)
  qed
qed (simp add: contiguous_def)

section \<open>The requested places\<close>

definition in_request :: "request \<Rightarrow> datetime \<Rightarrow> bool" where
  "in_request rq t = (rq_start rq \<le> t \<and> ends_after (rq_end rq) t)"

definition fills_gaps :: "request \<Rightarrow> correction_row list \<Rightarrow> bool" where
  "fills_gaps rq sources =
     (rq_merge rq \<or>
      (case rq_end rq of None \<Rightarrow> True | Some fin \<Rightarrow> overlapping (rq_start rq) fin sources = []))"

definition requested_at ::
    "request \<Rightarrow> correction_row list \<Rightarrow> datetime \<Rightarrow> (int option \<times> int option) list" where
  "requested_at rq sources t =
     (if in_request rq t \<and> (fills_gaps rq sources \<or> rows_at sources t \<noteq> [])
      then [target_place rq] else rows_at sources t)"

lemma overlapping_iff:
  "r \<in> set (overlapping s e sources) \<longleftrightarrow>
     r \<in> set sources \<and> cr_start r < e \<and> ends_after (cr_end r) s"
  by (auto simp: overlapping_def)

definition run_end :: "datetime \<Rightarrow> correction_row list \<Rightarrow> datetime" where
  "run_end fin grp = (case cr_end (last grp) of Some e \<Rightarrow> e | None \<Rightarrow> fin)"

lemma run_pieces_surgery:
  "run_pieces rq fin grp = surgery rq (max (rq_start rq) (cr_start (hd grp))) (min fin (run_end fin grp)) grp"
  by (simp add: run_pieces_def run_end_def)

lemma run_first:
  assumes ok: "sources_ok grp" and r: "r \<in> set grp"
  shows "cr_start (hd grp) \<le> cr_start r \<and> ends_after (cr_end r) (cr_start (hd grp))"
proof (cases "r = hd grp")
  case True
  then show ?thesis using ok r by (simp add: sources_ok_def)
next
  case False
  have "hd grp \<in> set grp" using r by (cases grp) auto
  then have "ends_after (cr_end (hd grp)) (cr_start (hd grp))" "ends_after (cr_end r) (cr_start r)"
    using ok r by (auto simp: sources_ok_def)
  with before_first [OF ok r False] show ?thesis
    by (auto simp: before_def ends_after_def split: option.splits)
qed

lemma run_last:
  assumes ok: "sources_ok grp" and r: "r \<in> set grp"
  shows "cr_start r < run_end fin grp \<or> cr_end (last grp) = None"
proof (cases "r = last grp")
  case True
  then show ?thesis using ok r by (auto simp: sources_ok_def run_end_def split: option.splits)
next
  case False
  have "last grp \<in> set grp" using r by (cases grp) auto
  then have "ends_after (cr_end (last grp)) (cr_start (last grp))" "ends_after (cr_end r) (cr_start r)"
    using ok r by (auto simp: sources_ok_def)
  with last_before [OF ok r False] show ?thesis
    by (auto simp: before_def run_end_def ends_after_def split: option.splits)
qed

lemma run_bounds:
  assumes ok: "sources_ok grp" and ne: "grp \<noteq> []" and rq: "rq_start rq < fin"
    and touch: "\<forall>r \<in> set grp. cr_start r < fin \<and> ends_after (cr_end r) (rq_start rq)"
  shows "\<forall>r \<in> set grp. cr_start r < min fin (run_end fin grp)
           \<and> ends_after (cr_end r) (max (rq_start rq) (cr_start (hd grp)))"
    and "max (rq_start rq) (cr_start (hd grp)) < min fin (run_end fin grp)"
proof -
  have hd: "hd grp \<in> set grp" and la: "last grp \<in> set grp" using ne by simp_all
  show each: "\<forall>r \<in> set grp. cr_start r < min fin (run_end fin grp)
           \<and> ends_after (cr_end r) (max (rq_start rq) (cr_start (hd grp)))"
  proof
    fix r assume r: "r \<in> set grp"
    have "cr_start r < run_end fin grp" using run_last [OF ok r, of fin] touch r by (auto simp: run_end_def)
    moreover have "ends_after (cr_end r) (max (rq_start rq) (cr_start (hd grp)))"
      using touch run_first [OF ok r] r by (cases "cr_end r") auto
    ultimately show "cr_start r < min fin (run_end fin grp)
        \<and> ends_after (cr_end r) (max (rq_start rq) (cr_start (hd grp)))" using touch r by simp
  qed
  have "rq_start rq < run_end fin grp" using touch la rq by (auto simp: run_end_def split: option.splits)
  then show "max (rq_start rq) (cr_start (hd grp)) < min fin (run_end fin grp)" using each hd rq by auto
qed

lemma run_pieces_at:
  assumes ok: "sources_ok grp" and cont: "contiguous grp" and rq: "rq_end rq = Some fin" "rq_start rq < fin"
    and touch: "\<forall>r \<in> set grp. cr_start r < fin \<and> ends_after (cr_end r) (rq_start rq)"
  shows "pieces_at (run_pieces rq fin grp) t =
    (if in_request rq t \<and> rows_at grp t \<noteq> [] then [target_place rq] else rows_at grp t)"
proof -
  have ne: "grp \<noteq> []" using cont by (simp add: contiguous_def)
  have la: "last grp \<in> set grp" using ne by simp
  let ?s = "max (rq_start rq) (cr_start (hd grp))" and ?e = "min fin (run_end fin grp)"
  note bounds = run_bounds [OF ok ne rq(2) touch]
  have "pieces_at (run_pieces rq fin grp) t = (if ?s \<le> t \<and> t < ?e then [target_place rq] else rows_at grp t)"
    unfolding run_pieces_surgery by (rule surgery_at [OF ok ne bounds(2,1)])
  moreover have "rows_at grp t \<noteq> []" if "?s \<le> t" "t < ?e"
    by (rule contiguous_hull [OF cont]) (use that in \<open>auto simp: run_end_def split: option.splits\<close>)
  moreover have "rows_at grp t = []" if "in_request rq t" "\<not> (?s \<le> t \<and> t < ?e)"
    unfolding rows_at_Nil_iff
  proof
    fix r assume r: "r \<in> set grp"
    from that rq consider "t < cr_start (hd grp)" | "run_end fin grp \<le> t" "t < fin"
      by (fastforce simp: in_request_def)
    then show "\<not> row_covers r t"
    proof cases
      case 1
      then show ?thesis using run_first [OF ok r] by (simp add: row_covers_def)
    next
      case 2
      then have le: "cr_end (last grp) = Some (run_end fin grp)" by (auto simp: run_end_def split: option.splits)
      show ?thesis
      proof (cases "r = last grp")
        case False
        have "ends_after (cr_end (last grp)) (cr_start (last grp))" using ok la by (simp add: sources_ok_def)
        with last_before [OF ok r False] 2 le show ?thesis by (auto simp: before_def row_covers_def split: option.splits)
      qed (use 2 le in \<open>simp add: row_covers_def\<close>)
    qed
  qed
  moreover have "in_request rq t" if "?s \<le> t" "t < ?e" using that rq by (simp add: in_request_def)
  ultimately show ?thesis by auto
qed

lemma sources_ok_concat: "sources_ok (concat gs) \<Longrightarrow> grp \<in> set gs \<Longrightarrow> sources_ok grp"
  by (induction gs) (auto simp: sources_ok_append)

lemma runs_pieces_at:
  assumes "sources_ok (concat gs)" and "\<forall>grp \<in> set gs. contiguous grp"
    and rq: "rq_end rq = Some fin" "rq_start rq < fin"
    and touch: "\<forall>r \<in> set (concat gs). cr_start r < fin \<and> ends_after (cr_end r) (rq_start rq)"
  shows "pieces_at (concat (map (run_pieces rq fin) gs)) t =
    (if in_request rq t \<and> rows_at (concat gs) t \<noteq> [] then [target_place rq] else rows_at (concat gs) t)"
  using assms(1,2,5)
proof (induction gs)
  case (Cons g gs)
  have g: "sources_ok g" and rest: "sources_ok (concat gs)" using Cons.prems(1) by (simp_all add: sources_ok_append)
  have one: "rows_at g t = [] \<or> rows_at (concat gs) t = []"
    using rows_at_single [OF Cons.prems(1), of t] by (cases "rows_at g t") auto
  have "pieces_at (run_pieces rq fin g) t = (if in_request rq t \<and> rows_at g t \<noteq> [] then [target_place rq] else rows_at g t)"
    by (rule run_pieces_at [OF g _ rq]) (use Cons.prems in auto)
  moreover have "pieces_at (concat (map (run_pieces rq fin) gs)) t =
      (if in_request rq t \<and> rows_at (concat gs) t \<noteq> [] then [target_place rq] else rows_at (concat gs) t)"
    using Cons.IH [OF rest] Cons.prems by simp
  ultimately show ?case using one by auto
qed simp

lemma unaffected_overlapping:
  assumes "sources_ok sources"
  shows "unaffected sources (overlapping s e sources) =
    filter (\<lambda>r. \<not> (cr_start r < e \<and> ends_after (cr_end r) s)) sources"
  unfolding unaffected_def
proof (rule filter_cong [OF refl])
  fix r assume r: "r \<in> set sources"
  have "inj_on cr_id (set sources)" using assms by (simp add: sources_ok_def distinct_map)
  then have "cr_id r \<in> cr_id ` set (overlapping s e sources) \<longleftrightarrow> r \<in> set (overlapping s e sources)"
    by (rule inj_on_image_mem_iff [OF _ r]) (auto simp: overlapping_def)
  then show "cr_id r \<notin> set (map cr_id (overlapping s e sources)) \<longleftrightarrow> \<not> (cr_start r < e \<and> ends_after (cr_end r) s)"
    using r by (simp add: overlapping_iff)
qed

lemma rows_at_split:
  "mset (rows_at (filter P rows) t) + mset (rows_at (filter (\<lambda>r. \<not> P r) rows) t) = mset (rows_at rows t)"
  by (induction rows) simp_all

lemma closed_split:
  assumes ok: "sources_ok sources" and rq: "rq_start rq < fin"
  shows "mset (rows_at (unaffected sources (overlapping (rq_start rq) fin sources)) t)
      + mset (rows_at (overlapping (rq_start rq) fin sources) t) = mset (rows_at sources t)"
    and "rq_start rq \<le> t \<Longrightarrow> t < fin \<Longrightarrow> rows_at (unaffected sources (overlapping (rq_start rq) fin sources)) t = []"
proof -
  show "mset (rows_at (unaffected sources (overlapping (rq_start rq) fin sources)) t)
      + mset (rows_at (overlapping (rq_start rq) fin sources) t) = mset (rows_at sources t)"
    using rows_at_split [of "\<lambda>r. cr_start r < fin \<and> ends_after (cr_end r) (rq_start rq)" sources t]
    by (simp only: unaffected_overlapping [OF ok]) (simp add: overlapping_def add.commute)
  show "rows_at (unaffected sources (overlapping (rq_start rq) fin sources)) t = []" if "rq_start rq \<le> t" "t < fin"
    unfolding unaffected_overlapping [OF ok] rows_at_Nil_iff
    using that by (auto simp: row_covers_def dest: ends_after_mono)
qed

lemma requested_single: "sources_ok sources \<Longrightarrow> length (requested_at rq sources t) \<le> 1"
  using rows_at_single by (simp add: requested_at_def)

lemma closed_pieces_at:
  assumes ok: "sources_ok sources" and rq: "rq_end rq = Some fin" "rq_start rq < fin" "\<not> rq_merge rq"
  shows "pieces_at (closed_pieces rq fin sources) t = requested_at rq sources t"
proof (cases "overlapping (rq_start rq) fin sources = []")
  case True
  have "rows_at sources t = []" if "in_request rq t"
    using closed_split(2) [OF ok rq(2), of t] that rq(1) True by (simp add: in_request_def unaffected_def)
  then show ?thesis using True rq by (auto simp: closed_pieces_def requested_at_def fills_gaps_def piece_covers_def in_request_def)
next
  case False
  let ?ov = "overlapping (rq_start rq) fin sources"
  have ov: "sources_ok ?ov" unfolding overlapping_def by (rule sources_ok_filter [OF ok])
  have runs: "concat (runs ?ov) = ?ov" "\<forall>grp \<in> set (runs ?ov). contiguous grp" using runs_ok by auto
  have "pieces_at (concat (map (run_pieces rq fin) (runs ?ov))) t =
      (if in_request rq t \<and> rows_at ?ov t \<noteq> [] then [target_place rq] else rows_at ?ov t)"
    using runs_pieces_at [of "runs ?ov" rq fin t] runs ov rq(1,2) by (simp add: overlapping_iff)
  then have at: "pieces_at (closed_pieces rq fin sources) t = rows_at (unaffected sources ?ov) t @
      (if in_request rq t \<and> rows_at ?ov t \<noteq> [] then [target_place rq] else rows_at ?ov t)"
    using False by (simp add: closed_pieces_def Let_def)
  have "mset (pieces_at (closed_pieces rq fin sources) t) = mset (requested_at rq sources t)"
  proof (cases "in_request rq t")
    case True
    then have "rows_at (unaffected sources ?ov) t = []" using closed_split(2) [OF ok rq(2), of t] rq(1) by (simp add: in_request_def)
    moreover have "rows_at sources t = [] \<longleftrightarrow> rows_at ?ov t = []"
      using closed_split(1) [OF ok rq(2), of t] calculation by (metis add_0 mset.simps(1) mset_zero_iff)
    ultimately show ?thesis using True False rq unfolding at by (auto simp: requested_at_def fills_gaps_def)
  next
    case no: False
    then show ?thesis using closed_split(1) [OF ok rq(2), of t] unfolding at by (simp add: requested_at_def)
  qed
  then show ?thesis by (rule mset_eq_single) (rule requested_single [OF ok])
qed

lemma closed_merge_pieces_at:
  assumes ok: "sources_ok sources" and rq: "rq_end rq = Some fin" "rq_start rq < fin" "rq_merge rq"
  shows "pieces_at (closed_merge_pieces rq fin sources) t = requested_at rq sources t"
proof (cases "overlapping (rq_start rq) fin sources = []")
  case True
  have "rows_at sources t = []" if "in_request rq t"
    using closed_split(2) [OF ok rq(2), of t] that rq(1) True by (simp add: in_request_def unaffected_def)
  then show ?thesis using True rq by (auto simp: closed_merge_pieces_def requested_at_def fills_gaps_def piece_covers_def in_request_def)
next
  case False
  let ?ov = "overlapping (rq_start rq) fin sources"
  have ov: "sources_ok ?ov" unfolding overlapping_def by (rule sources_ok_filter [OF ok])
  have at: "pieces_at (closed_merge_pieces rq fin sources) t = rows_at (unaffected sources ?ov) t @
      (if in_request rq t then [target_place rq] else rows_at ?ov t)"
    using False surgery_at [OF ov False rq(2)] rq(1) by (simp add: closed_merge_pieces_def Let_def overlapping_iff in_request_def)
  have "mset (pieces_at (closed_merge_pieces rq fin sources) t) = mset (requested_at rq sources t)"
  proof (cases "in_request rq t")
    case True
    then have "rows_at (unaffected sources ?ov) t = []" using closed_split(2) [OF ok rq(2), of t] rq(1) by (simp add: in_request_def)
    then show ?thesis using True rq unfolding at by (simp add: requested_at_def fills_gaps_def)
  next
    case no: False
    then show ?thesis using closed_split(1) [OF ok rq(2), of t] unfolding at by (simp add: requested_at_def)
  qed
  then show ?thesis by (rule mset_eq_single) (rule requested_single [OF ok])
qed

lemma onward_split:
  assumes ok: "sources_ok sources"
  shows "mset (rows_at (filter (\<lambda>r. \<not> ends_after (cr_end r) s) sources) t) + mset (rows_at (from_onward s sources) t)
      = mset (rows_at sources t)"
    and "s \<le> t \<Longrightarrow> rows_at (filter (\<lambda>r. \<not> ends_after (cr_end r) s) sources) t = []"
  using rows_at_split [of "\<lambda>r. ends_after (cr_end r) s" sources t]
  by (auto simp: from_onward_def add.commute rows_at_Nil_iff row_covers_def dest: ends_after_mono)

lemma left_remainder_at:
  assumes ok: "sources_ok rows" and ne: "rows \<noteq> []" and touch: "\<forall>r \<in> set rows. ends_after (cr_end r) s"
  shows "pieces_at (left_remainder s rows) t = (if t < s then rows_at rows t else [])"
proof -
  have hd: "hd rows \<in> set rows" using ne by simp
  have first: "cr_start (hd rows) \<le> t \<and> r = hd rows" if "r \<in> set rows" "row_covers r t" "t < s" for r
  proof (cases "r = hd rows")
    case False
    from before_first [OF ok that(1) False] touch hd that show ?thesis
      by (force simp: before_def row_covers_def split: option.splits)
  qed (use that in \<open>simp add: row_covers_def\<close>)
  show ?thesis
  proof (cases "t < s \<and> cr_start (hd rows) \<le> t")
    case True
    then have "row_covers (hd rows) t" using touch hd ends_after_mono [of _ s t] by (auto simp: row_covers_def)
    from rows_at_one [OF ok hd this] show ?thesis using True
      by (auto simp: left_remainder_def piece_covers_def)
  next
    case False
    then have "t < s \<Longrightarrow> rows_at rows t = []" using first by (auto simp: rows_at_Nil_iff)
    then show ?thesis using False by (auto simp: left_remainder_def piece_covers_def)
  qed
qed

lemma open_at:
  assumes ok: "sources_ok sources" and rq: "rq_end rq = None" and ne: "from_onward (rq_start rq) sources \<noteq> []"
    and ps: "ps = map untouched_piece (filter (\<lambda>r. \<not> ends_after (cr_end r) (rq_start rq)) sources)
         @ left_remainder (rq_start rq) (from_onward (rq_start rq) sources)
         @ [target_piece rq reuse (rq_start rq) None keys]"
  shows "pieces_at ps t = requested_at rq sources t"
proof -
  let ?on = "from_onward (rq_start rq) sources"
  have on: "sources_ok ?on" unfolding from_onward_def by (rule sources_ok_filter [OF ok])
  have "pieces_at ps t = rows_at (filter (\<lambda>r. \<not> ends_after (cr_end r) (rq_start rq)) sources) t @
      (if t < rq_start rq then rows_at ?on t else [target_place rq])"
    unfolding ps using left_remainder_at [OF on ne] by (auto simp: from_onward_def piece_covers_def)
  then have "mset (pieces_at ps t) = mset (requested_at rq sources t)"
    using onward_split [OF ok, of "rq_start rq" t] rq
    by (cases "t < rq_start rq") (auto simp: requested_at_def in_request_def fills_gaps_def)
  then show ?thesis by (rule mset_eq_single) (rule requested_single [OF ok])
qed

lemma open_pieces_at:
  assumes ok: "sources_ok sources" and rq: "rq_end rq = None"
  shows "pieces_at (open_pieces rq sources) t = requested_at rq sources t"
proof (cases "from_onward (rq_start rq) sources = []")
  case True
  then have "\<forall>r \<in> set sources. \<not> ends_after (cr_end r) (rq_start rq)" by (simp add: from_onward_def filter_empty_conv)
  then have "rows_at sources t = []" if "rq_start rq \<le> t"
    using that by (auto simp: rows_at_Nil_iff row_covers_def dest: ends_after_mono)
  then show ?thesis using True rq
    by (auto simp: open_pieces_def requested_at_def in_request_def fills_gaps_def piece_covers_def)
next
  case False
  show ?thesis by (rule open_at [OF ok rq False]) (use False in \<open>simp add: open_pieces_def Let_def\<close>)
qed

lemma open_merge_at:
  assumes ok: "sources_ok sources" and rq: "rq_end rq = None" and run: "open_merge_pieces rq sources = Inr ps"
  shows "pieces_at ps t = requested_at rq sources t"
proof -
  from run obtain live where live: "find (\<lambda>r. cr_end r = None) sources = Some live"
    and ps: "ps = map untouched_piece (filter (\<lambda>r. \<not> ends_after (cr_end r) (rq_start rq)) sources)
        @ left_remainder (rq_start rq) (from_onward (rq_start rq) sources)
        @ [target_piece rq (Some live) (rq_start rq) None []]"
    by (auto simp: open_merge_pieces_def Let_def split: option.splits if_splits)
  have "live \<in> set (from_onward (rq_start rq) sources)"
    using live by (auto simp: find_Some_iff from_onward_def)
  then have "from_onward (rq_start rq) sources \<noteq> []" by auto
  then show ?thesis by (rule open_at [OF ok rq _ ps])
qed

lemma no_op_at:
  assumes ok: "sources_ok sources" and no_op: "correction_is_no_op rq sources" and plain: "\<not> rq_merge rq"
  shows "rows_at sources t = requested_at rq sources t"
proof (cases "rq_end rq")
  case None
  from no_op None obtain r where r: "from_onward (rq_start rq) sources = [r]" "cr_start r \<le> rq_start rq"
    "cr_end r = None" "at_target rq r"
    by (auto simp: correction_is_no_op_def split: list.splits)
  then have "r \<in> set sources" by (metis from_onward_def filter_is_subset list.set_intros(1) subsetD)
  moreover have "row_covers r t" if "rq_start rq \<le> t" using r that by (simp add: row_covers_def)
  ultimately have "rows_at sources t = [row_place r]" if "rq_start rq \<le> t" using rows_at_one [OF ok] that by blast
  then show ?thesis using r None by (auto simp: requested_at_def in_request_def at_target_def row_place_def target_place_def)
next
  case (Some fin)
  have "rows_at sources t = [target_place rq]" if "in_request rq t" "rows_at sources t \<noteq> []"
  proof -
    from that(2) obtain r where r: "r \<in> set sources" "row_covers r t" by (auto simp: rows_at_Nil_iff)
    then have "r \<in> set (overlapping (rq_start rq) fin sources)"
      using that(1) Some by (auto simp: overlapping_iff row_covers_def in_request_def dest: ends_after_mono)
    then have "at_target rq r" using no_op Some by (auto simp: correction_is_no_op_def Let_def list_all_iff)
    then show ?thesis using rows_at_one [OF ok r] by (simp add: at_target_def row_place_def target_place_def)
  qed
  moreover have "\<not> fills_gaps rq sources"
    using no_op Some plain by (simp add: correction_is_no_op_def Let_def fills_gaps_def)
  ultimately show ?thesis by (auto simp: requested_at_def)
qed

lemma merge_no_op_at:
  assumes ok: "sources_ok sources" and no_op: "merge_is_no_op rq sources"
  shows "rows_at sources t = requested_at rq sources t"
proof -
  obtain r where sub: "r \<in> set sources" and st: "cr_start r \<le> rq_start rq" "at_target rq r"
    and en: "case rq_end rq of None \<Rightarrow> cr_end r = None | Some fin \<Rightarrow> (case cr_end r of None \<Rightarrow> True | Some e \<Rightarrow> e \<ge> fin)"
  proof (cases "rq_end rq")
    case None
    then obtain r where r: "from_onward (rq_start rq) sources = [r]" "cr_start r \<le> rq_start rq" "at_target rq r" "cr_end r = None"
      using no_op by (auto simp: merge_is_no_op_def split: list.splits)
    moreover have "r \<in> set sources" using r(1) by (metis from_onward_def filter_is_subset list.set_intros(1) subsetD)
    ultimately show ?thesis using that None by simp
  next
    case (Some fin)
    then obtain r where r: "overlapping (rq_start rq) fin sources = [r]" "cr_start r \<le> rq_start rq" "at_target rq r"
      "case cr_end r of None \<Rightarrow> True | Some e \<Rightarrow> e \<ge> fin"
      using no_op by (auto simp: merge_is_no_op_def split: list.splits)
    moreover have "r \<in> set sources" using r(1) overlapping_iff [of r "rq_start rq" fin sources] by simp
    ultimately show ?thesis using that Some by simp
  qed
  have "rows_at sources t = [target_place rq]" if "in_request rq t"
  proof -
    have "row_covers r t" using that st en by (auto simp: in_request_def row_covers_def split: option.splits)
    from rows_at_one [OF ok sub this] st show ?thesis by (simp add: at_target_def row_place_def target_place_def)
  qed
  then show ?thesis by (simp add: requested_at_def)
qed

lemma pieces_for_request_at:
  assumes ok: "sources_ok sources" and pos: "ends_after (rq_end rq) (rq_start rq)"
    and run: "pieces_for_request rq sources = Inr ps"
  shows "pieces_at ps t = requested_at rq sources t"
proof (cases "rq_merge rq")
  case True
  show ?thesis
  proof (cases "merge_is_no_op rq sources")
    case False
    then show ?thesis using True run pos closed_merge_pieces_at [OF ok] open_merge_at [OF ok]
      by (auto simp: pieces_for_request_def merge_pieces_for_request_def split: option.splits)
  qed (use True run merge_no_op_at [OF ok] in \<open>auto simp: pieces_for_request_def merge_pieces_for_request_def\<close>)
next
  case plain: False
  show ?thesis
  proof (cases "correction_is_no_op rq sources")
    case False
    then show ?thesis using plain run pos closed_pieces_at [OF ok] open_pieces_at [OF ok]
      by (auto simp: pieces_for_request_def split: option.splits)
  qed (use plain run no_op_at [OF ok _ plain] in \<open>auto simp: pieces_for_request_def\<close>)
qed

section \<open>The pieces themselves\<close>

definition ids_of :: "piece list \<Rightarrow> int list" where
  "ids_of ps = List.map_filter pc_attendance_id ps"

definition piece_ok :: "correction_row list \<Rightarrow> piece \<Rightarrow> bool" where
  "piece_ok rows p =
     (ends_after (pc_end p) (pc_start p) \<and> set (pc_key_sources p) \<subseteq> set rows \<and>
      (case pc_source p of
         None \<Rightarrow> pc_attendance_id p = None
       | Some r \<Rightarrow> r \<in> set rows \<and> pc_key_sources p = [r]
           \<and> (pc_attendance_id p = None \<or> pc_attendance_id p = Some (cr_id r))))"

definition pieces_ok :: "correction_row list \<Rightarrow> piece list \<Rightarrow> bool" where
  "pieces_ok rows ps = (distinct (ids_of ps) \<and> (\<forall>p \<in> set ps. piece_ok rows p))"

lemma ids_of_simps [simp]:
  "ids_of [] = []"
  "ids_of (p # ps) = (case pc_attendance_id p of None \<Rightarrow> ids_of ps | Some i \<Rightarrow> i # ids_of ps)"
  "ids_of (ps @ qs) = ids_of ps @ ids_of qs"
  by (simp_all add: ids_of_def map_filter_def split: option.splits)

lemma piece_ids_ids_of: "piece_ids ps = set (ids_of ps)"
  by (simp add: piece_ids_def ids_of_def)

lemma ids_of_untouched [simp]: "ids_of (map untouched_piece rows) = map cr_id rows"
  by (induction rows) (simp_all add: untouched_piece_def)

lemma untouched_ok: "r \<in> set rows \<Longrightarrow> ends_after (cr_end r) (cr_start r) \<Longrightarrow> piece_ok rows (untouched_piece r)"
  by (simp add: piece_ok_def untouched_piece_def)

lemma piece_ok_mono: "piece_ok rows p \<Longrightarrow> set rows \<subseteq> set rows' \<Longrightarrow> piece_ok rows' p"
  by (auto simp: piece_ok_def split: option.splits)

lemma ids_of_ok: "\<forall>p \<in> set ps. piece_ok rows p \<Longrightarrow> set (ids_of ps) \<subseteq> cr_id ` set rows"
  by (induction ps) (auto simp: piece_ok_def split: option.splits)

lemma target_ok:
  assumes "ends_after e b" and "set keys \<subseteq> set rows" and "\<And>r. s = Some r \<Longrightarrow> r \<in> set rows"
  shows "piece_ok rows (target_piece rq s b e keys)"
  using assms by (auto simp: piece_ok_def target_piece_def split: option.splits)

lemma surgery_pieces_ok:
  assumes ok: "sources_ok rows" and ne: "rows \<noteq> []" and pos: "s < e"
  shows "pieces_ok rows (surgery rq s e rows)"
proof -
  let ?left = "left_remainder s rows" let ?right = "right_remainder e (piece_ids ?left) rows"
  let ?reuse = "reusable s e (piece_ids ?left \<union> piece_ids ?right) rows"
  have hd: "hd rows \<in> set rows" and la: "last rows \<in> set rows" using ne by simp_all
  have reuse: "r \<in> set rows \<and> cr_id r \<notin> piece_ids ?left \<and> cr_id r \<notin> piece_ids ?right" if "?reuse = Some r" for r
    using that by (auto simp: reusable_def find_Some_iff)
  have parts: "surgery rq s e rows = ?left @ ?right @ [target_piece rq ?reuse s (Some e) rows]"
    by (simp add: surgery_def Let_def)
  have "distinct (ids_of ?left)" "distinct (ids_of ?right)" "set (ids_of ?left) \<inter> set (ids_of ?right) = {}"
    by (auto simp: left_remainder_def right_remainder_def piece_ids_ids_of)
  moreover have "ids_of [target_piece rq ?reuse s (Some e) rows] = (case ?reuse of None \<Rightarrow> [] | Some r \<Rightarrow> [cr_id r])"
    by (simp split: option.splits)
  ultimately have "distinct (ids_of (surgery rq s e rows))"
    unfolding parts using reuse by (auto simp: piece_ids_ids_of split: option.splits)
  moreover have "piece_ok rows p" if p: "p \<in> set ?left" for p
    using p hd by (auto simp: left_remainder_def piece_ok_def split: if_splits)
  moreover have "piece_ok rows p" if p: "p \<in> set ?right" for p
    using p la by (auto simp: right_remainder_def piece_ok_def split: if_splits)
  moreover have "piece_ok rows (target_piece rq ?reuse s (Some e) rows)"
    by (rule target_ok) (use pos reuse in auto)
  ultimately show ?thesis unfolding pieces_ok_def parts by auto
qed

lemma pieces_ok_append:
  assumes "pieces_ok xs ps" "pieces_ok ys qs" "cr_id ` set xs \<inter> cr_id ` set ys = {}"
    and "set xs \<subseteq> set rows" "set ys \<subseteq> set rows"
  shows "pieces_ok rows (ps @ qs)"
proof -
  have "set (ids_of ps) \<inter> set (ids_of qs) = {}"
    using assms(3) ids_of_ok [of ps xs] ids_of_ok [of qs ys] assms(1,2) unfolding pieces_ok_def by blast
  then show ?thesis using assms piece_ok_mono unfolding pieces_ok_def by (auto 4 3)
qed

lemma pieces_ok_untouched: "sources_ok rows \<Longrightarrow> pieces_ok rows (map untouched_piece rows)"
  by (auto simp: pieces_ok_def sources_ok_def intro: untouched_ok)

lemma runs_pieces_ok:
  assumes "sources_ok (concat gs)" and "\<forall>grp \<in> set gs. contiguous grp" and "rq_start rq < fin"
    and "\<forall>r \<in> set (concat gs). cr_start r < fin \<and> ends_after (cr_end r) (rq_start rq)"
  shows "pieces_ok (concat gs) (concat (map (run_pieces rq fin) gs))"
  using assms
proof (induction gs)
  case (Cons g gs)
  have g: "sources_ok g" and rest: "sources_ok (concat gs)" and apart: "cr_id ` set g \<inter> cr_id ` set (concat gs) = {}"
    using Cons.prems(1) by (simp_all add: sources_ok_append)
  have ne: "g \<noteq> []" using Cons.prems(2) by (simp add: contiguous_def)
  have touch: "\<forall>r \<in> set g. cr_start r < fin \<and> ends_after (cr_end r) (rq_start rq)" using Cons.prems(4) by simp
  have "pieces_ok g (run_pieces rq fin g)"
    unfolding run_pieces_surgery by (rule surgery_pieces_ok [OF g ne run_bounds(2) [OF g ne Cons.prems(3) touch]])
  moreover have "pieces_ok (concat gs) (concat (map (run_pieces rq fin) gs))"
    using Cons.IH [OF rest] Cons.prems by simp
  ultimately show ?case using pieces_ok_append [OF _ _ apart] by simp
qed (simp add: pieces_ok_def)

lemma sources_ok_apart:
  assumes "sources_ok sources"
  shows "cr_id ` set (filter P sources) \<inter> cr_id ` set (filter (\<lambda>r. \<not> P r) sources) = {}"
proof -
  have "inj_on cr_id (set sources)" using assms by (simp add: sources_ok_def distinct_map)
  then have "cr_id ` (set (filter P sources) \<inter> set (filter (\<lambda>r. \<not> P r) sources)) =
      cr_id ` set (filter P sources) \<inter> cr_id ` set (filter (\<lambda>r. \<not> P r) sources)"
    by (rule inj_on_image_Int) auto
  moreover have "set (filter P sources) \<inter> set (filter (\<lambda>r. \<not> P r) sources) = {}" by auto
  ultimately show ?thesis by simp
qed

lemma beside_pieces_ok:
  assumes ok: "sources_ok sources" and ps: "pieces_ok (filter P sources) ps"
  shows "pieces_ok sources (map untouched_piece (filter (\<lambda>r. \<not> P r) sources) @ ps)"
proof (rule pieces_ok_append [OF pieces_ok_untouched ps])
  show "sources_ok (filter (\<lambda>r. \<not> P r) sources)" by (rule sources_ok_filter [OF ok])
  show "cr_id ` set (filter (\<lambda>r. \<not> P r) sources) \<inter> cr_id ` set (filter P sources) = {}"
    using sources_ok_apart [OF ok, of P] by (simp add: Int_commute)
qed auto

lemma append_target_ok:
  "pieces_ok rows ps \<Longrightarrow> ends_after e b \<Longrightarrow> pieces_ok rows (ps @ [target_piece rq None b e []])"
  by (auto simp: pieces_ok_def intro: target_ok)

lemma open_pieces_ok:
  assumes ok: "sources_ok rows" and ne: "rows \<noteq> []" and touch: "\<forall>r \<in> set rows. ends_after (cr_end r) s"
    and reuse: "\<And>r. reuse = Some r \<Longrightarrow> r \<in> set rows \<and> cr_id r \<notin> piece_ids (left_remainder s rows)"
    and keys: "set keys \<subseteq> set rows"
  shows "pieces_ok rows (left_remainder s rows @ [target_piece rq reuse s None keys])"
proof -
  have hd: "hd rows \<in> set rows" using ne by simp
  have "\<forall>p \<in> set (left_remainder s rows). piece_ok rows p"
    using hd by (auto simp: left_remainder_def piece_ok_def)
  moreover have "piece_ok rows (target_piece rq reuse s None keys)" by (rule target_ok) (use reuse keys in auto)
  moreover have "distinct (ids_of (left_remainder s rows @ [target_piece rq reuse s None keys]))"
    using reuse by (auto simp: left_remainder_def piece_ids_ids_of split: option.splits)
  ultimately show ?thesis by (auto simp: pieces_ok_def)
qed

lemma closed_pieces_ok:
  assumes ok: "sources_ok sources" and rq: "rq_start rq < fin"
  shows "pieces_ok sources (closed_pieces rq fin sources)"
    and "pieces_ok sources (closed_merge_pieces rq fin sources)"
proof -
  let ?P = "\<lambda>r. cr_start r < fin \<and> ends_after (cr_end r) (rq_start rq)"
  let ?ov = "overlapping (rq_start rq) fin sources"
  have ov: "sources_ok ?ov" unfolding overlapping_def by (rule sources_ok_filter [OF ok])
  have runs: "concat (runs ?ov) = ?ov" "\<forall>grp \<in> set (runs ?ov). contiguous grp" using runs_ok by auto
  have none: "pieces_ok sources (map untouched_piece sources @ [target_piece rq None (rq_start rq) (Some fin) []])"
    by (rule append_target_ok [OF pieces_ok_untouched [OF ok]]) (use rq in simp)
  have touch: "\<forall>r \<in> set ?ov. ?P r" by (simp add: overlapping_iff)
  have rest: "unaffected sources ?ov = filter (\<lambda>r. \<not> ?P r) sources" by (rule unaffected_overlapping [OF ok])
  have "pieces_ok ?ov (concat (map (run_pieces rq fin) (runs ?ov)))"
    using runs_pieces_ok [of "runs ?ov" rq fin] runs ov rq touch by simp
  then have "pieces_ok sources (map untouched_piece (filter (\<lambda>r. \<not> ?P r) sources) @ concat (map (run_pieces rq fin) (runs ?ov)))"
    by (intro beside_pieces_ok [OF ok]) (simp add: overlapping_def)
  then show "pieces_ok sources (closed_pieces rq fin sources)" using none rest by (simp add: closed_pieces_def Let_def)
  have "pieces_ok sources (map untouched_piece (filter (\<lambda>r. \<not> ?P r) sources) @ surgery rq (rq_start rq) fin ?ov)" if "?ov \<noteq> []"
    using surgery_pieces_ok [OF ov that rq] by (intro beside_pieces_ok [OF ok]) (simp add: overlapping_def)
  then show "pieces_ok sources (closed_merge_pieces rq fin sources)" using none rest by (simp add: closed_merge_pieces_def Let_def)
qed

lemma open_variant_ok:
  assumes ok: "sources_ok sources" and ne: "from_onward (rq_start rq) sources \<noteq> []"
    and reuse: "\<And>r. reuse = Some r \<Longrightarrow> r \<in> set (from_onward (rq_start rq) sources) \<and>
        cr_id r \<notin> piece_ids (left_remainder (rq_start rq) (from_onward (rq_start rq) sources))"
    and keys: "set keys \<subseteq> set (from_onward (rq_start rq) sources)"
  shows "pieces_ok sources (map untouched_piece (filter (\<lambda>r. \<not> ends_after (cr_end r) (rq_start rq)) sources)
     @ left_remainder (rq_start rq) (from_onward (rq_start rq) sources)
     @ [target_piece rq reuse (rq_start rq) None keys])"
proof (rule beside_pieces_ok [OF ok])
  show "pieces_ok (filter (\<lambda>r. ends_after (cr_end r) (rq_start rq)) sources)
     (left_remainder (rq_start rq) (from_onward (rq_start rq) sources) @ [target_piece rq reuse (rq_start rq) None keys])"
    unfolding from_onward_def [symmetric]
  proof (rule open_pieces_ok [OF _ ne _ reuse keys])
    show "sources_ok (from_onward (rq_start rq) sources)" unfolding from_onward_def by (rule sources_ok_filter [OF ok])
    show "\<forall>r \<in> set (from_onward (rq_start rq) sources). ends_after (cr_end r) (rq_start rq)" by (simp add: from_onward_def)
  qed
qed

lemma pieces_for_request_ok:
  assumes ok: "sources_ok sources" and pos: "ends_after (rq_end rq) (rq_start rq)"
    and run: "pieces_for_request rq sources = Inr ps"
  shows "pieces_ok sources ps"
proof -
  have keep: "pieces_ok sources (map untouched_piece sources)" by (rule pieces_ok_untouched [OF ok])
  have closed: "pieces_ok sources (closed_pieces rq fin sources)" "pieces_ok sources (closed_merge_pieces rq fin sources)"
    if "rq_end rq = Some fin" for fin
    using closed_pieces_ok [OF ok] pos that by auto
  have opn: "pieces_ok sources (open_pieces rq sources)"
  proof (cases "from_onward (rq_start rq) sources = []")
    case True
    then show ?thesis using append_target_ok [OF keep] by (simp add: open_pieces_def)
  next
    case False
    show ?thesis unfolding open_pieces_def Let_def if_not_P [OF False]
      by (rule open_variant_ok [OF ok False]) (auto simp: find_Some_iff)
  qed
  have mrg: "pieces_ok sources qs" if qs: "open_merge_pieces rq sources = Inr qs" for qs
  proof -
    from qs obtain live where live: "find (\<lambda>r. cr_end r = None) sources = Some live" "\<not> cr_start live < rq_start rq"
      and eq: "qs = map untouched_piece (filter (\<lambda>r. \<not> ends_after (cr_end r) (rq_start rq)) sources)
        @ left_remainder (rq_start rq) (from_onward (rq_start rq) sources)
        @ [target_piece rq (Some live) (rq_start rq) None []]"
      by (auto simp: open_merge_pieces_def Let_def split: option.splits if_splits)
    let ?on = "from_onward (rq_start rq) sources"
    have mem: "live \<in> set ?on" using live by (auto simp: find_Some_iff from_onward_def)
    then have ne: "?on \<noteq> []" by auto
    have "hd ?on \<noteq> live" if "cr_start (hd ?on) < rq_start rq" using that live(2) by auto
    moreover have "inj_on cr_id (set ?on)"
      using sources_ok_filter [OF ok] unfolding from_onward_def by (simp add: sources_ok_def distinct_map inj_on_def)
    ultimately have "cr_id live \<notin> piece_ids (left_remainder (rq_start rq) ?on)"
      using mem inj_onD [of cr_id "set ?on" live "hd ?on"] hd_in_set [OF ne]
      by (auto simp: left_remainder_def piece_ids_ids_of)
    then show ?thesis unfolding eq using open_variant_ok [OF ok ne, of "Some live" "[]"] mem by auto
  qed
  show ?thesis using run keep closed opn mrg
    by (auto simp: pieces_for_request_def merge_pieces_for_request_def split: if_splits option.splits)
qed

end
