(* ===== verification/Correction_Sources.thy ===== *)
theory Correction_Sources
  imports Correction_Rows Correction_Surgery
begin

text \<open>
  What normalisation establishes of a source row, and that it is stable: the values a row stores
  normalise to the same row again.
\<close>

section \<open>Freezing, key by key\<close>

lemma rmap_named_keys: "rmap named_result xs = Inr ys \<Longrightarrow> map fst ys = map fst xs"
  by (induction xs arbitrary: ys) (auto simp: rbind_Inr_iff named_result_def)

lemma rmap_named_lookup:
  "rmap named_result xs = Inr ys \<Longrightarrow> map_of ys k = (case map_of xs k of None \<Rightarrow> None | Some r \<Rightarrow> Some (projr r))"
  by (induction xs arbitrary: ys) (auto simp: rbind_Inr_iff named_result_def)

lemma map_of_map_values: "map_of (map (\<lambda>(k, x). (k, f x)) d) k = map_option f (map_of d k)"
  by (induction d) auto

lemma freeze_lookup:
  assumes "distinct (map fst d)" and "freeze_mapping d = Inr e"
  shows "map_of e k = map_option (\<lambda>v. projr (freeze_value v)) (map_of d k)"
proof -
  let ?items = "map (\<lambda>(k, x). (k, freeze_value x)) d"
  have dist: "distinct (map fst ?items)" using assms(1) by (simp add: case_prod_unfold comp_def)
  have "map_of e k = (case map_of (sort_key fst ?items) k of None \<Rightarrow> None | Some r \<Rightarrow> Some (projr r))"
    by (rule rmap_named_lookup) (use assms(2) in \<open>simp add: freeze_mapping_def frozen_items_def\<close>)
  then show ?thesis
    by (simp add: map_of_sort_key [OF dist] map_of_map_values option.map_comp comp_def split: option.splits)
qed

lemma dict_ok_put [simp]: "key_sorted d \<Longrightarrow> dict_ok d \<Longrightarrow> value_ok v \<Longrightarrow> dict_ok (put k v d)"
proof -
  assume d: "key_sorted d" "dict_ok d" "value_ok v"
  have "snd ` set (put k v d) \<subseteq> insert v (snd ` set d)"
    by (induction k v d rule: put.induct) auto
  then have "\<forall>x \<in> snd ` set (put k v d). value_ok x" using d by (auto simp: dict_ok_def dest!: subsetD)
  then show "dict_ok (put k v d)" using d(1) key_sorted_distinct [OF key_sorted_put] by (simp add: dict_ok_def)
qed

lemma dict_ok_put_all:
  "key_sorted d \<Longrightarrow> dict_ok d \<Longrightarrow> \<forall>(k, v) \<in> set changes. value_ok v \<Longrightarrow> dict_ok (put_all changes d)"
  by (induction changes arbitrary: d) auto

lemma dict_ok_drop [simp]: "dict_ok d \<Longrightarrow> dict_ok (drop_key k d)"
  by (auto simp: dict_ok_def drop_key_def distinct_map_filter)

lemma dict_ok_sort [simp]: "dict_ok (sort_key fst d) \<longleftrightarrow> dict_ok d"
  by (simp add: dict_ok_def)

lemma stored_simps [simp]:
  "frozen (of_time t)" "frozen (of_end e)" "frozen (of_id i)"
  "freeze_value (of_time t) = Inr (of_time t)" "freeze_value (of_end e) = Inr (of_end e)"
  "freeze_value (of_id i) = Inr (of_id i)" "freeze_value (PyInt n) = Inr (PyInt n)"
  by (simp_all add: of_time_def of_end_def of_id_def freeze_value_simps split: option.splits)

lemma checked_simps [simp]:
  "0 < n \<Longrightarrow> checked_positive_int (PyInt n) f = Inr n"
  "checked_utc (of_time t) f = Inr t"
  "checked_optional_utc (of_end e) f = Inr e"
  "(case i of None \<Rightarrow> True | Some n \<Rightarrow> 0 < n) \<Longrightarrow> checked_optional_int (of_id i) f = Inr i"
  by (auto simp: checked_positive_int_def checked_utc_def checked_optional_utc_def checked_optional_int_def
      of_time_def of_end_def of_id_def split: option.splits)

lemma checked_positive_intD: "checked_positive_int v f = Inr n \<Longrightarrow> v = PyInt n \<and> 0 < n"
  by (auto simp: checked_positive_int_def split: pyvalue.splits if_splits)

lemma checked_optional_intD:
  "checked_optional_int v f = Inr i \<Longrightarrow> v = of_id i \<and> (case i of None \<Rightarrow> True | Some n \<Rightarrow> 0 < n)"
  by (auto simp: checked_optional_int_def of_id_def rbind_Inr_iff dest: checked_positive_intD split: if_splits)

lemma checked_utcD: "checked_utc v f = Inr t \<Longrightarrow> v = of_time t"
  by (auto simp: checked_utc_def of_time_def split: pyvalue.splits option.splits if_splits)

lemma checked_optional_utcD: "checked_optional_utc v f = Inr e \<Longrightarrow> v = of_end e"
  by (auto simp: checked_optional_utc_def of_end_def rbind_Inr_iff dest: checked_utcD split: if_splits)

section \<open>Stored rows\<close>

definition stored_row :: "int \<Rightarrow> correction_row \<Rightarrow> bool" where
  "stored_row employee r =
     (cr_employee r = employee \<and> 0 < employee \<and> 0 < cr_id r \<and> ends_after (cr_end r) (cr_start r) \<and>
      (case cr_work_center r of None \<Rightarrow> True | Some n \<Rightarrow> 0 < n) \<and>
      (case cr_department r of None \<Rightarrow> True | Some n \<Rightarrow> 0 < n) \<and>
      frozen_dict (cr_values r) \<and>
      map_of (cr_values r) k_attendance = Some (PyInt (cr_id r)) \<and>
      map_of (cr_values r) k_odoo_write_date = Some (of_time (cr_write_date r)) \<and>
      map_of (cr_values r) k_employee = Some (PyInt employee) \<and>
      map_of (cr_values r) k_check_in = Some (of_time (cr_start r)) \<and>
      map_of (cr_values r) k_check_out = Some (of_end (cr_end r)) \<and>
      map_of (cr_values r) k_work_center = Some (of_id (cr_work_center r)) \<and>
      map_of (cr_values r) k_department = Some (of_id (cr_department r)) \<and>
      map_of (cr_values r) k_id = None \<and> map_of (cr_values r) k_write_date = None \<and>
      field (cr_values r) k_deleted = PyNone \<and>
      check_employee_alias (cr_values r) employee = Inr ())"

lemma normalized_lookup:
  assumes "distinct (map fst raw)"
  shows "map_of (normalized_values raw a w e s f c d) =
    ((map_of raw)(k_id := None, k_write_date := None))(k_attendance \<mapsto> PyInt a, k_odoo_write_date \<mapsto> of_time w,
      k_employee \<mapsto> PyInt e, k_check_in \<mapsto> of_time s, k_check_out \<mapsto> of_end f,
      k_work_center \<mapsto> of_id c, k_department \<mapsto> of_id d)"
  by (simp add: normalized_values_def map_of_sort_key [OF assms])

lemma freeze_member:
  assumes "freeze_mapping d = Inr e" and "(k, v) \<in> set d"
  shows "\<exists>w. freeze_value v = Inr w"
proof -
  have "\<exists>w. r = Inr w" if "rmap named_result xs = Inr ys" "(k, r) \<in> set xs" for xs ys and r :: "pyvalue result"
    using that by (induction xs arbitrary: ys) (auto simp: rbind_Inr_iff named_result_def)
  moreover have "(k, freeze_value v) \<in> set (sort_key fst (map (\<lambda>(k, x). (k, freeze_value x)) d))"
    using assms(2) by force
  ultimately show ?thesis using assms(1) unfolding freeze_mapping_def frozen_items_def by blast
qed

lemma freeze_lookup_Some:
  assumes "distinct (map fst d)" and "freeze_mapping d = Inr e" and "map_of d k = Some v"
  shows "\<exists>w. freeze_value v = Inr w \<and> map_of e k = Some w"
  using freeze_lookup [OF assms(1,2), of k] freeze_member [OF assms(2) map_of_SomeD [OF assms(3)]] assms(3)
  by auto

lemma alias_frozen:
  assumes check: "check_employee_alias raw e = Inr ()"
    and none: "map_of raw k_employee_alias = None \<Longrightarrow> map_of vals k_employee_alias = None"
    and some: "\<And>v. map_of raw k_employee_alias = Some v \<Longrightarrow>
      \<exists>w. freeze_value v = Inr w \<and> map_of vals k_employee_alias = Some w"
  shows "check_employee_alias vals e = Inr ()"
proof (cases "map_of raw k_employee_alias")
  case None
  then show ?thesis using none by (simp add: check_employee_alias_def has_def)
next
  case (Some v)
  from check Some have x: "alias_employee v = Inr (PyInt e)" "0 < e"
    unfolding check_employee_alias_def
    by (auto simp: has_def field_def rbind_Inr_iff guard_error_def dest!: checked_positive_intD split: if_splits)
  from some [OF Some] obtain w where w: "freeze_value v = Inr w" "map_of vals k_employee_alias = Some w" by blast
  have "alias_employee w = Inr (PyInt e)"
    using x w(1) by (cases v)
      (auto simp: alias_employee_def freeze_value_simps freeze_value.simps freeze_datetime_def rbind_Inr_iff
        split: list.splits option.splits if_splits)
  then show ?thesis using x(2) w(2) by (simp add: check_employee_alias_def has_def field_def)
qed

lemma normalize_source_rowE:
  assumes "normalize_source_row (PyMap raw) employee = Inr r"
  obtains attendance written start fin wc dept vals where
    "filter (\<lambda>k. \<not> has raw k) source_required = []"
    "row_identity raw = Inr attendance" "row_version raw = Inr written"
    "checked_positive_int (field raw k_employee) k_employee = Inr employee"
    "check_employee_alias raw employee = Inr ()"
    "checked_utc (field raw k_check_in) k_check_in = Inr start"
    "checked_optional_utc (field raw k_check_out) k_check_out = Inr fin"
    "ends_after fin start"
    "checked_optional_int (field raw k_work_center) k_work_center = Inr wc"
    "checked_optional_int (field raw k_department) k_department = Inr dept"
    "field raw k_deleted = PyNone"
    "freeze_mapping (normalized_values raw attendance written employee start fin wc dept) = Inr vals"
    "r = \<lparr>cr_id = attendance, cr_employee = employee, cr_start = start, cr_end = fin,
          cr_work_center = wc, cr_department = dept, cr_write_date = written, cr_values = vals\<rparr>"
proof -
  have miss: "filter (\<lambda>k. \<not> has raw k) source_required = []"
    using assms unfolding normalize_source_row_def
    by (cases "filter (\<lambda>k. \<not> has raw k) source_required = []") (simp_all add: Let_def)
  show ?thesis
    using assms unfolding normalize_source_row_def pyvalue.case Let_def miss
    apply (simp only: simp_thms if_False)
    apply (elim rbind_InrE)
    apply (simp only: guard_error_Inr sum.inject not_not)
    apply (rule that [OF miss]; simp)
    apply (erule sym)
    done
qed

lemma row_identity_positive: "row_identity raw = Inr a \<Longrightarrow> 0 < a"
  by (auto simp: row_identity_def rbind_Inr_iff dest: checked_positive_intD)

lemma normalized_stored:
  assumes run: "normalize_source_row (PyMap raw) employee = Inr r" and ok: "dict_ok raw"
  shows "stored_row employee r"
proof -
  from run obtain attendance written start fin wc dept vals where
    id: "row_identity raw = Inr attendance" and emp: "checked_positive_int (field raw k_employee) k_employee = Inr employee"
    and aliased: "check_employee_alias raw employee = Inr ()" and pos: "ends_after fin start"
    and wc: "checked_optional_int (field raw k_work_center) k_work_center = Inr wc"
    and dept: "checked_optional_int (field raw k_department) k_department = Inr dept"
    and del: "field raw k_deleted = PyNone"
    and vals: "freeze_mapping (normalized_values raw attendance written employee start fin wc dept) = Inr vals"
    and r: "r = \<lparr>cr_id = attendance, cr_employee = employee, cr_start = start, cr_end = fin,
          cr_work_center = wc, cr_department = dept, cr_write_date = written, cr_values = vals\<rparr>"
    by (rule normalize_source_rowE)
  let ?nv = "normalized_values raw attendance written employee start fin wc dept"
  have dist: "distinct (map fst raw)" using ok by (simp add: dict_ok_def)
  have sorted: "key_sorted ?nv" unfolding normalized_values_def using key_sorted_sort [OF dist] by simp
  have "dict_ok ?nv"
    unfolding normalized_values_def
    by (rule dict_ok_put_all) (use key_sorted_sort [OF dist] ok in \<open>auto simp: of_time_def of_end_def of_id_def value_ok.simps split: option.splits\<close>)
  then have frozen: "frozen_dict vals" using vals by (rule freeze_mapping_frozen)
  have distv: "distinct (map fst ?nv)" using sorted by (rule key_sorted_distinct)
  note look = freeze_lookup [OF distv vals] normalized_lookup [OF dist]
  have "check_employee_alias vals employee = Inr ()"
    by (rule alias_frozen [OF aliased])
      (use freeze_lookup_Some [OF distv vals, of k_employee_alias] look in \<open>auto simp: normalized_lookup [OF dist]\<close>)
  moreover have "field vals k_deleted = PyNone"
    using del by (auto simp: field_def look freeze_value_simps split: option.splits)
  ultimately show ?thesis
    using row_identity_positive [OF id] checked_positive_intD [OF emp] pos frozen
      checked_optional_intD [OF wc] checked_optional_intD [OF dept]
    by (simp add: stored_row_def r look)
qed

text \<open>A stored row normalises to itself.\<close>

lemma stored_identity: "stored_row e r \<Longrightarrow> row_identity (cr_values r) = Inr (cr_id r)"
  by (simp add: stored_row_def row_identity_def aliased_required_def has_def field_def)

lemma stored_version: "stored_row e r \<Longrightarrow> row_version (cr_values r) = Inr (cr_write_date r)"
  by (simp add: stored_row_def row_version_def aliased_required_def has_def field_def)

lemma stored_values:
  assumes "stored_row e r"
  shows "freeze_mapping (normalized_values (cr_values r) (cr_id r) (cr_write_date r) e (cr_start r) (cr_end r)
      (cr_work_center r) (cr_department r)) = Inr (cr_values r)"
proof -
  let ?nv = "normalized_values (cr_values r) (cr_id r) (cr_write_date r) e (cr_start r) (cr_end r)
      (cr_work_center r) (cr_department r)"
  have fr: "frozen_dict (cr_values r)" using assms by (simp add: stored_row_def)
  then have dist: "distinct (map fst (cr_values r))" by (simp add: frozen_dict_def key_sorted_distinct)
  have "sort_key fst (cr_values r) = cr_values r"
    using fr by (intro sort_key_id_if_sorted) (simp add: frozen_dict_def key_sorted_def strict_sorted_iff)
  then have "frozen_dict ?nv" using fr by (simp add: normalized_values_def)
  moreover have "map_of ?nv = map_of (cr_values r)"
    unfolding normalized_lookup [OF dist] using assms by (auto simp: stored_row_def fun_eq_iff)
  ultimately have "?nv = cr_values r" using fr by (intro frozen_dict_ext)
  then show ?thesis using freeze_frozen_mapping [OF fr] by simp
qed

lemma stored_normalizes:
  assumes "stored_row employee r"
  shows "normalize_source_row (PyMap (cr_values r)) employee = Inr r"
proof -
  note s = assms [unfolded stored_row_def]
  have miss: "filter (\<lambda>k. \<not> has (cr_values r) k) source_required = []"
    using s by (simp add: source_required_def has_def)
  have fields: "field (cr_values r) k_employee = PyInt employee" "field (cr_values r) k_check_in = of_time (cr_start r)"
    "field (cr_values r) k_check_out = of_end (cr_end r)" "field (cr_values r) k_work_center = of_id (cr_work_center r)"
    "field (cr_values r) k_department = of_id (cr_department r)" "field (cr_values r) k_deleted = PyNone"
    using s by (simp_all add: field_def)
  show ?thesis
    unfolding normalize_source_row_def pyvalue.case Let_def miss
    using s stored_identity [OF assms] stored_version [OF assms] stored_values [OF assms]
    by (simp add: fields)
qed

section \<open>Snapshots\<close>

lemma check_sources_ok:
  "check_sources rows seen prev = Inr () \<Longrightarrow>
     distinct (map cr_id rows) \<and> cr_id ` set rows \<inter> seen = {} \<and>
     successively before rows \<and> (case prev of None \<Rightarrow> True | Some p \<Rightarrow> rows = [] \<or> before p (hd rows))"
proof (induction rows arbitrary: seen prev)
  case (Cons r rows)
  from Cons.prems have r: "cr_id r \<notin> seen" "check_sources rows (insert (cr_id r) seen) (Some r) = Inr ()"
    "case prev of None \<Rightarrow> True | Some p \<Rightarrow> before p r"
    by (auto simp: before_def ends_after_def not_less split: if_splits option.splits)
  from Cons.IH [OF r(2)] show ?case using r(1,3) by (cases rows) (auto simp: successively_Cons split: option.splits)
qed (simp split: option.splits)

lemma successively_before:
  assumes "successively before rows" and "\<forall>r \<in> set rows. ends_after (cr_end r) (cr_start r)"
  shows "sorted_wrt before rows"
proof -
  have "before a c" if "before a b" "before b c" "b \<in> set rows" for a b c
    using that assms(2) by (fastforce simp: before_def split: option.splits)
  then show ?thesis using assms(1) successively_iff_sorted_wrt_strong [of rows before] by blast
qed

lemma rmap_stored:
  "rmap (\<lambda>row. normalize_source_row row e) rows = Inr out \<Longrightarrow> \<forall>v \<in> set rows. value_ok v \<Longrightarrow>
     \<forall>r \<in> set out. stored_row e r"
proof (induction rows arbitrary: out)
  case (Cons v rows)
  from Cons.prems(1) obtain r rs where r: "normalize_source_row v e = Inr r"
    "rmap (\<lambda>row. normalize_source_row row e) rows = Inr rs" "out = r # rs"
    by (auto simp: rbind_Inr_iff)
  obtain raw where "v = PyMap raw" using r(1) by (cases v) (auto simp: normalize_source_row_def)
  then have "stored_row e r" using normalized_stored r(1) Cons.prems(2) by simp
  then show ?case using Cons.IH [OF r(2)] Cons.prems(2) r(3) by simp
qed simp

lemma normalized_rows:
  assumes run: "normalize_source_rows rows e = Inr sources" and ok: "\<forall>v \<in> set rows. value_ok v"
  shows "sources_ok sources \<and> (\<forall>r \<in> set sources. stored_row e r)
    \<and> sorted (map (\<lambda>r. (cr_start r, cr_id r)) sources)"
proof -
  from run obtain normalized where n: "rmap (\<lambda>row. normalize_source_row row e) rows = Inr normalized"
    and s: "sources = sort_key (\<lambda>r. (cr_start r, cr_id r)) normalized"
    and check: "check_sources sources {} None = Inr ()"
    by (auto simp: normalize_source_rows_def rbind_Inr_iff Let_def)
  have stored: "\<forall>r \<in> set sources. stored_row e r" using rmap_stored [OF n ok] by (simp add: s)
  then have pos: "\<forall>r \<in> set sources. ends_after (cr_end r) (cr_start r)" by (simp add: stored_row_def)
  from check_sources_ok [OF check] have "distinct (map cr_id sources)" "successively before sources" by auto
  then have "sources_ok sources" using pos successively_before [OF _ pos] by (simp add: sources_ok_def)
  then show ?thesis using stored by (simp add: s)
qed

lemma check_sources_pass:
  "distinct (map cr_id rows) \<Longrightarrow> cr_id ` set rows \<inter> seen = {} \<Longrightarrow> sorted_wrt before rows \<Longrightarrow>
     (case prev of None \<Rightarrow> True | Some p \<Rightarrow> \<forall>r \<in> set rows. before p r) \<Longrightarrow>
     check_sources rows seen prev = Inr ()"
proof (induction rows arbitrary: seen prev)
  case (Cons r rows)
  have "\<not> (case prev of None \<Rightarrow> False | Some p \<Rightarrow> ends_after (cr_end p) (cr_start r))"
    using Cons.prems(4) by (auto simp: before_def ends_after_def split: option.splits)
  then show ?case using Cons by auto
qed simp

lemma stored_snapshot:
  assumes ok: "sources_ok sources" and stored: "\<forall>r \<in> set sources. stored_row e r"
    and sorted: "sorted (map (\<lambda>r. (cr_start r, cr_id r)) sources)"
  shows "normalize_source_rows (map (\<lambda>r. PyMap (cr_values r)) sources) e = Inr sources"
proof -
  have "rmap (\<lambda>row. normalize_source_row row e) (map (\<lambda>r. PyMap (cr_values r)) rs) = Inr rs"
    if "set rs \<subseteq> set sources" for rs
    using that stored stored_normalizes by (induction rs) auto
  then have run: "rmap (\<lambda>row. normalize_source_row row e) (map (\<lambda>r. PyMap (cr_values r)) sources) = Inr sources"
    by blast
  have "sort_key (\<lambda>r. (cr_start r, cr_id r)) sources = sources" by (rule sort_key_id_if_sorted [OF sorted])
  moreover have "check_sources sources {} None = Inr ()"
    by (rule check_sources_pass) (use ok in \<open>auto simp: sources_ok_def\<close>)
  ultimately show ?thesis unfolding normalize_source_rows_def run by simp
qed

end
