(* ===== verification/Correction_Keys.thy ===== *)
theory Correction_Keys
  imports Correction_Plan Correction_Sources
begin

text \<open>
  Operation keys: the source token reads back as the ids it was written from, every planned key has
  the canonical form, and different operations have different identities.
\<close>

section \<open>Decimal text of ids\<close>

lemma show_nat_rec: "show_nat n = (if n < 10 then [digit n] else show_nat (n div 10) @ [digit (n mod 10)])"
  by (subst show_nat.simps) (simp add: digit_def)

lemma read_show_nat: "read_nat (show_nat n) = n"
proof (induction n rule: show_nat.induct)
  case (1 n)
  then show ?case by (subst show_nat_rec) (simp add: read_nat_snoc, simp add: read_nat_def)
qed

lemma show_nat_digits: "show_nat n \<noteq> [] \<and> list_all is_digit (show_nat n)"
proof (induction n rule: show_nat.induct)
  case (1 n)
  then show ?case by (subst (1 2) show_nat_rec) simp
qed

lemma show_nat_head: "0 < n \<Longrightarrow> hd (show_nat n) \<noteq> CHR ''0''"
proof (induction n rule: show_nat.induct)
  case (1 n)
  show ?case
  proof (cases "n < 10")
    case True
    have "digit n \<noteq> digit 0"
    proof
      assume "digit n = digit 0"
      then have "digit_value (digit n) = digit_value (digit 0)" by simp
      then show False using True 1(2) by simp
    qed
    moreover have "digit 0 = CHR ''0''" by code_simp
    ultimately show ?thesis using True by (simp add: show_nat_rec [of n])
  next
    case False
    then have "hd (show_nat (n div 10)) \<noteq> CHR ''0''" using 1 by simp
    then show ?thesis using False show_nat_digits [of "n div 10"] by (simp add: show_nat_rec [of n])
  qed
qed

lemma digit_apart: "is_digit c \<Longrightarrow> c \<noteq> CHR '',''" "is_digit c \<Longrightarrow> c \<noteq> CHR '':''"
  by (auto simp: is_digit_def)

lemma show_int_facts:
  assumes "0 < i"
  shows "is_source_id (show_int i)" "int (read_nat (show_int i)) = i"
    "CHR '','' \<notin> set (show_int i)" "CHR '':'' \<notin> set (show_int i)"
proof -
  have s: "show_int i = show_nat (nat i)" using assms by (simp add: show_int_def)
  have d: "list_all is_digit (show_int i)" "show_int i \<noteq> []" using show_nat_digits by (simp_all add: s)
  show "is_source_id (show_int i)" using d show_nat_head [of "nat i"] assms by (simp add: is_source_id_def s)
  show "int (read_nat (show_int i)) = i" using assms by (simp add: s read_show_nat)
  show "CHR '','' \<notin> set (show_int i)" "CHR '':'' \<notin> set (show_int i)"
    using d(1) digit_apart by (auto simp: list_all_iff)
qed

lemma split_commas_word: "CHR '','' \<notin> set s \<Longrightarrow> split_commas word s = [word @ s]"
  by (induction s arbitrary: word) auto

lemma split_commas_comma:
  "CHR '','' \<notin> set s \<Longrightarrow> split_commas word (s @ CHR '','' # rest) = (word @ s) # split_commas [] rest"
  by (induction s arbitrary: word) auto

lemma split_join_ids:
  "ids \<noteq> [] \<Longrightarrow> \<forall>i \<in> set ids. 0 < i \<Longrightarrow> split_commas [] (join_ids ids) = map show_int ids"
proof (induction ids rule: join_ids.induct)
  case (2 i)
  then show ?case using show_int_facts(3) [of i] by (simp add: split_commas_word)
next
  case (3 i j ids)
  then show ?case using show_int_facts(3) [of i] by (simp add: split_commas_comma)
qed simp

lemma join_ids_chars: "\<forall>i \<in> set ids. 0 < i \<Longrightarrow> CHR '':'' \<notin> set (join_ids ids)"
  by (induction ids rule: join_ids.induct) (use show_int_facts(4) in auto)

lemma join_ids_not_zero:
  assumes "ids \<noteq> []" "\<forall>i \<in> set ids. 0 < i"
  shows "join_ids ids \<noteq> ''0''"
proof
  assume eq: "join_ids ids = ''0''"
  have "split_commas [] (join_ids ids) = [''0'']" by (simp add: eq)
  then have "map show_int ids = [''0'']" using split_join_ids [OF assms] by simp
  then obtain i where "ids = [i]" "show_int i = ''0''" by (cases ids) auto
  then show False using show_int_facts(1) [of i] assms by (simp add: is_source_id_def)
qed

lemma source_token_facts:
  assumes "\<forall>r \<in> set sources. 0 < cr_id r"
  shows "CHR '':'' \<notin> set (source_token sources)"
    "source_token sources = ''0'' \<or> list_all is_source_id (split_commas [] (source_token sources))"
    "token_ids (source_token sources) = map cr_id sources"
proof -
  have pos: "\<forall>i \<in> set (map cr_id sources). 0 < i" using assms by simp
  show "CHR '':'' \<notin> set (source_token sources)" using join_ids_chars [OF pos] by (simp add: source_token_def)
  have ids: "split_commas [] (source_token sources) = map show_int (map cr_id sources)" if "sources \<noteq> []"
    using split_join_ids [OF _ pos] that by (simp add: source_token_def)
  show "source_token sources = ''0'' \<or> list_all is_source_id (split_commas [] (source_token sources))"
    using ids show_int_facts(1) assms by (cases "sources = []") (auto simp: source_token_def list_all_iff)
  show "token_ids (source_token sources) = map cr_id sources"
  proof (cases "sources = []")
    case False
    have "source_token sources \<noteq> ''0''" using join_ids_not_zero [OF _ pos] False by (simp add: source_token_def)
    then show ?thesis using ids [OF False] show_int_facts(2) assms by (simp add: token_ids_def)
  qed (simp add: source_token_def token_ids_def)
qed

text \<open>What the planner relies on of the digest: 64 hexadecimal digits.\<close>

definition hex_digest :: "(pyvalue \<Rightarrow> string) \<Rightarrow> bool" where
  "hex_digest digest = (\<forall>v. length (digest v) = 64 \<and> list_all is_hex (digest v))"

lemma key_token_key:
  assumes "\<forall>r \<in> set sources. 0 < cr_id r" and "hex_digest digest"
  shows "key_token (key_prefix @ source_token sources @ '':'' @ digest v) = Some (source_token sources)"
proof -
  have "\<forall>c \<in> set (source_token sources). c \<noteq> CHR '':''" using source_token_facts(1) [OF assms(1)] by metis
  then have "takeWhile (\<lambda>c. c \<noteq> CHR '':'') (source_token sources @ CHR '':'' # digest v) = source_token sources"
    by (simp add: takeWhile_append2)
  then show ?thesis using source_token_facts(2) [OF assms(1)] assms(2)
    by (simp add: key_token_def Let_def hex_digest_def)
qed

section \<open>Identities\<close>

function utc_only :: "pyvalue \<Rightarrow> bool" where
  "utc_only v =
     (case v of
        PyDatetime t z \<Rightarrow> z = Some 0
      | PyMap d \<Rightarrow> (\<forall>(k, x) \<in> set d. utc_only x)
      | PyList xs \<Rightarrow> (\<forall>x \<in> set xs. utc_only x)
      | PyTuple xs \<Rightarrow> (\<forall>x \<in> set xs. utc_only x)
      | _ \<Rightarrow> True)"
  by pat_completeness auto
termination
proof (relation "measure size", goal_cases)
  case 1
  then show ?case by simp
next
  case 2
  then show ?case by (fastforce simp: less_Suc_eq_le size_prod_simp intro: size_list_estimation')
qed (auto simp: less_Suc_eq_le intro: le_imp_less_Suc size_list_estimation')

declare utc_only.simps [simp del]

lemma utc_only_simps [simp]:
  "utc_only (PyMap d) \<longleftrightarrow> (\<forall>(k, x) \<in> set d. utc_only x)"
  "utc_only (PyList xs) \<longleftrightarrow> (\<forall>x \<in> set xs. utc_only x)"
  "utc_only (PyTuple xs) \<longleftrightarrow> (\<forall>x \<in> set xs. utc_only x)"
  "utc_only (PyInt n)" "utc_only (PyStr s)" "utc_only PyNone" "utc_only (PyBool b)"
  "utc_only (of_time t)" "utc_only (of_end e)" "utc_only (of_id i)"
  by (auto simp: utc_only.simps [of "PyMap d"] utc_only.simps [of "PyList xs"] utc_only.simps [of "PyTuple xs"]
      utc_only.simps [of "PyInt n"] utc_only.simps [of "PyDatetime t z" for t z] utc_only.simps
      of_time_def of_end_def of_id_def split: option.splits)

lemma key_value_simps:
  "operation_key_value (PyMap d) = rbind (frozen_items (map (\<lambda>(k, x). (k, operation_key_value x)) d)) (\<lambda>d'. Inr (PyMap d'))"
  "operation_key_value (of_time t) = Inr (PyStr (utc_text t))"
  "operation_key_value PyNone = Inr PyNone" "operation_key_value (PyInt n) = Inr (PyInt n)"
  "operation_key_value (PyStr s) = Inr (PyStr s)"
  by (simp_all add: operation_key_value.simps [of "PyMap d"] operation_key_value.simps of_time_def checked_utc_def)

lemma rmap_total: "\<forall>x \<in> set xs. \<exists>y. f x = Inr y \<Longrightarrow> \<exists>ys. rmap f xs = Inr ys"
  by (induction xs) auto

lemma key_value_total: "utc_only v \<Longrightarrow> \<exists>w. operation_key_value v = Inr w"
proof (induction v)
  case (PyDatetime t z)
  then show ?case by (auto simp: utc_only.simps operation_key_value.simps checked_utc_def)
next
  case (PyMap d)
  have "\<forall>kr \<in> set (sort_key fst (map (\<lambda>(k, x). (k, operation_key_value x)) d)). \<exists>y. named_result kr = Inr y"
    using PyMap by (fastforce simp: named_result_def)
  from rmap_total [OF this] show ?case by (auto simp: key_value_simps frozen_items_def)
next
  case (PyList xs)
  have "\<exists>ys. rmap (\<lambda>r. r) (map operation_key_value xs) = Inr ys" by (rule rmap_total) (use PyList in auto)
  then show ?case by (auto simp: operation_key_value.simps [of "PyList xs"])
next
  case (PyTuple xs)
  have "\<exists>ys. rmap (\<lambda>r. r) (map operation_key_value xs) = Inr ys" by (rule rmap_total) (use PyTuple in auto)
  then show ?case by (auto simp: operation_key_value.simps [of "PyTuple xs"])
qed (simp_all add: operation_key_value.simps)

text \<open>The converted mapping, key by key.\<close>

lemma key_value_lookup:
  assumes "distinct (map fst d)" and "operation_key_value (PyMap d) = Inr (PyMap e)"
  shows "map_of e k = map_option (\<lambda>v. projr (operation_key_value v)) (map_of d k)"
proof -
  let ?items = "map (\<lambda>(k, x). (k, operation_key_value x)) d"
  have dist: "distinct (map fst ?items)" using assms(1) by (simp add: case_prod_unfold comp_def)
  have "rmap named_result (sort_key fst ?items) = Inr e"
    using assms(2) by (auto simp: key_value_simps frozen_items_def rbind_Inr_iff)
  from rmap_named_lookup [OF this, of k] show ?thesis
    by (simp add: map_of_sort_key [OF dist] map_of_map_values option.map_comp comp_def split: option.splits)
qed

lemma key_value_map: "operation_key_value (PyMap d) = Inr w \<Longrightarrow> \<exists>e. w = PyMap e"
  by (auto simp: key_value_simps rbind_Inr_iff)

lemma key_value_differs:
  assumes "distinct (map fst d)" "distinct (map fst d')"
    and "operation_key_value (PyMap d) = Inr w" "operation_key_value (PyMap d') = Inr w'"
    and "map_option (\<lambda>v. projr (operation_key_value v)) (map_of d k)
      \<noteq> map_option (\<lambda>v. projr (operation_key_value v)) (map_of d' k)"
  shows "w \<noteq> w'"
proof -
  obtain e e' where "w = PyMap e" "w' = PyMap e'" using key_value_map assms(3,4) by blast
  then show ?thesis
    using key_value_lookup [OF assms(1), of e k] key_value_lookup [OF assms(2), of e' k] assms(3,4,5) by auto
qed

end
