(* ===== verification/Correction_Planning.thy ===== *)
theory Correction_Planning
  imports Correction_Keys
begin

text \<open>
  Planning never trips over its own checks: every operation of a planned correction is well-formed
  and authenticated, writing the operations to the source rows yields the expected intervals, and
  the plan passes the validation it is constructed with.
\<close>

section \<open>The mutable values\<close>

definition place_ok :: "int option \<Rightarrow> bool" where
  "place_ok i = (case i of None \<Rightarrow> True | Some n \<Rightarrow> 0 < n)"

lemma map_of_mutable:
  "map_of (mutable_values e s f wc dept) =
     [k_check_in \<mapsto> of_time s, k_check_out \<mapsto> of_end f, k_employee \<mapsto> PyInt e,
      k_department \<mapsto> of_id dept, k_work_center \<mapsto> of_id wc]"
  by (auto simp: mutable_values_def fun_eq_iff)

lemma keys_mutable: "map fst (mutable_values e s f wc dept) = [k_check_in, k_check_out, k_employee, k_department, k_work_center]"
  by (simp add: mutable_values_def)

lemma distinct_mutable [simp]: "distinct (map fst (mutable_values e s f wc dept))"
  by (simp add: keys_mutable)

lemma frozen_mutable [simp]: "frozen_dict (mutable_values e s f wc dept)"
  by (simp add: frozen_dict_def key_sorted_def mutable_values_def)

lemma field_mutable [simp]:
  "field (mutable_values e s f wc dept) k_check_in = of_time s"
  "field (mutable_values e s f wc dept) k_check_out = of_end f"
  "field (mutable_values e s f wc dept) k_employee = PyInt e"
  "field (mutable_values e s f wc dept) k_department = of_id dept"
  "field (mutable_values e s f wc dept) k_work_center = of_id wc"
  by (simp_all add: field_def map_of_mutable)

lemma lookup_select: "map_of (select_fields names d) k = (if k \<in> set names then map_of d k else None)"
  using map_of_filter_keys [of "\<lambda>k. k \<in> set names" d] by (simp add: select_fields_def)

lemma set_mutable_fields: "set mutable_fields = {k_employee, k_check_in, k_check_out, k_work_center, k_department}"
  by (simp add: mutable_fields_def)

lemma keys_select: "fst ` set (select_fields names d) = set names \<inter> fst ` set d"
  by (auto simp: select_fields_def image_iff)

lemma keys_mutable_set: "fst ` set (mutable_values e s f wc dept) = set mutable_fields"
  unfolding set_map [symmetric] keys_mutable by (auto simp: set_mutable_fields)

lemma require_simps [simp]: "require ok m = Inr () \<longleftrightarrow> ok" "ok \<Longrightarrow> require ok m = Inr ()"
  by (simp_all add: require_def guard_error_def)

lemma when_has_pass: "(\<And>v. map_of d k = Some v \<Longrightarrow> \<exists>x. check v = Inr x) \<Longrightarrow> when_has d k check = Inr ()"
  by (cases "map_of d k") (auto simp: when_has_def has_def field_def)

text \<open>Any part of mutable values passes; a full mapping passes with every field required.\<close>

lemma validate_part:
  assumes sub: "\<And>k. k \<in> fst ` set d \<Longrightarrow> k \<in> set mutable_fields"
    and vals: "\<And>k v. map_of d k = Some v \<Longrightarrow> map_of (mutable_values e s f wc dept) k = Some v"
    and all: "full \<Longrightarrow> \<forall>k \<in> set mutable_fields. has d k"
    and e: "0 < e" and wc: "place_ok wc" and dept: "place_ok dept" and pos: "ends_after f s"
  shows "validate_mutable_mapping d full context = Inr ()"
proof -
  have none: "sort (filter (\<lambda>k. k \<notin> set mutable_fields) (map fst d)) = []"
    using sub by (auto simp: filter_empty_conv sort_key_simps(1) simp flip: set_empty)
  have emp: "v = PyInt e" if "map_of d k_employee = Some v" for v using vals [OF that] by (simp add: map_of_mutable)
  have cin: "v = of_time s" if "map_of d k_check_in = Some v" for v using vals [OF that] by (simp add: map_of_mutable)
  have cout: "v = of_end f" if "map_of d k_check_out = Some v" for v using vals [OF that] by (simp add: map_of_mutable)
  have w: "v = of_id wc" if "map_of d k_work_center = Some v" for v using vals [OF that] by (simp add: map_of_mutable)
  have dp: "v = of_id dept" if "map_of d k_department = Some v" for v using vals [OF that] by (simp add: map_of_mutable)
  have 1: "when_has d k_employee (\<lambda>v. checked_positive_int v k_employee) = Inr ()"
    by (rule when_has_pass) (use emp e in force)
  have 2: "when_has d k_check_in (\<lambda>v. checked_utc v k_check_in) = Inr ()"
    by (rule when_has_pass) (use cin in force)
  have 3: "when_has d k_check_out (\<lambda>v. checked_optional_utc v k_check_out) = Inr ()"
    by (rule when_has_pass) (use cout in force)
  have 4: "when_has d k_work_center (\<lambda>v. checked_optional_int v k_work_center) = Inr ()"
    by (rule when_has_pass) (use w wc in \<open>force simp: place_ok_def\<close>)
  have 5: "when_has d k_department (\<lambda>v. checked_optional_int v k_department) = Inr ()"
    by (rule when_has_pass) (use dp dept in \<open>force simp: place_ok_def\<close>)
  have 6: "field d k_check_in = of_time s" if "has d k_check_in" using cin that by (auto simp: has_def field_def)
  have 7: "field d k_check_out = of_end f" if "has d k_check_out" using cout that by (auto simp: has_def field_def)
  have all': "full \<longrightarrow> (\<forall>k \<in> set mutable_fields. has d k)" using all by blast
  show ?thesis
    unfolding validate_mutable_mapping_def Let_def none
    using 1 2 3 4 5 6 7 all' pos by simp
qed

lemma validate_full:
  assumes "0 < e" "place_ok wc" "place_ok dept" "ends_after f s"
  shows "validate_mutable_mapping (mutable_values e s f wc dept) True context = Inr ()"
proof (rule validate_part [of _ e s f wc dept])
  show "k \<in> fst ` set (mutable_values e s f wc dept) \<Longrightarrow> k \<in> set mutable_fields" for k
    by (simp add: keys_mutable_set)
  show "\<forall>k \<in> set mutable_fields. has (mutable_values e s f wc dept) k"
    by (simp add: set_mutable_fields has_def map_of_mutable)
qed (use assms in auto)

lemma validate_select:
  assumes "0 < e" "place_ok wc" "place_ok dept" "ends_after f s"
  shows "validate_mutable_mapping (select_fields names (mutable_values e s f wc dept)) False context = Inr ()"
proof (rule validate_part [of _ e s f wc dept])
  show "k \<in> fst ` set (select_fields names (mutable_values e s f wc dept)) \<Longrightarrow> k \<in> set mutable_fields" for k
    by (simp add: keys_select keys_mutable_set)
  show "map_of (select_fields names (mutable_values e s f wc dept)) k = Some v \<Longrightarrow>
      map_of (mutable_values e s f wc dept) k = Some v" for k v
    by (simp add: lookup_select split: if_splits)
qed (use assms in auto)

section \<open>A planned correction\<close>

definition planning :: "int \<Rightarrow> request \<Rightarrow> correction_row list \<Rightarrow> piece list \<Rightarrow> bool" where
  "planning e rq sources pieces =
     (0 < e \<and> 0 < rq_work_center rq \<and> place_ok (rq_department rq) \<and> ends_after (rq_end rq) (rq_start rq) \<and>
      sources_ok sources \<and> (\<forall>r \<in> set sources. stored_row e r) \<and>
      sorted (map (\<lambda>r. (cr_start r, cr_id r)) sources) \<and> pieces_for_request rq sources = Inr pieces)"

lemma stored_rowD:
  assumes "stored_row e r"
  shows "cr_employee r = e" "0 < cr_id r" "ends_after (cr_end r) (cr_start r)"
    "place_ok (cr_work_center r)" "place_ok (cr_department r)" "frozen_dict (cr_values r)"
    "map_of (cr_values r) k_id = None" "map_of (cr_values r) k_write_date = None"
  using assms by (simp_all add: stored_row_def place_ok_def)

lemma planningD:
  assumes "planning e rq sources pieces"
  shows "0 < e" "sources_ok sources" "\<And>r. r \<in> set sources \<Longrightarrow> stored_row e r" "pieces_ok sources pieces"
    "\<And>t. pieces_at pieces t = requested_at rq sources t" "ends_after (rq_end rq) (rq_start rq)"
  using assms pieces_for_request_ok pieces_for_request_at by (auto simp: planning_def)

lemma planned_piece:
  assumes pl: "planning e rq sources pieces" and p: "p \<in> set pieces"
  shows "ends_after (pc_end p) (pc_start p)" "place_ok (pc_work_center p)" "place_ok (pc_department p)"
    "set (pc_key_sources p) \<subseteq> set sources"
proof -
  have ok: "piece_ok sources p" using planningD(4) [OF pl] p by (simp add: pieces_ok_def)
  then show pos: "ends_after (pc_end p) (pc_start p)" and "set (pc_key_sources p) \<subseteq> set sources" by (simp_all add: piece_ok_def)
  have "p \<in> set (filter (\<lambda>p. piece_covers p (pc_start p')) pieces)" if "p' = p" for p'
    using p pos that by (simp add: piece_covers_def)
  then have "piece_place p \<in> set (pieces_at pieces (pc_start p))" unfolding pieces_at_def by auto
  then have "piece_place p \<in> set (requested_at rq sources (pc_start p))" by (simp add: planningD(5) [OF pl])
  then have "piece_place p = target_place rq \<or> (\<exists>r \<in> set sources. piece_place p = row_place r)"
    by (auto simp: requested_at_def rows_at_def split: if_splits)
  then have "place_ok (pc_work_center p) \<and> place_ok (pc_department p)"
  proof
    assume "piece_place p = target_place rq"
    then show ?thesis using pl by (simp add: planning_def piece_place_def target_place_def place_ok_def)
  next
    assume "\<exists>r \<in> set sources. piece_place p = row_place r"
    then obtain r where r: "r \<in> set sources" "piece_place p = row_place r" by (elim bexE)
    from stored_rowD [OF planningD(3) [OF pl r(1)]] show ?thesis
      using r(2) by (simp add: piece_place_def row_place_def)
  qed
  then show "place_ok (pc_work_center p)" "place_ok (pc_department p)" by auto
qed

lemma piece_by_id:
  assumes "pieces_ok sources pieces" "sources_ok sources" "r \<in> set sources"
  shows "pieces_by_id pieces (cr_id r) = Some p \<longleftrightarrow> p \<in> set pieces \<and> pc_attendance_id p = Some (cr_id r)"
    and "pieces_by_id pieces (cr_id r) = Some p \<Longrightarrow> pc_source p = Some r"
proof -
  have uniq: "p = q" if "p \<in> set ps" "q \<in> set ps" "pc_attendance_id p = Some i" "pc_attendance_id q = Some i" "distinct (ids_of ps)"
    for p q i ps
    using that
  proof (induction ps)
    case (Cons a ps)
    have "i \<in> set (ids_of ps)" if "x \<in> set ps" "pc_attendance_id x = Some i" for x
      using that by (induction ps) (auto split: option.splits)
    then show ?case using Cons by (auto split: option.splits)
  qed simp
  have dist: "distinct (ids_of pieces)" using assms(1) by (simp add: pieces_ok_def)
  show iff: "pieces_by_id pieces (cr_id r) = Some p \<longleftrightarrow> p \<in> set pieces \<and> pc_attendance_id p = Some (cr_id r)" for p
  proof
    assume "pieces_by_id pieces (cr_id r) = Some p"
    then show "p \<in> set pieces \<and> pc_attendance_id p = Some (cr_id r)"
      by (metis (mono_tags, lifting) find_Some_iff nth_mem pieces_by_id_def set_rev)
  next
    assume p: "p \<in> set pieces \<and> pc_attendance_id p = Some (cr_id r)"
    then have "pieces_by_id pieces (cr_id r) \<noteq> None" by (auto simp: pieces_by_id_def find_None_iff)
    then obtain q where q: "pieces_by_id pieces (cr_id r) = Some q" by auto
    then have "q \<in> set pieces \<and> pc_attendance_id q = Some (cr_id r)"
      by (metis (mono_tags, lifting) find_Some_iff nth_mem pieces_by_id_def set_rev)
    then show "pieces_by_id pieces (cr_id r) = Some p" using q uniq [of p pieces q] p dist by auto
  qed
  assume "pieces_by_id pieces (cr_id r) = Some p"
  then have p: "p \<in> set pieces" "pc_attendance_id p = Some (cr_id r)" using iff by auto
  then have "piece_ok sources p" using assms(1) by (simp add: pieces_ok_def)
  then obtain r' where r': "pc_source p = Some r'" "r' \<in> set sources" "cr_id r' = cr_id r"
    using p(2) by (auto simp: piece_ok_def split: option.splits)
  have "inj_on cr_id (set sources)" using assms(2) by (simp add: sources_ok_def distinct_map)
  then show "pc_source p = Some r" using r' assms(3) by (auto dest: inj_onD)
qed

section \<open>Every operation is well-formed\<close>

lemma pending_cases:
  assumes po: "po \<in> set (operations_for_pieces sources pieces e)"
  obtains
    (del) r where "r \<in> set sources" "pieces_by_id pieces (cr_id r) = None"
      "po = \<lparr>po_kind = Delete, po_attendance_id = Some (cr_id r), po_employee = e,
             po_before = Some (source_mutable_values r), po_after = None, po_sources = [r],
             po_effective_start = cr_start r\<rparr>"
  | (upd) r p changed where "r \<in> set sources" "pieces_by_id pieces (cr_id r) = Some p"
      "changed = changed_fields (source_mutable_values r) (piece_mutable_values p e)" "changed \<noteq> []"
      "po = \<lparr>po_kind = Update, po_attendance_id = Some (cr_id r), po_employee = e,
             po_before = Some (select_fields changed (source_mutable_values r)),
             po_after = Some (select_fields changed (piece_mutable_values p e)), po_sources = [r],
             po_effective_start = pc_start p\<rparr>"
  | (new) p where "p \<in> set pieces" "pc_attendance_id p = None" "po = piece_operation e p"
proof -
  from po consider "po \<in> set (concat (map (source_operation pieces e) sources))"
    | "po \<in> set (map (piece_operation e) (filter (\<lambda>p. pc_attendance_id p = None) pieces))"
    unfolding operations_for_pieces_def by auto
  then show ?thesis
  proof cases
    case 1
    then obtain r where r: "r \<in> set sources" "po \<in> set (source_operation pieces e r)" by auto
    show ?thesis
    proof (cases "pieces_by_id pieces (cr_id r)")
      case None
      then show ?thesis using r del by (simp add: source_operation_def)
    next
      case (Some p)
      then show ?thesis using r upd [OF r(1) Some refl] by (simp add: source_operation_def Let_def split: if_splits)
    qed
  next
    case 2
    then obtain p where "p \<in> set pieces" "pc_attendance_id p = None" "po = piece_operation e p" by auto
    then show ?thesis by (rule new)
  qed
qed

definition operation_of :: "string \<Rightarrow> pending_operation \<Rightarrow> operation" where
  "operation_of key po =
     \<lparr>op_key = key, op_kind = po_kind po, op_attendance_id = po_attendance_id po,
      op_employee = po_employee po, op_before = po_before po, op_after = po_after po\<rparr>"

lemma source_mutable: "stored_row e r \<Longrightarrow> source_mutable_values r = mutable_values e (cr_start r) (cr_end r) (cr_work_center r) (cr_department r)"
  by (simp add: source_mutable_values_def stored_rowD)

lemma changed_facts:
  "k \<in> set (changed_fields d e) \<Longrightarrow> k \<in> set mutable_fields \<and> field d k \<noteq> field e k"
  by (simp add: changed_fields_def)

lemma make_planned:
  assumes pl: "planning e rq sources pieces" and po: "po \<in> set (operations_for_pieces sources pieces e)"
    and key: "key_token key \<noteq> None"
  shows "make_operation key (po_kind po) (of_id (po_attendance_id po)) (PyInt (po_employee po)) (po_before po) (po_after po)
    = Inr (operation_of key po)"
  using po
proof (cases rule: pending_cases)
  case (del r)
  from planningD(3) [OF pl del(1)] have st: "stored_row e r" .
  note m = source_mutable [OF st] and d = stored_rowD [OF st]
  have "validate_mutable_mapping (source_mutable_values r) True ''delete before'' = Inr ()"
    unfolding m by (rule validate_full) (use d planningD(1) [OF pl] in auto)
  then show ?thesis
    using key d(2) planningD(1) [OF pl] freeze_frozen_mapping [OF frozen_mutable]
    by (simp add: make_operation_def del(3) operation_of_def freeze_optional_def check_shape_def
        validate_operation_mapping_def given_def employee_matches_def m of_id_def [of "Some n" for n]
        checked_optional_int_def Let_def)
next
  case (upd r p changed)
  from planningD(3) [OF pl upd(1)] have st: "stored_row e r" .
  note m = source_mutable [OF st] and d = stored_rowD [OF st]
  have p: "p \<in> set pieces" using piece_by_id(1) [OF planningD(4,2) [OF pl] upd(1)] upd(2) by blast
  note pp = planned_piece [OF pl p]
  let ?was = "select_fields changed (source_mutable_values r)"
  let ?becomes = "select_fields changed (piece_mutable_values p e)"
  have 1: "validate_mutable_mapping ?was False ''update before'' = Inr ()"
    unfolding m by (rule validate_select) (use d planningD(1) [OF pl] in auto)
  have 2: "validate_mutable_mapping ?becomes False ''update after'' = Inr ()"
    unfolding piece_mutable_values_def by (rule validate_select) (use pp planningD(1) [OF pl] in auto)
  have ch: "set changed \<subseteq> set mutable_fields" using upd(3) by (auto simp: changed_fields_def)
  have keys: "fst ` set ?was = set changed" "fst ` set ?becomes = set changed"
    using ch unfolding keys_select m piece_mutable_values_def keys_mutable_set by auto
  have "?was \<noteq> []" "?becomes \<noteq> []" using keys upd(4) by (auto simp flip: set_empty)
  moreover have "list_all (\<lambda>(k, _). field ?was k \<noteq> field ?becomes k) ?was"
    unfolding list_all_iff case_prod_unfold
  proof
    fix kv assume "kv \<in> set ?was"
    then have "fst kv \<in> set changed" using keys(1) by blast
    then obtain k where k: "fst kv = k" "k \<in> set changed" by simp
    then have "field (source_mutable_values r) k \<noteq> field (piece_mutable_values p e) k" using upd(3) changed_facts by simp
    then show "field ?was (fst kv) \<noteq> field ?becomes (fst kv)" using k by (simp add: field_def lookup_select)
  qed
  moreover have "has d k_employee \<longrightarrow> employee_matches d e" if "d = ?was \<or> d = ?becomes" for d
    using that by (auto simp: has_def employee_matches_def field_def lookup_select m piece_mutable_values_def map_of_mutable split: if_splits)
  moreover have "frozen_dict ?was" "frozen_dict ?becomes"
    by (simp_all add: select_fields_def m piece_mutable_values_def)
  ultimately show ?thesis
    using key d(2) planningD(1) [OF pl] 1 2 keys freeze_frozen_mapping
    by (simp add: make_operation_def upd(5) operation_of_def freeze_optional_def check_shape_def
        validate_operation_mapping_def given_def of_id_def [of "Some n" for n] checked_optional_int_def Let_def)
next
  case (new p)
  note pp = planned_piece [OF pl new(1)]
  have "validate_mutable_mapping (piece_mutable_values p e) True ''create after'' = Inr ()"
    unfolding piece_mutable_values_def by (rule validate_full) (use pp planningD(1) [OF pl] in auto)
  then show ?thesis
    using key planningD(1) [OF pl] freeze_frozen_mapping [OF frozen_mutable]
    by (simp add: make_operation_def new(3) piece_operation_def operation_of_def freeze_optional_def check_shape_def
        validate_operation_mapping_def given_def employee_matches_def piece_mutable_values_def of_id_def
        checked_optional_int_def Let_def)
qed

section \<open>Every operation is authenticated\<close>

lemma utc_only_items:
  "utc_only (PyMap [])" "utc_only (PyMap ((k, x) # d)) \<longleftrightarrow> utc_only x \<and> utc_only (PyMap d)"
  by auto

lemma utc_only_mutable: "utc_only (PyMap (mutable_values e s f wc dept))"
  by (simp add: mutable_values_def)

lemma utc_only_select: "utc_only (PyMap d) \<Longrightarrow> utc_only (PyMap (select_fields names d))"
  by (auto simp: select_fields_def)

lemma utc_only_request: "utc_only (PyMap (request_values e rq))"
proof -
  have order: "utc_only (PyMap (sort_key fst d)) \<longleftrightarrow> utc_only (PyMap d)" for d by simp
  show ?thesis unfolding request_values_def order append_Cons append_Nil by (simp add: utc_only_items del: utc_only_simps(1))
qed

lemma utc_only_identity:
  assumes "utc_only (of_dict was)" "utc_only (of_dict becomes)"
  shows "utc_only (key_identity kind i e was becomes (request_values e' rq) rows)"
  using assms utc_only_request [of e' rq]
  by (simp add: key_identity_def key_source_def utc_only_items del: utc_only_simps(1))

lemma utc_only_of_dict: "utc_only (of_dict None)" "utc_only (PyMap d) \<Longrightarrow> utc_only (of_dict (Some d))"
  by (auto simp: of_dict_def)

lemma pending_key:
  assumes pl: "planning e rq sources pieces" and po: "po \<in> set (operations_for_pieces sources pieces e)"
  shows "utc_only (of_dict (po_before po)) \<and> utc_only (of_dict (po_after po)) \<and> set (po_sources po) \<subseteq> set sources"
  using po
proof (cases rule: pending_cases)
  case (del r)
  then show ?thesis by (simp add: utc_only_of_dict source_mutable_values_def utc_only_mutable del: utc_only_simps(1))
next
  case (upd r p changed)
  then show ?thesis
    by (simp add: utc_only_of_dict source_mutable_values_def piece_mutable_values_def utc_only_mutable
        utc_only_select del: utc_only_simps(1))
next
  case (new p)
  then show ?thesis using planned_piece(4) [OF pl new(1)]
    by (simp add: piece_operation_def utc_only_of_dict piece_mutable_values_def utc_only_mutable del: utc_only_simps(1))
qed

definition identity_of :: "dict \<Rightarrow> pending_operation \<Rightarrow> pyvalue" where
  "identity_of rq po =
     projr (operation_key_value (key_identity (po_kind po) (po_attendance_id po) (po_employee po)
       (po_before po) (po_after po) rq (po_sources po)))"

definition key_of :: "(pyvalue \<Rightarrow> string) \<Rightarrow> dict \<Rightarrow> pending_operation \<Rightarrow> string" where
  "key_of digest rq po = key_prefix @ source_token (po_sources po) @ '':'' @ digest (identity_of rq po)"

lemma operation_key_planned:
  assumes pl: "planning e rq sources pieces" and po: "po \<in> set (operations_for_pieces sources pieces e)"
  shows "operation_key digest (po_kind po) (po_attendance_id po) (po_employee po) (po_before po) (po_after po)
      (request_values e rq) (po_sources po) = Inr (key_of digest (request_values e rq) po)"
proof -
  let ?id = "key_identity (po_kind po) (po_attendance_id po) (po_employee po) (po_before po) (po_after po)
      (request_values e rq) (po_sources po)"
  obtain w where "operation_key_value ?id = Inr w"
    using key_value_total [OF utc_only_identity] pending_key [OF pl po] by blast
  then show ?thesis by (simp add: operation_key_def key_of_def identity_of_def)
qed

lemma keyed_planned:
  assumes pl: "planning e rq sources pieces" and hex: "hex_digest digest"
    and po: "po \<in> set (operations_for_pieces sources pieces e)"
  shows "keyed_operation digest (request_values e rq) po = Inr (operation_of (key_of digest (request_values e rq) po) po)"
    and "key_token (key_of digest (request_values e rq) po) = Some (source_token (po_sources po))"
proof -
  have pos: "\<forall>r \<in> set (po_sources po). 0 < cr_id r"
    using pending_key [OF pl po] stored_rowD(2) planningD(3) [OF pl] by blast
  show tok: "key_token (key_of digest (request_values e rq) po) = Some (source_token (po_sources po))"
    unfolding key_of_def by (rule key_token_key [OF pos hex])
  then show "keyed_operation digest (request_values e rq) po = Inr (operation_of (key_of digest (request_values e rq) po) po)"
    using make_planned [OF pl po] operation_key_planned [OF pl po] by (simp add: keyed_operation_def)
qed

end
