(* ===== verification/Correction_Simulation.thy ===== *)
theory Correction_Simulation
  imports Correction_Planning
begin

text \<open>
  The keys of a planned correction are distinct, and the simulation of its operations, in whatever
  order, yields exactly the expected intervals of its pieces.
\<close>

section \<open>Distinct keys\<close>

lemma distinct_map_refine:
  "distinct (map f xs) \<Longrightarrow> (\<And>x y. x \<in> set xs \<Longrightarrow> y \<in> set xs \<Longrightarrow> g x = g y \<Longrightarrow> f x = f y) \<Longrightarrow> distinct (map g xs)"
  unfolding distinct_map inj_on_def by blast

lemma distinct_starts:
  "(\<And>t. length (pieces_at ps t) \<le> 1) \<Longrightarrow> \<forall>p \<in> set ps. ends_after (pc_end p) (pc_start p) \<Longrightarrow>
     distinct (map pc_start ps)"
proof (induction ps)
  case (Cons p ps)
  have "length (pieces_at ps t) \<le> 1" for t
    using Cons.prems(1) [of t] by (auto split: if_splits)
  then have "distinct (map pc_start ps)" using Cons by simp
  moreover have "pc_start q \<noteq> pc_start p" if q: "q \<in> set ps" for q
  proof
    assume eq: "pc_start q = pc_start p"
    have "piece_covers q (pc_start p)" "piece_covers p (pc_start p)"
      using Cons.prems(2) q eq by (auto simp: piece_covers_def)
    moreover from this q have "pieces_at ps (pc_start p) \<noteq> []" by (auto simp: pieces_at_def filter_empty_conv)
    ultimately show False using Cons.prems(1) [of "pc_start p"] by (cases "pieces_at ps (pc_start p)") auto
  qed
  ultimately show ?case by force
qed simp

lemma planned_starts: "planning e rq sources pieces \<Longrightarrow> distinct (map pc_start pieces)"
  using distinct_starts requested_single planned_piece(1) planningD(2,5) by metis

text \<open>Every bound of a piece comes from a row or the request.\<close>

definition times_ok :: "request \<Rightarrow> correction_row list \<Rightarrow> bool" where
  "times_ok rq sources =
     (is_datetime (rq_start rq) \<and> (case rq_end rq of None \<Rightarrow> True | Some t \<Rightarrow> is_datetime t) \<and>
      (\<forall>r \<in> set sources. is_datetime (cr_start r) \<and> (case cr_end r of None \<Rightarrow> True | Some t \<Rightarrow> is_datetime t)))"

definition at_end_too :: "(datetime \<Rightarrow> bool) \<Rightarrow> datetime option \<Rightarrow> bool" where
  "at_end_too P e = (case e of None \<Rightarrow> True | Some t \<Rightarrow> P t)"

definition bounds_ok :: "(datetime \<Rightarrow> bool) \<Rightarrow> request \<Rightarrow> correction_row list \<Rightarrow> bool" where
  "bounds_ok P rq sources =
     (P (rq_start rq) \<and> at_end_too P (rq_end rq) \<and> (\<forall>r \<in> set sources. P (cr_start r) \<and> at_end_too P (cr_end r)))"

definition bounded :: "(datetime \<Rightarrow> bool) \<Rightarrow> piece \<Rightarrow> bool" where
  "bounded P p = (P (pc_start p) \<and> at_end_too P (pc_end p))"

lemma surgery_bounds:
  assumes "rows \<noteq> []" "\<forall>r \<in> set rows. P (cr_start r) \<and> at_end_too P (cr_end r)" "P s" "P e" "p \<in> set (surgery rq s e rows)"
  shows "bounded P p"
  using assms
  by (auto simp: surgery_def Let_def left_remainder_def right_remainder_def bounded_def at_end_too_def split: if_splits)

lemma piece_bounds:
  assumes ok: "bounds_ok P rq sources" and run: "pieces_for_request rq sources = Inr pieces" and p: "p \<in> set pieces"
  shows "bounded P p"
proof -
  have untouched: "bounded P p" if "p \<in> set (map untouched_piece rs)" "set rs \<subseteq> set sources" for rs p
    using that ok by (auto simp: untouched_piece_def bounds_ok_def bounded_def)
  have rows: "\<forall>r \<in> set (overlapping s e sources). P (cr_start r) \<and> at_end_too P (cr_end r)" for s e
    using ok by (auto simp: bounds_ok_def overlapping_def)
  have closed: "bounded P p" if fin: "rq_end rq = Some fin"
    and p: "p \<in> set (closed_pieces rq fin sources) \<or> p \<in> set (closed_merge_pieces rq fin sources)" for fin
  proof (cases "overlapping (rq_start rq) fin sources = []")
    case True
    then show ?thesis using p untouched [of p sources] ok fin by (auto simp: closed_pieces_def closed_merge_pieces_def bounds_ok_def bounded_def at_end_too_def)
  next
    case False
    let ?ov = "overlapping (rq_start rq) fin sources"
    have f: "P fin" "P (rq_start rq)" using ok fin by (simp_all add: bounds_ok_def at_end_too_def)
    have rest: "set (unaffected sources ?ov) \<subseteq> set sources" by (auto simp: unaffected_def)
    have run: "bounded P p" if "grp \<in> set (runs ?ov)" "p \<in> set (run_pieces rq fin grp)" for grp
    proof -
      have ne: "grp \<noteq> []" using runs_ok [of ?ov] that(1) by (auto simp: contiguous_def)
      have "concat (runs ?ov) = ?ov" using runs_ok by blast
      then have sub: "set grp \<subseteq> set ?ov" using that(1) by (metis UN_upper set_concat)
      have "hd grp \<in> set grp" "last grp \<in> set grp" using ne by simp_all
      then have "P (cr_start (hd grp))" "P (run_end fin grp)"
        using rows [of "rq_start rq" fin] sub f by (auto simp: run_end_def at_end_too_def split: option.splits)
      then have ends: "P (max (rq_start rq) (cr_start (hd grp)))" "P (min fin (run_end fin grp))"
        using f by (simp_all add: min_def max_def)
      have "\<forall>r \<in> set grp. P (cr_start r) \<and> at_end_too P (cr_end r)" using rows [of "rq_start rq" fin] sub by blast
      from surgery_bounds [OF ne this ends] that(2) show ?thesis unfolding run_pieces_surgery by blast
    qed
    have sur: "bounded P p" if "p \<in> set (surgery rq (rq_start rq) fin ?ov)"
      by (rule surgery_bounds [OF False _ f(2,1) that]) (use rows in blast)
    from p show ?thesis
      unfolding closed_pieces_def closed_merge_pieces_def Let_def if_not_P [OF False]
      using untouched [OF _ rest, of p] run sur by auto
  qed
  have left: "bounded P p" if "p \<in> set (left_remainder s rs)" "set rs \<subseteq> set sources" "rs \<noteq> []" "P s" for p s rs
  proof -
    have "hd rs \<in> set sources" using that(2,3) by auto
    then show ?thesis using that(1,4) ok by (auto simp: left_remainder_def bounds_ok_def bounded_def at_end_too_def split: if_splits)
  qed
  have on: "set (from_onward s sources) \<subseteq> set sources" for s by (auto simp: from_onward_def)
  have opn: "bounded P p" if "p \<in> set (open_pieces rq sources)"
    using that untouched [of p sources] untouched [of p "filter (\<lambda>r. \<not> ends_after (cr_end r) (rq_start rq)) sources"]
      left [OF _ on, of p "rq_start rq"] ok
    by (auto simp: open_pieces_def Let_def bounds_ok_def bounded_def at_end_too_def split: if_splits)
  have mrg: "bounded P p" if qs: "open_merge_pieces rq sources = Inr qs" "p \<in> set qs" for qs
  proof -
    from qs(1) obtain live where live: "find (\<lambda>r. cr_end r = None) sources = Some live"
      and eq: "qs = map untouched_piece (filter (\<lambda>r. \<not> ends_after (cr_end r) (rq_start rq)) sources)
        @ left_remainder (rq_start rq) (from_onward (rq_start rq) sources)
        @ [target_piece rq (Some live) (rq_start rq) None []]"
      by (auto simp: open_merge_pieces_def Let_def split: option.splits if_splits)
    have "live \<in> set (from_onward (rq_start rq) sources)" using live by (auto simp: find_Some_iff from_onward_def)
    then have "from_onward (rq_start rq) sources \<noteq> []" by auto
    then show ?thesis using qs(2) untouched [of p "filter (\<lambda>r. \<not> ends_after (cr_end r) (rq_start rq)) sources"]
        left [OF _ on, of p "rq_start rq"] ok
      unfolding eq by (auto simp: bounds_ok_def bounded_def at_end_too_def)
  qed
  show ?thesis using run p untouched [of p sources] closed opn mrg
    by (auto simp: pieces_for_request_def merge_pieces_for_request_def split: if_splits option.splits)
qed

lemma piece_starts:
  assumes "times_ok rq sources" "pieces_for_request rq sources = Inr pieces" "p \<in> set pieces"
  shows "is_datetime (pc_start p)"
  using piece_bounds [of is_datetime, OF _ assms(2,3)] assms(1) by (simp add: times_ok_def bounds_ok_def at_end_too_def bounded_def)

definition identity_dict :: "dict \<Rightarrow> pending_operation \<Rightarrow> dict" where
  "identity_dict rq po =
     [(''contract'', PyStr ''attendance-correction-operation-v2''), (''request'', PyMap rq),
      (''sources'', PyList (map key_source (po_sources po))), (''kind'', PyStr (kind_name (po_kind po))),
      (''attendance_id'', of_id (po_attendance_id po)), (k_employee, PyInt (po_employee po)),
      (''before'', of_dict (po_before po)), (''after'', of_dict (po_after po))]"

lemma identity_dict_facts:
  "distinct (map fst (identity_dict rq po))"
  "map_of (identity_dict rq po) ''attendance_id'' = Some (of_id (po_attendance_id po))"
  "map_of (identity_dict rq po) ''after'' = Some (of_dict (po_after po))"
  by (simp_all add: identity_dict_def k_employee_def)

lemma identity_value:
  assumes "planning e rq sources pieces" "po \<in> set (operations_for_pieces sources pieces e)"
  shows "operation_key_value (PyMap (identity_dict (request_values e rq) po)) = Inr (identity_of (request_values e rq) po)"
proof -
  have "utc_only (key_identity (po_kind po) (po_attendance_id po) (po_employee po) (po_before po) (po_after po)
      (request_values e rq) (po_sources po))"
    by (rule utc_only_identity) (use pending_key [OF assms] in auto)
  from key_value_total [OF this] show ?thesis by (auto simp: identity_of_def key_identity_def identity_dict_def)
qed

lemma of_id_inj [simp]: "of_id i = of_id j \<longleftrightarrow> i = j"
  by (auto simp: of_id_def split: option.splits)

lemma key_value_of_id [simp]: "operation_key_value (of_id i) = Inr (of_id i)"
  by (simp add: of_id_def key_value_simps split: option.splits)

lemma identity_same:
  assumes pl: "planning e rq sources pieces"
    and po: "po \<in> set (operations_for_pieces sources pieces e)" "po' \<in> set (operations_for_pieces sources pieces e)"
    and eq: "identity_of (request_values e rq) po = identity_of (request_values e rq) po'"
  shows "po_attendance_id po = po_attendance_id po'"
    and "operation_key_value (of_dict (po_after po)) = operation_key_value (of_dict (po_after po'))"
proof -
  let ?d = "identity_dict (request_values e rq) po" and ?d' = "identity_dict (request_values e rq) po'"
  have conv: "operation_key_value (PyMap ?d) = Inr (identity_of (request_values e rq) po)"
    "operation_key_value (PyMap ?d') = Inr (identity_of (request_values e rq) po')"
    using identity_value [OF pl] po by auto
  have same: "map_option (\<lambda>v. projr (operation_key_value v)) (map_of ?d k) = map_option (\<lambda>v. projr (operation_key_value v)) (map_of ?d' k)" for k
    using key_value_differs [OF identity_dict_facts(1) identity_dict_facts(1) conv] eq by blast
  show "po_attendance_id po = po_attendance_id po'"
    using same [of "''attendance_id''"] by (simp add: identity_dict_facts)
  have "\<exists>w. operation_key_value (of_dict (po_after po)) = Inr w" "\<exists>w. operation_key_value (of_dict (po_after po')) = Inr w"
    using key_value_total pending_key [OF pl] po by blast+
  then show "operation_key_value (of_dict (po_after po)) = operation_key_value (of_dict (po_after po'))"
    using same [of "''after''"] by (auto simp: identity_dict_facts)
qed

definition signature :: "pending_operation \<Rightarrow> int option \<times> datetime option" where
  "signature po = (po_attendance_id po, if po_attendance_id po = None then Some (po_effective_start po) else None)"

lemma identity_signature:
  assumes pl: "planning e rq sources pieces" and tm: "times_ok rq sources"
    and po: "po \<in> set (operations_for_pieces sources pieces e)" "po' \<in> set (operations_for_pieces sources pieces e)"
    and eq: "identity_of (request_values e rq) po = identity_of (request_values e rq) po'"
  shows "signature po = signature po'"
proof (cases "po_attendance_id po")
  case (Some i)
  then show ?thesis using identity_same(1) [OF pl po eq] by (simp add: signature_def)
next
  case None
  then have none: "po_attendance_id po' = None" using identity_same(1) [OF pl po eq] by simp
  have new: "\<exists>p \<in> set pieces. q = piece_operation e p" if "q \<in> set (operations_for_pieces sources pieces e)" "po_attendance_id q = None" for q
    using that(1) by (cases rule: pending_cases) (use that(2) in auto)
  obtain p p' where p: "p \<in> set pieces" "po = piece_operation e p" "p' \<in> set pieces" "po' = piece_operation e p'"
    using new po None none by blast
  let ?m = "\<lambda>p. piece_mutable_values p e"
  have "operation_key_value (PyMap (?m p)) = operation_key_value (PyMap (?m p'))"
    using identity_same(2) [OF pl po eq] by (simp add: p piece_operation_def of_dict_def)
  moreover obtain w where w: "operation_key_value (PyMap (?m p)) = Inr (PyMap w)"
    using key_value_total [of "PyMap (?m p)"] key_value_map utc_only_mutable unfolding piece_mutable_values_def by blast
  ultimately have "map_option (\<lambda>v. projr (operation_key_value v)) (map_of (?m p) k_check_in)
      = map_option (\<lambda>v. projr (operation_key_value v)) (map_of (?m p') k_check_in)"
    using key_value_lookup [of "?m p" w k_check_in] key_value_lookup [of "?m p'" w k_check_in]
    by (simp add: piece_mutable_values_def)
  then have "utc_text (pc_start p) = utc_text (pc_start p')"
    by (simp add: piece_mutable_values_def map_of_mutable key_value_simps)
  moreover have run: "pieces_for_request rq sources = Inr pieces" using pl by (simp add: planning_def)
  ultimately have "pc_start p = pc_start p'"
    using utc_text_inj piece_starts [OF tm run] p by blast
  then show ?thesis by (simp add: p signature_def piece_operation_def)
qed

lemma distinct_signatures:
  assumes pl: "planning e rq sources pieces"
  shows "distinct (map signature (operations_for_pieces sources pieces e))"
proof -
  have src: "distinct (map signature (concat (map (source_operation pieces e) rs))) \<and>
      set (map signature (concat (map (source_operation pieces e) rs))) \<subseteq> (\<lambda>r. (Some (cr_id r), None)) ` set rs"
    if "distinct (map cr_id rs)" for rs
    using that
  proof (induction rs)
    case (Cons r rs)
    have "map signature (source_operation pieces e r) = [] \<or> map signature (source_operation pieces e r) = [(Some (cr_id r), None)]"
      by (auto simp: source_operation_def signature_def Let_def split: option.splits)
    then have one: "distinct (map signature (source_operation pieces e r))"
      "set (map signature (source_operation pieces e r)) \<subseteq> {(Some (cr_id r), None)}" by (elim disjE; simp)+
    have rest: "distinct (map signature (concat (map (source_operation pieces e) rs)))"
      "set (map signature (concat (map (source_operation pieces e) rs))) \<subseteq> (\<lambda>r. (Some (cr_id r), None)) ` set rs"
      using Cons by simp_all
    have "(Some (cr_id r), None) \<notin> (\<lambda>r. (Some (cr_id r), None)) ` set rs" using Cons.prems by auto
    then have "set (map signature (source_operation pieces e r)) \<inter>
        set (map signature (concat (map (source_operation pieces e) rs))) = {}" using one(2) rest(2) by blast
    then show ?case using one rest unfolding list.map concat.simps map_append distinct_append set_append list.set image_insert
      by blast
  qed simp
  have new: "map signature (map (piece_operation e) (filter (\<lambda>p. pc_attendance_id p = None) ps)) =
      map (\<lambda>p. (None, Some (pc_start p))) (filter (\<lambda>p. pc_attendance_id p = None) ps)" for ps
    by (simp add: signature_def piece_operation_def)
  have "distinct (map pc_start (filter (\<lambda>p. pc_attendance_id p = None) pieces))"
    using planned_starts [OF pl] by (simp add: distinct_map_filter)
  then have "distinct (map signature (map (piece_operation e) (filter (\<lambda>p. pc_attendance_id p = None) pieces)))"
    unfolding new by (simp add: distinct_map inj_on_def)
  moreover have "distinct (map cr_id sources)" using planningD(2) [OF pl] by (simp add: sources_ok_def)
  ultimately show ?thesis using src [of sources] unfolding operations_for_pieces_def map_append distinct_append new
    by fastforce
qed

text \<open>No two operations of the plan collide under the digest.\<close>

definition collision_free :: "(pyvalue \<Rightarrow> string) \<Rightarrow> dict \<Rightarrow> pending_operation list \<Rightarrow> bool" where
  "collision_free digest rq pending = inj_on digest (identity_of rq ` set pending)"

lemma distinct_keys:
  assumes pl: "planning e rq sources pieces" and tm: "times_ok rq sources" and hex: "hex_digest digest"
    and free: "collision_free digest (request_values e rq) (operations_for_pieces sources pieces e)"
  shows "distinct (map (key_of digest (request_values e rq)) (operations_for_pieces sources pieces e))"
proof (rule distinct_map_refine [OF distinct_signatures [OF pl]])
  fix po po' assume po: "po \<in> set (operations_for_pieces sources pieces e)" "po' \<in> set (operations_for_pieces sources pieces e)"
    and eq: "key_of digest (request_values e rq) po = key_of digest (request_values e rq) po'"
  let ?i = "identity_of (request_values e rq)"
  have "length (digest (?i po)) = length (digest (?i po'))" using hex by (simp add: hex_digest_def)
  moreover have "(source_token (po_sources po) @ '':'') @ digest (?i po) = (source_token (po_sources po') @ '':'') @ digest (?i po')"
    using eq by (simp add: key_of_def)
  ultimately have "digest (?i po) = digest (?i po')" using append_eq_append_conv by blast
  then have "?i po = ?i po'" using free po by (auto simp: collision_free_def dest: inj_onD)
  then show "signature po = signature po'" by (rule identity_signature [OF pl tm po])
qed

section \<open>The effect of a list of operations\<close>

definition operation_on :: "operation list \<Rightarrow> int \<Rightarrow> operation option" where
  "operation_on opers i = find (\<lambda>oper. op_attendance_id oper = Some i) opers"

fun effect :: "operation option \<Rightarrow> dict \<Rightarrow> dict option" where
  "effect None d = Some d"
| "effect (Some oper) d =
     (if op_kind oper = Delete then None else Some (simulate_update (given (op_after oper)) d))"

definition after_operations :: "operation list \<Rightarrow> (int \<times> dict) list \<Rightarrow> (int \<times> dict) list" where
  "after_operations opers s =
     List.map_filter (\<lambda>(i, d). map_option (\<lambda>d'. (i, d')) (effect (operation_on opers i) d)) s"

definition created_by :: "operation \<Rightarrow> dict" where
  "created_by oper = put_all (given (op_after oper)) [(k_attendance, PyNone)]"

text \<open>What the simulation asks of an operation before it applies it.\<close>

definition operation_ready :: "correction_row list \<Rightarrow> (int \<times> dict) list \<Rightarrow> operation \<Rightarrow> bool" where
  "operation_ready sources s oper =
     (case op_kind oper of
        Create \<Rightarrow> op_attendance_id oper = None
      | Delete \<Rightarrow> (\<exists>i r d. op_attendance_id oper = Some i \<and> map_of s i = Some d \<and>
          find (\<lambda>r. cr_id r = i) (rev sources) = Some r \<and> given (op_before oper) = source_mutable_values r)
      | Update \<Rightarrow> (\<exists>i d. op_attendance_id oper = Some i \<and> map_of s i = Some d \<and>
          (\<forall>(k, v) \<in> set (given (op_before oper)). field d k = v)))"

lemma map_filter_Cons: "List.map_filter f (x # xs) = (case f x of None \<Rightarrow> List.map_filter f xs | Some y \<Rightarrow> y # List.map_filter f xs)"
  by (simp add: map_filter_def split: option.splits)

lemma map_filter_Nil: "List.map_filter f [] = []"
  by (simp add: map_filter_def)

lemma after_operations_Cons:
  "after_operations opers ((i, d) # s) =
     (case effect (operation_on opers i) d of None \<Rightarrow> after_operations opers s | Some d' \<Rightarrow> (i, d') # after_operations opers s)"
  by (simp add: after_operations_def map_filter_Cons split: option.splits)

lemma after_operations_Nil [simp]: "after_operations opers [] = []"
  by (simp add: after_operations_def map_filter_Nil)

lemma after_no_operations: "after_operations [] s = s"
  by (induction s) (auto simp: after_operations_Cons operation_on_def)

lemma operation_on_Cons:
  "operation_on (oper # opers) i = (if op_attendance_id oper = Some i then Some oper else operation_on opers i)"
  by (simp add: operation_on_def)

lemma after_create: "op_attendance_id oper = None \<Longrightarrow> after_operations (oper # opers) s = after_operations opers s"
  by (simp add: after_operations_def operation_on_Cons)

lemma operation_on_absent: "i \<notin> set (List.map_filter op_attendance_id opers) \<Longrightarrow> operation_on opers i = None"
  by (induction opers) (auto simp: operation_on_def map_filter_Cons split: option.splits)

lemma after_delete:
  assumes "op_attendance_id oper = Some i" "op_kind oper = Delete"
  shows "after_operations (oper # opers) s = after_operations opers (drop_key i s)"
  by (induction s) (use assms in \<open>auto simp: after_operations_Cons operation_on_Cons drop_key_def split: option.splits\<close>)

lemma after_other: "i \<notin> fst ` set s \<Longrightarrow> op_attendance_id oper = Some i \<Longrightarrow> after_operations (oper # opers) s = after_operations opers s"
  by (induction s) (auto simp: after_operations_Cons operation_on_Cons split: option.splits)

lemma update_absent: "i \<notin> set (List.map_filter op_attendance_id opers) \<Longrightarrow> i \<notin> fst ` set s \<Longrightarrow> AList.update i d s = s @ [(i, d)]"
  by (induction s) auto

lemma after_update:
  assumes "op_attendance_id oper = Some i" "op_kind oper = Update" and "distinct (map fst s)" and "map_of s i = Some d"
    and "i \<notin> set (List.map_filter op_attendance_id opers)"
  shows "after_operations (oper # opers) s = after_operations opers (AList.update i (simulate_update (given (op_after oper)) d) s)"
  using assms(3,4)
proof (induction s)
  case (Cons a s)
  obtain j x where a: "a = (j, x)" by (cases a)
  show ?case
  proof (cases "j = i")
    case True
    then have "x = d" "i \<notin> fst ` set s" using Cons.prems a by auto
    then show ?thesis using True a assms(1,2) after_other [of i s oper opers] operation_on_absent [OF assms(5)]
      by (simp add: after_operations_Cons operation_on_Cons)
  next
    case False
    then show ?thesis using Cons a assms(1) by (simp add: after_operations_Cons operation_on_Cons split: option.splits)
  qed
qed simp

lemma keys_update: "fst ` set (AList.update i d s) = insert i (fst ` set s)"
  by (induction s) auto

lemma ready_other:
  assumes "operation_ready sources s oper" and "op_attendance_id oper \<noteq> Some i"
    and "\<And>j. j \<noteq> i \<Longrightarrow> map_of s' j = map_of s j"
  shows "operation_ready sources s' oper"
proof (cases "op_kind oper")
  case Create
  then show ?thesis using assms(1) by (simp add: operation_ready_def)
next
  case Update
  from assms(1) Update obtain j d where j: "op_attendance_id oper = Some j" "map_of s j = Some d"
    "\<forall>(k, v) \<in> set (given (op_before oper)). field d k = v"
    unfolding operation_ready_def by auto
  then have "map_of s' j = Some d" using assms(2,3) by simp
  then show ?thesis using j Update by (simp add: operation_ready_def)
next
  case Delete
  from assms(1) Delete obtain j r d where j: "op_attendance_id oper = Some j" "map_of s j = Some d"
    "find (\<lambda>r. cr_id r = j) (rev sources) = Some r" "given (op_before oper) = source_mutable_values r"
    unfolding operation_ready_def by auto
  then have "map_of s' j = Some d" using assms(2,3) by simp
  then show ?thesis using j Delete by (simp add: operation_ready_def)
qed

lemma simulate_loop_effect:
  assumes "distinct (map fst s)" and "distinct (List.map_filter op_attendance_id opers)"
    and "\<forall>oper \<in> set opers. operation_ready sources s oper"
  shows "simulate_loop sources opers (s, c) =
    Inr (after_operations opers s, c @ map created_by (filter (\<lambda>oper. op_kind oper = Create) opers))"
  using assms
proof (induction opers arbitrary: s c)
  case Nil
  then show ?case by (simp add: after_no_operations)
next
  case (Cons oper opers)
  have ready: "operation_ready sources s oper" using Cons.prems(3) by simp
  show ?case
  proof (cases "op_kind oper")
    case Create
    then have none: "op_attendance_id oper = None" using ready by (simp add: operation_ready_def)
    have "simulate_operation sources oper (s, c) = Inr (s, c @ [created_by oper])"
      by (simp add: simulate_operation_def Create created_by_def)
    moreover have "simulate_loop sources opers (s, c @ [created_by oper]) =
        Inr (after_operations opers s, (c @ [created_by oper]) @ map created_by (filter (\<lambda>oper. op_kind oper = Create) opers))"
      by (rule Cons.IH) (use Cons.prems none in \<open>auto simp: map_filter_Cons\<close>)
    ultimately show ?thesis using Create after_create [OF none] by simp
  next
    case Delete
    then obtain i r d where i: "op_attendance_id oper = Some i" "map_of s i = Some d"
      "find (\<lambda>r. cr_id r = i) (rev sources) = Some r" "given (op_before oper) = source_mutable_values r"
      using ready unfolding operation_ready_def by auto
    have fresh: "i \<notin> set (List.map_filter op_attendance_id opers)" using Cons.prems(2) i(1) by (simp add: map_filter_Cons)
    have "simulate_operation sources oper (s, c) = Inr (drop_key i s, c)"
      by (simp add: simulate_operation_def Delete i)
    moreover have "simulate_loop sources opers (drop_key i s, c) =
        Inr (after_operations opers (drop_key i s), c @ map created_by (filter (\<lambda>oper. op_kind oper = Create) opers))"
    proof (rule Cons.IH)
      show "distinct (map fst (drop_key i s))" using Cons.prems(1) by (simp add: drop_key_def distinct_map_filter)
      show "distinct (List.map_filter op_attendance_id opers)" using Cons.prems(2) i(1) by (simp add: map_filter_Cons)
      show "\<forall>oper \<in> set opers. operation_ready sources (drop_key i s) oper"
      proof
        fix other assume o: "other \<in> set opers"
        then have "op_attendance_id other \<noteq> Some i" using fresh by (force simp: map_filter_def)
        then show "operation_ready sources (drop_key i s) other"
          using ready_other [of sources s other i "drop_key i s"] Cons.prems(3) o by simp
      qed
    qed
    ultimately show ?thesis using Delete after_delete [OF i(1) Delete] by simp
  next
    case Update
    then obtain i d where i: "op_attendance_id oper = Some i" "map_of s i = Some d"
      "\<forall>(k, v) \<in> set (given (op_before oper)). field d k = v"
      using ready unfolding operation_ready_def by auto
    let ?s = "AList.update i (simulate_update (given (op_after oper)) d) s"
    have fresh: "i \<notin> set (List.map_filter op_attendance_id opers)" using Cons.prems(2) i(1) by (simp add: map_filter_Cons)
    have "\<not> (\<exists>(k, v) \<in> set (given (op_before oper)). field d k \<noteq> v)" using i(3) by auto
    then have "simulate_operation sources oper (s, c) = Inr (?s, c)"
      unfolding simulate_operation_def by (simp add: Update i(1,2))
    moreover have "simulate_loop sources opers (?s, c) =
        Inr (after_operations opers ?s, c @ map created_by (filter (\<lambda>oper. op_kind oper = Create) opers))"
    proof (rule Cons.IH)
      show "distinct (map fst ?s)" using Cons.prems(1) by (simp add: distinct_update)
      show "distinct (List.map_filter op_attendance_id opers)" using Cons.prems(2) i(1) by (simp add: map_filter_Cons)
      show "\<forall>oper \<in> set opers. operation_ready sources ?s oper"
      proof
        fix other assume o: "other \<in> set opers"
        then have "op_attendance_id other \<noteq> Some i" using fresh by (force simp: map_filter_def)
        then show "operation_ready sources ?s other"
          using ready_other [of sources s other i ?s] Cons.prems(3) o by (simp add: update_conv)
      qed
    qed
    ultimately show ?thesis using Update after_update [OF i(1) Update Cons.prems(1) i(2) fresh] by simp
  qed
qed

section \<open>The expected dictionary of a piece\<close>

lemma lookup_without: "map_of (without_versions d) k = (if k \<in> {k_odoo_write_date, k_write_date, k_id} then None else map_of d k)"
  using map_of_filter_keys [of "\<lambda>k. k \<notin> {k_odoo_write_date, k_write_date, k_id}" d]
  by (auto simp: without_versions_def)

lemma frozen_without [simp]: "frozen_dict d \<Longrightarrow> frozen_dict (without_versions d)"
  by (simp add: without_versions_def)

lemma frozen_drop_if [simp]: "frozen_dict d \<Longrightarrow> frozen_dict (drop_if b k d)"
  by (simp add: drop_if_def)

lemma map_of_drop_if: "map_of (drop_if b k d) = (if b then (map_of d)(k := None) else map_of d)"
  by (simp add: drop_if_def)

lemma values_of_mutable: "(k, v) \<in> set (mutable_values e s f wc dept) \<Longrightarrow> frozen v"
  by (auto simp: mutable_values_def)

lemma frozen_put_mutable [simp]: "frozen_dict d \<Longrightarrow> frozen_dict (put_all (mutable_values e s f wc dept) d)"
  by (rule frozen_dict_put_all) (use values_of_mutable in auto)

lemma frozen_source_expected: "stored_row e r \<Longrightarrow> frozen_dict (source_expected_mapping r)"
  by (simp add: source_expected_mapping_def source_mutable_values_def stored_rowD)

lemma frozen_expected:
  assumes "\<And>r. pc_source p = Some r \<Longrightarrow> stored_row e r"
  shows "frozen_dict (expected_mapping p e)"
  using assms by (auto simp: expected_mapping_def Let_def piece_mutable_values_def stored_rowD split: option.splits)

lemma map_of_source_expected:
  "map_of (source_expected_mapping r) = (map_of (without_versions (cr_values r)) ++ map_of (source_mutable_values r))(k_attendance \<mapsto> PyInt (cr_id r))"
  by (simp add: source_expected_mapping_def source_mutable_values_def map_of_put_all)

lemma map_of_expected_kept:
  assumes "pc_source p = Some r" "pc_attendance_id p = Some (cr_id r)"
  shows "map_of (expected_mapping p e) =
    (let m = (map_of (without_versions (cr_values r)) ++ map_of (piece_mutable_values p e))(k_attendance \<mapsto> PyInt (cr_id r));
         m = (if cr_work_center r \<noteq> pc_work_center p then m(k_work_center_name := None) else m)
     in if cr_department r \<noteq> pc_department p then m(k_department_name := None) else m)"
  using assms by (simp add: expected_mapping_def Let_def map_of_drop_if piece_mutable_values_def map_of_put_all of_id_def)

lemma map_of_expected_new:
  assumes "pc_attendance_id p = None"
  shows "map_of (expected_mapping p e) = (map_of (piece_mutable_values p e))(k_attendance \<mapsto> PyNone)"
proof -
  have no_name: "map_of (piece_mutable_values p e) k_work_center_name = None" "map_of (piece_mutable_values p e) k_department_name = None"
    by (simp_all add: piece_mutable_values_def map_of_mutable)
  show ?thesis
    using assms no_name
    by (auto simp: expected_mapping_def Let_def map_of_drop_if piece_mutable_values_def map_of_put_all of_id_def
        fun_eq_iff split: option.splits)
qed

lemma expected_new:
  assumes "pc_attendance_id p = None" and "frozen_dict (expected_mapping p e)"
  shows "put_all (piece_mutable_values p e) [(k_attendance, PyNone)] = expected_mapping p e"
proof (rule frozen_dict_ext [OF _ assms(2)])
  show "frozen_dict (put_all (piece_mutable_values p e) [(k_attendance, PyNone)])"
    by (simp add: piece_mutable_values_def frozen_dict_def [of "[(k_attendance, PyNone)]"] key_sorted_def)
  show "map_of (put_all (piece_mutable_values p e) [(k_attendance, PyNone)]) = map_of (expected_mapping p e)"
    unfolding map_of_expected_new [OF assms(1)]
    by (auto simp: piece_mutable_values_def map_of_put_all map_of_mutable fun_eq_iff map_add_def split: option.splits)
qed

end
