(* ===== verification/Correction_Projection.thy ===== *)
theory Correction_Projection
  imports Correction_Simulation
begin

text \<open>
  The operations of a planned correction project the source rows onto the expected intervals of its
  pieces.
\<close>

section \<open>A kept row\<close>

lemma field_changed:
  assumes "stored_row e r" and "k \<in> set mutable_fields"
  shows "k \<in> set (changed_fields (source_mutable_values r) (piece_mutable_values p e)) \<longleftrightarrow>
    map_of (source_mutable_values r) k \<noteq> map_of (piece_mutable_values p e) k"
  using assms(2)
  by (auto simp: changed_fields_def set_mutable_fields source_mutable [OF assms(1)] piece_mutable_values_def map_of_mutable
      field_def)

lemma field_source_expected:
  assumes "stored_row e r"
  shows "field (source_expected_mapping r) k_department = of_id (cr_department r)"
    "field (source_expected_mapping r) k_work_center = of_id (cr_work_center r)"
    "k \<in> set mutable_fields \<Longrightarrow> map_of (source_expected_mapping r) k = map_of (source_mutable_values r) k"
  by (auto simp: field_def map_of_source_expected source_mutable [OF assms] map_of_mutable set_mutable_fields map_add_def)

lemma update_kept:
  assumes st: "stored_row e r" and src: "pc_source p = Some r" and at: "pc_attendance_id p = Some (cr_id r)"
    and changed: "changed = changed_fields (source_mutable_values r) (piece_mutable_values p e)"
  shows "simulate_update (select_fields changed (piece_mutable_values p e)) (source_expected_mapping r) = expected_mapping p e"
proof (rule frozen_dict_ext)
  let ?was = "source_mutable_values r" and ?new = "piece_mutable_values p e"
  let ?becomes = "select_fields changed ?new"
  have vals: "frozen v" if "(k, v) \<in> set ?becomes" for k v
    using that values_of_mutable unfolding select_fields_def piece_mutable_values_def by auto
  show "frozen_dict (simulate_update ?becomes (source_expected_mapping r))"
    unfolding simulate_update_def using vals frozen_source_expected [OF st]
    by (intro frozen_dict_put_all frozen_drop_if) auto
  show "frozen_dict (expected_mapping p e)" by (rule frozen_expected) (use src st in simp)
  have ch: "k \<in> set changed \<longleftrightarrow> map_of ?was k \<noteq> map_of ?new k" if "k \<in> set mutable_fields" for k
    unfolding changed by (rule field_changed [OF st that])
  have sub: "k \<in> set mutable_fields" if "k \<in> set changed" for k using that changed_facts unfolding changed by blast
  have dept: "k_department \<in> set changed \<longleftrightarrow> cr_department r \<noteq> pc_department p"
    using ch [of k_department] by (simp add: set_mutable_fields source_mutable [OF st] piece_mutable_values_def map_of_mutable)
  have wc: "k_work_center \<in> set changed \<longleftrightarrow> cr_work_center r \<noteq> pc_work_center p"
    using ch [of k_work_center] by (simp add: set_mutable_fields source_mutable [OF st] piece_mutable_values_def map_of_mutable)
  have bec: "map_of ?becomes k = (if k \<in> set changed then map_of ?new k else None)" for k by (rule lookup_select)
  have drop_dept: "has ?becomes k_department \<and> field (source_expected_mapping r) k_department \<noteq> field ?becomes k_department
      \<longleftrightarrow> cr_department r \<noteq> pc_department p"
    unfolding has_def field_source_expected(1) [OF st] unfolding field_def bec
    using dept by (simp add: piece_mutable_values_def map_of_mutable)
  have drop_wc: "has ?becomes k_work_center \<and> field (source_expected_mapping r) k_work_center \<noteq> field ?becomes k_work_center
      \<longleftrightarrow> cr_work_center r \<noteq> pc_work_center p"
    unfolding has_def field_source_expected(2) [OF st] unfolding field_def bec
    using wc by (simp add: piece_mutable_values_def map_of_mutable)
  have dist: "distinct (map fst ?becomes)"
    unfolding select_fields_def piece_mutable_values_def using distinct_map_filter [OF distinct_mutable] .
  have look: "map_of (simulate_update ?becomes (source_expected_mapping r)) k =
      (if k \<in> set changed then map_of ?new k
       else if cr_department r \<noteq> pc_department p \<and> k = k_department_name then None
       else if cr_work_center r \<noteq> pc_work_center p \<and> k = k_work_center_name then None
       else map_of (source_expected_mapping r) k)" for k
  proof -
    have none: "map_of ?becomes k = None" if "k \<notin> set changed" using that bec by simp
    have some: "\<exists>v. map_of ?new k = Some v" if "k \<in> set changed"
      using sub [OF that] by (auto simp: piece_mutable_values_def map_of_mutable set_mutable_fields)
    show ?thesis
      unfolding simulate_update_def drop_dept drop_wc map_of_put_all [OF dist] map_of_drop_if map_add_def
      by (cases "k \<in> set changed") (use none some bec [of k] in auto)
  qed
  have other: "map_of ?new k = None" "map_of ?was k = None" if "k \<notin> set mutable_fields" for k
    using that by (auto simp: piece_mutable_values_def source_mutable [OF st] map_of_mutable set_mutable_fields)
  have some: "\<exists>v. map_of ?new k = Some v" if "k \<in> set mutable_fields" for k
    using that by (auto simp: piece_mutable_values_def map_of_mutable set_mutable_fields)
  have names: "k_attendance \<notin> set mutable_fields" "k_department_name \<notin> set mutable_fields" "k_work_center_name \<notin> set mutable_fields"
    by (simp_all add: set_mutable_fields)
  show "map_of (simulate_update ?becomes (source_expected_mapping r)) = map_of (expected_mapping p e)"
  proof
    fix k
    show "map_of (simulate_update ?becomes (source_expected_mapping r)) k = map_of (expected_mapping p e) k"
    proof (cases "k \<in> set mutable_fields")
      case True
      then obtain v where v: "map_of ?new k = Some v" using some by blast
      have "k \<noteq> k_attendance" "k \<noteq> k_department_name" "k \<noteq> k_work_center_name" using True names by auto
      then show ?thesis using v ch [OF True] field_source_expected(3) [OF st True]
        unfolding look map_of_expected_kept [OF src at] by (auto simp: Let_def)
    next
      case False
      then have "k \<notin> set changed" using sub by blast
      then show ?thesis using other [OF False]
        unfolding look map_of_expected_kept [OF src at] map_of_source_expected by (auto simp: Let_def map_add_def)
    qed
  qed
qed

section \<open>The planned operations, in any order\<close>

definition planned_writes :: "(pyvalue \<Rightarrow> string) \<Rightarrow> dict \<Rightarrow> int \<Rightarrow> correction_row list \<Rightarrow> piece list \<Rightarrow> operation list" where
  "planned_writes digest rq e sources pieces =
     map (\<lambda>po. operation_of (key_of digest rq po) po) (operations_for_pieces sources pieces e)"

lemma operation_of_simps [simp]:
  "op_key (operation_of k po) = k" "op_kind (operation_of k po) = po_kind po"
  "op_attendance_id (operation_of k po) = po_attendance_id po" "op_employee (operation_of k po) = po_employee po"
  "op_before (operation_of k po) = po_before po" "op_after (operation_of k po) = po_after po"
  by (simp_all add: operation_of_def)

lemma mset_map_filter: "mset (List.map_filter f xs) = image_mset (\<lambda>x. the (f x)) (filter_mset (\<lambda>x. f x \<noteq> None) (mset xs))"
  by (induction xs) (auto simp: map_filter_Cons map_filter_Nil split: option.splits)

lemma distinct_map_filter_mset:
  "mset xs = mset ys \<Longrightarrow> distinct (List.map_filter f xs) \<longleftrightarrow> distinct (List.map_filter f ys)"
  by (rule mset_eq_imp_distinct_iff) (simp add: mset_map_filter)

lemma set_map_filter: "y \<in> set (List.map_filter f xs) \<longleftrightarrow> (\<exists>x \<in> set xs. f x = Some y)"
  by (induction xs) (auto simp: map_filter_Cons map_filter_Nil split: option.splits)

lemma distinct_ids:
  assumes pl: "planning e rq sources pieces" and perm: "mset opers = mset (planned_writes digest rqv e sources pieces)"
  shows "distinct (List.map_filter op_attendance_id opers)"
proof -
  have "distinct (List.map_filter po_attendance_id pending)" if "distinct (map signature pending)" for pending
    using that
  proof (induction pending)
    case (Cons po pending)
    have "i \<notin> set (List.map_filter po_attendance_id pending)" if "po_attendance_id po = Some i" for i
    proof
      assume "i \<in> set (List.map_filter po_attendance_id pending)"
      then obtain po' where "po' \<in> set pending" "po_attendance_id po' = Some i" using set_map_filter by metis
      then have "signature po = signature po'" "po' \<in> set pending" using that by (simp_all add: signature_def)
      then show False using Cons.prems by auto
    qed
    then show ?case using Cons by (simp add: map_filter_Cons split: option.splits)
  qed (simp add: map_filter_Nil)
  from this [OF distinct_signatures [OF pl]]
  have "distinct (List.map_filter op_attendance_id (planned_writes digest rqv e sources pieces))"
    by (simp add: planned_writes_def map_filter_def filter_map comp_def)
  then show ?thesis using distinct_map_filter_mset [OF perm] by blast
qed

lemma operation_on_Some:
  assumes "distinct (List.map_filter op_attendance_id opers)"
  shows "operation_on opers i = Some oper \<longleftrightarrow> oper \<in> set opers \<and> op_attendance_id oper = Some i"
  using assms
proof (induction opers)
  case (Cons a opers)
  have "i \<in> set (List.map_filter op_attendance_id opers)" if "oper \<in> set opers" "op_attendance_id oper = Some i"
    using that set_map_filter by metis
  then show ?case using Cons by (auto simp: operation_on_Cons map_filter_Cons split: option.splits if_splits)
qed (simp add: operation_on_def)

lemma operation_on_None:
  "operation_on opers i = None \<longleftrightarrow> (\<forall>oper \<in> set opers. op_attendance_id oper \<noteq> Some i)"
  by (auto simp: operation_on_def find_None_iff)

lemma source_operation_facts:
  assumes "po \<in> set (source_operation pieces e r)"
  shows "po_attendance_id po = Some (cr_id r)" "source_operation pieces e r = [po]" "po_kind po \<noteq> Create"
  using assms by (auto simp: source_operation_def Let_def split: option.splits if_splits)

lemma source_operation_member: "r \<in> set sources \<Longrightarrow> po \<in> set (source_operation pieces e r) \<Longrightarrow> po \<in> set (operations_for_pieces sources pieces e)"
  by (auto simp: operations_for_pieces_def)

lemma row_operation:
  assumes ok: "sources_ok sources" and r: "r \<in> set sources"
    and po: "po \<in> set (operations_for_pieces sources pieces e)" "po_attendance_id po = Some (cr_id r)"
  shows "source_operation pieces e r = [po]"
proof -
  have inj: "r' = r" if "r' \<in> set sources" "cr_id r' = cr_id r" for r'
    using that r ok by (auto simp: sources_ok_def distinct_map dest: inj_onD)
  from po(1) consider r' where "r' \<in> set sources" "po \<in> set (source_operation pieces e r')" | p where "po = piece_operation e p"
    by (auto simp: operations_for_pieces_def)
  then show ?thesis
  proof cases
    case (1 r')
    then have "r' = r" using inj source_operation_facts(1) [OF 1(2)] po(2) by simp
    then show ?thesis using source_operation_facts(2) 1(2) by blast
  next
    case (2 p)
    then show ?thesis using po(2) by (simp add: piece_operation_def)
  qed
qed

lemma write_for_row:
  assumes pl: "planning e rq sources pieces" and perm: "mset opers = mset (planned_writes digest rqv e sources pieces)"
    and r: "r \<in> set sources"
  shows "operation_on opers (cr_id r) =
    (case source_operation pieces e r of [] \<Rightarrow> None | po # _ \<Rightarrow> Some (operation_of (key_of digest rqv po) po))"
proof (cases "source_operation pieces e r")
  case Nil
  have "op_attendance_id oper \<noteq> Some (cr_id r)" if "oper \<in> set opers" for oper
  proof
    assume at: "op_attendance_id oper = Some (cr_id r)"
    have "oper \<in> set (planned_writes digest rqv e sources pieces)" using that mset_eq_setD [OF perm] by simp
    then obtain po where "po \<in> set (operations_for_pieces sources pieces e)" "oper = operation_of (key_of digest rqv po) po"
      by (auto simp: planned_writes_def)
    then show False using row_operation [OF planningD(2) [OF pl] r] at Nil by simp
  qed
  then have "operation_on opers (cr_id r) = None" unfolding operation_on_None by blast
  then show ?thesis using Nil by simp
next
  case (Cons po rest)
  then have po: "po \<in> set (source_operation pieces e r)" by simp
  have "operation_of (key_of digest rqv po) po \<in> set (planned_writes digest rqv e sources pieces)"
    using source_operation_member [OF r po] by (simp add: planned_writes_def)
  then have "operation_of (key_of digest rqv po) po \<in> set opers" using mset_eq_setD [OF perm] by simp
  then show ?thesis
    using operation_on_Some [OF distinct_ids [OF pl perm]] source_operation_facts(1) [OF po] Cons by simp
qed

lemma simulate_nothing: "simulate_update [] d = d"
  by (simp add: simulate_update_def has_def drop_if_def)

lemma select_nothing: "select_fields [] d = []"
  by (simp add: select_fields_def)

lemma write_effect:
  assumes pl: "planning e rq sources pieces" and perm: "mset opers = mset (planned_writes digest rqv e sources pieces)"
    and r: "r \<in> set sources"
  shows "effect (operation_on opers (cr_id r)) (source_expected_mapping r) =
    map_option (\<lambda>p. expected_mapping p e) (pieces_by_id pieces (cr_id r))"
proof (cases "pieces_by_id pieces (cr_id r)")
  case None
  then show ?thesis by (simp add: write_for_row [OF assms] source_operation_def)
next
  case (Some p)
  note ids = piece_by_id [OF planningD(4,2) [OF pl] r]
  have src: "pc_source p = Some r" using ids(2) [OF Some] .
  have at: "pc_attendance_id p = Some (cr_id r)" using ids(1) Some by blast
  let ?changed = "changed_fields (source_mutable_values r) (piece_mutable_values p e)"
  have kept: "simulate_update (select_fields ?changed (piece_mutable_values p e)) (source_expected_mapping r) = expected_mapping p e"
    by (rule update_kept [OF planningD(3) [OF pl r] src at refl])
  show ?thesis
  proof (cases "?changed = []")
    case True
    then show ?thesis using kept Some
      by (simp add: write_for_row [OF assms] source_operation_def Let_def select_nothing simulate_nothing)
  next
    case False
    then show ?thesis using kept Some by (simp add: write_for_row [OF assms] source_operation_def Let_def given_def)
  qed
qed

section \<open>Every planned operation is ready\<close>

lemma find_row:
  assumes "sources_ok sources" "r \<in> set sources"
  shows "find (\<lambda>r'. cr_id r' = cr_id r) (rev sources) = Some r"
proof -
  have "find (\<lambda>r'. cr_id r' = cr_id r) (rev sources) \<noteq> None" using assms(2) by (auto simp: find_None_iff)
  then obtain r' where r': "find (\<lambda>r'. cr_id r' = cr_id r) (rev sources) = Some r'" by auto
  then have "r' \<in> set sources" "cr_id r' = cr_id r" using find_SomeD by fastforce+
  then have "r' = r" using assms by (auto simp: sources_ok_def distinct_map dest: inj_onD)
  then show ?thesis using r' by simp
qed

definition initial :: "correction_row list \<Rightarrow> (int \<times> dict) list" where
  "initial sources = map (\<lambda>r. (cr_id r, source_expected_mapping r)) sources"

lemma initial_facts:
  assumes "sources_ok sources"
  shows "distinct (map fst (initial sources))"
    and "r \<in> set sources \<Longrightarrow> map_of (initial sources) (cr_id r) = Some (source_expected_mapping r)"
proof -
  have "map fst (initial sources) = map cr_id sources" by (simp add: initial_def)
  then show dist: "distinct (map fst (initial sources))" using assms by (simp add: sources_ok_def)
  show "r \<in> set sources \<Longrightarrow> map_of (initial sources) (cr_id r) = Some (source_expected_mapping r)"
    by (rule map_of_is_SomeI [OF dist]) (simp add: initial_def)
qed

lemma select_agrees:
  assumes st: "stored_row e r" and kv: "(k, v) \<in> set (select_fields changed (source_mutable_values r))"
    and sub: "set changed \<subseteq> set mutable_fields"
  shows "field (source_expected_mapping r) k = v"
proof -
  have "(k, v) \<in> set (source_mutable_values r)" "k \<in> set changed" using kv by (auto simp: select_fields_def)
  then have "map_of (source_mutable_values r) k = Some v" "k \<in> set mutable_fields"
    using sub by (auto simp: source_mutable [OF st])
  then show ?thesis using field_source_expected(3) [OF st] by (simp add: field_def)
qed

lemma planned_ready:
  assumes pl: "planning e rq sources pieces" and po: "po \<in> set (operations_for_pieces sources pieces e)"
  shows "operation_ready sources (initial sources) (operation_of key po)"
  using po
proof (cases rule: pending_cases)
  case (del r)
  then show ?thesis
    using find_row [OF planningD(2) [OF pl] del(1)] initial_facts(2) [OF planningD(2) [OF pl] del(1)]
    by (simp add: operation_ready_def given_def)
next
  case (upd r p changed)
  have "set changed \<subseteq> set mutable_fields" using upd(3) changed_facts by blast
  then have "\<forall>(k, v) \<in> set (select_fields changed (source_mutable_values r)). field (source_expected_mapping r) k = v"
    using select_agrees [OF planningD(3) [OF pl upd(1)]] by blast
  then show ?thesis using upd initial_facts(2) [OF planningD(2) [OF pl] upd(1)]
    by (simp add: operation_ready_def given_def)
next
  case (new p)
  then show ?thesis by (simp add: operation_ready_def piece_operation_def)
qed

section \<open>The projection\<close>

lemma kept_state:
  assumes pl: "planning e rq sources pieces" and perm: "mset opers = mset (planned_writes digest rqv e sources pieces)"
  shows "map snd (after_operations opers (initial sources)) =
    map (\<lambda>p. expected_mapping p e) (List.map_filter (\<lambda>r. pieces_by_id pieces (cr_id r)) sources)"
proof -
  have "map snd (after_operations opers (initial rs)) =
      map (\<lambda>p. expected_mapping p e) (List.map_filter (\<lambda>r. pieces_by_id pieces (cr_id r)) rs)" if "set rs \<subseteq> set sources" for rs
    using that
  proof (induction rs)
    case (Cons r rs)
    then have "r \<in> set sources" by simp
    from write_effect [OF pl perm this] Cons show ?case
      by (simp add: initial_def after_operations_Cons map_filter_Cons split: option.splits)
  qed (simp add: initial_def map_filter_Nil)
  then show ?thesis by blast
qed

lemma kept_pieces:
  assumes pl: "planning e rq sources pieces"
  shows "mset (List.map_filter (\<lambda>r. pieces_by_id pieces (cr_id r)) sources) = mset (filter (\<lambda>p. pc_attendance_id p \<noteq> None) pieces)"
proof -
  note ok = planningD(4,2) [OF pl]
  have ids: "pc_attendance_id p = Some (cr_id r)" if "r \<in> set sources" "pieces_by_id pieces (cr_id r) = Some p" for p r
    using piece_by_id(1) [OF ok that(1)] that(2) by blast
  have "distinct (List.map_filter (\<lambda>r. pieces_by_id pieces (cr_id r)) rs)" if "set rs \<subseteq> set sources" "distinct (map cr_id rs)" for rs
    using that
  proof (induction rs)
    case (Cons r rs)
    have "p \<notin> set (List.map_filter (\<lambda>r. pieces_by_id pieces (cr_id r)) rs)" if p: "pieces_by_id pieces (cr_id r) = Some p" for p
    proof
      assume "p \<in> set (List.map_filter (\<lambda>r. pieces_by_id pieces (cr_id r)) rs)"
      then obtain r' where "r' \<in> set rs" "pieces_by_id pieces (cr_id r') = Some p" unfolding set_map_filter by blast
      then have "r' \<in> set rs" "cr_id r' = cr_id r" using ids [of r' p] ids [of r p] p Cons.prems(1) by auto
      then show False using Cons.prems(2) by (metis distinct.simps(2) image_eqI list.set_map list.simps(9))
    qed
    then show ?case using Cons by (simp add: map_filter_Cons split: option.splits)
  qed (simp add: map_filter_Nil)
  then have 1: "distinct (List.map_filter (\<lambda>r. pieces_by_id pieces (cr_id r)) sources)"
    using ok(2) by (simp add: sources_ok_def)
  have 2: "distinct (filter (\<lambda>p. pc_attendance_id p \<noteq> None) pieces)"
    using planned_starts [OF pl] by (simp add: distinct_map)
  have "p \<in> set (List.map_filter (\<lambda>r. pieces_by_id pieces (cr_id r)) sources) \<longleftrightarrow> p \<in> set pieces \<and> pc_attendance_id p \<noteq> None" for p
  proof
    assume "p \<in> set (List.map_filter (\<lambda>r. pieces_by_id pieces (cr_id r)) sources)"
    then obtain r where "r \<in> set sources" "pieces_by_id pieces (cr_id r) = Some p" unfolding set_map_filter by blast
    then show "p \<in> set pieces \<and> pc_attendance_id p \<noteq> None" using piece_by_id(1) [OF ok] by auto
  next
    assume p: "p \<in> set pieces \<and> pc_attendance_id p \<noteq> None"
    then have "piece_ok sources p" using ok(1) by (simp add: pieces_ok_def)
    then obtain r where "r \<in> set sources" "pc_attendance_id p = Some (cr_id r)"
      using p by (auto simp: piece_ok_def split: option.splits)
    then show "p \<in> set (List.map_filter (\<lambda>r. pieces_by_id pieces (cr_id r)) sources)"
      using piece_by_id(1) [OF ok] p unfolding set_map_filter by blast
  qed
  then have "set (List.map_filter (\<lambda>r. pieces_by_id pieces (cr_id r)) sources) = set (filter (\<lambda>p. pc_attendance_id p \<noteq> None) pieces)"
    by auto
  then show ?thesis using set_eq_iff_mset_eq_distinct [OF 1 2] by blast
qed

lemma piece_source_stored:
  assumes pl: "planning e rq sources pieces" and p: "p \<in> set pieces"
  shows "pc_source p = Some r \<Longrightarrow> stored_row e r"
  using planningD(4) [OF pl] p planningD(3) [OF pl] by (auto simp: pieces_ok_def piece_ok_def)

lemma created_state:
  assumes pl: "planning e rq sources pieces" and perm: "mset opers = mset (planned_writes digest rqv e sources pieces)"
  shows "mset (map created_by (filter (\<lambda>oper. op_kind oper = Create) opers)) =
    mset (map (\<lambda>p. expected_mapping p e) (filter (\<lambda>p. pc_attendance_id p = None) pieces))"
proof -
  let ?op = "\<lambda>po. operation_of (key_of digest rqv po) po"
  have src: "filter (\<lambda>oper. op_kind oper = Create) (map ?op (concat (map (source_operation pieces e) rs))) = []" for rs
    using source_operation_facts(3) by (auto simp: filter_empty_conv)
  have all: "filter (\<lambda>oper. op_kind oper = Create) (map (\<lambda>p. ?op (piece_operation e p)) ps) = map (\<lambda>p. ?op (piece_operation e p)) ps" for ps
    by (simp add: filter_id_conv piece_operation_def)
  have creates: "filter (\<lambda>oper. op_kind oper = Create) (planned_writes digest rqv e sources pieces) =
      map (\<lambda>p. ?op (piece_operation e p)) (filter (\<lambda>p. pc_attendance_id p = None) pieces)"
    unfolding planned_writes_def operations_for_pieces_def map_append filter_append src map_map comp_def all by simp
  have "mset (map created_by (filter (\<lambda>oper. op_kind oper = Create) opers)) =
      mset (map created_by (filter (\<lambda>oper. op_kind oper = Create) (planned_writes digest rqv e sources pieces)))"
    using perm by simp
  also have "\<dots> = mset (map (\<lambda>p. created_by (?op (piece_operation e p))) (filter (\<lambda>p. pc_attendance_id p = None) pieces))"
    unfolding creates by (simp add: comp_def)
  also have "map (\<lambda>p. created_by (?op (piece_operation e p))) (filter (\<lambda>p. pc_attendance_id p = None) pieces) =
      map (\<lambda>p. expected_mapping p e) (filter (\<lambda>p. pc_attendance_id p = None) pieces)"
  proof (rule map_cong [OF refl])
    fix p assume "p \<in> set (filter (\<lambda>p. pc_attendance_id p = None) pieces)"
    then have "pc_attendance_id p = None" "frozen_dict (expected_mapping p e)"
      using frozen_expected piece_source_stored [OF pl] by auto
    from expected_new [OF this] show "created_by (?op (piece_operation e p)) = expected_mapping p e"
      by (simp add: created_by_def piece_operation_def given_def)
  qed
  finally show ?thesis .
qed

lemma expected_lookup:
  "map_of (expected_mapping p e) k_check_in = Some (of_time (pc_start p))"
  "map_of (expected_mapping p e) k_attendance = Some (of_id (pc_attendance_id p))"
proof -
  have 1: "map_of (put_all (piece_mutable_values p e) b) k_check_in = Some (of_time (pc_start p))" for b
    by (simp add: piece_mutable_values_def map_of_put_all map_of_mutable)
  show "map_of (expected_mapping p e) k_check_in = Some (of_time (pc_start p))"
    "map_of (expected_mapping p e) k_attendance = Some (of_id (pc_attendance_id p))"
    by (auto simp: expected_mapping_def Let_def map_of_drop_if 1 split: option.splits)
qed

lemma interval_key_expected: "interval_key (expected_mapping p e) = piece_key p"
  by (simp add: interval_key_def piece_key_def field_def expected_lookup of_time_def time_of_def of_id_def id_order_def
      split: option.splits)

lemma sort_expected: "sort_key interval_key (map (\<lambda>p. expected_mapping p e) pieces) = expected_intervals pieces e"
proof -
  have ins: "insort_key interval_key (expected_mapping p e) (map (\<lambda>p. expected_mapping p e) ps) =
      map (\<lambda>p. expected_mapping p e) (insort_key piece_key p ps)" for p ps
    by (induction ps) (auto simp: interval_key_expected)
  show ?thesis unfolding expected_intervals_def
    by (induction pieces) (simp_all add: ins)
qed

lemma distinct_piece_keys: "planning e rq sources pieces \<Longrightarrow> distinct (map piece_key pieces)"
  by (rule distinct_map_refine [OF planned_starts]) (auto simp: piece_key_def)

lemma frozen_intervals:
  assumes pl: "planning e rq sources pieces" and d: "d \<in> set (expected_intervals pieces e)"
  shows "frozen_dict d"
  using d frozen_expected piece_source_stored [OF pl] by (auto simp: expected_intervals_def)

lemma freeze_all: "\<forall>d \<in> set ds. frozen_dict d \<Longrightarrow> rmap freeze_mapping ds = Inr ds"
  using rmap_same [of ds freeze_mapping "\<lambda>d. d"] freeze_frozen_mapping by simp

theorem projection:
  assumes pl: "planning e rq sources pieces" and perm: "mset opers = mset (planned_writes digest rqv e sources pieces)"
  shows "simulate_operations sources opers = Inr (expected_intervals pieces e)"
proof -
  have ready: "\<forall>oper \<in> set opers. operation_ready sources (initial sources) oper"
    using planned_ready [OF pl] mset_eq_setD [OF perm] by (auto simp: planned_writes_def)
  let ?final = "after_operations opers (initial sources)" and ?new = "map created_by (filter (\<lambda>oper. op_kind oper = Create) opers)"
  have run: "simulate_loop sources opers (initial sources, []) = Inr (?final, ?new)"
    using simulate_loop_effect [OF initial_facts(1) [OF planningD(2) [OF pl]] distinct_ids [OF pl perm] ready, of "[]"] by simp
  have "mset (map snd ?final @ ?new) =
      image_mset (\<lambda>p. expected_mapping p e) (mset (filter (\<lambda>p. pc_attendance_id p \<noteq> None) pieces) + mset (filter (\<lambda>p. \<not> pc_attendance_id p \<noteq> None) pieces))"
    using created_state [OF pl perm] kept_pieces [OF pl] unfolding kept_state [OF pl perm] mset_append mset_map image_mset_union by (simp only: not_not mset_filter mset_map)
  also have "\<dots> = mset (map (\<lambda>p. expected_mapping p e) pieces)"
    by (simp flip: multiset_partition)
  finally have same: "mset (map snd ?final @ ?new) = mset (map (\<lambda>p. expected_mapping p e) pieces)" .
  have "inj_on interval_key (set (map (\<lambda>p. expected_mapping p e) pieces))"
    using distinct_piece_keys [OF pl] by (auto simp: inj_on_def distinct_map interval_key_expected)
  then have inj: "inj_on interval_key (set (map snd ?final @ ?new))" using mset_eq_setD [OF same] by simp
  have "mset (map snd ?final @ ?new) = mset (sort_key interval_key (map (\<lambda>p. expected_mapping p e) pieces))"
    using same by simp
  from sort_key_inj_key_eq [OF this inj sorted_sort_key]
  have "sort_key interval_key (map snd ?final @ ?new) = sort_key interval_key (map (\<lambda>p. expected_mapping p e) pieces)" .
  then have "sort_key interval_key (map snd ?final @ ?new) = expected_intervals pieces e" by (simp add: sort_expected)
  then show ?thesis using run freeze_all frozen_intervals [OF pl]
    by (simp add: simulate_operations_def initial_def)
qed

end
