(* ===== verification/Correction_Validation.thy ===== *)
theory Correction_Validation
  imports Correction_Projection
begin

text \<open>
  A planned correction passes the validation of its constructor: the request, the source snapshot,
  the versions, the order and keys of the operations, the expected intervals, and the comparison
  with what the request plans from the sources.
\<close>

section \<open>The request\<close>

lemma request_keys [simp]:
  "k_start \<noteq> k_end" "k_end \<noteq> k_start" "k_start \<noteq> k_merge" "k_merge \<noteq> k_start" "k_end \<noteq> k_merge" "k_merge \<noteq> k_end"
  "k_start \<noteq> k_employee" "k_employee \<noteq> k_start" "k_start \<noteq> k_work_center" "k_work_center \<noteq> k_start"
  "k_start \<noteq> k_department" "k_department \<noteq> k_start" "k_end \<noteq> k_employee" "k_employee \<noteq> k_end"
  "k_end \<noteq> k_work_center" "k_work_center \<noteq> k_end" "k_end \<noteq> k_department" "k_department \<noteq> k_end"
  "k_merge \<noteq> k_employee" "k_employee \<noteq> k_merge" "k_merge \<noteq> k_work_center" "k_work_center \<noteq> k_merge"
  "k_merge \<noteq> k_department" "k_department \<noteq> k_merge"
  by (simp_all add: k_start_def k_end_def k_merge_def k_employee_def k_work_center_def k_department_def)

lemma request_lookup:
  "map_of (request_values e rq) =
     [k_employee \<mapsto> PyInt e, k_start \<mapsto> of_time (rq_start rq), k_end \<mapsto> of_end (rq_end rq),
      k_work_center \<mapsto> PyInt (rq_work_center rq), k_department \<mapsto> of_id (rq_department rq)]
     ++ (if rq_merge rq then [k_merge \<mapsto> PyBool True] else Map.empty)"
proof -
  let ?l = "[(k_employee, PyInt e), (k_start, of_time (rq_start rq)), (k_end, of_end (rq_end rq)),
      (k_work_center, PyInt (rq_work_center rq)), (k_department, of_id (rq_department rq))]
      @ (if rq_merge rq then [(k_merge, PyBool True)] else [])"
  have "distinct (map fst ?l)" by simp
  from map_of_sort_key [OF this] have "map_of (request_values e rq) = map_of ?l" by (simp only: request_values_def)
  then show ?thesis by (auto simp: fun_eq_iff map_add_def)
qed

lemma request_key_set: "fst ` set (request_values e rq) = set (if rq_merge rq then k_merge # request_fields else request_fields)"
  unfolding request_values_def request_fields_def set_sort by auto

lemma validate_planned_request:
  assumes "planning e rq sources pieces"
  shows "validate_request (request_values e rq) = Inr (e, rq)"
proof -
  let ?d = "request_values e rq" and ?keys = "if rq_merge rq then k_merge # request_fields else request_fields"
  have merge: "has ?d k_merge = rq_merge rq" by (simp add: has_def request_lookup)
  have 1: "filter (\<lambda>k. k \<notin> set ?keys) (map fst ?d) = []"
    unfolding filter_empty_conv set_map request_key_set by blast
  have "has ?d k" if "k \<in> set ?keys" for k
    using that unfolding request_key_set [symmetric, of rq e] has_def by (simp add: map_of_eq_None_iff)
  then have 2: "filter (\<lambda>k. \<not> has ?d k) ?keys = []" by (simp add: filter_empty_conv)
  have exact: "exact_keys ?d ?keys ''correction request'' = Inr ()"
    unfolding exact_keys_def 1 2 by simp
  have fields: "field ?d k_employee = PyInt e" "field ?d k_start = of_time (rq_start rq)" "field ?d k_end = of_end (rq_end rq)"
    "field ?d k_work_center = PyInt (rq_work_center rq)" "field ?d k_department = of_id (rq_department rq)"
    "rq_merge rq \<Longrightarrow> field ?d k_merge = PyBool True"
    by (simp_all add: field_def request_lookup map_add_def)
  have opt: "checked_positive_int (PyInt e) k_employee = Inr e" "checked_positive_int (PyInt (rq_work_center rq)) k_work_center = Inr (rq_work_center rq)"
    "checked_optional_int (of_id (rq_department rq)) k_department = Inr (rq_department rq)" "ends_after (rq_end rq) (rq_start rq)"
    using assms by (auto simp: planning_def checked_positive_int_def place_ok_def of_id_def checked_optional_int_def split: option.splits)
  show ?thesis
    unfolding validate_request_def Let_def merge exact using fields opt by simp
qed

lemma frozen_request: "frozen_dict (request_values e rq)"
  unfolding frozen_dict_def request_values_def set_sort
  by (rule conjI [OF key_sorted_sort]) (auto simp: of_time_def of_end_def of_id_def split: option.splits)

section \<open>The sources and their versions\<close>

lemma planned_sources:
  assumes pl: "planning e rq sources pieces" and p: "pl_sources p = map cr_values sources"
  shows "plan_sources p e = Inr sources"
proof -
  have "rmap (\<lambda>d. checked_positive_int (field d k_attendance) k_attendance) (map cr_values rs) = Inr (map cr_id rs)"
    if "set rs \<subseteq> set sources" for rs
    using that
  proof (induction rs)
    case (Cons r rs)
    then have "stored_row e r" using planningD(3) [OF pl] by simp
    then have "checked_positive_int (field (cr_values r) k_attendance) k_attendance = Inr (cr_id r)"
      by (simp add: stored_row_def field_def checked_positive_int_def)
    then show ?case using Cons by simp
  qed simp
  then have 1: "rmap (\<lambda>d. checked_positive_int (field d k_attendance) k_attendance) (map cr_values sources) = Inr (map cr_id sources)"
    by blast
  have "normalize_source_rows (map PyMap (map cr_values sources)) e = Inr sources"
    using stored_snapshot [of sources e] pl by (simp add: planning_def comp_def)
  then show ?thesis by (simp add: plan_sources_def p 1)
qed

lemma planned_versions:
  assumes pl: "planning e rq sources pieces" and p: "pl_versions p = source_versions sources"
  shows "check_versions p sources = Inr ()"
proof -
  have "sort_key version_key (source_versions sources) = source_versions sources"
    by (rule sort_key_id_if_sorted) (simp add: source_versions_def)
  moreover have "distinct (map sv_attendance_id (source_versions sources))"
    using planningD(2) [OF pl] by (simp add: source_versions_def sources_ok_def comp_def)
  ultimately show ?thesis by (simp add: check_versions_def p)
qed

lemma version_ids: "set (map sv_attendance_id (source_versions sources)) = cr_id ` set sources"
  by (simp add: source_versions_def image_image)

section \<open>The operations\<close>

lemma planned_key_sources:
  assumes run: "pieces_for_request rq sources = Inr pieces" and ok: "distinct (map cr_id sources)" and p: "p \<in> set pieces"
  shows "distinct (map cr_id (pc_key_sources p))"
proof -
  have untouched: "distinct (map cr_id (pc_key_sources q))" if "q \<in> untouched_piece ` rs" for q rs
    using that by (auto simp: untouched_piece_def)
  have left: "distinct (map cr_id (pc_key_sources q))" if "q \<in> set (left_remainder s rs)" for q s rs
    using that by (auto simp: left_remainder_def split: if_splits)
  have tgt: "distinct (map cr_id (pc_key_sources (target_piece rq r s f rs)))" if "distinct (map cr_id rs)" for r s f rs
    using that by (simp add: target_piece_def split: option.splits)
  have sur: "distinct (map cr_id (pc_key_sources q))" if "q \<in> set (surgery rq s f rs)" "distinct (map cr_id rs)" for q s f rs
    using that left tgt by (auto simp: surgery_def Let_def right_remainder_def split: if_splits)
  have part: "distinct (map cr_id (filter P sources))" for P using ok by (simp add: distinct_map_filter)
  have ov: "distinct (map cr_id (overlapping s f sources))" "distinct (map cr_id (from_onward s sources))" for s f
    by (simp_all only: overlapping_def from_onward_def part)
  have grp: "distinct (map cr_id g)" if "g \<in> set (runs (overlapping s f sources))" for g s f
  proof -
    have "concat (map (map cr_id) (runs (overlapping s f sources))) = map cr_id (overlapping s f sources)"
      using runs_ok [of "overlapping s f sources"] by (simp flip: map_concat)
    then show ?thesis using ov(1) [of s f] that by (metis distinct_concat_iff image_eqI list.set_map)
  qed
  have closed: "distinct (map cr_id (pc_key_sources q))" if q: "q \<in> set (closed_pieces rq f sources)" for q f
  proof -
    from q consider rs where "q \<in> untouched_piece ` rs" | s f' where "q = target_piece rq None s f' []"
      | g where "g \<in> set (runs (overlapping (rq_start rq) f sources))" "q \<in> set (run_pieces rq f g)"
      unfolding closed_pieces_def Let_def by (fastforce split: if_splits)
    then show ?thesis
    proof cases
      case (3 g)
      then show ?thesis using sur grp unfolding run_pieces_surgery by blast
    qed (use untouched tgt [of "[]"] in auto)
  qed
  have merged: "distinct (map cr_id (pc_key_sources q))" if q: "q \<in> set (closed_merge_pieces rq f sources)" for q f
  proof -
    from q consider rs where "q \<in> untouched_piece ` rs" | s f' where "q = target_piece rq None s f' []"
      | "q \<in> set (surgery rq (rq_start rq) f (overlapping (rq_start rq) f sources))"
      unfolding closed_merge_pieces_def Let_def by (fastforce split: if_splits)
    then show ?thesis by cases (use untouched tgt [of "[]"] sur ov in auto)
  qed
  have opened: "distinct (map cr_id (pc_key_sources q))" if q: "q \<in> set (open_pieces rq sources)" for q
  proof -
    from q consider rs where "q \<in> untouched_piece ` rs" | s r where "q = target_piece rq r s None []"
      | "q \<in> set (left_remainder (rq_start rq) (from_onward (rq_start rq) sources))"
      | r where "q = target_piece rq r (rq_start rq) None (from_onward (rq_start rq) sources)"
      unfolding open_pieces_def Let_def by (fastforce split: if_splits)
    then show ?thesis
    proof cases
      case 3
      then show ?thesis by (rule left)
    qed (use untouched tgt [of "[]"] tgt [OF ov(2)] in auto)
  qed
  have omerged: "distinct (map cr_id (pc_key_sources q))" if q: "open_merge_pieces rq sources = Inr qs" "q \<in> set qs" for q qs
  proof -
    from q consider rs where "q \<in> untouched_piece ` rs" | s r where "q = target_piece rq r s None []"
      | "q \<in> set (left_remainder (rq_start rq) (from_onward (rq_start rq) sources))"
      unfolding open_merge_pieces_def Let_def by (fastforce split: if_splits option.splits)
    then show ?thesis
    proof cases
      case 3
      then show ?thesis by (rule left)
    qed (use untouched tgt [of "[]"] in auto)
  qed
  have all: "distinct (map cr_id (pc_key_sources q))" if "q \<in> set (map untouched_piece sources)" for q
    using untouched [of q "set sources"] that by simp
  show ?thesis using run p all closed merged opened omerged
    by (auto simp: pieces_for_request_def merge_pieces_for_request_def split: if_splits option.splits)
qed

lemma pending_facts:
  assumes pl: "planning e rq sources pieces" and po: "po \<in> set (operations_for_pieces sources pieces e)"
  shows "po_employee po = e"
    and "po_attendance_id po = Some i \<Longrightarrow> i \<in> cr_id ` set sources"
    and "distinct (map cr_id (po_sources po))"
    and "po_kind po \<noteq> Create \<Longrightarrow> map Some (map cr_id (po_sources po)) = [po_attendance_id po]"
proof -
  have run: "pieces_for_request rq sources = Inr pieces" and dist: "distinct (map cr_id sources)"
    using pl by (simp_all add: planning_def sources_ok_def)
  from po show "po_employee po = e" by (cases rule: pending_cases) (auto simp: piece_operation_def)
  from po show "po_attendance_id po = Some i \<Longrightarrow> i \<in> cr_id ` set sources"
    by (cases rule: pending_cases) (auto simp: piece_operation_def)
  from po show "distinct (map cr_id (po_sources po))"
    using planned_key_sources [OF run dist] by (cases rule: pending_cases) (auto simp: piece_operation_def)
  from po show "po_kind po \<noteq> Create \<Longrightarrow> map Some (map cr_id (po_sources po)) = [po_attendance_id po]"
    by (cases rule: pending_cases) (auto simp: piece_operation_def)
qed

lemma key_sources_rows:
  assumes "sources_ok sources" and "set rows \<subseteq> set sources"
  shows "key_sources sources (map cr_id rows) = Inr rows"
  using assms(2)
proof (induction rows)
  case (Cons r rows)
  then show ?case using find_row [OF assms(1), of r] by (simp add: key_sources_def)
qed (simp add: key_sources_def)

lemma planned_check:
  assumes pl: "planning e rq sources pieces" and hex: "hex_digest digest"
    and po: "po \<in> set (operations_for_pieces sources pieces e)"
    and p: "pl_versions p = source_versions sources" "pl_request p = request_values e rq"
  shows "check_operation digest p e sources (operation_of (key_of digest (request_values e rq) po) po) = Inr ()"
proof -
  note f = pending_facts [OF pl po]
  have sub: "set (po_sources po) \<subseteq> set sources" using pending_key [OF pl po] by blast
  then have pos: "\<forall>r \<in> set (po_sources po). 0 < cr_id r" using stored_rowD(2) planningD(3) [OF pl] by blast
  have known: "case po_attendance_id po of None \<Rightarrow> True | Some i \<Rightarrow> i \<in> set (map sv_attendance_id (pl_versions p))"
    using f(2) unfolding p version_ids by (simp split: option.splits)
  have own: "po_kind po = Create \<or> map (Some \<circ> cr_id) (po_sources po) = [po_attendance_id po]" using f(4) by auto
  show ?thesis
    unfolding check_operation_def operation_of_simps keyed_planned(2) [OF pl hex po] option.case
      source_token_facts(3) [OF pos] key_sources_rows [OF planningD(2) [OF pl] sub] p(2) f(1)
    using known f(3) own by (simp add: operation_key_planned [OF pl po, unfolded f(1)])
qed

lemma hashable_id: "hashable (of_id i)"
  by (simp add: of_id_def split: option.splits)

lemma planned_order:
  assumes keys: "distinct (map op_key (pl_operations p))" and ids: "distinct (List.map_filter op_attendance_id (pl_operations p))"
    and exp: "pl_expected p = expected_intervals pieces e"
    and order: "pl_operations p = sort_key (operation_sort_key (pl_expected p)) writes"
  shows "check_operation_order p = Inr ()"
proof -
  have "check_expected_ids (pl_expected p) = Inr ()"
    unfolding check_expected_ids_def check_each_Inr exp expected_intervals_def
    by (simp add: has_def field_def expected_lookup hashable_id)
  moreover have "pl_operations p = sort_key (operation_sort_key (pl_expected p)) (pl_operations p)"
    by (rule sym, rule sort_key_id_if_sorted) (simp add: order)
  ultimately show ?thesis unfolding check_operation_order_def using keys ids by simp
qed

section \<open>The expected intervals\<close>

lemma expected_fields:
  "map_of (expected_mapping p e) k_employee = Some (PyInt e)"
  "map_of (expected_mapping p e) k_check_out = Some (of_end (pc_end p))"
  "map_of (expected_mapping p e) k_work_center = Some (of_id (pc_work_center p))"
  "map_of (expected_mapping p e) k_department = Some (of_id (pc_department p))"
proof -
  have "map_of (put_all (piece_mutable_values p e) b) k = map_of (piece_mutable_values p e) k"
    if "k \<in> set mutable_fields" for b k
    using that by (auto simp: piece_mutable_values_def map_of_put_all map_of_mutable set_mutable_fields)
  moreover have "map_of (expected_mapping p e) k =
      map_of (put_all (piece_mutable_values p e)
        (case pc_source p of Some r \<Rightarrow> if pc_attendance_id p = None then [] else without_versions (cr_values r) | None \<Rightarrow> [])) k"
    if "k \<in> set mutable_fields" for k
    using that by (auto simp: expected_mapping_def Let_def map_of_drop_if set_mutable_fields split: option.splits)
  ultimately have "map_of (expected_mapping p e) k = map_of (piece_mutable_values p e) k" if "k \<in> set mutable_fields" for k
    using that by simp
  then show "map_of (expected_mapping p e) k_employee = Some (PyInt e)"
    "map_of (expected_mapping p e) k_check_out = Some (of_end (pc_end p))"
    "map_of (expected_mapping p e) k_work_center = Some (of_id (pc_work_center p))"
    "map_of (expected_mapping p e) k_department = Some (of_id (pc_department p))"
    by (simp_all add: set_mutable_fields piece_mutable_values_def map_of_mutable)
qed

definition piece_state :: "int \<Rightarrow> piece \<Rightarrow> datetime \<times> datetime option \<times> int option \<times> int" where
  "piece_state e p = (pc_start p, pc_end p, pc_attendance_id p, e)"

lemma checked_id: "place_ok i \<Longrightarrow> checked_optional_int (of_id i) name = Inr i"
  by (simp add: checked_optional_int_def of_id_def place_ok_def checked_positive_int_def split: option.splits)

lemma validate_planned_interval:
  assumes pl: "planning e rq sources pieces" and p: "p \<in> set pieces"
  shows "validate_expected_interval (expected_mapping p e) = Inr (piece_state e p)"
proof -
  note pp = planned_piece [OF pl p]
  have "piece_ok sources p" using planningD(4) [OF pl] p by (simp add: pieces_ok_def)
  moreover have "\<forall>r \<in> set sources. 0 < cr_id r" using stored_rowD(2) planningD(3) [OF pl] by blast
  ultimately have "place_ok (pc_attendance_id p)" by (auto simp: piece_ok_def place_ok_def split: option.splits)
  then have id: "checked_optional_int (of_id (pc_attendance_id p)) k_attendance = Inr (pc_attendance_id p)" by (rule checked_id)
  have miss: "filter (\<lambda>k. \<not> has (expected_mapping p e) k) expected_required = []"
    by (simp add: expected_required_def mutable_fields_def has_def expected_fields expected_lookup)
  have fields: "field (expected_mapping p e) k_attendance = of_id (pc_attendance_id p)"
    "field (expected_mapping p e) k_employee = PyInt e" "field (expected_mapping p e) k_check_in = of_time (pc_start p)"
    "field (expected_mapping p e) k_check_out = of_end (pc_end p)"
    "field (expected_mapping p e) k_work_center = of_id (pc_work_center p)"
    "field (expected_mapping p e) k_department = of_id (pc_department p)"
    by (simp_all add: field_def expected_fields expected_lookup)
  have "checked_positive_int (PyInt e) k_employee = Inr e" using planningD(1) [OF pl] by (simp add: checked_positive_int_def)
  then show ?thesis
    unfolding validate_expected_interval_def Let_def miss fields id checked_id [OF pp(2)] checked_id [OF pp(3)]
    using pp(1) by (simp add: piece_state_def)
qed

definition disjoint_pieces :: "piece \<Rightarrow> piece \<Rightarrow> bool" where
  "disjoint_pieces p q = (\<not> ends_after (pc_end p) (pc_start q))"

lemma pieces_apart:
  assumes one: "\<And>t. length (pieces_at ps t) \<le> 1" and pos: "\<forall>p \<in> set ps. ends_after (pc_end p) (pc_start p)"
    and pq: "p \<in> set ps" "q \<in> set ps" "pc_start p < pc_start q"
  shows "disjoint_pieces p q"
proof (rule ccontr)
  assume "\<not> disjoint_pieces p q"
  then have cov: "piece_covers p (pc_start q)" "piece_covers q (pc_start q)"
    using pq pos by (auto simp: piece_covers_def disjoint_pieces_def)
  let ?f = "filter (\<lambda>p. piece_covers p (pc_start q)) ps"
  have "length ?f \<le> 1" using one [of "pc_start q"] by (simp add: pieces_at_def)
  moreover have "{p, q} \<subseteq> set ?f" using cov pq by auto
  ultimately have "card {p, q} \<le> 1" by (meson card_length card_mono finite_set le_trans)
  then show False using pq(3) by (auto simp: card_insert_if split: if_splits)
qed

lemma sorted_pieces_apart:
  assumes pl: "planning e rq sources pieces"
  shows "sorted_wrt disjoint_pieces (sort_key piece_key pieces)"
proof -
  let ?ps = "sort_key piece_key pieces"
  have "length (pieces_at pieces t) \<le> 1" for t
    using requested_single [OF planningD(2) [OF pl]] planningD(5) [OF pl] by metis
  moreover have "\<forall>p \<in> set pieces. ends_after (pc_end p) (pc_start p)" using planned_piece(1) [OF pl] by blast
  ultimately have apart: "disjoint_pieces p q" if "p \<in> set pieces" "q \<in> set pieces" "pc_start p < pc_start q" for p q
    using pieces_apart that by blast
  have "sorted (map piece_key ?ps)" by simp
  then have "sorted_wrt (\<lambda>p q. pc_start p \<le> pc_start q) ?ps"
    unfolding sorted_map by (rule sorted_wrt_mono_rel [rotated]) (auto simp: piece_key_def less_eq_prod_def)
  moreover have "distinct (map pc_start ?ps)" using planned_starts [OF pl] by simp
  then have "sorted_wrt (\<lambda>p q. pc_start p \<noteq> pc_start q) ?ps"
    by (simp add: sorted_wrt_iff_nth_less distinct_conv_nth)
  ultimately have "sorted_wrt (\<lambda>p q. pc_start p < pc_start q) ?ps"
    by (auto simp: sorted_wrt_iff_nth_less order.strict_iff_order)
  then show ?thesis by (rule sorted_wrt_mono_rel [rotated]) (use apart in auto)
qed

lemma check_intervals_pass:
  assumes "sorted_wrt disjoint_pieces ps" and "distinct (ids_of ps)" and "set (ids_of ps) \<inter> seen = {}"
    and "set (ids_of ps) \<subseteq> known" and "\<forall>p \<in> set ps. case prev of None \<Rightarrow> True | Some f \<Rightarrow> \<not> ends_after f (pc_start p)"
  shows "check_intervals (map (piece_state e) ps) known seen prev = Inr ()"
  using assms
proof (induction ps arbitrary: seen prev)
  case (Cons p ps)
  have prev: "\<not> (case prev of None \<Rightarrow> False | Some f \<Rightarrow> ends_after f (pc_start p))"
    using Cons.prems(5) by (auto split: option.splits)
  have next_end: "\<forall>q \<in> set ps. case Some (pc_end p) of None \<Rightarrow> True | Some f \<Rightarrow> \<not> ends_after f (pc_start q)"
    using Cons.prems(1) by (simp add: disjoint_pieces_def)
  show ?case
  proof (cases "pc_attendance_id p")
    case None
    have "check_intervals (map (piece_state e) ps) known seen (Some (pc_end p)) = Inr ()"
      by (rule Cons.IH [OF _ _ _ _ next_end]) (use Cons.prems None in auto)
    then show ?thesis using prev None by (simp add: piece_state_def [of e p])
  next
    case (Some i)
    have "check_intervals (map (piece_state e) ps) known (insert i seen) (Some (pc_end p)) = Inr ()"
      by (rule Cons.IH [OF _ _ _ _ next_end]) (use Cons.prems Some in auto)
    then show ?thesis using prev Some Cons.prems(3,4) by (simp add: piece_state_def [of e p])
  qed
qed simp

lemma same_refl: "\<forall>d \<in> set ds. frozen_dict d \<Longrightarrow> same_intervals ds ds"
  unfolding same_intervals_def by (rule py_eq_refl) (use frozen_dict_ok in \<open>auto simp: list_all_iff\<close>)

lemma ids_of_mset: "mset ps = mset qs \<Longrightarrow> distinct (ids_of ps) \<longleftrightarrow> distinct (ids_of qs)"
  unfolding ids_of_def by (rule distinct_map_filter_mset)

lemma planned_expected:
  assumes pl: "planning e rq sources pieces"
    and exp: "pl_expected p = expected_intervals pieces e" and ver: "pl_versions p = source_versions sources"
    and perm: "mset (pl_operations p) = mset (planned_writes digest rqv e sources pieces)"
  shows "check_expected p e sources = Inr ()"
proof -
  let ?ps = "sort_key piece_key pieces"
  have "rmap validate_expected_interval (map (\<lambda>p. expected_mapping p e) qs) = Inr (map (piece_state e) qs)" if "set qs \<subseteq> set pieces" for qs
    using that validate_planned_interval [OF pl] by (induction qs) auto
  then have states: "rmap validate_expected_interval (expected_intervals pieces e) = Inr (map (piece_state e) ?ps)"
    by (simp add: expected_intervals_def)
  have "map interval_key (expected_intervals pieces e) = map piece_key ?ps"
    by (simp add: expected_intervals_def comp_def interval_key_expected)
  then have sorted: "sort_key interval_key (expected_intervals pieces e) = expected_intervals pieces e"
    by (intro sort_key_id_if_sorted) simp
  have frozen: "\<forall>d \<in> set (expected_intervals pieces e). frozen_dict d" using frozen_intervals [OF pl] by blast
  have "op_employee oper = e" if "oper \<in> set (pl_operations p)" for oper
    using that mset_eq_setD [OF perm] pending_facts(1) [OF pl] by (auto simp: planned_writes_def)
  then have mixed: "list_all (\<lambda>(_, _, _, e'). e' = e) (map (piece_state e) ?ps) \<and> list_all (\<lambda>oper. op_employee oper = e) (pl_operations p)"
    by (simp add: list_all_iff piece_state_def)
  have ids: "distinct (ids_of ?ps)" "set (ids_of ?ps) \<subseteq> cr_id ` set sources"
    using planningD(4) [OF pl] ids_of_mset [of ?ps pieces] ids_of_ok [of ?ps sources] by (auto simp: pieces_ok_def)
  have "check_intervals (map (piece_state e) ?ps) (cr_id ` set sources) {} None = Inr ()"
    by (rule check_intervals_pass [OF sorted_pieces_apart [OF pl] ids(1) _ ids(2)]) simp_all
  then show ?thesis
    unfolding check_expected_def exp states rbind_simps sorted ver version_ids
    using mixed same_refl [OF frozen] projection [OF pl perm] by simp
qed

section \<open>The plan\<close>

lemma planned_keyed:
  assumes pl: "planning e rq sources pieces" and hex: "hex_digest digest"
  shows "planned_operations digest (request_values e rq) e sources pieces expected =
    Inr (sort_key (operation_sort_key expected) (planned_writes digest (request_values e rq) e sources pieces))"
proof -
  have "rmap (keyed_operation digest (request_values e rq)) (operations_for_pieces sources pieces e) =
      Inr (planned_writes digest (request_values e rq) e sources pieces)"
    unfolding planned_writes_def by (rule rmap_same) (rule keyed_planned(1) [OF pl hex])
  then show ?thesis by (simp add: planned_operations_def)
qed

definition planned_correction ::
    "(pyvalue \<Rightarrow> string) \<Rightarrow> int \<Rightarrow> request \<Rightarrow> correction_row list \<Rightarrow> piece list \<Rightarrow> plan" where
  "planned_correction digest e rq sources pieces =
     \<lparr>pl_versions = source_versions sources,
      pl_operations = sort_key (operation_sort_key (expected_intervals pieces e))
        (planned_writes digest (request_values e rq) e sources pieces),
      pl_expected = expected_intervals pieces e, pl_request = request_values e rq,
      pl_sources = map cr_values sources\<rparr>"

lemma validate_planned:
  assumes pl: "planning e rq sources pieces" and tm: "times_ok rq sources" and hex: "hex_digest digest"
    and free: "collision_free digest (request_values e rq) (operations_for_pieces sources pieces e)"
  shows "validate_plan digest (planned_correction digest e rq sources pieces) = Inr ()"
proof -
  let ?p = "planned_correction digest e rq sources pieces"
  let ?writes = "planned_writes digest (request_values e rq) e sources pieces"
  have perm: "mset (pl_operations ?p) = mset ?writes" by (simp add: planned_correction_def)
  have "map op_key ?writes = map (key_of digest (request_values e rq)) (operations_for_pieces sources pieces e)"
    by (simp add: planned_writes_def)
  then have "distinct (map op_key ?writes)" using distinct_keys [OF pl tm hex free] by simp
  then have keys: "distinct (map op_key (pl_operations ?p))" by (simp add: planned_correction_def)
  have order: "check_operation_order ?p = Inr ()"
    by (rule planned_order [OF keys distinct_ids [OF pl perm]]) (simp_all add: planned_correction_def)
  have ops: "check_each (check_operation digest ?p e sources) (pl_operations ?p) = Inr ()"
    unfolding check_each_Inr
    using planned_check [OF pl hex, where p = ?p] by (auto simp: planned_correction_def planned_writes_def)
  have expected: "check_expected ?p e sources = Inr ()"
    by (rule planned_expected [OF pl _ _ perm]) (simp_all add: planned_correction_def)
  have fro: "\<forall>d \<in> set (expected_intervals pieces e). frozen_dict d" using frozen_intervals [OF pl] by blast
  have run: "pieces_for_request rq sources = Inr pieces" using pl by (simp add: planning_def)
  have again: "check_against_request digest ?p e rq sources = Inr ()"
    unfolding check_against_request_def run rbind_simps freeze_all [OF fro]
    using same_refl [OF fro] planned_keyed [OF pl hex] by (simp add: planned_correction_def)
  have req: "validate_request (pl_request ?p) = Inr (e, rq)"
    using validate_planned_request [OF pl] by (simp add: planned_correction_def)
  have src: "plan_sources ?p e = Inr sources" by (rule planned_sources [OF pl]) (simp add: planned_correction_def)
  have ver: "check_versions ?p sources = Inr ()" by (rule planned_versions [OF pl]) (simp add: planned_correction_def)
  show ?thesis unfolding validate_plan_def req rbind_simps prod.case src ver order ops expected again by simp
qed

lemma plan_for_planned:
  assumes pl: "planning e rq sources pieces" and tm: "times_ok rq sources" and hex: "hex_digest digest"
    and free: "collision_free digest (request_values e rq) (operations_for_pieces sources pieces e)"
  shows "plan_for digest e rq sources pieces = Inr (planned_correction digest e rq sources pieces)"
proof -
  have 1: "rmap freeze_mapping (expected_intervals pieces e) = Inr (expected_intervals pieces e)"
    by (rule freeze_all) (use frozen_intervals [OF pl] in blast)
  have 2: "freeze_mapping (request_values e rq) = Inr (request_values e rq)"
    by (rule freeze_frozen_mapping [OF frozen_request])
  have 3: "rmap freeze_mapping (map cr_values sources) = Inr (map cr_values sources)"
    by (rule freeze_all) (use stored_rowD(6) planningD(3) [OF pl] in auto)
  show ?thesis
    unfolding plan_for_def planned_keyed [OF pl hex] Let_def rbind_simps make_plan_def 1 2 3
    using validate_planned [OF assms] unfolding planned_correction_def by simp
qed

section \<open>From the caller's values\<close>

lemma check_request_facts:
  assumes "check_request employee start fin wc dept merge = Inr (e, rq)"
  shows "0 < e \<and> 0 < rq_work_center rq \<and> place_ok (rq_department rq) \<and> ends_after (rq_end rq) (rq_start rq)"
proof -
  from assms obtain flag where "merge = PyBool flag" by (cases merge) (auto simp: check_request_def)
  with assms show ?thesis
    by (auto simp: check_request_def rbind_Inr_iff place_ok_def dest!: checked_positive_intD checked_optional_intD split: option.splits)
qed

lemma planning_inputs:
  assumes "check_request employee start fin wc dept merge = Inr (e, rq)"
    and "\<forall>v \<in> set rows. value_ok v" and "normalize_source_rows rows e = Inr sources"
    and "pieces_for_request rq sources = Inr pieces"
  shows "planning e rq sources pieces"
  using check_request_facts [OF assms(1)] normalized_rows [OF assms(3,2)] assms(4) by (simp add: planning_def)

end
