(* ===== verification/Correction_Claims.thy ===== *)
theory Correction_Claims
  imports Correction_Validation
begin

text \<open>
  The properties of the correction planner of \<open>attendance_corrections.py\<close>, with one small
  correction (an employee at one center all morning, moved to another for an hour) as the witness
  of their hypotheses.
\<close>

section \<open>What a plan says\<close>

definition interval_covers :: "dict \<Rightarrow> datetime \<Rightarrow> bool" where
  "interval_covers d t =
     ((case field d k_check_in of PyDatetime s _ \<Rightarrow> s \<le> t | _ \<Rightarrow> False) \<and>
      (case field d k_check_out of PyNone \<Rightarrow> True | PyDatetime f _ \<Rightarrow> t < f | _ \<Rightarrow> False))"

definition says_at :: "dict list \<Rightarrow> datetime \<Rightarrow> (pyvalue \<times> pyvalue) list" where
  "says_at expected t = map (\<lambda>d. (field d k_work_center, field d k_department)) (filter (\<lambda>d. interval_covers d t) expected)"

definition place_values :: "int option \<times> int option \<Rightarrow> pyvalue \<times> pyvalue" where
  "place_values pl = (of_id (fst pl), of_id (snd pl))"

lemma covers_expected: "interval_covers (expected_mapping p e) t = piece_covers p t"
  by (simp add: interval_covers_def piece_covers_def field_def expected_lookup expected_fields of_time_def of_end_def
      ends_after_def split: option.splits)

lemma says_expected:
  assumes pl: "planning e rq sources pieces"
  shows "says_at (expected_intervals pieces e) t = map place_values (requested_at rq sources t)"
proof -
  have "says_at (expected_intervals pieces e) t = map (\<lambda>p. place_values (piece_place p)) (filter (\<lambda>p. piece_covers p t) (sort_key piece_key pieces))"
    by (simp add: says_at_def expected_intervals_def filter_map comp_def covers_expected place_values_def piece_place_def
        field_def expected_fields)
  also have "\<dots> = map place_values (pieces_at (sort_key piece_key pieces) t)" by (simp add: pieces_at_def)
  also have "pieces_at (sort_key piece_key pieces) t = pieces_at pieces t"
  proof (rule mset_eq_single)
    show "mset (pieces_at (sort_key piece_key pieces) t) = mset (pieces_at pieces t)" by (simp add: pieces_at_def)
    show "length (pieces_at pieces t) \<le> 1"
      using requested_single [OF planningD(2) [OF pl]] planningD(5) [OF pl] by metis
  qed
  finally show ?thesis by (simp add: planningD(5) [OF pl])
qed

lemma plan_for_expected:
  assumes "plan_for digest e rq sources pieces = Inr pl" and "planning e rq sources pieces"
  shows "pl_expected pl = expected_intervals pieces e"
    and "pl_sources pl = map cr_values sources" and "pl_request pl = request_values e rq"
proof -
  have 1: "rmap freeze_mapping (expected_intervals pieces e) = Inr (expected_intervals pieces e)"
    by (rule freeze_all) (use frozen_intervals [OF assms(2)] in blast)
  have 2: "freeze_mapping (request_values e rq) = Inr (request_values e rq)"
    by (rule freeze_frozen_mapping [OF frozen_request])
  have 3: "rmap freeze_mapping (map cr_values sources) = Inr (map cr_values sources)"
    by (rule freeze_all) (use stored_rowD(6) planningD(3) [OF assms(2)] in auto)
  show "pl_expected pl = expected_intervals pieces e" "pl_sources pl = map cr_values sources" "pl_request pl = request_values e rq"
    using assms(1) by (auto simp: plan_for_def make_plan_def 1 2 3 rbind_Inr_iff Let_def)
qed

section \<open>A small correction\<close>

definition hour :: "int \<Rightarrow> datetime" where
  "hour h = h * 3600000000"

definition shift_raw :: "int \<Rightarrow> datetime \<Rightarrow> pyvalue \<Rightarrow> int \<Rightarrow> pyvalue" where
  "shift_raw i start fin wc =
     PyMap [(k_id, PyInt i), (k_write_date, of_time (hour 20)), (k_employee, PyInt 5), (k_check_in, of_time start),
       (k_check_out, fin), (k_work_center, PyInt wc), (k_work_center_name, PyStr ''Saw''), (k_department, PyInt 2)]"

definition shift_rows :: "pyvalue list" where
  "shift_rows = [shift_raw 12 (hour 13) PyNone 4, shift_raw 11 (hour 8) (of_time (hour 12)) 3]"

definition demo_request :: request where
  "demo_request = \<lparr>rq_start = hour 9, rq_end = Some (hour 10), rq_work_center = 7, rq_department = None, rq_merge = False\<rparr>"

definition demo_source :: "int \<Rightarrow> datetime \<Rightarrow> datetime option \<Rightarrow> int \<Rightarrow> correction_row" where
  "demo_source i start fin wc =
     \<lparr>cr_id = i, cr_employee = 5, cr_start = start, cr_end = fin, cr_work_center = Some wc, cr_department = Some 2,
      cr_write_date = hour 20,
      cr_values = [(k_check_in, of_time start), (k_check_out, of_end fin), (k_employee, PyInt 5), (k_attendance, PyInt i),
        (k_department, PyInt 2), (k_work_center, PyInt wc), (k_work_center_name, PyStr ''Saw''), (k_odoo_write_date, of_time (hour 20))]\<rparr>"

definition demo_sources :: "correction_row list" where
  "demo_sources = [demo_source 11 (hour 8) (Some (hour 12)) 3, demo_source 12 (hour 13) None 4]"

definition demo_pieces :: "piece list" where
  "demo_pieces =
     [untouched_piece (demo_source 12 (hour 13) None 4),
      piece_from_source (demo_source 11 (hour 8) (Some (hour 12)) 3) (hour 8) (Some (hour 9)) (Some 11),
      piece_from_source (demo_source 11 (hour 8) (Some (hour 12)) 3) (hour 10) (Some (hour 12)) None,
      target_piece demo_request None (hour 9) (Some (hour 10)) [demo_source 11 (hour 8) (Some (hour 12)) 3]]"

text \<open>A digest that tells the operations apart by the hour they write.\<close>

definition demo_digest :: "pyvalue \<Rightarrow> string" where
  "demo_digest v = pad 64
     ((case v of PyMap d \<Rightarrow> (case field d ''after'' of PyMap a \<Rightarrow>
        (case field a k_check_in of PyStr s \<Rightarrow>
          (case parse_utc_text (PyStr s) k_check_in of Inr t \<Rightarrow> nat (t div hour 1) | _ \<Rightarrow> 0) | _ \<Rightarrow> 0) | _ \<Rightarrow> 0) | _ \<Rightarrow> 0) mod 100)"

lemma demo_checked:
  "check_request (PyInt 5) (of_time (hour 9)) (of_time (hour 10)) (PyInt 7) PyNone (PyBool False) = Inr (5, demo_request)"
  by code_simp

lemma demo_normalized: "normalize_source_rows shift_rows 5 = Inr demo_sources"
  by code_simp

lemma demo_pieced: "pieces_for_request demo_request demo_sources = Inr demo_pieces"
  by code_simp

lemma demo_values: "\<forall>v \<in> set shift_rows. value_ok v"
  by code_simp

lemma demo_times: "times_ok demo_request demo_sources"
  by code_simp

lemma demo_hex: "hex_digest demo_digest"
  unfolding hex_digest_def demo_digest_def using pad_digits by (simp add: is_hex_def list_all_iff)


lemma demo_planning: "planning 5 demo_request demo_sources demo_pieces"
  by (rule planning_inputs [OF demo_checked demo_values demo_normalized demo_pieced])

definition demo_mark :: "dict \<Rightarrow> nat" where
  "demo_mark a = (case map_of a k_check_in of Some (PyDatetime t _) \<Rightarrow> nat (t div hour 1) | _ \<Rightarrow> 0) mod 100"

lemma demo_mark_pad: "pad 64 (demo_mark a) = pad 64 (demo_mark b) \<Longrightarrow> demo_mark a = demo_mark b"
proof -
  have "demo_mark c < 10 ^ 64" for c
  proof -
    have "demo_mark c < 100" by (simp add: demo_mark_def)
    then show ?thesis by simp
  qed
  then show "pad 64 (demo_mark a) = pad 64 (demo_mark b) \<Longrightarrow> demo_mark a = demo_mark b" by (metis read_pad)
qed

lemma demo_digest_mark:
  assumes po: "po \<in> set (operations_for_pieces demo_sources demo_pieces 5)" and a: "po_after po = Some a"
    and ci: "map_of a k_check_in = None \<or> (\<exists>t. is_datetime t \<and> map_of a k_check_in = Some (of_time t))" and dist: "distinct (map fst a)"
  shows "demo_digest (identity_of (request_values 5 demo_request) po) = pad 64 (demo_mark a)"
proof -
  let ?rq = "request_values 5 demo_request"
  have run: "operation_key_value (PyMap (identity_dict ?rq po)) = Inr (identity_of ?rq po)"
    by (rule identity_value [OF demo_planning po])
  then obtain w where w: "identity_of ?rq po = PyMap w" using key_value_map by blast
  obtain v where v: "operation_key_value (PyMap a) = Inr v"
    using key_value_total pending_key [OF demo_planning po] a by (force simp: of_dict_def)
  then obtain b where b: "v = PyMap b" using key_value_map by blast
  have "map_of w ''after'' = Some (PyMap b)"
    using key_value_lookup [OF identity_dict_facts(1), of ?rq po w "''after''"] run w v b a
    by (simp add: identity_dict_facts of_dict_def)
  moreover have "map_of b k_check_in = map_option (\<lambda>x. projr (operation_key_value x)) (map_of a k_check_in)"
    using key_value_lookup [OF dist] v b by simp
  ultimately show ?thesis using ci
    by (auto simp: demo_digest_def demo_mark_def w field_def key_value_simps(2) [unfolded of_time_def] of_time_def parse_utc_text)
qed

lemma demo_after_values:
  "map po_after (operations_for_pieces demo_sources demo_pieces 5) =
     [Some [(k_check_out, of_end (Some (hour 9)))], Some (mutable_values 5 (hour 10) (Some (hour 12)) (Some 3) (Some 2)),
      Some (mutable_values 5 (hour 9) (Some (hour 10)) (Some 7) None)]"
  by code_simp

lemma demo_marks: "distinct (map (\<lambda>po. demo_mark (the (po_after po))) (operations_for_pieces demo_sources demo_pieces 5))"
proof -
  have 1: "map (\<lambda>po. demo_mark (the (po_after po))) ops = map (demo_mark \<circ> the) (map po_after ops)" for ops by simp
  show ?thesis unfolding 1 demo_after_values by (simp add: demo_mark_def map_of_mutable of_time_def hour_def)
qed

lemma demo_free: "collision_free demo_digest (request_values 5 demo_request) (operations_for_pieces demo_sources demo_pieces 5)"
proof -
  have mark: "demo_digest (identity_of (request_values 5 demo_request) po) = pad 64 (demo_mark (the (po_after po)))"
    if po: "po \<in> set (operations_for_pieces demo_sources demo_pieces 5)" for po
  proof -
    have "po_after po \<in> set (map po_after (operations_for_pieces demo_sources demo_pieces 5))" using po by simp
    then obtain a where a: "po_after po = Some a" "a \<in> {[(k_check_out, of_end (Some (hour 9)))],
        mutable_values 5 (hour 10) (Some (hour 12)) (Some 3) (Some 2), mutable_values 5 (hour 9) (Some (hour 10)) (Some 7) None}"
      unfolding demo_after_values by auto
    then have "distinct (map fst a)" "map_of a k_check_in = None \<or> (\<exists>t. is_datetime t \<and> map_of a k_check_in = Some (of_time t))"
      by (auto simp: map_of_mutable is_datetime_def hour_def of_time_def)
    then show ?thesis using demo_digest_mark [OF po a(1)] a(1) by simp
  qed
  show ?thesis unfolding collision_free_def inj_on_def
  proof safe
    fix po po' assume po: "po \<in> set (operations_for_pieces demo_sources demo_pieces 5)" "po' \<in> set (operations_for_pieces demo_sources demo_pieces 5)"
      and "demo_digest (identity_of (request_values 5 demo_request) po) = demo_digest (identity_of (request_values 5 demo_request) po')"
    then have "demo_mark (the (po_after po)) = demo_mark (the (po_after po'))" using mark demo_mark_pad by simp
    then have "po = po'" using demo_marks po by (auto simp: distinct_map dest: inj_onD)
    then show "identity_of (request_values 5 demo_request) po = identity_of (request_values 5 demo_request) po'" by simp
  qed
qed

section \<open>Facts the properties share\<close>

lemma plan_correction_stages:
  assumes "check_request employee start fin wc dept merge = Inr (e, rq)"
    and "normalize_source_rows rows e = Inr sources" and "pieces_for_request rq sources = Inr pieces"
  shows "plan_correction digest rows employee start fin wc dept merge = plan_for digest e rq sources pieces"
  using assms by (simp add: plan_correction_def)

text \<open>The refusal of an open merge.\<close>

definition open_merge_refused :: "request \<Rightarrow> correction_row list \<Rightarrow> bool" where
  "open_merge_refused rq sources =
     (rq_merge rq \<and> rq_end rq = None \<and> \<not> merge_is_no_op rq sources \<and>
      (case find (\<lambda>r. cr_end r = None) sources of None \<Rightarrow> True | Some live \<Rightarrow> cr_start live < rq_start rq))"

lemma pieces_for_request_error:
  "pieces_for_request rq sources = Inl err \<longleftrightarrow> open_merge_refused rq sources \<and>
     err = ValueError ''open merge requires the open attendance row inside the merge range''"
  by (auto simp: pieces_for_request_def merge_pieces_for_request_def open_merge_pieces_def open_merge_refused_def Let_def
      split: option.splits if_splits)

lemma untouched_by_id:
  assumes "sources_ok sources" "r \<in> set sources"
  shows "pieces_by_id (map untouched_piece sources) (cr_id r) = Some (untouched_piece r)"
proof -
  have "find (\<lambda>p. pc_attendance_id p = Some (cr_id r)) (map untouched_piece rs) = map_option untouched_piece (find (\<lambda>r'. cr_id r' = cr_id r) rs)" for rs
    by (induction rs) (auto simp: untouched_piece_def)
  then show ?thesis using find_row [OF assms] by (simp add: pieces_by_id_def rev_map)
qed

lemma untouched_operations:
  assumes ok: "sources_ok sources" and stored: "\<forall>r \<in> set sources. stored_row e r"
  shows "operations_for_pieces sources (map untouched_piece sources) e = []"
proof -
  have "source_operation (map untouched_piece sources) e r = []" if "r \<in> set sources" for r
  proof -
    have "cr_employee r = e" using stored that by (simp add: stored_row_def)
    then have "piece_mutable_values (untouched_piece r) e = source_mutable_values r"
      by (simp add: piece_mutable_values_def source_mutable_values_def untouched_piece_def piece_from_source_def)
    then show ?thesis by (simp add: source_operation_def untouched_by_id [OF ok that] Let_def changed_fields_def)
  qed
  moreover have "filter (\<lambda>p. pc_attendance_id p = None) (map untouched_piece sources) = []"
    by (auto simp: filter_empty_conv untouched_piece_def)
  ultimately show ?thesis by (simp add: operations_for_pieces_def)
qed

text \<open>Where a closed plain request holds, its rows are all at the target.\<close>

lemma requested_once:
  assumes ok: "sources_ok sources" and rq: "rq_end rq = Some fin" "rq_start rq < fin" "\<not> rq_merge rq"
    and at: "\<And>t. rows_at sources' t = requested_at rq sources t"
    and pos: "\<forall>r \<in> set sources'. ends_after (cr_end r) (cr_start r)"
  shows "correction_is_no_op rq sources'"
proof -
  have place: "row_place r = target_place rq" if r: "r \<in> set (overlapping (rq_start rq) fin sources')" for r
  proof -
    let ?t = "max (rq_start rq) (cr_start r)"
    have r': "r \<in> set sources'" "cr_start r < fin" "ends_after (cr_end r) (rq_start rq)"
      using r unfolding overlapping_iff by auto
    have cov: "row_covers r ?t" using r' pos by (auto simp: row_covers_def ends_after_def max_def split: option.splits)
    then have mem: "row_place r \<in> set (rows_at sources' ?t)" using r'(1) by (auto simp: rows_at_def)
    have "in_request rq ?t" using rq r'(2) by (auto simp: in_request_def)
    then show ?thesis using mem unfolding at requested_at_def by (auto split: if_splits)
  qed
  have "\<exists>t. rq_start rq \<le> t \<and> t < fin \<and> requested_at rq sources t \<noteq> []"
  proof (cases "overlapping (rq_start rq) fin sources = []")
    case True
    then show ?thesis using rq by (intro exI [of _ "rq_start rq"]) (simp add: requested_at_def fills_gaps_def in_request_def)
  next
    case False
    then obtain r where r: "r \<in> set (overlapping (rq_start rq) fin sources)" by (meson last_in_set)
    let ?t = "max (rq_start rq) (cr_start r)"
    have r': "r \<in> set sources" "cr_start r < fin" "ends_after (cr_end r) (rq_start rq)"
      using r unfolding overlapping_iff by auto
    have "row_covers r ?t" using r' ok by (auto simp: sources_ok_def row_covers_def ends_after_def max_def split: option.splits)
    then have "rows_at sources ?t \<noteq> []" using r'(1) unfolding rows_at_Nil_iff by blast
    then show ?thesis using rq r'(2) by (intro exI [of _ ?t]) (auto simp: requested_at_def)
  qed
  then obtain t where t: "rq_start rq \<le> t" "t < fin" "rows_at sources' t \<noteq> []" by (auto simp: at)
  then obtain r where "r \<in> set sources'" "row_covers r t" unfolding rows_at_Nil_iff by blast
  then have "r \<in> set (overlapping (rq_start rq) fin sources')"
    using t(1,2) unfolding overlapping_iff by (auto simp: row_covers_def ends_after_mono)
  then show ?thesis using place rq
    by (auto simp: correction_is_no_op_def Let_def list_all_iff at_target_def row_place_def target_place_def)
qed

text \<open>
  A closed merge writes nothing exactly where one row already covers the request: several rows that say the
  same are still merged into one.
\<close>

definition request_row :: "request \<Rightarrow> datetime \<Rightarrow> correction_row \<Rightarrow> bool" where
  "request_row rq fin r = (cr_start r \<le> rq_start rq \<and> (case cr_end r of None \<Rightarrow> True | Some b \<Rightarrow> fin \<le> b))"

lemma one_row_at:
  assumes "sources_ok rows" "r \<in> set rows" "r' \<in> set rows" "row_covers r t" "row_covers r' t"
  shows "r = r'"
  using assms
proof (induction rows)
  case (Cons a rows)
  then show ?case using before_disjoint [of a r t] before_disjoint [of a r' t] by (auto simp: sources_ok_Cons)
qed simp

lemma merge_settled:
  assumes ok: "sources_ok rows" and rq: "rq_end rq = Some fin" "rq_start rq < fin"
    and at: "rows_at rows (rq_start rq) = [target_place rq]" and r: "r \<in> set rows" "request_row rq fin r"
  shows "merge_is_no_op rq rows"
proof -
  let ?ov = "overlapping (rq_start rq) fin rows"
  have cov: "row_covers r t" if "rq_start rq \<le> t" "t < fin" for t
    using r(2) that by (auto simp: request_row_def row_covers_def split: option.splits)
  have only: "r' = r" if "r' \<in> set ?ov" for r'
  proof -
    let ?t = "max (rq_start rq) (cr_start r')"
    have r': "r' \<in> set rows" "cr_start r' < fin" "ends_after (cr_end r') (rq_start rq)"
      using that unfolding overlapping_iff by auto
    have "row_covers r' ?t" using r' ok by (auto simp: sources_ok_def row_covers_def ends_after_def max_def split: option.splits)
    moreover have "row_covers r ?t" by (rule cov) (use rq(2) r'(2) in auto)
    ultimately show ?thesis using one_row_at [OF ok r'(1) r(1)] by blast
  qed
  have start: "row_covers r (rq_start rq)" by (rule cov) (use rq(2) in auto)
  then have "r \<in> set ?ov" using r(1) rq(2) unfolding overlapping_iff by (auto simp: row_covers_def)
  then have set: "set ?ov = {r}" using only by blast
  have "distinct ?ov" using ok unfolding overlapping_def by (auto simp: sources_ok_def distinct_map)
  from distinct_card [OF this] have "length ?ov = 1" unfolding set by simp
  then have "?ov = [r]" using set by (cases ?ov) auto
  then show ?thesis using at rows_at_one [OF ok r(1) start] rq(1) r(2)
    by (auto simp: merge_is_no_op_def request_row_def at_target_def row_place_def target_place_def split: option.splits)
qed

lemma silent_piece:
  assumes none: "operations_for_pieces rows pieces e = []" and ok: "sources_ok rows" "pieces_ok rows pieces"
    and stored: "\<forall>r \<in> set rows. stored_row e r" and p: "p \<in> set pieces"
  obtains r where "r \<in> set rows" "field (source_mutable_values r) k_check_in = of_time (pc_start p)"
    "field (source_mutable_values r) k_check_out = of_end (pc_end p)"
proof -
  have "pc_attendance_id p \<noteq> None" using none p by (auto simp: operations_for_pieces_def filter_empty_conv)
  moreover have "piece_ok rows p" using ok(2) p by (simp add: pieces_ok_def)
  ultimately obtain r where r: "r \<in> set rows" "pc_attendance_id p = Some (cr_id r)"
    by (auto simp: piece_ok_def split: option.splits)
  have "pieces_by_id pieces (cr_id r) = Some p" using piece_by_id(1) [OF ok(2,1) r(1)] p r(2) by blast
  then have "changed_fields (source_mutable_values r) (piece_mutable_values p e) = []"
    using none r(1) by (force simp: operations_for_pieces_def source_operation_def Let_def split: if_splits)
  then have same: "field (source_mutable_values r) k = field (piece_mutable_values p e) k" if "k \<in> set mutable_fields" for k
    using that by (simp add: changed_fields_def filter_empty_conv)
  show ?thesis by (rule that [OF r(1)]) (simp_all add: same set_mutable_fields piece_mutable_values_def)
qed

lemma silent_merge:
  assumes ok: "sources_ok rows" and rq: "rq_end rq = Some fin" "rq_start rq < fin" "rq_merge rq"
    and stored: "\<forall>r \<in> set rows. stored_row e r" and run: "pieces_for_request rq rows = Inr pieces"
    and none: "operations_for_pieces rows pieces e = []"
  shows "\<exists>r \<in> set rows. request_row rq fin r"
proof (cases "merge_is_no_op rq rows")
  case True
  then obtain r where "overlapping (rq_start rq) fin rows = [r]" "request_row rq fin r"
    using rq(1) by (auto simp: merge_is_no_op_def request_row_def split: list.splits)
  then show ?thesis using overlapping_iff [of r "rq_start rq" fin rows] by auto
next
  case False
  then have pieces: "pieces = closed_merge_pieces rq fin rows"
    using run rq by (simp add: pieces_for_request_def merge_pieces_for_request_def)
  have "\<exists>p \<in> set pieces. pc_start p = rq_start rq \<and> pc_end p = Some fin"
    by (auto simp: pieces closed_merge_pieces_def surgery_def Let_def)
  then obtain p where p: "p \<in> set pieces" "pc_start p = rq_start rq" "pc_end p = Some fin" by blast
  have "pieces_ok rows pieces" by (rule pieces_for_request_ok [OF ok _ run]) (use rq in simp)
  then obtain r where r: "r \<in> set rows" "field (source_mutable_values r) k_check_in = of_time (rq_start rq)"
    "field (source_mutable_values r) k_check_out = of_end (Some fin)"
    using silent_piece [OF none ok _ stored p(1)] p(2,3) by metis
  then have "cr_start r = rq_start rq \<and> cr_end r = Some fin"
    using source_mutable [of e r] stored by (auto simp: of_time_def of_end_def split: option.splits)
  then show ?thesis using r(1) by (force simp: request_row_def)
qed

section \<open>The properties\<close>

text \<open>
  C16. Planning succeeds: when the caller's values pass, the rows normalise and the request can be
  cut into pieces, \<open>plan_correction\<close> returns a plan. None of the checks in the constructors of
  \<open>CorrectionOperation\<close> and \<open>CorrectionPlan\<close> (keys, order, simulation of the writes, expected
  intervals, replanning) ever rejects what the planner itself produced, provided the digest is 64
  hexadecimal digits and does not collide on the operations of this plan.
\<close>

theorem planning_succeeds:
  assumes "check_request employee start fin wc dept merge = Inr (e, rq)"
    and "\<forall>v \<in> set rows. value_ok v" and "normalize_source_rows rows e = Inr sources"
    and "pieces_for_request rq sources = Inr pieces" and "times_ok rq sources" and "hex_digest digest"
    and "collision_free digest (request_values e rq) (operations_for_pieces sources pieces e)"
  shows "plan_correction digest rows employee start fin wc dept merge = Inr (planned_correction digest e rq sources pieces)"
  unfolding plan_correction_stages [OF assms(1,3,4)]
  by (rule plan_for_planned [OF planning_inputs [OF assms(1,2,3,4)] assms(5,6,7)])

theorem planning_succeeds_witness:
  "plan_correction demo_digest shift_rows (PyInt 5) (of_time (hour 9)) (of_time (hour 10)) (PyInt 7) PyNone (PyBool False)
     = Inr (planned_correction demo_digest 5 demo_request demo_sources demo_pieces)"
  by (rule planning_succeeds [OF demo_checked demo_values demo_normalized demo_pieced demo_times demo_hex demo_free])

text \<open>
  C17. What a plan says: at every instant the expected intervals of a returned plan place the employee
  where the request says (inside the requested interval: at the requested work center and
  department, where there was attendance or the request fills gaps) and where the source rows
  say everywhere else; and never in two places.
\<close>

theorem plan_says_request:
  assumes "check_request employee start fin wc dept merge = Inr (e, rq)"
    and "\<forall>v \<in> set rows. value_ok v" and "normalize_source_rows rows e = Inr sources"
    and "plan_correction digest rows employee start fin wc dept merge = Inr pl"
  shows "says_at (pl_expected pl) t = map place_values (requested_at rq sources t) \<and> length (says_at (pl_expected pl) t) \<le> 1"
proof -
  obtain pieces where pieces: "pieces_for_request rq sources = Inr pieces"
    using assms(1,3,4) by (auto simp: plan_correction_def rbind_Inr_iff)
  have planned: "planning e rq sources pieces" by (rule planning_inputs [OF assms(1,2,3) pieces])
  have "pl_expected pl = expected_intervals pieces e"
    using plan_for_expected(1) [OF _ planned] assms(4) plan_correction_stages [OF assms(1,3) pieces] by simp
  then show ?thesis using says_expected [OF planned] requested_single [OF planningD(2) [OF planned]] by simp
qed

theorem plan_says_request_witness:
  "says_at (pl_expected (planned_correction demo_digest 5 demo_request demo_sources demo_pieces)) (hour 9)
     = [(PyInt 7, PyNone)] \<and>
   says_at (pl_expected (planned_correction demo_digest 5 demo_request demo_sources demo_pieces)) (hour 11)
     = [(PyInt 3, PyInt 2)]"
proof -
  have run: "plan_correction demo_digest shift_rows (PyInt 5) (of_time (hour 9)) (of_time (hour 10)) (PyInt 7) PyNone (PyBool False)
     = Inr (planned_correction demo_digest 5 demo_request demo_sources demo_pieces)"
    unfolding plan_correction_stages [OF demo_checked demo_normalized demo_pieced]
    by (rule plan_for_planned [OF demo_planning demo_times demo_hex demo_free])
  note at = plan_says_request [OF demo_checked demo_values demo_normalized run, THEN conjunct1]
  have "map place_values (requested_at demo_request demo_sources (hour 9)) = [(PyInt 7, PyNone)]"
    "map place_values (requested_at demo_request demo_sources (hour 11)) = [(PyInt 3, PyInt 2)]" by code_simp+
  then show ?thesis by (simp only: at simp_thms)
qed

text \<open>
  C18. The writes implement the plan: applying the operations of a returned plan to the source rows, in
  the planned order or in any other, yields exactly the plan's expected intervals.
\<close>

theorem writes_reach_expected:
  assumes "check_request employee start fin wc dept merge = Inr (e, rq)"
    and "\<forall>v \<in> set rows. value_ok v" and "normalize_source_rows rows e = Inr sources" and "hex_digest digest"
    and "plan_correction digest rows employee start fin wc dept merge = Inr pl"
    and "mset opers = mset (pl_operations pl)"
  shows "simulate_operations sources opers = Inr (pl_expected pl)"
proof -
  obtain pieces where pieces: "pieces_for_request rq sources = Inr pieces"
    using assms(1,3,5) by (auto simp: plan_correction_def rbind_Inr_iff)
  have planned: "planning e rq sources pieces" by (rule planning_inputs [OF assms(1,2,3) pieces])
  have run: "plan_for digest e rq sources pieces = Inr pl"
    using assms(5) plan_correction_stages [OF assms(1,3) pieces] by simp
  have "mset (pl_operations pl) = mset (planned_writes digest (request_values e rq) e sources pieces)"
    using run planned_keyed [OF planned assms(4)] by (auto simp: plan_for_def make_plan_def rbind_Inr_iff Let_def)
  then show ?thesis using projection [OF planned] assms(6) plan_for_expected(1) [OF run planned] by simp
qed

theorem writes_reach_expected_witness:
  "simulate_operations demo_sources (rev (pl_operations (planned_correction demo_digest 5 demo_request demo_sources demo_pieces)))
     = Inr (expected_intervals demo_pieces 5)"
proof -
  have run: "plan_correction demo_digest shift_rows (PyInt 5) (of_time (hour 9)) (of_time (hour 10)) (PyInt 7) PyNone (PyBool False)
     = Inr (planned_correction demo_digest 5 demo_request demo_sources demo_pieces)"
    unfolding plan_correction_stages [OF demo_checked demo_normalized demo_pieced]
    by (rule plan_for_planned [OF demo_planning demo_times demo_hex demo_free])
  show ?thesis
    using writes_reach_expected [OF demo_checked demo_values demo_normalized demo_hex run, of "rev (pl_operations (planned_correction demo_digest 5 demo_request demo_sources demo_pieces))"]
    by (simp add: planned_correction_def)
qed

text \<open>
  C19. The only failures: \<open>plan_correction\<close> raises exactly the error of the first failing validation of
  its arguments, or of its rows, or the refusal of an open merge without the open row in range.
\<close>

theorem planner_errors:
  assumes "\<forall>v \<in> set rows. value_ok v" and "hex_digest digest"
    and "\<And>e rq sources pieces. check_request employee start fin wc dept merge = Inr (e, rq) \<Longrightarrow>
      normalize_source_rows rows e = Inr sources \<Longrightarrow> pieces_for_request rq sources = Inr pieces \<Longrightarrow>
      times_ok rq sources \<and> collision_free digest (request_values e rq) (operations_for_pieces sources pieces e)"
  shows "plan_correction digest rows employee start fin wc dept merge = Inl err \<longleftrightarrow>
    (case check_request employee start fin wc dept merge of
       Inl bad \<Rightarrow> err = bad
     | Inr (e, rq) \<Rightarrow>
         (case normalize_source_rows rows e of
            Inl bad \<Rightarrow> err = bad
          | Inr sources \<Rightarrow> open_merge_refused rq sources \<and>
              err = ValueError ''open merge requires the open attendance row inside the merge range''))"
proof (cases "check_request employee start fin wc dept merge")
  case (Inr erq)
  obtain e rq where erq: "erq = (e, rq)" by (cases erq)
  show ?thesis
  proof (cases "normalize_source_rows rows e")
    case rows: (Inr sources)
    show ?thesis
    proof (cases "pieces_for_request rq sources")
      case (Inl bad)
      then show ?thesis using Inr erq rows pieces_for_request_error [of rq sources bad]
        by (auto simp: plan_correction_def)
    next
      case pieces: (Inr pieces)
      have "plan_correction digest rows employee start fin wc dept merge = Inr (planned_correction digest e rq sources pieces)"
        unfolding plan_correction_stages [OF Inr [unfolded erq] rows pieces]
        by (rule plan_for_planned [OF planning_inputs [OF Inr [unfolded erq] assms(1) rows pieces]])
          (use assms(2,3) Inr erq rows pieces in auto)
      then show ?thesis using Inr erq rows pieces pieces_for_request_error [of rq sources err] by auto
    qed
  qed (use Inr erq in \<open>auto simp: plan_correction_def\<close>)
qed (auto simp: plan_correction_def)

theorem planner_errors_witness:
  "plan_correction demo_digest shift_rows (PyInt 5) (of_time (hour 14)) PyNone (PyInt 7) PyNone (PyBool True)
     = Inl (ValueError ''open merge requires the open attendance row inside the merge range'')"
proof -
  have req: "check_request (PyInt 5) (of_time (hour 14)) PyNone (PyInt 7) PyNone (PyBool True)
      = Inr (5, \<lparr>rq_start = hour 14, rq_end = None, rq_work_center = 7, rq_department = None, rq_merge = True\<rparr>)"
    by code_simp
  have ref: "open_merge_refused \<lparr>rq_start = hour 14, rq_end = None, rq_work_center = 7, rq_department = None, rq_merge = True\<rparr> demo_sources"
    by code_simp
  have no: "pieces_for_request \<lparr>rq_start = hour 14, rq_end = None, rq_work_center = 7, rq_department = None, rq_merge = True\<rparr> demo_sources
      = Inl (ValueError ''open merge requires the open attendance row inside the merge range'')"
    using ref pieces_for_request_error by blast
  show ?thesis
    by (rule planner_errors [OF demo_values demo_hex, THEN iffD2])
      (use req ref no demo_normalized in auto)
qed

text \<open>
  C20. Nothing else authenticates: any plan that carries the request and the source snapshot of a
  planned correction and passes the validation has exactly its operations and source versions,
  and expected intervals equal to its own as Python values.
\<close>

theorem only_the_plan_validates:
  assumes "planning e rq sources pieces" and "hex_digest digest" and "validate_plan digest pl = Inr ()"
    and "pl_request pl = request_values e rq" and "pl_sources pl = map cr_values sources"
  shows "pl_operations pl = pl_operations (planned_correction digest e rq sources pieces) \<and>
    pl_versions pl = pl_versions (planned_correction digest e rq sources pieces) \<and>
    same_intervals (pl_expected pl) (pl_expected (planned_correction digest e rq sources pieces))"
proof -
  have fro: "\<forall>d \<in> set (expected_intervals pieces e). frozen_dict d" using frozen_intervals [OF assms(1)] by blast
  have run: "pieces_for_request rq sources = Inr pieces" using assms(1) by (simp add: planning_def)
  have v: "check_versions pl sources = Inr ()" "check_against_request digest pl e rq sources = Inr ()"
    using assms(3) unfolding validate_plan_def assms(4) validate_planned_request [OF assms(1)]
    by (auto simp: rbind_Inr_iff planned_sources [OF assms(1,5)])
  show ?thesis
    using v unfolding check_against_request_def run rbind_simps freeze_all [OF fro] assms(4) planned_keyed [OF assms(1,2)]
    by (auto simp: rbind_Inr_iff check_versions_def planned_correction_def)
qed

theorem only_the_plan_validates_witness:
  "pl_versions (planned_correction demo_digest 5 demo_request demo_sources demo_pieces)
     = [\<lparr>sv_attendance_id = 11, sv_write_date = hour 20\<rparr>, \<lparr>sv_attendance_id = 12, sv_write_date = hour 20\<rparr>] \<and>
   same_intervals (expected_intervals demo_pieces 5) (expected_intervals demo_pieces 5)"
proof -
  let ?pl = "planned_correction demo_digest 5 demo_request demo_sources demo_pieces"
  have valid: "validate_plan demo_digest ?pl = Inr ()" by (rule validate_planned [OF demo_planning demo_times demo_hex demo_free])
  have own: "pl_request ?pl = request_values 5 demo_request" "pl_sources ?pl = map cr_values demo_sources"
    by (simp_all add: planned_correction_def)
  have "source_versions demo_sources = [\<lparr>sv_attendance_id = 11, sv_write_date = hour 20\<rparr>, \<lparr>sv_attendance_id = 12, sv_write_date = hour 20\<rparr>]"
    by code_simp
  then show ?thesis using only_the_plan_validates [OF demo_planning demo_hex valid own] by (simp add: planned_correction_def)
qed

text \<open>
  C21. Corrections settle: once the attendance rows say, instant by instant, what a closed correction
  asked for, planning the same request over them succeeds; it yields no operation for a plain request, and for a
  merge request exactly when one row covers all of the request - a merge over several rows that already say
  the same still has something to write.
\<close>

theorem replanning_is_idle:
  assumes "sources_ok sources" and "rq_end rq = Some fin" and "rq_start rq < fin"
    and "sources_ok rows" and "\<forall>r \<in> set rows. stored_row e r" and "\<forall>t. rows_at rows t = requested_at rq sources t"
  shows "\<exists>pieces. pieces_for_request rq rows = Inr pieces \<and>
    (operations_for_pieces rows pieces e = [] \<longleftrightarrow>
      \<not> rq_merge rq \<or> (\<exists>r \<in> set rows. cr_start r \<le> rq_start rq \<and> (case cr_end r of None \<Rightarrow> True | Some b \<Rightarrow> fin \<le> b)))"
proof (cases "rq_merge rq")
  case False
  have "correction_is_no_op rq rows"
    by (rule requested_once [OF assms(1,2,3) False]) (use assms(4,6) in \<open>auto simp: sources_ok_def\<close>)
  then show ?thesis using untouched_operations [OF assms(4,5)] False by (simp add: pieces_for_request_def)
next
  case True
  obtain pieces where run: "pieces_for_request rq rows = Inr pieces"
    using True assms(2) by (cases "merge_is_no_op rq rows") (auto simp: pieces_for_request_def merge_pieces_for_request_def)
  have at: "rows_at rows (rq_start rq) = [target_place rq]"
    using assms(2,3,6) True by (simp add: requested_at_def fills_gaps_def in_request_def)
  have "operations_for_pieces rows pieces e = []" if "r \<in> set rows" "request_row rq fin r" for r
    using merge_settled [OF assms(4,2,3) at that] run True untouched_operations [OF assms(4,5)]
    by (auto simp: pieces_for_request_def merge_pieces_for_request_def)
  then have "operations_for_pieces rows pieces e = [] \<longleftrightarrow> (\<exists>r \<in> set rows. request_row rq fin r)"
    using silent_merge [OF assms(4,2,3) True assms(5) run] by blast
  then show ?thesis using run True by (simp add: request_row_def)
qed

definition settled_source :: correction_row where
  "settled_source = demo_source 11 (hour 8) (Some (hour 12)) 3"

definition settled_request :: "bool \<Rightarrow> request" where
  "settled_request merge =
     \<lparr>rq_start = hour 9, rq_end = Some (hour 10), rq_work_center = 3, rq_department = Some 2, rq_merge = merge\<rparr>"

theorem replanning_is_idle_witness:
  "\<forall>merge. \<exists>pieces. pieces_for_request (settled_request merge) [settled_source] = Inr pieces \<and>
     operations_for_pieces [settled_source] pieces 5 = []"
proof
  fix merge
  have rows: "sources_ok [settled_source]"
    by (simp add: sources_ok_def settled_source_def demo_source_def hour_def)
  have rq: "rq_end (settled_request merge) = Some (hour 10)" "rq_start (settled_request merge) < hour 10"
    by (simp_all add: settled_request_def hour_def)
  have "stored_row 5 (demo_source 11 (hour 8) (Some (hour 12)) 3)"
    using planningD(3) [OF demo_planning] by (simp add: demo_sources_def)
  then have stored: "\<forall>r \<in> set [settled_source]. stored_row 5 r" by (simp add: settled_source_def)
  have at: "\<forall>t. rows_at [settled_source] t = requested_at (settled_request merge) [settled_source] t"
    by (auto simp: rows_at_def requested_at_def fills_gaps_def settled_request_def settled_source_def demo_source_def
        row_place_def target_place_def in_request_def row_covers_def overlapping_def hour_def)
  have "cr_start settled_source \<le> rq_start (settled_request merge)" "cr_end settled_source = Some (hour 12)" "hour 10 \<le> hour 12"
    by (simp_all add: settled_source_def settled_request_def demo_source_def hour_def)
  then show "\<exists>pieces. pieces_for_request (settled_request merge) [settled_source] = Inr pieces \<and>
     operations_for_pieces [settled_source] pieces 5 = []"
    using replanning_is_idle [OF rows rq rows stored at] by auto
qed

text \<open>
  UTC texts: \<open>_parse_utc_text\<close> accepts exactly the canonical texts of the instants of the datetime
  range, and reads each one back.
\<close>

theorem utc_text_roundtrip:
  "parse_utc_text (PyStr s) name = Inr t \<longleftrightarrow> s = utc_text t \<and> is_datetime t"
  by (rule parse_utc_text_iff)

text \<open>
  Snapshots are canonical: normalised rows are in order of start and id, have distinct ids and
  disjoint intervals of positive length, belong to the employee, and normalising what they store
  gives the same rows again.
\<close>

theorem snapshot_canonical:
  assumes "normalize_source_rows rows e = Inr sources" and "\<forall>v \<in> set rows. value_ok v"
  shows "sources_ok sources \<and> sorted (map (\<lambda>r. (cr_start r, cr_id r)) sources) \<and> list_all (stored_row e) sources \<and>
    normalize_source_rows (map (\<lambda>r. PyMap (cr_values r)) sources) e = Inr sources"
  using normalized_rows [OF assms] stored_snapshot by (auto simp: list_all_iff)

theorem snapshot_canonical_witness:
  "normalize_source_rows (map (\<lambda>r. PyMap (cr_values r)) demo_sources) 5 = Inr demo_sources"
  using snapshot_canonical [OF demo_normalized demo_values] by blast

end
