(* ===== verification/Correction_Remote.thy ===== *)
theory Correction_Remote
  imports Correction_Plan
begin

text \<open>
  The attendance rows in Odoo and the writes of a correction (\<open>attendance_corrections.py\<close>, lines
  2175-2185, 3545-3708 and 3768-3803; \<open>odoo_client.py\<close>, lines 700-788; \<open>_odoo_attendance.py\<close>, lines
  16-21 and 413-460): what is read back, which state of a write the rows show, and the order in which
  the writes of a job are sent.

  Odoo is modelled by what it documents: it keeps whole seconds, numbers new rows upwards, stamps every
  write, leaves a field empty that it is not given, and refuses a row that overlaps another one of its
  employee.
\<close>

section \<open>Rows in Odoo\<close>

record attendance =
  at_id :: int
  at_employee :: int
  at_start :: datetime
  at_end :: "datetime option"
  at_work_center :: "int option"
  at_department :: "int option"
  at_write_date :: datetime

text \<open>\<open>_canonical_source_row\<close> of a normalised row.\<close>

definition canonical_row :: "correction_row \<Rightarrow> attendance" where
  "canonical_row r =
     \<lparr>at_id = cr_id r, at_employee = cr_employee r, at_start = cr_start r, at_end = cr_end r,
      at_work_center = cr_work_center r, at_department = cr_department r, at_write_date = cr_write_date r\<rparr>"

definition attendance_values :: "attendance \<Rightarrow> dict" where
  "attendance_values a =
     mutable_values (at_employee a) (at_start a) (at_end a) (at_work_center a) (at_department a)"

text \<open>Two half-open intervals share an instant.\<close>

definition meet :: "datetime \<Rightarrow> datetime option \<Rightarrow> datetime \<Rightarrow> datetime option \<Rightarrow> bool" where
  "meet s e s' e' = (ends_after e' s \<and> ends_after e s')"

definition interval_overlaps :: "attendance \<Rightarrow> datetime \<Rightarrow> datetime option \<Rightarrow> bool" where
  "interval_overlaps a start fin = meet (at_start a) (at_end a) start fin"

record odoo =
  od_rows :: "attendance list"
  od_next :: int

text \<open>\<open>to_odoo_dt\<close>\<close>

definition whole_second :: "datetime \<Rightarrow> datetime" where
  "whole_second t = t - t mod 1000000"

definition clear_of :: "attendance \<Rightarrow> attendance list \<Rightarrow> bool" where
  "clear_of a rows =
     list_all (\<lambda>b. at_id b = at_id a \<or> at_employee b \<noteq> at_employee a
                 \<or> \<not> meet (at_start b) (at_end b) (at_start a) (at_end a)) rows"

definition acceptable :: "attendance \<Rightarrow> attendance list \<Rightarrow> bool" where
  "acceptable a rows = (ends_after (at_end a) (at_start a) \<and> clear_of a rows)"

section \<open>Reading\<close>

definition fetch_by_id :: "odoo \<Rightarrow> int \<Rightarrow> attendance list" where
  "fetch_by_id od i = filter (\<lambda>a. at_id a = i) (od_rows od)"

definition attendance_key :: "attendance \<Rightarrow> datetime \<times> int" where
  "attendance_key a = (at_start a, at_id a)"

definition fetch_employee_rows :: "odoo \<Rightarrow> int \<Rightarrow> datetime \<Rightarrow> datetime option \<Rightarrow> attendance list" where
  "fetch_employee_rows od employee start fin =
     sort_key attendance_key
       (filter (\<lambda>a. at_employee a = employee \<and> ends_after (at_end a) (whole_second start)
                  \<and> ends_after (map_option whole_second fin) (at_start a)) (od_rows od))"

section \<open>Writing\<close>

datatype remote_write =
    Create_Row int datetime "datetime option" "int option" "int option"
  | Update_Row int dict
  | Delete_Row int

definition time_in :: "dict \<Rightarrow> string \<Rightarrow> datetime \<Rightarrow> datetime" where
  "time_in d k t = (case map_of d k of Some (PyDatetime u _) \<Rightarrow> u | _ \<Rightarrow> t)"

definition end_in :: "dict \<Rightarrow> string \<Rightarrow> datetime option \<Rightarrow> datetime option" where
  "end_in d k e = (case map_of d k of Some (PyDatetime u _) \<Rightarrow> Some u | Some PyNone \<Rightarrow> None | _ \<Rightarrow> e)"

definition id_in :: "dict \<Rightarrow> string \<Rightarrow> int option \<Rightarrow> int option" where
  "id_in d k i = (case map_of d k of Some (PyInt n) \<Rightarrow> Some n | Some PyNone \<Rightarrow> None | _ \<Rightarrow> i)"

text \<open>The facade turns a missing work center into an error before it calls Odoo.\<close>

definition sendable :: "remote_write \<Rightarrow> bool" where
  "sendable w =
     (case w of
        Create_Row _ _ _ wc _ \<Rightarrow> wc \<noteq> None
      | Update_Row _ d \<Rightarrow> \<not> (has d k_work_center \<and> field d k_work_center = PyNone)
      | Delete_Row _ \<Rightarrow> True)"

definition written_row :: "dict \<Rightarrow> attendance \<Rightarrow> attendance" where
  "written_row d a =
     a\<lparr>at_employee := (case map_of d k_employee of Some (PyInt n) \<Rightarrow> n | _ \<Rightarrow> at_employee a),
       at_start := whole_second (time_in d k_check_in (at_start a)),
       at_end := map_option whole_second (end_in d k_check_out (at_end a)),
       at_work_center := id_in d k_work_center (at_work_center a),
       at_department := id_in d k_department (at_department a)\<rparr>"

text \<open>What Odoo does with a write: the row it answers with and its new state, or a refusal.\<close>

definition commit :: "datetime \<Rightarrow> remote_write \<Rightarrow> odoo \<Rightarrow> (int \<times> odoo) option" where
  "commit stamp w od =
     (case w of
        Create_Row employee start fin wc dept \<Rightarrow>
          (let a = \<lparr>at_id = od_next od, at_employee = employee, at_start = whole_second start,
                   at_end = map_option whole_second fin, at_work_center = wc, at_department = dept,
                   at_write_date = stamp\<rparr>
           in if acceptable a (od_rows od)
              then Some (od_next od, od\<lparr>od_rows := od_rows od @ [a], od_next := od_next od + 1\<rparr>) else None)
      | Update_Row i d \<Rightarrow>
          (case find (\<lambda>a. at_id a = i) (od_rows od) of
             None \<Rightarrow> None
           | Some a \<Rightarrow>
               (let b = (written_row d a)\<lparr>at_write_date := stamp\<rparr>
                in if acceptable b (od_rows od)
                   then Some (i, od\<lparr>od_rows := map (\<lambda>a. if at_id a = i then b else a) (od_rows od)\<rparr>) else None))
      | Delete_Row i \<Rightarrow>
          if find (\<lambda>a. at_id a = i) (od_rows od) = None then None
          else Some (i, od\<lparr>od_rows := filter (\<lambda>a. at_id a \<noteq> i) (od_rows od)\<rparr>))"

definition write_of :: "operation \<Rightarrow> remote_write" where
  "write_of oper =
     (let values = given (op_after oper); i = (case op_attendance_id oper of Some n \<Rightarrow> n | None \<Rightarrow> 0)
      in case op_kind oper of
           Create \<Rightarrow> Create_Row (op_employee oper) (time_in values k_check_in 0) (end_in values k_check_out None)
                      (id_in values k_work_center None) (id_in values k_department None)
         | Update \<Rightarrow> Update_Row i values
         | Delete \<Rightarrow> Delete_Row i)"

section \<open>The state of a write\<close>

definition exact_mutable :: "dict \<Rightarrow> attendance \<Rightarrow> bool" where
  "exact_mutable values a = (\<forall>k \<in> set mutable_fields. field (attendance_values a) k = field values k)"

datatype write_state = Not_Written | Written | Changed_Elsewhere

definition operation_source_state :: "operation \<Rightarrow> attendance \<Rightarrow> attendance option \<Rightarrow> write_state result" where
  "operation_source_state oper source current =
     (case current of
        None \<Rightarrow> Inr (if op_kind oper = Delete then Written else Changed_Elsewhere)
      | Some a \<Rightarrow>
          if at_employee source \<noteq> op_employee oper \<or> at_employee a \<noteq> op_employee oper
          then Inl (ValueError ''attendance row employee does not match selected employee'')
          else if op_kind oper \<noteq> Delete \<and> exact_mutable (put_all (given (op_after oper)) (attendance_values source)) a
          then Inr Written
          else Inr (if a = source then Not_Written else Changed_Elsewhere))"

section \<open>The order of the writes\<close>

definition source_row_by_id :: "attendance list \<Rightarrow> int \<Rightarrow> attendance result" where
  "source_row_by_id sources i =
     (case filter (\<lambda>a. at_id a = i) sources of
        [a] \<Rightarrow> Inr a
      | _ \<Rightarrow> Inl (ValueError ''operation source row is missing or duplicated''))"

definition open_producing :: "operation \<Rightarrow> attendance list \<Rightarrow> bool result" where
  "open_producing oper sources =
     (case op_after oper of
        None \<Rightarrow> Inr False
      | Some values \<Rightarrow>
          if has values k_check_out then Inr (field values k_check_out = PyNone)
          else (case op_attendance_id oper of
                  None \<Rightarrow> Inr False
                | Some i \<Rightarrow> rbind (source_row_by_id sources i) (\<lambda>a. Inr (at_end a = None))))"

definition extends_source_interval :: "operation \<Rightarrow> attendance \<Rightarrow> bool" where
  "extends_source_interval oper source =
     (let values = given (op_after oper); start = time_in values k_check_in (at_start source);
          fin = end_in values k_check_out (at_end source)
      in start < at_start source
         \<or> (case (fin, at_end source) of (Some e, Some f) \<Rightarrow> f < e | _ \<Rightarrow> False))"

definition write_phase :: "attendance list \<Rightarrow> operation \<Rightarrow> nat result" where
  "write_phase sources oper =
     (if op_kind oper = Update
      then rbind (source_row_by_id sources (case op_attendance_id oper of Some i \<Rightarrow> i | None \<Rightarrow> 0)) (\<lambda>source.
           rbind (open_producing oper sources) (\<lambda>producing.
           Inr (if at_end source = None
                then (if \<not> producing then 0 else if extends_source_interval oper source then 5 else 1)
                else if producing then 5
                else if extends_source_interval oper source then 4 else 1)))
      else rbind (open_producing oper sources) (\<lambda>producing.
           Inr (if producing then 5 else if op_kind oper = Create then 2 else 3)))"

definition phase_key :: "nat \<times> operation \<Rightarrow> nat \<times> int \<times> string" where
  "phase_key = (\<lambda>(phase, oper). (phase, op_employee oper, op_key oper))"

definition ordered_operations :: "attendance list \<Rightarrow> operation list \<Rightarrow> operation list result" where
  "ordered_operations sources opers =
     rbind (rmap (\<lambda>oper. rbind (write_phase sources oper) (\<lambda>phase. Inr (phase, oper))) opers) (\<lambda>keyed.
     Inr (map snd (sort_key phase_key keyed)))"

end
