(* ===== verification/Correction_Job.thy ===== *)
theory Correction_Job
  imports Correction_Remote
begin

text \<open>
  Correction jobs (\<open>attendance_corrections.py\<close>, lines 3088-3187, 3246-3542, 3711-3990, 4145-4536 and
  4539-5018): one attempt of a worker on a job, from the claim of the job's row over the writes to Odoo and
  their verification to the audit, with every place where it can stop.

  A remote call is answered, or fails; a write that fails may have happened, may happen later, or may
  never happen; and a worker can die at any call. Which of it happens, and what the clock says, is an
  argument of the model: a list of ticks, one for each call. The mirror, the recalculation and the audit
  log are calls of this kind as well; \<open>_resolve_mapping\<close>, the roster and the calendar are parameters.
\<close>

section \<open>The row of a job\<close>

datatype job_status = Planned | Applying | Verifying | Recalculating | Complete | Failed

record reservation =
  rv_key :: string
  rv_token :: string
  rv_attempt :: int
  rv_until :: datetime

datatype progress =
    Horizon "date list"
  | Finished string operation_kind int
  | Reserved reservation
  | Mirrored
  | Enqueued "date list"
  | Recalculated
  | Refreshed
  | Audited

record job_row =
  jb_status :: job_status
  jb_attempts :: int
  jb_updated :: datetime
  jb_completed :: "progress list"
  jb_mismatches :: int
  jb_quick_punch :: bool

text \<open>The saved plans and their source rows.\<close>

record saved_job =
  sj_employees :: "int list"
  sj_start :: datetime
  sj_end :: "datetime option"
  sj_target :: int
  sj_sources :: "int \<Rightarrow> attendance list"
  sj_plans :: "int \<Rightarrow> plan"

record claim =
  cl_attempt :: int
  cl_lease :: datetime

datatype failure = Stale_Claim | Source_Changed | Recoverable_Write | Other_Failure

definition claim_lease :: timedelta where
  "claim_lease = 15 * 60 * 1000000"

definition max_attempts :: int where
  "max_attempts = 6"

text \<open>\<open>_claim_job\<close>\<close>

definition claim_job :: "datetime \<Rightarrow> job_row \<Rightarrow> (claim \<times> job_row) option" where
  "claim_job now job =
     (if jb_status job = Planned \<or> jb_status job \<in> {Applying, Verifying, Recalculating} \<and> jb_updated job \<le> now
      then Some (\<lparr>cl_attempt = jb_attempts job + 1, cl_lease = now + claim_lease\<rparr>,
             job\<lparr>jb_status := (if jb_status job = Planned then Applying else jb_status job),
                 jb_attempts := jb_attempts job + 1, jb_updated := now + claim_lease\<rparr>)
      else None)"

text \<open>\<open>_claim_is_current\<close>: the fence of every later step.\<close>

definition claim_is_current :: "claim \<Rightarrow> job_row \<Rightarrow> bool" where
  "claim_is_current claim job =
     (jb_attempts job = cl_attempt claim \<and> jb_status job \<in> {Applying, Verifying, Recalculating})"

definition transition :: "claim \<Rightarrow> job_status option \<Rightarrow> datetime option \<Rightarrow> bool \<Rightarrow> job_row \<Rightarrow> job_row option" where
  "transition claim status retry mismatch job =
     (if claim_is_current claim job
      then Some (job\<lparr>jb_status := (case status of None \<Rightarrow> jb_status job | Some s \<Rightarrow> s),
             jb_updated := (case retry of None \<Rightarrow> cl_lease claim | Some t \<Rightarrow> t),
             jb_mismatches := jb_mismatches job + (if mismatch then 1 else 0)\<rparr>)
      else None)"

text \<open>\<open>record.get("operation_key") or record.get("stage")\<close>\<close>

fun same_record :: "progress \<Rightarrow> progress \<Rightarrow> bool" where
  "same_record (Horizon _) (Horizon _) = True"
| "same_record (Enqueued _) (Enqueued _) = True"
| "same_record Mirrored Mirrored = True"
| "same_record Recalculated Recalculated = True"
| "same_record Refreshed Refreshed = True"
| "same_record Audited Audited = True"
| "same_record _ _ = False"

definition complete_record :: "claim \<Rightarrow> progress \<Rightarrow> job_row \<Rightarrow> job_row option" where
  "complete_record claim record job =
     (if list_ex (same_record record) (jb_completed job) then Some job
      else if claim_is_current claim job
      then Some (job\<lparr>jb_completed := (case record of Horizon _ \<Rightarrow> record # jb_completed job | _ \<Rightarrow> jb_completed job @ [record]),
             jb_updated := cl_lease claim\<rparr>)
      else None)"

section \<open>Reservations\<close>

fun reservation_of :: "progress \<Rightarrow> reservation option" where
  "reservation_of (Reserved rv) = Some rv"
| "reservation_of _ = None"

fun finished_key :: "progress \<Rightarrow> string option" where
  "finished_key (Finished key _ _) = Some key"
| "finished_key _ = None"

definition reservations :: "progress list \<Rightarrow> reservation list" where
  "reservations records = List.map_filter reservation_of records"

definition finished_keys :: "progress list \<Rightarrow> string list" where
  "finished_keys records = List.map_filter finished_key records"

definition heartbeat_claim :: "claim \<Rightarrow> datetime \<Rightarrow> job_row \<Rightarrow> failure + job_row" where
  "heartbeat_claim claim now job =
     (if claim_is_current claim job then Inr (job\<lparr>jb_updated := now + claim_lease\<rparr>) else Inl Stale_Claim)"

definition may_write :: "claim \<Rightarrow> job_row \<Rightarrow> bool" where
  "may_write claim job = (jb_status job = Applying \<and> jb_attempts job = cl_attempt claim)"

definition reserve_operation ::
    "claim \<Rightarrow> operation \<Rightarrow> datetime \<Rightarrow> string \<Rightarrow> job_row \<Rightarrow> failure + (reservation \<times> job_row)" where
  "reserve_operation claim oper now token job =
     (let held = reservations (jb_completed job);
          rv = \<lparr>rv_key = op_key oper, rv_token = token, rv_attempt = cl_attempt claim, rv_until = now + claim_lease\<rparr>;
          kept = (if held = [] then jb_completed job else filter (\<lambda>p. reservation_of p = None) (jb_completed job))
      in if \<not> may_write claim job then Inl Stale_Claim
         else if op_key oper \<in> set (finished_keys (jb_completed job)) then Inl Stale_Claim
         else if length held > 1 then Inl Other_Failure
         else if list_ex (\<lambda>old. rv_until old > now) held then Inl Stale_Claim
         else Inr (rv, job\<lparr>jb_completed := kept @ [Reserved rv], jb_updated := rv_until rv\<rparr>))"

definition held_by :: "reservation \<Rightarrow> progress \<Rightarrow> bool" where
  "held_by rv p = (case reservation_of p of None \<Rightarrow> False | Some old \<Rightarrow> rv_token old = rv_token rv)"

definition same_reservation :: "reservation \<Rightarrow> progress \<Rightarrow> bool" where
  "same_reservation rv p =
     (case reservation_of p of None \<Rightarrow> False | Some old \<Rightarrow> rv_key old = rv_key rv \<and> rv_attempt old = rv_attempt rv)"

definition renew_operation_reservation ::
    "claim \<Rightarrow> reservation \<Rightarrow> datetime \<Rightarrow> job_row \<Rightarrow> failure + (reservation \<times> job_row)" where
  "renew_operation_reservation claim rv now job =
     (let renewed = rv\<lparr>rv_until := now + claim_lease\<rparr>; held = filter (held_by rv) (jb_completed job)
      in if \<not> may_write claim job then Inl Stale_Claim
         else if held = [] \<or> \<not> list_all (same_reservation rv) held then Inl Stale_Claim
         else Inr (renewed,
                job\<lparr>jb_completed := map (\<lambda>p. if held_by rv p then Reserved renewed else p) (jb_completed job),
                    jb_updated := rv_until renewed\<rparr>))"

definition complete_reserved_operation :: "claim \<Rightarrow> reservation \<Rightarrow> progress \<Rightarrow> job_row \<Rightarrow> job_row option" where
  "complete_reserved_operation claim rv record job =
     (let held = filter (held_by rv) (jb_completed job)
      in if \<not> may_write claim job then None
         else if held = [] \<or> \<not> list_all (same_reservation rv) held then None
         else Some (job\<lparr>jb_completed := filter (\<lambda>p. \<not> held_by rv p) (jb_completed job) @ [record],
                jb_updated := max (cl_lease claim) (rv_until rv)\<rparr>))"

section \<open>Calls that may fail\<close>

text \<open>
  A failed write has not reached Odoo (\<open>Refused\<close>), has been carried out although its answer is lost
  (\<open>Timed_Out\<close>), or is carried out after the worker has looked again and given up (\<open>Delayed\<close>). The
  time is Odoo's stamp. When the ticks run out the worker is dead.
\<close>

datatype reply = Answered datetime | Timed_Out datetime | Delayed datetime | Refused

record tick =
  tk_now :: datetime
  tk_token :: string
  tk_reply :: reply

record world =
  wd_odoo :: odoo
  wd_late :: "(datetime \<times> remote_write) list"
  wd_job :: job_row
  wd_box :: "reservation option"
  wd_ticks :: "tick list"

datatype 'a answer = Got 'a | Raised failure | Died

type_synonym 'a remote = "world \<Rightarrow> 'a answer \<times> world"

definition give :: "'a \<Rightarrow> 'a remote" where
  "give x w = (Got x, w)"

definition raise :: "failure \<Rightarrow> 'a remote" where
  "raise e w = (Raised e, w)"

text \<open>\<open>try\<close>, its handler, and what follows.\<close>

definition catch :: "'a remote \<Rightarrow> (failure \<Rightarrow> 'b remote) \<Rightarrow> ('a \<Rightarrow> 'b remote) \<Rightarrow> 'b remote" where
  "catch m h f w = (case m w of (Got x, w') \<Rightarrow> f x w' | (Raised e, w') \<Rightarrow> h e w' | (Died, w') \<Rightarrow> (Died, w'))"

definition and_then :: "'a remote \<Rightarrow> ('a \<Rightarrow> 'b remote) \<Rightarrow> 'b remote" where
  "and_then m f = catch m raise f"

definition next_tick :: "tick remote" where
  "next_tick w = (case wd_ticks w of [] \<Rightarrow> (Died, w) | t # ts \<Rightarrow> (Got t, w\<lparr>wd_ticks := ts\<rparr>))"

definition reading_job :: "(job_row \<Rightarrow> 'a) \<Rightarrow> 'a remote" where
  "reading_job f w = (Got (f (wd_job w)), w)"

definition update_job :: "(job_row \<Rightarrow> job_row option) \<Rightarrow> bool remote" where
  "update_job f w = (case f (wd_job w) of None \<Rightarrow> (Got False, w) | Some job \<Rightarrow> (Got True, w\<lparr>wd_job := job\<rparr>))"

text \<open>The fence before a call: a heartbeat of the claim, or the renewal of the reservation.\<close>

type_synonym fence = "tick \<Rightarrow> unit remote"

definition heartbeat :: "claim \<Rightarrow> fence" where
  "heartbeat claim t w =
     (case heartbeat_claim claim (tk_now t) (wd_job w) of
        Inl e \<Rightarrow> (Raised e, w)
      | Inr job \<Rightarrow> (Got (), w\<lparr>wd_job := job\<rparr>))"

definition renew :: "claim \<Rightarrow> fence" where
  "renew claim t w =
     (case wd_box w of
        None \<Rightarrow> (Raised Other_Failure, w)
      | Some rv \<Rightarrow>
          (case renew_operation_reservation claim rv (tk_now t) (wd_job w) of
             Inl e \<Rightarrow> (Raised e, w)
           | Inr (renewed, job) \<Rightarrow> (Got (), w\<lparr>wd_job := job, wd_box := Some renewed\<rparr>)))"

definition reserve :: "claim \<Rightarrow> operation \<Rightarrow> unit remote" where
  "reserve claim oper =
     and_then next_tick (\<lambda>t w.
       case reserve_operation claim oper (tk_now t) (tk_token t) (wd_job w) of
         Inl e \<Rightarrow> (Raised e, w)
       | Inr (rv, job) \<Rightarrow> (Got (), w\<lparr>wd_job := job, wd_box := Some rv\<rparr>))"

definition read_odoo :: "fence \<Rightarrow> (odoo \<Rightarrow> 'a) \<Rightarrow> 'a remote" where
  "read_odoo fence f =
     and_then next_tick (\<lambda>t. and_then (fence t) (\<lambda>_ w.
       case tk_reply t of Answered _ \<Rightarrow> (Got (f (wd_odoo w)), w) | _ \<Rightarrow> (Raised Other_Failure, w)))"

definition carried_out :: "datetime \<Rightarrow> remote_write \<Rightarrow> odoo \<Rightarrow> odoo" where
  "carried_out stamp wr od = (case commit stamp wr od of None \<Rightarrow> od | Some (_, od') \<Rightarrow> od')"

definition deliver :: "reply \<Rightarrow> remote_write \<Rightarrow> int remote" where
  "deliver reply wr w =
     (if \<not> sendable wr then (Raised Other_Failure, w)
      else case reply of
             Answered stamp \<Rightarrow>
               (case commit stamp wr (wd_odoo w) of
                  None \<Rightarrow> (Raised Other_Failure, w)
                | Some (i, od) \<Rightarrow> (Got i, w\<lparr>wd_odoo := od\<rparr>))
           | Timed_Out stamp \<Rightarrow> (Raised Other_Failure, w\<lparr>wd_odoo := carried_out stamp wr (wd_odoo w)\<rparr>)
           | Delayed stamp \<Rightarrow> (Raised Other_Failure, w\<lparr>wd_late := wd_late w @ [(stamp, wr)]\<rparr>)
           | Refused \<Rightarrow> (Raised Other_Failure, w))"

definition send_write :: "fence \<Rightarrow> remote_write \<Rightarrow> int remote" where
  "send_write fence wr = and_then next_tick (\<lambda>t. and_then (fence t) (\<lambda>_. deliver (tk_reply t) wr))"

section \<open>One operation\<close>

definition read_one :: "fence \<Rightarrow> int \<Rightarrow> attendance option remote" where
  "read_one fence i =
     and_then (read_odoo fence (\<lambda>od. fetch_by_id od i)) (\<lambda>rows.
       if length rows > 1 then raise Source_Changed else give (case rows of [] \<Rightarrow> None | a # _ \<Rightarrow> Some a))"

definition create_candidates :: "fence \<Rightarrow> operation \<Rightarrow> attendance list remote" where
  "create_candidates fence oper =
     (let values = given (op_after oper); start = time_in values k_check_in 0; fin = end_in values k_check_out None
      in read_odoo fence (\<lambda>od. filter (\<lambda>a. interval_overlaps a start fin) (fetch_employee_rows od (op_employee oper) start fin)))"

text \<open>The only row in the interval, when it is what the operation would create.\<close>

definition adoptable :: "operation \<Rightarrow> attendance list \<Rightarrow> int option" where
  "adoptable oper candidates =
     (case candidates of
        [a] \<Rightarrow> if exact_mutable (given (op_after oper)) a then Some (at_id a) else None
      | _ \<Rightarrow> None)"

definition finished :: "operation \<Rightarrow> int \<Rightarrow> progress remote" where
  "finished oper i = give (Finished (op_key oper) (op_kind oper) i)"

definition perform_create :: "fence \<Rightarrow> operation \<Rightarrow> progress remote" where
  "perform_create fence oper =
     and_then (create_candidates fence oper) (\<lambda>candidates.
       case adoptable oper candidates of
         Some i \<Rightarrow> finished oper i
       | None \<Rightarrow>
           if candidates \<noteq> [] then raise Source_Changed
           else catch (send_write fence (write_of oper))
             (\<lambda>e. if e = Stale_Claim then raise Stale_Claim
                else and_then (create_candidates fence oper) (\<lambda>candidates.
                  case adoptable oper candidates of
                    Some i \<Rightarrow> finished oper i
                  | None \<Rightarrow> if candidates \<noteq> [] then raise Source_Changed else raise Recoverable_Write))
             (\<lambda>i. and_then (read_one fence i) (\<lambda>confirmed.
                case confirmed of
                  None \<Rightarrow> raise Recoverable_Write
                | Some a \<Rightarrow> if exact_mutable (given (op_after oper)) a then finished oper i else raise Recoverable_Write)))"

definition observe :: "fence \<Rightarrow> operation \<Rightarrow> attendance \<Rightarrow> int \<Rightarrow> write_state remote" where
  "observe fence oper source i =
     and_then (read_one fence i) (\<lambda>current.
       case operation_source_state oper source current of Inl _ \<Rightarrow> raise Other_Failure | Inr state \<Rightarrow> give state)"

definition perform_change :: "fence \<Rightarrow> operation \<Rightarrow> attendance list \<Rightarrow> progress remote" where
  "perform_change fence oper sources =
     (let i = (case op_attendance_id oper of Some n \<Rightarrow> n | None \<Rightarrow> 0)
      in case source_row_by_id sources i of
           Inl _ \<Rightarrow> raise Other_Failure
         | Inr source \<Rightarrow>
             and_then (observe fence oper source i) (\<lambda>state.
               case state of
                 Written \<Rightarrow> finished oper i
               | Changed_Elsewhere \<Rightarrow> raise Source_Changed
               | Not_Written \<Rightarrow>
                   catch (send_write fence (write_of oper))
                     (\<lambda>e. if e = Stale_Claim then raise Stale_Claim
                        else and_then (observe fence oper source i) (\<lambda>state.
                          case state of
                            Written \<Rightarrow> finished oper i
                          | Changed_Elsewhere \<Rightarrow> raise Source_Changed
                          | Not_Written \<Rightarrow> raise Recoverable_Write))
                     (\<lambda>_. and_then (observe fence oper source i) (\<lambda>state.
                        if state = Written then finished oper i else raise Recoverable_Write))))"

definition perform_operation :: "fence \<Rightarrow> operation \<Rightarrow> attendance list \<Rightarrow> progress remote" where
  "perform_operation fence oper sources =
     (if op_kind oper = Create then perform_create fence oper else perform_change fence oper sources)"

section \<open>Before the first write\<close>

fun each_of :: "('a \<Rightarrow> unit remote) \<Rightarrow> 'a list \<Rightarrow> unit remote" where
  "each_of f [] = give ()"
| "each_of f (x # xs) = and_then (f x) (\<lambda>_. each_of f xs)"

definition preflight_source :: "fence \<Rightarrow> operation list \<Rightarrow> attendance \<Rightarrow> unit remote" where
  "preflight_source fence opers source =
     and_then (read_one fence (at_id source)) (\<lambda>current.
       case find (\<lambda>oper. op_attendance_id oper = Some (at_id source)) (rev opers) of
         None \<Rightarrow>
           (case current of
              None \<Rightarrow> raise Source_Changed
            | Some a \<Rightarrow> if at_employee a \<noteq> at_employee source then raise Other_Failure
                        else if a = source then give () else raise Source_Changed)
       | Some oper \<Rightarrow>
           (case operation_source_state oper source current of
              Inl _ \<Rightarrow> raise Other_Failure
            | Inr state \<Rightarrow> if state = Changed_Elsewhere then raise Source_Changed else give ()))"

definition preflight_create :: "fence \<Rightarrow> attendance list \<Rightarrow> operation \<Rightarrow> unit remote" where
  "preflight_create fence sources oper =
     and_then (create_candidates fence oper) (\<lambda>candidates.
       let outsiders = filter (\<lambda>a. at_id a \<notin> at_id ` set sources) candidates;
           exact = filter (exact_mutable (given (op_after oper))) outsiders
       in if length exact > 1 \<or> exact \<noteq> outsiders then raise Source_Changed
          else if exact \<noteq> [] \<and> length candidates \<noteq> 1 then raise Source_Changed
          else give ())"

definition preflight_operations :: "fence \<Rightarrow> operation list \<Rightarrow> attendance list \<Rightarrow> unit remote" where
  "preflight_operations fence opers sources =
     and_then (each_of (preflight_source fence opers) sources) (\<lambda>_.
     each_of (preflight_create fence sources) (filter (\<lambda>oper. op_kind oper = Create) opers))"

section \<open>Targets\<close>

definition dict_overlaps :: "dict \<Rightarrow> datetime \<Rightarrow> datetime option \<Rightarrow> bool" where
  "dict_overlaps d start fin = meet (time_in d k_check_in 0) (end_in d k_check_out None) start fin"

definition departments_at :: "saved_job \<Rightarrow> dict list \<Rightarrow> int list result" where
  "departments_at saved ds =
     rmap (\<lambda>d. checked_positive_int (field d k_department) k_department)
       (filter (\<lambda>d. field d k_work_center = PyInt (sj_target saved) \<and> dict_overlaps d (sj_start saved) (sj_end saved)) ds)"

definition effective_values :: "attendance list \<Rightarrow> operation \<Rightarrow> dict result" where
  "effective_values sources oper =
     (if op_kind oper = Create then Inr (given (op_after oper))
      else rbind (source_row_by_id sources (case op_attendance_id oper of Some i \<Rightarrow> i | None \<Rightarrow> 0)) (\<lambda>source.
           Inr (put_all (given (op_after oper)) (attendance_values source))))"

definition saved_target_department :: "saved_job \<Rightarrow> (failure + int)" where
  "saved_target_department saved =
     (case rbind (rmap (\<lambda>e. rbind (rmap (effective_values (sj_sources saved e))
              (filter (\<lambda>oper. op_kind oper \<noteq> Delete) (pl_operations (sj_plans saved e)))) (departments_at saved)) (sj_employees saved))
            (\<lambda>written. rbind (rmap (\<lambda>e. departments_at saved (pl_expected (sj_plans saved e))) (sj_employees saved))
              (\<lambda>expected. Inr (concat written, concat expected))) of
        Inl _ \<Rightarrow> Inl Other_Failure
      | Inr (written, expected) \<Rightarrow>
          (case remdups expected of
             [dept] \<Rightarrow> if set written \<subseteq> {dept} then Inr dept else Inl Source_Changed
           | _ \<Rightarrow> Inl Source_Changed))"

text \<open>What \<open>_resolve_mapping\<close> and the roster say, and the calendar.\<close>

record facts =
  fc_target :: "(int \<times> int) option"
  fc_active :: "int list"
  fc_day :: "datetime \<Rightarrow> date"

definition validate_applying_targets :: "facts \<Rightarrow> fence \<Rightarrow> saved_job \<Rightarrow> unit remote" where
  "validate_applying_targets facts fence saved =
     (case saved_target_department saved of
        Inl e \<Rightarrow> raise e
      | Inr dept \<Rightarrow>
          and_then (read_odoo fence (\<lambda>_. ())) (\<lambda>_.
          and_then (read_odoo fence (\<lambda>_. ())) (\<lambda>_.
          if fc_target facts \<noteq> Some (sj_target saved, dept) then raise Source_Changed
          else and_then (read_odoo fence (\<lambda>_. ())) (\<lambda>_.
            if set (sj_employees saved) \<subseteq> set (fc_active facts) then give () else raise Source_Changed))))"

section \<open>Verification\<close>

definition row_values :: "dict \<Rightarrow> pyvalue list" where
  "row_values d = map (field d) mutable_fields"

definition created_id :: "plan \<Rightarrow> progress list \<Rightarrow> dict \<Rightarrow> int option" where
  "created_id pl completed d =
     (case find (\<lambda>oper. op_kind oper = Create \<and> row_values (given (op_after oper)) = row_values d) (rev (pl_operations pl)) of
        None \<Rightarrow> None
      | Some oper \<Rightarrow>
          (case List.map_filter (\<lambda>p. case p of Finished key _ i \<Rightarrow> if key = op_key oper then Some i else None | _ \<Rightarrow> None) (rev completed) of
             [] \<Rightarrow> None
           | i # _ \<Rightarrow> Some i))"

text \<open>The ids and values that the plan expects, with the ids of the rows that were created.\<close>

definition expected_with_created_ids :: "plan \<Rightarrow> progress list \<Rightarrow> (int \<times> pyvalue list) list result" where
  "expected_with_created_ids pl completed =
     rmap (\<lambda>d. case field d k_attendance of
         PyInt i \<Rightarrow> Inr (i, row_values d)
       | _ \<Rightarrow> (case created_id pl completed d of
                None \<Rightarrow> Inl (ValueError ''created attendance id was not confirmed'')
              | Some i \<Rightarrow> Inr (i, row_values d))) (pl_expected pl)"

definition verification_start :: "plan \<Rightarrow> datetime \<Rightarrow> datetime" where
  "verification_start pl start =
     (case map (\<lambda>d. time_in d k_check_in 0) (pl_expected pl) of [] \<Rightarrow> start | t # ts \<Rightarrow> foldl min t ts)"

definition verification_end :: "plan \<Rightarrow> datetime option \<Rightarrow> datetime option" where
  "verification_end pl fin =
     (let ends = map (\<lambda>d. end_in d k_check_out None) (pl_expected pl)
      in if None \<in> set ends then None
         else case map the ends of [] \<Rightarrow> fin | t # ts \<Rightarrow> Some (foldl max t ts))"

definition comparable :: "(int \<times> pyvalue list) list \<Rightarrow> (int \<times> pyvalue list) list" where
  "comparable rows =
     sort_key (\<lambda>(i, values). ((case values ! 1 of PyDatetime t _ \<Rightarrow> t | _ \<Rightarrow> 0), i)) rows"

definition verify_employee :: "fence \<Rightarrow> saved_job \<Rightarrow> progress list \<Rightarrow> int \<Rightarrow> unit remote" where
  "verify_employee fence saved completed e =
     (let pl = sj_plans saved e
      in case expected_with_created_ids pl completed of
           Inl _ \<Rightarrow> raise Other_Failure
         | Inr expected \<Rightarrow>
             and_then (read_odoo fence (\<lambda>od. fetch_employee_rows od e (verification_start pl (sj_start saved))
                 (verification_end pl (sj_end saved)))) (\<lambda>actual.
               if map (\<lambda>a. (at_id a, row_values (attendance_values a))) actual \<noteq> comparable expected
               then raise Source_Changed else give ()))"

definition verification_rows :: "fence \<Rightarrow> saved_job \<Rightarrow> progress list \<Rightarrow> unit remote" where
  "verification_rows fence saved completed = each_of (verify_employee fence saved completed) (sort (sj_employees saved))"

section \<open>Reading a job back\<close>

text \<open>\<open>_validated_completed_records\<close>: every record belongs to the plan, and the stages come in order.\<close>

fun record_identity :: "progress \<Rightarrow> string option \<times> nat" where
  "record_identity (Horizon _) = (None, 0)"
| "record_identity (Finished key _ _) = (Some key, 0)"
| "record_identity (Reserved _) = (None, 1)"
| "record_identity Mirrored = (None, 2)"
| "record_identity (Enqueued _) = (None, 3)"
| "record_identity Recalculated = (None, 4)"
| "record_identity Refreshed = (None, 5)"
| "record_identity Audited = (None, 6)"

definition days_valid :: "date list \<Rightarrow> bool" where
  "days_valid days = (length days \<le> 500 \<and> sorted days \<and> distinct days)"

fun record_valid :: "operation list \<Rightarrow> nat \<Rightarrow> nat \<Rightarrow> progress \<Rightarrow> bool" where
  "record_valid opers size_of i (Horizon days) = (i = 0 \<and> days_valid days)"
| "record_valid opers size_of i (Finished key kind n) =
     (0 < n \<and> (case find (\<lambda>oper. op_key oper = key) (rev opers) of
        None \<Rightarrow> False
      | Some oper \<Rightarrow> kind = op_kind oper \<and> (kind = Create \<or> op_attendance_id oper = Some n)))"
| "record_valid opers size_of i (Reserved rv) =
     (i + 1 = size_of \<and> 0 < rv_attempt rv \<and> rv_key rv \<in> set (map op_key opers))"
| "record_valid opers size_of i (Enqueued days) = days_valid days"
| "record_valid opers size_of i Audited = False"
| "record_valid opers size_of i _ = True"

definition stages_of :: "progress list \<Rightarrow> nat list" where
  "stages_of records = filter (\<lambda>n. n \<ge> 2) (map (snd \<circ> record_identity) records)"

definition horizon_of :: "progress list \<Rightarrow> date list option" where
  "horizon_of records =
     (case List.map_filter (\<lambda>p. case p of Horizon days \<Rightarrow> Some days | _ \<Rightarrow> None) records of [] \<Rightarrow> None | days # _ \<Rightarrow> Some days)"

definition enqueued_of :: "progress list \<Rightarrow> date list option" where
  "enqueued_of records =
     (case List.map_filter (\<lambda>p. case p of Enqueued days \<Rightarrow> Some days | _ \<Rightarrow> None) records of [] \<Rightarrow> None | days # _ \<Rightarrow> Some days)"

definition completed_records_valid :: "operation list \<Rightarrow> progress list \<Rightarrow> bool" where
  "completed_records_valid opers records =
     (length records \<le> 1010 \<and>
      list_all (\<lambda>(i, p). record_valid opers (length records) i p) (enumerate 0 records) \<and>
      distinct (map record_identity records) \<and>
      (stages_of records \<noteq> [] \<longrightarrow>
         set (finished_keys records) = set (map op_key opers) \<and> stages_of records = take (length (stages_of records)) [2, 3, 4, 5]) \<and>
      list_all (\<lambda>rv. rv_key rv \<notin> set (finished_keys records) \<and> stages_of records = []) (reservations records) \<and>
      (case (horizon_of records, enqueued_of records) of (Some a, Some b) \<Rightarrow> a = b | _ \<Rightarrow> True))"

definition operation_progress_valid :: "progress list \<Rightarrow> operation list \<Rightarrow> int \<Rightarrow> bool" where
  "operation_progress_valid records ordered attempt =
     (let keys = map op_key ordered; finished = finished_keys records
      in finished = take (length finished) keys \<and>
         (case reservations records of
            [] \<Rightarrow> True
          | [rv] \<Rightarrow> length finished < length keys \<and> rv_key rv = keys ! length finished \<and> rv_attempt rv < attempt
          | _ \<Rightarrow> False))"

text \<open>\<open>_validate_saved_job_plans\<close>, for one employee.\<close>

definition plan_matches :: "saved_job \<Rightarrow> int \<Rightarrow> bool" where
  "plan_matches saved e =
     (let pl = sj_plans saved e
      in field (pl_request pl) k_employee = PyInt e \<and> field (pl_request pl) k_start = of_time (sj_start saved) \<and>
         field (pl_request pl) k_end = of_end (sj_end saved) \<and> field (pl_request pl) k_work_center = PyInt (sj_target saved) \<and>
         (case rmap (\<lambda>d. normalize_source_row (PyMap d) e) (pl_sources pl) of
            Inl _ \<Rightarrow> False
          | Inr rows \<Rightarrow> sort_key at_id (map canonical_row rows) = sj_sources saved e))"

definition saved_plans_valid :: "saved_job \<Rightarrow> bool" where
  "saved_plans_valid saved =
     (list_all (plan_matches saved) (sj_employees saved) \<and>
      length (remdups (map (\<lambda>e. field (pl_request (sj_plans saved e)) k_department) (sj_employees saved))) \<le> 1 \<and>
      length (remdups (map (\<lambda>e. field (pl_request (sj_plans saved e)) k_merge = PyBool True) (sj_employees saved))) \<le> 1)"

definition all_sources :: "saved_job \<Rightarrow> attendance list" where
  "all_sources saved = concat (map (sj_sources saved) (sj_employees saved))"

definition all_operations :: "saved_job \<Rightarrow> operation list" where
  "all_operations saved = concat (map (\<lambda>e. pl_operations (sj_plans saved e)) (sj_employees saved))"

text \<open>\<open>local_days_touched\<close> and \<open>_touched_days\<close>\<close>

definition local_days_touched :: "(datetime \<Rightarrow> date) \<Rightarrow> datetime \<Rightarrow> datetime \<Rightarrow> date list" where
  "local_days_touched local_day start fin = (if fin = start then [] else [local_day start .. local_day (fin - 1)])"

definition touched_days :: "(datetime \<Rightarrow> date) \<Rightarrow> saved_job \<Rightarrow> datetime \<Rightarrow> date list" where
  "touched_days local_day saved open_end =
     (let days = (\<lambda>start fin. local_days_touched local_day start (case fin of None \<Rightarrow> open_end | Some t \<Rightarrow> t))
      in sort (remdups (concat (map (\<lambda>a. days (at_start a) (at_end a)) (all_sources saved))
           @ concat (map (\<lambda>e. concat (map (\<lambda>d. days (time_in d k_check_in 0) (end_in d k_check_out None))
               (pl_expected (sj_plans saved e)))) (sj_employees saved)))))"

definition load_job :: "facts \<Rightarrow> saved_job \<Rightarrow> datetime \<Rightarrow> job_row \<Rightarrow> (operation list \<times> date list) option" where
  "load_job facts saved now job =
     (case ordered_operations (all_sources saved) (all_operations saved) of
        Inl _ \<Rightarrow> None
      | Inr ordered \<Rightarrow>
          (let durable = (case horizon_of (jb_completed job) of Some days \<Rightarrow> Some days | None \<Rightarrow> enqueued_of (jb_completed job));
               days = (case durable of Some days \<Rightarrow> days | None \<Rightarrow> touched_days (fc_day facts) saved now)
           in if completed_records_valid (all_operations saved) (jb_completed job) \<and> saved_plans_valid saved
                 \<and> operation_progress_valid (jb_completed job) ordered (jb_attempts job) \<and> length days \<le> 500
              then Some (ordered, days) else None))"

section \<open>An attempt\<close>

datatype verdict = Superseded | Job_Failed | Recoverable datetime | Job_Complete

definition retry_at :: "int \<Rightarrow> datetime \<Rightarrow> datetime" where
  "retry_at attempt now = now + min (15 * 2 ^ nat (min (max (attempt - 1) 0) 10)) 900 * 1000000"

definition fail_job :: "claim \<Rightarrow> bool \<Rightarrow> verdict remote" where
  "fail_job claim mismatch = and_then (update_job (transition claim (Some Failed) None mismatch)) (\<lambda>_. give Job_Failed)"

text \<open>
  \<open>_retry_or_fail\<close>: a manager's job always retries; a quick-punch job gives up at its last attempt, but
  only while it has recorded no write.
\<close>

definition gives_up :: "claim \<Rightarrow> job_row \<Rightarrow> bool" where
  "gives_up claim job =
     (jb_quick_punch job \<and> jb_status job \<in> {Applying, Verifying} \<and> finished_keys (jb_completed job) = []
        \<and> max_attempts \<le> cl_attempt claim)"

definition retry_or_fail :: "claim \<Rightarrow> datetime \<Rightarrow> verdict remote" where
  "retry_or_fail claim retry =
     and_then (reading_job (gives_up claim)) (\<lambda>over.
       if over
       then and_then (update_job (transition claim (Some Failed) None False)) (\<lambda>ok. give (if ok then Job_Failed else Superseded))
       else and_then (update_job (transition claim None (Some retry) False)) (\<lambda>_. give (Recoverable retry)))"

definition on_failure :: "claim \<Rightarrow> bool \<Rightarrow> datetime \<Rightarrow> failure \<Rightarrow> verdict remote" where
  "on_failure claim mismatch retry e =
     (case e of
        Stale_Claim \<Rightarrow> give Superseded
      | Source_Changed \<Rightarrow> fail_job claim mismatch
      | _ \<Rightarrow> retry_or_fail claim retry)"

definition box_until :: "(datetime \<Rightarrow> 'a remote) \<Rightarrow> 'a remote" where
  "box_until f w = f (case wd_box w of None \<Rightarrow> 0 | Some rv \<Rightarrow> rv_until rv) w"

text \<open>\<open>_complete_reserved_operation\<close> on the reservation in the box.\<close>

definition complete_boxed :: "claim \<Rightarrow> progress \<Rightarrow> bool remote" where
  "complete_boxed claim record w =
     (case wd_box w of
        None \<Rightarrow> (Raised Other_Failure, w)
      | Some rv \<Rightarrow> update_job (complete_reserved_operation claim rv record) w)"

definition apply_operation ::
    "saved_job \<Rightarrow> claim \<Rightarrow> datetime \<Rightarrow> operation \<Rightarrow> verdict remote \<Rightarrow> verdict remote" where
  "apply_operation saved claim now oper next =
     and_then (reading_job (\<lambda>job. (op_key oper \<in> set (finished_keys (jb_completed job)), claim_is_current claim job))) (\<lambda>(already, current).
       if already then next
       else if \<not> current then give Superseded
       else catch (reserve claim oper) (\<lambda>e. if e = Stale_Claim then give Superseded else raise e) (\<lambda>_.
         catch (perform_operation (renew claim) oper (sj_sources saved (op_employee oper)))
           (\<lambda>e. box_until (\<lambda>until. on_failure claim False (max (retry_at (cl_attempt claim) now) until) e))
           (\<lambda>record. and_then (complete_boxed claim record) (\<lambda>ok. if ok then next else give Superseded))))"

fun apply_operations ::
    "saved_job \<Rightarrow> claim \<Rightarrow> datetime \<Rightarrow> operation list \<Rightarrow> verdict remote \<Rightarrow> verdict remote" where
  "apply_operations saved claim now [] next = next"
| "apply_operations saved claim now (oper # opers) next =
     apply_operation saved claim now oper (apply_operations saved claim now opers next)"

definition apply_stage ::
    "facts \<Rightarrow> saved_job \<Rightarrow> claim \<Rightarrow> datetime \<Rightarrow> operation list \<Rightarrow> verdict remote \<Rightarrow> verdict remote" where
  "apply_stage facts saved claim now ordered next =
     (let handler = on_failure claim False (retry_at (cl_attempt claim) now)
      in catch (validate_applying_targets facts (heartbeat claim) saved) handler (\<lambda>_.
         catch (preflight_operations (heartbeat claim) ordered (all_sources saved)) handler (\<lambda>_.
         apply_operations saved claim now ordered
           (and_then (update_job (transition claim (Some Verifying) None False)) (\<lambda>ok.
              if ok then next else give Superseded)))))"

definition verify_stage :: "saved_job \<Rightarrow> claim \<Rightarrow> datetime \<Rightarrow> verdict remote \<Rightarrow> verdict remote" where
  "verify_stage saved claim now next =
     and_then (reading_job jb_completed) (\<lambda>completed.
     catch (verification_rows (heartbeat claim) saved completed) (on_failure claim True (retry_at (cl_attempt claim) now)) (\<lambda>_.
     and_then (reading_job jb_status) (\<lambda>status.
       if status = Verifying
       then and_then (update_job (transition claim (Some Recalculating) None False)) (\<lambda>ok. if ok then next else give Superseded)
       else next)))"

section \<open>After the verification\<close>

text \<open>A step on this server's tables: an exception retries it, a lost claim supersedes the attempt.\<close>

definition local_call :: "unit remote" where
  "local_call = and_then next_tick (\<lambda>t. case tk_reply t of Answered _ \<Rightarrow> give () | _ \<Rightarrow> raise Other_Failure)"

definition owned_record :: "claim \<Rightarrow> progress \<Rightarrow> job_row \<Rightarrow> job_row option" where
  "owned_record claim record job =
     (if jb_status job = Recalculating \<and> jb_attempts job = cl_attempt claim
      then Some (job\<lparr>jb_completed := jb_completed job @ [record], jb_updated := cl_lease claim\<rparr>)
      else None)"

definition downstream_step ::
    "claim \<Rightarrow> datetime \<Rightarrow> (job_row \<Rightarrow> job_row option) \<Rightarrow> verdict remote \<Rightarrow> verdict remote" where
  "downstream_step claim now record next =
     catch local_call (\<lambda>_. retry_or_fail claim (retry_at (cl_attempt claim) now)) (\<lambda>_.
     and_then (update_job record) (\<lambda>ok. if ok then next else give Superseded))"

definition unless_recorded :: "progress \<Rightarrow> (verdict remote \<Rightarrow> verdict remote) \<Rightarrow> verdict remote \<Rightarrow> verdict remote" where
  "unless_recorded record step next =
     and_then (reading_job (\<lambda>job. list_ex (same_record record) (jb_completed job))) (\<lambda>done_before.
       if done_before then next else step next)"

definition audit_record :: "claim \<Rightarrow> datetime \<Rightarrow> job_row \<Rightarrow> job_row option" where
  "audit_record claim now job =
     (if jb_status job = Recalculating \<and> jb_attempts job = cl_attempt claim \<and> Audited \<notin> set (jb_completed job)
      then Some (job\<lparr>jb_status := Complete, jb_completed := jb_completed job @ [Audited], jb_updated := now\<rparr>)
      else None)"

definition finish_stage :: "claim \<Rightarrow> datetime \<Rightarrow> date list \<Rightarrow> verdict remote" where
  "finish_stage claim now days =
     unless_recorded Mirrored (downstream_step claim now (owned_record claim Mirrored))
      (unless_recorded (Enqueued days) (downstream_step claim now (owned_record claim (Enqueued days)))
       (downstream_step claim now (complete_record claim Recalculated)
        (and_then (update_job (complete_record claim Refreshed)) (\<lambda>ok.
           if \<not> ok then give Superseded
           else downstream_step claim now (audit_record claim now) (give Job_Complete)))))"

definition process_claim :: "facts \<Rightarrow> saved_job \<Rightarrow> claim \<Rightarrow> datetime \<Rightarrow> verdict remote" where
  "process_claim facts saved claim now =
     and_then (reading_job (\<lambda>job. (load_job facts saved now job, jb_status job))) (\<lambda>(loaded, status).
       case loaded of
         None \<Rightarrow> fail_job claim False
       | Some (ordered, days) \<Rightarrow>
           and_then (update_job (complete_record claim (Horizon days))) (\<lambda>ok.
             if \<not> ok then give Superseded
             else
               (let rest = verify_stage saved claim now (finish_stage claim now days)
                in if status = Applying then apply_stage facts saved claim now ordered rest else rest)))"

text \<open>A delayed write reaches Odoo when the attempt is over.\<close>

definition settle :: "world \<Rightarrow> odoo" where
  "settle w = fold (\<lambda>(stamp, wr). carried_out stamp wr) (wd_late w) (wd_odoo w)"

text \<open>\<open>process_job\<close>: one attempt from the durable state, and the durable state it leaves.\<close>

definition process_job :: "facts \<Rightarrow> saved_job \<Rightarrow> datetime \<Rightarrow> tick list \<Rightarrow> odoo \<times> job_row \<Rightarrow> verdict answer \<times> odoo \<times> job_row" where
  "process_job facts saved now ticks = (\<lambda>(od, job).
     case claim_job now job of
       None \<Rightarrow> (Got (case jb_status job of Complete \<Rightarrow> Job_Complete | Failed \<Rightarrow> Job_Failed | _ \<Rightarrow> Superseded), od, job)
     | Some (claim, claimed) \<Rightarrow>
         (case process_claim facts saved claim now
             \<lparr>wd_odoo = od, wd_late = [], wd_job = claimed, wd_box = None, wd_ticks = ticks\<rparr> of
            (answer, w) \<Rightarrow> (answer, settle w, wd_job w)))"

end
