(* ===== verification/Correction_Order.thy ===== *)
theory Correction_Order
  imports Correction_Validation Correction_Remote
begin

text \<open>
  How the pieces of a correction lie to its source rows: a piece that keeps a row's id lies within the
  row or around it, and a new piece meets no row that is deleted. This is why the writes can be ordered
  so that no two rows of an employee ever overlap.
\<close>

section \<open>Intervals\<close>

definition ends_by :: "datetime option \<Rightarrow> datetime option \<Rightarrow> bool" where
  "ends_by e f = (\<forall>t. ends_after e t \<longrightarrow> ends_after f t)"

lemma ends_by_simps [simp]:
  "ends_by e None" "ends_by (Some x) (Some y) \<longleftrightarrow> x \<le> y" "\<not> ends_by None (Some y)" "ends_by e e"
  by (auto simp: ends_by_def intro: leI)

lemma ends_by_iff: "ends_by e f \<longleftrightarrow> (case f of None \<Rightarrow> True | Some y \<Rightarrow> (case e of None \<Rightarrow> False | Some x \<Rightarrow> x \<le> y))"
  by (cases e; cases f) simp_all

lemma meet_iff:
  assumes "ends_after e s" "ends_after e' s'"
  shows "meet s e s' e' \<longleftrightarrow> (\<exists>t. s \<le> t \<and> ends_after e t \<and> s' \<le> t \<and> ends_after e' t)"
proof
  assume "meet s e s' e'"
  then have "s \<le> max s s' \<and> ends_after e (max s s') \<and> s' \<le> max s s' \<and> ends_after e' (max s s')"
    using assms by (auto simp: meet_def max_def)
  then show "\<exists>t. s \<le> t \<and> ends_after e t \<and> s' \<le> t \<and> ends_after e' t" by blast
qed (auto simp: meet_def dest: ends_after_mono)

lemma meet_sym: "meet s e s' e' \<longleftrightarrow> meet s' e' s e"
  by (auto simp: meet_def)

lemma meet_within: "meet s e s' e' \<Longrightarrow> r \<le> s \<Longrightarrow> ends_by e f \<Longrightarrow> meet r f s' e'"
  by (auto simp: meet_def ends_by_def dest: ends_after_mono)

section \<open>Pieces and rows\<close>

definition within_row :: "piece \<Rightarrow> correction_row \<Rightarrow> bool" where
  "within_row p r = (cr_start r \<le> pc_start p \<and> ends_by (pc_end p) (cr_end r))"

definition around_row :: "piece \<Rightarrow> correction_row \<Rightarrow> bool" where
  "around_row p r = (pc_start p \<le> cr_start r \<and> ends_by (cr_end r) (pc_end p))"

definition meets_row :: "piece \<Rightarrow> correction_row \<Rightarrow> bool" where
  "meets_row p r = meet (pc_start p) (pc_end p) (cr_start r) (cr_end r)"

definition tidy :: "correction_row list \<Rightarrow> piece list \<Rightarrow> bool" where
  "tidy rows ps =
     (\<forall>p \<in> set ps.
        (\<forall>r \<in> set rows. pc_attendance_id p = Some (cr_id r) \<longrightarrow> within_row p r \<or> around_row p r) \<and>
        (pc_attendance_id p = None \<longrightarrow> (\<forall>r \<in> set rows. cr_id r \<notin> set (ids_of ps) \<longrightarrow> \<not> meets_row p r)))"

lemma tidy_append:
  assumes ps: "tidy A ps" "pieces_ok A ps" and qs: "tidy B qs" "pieces_ok B qs"
    and rows: "set rows = set A \<union> set B" and apart: "cr_id ` set A \<inter> cr_id ` set B = {}"
    and cross: "\<And>p r. p \<in> set ps \<Longrightarrow> pc_attendance_id p = None \<Longrightarrow> r \<in> set B \<Longrightarrow> cr_id r \<notin> set (ids_of qs) \<Longrightarrow> \<not> meets_row p r"
      "\<And>q r. q \<in> set qs \<Longrightarrow> pc_attendance_id q = None \<Longrightarrow> r \<in> set A \<Longrightarrow> cr_id r \<notin> set (ids_of ps) \<Longrightarrow> \<not> meets_row q r"
  shows "tidy rows (ps @ qs)"
proof -
  have own: "i \<in> cr_id ` set C" if "pieces_ok C us" "p \<in> set us" "pc_attendance_id p = Some i" for C us p i
    using that by (auto simp: pieces_ok_def piece_ok_def split: option.splits)
  have a: "(\<forall>r \<in> set rows. pc_attendance_id p = Some (cr_id r) \<longrightarrow> within_row p r \<or> around_row p r)" if p: "p \<in> set ps \<union> set qs" for p
  proof (intro ballI impI)
    fix r assume r: "r \<in> set rows" "pc_attendance_id p = Some (cr_id r)"
    from p show "within_row p r \<or> around_row p r"
    proof
      assume p: "p \<in> set ps"
      then have "r \<in> set A" using own [OF ps(2) p r(2)] r(1) rows apart by auto
      then show ?thesis using ps(1) p r(2) by (auto simp: tidy_def)
    next
      assume p: "p \<in> set qs"
      then have "r \<in> set B" using own [OF qs(2) p r(2)] r(1) rows apart by auto
      then show ?thesis using qs(1) p r(2) by (auto simp: tidy_def)
    qed
  qed
  then show ?thesis using ps(1) qs(1) cross rows by (auto simp: tidy_def)
qed

lemma same_row: "sources_ok rows \<Longrightarrow> r \<in> set rows \<Longrightarrow> r' \<in> set rows \<Longrightarrow> cr_id r = cr_id r' \<Longrightarrow> r = r'"
  by (auto simp: sources_ok_def distinct_map dest: inj_onD)

lemma tidy_untouched:
  assumes "sources_ok rows"
  shows "tidy rows (map untouched_piece rows)"
proof -
  have "within_row (untouched_piece r) r'" if "r \<in> set rows" "r' \<in> set rows" "cr_id r = cr_id r'" for r r'
    using same_row [OF assms that] by (simp add: untouched_piece_def within_row_def)
  then show ?thesis by (auto simp: tidy_def untouched_piece_def)
qed

section \<open>Surgery is tidy\<close>

lemma surgery_used:
  assumes ok: "sources_ok rows" and r: "r \<in> set rows"
    and touch: "\<forall>r \<in> set rows. cr_start r < e \<and> ends_after (cr_end r) s"
  shows "cr_id r \<in> set (ids_of (surgery rq s e rows)) \<or> pc_attendance_id (last (surgery rq s e rows)) \<noteq> None"
proof (rule ccontr)
  let ?left = "left_remainder s rows" let ?right = "right_remainder e (piece_ids ?left) rows"
  have parts: "surgery rq s e rows = ?left @ ?right @ [target_piece rq (reusable s e (piece_ids ?left \<union> piece_ids ?right) rows) s (Some e) rows]"
    by (simp add: surgery_def Let_def)
  assume "\<not> ?thesis"
  then have no: "cr_id r \<notin> set (ids_of ?left)" "cr_id r \<notin> set (ids_of ?right)"
    and none: "reusable s e (piece_ids ?left \<union> piece_ids ?right) rows = None"
    unfolding parts by auto
  have "rows \<noteq> []" using r by auto
  then have hd: "hd rows \<in> set rows" and la: "last rows \<in> set rows" by simp_all
  have "s \<le> cr_start r"
  proof (rule ccontr)
    assume early: "\<not> s \<le> cr_start r"
    have "r = hd rows"
    proof (rule ccontr)
      assume "r \<noteq> hd rows"
      from before_first [OF ok r this] early touch hd show False by (force simp: before_def split: option.splits)
    qed
    then show False using no(1) early by (simp add: left_remainder_def)
  qed
  moreover have "\<not> ends_after (cr_end r) e"
  proof
    assume late: "ends_after (cr_end r) e"
    have "r = last rows"
    proof (rule ccontr)
      assume "r \<noteq> last rows"
      from last_before [OF ok r this] late touch la show False by (force simp: before_def split: option.splits)
    qed
    then show False using no late by (auto simp: right_remainder_def piece_ids_ids_of split: if_splits)
  qed
  ultimately show False using none no r by (auto simp: reusable_def find_None_iff piece_ids_ids_of)
qed

lemma surgery_tidy:
  assumes ok: "sources_ok rows" and ne: "rows \<noteq> []"
    and touch: "\<forall>r \<in> set rows. cr_start r < e \<and> ends_after (cr_end r) s"
  shows "tidy rows (surgery rq s e rows)"
proof -
  let ?left = "left_remainder s rows" let ?right = "right_remainder e (piece_ids ?left) rows"
  let ?reuse = "reusable s e (piece_ids ?left \<union> piece_ids ?right) rows"
  have parts: "surgery rq s e rows = ?left @ ?right @ [target_piece rq ?reuse s (Some e) rows]"
    by (simp add: surgery_def Let_def)
  have hd: "hd rows \<in> set rows" and la: "last rows \<in> set rows" using ne by simp_all
  note same = same_row [OF ok]
  have left: "within_row p r" if p: "p \<in> set ?left" "r \<in> set rows" "pc_attendance_id p = Some (cr_id r)" for p r
  proof -
    have "r = hd rows" using that same [OF hd, of r] by (auto simp: left_remainder_def split: if_splits)
    then show ?thesis using p(1) touch hd
      by (cases "cr_end r") (auto simp: left_remainder_def within_row_def split: if_splits)
  qed
  have right: "within_row p r" if p: "p \<in> set ?right" "r \<in> set rows" "pc_attendance_id p = Some (cr_id r)" for p r
  proof -
    have "r = last rows" using that same [OF la, of r] by (auto simp: right_remainder_def split: if_splits)
    then show ?thesis using p(1) touch la by (force simp: right_remainder_def within_row_def split: if_splits)
  qed
  have target: "around_row (target_piece rq ?reuse s (Some e) rows) r"
    if r: "r \<in> set rows" "map_option cr_id ?reuse = Some (cr_id r)" for r
  proof -
    obtain q where q: "?reuse = Some q" "cr_id q = cr_id r" using r(2) by auto
    then have f: "q \<in> set rows" "s \<le> cr_start q" "cr_end q \<noteq> None" "\<not> ends_after (cr_end q) e"
      by (auto simp: reusable_def find_Some_iff)
    then have "q = r" using same r(1) q(2) by blast
    then show ?thesis using f by (auto simp: around_row_def)
  qed
  have new_right: "cr_id r \<in> set (ids_of (surgery rq s e rows))"
    if p: "p \<in> set ?right" "pc_attendance_id p = None" "r \<in> set rows" for p r
  proof -
    have "cr_id (last rows) \<in> piece_ids ?left" using p by (auto simp: right_remainder_def split: if_splits)
    then have id: "cr_id (last rows) = cr_id (hd rows)" and l: "?left \<noteq> []"
      by (auto simp: left_remainder_def piece_ids_ids_of split: if_splits)
    have "r = hd rows"
    proof (rule ccontr)
      assume ne: "r \<noteq> hd rows"
      have last: "last rows = hd rows" using same [OF la hd] id by simp
      have "before (hd rows) r" "before r (last rows)" using before_first [OF ok p(3) ne] last_before [OF ok p(3)] ne last by auto
      moreover have "ends_after (cr_end r) (cr_start r)" "ends_after (cr_end (hd rows)) (cr_start (hd rows))"
        using ok p(3) hd by (simp_all add: sources_ok_def)
      ultimately show False unfolding last by (auto simp: before_def split: option.splits)
    qed
    then show ?thesis using l unfolding parts by (auto simp: left_remainder_def split: if_splits)
  qed
  have some: "pc_attendance_id p \<noteq> None" if "p \<in> set ?left" for p using that by (auto simp: left_remainder_def split: if_splits)
  have new_target: "cr_id r \<in> set (ids_of (surgery rq s e rows))" if "?reuse = None" "r \<in> set rows" for r
    using surgery_used [OF ok that(2) touch, of rq] that(1) unfolding parts by simp
  show ?thesis unfolding tidy_def
  proof (intro ballI conjI impI)
    fix p r assume p: "p \<in> set (surgery rq s e rows)" and r: "r \<in> set rows" and id: "pc_attendance_id p = Some (cr_id r)"
    then show "within_row p r \<or> around_row p r" using left right target unfolding parts by auto
  next
    fix p r assume p: "p \<in> set (surgery rq s e rows)" "pc_attendance_id p = None" and r: "r \<in> set rows"
      "cr_id r \<notin> set (ids_of (surgery rq s e rows))"
    consider "p \<in> set ?left" | "p \<in> set ?right" | "p = target_piece rq ?reuse s (Some e) rows" using p(1) unfolding parts by auto
    then show "\<not> meets_row p r"
    proof cases
      case 3
      then show ?thesis using p(2) new_target [OF _ r(1)] r(2) by simp
    qed (use some new_right p(2) r in blast)+
  qed
qed

section \<open>Every variant is tidy\<close>

lemma covered_rows: "rows_at rows t \<noteq> [] \<longleftrightarrow> (\<exists>r \<in> set rows. row_covers r t)"
  by (auto simp: rows_at_Nil_iff)

lemma run_pieces_inside:
  assumes "sources_ok grp" "contiguous grp" "rq_end rq = Some fin" "rq_start rq < fin"
    and "\<forall>r \<in> set grp. cr_start r < fin \<and> ends_after (cr_end r) (rq_start rq)"
    and "p \<in> set (run_pieces rq fin grp)" "piece_covers p t"
  shows "\<exists>r \<in> set grp. row_covers r t"
proof -
  have "piece_place p \<in> set (pieces_at (run_pieces rq fin grp) t)" using assms(6,7) by (auto simp: pieces_at_def)
  then show ?thesis unfolding run_pieces_at [OF assms(1-5)] covered_rows [symmetric] by (auto split: if_splits)
qed

lemma meets_row_iff:
  assumes "ends_after (pc_end p) (pc_start p)" "ends_after (cr_end r) (cr_start r)"
  shows "meets_row p r \<longleftrightarrow> (\<exists>t. piece_covers p t \<and> row_covers r t)"
  unfolding meets_row_def meet_iff [OF assms] piece_covers_def row_covers_def by blast

lemma rows_apart: "sources_ok rows \<Longrightarrow> r \<in> set rows \<Longrightarrow> r' \<in> set rows \<Longrightarrow> row_covers r t \<Longrightarrow> row_covers r' t \<Longrightarrow> r = r'"
proof -
  assume ok: "sources_ok rows" and r: "r \<in> set rows" "r' \<in> set rows" "row_covers r t" "row_covers r' t"
  let ?f = "filter (\<lambda>r. row_covers r t) rows"
  have "length ?f \<le> 1" using rows_at_single [OF ok, of t] by (simp add: rows_at_def)
  moreover have "{r, r'} \<subseteq> set ?f" using r by auto
  ultimately have "card {r, r'} \<le> 1" by (meson card_length card_mono finite_set le_trans)
  then show "r = r'" by (auto simp: card_insert_if split: if_splits)
qed

lemma runs_tidy:
  assumes "sources_ok (concat gs)" and "\<forall>grp \<in> set gs. contiguous grp" and rq: "rq_end rq = Some fin" "rq_start rq < fin"
    and "\<forall>r \<in> set (concat gs). cr_start r < fin \<and> ends_after (cr_end r) (rq_start rq)"
  shows "tidy (concat gs) (concat (map (run_pieces rq fin) gs))"
  using assms(1,2,5)
proof (induction gs)
  case (Cons g gs)
  have g: "sources_ok g" and rest: "sources_ok (concat gs)" and apart: "cr_id ` set g \<inter> cr_id ` set (concat gs) = {}"
    using Cons.prems(1) by (simp_all add: sources_ok_append)
  have cont: "contiguous g" and ne: "g \<noteq> []" using Cons.prems(2) by (simp_all add: contiguous_def)
  have touch: "\<forall>r \<in> set g. cr_start r < fin \<and> ends_after (cr_end r) (rq_start rq)" using Cons.prems(3) by simp
  note bounds = run_bounds [OF g ne rq(2) touch]
  have ok: "pieces_ok g (run_pieces rq fin g)" unfolding run_pieces_surgery by (rule surgery_pieces_ok [OF g ne bounds(2)])
  have oks: "pieces_ok (concat gs) (concat (map (run_pieces rq fin) gs))"
    by (rule runs_pieces_ok [OF rest]) (use Cons.prems rq in auto)
  have pos: "ends_after (pc_end p) (pc_start p)" if "p \<in> set (run_pieces rq fin g) \<union> set (concat (map (run_pieces rq fin) gs))" for p
    using that ok oks by (auto simp: pieces_ok_def piece_ok_def)
  have pos_row: "ends_after (cr_end r) (cr_start r)" if "r \<in> set g \<union> set (concat gs)" for r
    using that g rest by (auto simp: sources_ok_def)
  have far: "\<not> (row_covers r t \<and> row_covers r' t)" if "r \<in> set g" "r' \<in> set (concat gs)" for r r' t
  proof
    assume "row_covers r t \<and> row_covers r' t"
    then have "r = r'" using rows_apart [OF Cons.prems(1), of r r' t] that by auto
    then show False using apart that by blast
  qed
  have "tidy (g @ concat gs) (run_pieces rq fin g @ concat (map (run_pieces rq fin) gs))"
  proof (rule tidy_append [OF _ ok _ oks _ apart])
    show "tidy g (run_pieces rq fin g)" unfolding run_pieces_surgery by (rule surgery_tidy [OF g ne bounds(1)])
    show "tidy (concat gs) (concat (map (run_pieces rq fin) gs))" using Cons.IH [OF rest] Cons.prems by simp
  next
    fix p r assume p: "p \<in> set (run_pieces rq fin g)" and r: "r \<in> set (concat gs)"
    show "\<not> meets_row p r"
    proof
      assume "meets_row p r"
      then obtain t where "piece_covers p t" "row_covers r t" using meets_row_iff pos pos_row p r by blast
      then show False using run_pieces_inside [OF g cont rq touch p] far r by blast
    qed
  next
    fix q r assume q: "q \<in> set (concat (map (run_pieces rq fin) gs))" and r: "r \<in> set g"
    then obtain h where h: "h \<in> set gs" "q \<in> set (run_pieces rq fin h)" by auto
    have "sources_ok h" by (rule sources_ok_concat [OF rest h(1)])
    moreover have "contiguous h" "\<forall>r \<in> set h. cr_start r < fin \<and> ends_after (cr_end r) (rq_start rq)" using Cons.prems h(1) by auto
    ultimately have inside: "\<exists>r \<in> set h. row_covers r t" if "piece_covers q t" for t
      using run_pieces_inside [OF _ _ rq _ h(2) that] by blast
    show "\<not> meets_row q r"
    proof
      assume "meets_row q r"
      then obtain t where "piece_covers q t" "row_covers r t" using meets_row_iff pos pos_row q r by blast
      then obtain r' where "r' \<in> set h" "row_covers r' t" "row_covers r t" using inside by blast
      then show False using far r h(1) by fastforce
    qed
  qed simp
  then show ?case by simp
qed (simp add: tidy_def)

text \<open>Rows beside the touched ones stay as they are.\<close>

lemma tidy_beside:
  assumes ok: "sources_ok sources" and ps: "tidy (filter P sources) ps" "pieces_ok (filter P sources) ps"
  shows "tidy sources (map untouched_piece (filter (\<lambda>r. \<not> P r) sources) @ ps)"
proof -
  have rest: "sources_ok (filter (\<lambda>r. \<not> P r) sources)" by (rule sources_ok_filter [OF ok])
  show ?thesis
  proof (rule tidy_append [OF tidy_untouched [OF rest] pieces_ok_untouched [OF rest] ps])
    show "cr_id ` set (filter (\<lambda>r. \<not> P r) sources) \<inter> cr_id ` set (filter P sources) = {}"
      using sources_ok_apart [OF ok, of P] by (simp add: Int_commute)
  qed (auto simp: untouched_piece_def)
qed

lemma tidy_target:
  assumes "sources_ok sources"
  shows "tidy sources (map untouched_piece sources @ [target_piece rq None b e []])"
proof -
  have "tidy (filter (\<lambda>_. False) sources) [target_piece rq None b e []]" by (simp add: tidy_def)
  moreover have "tidy sources (map untouched_piece sources)" by (rule tidy_untouched [OF assms])
  ultimately show ?thesis by (auto simp: tidy_def)
qed

lemma open_tidy:
  assumes ok: "sources_ok rows" and ne: "rows \<noteq> []" and touch: "\<forall>r \<in> set rows. ends_after (cr_end r) s"
    and reuse: "\<And>r. reuse = Some r \<Longrightarrow> r \<in> set rows \<and> s \<le> cr_start r"
    and new: "reuse = None \<Longrightarrow> \<forall>r \<in> set rows. cr_id r \<in> piece_ids (left_remainder s rows)"
  shows "tidy rows (left_remainder s rows @ [target_piece rq reuse s None keys])"
proof -
  have hd: "hd rows \<in> set rows" using ne by simp
  note same = same_row [OF ok]
  have left: "within_row p r" if p: "p \<in> set (left_remainder s rows)" "r \<in> set rows" "pc_attendance_id p = Some (cr_id r)" for p r
  proof -
    have "r = hd rows" using that same [OF hd, of r] by (auto simp: left_remainder_def split: if_splits)
    then show ?thesis using p(1) touch hd
      by (cases "cr_end r") (auto simp: left_remainder_def within_row_def split: if_splits)
  qed
  have some: "pc_attendance_id p \<noteq> None" if "p \<in> set (left_remainder s rows)" for p
    using that by (auto simp: left_remainder_def split: if_splits)
  have target: "around_row (target_piece rq reuse s None keys) r" if "r \<in> set rows" "map_option cr_id reuse = Some (cr_id r)" for r
    using that reuse same by (auto simp: around_row_def)
  show ?thesis unfolding tidy_def
  proof (intro ballI conjI impI)
    fix p r assume "p \<in> set (left_remainder s rows @ [target_piece rq reuse s None keys])" "r \<in> set rows" "pc_attendance_id p = Some (cr_id r)"
    then show "within_row p r \<or> around_row p r" using left target by auto
  next
    fix p r assume p: "p \<in> set (left_remainder s rows @ [target_piece rq reuse s None keys])" "pc_attendance_id p = None"
      and r: "r \<in> set rows" "cr_id r \<notin> set (ids_of (left_remainder s rows @ [target_piece rq reuse s None keys]))"
    then have "p \<notin> set (left_remainder s rows)" using some by blast
    then have "p = target_piece rq reuse s None keys" using p(1) by simp
    then show "\<not> meets_row p r" using new r p(2) by (auto simp: piece_ids_ids_of)
  qed
qed

lemma pieces_tidy:
  assumes ok: "sources_ok sources" and pos: "ends_after (rq_end rq) (rq_start rq)"
    and run: "pieces_for_request rq sources = Inr ps"
  shows "tidy sources ps"
proof -
  have keep: "tidy sources (map untouched_piece sources)" by (rule tidy_untouched [OF ok])
  have closed: "tidy sources (closed_pieces rq fin sources)" "tidy sources (closed_merge_pieces rq fin sources)"
    if rq: "rq_end rq = Some fin" for fin
  proof -
    let ?P = "\<lambda>r. cr_start r < fin \<and> ends_after (cr_end r) (rq_start rq)"
    let ?ov = "overlapping (rq_start rq) fin sources"
    have lt: "rq_start rq < fin" using pos rq by simp
    have ov: "sources_ok ?ov" "?ov = filter ?P sources" unfolding overlapping_def by (simp_all add: sources_ok_filter [OF ok])
    have runs: "concat (runs ?ov) = ?ov" "\<forall>grp \<in> set (runs ?ov). contiguous grp" using runs_ok by auto
    have touch: "\<forall>r \<in> set ?ov. ?P r" by (simp add: overlapping_iff)
    have rest: "unaffected sources ?ov = filter (\<lambda>r. \<not> ?P r) sources" by (rule unaffected_overlapping [OF ok])
    have "tidy ?ov (concat (map (run_pieces rq fin) (runs ?ov)))" "pieces_ok ?ov (concat (map (run_pieces rq fin) (runs ?ov)))"
      using runs_tidy [of "runs ?ov" rq fin] runs_pieces_ok [of "runs ?ov" rq fin] runs ov(1) rq lt touch by simp_all
    then have "tidy sources (map untouched_piece (filter (\<lambda>r. \<not> ?P r) sources) @ concat (map (run_pieces rq fin) (runs ?ov)))"
      by (intro tidy_beside [OF ok]) (simp_all add: overlapping_def)
    then show "tidy sources (closed_pieces rq fin sources)" using tidy_target [OF ok] rest by (simp add: closed_pieces_def Let_def)
    have "tidy sources (map untouched_piece (filter (\<lambda>r. \<not> ?P r) sources) @ surgery rq (rq_start rq) fin ?ov)" if ne: "?ov \<noteq> []"
      using surgery_tidy [OF ov(1) ne touch] surgery_pieces_ok [OF ov(1) ne lt]
      by (intro tidy_beside [OF ok]) (simp_all add: overlapping_def)
    then show "tidy sources (closed_merge_pieces rq fin sources)" using tidy_target [OF ok] rest by (simp add: closed_merge_pieces_def Let_def)
  qed
  let ?on = "from_onward (rq_start rq) sources"
  have on: "sources_ok ?on" "?on = filter (\<lambda>r. ends_after (cr_end r) (rq_start rq)) sources" unfolding from_onward_def by (simp_all add: sources_ok_filter [OF ok])
  have beside: "tidy sources (map untouched_piece (filter (\<lambda>r. \<not> ends_after (cr_end r) (rq_start rq)) sources)
      @ left_remainder (rq_start rq) ?on @ [target_piece rq reuse (rq_start rq) None keys])"
    if "?on \<noteq> []" "tidy ?on (left_remainder (rq_start rq) ?on @ [target_piece rq reuse (rq_start rq) None keys])"
      "pieces_ok ?on (left_remainder (rq_start rq) ?on @ [target_piece rq reuse (rq_start rq) None keys])" for reuse keys
    by (rule tidy_beside [OF ok]) (use that in \<open>simp_all add: from_onward_def\<close>)
  have touch: "\<forall>r \<in> set ?on. ends_after (cr_end r) (rq_start rq)" by (simp add: from_onward_def)
  have opn: "tidy sources (open_pieces rq sources)"
  proof (cases "?on = []")
    case True
    then show ?thesis using tidy_target [OF ok] by (simp add: open_pieces_def)
  next
    case False
    let ?reuse = "find (\<lambda>r. cr_id r \<notin> piece_ids (left_remainder (rq_start rq) ?on) \<and> cr_start r \<ge> rq_start rq) ?on"
    have used: "cr_id r \<in> piece_ids (left_remainder (rq_start rq) ?on)" if none: "?reuse = None" and r: "r \<in> set ?on" for r
    proof (rule ccontr)
      assume no: "cr_id r \<notin> piece_ids (left_remainder (rq_start rq) ?on)"
      then have early: "cr_start r < rq_start rq" using none r by (force simp: find_None_iff)
      have "r = hd ?on"
      proof (rule ccontr)
        assume "r \<noteq> hd ?on"
        from before_first [OF on(1) r this] early touch hd_in_set [OF False] show False by (force simp: before_def split: option.splits)
      qed
      then show False using no early by (simp add: left_remainder_def piece_ids_ids_of)
    qed
    have "tidy ?on (left_remainder (rq_start rq) ?on @ [target_piece rq ?reuse (rq_start rq) None ?on])"
      by (rule open_tidy [OF on(1) False touch]) (use used in \<open>auto simp: find_Some_iff\<close>)
    moreover have "pieces_ok ?on (left_remainder (rq_start rq) ?on @ [target_piece rq ?reuse (rq_start rq) None ?on])"
      by (rule open_pieces_ok [OF on(1) False touch]) (auto simp: find_Some_iff)
    ultimately show ?thesis unfolding open_pieces_def Let_def if_not_P [OF False] by (rule beside [OF False])
  qed
  have mrg: "tidy sources qs" if qs: "open_merge_pieces rq sources = Inr qs" for qs
  proof -
    from qs obtain live where live: "find (\<lambda>r. cr_end r = None) sources = Some live" "\<not> cr_start live < rq_start rq"
      and eq: "qs = map untouched_piece (filter (\<lambda>r. \<not> ends_after (cr_end r) (rq_start rq)) sources)
        @ left_remainder (rq_start rq) ?on @ [target_piece rq (Some live) (rq_start rq) None []]"
      by (auto simp: open_merge_pieces_def Let_def split: option.splits if_splits)
    have mem: "live \<in> set ?on" using live by (auto simp: find_Some_iff from_onward_def)
    then have ne: "?on \<noteq> []" by auto
    have "hd ?on \<noteq> live" if "cr_start (hd ?on) < rq_start rq" using that live(2) by auto
    then have free: "cr_id live \<notin> piece_ids (left_remainder (rq_start rq) ?on)"
      using mem same_row [OF on(1) mem hd_in_set [OF ne]] by (auto simp: left_remainder_def piece_ids_ids_of)
    have "tidy ?on (left_remainder (rq_start rq) ?on @ [target_piece rq (Some live) (rq_start rq) None []])"
      by (rule open_tidy [OF on(1) ne touch]) (use mem live(2) in auto)
    moreover have "pieces_ok ?on (left_remainder (rq_start rq) ?on @ [target_piece rq (Some live) (rq_start rq) None []])"
      by (rule open_pieces_ok [OF on(1) ne touch]) (use mem free in auto)
    ultimately show ?thesis unfolding eq by (rule beside [OF ne])
  qed
  show ?thesis using run keep closed opn mrg
    by (auto simp: pieces_for_request_def merge_pieces_for_request_def split: if_splits option.splits)
qed

end
