(* ===== verification/Correction_Writes.thy ===== *)
theory Correction_Writes
  imports Correction_Order
begin

text \<open>
  The writes of planned corrections in terms of the rows they make: what each write turns its row into,
  the phase it is sent in, and why a write never meets another row when the writes are sent in their order.
\<close>

section \<open>Places\<close>

type_synonym place = "int \<times> datetime \<times> datetime option \<times> int option \<times> int option"

definition at_place :: "attendance \<Rightarrow> place" where
  "at_place a = (at_employee a, at_start a, at_end a, at_work_center a, at_department a)"

definition piece_goal :: "int \<Rightarrow> piece \<Rightarrow> place" where
  "piece_goal e p = (e, pc_start p, pc_end p, pc_work_center p, pc_department p)"

definition place_meets :: "place \<Rightarrow> place \<Rightarrow> bool" where
  "place_meets = (\<lambda>(e, s, f, _) (e', s', f', _). e = e' \<and> meet s f s' f')"

lemma of_values_inj [simp]:
  "of_time s = of_time t \<longleftrightarrow> s = t" "of_end e = of_end f \<longleftrightarrow> e = f" "of_end e = PyNone \<longleftrightarrow> e = None"
  by (auto simp: of_time_def of_end_def split: option.splits)

lemma canonical_simps [simp]:
  "at_id (canonical_row r) = cr_id r" "at_employee (canonical_row r) = cr_employee r" "at_start (canonical_row r) = cr_start r"
  "at_end (canonical_row r) = cr_end r" "at_work_center (canonical_row r) = cr_work_center r"
  "at_department (canonical_row r) = cr_department r"
  by (simp_all add: canonical_row_def)

lemma canonical_values: "attendance_values (canonical_row r) = source_mutable_values r"
  by (simp add: attendance_values_def source_mutable_values_def)

lemma piece_values: "piece_mutable_values p e = mutable_values e (pc_start p) (pc_end p) (pc_work_center p) (pc_department p)"
  by (simp add: piece_mutable_values_def)

lemma exact_values:
  assumes "\<And>k. k \<in> set mutable_fields \<Longrightarrow> field d k = field (mutable_values e s f wc dept) k"
  shows "exact_mutable d a \<longleftrightarrow> at_place a = (e, s, f, wc, dept)"
  using assms by (auto simp: exact_mutable_def set_mutable_fields attendance_values_def at_place_def)

text \<open>An update carries the fields in which the piece differs; reading it over the row gives the piece.\<close>

definition part_of :: "dict \<Rightarrow> dict \<Rightarrow> dict \<Rightarrow> bool" where
  "part_of d was becomes =
     (\<forall>k \<in> set mutable_fields. map_of d k = (if map_of was k = map_of becomes k then None else map_of becomes k))"

lemma changed_part:
  assumes "stored_row e r"
  shows "part_of (select_fields (changed_fields (source_mutable_values r) (piece_mutable_values p e)) (piece_mutable_values p e))
    (source_mutable_values r) (piece_mutable_values p e)"
  using field_changed [OF assms] by (auto simp: part_of_def lookup_select)

lemma part_read:
  assumes "part_of d (mutable_values e s f wc dept) (mutable_values e' s' f' wc' dept')"
  shows "time_in d k_check_in s = s'" "end_in d k_check_out f = f'" "id_in d k_work_center wc = wc'"
    "id_in d k_department dept = dept'" "(case map_of d k_employee of Some (PyInt n) \<Rightarrow> n | _ \<Rightarrow> e) = e'"
    "has d k_check_out \<longleftrightarrow> f \<noteq> f'" "has d k_work_center \<longleftrightarrow> wc \<noteq> wc'"
  using assms
  by (auto simp: part_of_def set_mutable_fields map_of_mutable time_in_def end_in_def id_in_def has_def of_time_def of_end_def
      of_id_def split: option.splits if_splits)

section \<open>The planned writes\<close>

lemma planned_cases:
  assumes pl: "planning e rq sources pieces" and oper: "oper \<in> set (planned_writes digest rqv e sources pieces)"
  obtains
    (del) r where "r \<in> set sources" "pieces_by_id pieces (cr_id r) = None" "op_kind oper = Delete"
      "op_attendance_id oper = Some (cr_id r)" "op_employee oper = e" "op_after oper = None"
  | (upd) r p d where "r \<in> set sources" "pieces_by_id pieces (cr_id r) = Some p" "op_kind oper = Update"
      "op_attendance_id oper = Some (cr_id r)" "op_employee oper = e" "op_after oper = Some d"
      "part_of d (source_mutable_values r) (piece_mutable_values p e)" "distinct (map fst d)"
      "at_place (canonical_row r) \<noteq> piece_goal e p"
  | (new) p where "p \<in> set pieces" "pc_attendance_id p = None" "op_kind oper = Create"
      "op_attendance_id oper = None" "op_employee oper = e" "op_after oper = Some (piece_mutable_values p e)"
      "oper = operation_of (key_of digest rqv (piece_operation e p)) (piece_operation e p)"
proof -
  from oper obtain po where po: "po \<in> set (operations_for_pieces sources pieces e)"
    and eq: "oper = operation_of (key_of digest rqv po) po" by (auto simp: planned_writes_def)
  from po show ?thesis
  proof (cases rule: pending_cases)
    case (del r)
    then show ?thesis using that(1) [of r] eq by simp
  next
    case (upd r p changed)
    have "distinct (map fst (select_fields changed (piece_mutable_values p e)))"
      unfolding select_fields_def piece_values using distinct_map_filter distinct_mutable by blast
    note st = planningD(3) [OF pl upd(1)]
    from upd(4) obtain k where k: "k \<in> set changed" by (cases changed) auto
    then have "k \<in> set mutable_fields" unfolding upd(3) by (simp add: changed_fields_def)
    then have "map_of (source_mutable_values r) k \<noteq> map_of (piece_mutable_values p e) k"
      using field_changed [OF st] k upd(3) by blast
    then have differs: "at_place (canonical_row r) \<noteq> piece_goal e p"
      by (auto simp: source_mutable [OF st] piece_values at_place_def piece_goal_def)
    show ?thesis
      using that(2) [of r p] \<open>distinct _\<close> upd eq changed_part [OF st, of p] differs by simp
  next
    case (new p)
    then show ?thesis using that(3) [of p] eq by (simp add: piece_operation_def)
  qed
qed

text \<open>When the values of an update are in a row.\<close>

lemma update_exact:
  assumes st: "stored_row e r" and part: "part_of d (source_mutable_values r) (piece_mutable_values p e)" and dist: "distinct (map fst d)"
  shows "exact_mutable (put_all d (attendance_values (canonical_row r))) a \<longleftrightarrow> at_place a = piece_goal e p"
  unfolding piece_goal_def
proof (rule exact_values)
  fix k assume k: "k \<in> set mutable_fields"
  then have "map_of (mutable_values e (pc_start p) (pc_end p) (pc_work_center p) (pc_department p)) k \<noteq> None"
    by (auto simp: set_mutable_fields map_of_mutable)
  with k show "field (put_all d (attendance_values (canonical_row r))) k = field (mutable_values e (pc_start p) (pc_end p) (pc_work_center p) (pc_department p)) k"
    using part unfolding canonical_values field_def map_of_put_all [OF dist] part_of_def piece_values
    by (auto simp: map_add_def split: option.splits if_splits)
qed

definition goal_of :: "piece list \<Rightarrow> operation \<Rightarrow> place option" where
  "goal_of pieces oper =
     (case op_attendance_id oper of
        Some i \<Rightarrow> map_option (piece_goal (op_employee oper)) (pieces_by_id pieces i)
      | None \<Rightarrow> (let d = given (op_after oper) in
          Some (op_employee oper, time_in d k_check_in 0, end_in d k_check_out None, id_in d k_work_center None, id_in d k_department None)))"

lemma full_read:
  "time_in (mutable_values e s f wc dept) k_check_in t = s" "end_in (mutable_values e s f wc dept) k_check_out t' = f"
  "id_in (mutable_values e s f wc dept) k_work_center i = wc" "id_in (mutable_values e s f wc dept) k_department i = dept"
  "has (mutable_values e s f wc dept) k_check_out"
  by (auto simp: time_in_def end_in_def id_in_def has_def map_of_mutable of_time_def of_end_def of_id_def split: option.splits)

lemma goal_new: "op_attendance_id oper = None \<Longrightarrow> op_employee oper = e \<Longrightarrow> op_after oper = Some (piece_mutable_values p e) \<Longrightarrow>
    goal_of pieces oper = Some (piece_goal e p)"
  by (simp add: goal_of_def Let_def given_def piece_values full_read piece_goal_def)

section \<open>Phases\<close>

definition snapshot_of :: "correction_row list \<Rightarrow> attendance list \<Rightarrow> bool" where
  "snapshot_of sources S = (\<forall>r \<in> set sources. source_row_by_id S (cr_id r) = Inr (canonical_row r))"

lemma part_has:
  assumes "stored_row e r" "part_of d (source_mutable_values r) (piece_mutable_values p e)"
  shows "time_in d k_check_in (cr_start r) = pc_start p" "end_in d k_check_out (cr_end r) = pc_end p"
    "id_in d k_work_center (cr_work_center r) = pc_work_center p" "id_in d k_department (cr_department r) = pc_department p"
    "(case map_of d k_employee of Some (PyInt n) \<Rightarrow> n | _ \<Rightarrow> cr_employee r) = e"
    "has d k_check_out \<longleftrightarrow> cr_end r \<noteq> pc_end p" "has d k_work_center \<longleftrightarrow> cr_work_center r \<noteq> pc_work_center p"
  using part_read assms stored_rowD(1) [OF assms(1)] unfolding source_mutable [OF assms(1)] piece_values by auto

lemma part_field:
  assumes "part_of d (source_mutable_values r) (piece_mutable_values p e)" "has d k" "k \<in> set mutable_fields"
  shows "field d k = field (piece_mutable_values p e) k"
  using assms by (auto simp: part_of_def has_def field_def split: if_splits)

lemma delete_phase: "op_kind oper = Delete \<Longrightarrow> op_after oper = None \<Longrightarrow> write_phase S oper = Inr 3"
  by (simp add: write_phase_def open_producing_def)

lemma create_phase:
  assumes "op_kind oper = Create" "op_after oper = Some (piece_mutable_values p e)"
  shows "write_phase S oper = Inr (if pc_end p = None then 5 else 2)"
  using assms by (simp add: write_phase_def open_producing_def piece_values full_read(5))

lemma update_phase:
  assumes st: "stored_row e r" and part: "part_of d (source_mutable_values r) (piece_mutable_values p e)"
    and oper: "op_kind oper = Update" "op_attendance_id oper = Some (cr_id r)" "op_after oper = Some d"
    and src: "source_row_by_id S (cr_id r) = Inr (canonical_row r)"
    and lies: "within_row p r \<or> around_row p r"
  shows "(\<exists>n \<le> 1. write_phase S oper = Inr n) \<and> within_row p r \<or> (\<exists>n \<ge> 4. write_phase S oper = Inr n) \<and> around_row p r"
proof -
  note read = part_has [OF st part]
  have producing: "open_producing oper S = Inr (pc_end p = None)"
    using oper src read(6) part_field [OF part, of k_check_out]
    by (auto simp: open_producing_def set_mutable_fields piece_values)
  have extends: "extends_source_interval oper (canonical_row r) \<longleftrightarrow>
      pc_start p < cr_start r \<or> (case (pc_end p, cr_end r) of (Some e, Some f) \<Rightarrow> f < e | _ \<Rightarrow> False)"
    using oper read(1,2) by (simp add: extends_source_interval_def given_def)
  show ?thesis using lies
    by (auto simp: write_phase_def oper src producing extends within_row_def around_row_def ends_by_iff split: option.splits)
qed

section \<open>No write meets another row\<close>

lemma pieces_never_meet:
  assumes pl: "planning e rq sources pieces" and p: "p \<in> set pieces" and q: "q \<in> set pieces" and ne: "p \<noteq> q"
  shows "\<not> meet (pc_start p) (pc_end p) (pc_start q) (pc_end q)"
proof -
  have one: "length (pieces_at pieces t) \<le> 1" for t
    using requested_single [OF planningD(2) [OF pl]] planningD(5) [OF pl] by metis
  have pos: "\<forall>p \<in> set pieces. ends_after (pc_end p) (pc_start p)" using planned_piece(1) [OF pl] by blast
  have "pc_start p \<noteq> pc_start q" using planned_starts [OF pl] p q ne by (auto simp: distinct_map dest: inj_onD)
  then consider "pc_start p < pc_start q" | "pc_start q < pc_start p" by linarith
  then show ?thesis
    using pieces_apart [OF one pos p q] pieces_apart [OF one pos q p] by cases (auto simp: disjoint_pieces_def meet_def)
qed

lemma rows_never_meet:
  assumes ok: "sources_ok sources" and r: "r \<in> set sources" and r': "r' \<in> set sources" and ne: "r \<noteq> r'"
  shows "\<not> meet (cr_start r) (cr_end r) (cr_start r') (cr_end r')"
proof -
  have pos: "ends_after (cr_end r) (cr_start r)" "ends_after (cr_end r') (cr_start r')" using ok r r' by (auto simp: sources_ok_def)
  show ?thesis unfolding meet_iff [OF pos] using rows_apart [OF ok r r'] ne by (auto simp: row_covers_def)
qed

lemma goal_piece:
  assumes pl: "planning e rq sources pieces" and oper: "oper \<in> set (planned_writes digest rqv e sources pieces)"
    and goal: "goal_of pieces oper = Some g"
  obtains p where "p \<in> set pieces" "g = piece_goal e p" "op_attendance_id oper = pc_attendance_id p"
    "pc_attendance_id p = None \<longrightarrow> oper = operation_of (key_of digest rqv (piece_operation e p)) (piece_operation e p)"
  using pl oper
proof (cases rule: planned_cases)
  case (upd r p d)
  have "p \<in> set pieces" "pc_attendance_id p = Some (cr_id r)" using piece_by_id(1) [OF planningD(4,2) [OF pl] upd(1)] upd(2) by auto
  moreover have "g = piece_goal e p" using goal upd by (simp add: goal_of_def)
  ultimately show ?thesis using that [of p] upd(4) by simp
next
  case (new p)
  have "g = piece_goal e p" using goal goal_new [OF new(4,5,6), of pieces] by simp
  then show ?thesis using that [of p] new(1,2,4,7) by simp
next
  case (del r)
  then show ?thesis using goal by (simp add: goal_of_def)
qed

lemma goals_never_meet:
  assumes pl: "planning e rq sources pieces"
    and X: "X \<in> set (planned_writes digest rqv e sources pieces)" "goal_of pieces X = Some g"
    and Y: "Y \<in> set (planned_writes digest rqv e sources pieces)" "goal_of pieces Y = Some h"
    and ne: "X \<noteq> Y" "op_attendance_id X \<noteq> None \<Longrightarrow> op_attendance_id X \<noteq> op_attendance_id Y"
  shows "\<not> place_meets g h"
proof -
  obtain p where p: "p \<in> set pieces" "g = piece_goal e p" "op_attendance_id X = pc_attendance_id p"
    "pc_attendance_id p = None \<longrightarrow> X = operation_of (key_of digest rqv (piece_operation e p)) (piece_operation e p)"
    by (rule goal_piece [OF pl X])
  obtain q where q: "q \<in> set pieces" "h = piece_goal e q" "op_attendance_id Y = pc_attendance_id q"
    "pc_attendance_id q = None \<longrightarrow> Y = operation_of (key_of digest rqv (piece_operation e q)) (piece_operation e q)"
    by (rule goal_piece [OF pl Y])
  have "p \<noteq> q" using p q ne by auto
  from pieces_never_meet [OF pl p(1) q(1) this] show ?thesis unfolding p(2) q(2) by (simp add: place_meets_def piece_goal_def)
qed

lemma unwritten_row:
  assumes pl: "planning e rq sources pieces" and r: "r \<in> set sources"
    and none: "\<forall>oper \<in> set (planned_writes digest rqv e sources pieces). op_attendance_id oper \<noteq> Some (cr_id r)"
  obtains p where "p \<in> set pieces" "pc_attendance_id p = Some (cr_id r)" "at_place (canonical_row r) = piece_goal e p"
proof -
  note st = planningD(3) [OF pl r]
  have none': "source_operation pieces e r = []"
  proof (cases "source_operation pieces e r")
    case (Cons po rest)
    then have po: "po \<in> set (source_operation pieces e r)" by simp
    then have "operation_of (key_of digest rqv po) po \<in> set (planned_writes digest rqv e sources pieces)"
      using source_operation_member [OF r] by (simp add: planned_writes_def)
    then show ?thesis using none source_operation_facts(1) [OF po] by fastforce
  qed
  then obtain p where p: "pieces_by_id pieces (cr_id r) = Some p"
    "changed_fields (source_mutable_values r) (piece_mutable_values p e) = []"
    by (auto simp: source_operation_def Let_def split: option.splits if_splits)
  then have same: "\<forall>k \<in> set mutable_fields. field (source_mutable_values r) k = field (piece_mutable_values p e) k"
    by (simp add: changed_fields_def filter_empty_conv)
  have "at_place (canonical_row r) = piece_goal e p"
    using same stored_rowD(1) [OF st]
    by (simp add: source_mutable [OF st] piece_values set_mutable_fields at_place_def piece_goal_def)
  then show ?thesis using that p piece_by_id(1) [OF planningD(4,2) [OF pl] r] by blast
qed

text \<open>
  A write and a row whose own write comes later, or not at all: a shrinking write stays within its row,
  a growing one comes after the deletions, and a new row meets no row that is deleted.
\<close>

lemma write_clear:
  assumes pl: "planning e rq sources pieces" and snap: "snapshot_of sources S"
    and X: "X \<in> set (planned_writes digest rqv e sources pieces)" "goal_of pieces X = Some g" "write_phase S X = Inr m"
    and Y: "Y \<in> set (planned_writes digest rqv e sources pieces)" "write_phase S Y = Inr n" "m \<le> n"
    and r: "r \<in> set sources" "op_attendance_id Y = Some (cr_id r)" "op_attendance_id X \<noteq> Some (cr_id r)"
  shows "\<not> place_meets (at_place (canonical_row r)) g"
proof -
  have ok: "sources_ok sources" and pok: "pieces_ok sources pieces" using planningD [OF pl] by auto
  have tidy: "tidy sources pieces"
    by (rule pieces_tidy [OF ok planningD(6) [OF pl]]) (use pl in \<open>simp add: planning_def\<close>)
  have lies: "within_row p r \<or> around_row p r" if "r \<in> set sources" "pieces_by_id pieces (cr_id r) = Some p" for p r
    using tidy piece_by_id(1) [OF pok ok that(1)] that by (auto simp: tidy_def)
  have src: "source_row_by_id S (cr_id r) = Inr (canonical_row r)" if "r \<in> set sources" for r
    using snap that by (simp add: snapshot_of_def)
  have emp: "cr_employee r = e" by (rule stored_rowD(1) [OF planningD(3) [OF pl r(1)]])
  obtain p where p: "p \<in> set pieces" "g = piece_goal e p" "op_attendance_id X = pc_attendance_id p" by (rule goal_piece [OF pl X(1,2)])
  have meets: "place_meets (at_place (canonical_row r)) g \<longleftrightarrow> meets_row p r"
    using emp meet_sym by (simp add: place_meets_def at_place_def p(2) piece_goal_def meets_row_def)
  have shrink: False if "meets_row p r" "r' \<in> set sources" "within_row p r'" "r' \<noteq> r" for r'
    using that rows_never_meet [OF ok that(2) r(1) that(4)] meet_within by (auto simp: meets_row_def within_row_def)
  have grow: False if "meets_row p r" "pieces_by_id pieces (cr_id r) = Some q" "around_row q r" for q
  proof -
    have q: "q \<in> set pieces" "pc_attendance_id q = Some (cr_id r)" using piece_by_id(1) [OF pok ok r(1)] that(2) by auto
    then have "p \<noteq> q" using r(3) p(3) by auto
    then show False using pieces_never_meet [OF pl q(1) p(1)] that(1,3) meet_within meet_sym
      by (metis around_row_def meets_row_def)
  qed
  have laterY: "n \<ge> 2 \<Longrightarrow> meets_row p r \<Longrightarrow> n = 3 \<and> cr_id r \<notin> set (ids_of pieces)"
    using pl Y(1)
  proof (cases rule: planned_cases)
    case (del r')
    then have "r' = r" using same_row [OF ok _ r(1)] r(2) by simp
    then have "pieces_by_id pieces (cr_id r) = None" "n = 3" using del delete_phase Y(2) by auto
    then show ?thesis using piece_by_id(1) [OF pok ok r(1)] by (auto simp: ids_of_def set_map_filter)
  next
    case (upd r' q d)
    then have eq: "r' = r" using same_row [OF ok _ r(1)] r(2) by simp
    assume "n \<ge> 2" "meets_row p r"
    with update_phase [OF planningD(3) [OF pl upd(1)] upd(7,3,4,6) src [OF upd(1)] lies [OF upd(1,2)]] Y(2)
    have "around_row q r" unfolding eq by auto
    with grow [OF \<open>meets_row p r\<close>] upd(2) show ?thesis unfolding eq by blast
  next
    case (new q)
    then show ?thesis using r(2) by simp
  qed
  show ?thesis unfolding meets
  proof
    assume meet: "meets_row p r"
    show False using pl X(1)
    proof (cases rule: planned_cases)
      case (del r')
      then show False using X(2) by (simp add: goal_of_def)
    next
      case (upd r' q d)
      have q: "q = p" using X(2) upd p(2,3) piece_by_id(1) [OF pok ok upd(1)] by (metis option.inject p(1))
      have ne: "r' \<noteq> r" using upd(4) r(3) by auto
      from update_phase [OF planningD(3) [OF pl upd(1)] upd(7,3,4,6) src [OF upd(1)] lies [OF upd(1,2)]] X(3)
      have "within_row p r' \<or> 4 \<le> m" unfolding q by auto
      then show False using shrink [OF meet upd(1) _ ne] laterY [OF _ meet] Y(3) by auto
    next
      case (new q)
      have ph: "2 \<le> m" "m = 2 \<or> m = 5" using create_phase [OF new(3,6), of S] X(3) by (auto split: if_splits)
      then have late: "n = 3" "cr_id r \<notin> set (ids_of pieces)" using laterY [OF _ meet] Y(3) by auto
      have "pc_attendance_id p = None" using p(3) new(4) by simp
      then show False using tidy p(1) r(1) late(2) meet by (auto simp: tidy_def)
    qed
  qed
qed

end
