(* ===== verification/Correction_Sending.thy ===== *)
theory Correction_Sending
  imports Correction_Writes
begin

text \<open>
  The writes of a job, sent to Odoo one after the other: what Odoo holds after a part of them, that it
  accepts the next one, and what it holds in the end.
\<close>

lemma distinct_one:
  assumes "set xs = {x}" "distinct xs"
  shows "xs = [x]"
proof (cases xs)
  case (Cons y ys)
  then have "ys = []" using assms by (cases ys) auto
  then show ?thesis using Cons assms(1) by simp
qed (use assms in simp)

section \<open>A prepared job\<close>

definition whole :: "datetime \<Rightarrow> bool" where
  "whole t = (t mod 1000000 = 0)"

lemma whole_second_id [simp]: "whole t \<Longrightarrow> whole_second t = t" "at_end_too whole e \<Longrightarrow> map_option whole_second e = e"
  by (auto simp: whole_def at_end_too_def whole_second_def split: option.splits)

definition odoo_ok :: "odoo \<Rightarrow> bool" where
  "odoo_ok od =
     (distinct (map at_id (od_rows od)) \<and>
      list_all (\<lambda>a. at_id a < od_next od \<and> acceptable a (od_rows od) \<and> whole (at_start a) \<and> at_end_too whole (at_end a)) (od_rows od))"

text \<open>
  The employees of a job, with the rows of each that the preview has read from Odoo and the pieces
  planned from them.
\<close>

definition prepared ::
    "int list \<Rightarrow> request \<Rightarrow> (int \<Rightarrow> correction_row list) \<Rightarrow> (int \<Rightarrow> piece list) \<Rightarrow> odoo \<Rightarrow> bool" where
  "prepared employees rq src pcs od =
     (distinct employees \<and> odoo_ok od \<and> whole (rq_start rq) \<and> at_end_too whole (rq_end rq) \<and>
      list_all (\<lambda>e. planning e rq (src e) (pcs e) \<and>
         map canonical_row (src e) = fetch_employee_rows od e (rq_start rq) (rq_end rq)) employees)"

definition job_writes ::
    "(pyvalue \<Rightarrow> string) \<Rightarrow> int list \<Rightarrow> request \<Rightarrow> (int \<Rightarrow> correction_row list) \<Rightarrow> (int \<Rightarrow> piece list) \<Rightarrow> operation list" where
  "job_writes digest employees rq src pcs =
     concat (map (\<lambda>e. planned_writes digest (request_values e rq) e (src e) (pcs e)) employees)"

definition job_snapshot :: "int list \<Rightarrow> (int \<Rightarrow> correction_row list) \<Rightarrow> attendance list" where
  "job_snapshot employees src = concat (map (\<lambda>e. sort_key at_id (map canonical_row (src e))) employees)"

definition job_goal :: "(int \<Rightarrow> piece list) \<Rightarrow> operation \<Rightarrow> place option" where
  "job_goal pcs oper = goal_of (pcs (op_employee oper)) oper"

definition row_at :: "odoo \<Rightarrow> int \<Rightarrow> attendance option" where
  "row_at od i = find (\<lambda>a. at_id a = i) (od_rows od)"

lemma row_at_iff:
  assumes "distinct (map at_id (od_rows od))"
  shows "row_at od i = Some a \<longleftrightarrow> a \<in> set (od_rows od) \<and> at_id a = i"
proof
  assume "row_at od i = Some a"
  then show "a \<in> set (od_rows od) \<and> at_id a = i" by (auto simp: row_at_def dest: find_SomeD)
next
  assume a: "a \<in> set (od_rows od) \<and> at_id a = i"
  then have "row_at od i \<noteq> None" by (auto simp: row_at_def find_None_iff)
  then obtain b where b: "row_at od i = Some b" by auto
  then have "b \<in> set (od_rows od) \<and> at_id b = i" by (auto simp: row_at_def dest: find_SomeD)
  then have "b = a" using a assms by (auto simp: distinct_map dest: inj_onD)
  then show "row_at od i = Some a" using b by simp
qed

lemma fetched:
  assumes "prepared employees rq src pcs od" "e \<in> set employees"
  shows "a \<in> canonical_row ` set (src e) \<longleftrightarrow>
    a \<in> set (od_rows od) \<and> at_employee a = e \<and> ends_after (at_end a) (rq_start rq) \<and> ends_after (rq_end rq) (at_start a)"
proof -
  have "canonical_row ` set (src e) = set (fetch_employee_rows od e (rq_start rq) (rq_end rq))"
    using assms by (auto simp: prepared_def list_all_iff simp flip: set_map)
  then show ?thesis using assms by (auto simp: fetch_employee_rows_def prepared_def)
qed

lemma preparedD:
  assumes "prepared employees rq src pcs od"
  shows "distinct (map at_id (od_rows od))" "\<And>a. a \<in> set (od_rows od) \<Longrightarrow> at_id a < od_next od"
    "\<And>a. a \<in> set (od_rows od) \<Longrightarrow> acceptable a (od_rows od)" "\<And>a. a \<in> set (od_rows od) \<Longrightarrow> whole (at_start a) \<and> at_end_too whole (at_end a)"
    "\<And>e. e \<in> set employees \<Longrightarrow> planning e rq (src e) (pcs e)"
  using assms by (auto simp: prepared_def odoo_ok_def list_all_iff)

lemma source_in_odoo:
  assumes "prepared employees rq src pcs od" "e \<in> set employees" "r \<in> set (src e)"
  shows "row_at od (cr_id r) = Some (canonical_row r)" "cr_employee r = e"
proof -
  have "canonical_row r \<in> set (od_rows od) \<and> at_employee (canonical_row r) = e"
    using fetched [OF assms(1,2), of "canonical_row r"] assms(3) by blast
  then show "row_at od (cr_id r) = Some (canonical_row r)" "cr_employee r = e"
    using row_at_iff [OF preparedD(1) [OF assms(1)]] by auto
qed

lemma snapshot_prepared:
  assumes prep: "prepared employees rq src pcs od" and e: "e \<in> set employees"
  shows "snapshot_of (src e) (job_snapshot employees src)"
  unfolding snapshot_of_def
proof
  fix r assume r: "r \<in> set (src e)"
  let ?S = "job_snapshot employees src"
  have mem: "a \<in> set ?S \<longleftrightarrow> (\<exists>e' \<in> set employees. a \<in> canonical_row ` set (src e'))" for a
    by (auto simp: job_snapshot_def)
  have sub: "set ?S \<subseteq> set (od_rows od)" using mem fetched [OF prep] by blast
  have emp: "at_employee a = e'" if "e' \<in> set employees" "a \<in> canonical_row ` set (src e')" for a e'
    using fetched [OF prep that(1)] that(2) by blast
  have "distinct (map at_id (map canonical_row (src e')))" if "e' \<in> set employees" for e'
    using planningD(2) [OF preparedD(5) [OF prep that]] by (simp add: sources_ok_def comp_def)
  then have "distinct (map canonical_row (src e'))" if "e' \<in> set employees" for e' using that distinct_map by blast
  moreover have "distinct employees" using prep by (simp add: prepared_def)
  ultimately have "distinct ?S"
    unfolding job_snapshot_def using emp
  proof (induction employees)
    case (Cons e' es)
    have "a \<notin> set (concat (map (\<lambda>e. sort_key at_id (map canonical_row (src e))) es))" if "a \<in> set (sort_key at_id (map canonical_row (src e')))" for a
    proof
      assume "a \<in> set (concat (map (\<lambda>e. sort_key at_id (map canonical_row (src e))) es))"
      then obtain e'' where "e'' \<in> set es" "a \<in> canonical_row ` set (src e'')" by auto
      then have "at_employee a = e''" "at_employee a = e'" using Cons.prems(3) that by auto
      then show False using \<open>e'' \<in> set es\<close> Cons.prems(2) by simp
    qed
    moreover have "distinct (concat (map (\<lambda>e. sort_key at_id (map canonical_row (src e))) es))"
      using Cons by simp
    moreover have "distinct (sort_key at_id (map canonical_row (src e')))" using Cons.prems(1) [of e'] by (simp del: sort_key_const)
    ultimately show ?case by auto
  qed simp
  then have "filter (\<lambda>a. at_id a = cr_id r) ?S = [canonical_row r]"
  proof -
    assume dist: "distinct ?S"
    have in_S: "canonical_row r \<in> set ?S" using mem e r by blast
    have "set (filter (\<lambda>a. at_id a = cr_id r) ?S) = {canonical_row r}"
    proof -
      have inj: "inj_on at_id (set (od_rows od))" using preparedD(1) [OF prep] by (simp add: distinct_map)
      have "a = canonical_row r" if "a \<in> set ?S" "at_id a = cr_id r" for a
        using inj_onD [OF inj, of a "canonical_row r"] that sub in_S by auto
      moreover have "at_id (canonical_row r) = cr_id r" by simp
      ultimately show ?thesis unfolding set_filter using in_S by blast
    qed
    moreover have "distinct (filter (\<lambda>a. at_id a = cr_id r) ?S)" using dist by simp
    ultimately show ?thesis by (rule distinct_one)
  qed
  then show "source_row_by_id ?S (cr_id r) = Inr (canonical_row r)" by (simp add: source_row_by_id_def)
qed

section \<open>Part of the writes\<close>

definition holds :: "odoo \<Rightarrow> (int \<Rightarrow> piece list) \<Rightarrow> (operation \<Rightarrow> int) \<Rightarrow> operation set \<Rightarrow> odoo \<Rightarrow> bool" where
  "holds od0 pcs slot sent od =
     (distinct (map at_id (od_rows od)) \<and> (\<forall>a \<in> set (od_rows od). at_id a < od_next od) \<and> od_next od0 \<le> od_next od \<and>
      inj_on slot sent \<and>
      (\<forall>oper \<in> sent. (case op_attendance_id oper of Some i \<Rightarrow> slot oper = i
          | None \<Rightarrow> od_next od0 \<le> slot oper \<and> slot oper < od_next od) \<and>
        map_option at_place (row_at od (slot oper)) = job_goal pcs oper) \<and>
      (\<forall>i. i \<notin> slot ` sent \<longrightarrow> row_at od i = row_at od0 i))"

lemma holdsD:
  assumes "holds od0 pcs slot sent od"
  shows "distinct (map at_id (od_rows od))" "\<And>a. a \<in> set (od_rows od) \<Longrightarrow> at_id a < od_next od" "od_next od0 \<le> od_next od"
    "inj_on slot sent" "\<And>oper i. oper \<in> sent \<Longrightarrow> op_attendance_id oper = Some i \<Longrightarrow> slot oper = i"
    "\<And>oper. oper \<in> sent \<Longrightarrow> op_attendance_id oper = None \<Longrightarrow> od_next od0 \<le> slot oper \<and> slot oper < od_next od"
    "\<And>oper. oper \<in> sent \<Longrightarrow> map_option at_place (row_at od (slot oper)) = job_goal pcs oper"
    "\<And>i. i \<notin> slot ` sent \<Longrightarrow> row_at od i = row_at od0 i"
  using assms by (auto simp: holds_def split: option.splits)

lemma holds_start: "prepared employees rq src pcs od \<Longrightarrow> holds od pcs slot {} od"
  using preparedD by (auto simp: holds_def)

lemma job_writes_member:
  assumes "oper \<in> set (job_writes digest employees rq src pcs)" "prepared employees rq src pcs od"
  shows "op_employee oper \<in> set employees"
    "oper \<in> set (planned_writes digest (request_values (op_employee oper) rq) (op_employee oper) (src (op_employee oper)) (pcs (op_employee oper)))"
proof -
  obtain e where e: "e \<in> set employees" "oper \<in> set (planned_writes digest (request_values e rq) e (src e) (pcs e))"
    using assms(1) by (auto simp: job_writes_def)
  have "op_employee oper = e" using preparedD(5) [OF assms(2) e(1)] e(2) by (cases rule: planned_cases) auto
  then show "op_employee oper \<in> set employees"
    "oper \<in> set (planned_writes digest (request_values (op_employee oper) rq) (op_employee oper) (src (op_employee oper)) (pcs (op_employee oper)))"
    using e by simp_all
qed

text \<open>A write on an id is about the source row that has it.\<close>

lemma write_source:
  assumes prep: "prepared employees rq src pcs od" and X: "X \<in> set (job_writes digest employees rq src pcs)"
    and id: "op_attendance_id X = Some i"
  obtains r where "r \<in> set (src (op_employee X))" "cr_id r = i" "row_at od i = Some (canonical_row r)" "i < od_next od"
proof -
  note mem = job_writes_member [OF X prep]
  note pl = preparedD(5) [OF prep mem(1)]
  from pl mem(2) obtain r where r: "r \<in> set (src (op_employee X))" "cr_id r = i"
    using id by (cases rule: planned_cases) auto
  note row = source_in_odoo(1) [OF prep mem(1) r(1)]
  then have "i < od_next od" using row_at_iff [OF preparedD(1) [OF prep]] preparedD(2) [OF prep] r(2) by fastforce
  then show ?thesis using that r row by simp
qed

lemma same_write:
  assumes prep: "prepared employees rq src pcs od"
    and X: "X \<in> set (job_writes digest employees rq src pcs)" and Y: "Y \<in> set (job_writes digest employees rq src pcs)"
    and id: "op_attendance_id X = Some i" "op_attendance_id Y = Some i"
  shows "X = Y"
proof -
  obtain r where r: "r \<in> set (src (op_employee X))" "row_at od i = Some (canonical_row r)" by (rule write_source [OF prep X id(1)])
  obtain r' where r': "r' \<in> set (src (op_employee Y))" "row_at od i = Some (canonical_row r')" by (rule write_source [OF prep Y id(2)])
  have "cr_employee r = op_employee X" "cr_employee r' = op_employee Y"
    using source_in_odoo(2) [OF prep] job_writes_member(1) [OF _ prep] X Y r(1) r'(1) by blast+
  moreover have "cr_employee r = cr_employee r'" using r(2) r'(2) by (metis canonical_simps(2) option.inject)
  ultimately have e: "op_employee X = op_employee Y" by simp
  note pl = preparedD(5) [OF prep job_writes_member(1) [OF X prep]]
  have "distinct (List.map_filter op_attendance_id (planned_writes digest (request_values (op_employee X) rq) (op_employee X) (src (op_employee X)) (pcs (op_employee X))))"
    by (rule distinct_ids [OF pl]) simp
  from operation_on_Some [OF this, of i] show ?thesis
    using job_writes_member(2) [OF X prep] job_writes_member(2) [OF Y prep] id e by (metis option.inject)
qed

text \<open>Rows the preview did not read lie beside every piece.\<close>

lemma bystander_clear:
  assumes prep: "prepared employees rq src pcs od" and e: "e \<in> set employees" and p: "p \<in> set (pcs e)"
    and a: "a \<in> set (od_rows od)" "a \<notin> canonical_row ` set (src e)"
  shows "\<not> place_meets (at_place a) (piece_goal e p)"
proof
  assume "place_meets (at_place a) (piece_goal e p)"
  then have emp: "at_employee a = e" and meet: "meet (at_start a) (at_end a) (pc_start p) (pc_end p)"
    by (auto simp: place_meets_def at_place_def piece_goal_def)
  note pl = preparedD(5) [OF prep e]
  have pos: "ends_after (at_end a) (at_start a)" using preparedD(3) [OF prep a(1)] by (simp add: acceptable_def)
  obtain t where t: "at_start a \<le> t" "ends_after (at_end a) t" "pc_start p \<le> t" "ends_after (pc_end p) t"
    using meet unfolding meet_iff [OF pos planned_piece(1) [OF pl p]] by blast
  then have "piece_place p \<in> set (pieces_at (pcs e) t)" using p by (auto simp: pieces_at_def piece_covers_def)
  then have "requested_at rq (src e) t \<noteq> []" unfolding planningD(5) [OF pl] by auto
  then consider "in_request rq t" | "rows_at (src e) t \<noteq> []" by (auto simp: requested_at_def split: if_splits)
  then show False
  proof cases
    case 1
    then show ?thesis using fetched [OF prep e, of a] a emp t ends_after_mono by (auto simp: in_request_def)
  next
    case 2
    then obtain r where r: "r \<in> set (src e)" "row_covers r t" unfolding covered_rows by blast
    note row = source_in_odoo [OF prep e r(1)]
    have in_od: "canonical_row r \<in> set (od_rows od)" using row(1) row_at_iff [OF preparedD(1) [OF prep]] by blast
    then have "meet (cr_start r) (cr_end r) (at_start a) (at_end a)"
      using r(2) t ends_after_mono by (auto simp: meet_def row_covers_def)
    moreover have "at_id a \<noteq> cr_id r"
      using a r(1) row(1) row_at_iff [OF preparedD(1) [OF prep], of "cr_id r" a] by auto
    moreover have "clear_of a (od_rows od)" using preparedD(3) [OF prep a(1)] by (simp add: acceptable_def)
    ultimately show False using in_od emp row(2) by (auto simp: clear_of_def list_all_iff)
  qed
qed

section \<open>The next write\<close>

definition due :: "attendance list \<Rightarrow> operation \<Rightarrow> operation set \<Rightarrow> bool" where
  "due S X later = (\<exists>m. write_phase S X = Inr m \<and> (\<forall>Y \<in> later. \<exists>n. write_phase S Y = Inr n \<and> m \<le> n))"

lemma job_goal_piece:
  assumes prep: "prepared employees rq src pcs od" and X: "X \<in> set (job_writes digest employees rq src pcs)"
    and goal: "job_goal pcs X = Some g"
  obtains p where "p \<in> set (pcs (op_employee X))" "g = piece_goal (op_employee X) p" "op_attendance_id X = pc_attendance_id p"
proof -
  note mem = job_writes_member [OF X prep]
  show ?thesis using goal goal_piece [OF preparedD(5) [OF prep mem(1)] mem(2), of g] that by (auto simp: job_goal_def)
qed

lemma next_clear:
  assumes prep: "prepared employees rq src pcs od0" and h: "holds od0 pcs slot sent od"
    and sent: "sent \<subseteq> set (job_writes digest employees rq src pcs)"
    and X: "X \<in> set (job_writes digest employees rq src pcs)" "X \<notin> sent" "job_goal pcs X = Some g"
    and due: "due (job_snapshot employees src) X (set (job_writes digest employees rq src pcs) - sent - {X})"
    and a: "a \<in> set (od_rows od)" "op_attendance_id X \<noteq> Some (at_id a)"
  shows "\<not> place_meets (at_place a) g"
proof
  assume meets: "place_meets (at_place a) g"
  let ?e = "op_employee X"
  note mem = job_writes_member [OF X(1) prep]
  note pl = preparedD(5) [OF prep mem(1)]
  obtain p where p: "p \<in> set (pcs ?e)" "g = piece_goal ?e p" "op_attendance_id X = pc_attendance_id p"
    by (rule job_goal_piece [OF prep X(1,3)])
  have emp: "at_employee a = ?e" using meets unfolding p(2) by (auto simp: place_meets_def at_place_def piece_goal_def)
  have row: "row_at od (at_id a) = Some a" using row_at_iff [OF holdsD(1) [OF h]] a(1) by blast
  show False
  proof (cases "at_id a \<in> slot ` sent")
    case True
    then obtain Y where Y: "Y \<in> sent" "slot Y = at_id a" by auto
    then have gY: "job_goal pcs Y = Some (at_place a)" using holdsD(7) [OF h Y(1)] row by simp
    have Yw: "Y \<in> set (job_writes digest employees rq src pcs)" using Y sent by blast
    obtain q where "at_place a = piece_goal (op_employee Y) q" by (rule job_goal_piece [OF prep Yw gY])
    then have e: "op_employee Y = ?e" using emp by (simp add: at_place_def piece_goal_def)
    have "op_attendance_id X \<noteq> op_attendance_id Y" if "op_attendance_id X \<noteq> None"
      using that same_write [OF prep X(1) Yw] X(2) Y(1) by fastforce
    with goals_never_meet [OF pl mem(2), of g Y "at_place a"] X(2,3) Y(1) gY meets job_writes_member(2) [OF Yw prep] e
    show False unfolding job_goal_def place_meets_def using meet_sym by (auto split: prod.splits)
  next
    case False
    then have row0: "row_at od0 (at_id a) = Some a" using holdsD(8) [OF h] row by simp
    then have in0: "a \<in> set (od_rows od0)" using row_at_iff [OF preparedD(1) [OF prep]] by blast
    show False
    proof (cases "a \<in> canonical_row ` set (src ?e)")
      case False
      from bystander_clear [OF prep mem(1) p(1) in0 this] meets show False unfolding p(2) by blast
    next
      case True
      then obtain r where r: "r \<in> set (src ?e)" "a = canonical_row r" by auto
      show False
      proof (cases "\<exists>Y \<in> set (planned_writes digest (request_values ?e rq) ?e (src ?e) (pcs ?e)). op_attendance_id Y = Some (cr_id r)")
        case True
        then obtain Y where Y: "Y \<in> set (planned_writes digest (request_values ?e rq) ?e (src ?e) (pcs ?e))" "op_attendance_id Y = Some (cr_id r)" by blast
        then have Yw: "Y \<in> set (job_writes digest employees rq src pcs)" using mem(1) by (auto simp: job_writes_def)
        have "Y \<notin> sent" using False holdsD(5) [OF h _ Y(2)] r(2) by force
        moreover have "Y \<noteq> X" using Y(2) a(2) r(2) by auto
        ultimately obtain m n where "write_phase (job_snapshot employees src) X = Inr m"
          "write_phase (job_snapshot employees src) Y = Inr n" "m \<le> n" using due Yw unfolding due_def by blast
        from write_clear [OF pl snapshot_prepared [OF prep mem(1)] mem(2) _ this(1) Y(1) this(2,3) r(1) Y(2)] X(3) a(2) r(2) meets
        show False by (simp add: job_goal_def)
      next
        case none: False
        obtain q where q: "q \<in> set (pcs ?e)" "pc_attendance_id q = Some (cr_id r)" "at_place (canonical_row r) = piece_goal ?e q"
          by (rule unwritten_row [OF pl r(1), of digest "request_values ?e rq"]) (use none in blast)+
        have "q \<noteq> p" using q(2) p(3) a(2) r(2) by auto
        from pieces_never_meet [OF pl q(1) p(1) this] meets show False
          unfolding r(2) q(3) p(2) by (simp add: place_meets_def piece_goal_def)
      qed
    qed
  qed
qed

text \<open>Odoo's rows begin and end on whole seconds, and so do the pieces.\<close>

lemma whole_pieces:
  assumes prep: "prepared employees rq src pcs od" and e: "e \<in> set employees" and p: "p \<in> set (pcs e)"
  shows "whole (pc_start p) \<and> at_end_too whole (pc_end p)"
proof -
  have "whole (cr_start r) \<and> at_end_too whole (cr_end r)" if "r \<in> set (src e)" for r
  proof -
    have "canonical_row r \<in> set (od_rows od)" using fetched [OF prep e, of "canonical_row r"] that by blast
    from preparedD(4) [OF prep this] show ?thesis by simp
  qed
  then have "bounds_ok whole rq (src e)" using prep by (simp add: bounds_ok_def prepared_def)
  from piece_bounds [OF this _ p] show ?thesis using preparedD(5) [OF prep e] by (simp add: planning_def bounded_def)
qed

text \<open>The row of a write that is not sent is no row of a write that is.\<close>

lemma fresh_slot:
  assumes prep: "prepared employees rq src pcs od0" and h: "holds od0 pcs slot sent od"
    and sent: "sent \<subseteq> set (job_writes digest employees rq src pcs)"
    and X: "X \<in> set (job_writes digest employees rq src pcs)" "X \<notin> sent" and id: "op_attendance_id X = Some i"
  shows "i \<notin> slot ` sent"
proof
  assume "i \<in> slot ` sent"
  then obtain Y where Y: "Y \<in> sent" "slot Y = i" by auto
  then have Yw: "Y \<in> set (job_writes digest employees rq src pcs)" using sent by blast
  have "i < od_next od0" by (rule write_source [OF prep X(1) id])
  then have "op_attendance_id Y = Some i" using Y holdsD(5,6) [OF h Y(1)] by (cases "op_attendance_id Y") auto
  then show False using same_write [OF prep X(1) Yw id] X(2) Y(1) by simp
qed

text \<open>Odoo accepts the next write, and then holds it too.\<close>

lemma find_append: "find P (xs @ ys) = (case find P xs of None \<Rightarrow> find P ys | Some x \<Rightarrow> Some x)"
  by (induction xs) auto

lemma row_at_append:
  assumes "\<forall>a \<in> set (od_rows od). at_id a < n" and "at_id b = n"
  shows "row_at (od\<lparr>od_rows := od_rows od @ [b], od_next := m\<rparr>) i = (if i = n then Some b else row_at od i)"
proof (cases "i = n")
  case True
  have "find (\<lambda>a. at_id a = n) (od_rows od) = None" using assms(1) by (auto simp: find_None_iff)
  then show ?thesis using True assms(2) by (simp add: row_at_def find_append)
next
  case False
  then show ?thesis using assms(2) by (simp add: row_at_def find_append split: option.split)
qed

lemma row_at_map:
  "at_id b = j \<Longrightarrow> row_at (od\<lparr>od_rows := map (\<lambda>a. if at_id a = j then b else a) (od_rows od)\<rparr>) i =
     (if i = j \<and> row_at od j \<noteq> None then Some b else row_at od i)"
proof -
  assume b: "at_id b = j"
  have "find (\<lambda>a. at_id a = i) (map (\<lambda>a. if at_id a = j then b else a) rows) =
      (if i = j \<and> find (\<lambda>a. at_id a = j) rows \<noteq> None then Some b else find (\<lambda>a. at_id a = i) rows)" for rows
    by (induction rows) (auto simp: b)
  then show ?thesis by (simp add: row_at_def)
qed

lemma row_at_filter:
  "row_at (od\<lparr>od_rows := filter (\<lambda>a. at_id a \<noteq> j) (od_rows od)\<rparr>) i = (if i = j then None else row_at od i)"
proof -
  have "find (\<lambda>a. at_id a = i) (filter (\<lambda>a. at_id a \<noteq> j) rows) = (if i = j then None else find (\<lambda>a. at_id a = i) rows)" for rows
    by (induction rows) auto
  from this [of "od_rows od"] show ?thesis by (simp add: row_at_def)
qed

lemma holds_extend:
  assumes h: "holds od0 pcs slot sent od" and X: "X \<notin> sent" "i \<notin> slot ` sent"
    and rows: "distinct (map at_id (od_rows od'))" "\<And>a. a \<in> set (od_rows od') \<Longrightarrow> at_id a < od_next od'" "od_next od \<le> od_next od'"
    and id: "case op_attendance_id X of Some j \<Rightarrow> i = j | None \<Rightarrow> od_next od0 \<le> i \<and> i < od_next od'"
    and goal: "map_option at_place (row_at od' i) = job_goal pcs X" and others: "\<And>j. j \<noteq> i \<Longrightarrow> row_at od' j = row_at od j"
  shows "holds od0 pcs (slot(X := i)) (insert X sent) od'"
proof -
  have old: "(slot(X := i)) Y = slot Y \<and> slot Y \<noteq> i \<and> Y \<noteq> X" if "Y \<in> sent" for Y using that X by auto
  have image: "(slot(X := i)) ` insert X sent = insert i (slot ` sent)" using old by (auto simp: image_iff)
  have inj: "inj_on (slot(X := i)) (insert X sent)"
    using holdsD(4) [OF h] old by (auto simp: inj_on_def)
  have each: "(case op_attendance_id Y of Some j \<Rightarrow> (slot(X := i)) Y = j
          | None \<Rightarrow> od_next od0 \<le> (slot(X := i)) Y \<and> (slot(X := i)) Y < od_next od') \<and>
        map_option at_place (row_at od' ((slot(X := i)) Y)) = job_goal pcs Y" if Y: "Y \<in> insert X sent" for Y
  proof (cases "Y = X")
    case True
    show ?thesis unfolding True fun_upd_same using id goal by blast
  next
    case False
    then have Y: "Y \<in> sent" using Y by simp
    show ?thesis using old [OF Y] others [of "slot Y"] holdsD(5,6,7) [OF h Y] rows(3) by (auto split: option.split)
  qed
  have rest: "row_at od' j = row_at od0 j" if "j \<notin> (slot(X := i)) ` insert X sent" for j
    using that others [of j] holdsD(8) [OF h, of j] unfolding image by simp
  show ?thesis unfolding holds_def using rows holdsD(3) [OF h] inj each rest by (intro conjI ballI allI impI) auto
qed

lemma commit_next:
  assumes prep: "prepared employees rq src pcs od0" and h: "holds od0 pcs slot sent od"
    and sent: "sent \<subseteq> set (job_writes digest employees rq src pcs)"
    and X: "X \<in> set (job_writes digest employees rq src pcs)" "X \<notin> sent"
    and due: "due (job_snapshot employees src) X (set (job_writes digest employees rq src pcs) - sent - {X})"
  obtains i od' where "commit stamp (write_of X) od = Some (i, od')" "holds od0 pcs (slot(X := i)) (insert X sent) od'"
    "\<forall>j. op_attendance_id X = Some j \<longrightarrow> i = j"
proof -
  let ?e = "op_employee X"
  note mem = job_writes_member [OF X(1) prep]
  note pl = preparedD(5) [OF prep mem(1)]
  note bounded = whole_pieces [OF prep mem(1)]
  have accept: "acceptable b (od_rows od)"
    if "job_goal pcs X = Some (at_place b)" "op_attendance_id X = Some (at_id b) \<or> op_attendance_id X = None" for b
  proof -
    note b = that
    obtain p where p: "p \<in> set (pcs ?e)" "at_place b = piece_goal ?e p" "op_attendance_id X = pc_attendance_id p"
      by (rule job_goal_piece [OF prep X(1) b(1)])
    have "ends_after (at_end b) (at_start b)" using planned_piece(1) [OF pl p(1)] p(2) by (simp add: at_place_def piece_goal_def)
    moreover have "at_id a = at_id b \<or> \<not> place_meets (at_place a) (at_place b)" if "a \<in> set (od_rows od)" for a
      using next_clear [OF prep h sent X b(1) due that] b(2) by auto
    ultimately show ?thesis by (auto simp: acceptable_def clear_of_def list_all_iff place_meets_def at_place_def)
  qed
  note fresh = fresh_slot [OF prep h sent X]
  have keep: "op_attendance_id Y = None \<Longrightarrow> i \<noteq> slot Y" if "Y \<in> sent" "op_attendance_id X = Some i" for Y i
    using fresh [OF that(2)] that(1) by auto
  from pl mem(2) show ?thesis
  proof (cases rule: planned_cases)
    case (del r)
    have row: "row_at od (cr_id r) = Some (canonical_row r)"
      using holdsD(8) [OF h fresh [OF del(4)]] source_in_odoo(1) [OF prep mem(1) del(1)] by simp
    let ?od = "od\<lparr>od_rows := filter (\<lambda>a. at_id a \<noteq> cr_id r) (od_rows od)\<rparr>"
    have "commit stamp (write_of X) od = Some (cr_id r, ?od)"
      using row del by (simp add: write_of_def commit_def row_at_def Let_def)
    moreover have "holds od0 pcs (slot(X := cr_id r)) (insert X sent) ?od"
      by (rule holds_extend [OF h X(2) fresh [OF del(4)]])
        (use holdsD(1,2) [OF h] del in \<open>auto simp: row_at_filter job_goal_def goal_of_def distinct_map_filter\<close>)
    ultimately show ?thesis using that del(4) by simp
  next
    case (upd r p d)
    have row: "row_at od (cr_id r) = Some (canonical_row r)"
      using holdsD(8) [OF h fresh [OF upd(4)]] source_in_odoo(1) [OF prep mem(1) upd(1)] by simp
    have p: "p \<in> set (pcs ?e)" using piece_by_id(1) [OF planningD(4,2) [OF pl] upd(1)] upd(2) by blast
    let ?b = "(written_row d (canonical_row r))\<lparr>at_write_date := stamp\<rparr>"
    have place: "at_place ?b = piece_goal ?e p" and id: "at_id ?b = cr_id r"
      using part_has(1-5) [OF planningD(3) [OF pl upd(1)] upd(7)] bounded [OF p]
      unfolding written_row_def canonical_simps by (simp_all add: at_place_def piece_goal_def)
    have goal: "job_goal pcs X = Some (at_place ?b)" using upd place by (simp add: job_goal_def goal_of_def)
    have acc: "acceptable ?b (od_rows od)" by (rule accept [OF goal]) (use upd(4) id in simp)
    let ?od = "od\<lparr>od_rows := map (\<lambda>a. if at_id a = cr_id r then ?b else a) (od_rows od)\<rparr>"
    have "commit stamp (write_of X) od = Some (cr_id r, ?od)"
      using row upd acc by (simp add: write_of_def commit_def row_at_def Let_def given_def)
    moreover have ids: "map at_id (od_rows ?od) = map at_id (od_rows od)" using id by simp
    have "holds od0 pcs (slot(X := cr_id r)) (insert X sent) ?od"
    proof (rule holds_extend [OF h X(2) fresh [OF upd(4)]])
      show "distinct (map at_id (od_rows ?od))" unfolding ids by (rule holdsD(1) [OF h])
      show "at_id a < od_next ?od" if a: "a \<in> set (od_rows ?od)" for a
      proof -
        have "at_id a \<in> set (map at_id (od_rows ?od))" unfolding set_map using a by (rule imageI)
        then have "at_id a \<in> at_id ` set (od_rows od)" unfolding ids by simp
        then obtain b where b: "b \<in> set (od_rows od)" "at_id a = at_id b" by (elim imageE)
        show ?thesis using holdsD(2) [OF h b(1)] b(2) by simp
      qed
    qed (use row goal upd(4) in \<open>auto simp: row_at_map [OF id]\<close>)
    ultimately show ?thesis using that upd(4) by simp
  next
    case (new p)
    let ?b = "\<lparr>at_id = od_next od, at_employee = ?e, at_start = pc_start p, at_end = pc_end p,
      at_work_center = pc_work_center p, at_department = pc_department p, at_write_date = stamp\<rparr>"
    have goal: "job_goal pcs X = Some (at_place ?b)" using goal_new [OF new(4) refl new(6)] by (simp add: job_goal_def at_place_def piece_goal_def)
    have acc: "acceptable ?b (od_rows od)" by (rule accept [OF goal]) (use new(4) in simp)
    let ?od = "od\<lparr>od_rows := od_rows od @ [?b], od_next := od_next od + 1\<rparr>"
    have "commit stamp (write_of X) od = Some (od_next od, ?od)"
      using new acc bounded [OF new(1)] by (simp add: write_of_def commit_def Let_def given_def piece_values full_read)
    moreover have "holds od0 pcs (slot(X := od_next od)) (insert X sent) ?od"
    proof -
      have less: "\<forall>a \<in> set (od_rows od). at_id a < od_next od" using holdsD(2) [OF h] by blast
      have in_use: "row_at od0 (od_next od) = None"
        using preparedD(2) [OF prep] holdsD(3) [OF h] by (force simp: row_at_def find_None_iff)
      have slots: "slot Y \<noteq> od_next od" if Y: "Y \<in> sent" for Y
      proof (cases "op_attendance_id Y")
        case None
        then show ?thesis using holdsD(6) [OF h Y] by simp
      next
        case (Some i)
        have "Y \<in> set (job_writes digest employees rq src pcs)" using Y sent by blast
        then have "i < od_next od0" by (rule write_source [OF prep _ Some])
        then show ?thesis using holdsD(3,5) [OF h] Y Some by fastforce
      qed
      have "od_next od \<notin> slot ` sent" using slots by force
      then show ?thesis
        by (rule holds_extend [OF h X(2)])
          (use holdsD(1,3) [OF h] less new(4) goal in \<open>auto simp: row_at_append [OF less]\<close>)
    qed
    ultimately show ?thesis using that new(4) by simp
  qed
qed

end
