(* ===== verification/Correction_Sent.thy ===== *)
theory Correction_Sent
  imports Correction_Sending
begin

text \<open>
  All the writes of a job in the order of \<open>_ordered_operations\<close>: Odoo accepts every one of them, keeps its
  rows apart, and in the end holds the pieces of the employees and the rows that were never fetched.
\<close>

section \<open>Odoo's rows stay apart\<close>

lemma clear_of_iff: "clear_of a rows \<longleftrightarrow> (\<forall>b \<in> set rows. at_id b = at_id a \<or> \<not> place_meets (at_place b) (at_place a))"
  by (auto simp: clear_of_def list_all_iff place_meets_def at_place_def)

lemma place_meets_sym: "place_meets p q = place_meets q p"
  using meet_sym by (auto simp: place_meets_def split: prod.splits)

lemma odoo_ok_iff:
  "odoo_ok od \<longleftrightarrow> distinct (map at_id (od_rows od)) \<and>
     (\<forall>a \<in> set (od_rows od). at_id a < od_next od \<and> acceptable a (od_rows od) \<and> whole (at_start a) \<and> at_end_too whole (at_end a))"
  by (auto simp: odoo_ok_def list_all_iff)

lemma acceptable_iff:
  "acceptable a rows \<longleftrightarrow> ends_after (at_end a) (at_start a) \<and> (\<forall>b \<in> set rows. at_id b = at_id a \<or> \<not> place_meets (at_place b) (at_place a))"
  by (simp add: acceptable_def clear_of_iff)

lemma whole_rounded [simp]: "whole (whole_second t)" "at_end_too whole (map_option whole_second e)"
  by (auto simp: whole_def whole_second_def at_end_too_def mod_diff_eq split: option.splits)

lemma commit_ok:
  assumes "odoo_ok od" "commit stamp w od = Some (i, od')"
  shows "odoo_ok od'"
proof (cases w)
  case (Create_Row e s f wc dept)
  define a where "a = \<lparr>at_id = od_next od, at_employee = e, at_start = whole_second s, at_end = map_option whole_second f,
    at_work_center = wc, at_department = dept, at_write_date = stamp\<rparr>"
  have "acceptable a (od_rows od)" "od' = od\<lparr>od_rows := od_rows od @ [a], od_next := od_next od + 1\<rparr>"
    using assms(2) by (auto simp: Create_Row commit_def a_def Let_def split: if_splits)
  then have acc: "acceptable a (od_rows od)" and rows: "od_rows od' = od_rows od @ [a]" "od_next od' = od_next od + 1" by simp_all
  have fresh: "at_id b < at_id a" if "b \<in> set (od_rows od)" for b using assms(1) that by (simp add: odoo_ok_iff a_def)
  have "acceptable c (od_rows od')" if "c \<in> set (od_rows od')" for c
  proof (cases "c = a")
    case True
    then show ?thesis using acc by (simp add: acceptable_iff rows)
  next
    case False
    then have c: "c \<in> set (od_rows od)" using that by (simp add: rows)
    then have "acceptable c (od_rows od)" "at_id c = at_id a \<or> \<not> place_meets (at_place a) (at_place c)"
      using assms(1) acc place_meets_sym [of "at_place c" "at_place a"] by (auto simp: odoo_ok_iff acceptable_iff)
    then show ?thesis by (auto simp: acceptable_iff rows)
  qed
  moreover have "at_id c < od_next od' \<and> whole (at_start c) \<and> at_end_too whole (at_end c)" if "c \<in> set (od_rows od')" for c
    using that assms(1) unfolding odoo_ok_iff rows by (auto simp: a_def)
  moreover have "distinct (map at_id (od_rows od'))" using assms(1) fresh by (force simp: odoo_ok_iff rows)
  ultimately show ?thesis by (simp add: odoo_ok_iff)
next
  case (Update_Row j d)
  from assms(2) obtain a where a: "find (\<lambda>a. at_id a = j) (od_rows od) = Some a"
    by (auto simp: Update_Row commit_def split: option.splits)
  define b where "b = (written_row d a)\<lparr>at_write_date := stamp\<rparr>"
  have acc: "acceptable b (od_rows od)" and od': "od' = od\<lparr>od_rows := map (\<lambda>a. if at_id a = j then b else a) (od_rows od)\<rparr>"
    using assms(2) a by (auto simp: Update_Row commit_def b_def Let_def split: if_splits)
  have mem: "a \<in> set (od_rows od)" "at_id a = j" using a by (auto dest: find_SomeD)
  have b: "at_id b = j" "whole (at_start b)" "at_end_too whole (at_end b)" using mem by (simp_all add: b_def written_row_def)
  have ids: "map at_id (od_rows od') = map at_id (od_rows od)" using b(1) by (simp add: od')
  have less: "j < od_next od" using assms(1) mem by (auto simp: odoo_ok_iff)
  have row: "c = b \<or> c \<in> set (od_rows od) \<and> at_id c \<noteq> j" if "c \<in> set (od_rows od')" for c using that by (auto simp: od')
  have "acceptable c (od_rows od')" if c: "c \<in> set (od_rows od')" for c
    using row [OF c] assms(1) acc row b(1) unfolding odoo_ok_iff acceptable_iff by (metis place_meets_sym)
  moreover have "at_id c < od_next od' \<and> whole (at_start c) \<and> at_end_too whole (at_end c)" if "c \<in> set (od_rows od')" for c
    using row [OF that] assms(1) b less by (auto simp: odoo_ok_iff od')
  ultimately show ?thesis unfolding odoo_ok_iff ids using assms(1) by (auto simp: odoo_ok_iff)
next
  case (Delete_Row j)
  then have "od' = od\<lparr>od_rows := filter (\<lambda>a. at_id a \<noteq> j) (od_rows od)\<rparr>" using assms(2) by (auto simp: commit_def split: if_splits)
  then show ?thesis using assms(1) by (auto simp: odoo_ok_iff acceptable_iff distinct_map_filter)
qed

section \<open>The order\<close>

lemma job_writes_distinct:
  assumes prep: "prepared employees rq src pcs od"
  shows "distinct (job_writes digest employees rq src pcs)"
proof -
  have one: "distinct (planned_writes digest rqv e (src e) (pcs e))" if "e \<in> set employees" for e rqv
  proof -
    have sigs: "distinct (map signature (operations_for_pieces (src e) (pcs e) e))" by (rule distinct_signatures [OF preparedD(5) [OF prep that]])
    have same: "signature po = signature po'" if eq: "operation_of k po = operation_of k' po'"
        and mem: "po \<in> set (operations_for_pieces (src e) (pcs e) e)" "po' \<in> set (operations_for_pieces (src e) (pcs e) e)" for po po' k k'
    proof (cases "po_attendance_id po")
      case None
      have "\<exists>p. q = piece_operation e p" if "q \<in> set (operations_for_pieces (src e) (pcs e) e)" "po_attendance_id q = None" for q
        using that source_operation_facts(1) by (fastforce simp: operations_for_pieces_def)
      then obtain p p' where "po = piece_operation e p" "po' = piece_operation e p'" using None mem eq operation_of_simps(3) by metis
      then show ?thesis using eq map_of_mutable
        by (auto simp: operation_of_def signature_def piece_operation_def piece_values mutable_values_def)
    qed (use eq in \<open>auto simp: operation_of_def signature_def\<close>)
    show ?thesis unfolding planned_writes_def by (rule distinct_map_refine [OF sigs]) (rule same)
  qed
  have emp: "op_employee oper = e" if "e \<in> set employees" "oper \<in> set (planned_writes digest rqv e (src e) (pcs e))" for e oper rqv
    using preparedD(5) [OF prep that(1)] that(2) by (cases rule: planned_cases) auto
  have "distinct employees" using prep by (simp add: prepared_def)
  then show ?thesis using one emp unfolding job_writes_def
  proof (induction employees)
    case (Cons e es)
    have "oper \<notin> set (concat (map (\<lambda>e. planned_writes digest (request_values e rq) e (src e) (pcs e)) es))"
      if "oper \<in> set (planned_writes digest (request_values e rq) e (src e) (pcs e))" for oper
    proof
      assume "oper \<in> set (concat (map (\<lambda>e. planned_writes digest (request_values e rq) e (src e) (pcs e)) es))"
      then obtain e' where "e' \<in> set es" "oper \<in> set (planned_writes digest (request_values e' rq) e' (src e') (pcs e'))" by auto
      then have "op_employee oper = e'" "op_employee oper = e" using Cons.prems(3) that by simp_all
      then have "e' = e" by simp
      then show False using \<open>e' \<in> set es\<close> Cons.prems(1) by simp
    qed
    then show ?case using Cons by auto
  qed simp
qed

lemma write_phase_total:
  assumes prep: "prepared employees rq src pcs od" and X: "X \<in> set (job_writes digest employees rq src pcs)"
  shows "\<exists>m. write_phase (job_snapshot employees src) X = Inr m"
proof -
  note mem = job_writes_member [OF X prep]
  note pl = preparedD(5) [OF prep mem(1)]
  show ?thesis using pl mem(2)
  proof (cases rule: planned_cases)
    case (upd r p d)
    have "source_row_by_id (job_snapshot employees src) (cr_id r) = Inr (canonical_row r)"
      using snapshot_prepared [OF prep mem(1)] upd(1) by (simp add: snapshot_of_def)
    then show ?thesis using upd by (simp add: write_phase_def open_producing_def)
  qed (use delete_phase create_phase in auto)
qed

definition in_phases :: "attendance list \<Rightarrow> operation list \<Rightarrow> bool" where
  "in_phases S opers = sorted_wrt (\<lambda>X Y. \<exists>m n. write_phase S X = Inr m \<and> write_phase S Y = Inr n \<and> m \<le> n) opers"

lemma ordered_phases:
  assumes total: "\<And>X. X \<in> set opers \<Longrightarrow> \<exists>m. write_phase S X = Inr m"
  obtains ordered where "ordered_operations S opers = Inr ordered" "mset ordered = mset opers" "in_phases S ordered"
proof -
  define ph where "ph = (\<lambda>X. projr (write_phase S X))"
  have ph: "write_phase S X = Inr (ph X)" if "X \<in> set opers" for X using total [OF that] by (auto simp: ph_def)
  have keyed: "rmap (\<lambda>oper. rbind (write_phase S oper) (\<lambda>phase. Inr (phase, oper))) opers = Inr (map (\<lambda>X. (ph X, X)) opers)"
    by (rule rmap_same) (use ph in auto)
  let ?keyed = "sort_key phase_key (map (\<lambda>X. (ph X, X)) opers)"
  have "sorted_wrt (\<lambda>p q. phase_key p \<le> phase_key q) ?keyed" using sorted_sort_key [of phase_key] by (simp add: sorted_map)
  then have "sorted_wrt (\<lambda>p q. \<exists>m n. write_phase S (snd p) = Inr m \<and> write_phase S (snd q) = Inr n \<and> m \<le> n) ?keyed"
    by (rule sorted_wrt_mono_rel [rotated]) (auto simp: phase_key_def less_eq_prod_def ph)
  then have "in_phases S (map snd ?keyed)" by (simp add: in_phases_def sorted_wrt_map)
  moreover have "mset (map snd ?keyed) = mset opers" by (simp add: multiset.map_comp comp_def)
  moreover have "ordered_operations S opers = Inr (map snd ?keyed)" by (simp add: ordered_operations_def keyed)
  ultimately show ?thesis using that by blast
qed

section \<open>Sending\<close>

fun send_all :: "(operation \<Rightarrow> datetime) \<Rightarrow> operation list \<Rightarrow> odoo \<Rightarrow> odoo option" where
  "send_all stamp [] od = Some od"
| "send_all stamp (X # Xs) od =
     (case commit (stamp X) (write_of X) od of None \<Rightarrow> None | Some (_, od') \<Rightarrow> send_all stamp Xs od')"

lemma send_all_append:
  "send_all stamp (Xs @ Ys) od = (case send_all stamp Xs od of None \<Rightarrow> None | Some od' \<Rightarrow> send_all stamp Ys od')"
  by (induction Xs arbitrary: od) (auto split: option.splits)

lemma send_all_cong: "(\<And>X. X \<in> set Xs \<Longrightarrow> stamp X = stamp' X) \<Longrightarrow> send_all stamp Xs od = send_all stamp' Xs od"
  by (induction Xs arbitrary: od) (auto split: option.splits)

definition planned_order ::
    "(pyvalue \<Rightarrow> string) \<Rightarrow> int list \<Rightarrow> request \<Rightarrow> (int \<Rightarrow> correction_row list) \<Rightarrow> (int \<Rightarrow> piece list) \<Rightarrow> operation list \<Rightarrow> bool" where
  "planned_order digest employees rq src pcs ordered =
     (mset ordered = mset (job_writes digest employees rq src pcs) \<and> in_phases (job_snapshot employees src) ordered)"

lemma planned_orderD:
  assumes "planned_order digest employees rq src pcs ordered" "prepared employees rq src pcs od0"
  shows "set ordered = set (job_writes digest employees rq src pcs)" "distinct ordered"
  using assms job_writes_distinct [OF assms(2), of digest] mset_eq_setD mset_eq_imp_distinct_iff
  unfolding planned_order_def by blast+

lemma next_due:
  assumes ord: "planned_order digest employees rq src pcs ordered" and prep: "prepared employees rq src pcs od0"
    and n: "n < length ordered"
  shows "due (job_snapshot employees src) (ordered ! n) (set (job_writes digest employees rq src pcs) - set (take n ordered) - {ordered ! n})"
proof -
  have split: "ordered = take n ordered @ ordered ! n # drop (Suc n) ordered" using n by (simp add: id_take_nth_drop)
  then have rest: "set (job_writes digest employees rq src pcs) - set (take n ordered) - {ordered ! n} \<subseteq> set (drop (Suc n) ordered)"
  proof -
    have "set ordered = set (take n ordered) \<union> insert (ordered ! n) (set (drop (Suc n) ordered))"
      using arg_cong [OF split, of set] by simp
    then show ?thesis unfolding planned_orderD(1) [OF ord prep, symmetric] by blast
  qed
  have "in_phases (job_snapshot employees src) (take n ordered @ ordered ! n # drop (Suc n) ordered)"
    using ord split by (simp add: planned_order_def)
  moreover have "\<exists>m. write_phase (job_snapshot employees src) (ordered ! n) = Inr m"
    using write_phase_total [OF prep] planned_orderD(1) [OF ord prep] nth_mem [OF n] by blast
  moreover have "\<exists>m n'. write_phase (job_snapshot employees src) (ordered ! n) = Inr m \<and>
      write_phase (job_snapshot employees src) Y = Inr n' \<and> m \<le> n'" if "Y \<in> set (drop (Suc n) ordered)" for Y
    using calculation(1) that unfolding in_phases_def sorted_wrt_append sorted_wrt.simps by blast
  ultimately show ?thesis using rest unfolding due_def by (metis (no_types, lifting) subsetD sum.inject(2))
qed

lemma sent_part:
  assumes ord: "planned_order digest employees rq src pcs ordered" and prep: "prepared employees rq src pcs od0"
  shows "n \<le> length ordered \<Longrightarrow>
    \<exists>od slot. send_all stamp (take n ordered) od0 = Some od \<and> holds od0 pcs slot (set (take n ordered)) od \<and> odoo_ok od"
proof (induction n)
  case 0
  then show ?case using holds_start [OF prep] prep by (auto simp: prepared_def)
next
  case (Suc n)
  then obtain od slot where IH: "send_all stamp (take n ordered) od0 = Some od" "holds od0 pcs slot (set (take n ordered)) od" "odoo_ok od"
    by auto
  let ?X = "ordered ! n"
  note facts = planned_orderD [OF ord prep]
  have "?X \<in> set ordered" using Suc.prems by simp
  then have X: "?X \<in> set (job_writes digest employees rq src pcs)" "?X \<notin> set (take n ordered)"
    using facts Suc.prems by (auto simp: set_conv_nth nth_eq_iff_index_eq)
  obtain i od' where od': "commit (stamp ?X) (write_of ?X) od = Some (i, od')" "holds od0 pcs (slot(?X := i)) (insert ?X (set (take n ordered))) od'"
    by (rule commit_next [OF prep IH(2) _ X next_due [OF ord prep]]) (use facts(1) Suc.prems set_take_subset in \<open>auto dest: in_set_takeD\<close>)
  have take: "take (Suc n) ordered = take n ordered @ [?X]" using Suc.prems by (simp add: take_Suc_conv_app_nth)
  have "send_all stamp (take (Suc n) ordered) od0 = Some od'" using IH(1) od'(1) by (simp add: take send_all_append)
  moreover have "set (take (Suc n) ordered) = insert ?X (set (take n ordered))" by (simp add: take)
  ultimately show ?case using od'(2) commit_ok [OF IH(3) od'(1)] by metis
qed

section \<open>All of them\<close>

text \<open>The rows of an employee that the preview did not fetch.\<close>

definition left_alone :: "request \<Rightarrow> int \<Rightarrow> odoo \<Rightarrow> attendance set" where
  "left_alone rq e od =
     {a \<in> set (od_rows od). at_employee a = e \<and> \<not> (ends_after (at_end a) (rq_start rq) \<and> ends_after (rq_end rq) (at_start a))}"

lemma left_alone_iff:
  assumes "prepared employees rq src pcs od" "e \<in> set employees"
  shows "a \<in> left_alone rq e od \<longleftrightarrow> a \<in> set (od_rows od) \<and> at_employee a = e \<and> a \<notin> canonical_row ` set (src e)"
  using fetched [OF assms] by (auto simp: left_alone_def)

lemma sent_row:
  assumes prep: "prepared employees rq src pcs od0"
    and h: "holds od0 pcs slot (set (job_writes digest employees rq src pcs)) od"
    and "Y \<in> set (job_writes digest employees rq src pcs)" "row_at od (slot Y) = Some a"
  shows "at_employee a = op_employee Y" "\<exists>p \<in> set (pcs (op_employee Y)). at_place a = piece_goal (op_employee Y) p"
proof -
  have "job_goal pcs Y = Some (at_place a)" using holdsD(7) [OF h assms(3)] assms(4) by simp
  then obtain p where "p \<in> set (pcs (op_employee Y))" "at_place a = piece_goal (op_employee Y) p"
    by (rule job_goal_piece [OF prep assms(3)])
  then show "at_employee a = op_employee Y" "\<exists>p \<in> set (pcs (op_employee Y)). at_place a = piece_goal (op_employee Y) p"
    by (auto simp: at_place_def piece_goal_def)
qed

lemma slot_old:
  assumes prep: "prepared employees rq src pcs od0"
    and h: "holds od0 pcs slot (set (job_writes digest employees rq src pcs)) od"
    and "Y \<in> set (job_writes digest employees rq src pcs)" "slot Y = at_id a" "a \<in> set (od_rows od0)"
  shows "a \<in> canonical_row ` set (src (op_employee Y))" "at_employee a = op_employee Y" "op_attendance_id Y = Some (at_id a)"
proof -
  have "at_id a < od_next od0" using preparedD(2) [OF prep] assms(5) by blast
  then obtain i where i: "op_attendance_id Y = Some i" using holdsD(6) [OF h assms(3)] assms(4) by (cases "op_attendance_id Y") auto
  then have "i = at_id a" using holdsD(5) [OF h assms(3)] assms(4) by simp
  obtain r where r: "r \<in> set (src (op_employee Y))" "row_at od0 i = Some (canonical_row r)" by (rule write_source [OF prep assms(3) i])
  have "row_at od0 i = Some a" using row_at_iff [OF preparedD(1) [OF prep]] assms(5) \<open>i = at_id a\<close> by simp
  then have "a = canonical_row r" using r(2) by simp
  then show "a \<in> canonical_row ` set (src (op_employee Y))" "at_employee a = op_employee Y" "op_attendance_id Y = Some (at_id a)"
    using r(1) source_in_odoo(2) [OF prep job_writes_member(1) [OF assms(3) prep] r(1)] i \<open>i = at_id a\<close> by auto
qed

lemma kept_row:
  assumes prep: "prepared employees rq src pcs od0"
    and h: "holds od0 pcs slot (set (job_writes digest employees rq src pcs)) od"
    and "a \<in> set (od_rows od0)" "at_id a \<notin> slot ` set (job_writes digest employees rq src pcs)"
  shows "a \<in> set (od_rows od)"
proof -
  have "row_at od (at_id a) = row_at od0 (at_id a)" by (rule holdsD(8) [OF h assms(4)])
  then show ?thesis using row_at_iff [OF preparedD(1) [OF prep], of "at_id a" a] row_at_iff [OF holdsD(1) [OF h], of "at_id a" a] assms(3)
    by simp
qed

lemma row_cases:
  assumes prep: "prepared employees rq src pcs od0"
    and h: "holds od0 pcs slot (set (job_writes digest employees rq src pcs)) od"
    and "a \<in> set (od_rows od)"
  obtains Y where "Y \<in> set (job_writes digest employees rq src pcs)" "row_at od (slot Y) = Some a"
    | "a \<in> set (od_rows od0)" "at_id a \<notin> slot ` set (job_writes digest employees rq src pcs)"
proof (cases "at_id a \<in> slot ` set (job_writes digest employees rq src pcs)")
  case True
  have "row_at od (at_id a) = Some a" using row_at_iff [OF holdsD(1) [OF h]] assms(3) by simp
  then show ?thesis using True that(1) by auto
next
  case False
  have "row_at od0 (at_id a) = Some a" using holdsD(8) [OF h False] row_at_iff [OF holdsD(1) [OF h], of "at_id a" a] assms(3) by simp
  then show ?thesis using that(2) False row_at_iff [OF preparedD(1) [OF prep]] by simp
qed

lemma other_employees:
  assumes prep: "prepared employees rq src pcs od0"
    and h: "holds od0 pcs slot (set (job_writes digest employees rq src pcs)) od"
    and "at_employee a \<notin> set employees"
  shows "a \<in> set (od_rows od) \<longleftrightarrow> a \<in> set (od_rows od0)"
proof
  assume a: "a \<in> set (od_rows od)"
  show "a \<in> set (od_rows od0)"
  proof (cases rule: row_cases [OF prep h a])
    case (1 Y)
    then show ?thesis using sent_row(1) [OF prep h 1] job_writes_member(1) [OF 1(1) prep] assms(3) by simp
  qed
next
  assume a: "a \<in> set (od_rows od0)"
  have "at_id a \<notin> slot ` set (job_writes digest employees rq src pcs)"
    using slot_old(2) [OF prep h _ _ a] job_writes_member(1) [OF _ prep] assms(3) by fastforce
  then show "a \<in> set (od_rows od)" by (rule kept_row [OF prep h a])
qed

lemma left_rows:
  assumes prep: "prepared employees rq src pcs od0"
    and h: "holds od0 pcs slot (set (job_writes digest employees rq src pcs)) od"
    and e: "e \<in> set employees" and a: "a \<in> left_alone rq e od0"
  shows "a \<in> set (od_rows od)"
proof -
  have a: "a \<in> set (od_rows od0)" "at_employee a = e" "a \<notin> canonical_row ` set (src e)"
    using a left_alone_iff [OF prep e] by auto
  have "at_id a \<notin> slot ` set (job_writes digest employees rq src pcs)"
    using slot_old(1,2) [OF prep h _ _ a(1)] a(2,3) by fastforce
  then show ?thesis by (rule kept_row [OF prep h a(1)])
qed

lemma final_rows:
  assumes prep: "prepared employees rq src pcs od0"
    and h: "holds od0 pcs slot (set (job_writes digest employees rq src pcs)) od"
    and e: "e \<in> set employees"
  shows "at_place ` {a \<in> set (od_rows od). at_employee a = e} = at_place ` left_alone rq e od0 \<union> piece_goal e ` set (pcs e)"
proof (intro set_eqI iffI)
  fix g assume "g \<in> at_place ` {a \<in> set (od_rows od). at_employee a = e}"
  then obtain a where a: "a \<in> set (od_rows od)" "at_employee a = e" "g = at_place a" by auto
  show "g \<in> at_place ` left_alone rq e od0 \<union> piece_goal e ` set (pcs e)"
  proof (cases rule: row_cases [OF prep h a(1)])
    case (1 Y)
    then show ?thesis using sent_row [OF prep h 1] a by auto
  next
    case 2
    show ?thesis
    proof (cases "a \<in> canonical_row ` set (src e)")
      case True
      then obtain r where r: "r \<in> set (src e)" "a = canonical_row r" by auto
      have none: "op_attendance_id Y \<noteq> Some (cr_id r)" if "Y \<in> set (planned_writes digest (request_values e rq) e (src e) (pcs e))" for Y
      proof
        assume "op_attendance_id Y = Some (cr_id r)"
        moreover have "Y \<in> set (job_writes digest employees rq src pcs)" using that e by (auto simp: job_writes_def)
        ultimately have "slot Y = at_id a" "Y \<in> set (job_writes digest employees rq src pcs)" using holdsD(5) [OF h] r(2) by simp_all
        then show False using 2(2) by force
      qed
      obtain q where "q \<in> set (pcs e)" "at_place (canonical_row r) = piece_goal e q"
        by (rule unwritten_row [OF preparedD(5) [OF prep e] r(1)]) (use none in blast)+
      then show ?thesis using a r by auto
    qed (use left_alone_iff [OF prep e] a 2 in auto)
  qed
next
  fix g assume "g \<in> at_place ` left_alone rq e od0 \<union> piece_goal e ` set (pcs e)"
  then consider a where "a \<in> left_alone rq e od0" "g = at_place a" | p where "p \<in> set (pcs e)" "g = piece_goal e p" by auto
  then show "g \<in> at_place ` {a \<in> set (od_rows od). at_employee a = e}"
  proof cases
    case (1 a)
    then show ?thesis using left_rows [OF prep h e 1(1)] left_alone_iff [OF prep e] by auto
  next
    case (2 p)
    note pl = preparedD(5) [OF prep e]
    have reached: ?thesis if "Y \<in> set (job_writes digest employees rq src pcs)" "job_goal pcs Y = Some g" for Y
    proof -
      have "map_option at_place (row_at od (slot Y)) = Some g" using holdsD(7) [OF h that(1)] that(2) by simp
      then obtain a where a: "row_at od (slot Y) = Some a" "at_place a = g" by auto
      then have "a \<in> set (od_rows od)" using row_at_iff [OF holdsD(1) [OF h]] by blast
      moreover have "at_employee a = e" using a(2) 2(2) by (simp add: at_place_def piece_goal_def)
      ultimately show ?thesis using a(2) by auto
    qed
    show ?thesis
    proof (cases "pc_attendance_id p")
      case None
      define Y where "Y = operation_of (key_of digest (request_values e rq) (piece_operation e p)) (piece_operation e p)"
      have "Y \<in> set (job_writes digest employees rq src pcs)"
        using e 2(1) None by (auto simp: job_writes_def planned_writes_def operations_for_pieces_def Y_def)
      moreover have "job_goal pcs Y = Some g" using goal_new [of Y e p] 2(2) by (simp add: job_goal_def Y_def piece_operation_def)
      ultimately show ?thesis by (rule reached)
    next
      case (Some i)
      have "i \<in> set (ids_of (pcs e))" using 2(1) Some by (auto simp: ids_of_def set_map_filter)
      then obtain r where r: "r \<in> set (src e)" "cr_id r = i"
        using ids_of_ok [of "pcs e" "src e"] planningD(4) [OF pl] by (auto simp: pieces_ok_def)
      have p: "pieces_by_id (pcs e) (cr_id r) = Some p" using piece_by_id(1) [OF planningD(4,2) [OF pl] r(1)] 2(1) Some r(2) by simp
      show ?thesis
      proof (cases "\<exists>Y \<in> set (planned_writes digest (request_values e rq) e (src e) (pcs e)). op_attendance_id Y = Some (cr_id r)")
        case True
        then obtain Y where Y: "Y \<in> set (planned_writes digest (request_values e rq) e (src e) (pcs e))" "op_attendance_id Y = Some (cr_id r)" by blast
        have mem: "Y \<in> set (job_writes digest employees rq src pcs)" using Y(1) e by (auto simp: job_writes_def)
        have "op_employee Y = e" using pl Y(1) by (cases rule: planned_cases) auto
        then have "job_goal pcs Y = Some g" using Y(2) p 2(2) by (simp add: job_goal_def goal_of_def)
        then show ?thesis by (rule reached [OF mem])
      next
        case False
        obtain q where q: "q \<in> set (pcs e)" "pc_attendance_id q = Some (cr_id r)" "at_place (canonical_row r) = piece_goal e q"
          by (rule unwritten_row [OF pl r(1), of digest "request_values e rq"]) (use False in blast)+
        have "pieces_by_id (pcs e) (cr_id r) = Some q" using piece_by_id(1) [OF planningD(4,2) [OF pl] r(1)] q(1,2) by blast
        then have "q = p" using p by simp
        have row: "canonical_row r \<in> set (od_rows od0)" "at_employee (canonical_row r) = e"
          using fetched [OF prep e, of "canonical_row r"] r(1) by auto
        have "at_id (canonical_row r) \<notin> slot ` set (job_writes digest employees rq src pcs)"
        proof
          assume "at_id (canonical_row r) \<in> slot ` set (job_writes digest employees rq src pcs)"
          then obtain Y where Y: "Y \<in> set (job_writes digest employees rq src pcs)" "slot Y = at_id (canonical_row r)" by auto
          from slot_old(2,3) [OF prep h Y row(1)] row(2) job_writes_member(2) [OF Y(1) prep] False show False by auto
        qed
        from kept_row [OF prep h row(1) this] have "canonical_row r \<in> set (od_rows od)" .
        then show ?thesis using row(2) q(3) 2(2) \<open>q = p\<close> by force
      qed
    qed
  qed
qed

end
