(* ===== verification/Correction_Attempt.thy ===== *)
theory Correction_Attempt
  imports Correction_Job Correction_Sent
begin

text \<open>
  What one attempt does to Odoo and to the row of its job, whatever the calls answer: every step but the
  write of the next operation and the record of it leaves both as they are.
\<close>

section \<open>Reasoning about an attempt\<close>

definition keeps :: "(world \<Rightarrow> bool) \<Rightarrow> 'a remote \<Rightarrow> ('a \<Rightarrow> world \<Rightarrow> bool) \<Rightarrow> (world \<Rightarrow> bool) \<Rightarrow> bool" where
  "keeps P m Q E = (\<forall>w. P w \<longrightarrow> (case m w of (Got x, w') \<Rightarrow> Q x w' | (_, w') \<Rightarrow> E w'))"

lemma keeps_give: "(\<And>w. P w \<Longrightarrow> Q x w) \<Longrightarrow> keeps P (give x) Q E"
  by (simp add: keeps_def give_def)

lemma keeps_raise: "(\<And>w. P w \<Longrightarrow> E w) \<Longrightarrow> keeps P (raise e) Q E"
  by (simp add: keeps_def raise_def)

lemma keeps_catch:
  assumes "keeps P m R F" "\<And>x. keeps (R x) (f x) Q E" "\<And>e. keeps F (h e) Q E" "\<And>w. F w \<Longrightarrow> E w"
  shows "keeps P (catch m h f) Q E"
  unfolding keeps_def
proof (intro allI impI)
  fix w assume "P w"
  then have m: "case m w of (Got x, w') \<Rightarrow> R x w' | (_, w') \<Rightarrow> F w'" using assms(1) by (simp add: keeps_def)
  show "case catch m h f w of (Got x, w') \<Rightarrow> Q x w' | (_, w') \<Rightarrow> E w'"
  proof (cases "m w")
    case (Pair a w')
    then show ?thesis using m assms(2-4) by (cases a) (auto simp: catch_def keeps_def)
  qed
qed

lemma keeps_and_then:
  assumes "keeps P m R E" "\<And>x. keeps (R x) (f x) Q E"
  shows "keeps P (and_then m f) Q E"
  unfolding and_then_def by (rule keeps_catch [OF assms]) (auto intro: keeps_raise)

lemma keeps_weaken:
  "keeps P m Q E \<Longrightarrow> (\<And>w. P' w \<Longrightarrow> P w) \<Longrightarrow> (\<And>x w. Q x w \<Longrightarrow> Q' x w) \<Longrightarrow> (\<And>w. E w \<Longrightarrow> E' w) \<Longrightarrow> keeps P' m Q' E'"
  unfolding keeps_def by (auto split: prod.splits answer.splits) (metis+)

lemma keeps_absurd: "(\<And>w. \<not> P w) \<Longrightarrow> keeps P m Q E"
  by (simp add: keeps_def)

lemma keeps_fix: "(\<And>w. P w \<Longrightarrow> keeps ((=) w) m Q E) \<Longrightarrow> keeps P m Q E"
  by (simp add: keeps_def)

section \<open>Steps that change nothing\<close>

definition late_status :: "job_status \<Rightarrow> bool" where
  "late_status s = (s \<in> {Verifying, Recalculating, Complete})"

text \<open>The first k operations are recorded, and a job past the writes has recorded them all.\<close>

definition recorded :: "operation list \<Rightarrow> nat \<Rightarrow> job_row \<Rightarrow> bool" where
  "recorded ordered k job =
     (k \<le> length ordered \<and> finished_keys (jb_completed job) = map op_key (take k ordered) \<and>
      (late_status (jb_status job) \<longrightarrow> k = length ordered))"

definition still :: "operation list \<Rightarrow> nat \<Rightarrow> odoo \<Rightarrow> (datetime \<times> remote_write) list \<Rightarrow> world \<Rightarrow> bool" where
  "still ordered k od late w = (wd_odoo w = od \<and> wd_late w = late \<and> recorded ordered k (wd_job w))"

definition quiet :: "'a remote \<Rightarrow> bool" where
  "quiet m = (\<forall>ordered k od late. keeps (still ordered k od late) m (\<lambda>_. still ordered k od late) (still ordered k od late))"

lemma quietD: "quiet m \<Longrightarrow> keeps (still ordered k od late) m (\<lambda>_. still ordered k od late) (still ordered k od late)"
  by (simp add: quiet_def)

lemma quiet_run:
  assumes "quiet m" "still ordered k od late w" "m w = (a, w')"
  shows "still ordered k od late w'"
proof -
  have "case m w of (Got x, w') \<Rightarrow> still ordered k od late w' | (_, w') \<Rightarrow> still ordered k od late w'"
    using quietD [OF assms(1), of ordered k od late] assms(2) unfolding keeps_def by (elim allE) (rule mp)
  then show ?thesis using assms(3) by (cases a) auto
qed

named_theorems quiet_steps

lemma quiet_give [quiet_steps]: "quiet (give x)"
  by (simp add: quiet_def keeps_def give_def)

lemma quiet_raise [quiet_steps]: "quiet (raise e)"
  by (simp add: quiet_def keeps_def raise_def)

lemma quiet_catch [quiet_steps]: "quiet m \<Longrightarrow> (\<And>e. quiet (h e)) \<Longrightarrow> (\<And>x. quiet (f x)) \<Longrightarrow> quiet (catch m h f)"
  unfolding quiet_def by (intro allI keeps_catch [OF quietD quietD quietD]) (simp_all add: quiet_def)

lemma quiet_and_then [quiet_steps]: "quiet m \<Longrightarrow> (\<And>x. quiet (f x)) \<Longrightarrow> quiet (and_then m f)"
  unfolding and_then_def by (intro quiet_steps)

lemma quiet_next_tick [quiet_steps]: "quiet next_tick"
  by (auto simp: quiet_def keeps_def next_tick_def still_def split: list.splits)

lemma quiet_reading_job [quiet_steps]: "quiet (reading_job f)"
  by (simp add: quiet_def keeps_def reading_job_def)

definition mild :: "(job_row \<Rightarrow> job_row option) \<Rightarrow> bool" where
  "mild f = (\<forall>job job'. f job = Some job' \<longrightarrow> finished_keys (jb_completed job') = finished_keys (jb_completed job) \<and>
     (late_status (jb_status job') \<longrightarrow> late_status (jb_status job)))"

lemma mild_recorded: "mild f \<Longrightarrow> f job = Some job' \<Longrightarrow> recorded ordered k job \<Longrightarrow> recorded ordered k job'"
  by (auto simp: mild_def recorded_def)

lemma quiet_update_job [quiet_steps]: "mild f \<Longrightarrow> quiet (update_job f)"
  by (auto simp: quiet_def keeps_def update_job_def still_def dest: mild_recorded split: option.splits)

definition quiet_fence :: "fence \<Rightarrow> bool" where
  "quiet_fence fence = (\<forall>t. quiet (fence t))"

lemma quiet_fenceD: "quiet_fence fence \<Longrightarrow> quiet (fence t)"
  by (simp add: quiet_fence_def)

lemma finished_keys_simps [simp]:
  "finished_keys (xs @ ys) = finished_keys xs @ finished_keys ys" "finished_keys [] = []"
  "finished_keys (p # xs) = (case finished_key p of None \<Rightarrow> finished_keys xs | Some key \<Rightarrow> key # finished_keys xs)"
  by (auto simp: finished_keys_def map_filter_def split: option.splits)

lemma reserved_unfinished: "reservation_of p = Some rv \<Longrightarrow> finished_key p = None"
  by (cases p) auto

lemma finished_keys_filter: "(\<And>p. p \<in> set xs \<Longrightarrow> \<not> P p \<Longrightarrow> finished_key p = None) \<Longrightarrow> finished_keys (filter P xs) = finished_keys xs"
  by (induction xs) (auto split: option.splits)

lemma finished_keys_map: "(\<And>p. p \<in> set xs \<Longrightarrow> finished_key (f p) = finished_key p) \<Longrightarrow> finished_keys (map f xs) = finished_keys xs"
  by (induction xs) (auto split: option.splits)

lemma held_unfinished: "held_by rv p \<Longrightarrow> finished_key p = None"
  using reserved_unfinished by (auto simp: held_by_def split: option.splits)

lemma reserve_recorded:
  assumes "reserve_operation claim oper now token job = Inr (rv, job')" "recorded ordered k job"
  shows "recorded ordered k job'"
proof -
  have keys: "finished_keys (filter (\<lambda>p. reservation_of p = None) (jb_completed job)) = finished_keys (jb_completed job)"
    by (rule finished_keys_filter) (use reserved_unfinished in auto)
  have "finished_keys (jb_completed job') = finished_keys (jb_completed job)" "jb_status job' = jb_status job"
    using assms(1) keys by (auto simp: reserve_operation_def Let_def split: if_splits)
  then show ?thesis using assms(2) by (simp add: recorded_def)
qed

lemma renew_recorded:
  assumes "renew_operation_reservation claim rv now job = Inr (rv', job')" "recorded ordered k job"
  shows "recorded ordered k job'"
proof -
  have keys: "finished_keys (map (\<lambda>p. if held_by rv p then Reserved rv' else p) (jb_completed job)) = finished_keys (jb_completed job)" for rv'
    by (rule finished_keys_map) (use held_unfinished in auto)
  have "finished_keys (jb_completed job') = finished_keys (jb_completed job)" "jb_status job' = jb_status job"
    using assms(1) keys by (auto simp: renew_operation_reservation_def Let_def split: if_splits)
  then show ?thesis using assms(2) by (simp add: recorded_def)
qed

lemma quiet_heartbeat [quiet_steps]: "quiet_fence (heartbeat claim)"
  by (auto simp: quiet_fence_def quiet_def keeps_def heartbeat_def heartbeat_claim_def still_def recorded_def split: sum.splits if_splits)

lemma quiet_renew [quiet_steps]: "quiet_fence (renew claim)"
  by (auto simp: quiet_fence_def quiet_def keeps_def renew_def still_def dest: renew_recorded split: sum.splits option.splits)

lemma quiet_reserve [quiet_steps]: "quiet (reserve claim oper)"
  unfolding reserve_def
  by (rule quiet_and_then [OF quiet_next_tick])
    (auto simp: quiet_def keeps_def still_def dest: reserve_recorded split: sum.splits)

text \<open>A read answers with what Odoo holds.\<close>

lemma read_odoo_still:
  assumes "quiet_fence fence"
  shows "keeps (still ordered k od late) (read_odoo fence f) (\<lambda>x w. still ordered k od late w \<and> x = f od) (still ordered k od late)"
  unfolding read_odoo_def
  by (rule keeps_and_then [OF quietD [OF quiet_next_tick]], rule keeps_and_then [OF quietD [OF quiet_fenceD [OF assms]]])
    (auto simp: keeps_def still_def split: reply.splits)

lemma quiet_read_odoo [quiet_steps]: "quiet_fence fence \<Longrightarrow> quiet (read_odoo fence f)"
  unfolding quiet_def by (intro allI keeps_weaken [OF read_odoo_still]) auto

lemma quiet_each_of [quiet_steps]: "(\<And>x. quiet (f x)) \<Longrightarrow> quiet (each_of f xs)"
  by (induction xs) (auto intro: quiet_steps)

section \<open>The stages around the writes\<close>

lemma quiet_read_one [quiet_steps]: "quiet_fence fence \<Longrightarrow> quiet (read_one fence i)"
  unfolding read_one_def by (intro quiet_steps) (auto intro: quiet_steps)

lemma quiet_observe [quiet_steps]: "quiet_fence fence \<Longrightarrow> quiet (observe fence oper source i)"
  unfolding observe_def by (intro quiet_steps) (auto intro: quiet_steps split: sum.split)

lemma quiet_create_candidates [quiet_steps]: "quiet_fence fence \<Longrightarrow> quiet (create_candidates fence oper)"
  unfolding create_candidates_def Let_def by (intro quiet_steps)

lemma quiet_preflight [quiet_steps]: "quiet_fence fence \<Longrightarrow> quiet (preflight_operations fence opers sources)"
  unfolding preflight_operations_def preflight_source_def preflight_create_def Let_def
  by (intro quiet_steps) (auto intro: quiet_steps split: option.split sum.split)

lemma quiet_targets [quiet_steps]: "quiet_fence fence \<Longrightarrow> quiet (validate_applying_targets facts fence saved)"
  unfolding validate_applying_targets_def by (auto intro!: quiet_steps split: sum.split)

lemma quiet_verification [quiet_steps]: "quiet_fence fence \<Longrightarrow> quiet (verification_rows fence saved completed)"
  unfolding verification_rows_def verify_employee_def Let_def by (auto intro!: quiet_steps split: sum.split)

lemma mild_transition [quiet_steps]: "(\<And>s. status = Some s \<Longrightarrow> \<not> late_status s) \<Longrightarrow> mild (transition claim status retry mismatch)"
  by (auto simp: mild_def transition_def late_status_def split: option.splits if_splits)

lemma mild_complete_record [quiet_steps]: "finished_key record = None \<Longrightarrow> mild (complete_record claim record)"
  by (auto simp: mild_def complete_record_def split: if_splits progress.splits)

lemma mild_owned_record [quiet_steps]: "finished_key record = None \<Longrightarrow> mild (owned_record claim record)"
  by (auto simp: mild_def owned_record_def split: if_splits)

lemma mild_audit_record [quiet_steps]: "mild (audit_record claim now)"
  by (auto simp: mild_def audit_record_def late_status_def split: if_splits)

lemma not_late_failed [simp]: "\<not> late_status Failed" "\<not> late_status Applying" "\<not> late_status Planned"
  by (simp_all add: late_status_def)

lemma quiet_fail_job [quiet_steps]: "quiet (fail_job claim mismatch)"
  unfolding fail_job_def by (intro quiet_steps) simp

lemma quiet_retry_or_fail [quiet_steps]: "quiet (retry_or_fail claim retry)"
  unfolding retry_or_fail_def by (intro quiet_steps) (auto intro!: quiet_steps)

lemma quiet_on_failure [quiet_steps]: "quiet (on_failure claim mismatch retry e)"
  unfolding on_failure_def by (cases e) (auto intro: quiet_steps)

lemma quiet_box_until [quiet_steps]: "(\<And>t. quiet (f t)) \<Longrightarrow> quiet (box_until f)"
  by (simp add: quiet_def keeps_def box_until_def)

lemma quiet_local_call [quiet_steps]: "quiet local_call"
  unfolding local_call_def by (intro quiet_steps) (auto intro: quiet_steps split: reply.split)

lemma quiet_downstream [quiet_steps]: "mild record \<Longrightarrow> quiet next \<Longrightarrow> quiet (downstream_step claim now record next)"
  unfolding downstream_step_def by (intro quiet_steps) (auto intro: quiet_steps)

lemma quiet_unless_recorded [quiet_steps]: "quiet (step next) \<Longrightarrow> quiet next \<Longrightarrow> quiet (unless_recorded record step next)"
  unfolding unless_recorded_def by (intro quiet_steps) (auto intro: quiet_steps)

lemma quiet_finish_stage [quiet_steps]: "quiet (finish_stage claim now days)"
  unfolding finish_stage_def by (intro quiet_steps) (auto intro!: quiet_steps)

lemma quiet_recalculating:
  assumes "quiet next"
  shows "quiet (and_then (reading_job jb_status) (\<lambda>status.
       if status = Verifying
       then and_then (update_job (transition claim (Some Recalculating) None False)) (\<lambda>ok. if ok then next else give Superseded)
       else next))"
proof -
  let ?g = "\<lambda>job. if jb_status job = Verifying then transition claim (Some Recalculating) None False job else Some job"
  have "mild ?g" by (auto simp: mild_def transition_def late_status_def split: if_splits)
  then have "quiet (and_then (update_job ?g) (\<lambda>ok. if ok then next else give Superseded))" by (intro quiet_steps) (auto intro: quiet_steps assms)
  moreover have "and_then (reading_job jb_status) (\<lambda>status.
       if status = Verifying
       then and_then (update_job (transition claim (Some Recalculating) None False)) (\<lambda>ok. if ok then next else give Superseded)
       else next) = and_then (update_job ?g) (\<lambda>ok. if ok then next else give Superseded)"
    by (auto simp: fun_eq_iff and_then_def catch_def reading_job_def update_job_def split: option.splits)
  ultimately show ?thesis by simp
qed

lemma quiet_verify_stage [quiet_steps]: "quiet next \<Longrightarrow> quiet (verify_stage saved claim now next)"
  unfolding verify_stage_def by (intro quiet_steps quiet_recalculating)

end
