(* ===== verification/Correction_Progress.thy ===== *)
theory Correction_Progress
  imports Correction_Attempt
begin

text \<open>
  The writes of an attempt: the next operation is sent only when it has not happened, and recorded only
  when it has.
\<close>

section \<open>Where Odoo stands\<close>

definition set_up ::
    "(pyvalue \<Rightarrow> string) \<Rightarrow> int list \<Rightarrow> request \<Rightarrow> (int \<Rightarrow> correction_row list) \<Rightarrow> (int \<Rightarrow> piece list) \<Rightarrow> odoo \<Rightarrow> operation list \<Rightarrow> bool" where
  "set_up digest employees rq src pcs od0 ordered =
     (prepared employees rq src pcs od0 \<and> planned_order digest employees rq src pcs ordered \<and> distinct (map op_key ordered))"

definition sent_to :: "operation list \<Rightarrow> odoo \<Rightarrow> nat \<Rightarrow> odoo \<Rightarrow> bool" where
  "sent_to ordered od0 n od = (n \<le> length ordered \<and> (\<exists>stamp. send_all stamp (take n ordered) od0 = Some od))"

lemma set_upD:
  assumes "set_up digest employees rq src pcs od0 ordered"
  shows "prepared employees rq src pcs od0" "planned_order digest employees rq src pcs ordered" "distinct (map op_key ordered)" "distinct ordered"
    "set ordered = set (job_writes digest employees rq src pcs)"
  using assms planned_orderD [of digest employees rq src pcs ordered od0] by (auto simp: set_up_def)

lemma sent_holds:
  assumes "set_up digest employees rq src pcs od0 ordered" "sent_to ordered od0 n od"
  obtains slot where "holds od0 pcs slot (set (take n ordered)) od"
proof -
  obtain stamp where n: "n \<le> length ordered" and sent: "send_all stamp (take n ordered) od0 = Some od" using assms(2) by (auto simp: sent_to_def)
  from sent_part [OF set_upD(2,1) [OF assms(1)] n, of stamp] sent that show ?thesis by auto
qed

lemma next_write:
  assumes su: "set_up digest employees rq src pcs od0 ordered" and k: "k < length ordered"
  shows "ordered ! k \<in> set (job_writes digest employees rq src pcs)" "ordered ! k \<notin> set (take k ordered)"
    "set (take k ordered) \<subseteq> set (job_writes digest employees rq src pcs)" "take (Suc k) ordered = take k ordered @ [ordered ! k]"
proof -
  have "ordered ! k \<in> set ordered" using k by simp
  then show "ordered ! k \<in> set (job_writes digest employees rq src pcs)" using set_upD(5) [OF su] by simp
  show "ordered ! k \<notin> set (take k ordered)" using set_upD(4) [OF su] k by (auto simp: set_conv_nth nth_eq_iff_index_eq)
  show "set (take k ordered) \<subseteq> set (job_writes digest employees rq src pcs)" using set_upD(5) [OF su] set_take_subset [of k ordered] by simp
  show "take (Suc k) ordered = take k ordered @ [ordered ! k]" using k by (simp add: take_Suc_conv_app_nth)
qed

lemma next_sent:
  assumes su: "set_up digest employees rq src pcs od0 ordered" and k: "k < length ordered" and od: "sent_to ordered od0 k od"
  obtains i od' where "commit stamp (write_of (ordered ! k)) od = Some (i, od')" "sent_to ordered od0 (Suc k) od'"
proof -
  note X = next_write [OF su k]
  obtain slot where h: "holds od0 pcs slot (set (take k ordered)) od" by (rule sent_holds [OF su od])
  obtain i od' where c: "commit stamp (write_of (ordered ! k)) od = Some (i, od')"
    by (rule commit_next [OF set_upD(1) [OF su] h X(3,1,2) next_due [OF set_upD(2,1) [OF su] k]])
  obtain st where st: "send_all st (take k ordered) od0 = Some od" using od by (auto simp: sent_to_def)
  have "send_all (st(ordered ! k := stamp)) (take k ordered) od0 = send_all st (take k ordered) od0"
    by (rule send_all_cong) (use X(2) in auto)
  then have "send_all (st(ordered ! k := stamp)) (take k ordered) od0 = Some od" using st by simp
  then have "send_all (st(ordered ! k := stamp)) (take (Suc k) ordered) od0 = Some od'" by (simp add: X(4) send_all_append c)
  then have "sent_to ordered od0 (Suc k) od'" using k by (auto simp: sent_to_def)
  then show ?thesis using that c by blast
qed

section \<open>What the rows show\<close>

definition creatable :: "operation \<Rightarrow> odoo \<Rightarrow> attendance list" where
  "creatable oper od =
     (let values = given (op_after oper); start = time_in values k_check_in 0; fin = end_in values k_check_out None
      in filter (\<lambda>a. interval_overlaps a start fin) (fetch_employee_rows od (op_employee oper) start fin))"

lemma created_goal:
  assumes su: "set_up digest employees rq src pcs od0 ordered" and X: "X \<in> set (job_writes digest employees rq src pcs)" and "op_kind X = Create"
  obtains p where "p \<in> set (pcs (op_employee X))" "job_goal pcs X = Some (piece_goal (op_employee X) p)"
    "creatable X od = filter (\<lambda>a. meet (at_start a) (at_end a) (pc_start p) (pc_end p)) (fetch_employee_rows od (op_employee X) (pc_start p) (pc_end p))"
    "whole (pc_start p)" "at_end_too whole (pc_end p)" "ends_after (pc_end p) (pc_start p)" "op_attendance_id X = None"
proof -
  note prep = set_upD(1) [OF su]
  note mem = job_writes_member [OF X prep]
  note pl = preparedD(5) [OF prep mem(1)]
  from pl mem(2) show ?thesis
  proof (cases rule: planned_cases)
    case (new p)
    have "whole (pc_start p) \<and> at_end_too whole (pc_end p)" by (rule whole_pieces [OF prep mem(1) new(1)])
    then show ?thesis
      using that [OF new(1)] new(4,6) planned_piece(1) [OF pl new(1)]
      by (simp add: job_goal_def goal_new [OF new(4) refl new(6)] creatable_def Let_def given_def piece_values full_read interval_overlaps_def)
  qed (use assms(3) in simp_all)
qed

lemma not_created:
  assumes su: "set_up digest employees rq src pcs od0 ordered" and k: "k < length ordered" and od: "sent_to ordered od0 k od"
    and kind: "op_kind (ordered ! k) = Create"
  shows "creatable (ordered ! k) od = []"
proof -
  let ?X = "ordered ! k"
  note X = next_write [OF su k]
  obtain slot where h: "holds od0 pcs slot (set (take k ordered)) od" by (rule sent_holds [OF su od])
  obtain p where p: "job_goal pcs ?X = Some (piece_goal (op_employee ?X) p)" "op_attendance_id ?X = None"
    "creatable ?X od = filter (\<lambda>a. meet (at_start a) (at_end a) (pc_start p) (pc_end p)) (fetch_employee_rows od (op_employee ?X) (pc_start p) (pc_end p))"
    by (rule created_goal [OF su X(1) kind, where od = od])
  have "\<not> meet (at_start a) (at_end a) (pc_start p) (pc_end p)" if "a \<in> set (od_rows od)" "at_employee a = op_employee ?X" for a
    using next_clear [OF set_upD(1) [OF su] h X(3,1,2) p(1) next_due [OF set_upD(2,1) [OF su] k] that(1)] p(2) that(2)
    by (simp add: place_meets_def at_place_def piece_goal_def)
  then show ?thesis unfolding p(3) by (auto simp: filter_empty_conv fetch_employee_rows_def)
qed

lemma was_created:
  assumes su: "set_up digest employees rq src pcs od0 ordered" and k: "k < length ordered" and od: "sent_to ordered od0 (Suc k) od"
    and kind: "op_kind (ordered ! k) = Create"
  shows "creatable (ordered ! k) od \<noteq> []"
proof -
  let ?X = "ordered ! k"
  note X = next_write [OF su k]
  obtain slot where h: "holds od0 pcs slot (set (take (Suc k) ordered)) od" by (rule sent_holds [OF su od])
  obtain p where p: "job_goal pcs ?X = Some (piece_goal (op_employee ?X) p)" "whole (pc_start p)" "at_end_too whole (pc_end p)"
    "ends_after (pc_end p) (pc_start p)"
    "creatable ?X od = filter (\<lambda>a. meet (at_start a) (at_end a) (pc_start p) (pc_end p)) (fetch_employee_rows od (op_employee ?X) (pc_start p) (pc_end p))"
    by (rule created_goal [OF su X(1) kind, where od = od])
  have "?X \<in> set (take (Suc k) ordered)" by (simp add: X(4))
  then have "map_option at_place (row_at od (slot ?X)) = Some (piece_goal (op_employee ?X) p)" using holdsD(7) [OF h] p(1) by simp
  then obtain a where a: "row_at od (slot ?X) = Some a" "at_place a = piece_goal (op_employee ?X) p" by auto
  then have "a \<in> set (od_rows od)" using row_at_iff [OF holdsD(1) [OF h]] by blast
  then have "a \<in> set (creatable ?X od)" unfolding p(5)
    using a(2) p(2-4) by (simp add: fetch_employee_rows_def at_place_def piece_goal_def meet_def)
  then show ?thesis by auto
qed

text \<open>The row of an update or a deletion, before and after it.\<close>

definition row_states :: "operation list \<Rightarrow> odoo \<Rightarrow> nat \<Rightarrow> correction_row \<Rightarrow> bool" where
  "row_states ordered od0 k r =
     (\<forall>od. (sent_to ordered od0 k od \<longrightarrow> operation_source_state (ordered ! k) (canonical_row r) (row_at od (cr_id r)) = Inr Not_Written) \<and>
        (sent_to ordered od0 (Suc k) od \<longrightarrow> operation_source_state (ordered ! k) (canonical_row r) (row_at od (cr_id r)) = Inr Written))"

lemma row_statesI:
  assumes "\<And>od. sent_to ordered od0 k od \<Longrightarrow> operation_source_state (ordered ! k) (canonical_row r) (row_at od (cr_id r)) = Inr Not_Written"
    "\<And>od. sent_to ordered od0 (Suc k) od \<Longrightarrow> operation_source_state (ordered ! k) (canonical_row r) (row_at od (cr_id r)) = Inr Written"
  shows "row_states ordered od0 k r"
  using assms by (simp add: row_states_def)

lemma change_row:
  assumes su: "set_up digest employees rq src pcs od0 ordered" and k: "k < length ordered" and kind: "op_kind (ordered ! k) \<noteq> Create"
  obtains r where "op_attendance_id (ordered ! k) = Some (cr_id r)" "r \<in> set (src (op_employee (ordered ! k)))"
    "row_states ordered od0 k r"
proof -
  let ?X = "ordered ! k"
  note prep = set_upD(1) [OF su]
  note X = next_write [OF su k]
  note mem = job_writes_member [OF X(1) prep]
  note pl = preparedD(5) [OF prep mem(1)]
  have old: "row_at od (cr_id r) = Some (canonical_row r)"
    if od: "sent_to ordered od0 k od" and r: "r \<in> set (src (op_employee ?X))" and id: "op_attendance_id ?X = Some (cr_id r)" for od r
  proof -
    obtain slot where h: "holds od0 pcs slot (set (take k ordered)) od" by (rule sent_holds [OF su od])
    show ?thesis using holdsD(8) [OF h fresh_slot [OF prep h X(3,1,2) id]] source_in_odoo(1) [OF prep mem(1) r] by simp
  qed
  have new: "map_option at_place (row_at od (cr_id r)) = job_goal pcs ?X"
    if od: "sent_to ordered od0 (Suc k) od" and id: "op_attendance_id ?X = Some (cr_id r)" for od r
  proof -
    obtain slot where h: "holds od0 pcs slot (set (take (Suc k) ordered)) od" by (rule sent_holds [OF su od])
    have "?X \<in> set (take (Suc k) ordered)" by (simp add: X(4))
    then show ?thesis using holdsD(5,7) [OF h _] id by fastforce
  qed
  from pl mem(2) show ?thesis
  proof (cases rule: planned_cases)
    case (del r)
    show ?thesis
    proof (rule that [OF del(4,1) row_statesI])
      show "operation_source_state ?X (canonical_row r) (row_at od (cr_id r)) = Inr Not_Written" if "sent_to ordered od0 k od" for od
        using old [OF that del(1,4)] source_in_odoo(2) [OF prep mem(1) del(1)] del(3) by (simp add: operation_source_state_def)
      show "operation_source_state ?X (canonical_row r) (row_at od (cr_id r)) = Inr Written" if "sent_to ordered od0 (Suc k) od" for od
        using new [OF that del(4)] del(2,3,4) by (simp add: operation_source_state_def job_goal_def goal_of_def)
    qed
  next
    case (upd r p d)
    note exact = update_exact [OF planningD(3) [OF pl upd(1)] upd(7,8)]
    have emp: "cr_employee r = op_employee ?X" by (rule source_in_odoo(2) [OF prep mem(1) upd(1)])
    show ?thesis
    proof (rule that [OF upd(4,1) row_statesI])
      show "operation_source_state ?X (canonical_row r) (row_at od (cr_id r)) = Inr Not_Written" if "sent_to ordered od0 k od" for od
        using old [OF that upd(1,4)] exact upd(3,6,9) emp by (simp add: operation_source_state_def given_def)
      show "operation_source_state ?X (canonical_row r) (row_at od (cr_id r)) = Inr Written" if "sent_to ordered od0 (Suc k) od" for od
      proof -
        have "map_option at_place (row_at od (cr_id r)) = Some (piece_goal (op_employee ?X) p)"
          using new [OF that upd(4)] upd(2,4) by (simp add: job_goal_def goal_of_def)
        then obtain a where a: "row_at od (cr_id r) = Some a" "at_place a = piece_goal (op_employee ?X) p" by auto
        then have "at_employee a = op_employee ?X" by (simp add: at_place_def piece_goal_def)
        then show ?thesis using a exact [of a] upd(3,6) emp by (simp add: operation_source_state_def given_def)
      qed
    qed
  qed (use kind in simp)
qed

section \<open>Performing the next operation\<close>

definition reached :: "operation list \<Rightarrow> odoo \<Rightarrow> nat \<Rightarrow> nat \<Rightarrow> world \<Rightarrow> bool" where
  "reached ordered od0 k n w = (recorded ordered k (wd_job w) \<and> wd_late w = [] \<and> sent_to ordered od0 n (wd_odoo w))"

text \<open>An attempt that stops: the next operation may have happened, or may still be under way.\<close>

definition stopped :: "operation list \<Rightarrow> odoo \<Rightarrow> nat \<Rightarrow> world \<Rightarrow> bool" where
  "stopped ordered od0 k w =
     (recorded ordered k (wd_job w) \<and>
      (wd_late w = [] \<and> sent_to ordered od0 (Suc k) (wd_odoo w) \<or>
       sent_to ordered od0 k (wd_odoo w) \<and> (wd_late w = [] \<or> (\<exists>stamp. wd_late w = [(stamp, write_of (ordered ! k))]))))"

lemma quiet_reached: "quiet m \<Longrightarrow> keeps (reached ordered od0 k n) m (\<lambda>_. reached ordered od0 k n) (reached ordered od0 k n)"
  by (rule keeps_fix) (rule keeps_weaken [OF quietD], auto simp: reached_def still_def)

lemma quiet_stopped: "quiet m \<Longrightarrow> keeps (stopped ordered od0 k) m (\<lambda>_. stopped ordered od0 k) (stopped ordered od0 k)"
proof (rule keeps_fix)
  assume "quiet m"
  fix w assume "stopped ordered od0 k w"
  then show "keeps ((=) w) m (\<lambda>_. stopped ordered od0 k) (stopped ordered od0 k)"
    by (intro keeps_weaken [OF quietD [OF \<open>quiet m\<close>, of ordered k "wd_odoo w" "wd_late w"]]) (auto simp: stopped_def still_def)
qed

lemma reached_stopped: "reached ordered od0 k k w \<or> reached ordered od0 k (Suc k) w \<Longrightarrow> stopped ordered od0 k w"
  by (auto simp: reached_def stopped_def)

lemma pass_reached: "quiet m \<Longrightarrow> keeps (reached ordered od0 k k) m (\<lambda>_. reached ordered od0 k k) (stopped ordered od0 k)"
  by (rule keeps_weaken [OF quiet_reached]) (auto intro: reached_stopped)

lemma pass_reached_next: "quiet m \<Longrightarrow> keeps (reached ordered od0 k (Suc k)) m (\<lambda>_. reached ordered od0 k (Suc k)) (stopped ordered od0 k)"
  by (rule keeps_weaken [OF quiet_reached]) (auto intro: reached_stopped)

lemma deliver_next:
  assumes su: "set_up digest employees rq src pcs od0 ordered" and k: "k < length ordered"
  shows "keeps (reached ordered od0 k k) (deliver reply (write_of (ordered ! k))) (\<lambda>_. reached ordered od0 k (Suc k)) (stopped ordered od0 k)"
  unfolding keeps_def
proof (intro allI impI)
  fix w assume w: "reached ordered od0 k k w"
  then have at_k: "sent_to ordered od0 k (wd_odoo w)" by (simp add: reached_def)
  have sent: "\<exists>i od'. commit stamp (write_of (ordered ! k)) (wd_odoo w) = Some (i, od') \<and> sent_to ordered od0 (Suc k) od'" for stamp
    using next_sent [OF su k at_k] by blast
  show "case deliver reply (write_of (ordered ! k)) w of (Got x, w') \<Rightarrow> reached ordered od0 k (Suc k) w' | (_, w') \<Rightarrow> stopped ordered od0 k w'"
  proof (cases "sendable (write_of (ordered ! k))")
    case True
    show ?thesis
    proof (cases reply)
      case (Answered stamp)
      then show ?thesis using True sent [of stamp] w by (auto simp: deliver_def reached_def)
    next
      case (Timed_Out stamp)
      then show ?thesis using True sent [of stamp] w by (auto simp: deliver_def reached_def stopped_def carried_out_def)
    qed (use True w in \<open>auto simp: deliver_def reached_def stopped_def\<close>)
  qed (use w in \<open>simp add: deliver_def reached_stopped\<close>)
qed

lemma send_next:
  assumes su: "set_up digest employees rq src pcs od0 ordered" and k: "k < length ordered" and fence: "quiet_fence fence"
  shows "keeps (reached ordered od0 k k) (send_write fence (write_of (ordered ! k))) (\<lambda>_. reached ordered od0 k (Suc k)) (stopped ordered od0 k)"
  unfolding send_write_def
  by (intro keeps_and_then [OF pass_reached] deliver_next [OF su k] quiet_next_tick quiet_fenceD [OF fence])

lemma read_reached:
  assumes "quiet_fence fence"
  shows "keeps (reached ordered od0 k n) (read_odoo fence f) (\<lambda>x w. reached ordered od0 k n w \<and> x = f (wd_odoo w)) (reached ordered od0 k n)"
proof (rule keeps_fix)
  fix w assume "reached ordered od0 k n w"
  then show "keeps ((=) w) (read_odoo fence f) (\<lambda>x w. reached ordered od0 k n w \<and> x = f (wd_odoo w)) (reached ordered od0 k n)"
    by (intro keeps_weaken [OF read_odoo_still [OF assms, of ordered k "wd_odoo w" "wd_late w"]]) (auto simp: reached_def still_def)
qed

lemma read_stopped:
  assumes "quiet_fence fence"
  shows "keeps (stopped ordered od0 k) (read_odoo fence f) (\<lambda>x w. stopped ordered od0 k w \<and> x = f (wd_odoo w)) (stopped ordered od0 k)"
proof (rule keeps_fix)
  fix w assume "stopped ordered od0 k w"
  then show "keeps ((=) w) (read_odoo fence f) (\<lambda>x w. stopped ordered od0 k w \<and> x = f (wd_odoo w)) (stopped ordered od0 k)"
    by (intro keeps_weaken [OF read_odoo_still [OF assms, of ordered k "wd_odoo w" "wd_late w"]]) (auto simp: stopped_def still_def)
qed

lemma create_candidates_eq: "create_candidates fence oper = read_odoo fence (creatable oper)"
  by (simp add: create_candidates_def creatable_def [abs_def] Let_def)

lemma adoptable_some: "adoptable oper candidates = Some i \<Longrightarrow> candidates \<noteq> []"
  by (auto simp: adoptable_def split: list.splits)

definition performed :: "operation list \<Rightarrow> odoo \<Rightarrow> nat \<Rightarrow> progress \<Rightarrow> world \<Rightarrow> bool" where
  "performed ordered od0 k record w = (reached ordered od0 k (Suc k) w \<and> finished_key record = Some (op_key (ordered ! k)))"

lemma finish_next:
  "(\<And>w. P w \<Longrightarrow> reached ordered od0 k (Suc k) w) \<Longrightarrow> keeps P (finished (ordered ! k) i) (performed ordered od0 k) E"
  unfolding finished_def by (rule keeps_give) (simp add: performed_def)

text \<open>A failed write is looked for again.\<close>

lemma stopped_unless_seen:
  "stopped ordered od0 k w \<Longrightarrow> \<not> sent_to ordered od0 k (wd_odoo w) \<Longrightarrow> reached ordered od0 k (Suc k) w"
  by (auto simp: stopped_def reached_def)

lemma confirm_create:
  assumes su: "set_up digest employees rq src pcs od0 ordered" and k: "k < length ordered" and fence: "quiet_fence fence"
    and kind: "op_kind (ordered ! k) = Create"
  shows "keeps (stopped ordered od0 k)
    (and_then (create_candidates fence (ordered ! k)) (\<lambda>candidates.
       case adoptable (ordered ! k) candidates of
         Some i \<Rightarrow> finished (ordered ! k) i
       | None \<Rightarrow> if candidates \<noteq> [] then raise Source_Changed else raise Recoverable_Write))
    (performed ordered od0 k) (stopped ordered od0 k)"
  unfolding create_candidates_eq
proof (rule keeps_and_then [OF read_stopped [OF fence]])
  fix candidates
  let ?P = "\<lambda>w. stopped ordered od0 k w \<and> candidates = creatable (ordered ! k) (wd_odoo w)"
  show "keeps ?P (case adoptable (ordered ! k) candidates of
         Some i \<Rightarrow> finished (ordered ! k) i
       | None \<Rightarrow> if candidates \<noteq> [] then raise Source_Changed else raise Recoverable_Write) (performed ordered od0 k) (stopped ordered od0 k)"
  proof (cases "adoptable (ordered ! k) candidates")
    case (Some i)
    have "reached ordered od0 k (Suc k) w" if "?P w" for w
      using that adoptable_some [OF Some] not_created [OF su k _ kind] stopped_unless_seen by metis
    then have "keeps ?P (finished (ordered ! k) i) (performed ordered od0 k) (stopped ordered od0 k)" by (rule finish_next)
    then show ?thesis using Some by simp
  qed (auto intro!: keeps_raise)
qed

lemma create_after:
  assumes su: "set_up digest employees rq src pcs od0 ordered" and k: "k < length ordered" and fence: "quiet_fence fence"
    and kind: "op_kind (ordered ! k) = Create"
  shows "keeps (reached ordered od0 k (Suc k)) (perform_create fence (ordered ! k)) (performed ordered od0 k) (stopped ordered od0 k)"
proof -
  let ?P = "\<lambda>candidates w. reached ordered od0 k (Suc k) w \<and> candidates = creatable (ordered ! k) (wd_odoo w)"
  have start: "keeps (reached ordered od0 k (Suc k)) (read_odoo fence (creatable (ordered ! k))) ?P (stopped ordered od0 k)"
    by (rule keeps_weaken [OF read_reached [OF fence]]) (auto intro: reached_stopped)
  have step: "keeps (?P candidates) (case adoptable (ordered ! k) candidates of
         Some i \<Rightarrow> finished (ordered ! k) i
       | None \<Rightarrow> if candidates \<noteq> [] then raise Source_Changed else m) (performed ordered od0 k) (stopped ordered od0 k)" for candidates m
  proof (cases "adoptable (ordered ! k) candidates")
    case (Some i)
    have "keeps (?P candidates) (finished (ordered ! k) i) (performed ordered od0 k) (stopped ordered od0 k)" by (rule finish_next) simp
    then show ?thesis using Some by simp
  next
    case None
    show ?thesis
    proof (cases "candidates = []")
      case True
      have "\<not> ?P candidates w" for w using was_created [OF su k _ kind, of "wd_odoo w"] True by (auto simp: reached_def)
      then show ?thesis by (rule keeps_absurd)
    qed (use None in \<open>auto intro!: keeps_raise reached_stopped\<close>)
  qed
  show ?thesis unfolding perform_create_def create_candidates_eq by (rule keeps_and_then [OF start step])
qed

lemma create_before:
  assumes su: "set_up digest employees rq src pcs od0 ordered" and k: "k < length ordered" and fence: "quiet_fence fence"
    and kind: "op_kind (ordered ! k) = Create"
  shows "keeps (reached ordered od0 k k) (perform_create fence (ordered ! k)) (performed ordered od0 k) (stopped ordered od0 k)"
proof -
  let ?X = "ordered ! k"
  have none: "creatable ?X (wd_odoo w) = []" if "reached ordered od0 k k w" for w
    using that not_created [OF su k _ kind] by (simp add: reached_def)
  have confirm: "keeps (reached ordered od0 k (Suc k)) (and_then (read_one fence i) (\<lambda>confirmed. case confirmed of
         None \<Rightarrow> raise Recoverable_Write
       | Some a \<Rightarrow> if exact_mutable (given (op_after ?X)) a then finished ?X i else raise Recoverable_Write))
     (performed ordered od0 k) (stopped ordered od0 k)" for i
  proof (rule keeps_and_then [OF pass_reached_next [OF quiet_read_one [OF fence]]])
    fix confirmed
    show "keeps (reached ordered od0 k (Suc k)) (case confirmed of
         None \<Rightarrow> raise Recoverable_Write
       | Some a \<Rightarrow> if exact_mutable (given (op_after ?X)) a then finished ?X i else raise Recoverable_Write)
       (performed ordered od0 k) (stopped ordered od0 k)"
      by (auto intro!: keeps_raise finish_next reached_stopped split: option.split)
  qed
  have failed: "keeps (stopped ordered od0 k) (if e = Stale_Claim then raise Stale_Claim
     else and_then (read_odoo fence (creatable ?X)) (\<lambda>candidates.
       case adoptable ?X candidates of
         Some i \<Rightarrow> finished ?X i
       | None \<Rightarrow> if candidates \<noteq> [] then raise Source_Changed else raise Recoverable_Write))
     (performed ordered od0 k) (stopped ordered od0 k)" for e
    using confirm_create [OF su k fence kind] by (auto intro: keeps_raise simp: create_candidates_eq)
  have start: "keeps (reached ordered od0 k k) (read_odoo fence (creatable ?X))
      (\<lambda>candidates w. reached ordered od0 k k w \<and> candidates = []) (stopped ordered od0 k)"
    by (rule keeps_weaken [OF read_reached [OF fence]]) (auto simp: none intro: reached_stopped)
  show ?thesis unfolding perform_create_def create_candidates_eq
  proof (rule keeps_and_then [OF start])
    fix candidates :: "attendance list"
    let ?send = "catch (send_write fence (write_of ?X))
             (\<lambda>e. if e = Stale_Claim then raise Stale_Claim
                else and_then (read_odoo fence (creatable ?X)) (\<lambda>candidates.
                  case adoptable ?X candidates of
                    Some i \<Rightarrow> finished ?X i
                  | None \<Rightarrow> if candidates \<noteq> [] then raise Source_Changed else raise Recoverable_Write))
             (\<lambda>i. and_then (read_one fence i) (\<lambda>confirmed.
                case confirmed of
                  None \<Rightarrow> raise Recoverable_Write
                | Some a \<Rightarrow> if exact_mutable (given (op_after ?X)) a then finished ?X i else raise Recoverable_Write))"
    have "keeps (reached ordered od0 k k) ?send (performed ordered od0 k) (stopped ordered od0 k)"
      by (rule keeps_catch [OF send_next [OF su k fence] confirm failed])
    then show "keeps (\<lambda>w. reached ordered od0 k k w \<and> candidates = [])
       (case adoptable ?X candidates of
         Some i \<Rightarrow> finished ?X i
       | None \<Rightarrow> if candidates \<noteq> [] then raise Source_Changed else ?send)
       (performed ordered od0 k) (stopped ordered od0 k)"
      by (cases "candidates = []") (auto simp: adoptable_def keeps_def)
  qed
qed

lemma create_next:
  assumes "set_up digest employees rq src pcs od0 ordered" "k < length ordered" "quiet_fence fence" "op_kind (ordered ! k) = Create" "n = k \<or> n = Suc k"
  shows "keeps (reached ordered od0 k n) (perform_create fence (ordered ! k)) (performed ordered od0 k) (stopped ordered od0 k)"
  using assms(5) create_before [OF assms(1-4)] create_after [OF assms(1-4)] by auto

text \<open>Updates and deletions look at the row they change.\<close>

lemma read_one_row:
  assumes fence: "quiet_fence fence"
  shows "keeps (stopped ordered od0 k) (read_one fence i) (\<lambda>current w. stopped ordered od0 k w \<and> current = row_at (wd_odoo w) i) (stopped ordered od0 k)"
  unfolding read_one_def
proof (rule keeps_and_then [OF read_stopped [OF fence]])
  fix rows
  have first: "(case filter P xs of [] \<Rightarrow> None | a # _ \<Rightarrow> Some a) = find P xs" for P :: "attendance \<Rightarrow> bool" and xs
    by (induction xs) auto
  have "(case fetch_by_id od i of [] \<Rightarrow> None | a # _ \<Rightarrow> Some a) = row_at od i" for od
    unfolding fetch_by_id_def row_at_def by (rule first)
  then show "keeps (\<lambda>w. stopped ordered od0 k w \<and> rows = fetch_by_id (wd_odoo w) i)
     (if length rows > 1 then raise Source_Changed else give (case rows of [] \<Rightarrow> None | a # _ \<Rightarrow> Some a))
     (\<lambda>current w. stopped ordered od0 k w \<and> current = row_at (wd_odoo w) i) (stopped ordered od0 k)"
    by (auto intro!: keeps_raise keeps_give)
qed

definition seen_as :: "operation list \<Rightarrow> odoo \<Rightarrow> nat \<Rightarrow> write_state \<Rightarrow> world \<Rightarrow> bool" where
  "seen_as ordered od0 k state w =
     (case state of Written \<Rightarrow> reached ordered od0 k (Suc k) w
      | Not_Written \<Rightarrow> stopped ordered od0 k w \<and> sent_to ordered od0 k (wd_odoo w)
      | Changed_Elsewhere \<Rightarrow> stopped ordered od0 k w)"

lemma seen_stopped: "seen_as ordered od0 k state w \<Longrightarrow> stopped ordered od0 k w"
  by (cases state) (auto simp: seen_as_def reached_stopped)

text \<open>Only one of two neighbouring states can be there.\<close>

lemma observed:
  assumes states: "row_states ordered od0 k r" and fence: "quiet_fence fence"
  shows "keeps (stopped ordered od0 k) (observe fence (ordered ! k) (canonical_row r) (cr_id r)) (seen_as ordered od0 k) (stopped ordered od0 k)"
  unfolding observe_def
proof (rule keeps_and_then [OF read_one_row [OF fence]])
  fix current
  let ?P = "\<lambda>w. stopped ordered od0 k w \<and> current = row_at (wd_odoo w) (cr_id r)"
  show "keeps ?P (case operation_source_state (ordered ! k) (canonical_row r) current of Inl _ \<Rightarrow> raise Other_Failure | Inr state \<Rightarrow> give state)
     (seen_as ordered od0 k) (stopped ordered od0 k)"
  proof (cases "operation_source_state (ordered ! k) (canonical_row r) current")
    case (Inr state)
    have "seen_as ordered od0 k state w" if w: "?P w" for w
    proof (cases "sent_to ordered od0 k (wd_odoo w)")
      case True
      then have "state = Not_Written" using states Inr w by (simp add: row_states_def)
      then show ?thesis using w True by (simp add: seen_as_def)
    next
      case False
      then have later: "reached ordered od0 k (Suc k) w" using stopped_unless_seen w by blast
      then have "state = Written" using states Inr w by (simp add: reached_def row_states_def)
      then show ?thesis using later by (simp add: seen_as_def)
    qed
    then show ?thesis using Inr by (auto intro: keeps_give)
  qed (auto intro: keeps_raise)
qed

lemma change_next:
  assumes su: "set_up digest employees rq src pcs od0 ordered" and k: "k < length ordered" and fence: "quiet_fence fence"
    and kind: "op_kind (ordered ! k) \<noteq> Create"
    and sources: "\<And>r. r \<in> set (src (op_employee (ordered ! k))) \<Longrightarrow> source_row_by_id sources (cr_id r) = Inr (canonical_row r)"
    and n: "n = k \<or> n = Suc k"
  shows "keeps (reached ordered od0 k n) (perform_change fence (ordered ! k) sources) (performed ordered od0 k) (stopped ordered od0 k)"
proof -
  let ?X = "ordered ! k"
  obtain r where r: "op_attendance_id ?X = Some (cr_id r)" "r \<in> set (src (op_employee ?X))" and states: "row_states ordered od0 k r"
    by (rule change_row [OF su k kind])
  let ?observe = "observe fence ?X (canonical_row r) (cr_id r)"
  note observe = observed [OF states fence]
  have finish: "keeps (seen_as ordered od0 k Written) (finished ?X i) (performed ordered od0 k) (stopped ordered od0 k)" for i
    by (rule finish_next) (simp add: seen_as_def)
  have confirm: "keeps (reached ordered od0 k (Suc k)) (and_then ?observe (\<lambda>state. if state = Written then finished ?X (cr_id r) else raise Recoverable_Write))
      (performed ordered od0 k) (stopped ordered od0 k)"
  proof -
    have start: "keeps (reached ordered od0 k (Suc k)) ?observe (seen_as ordered od0 k) (stopped ordered od0 k)"
      by (rule keeps_weaken [OF observe]) (auto intro: reached_stopped)
    have step: "keeps (seen_as ordered od0 k state) (if state = Written then finished ?X (cr_id r) else raise Recoverable_Write)
        (performed ordered od0 k) (stopped ordered od0 k)" for state
      using finish by (auto intro!: keeps_raise seen_stopped)
    show ?thesis by (rule keeps_and_then [OF start step])
  qed
  have failed: "keeps (stopped ordered od0 k) (if e = Stale_Claim then raise Stale_Claim
     else and_then ?observe (\<lambda>state. case state of
            Written \<Rightarrow> finished ?X (cr_id r)
          | Changed_Elsewhere \<Rightarrow> raise Source_Changed
          | Not_Written \<Rightarrow> raise Recoverable_Write)) (performed ordered od0 k) (stopped ordered od0 k)" for e
  proof (cases "e = Stale_Claim")
    case False
    have "keeps (seen_as ordered od0 k state) (case state of
            Written \<Rightarrow> finished ?X (cr_id r)
          | Changed_Elsewhere \<Rightarrow> raise Source_Changed
          | Not_Written \<Rightarrow> raise Recoverable_Write) (performed ordered od0 k) (stopped ordered od0 k)" for state
      using finish by (cases state) (auto intro!: keeps_raise seen_stopped)
    then show ?thesis using False by (simp add: keeps_and_then [OF observe])
  qed (auto intro: keeps_raise)
  have first: "keeps (reached ordered od0 k n) ?observe
      (\<lambda>state w. seen_as ordered od0 k state w \<and> (state = Not_Written \<longrightarrow> reached ordered od0 k k w)) (stopped ordered od0 k)"
  proof -
    have "keeps (\<lambda>w. stopped ordered od0 k w \<and> wd_late w = []) ?observe
      (\<lambda>state w. seen_as ordered od0 k state w \<and> wd_late w = []) (stopped ordered od0 k)"
      unfolding keeps_def
    proof (intro allI impI)
      fix w assume w: "stopped ordered od0 k w \<and> wd_late w = []"
      obtain a w' where run: "?observe w = (a, w')" by fastforce
      have "still ordered k (wd_odoo w) [] w" using w by (simp add: still_def stopped_def)
      from quiet_run [OF quiet_observe [OF fence] this run] have "wd_late w' = []" by (simp add: still_def)
      then show "case ?observe w of (Got x, w') \<Rightarrow> seen_as ordered od0 k x w' \<and> wd_late w' = [] | (_, w') \<Rightarrow> stopped ordered od0 k w'"
        using observe w run unfolding keeps_def by (cases a) force+
    qed
    then show ?thesis
      by (rule keeps_weaken) (use n in \<open>auto simp: reached_stopped seen_as_def stopped_def reached_def\<close>)
  qed
  have step: "keeps (\<lambda>w. seen_as ordered od0 k state w \<and> (state = Not_Written \<longrightarrow> reached ordered od0 k k w))
       (case state of
         Not_Written \<Rightarrow>
           catch (send_write fence (write_of ?X))
             (\<lambda>e. if e = Stale_Claim then raise Stale_Claim
                else and_then ?observe (\<lambda>state. case state of
                  Not_Written \<Rightarrow> raise Recoverable_Write
                | Written \<Rightarrow> finished ?X (cr_id r)
                | Changed_Elsewhere \<Rightarrow> raise Source_Changed))
             (\<lambda>_. and_then ?observe (\<lambda>state. if state = Written then finished ?X (cr_id r) else raise Recoverable_Write))
       | Written \<Rightarrow> finished ?X (cr_id r)
       | Changed_Elsewhere \<Rightarrow> raise Source_Changed)
       (performed ordered od0 k) (stopped ordered od0 k)" for state
    proof (cases state)
      case Not_Written
      have "keeps (reached ordered od0 k k) (catch (send_write fence (write_of ?X))
             (\<lambda>e. if e = Stale_Claim then raise Stale_Claim
                else and_then ?observe (\<lambda>state. case state of
                  Not_Written \<Rightarrow> raise Recoverable_Write
                | Written \<Rightarrow> finished ?X (cr_id r)
                | Changed_Elsewhere \<Rightarrow> raise Source_Changed))
             (\<lambda>_. and_then ?observe (\<lambda>state. if state = Written then finished ?X (cr_id r) else raise Recoverable_Write)))
          (performed ordered od0 k) (stopped ordered od0 k)"
        by (rule keeps_catch [OF send_next [OF su k fence] confirm failed])
      then show ?thesis using Not_Written by (auto intro: keeps_weaken)
    next
      case Written
      then show ?thesis using finish [of "cr_id r"] by (auto intro: keeps_weaken)
    next
      case Changed_Elsewhere
      then show ?thesis by (auto intro!: keeps_raise seen_stopped)
  qed
  have eq: "perform_change fence ?X sources = and_then ?observe (\<lambda>state. case state of
         Not_Written \<Rightarrow>
           catch (send_write fence (write_of ?X))
             (\<lambda>e. if e = Stale_Claim then raise Stale_Claim
                else and_then ?observe (\<lambda>state. case state of
                  Not_Written \<Rightarrow> raise Recoverable_Write
                | Written \<Rightarrow> finished ?X (cr_id r)
                | Changed_Elsewhere \<Rightarrow> raise Source_Changed))
             (\<lambda>_. and_then ?observe (\<lambda>state. if state = Written then finished ?X (cr_id r) else raise Recoverable_Write))
       | Written \<Rightarrow> finished ?X (cr_id r)
       | Changed_Elsewhere \<Rightarrow> raise Source_Changed)"
    unfolding perform_change_def r(1) option.case Let_def sources [OF r(2)] sum.case by (rule refl)
  show ?thesis unfolding eq by (rule keeps_and_then [OF first step])
qed

end
