(* ===== verification/Correction_Attempts.thy ===== *)
theory Correction_Attempts
  imports Correction_Progress
begin

text \<open>
  Whole attempts, and any number of them: Odoo always holds what the first operations of the job make of
  it, each carried out once, and at most one more than the job has recorded.
\<close>

section \<open>The operations of an attempt\<close>

definition sound :: "operation list \<Rightarrow> odoo \<Rightarrow> odoo \<Rightarrow> job_row \<Rightarrow> bool" where
  "sound ordered od0 od job = (\<exists>k n. recorded ordered k job \<and> (n = k \<or> n = Suc k) \<and> sent_to ordered od0 n od)"

definition sound_world :: "operation list \<Rightarrow> odoo \<Rightarrow> world \<Rightarrow> bool" where
  "sound_world ordered od0 w = sound ordered od0 (settle w) (wd_job w)"

lemma reached_sound: "reached ordered od0 k n w \<Longrightarrow> n = k \<or> n = Suc k \<Longrightarrow> sound_world ordered od0 w"
  by (auto simp: reached_def sound_world_def sound_def settle_def)

lemma stopped_sound:
  assumes su: "set_up digest employees rq src pcs od0 ordered" and k: "k < length ordered" and w: "stopped ordered od0 k w"
  shows "sound_world ordered od0 w"
proof (cases "wd_late w = []")
  case True
  then show ?thesis using w reached_sound by (auto simp: stopped_def reached_def)
next
  case False
  then obtain stamp where late: "wd_late w = [(stamp, write_of (ordered ! k))]" and at_k: "sent_to ordered od0 k (wd_odoo w)"
    and rec: "recorded ordered k (wd_job w)"
    using w by (auto simp: stopped_def)
  obtain i od' where "commit stamp (write_of (ordered ! k)) (wd_odoo w) = Some (i, od')" "sent_to ordered od0 (Suc k) od'"
    by (rule next_sent [OF su k at_k])
  then have "sent_to ordered od0 (Suc k) (settle w)" by (simp add: settle_def late carried_out_def)
  then show ?thesis using rec by (auto simp: sound_world_def sound_def)
qed

lemma quiet_sound:
  assumes "quiet m" "n = k \<or> n = Suc k"
  shows "keeps (reached ordered od0 k n) m (\<lambda>_. sound_world ordered od0) (sound_world ordered od0)"
  by (rule keeps_weaken [OF quiet_reached [OF assms(1)]]) (use reached_sound assms(2) in auto)

lemma pass_sound:
  assumes "quiet m" "n = k \<or> n = Suc k"
  shows "keeps (reached ordered od0 k n) m (\<lambda>_. reached ordered od0 k n) (sound_world ordered od0)"
  by (rule keeps_weaken [OF quiet_reached [OF assms(1)]]) (use reached_sound assms(2) in auto)

lemma quiet_stopped_sound:
  assumes "set_up digest employees rq src pcs od0 ordered" "k < length ordered" "quiet m"
  shows "keeps (stopped ordered od0 k) m (\<lambda>_. sound_world ordered od0) (sound_world ordered od0)"
  by (rule keeps_weaken [OF quiet_stopped [OF assms(3)]]) (use stopped_sound [OF assms(1,2)] in auto)

lemma perform_next:
  assumes su: "set_up digest employees rq src pcs od0 ordered" and k: "k < length ordered" and fence: "quiet_fence fence"
    and sources: "\<And>r. r \<in> set (src (op_employee (ordered ! k))) \<Longrightarrow> source_row_by_id sources (cr_id r) = Inr (canonical_row r)"
    and n: "n = k \<or> n = Suc k"
  shows "keeps (reached ordered od0 k n) (perform_operation fence (ordered ! k) sources) (performed ordered od0 k) (stopped ordered od0 k)"
  using create_next [OF su k fence _ n] change_next [OF su k fence _ sources n] by (auto simp: perform_operation_def)

lemma complete_recorded:
  assumes "complete_reserved_operation claim rv record job = Some job'" and "finished_key record = Some key"
  shows "finished_keys (jb_completed job') = finished_keys (jb_completed job) @ [key]" "jb_status job' = Applying"
proof -
  have "finished_keys (filter (\<lambda>p. \<not> held_by rv p) (jb_completed job)) = finished_keys (jb_completed job)"
    by (rule finished_keys_filter) (use held_unfinished in auto)
  then show "finished_keys (jb_completed job') = finished_keys (jb_completed job) @ [key]" "jb_status job' = Applying"
    using assms by (auto simp: complete_reserved_operation_def may_write_def Let_def split: if_splits)
qed

lemma complete_next:
  assumes k: "k < length ordered"
  shows "keeps (performed ordered od0 k record) (complete_boxed claim record)
    (\<lambda>ok w. if ok then reached ordered od0 (Suc k) (Suc k) w else reached ordered od0 k (Suc k) w) (reached ordered od0 k (Suc k))"
  unfolding keeps_def
proof (intro allI impI)
  fix w assume w: "performed ordered od0 k record w"
  then have rec: "recorded ordered k (wd_job w)" "finished_key record = Some (op_key (ordered ! k))" "reached ordered od0 k (Suc k) w"
    by (auto simp: performed_def reached_def)
  show "case complete_boxed claim record w of
      (Got ok, w') \<Rightarrow> if ok then reached ordered od0 (Suc k) (Suc k) w' else reached ordered od0 k (Suc k) w'
    | (_, w') \<Rightarrow> reached ordered od0 k (Suc k) w'"
  proof (cases "wd_box w")
    case (Some rv)
    show ?thesis
    proof (cases "complete_reserved_operation claim rv record (wd_job w)")
      case None
      then show ?thesis using Some rec by (simp add: complete_boxed_def update_job_def)
    next
      case new: (Some job')
      have "recorded ordered (Suc k) job'"
        using complete_recorded [OF new rec(2)] rec(1) k by (simp add: recorded_def take_Suc_conv_app_nth)
      then show ?thesis using Some new rec(3) by (simp add: complete_boxed_def update_job_def reached_def)
    qed
  qed (use rec in \<open>simp add: complete_boxed_def\<close>)
qed

lemma keeps_reading: "keeps P (reading_job f) (\<lambda>x w. P w \<and> x = f (wd_job w)) E"
  by (simp add: keeps_def reading_job_def)

lemma recorded_key:
  assumes "distinct (map op_key ordered)" "recorded ordered k job" "j < length ordered"
  shows "op_key (ordered ! j) \<in> set (finished_keys (jb_completed job)) \<longleftrightarrow> j < k"
proof -
  have keys: "set (finished_keys (jb_completed job)) = op_key ` set (take k ordered)" using assms(2) by (simp add: recorded_def)
  have set: "set (take k ordered) = {ordered ! i | i. i < k}"
  proof -
    have "set (take k ordered) = (!) ordered ` {0..<k}" using assms(2) by (simp add: nth_image recorded_def)
    then show ?thesis by auto
  qed
  have same: "i = j" if "op_key (ordered ! i) = op_key (ordered ! j)" "i < length ordered" for i
    using nth_eq_iff_index_eq [OF assms(1), of i j] that assms(3) by simp
  have "k \<le> length ordered" using assms(2) by (simp add: recorded_def)
  then show ?thesis unfolding keys set using same by (auto simp: image_iff)
qed

lemma skip_finished:
  assumes keys: "distinct (map op_key ordered)" and j: "j < k" "k \<le> length ordered" and m: "keeps (reached ordered od0 k n) m Q E"
  shows "keeps (reached ordered od0 k n) (apply_operation saved claim now (ordered ! j) m) Q E"
  unfolding apply_operation_def
proof (rule keeps_and_then [OF keeps_reading])
  fix x
  show "keeps (\<lambda>w. reached ordered od0 k n w \<and> x = (op_key (ordered ! j) \<in> set (finished_keys (jb_completed (wd_job w))), claim_is_current claim (wd_job w)))
    (case x of (already, current) \<Rightarrow>
       if already then m
       else if \<not> current then give Superseded
       else catch (reserve claim (ordered ! j)) (\<lambda>e. if e = Stale_Claim then give Superseded else raise e) (\<lambda>_.
         catch (perform_operation (renew claim) (ordered ! j) (sj_sources saved (op_employee (ordered ! j))))
           (\<lambda>e. box_until (\<lambda>until. on_failure claim False (max (retry_at (cl_attempt claim) now) until) e))
           (\<lambda>entry. and_then (complete_boxed claim entry) (\<lambda>ok. if ok then m else give Superseded)))) Q E"
  proof (cases "fst x")
    case True
    then show ?thesis using m by (auto intro: keeps_weaken split: prod.split)
  next
    case False
    have "\<not> (reached ordered od0 k n w \<and> x = (op_key (ordered ! j) \<in> set (finished_keys (jb_completed (wd_job w))), claim_is_current claim (wd_job w)))" for w
      using recorded_key [OF keys, of k "wd_job w" j] j False by (auto simp: reached_def)
    then show ?thesis by (rule keeps_absurd)
  qed
qed

lemma apply_next:
  assumes su: "set_up digest employees rq src pcs od0 ordered" and k: "k < length ordered"
    and sources: "\<And>r. r \<in> set (src (op_employee (ordered ! k))) \<Longrightarrow>
      source_row_by_id (sj_sources saved (op_employee (ordered ! k))) (cr_id r) = Inr (canonical_row r)"
    and n: "n = k \<or> n = Suc k"
    and m: "keeps (reached ordered od0 (Suc k) (Suc k)) m (\<lambda>_. sound_world ordered od0) (sound_world ordered od0)"
  shows "keeps (reached ordered od0 k n) (apply_operation saved claim now (ordered ! k) m) (\<lambda>_. sound_world ordered od0) (sound_world ordered od0)"
proof -
  let ?X = "ordered ! k" and ?ok = "sound_world ordered od0"
  have recorded: "keeps (performed ordered od0 k entry) (and_then (complete_boxed claim entry) (\<lambda>ok. if ok then m else give Superseded)) (\<lambda>_. ?ok) ?ok" for entry
  proof -
    have start: "keeps (performed ordered od0 k entry) (complete_boxed claim entry)
        (\<lambda>ok w. if ok then reached ordered od0 (Suc k) (Suc k) w else reached ordered od0 k (Suc k) w) ?ok"
      by (rule keeps_weaken [OF complete_next [OF k]]) (auto intro: reached_sound)
    have step: "keeps (\<lambda>w. if ok then reached ordered od0 (Suc k) (Suc k) w else reached ordered od0 k (Suc k) w)
        (if ok then m else give Superseded) (\<lambda>_. ?ok) ?ok" for ok
      using m by (auto intro: keeps_give reached_sound)
    show ?thesis by (rule keeps_and_then [OF start step])
  qed
  have sends: "keeps (reached ordered od0 k n) (catch (perform_operation (renew claim) ?X (sj_sources saved (op_employee ?X)))
           (\<lambda>e. box_until (\<lambda>until. on_failure claim False (max (retry_at (cl_attempt claim) now) until) e))
           (\<lambda>entry. and_then (complete_boxed claim entry) (\<lambda>ok. if ok then m else give Superseded))) (\<lambda>_. ?ok) ?ok"
    by (rule keeps_catch [OF perform_next [OF su k quiet_renew sources n] recorded])
      (auto intro: quiet_stopped_sound [OF su k] quiet_steps stopped_sound [OF su k])
  have held: "keeps (reached ordered od0 k n) (catch (reserve claim ?X) (\<lambda>e. if e = Stale_Claim then give Superseded else raise e) (\<lambda>_.
         catch (perform_operation (renew claim) ?X (sj_sources saved (op_employee ?X)))
           (\<lambda>e. box_until (\<lambda>until. on_failure claim False (max (retry_at (cl_attempt claim) now) until) e))
           (\<lambda>entry. and_then (complete_boxed claim entry) (\<lambda>ok. if ok then m else give Superseded)))) (\<lambda>_. ?ok) ?ok"
    by (rule keeps_catch [OF quiet_reached [OF quiet_reserve] sends])
      (auto intro: keeps_give keeps_raise reached_sound [OF _ n])
  show ?thesis unfolding apply_operation_def
  proof (rule keeps_and_then [OF keeps_reading])
    fix x
    show "keeps (\<lambda>w. reached ordered od0 k n w \<and> x = (op_key ?X \<in> set (finished_keys (jb_completed (wd_job w))), claim_is_current claim (wd_job w)))
      (case x of (already, current) \<Rightarrow>
         if already then m
         else if \<not> current then give Superseded
         else catch (reserve claim ?X) (\<lambda>e. if e = Stale_Claim then give Superseded else raise e) (\<lambda>_.
           catch (perform_operation (renew claim) ?X (sj_sources saved (op_employee ?X)))
             (\<lambda>e. box_until (\<lambda>until. on_failure claim False (max (retry_at (cl_attempt claim) now) until) e))
             (\<lambda>entry. and_then (complete_boxed claim entry) (\<lambda>ok. if ok then m else give Superseded)))) (\<lambda>_. ?ok) ?ok"
    proof (cases "fst x")
      case True
      have "\<not> (reached ordered od0 k n w \<and> x = (op_key ?X \<in> set (finished_keys (jb_completed (wd_job w))), claim_is_current claim (wd_job w)))" for w
        using recorded_key [OF set_upD(3) [OF su], of k "wd_job w" k] k True by (auto simp: reached_def)
      then show ?thesis by (rule keeps_absurd)
    next
      case False
      then show ?thesis using held by (cases x) (auto intro: keeps_give keeps_weaken reached_sound [OF _ n])
    qed
  qed
qed

section \<open>A whole attempt\<close>

definition same_sources :: "(int \<Rightarrow> correction_row list) \<Rightarrow> saved_job \<Rightarrow> operation list \<Rightarrow> bool" where
  "same_sources src saved ordered =
     (\<forall>X \<in> set ordered. \<forall>r \<in> set (src (op_employee X)). source_row_by_id (sj_sources saved (op_employee X)) (cr_id r) = Inr (canonical_row r))"

lemma apply_all:
  assumes su: "set_up digest employees rq src pcs od0 ordered" and sources: "same_sources src saved ordered"
    and m: "keeps (reached ordered od0 (length ordered) (length ordered)) m (\<lambda>_. sound_world ordered od0) (sound_world ordered od0)"
  shows "j \<le> k \<Longrightarrow> k \<le> length ordered \<Longrightarrow> n = k \<or> n = Suc k \<Longrightarrow>
    keeps (reached ordered od0 k n) (apply_operations saved claim now (drop j ordered) m) (\<lambda>_. sound_world ordered od0) (sound_world ordered od0)"
proof (induction "length ordered - j" arbitrary: j k n)
  case 0
  then have at_end: "k = length ordered" "drop j ordered = []" by simp_all
  show ?case
  proof (cases "n = k")
    case True
    then show ?thesis using m at_end by simp
  next
    case False
    then have "\<not> reached ordered od0 k n w" for w using at_end 0 by (auto simp: reached_def sent_to_def)
    then show ?thesis by (rule keeps_absurd)
  qed
next
  case (Suc d)
  then have j: "j < length ordered" "d = length ordered - Suc j" by simp_all
  then have split: "drop j ordered = ordered ! j # drop (Suc j) ordered" by (simp add: Cons_nth_drop_Suc)
  show ?case
  proof (cases "j = k")
    case True
    have next_one: "keeps (reached ordered od0 (Suc k) (Suc k)) (apply_operations saved claim now (drop (Suc j) ordered) m)
        (\<lambda>_. sound_world ordered od0) (sound_world ordered od0)"
      by (rule Suc.hyps(1) [OF j(2)]) (use True j in simp_all)
    have k: "k < length ordered" using True j by simp
    have "keeps (reached ordered od0 k n) (apply_operation saved claim now (ordered ! k) (apply_operations saved claim now (drop (Suc k) ordered) m))
        (\<lambda>_. sound_world ordered od0) (sound_world ordered od0)"
      by (rule apply_next [OF su k _ Suc.prems(3) next_one [unfolded True]])
        (use sources nth_mem [OF k] in \<open>unfold same_sources_def, blast\<close>)
    then show ?thesis using split True by simp
  next
    case False
    then have "j < k" "Suc j \<le> k" using Suc.prems(1) by simp_all
    from skip_finished [OF set_upD(3) [OF su] this(1) Suc.prems(2) Suc.hyps(1) [OF j(2) this(2) Suc.prems(2,3)]]
    show ?thesis unfolding split apply_operations.simps .
  qed
qed

lemma apply_stage_sound:
  assumes su: "set_up digest employees rq src pcs od0 ordered" and sources: "same_sources src saved ordered"
    and kn: "k \<le> length ordered" "n = k \<or> n = Suc k" and rest: "quiet rest"
  shows "keeps (reached ordered od0 k n) (apply_stage facts saved claim now ordered rest) (\<lambda>_. sound_world ordered od0) (sound_world ordered od0)"
proof -
  let ?ok = "sound_world ordered od0" and ?full = "reached ordered od0 (length ordered) (length ordered)"
  have verifying: "keeps ?full (update_job (transition claim (Some Verifying) None False)) (\<lambda>_. ?full) ?ok"
    by (auto simp: keeps_def update_job_def reached_def recorded_def transition_def split: option.splits if_splits)
  have finish: "keeps ?full (and_then (update_job (transition claim (Some Verifying) None False)) (\<lambda>ok. if ok then rest else give Superseded)) (\<lambda>_. ?ok) ?ok"
    by (rule keeps_and_then [OF verifying quiet_sound]) (auto intro: quiet_steps rest)
  have writes: "keeps (reached ordered od0 k n) (apply_operations saved claim now ordered
      (and_then (update_job (transition claim (Some Verifying) None False)) (\<lambda>ok. if ok then rest else give Superseded))) (\<lambda>_. ?ok) ?ok"
    using apply_all [OF su sources finish, of 0 k n] kn by simp
  have failed: "keeps (reached ordered od0 k n) (on_failure claim mismatch retry e) (\<lambda>_. ?ok) ?ok" for mismatch retry e
    by (rule quiet_sound [OF quiet_on_failure kn(2)])
  show ?thesis unfolding apply_stage_def Let_def
    by (intro keeps_catch [OF quiet_reached [OF quiet_targets [OF quiet_heartbeat]] _ failed]
        keeps_catch [OF quiet_reached [OF quiet_preflight [OF quiet_heartbeat]] writes failed])
      (auto intro: reached_sound [OF _ kn(2)])
qed

lemma process_claim_sound:
  assumes su: "set_up digest employees rq src pcs od0 ordered" and sources: "same_sources src saved ordered"
    and order: "ordered_operations (all_sources saved) (all_operations saved) = Inr ordered"
    and kn: "k \<le> length ordered" "n = k \<or> n = Suc k"
  shows "keeps (reached ordered od0 k n) (process_claim facts saved claim now) (\<lambda>_. sound_world ordered od0) (sound_world ordered od0)"
proof -
  let ?ok = "sound_world ordered od0"
  have rest: "quiet (verify_stage saved claim now (finish_stage claim now days))" for days by (intro quiet_steps)
  have stage: "keeps (reached ordered od0 k n) (if status = Applying then apply_stage facts saved claim now ordered
      (verify_stage saved claim now (finish_stage claim now days)) else verify_stage saved claim now (finish_stage claim now days)) (\<lambda>_. ?ok) ?ok" for status days
    using apply_stage_sound [OF su sources kn rest] quiet_sound [OF rest kn(2)] by simp
  have horizon: "quiet (update_job (complete_record claim (Horizon days)))" for days by (intro quiet_steps) simp
  have loaded: "keeps (reached ordered od0 k n) (and_then (update_job (complete_record claim (Horizon days))) (\<lambda>ok.
       if \<not> ok then give Superseded
       else if status = Applying then apply_stage facts saved claim now ordered (verify_stage saved claim now (finish_stage claim now days))
       else verify_stage saved claim now (finish_stage claim now days))) (\<lambda>_. ?ok) ?ok" for status days
  proof -
    have step: "keeps (reached ordered od0 k n) (if \<not> ok then give Superseded
       else if status = Applying then apply_stage facts saved claim now ordered (verify_stage saved claim now (finish_stage claim now days))
       else verify_stage saved claim now (finish_stage claim now days)) (\<lambda>_. ?ok) ?ok" for ok
      using stage quiet_sound [OF quiet_give kn(2)] by auto
    show ?thesis by (rule keeps_and_then [OF pass_sound [OF horizon kn(2)] step])
  qed
  have none: "keeps (reached ordered od0 k n) (fail_job claim False) (\<lambda>_. ?ok) ?ok" by (rule quiet_sound [OF quiet_fail_job kn(2)])
  have same: "ordered' = ordered" if "load_job facts saved now job = Some (ordered', days)" for job ordered' days
    using that order by (auto simp: load_job_def Let_def split: if_splits)
  show ?thesis unfolding process_claim_def
  proof (rule keeps_and_then [OF keeps_reading])
    fix x
    show "keeps (\<lambda>w. reached ordered od0 k n w \<and> x = (load_job facts saved now (wd_job w), jb_status (wd_job w)))
      (case x of (loaded, status) \<Rightarrow>
         case loaded of None \<Rightarrow> fail_job claim False
         | Some (ordered, days) \<Rightarrow>
             and_then (update_job (complete_record claim (Horizon days))) (\<lambda>ok.
               if \<not> ok then give Superseded
               else (let rest = verify_stage saved claim now (finish_stage claim now days)
                  in if status = Applying then apply_stage facts saved claim now ordered rest else rest))) (\<lambda>_. ?ok) ?ok"
    proof (cases "fst x")
      case None
      then show ?thesis using none by (cases x) (auto intro: keeps_weaken)
    next
      case (Some plan)
      obtain ordered' days where plan: "plan = (ordered', days)" by fastforce
      show ?thesis
      proof (cases "ordered' = ordered")
        case True
        obtain status where x: "x = (Some (ordered, days), status)" using Some plan True by (cases x) simp
        show ?thesis unfolding x prod.case option.case Let_def by (rule keeps_weaken [OF loaded]) simp_all
      next
        case False
        have "\<not> (reached ordered od0 k n w \<and> x = (load_job facts saved now (wd_job w), jb_status (wd_job w)))" for w
          using same Some plan False by auto
        then show ?thesis by (rule keeps_absurd)
      qed
    qed
  qed
qed

section \<open>Any number of attempts\<close>

text \<open>Nobody else writes to Odoo; the clock, the calls, the mapping and the roster are whatever they are.\<close>

inductive attempted :: "saved_job \<Rightarrow> odoo \<times> job_row \<Rightarrow> odoo \<times> job_row \<Rightarrow> bool" for saved where
  no_attempt: "attempted saved s s"
| one_more: "attempted saved s (od, job) \<Longrightarrow> process_job facts saved now ticks (od, job) = (verdict, s') \<Longrightarrow> attempted saved s s'"

lemma attempt_sound:
  assumes su: "set_up digest employees rq src pcs od0 ordered" and sources: "same_sources src saved ordered"
    and order: "ordered_operations (all_sources saved) (all_operations saved) = Inr ordered"
    and before: "sound ordered od0 od job" and run: "process_job facts saved now ticks (od, job) = (verdict, od', job')"
  shows "sound ordered od0 od' job'"
proof (cases "claim_job now job")
  case None
  then show ?thesis using before run by (auto simp: process_job_def)
next
  case (Some c)
  obtain claim claimed where c: "c = (claim, claimed)" by fastforce
  obtain k n where kn: "recorded ordered k job" "n = k \<or> n = Suc k" "sent_to ordered od0 n od" using before by (auto simp: sound_def)
  have "recorded ordered k claimed"
    using kn(1) Some c by (auto simp: claim_job_def recorded_def split: if_splits)
  let ?w = "\<lparr>wd_odoo = od, wd_late = [], wd_job = claimed, wd_box = None, wd_ticks = ticks\<rparr>"
  have start: "reached ordered od0 k n ?w" using kn(3) \<open>recorded ordered k claimed\<close> by (simp add: reached_def)
  have k: "k \<le> length ordered" using kn(1) by (simp add: recorded_def)
  obtain a w' where step: "process_claim facts saved claim now ?w = (a, w')" by fastforce
  have "sound_world ordered od0 w'"
    using process_claim_sound [OF su sources order k kn(2), of facts claim now] start step unfolding keeps_def
    by (cases a) (metis (mono_tags, lifting) answer.case prod.case)+
  then show ?thesis using run Some c step by (simp add: process_job_def sound_world_def)
qed

lemma attempts_sound:
  assumes su: "set_up digest employees rq src pcs od0 ordered" and sources: "same_sources src saved ordered"
    and order: "ordered_operations (all_sources saved) (all_operations saved) = Inr ordered"
    and att: "attempted saved (od0, job0) s" and start: "jb_status job0 = Planned" "jb_completed job0 = []"
  shows "sound ordered od0 (fst s) (snd s)"
  using att
proof (induction "(od0, job0)" s rule: attempted.induct)
  case no_attempt
  have "recorded ordered 0 job0" using start by (simp add: recorded_def)
  moreover have "sent_to ordered od0 0 od0" by (simp add: sent_to_def)
  ultimately show ?case unfolding sound_def by auto
next
  case (one_more od job facts now ticks verdict s')
  then show ?case using attempt_sound [OF su sources order] by (cases s') auto
qed

end
