(* ===== verification/Correction_Job_Claims.thy ===== *)
theory Correction_Job_Claims
  imports Correction_Attempts Correction_Claims
begin

text \<open>
  The properties of correction jobs: the order of the writes, and what any number of attempts leaves in
  Odoo. The witness moves an employee to another center for an hour, beside a later row of the same day.
\<close>

section \<open>The job of planned corrections\<close>

definition saves ::
    "(pyvalue \<Rightarrow> string) \<Rightarrow> saved_job \<Rightarrow> int list \<Rightarrow> request \<Rightarrow> (int \<Rightarrow> correction_row list) \<Rightarrow> (int \<Rightarrow> piece list) \<Rightarrow> bool" where
  "saves digest saved employees rq src pcs =
     (sj_employees saved = employees \<and>
      (\<forall>e \<in> set employees. sj_sources saved e = sort_key at_id (map canonical_row (src e)) \<and>
         sj_plans saved e = planned_correction digest e rq (src e) (pcs e)))"

lemma saved_sources: "saves digest saved employees rq src pcs \<Longrightarrow> all_sources saved = job_snapshot employees src"
  unfolding all_sources_def job_snapshot_def saves_def by (rule arg_cong [of _ _ concat]) simp

lemma saved_operations:
  assumes "saves digest saved employees rq src pcs"
  shows "mset (all_operations saved) = mset (job_writes digest employees rq src pcs)"
proof -
  have "mset (concat (map (\<lambda>e. pl_operations (sj_plans saved e)) es)) = mset (concat (map (\<lambda>e. planned_writes digest (request_values e rq) e (src e) (pcs e)) es))"
    if "set es \<subseteq> set employees" for es
    using that assms by (induction es) (auto simp: saves_def planned_correction_def)
  then show ?thesis using assms by (simp add: all_operations_def job_writes_def saves_def)
qed

lemma saved_order:
  assumes prep: "prepared employees rq src pcs od" and saved: "saves digest saved employees rq src pcs"
  obtains ordered where "ordered_operations (all_sources saved) (all_operations saved) = Inr ordered"
    "mset ordered = mset (all_operations saved)" "planned_order digest employees rq src pcs ordered"
proof -
  have "set (all_operations saved) = set (job_writes digest employees rq src pcs)" using mset_eq_setD [OF saved_operations [OF saved]] .
  then obtain ordered where "ordered_operations (job_snapshot employees src) (all_operations saved) = Inr ordered"
    "mset ordered = mset (all_operations saved)" "in_phases (job_snapshot employees src) ordered"
    using ordered_phases [of "all_operations saved" "job_snapshot employees src"] write_phase_total [OF prep] by metis
  then show ?thesis using that saved_sources [OF saved] saved_operations [OF saved] by (simp add: planned_order_def)
qed

lemma saved_same_sources:
  assumes prep: "prepared employees rq src pcs od" and saved: "saves digest saved employees rq src pcs"
    and ord: "planned_order digest employees rq src pcs ordered"
  shows "same_sources src saved ordered"
  unfolding same_sources_def
proof (intro ballI)
  fix X r assume X: "X \<in> set ordered" and r: "r \<in> set (src (op_employee X))"
  let ?e = "op_employee X"
  have e: "?e \<in> set employees" using X planned_orderD(1) [OF ord prep] job_writes_member(1) [OF _ prep] by blast
  then have "prepared [?e] rq src pcs od" using prep by (simp add: prepared_def list_all_iff)
  from snapshot_prepared [OF this, of ?e] have "snapshot_of (src ?e) (sort_key at_id (map canonical_row (src ?e)))"
    by (simp add: job_snapshot_def)
  moreover have "sj_sources saved ?e = sort_key at_id (map canonical_row (src ?e))" using saved e by (simp add: saves_def)
  ultimately show "source_row_by_id (sj_sources saved ?e) (cr_id r) = Inr (canonical_row r)" using r by (simp add: snapshot_of_def)
qed

section \<open>A small job\<close>

definition job_request :: request where
  "job_request = \<lparr>rq_start = hour 10, rq_end = Some (hour 12), rq_work_center = 7, rq_department = Some 2, rq_merge = False\<rparr>"

definition job_source :: correction_row where
  "job_source = demo_source 11 (hour 8) (Some (hour 12)) 3"

definition job_sources :: "correction_row list" where
  "job_sources = [job_source]"

definition job_pieces :: "piece list" where
  "job_pieces =
     [piece_from_source job_source (hour 8) (Some (hour 10)) (Some 11), target_piece job_request None (hour 10) (Some (hour 12)) [job_source]]"

text \<open>A digest that tells the operation on the row from the new one.\<close>

definition job_digest :: "pyvalue \<Rightarrow> string" where
  "job_digest v = (case v of PyMap d \<Rightarrow> if field d ''attendance_id'' = PyNone then ''new'' else ''row'' | _ \<Rightarrow> [])"

definition job_odoo :: odoo where
  "job_odoo = \<lparr>od_rows = map canonical_row demo_sources, od_next = 100\<rparr>"

definition job_saved :: saved_job where
  "job_saved =
     \<lparr>sj_employees = [5], sj_start = rq_start job_request, sj_end = rq_end job_request, sj_target = 7,
      sj_sources = (\<lambda>_. sort_key at_id (map canonical_row job_sources)),
      sj_plans = (\<lambda>_. planned_correction job_digest 5 job_request job_sources job_pieces)\<rparr>"

definition new_job :: job_row where
  "new_job = \<lparr>jb_status = Planned, jb_attempts = 0, jb_updated = 0, jb_completed = [], jb_mismatches = 0, jb_quick_punch = False\<rparr>"

definition job_facts :: facts where
  "job_facts = \<lparr>fc_target = Some (7, 2), fc_active = [5], fc_day = (\<lambda>t. t div (24 * hour 1))\<rparr>"

definition ticks_of :: "datetime \<Rightarrow> reply list \<Rightarrow> tick list" where
  "ticks_of now = map (\<lambda>r. \<lparr>tk_now = now, tk_token = ''w'', tk_reply = r\<rparr>)"

text \<open>The first write is carried out although its answer is lost, and Odoo is away afterwards.\<close>

definition lost_answer :: "tick list" where
  "lost_answer = ticks_of (hour 21) (replicate 7 (Answered (hour 21)) @ [Timed_Out (hour 21), Refused])"

definition no_trouble :: "tick list" where
  "no_trouble = ticks_of (hour 22) (replicate 20 (Answered (hour 22)))"

lemma job_planning: "planning 5 job_request job_sources job_pieces"
proof (rule planning_inputs)
  show "check_request (PyInt 5) (of_time (hour 10)) (of_time (hour 12)) (PyInt 7) (PyInt 2) (PyBool False) = Inr (5, job_request)"
    by code_simp
  show "\<forall>v \<in> set [shift_raw 11 (hour 8) (of_time (hour 12)) 3]. value_ok v" by code_simp
  show "normalize_source_rows [shift_raw 11 (hour 8) (of_time (hour 12)) 3] 5 = Inr job_sources" by code_simp
  show "pieces_for_request job_request job_sources = Inr job_pieces" by code_simp
qed

lemma job_prepared: "prepared [5] job_request (\<lambda>_. job_sources) (\<lambda>_. job_pieces) job_odoo"
proof -
  have "odoo_ok job_odoo" by code_simp
  moreover have "whole (rq_start job_request) \<and> at_end_too whole (rq_end job_request)" by code_simp
  moreover have "map canonical_row job_sources = fetch_employee_rows job_odoo 5 (rq_start job_request) (rq_end job_request)"
    by code_simp
  ultimately show ?thesis using job_planning by (simp add: prepared_def)
qed

lemma job_saves: "saves job_digest job_saved [5] job_request (\<lambda>_. job_sources) (\<lambda>_. job_pieces)"
  by (simp add: saves_def job_saved_def)

lemma job_pending:
  "operations_for_pieces job_sources job_pieces 5 =
     [\<lparr>po_kind = Update, po_attendance_id = Some 11, po_employee = 5, po_before = Some [(k_check_out, of_end (Some (hour 12)))],
       po_after = Some [(k_check_out, of_end (Some (hour 10)))], po_sources = [job_source], po_effective_start = hour 8\<rparr>,
      \<lparr>po_kind = Create, po_attendance_id = None, po_employee = 5, po_before = None,
       po_after = Some (mutable_values 5 (hour 10) (Some (hour 12)) (Some 7) (Some 2)), po_sources = [job_source],
       po_effective_start = hour 10\<rparr>]"
  by code_simp

lemma job_key:
  assumes po: "po \<in> set (operations_for_pieces job_sources job_pieces 5)"
  shows "key_of job_digest (request_values 5 job_request) po =
    key_prefix @ source_token (po_sources po) @ '':'' @ (if po_attendance_id po = None then ''new'' else ''row'')"
proof -
  let ?rq = "request_values 5 job_request"
  have run: "operation_key_value (PyMap (identity_dict ?rq po)) = Inr (identity_of ?rq po)"
    by (rule identity_value [OF job_planning po])
  then obtain w where w: "identity_of ?rq po = PyMap w" using key_value_map by blast
  have "map_of w ''attendance_id'' = Some (projr (operation_key_value (of_id (po_attendance_id po))))"
    using key_value_lookup [OF identity_dict_facts(1), of ?rq po w "''attendance_id''"] run w by (simp add: identity_dict_facts)
  then show ?thesis by (auto simp: key_of_def job_digest_def w field_def key_value_simps of_id_def split: option.splits)
qed

definition job_operations :: "operation list" where
  "job_operations =
     [\<lparr>op_key = ''attendance-correction-v2:11:row'', op_kind = Update, op_attendance_id = Some 11, op_employee = 5,
       op_before = Some [(k_check_out, of_end (Some (hour 12)))], op_after = Some [(k_check_out, of_end (Some (hour 10)))]\<rparr>,
      \<lparr>op_key = ''attendance-correction-v2:11:new'', op_kind = Create, op_attendance_id = None, op_employee = 5,
       op_before = None, op_after = Some (mutable_values 5 (hour 10) (Some (hour 12)) (Some 7) (Some 2))\<rparr>]"

lemma job_writes_are: "planned_writes job_digest (request_values 5 job_request) 5 job_sources job_pieces = job_operations"
proof -
  have "planned_writes job_digest (request_values 5 job_request) 5 job_sources job_pieces =
      map (\<lambda>po. operation_of (key_prefix @ source_token (po_sources po) @ '':'' @ (if po_attendance_id po = None then ''new'' else ''row'')) po)
        (operations_for_pieces job_sources job_pieces 5)"
    unfolding planned_writes_def by (rule map_cong [OF refl]) (simp add: job_key)
  also have "\<dots> = job_operations" unfolding job_pending by code_simp
  finally show ?thesis .
qed

lemma job_saved_operations: "all_operations job_saved = job_operations"
proof -
  have "sort_key (operation_sort_key (expected_intervals job_pieces 5)) job_operations = job_operations" by code_simp
  then show ?thesis by (simp add: all_operations_def job_saved_def planned_correction_def job_writes_are)
qed

lemma job_keys: "distinct (map op_key (all_operations job_saved))"
  unfolding job_saved_operations by code_simp

text \<open>Two attempts: the first loses its answer, the second finds the write and finishes the job.\<close>

definition job_plan :: plan where
  "job_plan =
     \<lparr>pl_versions = source_versions job_sources, pl_operations = job_operations, pl_expected = expected_intervals job_pieces 5,
      pl_request = request_values 5 job_request, pl_sources = map cr_values job_sources\<rparr>"

lemma job_saved_plain:
  "job_saved =
     \<lparr>sj_employees = [5], sj_start = rq_start job_request, sj_end = rq_end job_request, sj_target = 7,
      sj_sources = (\<lambda>_. sort_key at_id (map canonical_row job_sources)), sj_plans = (\<lambda>_. job_plan)\<rparr>"
proof -
  have "sort_key (operation_sort_key (expected_intervals job_pieces 5)) job_operations = job_operations" by code_simp
  then show ?thesis by (simp add: job_saved_def job_plan_def planned_correction_def job_writes_are)
qed

lemma job_order: "ordered_operations (all_sources job_saved) (all_operations job_saved) = Inr job_operations"
  unfolding job_saved_plain by code_simp

definition row_of :: "int \<Rightarrow> int \<Rightarrow> datetime \<Rightarrow> datetime option \<Rightarrow> int \<Rightarrow> datetime \<Rightarrow> attendance" where
  "row_of e i start fin wc stamp =
     \<lparr>at_id = i, at_employee = e, at_start = start, at_end = fin, at_work_center = Some wc, at_department = Some 2, at_write_date = stamp\<rparr>"

definition halfway_odoo :: odoo where
  "halfway_odoo =
     \<lparr>od_rows = [row_of 5 11 (hour 8) (Some (hour 10)) 3 (hour 21), row_of 5 12 (hour 13) None 4 (hour 20)], od_next = 100\<rparr>"

definition halfway_job :: job_row where
  "halfway_job =
     \<lparr>jb_status = Applying, jb_attempts = 1, jb_updated = hour 21 + claim_lease,
      jb_completed = [Horizon [0], Reserved \<lparr>rv_key = ''attendance-correction-v2:11:row'', rv_token = ''w'', rv_attempt = 1,
        rv_until = hour 21 + claim_lease\<rparr>],
      jb_mismatches = 0, jb_quick_punch = False\<rparr>"

definition finished_job :: job_row where
  "finished_job =
     \<lparr>jb_status = Complete, jb_attempts = 2, jb_updated = hour 22,
      jb_completed = [Horizon [0], Finished ''attendance-correction-v2:11:row'' Update 11, Finished ''attendance-correction-v2:11:new'' Create 100,
        Mirrored, Enqueued [0], Recalculated, Refreshed, Audited],
      jb_mismatches = 0, jb_quick_punch = False\<rparr>"

definition finished_odoo :: odoo where
  "finished_odoo =
     \<lparr>od_rows = [row_of 5 11 (hour 8) (Some (hour 10)) 3 (hour 21), row_of 5 12 (hour 13) None 4 (hour 20),
        row_of 5 100 (hour 10) (Some (hour 12)) 7 (hour 22)], od_next = 101\<rparr>"

lemma first_attempt:
  "process_job job_facts job_saved (hour 21) lost_answer (job_odoo, new_job) = (Got (Recoverable (hour 21 + claim_lease)), halfway_odoo, halfway_job)"
  unfolding job_saved_plain by code_simp

lemma second_attempt:
  "process_job job_facts job_saved (hour 22) no_trouble (halfway_odoo, halfway_job) = (Got Job_Complete, finished_odoo, finished_job)"
  unfolding job_saved_plain by code_simp

section \<open>The properties\<close>

text \<open>
  C22. The writes of a job, in the order of \<open>_ordered_operations\<close> (corrections of the rows that shrink,
  then the new rows, the deletions, the rows that grow, and the open row), are all accepted by Odoo,
  whose rows of one employee may never overlap. What Odoo holds in the end is, for each employee of
  the job, the planned pieces beside the rows outside the corrected interval, and nothing of anybody
  else has changed.
\<close>

theorem writes_in_order_reach_the_plan:
  assumes "prepared employees rq src pcs od" and "saves digest saved employees rq src pcs"
  shows "\<exists>ordered od'. ordered_operations (all_sources saved) (all_operations saved) = Inr ordered \<and>
    mset ordered = mset (all_operations saved) \<and> send_all stamp ordered od = Some od' \<and> odoo_ok od' \<and>
    (\<forall>e \<in> set employees. left_alone rq e od \<subseteq> set (od_rows od') \<and>
       at_place ` {a \<in> set (od_rows od'). at_employee a = e} = at_place ` left_alone rq e od \<union> piece_goal e ` set (pcs e)) \<and>
    (\<forall>a. at_employee a \<notin> set employees \<longrightarrow> (a \<in> set (od_rows od') \<longleftrightarrow> a \<in> set (od_rows od)))"
proof -
  obtain ordered where ord: "ordered_operations (all_sources saved) (all_operations saved) = Inr ordered"
    "mset ordered = mset (all_operations saved)" "planned_order digest employees rq src pcs ordered"
    by (rule saved_order [OF assms])
  obtain od' slot where od': "send_all stamp ordered od = Some od'" "holds od pcs slot (set ordered) od'" "odoo_ok od'"
    using sent_part [OF ord(3) assms(1) order.refl, of stamp] by auto
  have h: "holds od pcs slot (set (job_writes digest employees rq src pcs)) od'"
    using od'(2) planned_orderD(1) [OF ord(3) assms(1)] by simp
  show ?thesis using ord(1,2) od'(1,3) left_rows [OF assms(1) h] final_rows [OF assms(1) h] other_employees [OF assms(1) h] by blast
qed

theorem writes_in_order_reach_the_plan_witness:
  "\<exists>od'. send_all (\<lambda>_. hour 21) job_operations job_odoo = Some od' \<and>
     at_place ` {a \<in> set (od_rows od'). at_employee a = 5} =
       {(5, hour 13, None, Some 4, Some 2), (5, hour 8, Some (hour 10), Some 3, Some 2), (5, hour 10, Some (hour 12), Some 7, Some 2)}"
proof -
  obtain ordered od' where od': "ordered_operations (all_sources job_saved) (all_operations job_saved) = Inr ordered"
    "send_all (\<lambda>_. hour 21) ordered job_odoo = Some od'"
    "at_place ` {a \<in> set (od_rows od'). at_employee a = 5} = at_place ` left_alone job_request 5 job_odoo \<union> piece_goal 5 ` set job_pieces"
    using writes_in_order_reach_the_plan [OF job_prepared job_saves, of "\<lambda>_. hour 21"] by auto
  have "ordered = job_operations" using od'(1) job_order by simp
  moreover have "left_alone job_request 5 job_odoo = {canonical_row (demo_source 12 (hour 13) None 4)}"
    by (auto simp: left_alone_def job_odoo_def demo_sources_def demo_source_def canonical_row_def job_request_def hour_def)
  then have "at_place ` left_alone job_request 5 job_odoo = {(5, hour 13, None, Some 4, Some 2)}"
    by (simp add: at_place_def canonical_row_def demo_source_def)
  moreover have "map (piece_goal 5) job_pieces = [(5, hour 8, Some (hour 10), Some 3, Some 2), (5, hour 10, Some (hour 12), Some 7, Some 2)]"
    by code_simp
  then have "piece_goal 5 ` set job_pieces = {(5, hour 8, Some (hour 10), Some 3, Some 2), (5, hour 10, Some (hour 12), Some 7, Some 2)}"
    by (metis list.set_map list.simps(15) set_empty)
  ultimately show ?thesis using od'(2,3) by (intro exI [of _ od']) auto
qed

text \<open>
  C23. However often a job is attempted, and whatever happens to the calls (an answer lost after the
  write was carried out, a write carried out after its worker gave up, a refusal, a worker that dies,
  mappings and rosters that change), Odoo holds exactly what the first writes of the order make of it,
  each carried out once: the recorded ones, and at most the next one. A job past the writes has
  recorded them all.
\<close>

theorem attempts_write_once:
  assumes "prepared employees rq src pcs od0" and "saves digest saved employees rq src pcs"
    and "distinct (map op_key (all_operations saved))"
    and "jb_status job0 = Planned" and "jb_completed job0 = []"
    and "attempted saved (od0, job0) (od, job)"
  shows "\<exists>ordered k n stamp. ordered_operations (all_sources saved) (all_operations saved) = Inr ordered \<and>
    finished_keys (jb_completed job) = map op_key (take k ordered) \<and> k \<le> length ordered \<and>
    (n = k \<or> n = Suc k) \<and> n \<le> length ordered \<and> send_all stamp (take n ordered) od0 = Some od \<and>
    (jb_status job \<in> {Verifying, Recalculating, Complete} \<longrightarrow> k = length ordered)"
proof -
  obtain ordered where ord: "ordered_operations (all_sources saved) (all_operations saved) = Inr ordered"
    "mset ordered = mset (all_operations saved)" "planned_order digest employees rq src pcs ordered"
    by (rule saved_order [OF assms(1,2)])
  have "mset (map op_key ordered) = mset (map op_key (all_operations saved))" using ord(2) by simp
  then have "distinct (map op_key ordered)" using assms(3) mset_eq_imp_distinct_iff by blast
  then have su: "set_up digest employees rq src pcs od0 ordered" using assms(1) ord(3) by (simp add: set_up_def)
  have "sound ordered od0 od job"
    using attempts_sound [OF su saved_same_sources [OF assms(1,2) ord(3)] ord(1) assms(6,4,5)] by simp
  then show ?thesis using ord(1) by (auto simp: sound_def recorded_def sent_to_def late_status_def)
qed

theorem attempts_write_once_witness:
  "jb_status finished_job = Complete \<and> (\<exists>stamp. send_all stamp job_operations job_odoo = Some finished_odoo)"
proof -
  have "attempted job_saved (job_odoo, new_job) (halfway_odoo, halfway_job)"
    by (rule one_more [OF no_attempt first_attempt])
  then have att: "attempted job_saved (job_odoo, new_job) (finished_odoo, finished_job)" by (rule one_more [OF _ second_attempt])
  have new: "jb_status new_job = Planned" "jb_completed new_job = []" and complete: "jb_status finished_job = Complete"
    by (simp_all add: new_job_def finished_job_def)
  obtain k n stamp where "(n = k \<or> n = Suc k)" "n \<le> length job_operations" "send_all stamp (take n job_operations) job_odoo = Some finished_odoo"
    "k = length job_operations"
    using attempts_write_once [OF job_prepared job_saves job_keys new att] complete job_order by auto
  then have "send_all stamp job_operations job_odoo = Some finished_odoo" by auto
  then show ?thesis using complete by blast
qed

section \<open>Findings\<close>

text \<open>
  A quick-punch job at its attempt limit fails although its write has shortened a row: it counts the
  recorded writes, and the answer of this one is lost.
\<close>

lemma quick_punch_job_stops_halfway:
  "case process_job job_facts job_saved (hour 21) lost_answer (job_odoo, new_job\<lparr>jb_quick_punch := True, jb_attempts := 5\<rparr>) of
     (answer, od, job) \<Rightarrow> answer = Got Job_Failed \<and> jb_status job = Failed \<and> od = halfway_odoo"
  unfolding job_saved_plain by code_simp

text \<open>The new row of a piece without a work center is never sent, whatever Odoo would answer.\<close>

lemma remainder_without_center_is_never_sent:
  assumes "op_kind oper = Create" "op_after oper = Some (piece_mutable_values p e)" "pc_work_center p = None"
  shows "deliver reply (write_of oper) w = (Raised Other_Failure, w)"
  using assms by (simp add: deliver_def sendable_def write_of_def given_def Let_def piece_values full_read)

end
