(* ===== verification/Quick_Punch.thy ===== *)
theory Quick_Punch
  imports Complex_Main Plant_Prelude
begin

text \<open>
  Quick sign-out and sign-in mistakes merged into continuous stints (\<open>quick_punch_smoothing.py\<close>):
  the came-back rule run to its fixed point, then the wrong-first-pick rule, person by person.
\<close>

section \<open>Meter readings\<close>

text \<open>
  A meter sample as the code inspects it: its time is a timezone-aware \<open>datetime\<close> or something else, its
  units are a Boolean, a finite number, a number that is not finite or no number, and an item that
  does not unpack into two raises. \<open>None\<close> for the samples: they are not iterable.
\<close>

datatype units = Truth bool | Number rat | Not_Finite | Not_A_Number

datatype sample_time = Aware datetime | Not_Aware

datatype sample = Sample sample_time units | Not_A_Pair

fun sample_pallets :: "sample list \<Rightarrow> datetime list option" where
  "sample_pallets [] = Some []"
| "sample_pallets (Sample (Aware t) (Number u) # samples) =
     (case sample_pallets samples of
        None \<Rightarrow> None
      | Some pallets \<Rightarrow> Some (if u > 0 then t # pallets else pallets))"
| "sample_pallets (_ # samples) = None"

definition pallet_times :: "sample list option \<Rightarrow> datetime list option" where
  "pallet_times samples = (case samples of None \<Rightarrow> None | Some ss \<Rightarrow> sample_pallets ss)"

definition production_times_from_samples ::
    "(string \<times> sample list option) list \<Rightarrow> (string \<times> datetime list) list" where
  "production_times_from_samples samples_by_wc =
     List.map_filter (\<lambda>(wc, samples). map_option (Pair wc) (pallet_times samples)) samples_by_wc"

fun well_read :: "sample \<Rightarrow> bool" where
  "well_read (Sample (Aware t) (Number u)) = True"
| "well_read _ = False"

fun pallet_time :: "sample \<Rightarrow> datetime option" where
  "pallet_time (Sample (Aware t) (Number u)) = (if u > 0 then Some t else None)"
| "pallet_time _ = None"

lemma sample_pallets_eq:
  "sample_pallets samples =
     (if list_all well_read samples then Some (List.map_filter pallet_time samples) else None)"
  by (induction samples rule: sample_pallets.induct) (simp_all add: List.map_filter_def)

lemma map_of_production_times:
  assumes "distinct (map fst samples_by_wc)"
  shows "map_of (production_times_from_samples samples_by_wc) wc = Option.bind (map_of samples_by_wc wc) pallet_times"
  using assms
proof (induction samples_by_wc)
  case (Cons x xs)
  have "map_of (production_times_from_samples xs) wc = None" if "wc \<notin> fst ` set xs"
  proof -
    from that have "map_of xs wc = None" by (simp add: map_of_eq_None_iff)
    then show ?thesis using Cons by simp
  qed
  then show ?case using Cons
    by (cases x) (auto simp: production_times_from_samples_def List.map_filter_def split: option.splits)
qed (simp add: production_times_from_samples_def List.map_filter_def)

section \<open>Stints\<close>

text \<open>\<open>WorkSegment\<close> of \<open>assignment_windows.py\<close>\<close>

record work_segment =
  ws_wc :: string
  ws_person :: string
  ws_start :: datetime
  ws_end :: datetime
  ws_source :: string
  ws_person_id :: "int option"

datatype person_key = By_Id int | By_Name string

type_synonym stint = "nat \<times> work_segment"

definition person_key_of :: "work_segment \<Rightarrow> person_key" where
  "person_key_of s = (case ws_person_id s of Some i \<Rightarrow> By_Id i | None \<Rightarrow> By_Name (ws_person s))"

text \<open>What the rules consult: meter data, the input segments by station, the metered stations, the limit.\<close>

record smoothing =
  sm_times :: "(string \<times> datetime list) list option"
  sm_by_wc :: "(string \<times> work_segment list) list"
  sm_metered :: "string list option"
  sm_limit :: timedelta

definition quick_punch_limit :: timedelta where
  "quick_punch_limit = minutes 5"

definition in_metered_scope :: "smoothing \<Rightarrow> string \<Rightarrow> bool" where
  "in_metered_scope c wc = (case sm_metered c of None \<Rightarrow> True | Some names \<Rightarrow> wc \<in> set names)"

definition crosses_blocked :: "datetime \<Rightarrow> datetime \<Rightarrow> (datetime \<times> datetime) list \<Rightarrow> bool" where
  "crosses_blocked left right blocked =
     (left < right \<and> list_ex (\<lambda>(s, e). s < right \<and> e > left) blocked)"

text \<open>The input segments of other people at a station.\<close>

definition others_at :: "smoothing \<Rightarrow> person_key \<Rightarrow> string \<Rightarrow> work_segment list" where
  "others_at c key wc = filter (\<lambda>s. person_key_of s \<noteq> key) (dict_get (sm_by_wc c) wc [])"

definition was_relieved :: "smoothing \<Rightarrow> work_segment \<Rightarrow> work_segment \<Rightarrow> bool" where
  "was_relieved c cur cand =
     list_ex (\<lambda>s. ws_start s < ws_start cand \<and> ws_end s > ws_end cur
                \<and> \<not> (ws_start s < ws_end cur \<and> ws_end s > ws_start cand))
       (others_at c (person_key_of cur) (ws_wc cur))"

definition first_pick_takes_over_someone :: "smoothing \<Rightarrow> work_segment \<Rightarrow> work_segment \<Rightarrow> bool" where
  "first_pick_takes_over_someone c cur following =
     list_ex (\<lambda>s. ws_start s < ws_start following \<and> ws_end s > ws_start cur
                \<and> \<not> (ws_start s \<le> ws_start cur \<and> ws_end s > ws_start following))
       (others_at c (person_key_of cur) (ws_wc following))"

definition pallets_during :: "smoothing \<Rightarrow> work_segment \<Rightarrow> datetime list option" where
  "pallets_during c s =
     (case sm_times c of
        None \<Rightarrow> None
      | Some by_wc \<Rightarrow>
          map_option (filter (\<lambda>t. ws_start s \<le> t \<and> t < ws_end s)) (map_of by_wc (ws_wc s)))"

definition station_was_idle :: "smoothing \<Rightarrow> work_segment \<Rightarrow> bool" where
  "station_was_idle c s = (pallets_during c s = Some [])"

definition has_orphaned_pallets :: "smoothing \<Rightarrow> work_segment \<Rightarrow> bool" where
  "has_orphaned_pallets c s =
     (case pallets_during c s of
        None \<Rightarrow> False
      | Some pallets \<Rightarrow>
          list_ex (\<lambda>t. \<not> list_ex (\<lambda>x. ws_start x \<le> t \<and> t < ws_end x)
                        (others_at c (person_key_of s) (ws_wc s))) pallets)"

section \<open>Came back\<close>

text \<open>
  The scan of \<open>_came_back_match\<close> for the first later stint at the same station: \<open>skipped\<close> holds the
  stints in between; the result splits the rest into what is absorbed and what remains.
\<close>

fun came_back_scan ::
    "smoothing \<Rightarrow> (datetime \<times> datetime) list \<Rightarrow> work_segment \<Rightarrow> stint list \<Rightarrow> stint list \<Rightarrow>
     (stint list \<times> stint list) option" where
  "came_back_scan c blocked cur skipped [] = None"
| "came_back_scan c blocked cur skipped (cand # rest) =
     (if ws_start (snd cand) - ws_end cur > sm_limit c then None
      else if ws_wc (snd cand) \<noteq> ws_wc cur then came_back_scan c blocked cur (skipped @ [cand]) rest
      else if list_ex (\<lambda>(_, s). ws_start s < ws_end cur \<or> ws_end s > ws_start (snd cand)) skipped then None
      else if list_ex (\<lambda>(_, s). \<not> in_metered_scope c (ws_wc s)) skipped then None
      else if crosses_blocked (ws_end cur) (ws_start (snd cand)) blocked then None
      else if was_relieved c cur (snd cand) then None
      else if list_ex (\<lambda>(_, s). has_orphaned_pallets c s) skipped then None
      else Some (skipped @ [cand], rest))"

definition came_back_match ::
    "smoothing \<Rightarrow> (datetime \<times> datetime) list \<Rightarrow> work_segment \<Rightarrow> stint list \<Rightarrow>
     (stint list \<times> stint list) option" where
  "came_back_match c blocked cur rest =
     (if \<not> in_metered_scope c (ws_wc cur) then None else came_back_scan c blocked cur [] rest)"

definition absorb :: "stint \<Rightarrow> stint list \<Rightarrow> stint" where
  "absorb s absorbed =
     (Min (fst ` set (s # absorbed)),
      (snd s)\<lparr>ws_end := Max ((\<lambda>x. ws_end (snd x)) ` set (s # absorbed))\<rparr>)"

lemma came_back_scan_split:
  "came_back_scan c blocked cur skipped rest = Some (absorbed, remaining) \<Longrightarrow>
     skipped @ rest = absorbed @ remaining \<and> length remaining < length rest"
  by (induction c blocked cur skipped rest rule: came_back_scan.induct) (auto split: if_splits)

lemma came_back_match_split:
  "came_back_match c blocked cur rest = Some (absorbed, remaining) \<Longrightarrow>
     rest = absorbed @ remaining \<and> length remaining < length rest"
  by (auto simp: came_back_match_def split: if_splits dest: came_back_scan_split)

function apply_came_back ::
    "smoothing \<Rightarrow> (datetime \<times> datetime) list \<Rightarrow> stint list \<Rightarrow> stint list" where
  "apply_came_back c blocked [] = []"
| "apply_came_back c blocked (s # rest) =
     (case came_back_match c blocked (snd s) rest of
        None \<Rightarrow> s # apply_came_back c blocked rest
      | Some (absorbed, remaining) \<Rightarrow> apply_came_back c blocked (absorb s absorbed # remaining))"
  by pat_completeness auto
termination
  by (relation "measure (\<lambda>(_, _, stints). length stints)") (auto dest: came_back_match_split)

section \<open>Wrong first pick\<close>

definition is_wrong_first_pick ::
    "smoothing \<Rightarrow> (datetime \<times> datetime) list \<Rightarrow> datetime option \<Rightarrow> work_segment \<Rightarrow> work_segment \<Rightarrow> bool" where
  "is_wrong_first_pick c blocked previous_end cur following =
     ((case previous_end of None \<Rightarrow> True | Some e \<Rightarrow> ws_start cur - e > sm_limit c)
      \<and> ws_end cur - ws_start cur \<le> sm_limit c
      \<and> ws_wc following \<noteq> ws_wc cur
      \<and> ws_start following - ws_end cur \<le> sm_limit c
      \<and> in_metered_scope c (ws_wc cur) \<and> in_metered_scope c (ws_wc following)
      \<and> \<not> crosses_blocked (ws_end cur) (ws_start following) blocked
      \<and> station_was_idle c cur
      \<and> \<not> first_pick_takes_over_someone c cur following)"

text \<open>The latest end of the stints already passed.\<close>

definition later_end :: "datetime option \<Rightarrow> work_segment \<Rightarrow> datetime option" where
  "later_end previous_end s =
     Some (case previous_end of None \<Rightarrow> ws_end s | Some e \<Rightarrow> max e (ws_end s))"

definition join_next :: "stint \<Rightarrow> stint \<Rightarrow> stint" where
  "join_next s n =
     (min (fst s) (fst n),
      (snd n)\<lparr>ws_start := ws_start (snd s), ws_end := max (ws_end (snd s)) (ws_end (snd n))\<rparr>)"

function apply_wrong_first_pick ::
    "smoothing \<Rightarrow> (datetime \<times> datetime) list \<Rightarrow> datetime option \<Rightarrow> stint list \<Rightarrow> stint list" where
  "apply_wrong_first_pick c blocked previous_end [] = []"
| "apply_wrong_first_pick c blocked previous_end [s] = [s]"
| "apply_wrong_first_pick c blocked previous_end (s # n # rest) =
     (if is_wrong_first_pick c blocked previous_end (snd s) (snd n)
      then apply_wrong_first_pick c blocked previous_end (join_next s n # rest)
      else s # apply_wrong_first_pick c blocked (later_end previous_end (snd s)) (n # rest))"
  by pat_completeness auto
termination
  by (relation "measure (\<lambda>(_, _, _, stints). length stints)") auto

section \<open>Everyone\<close>

definition stint_key :: "stint \<Rightarrow> datetime \<times> datetime \<times> nat" where
  "stint_key x = (ws_start (snd x), ws_end (snd x), fst x)"

definition smooth_person :: "smoothing \<Rightarrow> (datetime \<times> datetime) list \<Rightarrow> stint list \<Rightarrow> stint list" where
  "smooth_person c blocked stints =
     apply_wrong_first_pick c blocked None (apply_came_back c blocked (sort_key stint_key stints))"

definition smoothing_of ::
    "work_segment list \<Rightarrow> (string \<times> datetime list) list option \<Rightarrow> string list option \<Rightarrow> timedelta \<Rightarrow> smoothing" where
  "smoothing_of segments meter metered limit =
     \<lparr>sm_times = meter, sm_by_wc = group_by ws_wc segments, sm_metered = metered, sm_limit = limit\<rparr>"

definition smooth_quick_punches ::
    "work_segment list \<Rightarrow> (person_key \<times> (datetime \<times> datetime) list) list \<Rightarrow>
     (string \<times> datetime list) list option \<Rightarrow> string list option \<Rightarrow> timedelta \<Rightarrow> work_segment list" where
  "smooth_quick_punches segments blocked_windows meter metered limit =
     (let by_person = group_by (\<lambda>x. person_key_of (snd x)) (enumerate 0 segments);
          c = smoothing_of segments meter metered limit;
          placed = concat (map (\<lambda>(key, stints). smooth_person c (dict_get blocked_windows key []) stints) by_person)
      in map snd (sort_key fst placed))"

end
