(* ===== verification/Quick_Punch_Facts.thy ===== *)
theory Quick_Punch_Facts
  imports Quick_Punch
begin

text \<open>
  What smoothing keeps and what it adds, for one person's stints: all worked time is kept, what is
  added lies in short unblocked gaps, stints longer than the limit and production nobody else
  stint_covers stay at their station; and the came-back rule reaches a fixed point.
\<close>

section \<open>A match\<close>

definition stint_covers :: "work_segment \<Rightarrow> datetime \<Rightarrow> bool" where
  "stint_covers s t = (ws_start s \<le> t \<and> t < ws_end s)"

definition in_order :: "stint list \<Rightarrow> bool" where
  "in_order stints = sorted_wrt (\<lambda>a b. ws_start (snd a) \<le> ws_start (snd b)) stints"

definition may_merge :: "smoothing \<Rightarrow> (datetime \<times> datetime) list \<Rightarrow> work_segment \<Rightarrow> stint list \<Rightarrow> work_segment \<Rightarrow> bool" where
  "may_merge c blocked cur between cand =
     ((\<forall>x \<in> set between. ws_end cur \<le> ws_start (snd x) \<and> ws_end (snd x) \<le> ws_start cand) \<and>
      (\<forall>x \<in> set between. in_metered_scope c (ws_wc (snd x)) \<and> \<not> has_orphaned_pallets c (snd x)) \<and>
      \<not> crosses_blocked (ws_end cur) (ws_start cand) blocked \<and> \<not> was_relieved c cur cand)"

lemma came_back_scan_Cons:
  "came_back_scan c blocked cur skipped (cand # rest) =
     (if ws_start (snd cand) - ws_end cur > sm_limit c then None
      else if ws_wc (snd cand) \<noteq> ws_wc cur then came_back_scan c blocked cur (skipped @ [cand]) rest
      else if may_merge c blocked cur skipped (snd cand) then Some (skipped @ [cand], rest) else None)"
  by (auto simp: may_merge_def list_ex_iff not_less)

lemma came_back_scan_Some:
  "came_back_scan c blocked cur skipped rest = Some (absorbed, remaining) \<Longrightarrow>
     \<exists>between cand. absorbed = skipped @ between @ [cand] \<and> rest = between @ cand # remaining \<and>
       ws_wc (snd cand) = ws_wc cur \<and> (\<forall>x \<in> set between. ws_wc (snd x) \<noteq> ws_wc cur) \<and>
       ws_start (snd cand) - ws_end cur \<le> sm_limit c \<and> may_merge c blocked cur (skipped @ between) (snd cand)"
proof (induction rest arbitrary: skipped)
  case (Cons x rest)
  show ?case
  proof (cases "ws_wc (snd x) = ws_wc cur")
    case True
    then show ?thesis using Cons.prems
      by (intro exI [of _ "[]"] exI [of _ x]) (auto simp: came_back_scan_Cons simp del: came_back_scan.simps split: if_splits)
  next
    case False
    then have "came_back_scan c blocked cur (skipped @ [x]) rest = Some (absorbed, remaining)"
      using Cons.prems by (auto simp: came_back_scan_Cons simp del: came_back_scan.simps split: if_splits)
    from Cons.IH [OF this] obtain between cand where b: "absorbed = (skipped @ [x]) @ between @ [cand]"
      "rest = between @ cand # remaining" "ws_wc (snd cand) = ws_wc cur" "\<forall>x \<in> set between. ws_wc (snd x) \<noteq> ws_wc cur"
      "ws_start (snd cand) - ws_end cur \<le> sm_limit c" "may_merge c blocked cur ((skipped @ [x]) @ between) (snd cand)" by blast
    then show ?thesis using False by (intro exI [of _ "x # between"] exI [of _ cand]) auto
  qed
qed simp

lemma came_back_match_Some:
  assumes "came_back_match c blocked cur rest = Some (absorbed, remaining)"
  obtains between cand where "absorbed = between @ [cand]" "rest = between @ cand # remaining"
    "ws_wc (snd cand) = ws_wc cur" "\<forall>x \<in> set between. ws_wc (snd x) \<noteq> ws_wc cur"
    "ws_start (snd cand) - ws_end cur \<le> sm_limit c" "may_merge c blocked cur between (snd cand)"
    "in_metered_scope c (ws_wc cur)"
proof -
  from assms have "came_back_scan c blocked cur [] rest = Some (absorbed, remaining)" "in_metered_scope c (ws_wc cur)"
    by (auto simp: came_back_match_def split: if_splits)
  with came_back_scan_Some [OF this(1)] that show ?thesis by auto
qed

lemma absorb_simps [simp]:
  "ws_wc (snd (absorb s xs)) = ws_wc (snd s)" "ws_start (snd (absorb s xs)) = ws_start (snd s)"
  "person_key_of (snd (absorb s xs)) = person_key_of (snd s)"
  by (simp_all add: absorb_def person_key_of_def split: option.split)

lemma absorb_end:
  "ws_end (snd s) \<le> ws_end (snd (absorb s xs))" "x \<in> set xs \<Longrightarrow> ws_end (snd x) \<le> ws_end (snd (absorb s xs))"
  "\<exists>x \<in> set (s # xs). ws_end (snd (absorb s xs)) = ws_end (snd x)"
proof -
  let ?E = "(\<lambda>x. ws_end (snd x)) ` set (s # xs)"
  have e: "ws_end (snd (absorb s xs)) = Max ?E" by (simp add: absorb_def)
  show "ws_end (snd s) \<le> ws_end (snd (absorb s xs))" "x \<in> set xs \<Longrightarrow> ws_end (snd x) \<le> ws_end (snd (absorb s xs))"
    unfolding e by (rule Max_ge; simp)+
  have "Max ?E \<in> ?E" by (rule Max_in) auto
  then show "\<exists>x \<in> set (s # xs). ws_end (snd (absorb s xs)) = ws_end (snd x)" unfolding e by blast
qed

text \<open>The time of a merged stint: its parts and the gap between them.\<close>

lemma merged_covers:
  assumes m: "came_back_match c blocked (snd s) rest = Some (absorbed, remaining)" and ord: "in_order (s # rest)"
  shows "x \<in> set (s # absorbed) \<Longrightarrow> stint_covers (snd x) t \<Longrightarrow> stint_covers (snd (absorb s absorbed)) t"
    and "stint_covers (snd (absorb s absorbed)) t \<Longrightarrow> (\<exists>x \<in> set (s # absorbed). stint_covers (snd x) t) \<or>
      (\<exists>y \<in> set absorbed. ws_end (snd s) \<le> t \<and> t < ws_start (snd y) \<and> ws_start (snd y) - ws_end (snd s) \<le> sm_limit c \<and>
        \<not> crosses_blocked (ws_end (snd s)) (ws_start (snd y)) blocked)"
proof -
  from m obtain between cand where b: "absorbed = between @ [cand]" "rest = between @ cand # remaining"
    "ws_start (snd cand) - ws_end (snd s) \<le> sm_limit c" "may_merge c blocked (snd s) between (snd cand)"
    by (rule came_back_match_Some)
  have "ws_start (snd s) \<le> ws_start (snd x)" if "x \<in> set absorbed" for x
    using that ord unfolding b in_order_def by auto
  then show "x \<in> set (s # absorbed) \<Longrightarrow> stint_covers (snd x) t \<Longrightarrow> stint_covers (snd (absorb s absorbed)) t"
    using absorb_end(1) [of s absorbed] absorb_end(2) [of x absorbed s] by (fastforce simp: stint_covers_def)
  assume cov: "stint_covers (snd (absorb s absorbed)) t"
  then have t: "ws_start (snd s) \<le> t" "t < ws_end (snd (absorb s absorbed))" by (simp_all add: stint_covers_def)
  from absorb_end(3) obtain z where z: "z \<in> set (s # absorbed)" "ws_end (snd (absorb s absorbed)) = ws_end (snd z)" by blast
  show "(\<exists>x \<in> set (s # absorbed). stint_covers (snd x) t) \<or>
      (\<exists>y \<in> set absorbed. ws_end (snd s) \<le> t \<and> t < ws_start (snd y) \<and> ws_start (snd y) - ws_end (snd s) \<le> sm_limit c \<and>
        \<not> crosses_blocked (ws_end (snd s)) (ws_start (snd y)) blocked)"
  proof (cases "t < ws_end (snd s)")
    case True
    then show ?thesis using t(1) by (auto simp: stint_covers_def)
  next
    case past: False
    show ?thesis
    proof (cases "t < ws_start (snd cand)")
      case True
      then show ?thesis using past b by (auto simp: may_merge_def)
    next
      case False
      have tz: "t < ws_end (snd z)" using t(2) z(2) by simp
      have "ws_end (snd x) \<le> t" if "x \<in> set between" for x
        using b(4) that False by (auto simp: may_merge_def)
      then have "z = cand" using z(1) tz past b(1) by fastforce
      then show ?thesis using False t(2) z(2) b(1) by (auto simp: stint_covers_def)
    qed
  qed
qed

section \<open>Time kept, time added\<close>

definition worked :: "stint list \<Rightarrow> datetime \<Rightarrow> bool" where
  "worked stints t = list_ex (\<lambda>x. stint_covers (snd x) t) stints"

text \<open>The gap between the end of one stint and the start of another that smoothing may close.\<close>

definition bridged :: "smoothing \<Rightarrow> (datetime \<times> datetime) list \<Rightarrow> stint list \<Rightarrow> datetime \<Rightarrow> bool" where
  "bridged c blocked stints t =
     list_ex (\<lambda>a. list_ex (\<lambda>b. ws_end (snd a) \<le> t \<and> t < ws_start (snd b)
        \<and> ws_start (snd b) - ws_end (snd a) \<le> sm_limit c
        \<and> \<not> crosses_blocked (ws_end (snd a)) (ws_start (snd b)) blocked) stints) stints"

definition bounds_of :: "stint list \<Rightarrow> datetime set \<times> datetime set" where
  "bounds_of stints = ((\<lambda>x. ws_start (snd x)) ` set stints, (\<lambda>x. ws_end (snd x)) ` set stints)"

definition within_bounds :: "stint list \<Rightarrow> stint list \<Rightarrow> bool" where
  "within_bounds stints inputs =
     (\<forall>x \<in> set stints. ws_start (snd x) \<in> fst (bounds_of inputs) \<and> ws_end (snd x) \<in> snd (bounds_of inputs))"

definition of_person :: "person_key \<Rightarrow> stint list \<Rightarrow> bool" where
  "of_person key stints = list_all (\<lambda>x. person_key_of (snd x) = key) stints"

lemma bridgedI:
  assumes "within_bounds stints inputs" "x \<in> set stints" "y \<in> set stints"
    and "ws_end (snd x) \<le> t" "t < ws_start (snd y)" "ws_start (snd y) - ws_end (snd x) \<le> sm_limit c"
    and "\<not> crosses_blocked (ws_end (snd x)) (ws_start (snd y)) blocked"
  shows "bridged c blocked inputs t"
proof -
  obtain a where a: "a \<in> set inputs" "ws_end (snd x) = ws_end (snd a)"
    using assms(1,2) by (auto simp: within_bounds_def bounds_of_def)
  obtain b where b: "b \<in> set inputs" "ws_start (snd y) = ws_start (snd b)"
    using assms(1,3) by (auto simp: within_bounds_def bounds_of_def)
  show ?thesis using assms(4-7) a b unfolding bridged_def list_ex_iff by (intro bexI [of _ a] bexI [of _ b]) simp_all
qed

text \<open>A stint that smoothing must not move: longer than the limit, or running when the meter of its station
  counts a pallet that nobody else stint_covers.\<close>

definition own_pallet :: "smoothing \<Rightarrow> person_key \<Rightarrow> string \<Rightarrow> datetime \<Rightarrow> bool" where
  "own_pallet c key wc t =
     ((case sm_times c of None \<Rightarrow> False
       | Some by_wc \<Rightarrow> (case map_of by_wc wc of None \<Rightarrow> False | Some ts \<Rightarrow> t \<in> set ts)) \<and>
      \<not> list_ex (\<lambda>s. stint_covers s t) (others_at c key wc))"

definition anchored :: "smoothing \<Rightarrow> work_segment \<Rightarrow> datetime \<Rightarrow> bool" where
  "anchored c s t =
     (stint_covers s t \<and> (ws_end s - ws_start s > sm_limit c \<or> own_pallet c (person_key_of s) (ws_wc s) t))"

definition anchored_at :: "smoothing \<Rightarrow> stint list \<Rightarrow> string \<Rightarrow> datetime \<Rightarrow> bool" where
  "anchored_at c stints wc t = list_ex (\<lambda>x. ws_wc (snd x) = wc \<and> anchored c (snd x) t) stints"

definition sound :: "smoothing \<Rightarrow> (datetime \<times> datetime) list \<Rightarrow> person_key \<Rightarrow> stint list \<Rightarrow> stint list \<Rightarrow> bool" where
  "sound c blocked key inputs stints =
     (in_order stints \<and> within_bounds stints inputs \<and> of_person key stints \<and>
      (\<forall>t. worked inputs t \<longrightarrow> worked stints t) \<and>
      (\<forall>t. worked stints t \<longrightarrow> worked inputs t \<or> bridged c blocked inputs t) \<and>
      (\<forall>wc t. anchored_at c inputs wc t \<longrightarrow> anchored_at c stints wc t))"

lemma sound_start:
  "in_order inputs \<Longrightarrow> of_person key inputs \<Longrightarrow> sound c blocked key inputs inputs"
  by (auto simp: sound_def within_bounds_def bounds_of_def)

text \<open>One merge replaces neighbours \<open>xs\<close> of the list by one stint.\<close>

lemma sound_replace:
  assumes sound: "sound c blocked key inputs (before @ parts @ after)" and ne: "parts \<noteq> []"
    and start: "ws_start (snd m) = ws_start (snd (hd parts))"
    and fin: "\<forall>x \<in> set parts. ws_end (snd x) \<le> ws_end (snd m)" "\<exists>x \<in> set parts. ws_end (snd m) = ws_end (snd x)"
    and key: "person_key_of (snd m) = key"
    and gap: "\<And>t. stint_covers (snd m) t \<Longrightarrow> worked parts t \<or> bridged c blocked inputs t"
    and stay: "\<And>x t. x \<in> set parts \<Longrightarrow> anchored c (snd x) t \<Longrightarrow> person_key_of (snd x) = key \<Longrightarrow> ws_wc (snd x) = ws_wc (snd m)"
  shows "sound c blocked key inputs (before @ m # after)"
proof -
  obtain p ps where parts: "parts = p # ps" using ne by (cases parts) auto
  from sound have s: "in_order (before @ parts @ after)" "within_bounds (before @ parts @ after) inputs"
    "of_person key (before @ parts @ after)" by (simp_all add: sound_def)
  have starts: "ws_start (snd m) \<le> ws_start (snd x)" if "x \<in> set parts" for x
    using s(1) that start by (auto simp: parts in_order_def sorted_wrt_append)
  have part: "stint_covers (snd m) t" if "x \<in> set parts" "stint_covers (snd x) t" for x t
    using that starts [OF that(1)] fin(1) by (force simp: stint_covers_def)
  have anchor: "ws_wc (snd m) = ws_wc (snd x) \<and> anchored c (snd m) t" if x: "x \<in> set parts" "anchored c (snd x) t" for x t
  proof -
    have k: "person_key_of (snd x) = key" using s(3) x(1) by (auto simp: of_person_def list_all_iff)
    have wc: "ws_wc (snd x) = ws_wc (snd m)" by (rule stay [OF x k])
    have "ws_end (snd x) \<le> ws_end (snd m)" using fin(1) x(1) by blast
    then have "ws_end (snd x) - ws_start (snd x) \<le> ws_end (snd m) - ws_start (snd m)"
      using starts [OF x(1)] by simp
    then show ?thesis using x part [OF x(1)] wc k key by (auto simp: anchored_def)
  qed
  have "in_order (before @ m # after)"
    using s(1) start by (auto simp: parts in_order_def sorted_wrt_append)
  moreover have "within_bounds (before @ m # after) inputs"
  proof -
    obtain x where x: "x \<in> set parts" "ws_end (snd m) = ws_end (snd x)" using fin(2) by blast
    have "ws_end (snd m) \<in> snd (bounds_of inputs)" using s(2) x(1) unfolding x(2) within_bounds_def by simp
    moreover have "ws_start (snd m) \<in> fst (bounds_of inputs)" using s(2) unfolding start parts within_bounds_def by simp
    ultimately show ?thesis using s(2) unfolding within_bounds_def by auto
  qed
  moreover have "of_person key (before @ m # after)" using s(3) key by (simp add: of_person_def)
  moreover have "worked (before @ m # after) t" if "worked inputs t" for t
    using sound that part unfolding sound_def worked_def list_ex_iff by auto
  moreover have "worked inputs t \<or> bridged c blocked inputs t" if w: "worked (before @ m # after) t" for t
  proof -
    have "worked (before @ parts @ after) t \<or> bridged c blocked inputs t"
      using w gap [of t] unfolding worked_def by auto
    then show ?thesis using sound unfolding sound_def by blast
  qed
  moreover have "anchored_at c (before @ m # after) wc t" if a: "anchored_at c inputs wc t" for wc t
  proof -
    have "anchored_at c (before @ parts @ after) wc t" using sound a unfolding sound_def by blast
    then obtain x where "x \<in> set before \<union> set parts \<union> set after" "ws_wc (snd x) = wc" "anchored c (snd x) t"
      unfolding anchored_at_def list_ex_iff by auto
    then show ?thesis using anchor [of x t] unfolding anchored_at_def list_ex_iff by auto
  qed
  ultimately show ?thesis unfolding sound_def by blast
qed

section \<open>The steps\<close>

inductive merge_step :: "smoothing \<Rightarrow> (datetime \<times> datetime) list \<Rightarrow> stint list \<Rightarrow> stint list \<Rightarrow> bool"
  for c blocked where
  merge: "came_back_match c blocked (snd s) rest = Some (absorbed, remaining) \<Longrightarrow>
    merge_step c blocked (before @ s # rest) (before @ absorb s absorbed # remaining)"

inductive pick_step :: "smoothing \<Rightarrow> (datetime \<times> datetime) list \<Rightarrow> stint list \<Rightarrow> stint list \<Rightarrow> bool"
  for c blocked where
  pick: "is_wrong_first_pick c blocked previous_end (snd s) (snd n) \<Longrightarrow>
    pick_step c blocked (before @ s # n # rest) (before @ join_next s n # rest)"

inductive_cases merge_stepE: "merge_step c blocked stints result"
inductive_cases pick_stepE: "pick_step c blocked stints result"

lemma merge_step_Cons: "merge_step c blocked xs ys \<Longrightarrow> merge_step c blocked (x # xs) (x # ys)"
  by (metis append_Cons merge_step.cases merge_step.merge)

lemma pick_step_Cons: "pick_step c blocked xs ys \<Longrightarrow> pick_step c blocked (x # xs) (x # ys)"
  by (metis append_Cons pick_step.cases pick_step.pick)

lemma steps_Cons:
  assumes "r\<^sup>*\<^sup>* xs ys" and "\<And>xs ys. r xs ys \<Longrightarrow> r (x # xs) (x # ys)"
  shows "r\<^sup>*\<^sup>* (x # xs) (x # ys)"
  using assms(1) by (induction rule: rtranclp_induct) (auto intro: rtranclp.rtrancl_into_rtrancl assms(2))

lemma came_back_steps: "(merge_step c blocked)\<^sup>*\<^sup>* stints (apply_came_back c blocked stints)"
proof (induction c blocked stints rule: apply_came_back.induct)
  case (2 c blocked s rest)
  show ?case
  proof (cases "came_back_match c blocked (snd s) rest")
    case None
    then show ?thesis using steps_Cons [OF 2(1) [OF None] merge_step_Cons] by simp
  next
    case (Some ar)
    obtain absorbed remaining where ar: "ar = (absorbed, remaining)" by (cases ar)
    have "merge_step c blocked (s # rest) (absorb s absorbed # remaining)"
      using merge_step.merge [of c blocked s rest absorbed remaining "[]"] Some ar by simp
    then show ?thesis using 2(2) [OF Some ar [symmetric]] Some ar by (simp add: converse_rtranclp_into_rtranclp)
  qed
qed simp

lemma first_pick_steps: "(pick_step c blocked)\<^sup>*\<^sup>* stints (apply_wrong_first_pick c blocked previous_end stints)"
proof (induction c blocked previous_end stints rule: apply_wrong_first_pick.induct)
  case (3 c blocked previous_end s n rest)
  show ?case
  proof (cases "is_wrong_first_pick c blocked previous_end (snd s) (snd n)")
    case True
    then have "pick_step c blocked (s # n # rest) (join_next s n # rest)"
      using pick_step.pick [of c blocked previous_end s n "[]" rest] by simp
    then show ?thesis using 3(1) [OF True] True by (simp add: converse_rtranclp_into_rtranclp)
  next
    case False
    then show ?thesis using steps_Cons [OF 3(2) [OF False] pick_step_Cons] by simp
  qed
qed simp_all

section \<open>Every step is sound\<close>

lemma idle_no_pallet: "station_was_idle c s \<Longrightarrow> stint_covers s t \<Longrightarrow> \<not> own_pallet c key (ws_wc s) t"
  by (auto simp: station_was_idle_def pallets_during_def own_pallet_def stint_covers_def filter_empty_conv split: option.splits)

lemma no_orphan_no_pallet:
  "\<not> has_orphaned_pallets c s \<Longrightarrow> stint_covers s t \<Longrightarrow> \<not> own_pallet c (person_key_of s) (ws_wc s) t"
  by (auto simp: has_orphaned_pallets_def pallets_during_def own_pallet_def stint_covers_def list_ex_iff split: option.splits)

lemma merge_sound:
  assumes step: "merge_step c blocked stints result" and sound: "sound c blocked key inputs stints"
  shows "sound c blocked key inputs result"
  using step
proof cases
  case (merge s rest absorbed remaining before)
  from merge(3) obtain between cand where b: "absorbed = between @ [cand]" "rest = between @ cand # remaining"
    "ws_wc (snd cand) = ws_wc (snd s)" "ws_start (snd cand) - ws_end (snd s) \<le> sm_limit c"
    "may_merge c blocked (snd s) between (snd cand)"
    by (rule came_back_match_Some)
  have rest: "rest = absorbed @ remaining" using b by simp
  have snd: "sound c blocked key inputs (before @ (s # absorbed) @ remaining)" using sound merge(1) rest by simp
  then have ord: "in_order (s # rest)" and wb: "within_bounds (before @ (s # absorbed) @ remaining) inputs"
    and key: "person_key_of (snd s) = key"
    by (auto simp: sound_def in_order_def sorted_wrt_append of_person_def rest)
  show ?thesis unfolding merge(2)
  proof (rule sound_replace [OF snd])
    show "\<exists>x \<in> set (s # absorbed). ws_end (snd (absorb s absorbed)) = ws_end (snd x)" by (rule absorb_end(3))
    show "\<forall>x \<in> set (s # absorbed). ws_end (snd x) \<le> ws_end (snd (absorb s absorbed))"
      using absorb_end(1,2) by auto
    show "worked (s # absorbed) t \<or> bridged c blocked inputs t" if cov: "stint_covers (snd (absorb s absorbed)) t" for t
      using merged_covers(2) [OF merge(3) ord cov]
    proof
      assume "\<exists>x \<in> set (s # absorbed). stint_covers (snd x) t"
      then show ?thesis by (simp add: worked_def list_ex_iff)
    next
      assume "\<exists>y \<in> set absorbed. ws_end (snd s) \<le> t \<and> t < ws_start (snd y) \<and> ws_start (snd y) - ws_end (snd s) \<le> sm_limit c \<and>
        \<not> crosses_blocked (ws_end (snd s)) (ws_start (snd y)) blocked"
      then obtain y where "y \<in> set absorbed" "ws_end (snd s) \<le> t" "t < ws_start (snd y)"
        "ws_start (snd y) - ws_end (snd s) \<le> sm_limit c" "\<not> crosses_blocked (ws_end (snd s)) (ws_start (snd y)) blocked"
        by blast
      then show ?thesis using bridgedI [OF wb, of s y] by simp
    qed
    show "ws_wc (snd x) = ws_wc (snd (absorb s absorbed))"
      if x: "x \<in> set (s # absorbed)" "anchored c (snd x) t" "person_key_of (snd x) = key" for x t
    proof (cases "x \<in> set between")
      case True
      then have m: "ws_end (snd s) \<le> ws_start (snd x)" "ws_end (snd x) \<le> ws_start (snd cand)" "\<not> has_orphaned_pallets c (snd x)"
        using b(5) by (auto simp: may_merge_def)
      then have "ws_end (snd x) - ws_start (snd x) \<le> sm_limit c" using b(4) by simp
      then show ?thesis using x(2) no_orphan_no_pallet [OF m(3)] by (auto simp: anchored_def)
    next
      case False
      then show ?thesis using x(1) b(1,3) by auto
    qed
  qed (simp_all add: key)
qed

lemma join_next_simps [simp]:
  "ws_wc (snd (join_next s n)) = ws_wc (snd n)" "ws_start (snd (join_next s n)) = ws_start (snd s)"
  "ws_end (snd (join_next s n)) = max (ws_end (snd s)) (ws_end (snd n))"
  "person_key_of (snd (join_next s n)) = person_key_of (snd n)"
  by (simp_all add: join_next_def person_key_of_def split: option.split)

lemma pick_sound:
  assumes step: "pick_step c blocked stints result" and sound: "sound c blocked key inputs stints"
  shows "sound c blocked key inputs result"
  using step
proof cases
  case (pick previous_end s n before rest)
  have p: "ws_end (snd s) - ws_start (snd s) \<le> sm_limit c" "ws_start (snd n) - ws_end (snd s) \<le> sm_limit c"
    "\<not> crosses_blocked (ws_end (snd s)) (ws_start (snd n)) blocked" "station_was_idle c (snd s)"
    using pick(3) by (simp_all add: is_wrong_first_pick_def)
  have snd: "sound c blocked key inputs (before @ [s, n] @ rest)" using sound pick(1) by simp
  then have wb: "within_bounds (before @ [s, n] @ rest) inputs" and key: "person_key_of (snd n) = key"
    by (auto simp: sound_def of_person_def)
  show ?thesis unfolding pick(2)
  proof (rule sound_replace [OF snd])
    show "worked [s, n] t \<or> bridged c blocked inputs t" if cov: "stint_covers (snd (join_next s n)) t" for t
    proof (cases "ws_end (snd s) \<le> t \<and> t < ws_start (snd n)")
      case True
      then show ?thesis using bridgedI [OF wb, of s n t c blocked] p by simp
    next
      case False
      then show ?thesis using cov by (auto simp: worked_def stint_covers_def)
    qed
    show "ws_wc (snd x) = ws_wc (snd (join_next s n))"
      if x: "x \<in> set [s, n]" "anchored c (snd x) t" "person_key_of (snd x) = key" for x t
      using x p(1) idle_no_pallet [OF p(4), of t] by (auto simp: anchored_def)
    show "\<exists>x \<in> set [s, n]. ws_end (snd (join_next s n)) = ws_end (snd x)" by (auto simp: max_def)
  qed (simp_all add: key)
qed

lemma steps_invariant:
  assumes "r\<^sup>*\<^sup>* x y" and "P x" and "\<And>x y. r x y \<Longrightarrow> P x \<Longrightarrow> P y"
  shows "P y"
  using assms by (induction rule: rtranclp_induct) auto

theorem smooth_person_sound:
  assumes "of_person key stints"
  shows "sound c blocked key (sort_key stint_key stints) (smooth_person c blocked stints)"
proof -
  let ?in = "sort_key stint_key stints"
  have "sorted (map stint_key ?in)" by simp
  then have "in_order ?in"
    unfolding in_order_def sorted_map by (rule sorted_wrt_mono_rel [rotated]) (auto simp: stint_key_def less_eq_prod_def)
  moreover have "of_person key ?in" using assms by (simp add: of_person_def list_all_iff)
  ultimately have "sound c blocked key ?in ?in" by (rule sound_start)
  then have "sound c blocked key ?in (apply_came_back c blocked ?in)"
    by (rule steps_invariant [OF came_back_steps]) (rule merge_sound)
  then show ?thesis unfolding smooth_person_def
    by (rule steps_invariant [OF first_pick_steps]) (rule pick_sound)
qed

end
