(* ===== verification/Quick_Punch_Fixpoint.thy ===== *)
theory Quick_Punch_Fixpoint
  imports Quick_Punch_Facts
begin

text \<open>
  One left-to-right pass of the came-back rule reaches its fixed point on a person's disjoint
  stints: merging later stints never enables a merge that was refused before.
\<close>

section \<open>Disjoint stints\<close>

definition chained :: "stint list \<Rightarrow> bool" where
  "chained stints =
     (sorted_wrt (\<lambda>a b. ws_end (snd a) \<le> ws_start (snd b)) stints \<and> list_all (\<lambda>x. ws_start (snd x) \<le> ws_end (snd x)) stints)"

lemma chained_append:
  "chained (xs @ ys) \<longleftrightarrow> chained xs \<and> chained ys \<and> (\<forall>x \<in> set xs. \<forall>y \<in> set ys. ws_end (snd x) \<le> ws_start (snd y))"
  by (auto simp: chained_def sorted_wrt_append)

lemma chained_Cons:
  "chained (x # ys) \<longleftrightarrow> ws_start (snd x) \<le> ws_end (snd x) \<and> (\<forall>y \<in> set ys. ws_end (snd x) \<le> ws_start (snd y)) \<and> chained ys"
  by (auto simp: chained_def)

lemma chained_merge:
  assumes "merge_step c blocked stints result" and "chained stints"
  shows "chained result"
  using assms(1)
proof cases
  case (merge s rest absorbed remaining before)
  have rest: "rest = absorbed @ remaining" using came_back_match_split [OF merge(3)] by simp
  obtain z where z: "z \<in> set (s # absorbed)" "ws_end (snd (absorb s absorbed)) = ws_end (snd z)" using absorb_end(3) by blast
  have ch: "chained (before @ (s # absorbed) @ remaining)" using assms(2) merge(1) rest by simp
  have "ws_start (snd s) \<le> ws_end (snd z)" using order_trans [OF _ absorb_end(1) [of s absorbed]] ch z(2)
    by (auto simp: chained_append chained_Cons)
  moreover have "chained ((s # absorbed) @ remaining)" using ch unfolding chained_append [of before] by blast
  then have "\<forall>y \<in> set remaining. ws_end (snd z) \<le> ws_start (snd y)" using z(1) unfolding chained_append by blast
  ultimately show ?thesis using ch unfolding merge(2) by (simp add: chained_append chained_Cons z(2))
qed

lemma of_person_merge:
  assumes "merge_step c blocked stints result" and "of_person key stints"
  shows "of_person key result"
  using assms(1)
proof cases
  case (merge s rest absorbed remaining before)
  have "rest = absorbed @ remaining" using came_back_match_split [OF merge(3)] by simp
  then show ?thesis using assms(2) unfolding merge(1,2) by (simp add: of_person_def)
qed

section \<open>A refused match stays refused\<close>

definition match_at :: "smoothing \<Rightarrow> (datetime \<times> datetime) list \<Rightarrow> work_segment \<Rightarrow> stint list \<Rightarrow> stint \<Rightarrow> bool" where
  "match_at c blocked cur between cand =
     (ws_wc (snd cand) = ws_wc cur \<and> (\<forall>x \<in> set between. ws_wc (snd x) \<noteq> ws_wc cur) \<and>
      ws_start (snd cand) - ws_end cur \<le> sm_limit c \<and> may_merge c blocked cur between (snd cand))"

lemma scan_reaches:
  "match_at c blocked cur between cand \<Longrightarrow> in_order (between @ [cand]) \<Longrightarrow>
     (\<forall>x \<in> set skipped. ws_end cur \<le> ws_start (snd x) \<and> ws_end (snd x) \<le> ws_start (snd cand)
        \<and> in_metered_scope c (ws_wc (snd x)) \<and> \<not> has_orphaned_pallets c (snd x)) \<Longrightarrow>
     came_back_scan c blocked cur skipped (between @ cand # rest) \<noteq> None"
proof (induction between arbitrary: skipped)
  case Nil
  then show ?case by (auto simp: came_back_scan_Cons match_at_def may_merge_def simp del: came_back_scan.simps)
next
  case (Cons x between)
  have x: "ws_wc (snd x) \<noteq> ws_wc cur" "ws_start (snd x) \<le> ws_start (snd cand)" using Cons.prems by (auto simp: match_at_def in_order_def)
  have "came_back_scan c blocked cur (skipped @ [x]) (between @ cand # rest) \<noteq> None"
    by (rule Cons.IH) (use Cons.prems in \<open>auto simp: match_at_def may_merge_def in_order_def\<close>)
  then show ?case using x Cons.prems(1) by (simp add: came_back_scan_Cons match_at_def del: came_back_scan.simps)
qed

lemma match_reaches:
  assumes "match_at c blocked cur between cand" "in_order (between @ [cand])" "in_metered_scope c (ws_wc cur)"
  shows "came_back_match c blocked cur (between @ cand # rest) \<noteq> None"
  using scan_reaches [OF assms(1,2), of "[]"] assms(3) by (simp add: came_back_match_def)

lemma chained_in_order: "chained stints \<Longrightarrow> in_order stints"
proof (induction stints)
  case (Cons x stints)
  then show ?case unfolding in_order_def by (fastforce simp: chained_Cons)
qed (simp add: in_order_def)

lemma orphaned_mono:
  assumes "has_orphaned_pallets c s" "ws_wc m = ws_wc s" "person_key_of m = person_key_of s"
    and "ws_start m \<le> ws_start s" "ws_end s \<le> ws_end m"
  shows "has_orphaned_pallets c m"
  using assms by (fastforce simp: has_orphaned_pallets_def pallets_during_def list_ex_iff split: option.splits)

lemma list_ex_mono: "list_ex P xs \<Longrightarrow> (\<And>x. P x \<Longrightarrow> Q x) \<Longrightarrow> list_ex Q xs"
  by (auto simp: list_ex_iff)

lemma crosses_mono: "crosses_blocked l r blocked \<Longrightarrow> r \<le> r' \<Longrightarrow> crosses_blocked l r' blocked"
  unfolding crosses_blocked_def by (elim conjE, intro conjI; (erule list_ex_mono)?) auto

lemma relieved_mono: "was_relieved c cur a \<Longrightarrow> ws_start a \<le> ws_start b \<Longrightarrow> was_relieved c cur b"
  unfolding was_relieved_def by (erule list_ex_mono) auto

lemma may_merge_mono:
  assumes "may_merge c blocked cur between b" and "ws_start a \<le> ws_start b"
    and "\<forall>x \<in> set between'. ws_end cur \<le> ws_start (snd x) \<and> ws_end (snd x) \<le> ws_start a"
    and "\<forall>x \<in> set between'. in_metered_scope c (ws_wc (snd x)) \<and> \<not> has_orphaned_pallets c (snd x)"
  shows "may_merge c blocked cur between' a"
  using assms crosses_mono relieved_mono unfolding may_merge_def by blast

text \<open>A match seen after the merge was there before it.\<close>

lemma match_before_merge:
  assumes ch: "chained (u # before @ s # between @ cd # remaining)" and one: "of_person key (u # before @ s # between @ cd # remaining)"
    and m: "match_at c blocked (snd s) between cd" and scope: "in_metered_scope c (ws_wc (snd s))"
    and new: "before @ absorb s (between @ [cd]) # remaining = Y @ z # Z" and z: "match_at c blocked (snd u) Y z"
  shows "\<exists>Y' z' Z'. before @ s # between @ cd # remaining = Y' @ z' # Z' \<and> match_at c blocked (snd u) Y' z'"
proof -
  let ?m = "absorb s (between @ [cd])"
  from new consider (left) us where "before = Y @ z # us" | (mid) "before = Y" "z = ?m"
    | (right) us where "Y = before @ ?m # us" "remaining = us @ z # Z"
    by (auto simp: append_eq_append_conv2 append_eq_Cons_conv Cons_eq_append_conv)
  then show ?thesis
  proof cases
    case (left us)
    then have "before @ s # between @ cd # remaining = Y @ z # (us @ s # between @ cd # remaining)" by simp
    then show ?thesis using z by blast
  next
    case mid
    then have "match_at c blocked (snd u) before s" using z by (simp add: match_at_def may_merge_def was_relieved_def)
    then show ?thesis by blast
  next
    case (right us)
    have wcs: "ws_wc (snd s) \<noteq> ws_wc (snd u)" and cd: "ws_wc (snd cd) = ws_wc (snd s)"
      using z m right by (auto simp: match_at_def)
    have mm: "may_merge c blocked (snd u) Y (snd z)" and ms: "may_merge c blocked (snd s) between (snd cd)"
      using z m by (simp_all add: match_at_def)
    have keys: "person_key_of (snd cd) = person_key_of (snd s)" using one by (simp add: of_person_def)
    have free: "\<not> has_orphaned_pallets c (snd ?m)" using mm right(1) by (auto simp: may_merge_def)
    have good: "in_metered_scope c (ws_wc (snd x)) \<and> \<not> has_orphaned_pallets c (snd x)"
      if "x \<in> set (s # between @ [cd])" for x
    proof -
      have "ws_start (snd s) \<le> ws_start (snd cd)" using ch by (auto simp: chained_append chained_Cons)
      then have "\<not> has_orphaned_pallets c (snd s)" "\<not> has_orphaned_pallets c (snd cd)"
        using free orphaned_mono [of c "snd s" "snd ?m"] orphaned_mono [of c "snd cd" "snd ?m"] absorb_end(1,2) cd keys by auto
      then show ?thesis using that ms scope cd by (auto simp: may_merge_def)
    qed
    have outer: "in_metered_scope c (ws_wc (snd x)) \<and> \<not> has_orphaned_pallets c (snd x)" if "x \<in> set before \<union> set us" for x
      using that mm right(1) by (auto simp: may_merge_def)
    show ?thesis
    proof (cases "\<exists>x \<in> set between. ws_wc (snd x) = ws_wc (snd u)")
      case True
      then obtain P a Q where split: "between = P @ a # Q" "ws_wc (snd a) = ws_wc (snd u)" "\<forall>x \<in> set P. ws_wc (snd x) \<noteq> ws_wc (snd u)"
        using split_list_first_prop [of between "\<lambda>x. ws_wc (snd x) = ws_wc (snd u)"] by blast
      have le: "ws_start (snd a) \<le> ws_start (snd z)" using ch unfolding right(2) split(1) by (auto simp: chained_append chained_Cons)
      have "may_merge c blocked (snd u) (before @ s # P) (snd a)"
        by (rule may_merge_mono [OF mm le])
          (use ch good outer split(1) in \<open>auto simp: chained_append chained_Cons\<close>)
      moreover have "\<forall>x \<in> set (before @ s # P). ws_wc (snd x) \<noteq> ws_wc (snd u)"
        using z right(1) wcs split(3) by (auto simp: match_at_def)
      ultimately have "match_at c blocked (snd u) (before @ s # P) a" using split(2) le z by (simp add: match_at_def)
      moreover have "before @ s # between @ cd # remaining = (before @ s # P) @ a # (Q @ cd # remaining)" by (simp add: split(1))
      ultimately show ?thesis by blast
    next
      case False
      let ?Y = "before @ s # between @ cd # us"
      have "may_merge c blocked (snd u) ?Y (snd z)"
        by (rule may_merge_mono [OF mm order_refl])
          (use ch good outer right(2) in \<open>auto simp: chained_append chained_Cons\<close>)
      moreover have "\<forall>x \<in> set ?Y. ws_wc (snd x) \<noteq> ws_wc (snd u)"
        using z right(1) wcs cd False by (auto simp: match_at_def)
      ultimately have "match_at c blocked (snd u) ?Y z" using z by (simp add: match_at_def)
      moreover have "before @ s # between @ cd # remaining = ?Y @ z # Z" by (simp add: right(2))
      ultimately show ?thesis by blast
    qed
  qed
qed

lemma match_splits:
  assumes "came_back_match c blocked cur rest = Some (absorbed, remaining)"
  obtains between cand where "absorbed = between @ [cand]" "rest = between @ cand # remaining"
    "match_at c blocked cur between cand" "in_metered_scope c (ws_wc cur)"
  using came_back_match_Some [OF assms] by (metis match_at_def)

lemma refused_step:
  assumes step: "merge_step c blocked rest rest'" and ch: "chained (u # rest)" and one: "of_person key (u # rest)"
    and no: "came_back_match c blocked (snd u) rest = None"
  shows "came_back_match c blocked (snd u) rest' = None"
proof (rule ccontr)
  assume "came_back_match c blocked (snd u) rest' \<noteq> None"
  then obtain abs rem where "came_back_match c blocked (snd u) rest' = Some (abs, rem)" by auto
  then obtain Y z where z: "rest' = Y @ z # rem" "match_at c blocked (snd u) Y z" "in_metered_scope c (ws_wc (snd u))"
    by (rule match_splits)
  from step show False
  proof cases
    case (merge s tl absorbed remaining before)
    from merge(3) obtain between cd where b: "absorbed = between @ [cd]" "tl = between @ cd # remaining"
      "match_at c blocked (snd s) between cd" "in_metered_scope c (ws_wc (snd s))" by (rule match_splits)
    have "\<exists>Y' z' Z'. rest = Y' @ z' # Z' \<and> match_at c blocked (snd u) Y' z'"
      using match_before_merge [OF _ _ b(3,4), of u before remaining key Y z rem] ch one z(1,2) merge b(1,2) by simp
    then obtain Y' z' Z' where old: "rest = Y' @ z' # Z'" "match_at c blocked (snd u) Y' z'" by blast
    have "in_order (Y' @ [z'])" using chained_in_order [OF ch] unfolding old(1) by (simp add: in_order_def sorted_wrt_append)
    then show False using match_reaches [OF old(2) _ z(3), of Z'] no old(1) by simp
  qed
qed

lemma refused_steps:
  assumes "(merge_step c blocked)\<^sup>*\<^sup>* rest rest'" and "chained (u # rest)" and "of_person key (u # rest)"
    and "came_back_match c blocked (snd u) rest = None"
  shows "came_back_match c blocked (snd u) rest' = None"
proof -
  have "chained (u # rest') \<and> of_person key (u # rest') \<and> came_back_match c blocked (snd u) rest' = None"
    using assms
  proof (induction rule: rtranclp_induct)
    case (step ys zs)
    then have ys: "chained (u # ys)" "of_person key (u # ys)" "came_back_match c blocked (snd u) ys = None" by blast+
    have "merge_step c blocked (u # ys) (u # zs)" using merge_step_Cons step(2) by blast
    then show ?case using chained_merge of_person_merge refused_step [OF step(2) ys] ys by blast
  qed simp
  then show ?thesis by blast
qed

section \<open>The fixed point\<close>

definition settled :: "smoothing \<Rightarrow> (datetime \<times> datetime) list \<Rightarrow> stint list \<Rightarrow> bool" where
  "settled c blocked stints = (\<nexists>result. merge_step c blocked stints result)"

lemma settled_Nil [simp]: "settled c blocked []"
  by (auto simp: settled_def elim: merge_step.cases)

lemma settled_Cons:
  "settled c blocked (x # xs) \<longleftrightarrow> came_back_match c blocked (snd x) xs = None \<and> settled c blocked xs"
proof
  assume s: "settled c blocked (x # xs)"
  have "came_back_match c blocked (snd x) xs = None"
  proof (rule ccontr)
    assume "came_back_match c blocked (snd x) xs \<noteq> None"
    then obtain a r where "came_back_match c blocked (snd x) xs = Some (a, r)" by auto
    then show False using merge_step.merge [of c blocked x xs a r "[]"] s by (auto simp: settled_def)
  qed
  then show "came_back_match c blocked (snd x) xs = None \<and> settled c blocked xs"
    using s merge_step_Cons unfolding settled_def by blast
next
  assume s: "came_back_match c blocked (snd x) xs = None \<and> settled c blocked xs"
  have "\<not> merge_step c blocked (x # xs) result" for result
  proof
    assume "merge_step c blocked (x # xs) result"
    then show False
    proof cases
      case (merge y rest absorbed remaining before)
      show False
      proof (cases before)
        case Nil
        then show False using merge s by simp
      next
        case (Cons b bs)
        then have "merge_step c blocked xs (bs @ absorb y absorbed # remaining)"
          using merge merge_step.merge [OF merge(3), of bs] by simp
        then show False using s by (auto simp: settled_def)
      qed
    qed
  qed
  then show "settled c blocked (x # xs)" by (simp add: settled_def)
qed

lemma came_back_settles:
  "chained stints \<Longrightarrow> of_person key stints \<Longrightarrow> settled c blocked (apply_came_back c blocked stints)"
proof (induction c blocked stints rule: apply_came_back.induct)
  case (2 c blocked s rest)
  show ?case
  proof (cases "came_back_match c blocked (snd s) rest")
    case None
    have "settled c blocked (apply_came_back c blocked rest)"
      using 2(1) [OF None] 2(3,4) by (simp add: chained_Cons of_person_def)
    then show ?thesis using None refused_steps [OF came_back_steps 2(3,4) None] by (simp add: settled_Cons)
  next
    case (Some ar)
    obtain absorbed remaining where ar: "ar = (absorbed, remaining)" by (cases ar)
    have "merge_step c blocked (s # rest) (absorb s absorbed # remaining)"
      using merge_step.merge [of c blocked s rest absorbed remaining "[]"] Some ar by simp
    then show ?thesis using 2(2) [OF Some ar [symmetric]] chained_merge of_person_merge 2(3,4) Some ar by simp
  qed
qed simp

lemma settled_unchanged: "settled c blocked stints \<Longrightarrow> apply_came_back c blocked stints = stints"
  by (induction stints) (simp_all add: settled_Cons)

end
