(* ===== verification/Quick_Punch_Claims.thy ===== *)
theory Quick_Punch_Claims
  imports Quick_Punch_Fixpoint
begin

text \<open>
  The properties of \<open>quick_punch_smoothing.py\<close>, over the segments of everybody, with a morning of two
  people at three stations as the witness of their hypotheses.
\<close>

section \<open>One person among everybody\<close>

definition stints_of :: "work_segment list \<Rightarrow> person_key \<Rightarrow> stint list" where
  "stints_of segments key = filter (\<lambda>x. person_key_of (snd x) = key) (enumerate 0 segments)"

lemma of_person_stints: "of_person key (stints_of segments key)"
  by (simp add: of_person_def stints_of_def list_all_iff)

lemma stints_of_members: "(\<exists>i. (i, s) \<in> set (stints_of segments key)) \<longleftrightarrow> s \<in> set segments \<and> person_key_of s = key"
proof -
  have "s \<in> set segments \<longleftrightarrow> s \<in> set (map snd (enumerate 0 segments))" by simp
  then show ?thesis unfolding set_map by (force simp: stints_of_def)
qed

lemma smooth_person_of:
  "x \<in> set (smooth_person c blocked (stints_of segments key)) \<Longrightarrow> person_key_of (snd x) = key"
  using smooth_person_sound [OF of_person_stints [of key segments], of c blocked]
  by (auto simp: sound_def of_person_def list_all_iff)

lemma smooth_person_Nil [simp]: "smooth_person c blocked [] = []"
  by (simp add: smooth_person_def)

text \<open>The result holds, for each person, what smoothing makes of that person's stints.\<close>

lemma smooth_members:
  "s \<in> set (smooth_quick_punches segments blocked meter metered limit) \<longleftrightarrow>
     (\<exists>i. (i, s) \<in> set (smooth_person (smoothing_of segments meter metered limit)
        (dict_get blocked (person_key_of s) []) (stints_of segments (person_key_of s))))"
proof -
  let ?c = "smoothing_of segments meter metered limit" and ?E = "enumerate 0 segments"
  let ?by = "group_by (\<lambda>x. person_key_of (snd x)) ?E"
  have groups: "(k, st) \<in> set ?by \<Longrightarrow> st = stints_of segments k" for k st
    using group_by_member [of k st "\<lambda>x. person_key_of (snd x)" ?E] by (simp add: stints_of_def)
  have keys: "k \<in> fst ` set ?by \<or> stints_of segments k = []" for k
    unfolding keys_group_by by (auto simp: stints_of_def filter_empty_conv)
  have "s \<in> set (smooth_quick_punches segments blocked meter metered limit) \<longleftrightarrow>
      (\<exists>k st i. (k, st) \<in> set ?by \<and> (i, s) \<in> set (smooth_person ?c (dict_get blocked k []) st))"
    unfolding smooth_quick_punches_def Let_def by force
  also have "\<dots> \<longleftrightarrow> (\<exists>i. (i, s) \<in> set (smooth_person ?c (dict_get blocked (person_key_of s) []) (stints_of segments (person_key_of s))))"
  proof
    assume "\<exists>k st i. (k, st) \<in> set ?by \<and> (i, s) \<in> set (smooth_person ?c (dict_get blocked k []) st)"
    then obtain k st i where k: "(k, st) \<in> set ?by" "(i, s) \<in> set (smooth_person ?c (dict_get blocked k []) st)" by blast
    then have "person_key_of s = k" using groups [OF k(1)] smooth_person_of by fastforce
    then show "\<exists>i. (i, s) \<in> set (smooth_person ?c (dict_get blocked (person_key_of s) []) (stints_of segments (person_key_of s)))"
      using k groups [OF k(1)] by blast
  next
    assume "\<exists>i. (i, s) \<in> set (smooth_person ?c (dict_get blocked (person_key_of s) []) (stints_of segments (person_key_of s)))"
    then obtain i where i: "(i, s) \<in> set (smooth_person ?c (dict_get blocked (person_key_of s) []) (stints_of segments (person_key_of s)))" by blast
    then have "person_key_of s \<in> fst ` set ?by" using keys [of "person_key_of s"] by auto
    then obtain st where "(person_key_of s, st) \<in> set ?by" by force
    then show "\<exists>k st i. (k, st) \<in> set ?by \<and> (i, s) \<in> set (smooth_person ?c (dict_get blocked k []) st)"
      using i groups by blast
  qed
  finally show ?thesis .
qed

definition at_work :: "work_segment list \<Rightarrow> person_key \<Rightarrow> datetime \<Rightarrow> bool" where
  "at_work segments key t = list_ex (\<lambda>s. person_key_of s = key \<and> stint_covers s t) segments"

definition short_gap ::
    "work_segment list \<Rightarrow> person_key \<Rightarrow> (datetime \<times> datetime) list \<Rightarrow> timedelta \<Rightarrow> datetime \<Rightarrow> bool" where
  "short_gap segments key blocked limit t =
     list_ex (\<lambda>a. list_ex (\<lambda>b. person_key_of a = key \<and> person_key_of b = key \<and> ws_end a \<le> t \<and> t < ws_start b
        \<and> ws_start b - ws_end a \<le> limit \<and> \<not> crosses_blocked (ws_end a) (ws_start b) blocked) segments) segments"

lemma worked_stints: "worked (sort_key stint_key (stints_of segments key)) t \<longleftrightarrow> at_work segments key t"
proof -
  have "worked (sort_key stint_key (stints_of segments key)) t \<longleftrightarrow> (\<exists>s. (\<exists>i. (i, s) \<in> set (stints_of segments key)) \<and> stint_covers s t)"
    unfolding worked_def list_ex_iff set_sort by (metis prod.collapse snd_conv)
  also have "\<dots> \<longleftrightarrow> at_work segments key t" unfolding stints_of_members at_work_def list_ex_iff by blast
  finally show ?thesis .
qed

lemma worked_smoothed:
  "worked (smooth_person (smoothing_of segments meter metered limit) (dict_get blocked key []) (stints_of segments key)) t
     \<longleftrightarrow> at_work (smooth_quick_punches segments blocked meter metered limit) key t"
proof -
  let ?r = "\<lambda>k. smooth_person (smoothing_of segments meter metered limit) (dict_get blocked k []) (stints_of segments k)"
  have own: "person_key_of s = key" if "(i, s) \<in> set (?r key)" for i s
    using smooth_person_of [OF that] by simp
  have "worked (?r key) t \<longleftrightarrow> (\<exists>s. (\<exists>i. (i, s) \<in> set (?r key)) \<and> stint_covers s t)"
    unfolding worked_def list_ex_iff by (metis prod.collapse snd_conv)
  also have "\<dots> \<longleftrightarrow> (\<exists>s. person_key_of s = key \<and> (\<exists>i. (i, s) \<in> set (?r (person_key_of s))) \<and> stint_covers s t)"
    by (rule iff_exI) (use own in blast)
  also have "\<dots> \<longleftrightarrow> at_work (smooth_quick_punches segments blocked meter metered limit) key t"
    unfolding at_work_def list_ex_iff Bex_def smooth_members by blast
  finally show ?thesis .
qed

lemma bridged_stints:
  assumes "bridged (smoothing_of segments meter metered limit) blocked (sort_key stint_key (stints_of segments key)) t"
  shows "short_gap segments key blocked limit t"
proof -
  from assms obtain i a j b where "(i, a) \<in> set (stints_of segments key)" "(j, b) \<in> set (stints_of segments key)"
    "ws_end a \<le> t" "t < ws_start b" "ws_start b - ws_end a \<le> limit" "\<not> crosses_blocked (ws_end a) (ws_start b) blocked"
    by (auto simp: bridged_def list_ex_iff smoothing_of_def)
  then show ?thesis using stints_of_members [of _ segments key] unfolding short_gap_def list_ex_iff by blast
qed

definition sole_pallet ::
    "work_segment list \<Rightarrow> (string \<times> datetime list) list option \<Rightarrow> person_key \<Rightarrow> string \<Rightarrow> datetime \<Rightarrow> bool" where
  "sole_pallet segments meter key wc t =
     ((case meter of None \<Rightarrow> False
       | Some by_wc \<Rightarrow> (case map_of by_wc wc of None \<Rightarrow> False | Some ts \<Rightarrow> t \<in> set ts)) \<and>
      \<not> list_ex (\<lambda>s. person_key_of s \<noteq> key \<and> ws_wc s = wc \<and> stint_covers s t) segments)"

lemma own_sole: "own_pallet (smoothing_of segments meter metered limit) key wc t = sole_pallet segments meter key wc t"
  by (auto simp: own_pallet_def sole_pallet_def smoothing_of_def others_at_def dict_get_group_by list_ex_iff split: option.splits)

lemma everyone_sound:
  "sound (smoothing_of segments meter metered limit) (dict_get blocked key []) key (sort_key stint_key (stints_of segments key))
     (smooth_person (smoothing_of segments meter metered limit) (dict_get blocked key []) (stints_of segments key))"
  by (rule smooth_person_sound [OF of_person_stints])

lemma smoothed_only_gaps:
  "at_work (smooth_quick_punches segments blocked meter metered limit) key t \<Longrightarrow>
     at_work segments key t \<or> short_gap segments key (dict_get blocked key []) limit t"
  using everyone_sound [of segments meter metered limit blocked key] bridged_stints [of segments meter metered limit]
  unfolding sound_def worked_stints worked_smoothed by blast

lemma work_stays:
  assumes "s \<in> set segments" and "stint_covers s t"
    and "ws_end s - ws_start s > limit \<or> sole_pallet segments meter (person_key_of s) (ws_wc s) t"
  shows "\<exists>s' \<in> set (smooth_quick_punches segments blocked meter metered limit).
    person_key_of s' = person_key_of s \<and> ws_wc s' = ws_wc s \<and> stint_covers s' t"
proof -
  let ?c = "smoothing_of segments meter metered limit" and ?key = "person_key_of s"
  obtain i where "(i, s) \<in> set (stints_of segments ?key)" using assms(1) stints_of_members by blast
  moreover have "anchored ?c s t" using assms(2,3) by (auto simp: anchored_def own_sole) (simp add: smoothing_of_def)
  ultimately have "anchored_at ?c (sort_key stint_key (stints_of segments ?key)) (ws_wc s) t"
    by (force simp: anchored_at_def list_ex_iff)
  then have "anchored_at ?c (smooth_person ?c (dict_get blocked ?key []) (stints_of segments ?key)) (ws_wc s) t"
    using everyone_sound [of segments meter metered limit blocked ?key] unfolding sound_def by blast
  then obtain x where x: "x \<in> set (smooth_person ?c (dict_get blocked ?key []) (stints_of segments ?key))"
    "ws_wc (snd x) = ws_wc s" "stint_covers (snd x) t" by (auto simp: anchored_at_def list_ex_iff anchored_def)
  have "person_key_of (snd x) = ?key" by (rule smooth_person_of [OF x(1)])
  then have "snd x \<in> set (smooth_quick_punches segments blocked meter metered limit)"
    unfolding smooth_members using x(1) by (metis prod.collapse)
  then show ?thesis using x \<open>person_key_of (snd x) = ?key\<close> by blast
qed

section \<open>A morning\<close>

definition demo_stint :: "int \<Rightarrow> string \<Rightarrow> int \<Rightarrow> int \<Rightarrow> work_segment" where
  "demo_stint person wc a b =
     \<lparr>ws_wc = wc, ws_person = ''P'', ws_start = minutes a, ws_end = minutes b, ws_source = ''odoo'', ws_person_id = Some person\<rparr>"

definition demo_morning :: "work_segment list" where
  "demo_morning = [demo_stint 1 ''Saw'' 0 10, demo_stint 2 ''Drill'' 0 10, demo_stint 1 ''Press'' 10 11,
     demo_stint 2 ''Press'' 10 11, demo_stint 1 ''Saw'' 11 20, demo_stint 2 ''Drill'' 11 20]"

section \<open>The properties\<close>

text \<open>
  C24. Smoothing keeps all worked time and adds only short gaps: whoever is at work at an instant of the
  input is at work at it in the result; and an instant the result adds for a person lies between
  two of that person's input stints that are at most the limit apart, in a gap that no blocking
  window of that person overlaps.
\<close>

theorem smoothing_keeps_time:
  "(at_work segments key t \<longrightarrow> at_work (smooth_quick_punches segments blocked meter metered limit) key t) \<and>
   (at_work (smooth_quick_punches segments blocked meter metered limit) key t \<longrightarrow>
      at_work segments key t \<or> short_gap segments key (dict_get blocked key []) limit t)"
  using everyone_sound [of segments meter metered limit blocked key] smoothed_only_gaps
  unfolding sound_def worked_stints worked_smoothed by blast

theorem smoothing_keeps_time_witness:
  "at_work (smooth_quick_punches demo_morning [] None None quick_punch_limit) (By_Id 1) (minutes 5)"
proof -
  have "at_work demo_morning (By_Id 1) (minutes 5)" by code_simp
  then show ?thesis using smoothing_keeps_time [of demo_morning "By_Id 1" "minutes 5" "[]" None None quick_punch_limit] by blast
qed

text \<open>
  C25. Real work stays at its station: an instant of a stint longer than the limit, and the instant of a
  pallet at the stint's station that nobody else was there for, is after smoothing still an instant
  of the same person at the same station.
\<close>

theorem real_work_stays:
  assumes "s \<in> set segments" and "stint_covers s t"
    and "ws_end s - ws_start s > limit \<or> sole_pallet segments meter (person_key_of s) (ws_wc s) t"
  shows "\<exists>s' \<in> set (smooth_quick_punches segments blocked meter metered limit).
    person_key_of s' = person_key_of s \<and> ws_wc s' = ws_wc s \<and> stint_covers s' t"
  by (rule work_stays [OF assms])

theorem real_work_stays_witness:
  "\<exists>s' \<in> set (smooth_quick_punches demo_morning [] None None quick_punch_limit).
    person_key_of s' = By_Id 1 \<and> ws_wc s' = ''Saw'' \<and> stint_covers s' (minutes 15)"
  using real_work_stays [of "demo_stint 1 ''Saw'' 11 20" demo_morning "minutes 15" quick_punch_limit None "[]" None]
  by (simp add: demo_morning_def demo_stint_def stint_covers_def quick_punch_limit_def minutes_def person_key_of_def)

text \<open>
  C26. The came-back rule runs to its fixed point in one pass: on the disjoint stints of one person its
  result admits no further merge, so running the rule again changes nothing.
\<close>

theorem came_back_fixed_point:
  assumes "chained stints" and "of_person key stints"
  shows "settled c blocked (apply_came_back c blocked stints) \<and>
    apply_came_back c blocked (apply_came_back c blocked stints) = apply_came_back c blocked stints"
  using came_back_settles [OF assms] settled_unchanged by blast

theorem came_back_fixed_point_witness:
  "apply_came_back (smoothing_of demo_morning None None quick_punch_limit) []
     (apply_came_back (smoothing_of demo_morning None None quick_punch_limit) [] (stints_of demo_morning (By_Id 1)))
   = [(0, demo_stint 1 ''Saw'' 0 20)]"
proof -
  have ch: "chained (stints_of demo_morning (By_Id 1))" by code_simp
  have "apply_came_back (smoothing_of demo_morning None None quick_punch_limit) [] (stints_of demo_morning (By_Id 1))
      = [(0, demo_stint 1 ''Saw'' 0 20)]" by code_simp
  then show ?thesis using came_back_fixed_point [OF ch of_person_stints, of "smoothing_of demo_morning None None quick_punch_limit" "[]"] by simp
qed

text \<open>
  A pallet that two people's blips cover is lost: each blip counts the other as cover, both are
  merged away, and afterwards nobody is at the station when the pallet was made.
\<close>

theorem mutual_cover_loses_pallet:
  "stint_covers (demo_stint 1 ''Press'' 10 11) (minutes 10) \<and>
   \<not> list_ex (\<lambda>s. ws_wc s = ''Press'' \<and> stint_covers s (minutes 10))
       (smooth_quick_punches demo_morning [] (Some [(''Press'', [minutes 10])]) None quick_punch_limit)"
  by code_simp

end
