(* ===== verification/Work_Segments.thy ===== *)
theory Work_Segments
  imports Quick_Punch Attendance_Timeline
begin

text \<open>
  Who worked where, when (\<open>assignment_windows.py\<close>): location spans turned into clipped segments, and
  schedule, punches and attributions merged into closed segments.
\<close>

section \<open>Segments from the timeline\<close>

definition smoothing_blocking :: "location_status \<Rightarrow> bool" where
  "smoothing_blocking st = (st \<in> {Conflicting_Location, Unmapped_Location, Stale_Open_Location})"

definition blocking_windows :: "location_span list \<Rightarrow> (person_key \<times> (datetime \<times> datetime) list) list" where
  "blocking_windows spans =
     map (\<lambda>(key, group). (key, map (\<lambda>sp. (ls_start sp, ls_end sp)) group))
       (group_by (\<lambda>sp. By_Id (ls_employee_id sp)) (filter (\<lambda>sp. smoothing_blocking (ls_status sp)) spans))"

text \<open>An instant with its UTC offset, absent when the datetime is naive.\<close>

type_synonym moment = "datetime \<times> timedelta option"

definition validate_window :: "moment \<Rightarrow> moment \<Rightarrow> unit result" where
  "validate_window start fin =
     (if snd start = None \<or> snd fin = None then Inl (TypeError ''timeline window boundaries must be timezone-aware'')
      else guard_error (fst fin \<le> fst start) (ValueError ''timeline window must have positive duration''))"

definition valid_segment :: "location_span \<Rightarrow> work_segment option" where
  "valid_segment sp =
     (case ls_app_work_center sp of
        None \<Rightarrow> None
      | Some wc \<Rightarrow>
          if ls_status sp \<noteq> Valid_Location \<or> wc = [] then None
          else Some \<lparr>ws_wc = wc, ws_person = ls_employee_name sp, ws_start = ls_start sp, ws_end = ls_end sp,
                     ws_source = ''odoo'', ws_person_id = Some (ls_employee_id sp)\<rparr>)"

definition clip_segment :: "datetime \<Rightarrow> datetime \<Rightarrow> work_segment \<Rightarrow> work_segment option" where
  "clip_segment window_start window_end s =
     (let a = max (ws_start s) window_start; b = min (ws_end s) window_end
      in if b \<le> a then None else Some (s\<lparr>ws_start := a, ws_end := b\<rparr>))"

text \<open>
  \<open>metered\<close> stands for \<open>staffing.metered_work_center_names\<close>, whose failure leaves the real punches;
  without \<open>smooth\<close> it is not consulted.
\<close>

definition smoothed_stints ::
    "location_span list \<Rightarrow> (string \<times> datetime list) list option \<Rightarrow> string list result \<Rightarrow> bool \<Rightarrow>
     work_segment list \<Rightarrow> work_segment list" where
  "smoothed_stints spans meter metered smooth raw =
     (if \<not> smooth then raw
      else case metered of
             Inl _ \<Rightarrow> raw
           | Inr names \<Rightarrow> smooth_quick_punches raw (blocking_windows spans) meter (Some names) quick_punch_limit)"

definition work_segments_from_timeline ::
    "location_span list \<Rightarrow> moment \<Rightarrow> moment \<Rightarrow> (string \<times> datetime list) list option \<Rightarrow>
     string list result \<Rightarrow> bool \<Rightarrow> work_segment list result" where
  "work_segments_from_timeline spans window_start window_end meter metered smooth =
     rbind (validate_window window_start window_end) (\<lambda>_.
       Inr (List.map_filter (clip_segment (fst window_start) (fst window_end))
              (smoothed_stints spans meter metered smooth (List.map_filter valid_segment spans))))"

section \<open>Schedule, punches and attributions\<close>

record attribution =
  at_wc :: string
  at_person :: string
  at_start :: datetime
  at_end :: "datetime option"

text \<open>A window of one person: the work center, its start, its end if it has one, and its source.\<close>

record window =
  wi_wc :: string
  wi_start :: datetime
  wi_end :: "datetime option"
  wi_source :: string

definition add_window :: "string list \<Rightarrow> string \<times> window \<Rightarrow> (string \<times> window list) list \<Rightarrow> (string \<times> window list) list" where
  "add_window excluded pw raw =
     (if fst pw \<in> set excluded then raw else dict_push (fst pw) (snd pw) raw)"

definition schedule_windows ::
    "(string \<times> string list) list \<Rightarrow> string list \<Rightarrow> string \<Rightarrow> datetime \<Rightarrow> (string \<times> window) list" where
  "schedule_windows assignments punched time_off_key shift_start =
     concat (map (\<lambda>(wc, ops).
       if wc = time_off_key \<or> ops = [] then []
       else map (\<lambda>p. (p, \<lparr>wi_wc = wc, wi_start = shift_start, wi_end = None, wi_source = ''schedule''\<rparr>))
              (filter (\<lambda>p. p \<notin> set punched) ops)) assignments)"

definition punch_windows_of ::
    "(string \<times> (string option \<times> datetime \<times> datetime option) list) list \<Rightarrow> (string \<times> window) list" where
  "punch_windows_of punches =
     concat (map (\<lambda>(p, windows).
       concat (map (\<lambda>(wc, start, fin).
         case wc of None \<Rightarrow> [] | Some [] \<Rightarrow> []
         | Some w \<Rightarrow> [(p, \<lparr>wi_wc = w, wi_start = start, wi_end = fin, wi_source = ''punch''\<rparr>)]) windows)) punches)"

definition attribution_windows :: "attribution list \<Rightarrow> string list \<Rightarrow> (string \<times> window) list" where
  "attribution_windows attributions punched =
     map (\<lambda>a. (at_person a, \<lparr>wi_wc = at_wc a, wi_start = at_start a, wi_end = at_end a, wi_source = ''attribution''\<rparr>))
       (filter (\<lambda>a. at_person a \<notin> set punched) attributions)"

definition segment_of :: "string \<Rightarrow> string \<Rightarrow> datetime \<Rightarrow> datetime \<Rightarrow> string \<Rightarrow> work_segment" where
  "segment_of wc person start fin source =
     \<lparr>ws_wc = wc, ws_person = person, ws_start = start, ws_end = fin, ws_source = source, ws_person_id = None\<rparr>"

text \<open>Windows in order of start, each closed at its end, the next start or the cap.\<close>

fun close_windows :: "datetime \<Rightarrow> datetime \<Rightarrow> string \<Rightarrow> window list \<Rightarrow> work_segment list" where
  "close_windows shift_start cap person [] = []"
| "close_windows shift_start cap person (w # ws) =
     (let start = max (wi_start w) shift_start;
          open_end = (case wi_end w of Some e \<Rightarrow> e | None \<Rightarrow> cap);
          next_end = (case ws of [] \<Rightarrow> open_end | n # _ \<Rightarrow> min open_end (wi_start n));
          fin = min next_end cap
      in (if fin \<le> start then [] else [segment_of (wi_wc w) person start fin (wi_source w)])
         @ close_windows shift_start cap person ws)"

text \<open>The scheduled center before, between and after the detours.\<close>

fun around_detours :: "string \<Rightarrow> string \<Rightarrow> datetime \<Rightarrow> datetime \<Rightarrow> work_segment list \<Rightarrow> work_segment list" where
  "around_detours wc person cap cursor [] =
     (if cursor < cap then [segment_of wc person cursor cap ''schedule''] else [])"
| "around_detours wc person cap cursor (d # ds) =
     (if cursor < ws_start d then [segment_of wc person cursor (ws_start d) ''schedule''] else [])
     @ d # around_detours wc person cap (max cursor (ws_end d)) ds"

definition resolve_person :: "datetime \<Rightarrow> datetime \<Rightarrow> string \<Rightarrow> window list \<Rightarrow> work_segment list" where
  "resolve_person shift_start cap person windows =
     (let items = sort_key wi_start windows;
          scheduled = filter (\<lambda>w. wi_source w = ''schedule'') items;
          attributed = filter (\<lambda>w. wi_source w = ''attribution'') items
      in if length scheduled = 1 \<and> attributed \<noteq> []
         then around_detours (wi_wc (hd scheduled)) person cap shift_start
                (close_windows shift_start cap person attributed)
         else close_windows shift_start cap person items)"

definition windows_by_person ::
    "(string \<times> string list) list \<Rightarrow> attribution list \<Rightarrow>
     (string \<times> (string option \<times> datetime \<times> datetime option) list) list \<Rightarrow> datetime \<Rightarrow> string \<Rightarrow> string list \<Rightarrow>
     (string \<times> window list) list" where
  "windows_by_person assignments attributions punches shift_start time_off_key excluded =
     (let punched = map fst punches
      in foldl (\<lambda>raw pw. add_window excluded pw raw) []
           (schedule_windows assignments punched time_off_key shift_start @ punch_windows_of punches
            @ attribution_windows attributions punched))"

definition resolve_segments ::
    "(string \<times> string list) list \<Rightarrow> attribution list \<Rightarrow>
     (string \<times> (string option \<times> datetime \<times> datetime option) list) list \<Rightarrow> datetime \<Rightarrow> datetime \<Rightarrow> string \<Rightarrow>
     string list \<Rightarrow> work_segment list" where
  "resolve_segments assignments attributions punches shift_start cap time_off_key excluded =
     concat (map (\<lambda>(person, windows). resolve_person shift_start cap person windows)
       (windows_by_person assignments attributions punches shift_start time_off_key excluded))"

section \<open>Operator labels\<close>

fun join_plus :: "string list \<Rightarrow> string" where
  "join_plus [] = []"
| "join_plus [n] = n"
| "join_plus (n # m # ns) = n @ '' + '' @ join_plus (m # ns)"

text \<open>Names in order of first appearance.\<close>

definition add_name :: "string \<Rightarrow> string list \<Rightarrow> string list" where
  "add_name n names = (if n \<in> set names then names else names @ [n])"

definition who_by_wc :: "work_segment list \<Rightarrow> (string \<times> string) list" where
  "who_by_wc segments =
     map (\<lambda>(wc, group). (wc, join_plus (foldl (\<lambda>names s. add_name (ws_person s) names) [] group)))
       (group_by ws_wc (sort_key (\<lambda>s. (ws_wc s, ws_start s)) segments))"

definition current_who_by_wc :: "work_segment list \<Rightarrow> datetime \<Rightarrow> (string \<times> string) list" where
  "current_who_by_wc segments cap = who_by_wc (filter (\<lambda>s. ws_end s = cap) segments)"

definition dashboard_who_by_wc :: "work_segment list \<Rightarrow> datetime \<Rightarrow> bool \<Rightarrow> (string \<times> string) list" where
  "dashboard_who_by_wc segments cap is_live =
     (if is_live then current_who_by_wc segments cap else who_by_wc segments)"

end
