(* ===== verification/Work_Claims.thy ===== *)
theory Work_Claims
  imports Work_Segments Quick_Punch_Claims Timeline_Claims
begin

text \<open>
  The properties of \<open>assignment_windows.py\<close>: segments from the timeline stay in their window and away
  from blocked locations; resolved segments stay in the shift, put nobody in two places, and keep a
  scheduled person somewhere at every instant.
\<close>

section \<open>Segments from the timeline\<close>

lemma map_filter_members: "y \<in> set (List.map_filter f xs) \<longleftrightarrow> (\<exists>x \<in> set xs. f x = Some y)"
  by (induction xs) (auto simp: List.map_filter_def split: option.splits)

lemma clip_facts:
  "clip_segment a b s = Some s' \<Longrightarrow> a \<le> ws_start s' \<and> ws_start s' < ws_end s' \<and> ws_end s' \<le> b \<and>
     person_key_of s' = person_key_of s \<and> ws_wc s' = ws_wc s"
  by (auto simp: clip_segment_def Let_def person_key_of_def split: if_splits option.splits)

lemma clip_covers:
  "(\<exists>s'. clip_segment a b s = Some s' \<and> stint_covers s' t) \<longleftrightarrow> stint_covers s t \<and> a \<le> t \<and> t < b"
  by (auto simp: clip_segment_def Let_def stint_covers_def)

lemma clip_list:
  "list_ex (\<lambda>s. P (person_key_of s) (ws_wc s) \<and> stint_covers s t) (List.map_filter (clip_segment a b) xs) \<longleftrightarrow>
     a \<le> t \<and> t < b \<and> list_ex (\<lambda>s. P (person_key_of s) (ws_wc s) \<and> stint_covers s t) xs"
proof (induction xs)
  case (Cons x xs)
  show ?case
  proof (cases "clip_segment a b x")
    case None
    then have "\<not> (stint_covers x t \<and> a \<le> t \<and> t < b)" using clip_covers [of a b x t] by auto
    then show ?thesis using Cons None by (auto simp: List.map_filter_def)
  next
    case (Some y)
    then have "stint_covers y t \<longleftrightarrow> stint_covers x t \<and> a \<le> t \<and> t < b" using clip_covers [of a b x t] by auto
    then show ?thesis using Cons Some clip_facts [OF Some] by (auto simp: List.map_filter_def)
  qed
qed (simp add: List.map_filter_def)

lemma valid_facts:
  "valid_segment sp = Some s \<longleftrightarrow>
     ls_status sp = Valid_Location \<and> ws_wc s \<noteq> [] \<and> ls_app_work_center sp = Some (ws_wc s) \<and>
     s = \<lparr>ws_wc = ws_wc s, ws_person = ls_employee_name sp, ws_start = ls_start sp, ws_end = ls_end sp,
          ws_source = ''odoo'', ws_person_id = Some (ls_employee_id sp)\<rparr>"
  by (auto simp: valid_segment_def split: option.splits if_splits)

lemma valid_person: "valid_segment sp = Some s \<Longrightarrow> person_key_of s = By_Id (ls_employee_id sp)"
  unfolding valid_facts by (metis option.case(2) person_key_of_def work_segment.select_convs(6))

lemma valid_covers: "valid_segment sp = Some s \<Longrightarrow> stint_covers s t \<longleftrightarrow> covers sp t"
  unfolding valid_facts covers_def stint_covers_def by (metis work_segment.select_convs(3,4))

lemma segments_run:
  assumes "work_segments_from_timeline spans a b meter metered smooth = Inr segments"
  shows "segments = List.map_filter (clip_segment (fst a) (fst b))
      (smoothed_stints spans meter metered smooth (List.map_filter valid_segment spans))"
  using assms by (auto simp: work_segments_from_timeline_def rbind_Inr_iff)

lemma segments_exist:
  "validate_window a b = Inr () \<Longrightarrow> \<exists>segments. work_segments_from_timeline spans a b meter metered smooth = Inr segments"
  by (simp add: work_segments_from_timeline_def)

lemma blocked_lookup:
  assumes "sp \<in> set spans" "smoothing_blocking (ls_status sp)"
  shows "(ls_start sp, ls_end sp) \<in> set (dict_get (blocking_windows spans) (By_Id (ls_employee_id sp)) [])"
proof -
  let ?key = "\<lambda>sp. By_Id (ls_employee_id sp)" and ?bad = "filter (\<lambda>sp. smoothing_blocking (ls_status sp)) spans"
  have "map_of (blocking_windows spans) k = map_option (map (\<lambda>sp. (ls_start sp, ls_end sp))) (map_of (group_by ?key ?bad) k)" for k
    unfolding blocking_windows_def by (induction "group_by ?key ?bad") (auto simp: map_of_map)
  moreover have "sp \<in> set (dict_get (group_by ?key ?bad) (?key sp) [])"
    using assms by (simp add: dict_get_group_by)
  ultimately show ?thesis by (auto simp: dict_get_def split: option.splits)
qed

lemma disjoint_spans:
  assumes "ordered_spans spans" "a \<in> set spans" "b \<in> set spans" "covers a t" "covers b t"
  shows "a = b"
proof (rule ccontr)
  assume "a \<noteq> b"
  then have "ls_end a \<le> ls_start b \<or> ls_end b \<le> ls_start a"
    using assms(1-3) by (induction spans) (auto simp: ordered_spans_def)
  then show False using assms(4,5) by (auto simp: covers_def)
qed

lemma projected_order: "calendar_ok pr \<Longrightarrow> project_rows pr rows = Inr spans \<Longrightarrow> ordered_spans (spans_of e spans)"
  using project_rows_parts employee_projection by (metis (no_types, lifting))

lemma blocked_not_worked:
  assumes "calendar_ok pr" and "project_rows pr rows = Inr spans"
    and "sp \<in> set spans" and "smoothing_blocking (ls_status sp)" and "covers sp t"
  shows "\<not> at_work (List.map_filter valid_segment spans) (By_Id (ls_employee_id sp)) t"
proof
  let ?e = "ls_employee_id sp"
  assume "at_work (List.map_filter valid_segment spans) (By_Id ?e) t"
  then obtain q s where q: "q \<in> set spans" "valid_segment q = Some s" "person_key_of s = By_Id ?e" "stint_covers s t"
    unfolding at_work_def list_ex_iff Bex_def map_filter_members by blast
  then have "q \<in> set (spans_of ?e spans)" "covers q t" using valid_person valid_covers by (auto simp: spans_of_def)
  moreover have "sp \<in> set (spans_of ?e spans)" using assms(3) by (simp add: spans_of_def)
  ultimately have "q = sp" using disjoint_spans [OF projected_order [OF assms(1,2)]] assms(5) by blast
  then show False using q(2) assms(4) by (auto simp: valid_facts smoothing_blocking_def)
qed

lemma blocked_not_bridged:
  assumes "sp \<in> set spans" and "smoothing_blocking (ls_status sp)" and "covers sp t"
  shows "\<not> short_gap raw (By_Id (ls_employee_id sp)) (dict_get (blocking_windows spans) (By_Id (ls_employee_id sp)) []) limit t"
  using blocked_lookup [OF assms(1,2)] assms(3)
  by (fastforce simp: short_gap_def list_ex_iff crosses_blocked_def covers_def)

section \<open>Windows by person\<close>

lemma windows_fold:
  "distinct (map fst (foldl (\<lambda>raw pw. add_window excluded pw raw) [] xs)) \<and>
   dict_get (foldl (\<lambda>raw pw. add_window excluded pw raw) [] xs) p [] =
     (if p \<in> set excluded then [] else map snd (filter (\<lambda>pw. fst pw = p) xs)) \<and>
   (p \<in> fst ` set (foldl (\<lambda>raw pw. add_window excluded pw raw) [] xs) \<longleftrightarrow> p \<notin> set excluded \<and> p \<in> fst ` set xs)"
proof (induction xs rule: rev_induct)
  case (snoc x xs)
  then show ?case
    by (auto simp: add_window_def dict_get_push keys_dict_push distinct_dict_push)
qed simp

definition all_windows ::
    "(string \<times> string list) list \<Rightarrow> attribution list \<Rightarrow>
     (string \<times> (string option \<times> datetime \<times> datetime option) list) list \<Rightarrow> datetime \<Rightarrow> string \<Rightarrow> (string \<times> window) list" where
  "all_windows assignments attributions punches shift_start time_off_key =
     schedule_windows assignments (map fst punches) time_off_key shift_start @ punch_windows_of punches
     @ attribution_windows attributions (map fst punches)"

definition windows_of :: "string \<Rightarrow> (string \<times> window) list \<Rightarrow> window list" where
  "windows_of p xs = map snd (filter (\<lambda>pw. fst pw = p) xs)"

lemma resolve_person_person: "s \<in> set (resolve_person shift cap p ws) \<Longrightarrow> ws_person s = p"
proof -
  have close: "s \<in> set (close_windows shift cap p ws) \<Longrightarrow> ws_person s = p" for s ws
    by (induction shift cap p ws rule: close_windows.induct) (auto simp: segment_of_def Let_def split: if_splits)
  have "s \<in> set (around_detours wc p cap c ds) \<Longrightarrow> \<forall>d \<in> set ds. ws_person d = p \<Longrightarrow> ws_person s = p" for s wc c ds
    by (induction wc p cap c ds rule: around_detours.induct) (auto simp: segment_of_def split: if_splits)
  then show "s \<in> set (resolve_person shift cap p ws) \<Longrightarrow> ws_person s = p"
    using close by (auto simp: resolve_person_def Let_def split: if_splits)
qed

lemma resolve_person_Nil [simp]: "resolve_person shift cap p [] = []"
  by (simp add: resolve_person_def)

text \<open>The segments of one person are what that person's windows resolve to.\<close>

lemma resolved_of:
  "filter (\<lambda>s. ws_person s = p) (resolve_segments assignments attributions punches shift cap key excluded) =
     (if p \<in> set excluded then []
      else resolve_person shift cap p (windows_of p (all_windows assignments attributions punches shift key)))"
proof -
  let ?xs = "all_windows assignments attributions punches shift key"
  let ?raw = "foldl (\<lambda>raw pw. add_window excluded pw raw) [] ?xs"
  have all: "windows_by_person assignments attributions punches shift key excluded = ?raw"
    by (simp add: windows_by_person_def Let_def all_windows_def)
  have pick: "filter (\<lambda>s. ws_person s = p) (concat (map (\<lambda>(q, ws). resolve_person shift cap q ws) d)) =
      (case map_of d p of None \<Rightarrow> [] | Some ws \<Rightarrow> resolve_person shift cap p ws)" if "distinct (map fst d)" for d
    using that
  proof (induction d)
    case (Cons qw d)
    obtain q ws where qw: "qw = (q, ws)" by (cases qw)
    show ?case
    proof (cases "q = p")
      case True
      then have "map_of d p = None" using Cons.prems qw by (auto simp: map_of_eq_None_iff)
      moreover have "filter (\<lambda>s. ws_person s = p) (resolve_person shift cap q ws) = resolve_person shift cap q ws"
        using resolve_person_person True by (fastforce simp: filter_id_conv)
      ultimately show ?thesis using Cons qw True by simp
    next
      case False
      then have "filter (\<lambda>s. ws_person s = p) (resolve_person shift cap q ws) = []"
        using resolve_person_person by (fastforce simp: filter_empty_conv)
      then show ?thesis using Cons qw False by simp
    qed
  qed simp
  have "(case map_of ?raw p of None \<Rightarrow> [] | Some ws \<Rightarrow> resolve_person shift cap p ws) = resolve_person shift cap p (dict_get ?raw p [])"
    by (simp add: dict_get_def split: option.splits)
  then show ?thesis using windows_fold [of excluded ?xs p]
    by (simp add: resolve_segments_def all pick windows_of_def)
qed

section \<open>Closing windows\<close>

definition ordered_segments :: "datetime \<Rightarrow> datetime \<Rightarrow> work_segment list \<Rightarrow> bool" where
  "ordered_segments lo hi segments =
     (sorted_wrt (\<lambda>a b. ws_end a \<le> ws_start b) segments \<and>
      (\<forall>s \<in> set segments. lo \<le> ws_start s \<and> ws_start s < ws_end s \<and> ws_end s \<le> hi))"

lemma closed_start:
  assumes "sorted (map wi_start ws)" "\<forall>w \<in> set ws. lo \<le> wi_start w" "s \<in> set (close_windows shift cap p ws)"
  shows "lo \<le> ws_start s"
  using assms by (induction shift cap p ws rule: close_windows.induct) (auto simp: segment_of_def Let_def split: if_splits)

lemma closed_ordered:
  "sorted (map wi_start ws) \<Longrightarrow> ordered_segments shift cap (close_windows shift cap p ws)"
proof (induction shift cap p ws rule: close_windows.induct)
  case (2 shift cap p w ws)
  have IH: "ordered_segments shift cap (close_windows shift cap p ws)" using 2 by simp
  let ?e = "case wi_end w of Some e \<Rightarrow> e | None \<Rightarrow> cap"
  let ?fin = "min (case ws of [] \<Rightarrow> ?e | n # _ \<Rightarrow> min ?e (wi_start n)) cap"
  have "?fin \<le> ws_start s" if s: "s \<in> set (close_windows shift cap p ws)" for s
  proof (cases ws)
    case (Cons n ns)
    have "wi_start n \<le> ws_start s"
      by (rule closed_start [OF _ _ s]) (use 2(2) Cons in auto)
    then show ?thesis using Cons by simp
  qed (use s in simp)
  then show ?case using IH by (auto simp: ordered_segments_def Let_def segment_of_def)
qed (simp add: ordered_segments_def)

definition at_once :: "work_segment list \<Rightarrow> datetime \<Rightarrow> nat" where
  "at_once segments t = length (filter (\<lambda>s. stint_covers s t) segments)"

lemma at_once_simps [simp]:
  "at_once [] t = 0" "at_once (s # ss) t = (if stint_covers s t then 1 else 0) + at_once ss t"
  "at_once (ss @ us) t = at_once ss t + at_once us t"
  by (simp_all add: at_once_def)

lemma ordered_once: "ordered_segments lo hi segments \<Longrightarrow> at_once segments t \<le> (if lo \<le> t \<and> t < hi then 1 else 0)"
proof (induction segments arbitrary: lo)
  case (Cons s ss)
  have "ordered_segments (ws_end s) hi ss" using Cons.prems by (auto simp: ordered_segments_def)
  then have "at_once ss t \<le> (if ws_end s \<le> t \<and> t < hi then 1 else 0)" by (rule Cons.IH)
  then show ?case using Cons.prems by (auto simp: ordered_segments_def stint_covers_def split: if_splits)
qed simp

lemma around_once:
  "ordered_segments cursor cap ds \<Longrightarrow>
     at_once (around_detours wc p cap cursor ds) t = (if cursor \<le> t \<and> t < cap then 1 else 0)"
proof (induction wc p cap cursor ds rule: around_detours.induct)
  case (2 wc p cap cursor d ds)
  have d: "cursor \<le> ws_start d" "ws_start d < ws_end d" "ws_end d \<le> cap" using 2(2) by (auto simp: ordered_segments_def)
  then have m: "max cursor (ws_end d) = ws_end d" by simp
  have "ordered_segments (ws_end d) cap ds" using 2(2) by (auto simp: ordered_segments_def)
  then have "at_once (around_detours wc p cap (ws_end d) ds) t = (if ws_end d \<le> t \<and> t < cap then 1 else 0)"
    using 2(1) by (simp add: m)
  then show ?case using d by (auto simp: m stint_covers_def segment_of_def)
qed (auto simp: stint_covers_def segment_of_def)

lemma around_bounds:
  "ordered_segments cursor cap ds \<Longrightarrow> s \<in> set (around_detours wc p cap cursor ds) \<Longrightarrow>
     cursor \<le> ws_start s \<and> ws_start s < ws_end s \<and> ws_end s \<le> cap"
proof (induction wc p cap cursor ds rule: around_detours.induct)
  case (2 wc p cap cursor d ds)
  have d: "cursor \<le> ws_start d" "ws_start d < ws_end d" "ws_end d \<le> cap" using 2(2) by (auto simp: ordered_segments_def)
  then have m: "max cursor (ws_end d) = ws_end d" by simp
  have "ordered_segments (ws_end d) cap ds" using 2(2) by (auto simp: ordered_segments_def)
  then show ?case using 2 d by (auto simp: m segment_of_def split: if_splits)
qed (auto simp: segment_of_def split: if_splits)

lemma sorted_filter_starts: "sorted (map wi_start ws) \<Longrightarrow> sorted (map wi_start (filter P ws))"
  by (simp add: sorted_filter)

lemma person_once: "at_once (resolve_person shift cap p ws) t \<le> (if shift \<le> t \<and> t < cap then 1 else 0)"
proof -
  let ?items = "sort_key wi_start ws"
  have 1: "at_once (around_detours wc p cap shift (close_windows shift cap p (filter P ?items))) t = (if shift \<le> t \<and> t < cap then 1 else 0)" for wc P
    by (rule around_once [OF closed_ordered [OF sorted_filter_starts [OF sorted_sort_key]]])
  have 2: "at_once (close_windows shift cap p ?items) t \<le> (if shift \<le> t \<and> t < cap then 1 else 0)"
    by (rule ordered_once [OF closed_ordered [OF sorted_sort_key]])
  show ?thesis unfolding resolve_person_def Let_def using 2 by (subst if_distrib [of "\<lambda>x. at_once x t"], subst 1) (simp split: if_splits)
qed

lemma person_bounds:
  "s \<in> set (resolve_person shift cap p ws) \<Longrightarrow> shift \<le> ws_start s \<and> ws_start s < ws_end s \<and> ws_end s \<le> cap"
  using around_bounds [OF closed_ordered [OF sorted_filter_starts [OF sorted_sort_key]]]
    closed_ordered [OF sorted_sort_key [of wi_start ws], of shift cap p]
  by (auto simp: resolve_person_def Let_def ordered_segments_def split: if_splits)

lemma punch_only:
  assumes "\<forall>w \<in> set ws. wi_source w = ''punch''" and "s \<in> set (resolve_person shift cap p ws)"
  shows "ws_source s = ''punch''"
proof -
  have "filter (\<lambda>w. wi_source w = ''attribution'') (sort_key wi_start ws) = []"
    using assms(1) by (auto simp: filter_empty_conv)
  then have s: "s \<in> set (close_windows shift cap p (sort_key wi_start ws))"
    using assms(2) by (simp add: resolve_person_def Let_def)
  have "s \<in> set (close_windows shift cap p xs) \<Longrightarrow> \<forall>w \<in> set xs. wi_source w = ''punch'' \<Longrightarrow> ws_source s = ''punch''" for xs
    by (induction shift cap p xs rule: close_windows.induct) (auto simp: segment_of_def Let_def split: if_splits)
  then show ?thesis using s assms(1) by simp
qed

lemma punch_member:
  "(q, w) \<in> set (punch_windows_of punches) \<Longrightarrow> q \<in> set (map fst punches) \<and> wi_source w = ''punch''"
proof (induction punches)
  case (Cons pw punches)
  obtain q' ws where pw: "pw = (q', ws)" by (cases pw)
  have one: "q = q' \<and> wi_source w = ''punch''"
    if "(q, w) \<in> set (case wc of None \<Rightarrow> [] | Some [] \<Rightarrow> []
         | Some w \<Rightarrow> [(q', \<lparr>wi_wc = w, wi_start = start, wi_end = fin, wi_source = ''punch''\<rparr>)])" for wc start fin
  proof (cases wc)
    case (Some v)
    then show ?thesis using that by (cases v) auto
  qed (use that in simp)
  have all: "q = q' \<and> wi_source w = ''punch''" if "(q, w) \<in> set (punch_windows_of [(q', ws)])"
    using that
  proof (induction ws)
    case (Cons x ws)
    obtain wc start fin where x: "x = (wc, start, fin)" by (cases x)
    show ?case using Cons one [where wc = wc and start = start and fin = fin] unfolding x punch_windows_of_def
      by (simp only: list.map concat.simps append_Nil2 prod.case set_append Un_iff) blast
  qed (simp add: punch_windows_of_def)
  have "punch_windows_of (pw # punches) = punch_windows_of [(q', ws)] @ punch_windows_of punches"
    by (simp add: punch_windows_of_def pw)
  then show ?case using Cons all pw by auto
qed (simp add: punch_windows_of_def)

lemma schedule_member:
  "(q, w) \<in> set (schedule_windows assignments punched key shift) \<Longrightarrow>
     q \<notin> set punched \<and> wi_source w = ''schedule'' \<and> wi_start w = shift \<and> wi_end w = None"
  by (auto simp: schedule_windows_def split: if_splits)

lemma attribution_member:
  "(q, w) \<in> set (attribution_windows attributions punched) \<Longrightarrow> q \<notin> set punched \<and> wi_source w = ''attribution''"
  by (auto simp: attribution_windows_def)

lemma windows_of_member: "w \<in> set (windows_of p xs) \<longleftrightarrow> (p, w) \<in> set xs"
  by (force simp: windows_of_def)

lemma at_once_of:
  "length (filter (\<lambda>s. ws_person s = p \<and> stint_covers s t)
     (resolve_segments assignments attributions punches shift cap key excluded)) =
   (if p \<in> set excluded then 0
    else at_once (resolve_person shift cap p (windows_of p (all_windows assignments attributions punches shift key))) t)"
proof -
  have "filter (\<lambda>s. ws_person s = p \<and> stint_covers s t) xs = filter (\<lambda>s. stint_covers s t) (filter (\<lambda>s. ws_person s = p) xs)" for xs
    by (induction xs) auto
  then show ?thesis unfolding at_once_def
    by (simp only: resolved_of) simp
qed

lemma length_filter_sort_key: "length (filter P (sort_key k xs)) = length (filter P xs)"
  by (simp only: size_mset [symmetric] mset_filter mset_sort)

lemma scheduled_once:
  assumes one: "length (windows_of p (schedule_windows assignments (map fst punches) key shift)) = 1"
    and free: "p \<notin> set (map fst punches)"
  shows "at_once (resolve_person shift cap p (windows_of p (all_windows assignments attributions punches shift key))) t =
    (if shift \<le> t \<and> t < cap then 1 else 0)"
proof -
  let ?sched = "windows_of p (schedule_windows assignments (map fst punches) key shift)"
  let ?attr = "windows_of p (attribution_windows attributions (map fst punches))"
  have "w \<notin> set (windows_of p (punch_windows_of punches))" for w
    using free punch_member unfolding windows_of_member by blast
  then have none: "windows_of p (punch_windows_of punches) = []" by (cases "windows_of p (punch_windows_of punches)") auto
  have ws: "windows_of p (all_windows assignments attributions punches shift key) = ?sched @ ?attr"
    using none by (simp add: all_windows_def windows_of_def)
  have src: "\<forall>w \<in> set ?sched. wi_source w = ''schedule'' \<and> wi_start w = shift \<and> wi_end w = None"
    unfolding Ball_def windows_of_member by (intro allI impI) (drule schedule_member, simp)
  have att: "\<forall>w \<in> set ?attr. wi_source w = ''attribution''"
    unfolding Ball_def windows_of_member by (intro allI impI) (drule attribution_member, simp)
  obtain w where w: "?sched = [w]" using one by (auto simp: length_Suc_conv)
  let ?items = "sort_key wi_start (?sched @ ?attr)"
  have "length (filter (\<lambda>w. wi_source w = ''schedule'') ?items) = length (filter (\<lambda>w. wi_source w = ''schedule'') (?sched @ ?attr))"
    by (rule length_filter_sort_key)
  also have "\<dots> = 1"
  proof -
    have "filter (\<lambda>w. wi_source w = ''schedule'') ?attr = []" using att by (simp add: filter_empty_conv)
    moreover have "wi_source w = ''schedule''" using src w by simp
    ultimately show ?thesis by (simp add: w)
  qed
  finally have len: "length (filter (\<lambda>w. wi_source w = ''schedule'') ?items) = 1" .
  show ?thesis
  proof (cases "?attr = []")
    case True
    then show ?thesis using src unfolding ws w
      by (auto simp: resolve_person_def Let_def stint_covers_def segment_of_def)
  next
    case False
    then have ne: "filter (\<lambda>w. wi_source w = ''attribution'') ?items \<noteq> []"
      using bspec [OF att last_in_set [OF False]] last_in_set [OF False] by (auto simp: filter_empty_conv)
    show ?thesis unfolding ws resolve_person_def Let_def
      using len ne around_once [OF closed_ordered [OF sorted_filter_starts [OF sorted_sort_key]]] by simp
  qed
qed

section \<open>The properties\<close>

text \<open>
  C27. Segments from the timeline: every segment lies in the requested window with a positive duration,
  and without smoothing a person is at a work center at an instant of the window exactly when a
  valid span of the timeline places that employee there.
\<close>

theorem timeline_segments_pointwise:
  assumes "work_segments_from_timeline spans a b meter metered smooth = Inr segments"
  shows "list_all (\<lambda>s. fst a \<le> ws_start s \<and> ws_start s < ws_end s \<and> ws_end s \<le> fst b) segments \<and>
    (\<not> smooth \<longrightarrow>
      list_ex (\<lambda>s. person_key_of s = By_Id e \<and> ws_wc s = wc \<and> stint_covers s t) segments =
        (fst a \<le> t \<and> t < fst b \<and> wc \<noteq> [] \<and>
         list_ex (\<lambda>sp. ls_employee_id sp = e \<and> ls_status sp = Valid_Location \<and> ls_app_work_center sp = Some wc \<and> covers sp t) spans))"
proof -
  let ?raw = "List.map_filter valid_segment spans" and ?clip = "clip_segment (fst a) (fst b)"
  note run = segments_run [OF assms]
  have 1: "list_all (\<lambda>s. fst a \<le> ws_start s \<and> ws_start s < ws_end s \<and> ws_end s \<le> fst b) segments"
    unfolding run list_all_iff Ball_def map_filter_members using clip_facts by blast
  have one: "(\<exists>r. valid_segment sp = Some r \<and> (person_key_of r = By_Id e \<and> ws_wc r = wc) \<and> stint_covers r t) \<longleftrightarrow>
      wc \<noteq> [] \<and> ls_employee_id sp = e \<and> ls_status sp = Valid_Location \<and> ls_app_work_center sp = Some wc \<and> covers sp t" for sp
    by (auto simp: valid_segment_def person_key_of_def stint_covers_def covers_def split: option.splits)
  have "list_ex (\<lambda>s. (person_key_of s = By_Id e \<and> ws_wc s = wc) \<and> stint_covers s t) ?raw \<longleftrightarrow>
      (\<exists>sp \<in> set spans. \<exists>r. valid_segment sp = Some r \<and> (person_key_of r = By_Id e \<and> ws_wc r = wc) \<and> stint_covers r t)"
    unfolding list_ex_iff Bex_def map_filter_members by blast
  then have "list_ex (\<lambda>s. person_key_of s = By_Id e \<and> ws_wc s = wc \<and> stint_covers s t) (List.map_filter ?clip ?raw) \<longleftrightarrow>
      fst a \<le> t \<and> t < fst b \<and> wc \<noteq> [] \<and>
      list_ex (\<lambda>sp. ls_employee_id sp = e \<and> ls_status sp = Valid_Location \<and> ls_app_work_center sp = Some wc \<and> covers sp t) spans"
    using clip_list [of "\<lambda>k w. k = By_Id e \<and> w = wc" t "fst a" "fst b" ?raw] unfolding one by (auto simp: list_ex_iff)
  then show ?thesis using 1 unfolding run smoothed_stints_def by simp
qed

definition demo_span :: "int \<Rightarrow> int \<Rightarrow> location_status \<Rightarrow> string \<Rightarrow> location_span" where
  "demo_span a b st wc =
     \<lparr>ls_employee_id = 1, ls_employee_name = ''P'', ls_start = minutes a, ls_end = minutes b, ls_status = st,
      ls_app_work_center = Some wc, ls_odoo_work_center_id = None, ls_odoo_work_center_name = None,
      ls_attendance_ids = [4], ls_department_repair = None, ls_is_open = False\<rparr>"

definition demo_spans :: "location_span list" where
  "demo_spans = [demo_span 0 10 Valid_Location ''Saw'', demo_span 10 12 Conflicting_Location ''Saw'', demo_span 12 20 Valid_Location ''Saw'']"

theorem timeline_segments_pointwise_witness:
  "list_ex (\<lambda>s. person_key_of s = By_Id 1 \<and> ws_wc s = ''Saw'' \<and> stint_covers s (minutes 15))
     (case work_segments_from_timeline demo_spans (minutes 5, Some 0) (minutes 18, Some 0) None (Inr []) False of
        Inl _ \<Rightarrow> [] | Inr segments \<Rightarrow> segments)"
proof -
  obtain segments where run: "work_segments_from_timeline demo_spans (minutes 5, Some 0) (minutes 18, Some 0) None (Inr []) False = Inr segments"
    by (simp add: work_segments_from_timeline_def validate_window_def guard_error_def minutes_def)
  have "list_ex (\<lambda>sp. ls_employee_id sp = 1 \<and> ls_status sp = Valid_Location \<and> ls_app_work_center sp = Some ''Saw'' \<and> covers sp (minutes 15)) demo_spans"
    by (simp add: demo_spans_def demo_span_def covers_def minutes_def)
  then show ?thesis using timeline_segments_pointwise [OF run, of 1 "''Saw''" "minutes 15"] run by (simp add: minutes_def)
qed

text \<open>
  C28. Unknown time is never credited: for the spans of a projected feed, no segment of an employee,
  smoothed or not, covers an instant at which the timeline has that employee in a conflicting,
  unmapped or stale location.
\<close>

theorem blocked_time_is_never_credited:
  assumes "calendar_ok pr" and "project_rows pr rows = Inr spans"
    and "work_segments_from_timeline spans a b meter metered smooth = Inr segments"
    and "sp \<in> set spans" and "smoothing_blocking (ls_status sp)" and "covers sp t"
  shows "\<not> list_ex (\<lambda>s. person_key_of s = By_Id (ls_employee_id sp) \<and> stint_covers s t) segments"
proof -
  let ?e = "ls_employee_id sp" and ?raw = "List.map_filter valid_segment spans"
  note raw = blocked_not_worked [OF assms(1,2,4,5,6)]
  note gap = blocked_not_bridged [OF assms(4,5,6)]
  have smoothed: "\<not> at_work (smooth_quick_punches ?raw (blocking_windows spans) meter names limit) (By_Id ?e) t" for names limit
    using raw gap smoothed_only_gaps by blast
  have "\<not> at_work (smoothed_stints spans meter metered smooth ?raw) (By_Id ?e) t"
    using raw smoothed by (auto simp: smoothed_stints_def split: sum.splits)
  then show ?thesis
    using clip_list [of "\<lambda>k w. k = By_Id ?e" t "fst a" "fst b"] unfolding segments_run [OF assms(3)] at_work_def by simp
qed

theorem blocked_time_is_never_credited_witness:
  "\<exists>spans segments. project_rows demo_projection demo_rows = Inr spans \<and>
     work_segments_from_timeline spans (minutes 400, Some 0) (minutes 600, Some 0) None (Inr [''Trim'']) True = Inr segments \<and>
     \<not> list_ex (\<lambda>s. person_key_of s = By_Id 7 \<and> stint_covers s (minutes 520)) segments"
proof -
  obtain spans where spans: "project_rows demo_projection demo_rows = Inr spans"
    "map (\<lambda>sp. (ls_employee_id sp, ls_start sp, ls_end sp, ls_status sp)) spans =
       [(7, minutes 420, minutes 500, Valid_Location), (7, minutes 500, minutes 560, Unmapped_Location),
        (8, minutes 430, minutes 435, Pending_First_Location),
        (8, minutes 435, minutes 600, Missing_Required_Location)]"
    using demo_projected by (elim exE conjE) (rule that)
  have window_ok: "validate_window (minutes 400, Some 0) (minutes 600, Some 0) = Inr ()"
    by (simp add: validate_window_def guard_error_def minutes_def)
  obtain segments where run: "work_segments_from_timeline spans (minutes 400, Some 0) (minutes 600, Some 0) None (Inr [''Trim'']) True = Inr segments"
    using segments_exist [OF window_ok] by blast
  have "(7, minutes 500, minutes 560, Unmapped_Location) \<in> set (map (\<lambda>sp. (ls_employee_id sp, ls_start sp, ls_end sp, ls_status sp)) spans)"
    unfolding spans(2) by simp
  then obtain sp where sp: "sp \<in> set spans" "ls_employee_id sp = 7" "ls_start sp = minutes 500" "ls_end sp = minutes 560" "ls_status sp = Unmapped_Location"
    unfolding set_map by (elim imageE) (rule that, auto)
  have "\<not> list_ex (\<lambda>s. person_key_of s = By_Id (ls_employee_id sp) \<and> stint_covers s (minutes 520)) segments"
    by (rule blocked_time_is_never_credited [OF demo_calendar spans(1) run sp(1)])
      (use sp in \<open>simp_all add: smoothing_blocking_def covers_def minutes_def\<close>)
  then show ?thesis using spans(1) run sp(2) by auto
qed

text \<open>
  C29. Resolved segments stay in the shift: every segment starts no earlier than the shift, ends no later
  than the cap, has a positive duration, is of nobody excluded; and a person with punch windows
  has punch segments only.
\<close>

theorem resolved_in_shift:
  assumes "s \<in> set (resolve_segments assignments attributions punches shift cap key excluded)"
  shows "shift \<le> ws_start s \<and> ws_start s < ws_end s \<and> ws_end s \<le> cap \<and> ws_person s \<notin> set excluded \<and>
    (ws_person s \<in> set (map fst punches) \<longrightarrow> ws_source s = ''punch'')"
proof -
  let ?p = "ws_person s" and ?xs = "all_windows assignments attributions punches shift key"
  have "s \<in> set (filter (\<lambda>x. ws_person x = ?p) (resolve_segments assignments attributions punches shift cap key excluded))"
    using assms by simp
  then have p: "?p \<notin> set excluded" "s \<in> set (resolve_person shift cap ?p (windows_of ?p ?xs))"
    unfolding resolved_of by (auto split: if_splits)
  have "ws_source s = ''punch''" if punched: "?p \<in> set (map fst punches)"
  proof -
    have "wi_source w = ''punch''" if w: "w \<in> set (windows_of ?p ?xs)" for w
    proof -
      from w consider "(?p, w) \<in> set (schedule_windows assignments (map fst punches) key shift)"
        | "(?p, w) \<in> set (punch_windows_of punches)" | "(?p, w) \<in> set (attribution_windows attributions (map fst punches))"
        unfolding windows_of_member all_windows_def set_append by blast
      then show ?thesis
      proof cases
        case 1
        then show ?thesis using schedule_member [OF 1] punched by blast
      next
        case 2
        then show ?thesis using punch_member [OF 2] by blast
      next
        case 3
        then show ?thesis using attribution_member [OF 3] punched by blast
      qed
    qed
    then show ?thesis using p(2) punch_only by blast
  qed
  then show ?thesis using p person_bounds [OF p(2)] by blast
qed

definition demo_assignments :: "(string \<times> string list) list" where
  "demo_assignments = [(''Saw'', [''Ann'', ''Bob'']), (''__time_off'', [''Cy''])]"

definition demo_detours :: "attribution list" where
  "demo_detours = [\<lparr>at_wc = ''Press'', at_person = ''Ann'', at_start = minutes 20, at_end = Some (minutes 30)\<rparr>]"

theorem resolved_in_shift_witness:
  "list_all (\<lambda>s. ws_person s = ''Bob'' \<longrightarrow> ws_source s = ''punch'')
     (resolve_segments demo_assignments demo_detours [(''Bob'', [(Some ''Drill'', minutes 0, None)])] (minutes 5) (minutes 60) ''__time_off'' [])"
  using resolved_in_shift [of _ demo_assignments demo_detours "[(''Bob'', [(Some ''Drill'', minutes 0, None)])]" "minutes 5" "minutes 60" "''__time_off''" "[]"]
  by (auto simp: list_all_iff)

text \<open>
  C30. Nobody is in two places: at any instant at most one resolved segment of a person is running,
  whatever the schedule, the punches and the attributions say.
\<close>

theorem nobody_in_two_places:
  "length (filter (\<lambda>s. ws_person s = p \<and> stint_covers s t)
     (resolve_segments assignments attributions punches shift cap key excluded)) \<le> 1"
proof -
  show ?thesis unfolding at_once_of
    using person_once [of shift cap p "windows_of p (all_windows assignments attributions punches shift key)" t]
    by (simp split: if_splits)
qed

text \<open>
  C31. A schedule covers the shift: a person scheduled at one center, without punches and not excluded,
  is in exactly one segment at every instant from the start of the shift to the cap, whatever
  detours were attributed.
\<close>

theorem schedule_covers_shift:
  assumes "length (windows_of p (schedule_windows assignments (map fst punches) key shift)) = 1"
    and "p \<notin> set (map fst punches)" and "p \<notin> set excluded"
  shows "length (filter (\<lambda>s. ws_person s = p \<and> stint_covers s t)
     (resolve_segments assignments attributions punches shift cap key excluded)) = (if shift \<le> t \<and> t < cap then 1 else 0)"
proof -
  show ?thesis unfolding at_once_of using assms(3) by (simp add: scheduled_once [OF assms(1,2)])
qed

theorem schedule_covers_shift_witness:
  "length (filter (\<lambda>s. ws_person s = ''Ann'' \<and> stint_covers s (minutes 25))
     (resolve_segments demo_assignments demo_detours [] (minutes 5) (minutes 60) ''__time_off'' [])) = 1"
proof -
  have "length (windows_of ''Ann'' (schedule_windows demo_assignments (map fst []) ''__time_off'' (minutes 5))) = 1"
    by (simp add: demo_assignments_def windows_of_def schedule_windows_def)
  from schedule_covers_shift [OF this, of "[]" "minutes 25" demo_detours "minutes 60"] show ?thesis
    by (simp add: minutes_def)
qed

end
