(* ===== verification/Saturday_Recruiting.thy ===== *)
theory Saturday_Recruiting
  imports Plant_Prelude
begin

text \<open>
  Recruiting for optional workdays (\<open>saturday_recruiting.py\<close>) and the search for the neighbouring normal
  workday (\<open>optional_workday.py\<close>): the response deadline, availability, eligibility, the matching of
  commitments to openings by augmenting paths, and the check before a schedule is published.
\<close>

section \<open>Neighbouring workdays\<close>

text \<open>\<open>date.weekday\<close>: Monday is 0, and ordinal 1 is a Monday.\<close>

definition weekday :: "date \<Rightarrow> int" where
  "weekday day = (day + 6) mod 7"

text \<open>\<open>mirrored\<close> stands for \<open>company_holidays.for_day\<close>, whose rows live in the database.\<close>

definition normal_workday :: "(date \<Rightarrow> bool) \<Rightarrow> int list \<Rightarrow> (date \<Rightarrow> bool) \<Rightarrow> date \<Rightarrow> bool" where
  "normal_workday mirrored work_weekdays is_holiday day =
     (weekday day \<in> set work_weekdays \<and> weekday day \<noteq> 5 \<and> \<not> mirrored day \<and> \<not> is_holiday day)"

fun adjacent_loop :: "(date \<Rightarrow> bool) \<Rightarrow> date \<Rightarrow> int \<Rightarrow> nat \<Rightarrow> date option" where
  "adjacent_loop normal cursor step 0 = None"
| "adjacent_loop normal cursor step (Suc n) =
     (if normal (cursor + step) then Some (cursor + step) else adjacent_loop normal (cursor + step) step n)"

text \<open>\<open>None\<close>: no normal workday within 14 days (\<open>NoNormalWorkday\<close>).\<close>

definition adjacent_normal_workday ::
    "(date \<Rightarrow> bool) \<Rightarrow> date \<Rightarrow> int list \<Rightarrow> int \<Rightarrow> (date \<Rightarrow> bool) \<Rightarrow> date option" where
  "adjacent_normal_workday mirrored day work_weekdays step is_holiday =
     adjacent_loop (normal_workday mirrored work_weekdays is_holiday) day step 14"

definition previous_normal_workday where
  "previous_normal_workday mirrored day work_weekdays is_holiday =
     adjacent_normal_workday mirrored day work_weekdays (- 1) is_holiday"

definition next_normal_workday where
  "next_normal_workday mirrored day work_weekdays is_holiday =
     adjacent_normal_workday mirrored day work_weekdays 1 is_holiday"

datatype day_kind = Saturday_Kind | Holiday_Kind

text \<open>\<open>optional_workday.for_day\<close>: the kind of an optional day, a holiday taking precedence.\<close>

definition optional_kind :: "(date \<Rightarrow> bool) \<Rightarrow> date \<Rightarrow> day_kind option" where
  "optional_kind mirrored day =
     (if mirrored day then Some Holiday_Kind else if weekday day = 5 then Some Saturday_Kind else None)"

section \<open>The response deadline\<close>

text \<open>
  \<open>classified\<close> is the optional day the caller already classified, if it did. The deadline is a
  site-local day and time.
\<close>

definition response_deadline ::
    "(date \<Rightarrow> bool) \<Rightarrow> date \<Rightarrow> int list \<Rightarrow> (date \<Rightarrow> time_of_day) \<Rightarrow> (date \<Rightarrow> bool) \<Rightarrow>
     day_kind option option \<Rightarrow> (date \<times> time_of_day) result" where
  "response_deadline mirrored day work_weekdays shift_start_for is_holiday classified =
     (let day_is_holiday = (case classified of
            None \<Rightarrow> is_holiday day \<or> optional_kind mirrored day = Some Holiday_Kind
          | Some kind \<Rightarrow> kind = Some Holiday_Kind)
      in if weekday day \<noteq> 5 \<and> \<not> day_is_holiday
         then Inl (ValueError ''Saturday recruiting requires a Saturday'')
         else case previous_normal_workday mirrored day work_weekdays is_holiday of
                None \<Rightarrow> Inl (ValueError ''No prior configured plant workday'')
              | Some prior \<Rightarrow> Inr (prior, shift_start_for prior))"

section \<open>Availability\<close>

definition minute_of :: "time_of_day \<Rightarrow> int" where
  "minute_of t = t div 60000000 mod 60"

definition second_of :: "time_of_day \<Rightarrow> int" where
  "second_of t = t div 1000000 mod 60"

definition microsecond_of :: "time_of_day \<Rightarrow> int" where
  "microsecond_of t = t mod 1000000"

definition on_half_hour :: "time_of_day \<Rightarrow> bool" where
  "on_half_hour t = (minute_of t \<in> {0, 30} \<and> second_of t = 0 \<and> microsecond_of t = 0)"

definition validate_availability ::
    "time_of_day \<Rightarrow> time_of_day \<Rightarrow> time_of_day \<Rightarrow> time_of_day \<Rightarrow> unit result" where
  "validate_availability start fin shift_start shift_end =
     rbind (guard_error (\<not> on_half_hour start \<or> \<not> on_half_hour fin)
              (ValueError ''Availability must use 30-minute increments'')) (\<lambda>_.
     guard_error (start < shift_start \<or> fin > shift_end \<or> start \<ge> fin)
       (ValueError ''Availability must stay within the Saturday shift''))"

section \<open>Openings and commitments\<close>

record opening_row =
  op_wc_id :: int
  op_wc_name :: string
  op_requested :: int
  op_skills :: "string list"

record commitment =
  cm_person :: int
  cm_eligible :: "int list"

record coverage =
  cv_total :: nat
  cv_filled :: "(int \<times> int) list"
  cv_wc_by_person :: "(int \<times> int) list"

definition eligible_work_centers :: "(string \<rightharpoonup> int) \<Rightarrow> opening_row list \<Rightarrow> int set" where
  "eligible_work_centers skill_levels openings =
     set (map op_wc_id (filter (\<lambda>opn. op_skills opn \<noteq> [] \<and>
        list_all (\<lambda>skill. (case skill_levels skill of None \<Rightarrow> 0 | Some l \<Rightarrow> l) \<ge> 1) (op_skills opn)) openings))"

section \<open>Matching\<close>

type_synonym slot = "int \<times> int"

definition slots_of :: "opening_row list \<Rightarrow> slot list" where
  "slots_of openings =
     concat (map (\<lambda>opn. map (Pair (op_wc_id opn)) [0..op_requested opn - 1]) (sort_key op_wc_id openings))"

text \<open>
  The loop of \<open>assign\<close> over the remaining slots, with the slots seen so far and the person in each
  taken slot threaded through: a slot is free, or its holder is assigned elsewhere first.
\<close>

type_synonym holders = "(slot \<times> int) list"

function assign_loop ::
    "slot list \<Rightarrow> (int \<Rightarrow> int list) \<Rightarrow> int \<Rightarrow> slot list \<Rightarrow> slot set \<Rightarrow> holders \<Rightarrow> bool \<times> slot set \<times> holders" where
  "assign_loop slots eligible person [] seen held = (False, seen, held)"
| "assign_loop slots eligible person (slot # rest) seen held =
     (if fst slot \<notin> set (eligible person) \<or> slot \<in> seen
      then assign_loop slots eligible person rest seen held
      else case map_of held slot of
             None \<Rightarrow> (True, insert slot seen, AList.update slot person held)
           | Some prior \<Rightarrow>
               (let (ok, seen', held') = assign_loop slots eligible prior slots (insert slot seen) held
                in if ok then (True, seen', AList.update slot person held')
                   else assign_loop slots eligible person rest seen' held'))"
  by pat_completeness auto

lemma assign_loop_seen:
  "assign_loop_dom (slots, eligible, person, rest, seen, held) \<Longrightarrow>
     seen \<subseteq> fst (snd (assign_loop slots eligible person rest seen held))"
proof (induction slots eligible person rest seen held rule: assign_loop.pinduct)
  case (2 slots eligible person slot rest seen held)
  note unfold = assign_loop.psimps(2) [OF 2(1)]
  show ?case
  proof (cases "fst slot \<notin> set (eligible person) \<or> slot \<in> seen")
    case True
    then show ?thesis unfolding unfold using 2(2) by simp
  next
    case False
    show ?thesis
    proof (cases "map_of held slot")
      case None
      then show ?thesis unfolding unfold using False by auto
    next
      case (Some prior)
      obtain ok seen' held' where r: "assign_loop slots eligible prior slots (insert slot seen) held = (ok, seen', held')"
        by (cases "assign_loop slots eligible prior slots (insert slot seen) held")
      have sub: "insert slot seen \<subseteq> seen'" using 2(3) [OF False Some] r by simp
      show ?thesis
      proof (cases ok)
        case True
        then show ?thesis unfolding unfold using False Some r sub by simp
      next
        case not_ok: False
        have "seen' \<subseteq> fst (snd (assign_loop slots eligible person rest seen' held'))"
          using 2(4) [OF False Some] r not_ok by simp
        then show ?thesis unfolding unfold using False Some r sub not_ok by auto
      qed
    qed
  qed
qed (simp add: assign_loop.psimps)

lemma unseen_less:
  assumes "slot \<notin> seen" "insert slot seen \<subseteq> seen'" "set rest' \<subseteq> insert slot (set slots \<union> set rest)"
  shows "card ((set slots \<union> set rest') - seen') < card ((set slots \<union> insert slot (set rest)) - seen)"
  by (rule psubset_card_mono) (use assms in auto)

termination assign_loop
proof (relation "measures [\<lambda>(slots, _, _, rest, seen, _). card ((set slots \<union> set rest) - seen), \<lambda>(_, _, _, rest, _). length rest]",
    goal_cases)
  case (2 slots eligible person slot rest seen held)
  have "card ((set slots \<union> set rest) - seen) \<le> card ((set slots \<union> set (slot # rest)) - seen)"
    by (rule card_mono) auto
  then show ?case by auto
next
  case (3 slots eligible person slot rest seen held prior)
  then show ?case using unseen_less [of slot seen "insert slot seen" slots slots rest] by auto
next
  case (4 slots eligible person slot rest seen held prior x ok y seen' held')
  then have "insert slot seen \<subseteq> seen'"
    using assign_loop_seen [of slots eligible prior slots "insert slot seen" held] by (metis fst_conv snd_conv)
  then show ?case using unseen_less [of slot seen seen' rest slots rest] 4 by auto
qed simp

definition assign :: "slot list \<Rightarrow> (int \<Rightarrow> int list) \<Rightarrow> int \<Rightarrow> holders \<Rightarrow> bool \<times> slot set \<times> holders" where
  "assign slots eligible person held = assign_loop slots eligible person slots {} held"

fun assign_all :: "slot list \<Rightarrow> (int \<Rightarrow> int list) \<Rightarrow> int list \<Rightarrow> holders \<Rightarrow> holders option" where
  "assign_all slots eligible [] held = Some held"
| "assign_all slots eligible (person # people) held =
     (case assign slots eligible person held of
        (True, _, held') \<Rightarrow> assign_all slots eligible people held'
      | (False, _, _) \<Rightarrow> None)"

text \<open>The last commitment of a person is the one its dictionary keeps.\<close>

definition by_person :: "commitment list \<Rightarrow> (int \<times> int list) list" where
  "by_person commitments = foldl (\<lambda>d c. AList.update (cm_person c) (cm_eligible c) d) [] commitments"

definition count_person :: "int \<Rightarrow> (int \<times> int) list \<Rightarrow> (int \<times> int) list" where
  "count_person wc counts = AList.update wc (dict_get counts wc 0 + 1) counts"

definition match_commitments :: "opening_row list \<Rightarrow> commitment list \<Rightarrow> coverage option" where
  "match_commitments openings commitments =
     (let slots = slots_of openings; people = by_person commitments
      in if length people \<noteq> length commitments \<or> length people > length slots then None
         else case assign_all slots (\<lambda>p. dict_get people p []) (sort (map fst people)) [] of
                None \<Rightarrow> None
              | Some held \<Rightarrow>
                  (let wc_by_person = foldl (\<lambda>d (slot, p). AList.update p (fst slot) d) [] held;
                       filled = foldl (\<lambda>d opn. AList.update (op_wc_id opn) 0 d) [] openings
                   in Some \<lparr>cv_total = length people,
                            cv_filled = foldl (\<lambda>d (_, wc). count_person wc d) filled wc_by_person,
                            cv_wc_by_person = wc_by_person\<rparr>))"

section \<open>Publishing\<close>

text \<open>
  What the check reads of a rostered person. \<open>pe_level\<close> stands for \<open>Person.level\<close>, which gives 0 for an
  unknown skill.
\<close>

record rostered =
  pe_active :: bool
  pe_reserve :: bool
  pe_level :: "string \<Rightarrow> int"

text \<open>The reasons, one constructor for each message.\<close>

datatype publish_reason =
    Assigned_Twice string
  | Not_Committed string
  | Inactive string
  | Day_Off string
  | Not_Qualified string string
  | Needs_Trainer string string
  | Not_Assigned string
  | Requires_Operators string int int

record publish_inputs =
  pi_openings :: "opening_row list"
  pi_people :: "string \<rightharpoonup> rostered"
  pi_off :: "string list"
  pi_available :: "string list"
  pi_trainees :: "string \<Rightarrow> string list"
  pi_needs_partner :: "string \<Rightarrow> string list"
  pi_certifications :: "string list"

text \<open>
  The people available: the committed ones (\<open>committed\<close> are the names of the commitments with that status)
  unless the caller names others. The order of the set's elements is left to the caller.
\<close>

definition available_people :: "string list \<Rightarrow> string list option \<Rightarrow> string list" where
  "available_people committed available_names =
     (case available_names of None \<Rightarrow> remdups committed | Some names \<Rightarrow> remdups names)"

text \<open>The opening a name maps to: the last one of that name.\<close>

definition opening_named :: "opening_row list \<Rightarrow> string \<Rightarrow> opening_row option" where
  "opening_named openings wc = find (\<lambda>opn. op_wc_name opn = wc) (rev openings)"

definition is_trainer :: "publish_inputs \<Rightarrow> opening_row \<Rightarrow> string \<Rightarrow> string \<Rightarrow> bool" where
  "is_trainer pub opn wc name =
     (name \<notin> set (pi_trainees pub wc) \<and> name \<in> set (pi_available pub) \<and> name \<notin> set (pi_off pub)
      \<and> (case pi_people pub name of
            None \<Rightarrow> False
          | Some person \<Rightarrow> pe_active person \<and> \<not> pe_reserve person
              \<and> list_all (\<lambda>skill. pe_level person skill \<ge> (if skill \<in> set (pi_certifications pub) then 1 else 3)) (op_skills opn)))"

definition trainer_present :: "publish_inputs \<Rightarrow> opening_row option \<Rightarrow> string \<Rightarrow> string list \<Rightarrow> bool" where
  "trainer_present pub opening wc names =
     (case opening of None \<Rightarrow> False | Some opn \<Rightarrow> list_ex (is_trainer pub opn wc) names)"

definition is_qualified :: "publish_inputs \<Rightarrow> opening_row \<Rightarrow> string \<Rightarrow> string \<Rightarrow> bool" where
  "is_qualified pub opn wc name =
     (case pi_people pub name of
        None \<Rightarrow> False
      | Some person \<Rightarrow>
          list_all (\<lambda>skill. pe_level person skill \<ge> 1
             \<or> name \<in> set (pi_trainees pub wc) \<and> skill \<notin> set (pi_certifications pub)) (op_skills opn))"

definition is_active :: "publish_inputs \<Rightarrow> string \<Rightarrow> bool" where
  "is_active pub name = (case pi_people pub name of None \<Rightarrow> False | Some person \<Rightarrow> pe_active person)"

definition qualification_label :: "opening_row \<Rightarrow> string \<Rightarrow> string" where
  "qualification_label opn wc = (case op_skills opn of [skill] \<Rightarrow> skill | _ \<Rightarrow> wc)"

text \<open>
  The reasons so far, the names seen (\<open>assigned_names\<close> holds the same), and the number of qualified
  people by center.
\<close>

record publish_state =
  ps_reasons :: "publish_reason list"
  ps_seen :: "string list"
  ps_qualified :: "string \<Rightarrow> int"

definition general_reasons :: "publish_inputs \<Rightarrow> string \<Rightarrow> publish_reason list" where
  "general_reasons pub name =
     (if name \<notin> set (pi_available pub) then [Not_Committed name] else [])
     @ (if \<not> is_active pub name then [Inactive name] else [])
     @ (if name \<in> set (pi_off pub) then [Day_Off name] else [])"

definition opening_reasons :: "publish_inputs \<Rightarrow> opening_row \<Rightarrow> string \<Rightarrow> bool \<Rightarrow> string \<Rightarrow> publish_reason list" where
  "opening_reasons pub opn wc trainer name =
     (if \<not> is_qualified pub opn wc name then [Not_Qualified name (qualification_label opn wc)]
      else if name \<in> set (pi_needs_partner pub wc) \<and> \<not> trainer then [Needs_Trainer name wc]
      else [])"

definition check_name :: "publish_inputs \<Rightarrow> string \<Rightarrow> bool \<Rightarrow> publish_state \<Rightarrow> string \<Rightarrow> publish_state" where
  "check_name pub wc trainer st name =
     (if name \<in> set (ps_seen st) then st\<lparr>ps_reasons := ps_reasons st @ [Assigned_Twice name]\<rparr>
      else
        (let general = general_reasons pub name;
             st = st\<lparr>ps_seen := name # ps_seen st, ps_reasons := ps_reasons st @ general\<rparr>
         in case opening_named (pi_openings pub) wc of
              None \<Rightarrow> st
            | Some opn \<Rightarrow>
                (let specific = opening_reasons pub opn wc trainer name
                 in if specific = [] \<and> general = []
                    then st\<lparr>ps_qualified := (ps_qualified st)(wc := ps_qualified st wc + 1)\<rparr>
                    else st\<lparr>ps_reasons := ps_reasons st @ specific\<rparr>)))"

definition check_center :: "publish_inputs \<Rightarrow> publish_state \<Rightarrow> string \<times> string list \<Rightarrow> publish_state" where
  "check_center pub st entry =
     (let (wc, names) = entry; trainer = trainer_present pub (opening_named (pi_openings pub) wc) wc names
      in foldl (check_name pub wc trainer) st names)"

definition coverage_reasons :: "publish_inputs \<Rightarrow> publish_state \<Rightarrow> publish_reason list" where
  "coverage_reasons pub st =
     map Not_Assigned (filter (\<lambda>name. name \<notin> set (ps_seen st)) (pi_available pub))
     @ map (\<lambda>opn. Requires_Operators (op_wc_name opn) (op_requested opn) (ps_qualified st (op_wc_name opn)))
         (filter (\<lambda>opn. ps_qualified st (op_wc_name opn) < op_requested opn) (pi_openings pub))"

definition validate_publish ::
    "publish_inputs \<Rightarrow> (string \<times> string list) list \<Rightarrow> bool \<Rightarrow> publish_reason list" where
  "validate_publish pub assignments require_coverage =
     (let st = foldl (check_center pub) \<lparr>ps_reasons = [], ps_seen = [], ps_qualified = (\<lambda>_. 0)\<rparr> assignments
      in ps_reasons st @ (if require_coverage then coverage_reasons pub st else []))"

end
