(* ===== verification/Saturday_Matching.thy ===== *)
theory Saturday_Matching
  imports Saturday_Recruiting
begin

text \<open>
  Why \<open>match_commitments\<close> is exact: a successful search seats one more person and moves the others, a
  failed one leaves a closed set of slots whose holders, with the person, outnumber them.
\<close>

section \<open>One search\<close>

text \<open>Everybody sits on a seat of theirs, and on one only. \<open>seats p\<close> are the seats \<open>p\<close> may take.\<close>

definition seating :: "('p \<Rightarrow> 's set) \<Rightarrow> ('s \<rightharpoonup> 'p) \<Rightarrow> bool" where
  "seating seats m =
     ((\<forall>s p. m s = Some p \<longrightarrow> s \<in> seats p) \<and> (\<forall>s s' p. m s = Some p \<longrightarrow> m s' = Some p \<longrightarrow> s = s'))"

definition seat_of :: "('s \<rightharpoonup> 'p) \<Rightarrow> 'p \<Rightarrow> 's set" where
  "seat_of m p = {s. m s = Some p}"

lemma seat_unique: "seating seats m \<Longrightarrow> m s = Some p \<Longrightarrow> m s' = Some p \<Longrightarrow> s = s'"
  unfolding seating_def by blast

lemma seatingI:
  assumes "\<And>s p. m s = Some p \<Longrightarrow> s \<in> seats p"
    and "\<And>s s' p. m s = Some p \<Longrightarrow> m s' = Some p \<Longrightarrow> s = s'"
  shows "seating seats m"
  using assms unfolding seating_def by blast

lemma seatingD: "seating seats m \<Longrightarrow> m s = Some p \<Longrightarrow> s \<in> seats p"
  unfolding seating_def by blast

text \<open>Moving a person from the seats \<open>held\<close> to a free one.\<close>

lemma reseat:
  assumes k: "seating seats k" and held: "\<And>x. k x = Some p \<longleftrightarrow> x \<in> held" and free: "k s = None" and el: "s \<in> seats p"
  shows "seating seats ((k |` (- held))(s \<mapsto> p))" "ran ((k |` (- held))(s \<mapsto> p)) = insert p (ran k)"
proof -
  let ?r = "k |` (- held)"
  have r: "?r x = Some q \<longleftrightarrow> k x = Some q \<and> q \<noteq> p" for x q
    using held [of x] by (auto simp: restrict_map_def)
  show "seating seats (?r(s \<mapsto> p))"
  proof (rule seatingI)
    show "x \<in> seats q" if "(?r(s \<mapsto> p)) x = Some q" for x q
      using that el r seatingD [OF k] by (auto split: if_splits)
    show "x = y" if "(?r(s \<mapsto> p)) x = Some q" "(?r(s \<mapsto> p)) y = Some q" for x y q
      using that r seat_unique [OF k, of x q y] by (auto split: if_splits)
  qed
  have "ran ?r = ran k - {p}" by (auto simp: ran_def r)
  moreover have "?r s = None" using free by (simp add: restrict_map_def)
  ultimately show "ran (?r(s \<mapsto> p)) = insert p (ran k)" by auto
qed

lemma restrict_seat: "s \<notin> held \<Longrightarrow> (m(s \<mapsto> p)) |` (- held) = ((m |` (- {s})) |` (- held))(s \<mapsto> p)"
  by (auto simp: restrict_map_def fun_eq_iff)

lemma seat_free:
  assumes m: "seating seats m" and free: "m s = None" and el: "s \<in> seats p"
  shows "seating seats ((m(s \<mapsto> p)) |` (- seat_of m p))"
    "ran ((m(s \<mapsto> p)) |` (- seat_of m p)) = insert p (ran m)"
proof -
  have s: "s \<notin> seat_of m p" using free by (simp add: seat_of_def)
  have "m |` (- {s}) = m" using free by (auto simp: restrict_map_def fun_eq_iff)
  then have new: "(m(s \<mapsto> p)) |` (- seat_of m p) = (m |` (- seat_of m p))(s \<mapsto> p)"
    using restrict_seat [OF s, of m p] by simp
  have held: "m x = Some p \<longleftrightarrow> x \<in> seat_of m p" for x by (simp add: seat_of_def)
  show "seating seats ((m(s \<mapsto> p)) |` (- seat_of m p))"
    "ran ((m(s \<mapsto> p)) |` (- seat_of m p)) = insert p (ran m)"
    unfolding new using reseat [OF m held free el] by simp_all
qed

text \<open>
  Taking the slot of a holder \<open>q\<close> who was reseated in \<open>m'\<close>: outside the seats that \<open>p\<close> held before,
  everybody sits once again.
\<close>

lemma seat_taken:
  assumes m': "seating seats (m' |` (- seat_of m q))" and ran: "ran (m' |` (- seat_of m q)) = insert q (ran m)"
    and m: "seating seats m" "m s = Some q" and old: "\<And>x. x \<in> seat_of m p \<Longrightarrow> m' x = m x"
    and pq: "p \<noteq> q" and el: "s \<in> seats p"
  shows "seating seats ((m'(s \<mapsto> p)) |` (- seat_of m p))"
    "ran ((m'(s \<mapsto> p)) |` (- seat_of m p)) = insert p (ran m)"
proof -
  have q: "seat_of m q = {s}" using m seat_unique [OF m(1)] by (auto simp: seat_of_def)
  have s: "s \<notin> seat_of m p" using m(2) pq by (simp add: seat_of_def)
  let ?k = "m' |` (- {s})"
  have k: "seating seats ?k" "ran ?k = ran m" using m' ran m(2) unfolding q by (auto intro: ranI)
  have pk: "?k x = Some p \<longleftrightarrow> x \<in> seat_of m p" for x
  proof
    show "?k x = Some p" if "x \<in> seat_of m p" using that old [OF that] s by (auto simp: restrict_map_def seat_of_def)
    show "x \<in> seat_of m p" if x: "?k x = Some p"
    proof -
      have "p \<in> ran m" using x k(2) by (metis ranI)
      then obtain y where y: "m y = Some p" by (auto simp: ran_def)
      then have "y \<in> seat_of m p" by (simp add: seat_of_def)
      then have "?k y = Some p" using old [of y] y s by (auto simp: restrict_map_def)
      then have "x = y" using seat_unique [OF k(1) x] by blast
      then show ?thesis using y by (simp add: seat_of_def)
    qed
  qed
  have new: "(m'(s \<mapsto> p)) |` (- seat_of m p) = (?k |` (- seat_of m p))(s \<mapsto> p)" by (rule restrict_seat [OF s])
  have "?k s = None" by (simp add: restrict_map_def)
  then show "seating seats ((m'(s \<mapsto> p)) |` (- seat_of m p))"
    "ran ((m'(s \<mapsto> p)) |` (- seat_of m p)) = insert p (ran m)"
    unfolding new using reseat [OF k(1) pk _ el] k(2) by simp_all
qed

section \<open>The search\<close>

definition seats :: "slot list \<Rightarrow> (int \<Rightarrow> int list) \<Rightarrow> int \<Rightarrow> slot set" where
  "seats slots eligible p = {s \<in> set slots. fst s \<in> set (eligible p)}"

text \<open>A set of seats grown by a failed search: each new seat is held, and its holder fits no seat outside.\<close>

definition closed_in :: "(int \<Rightarrow> slot set) \<Rightarrow> (slot \<rightharpoonup> int) \<Rightarrow> slot set \<Rightarrow> slot set \<Rightarrow> bool" where
  "closed_in st m seen seen' = (\<forall>s \<in> seen' - seen. \<exists>q. m s = Some q \<and> st q \<subseteq> seen')"

definition searched ::
    "slot list \<Rightarrow> (int \<Rightarrow> int list) \<Rightarrow> int \<Rightarrow> slot list \<Rightarrow> slot set \<Rightarrow> holders \<Rightarrow> bool \<times> slot set \<times> holders \<Rightarrow> bool" where
  "searched slots eligible p rest seen held r =
     (case r of (ok, seen', held') \<Rightarrow>
        seen \<subseteq> seen' \<and>
        (if ok
         then seating (seats slots eligible) (map_of held' |` (- seat_of (map_of held) p)) \<and>
              ran (map_of held' |` (- seat_of (map_of held) p)) = insert p (ran (map_of held)) \<and>
              (\<forall>s \<in> seen. map_of held' s = map_of held s)
         else held' = held \<and> seats slots eligible p \<inter> set rest \<subseteq> seen' \<and>
              closed_in (seats slots eligible) (map_of held) seen seen'))"

lemma assign_loop_searched:
  assumes "set rest \<subseteq> set slots" and "seating (seats slots eligible) (map_of held)"
    and "seat_of (map_of held) p \<subseteq> seen"
  shows "searched slots eligible p rest seen held (assign_loop slots eligible p rest seen held)"
  using assms
proof (induction slots eligible p rest seen held rule: assign_loop.induct)
  case (1 slots eligible p seen held)
  then show ?case by (simp add: searched_def closed_in_def)
next
  case (2 slots eligible p s rest seen held)
  let ?st = "seats slots eligible" and ?m = "map_of held"
  show ?case
  proof (cases "fst s \<notin> set (eligible p) \<or> s \<in> seen")
    case True
    then have "searched slots eligible p rest seen held (assign_loop slots eligible p rest seen held)"
      using 2 by simp
    then show ?thesis using True by (auto simp: searched_def seats_def split: prod.splits if_splits)
  next
    case False
    then have el: "s \<in> ?st p" and new: "s \<notin> seen" using 2(4) by (simp_all add: seats_def)
    show ?thesis
    proof (cases "?m s")
      case None
      then show ?thesis using False seat_free [OF 2(5) None el] new
        by (auto simp: searched_def update_conv')
    next
      case (Some q)
      have pq: "p \<noteq> q" using Some new 2(6) by (auto simp: seat_of_def)
      have sq: "seat_of ?m q = {s}" using Some seat_unique [OF 2(5)] unfolding seat_of_def by blast
      obtain ok seen' held' where r: "assign_loop slots eligible q slots (insert s seen) held = (ok, seen', held')"
        by (cases "assign_loop slots eligible q slots (insert s seen) held")
      have sub: "searched slots eligible q slots (insert s seen) held (ok, seen', held')"
        using 2(2) [OF False Some] 2(5) sq r by simp
      show ?thesis
      proof (cases ok)
        case True
        have keep: "\<forall>x \<in> insert s seen. map_of held' x = ?m x"
          using sub True unfolding searched_def prod.case by meson
        have parts: "insert s seen \<subseteq> seen'" "seating ?st (map_of held' |` (- seat_of ?m q))"
          "ran (map_of held' |` (- seat_of ?m q)) = insert q (ran ?m)" "\<And>x. x \<in> insert s seen \<Longrightarrow> map_of held' x = ?m x"
          using sub True bspec [OF keep] by (simp_all add: searched_def)
        have "\<And>x. x \<in> seat_of ?m p \<Longrightarrow> map_of held' x = ?m x" using parts(4) 2(6) by blast
        note taken = seat_taken [OF parts(2,3) 2(5) Some this pq el]
        have run: "assign_loop slots eligible p (s # rest) seen held = (True, seen', AList.update s p held')"
          using False Some r True by simp
        show ?thesis using taken parts(1,4) new unfolding run searched_def by (auto simp: update_conv')
      next
        case not_ok: False
        have parts: "insert s seen \<subseteq> seen'" "held' = held" "?st q \<subseteq> seen'" "closed_in ?st ?m (insert s seen) seen'"
          using sub not_ok by (auto simp: searched_def seats_def)
        have run: "assign_loop slots eligible p (s # rest) seen held = assign_loop slots eligible p rest seen' held"
          using False Some r not_ok parts(2) by simp
        have "searched slots eligible p rest seen' held (assign_loop slots eligible p rest seen' held)"
          using 2(3) [OF False Some] r not_ok 2(4-6) parts by auto
        moreover have "closed_in ?st ?m seen seen''" if "closed_in ?st ?m seen' seen''" "seen' \<subseteq> seen''" for seen''
          using that parts(3,4) Some unfolding closed_in_def by blast
        ultimately show ?thesis using parts(1) new unfolding run searched_def
          by (auto split: prod.splits if_splits)
      qed
    qed
  qed
qed

lemma assign_distinct:
  "distinct (map fst held) \<Longrightarrow> distinct (map fst (snd (snd (assign_loop slots eligible p rest seen held))))"
proof (induction slots eligible p rest seen held rule: assign_loop.induct)
  case (2 slots eligible p s rest seen held)
  show ?case
  proof (cases "fst s \<notin> set (eligible p) \<or> s \<in> seen")
    case False
    show ?thesis
    proof (cases "map_of held s")
      case (Some q)
      obtain ok seen' held' where r: "assign_loop slots eligible q slots (insert s seen) held = (ok, seen', held')"
        by (cases "assign_loop slots eligible q slots (insert s seen) held")
      have "distinct (map fst held')" using 2(2) [OF False Some 2(4)] r by simp
      then show ?thesis using 2(3) [OF False Some] r False Some by (auto simp: distinct_update)
    qed (use False 2(4) in \<open>simp add: distinct_update\<close>)
  qed (use 2 in simp)
qed simp

section \<open>Everybody\<close>

definition seatable :: "('p \<Rightarrow> 's set) \<Rightarrow> 'p set \<Rightarrow> bool" where
  "seatable st P = (\<exists>f. inj_on f P \<and> (\<forall>p \<in> P. f p \<in> st p))"

lemma seatable_subset: "seatable st P \<Longrightarrow> Q \<subseteq> P \<Longrightarrow> seatable st Q"
  unfolding seatable_def using inj_on_subset by blast

lemma seating_seatable: "seating st m \<Longrightarrow> seatable st (ran m)"
proof -
  assume m: "seating st m"
  have "\<forall>p \<in> ran m. \<exists>s. m s = Some p" unfolding ran_def by blast
  from bchoice [OF this] obtain f where "\<forall>p \<in> ran m. m (f p) = Some p" by blast
  then have f: "\<And>p. p \<in> ran m \<Longrightarrow> m (f p) = Some p" by blast
  have "inj_on f (ran m)" by (rule inj_onI) (metis f option.inject)
  then show ?thesis using f seatingD [OF m] unfolding seatable_def by blast
qed

text \<open>More people than seats that fit any of them.\<close>

lemma crowded:
  assumes m: "seating st m" and S: "finite S" "\<forall>s \<in> S. \<exists>q. m s = Some q \<and> st q \<subseteq> S"
    and p: "p \<notin> ran m" "st p \<subseteq> S"
  shows "\<not> seatable st (insert p (ran m))"
proof
  assume "seatable st (insert p (ran m))"
  then obtain f where f: "inj_on f (insert p (ran m))" "\<And>q. q \<in> insert p (ran m) \<Longrightarrow> f q \<in> st q"
    unfolding seatable_def by blast
  let ?Q = "(\<lambda>s. the (m s)) ` S"
  have Q: "?Q \<subseteq> ran m" using S(2) by (force intro: ranI)
  have fit: "f ` insert p ?Q \<subseteq> S"
  proof (rule image_subsetI)
    fix q assume q: "q \<in> insert p ?Q"
    have "st q \<subseteq> S" using q p(2) S(2) by force
    moreover have "f q \<in> st q" using q Q f(2) by blast
    ultimately show "f q \<in> S" by blast
  qed
  have "inj_on (\<lambda>s. the (m s)) S"
  proof (rule inj_onI)
    fix x y assume xy: "x \<in> S" "y \<in> S" "the (m x) = the (m y)"
    obtain q where "m x = Some q" using S(2) xy(1) by blast
    moreover have "m y = Some q" using S(2) xy(2,3) calculation by force
    ultimately show "x = y" using seat_unique [OF m] by blast
  qed
  then have "card ?Q = card S" by (rule card_image)
  moreover have "p \<notin> ?Q" using Q p(1) by blast
  ultimately have "card (insert p ?Q) = Suc (card S)" using S(1) by simp
  moreover have "card (insert p ?Q) \<le> card S"
    using card_inj_on_le [OF _ fit S(1)] f(1) Q by (meson inj_on_subset insert_mono)
  ultimately show False by simp
qed

lemma assign_one:
  assumes m: "seating (seats slots eligible) (map_of held)" "p \<notin> ran (map_of held)"
    and run: "assign slots eligible p held = (ok, seen', held')"
  shows "if ok then seating (seats slots eligible) (map_of held') \<and> ran (map_of held') = insert p (ran (map_of held))
    else \<not> seatable (seats slots eligible) (insert p (ran (map_of held)))"
proof -
  let ?st = "seats slots eligible"
  have none: "seat_of (map_of held) p = {}" using m(2) by (auto simp: seat_of_def ran_def)
  have s: "searched slots eligible p slots {} held (ok, seen', held')"
    using assign_loop_searched [of slots slots eligible held p "{}"] m(1) none run by (simp add: assign_def)
  show ?thesis
  proof (cases ok)
    case True
    have "map_of held' |` UNIV = map_of held'" by (simp add: restrict_map_def)
    then show ?thesis using s none True by (simp add: searched_def)
  next
    case False
    have "?st p \<subseteq> seen'" using s False by (auto simp: searched_def seats_def)
    moreover have closed: "\<forall>s \<in> seen'. \<exists>q. map_of held s = Some q \<and> ?st q \<subseteq> seen'"
      using s False by (simp add: searched_def closed_in_def)
    moreover have "seen' \<subseteq> dom (map_of held)" using closed by blast
    then have "finite seen'" using finite_dom_map_of finite_subset by blast
    ultimately show ?thesis using crowded [OF m(1) _ closed m(2)] False by simp
  qed
qed

lemma assign_everybody:
  assumes "seating (seats slots eligible) (map_of held)" "distinct people" "set people \<inter> ran (map_of held) = {}"
    "distinct (map fst held)"
  shows "case assign_all slots eligible people held of
      None \<Rightarrow> \<not> seatable (seats slots eligible) (set people \<union> ran (map_of held))
    | Some held' \<Rightarrow> seating (seats slots eligible) (map_of held') \<and> ran (map_of held') = set people \<union> ran (map_of held) \<and>
        distinct (map fst held')"
  using assms
proof (induction people arbitrary: held)
  case (Cons p people)
  obtain ok seen' held' where r: "assign slots eligible p held = (ok, seen', held')" by (cases "assign slots eligible p held")
  have p: "p \<notin> ran (map_of held)" using Cons.prems by auto
  note one = assign_one [OF Cons.prems(1) p r]
  show ?case
  proof (cases ok)
    case True
    have d: "distinct (map fst held')" using assign_distinct [OF Cons.prems(4), of slots eligible p slots "{}"] r by (simp add: assign_def)
    have "case assign_all slots eligible people held' of
        None \<Rightarrow> \<not> seatable (seats slots eligible) (set people \<union> ran (map_of held'))
      | Some h \<Rightarrow> seating (seats slots eligible) (map_of h) \<and> ran (map_of h) = set people \<union> ran (map_of held') \<and> distinct (map fst h)"
      by (rule Cons.IH) (use one True Cons.prems d in auto)
    then show ?thesis using one r True by (auto split: option.splits)
  next
    case False
    have "\<not> seatable (seats slots eligible) (set (p # people) \<union> ran (map_of held))"
      using one False seatable_subset [of "seats slots eligible" _ "insert p (ran (map_of held))"] by auto
    then show ?thesis using r False by simp
  qed
qed simp

end
