(* ===== verification/Saturday_Claims.thy ===== *)
theory Saturday_Claims
  imports Saturday_Matching
begin

text \<open>The properties of optional-workday recruiting.\<close>

section \<open>Dictionaries built in a loop\<close>

lemma update_new: "k \<notin> fst ` set d \<Longrightarrow> AList.update k v d = d @ [(k, v)]"
  by (induction d) auto

lemma foldl_update_distinct:
  "distinct (map fst d @ map k xs) \<Longrightarrow> foldl (\<lambda>d x. AList.update (k x) (v x) d) d xs = d @ map (\<lambda>x. (k x, v x)) xs"
  by (induction xs arbitrary: d) (auto simp: update_new)

lemma foldl_update_keys:
  "distinct (map fst d) \<Longrightarrow>
     distinct (map fst (foldl (\<lambda>d x. AList.update (k x) (v x) d) d xs)) \<and>
     fst ` set (foldl (\<lambda>d x. AList.update (k x) (v x) d) d xs) = fst ` set d \<union> k ` set xs"
proof (induction xs arbitrary: d)
  case (Cons x xs)
  have "distinct (map fst (AList.update (k x) (v x) d))" using Cons.prems by (simp add: distinct_update)
  moreover have "fst ` set (AList.update (k x) (v x) d) = insert (k x) (fst ` set d)"
    using dom_update [of "k x" "v x" d] by simp
  ultimately show ?case using Cons.IH [of "AList.update (k x) (v x) d"] by auto
qed simp

lemma by_person_length: "length (by_person cs) = card (cm_person ` set cs)"
proof -
  have "distinct (map fst (by_person cs))" "fst ` set (by_person cs) = cm_person ` set cs"
    using foldl_update_keys [of "[]" cm_person cm_eligible cs] by (simp_all add: by_person_def)
  then show ?thesis by (metis distinct_card length_map set_map)
qed

lemma by_person_distinct:
  "distinct (map cm_person cs) \<Longrightarrow> by_person cs = map (\<lambda>c. (cm_person c, cm_eligible c)) cs"
  using foldl_update_distinct [of "[]" cm_person cs cm_eligible] by (simp add: by_person_def)

lemma length_iff_distinct: "length (by_person cs) = length cs \<longleftrightarrow> distinct (map cm_person cs)"
  unfolding by_person_length by (metis card_distinct distinct_card length_map set_map)

section \<open>Slots\<close>

lemma slots_member: "(wc, i) \<in> set (slots_of openings) \<longleftrightarrow> (\<exists>opn \<in> set openings. wc = op_wc_id opn \<and> 0 \<le> i \<and> i < op_requested opn)"
  by (force simp: slots_of_def)

lemma slots_limit:
  assumes "(wc, i) \<in> set (slots_of openings)"
  shows "\<exists>opn \<in> set openings. op_wc_id opn = wc \<and> {s \<in> set (slots_of openings). fst s = wc} \<subseteq> Pair wc ` {0..<op_requested opn}"
proof -
  let ?mine = "{opn \<in> set openings. op_wc_id opn = wc}"
  have ne: "?mine \<noteq> {}" "finite ?mine" using assms by (auto simp: slots_member)
  have fin: "finite (op_requested ` ?mine)" "op_requested ` ?mine \<noteq> {}" using ne by blast+
  obtain opn where opn: "opn \<in> ?mine" "op_requested opn = Max (op_requested ` ?mine)"
    using Max_in [OF fin] by (metis (no_types, lifting) imageE)
  have max: "op_requested x \<le> op_requested opn" if "x \<in> ?mine" for x
    unfolding opn(2) by (rule Max_ge [OF fin(1)]) (use that in blast)
  have "{s \<in> set (slots_of openings). fst s = wc} \<subseteq> Pair wc ` {0..<op_requested opn}"
  proof
    fix s assume "s \<in> {s \<in> set (slots_of openings). fst s = wc}"
    then obtain j where j: "s = (wc, j)" "(wc, j) \<in> set (slots_of openings)" by (cases s) auto
    then obtain x where "x \<in> ?mine" "0 \<le> j" "j < op_requested x" unfolding slots_member by blast
    then have "j \<in> {0..<op_requested opn}" using max by force
    then show "s \<in> Pair wc ` {0..<op_requested opn}" using j(1) by blast
  qed
  then show ?thesis using opn(1) by blast
qed

lemma count_person_get: "dict_get (foldl (\<lambda>d (_, wc). count_person wc d) d xs) wc 0 = dict_get d wc 0 + int (length (filter (\<lambda>x. snd x = wc) xs))"
proof (induction xs arbitrary: d)
  case (Cons x xs)
  obtain p w where x: "x = (p, w)" by (cases x)
  have "dict_get (count_person w d) wc 0 = dict_get d wc 0 + (if w = wc then 1 else 0)"
    by (simp add: count_person_def dict_get_def update_conv')
  then show ?case using Cons [of "count_person w d"] x by simp
qed simp

lemma zero_counts: "dict_get (foldl (\<lambda>d opn. AList.update (op_wc_id opn) (0::int) d) d openings) wc 0 = (if wc \<in> op_wc_id ` set openings then 0 else dict_get d wc 0)"
  by (induction openings arbitrary: d) (auto simp: dict_get_def update_conv')

section \<open>The matching\<close>

text \<open>The number of people at a work center.\<close>

definition people_at :: "int \<Rightarrow> (int \<times> int) list \<Rightarrow> int" where
  "people_at wc wc_by_person = int (length (filter (\<lambda>x. snd x = wc) wc_by_person))"

definition seatable_commitments :: "opening_row list \<Rightarrow> commitment list \<Rightarrow> bool" where
  "seatable_commitments openings commitments =
     (\<exists>seat. inj_on seat (set commitments) \<and>
        (\<forall>c \<in> set commitments. fst (seat c) \<in> set (cm_eligible c) \<and>
           (\<exists>opn \<in> set openings. fst (seat c) = op_wc_id opn \<and> 0 \<le> snd (seat c) \<and> snd (seat c) < op_requested opn)))"

lemma eligible_lookup:
  assumes "distinct (map cm_person cs)" "c \<in> set cs"
  shows "dict_get (by_person cs) (cm_person c) [] = cm_eligible c"
proof -
  have "map_of (map (\<lambda>c. (cm_person c, cm_eligible c)) cs) (cm_person c) = Some (cm_eligible c)"
    by (rule map_of_is_SomeI) (use assms in \<open>auto simp: o_def\<close>)
  then show ?thesis by (simp add: by_person_distinct [OF assms(1)] dict_get_def)
qed

lemma seatable_people:
  assumes "distinct (map cm_person cs)"
  shows "seatable (seats (slots_of openings) (\<lambda>p. dict_get (by_person cs) p [])) (cm_person ` set cs) \<longleftrightarrow> seatable_commitments openings cs"
proof -
  have inj: "inj_on cm_person (set cs)" using assms by (simp add: distinct_map)
  note el = eligible_lookup [OF assms]
  let ?st = "seats (slots_of openings) (\<lambda>p. dict_get (by_person cs) p [])"
  have st: "s \<in> ?st (cm_person c) \<longleftrightarrow> fst s \<in> set (cm_eligible c) \<and>
      (\<exists>opn \<in> set openings. fst s = op_wc_id opn \<and> 0 \<le> snd s \<and> snd s < op_requested opn)" if "c \<in> set cs" for s c
    using el [OF that] slots_member [of "fst s" "snd s" openings] by (auto simp: seats_def)
  show ?thesis
  proof
    assume "seatable ?st (cm_person ` set cs)"
    then obtain f where f: "inj_on f (cm_person ` set cs)" "\<forall>p \<in> cm_person ` set cs. f p \<in> ?st p" unfolding seatable_def by blast
    have "inj_on (f \<circ> cm_person) (set cs)" using inj f(1) by (rule comp_inj_on)
    then show "seatable_commitments openings cs"
      unfolding seatable_commitments_def using f(2) st by (intro exI [of _ "f \<circ> cm_person"]) auto
  next
    assume "seatable_commitments openings cs"
    then obtain g where g: "inj_on g (set cs)" "\<And>c. c \<in> set cs \<Longrightarrow> g c \<in> ?st (cm_person c)"
      unfolding seatable_commitments_def using st by blast
    let ?f = "g \<circ> the_inv_into (set cs) cm_person"
    have f: "?f (cm_person c) = g c" if "c \<in> set cs" for c using the_inv_into_f_f [OF inj that] by simp
    have "inj_on ?f (cm_person ` set cs)" using g(1) f by (auto simp: inj_on_def)
    moreover have "\<forall>p \<in> cm_person ` set cs. ?f p \<in> ?st p" using g(2) f by auto
    ultimately show "seatable ?st (cm_person ` set cs)" unfolding seatable_def by blast
  qed
qed

lemma matched_parts:
  assumes run: "match_commitments openings cs = Some cov"
  obtains held where "distinct (map cm_person cs)" "distinct (map fst held)" "distinct (map snd held)"
    "seating (seats (slots_of openings) (\<lambda>p. dict_get (by_person cs) p [])) (map_of held)" "ran (map_of held) = cm_person ` set cs"
    "cv_total cov = length cs" "cv_wc_by_person cov = map (\<lambda>(slot, p). (p, fst slot)) held"
    "\<And>wc. wc \<in> op_wc_id ` set openings \<Longrightarrow> dict_get (cv_filled cov) wc 0 = people_at wc (cv_wc_by_person cov)"
proof -
  let ?el = "\<lambda>p. dict_get (by_person cs) p []" and ?slots = "slots_of openings"
  have len: "length (by_person cs) = length cs" using run by (auto simp: match_commitments_def Let_def split: if_splits)
  then have d: "distinct (map cm_person cs)" by (simp add: length_iff_distinct)
  obtain held where held: "assign_all ?slots ?el (sort (map fst (by_person cs))) [] = Some held"
    "cov = \<lparr>cv_total = length (by_person cs),
      cv_filled = foldl (\<lambda>d (_, wc). count_person wc d) (foldl (\<lambda>d opn. AList.update (op_wc_id opn) 0 d) [] openings)
         (foldl (\<lambda>d (slot, p). AList.update p (fst slot) d) [] held),
      cv_wc_by_person = foldl (\<lambda>d (slot, p). AList.update p (fst slot) d) [] held\<rparr>"
    using run unfolding match_commitments_def Let_def by (auto split: if_splits option.splits)
  have people: "map fst (by_person cs) = map cm_person cs" by (simp add: by_person_distinct [OF d] o_def)
  have "case assign_all ?slots ?el (sort (map fst (by_person cs))) [] of
      None \<Rightarrow> \<not> seatable (seats ?slots ?el) (set (sort (map fst (by_person cs))) \<union> ran (map_of ([] :: holders)))
    | Some h \<Rightarrow> seating (seats ?slots ?el) (map_of h) \<and> ran (map_of h) = set (sort (map fst (by_person cs))) \<union> ran (map_of ([] :: holders)) \<and> distinct (map fst h)"
    by (rule assign_everybody) (use d people in \<open>auto simp: seating_def\<close>)
  then have h: "seating (seats ?slots ?el) (map_of held)" "ran (map_of held) = cm_person ` set cs" "distinct (map fst held)"
    using held(1) people by auto
  have inj: "distinct (map snd held)"
  proof -
    have "inj_on snd (set held)"
    proof (rule inj_onI)
      fix x y assume xy: "x \<in> set held" "y \<in> set held" "snd x = snd y"
      obtain a b p where p: "x = (a, p)" "y = (b, p)" using xy(3) by (cases x, cases y) auto
      have "map_of held a = Some p" "map_of held b = Some p"
        using xy(1,2) unfolding p by (auto intro: map_of_is_SomeI [OF h(3)])
      then have "fst x = fst y" unfolding p fst_conv by (rule seat_unique [OF h(1)])
      then show "x = y" using xy(3) by (rule prod_eqI)
    qed
    moreover have "distinct held" using h(3) by (simp add: distinct_map)
    ultimately show ?thesis by (simp add: distinct_map)
  qed
  have wc: "foldl (\<lambda>d (slot, p). AList.update p (fst slot) d) [] held = map (\<lambda>(slot, p). (p, fst slot)) held"
    using foldl_update_distinct [of "[]" snd held "\<lambda>x. fst (fst x)"] inj by (simp add: case_prod_beta')
  show ?thesis
  proof (rule that [OF d h(3) inj h(1,2)])
    show "cv_total cov = length cs" using held(2) len by simp
    show "cv_wc_by_person cov = map (\<lambda>(slot, p). (p, fst slot)) held" using held(2) wc by simp
    show "dict_get (cv_filled cov) w 0 = people_at w (cv_wc_by_person cov)" if "w \<in> op_wc_id ` set openings" for w
      using that held(2) by (simp add: count_person_get zero_counts people_at_def)
  qed
qed

lemma matched_iff: "match_commitments openings cs \<noteq> None \<longleftrightarrow> distinct (map cm_person cs) \<and> seatable_commitments openings cs"
proof (cases "distinct (map cm_person cs)")
  case True
  let ?el = "\<lambda>p. dict_get (by_person cs) p []" and ?slots = "slots_of openings"
  have people: "map fst (by_person cs) = map cm_person cs" by (simp add: by_person_distinct [OF True] o_def)
  have all: "case assign_all ?slots ?el (sort (map fst (by_person cs))) [] of
      None \<Rightarrow> \<not> seatable (seats ?slots ?el) (set (sort (map fst (by_person cs))) \<union> ran (map_of ([] :: holders)))
    | Some h \<Rightarrow> seating (seats ?slots ?el) (map_of h) \<and> ran (map_of h) = set (sort (map fst (by_person cs))) \<union> ran (map_of ([] :: holders)) \<and> distinct (map fst h)"
    by (rule assign_everybody) (use True people in \<open>auto simp: seating_def\<close>)
  have fits: "length (by_person cs) \<le> length ?slots" if "seatable_commitments openings cs"
  proof -
    from that obtain f where f: "inj_on f (cm_person ` set cs)" "\<forall>p \<in> cm_person ` set cs. f p \<in> seats ?slots ?el p"
      unfolding seatable_people [OF True, symmetric] seatable_def by blast
    have "card (cm_person ` set cs) \<le> card (set ?slots)"
      by (rule card_inj_on_le [OF f(1)]) (use f(2) in \<open>auto simp: seats_def\<close>)
    then show ?thesis unfolding by_person_length using card_length [of ?slots] by linarith
  qed
  have ok: "seatable_commitments openings cs" if "assign_all ?slots ?el (sort (map fst (by_person cs))) [] = Some h" for h
    using all that seating_seatable people unfolding seatable_people [OF True, symmetric] by fastforce
  have bad: "\<not> seatable_commitments openings cs" if "assign_all ?slots ?el (sort (map fst (by_person cs))) [] = None"
    using all that people unfolding seatable_people [OF True, symmetric] by simp
  show ?thesis using True ok bad fits length_iff_distinct [of cs]
    unfolding match_commitments_def Let_def by (auto split: option.splits)
next
  case False
  then show ?thesis using length_iff_distinct [of cs] by (auto simp: match_commitments_def Let_def)
qed

lemma room:
  assumes held: "distinct (map fst held)" "\<And>s p. (s, p) \<in> set held \<Longrightarrow> s \<in> set (slots_of openings)"
    and x: "((wc, i), q) \<in> set held"
  shows "\<exists>opn \<in> set openings. op_wc_id opn = wc \<and> people_at wc (map (\<lambda>(slot, p). (p, fst slot)) held) \<le> op_requested opn"
proof -
  obtain opn where opn: "opn \<in> set openings" "op_wc_id opn = wc"
    "{s \<in> set (slots_of openings). fst s = wc} \<subseteq> Pair wc ` {0..<op_requested opn}"
    using slots_limit [OF held(2) [OF x]] by blast
  let ?mine = "filter (\<lambda>x. fst (fst x) = wc) held"
  have n: "people_at wc (map (\<lambda>(slot, p). (p, fst slot)) held) = int (length ?mine)"
    by (simp add: people_at_def filter_map o_def case_prod_beta')
  have "length ?mine = card (fst ` set ?mine)"
    using distinct_card [of "map fst ?mine"] held(1) by (simp add: distinct_map_filter)
  also have "\<dots> \<le> card (Pair wc ` {0..<op_requested opn})"
  proof (rule card_mono)
    have "fst ` set ?mine \<subseteq> {s \<in> set (slots_of openings). fst s = wc}" using held(2) by force
    then show "fst ` set ?mine \<subseteq> Pair wc ` {0..<op_requested opn}" using opn(3) by blast
  qed simp
  also have "\<dots> = nat (op_requested opn)" by (simp add: card_image inj_on_def)
  finally have le: "length ?mine \<le> nat (op_requested opn)" .
  have "?mine \<noteq> []" using x by (force simp: filter_empty_conv)
  then have "0 < length ?mine" by simp
  then have "int (length ?mine) \<le> op_requested opn" using le by linarith
  then show ?thesis using opn(1,2) unfolding n by blast
qed

text \<open>
  C32. Commitments are matched exactly when they can be: a coverage is returned if and only if every person
  committed once and everybody can have a slot of an eligible work center of their own; it then
  gives each person an eligible center, counts the people of each opening's center, and puts no more people
  at a center than an opening of it requests.
\<close>

theorem match_commitments_exact:
  "((match_commitments openings cs \<noteq> None) = (distinct (map cm_person cs) \<and> seatable_commitments openings cs)) \<and>
   (match_commitments openings cs = Some cov \<longrightarrow>
      cv_total cov = length cs \<and> distinct (map fst (cv_wc_by_person cov)) \<and>
      set (map fst (cv_wc_by_person cov)) = set (map cm_person cs) \<and>
      list_all (\<lambda>c. list_ex (\<lambda>x. fst x = cm_person c \<and> snd x \<in> set (cm_eligible c)) (cv_wc_by_person cov)) cs \<and>
      list_all (\<lambda>opn. dict_get (cv_filled cov) (op_wc_id opn) 0 = people_at (op_wc_id opn) (cv_wc_by_person cov)) openings \<and>
      list_all (\<lambda>x. list_ex (\<lambda>opn. op_wc_id opn = snd x \<and> people_at (snd x) (cv_wc_by_person cov) \<le> op_requested opn) openings)
        (cv_wc_by_person cov))"
proof (intro conjI impI)
  show "(match_commitments openings cs \<noteq> None) = (distinct (map cm_person cs) \<and> seatable_commitments openings cs)"
    by (rule matched_iff)
next
  assume run: "match_commitments openings cs = Some cov"
  let ?wcs = "cv_wc_by_person cov"
  obtain held where held: "distinct (map cm_person cs)" "distinct (map fst held)" "distinct (map snd held)"
    "seating (seats (slots_of openings) (\<lambda>p. dict_get (by_person cs) p [])) (map_of held)" "ran (map_of held) = cm_person ` set cs"
    and total: "cv_total cov = length cs" and wcs: "?wcs = map (\<lambda>(slot, p). (p, fst slot)) held"
    and filled: "\<And>wc. wc \<in> op_wc_id ` set openings \<Longrightarrow> dict_get (cv_filled cov) wc 0 = people_at wc ?wcs"
    by (rule matched_parts [OF run], rule that)
  have snds: "map fst ?wcs = map snd held" unfolding wcs by (simp add: case_prod_beta')
  have in_slots: "s \<in> set (slots_of openings)" if "(s, p) \<in> set held" for s p
    using seatingD [OF held(4) map_of_is_SomeI [OF held(2) that]] by (simp add: seats_def)
  show "cv_total cov = length cs" by (rule total)
  show "distinct (map fst ?wcs)" unfolding snds by (rule held(3))
  show "set (map fst ?wcs) = set (map cm_person cs)"
    unfolding snds using held(5) ran_distinct [OF held(2)] by simp
  show "list_all (\<lambda>opn. dict_get (cv_filled cov) (op_wc_id opn) 0 = people_at (op_wc_id opn) ?wcs) openings"
    unfolding list_all_iff using filled by blast
  show "list_all (\<lambda>c. list_ex (\<lambda>x. fst x = cm_person c \<and> snd x \<in> set (cm_eligible c)) ?wcs) cs"
    unfolding list_all_iff
  proof
    fix c assume c: "c \<in> set cs"
    then have "cm_person c \<in> ran (map_of held)" using held(5) by blast
    then obtain s where s: "map_of held s = Some (cm_person c)" by (auto simp: ran_def)
    then have "fst s \<in> set (cm_eligible c)"
      using seatingD [OF held(4) s] eligible_lookup [OF held(1) c] by (simp add: seats_def)
    moreover have "(cm_person c, fst s) \<in> set ?wcs" unfolding wcs using map_of_SomeD [OF s] by force
    ultimately show "list_ex (\<lambda>x. fst x = cm_person c \<and> snd x \<in> set (cm_eligible c)) ?wcs"
      unfolding list_ex_iff by force
  qed
  show "list_all (\<lambda>x. list_ex (\<lambda>opn. op_wc_id opn = snd x \<and> people_at (snd x) ?wcs \<le> op_requested opn) openings) ?wcs"
    unfolding list_all_iff list_ex_iff
  proof
    fix x assume "x \<in> set ?wcs"
    then obtain wc i q where "x = (q, wc)" "((wc, i), q) \<in> set held" unfolding wcs by force
    then show "\<exists>opn \<in> set openings. op_wc_id opn = snd x \<and> people_at (snd x) ?wcs \<le> op_requested opn"
      using room [OF held(2) in_slots] unfolding wcs by auto
  qed
qed

definition demo_openings :: "opening_row list" where
  "demo_openings =
     [\<lparr>op_wc_id = 2, op_wc_name = ''Saw'', op_requested = 1, op_skills = [''Saw'']\<rparr>,
      \<lparr>op_wc_id = 1, op_wc_name = ''Press'', op_requested = 1, op_skills = [''Press'']\<rparr>]"

text \<open>Person 5 is seated at center 1 first and moves to center 2 for person 9.\<close>

definition demo_commitments :: "commitment list" where
  "demo_commitments = [\<lparr>cm_person = 9, cm_eligible = [1]\<rparr>, \<lparr>cm_person = 5, cm_eligible = [1, 2]\<rparr>]"

theorem match_commitments_exact_witness:
  "seatable_commitments demo_openings demo_commitments \<and>
   (\<exists>cov. match_commitments demo_openings demo_commitments = Some cov \<and> cv_total cov = 2)"
proof -
  have "match_commitments demo_openings demo_commitments \<noteq> None" by code_simp
  then obtain cov where cov: "match_commitments demo_openings demo_commitments = Some cov" by blast
  then show ?thesis using match_commitments_exact [of demo_openings demo_commitments cov] by (simp add: demo_commitments_def)
qed

section \<open>Publishing\<close>

text \<open>A name is in order at its center.\<close>

definition name_fits :: "publish_inputs \<Rightarrow> string \<Rightarrow> bool \<Rightarrow> string \<Rightarrow> bool" where
  "name_fits pub wc trainer name =
     (name \<in> set (pi_available pub) \<and> is_active pub name \<and> name \<notin> set (pi_off pub) \<and>
      (case opening_named (pi_openings pub) wc of
         None \<Rightarrow> True
       | Some opn \<Rightarrow> is_qualified pub opn wc name \<and> (name \<in> set (pi_needs_partner pub wc) \<longrightarrow> trainer)))"

definition step_name :: "publish_inputs \<Rightarrow> publish_state \<Rightarrow> string \<times> bool \<times> string \<Rightarrow> publish_state" where
  "step_name pub st x = check_name pub (fst x) (fst (snd x)) st (snd (snd x))"

definition entries_of :: "publish_inputs \<Rightarrow> (string \<times> string list) list \<Rightarrow> (string \<times> bool \<times> string) list" where
  "entries_of pub assignments =
     concat (map (\<lambda>(wc, names). map (\<lambda>n. (wc, trainer_present pub (opening_named (pi_openings pub) wc) wc names, n)) names) assignments)"

lemma centers_flat: "foldl (check_center pub) st assignments = foldl (step_name pub) st (entries_of pub assignments)"
proof (induction assignments arbitrary: st)
  case (Cons a assignments)
  obtain wc names where a: "a = (wc, names)" by (cases a)
  have "foldl (step_name pub) st (map (\<lambda>n. (wc, tr, n)) names) = foldl (check_name pub wc tr) st names" for tr st
    by (induction names arbitrary: st) (simp_all add: step_name_def)
  then show ?case using Cons by (simp add: a entries_of_def check_center_def)
qed (simp add: entries_of_def)

lemma check_name_fits:
  assumes "name \<notin> set (ps_seen st)" "name_fits pub wc trainer name"
  shows "check_name pub wc trainer st name =
    st\<lparr>ps_seen := name # ps_seen st,
       ps_qualified := (if opening_named (pi_openings pub) wc = None then ps_qualified st
                        else (ps_qualified st)(wc := ps_qualified st wc + 1))\<rparr>"
  using assms
  by (auto simp: check_name_def name_fits_def general_reasons_def opening_reasons_def Let_def split: option.splits)

lemma check_name_misfit:
  assumes "name \<in> set (ps_seen st) \<or> \<not> name_fits pub wc trainer name"
  shows "ps_reasons (check_name pub wc trainer st name) \<noteq> []"
  using assms
  by (auto simp: check_name_def name_fits_def general_reasons_def opening_reasons_def Let_def split: option.splits if_splits)

lemma check_name_keeps: "ps_reasons st \<noteq> [] \<Longrightarrow> ps_reasons (check_name pub wc trainer st name) \<noteq> []"
  by (auto simp: check_name_def Let_def split: option.splits)

lemma steps_keep: "ps_reasons st \<noteq> [] \<Longrightarrow> ps_reasons (foldl (step_name pub) st xs) \<noteq> []"
  by (induction xs arbitrary: st) (simp_all add: step_name_def check_name_keeps)

lemma steps_clean:
  assumes "ps_reasons st = []"
  shows "(ps_reasons (foldl (step_name pub) st xs) = [] \<longleftrightarrow>
      distinct (map (snd \<circ> snd) xs) \<and> set (map (snd \<circ> snd) xs) \<inter> set (ps_seen st) = {} \<and>
      list_all (\<lambda>(wc, tr, n). name_fits pub wc tr n) xs) \<and>
    (ps_reasons (foldl (step_name pub) st xs) = [] \<longrightarrow>
      set (ps_seen (foldl (step_name pub) st xs)) = set (map (snd \<circ> snd) xs) \<union> set (ps_seen st) \<and>
      ps_qualified (foldl (step_name pub) st xs) =
        (\<lambda>wc. ps_qualified st wc + (if opening_named (pi_openings pub) wc = None then 0 else int (length (filter (\<lambda>x. fst x = wc) xs)))))"
  using assms
proof (induction xs arbitrary: st)
  case (Cons x xs)
  obtain wc tr n where x: "x = (wc, tr, n)" by (cases x)
  let ?next = "step_name pub st x"
  show ?case
  proof (cases "n \<notin> set (ps_seen st) \<and> name_fits pub wc tr n")
    case True
    have fits: "?next = st\<lparr>ps_seen := n # ps_seen st,
        ps_qualified := (if opening_named (pi_openings pub) wc = None then ps_qualified st
                         else (ps_qualified st)(wc := ps_qualified st wc + 1))\<rparr>"
      unfolding x step_name_def fst_conv snd_conv by (rule check_name_fits) (use True in simp_all)
    have st: "ps_reasons ?next = []" "ps_seen ?next = n # ps_seen st"
      "ps_qualified ?next = (if opening_named (pi_openings pub) wc = None then ps_qualified st
                             else (ps_qualified st)(wc := ps_qualified st wc + 1))"
      using Cons.prems by (simp_all add: fits)
    show ?thesis using Cons.IH [OF st(1)] True unfolding st(2,3) by (auto simp: x fun_eq_iff)
  next
    case False
    have "ps_reasons ?next \<noteq> []" using check_name_misfit [of n st pub wc tr] False by (auto simp: x step_name_def)
    then have "ps_reasons (foldl (step_name pub) ?next xs) \<noteq> []" by (rule steps_keep)
    then show ?thesis using False by (auto simp: x)
  qed
qed (simp add: fun_eq_iff)

lemma entry_names: "map (snd \<circ> snd) (entries_of pub assignments) = concat (map snd assignments)"
  by (induction assignments) (auto simp: entries_of_def o_def)

lemma entry_count: "length (filter (\<lambda>x. fst x = wc) (entries_of pub assignments)) = length (concat (map snd (filter (\<lambda>a. fst a = wc) assignments)))"
proof (induction assignments)
  case (Cons a assignments)
  obtain w names where a: "a = (w, names)" by (cases a)
  have "filter (\<lambda>x. fst x = wc) (map (\<lambda>n. (w, tr, n)) names) = (if w = wc then map (\<lambda>n. (w, tr, n)) names else [])" for tr :: bool
    by (induction names) auto
  then show ?case using Cons by (simp add: entries_of_def a)
qed (simp add: entries_of_def)

lemma entry_fits:
  "list_all (\<lambda>(wc, tr, n). name_fits pub wc tr n) (entries_of pub assignments) \<longleftrightarrow>
   list_all (\<lambda>(wc, names). list_all (name_fits pub wc (trainer_present pub (opening_named (pi_openings pub) wc) wc names)) names) assignments"
proof (induction assignments)
  case (Cons a assignments)
  obtain w names where "a = (w, names)" by (cases a)
  then show ?case using Cons by (simp add: entries_of_def list_all_iff ball_Un)
qed (simp add: entries_of_def)

lemma opening_exists: "opn \<in> set openings \<Longrightarrow> opening_named openings (op_wc_name opn) \<noteq> None"
  by (auto simp: opening_named_def find_None_iff)

text \<open>
  The publishing rules written out over the roster, without the checks of the code: who may train at an
  opening, and who is in order at a center among the names assigned there. Of several openings of one name the
  last counts.
\<close>

definition may_train :: "publish_inputs \<Rightarrow> opening_row \<Rightarrow> string \<Rightarrow> string \<Rightarrow> bool" where
  "may_train pub opn wc name =
     (name \<in> set (pi_available pub) - (set (pi_off pub) \<union> set (pi_trainees pub wc)) \<and>
      (case pi_people pub name of
         None \<Rightarrow> False
       | Some person \<Rightarrow> pe_active person \<and> \<not> pe_reserve person \<and>
           (\<forall>skill \<in> set (op_skills opn). 1 \<le> pe_level person skill) \<and>
           (\<forall>skill \<in> set (op_skills opn) - set (pi_certifications pub). 3 \<le> pe_level person skill)))"

definition in_order :: "publish_inputs \<Rightarrow> string \<Rightarrow> string list \<Rightarrow> string \<Rightarrow> bool" where
  "in_order pub wc names name =
     (name \<in> set (pi_available pub) - set (pi_off pub) \<and>
      (case pi_people pub name of
         None \<Rightarrow> False
       | Some person \<Rightarrow> pe_active person \<and>
          (case rev (filter (\<lambda>opn. op_wc_name opn = wc) (pi_openings pub)) of
             [] \<Rightarrow> True
           | opn # _ \<Rightarrow>
               (let missing = {skill \<in> set (op_skills opn). pe_level person skill \<le> 0}
                in (missing = {} \<or> name \<in> set (pi_trainees pub wc) \<and> missing \<inter> set (pi_certifications pub) = {}) \<and>
                   (name \<in> set (pi_needs_partner pub wc) \<longrightarrow> (\<exists>trainer \<in> set names. may_train pub opn wc trainer))))))"

lemma may_train_iff: "may_train pub opn wc name \<longleftrightarrow> is_trainer pub opn wc name"
  by (force simp: may_train_def is_trainer_def list_all_iff split: option.splits if_splits)

lemma opening_named_last:
  "opening_named openings wc = (case rev (filter (\<lambda>opn. op_wc_name opn = wc) openings) of [] \<Rightarrow> None | opn # _ \<Rightarrow> Some opn)"
proof -
  have "find P xs = (case filter P xs of [] \<Rightarrow> None | x # _ \<Rightarrow> Some x)" for P and xs :: "opening_row list"
    by (induction xs) auto
  then show ?thesis by (simp add: opening_named_def rev_filter)
qed

lemma in_order_iff:
  "in_order pub wc names name \<longleftrightarrow>
     name_fits pub wc (trainer_present pub (opening_named (pi_openings pub) wc) wc names) name"
proof (cases "pi_people pub name")
  case (Some person)
  show ?thesis
  proof (cases "opening_named (pi_openings pub) wc")
    case None
    then have "rev (filter (\<lambda>opn. op_wc_name opn = wc) (pi_openings pub)) = []"
      by (simp add: opening_named_last split: list.splits)
    then show ?thesis using None Some by (auto simp: in_order_def name_fits_def is_active_def)
  next
    case (Some opn)
    then obtain rest where rest: "rev (filter (\<lambda>opn. op_wc_name opn = wc) (pi_openings pub)) = opn # rest"
      by (auto simp: opening_named_last split: list.splits)
    have qual: "is_qualified pub opn wc name \<longleftrightarrow>
        {skill \<in> set (op_skills opn). pe_level person skill \<le> 0} = {} \<or>
        name \<in> set (pi_trainees pub wc) \<and> {skill \<in> set (op_skills opn). pe_level person skill \<le> 0} \<inter> set (pi_certifications pub) = {}"
      using \<open>pi_people pub name = Some person\<close> by (force simp: is_qualified_def list_all_iff)
    show ?thesis
      using Some rest \<open>pi_people pub name = Some person\<close>
      by (auto simp: in_order_def name_fits_def is_active_def Let_def qual [symmetric] trainer_present_def list_ex_iff may_train_iff
          simp del: Collect_empty_eq)
  qed
qed (simp add: in_order_def name_fits_def is_active_def)

text \<open>
  C33. The check before publishing is exact: it finds nothing to object to if and only if nobody is assigned
  twice, everybody assigned is available, active and not off that day, qualified for the center's
  opening - with every skill, or as a trainee whose missing skills need no certificate - and, where a partner
  is needed, together with somebody who may train there, and, when coverage is required, every
  available person is assigned and every opening's center has as many people as requested.
\<close>

theorem publish_check_exact:
  "(validate_publish pub assignments require_coverage = []) =
   (distinct (concat (map snd assignments)) \<and>
    list_all (\<lambda>(wc, names). list_all (in_order pub wc names) names) assignments \<and>
    (require_coverage \<longrightarrow>
       set (pi_available pub) \<subseteq> set (concat (map snd assignments)) \<and>
       list_all (\<lambda>opn. op_requested opn \<le> int (length (concat (map snd (filter (\<lambda>a. fst a = op_wc_name opn) assignments)))))
         (pi_openings pub)))"
proof -
  let ?start = "\<lparr>ps_reasons = [], ps_seen = [], ps_qualified = (\<lambda>_. 0)\<rparr>" and ?xs = "entries_of pub assignments"
  let ?st = "foldl (check_center pub) ?start assignments"
  have clean: "ps_reasons ?st = [] \<longleftrightarrow> distinct (concat (map snd assignments)) \<and>
      list_all (\<lambda>(wc, names). list_all (name_fits pub wc (trainer_present pub (opening_named (pi_openings pub) wc) wc names)) names) assignments"
    using steps_clean [of ?start pub ?xs] unfolding centers_flat [of pub ?start] by (simp add: entry_names entry_fits)
  have cover: "coverage_reasons pub ?st = [] \<longleftrightarrow>
      set (pi_available pub) \<subseteq> set (concat (map snd assignments)) \<and>
      list_all (\<lambda>opn. op_requested opn \<le> int (length (concat (map snd (filter (\<lambda>a. fst a = op_wc_name opn) assignments))))) (pi_openings pub)"
    if "ps_reasons ?st = []"
  proof -
    have seen: "set (ps_seen ?st) = set (concat (map snd assignments))"
      and qual: "ps_qualified ?st = (\<lambda>wc. if opening_named (pi_openings pub) wc = None then 0
         else int (length (concat (map snd (filter (\<lambda>a. fst a = wc) assignments)))))"
      using steps_clean [of ?start pub ?xs] that unfolding centers_flat entry_names entry_count by simp_all
    have count: "ps_qualified ?st (op_wc_name opn) = int (length (concat (map snd (filter (\<lambda>a. fst a = op_wc_name opn) assignments))))"
      if "opn \<in> set (pi_openings pub)" for opn
      unfolding qual using opening_exists [OF that] by (simp only: if_False)
    show ?thesis
      unfolding coverage_reasons_def append_is_Nil_conv map_is_Nil_conv filter_empty_conv list_all_iff seen
      using count by (auto simp: not_less)
  qed
  show ?thesis unfolding in_order_iff using clean cover by (auto simp: validate_publish_def Let_def)
qed

definition demo_publish :: publish_inputs where
  "demo_publish =
     \<lparr>pi_openings = demo_openings,
      pi_people = [''Ann'' \<mapsto> \<lparr>pe_active = True, pe_reserve = False, pe_level = (\<lambda>_. 3)\<rparr>,
                   ''Bob'' \<mapsto> \<lparr>pe_active = True, pe_reserve = False, pe_level = (\<lambda>_. 0)\<rparr>],
      pi_off = [], pi_available = [''Ann'', ''Bob''],
      pi_trainees = (\<lambda>wc. if wc = ''Saw'' then [''Bob''] else []),
      pi_needs_partner = (\<lambda>wc. if wc = ''Saw'' then [''Bob''] else []), pi_certifications = []\<rparr>"

theorem publish_check_exact_witness:
  "in_order demo_publish ''Saw'' [''Ann'', ''Bob''] ''Bob'' \<and> \<not> in_order demo_publish ''Saw'' [''Bob''] ''Bob''"
proof -
  have "validate_publish demo_publish [(''Saw'', [''Ann'', ''Bob''])] False = []" by code_simp
  moreover have "validate_publish demo_publish [(''Saw'', [''Bob''])] False \<noteq> []" by code_simp
  ultimately show ?thesis
    using publish_check_exact [of demo_publish "[(''Saw'', [''Ann'', ''Bob''])]" False]
      publish_check_exact [of demo_publish "[(''Saw'', [''Bob''])]" False] by simp
qed

section \<open>Deadlines\<close>

lemma adjacent_found:
  "adjacent_loop normal c step n = Some d \<longleftrightarrow>
     (\<exists>k \<in> {1..int n}. d = c + k * step \<and> normal d \<and> (\<forall>j \<in> {1..<k}. \<not> normal (c + j * step)))"
proof (induction n arbitrary: c)
  case (Suc n)
  let ?P = "\<lambda>c n d. \<exists>k \<in> {1..int n}. d = c + k * step \<and> normal d \<and> (\<forall>j \<in> {1..<k}. \<not> normal (c + j * step))"
  show ?case
  proof (cases "normal (c + step)")
    case True
    have "?P c (Suc n) d \<longleftrightarrow> d = c + step"
    proof
      assume "?P c (Suc n) d"
      then obtain k where k: "1 \<le> k" "d = c + k * step" "\<forall>j \<in> {1..<k}. \<not> normal (c + j * step)" by auto
      have "k = 1"
      proof (rule ccontr)
        assume "k \<noteq> 1"
        then have "(1::int) \<in> {1..<k}" using k(1) by auto
        then show False using k(3) True by force
      qed
      then show "d = c + step" using k(2) by simp
    next
      assume "d = c + step"
      then show "?P c (Suc n) d" using True by (intro bexI [of _ 1]) auto
    qed
    then show ?thesis using True by auto
  next
    case False
    have "?P c (Suc n) d \<longleftrightarrow> ?P (c + step) n d"
    proof
      assume "?P c (Suc n) d"
      then obtain k where k: "1 \<le> k" "k \<le> int n + 1" "d = c + k * step" "normal d" "\<forall>j \<in> {1..<k}. \<not> normal (c + j * step)" by auto
      have k1: "k \<noteq> 1" using k(3,4) False by auto
      have "\<not> normal (c + step + j * step)" if "j \<in> {1..<k - 1}" for j
        using bspec [OF k(5), of "j + 1"] that by (auto simp: algebra_simps)
      then show "?P (c + step) n d" using k k1 by (intro bexI [of _ "k - 1"]) (auto simp: algebra_simps)
    next
      assume "?P (c + step) n d"
      then obtain k where k: "1 \<le> k" "k \<le> int n" "d = c + step + k * step" "normal d" "\<forall>j \<in> {1..<k}. \<not> normal (c + step + j * step)" by auto
      have "\<not> normal (c + j * step)" if "j \<in> {1..<k + 1}" for j
      proof (cases "j = 1")
        case False
        then have "j - 1 \<in> {1..<k}" using that by auto
        then show ?thesis using bspec [OF k(5), of "j - 1"] by (auto simp: algebra_simps)
      qed (use \<open>\<not> normal (c + step)\<close> in simp)
      then show "?P c (Suc n) d" using k by (intro bexI [of _ "k + 1"]) (auto simp: algebra_simps)
    qed
    then show ?thesis using Suc False by auto
  qed
qed simp

lemma adjacent_none: "adjacent_loop normal c step n = None \<longleftrightarrow> (\<forall>k \<in> {1..int n}. \<not> normal (c + k * step))"
proof (induction n arbitrary: c)
  case (Suc n)
  have "{1..int (Suc n)} = insert 1 ((\<lambda>k. k + 1) ` {1..int n})"
  proof (rule set_eqI)
    fix k show "k \<in> {1..int (Suc n)} \<longleftrightarrow> k \<in> insert 1 ((\<lambda>k. k + 1) ` {1..int n})"
      by (cases "k = 1") (auto intro: image_eqI [of _ _ "k - 1"])
  qed
  then have "(\<forall>k \<in> {1..int (Suc n)}. \<not> normal (c + k * step)) \<longleftrightarrow>
      \<not> normal (c + 1 * step) \<and> (\<forall>k \<in> {1..int n}. \<not> normal (c + (k + 1) * step))"
    by (simp only:) blast
  also have "\<dots> \<longleftrightarrow> \<not> normal (c + step) \<and> (\<forall>k \<in> {1..int n}. \<not> normal (c + step + k * step))"
    by (simp add: algebra_simps)
  finally show ?case using Suc [of "c + step"] by auto
qed simp

lemma loop_exhausted:
  "adjacent_loop normal day (- 1) 14 = None \<longleftrightarrow> (\<forall>e \<in> {day - 14 ..< day}. \<not> normal e)"
proof -
  have range: "{day - 14 ..< day} = (\<lambda>k. day - k) ` {1..14}"
  proof (rule set_eqI)
    fix e show "e \<in> {day - 14 ..< day} \<longleftrightarrow> e \<in> (\<lambda>k. day - k) ` {1..14}"
      by (auto intro: image_eqI [of _ _ "day - e"])
  qed
  show ?thesis unfolding adjacent_none range by (simp only: ball_simps) simp
qed

lemma loop_finds:
  "adjacent_loop normal day (- 1) 14 = Some d \<longleftrightarrow>
     d \<in> {day - 14 ..< day} \<and> normal d \<and> (\<forall>e \<in> {d <..< day}. \<not> normal e)"
proof
  assume "adjacent_loop normal day (- 1) 14 = Some d"
  then obtain k where k: "1 \<le> k" "k \<le> 14" "d = day - k" "normal d" "\<forall>j \<in> {1..<k}. \<not> normal (day - j)"
    unfolding adjacent_found by auto
  have "\<not> normal e" if "e \<in> {d <..< day}" for e
    using bspec [OF k(5), of "day - e"] that k(3) by simp
  then show "d \<in> {day - 14 ..< day} \<and> normal d \<and> (\<forall>e \<in> {d <..< day}. \<not> normal e)" using k by simp
next
  assume d: "d \<in> {day - 14 ..< day} \<and> normal d \<and> (\<forall>e \<in> {d <..< day}. \<not> normal e)"
  have "\<forall>j \<in> {1..<day - d}. \<not> normal (day - j)" using d by auto
  then show "adjacent_loop normal day (- 1) 14 = Some d"
    unfolding adjacent_found using d by (intro bexI [of _ "day - d"]) auto
qed

text \<open>
  What the deadline is about, written out from the calendar: an optional day is a Saturday or a holiday,
  where a caller that classified the day has the last word on the holiday, and otherwise the configured and
  the mirrored holidays both count; a normal workday is a configured weekday that is neither.
\<close>

definition is_optional_day ::
    "(date \<Rightarrow> bool) \<Rightarrow> (date \<Rightarrow> bool) \<Rightarrow> day_kind option option \<Rightarrow> date \<Rightarrow> bool" where
  "is_optional_day mirrored is_holiday classified day =
     (weekday day = 5 \<or>
      (classified = None \<and> (is_holiday day \<or> mirrored day)) \<or> classified = Some (Some Holiday_Kind))"

definition is_plain_workday :: "(date \<Rightarrow> bool) \<Rightarrow> (date \<Rightarrow> bool) \<Rightarrow> int list \<Rightarrow> date \<Rightarrow> bool" where
  "is_plain_workday mirrored is_holiday weekdays e =
     (\<not> is_holiday e \<and> \<not> mirrored e \<and> weekday e \<in> set weekdays - {5})"

lemma plain_workday_normal: "is_plain_workday mirrored is_holiday weekdays = normal_workday mirrored weekdays is_holiday"
  by (auto simp: is_plain_workday_def normal_workday_def)

lemma deadline_by_day:
  "response_deadline mirrored day weekdays shift_start_for is_holiday classified =
     (if is_optional_day mirrored is_holiday classified day
      then case adjacent_loop (is_plain_workday mirrored is_holiday weekdays) day (- 1) 14 of
             None \<Rightarrow> Inl (ValueError ''No prior configured plant workday'')
           | Some d \<Rightarrow> Inr (d, shift_start_for d)
      else Inl (ValueError ''Saturday recruiting requires a Saturday''))"
  by (auto simp: response_deadline_def is_optional_day_def optional_kind_def previous_normal_workday_def
      adjacent_normal_workday_def plain_workday_normal split: option.splits)

text \<open>
  C34. The deadline of an optional day - a Saturday or a holiday - is the shift start of the nearest normal workday
  before it, the last configured, non-Saturday, non-holiday weekday of the 14 days before. This is exact on
  every day: a deadline is returned exactly for an optional day with such a workday and is that one;
  an optional day, Saturday or holiday, without one in those 14 days is refused for that reason; and a day that is not
  optional is refused as such.
\<close>

theorem deadline_is_nearest_workday:
  "(response_deadline mirrored day weekdays shift_start_for is_holiday classified = Inr (d, start)) =
      (is_optional_day mirrored is_holiday classified day \<and> start = shift_start_for d \<and>
       d \<in> {day - 14 ..< day} \<and> is_plain_workday mirrored is_holiday weekdays d \<and>
       (\<forall>e \<in> {d <..< day}. \<not> is_plain_workday mirrored is_holiday weekdays e)) \<and>
    (response_deadline mirrored day weekdays shift_start_for is_holiday classified = Inl (ValueError ''No prior configured plant workday'')) =
      (is_optional_day mirrored is_holiday classified day \<and>
       (\<forall>e \<in> {day - 14 ..< day}. \<not> is_plain_workday mirrored is_holiday weekdays e)) \<and>
    (response_deadline mirrored day weekdays shift_start_for is_holiday classified = Inl (ValueError ''Saturday recruiting requires a Saturday'')) =
      (\<not> is_optional_day mirrored is_holiday classified day)"
  unfolding loop_exhausted [symmetric] loop_finds [symmetric] by (auto simp: deadline_by_day split: option.splits)

text \<open>Days 4 and 5 are a Thursday and a Friday, both mirrored holidays; day 3 is a normal Wednesday.\<close>

theorem deadline_is_nearest_workday_witness:
  "response_deadline (\<lambda>d. d \<in> {4, 5}) 5 [0, 1, 2, 3, 4] (\<lambda>_. 25200000000) (\<lambda>_. False) None = Inr (3, 25200000000) \<and>
   response_deadline (\<lambda>_. True) 5 [0, 1, 2, 3, 4] (\<lambda>_. 25200000000) (\<lambda>_. False) None = Inl (ValueError ''No prior configured plant workday'') \<and>
   response_deadline (\<lambda>_. False) 5 [0, 1, 2, 3, 4] (\<lambda>_. 25200000000) (\<lambda>_. False) None = Inl (ValueError ''Saturday recruiting requires a Saturday'')"
proof (intro conjI)
  have last: "{3 <..< 5} = {4 :: int}" by auto
  show "response_deadline (\<lambda>d. d \<in> {4, 5}) 5 [0, 1, 2, 3, 4] (\<lambda>_. 25200000000) (\<lambda>_. False) None = Inr (3, 25200000000)"
    using deadline_is_nearest_workday [of "\<lambda>d. d \<in> {4, 5}" 5 "[0, 1, 2, 3, 4]" "\<lambda>_. 25200000000" "\<lambda>_. False" None 3 25200000000]
    by (simp add: last is_optional_day_def is_plain_workday_def weekday_def)
  show "response_deadline (\<lambda>_. True) 5 [0, 1, 2, 3, 4] (\<lambda>_. 25200000000) (\<lambda>_. False) None = Inl (ValueError ''No prior configured plant workday'')"
    using deadline_is_nearest_workday [of "\<lambda>_. True" 5 "[0, 1, 2, 3, 4]" "\<lambda>_. 25200000000" "\<lambda>_. False" None]
    by (simp add: is_optional_day_def is_plain_workday_def)
  show "response_deadline (\<lambda>_. False) 5 [0, 1, 2, 3, 4] (\<lambda>_. 25200000000) (\<lambda>_. False) None = Inl (ValueError ''Saturday recruiting requires a Saturday'')"
    using deadline_is_nearest_workday [of "\<lambda>_. False" 5 "[0, 1, 2, 3, 4]" "\<lambda>_. 25200000000" "\<lambda>_. False" None]
    by (simp add: is_optional_day_def weekday_def)
qed

end
