(* ===== verification/Quick_Fix.thy ===== *)
theory Quick_Fix
  imports Work_Segments
begin

text \<open>
  Quick-punch fixes for Odoo (\<open>quick_punch_fixes.py\<close>): the stints that smoothing merged, with the real
  stints each absorbed, and the reasons a merge has to wait.
\<close>

section \<open>Data\<close>

definition settle_delay :: timedelta where
  "settle_delay = minutes 2"

record meter_freshness =
  mf_last_reading :: "datetime option"
  mf_truncated :: bool

record source_stint =
  ss_wc :: string
  ss_start :: datetime
  ss_end :: datetime
  ss_is_open :: bool
  ss_ids :: "int list"

record planned_fix =
  pf_employee :: int
  pf_person :: string
  pf_wc :: string
  pf_start :: datetime
  pf_end :: "datetime option"
  pf_ids :: "int list"
  pf_before :: "source_stint list"
  pf_key :: string

datatype skip_reason =
    Break_Overlap | Relief | Settling | First_Pick_Not_Settled | Meter_Not_Current | Not_Metered

record skipped_fix =
  sf_employee :: int
  sf_person :: string
  sf_reason :: skip_reason
  sf_before :: "source_stint list"

record fix_scan =
  fs_fixes :: "planned_fix list"
  fs_skipped :: "skipped_fix list"

text \<open>
  What one scan consults. \<open>sc_metered\<close> is what \<open>staffing.metered_work_center_names\<close> returns or raises, and
  \<open>sc_digest\<close> the first 24 hexadecimal digits of SHA-256.
\<close>

record scan_inputs =
  sc_meter :: "(string \<times> datetime list) list option"
  sc_freshness :: "string \<rightharpoonup> meter_freshness"
  sc_breaks :: "(datetime \<times> datetime) list"
  sc_now :: datetime
  sc_metered :: "string list result"
  sc_digest :: "string \<Rightarrow> string"
  sc_limit :: timedelta
  sc_settle_delay :: timedelta

fun join_comma :: "string list \<Rightarrow> string" where
  "join_comma [] = []"
| "join_comma [x] = x"
| "join_comma (x # y # ys) = x @ '','' @ join_comma (y # ys)"

definition item_key_for :: "(string \<Rightarrow> string) \<Rightarrow> int \<Rightarrow> int list \<Rightarrow> string" where
  "item_key_for digest employee ids =
     ''quick-punch:'' @ show_int employee @ '':'' @ digest (join_comma (map show_int (sorted_list_of_set (set ids))))"

section \<open>Why a merge has to wait\<close>

definition overlaps_window :: "datetime \<Rightarrow> datetime \<Rightarrow> (datetime \<times> datetime) list \<Rightarrow> bool" where
  "overlaps_window start fin windows = (fin > start \<and> list_ex (\<lambda>(a, b). a < fin \<and> b > start) windows)"

definition relieved_meanwhile :: "string \<Rightarrow> source_stint list \<Rightarrow> work_segment list \<Rightarrow> bool" where
  "relieved_meanwhile wc absorbed others =
     list_ex (\<lambda>(left, right). ss_start right > ss_end left \<and>
         list_ex (\<lambda>s. ws_start s < ss_start right \<and> ws_end s > ss_end left
                    \<and> \<not> (ws_start s < ss_end left \<and> ws_end s > ss_start right)) others)
       (pairwise (filter (\<lambda>x. ss_wc x = wc) absorbed))"

definition changed_windows :: "string \<Rightarrow> source_stint list \<Rightarrow> (datetime \<times> datetime) list" where
  "changed_windows wc absorbed =
     map (\<lambda>x. (ss_start x, ss_end x)) (filter (\<lambda>x. ss_wc x \<noteq> wc) absorbed)
     @ map (\<lambda>(left, right). (ss_end left, ss_start right))
         (filter (\<lambda>(left, right). ss_start right > ss_end left) (pairwise absorbed))"

definition inner_boundaries :: "datetime \<Rightarrow> source_stint list \<Rightarrow> datetime list" where
  "inner_boundaries fin absorbed =
     map ss_start (tl absorbed) @ filter (\<lambda>e. e \<noteq> fin) (map ss_end absorbed)"

text \<open>\<open>absorbed\<close> is not empty here: a merge without two attendance ids is dropped before.\<close>

definition first_pick_pending :: "scan_inputs \<Rightarrow> work_segment \<Rightarrow> bool \<Rightarrow> source_stint list \<Rightarrow> bool result" where
  "first_pick_pending sc merged is_open absorbed =
     (if absorbed \<noteq> [] \<and> ss_wc (hd absorbed) = ws_wc merged then Inr False
      else case map ss_start (filter (\<lambda>x. ss_wc x = ws_wc merged) absorbed) of
             [] \<Rightarrow> Inl (ValueError ''min() arg is an empty sequence'')
           | start # starts \<Rightarrow>
               Inr ((if is_open then sc_now sc else ws_end merged) - foldl min start starts \<le> sc_limit sc))"

definition meter_behind :: "scan_inputs \<Rightarrow> source_stint \<Rightarrow> bool" where
  "meter_behind sc x =
     ((case sc_freshness sc (ss_wc x) of
         None \<Rightarrow> True
       | Some fresh \<Rightarrow> mf_truncated fresh
           \<or> (case mf_last_reading fresh of None \<Rightarrow> True | Some t \<Rightarrow> t < ss_end x))
      \<or> (case sc_meter sc of None \<Rightarrow> True | Some by_wc \<Rightarrow> map_of by_wc (ss_wc x) = None))"

definition unsettled_reason ::
    "scan_inputs \<Rightarrow> work_segment \<Rightarrow> source_stint list \<Rightarrow> work_segment list \<Rightarrow> bool \<Rightarrow> skip_reason option result" where
  "unsettled_reason sc merged absorbed others is_open =
     (let boundaries = inner_boundaries (ws_end merged) absorbed
      in if list_ex (\<lambda>(a, b). overlaps_window a b (sc_breaks sc)) (changed_windows (ws_wc merged) absorbed)
         then Inr (Some Break_Overlap)
         else if relieved_meanwhile (ws_wc merged) absorbed others then Inr (Some Relief)
         else if boundaries \<noteq> [] \<and> sc_now sc - foldl max (hd boundaries) (tl boundaries) < sc_settle_delay sc
         then Inr (Some Settling)
         else rbind (first_pick_pending sc merged is_open absorbed) (\<lambda>pending.
           Inr (if pending then Some First_Pick_Not_Settled
                else if list_ex (\<lambda>x. ss_wc x \<noteq> ws_wc merged \<and> meter_behind sc x) absorbed
                then Some Meter_Not_Current else None)))"

section \<open>The scan\<close>

definition source_stint_of :: "location_span \<Rightarrow> source_stint" where
  "source_stint_of sp =
     \<lparr>ss_wc = (case ls_app_work_center sp of None \<Rightarrow> [] | Some wc \<Rightarrow> wc), ss_start = ls_start sp, ss_end = ls_end sp,
      ss_is_open = ls_is_open sp, ss_ids = ls_attendance_ids sp\<rparr>"

definition stints_of_spans :: "location_span list \<Rightarrow> (work_segment \<times> source_stint) list" where
  "stints_of_spans spans = List.map_filter (\<lambda>sp. map_option (\<lambda>s. (s, source_stint_of sp)) (valid_segment sp)) spans"

definition absorbed_by :: "work_segment \<Rightarrow> (work_segment \<times> source_stint) list \<Rightarrow> source_stint list" where
  "absorbed_by merged stints =
     sort_key (\<lambda>x. (ss_start x, ss_end x))
       (map snd (filter (\<lambda>(s, _). ws_person_id s = ws_person_id merged
                  \<and> ws_start merged \<le> ws_start s \<and> ws_end s \<le> ws_end merged) stints))"

text \<open>\<open>max(absorbed, key=...)\<close>: the first of the stints that end last.\<close>

fun last_ending :: "source_stint \<Rightarrow> source_stint list \<Rightarrow> source_stint" where
  "last_ending b [] = b"
| "last_ending b (x # xs) = last_ending (if ss_end x > ss_end b then x else b) xs"

definition plan_merged ::
    "scan_inputs \<Rightarrow> string list \<Rightarrow> (work_segment \<times> source_stint) list \<Rightarrow> work_segment \<Rightarrow>
     (planned_fix + skipped_fix) option result" where
  "plan_merged sc metered stints merged =
     (let absorbed = absorbed_by merged stints;
          ids = sorted_list_of_set (set (concat (map ss_ids absorbed)))
      in if length ids < 2 then Inr None
         else case ws_person_id merged of
           None \<Rightarrow> Inl (TypeError ''int() argument must not be NoneType'')
         | Some employee \<Rightarrow>
             (let last_one = last_ending (hd absorbed) (tl absorbed);
                  is_open = (ss_is_open last_one \<and> ss_end last_one = ws_end merged);
                  others = filter (\<lambda>s. ws_wc s = ws_wc merged \<and> ws_person_id s \<noteq> ws_person_id merged) (map fst stints);
                  skip = (\<lambda>reason. Inr (Some (Inr
                    \<lparr>sf_employee = employee, sf_person = ws_person merged, sf_reason = reason, sf_before = absorbed\<rparr>)))
              in rbind (unsettled_reason sc merged absorbed others is_open) (\<lambda>reason.
                 case reason of
                   Some r \<Rightarrow> skip r
                 | None \<Rightarrow>
                     if ws_wc merged \<notin> set metered \<or> list_ex (\<lambda>x. ss_wc x \<notin> set metered) absorbed
                     then skip Not_Metered
                     else Inr (Some (Inl
                       \<lparr>pf_employee = employee, pf_person = ws_person merged, pf_wc = ws_wc merged,
                        pf_start = ws_start merged, pf_end = (if is_open then None else Some (ws_end merged)),
                        pf_ids = ids, pf_before = absorbed, pf_key = item_key_for (sc_digest sc) employee ids\<rparr>)))))"

text \<open>
  A stint of the result that is no input was merged. The code tests the identity of the object, which
  decides the same on spans that do not overlap: there a merge always changes the start or the end.
\<close>

definition find_fixes :: "scan_inputs \<Rightarrow> location_span list \<Rightarrow> fix_scan result" where
  "find_fixes sc spans =
     (let stints = stints_of_spans spans; inputs = map fst stints
      in rbind (sc_metered sc) (\<lambda>metered.
         rbind (rmap (plan_merged sc metered stints)
             (filter (\<lambda>s. s \<notin> set inputs)
               (smooth_quick_punches inputs (blocking_windows spans) (sc_meter sc) (Some metered) (sc_limit sc)))) (\<lambda>outcomes.
         let planned = List.map_filter (\<lambda>x. x) outcomes
         in Inr \<lparr>fs_fixes = List.map_filter (\<lambda>x. case x of Inl f \<Rightarrow> Some f | Inr _ \<Rightarrow> None) planned,
                 fs_skipped = List.map_filter (\<lambda>x. case x of Inl _ \<Rightarrow> None | Inr s \<Rightarrow> Some s) planned\<rparr>)))"

end
