(* ===== verification/Quick_Fix_Claims.thy ===== *)
theory Quick_Fix_Claims
  imports Quick_Fix Work_Claims
begin

text \<open>The properties of \<open>quick_punch_fixes.py\<close>, over the timeline and the smoothing it composes.\<close>

section \<open>Disjoint stints stay disjoint\<close>

lemma chained_pick:
  assumes "pick_step c blocked stints result" and "chained stints"
  shows "chained result"
  using assms(1)
proof cases
  case (pick previous_end s n before rest)
  show ?thesis using assms(2) unfolding pick(1,2)
    by (auto simp: chained_append chained_Cons join_next_def)
qed

lemma chained_smoothed:
  assumes "chained (sort_key stint_key stints)"
  shows "chained (smooth_person c blocked stints)"
proof -
  have "chained (apply_came_back c blocked (sort_key stint_key stints))"
    by (rule steps_invariant [OF came_back_steps]) (use assms chained_merge in auto)
  then show ?thesis unfolding smooth_person_def
    by (rule steps_invariant [OF first_pick_steps]) (rule chained_pick)
qed

lemma chained_unique:
  assumes "chained stints" "x \<in> set stints" "y \<in> set stints" "stint_covers (snd x) t" "stint_covers (snd y) t"
  shows "x = y"
  using assms by (induction stints) (auto simp: chained_Cons stint_covers_def)

text \<open>The stints of one person, read off the timeline.\<close>

lemma stints_of_segments: "map snd (stints_of segments key) = filter (\<lambda>s. person_key_of s = key) segments"
proof -
  have "map snd (filter (\<lambda>x. person_key_of (snd x) = key) (enumerate n segments)) = filter (\<lambda>s. person_key_of s = key) segments" for n
    by (induction segments arbitrary: n) auto
  then show ?thesis by (simp add: stints_of_def)
qed

lemma person_segments: "filter (\<lambda>s. person_key_of s = By_Id e) (List.map_filter valid_segment spans) = List.map_filter valid_segment (spans_of e spans)"
  by (induction spans) (auto simp: List.map_filter_simps spans_of_def valid_person split: option.splits dest: valid_person)

lemma segments_chained:
  "ordered_spans spans \<Longrightarrow>
     sorted_wrt (\<lambda>a b. ws_end a \<le> ws_start b) (List.map_filter valid_segment spans) \<and>
     (\<forall>s \<in> set (List.map_filter valid_segment spans). ws_start s < ws_end s)"
proof (induction spans)
  case (Cons sp spans)
  have IH: "sorted_wrt (\<lambda>a b. ws_end a \<le> ws_start b) (List.map_filter valid_segment spans)"
    "\<forall>s \<in> set (List.map_filter valid_segment spans). ws_start s < ws_end s"
    using Cons by (auto simp: ordered_spans_def)
  have times: "ws_start s = ls_start q \<and> ws_end s = ls_end q" if "valid_segment q = Some s" for q s
    using that unfolding valid_facts by (metis work_segment.select_convs(3,4))
  show ?case
  proof (cases "valid_segment sp")
    case (Some s)
    have "\<forall>u \<in> set (List.map_filter valid_segment spans). ws_end s \<le> ws_start u"
      using Cons.prems times [OF Some] times unfolding Ball_def map_filter_members by (force simp: ordered_spans_def)
    then show ?thesis using IH Some times [OF Some] Cons.prems by (simp add: List.map_filter_simps ordered_spans_def)
  qed (use IH in \<open>simp add: List.map_filter_simps\<close>)
qed (simp add: List.map_filter_simps)

lemma projected_chained:
  assumes "calendar_ok pr" "project_rows pr rows = Inr spans"
  shows "chained (sort_key stint_key (stints_of (List.map_filter valid_segment spans) (By_Id e)))"
proof -
  let ?st = "stints_of (List.map_filter valid_segment spans) (By_Id e)"
  have "sorted_wrt (\<lambda>a b. ws_end a \<le> ws_start b) (map snd ?st) \<and> (\<forall>s \<in> set (map snd ?st). ws_start s < ws_end s)"
    unfolding stints_of_segments person_segments by (rule segments_chained [OF projected_order [OF assms]])
  then have st: "sorted_wrt (\<lambda>a b. ws_end (snd a) \<le> ws_start (snd b)) ?st" "\<forall>x \<in> set ?st. ws_start (snd x) < ws_end (snd x)"
    by (simp_all add: sorted_wrt_map)
  have "sorted (map stint_key ?st)"
    unfolding sorted_map by (rule sorted_wrt_mono_rel [OF _ st(1)]) (use st(2) in \<open>force simp: stint_key_def less_eq_prod_def\<close>)
  then have "sort_key stint_key ?st = ?st" by (rule sort_key_id_if_sorted)
  then show ?thesis using st by (auto simp: chained_def list_all_iff)
qed

lemma one_place:
  assumes "calendar_ok pr" "project_rows pr rows = Inr spans"
    and s: "s \<in> set (smooth_quick_punches (List.map_filter valid_segment spans) blocked meter metered limit)"
      "s' \<in> set (smooth_quick_punches (List.map_filter valid_segment spans) blocked meter metered limit)"
    and p: "person_key_of s = By_Id e" "person_key_of s' = By_Id e" and t: "stint_covers s t" "stint_covers s' t"
  shows "s = s'"
proof -
  let ?r = "smooth_person (smoothing_of (List.map_filter valid_segment spans) meter metered limit) (dict_get blocked (By_Id e) [])
    (stints_of (List.map_filter valid_segment spans) (By_Id e))"
  obtain i j where ij: "(i, s) \<in> set ?r" "(j, s') \<in> set ?r" using s p unfolding smooth_members by auto
  have "chained ?r" by (rule chained_smoothed [OF projected_chained [OF assms(1,2)]])
  then have "(i, s) = (j, s')" using chained_unique ij t by (metis snd_conv)
  then show ?thesis by simp
qed

section \<open>What a planned fix rests on\<close>

lemma inputs_of_scan: "map fst (stints_of_spans spans) = List.map_filter valid_segment spans"
  by (induction spans) (auto simp: stints_of_spans_def List.map_filter_simps split: option.splits)

lemma stints_of_spans_member:
  "(s, x) \<in> set (stints_of_spans spans) \<Longrightarrow> \<exists>sp \<in> set spans. valid_segment sp = Some s \<and> x = source_stint_of sp"
  unfolding stints_of_spans_def map_filter_members by auto

lemma source_agrees:
  assumes "valid_segment sp = Some s"
  shows "ss_wc (source_stint_of sp) = ws_wc s \<and> ss_start (source_stint_of sp) = ws_start s \<and> ss_end (source_stint_of sp) = ws_end s \<and>
    ws_person_id s = Some (ls_employee_id sp)"
  using assms by (auto simp: valid_segment_def source_stint_of_def split: option.splits if_splits)

text \<open>A fix of the scan comes from one stint of the smoothed result.\<close>

definition fix_of ::
    "scan_inputs \<Rightarrow> string list \<Rightarrow> location_span list \<Rightarrow> work_segment \<Rightarrow> planned_fix \<Rightarrow> bool" where
  "fix_of sc metered spans merged f =
     (let absorbed = absorbed_by merged (stints_of_spans spans) in
      ws_person_id merged = Some (pf_employee f) \<and> pf_wc f = ws_wc merged \<and> pf_start f = ws_start merged \<and>
      pf_end f = (let last_one = last_ending (hd absorbed) (tl absorbed)
                  in if ss_is_open last_one \<and> ss_end last_one = ws_end merged then None else Some (ws_end merged)) \<and>
      pf_before f = absorbed \<and>
      pf_ids f = sorted_list_of_set (set (concat (map ss_ids absorbed))) \<and> 2 \<le> length (pf_ids f) \<and>
      ws_wc merged \<in> set metered \<and> (\<forall>x \<in> set absorbed. ss_wc x \<in> set metered) \<and>
      (\<exists>others is_open. unsettled_reason sc merged absorbed others is_open = Inr None))"

lemma last_ending_member: "last_ending b xs \<in> set (b # xs)"
proof (induction xs arbitrary: b)
  case (Cons x xs)
  show ?case using Cons [of "if ss_end x > ss_end b then x else b"] by (auto split: if_splits)
qed simp

lemma last_ending_max: "x \<in> set (b # xs) \<Longrightarrow> ss_end x \<le> ss_end (last_ending b xs)"
proof (induction xs arbitrary: b x)
  case (Cons y xs)
  let ?n = "if ss_end y > ss_end b then y else b"
  have "ss_end ?n \<le> ss_end (last_ending ?n xs)" by (rule Cons.IH) simp
  moreover have "ss_end x \<le> ss_end (last_ending ?n xs)" if "x \<in> set xs" by (rule Cons.IH) (use that in simp)
  moreover have "x \<in> set xs \<or> ss_end x \<le> ss_end ?n" using Cons.prems by auto
  ultimately show ?case unfolding last_ending.simps by linarith
qed simp

lemma plan_merged_fix:
  assumes "plan_merged sc metered (stints_of_spans spans) merged = Inr (Some (Inl f))"
  shows "fix_of sc metered spans merged f"
  using assms
  by (auto simp: plan_merged_def Let_def fix_of_def not_less list_ex_iff rbind_Inr_iff split: if_splits option.splits)

lemma rmap_source:
  assumes "rmap g xs = Inr ys" "y \<in> set ys"
  obtains x where "x \<in> set xs" "g x = Inr y"
proof -
  obtain i where i: "i < length ys" "ys ! i = y" using assms(2) by (auto simp: in_set_conv_nth)
  then have "i < length xs" using rmap_Inr_length [OF assms(1)] by simp
  moreover have "g (xs ! i) = Inr y" using rmap_Inr_nth [OF assms(1) calculation] i(2) by simp
  ultimately show ?thesis using that nth_mem by blast
qed

lemma scan_fix:
  assumes "find_fixes sc spans = Inr scan" and "f \<in> set (fs_fixes scan)"
  obtains metered merged where "sc_metered sc = Inr metered"
    "merged \<in> set (smooth_quick_punches (List.map_filter valid_segment spans) (blocking_windows spans) (sc_meter sc) (Some metered) (sc_limit sc))"
    "merged \<notin> set (List.map_filter valid_segment spans)" "fix_of sc metered spans merged f"
proof -
  let ?in = "List.map_filter valid_segment spans"
  obtain metered outcomes where m: "sc_metered sc = Inr metered"
    and o: "rmap (plan_merged sc metered (stints_of_spans spans))
        (filter (\<lambda>s. s \<notin> set ?in) (smooth_quick_punches ?in (blocking_windows spans) (sc_meter sc) (Some metered) (sc_limit sc))) = Inr outcomes"
    and scan: "fs_fixes scan = List.map_filter (\<lambda>x. case x of Inl f \<Rightarrow> Some f | Inr _ \<Rightarrow> None) (List.map_filter (\<lambda>x. x) outcomes)"
    using assms(1) unfolding find_fixes_def Let_def inputs_of_scan by (auto simp: rbind_Inr_iff)
  obtain x where x: "x \<in> set (List.map_filter (\<lambda>x. x) outcomes)" "(case x of Inl f \<Rightarrow> Some f | Inr _ \<Rightarrow> None) = Some f"
    using assms(2) unfolding scan map_filter_members [of f] by (elim bexE) (rule that)
  have "x = Inl f" using x(2) by (cases x) auto
  then have "Some (Inl f) \<in> set outcomes" using x(1) unfolding map_filter_members by simp
  then obtain merged where merged: "merged \<in> set (filter (\<lambda>s. s \<notin> set ?in) (smooth_quick_punches ?in (blocking_windows spans) (sc_meter sc) (Some metered) (sc_limit sc)))"
    "plan_merged sc metered (stints_of_spans spans) merged = Inr (Some (Inl f))"
    using rmap_source [OF o] by blast
  show ?thesis by (rule that [OF m _ _ plan_merged_fix [OF merged(2)]]) (use merged(1) in simp_all)
qed

section \<open>What a planned fix spans\<close>

lemma same_span:
  assumes "calendar_ok pr" "project_rows pr rows = Inr spans" "sp \<in> set spans" "q \<in> set spans"
    and "ls_employee_id sp = ls_employee_id q" "covers sp t" "covers q t"
  shows "sp = q"
  using disjoint_spans [OF projected_order [OF assms(1,2), of "ls_employee_id q"], of sp q t] assms(3-7)
  by (simp add: spans_of_def)

lemma span_positive:
  assumes "calendar_ok pr" "project_rows pr rows = Inr spans" "sp \<in> set spans"
  shows "ls_start sp < ls_end sp"
  using projected_order [OF assms(1,2), of "ls_employee_id sp"] assms(3) by (simp add: ordered_spans_def spans_of_def)

text \<open>The real spans of an employee within a time, as the stints a fix lists.\<close>

definition spans_within :: "location_span list \<Rightarrow> int \<Rightarrow> datetime \<Rightarrow> datetime \<Rightarrow> location_span set" where
  "spans_within spans e start fin =
     {sp \<in> set spans. ls_employee_id sp = e \<and> valid_segment sp \<noteq> None \<and> start \<le> ls_start sp \<and> ls_end sp \<le> fin}"

lemma absorbed_spans:
  assumes "ws_person_id merged = Some e"
  shows "set (absorbed_by merged (stints_of_spans spans)) = source_stint_of ` spans_within spans e (ws_start merged) (ws_end merged)"
proof -
  have times: "ls_start sp = ws_start s \<and> ls_end sp = ws_end s \<and> ws_person_id s = Some (ls_employee_id sp)"
    if "valid_segment sp = Some s" for sp s
    using source_agrees [OF that] by (simp add: source_stint_of_def)
  show ?thesis
  proof (intro set_eqI iffI)
    fix x assume "x \<in> set (absorbed_by merged (stints_of_spans spans))"
    then obtain s where s: "(s, x) \<in> set (stints_of_spans spans)" "ws_person_id s = Some e" "ws_start merged \<le> ws_start s" "ws_end s \<le> ws_end merged"
      using assms by (auto simp: absorbed_by_def)
    then obtain sp where "sp \<in> set spans" "valid_segment sp = Some s" "x = source_stint_of sp" using stints_of_spans_member by blast
    then show "x \<in> source_stint_of ` spans_within spans e (ws_start merged) (ws_end merged)"
      using s times [of sp s] by (intro image_eqI [of _ _ sp]) (simp_all add: spans_within_def)
  next
    fix x assume "x \<in> source_stint_of ` spans_within spans e (ws_start merged) (ws_end merged)"
    then obtain sp s where sp: "sp \<in> set spans" "valid_segment sp = Some s" "x = source_stint_of sp" "ls_employee_id sp = e"
      "ws_start merged \<le> ls_start sp" "ls_end sp \<le> ws_end merged" by (auto simp: spans_within_def)
    then have "(s, x) \<in> set (stints_of_spans spans)" unfolding stints_of_spans_def map_filter_members by (intro bexI [of _ sp]) simp_all
    then show "x \<in> set (absorbed_by merged (stints_of_spans spans))"
      using sp times [OF sp(2)] assms by (force simp: absorbed_by_def)
  qed
qed

text \<open>A smoothed stint starts where a real one starts and ends where a real one ends.\<close>

lemma smoothed_bounds:
  assumes "m \<in> set (smooth_quick_punches (List.map_filter valid_segment spans) blocked meter metered limit)"
    and "person_key_of m = By_Id e"
  shows "(\<exists>sp \<in> set spans. ls_employee_id sp = e \<and> valid_segment sp \<noteq> None \<and> ls_start sp = ws_start m) \<and>
    (\<exists>sp \<in> set spans. ls_employee_id sp = e \<and> valid_segment sp \<noteq> None \<and> ls_end sp = ws_end m)"
proof -
  let ?in = "List.map_filter valid_segment spans"
  let ?stints = "stints_of ?in (By_Id e)"
  obtain i where "(i, m) \<in> set (smooth_person (smoothing_of ?in meter metered limit) (dict_get blocked (By_Id e) []) ?stints)"
    using assms unfolding smooth_members by auto
  moreover have "within_bounds (smooth_person (smoothing_of ?in meter metered limit) (dict_get blocked (By_Id e) []) ?stints) (sort_key stint_key ?stints)"
    using everyone_sound [of ?in meter metered limit blocked "By_Id e"] unfolding sound_def by blast
  ultimately have "ws_start m \<in> (\<lambda>x. ws_start (snd x)) ` set ?stints" "ws_end m \<in> (\<lambda>x. ws_end (snd x)) ` set ?stints"
    unfolding within_bounds_def bounds_of_def by fastforce+
  moreover have "\<exists>sp \<in> set spans. ls_employee_id sp = e \<and> valid_segment sp = Some (snd x)" if "x \<in> set ?stints" for x
  proof -
    have "snd x \<in> set (map snd ?stints)" using that by simp
    then have "snd x \<in> set (List.map_filter valid_segment (spans_of e spans))" unfolding stints_of_segments person_segments .
    then show ?thesis unfolding map_filter_members spans_of_def by auto
  qed
  moreover have "ls_start sp = ws_start y \<and> ls_end sp = ws_end y" if "valid_segment sp = Some y" for sp y
    using source_agrees [OF that] by (simp add: source_stint_of_def)
  ultimately show ?thesis by (elim imageE) (metis option.distinct(1))
qed

text \<open>So the real stints within it reach from its start to its end.\<close>

lemma within_reaches:
  assumes "calendar_ok pr" "project_rows pr rows = Inr spans" and "start < fin"
    and a: "a \<in> set spans" "ls_employee_id a = e" "valid_segment a \<noteq> None" "ls_start a = start"
    and b: "b \<in> set spans" "ls_employee_id b = e" "valid_segment b \<noteq> None" "ls_end b = fin"
  shows "a \<in> spans_within spans e start fin \<and> b \<in> spans_within spans e start fin"
proof -
  note pos = span_positive [OF assms(1,2)]
  have "ls_end a \<le> fin"
  proof (rule ccontr)
    assume late: "\<not> ls_end a \<le> fin"
    have "a = b" by (rule same_span [OF assms(1,2) a(1) b(1), of "fin - 1"]) (use a b late assms(3) pos [OF b(1)] in \<open>simp_all add: covers_def\<close>)
    then show False using late b(4) by simp
  qed
  moreover have "start \<le> ls_start b"
  proof (rule ccontr)
    assume early: "\<not> start \<le> ls_start b"
    have "a = b" by (rule same_span [OF assms(1,2) a(1) b(1), of start]) (use a b early assms(3) pos [OF a(1)] in \<open>simp_all add: covers_def\<close>)
    then show False using early a(4) by simp
  qed
  ultimately show ?thesis using a b by (simp add: spans_within_def)
qed

text \<open>The time a fix writes, read off the real stints it lists: up to the last of them, or open if that one is.\<close>

definition fix_fin :: "planned_fix \<Rightarrow> datetime" where
  "fix_fin f = Max (set (map ss_end (pf_before f)))"

lemma fix_spans:
  assumes "calendar_ok pr" "project_rows pr rows = Inr spans" and f: "fix_of sc metered spans merged f"
    and m: "merged \<in> set (smooth_quick_punches (List.map_filter valid_segment spans) blocked meter names limit)"
  shows "fix_fin f = ws_end merged" and "pf_start f = Min (set (map ss_start (pf_before f)))" and "pf_start f < fix_fin f"
    and "pf_end f = (if list_ex (\<lambda>x. ss_is_open x \<and> ss_end x = fix_fin f) (pf_before f) then None else Some (fix_fin f))"
    and "set (pf_before f) = source_stint_of ` spans_within spans (pf_employee f) (pf_start f) (fix_fin f)"
proof -
  let ?e = "pf_employee f" and ?S = "ws_start merged" and ?E = "ws_end merged"
  let ?last = "last_ending (hd (pf_before f)) (tl (pf_before f))"
  have id: "ws_person_id merged = Some ?e" and start: "pf_start f = ?S"
    and before: "pf_before f = absorbed_by merged (stints_of_spans spans)"
    and ids: "2 \<le> length (sorted_list_of_set (set (concat (map ss_ids (pf_before f)))))"
    and fin: "pf_end f = (if ss_is_open ?last \<and> ss_end ?last = ?E then None else Some ?E)"
    using f unfolding fix_of_def Let_def by auto
  have key: "person_key_of merged = By_Id ?e" using id by (simp add: person_key_of_def)
  have set: "set (pf_before f) = source_stint_of ` spans_within spans ?e ?S ?E" unfolding before by (rule absorbed_spans [OF id])
  have ne: "pf_before f \<noteq> []" using ids by force
  obtain sp where "sp \<in> spans_within spans ?e ?S ?E" using set ne by (metis all_not_in_conv image_empty set_empty)
  then have pos: "?S < ?E" using span_positive [OF assms(1,2), of sp] by (auto simp: spans_within_def)
  obtain a b where ab: "a \<in> spans_within spans ?e ?S ?E" "ls_start a = ?S" "b \<in> spans_within spans ?e ?S ?E" "ls_end b = ?E"
    using smoothed_bounds [OF m key] within_reaches [OF assms(1,2) pos] by blast
  have "Max (ss_end ` set (pf_before f)) = ?E" unfolding set image_image
    by (rule Max_eqI) (use ab in \<open>auto simp: spans_within_def source_stint_of_def image_iff intro!: finite_imageI\<close>)
  then show E: "fix_fin f = ?E" by (simp add: fix_fin_def)
  have "Min (ss_start ` set (pf_before f)) = ?S" unfolding set image_image
    by (rule Min_eqI) (use ab in \<open>auto simp: spans_within_def source_stint_of_def image_iff intro!: finite_imageI\<close>)
  then show "pf_start f = Min (set (map ss_start (pf_before f)))" by (simp add: start)
  show "pf_start f < fix_fin f" using pos by (simp add: E start)
  show "set (pf_before f) = source_stint_of ` spans_within spans ?e (pf_start f) (fix_fin f)" unfolding E start by (rule set)
  have last: "?last \<in> set (pf_before f)" using last_ending_member [of "hd (pf_before f)" "tl (pf_before f)"] ne by simp
  have "x = ?last" if x: "x \<in> set (pf_before f)" "ss_end x = ?E" for x
  proof -
    have "ss_end x \<le> ss_end ?last" using last_ending_max [of x "hd (pf_before f)" "tl (pf_before f)"] x(1) ne by simp
    moreover obtain p q where p: "p \<in> spans_within spans ?e ?S ?E" "x = source_stint_of p"
      and q: "q \<in> spans_within spans ?e ?S ?E" "?last = source_stint_of q"
      using x(1) last unfolding set by blast
    ultimately have ends: "ls_end p = ?E" "ls_end q = ?E" using x(2) by (auto simp: spans_within_def source_stint_of_def)
    have pq: "p \<in> set spans" "q \<in> set spans" "ls_employee_id p = ls_employee_id q" using p(1) q(1) by (auto simp: spans_within_def)
    have "p = q" by (rule same_span [OF assms(1,2) pq, of "?E - 1"])
        (use span_positive [OF assms(1,2) pq(1)] span_positive [OF assms(1,2) pq(2)] ends in \<open>simp_all add: covers_def\<close>)
    then show ?thesis using p(2) q(2) by simp
  qed
  then have "list_ex (\<lambda>x. ss_is_open x \<and> ss_end x = ?E) (pf_before f) = (ss_is_open ?last \<and> ss_end ?last = ?E)"
    using last unfolding list_ex_iff by metis
  then show "pf_end f = (if list_ex (\<lambda>x. ss_is_open x \<and> ss_end x = fix_fin f) (pf_before f) then None else Some (fix_fin f))"
    unfolding E fin by simp
qed

text \<open>What holds at each instant of a fix.\<close>

definition takes_nothing_at :: "scan_inputs \<Rightarrow> location_span list \<Rightarrow> planned_fix \<Rightarrow> datetime \<Rightarrow> bool" where
  "takes_nothing_at sc spans f t =
     ((at_work (map fst (stints_of_spans spans)) (By_Id (pf_employee f)) t \<or>
       short_gap (map fst (stints_of_spans spans)) (By_Id (pf_employee f)) (dict_get (blocking_windows spans) (By_Id (pf_employee f)) []) (sc_limit sc) t) \<and>
      \<not> list_ex (\<lambda>sp. ls_employee_id sp = pf_employee f \<and> smoothing_blocking (ls_status sp) \<and> covers sp t) spans \<and>
      list_all (\<lambda>x. ss_start x \<le> t \<and> t < ss_end x \<and> ss_wc x \<noteq> pf_wc f \<longrightarrow>
        (\<exists>fresh u. sc_freshness sc (ss_wc x) = Some fresh \<and> \<not> mf_truncated fresh \<and> mf_last_reading fresh = Some u \<and> ss_end x \<le> u) \<and>
        \<not> sole_pallet (map fst (stints_of_spans spans)) (sc_meter sc) (By_Id (pf_employee f)) (ss_wc x) t) (pf_before f))"

lemma fix_time:
  assumes "calendar_ok pr" "project_rows pr rows = Inr spans"
    and m: "merged \<in> set (smooth_quick_punches (List.map_filter valid_segment spans) (blocking_windows spans) meter metered limit)"
    and key: "person_key_of merged = By_Id e" and cover: "stint_covers merged t"
  shows "(at_work (List.map_filter valid_segment spans) (By_Id e) t \<or>
      short_gap (List.map_filter valid_segment spans) (By_Id e) (dict_get (blocking_windows spans) (By_Id e) []) limit t) \<and>
    \<not> list_ex (\<lambda>sp. ls_employee_id sp = e \<and> smoothing_blocking (ls_status sp) \<and> covers sp t) spans"
proof
  let ?in = "List.map_filter valid_segment spans"
  have "at_work (smooth_quick_punches ?in (blocking_windows spans) meter metered limit) (By_Id e) t"
    unfolding at_work_def list_ex_iff using m key cover by blast
  from smoothed_only_gaps [OF this]
  show time: "at_work ?in (By_Id e) t \<or> short_gap ?in (By_Id e) (dict_get (blocking_windows spans) (By_Id e) []) limit t" .
  show "\<not> list_ex (\<lambda>sp. ls_employee_id sp = e \<and> smoothing_blocking (ls_status sp) \<and> covers sp t) spans"
  proof
    assume "list_ex (\<lambda>sp. ls_employee_id sp = e \<and> smoothing_blocking (ls_status sp) \<and> covers sp t) spans"
    then obtain sp where sp: "sp \<in> set spans" "ls_employee_id sp = e" "smoothing_blocking (ls_status sp)" "covers sp t"
      unfolding list_ex_iff by blast
    show False using time blocked_not_worked [OF assms(1,2) sp(1,3,4)] blocked_not_bridged [OF sp(1,3,4)] sp(2) by simp
  qed
qed

lemma absorbed_stays:
  assumes "calendar_ok pr" "project_rows pr rows = Inr spans" and f: "fix_of sc names spans merged f"
    and m: "merged \<in> set (smooth_quick_punches (List.map_filter valid_segment spans) (blocking_windows spans) (sc_meter sc) metered (sc_limit sc))"
    and cover: "stint_covers merged t" and x: "x \<in> set (pf_before f)" "ss_start x \<le> t" "t < ss_end x" "ss_wc x \<noteq> pf_wc f"
  shows "(\<exists>fresh u. sc_freshness sc (ss_wc x) = Some fresh \<and> \<not> mf_truncated fresh \<and> mf_last_reading fresh = Some u \<and> ss_end x \<le> u) \<and>
    \<not> sole_pallet (List.map_filter valid_segment spans) (sc_meter sc) (By_Id (pf_employee f)) (ss_wc x) t"
proof
  let ?in = "List.map_filter valid_segment spans" and ?e = "pf_employee f"
  have parts: "ws_person_id merged = Some ?e" "pf_wc f = ws_wc merged" "pf_before f = absorbed_by merged (stints_of_spans spans)"
    "\<exists>others is_open. unsettled_reason sc merged (pf_before f) others is_open = Inr None"
    using f unfolding fix_of_def Let_def by auto
  have key: "person_key_of merged = By_Id ?e" using parts(1) by (simp add: person_key_of_def)
  have "\<not> meter_behind sc x" using parts(4) x(1,4) parts(2)
    by (auto simp: unsettled_reason_def Let_def list_ex_iff rbind_Inr_iff split: if_splits)
  then show "\<exists>fresh u. sc_freshness sc (ss_wc x) = Some fresh \<and> \<not> mf_truncated fresh \<and> mf_last_reading fresh = Some u \<and> ss_end x \<le> u"
    by (auto simp: meter_behind_def split: option.splits)
  show "\<not> sole_pallet ?in (sc_meter sc) (By_Id ?e) (ss_wc x) t"
  proof
    assume sole: "sole_pallet ?in (sc_meter sc) (By_Id ?e) (ss_wc x) t"
    obtain s where s: "(s, x) \<in> set (stints_of_spans spans)" "ws_person_id s = Some ?e"
      using x(1) parts(1) unfolding parts(3) absorbed_by_def by auto
    obtain sp where sp: "sp \<in> set spans" "valid_segment sp = Some s" "x = source_stint_of sp" using stints_of_spans_member [OF s(1)] by blast
    have s_in: "s \<in> set ?in" using sp unfolding map_filter_members by blast
    have s_key: "person_key_of s = By_Id ?e" using s(2) by (simp add: person_key_of_def)
    have wc: "ws_wc s = ss_wc x" and cov: "stint_covers s t"
      using source_agrees [OF sp(2)] sp(3) x(2,3) by (simp_all add: stint_covers_def)
    from work_stays [OF s_in cov, of "sc_limit sc" "sc_meter sc" "blocking_windows spans" metered]
    obtain s' where s': "s' \<in> set (smooth_quick_punches ?in (blocking_windows spans) (sc_meter sc) metered (sc_limit sc))"
      "person_key_of s' = By_Id ?e" "ws_wc s' = ss_wc x" "stint_covers s' t"
      using sole s_key wc by auto
    have "s' = merged" by (rule one_place [OF assms(1,2) s'(1) m s'(2) key s'(4) cover])
    then show False using s'(3) x(4) parts(2) by simp
  qed
qed

lemma fix_takes_nothing_at:
  assumes "calendar_ok pr" "project_rows pr rows = Inr spans" and f: "fix_of sc names spans merged f"
    and m: "merged \<in> set (smooth_quick_punches (List.map_filter valid_segment spans) (blocking_windows spans) (sc_meter sc) metered (sc_limit sc))"
    and cover: "stint_covers merged t"
  shows "takes_nothing_at sc spans f t"
proof -
  have "ws_person_id merged = Some (pf_employee f)" using f unfolding fix_of_def Let_def by auto
  then have "person_key_of merged = By_Id (pf_employee f)" by (simp add: person_key_of_def)
  from fix_time [OF assms(1,2) m this cover] absorbed_stays [OF assms(1,2) f m cover]
  show ?thesis unfolding takes_nothing_at_def inputs_of_scan list_all_iff by blast
qed

text \<open>A two-minute detour from the trim saw to another saw and back.\<close>

definition detour_projection :: projection where
  "detour_projection =
     demo_projection\<lparr>map_work_center := (\<lambda>w. if w = 3 then Some ''Trim'' else if w = 5 then Some ''Saw'' else None)\<rparr>"

definition detour_rows :: "raw_row list" where
  "detour_rows =
     [demo_row 1 7 ''Ann'' (minutes 420) (Some (minutes 440)) (Some 3),
      demo_row 2 7 ''Ann'' (minutes 440) (Some (minutes 442)) (Some 5),
      demo_row 3 7 ''Ann'' (minutes 442) (Some (minutes 500)) (Some 3)]"

definition detour_inputs :: scan_inputs where
  "detour_inputs =
     \<lparr>sc_meter = Some [(''Saw'', []), (''Trim'', [minutes 430])],
      sc_freshness = [''Saw'' \<mapsto> \<lparr>mf_last_reading = Some (minutes 590), mf_truncated = False\<rparr>],
      sc_breaks = [], sc_now = minutes 600, sc_metered = Inr [''Trim'', ''Saw''], sc_digest = (\<lambda>s. s),
      sc_limit = quick_punch_limit, sc_settle_delay = settle_delay\<rparr>"

lemma detour_calendar: "calendar_ok detour_projection"
  using demo_calendar by (simp add: calendar_ok_def detour_projection_def)

lemma detour_scanned:
  "\<exists>spans scan f. project_rows detour_projection detour_rows = Inr spans \<and> find_fixes detour_inputs spans = Inr scan \<and>
     fs_fixes scan = [f] \<and> pf_employee f = 7 \<and> pf_start f = minutes 420 \<and> pf_end f = Some (minutes 500) \<and>
     pf_ids f = [1, 2, 3] \<and> map ss_end (pf_before f) = [minutes 440, minutes 442, minutes 500]"
proof -
  have "(case project_rows detour_projection detour_rows of Inl _ \<Rightarrow> False | Inr spans \<Rightarrow>
     (case find_fixes detour_inputs spans of Inl _ \<Rightarrow> False | Inr scan \<Rightarrow>
       (case fs_fixes scan of [f] \<Rightarrow> pf_employee f = 7 \<and> pf_start f = minutes 420 \<and> pf_end f = Some (minutes 500) \<and>
          pf_ids f = [1, 2, 3] \<and> map ss_end (pf_before f) = [minutes 440, minutes 442, minutes 500] | _ \<Rightarrow> False)))"
    by code_simp
  then show ?thesis by (auto split: sum.splits list.splits)
qed

section \<open>The properties\<close>

text \<open>
  C35. A planned fix takes nothing from anybody. It lists exactly the real stints of its employee within the time
  it writes, which runs from the start of the first of them to the end of the last; that end is the one
  written, and the fix stays open exactly if that last stint is. At every instant of that
  time the employee was at work or in a gap no longer than the limit, never in a conflicting, unmapped
  or stale location; and a stint it absorbs from another station has complete meter data read no earlier than its end
  and no pallet of that station that only this employee was there for.
\<close>

theorem planned_fix_takes_nothing:
  assumes "calendar_ok pr" and "project_rows pr rows = Inr spans"
    and "find_fixes sc spans = Inr scan" and "f \<in> set (fs_fixes scan)"
  shows "pf_start f = Min (set (map ss_start (pf_before f))) \<and> pf_start f < fix_fin f \<and>
    pf_end f = (if list_ex (\<lambda>x. ss_is_open x \<and> ss_end x = fix_fin f) (pf_before f) then None else Some (fix_fin f)) \<and>
    set (pf_before f) = source_stint_of ` spans_within spans (pf_employee f) (pf_start f) (fix_fin f) \<and>
    set (pf_ids f) = set (concat (map ss_ids (pf_before f))) \<and>
    (\<forall>t \<in> {pf_start f ..< fix_fin f}. takes_nothing_at sc spans f t)"
proof -
  obtain metered merged where m: "merged \<in> set (smooth_quick_punches (List.map_filter valid_segment spans) (blocking_windows spans) (sc_meter sc) (Some metered) (sc_limit sc))"
    and f: "fix_of sc metered spans merged f" by (rule scan_fix [OF assms(3,4)])
  note spans = fix_spans [OF assms(1,2) f m]
  have start: "pf_start f = ws_start merged" and ids: "set (pf_ids f) = set (concat (map ss_ids (pf_before f)))"
    using f unfolding fix_of_def Let_def by auto
  have "\<forall>t \<in> {pf_start f ..< fix_fin f}. takes_nothing_at sc spans f t"
    by (intro ballI fix_takes_nothing_at [OF assms(1,2) f m]) (simp add: stint_covers_def start spans(1))
  then show ?thesis by (intro conjI spans(2-5) ids)
qed

theorem planned_fix_takes_nothing_witness:
  "\<exists>spans scan f. project_rows detour_projection detour_rows = Inr spans \<and> find_fixes detour_inputs spans = Inr scan \<and>
     fs_fixes scan = [f] \<and> pf_end f = Some (minutes 500) \<and> fix_fin f = minutes 500 \<and> takes_nothing_at detour_inputs spans f (minutes 441)"
proof -
  obtain spans scan f where run: "project_rows detour_projection detour_rows = Inr spans" "find_fixes detour_inputs spans = Inr scan"
    and f: "fs_fixes scan = [f]" "pf_start f = minutes 420" "pf_end f = Some (minutes 500)"
    using detour_scanned by (elim exE conjE) (rule that)
  have "f \<in> set (fs_fixes scan)" using f(1) by simp
  note known = planned_fix_takes_nothing [OF detour_calendar run this]
  have "Some (minutes 500) = (if list_ex (\<lambda>x. ss_is_open x \<and> ss_end x = fix_fin f) (pf_before f) then None else Some (fix_fin f))"
    unfolding f(3) [symmetric] using known by blast
  then have fin: "fix_fin f = minutes 500" by (simp split: if_splits)
  have "minutes 441 \<in> {pf_start f ..< fix_fin f}" unfolding f(2) fin by (simp add: minutes_def)
  then have "takes_nothing_at detour_inputs spans f (minutes 441)" using known by blast
  then show ?thesis using run f(1,3) fin by (intro exI conjI)
qed

end
