(* ===== verification/Plan_Codec.thy ===== *)
theory Plan_Codec
  imports Correction_Validation
begin

text \<open>
  The JSON form of a correction plan (\<open>attendance_corrections.py\<close>, \<open>_encode_data\<close> to \<open>plan_from_json\<close>): tagged data,
  the payload of a plan, its integrity seal, and the reader that revalidates everything.

  A JSON object is a \<open>PyMap\<close> in key order and a JSON array a \<open>PyList\<close>. \<open>seal\<close> stands for the hexadecimal
  SHA-256 of the payload's canonical text.
\<close>

section \<open>Tagged data\<close>

definition encoded_datetime :: "string \<Rightarrow> pyvalue" where
  "encoded_datetime s = PyMap [(''type'', PyStr ''datetime''), (''value'', PyStr s)]"

definition encoded_items :: "string \<Rightarrow> pyvalue list \<Rightarrow> pyvalue" where
  "encoded_items tag items = PyMap [(''items'', PyList items), (''type'', PyStr tag)]"

definition encoded_entry :: "string \<times> pyvalue result \<Rightarrow> pyvalue result" where
  "encoded_entry kr = rbind (snd kr) (\<lambda>j. Inr (PyList [PyStr (fst kr), j]))"

function encode_data :: "pyvalue \<Rightarrow> pyvalue result" where
  "encode_data v =
     (case v of
        PyDatetime t z \<Rightarrow> rbind (checked_utc v ''datetime'') (\<lambda>t. Inr (encoded_datetime (utc_text t)))
      | PyMap d \<Rightarrow>
          rbind (rmap encoded_entry (sort_key fst (map (\<lambda>(k, x). (k, encode_data x)) d))) (\<lambda>items.
          Inr (encoded_items ''mapping'' items))
      | PyTuple xs \<Rightarrow> rbind (rmap (\<lambda>r. r) (map encode_data xs)) (\<lambda>items. Inr (encoded_items ''tuple'' items))
      | PyList xs \<Rightarrow> rbind (rmap (\<lambda>r. r) (map encode_data xs)) (\<lambda>items. Inr (encoded_items ''tuple'' items))
      | PyOther ty i \<Rightarrow> Inl (TypeError (''unsupported JSON plan value: '' @ ty))
      | _ \<Rightarrow> Inr v)"
  by pat_completeness auto
termination
proof (relation "measure size", goal_cases)
  case 1
  then show ?case by simp
next
  case 2
  then show ?case by (fastforce simp: less_Suc_eq_le size_prod_simp intro: size_list_estimation')
qed (auto simp: less_Suc_eq_le intro: le_imp_less_Suc size_list_estimation')

declare encode_data.simps [simp del]

text \<open>The loop over the entries of a mapping, each with the decoding of its value.\<close>

fun decode_entries :: "(pyvalue \<times> pyvalue result) list \<Rightarrow> string option \<Rightarrow> dict \<Rightarrow> dict result" where
  "decode_entries [] prev decoded = Inr decoded"
| "decode_entries ((item, r) # rest) prev decoded =
     (case item of
        PyList [key, _] \<Rightarrow>
          (case key of
             PyStr k \<Rightarrow>
               if k \<in> fst ` set decoded then Inl (ValueError (''duplicate encoded mapping key: '' @ k))
               else if (case prev of None \<Rightarrow> False | Some p \<Rightarrow> k < p)
               then Inl (ValueError ''encoded mapping keys are not in canonical order'')
               else rbind r (\<lambda>x. decode_entries rest (Some k) (decoded @ [(k, x)]))
           | _ \<Rightarrow> Inl (TypeError ''encoded mapping keys must be text''))
      | _ \<Rightarrow> Inl (TypeError ''encoded mapping entries must be two-item lists''))"

definition entry_value :: "pyvalue \<Rightarrow> pyvalue option" where
  "entry_value item = (case item of PyList [_, x] \<Rightarrow> Some x | _ \<Rightarrow> None)"

lemma entry_value_size: "entry_value item = Some x \<Longrightarrow> size x < size item"
  by (auto simp: entry_value_def split: pyvalue.splits list.splits)

lemma items_size:
  assumes "map_of d k = Some (PyList items)" and "item \<in> set items"
  shows "size item < size (PyMap d)"
proof -
  have "(k, PyList items) \<in> set d" by (rule map_of_SomeD [OF assms(1)])
  then have "Suc (size (snd (k, PyList items))) \<le> size_list (\<lambda>x. Suc (size (snd x))) d" by (rule size_list_estimation') simp
  moreover have "size item < size (PyList items)"
    using assms(2) by (auto simp: less_Suc_eq_le intro: size_list_estimation')
  ultimately show ?thesis by (simp add: size_prod_simp)
qed

definition tag_of :: "dict \<Rightarrow> string option" where
  "tag_of d = (case map_of d ''type'' of Some (PyStr tag) \<Rightarrow> Some tag | _ \<Rightarrow> None)"

function decode_data :: "pyvalue \<Rightarrow> pyvalue result" where
  "decode_data v =
     (case v of
        PyMap d \<Rightarrow>
          if tag_of d = Some ''datetime''
          then rbind (exact_keys d [''type'', ''value''] ''encoded datetime'') (\<lambda>_.
               rbind (parse_utc_text (field d ''value'') ''encoded datetime'') (\<lambda>t. Inr (PyDatetime t (Some 0))))
          else if tag_of d = Some ''tuple''
          then rbind (exact_keys d [''type'', ''items''] ''encoded tuple'') (\<lambda>_.
               case map_of d ''items'' of
                 Some (PyList items) \<Rightarrow> rbind (rmap (\<lambda>r. r) (map decode_data items)) (\<lambda>xs. Inr (PyTuple xs))
               | _ \<Rightarrow> Inl (TypeError ''encoded tuple items must be a list''))
          else if tag_of d = Some ''mapping''
          then rbind (exact_keys d [''type'', ''items''] ''encoded mapping'') (\<lambda>_.
               case map_of d ''items'' of
                 Some (PyList items) \<Rightarrow>
                   rbind (decode_entries
                     (map (\<lambda>item. (item, case entry_value item of Some x \<Rightarrow> decode_data x | None \<Rightarrow> Inr PyNone)) items) None []) (\<lambda>decoded.
                   rbind (freeze_mapping decoded) (\<lambda>d'. Inr (PyMap d')))
               | _ \<Rightarrow> Inl (TypeError ''encoded mapping items must be a list''))
          else Inl (ValueError ''encoded plan data contains an unknown type'')
      | PyDatetime t z \<Rightarrow> Inl (TypeError ''encoded plan data must be a JSON scalar or object'')
      | PyList xs \<Rightarrow> Inl (TypeError ''encoded plan data must be a JSON scalar or object'')
      | PyTuple xs \<Rightarrow> Inl (TypeError ''encoded plan data must be a JSON scalar or object'')
      | PyOther ty i \<Rightarrow> Inl (TypeError ''encoded plan data must be a JSON scalar or object'')
      | _ \<Rightarrow> Inr v)"
  by pat_completeness auto
termination
proof (relation "measure size", goal_cases)
  case 1
  then show ?case by simp
next
  case 2
  then show ?case using items_size by auto
next
  case 3
  then show ?case using items_size entry_value_size by (fastforce dest: less_trans)
qed

declare decode_data.simps [simp del]

section \<open>A plan\<close>

definition schema_version :: int where
  "schema_version = 2"

definition integrity_prefix :: string where
  "integrity_prefix = ''attendance-correction-plan-v2:''"

definition encode_dict :: "dict \<Rightarrow> pyvalue result" where
  "encode_dict d = encode_data (PyMap d)"

definition encode_optional :: "dict option \<Rightarrow> pyvalue result" where
  "encode_optional d = (case d of None \<Rightarrow> Inr PyNone | Some e \<Rightarrow> encode_dict e)"

definition version_json :: "source_version \<Rightarrow> pyvalue" where
  "version_json v =
     PyMap [(''attendance_id'', PyInt (sv_attendance_id v)), (''write_date'', PyStr (utc_text (sv_write_date v)))]"

definition operation_json :: "operation \<Rightarrow> pyvalue result" where
  "operation_json oper =
     rbind (encode_optional (op_before oper)) (\<lambda>was.
     rbind (encode_optional (op_after oper)) (\<lambda>becomes.
     Inr (PyMap
       [(''after'', becomes), (''attendance_id'', of_id (op_attendance_id oper)), (''before'', was),
        (''employee_odoo_id'', PyInt (op_employee oper)), (''key'', PyStr (op_key oper)),
        (''kind'', PyStr (kind_name (op_kind oper)))])))"

definition plan_json_payload :: "plan \<Rightarrow> dict result" where
  "plan_json_payload pl =
     rbind (encode_dict (pl_request pl)) (\<lambda>rq.
     rbind (rmap encode_dict (pl_sources pl)) (\<lambda>sources.
     rbind (rmap operation_json (pl_operations pl)) (\<lambda>opers.
     rbind (rmap encode_dict (pl_expected pl)) (\<lambda>expected.
     Inr [(''expected_intervals'', PyList expected), (''operations'', PyList opers), (''request'', rq),
          (''schema_version'', PyInt schema_version), (''source_intervals'', PyList sources),
          (''source_versions'', PyList (map version_json (pl_versions pl)))]))))"

definition plan_integrity :: "(pyvalue \<Rightarrow> string) \<Rightarrow> dict \<Rightarrow> string" where
  "plan_integrity seal payload = integrity_prefix @ seal (PyMap payload)"

definition plan_to_json :: "(pyvalue \<Rightarrow> string) \<Rightarrow> (pyvalue \<Rightarrow> string) \<Rightarrow> plan \<Rightarrow> pyvalue result" where
  "plan_to_json digest seal pl =
     rbind (validate_plan digest pl) (\<lambda>_.
     rbind (plan_json_payload pl) (\<lambda>payload.
     Inr (PyMap (put ''integrity'' (PyStr (plan_integrity seal payload)) payload))))"

section \<open>Reading a plan\<close>

definition require_list :: "pyvalue \<Rightarrow> string \<Rightarrow> pyvalue list result" where
  "require_list v field_name =
     (case v of PyList xs \<Rightarrow> Inr xs | _ \<Rightarrow> Inl (TypeError (field_name @ '' must be a JSON list'')))"

definition decode_mapping :: "string \<Rightarrow> pyvalue \<Rightarrow> dict result" where
  "decode_mapping what v =
     rbind (decode_data v) (\<lambda>x. case x of PyMap d \<Rightarrow> Inr d | _ \<Rightarrow> Inl (TypeError (what @ '' must decode to a mapping'')))"

definition decode_optional :: "pyvalue \<Rightarrow> pyvalue result" where
  "decode_optional v = (if v = PyNone then Inr PyNone else decode_data v)"

definition optional_mapping :: "string \<Rightarrow> pyvalue \<Rightarrow> dict option result" where
  "optional_mapping what v =
     (case v of PyNone \<Rightarrow> Inr None | PyMap d \<Rightarrow> Inr (Some d)
      | _ \<Rightarrow> Inl (TypeError (what @ '' must decode to a mapping'')))"

definition read_version :: "pyvalue \<Rightarrow> source_version result" where
  "read_version item =
     (case item of
        PyMap d \<Rightarrow>
          rbind (exact_keys d [''attendance_id'', ''write_date''] ''source version'') (\<lambda>_.
          rbind (checked_positive_int (field d ''attendance_id'') ''attendance_id'') (\<lambda>i.
          rbind (parse_utc_text (field d ''write_date'') ''write_date'') (\<lambda>t.
          Inr \<lparr>sv_attendance_id = i, sv_write_date = t\<rparr>)))
      | _ \<Rightarrow> Inl (TypeError ''source version must be an object''))"

definition kind_named :: "pyvalue \<Rightarrow> operation_kind option" where
  "kind_named v =
     (if v = PyStr ''create'' then Some Create else if v = PyStr ''update'' then Some Update
      else if v = PyStr ''delete'' then Some Delete else None)"

definition operation_fields :: "string list" where
  "operation_fields = [''key'', ''kind'', ''attendance_id'', ''employee_odoo_id'', ''before'', ''after'']"

definition read_operation :: "pyvalue \<Rightarrow> operation result" where
  "read_operation item =
     (case item of
        PyMap d \<Rightarrow>
          rbind (exact_keys d operation_fields ''correction operation'') (\<lambda>_.
            case kind_named (field d ''kind'') of
              None \<Rightarrow> Inl (ValueError ''invalid correction operation kind'')
            | Some kind \<Rightarrow>
                rbind (decode_optional (field d ''before'')) (\<lambda>was.
                rbind (decode_optional (field d ''after'')) (\<lambda>becomes.
                rbind (optional_mapping ''operation before'' was) (\<lambda>was.
                rbind (optional_mapping ''operation after'' becomes) (\<lambda>becomes.
                  case field d ''key'' of
                    PyStr key \<Rightarrow> make_operation key kind (field d ''attendance_id'') (field d ''employee_odoo_id'') was becomes
                  | _ \<Rightarrow> Inl (ValueError ''operation key is not a canonical correction key''))))))
      | _ \<Rightarrow> Inl (TypeError ''correction operation must be an object''))"

definition payload_fields :: "string list" where
  "payload_fields =
     [''expected_intervals'', ''operations'', ''request'', ''schema_version'', ''source_intervals'', ''source_versions'']"

definition seal_ok :: "string \<Rightarrow> bool" where
  "seal_ok s =
     (take (length integrity_prefix) s = integrity_prefix \<and> length s = length integrity_prefix + 64
      \<and> list_all is_hex (drop (length integrity_prefix) s))"

text \<open>The checks of the envelope: its fields, the schema version, and the seal over the payload.\<close>

definition open_envelope :: "(pyvalue \<Rightarrow> string) \<Rightarrow> dict \<Rightarrow> unit result" where
  "open_envelope seal d =
     rbind (exact_keys d (payload_fields @ [''integrity'']) ''correction plan JSON'') (\<lambda>_.
     rbind (require (field d ''schema_version'' = PyInt schema_version) ''unsupported correction plan schema version'') (\<lambda>_.
       case field d ''integrity'' of
         PyStr s \<Rightarrow>
           rbind (require (seal_ok s) ''correction plan integrity is not canonical'') (\<lambda>_.
           require (s = plan_integrity seal (map (\<lambda>k. (k, field d k)) payload_fields))
             ''correction plan integrity does not match its contents'')
       | _ \<Rightarrow> Inl (ValueError ''correction plan integrity is not canonical'')))"

definition plan_from_json :: "(pyvalue \<Rightarrow> string) \<Rightarrow> (pyvalue \<Rightarrow> string) \<Rightarrow> pyvalue \<Rightarrow> plan result" where
  "plan_from_json digest seal v =
     (case v of
        PyMap d \<Rightarrow>
          rbind (open_envelope seal d) (\<lambda>_.
          rbind (decode_mapping ''request'' (field d ''request'')) (\<lambda>rq.
          rbind (rbind (require_list (field d ''source_intervals'') ''source_intervals'') (rmap (decode_mapping ''source interval''))) (\<lambda>sources.
          rbind (rbind (require_list (field d ''source_versions'') ''source_versions'') (rmap read_version)) (\<lambda>versions.
          rbind (rbind (require_list (field d ''operations'') ''operations'') (rmap read_operation)) (\<lambda>opers.
          rbind (rbind (require_list (field d ''expected_intervals'') ''expected_intervals'') (rmap (decode_mapping ''expected interval''))) (\<lambda>expected.
          make_plan digest versions opers expected rq sources))))))
      | _ \<Rightarrow> Inl (TypeError ''correction plan JSON must be an object''))"

end
