(* ===== verification/Plan_Codec_Facts.thy ===== *)
theory Plan_Codec_Facts
  imports Plan_Codec
begin

text \<open>
  Codecs between values and JSON: a decoder that accepts exactly what its encoder writes, closed under
  lists, and the codecs of datetimes, data, mappings, versions, operations and plans.
\<close>

section \<open>JSON values and the data a plan stores\<close>

text \<open>The objects of a JSON value are in key order.\<close>

function json_ok :: "pyvalue \<Rightarrow> bool" where
  "json_ok v =
     (case v of
        PyMap d \<Rightarrow> key_sorted d \<and> (\<forall>(k, x) \<in> set d. json_ok x)
      | PyList xs \<Rightarrow> (\<forall>x \<in> set xs. json_ok x)
      | _ \<Rightarrow> True)"
  by pat_completeness auto
termination
proof (relation "measure size", goal_cases)
  case 1
  then show ?case by simp
next
  case 2
  then show ?case by (fastforce simp: less_Suc_eq_le size_prod_simp intro: size_list_estimation')
qed (auto simp: less_Suc_eq_le intro: le_imp_less_Suc size_list_estimation')

text \<open>Frozen data whose datetimes are in Python's range.\<close>

function storable :: "pyvalue \<Rightarrow> bool" where
  "storable v =
     (case v of
        PyDatetime t z \<Rightarrow> z = Some 0 \<and> is_datetime t
      | PyMap d \<Rightarrow> key_sorted d \<and> (\<forall>(k, x) \<in> set d. storable x)
      | PyList xs \<Rightarrow> False
      | PyTuple xs \<Rightarrow> (\<forall>x \<in> set xs. storable x)
      | PyOther ty i \<Rightarrow> False
      | _ \<Rightarrow> True)"
  by pat_completeness auto
termination
proof (relation "measure size", goal_cases)
  case 1
  then show ?case by simp
next
  case 2
  then show ?case by (fastforce simp: less_Suc_eq_le size_prod_simp intro: size_list_estimation')
qed (auto simp: less_Suc_eq_le intro: le_imp_less_Suc size_list_estimation')

declare json_ok.simps [simp del] storable.simps [simp del]

definition storable_dict :: "dict \<Rightarrow> bool" where
  "storable_dict d = (key_sorted d \<and> (\<forall>x \<in> snd ` set d. storable x))"

lemma json_ok_simps [simp]:
  "json_ok PyNone" "json_ok (PyBool b)" "json_ok (PyInt n)" "json_ok (PyStr s)"
  "json_ok (PyMap d) \<longleftrightarrow> key_sorted d \<and> (\<forall>x \<in> snd ` set d. json_ok x)"
  "json_ok (PyList xs) \<longleftrightarrow> (\<forall>x \<in> set xs. json_ok x)"
  by (auto simp: json_ok.simps [of "PyMap d"] json_ok.simps)

lemma storable_simps [simp]:
  "storable PyNone" "storable (PyBool b)" "storable (PyInt n)" "storable (PyStr s)"
  "storable (PyDatetime t z) \<longleftrightarrow> z = Some 0 \<and> is_datetime t"
  "storable (PyMap d) \<longleftrightarrow> storable_dict d"
  "storable (PyTuple xs) \<longleftrightarrow> (\<forall>x \<in> set xs. storable x)"
  "\<not> storable (PyList xs)" "\<not> storable (PyOther ty i)"
  by (auto simp: storable.simps [of "PyMap d"] storable.simps storable_dict_def)

lemma storable_frozen: "storable v \<Longrightarrow> frozen v"
proof (induction v)
  case (PyMap d)
  then show ?case by (fastforce simp: storable_dict_def frozen_dict_def)
qed auto

lemma storable_dict_frozen: "storable_dict d \<Longrightarrow> frozen_dict d"
  using storable_frozen [of "PyMap d"] by simp

section \<open>Objects with exactly these keys\<close>

lemma sort_Nil: "sort xs = [] \<longleftrightarrow> xs = []"
  by (metis length_0_conv length_sort)

lemma exact_keys_iff:
  assumes "key_sorted d" and "set keys = set names" "sorted_wrt (<) keys"
  shows "exact_keys d names context = Inr () \<longleftrightarrow> map fst d = keys"
proof -
  have "exact_keys d names context = Inr () \<longleftrightarrow> set (map fst d) = set keys"
    by (auto simp: exact_keys_def has_def Let_def assms(2) sort_Nil map_of_eq_None_iff filter_empty_conv)
  also have "\<dots> \<longleftrightarrow> map fst d = keys"
    using assms(1,3) sorted_distinct_set_unique [of "map fst d" keys] unfolding key_sorted_def strict_sorted_iff by metis
  finally show ?thesis .
qed

lemma two_fields: "map fst d = [a, b] \<Longrightarrow> a \<noteq> b \<Longrightarrow> d = [(a, field d a), (b, field d b)]"
  by (cases d; cases "tl d") (auto simp: field_def)

section \<open>Codecs\<close>

lemma rmap_inverse:
  assumes "\<forall>y \<in> set ys. \<forall>x. g y = Inr x \<longleftrightarrow> P x \<and> f x = Inr y"
  shows "rmap g ys = Inr xs \<longleftrightarrow> list_all P xs \<and> rmap f xs = Inr ys"
  using assms
proof (induction ys arbitrary: xs)
  case Nil
  show ?case by (cases xs) (auto simp: rbind_Inr_iff)
next
  case (Cons y ys)
  then show ?case by (cases xs) (auto simp: rbind_Inr_iff)
qed

text \<open>A decoder that accepts exactly the encodings of the valid values, among JSON values.\<close>

locale json_codec =
  fixes enc :: "'a \<Rightarrow> pyvalue result" and dec :: "pyvalue \<Rightarrow> 'a result" and valid :: "'a \<Rightarrow> bool"
  assumes accepts: "json_ok j \<Longrightarrow> dec j = Inr x \<longleftrightarrow> valid x \<and> enc x = Inr j"
    and encodes: "valid x \<Longrightarrow> \<exists>j. enc x = Inr j \<and> json_ok j"
begin

lemma roundtrip: "valid x \<Longrightarrow> \<exists>j. enc x = Inr j \<and> json_ok j \<and> dec j = Inr x"
  using encodes [of x] accepts by blast

lemma accepts_list: "\<forall>j \<in> set js. json_ok j \<Longrightarrow> rmap dec js = Inr xs \<longleftrightarrow> list_all valid xs \<and> rmap enc xs = Inr js"
  by (rule rmap_inverse) (use accepts in blast)

lemma encodes_list: "list_all valid xs \<Longrightarrow> \<exists>js. rmap enc xs = Inr js \<and> (\<forall>j \<in> set js. json_ok j)"
proof (induction xs)
  case (Cons x xs)
  then obtain j js where "enc x = Inr j" "json_ok j" "rmap enc xs = Inr js" "\<forall>j \<in> set js. json_ok j"
    using encodes [of x] by auto
  then show ?case by simp
qed simp

lemma list_codec:
  "json_codec (\<lambda>xs. rbind (rmap enc xs) (\<lambda>js. Inr (PyList js))) (\<lambda>j. rbind (require_list j n) (rmap dec)) (list_all valid)"
proof
  fix j xs assume "json_ok j"
  then show "rbind (require_list j n) (rmap dec) = Inr xs \<longleftrightarrow>
      list_all valid xs \<and> rbind (rmap enc xs) (\<lambda>js. Inr (PyList js)) = Inr j"
    by (cases j) (auto simp: require_list_def rbind_Inr_iff accepts_list)
next
  fix xs assume "list_all valid xs"
  from encodes_list [OF this] show "\<exists>j. rbind (rmap enc xs) (\<lambda>js. Inr (PyList js)) = Inr j \<and> json_ok j" by auto
qed

end

section \<open>Tagged data\<close>

text \<open>What one entry of an encoded mapping reads as.\<close>

definition entry_reads :: "pyvalue \<times> pyvalue result \<Rightarrow> string \<times> pyvalue \<Rightarrow> bool" where
  "entry_reads ir kx = ((\<exists>j. fst ir = PyList [PyStr (fst kx), j]) \<and> snd ir = Inr (snd kx))"

lemma key_sorted_snoc: "key_sorted (d @ [(k, x)]) \<longleftrightarrow> key_sorted d \<and> (\<forall>k' \<in> fst ` set d. k' < k)"
  by (auto simp: key_sorted_def sorted_wrt_append)

lemma key_sorted_last: "key_sorted d \<Longrightarrow> d \<noteq> [] \<Longrightarrow> k' \<in> fst ` set d \<Longrightarrow> k' \<le> fst (last d)"
  by (cases d rule: rev_cases) (force simp: key_sorted_snoc)+

lemma key_follows:
  assumes "key_sorted acc" "prev = (if acc = [] then None else Some (fst (last acc)))"
  shows "(k \<notin> fst ` set acc \<and> \<not> (case prev of None \<Rightarrow> False | Some p \<Rightarrow> k < p)) \<longleftrightarrow> key_sorted (acc @ [(k, x)])"
proof (cases "acc = []")
  case False
  let ?last = "fst (last acc)"
  have "?last \<in> fst ` set acc" using False by simp
  moreover have "\<forall>k' \<in> fst ` set acc. k' \<le> ?last" using key_sorted_last [OF assms(1) False] by blast
  ultimately have "k \<notin> fst ` set acc \<and> \<not> k < ?last" if "\<forall>k' \<in> fst ` set acc. k' < k"
    using that by (metis less_irrefl less_asym)
  moreover have "\<forall>k' \<in> fst ` set acc. k' < k" if "k \<notin> fst ` set acc" "\<not> k < ?last"
  proof
    fix k' assume k': "k' \<in> fst ` set acc"
    have "k' \<le> ?last" by (rule key_sorted_last [OF assms(1) False k'])
    then have "k' \<le> k" using that(2) by (simp add: not_less)
    moreover have "k' \<noteq> k" using that(1) k' by blast
    ultimately show "k' < k" by simp
  qed
  ultimately have "(k \<notin> fst ` set acc \<and> \<not> k < ?last) \<longleftrightarrow> (\<forall>k' \<in> fst ` set acc. k' < k)" by argo
  then show ?thesis using False assms by (simp add: key_sorted_snoc)
qed (use assms in \<open>simp add: key_sorted_def\<close>)

lemma decode_entries_iff:
  assumes "key_sorted acc" "prev = (if acc = [] then None else Some (fst (last acc)))"
  shows "decode_entries items prev acc = Inr out \<longleftrightarrow>
    (\<exists>d. out = acc @ d \<and> list_all2 entry_reads items d \<and> key_sorted out)"
  using assms
proof (induction items arbitrary: prev acc)
  case Nil
  then show ?case by auto
next
  case (Cons ir items)
  obtain item r where ir: "ir = (item, r)" by (cases ir)
  show ?case
  proof (cases "\<exists>k j x. item = PyList [PyStr k, j] \<and> r = Inr x")
    case True
    then obtain k j x where e: "item = PyList [PyStr k, j]" "r = Inr x" by blast
    have step: "decode_entries (ir # items) prev acc = Inr out \<longleftrightarrow>
        key_sorted (acc @ [(k, x)]) \<and> decode_entries items (Some k) (acc @ [(k, x)]) = Inr out"
      using key_follows [OF Cons.prems, of k x] by (auto simp: ir e)
    have "key_sorted (acc @ [(k, x)]) \<Longrightarrow> decode_entries items (Some k) (acc @ [(k, x)]) = Inr out \<longleftrightarrow>
        (\<exists>d. out = (acc @ [(k, x)]) @ d \<and> list_all2 entry_reads items d \<and> key_sorted out)"
      by (rule Cons.IH) simp_all
    moreover have "key_sorted ((acc @ [(k, x)]) @ d) \<Longrightarrow> key_sorted (acc @ [(k, x)])" for d
      by (simp add: key_sorted_def sorted_wrt_append)
    moreover have "list_all2 entry_reads (ir # items) d \<longleftrightarrow> (\<exists>d'. d = (k, x) # d' \<and> list_all2 entry_reads items d')" for d
      by (cases d) (auto simp: entry_reads_def ir e)
    ultimately show ?thesis unfolding step by auto
  next
    case False
    then have "decode_entries (ir # items) prev acc \<noteq> Inr out"
      by (auto simp: ir rbind_Inr_iff split: pyvalue.splits list.splits)
    moreover have "\<not> list_all2 entry_reads (ir # items) d" for d
      using False by (cases d) (auto simp: entry_reads_def ir)
    ultimately show ?thesis by blast
  qed
qed

definition entry_writes :: "string \<times> pyvalue \<Rightarrow> pyvalue \<Rightarrow> bool" where
  "entry_writes kx item = (\<exists>j. encode_data (snd kx) = Inr j \<and> item = PyList [PyStr (fst kx), j])"

lemma encode_scalars [simp]:
  "encode_data PyNone = Inr PyNone" "encode_data (PyBool b) = Inr (PyBool b)"
  "encode_data (PyInt n) = Inr (PyInt n)" "encode_data (PyStr s) = Inr (PyStr s)"
  "encode_data (PyDatetime t (Some 0)) = Inr (encoded_datetime (utc_text t))"
  by (simp_all add: encode_data.simps checked_utc_def)

lemma encode_tuple: "encode_data (PyTuple xs) = rbind (rmap encode_data xs) (\<lambda>items. Inr (encoded_items ''tuple'' items))"
proof -
  have "rmap (\<lambda>r. r) (map encode_data ys) = rmap encode_data ys" for ys by (induction ys) simp_all
  then show ?thesis by (simp add: encode_data.simps [of "PyTuple xs"])
qed

lemma encode_mapping:
  assumes "key_sorted d"
  shows "encode_data (PyMap d) = Inr j \<longleftrightarrow> (\<exists>items. j = encoded_items ''mapping'' items \<and> list_all2 entry_writes d items)"
proof -
  let ?es = "map (\<lambda>(k, x). (k, encode_data x)) d"
  have "sort_key fst ?es = ?es" using assms
    by (intro sort_key_id_if_sorted) (auto simp: key_sorted_def case_prod_unfold comp_def strict_sorted_iff)
  moreover have "rmap encoded_entry (map (\<lambda>(k, x). (k, encode_data x)) e) = Inr items \<longleftrightarrow> list_all2 entry_writes e items" for e items
  proof (induction e arbitrary: items)
    case (Cons kx e)
    obtain k x where "kx = (k, x)" by (cases kx)
    then show ?case using Cons by (cases items) (auto simp: rbind_Inr_iff encoded_entry_def entry_writes_def)
  qed (auto)
  ultimately show ?thesis by (auto simp: encode_data.simps [of "PyMap d"] rbind_Inr_iff)
qed

lemma encode_total: "storable v \<Longrightarrow> \<exists>j. encode_data v = Inr j \<and> json_ok j"
proof (induction v)
  case (PyMap d)
  then have d: "key_sorted d" "\<forall>kx \<in> set d. \<exists>j. encode_data (snd kx) = Inr j \<and> json_ok j"
    by (auto simp: storable_dict_def)
  then obtain f where f: "\<forall>kx \<in> set d. encode_data (snd kx) = Inr (f kx) \<and> json_ok (f kx)" by metis
  let ?items = "map (\<lambda>kx. PyList [PyStr (fst kx), f kx]) d"
  have "list_all2 entry_writes d ?items" using f by (auto simp: list_all2_conv_all_nth entry_writes_def)
  then have "encode_data (PyMap d) = Inr (encoded_items ''mapping'' ?items)" using encode_mapping [OF d(1)] by blast
  moreover have "json_ok (encoded_items ''mapping'' ?items)" using f by (auto simp: encoded_items_def key_sorted_def)
  ultimately show ?case by blast
next
  case (PyTuple xs)
  then have "\<forall>x \<in> set xs. \<exists>j. encode_data x = Inr j \<and> json_ok j" by auto
  then obtain f where f: "\<forall>x \<in> set xs. encode_data x = Inr (f x) \<and> json_ok (f x)" by metis
  then have "rmap encode_data xs = Inr (map f xs)" by (intro rmap_same) auto
  then show ?case using f by (auto simp: encode_tuple encoded_items_def key_sorted_def)
next
  case (PyDatetime t z)
  then show ?case by (auto simp: encoded_datetime_def key_sorted_def)
qed auto

text \<open>What an encoded object can be.\<close>

lemma decode_scalars [simp]:
  "decode_data PyNone = Inr v \<longleftrightarrow> v = PyNone" "decode_data (PyBool b) = Inr v \<longleftrightarrow> v = PyBool b"
  "decode_data (PyInt n) = Inr v \<longleftrightarrow> v = PyInt n" "decode_data (PyStr s) = Inr v \<longleftrightarrow> v = PyStr s"
  "decode_data (PyList xs) \<noteq> Inr v" "decode_data (PyDatetime t z) \<noteq> Inr v"
  "decode_data (PyTuple xs) \<noteq> Inr v" "decode_data (PyOther ty i) \<noteq> Inr v"
  by (auto simp: decode_data.simps)

lemma tag_keys:
  "sorted_wrt (<) [''type'', ''value'']" "sorted_wrt (<) [''items'', ''type'']" "''type'' \<noteq> ''value''" "''items'' \<noteq> ''type''"
  by code_simp+

lemma tag_field: "tag_of d = Some tag \<longleftrightarrow> map_of d ''type'' = Some (PyStr tag)"
  by (auto simp: tag_of_def split: option.splits pyvalue.splits)

lemma decode_datetime:
  assumes "key_sorted d" and "tag_of d = Some ''datetime''"
  shows "decode_data (PyMap d) = Inr v \<longleftrightarrow>
    (\<exists>t. PyMap d = encoded_datetime (utc_text t) \<and> is_datetime t \<and> v = PyDatetime t (Some 0))"
proof -
  have keys: "exact_keys d [''type'', ''value''] c = Inr () \<longleftrightarrow> map fst d = [''type'', ''value'']" for c
    by (rule exact_keys_iff [OF assms(1)]) (use tag_keys in simp_all)
  have shape: "d = [(''type'', PyStr ''datetime''), (''value'', field d ''value'')]" if keys: "map fst d = [''type'', ''value'']"
  proof -
    have "field d ''type'' = PyStr ''datetime''" using assms(2) by (simp add: tag_field field_def)
    then show ?thesis using two_fields [OF keys tag_keys(3)] by argo
  qed
  have "decode_data (PyMap d) = Inr v \<longleftrightarrow> map fst d = [''type'', ''value''] \<and>
      (\<exists>t. parse_utc_text (field d ''value'') ''encoded datetime'' = Inr t \<and> v = PyDatetime t (Some 0))"
    unfolding decode_data.simps [of "PyMap d"] pyvalue.case assms(2) by (simp only: if_True refl rbind_check keys) (auto simp: rbind_Inr_iff)
  also have "\<dots> \<longleftrightarrow> (\<exists>t. PyMap d = encoded_datetime (utc_text t) \<and> is_datetime t \<and> v = PyDatetime t (Some 0))"
    (is "?l \<longleftrightarrow> ?r")
  proof
    assume ?l
    then obtain t where t: "parse_utc_text (field d ''value'') ''encoded datetime'' = Inr t" "v = PyDatetime t (Some 0)"
      and keys: "map fst d = [''type'', ''value'']" by (elim conjE exE)
    note d = shape [OF keys]
    obtain s where s: "field d ''value'' = PyStr s" using t(1) by (cases "field d ''value''") (auto simp: parse_utc_text_def)
    have "s = utc_text t" "is_datetime t" using t(1) unfolding s parse_utc_text_iff by blast+
    moreover have "PyMap d = encoded_datetime s" using d unfolding s encoded_datetime_def by (rule arg_cong)
    ultimately show ?r using t(2) by blast
  next
    assume ?r
    then show ?l by (auto simp: encoded_datetime_def field_def parse_utc_text_iff)
  qed
  finally show ?thesis .
qed

lemma items_shape:
  assumes "key_sorted d" and "tag_of d = Some tag"
  shows "exact_keys d [''type'', ''items''] c = Inr () \<and> map_of d ''items'' = Some (PyList items) \<longleftrightarrow> PyMap d = encoded_items tag items"
proof -
  have keys: "exact_keys d [''type'', ''items''] c = Inr () \<longleftrightarrow> map fst d = [''items'', ''type'']"
    by (rule exact_keys_iff [OF assms(1)]) (use tag_keys in auto)
  have "d = [(''items'', PyList items), (''type'', PyStr tag)]" if "map fst d = [''items'', ''type'']" "map_of d ''items'' = Some (PyList items)"
    using two_fields [OF that(1)] assms(2) that(2) by (auto simp: tag_field field_def)
  then show ?thesis unfolding keys by (auto simp: encoded_items_def)
qed

lemma decode_tuple:
  assumes "key_sorted d" and "tag_of d = Some ''tuple''"
  shows "decode_data (PyMap d) = Inr v \<longleftrightarrow>
    (\<exists>items xs. PyMap d = encoded_items ''tuple'' items \<and> rmap decode_data items = Inr xs \<and> v = PyTuple xs)"
proof -
  have same: "rmap (\<lambda>r. r) (map decode_data items) = rmap decode_data items" for items by (induction items) simp_all
  have "decode_data (PyMap d) = Inr v \<longleftrightarrow> (\<exists>items xs. (exact_keys d [''type'', ''items''] ''encoded tuple'' = Inr () \<and> map_of d ''items'' = Some (PyList items))
      \<and> rmap decode_data items = Inr xs \<and> v = PyTuple xs)"
    unfolding decode_data.simps [of "PyMap d"] pyvalue.case assms(2) by (simp add: rbind_Inr_iff same split: option.splits pyvalue.splits) auto
  then show ?thesis unfolding items_shape [OF assms] .
qed

definition entry_decodes :: "pyvalue \<Rightarrow> string \<times> pyvalue \<Rightarrow> bool" where
  "entry_decodes item kx = (\<exists>j. item = PyList [PyStr (fst kx), j] \<and> decode_data j = Inr (snd kx))"

lemma decode_mapping_object:
  assumes "key_sorted d" and "tag_of d = Some ''mapping''"
  shows "decode_data (PyMap d) = Inr v \<longleftrightarrow>
    (\<exists>items e e'. PyMap d = encoded_items ''mapping'' items \<and> key_sorted e \<and> list_all2 entry_decodes items e \<and>
       freeze_mapping e = Inr e' \<and> v = PyMap e')"
proof -
  let ?read = "\<lambda>item. (item, case entry_value item of Some x \<Rightarrow> decode_data x | None \<Rightarrow> Inr PyNone)"
  have "list_all2 entry_reads (map ?read items) e \<longleftrightarrow> list_all2 entry_decodes items e" for items e
    unfolding list_all2_map1
    by (rule list.rel_cong) (auto simp: entry_reads_def entry_decodes_def entry_value_def)
  then have entries: "decode_entries (map ?read items) None [] = Inr e \<longleftrightarrow> key_sorted e \<and> list_all2 entry_decodes items e" for items e
    using decode_entries_iff [of "[]" None "map ?read items" e] by auto
  have "decode_data (PyMap d) = Inr v \<longleftrightarrow> (\<exists>items e e'. (exact_keys d [''type'', ''items''] ''encoded mapping'' = Inr () \<and> map_of d ''items'' = Some (PyList items))
      \<and> key_sorted e \<and> list_all2 entry_decodes items e \<and> freeze_mapping e = Inr e' \<and> v = PyMap e')"
    unfolding decode_data.simps [of "PyMap d"] pyvalue.case assms(2) by (simp add: rbind_Inr_iff entries split: option.splits pyvalue.splits) auto
  then show ?thesis unfolding items_shape [OF assms] .
qed

lemma encoded_apart [simp]:
  "tag_of [(''items'', x), (''type'', PyStr tag)] = Some tag"
  "tag_of [(''type'', PyStr tag), (''value'', x)] = Some tag"
  by (simp_all add: tag_field)

lemma encoded_inj:
  "encoded_items tag items = encoded_items tag' items' \<longleftrightarrow> tag = tag' \<and> items = items'"
  "encoded_datetime s = encoded_datetime s' \<longleftrightarrow> s = s'"
  "encoded_datetime s \<noteq> encoded_items tag items"
  by (auto simp: encoded_items_def encoded_datetime_def)

lemma encoded_size:
  "j = encoded_items tag items \<Longrightarrow> item \<in> set items \<Longrightarrow> size item < size j"
  using items_size [of "[(''items'', PyList items), (''type'', PyStr tag)]" "''items''" items item] by (simp add: encoded_items_def)

lemma encoded_json_ok: "json_ok (encoded_items tag items) \<longleftrightarrow> (\<forall>item \<in> set items. json_ok item)"
  using tag_keys(2) by (auto simp: encoded_items_def key_sorted_def)

text \<open>An entry reads as what it was written from.\<close>

lemma entries_inverse:
  assumes "\<forall>item \<in> set items. \<forall>k j x. item = PyList [PyStr k, j] \<longrightarrow> (decode_data j = Inr x \<longleftrightarrow> storable x \<and> encode_data x = Inr j)"
  shows "list_all2 entry_decodes items e \<longleftrightarrow> (\<forall>x \<in> snd ` set e. storable x) \<and> list_all2 entry_writes e items"
  using assms
proof (induction items arbitrary: e)
  case Nil
  show ?case by auto
next
  case (Cons item items)
  show ?case
  proof (cases e)
    case (Cons kx e')
    have "\<forall>k j x. item = PyList [PyStr k, j] \<longrightarrow> (decode_data j = Inr x \<longleftrightarrow> storable x \<and> encode_data x = Inr j)"
      using Cons.prems by simp
    then have "entry_decodes item kx \<longleftrightarrow> storable (snd kx) \<and> entry_writes kx item"
      unfolding entry_decodes_def entry_writes_def by auto
    moreover have "list_all2 entry_decodes items e' \<longleftrightarrow> (\<forall>x \<in> snd ` set e'. storable x) \<and> list_all2 entry_writes e' items"
      by (rule Cons.IH) (use Cons.prems in \<open>meson list.set_intros(2)\<close>)
    ultimately show ?thesis unfolding Cons by auto
  qed simp
qed

lemma encodes_object:
  "storable v \<and> encode_data v = Inr (PyMap d) \<longleftrightarrow>
     (\<exists>t. PyMap d = encoded_datetime (utc_text t) \<and> is_datetime t \<and> v = PyDatetime t (Some 0)) \<or>
     (\<exists>items xs. PyMap d = encoded_items ''tuple'' items \<and> (list_all storable xs \<and> rmap encode_data xs = Inr items) \<and> v = PyTuple xs) \<or>
     (\<exists>items e. PyMap d = encoded_items ''mapping'' items \<and> key_sorted e \<and>
        ((\<forall>x \<in> snd ` set e. storable x) \<and> list_all2 entry_writes e items) \<and> v = PyMap e)"
proof (cases v)
  case (PyDatetime t z)
  then show ?thesis by (cases "z = Some 0") auto
next
  case (PyMap e)
  then show ?thesis by (cases "key_sorted e") (auto simp: encode_mapping storable_dict_def)
next
  case (PyTuple xs)
  then show ?thesis by (auto simp: encode_tuple rbind_Inr_iff list_all_iff)
qed auto

lemma encodes_scalar:
  assumes "\<And>d. j \<noteq> PyMap d"
  shows "storable v \<and> encode_data v = Inr j \<longleftrightarrow> v = j \<and> storable j \<and> encode_data j = Inr j"
proof (cases v)
  case (PyDatetime t z)
  then show ?thesis using assms by (cases "z = Some 0") (auto simp: encoded_datetime_def)
next
  case (PyMap e)
  then show ?thesis using assms by (cases "key_sorted e") (auto simp: encode_mapping storable_dict_def encoded_items_def)
next
  case (PyTuple xs)
  then show ?thesis using assms by (auto simp: encode_tuple rbind_Inr_iff encoded_items_def)
qed auto

lemma encodes_itself: "storable j \<and> encode_data j = Inr j \<longleftrightarrow> j = PyNone \<or> (\<exists>b. j = PyBool b) \<or> (\<exists>n. j = PyInt n) \<or> (\<exists>s. j = PyStr s)"
  if "\<And>d. j \<noteq> PyMap d"
proof (cases j)
  case (PyDatetime t z)
  then show ?thesis by (cases "z = Some 0") (auto simp: encoded_datetime_def)
next
  case (PyTuple xs)
  then show ?thesis by (auto simp: encode_tuple rbind_Inr_iff encoded_items_def)
qed (use that in auto)

lemma tag_cases:
  assumes "key_sorted d" and "decode_data (PyMap d) = Inr v"
  shows "tag_of d \<in> {Some ''datetime'', Some ''tuple'', Some ''mapping''}"
  using assms(2) unfolding decode_data.simps [of "PyMap d"] pyvalue.case by (simp only: split: if_splits) auto

lemma tagged:
  "PyMap d = encoded_datetime s \<Longrightarrow> tag_of d = Some ''datetime''" "PyMap d = encoded_items tag items \<Longrightarrow> tag_of d = Some tag"
  by (auto simp: encoded_datetime_def encoded_items_def)

lemma decodes_object:
  assumes "key_sorted d"
  shows "decode_data (PyMap d) = Inr v \<longleftrightarrow>
     (\<exists>t. PyMap d = encoded_datetime (utc_text t) \<and> is_datetime t \<and> v = PyDatetime t (Some 0)) \<or>
     (\<exists>items xs. PyMap d = encoded_items ''tuple'' items \<and> rmap decode_data items = Inr xs \<and> v = PyTuple xs) \<or>
     (\<exists>items e e'. PyMap d = encoded_items ''mapping'' items \<and> key_sorted e \<and> list_all2 entry_decodes items e \<and>
       freeze_mapping e = Inr e' \<and> v = PyMap e')"
  (is "_ \<longleftrightarrow> ?A \<or> ?B \<or> ?C")
proof
  assume run: "decode_data (PyMap d) = Inr v"
  then consider "tag_of d = Some ''datetime''" | "tag_of d = Some ''tuple''" | "tag_of d = Some ''mapping''"
    using tag_cases [OF assms] by blast
  then show "?A \<or> ?B \<or> ?C"
    using run decode_datetime [OF assms] decode_tuple [OF assms] decode_mapping_object [OF assms] by cases metis+
next
  assume "?A \<or> ?B \<or> ?C"
  then show "decode_data (PyMap d) = Inr v"
  proof (elim disjE)
    assume A: ?A
    then have "tag_of d = Some ''datetime''" by (elim exE conjE) (rule tagged)
    from decode_datetime [OF assms this] A show ?thesis by (rule iffD2)
  next
    assume B: ?B
    then have "tag_of d = Some ''tuple''" by (elim exE conjE) (rule tagged)
    from decode_tuple [OF assms this] B show ?thesis by (rule iffD2)
  next
    assume C: ?C
    then have "tag_of d = Some ''mapping''" by (elim exE conjE) (rule tagged)
    from decode_mapping_object [OF assms this] C show ?thesis by (rule iffD2)
  qed
qed

lemma decode_inverse: "json_ok j \<Longrightarrow> decode_data j = Inr v \<longleftrightarrow> storable v \<and> encode_data v = Inr j"
proof (induction "size j" arbitrary: j v rule: less_induct)
  case less
  show ?case
  proof (cases "\<exists>d. j = PyMap d")
    case True
    then obtain d where PyMap: "j = PyMap d" by blast
    note IH = less.hyps [unfolded PyMap]
    have d: "key_sorted d" using less.prems PyMap by simp
    have part: "json_ok item" "size item < size (PyMap d)" if "PyMap d = encoded_items tag items" "item \<in> set items" for tag items item
      using less.prems encoded_size [OF that] that unfolding PyMap that(1) encoded_json_ok by auto
    have tuple: "rmap decode_data items = Inr xs \<longleftrightarrow> list_all storable xs \<and> rmap encode_data xs = Inr items"
      if "PyMap d = encoded_items ''tuple'' items" for items xs
      by (rule rmap_inverse) (use IH part [OF that] in blast)
    have mapping: "list_all2 entry_decodes items e \<longleftrightarrow> (\<forall>x \<in> snd ` set e. storable x) \<and> list_all2 entry_writes e items"
      if m: "PyMap d = encoded_items ''mapping'' items" for items e
    proof (rule entries_inverse, intro ballI allI impI)
      fix item k i x assume item: "item \<in> set items" "item = PyList [PyStr k, i]"
      have "json_ok i" "size i < size (PyMap d)" using part [OF m item(1)] unfolding item(2) by auto
      then show "decode_data i = Inr x \<longleftrightarrow> storable x \<and> encode_data x = Inr i" using IH by blast
    qed
    have freeze: "freeze_mapping e = Inr e' \<longleftrightarrow> e' = e" if "key_sorted e" "\<forall>x \<in> snd ` set e. storable x" for e e'
      using freeze_frozen_mapping [of e] storable_dict_frozen [of e] that by (auto simp: storable_dict_def)
    have "(PyMap d = encoded_items ''mapping'' items \<and> key_sorted e \<and> list_all2 entry_decodes items e \<and>
        freeze_mapping e = Inr e' \<and> v = PyMap e') \<longleftrightarrow>
      (PyMap d = encoded_items ''mapping'' items \<and> key_sorted e \<and>
        ((\<forall>x \<in> snd ` set e. storable x) \<and> list_all2 entry_writes e items) \<and> e' = e \<and> v = PyMap e')" for items e e'
      using mapping [of items e] freeze [of e e'] by argo
    moreover have "(PyMap d = encoded_items ''tuple'' items \<and> rmap decode_data items = Inr xs \<and> v = PyTuple xs) \<longleftrightarrow>
      (PyMap d = encoded_items ''tuple'' items \<and> (list_all storable xs \<and> rmap encode_data xs = Inr items) \<and> v = PyTuple xs)" for items xs
      using tuple [of items xs] by argo
    ultimately show ?thesis unfolding PyMap encodes_object decodes_object [OF d] by simp
  next
    case False
    then have "storable v \<and> encode_data v = Inr j \<longleftrightarrow> v = j \<and> (j = PyNone \<or> (\<exists>b. j = PyBool b) \<or> (\<exists>n. j = PyInt n) \<or> (\<exists>s. j = PyStr s))"
      using encodes_scalar [of j v] encodes_itself [of j] by blast
    moreover have "decode_data j = Inr v \<longleftrightarrow> v = j \<and> (j = PyNone \<or> (\<exists>b. j = PyBool b) \<or> (\<exists>n. j = PyInt n) \<or> (\<exists>s. j = PyStr s))"
      using False by (cases j) auto
    ultimately show ?thesis by blast
  qed
qed

interpretation datum: json_codec encode_data decode_data storable
  by unfold_locales (fact decode_inverse, fact encode_total)

end
