(* ===== verification/Plan_Codec_Claims.thy ===== *)
theory Plan_Codec_Claims
  imports Plan_Codec_Facts Correction_Claims
begin

text \<open>
  The codecs of a plan's parts, of operations and of whole plans, and the properties of the JSON form.
\<close>

section \<open>Mappings and versions\<close>

lemma decode_mapping_iff: "decode_mapping what j = Inr d \<longleftrightarrow> decode_data j = Inr (PyMap d)"
proof (cases "decode_data j")
  case (Inr v)
  then show ?thesis by (cases v) (auto simp: decode_mapping_def)
qed (simp add: decode_mapping_def)

lemma mapping_codec: "json_codec encode_dict (decode_mapping what) storable_dict"
proof
  fix j d assume "json_ok j"
  then show "decode_mapping what j = Inr d \<longleftrightarrow> storable_dict d \<and> encode_dict d = Inr j"
    unfolding decode_mapping_iff encode_dict_def by (simp add: datum.accepts)
next
  fix d assume "storable_dict d"
  then show "\<exists>j. encode_dict d = Inr j \<and> json_ok j" using datum.encodes [of "PyMap d"] by (simp add: encode_dict_def)
qed

interpretation rows: json_codec encode_dict "decode_mapping ''source interval''" storable_dict
  by (rule mapping_codec)

definition storable_option :: "dict option \<Rightarrow> bool" where
  "storable_option d = (case d of None \<Rightarrow> True | Some e \<Rightarrow> storable_dict e)"

definition decode_image :: "string \<Rightarrow> pyvalue \<Rightarrow> dict option result" where
  "decode_image what v = rbind (decode_optional v) (optional_mapping what)"

lemma not_null: "encode_dict d \<noteq> Inr PyNone"
  using encodes_object [of "PyMap d"] by (auto simp: encode_dict_def encode_data.simps [of "PyMap d"] rbind_Inr_iff encoded_items_def)

lemma image_codec: "json_codec encode_optional (decode_image what) storable_option"
proof
  fix j d assume j: "json_ok j"
  have object: "decode_data j = Inr (PyMap e) \<longleftrightarrow> storable_dict e \<and> encode_dict e = Inr j" for e
    using datum.accepts [OF j, of "PyMap e"] by (simp add: encode_dict_def)
  have null: "decode_data j = Inr PyNone \<longleftrightarrow> j = PyNone" using datum.accepts [OF j, of PyNone] by auto
  show "decode_image what j = Inr d \<longleftrightarrow> storable_option d \<and> encode_optional d = Inr j"
  proof (cases "j = PyNone")
    case True
    then show ?thesis using not_null
      by (auto simp: decode_image_def decode_optional_def optional_mapping_def storable_option_def encode_optional_def split: option.splits)
  next
    case False
    then have "decode_image what j = Inr d \<longleftrightarrow> (\<exists>e. decode_data j = Inr (PyMap e) \<and> d = Some e)"
      unfolding decode_image_def decode_optional_def
    proof (cases "decode_data j")
      case (Inr v)
      then show "rbind (if j = PyNone then Inr PyNone else decode_data j) (optional_mapping what) = Inr d \<longleftrightarrow>
          (\<exists>e. decode_data j = Inr (PyMap e) \<and> d = Some e)"
        using False null by (cases v) (auto simp: optional_mapping_def)
    qed (simp add: False)
    then show ?thesis unfolding object using False
      by (auto simp: storable_option_def encode_optional_def split: option.splits)
  qed
next
  fix d assume "storable_option d"
  then show "\<exists>j. encode_optional d = Inr j \<and> json_ok j"
    using rows.encodes by (auto simp: storable_option_def encode_optional_def split: option.splits)
qed

definition version_ok :: "source_version \<Rightarrow> bool" where
  "version_ok v = (0 < sv_attendance_id v \<and> is_datetime (sv_write_date v))"

lemma version_keys: "sorted_wrt (<) [''attendance_id'', ''write_date'']" "''attendance_id'' \<noteq> ''write_date''"
  by code_simp+

lemma positive_int_iff: "checked_positive_int v what = Inr n \<longleftrightarrow> v = PyInt n \<and> 0 < n"
  by (auto simp: checked_positive_int_def split: pyvalue.splits)

lemma parse_text_iff: "parse_utc_text v what = Inr t \<longleftrightarrow> v = PyStr (utc_text t) \<and> is_datetime t"
proof (cases v)
  case (PyStr s)
  then show ?thesis by (auto simp: parse_utc_text_iff)
qed (simp_all add: parse_utc_text_def)

lemma version_codec: "json_codec (\<lambda>v. Inr (version_json v)) read_version version_ok"
proof
  fix j v assume j: "json_ok j"
  show "read_version j = Inr v \<longleftrightarrow> version_ok v \<and> Inr (version_json v) = (Inr j :: pyvalue result)"
  proof (cases "\<exists>d. j = PyMap d")
    case True
    then obtain d where d: "j = PyMap d" "key_sorted d" using j by auto
    have keys: "exact_keys d [''attendance_id'', ''write_date''] c = Inr () \<longleftrightarrow> map fst d = [''attendance_id'', ''write_date'']" for c
      by (rule exact_keys_iff [OF d(2)]) (use version_keys in simp_all)
    have "read_version j = Inr v \<longleftrightarrow> map fst d = [''attendance_id'', ''write_date''] \<and>
        field d ''attendance_id'' = PyInt (sv_attendance_id v) \<and> field d ''write_date'' = PyStr (utc_text (sv_write_date v)) \<and> version_ok v"
      by (cases v) (auto simp: read_version_def d(1) rbind_check keys rbind_Inr_iff positive_int_iff parse_text_iff version_ok_def)
    also have "\<dots> \<longleftrightarrow> version_ok v \<and> version_json v = j"
      using two_fields [of d, OF _ version_keys(2)] by (auto simp: d(1) version_json_def field_def version_keys(2))
    finally show ?thesis by simp
  qed (auto simp: read_version_def version_json_def split: pyvalue.splits)
next
  fix v
  show "\<exists>j. Inr (version_json v) = Inr j \<and> json_ok j" using version_keys by (auto simp: version_json_def key_sorted_def)
qed

section \<open>Operations\<close>

text \<open>An operation that its own constructor accepts as it is, with data that can be stored.\<close>

definition built_operation :: "operation \<Rightarrow> bool" where
  "built_operation oper =
     (make_operation (op_key oper) (op_kind oper) (of_id (op_attendance_id oper)) (PyInt (op_employee oper))
        (op_before oper) (op_after oper) = Inr oper \<and>
      storable_option (op_before oper) \<and> storable_option (op_after oper))"

lemma freeze_storable: "storable_option d \<Longrightarrow> freeze_optional d = Inr d"
  using freeze_frozen_mapping storable_dict_frozen by (auto simp: freeze_optional_def storable_option_def split: option.splits)

lemma make_operation_iff:
  assumes "storable_option was" "storable_option becomes"
  shows "make_operation key kind a e was becomes = Inr oper \<longleftrightarrow>
    built_operation oper \<and> a = of_id (op_attendance_id oper) \<and> e = PyInt (op_employee oper) \<and>
    op_key oper = key \<and> op_kind oper = kind \<and> op_before oper = was \<and> op_after oper = becomes"
proof
  assume run: "make_operation key kind a e was becomes = Inr oper"
  then have parts: "a = of_id (op_attendance_id oper)" "e = PyInt (op_employee oper)" "op_key oper = key"
    "op_kind oper = kind" "op_before oper = was" "op_after oper = becomes"
    by (auto simp: make_operation_def rbind_Inr_iff Let_def freeze_storable [OF assms(1)] freeze_storable [OF assms(2)]
        dest!: checked_positive_intD checked_optional_intD)
  then show "built_operation oper \<and> a = of_id (op_attendance_id oper) \<and> e = PyInt (op_employee oper) \<and>
    op_key oper = key \<and> op_kind oper = kind \<and> op_before oper = was \<and> op_after oper = becomes"
    using run assms by (simp add: built_operation_def)
qed (auto simp: built_operation_def)

definition operation_keys :: "string list" where
  "operation_keys = [''after'', ''attendance_id'', ''before'', ''employee_odoo_id'', ''key'', ''kind'']"

lemma operation_keys: "sorted_wrt (<) operation_keys" "set operation_keys = set operation_fields"
  by code_simp+

lemma fields_of: "distinct (map fst d) \<Longrightarrow> d = map (\<lambda>k. (k, field d k)) (map fst d)"
  unfolding map_map by (rule map_idI [symmetric]) (auto simp: field_def)

lemma object_iff:
  assumes "sorted_wrt (<) (map fst e)"
  shows "map fst d = map fst e \<and> (\<forall>kx \<in> set e. field d (fst kx) = snd kx) \<longleftrightarrow> d = e"
proof
  have dist: "distinct (map fst e)" using assms by (simp add: strict_sorted_iff)
  assume l: "map fst d = map fst e \<and> (\<forall>kx \<in> set e. field d (fst kx) = snd kx)"
  then have "d = map (\<lambda>k. (k, field d k)) (map fst e)" using fields_of [of d] dist by argo
  also have "\<dots> = e" unfolding map_map by (rule map_idI) (use l in auto)
  finally show "d = e" .
next
  have dist: "distinct (map fst e)" using assms by (simp add: strict_sorted_iff)
  assume "d = e"
  then show "map fst d = map fst e \<and> (\<forall>kx \<in> set e. field d (fst kx) = snd kx)" using dist by (auto simp: field_def)
qed

definition operation_object :: "operation \<Rightarrow> pyvalue \<Rightarrow> pyvalue \<Rightarrow> dict" where
  "operation_object oper was becomes =
     [(''after'', becomes), (''attendance_id'', of_id (op_attendance_id oper)), (''before'', was),
      (''employee_odoo_id'', PyInt (op_employee oper)), (''key'', PyStr (op_key oper)), (''kind'', PyStr (kind_name (op_kind oper)))]"

lemma object_keys: "map fst (operation_object oper was becomes) = operation_keys"
  by (simp add: operation_object_def operation_keys_def)

lemma kind_named_iff: "kind_named v = Some kind \<longleftrightarrow> v = PyStr (kind_name kind)"
  by (cases kind) (auto simp: kind_named_def)

lemma read_operation_iff:
  assumes "key_sorted d"
  shows "read_operation (PyMap d) = Inr oper \<longleftrightarrow> map fst d = operation_keys \<and>
    (\<exists>was becomes. decode_image ''operation before'' (field d ''before'') = Inr was \<and>
       decode_image ''operation after'' (field d ''after'') = Inr becomes \<and>
       field d ''kind'' = PyStr (kind_name (op_kind oper)) \<and> field d ''key'' = PyStr (op_key oper) \<and>
       make_operation (op_key oper) (op_kind oper) (field d ''attendance_id'') (field d ''employee_odoo_id'') was becomes = Inr oper)"
proof -
  have keys: "exact_keys d operation_fields c = Inr () \<longleftrightarrow> map fst d = operation_keys" for c
    by (rule exact_keys_iff [OF assms]) (simp_all add: operation_keys)
  have parts: "op_key oper = key \<and> op_kind oper = kind" if "make_operation key kind a e was becomes = Inr oper" for key kind a e was becomes
    using that by (auto simp: make_operation_def rbind_Inr_iff Let_def)
  have "read_operation (PyMap d) = Inr oper \<longleftrightarrow> map fst d = operation_keys \<and>
      (\<exists>kind key was becomes. kind_named (field d ''kind'') = Some kind \<and> field d ''key'' = PyStr key \<and>
         decode_image ''operation before'' (field d ''before'') = Inr was \<and>
         decode_image ''operation after'' (field d ''after'') = Inr becomes \<and>
         make_operation key kind (field d ''attendance_id'') (field d ''employee_odoo_id'') was becomes = Inr oper)"
  proof (cases "kind_named (field d ''kind'')")
    case (Some kind)
    show ?thesis
    proof (cases "field d ''key''")
      case (PyStr key)
      show ?thesis unfolding read_operation_def pyvalue.case rbind_check keys Some PyStr decode_image_def
        by (simp add: rbind_Inr_iff) blast
    qed (simp_all add: read_operation_def rbind_check keys Some rbind_Inr_iff)
  qed (simp add: read_operation_def rbind_check)
  then show ?thesis unfolding kind_named_iff using parts by metis
qed

lemma operation_json_iff:
  "operation_json oper = Inr j \<longleftrightarrow>
     (\<exists>was becomes. encode_optional (op_before oper) = Inr was \<and> encode_optional (op_after oper) = Inr becomes \<and>
        j = PyMap (operation_object oper was becomes))"
  by (auto simp: operation_json_def operation_object_def rbind_Inr_iff)

lemma is_operation_object:
  "d = operation_object oper was becomes \<longleftrightarrow>
     map fst d = operation_keys \<and> field d ''after'' = becomes \<and> field d ''attendance_id'' = of_id (op_attendance_id oper) \<and>
     field d ''before'' = was \<and> field d ''employee_odoo_id'' = PyInt (op_employee oper) \<and>
     field d ''key'' = PyStr (op_key oper) \<and> field d ''kind'' = PyStr (kind_name (op_kind oper))"
  using object_iff [of "operation_object oper was becomes" d] operation_keys(1) unfolding object_keys
  by (auto simp: operation_object_def)

lemma json_field: "json_ok (PyMap d) \<Longrightarrow> json_ok (field d k)"
  by (auto simp: field_def split: option.splits dest!: map_of_SomeD)

lemma read_written_operation:
  assumes "json_ok (PyMap d)"
  shows "read_operation (PyMap d) = Inr oper \<longleftrightarrow> built_operation oper \<and> operation_json oper = Inr (PyMap d)"
proof -
  have d: "key_sorted d" using assms by simp
  have image: "decode_image what (field d k) = Inr e \<longleftrightarrow> storable_option e \<and> encode_optional e = Inr (field d k)" for what k e
    by (rule json_codec.accepts [OF image_codec json_field [OF assms]])
  have "read_operation (PyMap d) = Inr oper \<longleftrightarrow> map fst d = operation_keys \<and>
      (\<exists>was becomes. (storable_option was \<and> encode_optional was = Inr (field d ''before'')) \<and>
         (storable_option becomes \<and> encode_optional becomes = Inr (field d ''after'')) \<and>
         field d ''kind'' = PyStr (kind_name (op_kind oper)) \<and> field d ''key'' = PyStr (op_key oper) \<and>
         (built_operation oper \<and> field d ''attendance_id'' = of_id (op_attendance_id oper) \<and>
            field d ''employee_odoo_id'' = PyInt (op_employee oper) \<and> op_before oper = was \<and> op_after oper = becomes))"
    unfolding read_operation_iff [OF d] image
  proof (intro conj_cong refl ex_cong1)
    fix was becomes
    assume "storable_option was \<and> encode_optional was = Inr (field d ''before'')" "storable_option becomes \<and> encode_optional becomes = Inr (field d ''after'')"
    then show "make_operation (op_key oper) (op_kind oper) (field d ''attendance_id'') (field d ''employee_odoo_id'') was becomes = Inr oper \<longleftrightarrow>
        built_operation oper \<and> field d ''attendance_id'' = of_id (op_attendance_id oper) \<and>
        field d ''employee_odoo_id'' = PyInt (op_employee oper) \<and> op_before oper = was \<and> op_after oper = becomes"
      by (simp add: make_operation_iff)
  qed
  also have "\<dots> \<longleftrightarrow> built_operation oper \<and> operation_json oper = Inr (PyMap d)"
    unfolding operation_json_iff pyvalue.inject is_operation_object by (auto simp: built_operation_def)
  finally show ?thesis .
qed

lemma operation_codec: "json_codec operation_json read_operation built_operation"
proof
  fix j oper assume j: "json_ok j"
  show "read_operation j = Inr oper \<longleftrightarrow> built_operation oper \<and> operation_json oper = Inr j"
  proof (cases "\<exists>d. j = PyMap d")
    case True
    then show ?thesis using read_written_operation j by auto
  next
    case False
    then have "read_operation j \<noteq> Inr oper" by (cases j) (auto simp: read_operation_def)
    then show ?thesis using False by (auto simp: operation_json_iff)
  qed
next
  fix oper assume "built_operation oper"
  then obtain was becomes where "encode_optional (op_before oper) = Inr was" "encode_optional (op_after oper) = Inr becomes" "json_ok was" "json_ok becomes"
    using json_codec.encodes [OF image_codec] unfolding built_operation_def by meson
  moreover from this have "json_ok (PyMap (operation_object oper was becomes))"
    using operation_keys(1) object_keys [of oper was becomes] by (auto simp: key_sorted_def operation_object_def of_id_def split: option.splits)
  ultimately show "\<exists>j. operation_json oper = Inr j \<and> json_ok j" unfolding operation_json_iff by blast
qed

section \<open>Plans\<close>

text \<open>A plan as the constructors of \<open>CorrectionPlan\<close> and its parts leave it.\<close>

definition plan_object :: "(pyvalue \<Rightarrow> string) \<Rightarrow> plan \<Rightarrow> bool" where
  "plan_object digest pl =
     (validate_plan digest pl = Inr () \<and> storable_dict (pl_request pl) \<and> list_all storable_dict (pl_sources pl) \<and>
      list_all version_ok (pl_versions pl) \<and> list_all built_operation (pl_operations pl) \<and> list_all storable_dict (pl_expected pl))"

definition list_json :: "('a \<Rightarrow> pyvalue result) \<Rightarrow> 'a list \<Rightarrow> pyvalue result" where
  "list_json enc xs = rbind (rmap enc xs) (\<lambda>js. Inr (PyList js))"

definition payload_object :: "pyvalue \<Rightarrow> pyvalue \<Rightarrow> pyvalue \<Rightarrow> pyvalue \<Rightarrow> pyvalue \<Rightarrow> dict" where
  "payload_object expected opers rq sources versions =
     [(''expected_intervals'', expected), (''operations'', opers), (''request'', rq),
      (''schema_version'', PyInt schema_version), (''source_intervals'', sources), (''source_versions'', versions)]"

definition plan_document ::
    "(pyvalue \<Rightarrow> string) \<Rightarrow> pyvalue \<Rightarrow> pyvalue \<Rightarrow> pyvalue \<Rightarrow> pyvalue \<Rightarrow> pyvalue \<Rightarrow> dict" where
  "plan_document seal expected opers rq sources versions =
     [(''expected_intervals'', expected),
      (''integrity'', PyStr (plan_integrity seal (payload_object expected opers rq sources versions))),
      (''operations'', opers), (''request'', rq), (''schema_version'', PyInt schema_version),
      (''source_intervals'', sources), (''source_versions'', versions)]"

definition plan_keys :: "string list" where
  "plan_keys = [''expected_intervals'', ''integrity'', ''operations'', ''request'', ''schema_version'', ''source_intervals'', ''source_versions'']"

lemma plan_keys: "sorted_wrt (<) plan_keys" "set plan_keys = set (payload_fields @ [''integrity''])"
  by code_simp+

lemma integrity_place: "put ''integrity'' v ((''expected_intervals'', e) # (''operations'', r) # d) = (''expected_intervals'', e) # (''integrity'', v) # (''operations'', r) # d"
proof -
  have "\<not> ''integrity'' < ''expected_intervals''" "''integrity'' \<noteq> ''expected_intervals''" "''integrity'' < ''operations''" by code_simp+
  then show ?thesis by simp
qed

lemma versions_json: "rmap (\<lambda>v. Inr (version_json v)) vs = Inr (map version_json vs)"
  by (induction vs) simp_all

lemma plan_to_json_iff:
  "plan_to_json digest seal pl = Inr j \<longleftrightarrow> validate_plan digest pl = Inr () \<and>
     (\<exists>expected opers rq sources versions. list_json encode_dict (pl_expected pl) = Inr expected \<and>
        list_json operation_json (pl_operations pl) = Inr opers \<and> encode_dict (pl_request pl) = Inr rq \<and>
        list_json encode_dict (pl_sources pl) = Inr sources \<and>
        list_json (\<lambda>v. Inr (version_json v)) (pl_versions pl) = Inr versions \<and>
        j = PyMap (plan_document seal expected opers rq sources versions))"
  unfolding plan_to_json_def rbind_check plan_json_payload_def list_json_def versions_json
  by (auto simp: rbind_Inr_iff integrity_place plan_document_def payload_object_def)

text \<open>The envelope holds exactly the seal of its payload.\<close>

lemma seal_accepted: "hex_digest seal \<Longrightarrow> seal_ok (plan_integrity seal payload)"
  by (simp add: seal_ok_def plan_integrity_def hex_digest_def)

definition payload_of :: "dict \<Rightarrow> dict" where
  "payload_of d = payload_object (field d ''expected_intervals'') (field d ''operations'') (field d ''request'')
     (field d ''source_intervals'') (field d ''source_versions'')"

lemma open_envelope_iff:
  assumes "key_sorted d" and "hex_digest seal"
  shows "open_envelope seal d = Inr () \<longleftrightarrow> map fst d = plan_keys \<and> field d ''schema_version'' = PyInt schema_version \<and>
    field d ''integrity'' = PyStr (plan_integrity seal (payload_of d))"
proof -
  have keys: "exact_keys d (payload_fields @ [''integrity'']) c = Inr () \<longleftrightarrow> map fst d = plan_keys" for c
    by (rule exact_keys_iff [OF assms(1) plan_keys(2,1)])
  have payload: "field d ''schema_version'' = PyInt schema_version \<Longrightarrow> map (\<lambda>k. (k, field d k)) payload_fields = payload_of d"
    by (simp add: payload_fields_def payload_of_def payload_object_def)
  show ?thesis
  proof (cases "field d ''integrity''")
    case (PyStr s)
    then show ?thesis unfolding open_envelope_def rbind_check keys require_simps PyStr pyvalue.case
      using payload seal_accepted [OF assms(2)] by auto
  qed (simp_all add: open_envelope_def rbind_check keys)
qed

lemma make_plan_storable:
  assumes "list_all storable_dict expected" "storable_dict rq" "list_all storable_dict sources"
  shows "make_plan digest versions opers expected rq sources = Inr pl \<longleftrightarrow>
    validate_plan digest pl = Inr () \<and> versions = pl_versions pl \<and> opers = pl_operations pl \<and>
    expected = pl_expected pl \<and> rq = pl_request pl \<and> sources = pl_sources pl"
proof -
  have same: "rmap freeze_mapping ds = Inr ds" if "list_all storable_dict ds" for ds
    using rmap_same [of ds freeze_mapping "\<lambda>d. d"] freeze_frozen_mapping storable_dict_frozen that by (simp add: list_all_iff)
  have "freeze_mapping rq = Inr rq" by (rule freeze_frozen_mapping [OF storable_dict_frozen [OF assms(2)]])
  then show ?thesis unfolding make_plan_def same [OF assms(1)] same [OF assms(3)]
    by (cases pl) (auto simp: rbind_check Let_def)
qed

text \<open>The codecs of the parts, at the fields of a plan's document.\<close>

definition read_list :: "(pyvalue \<Rightarrow> 'a result) \<Rightarrow> string \<Rightarrow> pyvalue \<Rightarrow> 'a list result" where
  "read_list dec what j = rbind (require_list j what) (rmap dec)"

lemma list_codecs:
  "json_codec enc dec valid \<Longrightarrow> json_codec (list_json enc) (read_list dec what) (list_all valid)"
  using json_codec.list_codec [of enc dec valid what] unfolding list_json_def read_list_def .

lemma is_plan_document:
  "d = plan_document seal expected opers rq sources versions \<longleftrightarrow>
     (map fst d = plan_keys \<and> field d ''schema_version'' = PyInt schema_version \<and>
      field d ''integrity'' = PyStr (plan_integrity seal (payload_of d))) \<and>
     field d ''expected_intervals'' = expected \<and> field d ''operations'' = opers \<and> field d ''request'' = rq \<and>
     field d ''source_intervals'' = sources \<and> field d ''source_versions'' = versions"
  (is "_ \<longleftrightarrow> ?r")
proof -
  have keys: "map fst (plan_document seal expected opers rq sources versions) = plan_keys"
    by (simp add: plan_document_def plan_keys_def)
  have "d = plan_document seal expected opers rq sources versions \<longleftrightarrow> map fst d = plan_keys \<and>
      (\<forall>kx \<in> set (plan_document seal expected opers rq sources versions). field d (fst kx) = snd kx)"
    using object_iff [of "plan_document seal expected opers rq sources versions" d] plan_keys(1) unfolding keys by blast
  also have "\<dots> \<longleftrightarrow> ?r" by (auto simp: plan_document_def payload_of_def)
  finally show ?thesis .
qed

lemma read_written_plan:
  assumes "json_ok (PyMap d)" and "hex_digest seal"
  shows "plan_from_json digest seal (PyMap d) = Inr pl \<longleftrightarrow> plan_object digest pl \<and> plan_to_json digest seal pl = Inr (PyMap d)"
proof -
  have d: "key_sorted d" using assms(1) by simp
  note at = json_field [OF assms(1)]
  note rq = json_codec.accepts [OF mapping_codec at]
    and rows = json_codec.accepts [OF list_codecs [OF mapping_codec] at]
    and versions = json_codec.accepts [OF list_codecs [OF version_codec] at]
    and opers = json_codec.accepts [OF list_codecs [OF operation_codec] at]
  have "plan_from_json digest seal (PyMap d) = Inr pl \<longleftrightarrow> open_envelope seal d = Inr () \<and>
      (\<exists>q ss vs os es. decode_mapping ''request'' (field d ''request'') = Inr q \<and>
        read_list (decode_mapping ''source interval'') ''source_intervals'' (field d ''source_intervals'') = Inr ss \<and>
        read_list read_version ''source_versions'' (field d ''source_versions'') = Inr vs \<and>
        read_list read_operation ''operations'' (field d ''operations'') = Inr os \<and>
        read_list (decode_mapping ''expected interval'') ''expected_intervals'' (field d ''expected_intervals'') = Inr es \<and>
        make_plan digest vs os es q ss = Inr pl)"
    unfolding plan_from_json_def pyvalue.case rbind_check rbind_Inr_iff [of "decode_mapping what v" for what v]
      read_list_def [symmetric] rbind_Inr_iff [of "read_list dec what v" for dec what v] by blast
  also have "\<dots> \<longleftrightarrow> open_envelope seal d = Inr () \<and>
      (\<exists>q ss vs os es. (storable_dict q \<and> encode_dict q = Inr (field d ''request'')) \<and>
        (list_all storable_dict ss \<and> list_json encode_dict ss = Inr (field d ''source_intervals'')) \<and>
        (list_all version_ok vs \<and> list_json (\<lambda>v. Inr (version_json v)) vs = Inr (field d ''source_versions'')) \<and>
        (list_all built_operation os \<and> list_json operation_json os = Inr (field d ''operations'')) \<and>
        (list_all storable_dict es \<and> list_json encode_dict es = Inr (field d ''expected_intervals'')) \<and>
        validate_plan digest pl = Inr () \<and> vs = pl_versions pl \<and> os = pl_operations pl \<and>
        es = pl_expected pl \<and> q = pl_request pl \<and> ss = pl_sources pl)"
    unfolding rq rows versions opers
    by (intro conj_cong refl ex_cong1) (simp add: make_plan_storable)
  also have "\<dots> \<longleftrightarrow> plan_object digest pl \<and> plan_to_json digest seal pl = Inr (PyMap d)"
    unfolding plan_to_json_iff pyvalue.inject is_plan_document open_envelope_iff [OF d assms(2)] plan_object_def by blast
  finally show ?thesis .
qed

lemma plan_codec:
  assumes "hex_digest seal"
  shows "json_codec (plan_to_json digest seal) (plan_from_json digest seal) (plan_object digest)"
proof
  fix j pl assume j: "json_ok j"
  show "plan_from_json digest seal j = Inr pl \<longleftrightarrow> plan_object digest pl \<and> plan_to_json digest seal pl = Inr j"
  proof (cases "\<exists>d. j = PyMap d")
    case True
    then show ?thesis using read_written_plan [OF _ assms] j by auto
  next
    case False
    then have "plan_from_json digest seal j \<noteq> Inr pl" by (cases j) (auto simp: plan_from_json_def)
    then show ?thesis using False by (auto simp: plan_to_json_iff)
  qed
next
  fix pl assume pl: "plan_object digest pl"
  then obtain e r q s v where
    "list_json encode_dict (pl_expected pl) = Inr e" "json_ok e" "list_json operation_json (pl_operations pl) = Inr r" "json_ok r"
    "encode_dict (pl_request pl) = Inr q" "json_ok q" "list_json encode_dict (pl_sources pl) = Inr s" "json_ok s"
    "list_json (\<lambda>v. Inr (version_json v)) (pl_versions pl) = Inr v" "json_ok v"
    using json_codec.encodes [OF mapping_codec] json_codec.encodes [OF list_codecs [OF mapping_codec]]
      json_codec.encodes [OF list_codecs [OF version_codec]] json_codec.encodes [OF list_codecs [OF operation_codec]]
    unfolding plan_object_def by meson
  moreover from this have "json_ok (PyMap (plan_document seal e r q s v))"
    using plan_keys(1) by (auto simp: key_sorted_def plan_document_def plan_keys_def)
  moreover have "validate_plan digest pl = Inr ()" using pl by (simp add: plan_object_def)
  ultimately show "\<exists>j. plan_to_json digest seal pl = Inr j \<and> json_ok j" unfolding plan_to_json_iff by blast
qed

section \<open>A planned correction can be stored\<close>

lemma planned_built:
  assumes pl: "planning e rq sources pieces" and hex: "hex_digest digest" and po: "po \<in> set (operations_for_pieces sources pieces e)"
    and "storable_option (po_before po)" "storable_option (po_after po)"
  shows "built_operation (operation_of (key_of digest (request_values e rq) po) po)"
proof -
  have "key_token (key_of digest (request_values e rq) po) \<noteq> None" using keyed_planned(2) [OF pl hex po] by simp
  from make_planned [OF pl po this] show ?thesis using assms(4,5) by (simp add: built_operation_def)
qed

definition demo_plan :: plan where
  "demo_plan = planned_correction demo_digest 5 demo_request demo_sources demo_pieces"

lemma demo_parts:
  "list_all (\<lambda>po. storable_option (po_before po) \<and> storable_option (po_after po)) (operations_for_pieces demo_sources demo_pieces 5)"
  "list_all storable_dict (expected_intervals demo_pieces 5)" "storable_dict (request_values 5 demo_request)"
  "list_all storable_dict (map cr_values demo_sources)" "list_all version_ok (source_versions demo_sources)"
  by code_simp+

lemma demo_object: "plan_object demo_digest demo_plan"
proof -
  have "list_all built_operation (planned_writes demo_digest (request_values 5 demo_request) 5 demo_sources demo_pieces)"
    using demo_parts(1) planned_built [OF demo_planning demo_hex] by (auto simp: planned_writes_def list_all_iff)
  then show ?thesis unfolding plan_object_def demo_plan_def
    using validate_planned [OF demo_planning demo_times demo_hex demo_free] demo_parts
    by (simp add: planned_correction_def list_all_iff)
qed

section \<open>The properties\<close>

text \<open>
  C36. Lossless JSON: every plan object is written as a JSON document, and reading the document gives
  the same plan, whatever the two digests are, as long as they have 64 hexadecimal digits.
\<close>

theorem plan_json_roundtrip:
  assumes "plan_object digest pl" and "hex_digest seal"
  shows "\<exists>j. plan_to_json digest seal pl = Inr j \<and> plan_from_json digest seal j = Inr pl"
  using json_codec.roundtrip [OF plan_codec [OF assms(2)] assms(1)] by blast

theorem plan_json_roundtrip_witness:
  "\<exists>j. plan_to_json demo_digest demo_digest demo_plan = Inr j \<and> plan_from_json demo_digest demo_digest j = Inr demo_plan"
  by (rule plan_json_roundtrip [OF demo_object demo_hex])

text \<open>
  C37. Only canonical documents are read: a JSON value that \<open>plan_from_json\<close> accepts is, key for key,
  what \<open>plan_to_json\<close> writes for the plan it returns, and that plan has passed the validation, every
  operation in it the constructor of operations.
\<close>

theorem only_canonical_json_is_read:
  assumes "json_ok j" and "hex_digest seal" and "plan_from_json digest seal j = Inr pl"
  shows "plan_to_json digest seal pl = Inr j \<and> validate_plan digest pl = Inr () \<and> plan_object digest pl"
  using json_codec.accepts [OF plan_codec [OF assms(2)] assms(1)] assms(3) by (auto simp: plan_object_def)

theorem only_canonical_json_is_read_witness:
  "\<exists>j. plan_from_json demo_digest demo_digest j = Inr demo_plan \<and> plan_to_json demo_digest demo_digest demo_plan = Inr j"
proof -
  obtain j where j: "json_ok j" "plan_from_json demo_digest demo_digest j = Inr demo_plan"
    using json_codec.roundtrip [OF plan_codec [OF demo_hex] demo_object] by blast
  from only_canonical_json_is_read [OF j(1) demo_hex j(2)] j(2) show ?thesis by blast
qed

end
