(* ===== verification/Rollout_Policy.thy ===== *)
theory Rollout_Policy
  imports Saturday_Recruiting Attendance_Rows Utc_Text
begin

text \<open>
  The rollout of attendance locations (\<open>attendance_location_policy.py\<close>): the typed setting with its
  shape, the checks of a save, when live matching is active, and how a day is matched.

  The setting is the JSON value of its row; the text \<open>isoformat\<close> writes for a datetime is represented
  by the \<open>PyDatetime\<close> it denotes. Site-local days and times (\<open>shift_config.SITE_TZ\<close>) and the plant's
  configured shifts are parameters. All readings of the clock within one call are one instant.
\<close>

section \<open>The setting\<close>

datatype moment = Aware datetime | Naive datetime

datatype rollout_mode = Off | Shadow | Live | Unknown_Mode string

record live_gate =
  lg_checked :: moment
  lg_digest :: string
  lg_activated :: "moment option"

record rollout_config =
  rc_mode :: rollout_mode
  rc_cutover :: "moment option"
  rc_gate :: "live_gate option"

definition live_gate_max_age :: timedelta where
  "live_gate_max_age = minutes 5"

definition is_aware :: "moment \<Rightarrow> bool" where
  "is_aware m = (case m of Aware _ \<Rightarrow> True | Naive _ \<Rightarrow> False)"

text \<open>\<open>astimezone(UTC)\<close>; a parsed setting holds no naive datetime.\<close>

definition instant :: "moment \<Rightarrow> datetime" where
  "instant m = (case m of Aware t \<Rightarrow> t | Naive t \<Rightarrow> t)"

definition earlier :: "moment \<Rightarrow> moment \<Rightarrow> bool result" where
  "earlier a b =
     (if is_aware a = is_aware b then Inr (instant a < instant b)
      else Inl (TypeError ''cannot compare naive and aware datetimes''))"

definition bad_shape :: "unit result" where
  "bad_shape = Inl (ValueError ''invalid rollout shape'')"

definition validate_config_shape :: "rollout_config \<Rightarrow> unit result" where
  "validate_config_shape c =
     (case rc_mode c of
        Off \<Rightarrow> if rc_cutover c \<noteq> None \<or> rc_gate c \<noteq> None then bad_shape else Inr ()
      | Shadow \<Rightarrow>
          (case (rc_cutover c, rc_gate c) of
             (None, None) \<Rightarrow> Inr ()
           | (Some cutover, Some gate) \<Rightarrow>
               (case lg_activated gate of
                  None \<Rightarrow> bad_shape
                | Some activated \<Rightarrow>
                    rbind (earlier activated cutover) (\<lambda>before. if before then Inr () else bad_shape))
           | _ \<Rightarrow> bad_shape)
      | Live \<Rightarrow>
          (case (rc_cutover c, rc_gate c) of
             (Some cutover, Some gate) \<Rightarrow>
               (case lg_activated gate of
                  None \<Rightarrow> Inr ()
                | Some activated \<Rightarrow>
                    rbind (earlier activated cutover) (\<lambda>before. if before then bad_shape else Inr ()))
           | _ \<Rightarrow> bad_shape)
      | Unknown_Mode _ \<Rightarrow> bad_shape)"

definition off_config :: rollout_config where
  "off_config = \<lparr>rc_mode = Off, rc_cutover = None, rc_gate = None\<rparr>"

definition parse_moment :: "pyvalue \<Rightarrow> moment result" where
  "parse_moment v =
     (case v of
        PyDatetime t (Some _) \<Rightarrow> Inr (Aware t)
      | PyDatetime t None \<Rightarrow> Inl (ValueError ''datetime must include a timezone'')
      | _ \<Rightarrow> Inl (ValueError ''invalid datetime''))"

definition parse_optional_moment :: "pyvalue \<Rightarrow> moment option result" where
  "parse_optional_moment v =
     (if v = PyNone then Inr None else rbind (parse_moment v) (\<lambda>m. Inr (Some m)))"

definition parse_mode :: "pyvalue \<Rightarrow> rollout_mode result" where
  "parse_mode v =
     (if v = PyStr ''off'' then Inr Off else if v = PyStr ''shadow'' then Inr Shadow
      else if v = PyStr ''live'' then Inr Live else Inl (ValueError ''invalid rollout mode''))"

definition parse_gate :: "pyvalue \<Rightarrow> live_gate option result" where
  "parse_gate v =
     (case v of
        PyNone \<Rightarrow> Inr None
      | PyMap g \<Rightarrow>
          (case field g ''report_digest'' of
             PyStr digest \<Rightarrow>
               if digest = [] then Inl (ValueError ''invalid live gate digest'')
               else rbind (parse_moment (field g ''checked_at'')) (\<lambda>checked.
                    rbind (parse_optional_moment (field g ''activated_at'')) (\<lambda>activated.
                    Inr (Some \<lparr>lg_checked = checked, lg_digest = digest, lg_activated = activated\<rparr>)))
           | _ \<Rightarrow> Inl (ValueError ''invalid live gate digest''))
      | _ \<Rightarrow> Inl (ValueError ''invalid live gate''))"

definition parse_config :: "pyvalue \<Rightarrow> rollout_config result" where
  "parse_config raw =
     (case raw of
        PyMap d \<Rightarrow>
          rbind (parse_mode (field d ''mode'')) (\<lambda>mode.
          rbind (parse_optional_moment (field d ''cutover_at'')) (\<lambda>cutover.
          rbind (parse_gate (field d ''live_gate'')) (\<lambda>gate.
            let c = \<lparr>rc_mode = mode, rc_cutover = cutover, rc_gate = gate\<rparr>
            in rbind (validate_config_shape c) (\<lambda>_. Inr c))))
      | _ \<Rightarrow> Inl (ValueError ''invalid rollout config''))"

text \<open>\<open>_rollout_config_snapshot\<close>: the setting, and whether what was stored was valid.\<close>

definition config_snapshot :: "pyvalue option \<Rightarrow> rollout_config \<times> bool" where
  "config_snapshot stored =
     (case stored of
        None \<Rightarrow> (off_config, True)
      | Some raw \<Rightarrow>
          if raw = PyNone then (off_config, True)
          else (case parse_config raw of Inl _ \<Rightarrow> (off_config, False) | Inr c \<Rightarrow> (c, True)))"

definition get_rollout_config :: "pyvalue option \<Rightarrow> rollout_config" where
  "get_rollout_config stored = fst (config_snapshot stored)"

section \<open>Saving\<close>

text \<open>\<open>SITE_TZ\<close> and the configured shifts; the test for a workday can fail.\<close>

record site =
  si_day :: "datetime \<Rightarrow> date"
  si_time :: "datetime \<Rightarrow> time_of_day"

record shifts =
  sh_start :: "date \<Rightarrow> time_of_day"
  sh_workday :: "date \<Rightarrow> bool result"

definition failed :: "string \<Rightarrow> 'a result" where
  "failed reason = Inl (ValueError reason)"

definition validate_cutover :: "site \<Rightarrow> shifts \<Rightarrow> moment option \<Rightarrow> unit result" where
  "validate_cutover site shifts cutover =
     (case cutover of
        Some (Aware t) \<Rightarrow>
          if si_time site t \<noteq> sh_start shifts (si_day site t) then failed ''cutover_boundary_required'' else Inr ()
      | _ \<Rightarrow> failed ''cutover_timezone_required'')"

definition validate_configured_workday :: "site \<Rightarrow> shifts \<Rightarrow> moment \<Rightarrow> unit result" where
  "validate_configured_workday site shifts cutover =
     (case sh_workday shifts (si_day site (instant cutover)) of
        Inl _ \<Rightarrow> failed ''cutover_workday_unavailable''
      | Inr workday \<Rightarrow> if workday then Inr () else failed ''cutover_workday_required'')"

definition validate_live_gate :: "datetime \<Rightarrow> live_gate option \<Rightarrow> unit result" where
  "validate_live_gate clock gate =
     (case gate of
        None \<Rightarrow> failed ''live_readiness_required''
      | Some g \<Rightarrow>
          (let age = clock - instant (lg_checked g)
           in if \<not> is_aware (lg_checked g) \<or> lg_digest g = []
                 \<or> (case lg_activated g of None \<Rightarrow> False | Some a \<Rightarrow> \<not> is_aware a)
                 \<or> age < 0 \<or> age > live_gate_max_age
              then failed ''live_readiness_required'' else Inr ()))"

definition gate_activated :: "rollout_config \<Rightarrow> moment option" where
  "gate_activated c = (case rc_gate c of None \<Rightarrow> None | Some g \<Rightarrow> lg_activated g)"

text \<open>\<open>_live_is_active\<close>\<close>

definition live_active :: "rollout_config \<Rightarrow> datetime \<Rightarrow> bool" where
  "live_active c now =
     (case gate_activated c of
        None \<Rightarrow> False
      | Some a \<Rightarrow> instant a \<le> now \<and> (rc_mode c = Live \<or> rc_mode c = Shadow \<and> rc_cutover c \<noteq> None))"

text \<open>The branches of \<open>set_rollout_config\<close> for a live save, and for a rollback out of live.\<close>

definition check_live_save :: "site \<Rightarrow> shifts \<Rightarrow> datetime \<Rightarrow> rollout_config \<Rightarrow> unit result" where
  "check_live_save site shifts clock c =
     rbind (validate_cutover site shifts (rc_cutover c)) (\<lambda>_.
     case rc_cutover c of
       None \<Rightarrow> Inl AssertionError
     | Some cutover \<Rightarrow>
         rbind (validate_configured_workday site shifts cutover) (\<lambda>_.
         rbind (validate_live_gate clock (rc_gate c)) (\<lambda>_.
         if gate_activated c = None \<and> instant cutover \<le> clock then failed ''cutover_future_boundary_required'' else Inr ())))"

definition check_rollback_save :: "site \<Rightarrow> shifts \<Rightarrow> datetime \<Rightarrow> rollout_config \<Rightarrow> moment \<Rightarrow> unit result" where
  "check_rollback_save site shifts clock c activated =
     (if \<not> is_aware activated then failed ''live_readiness_required''
      else rbind (validate_cutover site shifts (rc_cutover c)) (\<lambda>_.
        case rc_cutover c of
          None \<Rightarrow> Inl AssertionError
        | Some cutover \<Rightarrow>
            rbind (validate_configured_workday site shifts cutover) (\<lambda>_.
            if instant cutover \<le> clock then failed ''rollback_future_boundary_required'' else Inr ())))"

definition moment_json :: "moment \<Rightarrow> pyvalue" where
  "moment_json m = (case m of Aware t \<Rightarrow> PyDatetime t (Some 0) | Naive t \<Rightarrow> PyDatetime t None)"

definition optional_json :: "moment option \<Rightarrow> pyvalue" where
  "optional_json m = (case m of None \<Rightarrow> PyNone | Some a \<Rightarrow> moment_json a)"

definition mode_json :: "rollout_mode \<Rightarrow> pyvalue" where
  "mode_json m = PyStr (case m of Off \<Rightarrow> ''off'' | Shadow \<Rightarrow> ''shadow'' | Live \<Rightarrow> ''live'' | Unknown_Mode s \<Rightarrow> s)"

definition gate_json :: "live_gate option \<Rightarrow> pyvalue" where
  "gate_json gate =
     (case gate of
        None \<Rightarrow> PyNone
      | Some g \<Rightarrow> PyMap [(''activated_at'', optional_json (lg_activated g)), (''checked_at'', moment_json (lg_checked g)),
                        (''report_digest'', PyStr (lg_digest g))])"

definition config_json :: "rollout_config \<Rightarrow> pyvalue" where
  "config_json c =
     PyMap [(''cutover_at'', optional_json (rc_cutover c)), (''live_gate'', gate_json (rc_gate c)), (''mode'', mode_json (rc_mode c))]"

text \<open>\<open>set_rollout_config\<close>: the value it stores in place of \<open>stored\<close>.\<close>

definition set_rollout_config :: "site \<Rightarrow> shifts \<Rightarrow> datetime \<Rightarrow> pyvalue option \<Rightarrow> rollout_config \<Rightarrow> pyvalue result" where
  "set_rollout_config site shifts clock stored c =
     (if rc_mode c \<notin> {Off, Shadow, Live} then failed ''invalid_rollout_mode''
      else if rc_mode c = Off \<and> live_active (get_rollout_config stored) clock then failed ''rollback_boundary_required''
      else
        rbind (if rc_cutover c = None then Inr () else validate_cutover site shifts (rc_cutover c)) (\<lambda>_.
        rbind (if rc_mode c = Live then check_live_save site shifts clock c else Inr ()) (\<lambda>_.
        rbind (case (rc_mode c, gate_activated c) of
                 (Shadow, Some activated) \<Rightarrow> check_rollback_save site shifts clock c activated
               | _ \<Rightarrow> Inr ()) (\<lambda>_.
        rbind (validate_config_shape c) (\<lambda>_.
        Inr (config_json c))))))"

definition restore_active_after_rejected_rollback :: "datetime \<Rightarrow> rollout_config \<Rightarrow> pyvalue result" where
  "restore_active_after_rejected_rollback clock c =
     (case (rc_mode c, rc_cutover c) of
        (Live, Some (Aware cutover)) \<Rightarrow>
          rbind (validate_live_gate clock (rc_gate c)) (\<lambda>_.
          case gate_activated c of
            Some (Aware activated) \<Rightarrow>
              if cutover > activated then failed ''live_readiness_required'' else Inr (config_json c)
          | _ \<Rightarrow> failed ''live_readiness_required'')
      | _ \<Rightarrow> failed ''live_readiness_required'')"

section \<open>How a day is matched\<close>

datatype match_state = Legacy | Pending | Strict

text \<open>The order in which the state of a day advances.\<close>

fun match_rank :: "match_state \<Rightarrow> nat" where
  "match_rank Legacy = 0"
| "match_rank Pending = 1"
| "match_rank Strict = 2"

instantiation match_state :: linorder
begin

definition less_eq_match_state :: "match_state \<Rightarrow> match_state \<Rightarrow> bool" where
  "less_eq_match_state a b = (match_rank a \<le> match_rank b)"

definition less_match_state :: "match_state \<Rightarrow> match_state \<Rightarrow> bool" where
  "less_match_state a b = (match_rank a < match_rank b)"

instance
proof
  fix a b :: match_state
  assume "a \<le> b" "b \<le> a"
  then show "a = b" by (cases a; cases b) (simp_all add: less_eq_match_state_def)
qed (auto simp: less_eq_match_state_def less_match_state_def)

end

lemma match_state_order [simp]:
  "Legacy \<le> m" "m \<le> Strict" "m \<le> Legacy \<longleftrightarrow> m = Legacy" "Strict \<le> m \<longleftrightarrow> m = Strict"
  by (cases m; simp add: less_eq_match_state_def)+

definition match_state_from_config :: "site \<Rightarrow> date \<Rightarrow> rollout_config \<Rightarrow> datetime \<Rightarrow> match_state" where
  "match_state_from_config site day c now =
     (case rc_cutover c of
        None \<Rightarrow> Legacy
      | Some cutover_at \<Rightarrow>
          (let cutover = instant cutover_at; cutover_day = si_day site cutover
           in case rc_mode c of
                Shadow \<Rightarrow>
                  (case gate_activated c of
                     None \<Rightarrow> Legacy
                   | Some activated \<Rightarrow>
                       if live_active c now \<and> si_day site (instant activated) \<le> day \<and> day < cutover_day then Strict
                       else if now \<ge> cutover \<and> day \<ge> cutover_day then Pending else Legacy)
              | Live \<Rightarrow>
                  if day < cutover_day \<or> now < cutover then Legacy
                  else if live_active c now then Strict else Pending
              | _ \<Rightarrow> Legacy))"

definition match_state_for_day :: "site \<Rightarrow> date list \<Rightarrow> pyvalue option \<Rightarrow> date \<Rightarrow> datetime \<Rightarrow> match_state" where
  "match_state_for_day site strict_days stored day now =
     (if day \<in> set strict_days then Strict
      else case config_snapshot stored of (c, valid) \<Rightarrow>
        if \<not> valid then Pending else match_state_from_config site day c now)"

text \<open>The same decision over the rows a transaction has locked.\<close>

definition match_state_for_day_cur :: "site \<Rightarrow> date list \<Rightarrow> pyvalue option \<Rightarrow> date \<Rightarrow> datetime \<Rightarrow> match_state" where
  "match_state_for_day_cur site strict_days stored day now =
     (if day \<in> set strict_days then Strict
      else case stored of
        None \<Rightarrow> match_state_from_config site day off_config now
      | Some raw \<Rightarrow> (case parse_config raw of Inl _ \<Rightarrow> Pending | Inr c \<Rightarrow> match_state_from_config site day c now))"

definition day_is_strict :: "site \<Rightarrow> date list \<Rightarrow> pyvalue option \<Rightarrow> date \<Rightarrow> datetime \<Rightarrow> bool" where
  "day_is_strict site strict_days stored day now =
     (day \<in> set strict_days \<or>
      (let c = get_rollout_config stored
       in case rc_cutover c of
            None \<Rightarrow> False
          | Some cutover \<Rightarrow>
              live_active c now \<and>
              (if rc_mode c = Shadow
               then (case gate_activated c of None \<Rightarrow> False | Some a \<Rightarrow> si_day site (instant a) \<le> day)
                    \<and> day < si_day site (instant cutover)
               else day \<ge> si_day site (instant cutover))))"

section \<open>Departments\<close>

definition strip :: "string \<Rightarrow> string" where
  "strip s = rev (dropWhile is_space (rev (dropWhile is_space s)))"

text \<open>The leading number of a department's name: \<open>^\s*[0-9]+\s*\<close> is removed.\<close>

definition without_number :: "string \<Rightarrow> string" where
  "without_number s =
     (let rest = dropWhile is_space s
      in if takeWhile is_digit rest = [] then s else dropWhile is_space (dropWhile is_digit rest))"

definition clean_department_name :: "string option \<Rightarrow> string option" where
  "clean_department_name name =
     (case name of
        None \<Rightarrow> None
      | Some s \<Rightarrow> let cleaned = strip (without_number s) in if s = [] \<or> cleaned = [] then None else Some cleaned)"

definition effective_department_name :: "string option \<Rightarrow> string option \<Rightarrow> string option" where
  "effective_department_name attendance employee =
     (case clean_department_name attendance of Some n \<Rightarrow> Some n | None \<Rightarrow> clean_department_name employee)"

definition default_requires_work_center :: "string option \<Rightarrow> bool" where
  "default_requires_work_center name =
     ((case clean_department_name name of None \<Rightarrow> [] | Some n \<Rightarrow> lower n)
        \<notin> {''maintenance'', ''transportation'', ''supervisor''})"

record department =
  dp_requires :: bool
  dp_explicit :: bool

definition department_requires_work_center :: "(string \<times> department) list \<Rightarrow> string option \<Rightarrow> bool" where
  "department_requires_work_center departments name =
     (case name of
        None \<Rightarrow> True
      | Some n \<Rightarrow>
          if n = [] then True
          else (case map_of departments n of
                  Some d \<Rightarrow> dp_requires d
                | None \<Rightarrow> default_requires_work_center name))"

text \<open>\<open>set_department_requirement\<close>: an update of the row, if there is one.\<close>

definition set_department_requirement ::
    "string \<Rightarrow> bool \<Rightarrow> (string \<times> department) list \<Rightarrow> (string \<times> department) list result" where
  "set_department_requirement name required departments =
     (let n = strip name
      in if n = [] then failed ''department_required''
         else Inr (map (\<lambda>(m, d). (m, if m = n then d\<lparr>dp_requires := required, dp_explicit := True\<rparr> else d)) departments))"

end
