(* ===== verification/Rollout_Readiness.thy ===== *)
theory Rollout_Readiness
  imports Rollout_Policy Complex_Main
begin

text \<open>
  The rollout's decisions (\<open>attendance_readiness.py\<close>): the readiness report, the configured boundary of a
  day, and the three serialized changes of the rollout - scheduling live, a save that is not live, and
  the activation of a due boundary - with the strict days recorded by \<open>precompute.py\<close>.

  Each change is one transaction: it yields the new state, or an error that leaves the state as it was.
  Floats are rationals. The rows other tables give and SHA-256 are parameters.
\<close>

section \<open>The readiness report\<close>

record readiness_inputs =
  ri_mode :: rollout_mode
  ri_valid :: bool
  ri_baseline :: "datetime option"
  ri_incremental :: "datetime option"
  ri_full_sweep :: "datetime option"
  ri_sweep_deletions :: int
  ri_open_rows_not_refreshed :: int
  ri_projection :: "datetime option"
  ri_queue_requested :: "datetime option"
  ri_queue_depth :: int
  ri_open_conflicts :: int
  ri_conflict_seconds :: rat
  ri_open_unmapped :: int
  ri_unmapped_seconds :: rat
  ri_open_missing :: int
  ri_missing_seconds :: rat
  ri_unassigned_units :: rat
  ri_oldest_unassigned :: "datetime option"
  ri_shadow_changed_units :: rat
  ri_failed_corrections :: int
  ri_correction_retries :: int
  ri_verification_failures :: int
  ri_failed_repairs :: int
  ri_shadow_day :: "date option"
  ri_shadow_complete_days :: int
  ri_shadow_error :: "string option"
  ri_source_error :: "string option"
  ri_queue_invalid :: int

definition unavailable_inputs :: readiness_inputs where
  "unavailable_inputs =
     \<lparr>ri_mode = Off, ri_valid = False, ri_baseline = None, ri_incremental = None, ri_full_sweep = None,
      ri_sweep_deletions = 0, ri_open_rows_not_refreshed = 0, ri_projection = None, ri_queue_requested = None,
      ri_queue_depth = 0, ri_open_conflicts = 0, ri_conflict_seconds = 0, ri_open_unmapped = 0,
      ri_unmapped_seconds = 0, ri_open_missing = 0, ri_missing_seconds = 0, ri_unassigned_units = 0,
      ri_oldest_unassigned = None, ri_shadow_changed_units = 0, ri_failed_corrections = 0,
      ri_correction_retries = 0, ri_verification_failures = 0, ri_failed_repairs = 0, ri_shadow_day = None,
      ri_shadow_complete_days = 0, ri_shadow_error = Some ''local readiness state is unavailable'',
      ri_source_error = Some ''local readiness snapshot is unavailable'', ri_queue_invalid = 0\<rparr>"

record readiness_report =
  rr_ready :: bool
  rr_mirror_age :: "timedelta option"
  rr_sweep_age :: "timedelta option"
  rr_open_rows_not_refreshed :: int
  rr_sweep_deletions :: int
  rr_projection_lag :: "timedelta option"
  rr_queue_age :: "timedelta option"
  rr_queue_depth :: int
  rr_open_conflicts :: int
  rr_conflict_minutes :: rat
  rr_open_unmapped :: int
  rr_unmapped_minutes :: rat
  rr_open_missing :: int
  rr_missing_minutes :: rat
  rr_unassigned_units :: rat
  rr_oldest_unassigned_age :: "timedelta option"
  rr_shadow_changed_units :: rat
  rr_failed_corrections :: int
  rr_correction_retries :: int
  rr_verification_failures :: int
  rr_failed_repairs :: int
  rr_blockers :: "string list"
  rr_checked_at :: datetime

definition seconds :: "int \<Rightarrow> timedelta" where
  "seconds n = n * 1000000"

definition age_of :: "datetime \<Rightarrow> datetime option \<Rightarrow> timedelta option" where
  "age_of now value = map_option (\<lambda>t. now - t) value"

definition block_when :: "bool \<Rightarrow> string \<Rightarrow> string list" where
  "block_when condition reason = (if condition then [reason] else [])"

text \<open>The blockers of an age with a limit: missing, in the future, too old.\<close>

definition age_blockers :: "timedelta option \<Rightarrow> timedelta \<Rightarrow> string \<Rightarrow> string \<Rightarrow> string \<Rightarrow> string list" where
  "age_blockers age limit missing invalid stale =
     (case age of
        None \<Rightarrow> [missing]
      | Some a \<Rightarrow> if a < 0 then [invalid] else if a > limit then [stale] else [])"

definition queue_blockers :: "readiness_inputs \<Rightarrow> datetime \<Rightarrow> string list" where
  "queue_blockers inputs now =
     (if ri_queue_depth inputs = 0 then []
      else ''attendance_recalculation_pending'' #
        (case age_of now (ri_queue_requested inputs) of
           None \<Rightarrow> [''attendance_recalculation_stuck'']
         | Some a \<Rightarrow> if a < 0 then [''attendance_recalculation_invalid'']
                     else if a > minutes 15 then [''attendance_recalculation_stuck''] else []))"

definition blockers_of :: "readiness_inputs \<Rightarrow> datetime \<Rightarrow> string list" where
  "blockers_of inputs now =
     block_when (\<not> ri_valid inputs) ''rollout_state_unavailable''
     @ block_when (ri_mode inputs \<notin> {Shadow, Live}) ''rollout_not_in_shadow''
     @ block_when (ri_baseline inputs = None) ''attendance_baseline_incomplete''
     @ age_blockers (age_of now (ri_incremental inputs)) (seconds 90)
         ''attendance_mirror_unavailable'' ''attendance_mirror_invalid'' ''attendance_mirror_stale''
     @ age_blockers (age_of now (ri_full_sweep inputs)) (minutes 120)
         ''attendance_full_sweep_unavailable'' ''attendance_full_sweep_invalid'' ''attendance_full_sweep_stale''
     @ block_when (ri_open_rows_not_refreshed inputs \<noteq> 0) ''attendance_open_rows_not_refreshed''
     @ age_blockers (age_of now (ri_projection inputs)) (seconds 90)
         ''attendance_projection_unavailable'' ''attendance_projection_invalid'' ''attendance_projection_stale''
     @ queue_blockers inputs now
     @ block_when (ri_queue_invalid inputs \<noteq> 0) ''attendance_recalculation_invalid''
     @ block_when (ri_failed_corrections inputs \<noteq> 0) ''attendance_correction_failed''
     @ block_when (ri_verification_failures inputs \<noteq> 0) ''attendance_correction_verification_failed''
     @ block_when (ri_failed_repairs inputs \<noteq> 0) ''attendance_department_repair_failed''
     @ block_when (ri_open_conflicts inputs \<noteq> 0 \<or> ri_conflict_seconds inputs \<noteq> 0) ''attendance_conflicts_open''
     @ block_when (ri_open_unmapped inputs \<noteq> 0 \<or> ri_unmapped_seconds inputs \<noteq> 0) ''attendance_unmapped_location''
     @ block_when (ri_open_missing inputs \<noteq> 0 \<or> ri_missing_seconds inputs \<noteq> 0) ''attendance_required_location_missing''
     @ block_when (ri_unassigned_units inputs \<noteq> 0) ''unassigned_production''
     @ block_when (ri_shadow_complete_days inputs < 1) ''shadow_comparison_day_incomplete''
     @ block_when (ri_shadow_error inputs \<noteq> None) ''shadow_comparison_unavailable''
     @ block_when (ri_source_error inputs \<noteq> None) ''attendance_source_error''"

definition report_from_inputs :: "readiness_inputs \<Rightarrow> datetime \<Rightarrow> readiness_report" where
  "report_from_inputs inputs now =
     (let blockers = sort (remdups (blockers_of inputs now))
      in \<lparr>rr_ready = (blockers = []), rr_mirror_age = age_of now (ri_incremental inputs),
          rr_sweep_age = age_of now (ri_full_sweep inputs),
          rr_open_rows_not_refreshed = ri_open_rows_not_refreshed inputs, rr_sweep_deletions = ri_sweep_deletions inputs,
          rr_projection_lag = age_of now (ri_projection inputs), rr_queue_age = age_of now (ri_queue_requested inputs),
          rr_queue_depth = ri_queue_depth inputs, rr_open_conflicts = ri_open_conflicts inputs,
          rr_conflict_minutes = ri_conflict_seconds inputs / 60, rr_open_unmapped = ri_open_unmapped inputs,
          rr_unmapped_minutes = ri_unmapped_seconds inputs / 60, rr_open_missing = ri_open_missing inputs,
          rr_missing_minutes = ri_missing_seconds inputs / 60, rr_unassigned_units = ri_unassigned_units inputs,
          rr_oldest_unassigned_age = age_of now (ri_oldest_unassigned inputs),
          rr_shadow_changed_units = ri_shadow_changed_units inputs, rr_failed_corrections = ri_failed_corrections inputs,
          rr_correction_retries = ri_correction_retries inputs, rr_verification_failures = ri_verification_failures inputs,
          rr_failed_repairs = ri_failed_repairs inputs, rr_blockers = blockers, rr_checked_at = now\<rparr>)"

text \<open>
  \<open>_build_report_cur\<close>: \<open>read\<close> stands for what the transaction's tables give for the rollout it has read;
  an error there yields the report that nothing is available.
\<close>

definition build_report ::
    "(rollout_config \<Rightarrow> bool \<Rightarrow> readiness_inputs option) \<Rightarrow> pyvalue option \<Rightarrow> datetime \<Rightarrow> readiness_report" where
  "build_report read stored now =
     (let (rollout, valid) = (case stored of
            None \<Rightarrow> (off_config, False)
          | Some raw \<Rightarrow> (case parse_config raw of Inl _ \<Rightarrow> (off_config, False) | Inr c \<Rightarrow> (c, True)))
      in case read rollout valid of
           None \<Rightarrow> report_from_inputs unavailable_inputs now
         | Some inputs \<Rightarrow> report_from_inputs (inputs\<lparr>ri_mode := rc_mode rollout, ri_valid := valid\<rparr>) now)"

text \<open>A report with one more blocker.\<close>

definition blocked_report :: "readiness_report \<Rightarrow> string \<Rightarrow> readiness_report" where
  "blocked_report report blocker =
     report\<lparr>rr_ready := False, rr_blockers := sort (remdups (blocker # rr_blockers report))\<rparr>"

section \<open>The configured boundary\<close>

text \<open>The rows a transaction has locked for one day; the times are those the rows' values parse to.\<close>

record boundary_rows =
  br_global_start :: "time_of_day option"
  br_weekdays :: "int list"
  br_saturday_start :: "time_of_day option"
  br_published :: bool
  br_custom_start :: "time_of_day option"
  br_holiday :: "int option"
  br_recruitment :: "(string \<times> int option \<times> string) option"

definition clock_time :: "int \<Rightarrow> int \<Rightarrow> time_of_day" where
  "clock_time h m = minutes (60 * h + m)"

definition configured_boundary :: "boundary_rows \<Rightarrow> date \<Rightarrow> time_of_day \<times> bool" where
  "configured_boundary rows day =
     (let global_start = (case br_global_start rows of None \<Rightarrow> clock_time 7 0 | Some t \<Rightarrow> t);
          named = filter (\<lambda>d. 0 \<le> d \<and> d \<le> 6) (br_weekdays rows);
          weekdays = (if named = [] then [0, 1, 2, 3, 4] else named);
          saturday_start = (case br_saturday_start rows of None \<Rightarrow> clock_time 6 0 | Some t \<Rightarrow> t);
          workday = (case br_holiday rows of
              Some holiday \<Rightarrow> br_published rows \<and>
                (case br_recruitment rows of
                   None \<Rightarrow> False
                 | Some (kind, row_holiday, status) \<Rightarrow> kind = ''holiday'' \<and> row_holiday = Some holiday \<and> status = ''published'')
            | None \<Rightarrow> weekday day \<in> set weekdays \<or> br_published rows)
      in case (br_published rows, br_custom_start rows) of
           (True, Some start) \<Rightarrow> (start, workday)
         | _ \<Rightarrow> if (weekday day = 5 \<or> br_holiday rows \<noteq> None) \<and> workday then (saturday_start, workday)
                else (global_start, workday))"

text \<open>\<open>rows_of\<close> gives the locked rows of a day, or fails.\<close>

definition validate_configured_boundary ::
    "site \<Rightarrow> (date \<Rightarrow> boundary_rows option) \<Rightarrow> moment \<Rightarrow> datetime result" where
  "validate_configured_boundary site rows_of cutover =
     (case cutover of
        Naive _ \<Rightarrow> failed ''cutover_at must be timezone-aware''
      | Aware t \<Rightarrow>
          (case rows_of (si_day site t) of
             None \<Rightarrow> failed ''cutover_workday_unavailable''
           | Some rows \<Rightarrow>
               (let (boundary, workday) = configured_boundary rows (si_day site t)
                in if si_time site t \<noteq> boundary then failed ''cutover_boundary_required''
                   else if \<not> workday then failed ''cutover_workday_required'' else Inr t)))"

definition validate_future_boundary ::
    "site \<Rightarrow> (date \<Rightarrow> boundary_rows option) \<Rightarrow> moment \<Rightarrow> datetime \<Rightarrow> datetime result" where
  "validate_future_boundary site rows_of cutover now =
     (case cutover of
        Naive _ \<Rightarrow> failed ''cutover_at must be timezone-aware''
      | Aware t \<Rightarrow> if t \<le> now then failed ''cutover_future_boundary_required''
                   else validate_configured_boundary site rows_of cutover)"

section \<open>The state of the rollout\<close>

text \<open>A row of \<open>attendance_recalc_queue\<close>.\<close>

record queue_row =
  qr_requested :: datetime
  qr_started :: "datetime option"
  qr_completed :: "datetime option"
  qr_cache_started :: "datetime option"
  qr_cache_ready :: "datetime option"
  qr_attempts :: int
  qr_error :: "string option"

record rollout_state =
  ro_setting :: "pyvalue option"
  ro_strict :: "date list"
  ro_queue :: "(date \<times> queue_row) list"
  ro_epoch :: "pyvalue option"
  ro_status :: "pyvalue option"
  ro_blocked :: "pyvalue option"
  ro_departments :: "(string \<times> department) list"

text \<open>
  What one call meets: the time it took as its own, the clock while it holds the locks, the plant's
  shifts, the locked rows of a day, and what the readiness tables give.
\<close>

record surroundings =
  su_now :: datetime
  su_clock :: datetime
  su_shifts :: shifts
  su_rows :: "date \<Rightarrow> boundary_rows option"
  su_read :: "rollout_config \<Rightarrow> bool \<Rightarrow> readiness_inputs option"

text \<open>The parameters that do not change: the time zone and SHA-256 over a report's canonical text.\<close>

record plant =
  pt_site :: site
  pt_digest :: "readiness_report \<Rightarrow> datetime \<Rightarrow> string"

definition time_json :: "datetime \<Rightarrow> pyvalue" where
  "time_json t = PyDatetime t (Some 0)"

text \<open>\<open>_lock_rollout_config_cur\<close>\<close>

definition lock_rollout_config :: "rollout_state \<Rightarrow> rollout_config result" where
  "lock_rollout_config st =
     (case ro_setting st of
        None \<Rightarrow> failed ''rollout_state_unavailable''
      | Some raw \<Rightarrow> (case parse_config raw of Inl _ \<Rightarrow> failed ''rollout_state_unavailable'' | Inr c \<Rightarrow> Inr c))"

definition lock_optional_rollout_config :: "rollout_state \<Rightarrow> rollout_config option result" where
  "lock_optional_rollout_config st =
     (if ro_setting st = None then Inr None else rbind (lock_rollout_config st) (\<lambda>c. Inr (Some c)))"

definition shadow_epoch :: "rollout_state \<Rightarrow> datetime option result" where
  "shadow_epoch st =
     (case ro_epoch st of
        None \<Rightarrow> Inr None
      | Some raw \<Rightarrow>
          (case raw of
             PyNone \<Rightarrow> Inr None
           | PyMap d \<Rightarrow>
               (case field d ''entered_at'' of
                  PyDatetime t (Some _) \<Rightarrow> Inr (Some t)
                | _ \<Rightarrow> failed ''shadow_epoch_unavailable'')
           | _ \<Rightarrow> failed ''shadow_epoch_unavailable''))"

definition set_shadow_epoch :: "datetime \<Rightarrow> rollout_state \<Rightarrow> rollout_state" where
  "set_shadow_epoch entered st = st\<lparr>ro_epoch := Some (PyMap [(''entered_at'', time_json entered)])\<rparr>"

text \<open>\<open>set_rollout_config\<close> on the state of the transaction.\<close>

definition save_config :: "plant \<Rightarrow> surroundings \<Rightarrow> rollout_config \<Rightarrow> rollout_state \<Rightarrow> rollout_state result" where
  "save_config pt su c st =
     rbind (set_rollout_config (pt_site pt) (su_shifts su) (su_clock su) (ro_setting st) c) (\<lambda>raw.
     Inr (st\<lparr>ro_setting := Some raw\<rparr>))"

section \<open>Scheduling live\<close>

definition live_gate_for :: "datetime \<Rightarrow> string \<Rightarrow> moment option \<Rightarrow> live_gate" where
  "live_gate_for checked digest activated = \<lparr>lg_checked = Aware checked, lg_digest = digest, lg_activated = activated\<rparr>"

definition live_config :: "datetime \<Rightarrow> live_gate \<Rightarrow> rollout_config" where
  "live_config cutover gate = \<lparr>rc_mode = Live, rc_cutover = Some (Aware cutover), rc_gate = Some gate\<rparr>"

definition shadow_config :: rollout_config where
  "shadow_config = \<lparr>rc_mode = Shadow, rc_cutover = None, rc_gate = None\<rparr>"

definition text_list :: "string list \<Rightarrow> pyvalue" where
  "text_list xs = PyList (map PyStr xs)"

definition scheduled_status :: "datetime \<Rightarrow> datetime \<Rightarrow> string \<Rightarrow> pyvalue" where
  "scheduled_status cutover checked digest =
     PyMap [(''checked_at'', time_json checked), (''cutover_at'', time_json cutover),
            (''report_digest'', PyStr digest), (''status'', PyStr ''scheduled'')]"

text \<open>The requirements by stripped name; a later choice for the same name wins.\<close>

definition normalized_departments :: "(string \<times> bool) list \<Rightarrow> (string \<times> bool) list" where
  "normalized_departments choices =
     foldl (\<lambda>d (name, required). if strip name = [] then d else put (strip name) required d) [] choices"

definition existing_departments :: "(string \<times> department) list \<Rightarrow> (string \<times> bool) list" where
  "existing_departments departments = foldl (\<lambda>d (name, dep). put name (dp_requires dep) d) [] departments"

definition schedule_live_cutover ::
    "plant \<Rightarrow> surroundings \<Rightarrow> moment \<Rightarrow> (string \<times> bool) list option \<Rightarrow> rollout_state \<Rightarrow> (rollout_config \<times> rollout_state) result" where
  "schedule_live_cutover pt su cutover_at choices st =
     rbind (if is_aware cutover_at then Inr () else failed ''cutover_timezone_required'') (\<lambda>_.
     rbind (validate_future_boundary (pt_site pt) (su_rows su) cutover_at (su_now su)) (\<lambda>cutover.
     rbind (lock_rollout_config st) (\<lambda>current.
     rbind (if rc_mode current = Live then failed ''live_cutover_already_scheduled'' else Inr ()) (\<lambda>_.
     rbind (if rc_mode current \<noteq> Shadow then failed ''live_cutover_requires_shadow'' else Inr ()) (\<lambda>_.
     rbind (case choices of
              None \<Rightarrow> Inr ()
            | Some cs \<Rightarrow> if normalized_departments cs \<noteq> existing_departments (ro_departments st)
                         then failed ''department_policy_requires_shadow_refresh'' else Inr ()) (\<lambda>_.
     let report = build_report (su_read su) (ro_setting st) (su_now su); age = su_clock su - su_now su;
         digest = pt_digest pt report cutover;
         c = live_config cutover (live_gate_for (su_now su) digest None)
     in rbind (if \<not> rr_ready report then failed ''live_readiness_blocked'' else Inr ()) (\<lambda>_.
        rbind (if age < 0 \<or> age > minutes 5 then failed ''live_readiness_stale'' else Inr ()) (\<lambda>_.
        rbind (save_config pt su c st) (\<lambda>st'.
        Inr (c, st'\<lparr>ro_status := Some (scheduled_status cutover (su_now su) digest)\<rparr>))))))))))"

section \<open>A save that is not live\<close>

text \<open>The configuration a request for \<open>c\<close> comes to, given the current one.\<close>

definition resolved_config :: "rollout_config \<Rightarrow> rollout_config \<Rightarrow> datetime \<Rightarrow> rollout_config result" where
  "resolved_config current c now =
     (let rollback = (\<lambda>gate. if rc_mode c = Off \<or> rc_cutover c = None then failed ''rollback_boundary_required''
                           else Inr \<lparr>rc_mode = Shadow, rc_cutover = rc_cutover c, rc_gate = Some gate\<rparr>)
      in case (rc_mode current, rc_gate current) of
           (Live, None) \<Rightarrow> failed ''rollout_state_unavailable''
         | (Live, Some gate) \<Rightarrow>
             (case rc_cutover current of
                None \<Rightarrow> failed ''rollout_state_unavailable''
              | Some cutover \<Rightarrow>
                  (case lg_activated gate of
                     None \<Rightarrow> if now \<ge> instant cutover then failed ''cutover_decision_pending'' else Inr c
                   | Some activated \<Rightarrow> if instant activated > now then failed ''cutover_decision_pending'' else rollback gate))
         | (Shadow, Some gate) \<Rightarrow>
             (if lg_activated gate = None then Inr c
              else (case rc_cutover current of
                      None \<Rightarrow> failed ''rollout_state_unavailable''
                    | Some cutover \<Rightarrow> if now \<ge> instant cutover then failed ''cutover_decision_pending'' else rollback gate))
         | _ \<Rightarrow> Inr c)"

fun set_departments :: "(string \<times> bool) list \<Rightarrow> (string \<times> department) list \<Rightarrow> (string \<times> department) list result" where
  "set_departments [] departments = Inr departments"
| "set_departments ((name, required) # rest) departments =
     rbind (set_department_requirement name required departments) (set_departments rest)"

definition epoch_after_save :: "rollout_config \<Rightarrow> rollout_config \<Rightarrow> datetime \<Rightarrow> rollout_state \<Rightarrow> rollout_state result" where
  "epoch_after_save current resolved now st =
     (if rc_mode resolved = Off then Inr (st\<lparr>ro_epoch := None\<rparr>)
      else if rc_mode resolved = Shadow \<and> rc_gate resolved = None
      then if rc_mode current = Off then Inr (set_shadow_epoch now st)
           else rbind (shadow_epoch st) (\<lambda>epoch. Inr (if epoch = None then set_shadow_epoch now st else st))
      else Inr st)"

definition save_non_live_rollout ::
    "plant \<Rightarrow> surroundings \<Rightarrow> rollout_config \<Rightarrow> (string \<times> bool) list \<Rightarrow> rollout_state \<Rightarrow> (rollout_config \<times> rollout_state) result" where
  "save_non_live_rollout pt su c choices st =
     rbind (if rc_mode c \<in> {Off, Shadow} then Inr () else failed ''invalid_rollout_mode'') (\<lambda>_.
     rbind (lock_optional_rollout_config st) (\<lambda>locked.
     let current = (case locked of None \<Rightarrow> off_config | Some cur \<Rightarrow> cur)
     in rbind (resolved_config current c (su_now su)) (\<lambda>resolved.
        rbind (save_config pt su resolved st) (\<lambda>st'.
        rbind (epoch_after_save current resolved (su_now su) st') (\<lambda>st''.
        rbind (set_departments (normalized_departments choices) (ro_departments st'')) (\<lambda>departments.
        Inr (resolved, st''\<lparr>ro_departments := departments\<rparr>)))))))"

section \<open>Activation\<close>

datatype activation_status =
    Not_Scheduled | Not_Due | Activated | Recalculation_Pending | Active | Rolled_Back | Blocked

record activation_result =
  ar_status :: activation_status
  ar_cutover :: "datetime option"
  ar_blockers :: "string list"

definition outcome :: "activation_status \<Rightarrow> datetime option \<Rightarrow> string list \<Rightarrow> activation_result" where
  "outcome status cutover blockers = \<lparr>ar_status = status, ar_cutover = cutover, ar_blockers = blockers\<rparr>"

definition status_json :: "string \<Rightarrow> datetime \<Rightarrow> string list option \<Rightarrow> pyvalue" where
  "status_json status cutover blockers =
     PyMap ((case blockers of None \<Rightarrow> [] | Some bs \<Rightarrow> [(''blockers'', text_list bs)])
            @ [(''cutover_at'', time_json cutover), (''status'', PyStr status)])"

definition recalculation_row_valid :: "queue_row \<Rightarrow> bool" where
  "recalculation_row_valid row =
     (0 \<le> qr_attempts row \<and>
      (case qr_completed row of
         None \<Rightarrow> qr_cache_started row = None \<and> qr_cache_ready row = None
       | Some completed \<Rightarrow>
           qr_started row = None \<and> qr_error row = None \<and>
           (case qr_cache_ready row of
              None \<Rightarrow> True
            | Some ready \<Rightarrow> qr_cache_started row = None \<and> ready \<ge> completed)))"

datatype queue_state = Queue_Pending | Queue_Ready | Queue_Invalid

definition cutover_queue_state :: "(date \<times> queue_row) list \<Rightarrow> date \<Rightarrow> queue_state" where
  "cutover_queue_state queue day =
     (case map_of queue day of
        None \<Rightarrow> Queue_Pending
      | Some row \<Rightarrow>
          if \<not> recalculation_row_valid row then Queue_Invalid
          else if qr_completed row \<noteq> None \<and> qr_cache_ready row \<noteq> None then Queue_Ready else Queue_Pending)"

text \<open>\<open>_enqueue_cutover_cur\<close>: record the day as strict and put its recalculation in the queue afresh.\<close>

definition enqueue_cutover :: "date \<Rightarrow> datetime \<Rightarrow> rollout_state \<Rightarrow> rollout_state" where
  "enqueue_cutover day now st =
     (let requested = (case map_of (ro_queue st) day of None \<Rightarrow> now | Some row \<Rightarrow> min (qr_requested row) now)
      in st\<lparr>ro_strict := List.insert day (ro_strict st),
            ro_queue := put day
              \<lparr>qr_requested = requested, qr_started = None, qr_completed = None, qr_cache_started = None,
               qr_cache_ready = None, qr_attempts = 0, qr_error = None\<rparr> (ro_queue st)\<rparr>)"

definition blocked_json :: "datetime \<Rightarrow> readiness_report \<Rightarrow> string \<Rightarrow> pyvalue" where
  "blocked_json cutover report digest =
     PyMap [(''blockers'', text_list (rr_blockers report)), (''checked_at'', time_json (rr_checked_at report)),
            (''report_digest'', PyStr digest), (''scheduled_at'', time_json cutover)]"

definition store_blocked :: "plant \<Rightarrow> datetime \<Rightarrow> readiness_report \<Rightarrow> rollout_state \<Rightarrow> rollout_state" where
  "store_blocked pt cutover report st = st\<lparr>ro_blocked := Some (blocked_json cutover report (pt_digest pt report cutover))\<rparr>"

definition note_status :: "string \<Rightarrow> datetime \<Rightarrow> string list option \<Rightarrow> rollout_state \<Rightarrow> rollout_state" where
  "note_status status cutover blockers st = st\<lparr>ro_status := Some (status_json status cutover blockers)\<rparr>"

text \<open>A due rollback: back to shadow, or, when its boundary no longer fits the schedule, live again.\<close>

definition finish_rollback ::
    "plant \<Rightarrow> surroundings \<Rightarrow> live_gate \<Rightarrow> moment \<Rightarrow> datetime \<Rightarrow> rollout_state \<Rightarrow> (activation_result \<times> rollout_state) result" where
  "finish_rollback pt su gate activated cutover st =
     (case validate_configured_boundary (pt_site pt) (su_rows su) (Aware cutover) of
        Inl (ValueError blocker) \<Rightarrow>
          (let report = blocked_report (build_report (su_read su) (ro_setting st) (su_now su)) blocker;
               original = instant activated;
               restored = live_config original
                 (live_gate_for (rr_checked_at report) (pt_digest pt report original) (Some activated))
           in rbind (restore_active_after_rejected_rollback (su_clock su) restored) (\<lambda>raw.
              Inr (outcome Blocked (Some cutover) (rr_blockers report),
                   note_status ''rollback_blocked'' cutover (Some (rr_blockers report))
                     (store_blocked pt cutover report (st\<lparr>ro_setting := Some raw\<rparr>)))))
      | Inl e \<Rightarrow> Inl e
      | Inr _ \<Rightarrow>
          rbind (save_config pt su shadow_config st) (\<lambda>st'.
          Inr (outcome Rolled_Back (Some cutover) [],
               note_status ''rolled_back'' cutover None ((set_shadow_epoch (su_now su) st')\<lparr>ro_blocked := None\<rparr>))))"

definition report_activated ::
    "plant \<Rightarrow> datetime \<Rightarrow> rollout_state \<Rightarrow> activation_result \<times> rollout_state" where
  "report_activated pt cutover st =
     (let queue = cutover_queue_state (ro_queue st) (si_day (pt_site pt) cutover);
          blockers = (if queue = Queue_Invalid then [''attendance_recalculation_invalid''] else []);
          noted = (if blockers = [] then None else Some blockers)
      in if queue = Queue_Ready then (outcome Active (Some cutover) blockers, note_status ''active'' cutover noted st)
         else (outcome Recalculation_Pending (Some cutover) blockers, note_status ''recalculation_pending'' cutover noted st))"

text \<open>A due start: live when the report is ready and the boundary still fits, else back to shadow.\<close>

definition decide_start ::
    "plant \<Rightarrow> surroundings \<Rightarrow> datetime \<Rightarrow> rollout_state \<Rightarrow> (activation_result \<times> rollout_state) result" where
  "decide_start pt su cutover st =
     (let built = build_report (su_read su) (ro_setting st) (su_now su)
      in rbind (case validate_configured_boundary (pt_site pt) (su_rows su) (Aware cutover) of
             Inl (ValueError blocker) \<Rightarrow> Inr (blocked_report built blocker)
           | Inl e \<Rightarrow> Inl e
           | Inr _ \<Rightarrow> Inr built) (\<lambda>report.
         if \<not> rr_ready report
         then rbind (save_config pt su shadow_config st) (\<lambda>st'.
              Inr (outcome Blocked (Some cutover) (rr_blockers report),
                   note_status ''blocked'' cutover (Some (rr_blockers report))
                     (store_blocked pt cutover report (set_shadow_epoch (su_now su) st'))))
         else
           (let gate = live_gate_for (rr_checked_at report) (pt_digest pt report cutover) (Some (Aware (su_now su)))
            in rbind (save_config pt su (live_config cutover gate)
                   (enqueue_cutover (si_day (pt_site pt) cutover) (su_now su) st)) (\<lambda>st'.
               Inr (outcome Activated (Some cutover) [],
                    note_status ''recalculation_pending'' cutover None (st'\<lparr>ro_blocked := None\<rparr>))))))"

definition activate_due_cutover :: "plant \<Rightarrow> surroundings \<Rightarrow> rollout_state \<Rightarrow> (activation_result \<times> rollout_state) result" where
  "activate_due_cutover pt su st =
     (case lock_rollout_config st of
        Inl _ \<Rightarrow> Inr (outcome Not_Scheduled None [], st)
      | Inr c \<Rightarrow>
          (case (rc_mode c, rc_gate c, gate_activated c, map_option instant (rc_cutover c)) of
             (Shadow, Some gate, Some activated, Some cutover) \<Rightarrow>
               if su_now su < cutover then Inr (outcome Not_Due (Some cutover) [], st)
               else finish_rollback pt su gate activated cutover st
           | (Live, Some gate, activated, Some cutover) \<Rightarrow>
               if su_now su < cutover then Inr (outcome Not_Due (Some cutover) [], st)
               else if activated \<noteq> None then Inr (report_activated pt cutover st)
               else decide_start pt su cutover st
           | _ \<Rightarrow> Inr (outcome Not_Scheduled None [], st)))"

section \<open>Recording a strict day\<close>

text \<open>
  \<open>store_prepared_day\<close> for a day attributed strictly: the match state is decided again under the locks,
  and the day recorded; the production rows it replaces are not part of this state.
\<close>

definition record_strict_day :: "plant \<Rightarrow> surroundings \<Rightarrow> date \<Rightarrow> rollout_state \<Rightarrow> rollout_state result" where
  "record_strict_day pt su day st =
     (if match_state_for_day_cur (pt_site pt) (ro_strict st) (ro_setting st) day (su_clock su) \<noteq> Strict
      then Inl (RuntimeError ''production attribution state changed before snapshot commit'')
      else Inr (st\<lparr>ro_strict := List.insert day (ro_strict st)\<rparr>))"

section \<open>The rollout as a state machine\<close>

text \<open>
  The requests of the settings page (whose configuration never carries a gate), the warmer's activation
  and the recording of a strict day.
\<close>

datatype rollout_event =
    Schedule_Event moment "(string \<times> bool) list option"
  | Save_Event rollout_mode "moment option" "(string \<times> bool) list"
  | Activate_Event
  | Record_Event date

definition run_event :: "plant \<Rightarrow> surroundings \<Rightarrow> rollout_event \<Rightarrow> rollout_state \<Rightarrow> rollout_state result" where
  "run_event pt su event st =
     (case event of
        Schedule_Event cutover choices \<Rightarrow> rbind (schedule_live_cutover pt su cutover choices st) (\<lambda>r. Inr (snd r))
      | Save_Event mode cutover choices \<Rightarrow>
          rbind (save_non_live_rollout pt su \<lparr>rc_mode = mode, rc_cutover = cutover, rc_gate = None\<rparr> choices st) (\<lambda>r. Inr (snd r))
      | Activate_Event \<Rightarrow> rbind (activate_due_cutover pt su st) (\<lambda>r. Inr (snd r))
      | Record_Event day \<Rightarrow> record_strict_day pt su day st)"

definition fresh_state :: "(string \<times> department) list \<Rightarrow> rollout_state" where
  "fresh_state departments =
     \<lparr>ro_setting = None, ro_strict = [], ro_queue = [], ro_epoch = None, ro_status = None, ro_blocked = None,
      ro_departments = departments\<rparr>"

text \<open>
  States at a reading of the clock. A call takes its own time before it waits for the locks, so that
  time may be earlier than the last change.
\<close>

inductive reachable :: "plant \<Rightarrow> datetime \<Rightarrow> rollout_state \<Rightarrow> bool" for pt where
  start: "reachable pt t (fresh_state departments)"
| wait: "reachable pt t st \<Longrightarrow> t \<le> t' \<Longrightarrow> reachable pt t' st"
| event: "reachable pt t st \<Longrightarrow> t \<le> su_clock su \<Longrightarrow> su_now su \<le> su_clock su \<Longrightarrow>
    run_event pt su e st = Inr st' \<Longrightarrow> reachable pt (su_clock su) st'"

end
