(* ===== verification/Rollout_Machine.thy ===== *)
theory Rollout_Machine
  imports Rollout_Readiness
begin

text \<open>
  The rollout as a state machine: an abstract step relation on configurations that every event refines,
  and the invariant of reachable states.
\<close>

section \<open>Stored configurations\<close>

definition gate_ok :: "live_gate \<Rightarrow> bool" where
  "gate_ok g =
     (is_aware (lg_checked g) \<and> lg_digest g \<noteq> [] \<and>
      (case lg_activated g of None \<Rightarrow> True | Some a \<Rightarrow> is_aware a))"

definition config_ok :: "rollout_config \<Rightarrow> bool" where
  "config_ok c =
     (rc_mode c \<in> {Off, Shadow, Live} \<and> (case rc_cutover c of None \<Rightarrow> True | Some m \<Rightarrow> is_aware m) \<and>
      (case rc_gate c of None \<Rightarrow> True | Some g \<Rightarrow> gate_ok g) \<and> validate_config_shape c = Inr ())"

lemma aware_iff: "is_aware m \<longleftrightarrow> (\<exists>t. m = Aware t)"
  by (cases m) (auto simp: is_aware_def)

lemma parse_moment_aware: "parse_moment v = Inr m \<Longrightarrow> is_aware m"
  by (cases v rule: pyvalue.exhaust) (auto simp: parse_moment_def is_aware_def split: option.splits)

lemma parse_optional_aware: "parse_optional_moment v = Inr m \<Longrightarrow> (case m of None \<Rightarrow> True | Some a \<Rightarrow> is_aware a)"
  by (auto simp: parse_optional_moment_def rbind_Inr_iff dest: parse_moment_aware split: if_splits)

lemma moment_json_parsed: "is_aware m \<Longrightarrow> parse_moment (moment_json m) = Inr m"
  by (auto simp: aware_iff parse_moment_def moment_json_def)

lemma optional_json_parsed: "(case m of None \<Rightarrow> True | Some a \<Rightarrow> is_aware a) \<Longrightarrow> parse_optional_moment (optional_json m) = Inr m"
  by (cases m) (auto simp: parse_optional_moment_def optional_json_def moment_json_def parse_moment_def aware_iff)

lemma gate_json_parsed: "(case gate of None \<Rightarrow> True | Some g \<Rightarrow> gate_ok g) \<Longrightarrow> parse_gate (gate_json gate) = Inr gate"
proof (cases gate)
  case (Some g)
  assume "case gate of None \<Rightarrow> True | Some g \<Rightarrow> gate_ok g"
  then have g: "is_aware (lg_checked g)" "lg_digest g \<noteq> []" "case lg_activated g of None \<Rightarrow> True | Some a \<Rightarrow> is_aware a"
    using Some by (simp_all add: gate_ok_def)
  have names: "''activated_at'' \<noteq> ''checked_at''" "''activated_at'' \<noteq> ''report_digest''" "''checked_at'' \<noteq> ''report_digest''" by simp_all
  show ?thesis using g optional_json_parsed [OF g(3)] moment_json_parsed [OF g(1)]
    by (simp add: Some parse_gate_def gate_json_def field_def names)
qed (simp add: parse_gate_def gate_json_def)

lemma mode_json_parsed: "m \<in> {Off, Shadow, Live} \<Longrightarrow> parse_mode (mode_json m) = Inr m"
  by (auto simp: parse_mode_def mode_json_def)

text \<open>A sound configuration reads back from what is stored for it, and only sound ones are read.\<close>

lemma config_json_parsed: "config_ok c \<Longrightarrow> parse_config (config_json c) = Inr c"
proof -
  assume ok: "config_ok c"
  then have 1: "parse_mode (mode_json (rc_mode c)) = Inr (rc_mode c)" "parse_optional_moment (optional_json (rc_cutover c)) = Inr (rc_cutover c)"
    "parse_gate (gate_json (rc_gate c)) = Inr (rc_gate c)" "validate_config_shape c = Inr ()"
    using mode_json_parsed optional_json_parsed gate_json_parsed by (simp_all add: config_ok_def)
  have "field [(''cutover_at'', x), (''live_gate'', y), (''mode'', z)] ''mode'' = z"
    "field [(''cutover_at'', x), (''live_gate'', y), (''mode'', z)] ''cutover_at'' = x"
    "field [(''cutover_at'', x), (''live_gate'', y), (''mode'', z)] ''live_gate'' = y" for x y z by (simp_all add: field_def)
  moreover have "\<lparr>rc_mode = rc_mode c, rc_cutover = rc_cutover c, rc_gate = rc_gate c\<rparr> = c" by simp
  ultimately show ?thesis using 1 by (simp only: parse_config_def config_json_def Let_def pyvalue.case rbind_simps)
qed

lemma parse_gate_ok: "parse_gate v = Inr gate \<Longrightarrow> (case gate of None \<Rightarrow> True | Some g \<Rightarrow> gate_ok g)"
proof (cases v)
  case (PyMap g)
  assume run: "parse_gate v = Inr gate"
  then obtain digest where "field g ''report_digest'' = PyStr digest" using PyMap by (auto simp: parse_gate_def split: pyvalue.splits)
  then show ?thesis using run PyMap
    by (auto simp: parse_gate_def gate_ok_def rbind_Inr_iff dest!: parse_moment_aware parse_optional_aware split: if_splits)
qed (auto simp: parse_gate_def)

lemma parsed_ok: "parse_config raw = Inr c \<Longrightarrow> config_ok c"
proof (cases raw)
  case (PyMap d)
  assume run: "parse_config raw = Inr c"
  have mode: "m \<in> {Off, Shadow, Live}" if "parse_mode v = Inr m" for v m
    using that by (auto simp: parse_mode_def split: if_splits)
  show ?thesis using run PyMap
    by (auto simp: parse_config_def config_ok_def rbind_Inr_iff Let_def dest: mode parse_optional_aware parse_gate_ok)
qed (auto simp: parse_config_def)

definition stored_config :: "rollout_state \<Rightarrow> rollout_config" where
  "stored_config st = get_rollout_config (ro_setting st)"

lemma stored_json: "ro_setting st = Some (config_json c) \<Longrightarrow> config_ok c \<Longrightarrow> stored_config st = c"
  by (simp add: stored_config_def get_rollout_config_def config_snapshot_def config_json_parsed) (simp add: config_json_def)

lemma shape_cases:
  assumes "validate_config_shape c = Inr ()"
  obtains (off) "rc_mode c = Off" "rc_cutover c = None" "rc_gate c = None"
  | (plain) "rc_mode c = Shadow" "rc_cutover c = None" "rc_gate c = None"
  | (rollback) due a where "rc_mode c = Shadow" "rc_cutover c = Some due" "gate_activated c = Some a" "instant a < instant due"
  | (waiting) due where "rc_mode c = Live" "rc_cutover c = Some due" "rc_gate c \<noteq> None" "gate_activated c = None"
  | (active) due a where "rc_mode c = Live" "rc_cutover c = Some due" "gate_activated c = Some a" "instant due \<le> instant a"
proof (cases "rc_mode c")
  case Off
  then show ?thesis using assms off by (auto simp: validate_config_shape_def bad_shape_def split: if_splits)
next
  case Shadow
  show ?thesis
  proof (cases "rc_cutover c"; cases "rc_gate c")
    fix due g assume c: "rc_cutover c = Some due" "rc_gate c = Some g"
    then show ?thesis using assms Shadow rollback
      by (cases "lg_activated g") (auto simp: validate_config_shape_def bad_shape_def gate_activated_def earlier_def split: if_splits)
  qed (use assms Shadow plain in \<open>auto simp: validate_config_shape_def bad_shape_def\<close>)
next
  case Live
  show ?thesis
  proof (cases "rc_cutover c"; cases "rc_gate c")
    fix due g assume c: "rc_cutover c = Some due" "rc_gate c = Some g"
    then show ?thesis using assms Live waiting active
      by (cases "lg_activated g") (auto simp: validate_config_shape_def bad_shape_def gate_activated_def earlier_def not_less split: if_splits)
  qed (use assms Live in \<open>auto simp: validate_config_shape_def bad_shape_def\<close>)
next
  case (Unknown_Mode s)
  then show ?thesis using assms by (auto simp: validate_config_shape_def bad_shape_def)
qed

section \<open>The abstract machine\<close>

text \<open>What an event may do to the configuration.\<close>

inductive config_step :: "surroundings \<Rightarrow> rollout_event \<Rightarrow> rollout_config \<Rightarrow> rollout_config \<Rightarrow> bool" for su where
  scheduled: "rc_mode c = Shadow \<Longrightarrow> rc_mode c' = Live \<Longrightarrow> gate_activated c' = None \<Longrightarrow>
    config_step su (Schedule_Event cutover choices) c c'"
| saved: "gate_activated c = None \<Longrightarrow> gate_activated c' = None \<Longrightarrow> rc_mode c' \<in> {Off, Shadow} \<Longrightarrow>
    config_step su (Save_Event mode cutover choices) c c'"
| rollback: "gate_activated c = Some a \<Longrightarrow> gate_activated c' = Some a \<Longrightarrow> rc_mode c' = Shadow \<Longrightarrow>
    rc_cutover c' = Some due \<Longrightarrow> su_clock su < instant due \<Longrightarrow> config_step su (Save_Event mode cutover choices) c c'"
| waits: "(\<forall>due. rc_cutover c = Some due \<longrightarrow> su_now su < instant due \<or> rc_mode c = Live \<and> gate_activated c \<noteq> None) \<Longrightarrow>
    config_step su Activate_Event c c"
| rolled_back: "rc_mode c = Shadow \<Longrightarrow> gate_activated c = Some a \<Longrightarrow> rc_cutover c = Some due \<Longrightarrow> instant due \<le> su_now su \<Longrightarrow>
    config_step su Activate_Event c shadow_config"
| restored: "rc_mode c = Shadow \<Longrightarrow> gate_activated c = Some a \<Longrightarrow> rc_cutover c = Some due \<Longrightarrow> instant due \<le> su_now su \<Longrightarrow>
    rc_mode c' = Live \<Longrightarrow> rc_cutover c' = Some (Aware (instant a)) \<Longrightarrow> gate_activated c' = Some a \<Longrightarrow>
    config_step su Activate_Event c c'"
| refused: "rc_mode c = Live \<Longrightarrow> gate_activated c = None \<Longrightarrow> rc_cutover c = Some due \<Longrightarrow> instant due \<le> su_now su \<Longrightarrow>
    config_step su Activate_Event c shadow_config"
| started: "rc_mode c = Live \<Longrightarrow> gate_activated c = None \<Longrightarrow> rc_cutover c = Some due \<Longrightarrow> instant due \<le> su_now su \<Longrightarrow>
    rc_mode c' = Live \<Longrightarrow> rc_cutover c' = Some (Aware (instant due)) \<Longrightarrow> gate_activated c' = Some (Aware (su_now su)) \<Longrightarrow>
    config_step su Activate_Event c c'"
| recorded: "config_step su (Record_Event day) c c"

section \<open>Saved configurations\<close>

lemma live_gate_ok: "validate_live_gate clock gate = Inr () \<Longrightarrow> \<exists>g. gate = Some g \<and> gate_ok g"
  by (cases gate) (auto simp: validate_live_gate_def gate_ok_def failed_def Let_def split: if_splits option.splits)

lemma set_rollout_facts:
  assumes run: "set_rollout_config site shifts clock stored c = Inr raw"
    and gate: "rc_mode c \<noteq> Live \<Longrightarrow> (case rc_gate c of None \<Rightarrow> True | Some g \<Rightarrow> gate_ok g)"
  shows "raw = config_json c \<and> config_ok c \<and>
    (\<forall>a due. rc_mode c = Shadow \<and> gate_activated c = Some a \<and> rc_cutover c = Some due \<longrightarrow> clock < instant due)"
proof -
  have mode: "rc_mode c \<in> {Off, Shadow, Live}" and shape: "validate_config_shape c = Inr ()" and raw: "raw = config_json c"
    using run by (auto simp: set_rollout_config_def failed_def rbind_check rbind_Inr_iff split: if_splits)
  have due: "case rc_cutover c of None \<Rightarrow> True | Some m \<Rightarrow> is_aware m"
  proof (cases "rc_cutover c")
    case (Some m)
    then have "validate_cutover site shifts (Some m) = Inr ()"
      using run by (auto simp: set_rollout_config_def failed_def rbind_Inr_iff split: if_splits)
    then show ?thesis using Some by (cases m) (auto simp: validate_cutover_def failed_def is_aware_def)
  qed simp
  have "case rc_gate c of None \<Rightarrow> True | Some g \<Rightarrow> gate_ok g"
  proof (cases "rc_mode c = Live")
    case True
    then obtain m where "check_live_save site shifts clock c = Inr ()" using run
      by (auto simp: set_rollout_config_def failed_def rbind_Inr_iff split: if_splits)
    then have "validate_live_gate clock (rc_gate c) = Inr ()"
      by (auto simp: check_live_save_def rbind_Inr_iff split: option.splits)
    then show ?thesis using live_gate_ok by fastforce
  qed (rule gate)
  moreover have "clock < instant m" if "rc_mode c = Shadow" "gate_activated c = Some a" "rc_cutover c = Some m" for a m
    using run that by (auto simp: set_rollout_config_def failed_def rbind_Inr_iff check_rollback_save_def split: if_splits)
  ultimately show ?thesis using mode shape raw due by (auto simp: config_ok_def)
qed

lemma save_config_facts:
  assumes "save_config pt su c st = Inr st'" and "rc_mode c \<noteq> Live \<Longrightarrow> (case rc_gate c of None \<Rightarrow> True | Some g \<Rightarrow> gate_ok g)"
  shows "st' = st\<lparr>ro_setting := Some (config_json c)\<rparr> \<and> config_ok c \<and> stored_config st' = c \<and>
    (\<forall>a due. rc_mode c = Shadow \<and> gate_activated c = Some a \<and> rc_cutover c = Some due \<longrightarrow> su_clock su < instant due)"
proof -
  obtain raw where raw: "set_rollout_config (pt_site pt) (su_shifts su) (su_clock su) (ro_setting st) c = Inr raw" "st' = st\<lparr>ro_setting := Some raw\<rparr>"
    using assms(1) by (auto simp: save_config_def)
  from set_rollout_facts [OF raw(1) assms(2)] show ?thesis using raw(2) stored_json [of st' c] by auto
qed

lemma shadow_config_ok: "config_ok shadow_config"
  by (simp add: config_ok_def shadow_config_def validate_config_shape_def)

section \<open>The invariant\<close>

text \<open>The row of the setting, if there is one, reads as a sound configuration activated in the past.\<close>

definition rollout_ok :: "datetime \<Rightarrow> rollout_state \<Rightarrow> bool" where
  "rollout_ok t st =
     (case ro_setting st of
        None \<Rightarrow> True
      | Some raw \<Rightarrow> parse_config raw = Inr (stored_config st) \<and>
          (case gate_activated (stored_config st) of None \<Rightarrow> True | Some a \<Rightarrow> instant a \<le> t))"

lemma rollout_ok_stored: "rollout_ok t st \<Longrightarrow> config_ok (stored_config st)"
proof (cases "ro_setting st")
  case None
  then show ?thesis
    by (simp add: stored_config_def get_rollout_config_def config_snapshot_def off_config_def config_ok_def validate_config_shape_def)
qed (auto simp: rollout_ok_def dest: parsed_ok)

lemma rollout_ok_activated: "rollout_ok t st \<Longrightarrow> gate_activated (stored_config st) = Some a \<Longrightarrow> instant a \<le> t"
  by (cases "ro_setting st")
    (auto simp: rollout_ok_def stored_config_def get_rollout_config_def config_snapshot_def off_config_def gate_activated_def)

lemma locked: "rollout_ok t st \<Longrightarrow> lock_rollout_config st = Inr c \<Longrightarrow> c = stored_config st"
  by (auto simp: rollout_ok_def lock_rollout_config_def failed_def split: option.splits)

lemma ok_after:
  assumes "ro_setting st = Some (config_json c)" "config_ok c" "\<And>a. gate_activated c = Some a \<Longrightarrow> instant a \<le> t"
  shows "stored_config st = c" "rollout_ok t st"
  using assms config_json_parsed [OF assms(2)] stored_json [OF assms(1,2)] by (auto simp: rollout_ok_def split: option.splits)

lemma ok_same:
  assumes "ro_setting st' = ro_setting st" "rollout_ok t st" "t \<le> t'"
  shows "stored_config st' = stored_config st" "rollout_ok t' st'"
proof -
  show same: "stored_config st' = stored_config st" using assms(1) by (simp add: stored_config_def)
  then show "rollout_ok t' st'" using assms unfolding rollout_ok_def same by (auto split: option.splits)
qed

section \<open>Every event is a step of the abstract machine\<close>

text \<open>What an event from \<open>st\<close> to \<open>st'\<close> is shown to do.\<close>

definition refines :: "plant \<Rightarrow> surroundings \<Rightarrow> rollout_event \<Rightarrow> rollout_state \<Rightarrow> rollout_state \<Rightarrow> bool" where
  "refines pt su event st st' =
     (config_step su event (stored_config st) (stored_config st') \<and> rollout_ok (su_clock su) st' \<and>
      set (ro_strict st) \<subseteq> set (ro_strict st') \<and>
      (gate_activated (stored_config st) = None \<and> gate_activated (stored_config st') \<noteq> None \<longrightarrow>
        (\<exists>due. rc_cutover (stored_config st) = Some due \<and> si_day (pt_site pt) (instant due) \<in> set (ro_strict st')) \<and>
        rr_ready (build_report (su_read su) (ro_setting st) (su_now su))))"

lemma refines_schedule:
  assumes ok: "rollout_ok t st" and run: "schedule_live_cutover pt su asked choices st = Inr (c, st')"
  shows "refines pt su (Schedule_Event asked choices) st st'"
proof -
  from run obtain current due st1 status where
    cur: "lock_rollout_config st = Inr current" "rc_mode current = Shadow"
    and c: "rc_mode c = Live" "gate_activated c = None"
    and save: "save_config pt su c st = Inr st1" and st': "st' = st1\<lparr>ro_status := Some status\<rparr>"
    unfolding schedule_live_cutover_def Let_def
    by (auto simp: rbind_Inr_iff failed_def live_config_def live_gate_for_def gate_activated_def split: if_splits)
  have s: "st1 = st\<lparr>ro_setting := Some (config_json c)\<rparr>" "config_ok c" using save_config_facts [OF save] c by auto
  have "ro_setting st' = Some (config_json c)" "ro_strict st' = ro_strict st" using s st' by simp_all
  moreover note after = ok_after [OF calculation(1) s(2), of "su_clock su"] c(2)
  ultimately show ?thesis using locked [OF ok cur(1)] cur(2) c unfolding refines_def
    by (auto intro: config_step.scheduled)
qed

lemma save_effects:
  assumes "save_non_live_rollout pt su c choices st = Inr (resolved, st')"
  obtains locked st1 where "lock_optional_rollout_config st = Inr locked"
    "resolved_config (case locked of None \<Rightarrow> off_config | Some cur \<Rightarrow> cur) c (su_now su) = Inr resolved"
    "save_config pt su resolved st = Inr st1" "ro_setting st' = ro_setting st1" "ro_strict st' = ro_strict st1" "rc_mode c \<in> {Off, Shadow}"
proof -
  have epoch: "ro_setting st2 = ro_setting st1 \<and> ro_strict st2 = ro_strict st1" if "epoch_after_save cur res now st1 = Inr st2" for cur res now st1 st2
    using that by (auto simp: epoch_after_save_def set_shadow_epoch_def rbind_Inr_iff split: if_splits)
  from assms that show ?thesis unfolding save_non_live_rollout_def Let_def
    by (auto simp: rbind_Inr_iff failed_def dest!: epoch split: if_splits)
qed

lemma resolved_cases:
  assumes "resolved_config current c now = Inr resolved" and "rc_gate c = None" "config_ok current"
  obtains (as_asked) "resolved = c" "gate_activated current = None"
  | (rollback) gate a where "rc_gate current = Some gate" "lg_activated gate = Some a" "rc_mode resolved = Shadow"
      "rc_gate resolved = Some gate" "rc_cutover resolved \<noteq> None"
proof -
  have "validate_config_shape current = Inr ()" using assms(3) by (simp add: config_ok_def)
  then show ?thesis
  proof (cases rule: shape_cases)
    case (rollback due a)
    then obtain gate where "rc_gate current = Some gate" "lg_activated gate = Some a" by (auto simp: gate_activated_def split: option.splits)
    then show ?thesis using assms(1) rollback that(2) by (auto simp: resolved_config_def failed_def Let_def split: if_splits)
  next
    case (waiting due)
    then obtain gate where "rc_gate current = Some gate" "lg_activated gate = None" by (auto simp: gate_activated_def split: option.splits)
    then show ?thesis using assms(1) waiting that(1) by (auto simp: resolved_config_def failed_def Let_def split: if_splits)
  next
    case (active due a)
    then obtain gate where "rc_gate current = Some gate" "lg_activated gate = Some a" by (auto simp: gate_activated_def split: option.splits)
    then show ?thesis using assms(1) active that(2) by (auto simp: resolved_config_def failed_def Let_def split: if_splits)
  qed (use assms(1) that(1) in \<open>auto simp: resolved_config_def gate_activated_def\<close>)
qed

lemma refines_save:
  assumes ok: "rollout_ok t st" "t \<le> su_clock su" and c: "rc_gate c = None"
    and run: "save_non_live_rollout pt su c choices st = Inr (resolved, st')"
  shows "refines pt su (Save_Event mode cutover choices) st st'"
proof -
  let ?cur = "stored_config st"
  obtain locked st1 where l: "lock_optional_rollout_config st = Inr locked"
    and res: "resolved_config (case locked of None \<Rightarrow> off_config | Some cur \<Rightarrow> cur) c (su_now su) = Inr resolved"
    and save: "save_config pt su resolved st = Inr st1" and st': "ro_setting st' = ro_setting st1" "ro_strict st' = ro_strict st1"
    and mode: "rc_mode c \<in> {Off, Shadow}"
    by (rule save_effects [OF run])
  have cur: "(case locked of None \<Rightarrow> off_config | Some cur \<Rightarrow> cur) = ?cur"
    using l Rollout_Machine.locked [OF ok(1)]
    by (auto simp: lock_optional_rollout_config_def stored_config_def get_rollout_config_def config_snapshot_def split: if_splits)
  note okc = rollout_ok_stored [OF ok(1)]
  from res [unfolded cur] c okc show ?thesis
  proof (cases rule: resolved_cases)
    case as_asked
    have act: "gate_activated resolved = None" using as_asked c by (simp add: gate_activated_def)
    have s: "st1 = st\<lparr>ro_setting := Some (config_json resolved)\<rparr>" "config_ok resolved"
      using save_config_facts [OF save] as_asked c by auto
    then have "ro_setting st' = Some (config_json resolved)" "ro_strict st' = ro_strict st" using st' by simp_all
    moreover note ok_after [OF calculation(1) s(2), of "su_clock su"]
    ultimately show ?thesis unfolding refines_def using act as_asked mode by (auto intro: config_step.saved)
  next
    case (rollback gate a)
    have g: "gate_ok gate" using okc rollback(1) by (simp add: config_ok_def)
    have act: "gate_activated resolved = Some a" "gate_activated ?cur = Some a" using rollback by (simp_all add: gate_activated_def)
    obtain due where due: "rc_cutover resolved = Some due" using rollback(5) by blast
    have s: "st1 = st\<lparr>ro_setting := Some (config_json resolved)\<rparr>" "config_ok resolved" "su_clock su < instant due"
      using save_config_facts [OF save] rollback g act due by auto
    then have "ro_setting st' = Some (config_json resolved)" "ro_strict st' = ro_strict st" using st' by simp_all
    moreover have "instant a \<le> su_clock su" using rollout_ok_activated [OF ok(1) act(2)] ok(2) by simp
    moreover note after = ok_after [OF calculation(1) s(2), of "su_clock su"]
    ultimately show ?thesis unfolding refines_def using act rollback(3) due s(3) by (auto intro: config_step.rollback)
  qed
qed

lemma saved_shadow:
  assumes "save_config pt su shadow_config st = Inr st1" and "ro_setting st' = ro_setting st1"
  shows "stored_config st' = shadow_config" "rollout_ok (su_clock su) st'" "ro_strict st1 = ro_strict st"
proof -
  have "st1 = st\<lparr>ro_setting := Some (config_json shadow_config)\<rparr>"
    using save_config_facts [OF assms(1)] by (simp add: shadow_config_def)
  then have set1: "ro_setting st' = Some (config_json shadow_config)" and "ro_strict st1 = ro_strict st" using assms(2) by simp_all
  then show "ro_strict st1 = ro_strict st" by simp
  show "stored_config st' = shadow_config" "rollout_ok (su_clock su) st'"
    by (rule ok_after [OF set1 shadow_config_ok]; simp add: gate_activated_def shadow_config_def)+
qed

lemma refines_rollback:
  assumes ok: "rollout_ok t st" "t \<le> su_clock su"
    and c: "rc_mode (stored_config st) = Shadow" "rc_cutover (stored_config st) = Some due" "instant due = cutover" "cutover \<le> su_now su"
      "rc_gate (stored_config st) = Some gate" "lg_activated gate = Some activated"
    and run: "finish_rollback pt su gate activated cutover st = Inr (result, st')"
  shows "refines pt su Activate_Event st st'"
proof -
  have act: "gate_activated (stored_config st) = Some activated" using c by (simp add: gate_activated_def)
  show ?thesis
  proof (cases "validate_configured_boundary (pt_site pt) (su_rows su) (Aware cutover)")
    case (Inr t')
    then obtain st1 where save: "save_config pt su shadow_config st = Inr st1"
      and st': "st' = note_status ''rolled_back'' cutover None ((set_shadow_epoch (su_now su) st1)\<lparr>ro_blocked := None\<rparr>)"
      using run by (auto simp: finish_rollback_def)
    have same: "ro_setting st' = ro_setting st1" "ro_strict st' = ro_strict st1" using st' by (simp_all add: note_status_def set_shadow_epoch_def)
    note s = saved_shadow [OF save same(1)]
    show ?thesis unfolding refines_def s(1) using s(2,3) same(2) c act config_step.rolled_back [of "stored_config st" activated due su] by auto
  next
    case (Inl e)
    then obtain blocker where e: "e = ValueError blocker" using run by (cases e) (auto simp: finish_rollback_def)
    let ?report = "blocked_report (build_report (su_read su) (ro_setting st) (su_now su)) blocker"
    let ?c = "live_config (instant activated)
      (live_gate_for (rr_checked_at ?report) (pt_digest pt ?report (instant activated)) (Some activated))"
    obtain raw where raw: "restore_active_after_rejected_rollback (su_clock su) ?c = Inr raw"
      "ro_setting st' = Some raw" "ro_strict st' = ro_strict st"
      using run by (auto simp: finish_rollback_def Inl e Let_def note_status_def store_blocked_def)
    have gate: "validate_live_gate (su_clock su) (rc_gate ?c) = Inr ()" "raw = config_json ?c"
      using raw(1) by (auto simp: restore_active_after_rejected_rollback_def live_config_def rbind_Inr_iff failed_def split: option.splits moment.splits if_splits)
    have g: "case rc_gate ?c of None \<Rightarrow> True | Some g \<Rightarrow> gate_ok g" using live_gate_ok [OF gate(1)] by auto
    then have aware: "is_aware activated" by (simp add: live_config_def gate_ok_def live_gate_for_def)
    then have cfg: "config_ok ?c" using g
      by (simp add: config_ok_def live_config_def validate_config_shape_def earlier_def is_aware_def live_gate_for_def instant_def aware_iff)
    have "ro_setting st' = Some (config_json ?c)" using raw(2) gate(2) by simp
    moreover have "gate_activated ?c = Some activated" by (simp add: gate_activated_def live_config_def live_gate_for_def)
    moreover have "instant activated \<le> su_clock su" using rollout_ok_activated [OF ok(1) act] ok(2) by simp
    moreover note ok_after [OF calculation(1) cfg, of "su_clock su"]
    ultimately have "stored_config st' = ?c" "rollout_ok (su_clock su) st'" by simp_all
    then show ?thesis unfolding refines_def using act c raw(3)
      by (auto simp: live_config_def live_gate_for_def gate_activated_def [of "\<lparr>rc_mode = m, rc_cutover = d, rc_gate = g\<rparr>" for m d g]
          intro: config_step.restored)
  qed
qed

lemma refines_start:
  assumes ok: "rollout_ok t st" "t \<le> su_clock su" "su_now su \<le> su_clock su"
    and c: "rc_mode (stored_config st) = Live" "rc_cutover (stored_config st) = Some due" "instant due \<le> su_now su" "gate_activated (stored_config st) = None"
    and run: "decide_start pt su (instant due) st = Inr (result, st')"
  shows "refines pt su Activate_Event st st'"
proof -
  let ?built = "build_report (su_read su) (ro_setting st) (su_now su)"
  obtain report where report: "report = ?built \<or> (\<exists>b. report = blocked_report ?built b)"
    and run: "(if \<not> rr_ready report
         then rbind (save_config pt su shadow_config st) (\<lambda>st'.
              Inr (outcome Blocked (Some (instant due)) (rr_blockers report),
                   note_status ''blocked'' (instant due) (Some (rr_blockers report))
                     (store_blocked pt (instant due) report (set_shadow_epoch (su_now su) st'))))
         else
           (let gate = live_gate_for (rr_checked_at report) (pt_digest pt report (instant due)) (Some (Aware (su_now su)))
            in rbind (save_config pt su (live_config (instant due) gate)
                   (enqueue_cutover (si_day (pt_site pt) (instant due)) (su_now su) st)) (\<lambda>st'.
               Inr (outcome Activated (Some (instant due)) [],
                    note_status ''recalculation_pending'' (instant due) None (st'\<lparr>ro_blocked := None\<rparr>))))) = Inr (result, st')"
    using run by (auto simp: decide_start_def Let_def rbind_Inr_iff split: sum.splits py_error.splits)
  show ?thesis
  proof (cases "rr_ready report")
    case False
    then obtain st1 where save: "save_config pt su shadow_config st = Inr st1"
      and same: "ro_setting st' = ro_setting st1" "ro_strict st' = ro_strict st1"
      using run by (auto simp: note_status_def store_blocked_def set_shadow_epoch_def)
    note s = saved_shadow [OF save same(1)]
    have "gate_activated shadow_config = None" by (simp add: gate_activated_def shadow_config_def)
    then show ?thesis unfolding refines_def s(1) using s(2,3) same(2) c config_step.refused [of "stored_config st" due su] by auto
  next
    case True
    then have built: "rr_ready ?built" using report by (auto simp: blocked_report_def)
    let ?c = "live_config (instant due) (live_gate_for (rr_checked_at report) (pt_digest pt report (instant due)) (Some (Aware (su_now su))))"
    let ?st = "enqueue_cutover (si_day (pt_site pt) (instant due)) (su_now su) st"
    obtain st1 where save: "save_config pt su ?c ?st = Inr st1"
      and same: "ro_setting st' = ro_setting st1" "ro_strict st' = ro_strict st1"
      using run True by (auto simp: note_status_def Let_def)
    have s: "st1 = ?st\<lparr>ro_setting := Some (config_json ?c)\<rparr>" "config_ok ?c"
      using save_config_facts [OF save] by (simp_all add: live_config_def)
    have "ro_setting st' = Some (config_json ?c)" using s(1) same by simp
    moreover have act: "gate_activated ?c = Some (Aware (su_now su))" by (simp add: gate_activated_def live_config_def live_gate_for_def)
    moreover note ok_after [OF calculation(1) s(2), of "su_clock su"]
    ultimately have new: "stored_config st' = ?c" "rollout_ok (su_clock su) st'" using ok(3) by (simp_all add: instant_def)
    have strict: "set (ro_strict st') = insert (si_day (pt_site pt) (instant due)) (set (ro_strict st))"
      using s(1) same(2) by (simp add: enqueue_cutover_def Let_def)
    have "config_step su Activate_Event (stored_config st) ?c"
      by (rule config_step.started [OF c(1,4,2,3)]) (simp_all add: act, simp_all add: live_config_def)
    then show ?thesis unfolding refines_def new(1) using new(2) strict c built by auto
  qed
qed

lemma refines_nothing:
  assumes "rollout_ok t st" "t \<le> su_clock su" "ro_setting st' = ro_setting st" "set (ro_strict st) \<subseteq> set (ro_strict st')"
    and "config_step su event (stored_config st) (stored_config st)"
  shows "refines pt su event st st'"
  using assms ok_same [OF assms(3,1,2)] by (auto simp: refines_def)

lemma refines_activate:
  assumes ok: "rollout_ok t st" "t \<le> su_clock su" "su_now su \<le> su_clock su"
    and run: "activate_due_cutover pt su st = Inr (result, st')"
  shows "refines pt su Activate_Event st st'"
proof (cases "lock_rollout_config st")
  case (Inl e)
  then have "ro_setting st = None" using ok(1) by (auto simp: lock_rollout_config_def rollout_ok_def split: option.splits)
  then have "rc_cutover (stored_config st) = None"
    by (simp add: stored_config_def get_rollout_config_def config_snapshot_def off_config_def)
  moreover have "st' = st" using run Inl by (simp add: activate_due_cutover_def)
  ultimately show ?thesis using ok by (intro refines_nothing) (auto intro: config_step.waits)
next
  case (Inr c)
  note c = locked [OF ok(1) Inr]
  have "validate_config_shape c = Inr ()" using rollout_ok_stored [OF ok(1)] by (simp add: config_ok_def c)
  then show ?thesis
  proof (cases rule: shape_cases)
    case (rollback due a)
    obtain gate where gate: "rc_gate c = Some gate" "lg_activated gate = Some a" using rollback(3) by (auto simp: gate_activated_def split: option.splits)
    show ?thesis
    proof (cases "su_now su < instant due")
      case True
      then have "st' = st" using run Inr rollback gate by (simp add: activate_due_cutover_def)
      then show ?thesis using ok True rollback(2) by (intro refines_nothing) (auto simp: c [symmetric] intro!: config_step.waits)
    next
      case False
      then have "finish_rollback pt su gate a (instant due) st = Inr (result, st')"
        using run Inr rollback gate by (simp add: activate_due_cutover_def)
      then show ?thesis using refines_rollback [OF ok(1,2)] rollback gate False c by auto
    qed
  next
    case (waiting due)
    then obtain gate where gate: "rc_gate c = Some gate" by blast
    show ?thesis
    proof (cases "su_now su < instant due")
      case True
      then have "st' = st" using run Inr waiting gate by (simp add: activate_due_cutover_def)
      then show ?thesis using ok True waiting(2) by (intro refines_nothing) (auto simp: c [symmetric] intro!: config_step.waits)
    next
      case False
      then have "decide_start pt su (instant due) st = Inr (result, st')"
        using run Inr waiting gate by (simp add: activate_due_cutover_def)
      then show ?thesis using refines_start [OF ok] waiting False c by auto
    qed
  next
    case (active due a)
    then obtain gate where gate: "rc_gate c = Some gate" by (auto simp: gate_activated_def split: option.splits)
    have "ro_setting st' = ro_setting st" "ro_strict st' = ro_strict st"
      using run Inr active gate by (auto simp: activate_due_cutover_def report_activated_def note_status_def Let_def split: if_splits)
    then show ?thesis using ok active by (intro refines_nothing) (auto simp: c [symmetric] intro!: config_step.waits)
  next
    case off
    then have "st' = st" using run Inr by (simp add: activate_due_cutover_def)
    then show ?thesis by (intro refines_nothing [OF ok(1,2)]) (use off c in \<open>auto intro: config_step.waits\<close>)
  next
    case plain
    then have "st' = st" using run Inr by (simp add: activate_due_cutover_def)
    then show ?thesis by (intro refines_nothing [OF ok(1,2)]) (use plain c in \<open>auto intro: config_step.waits\<close>)
  qed
qed

lemma event_refines:
  assumes "rollout_ok t st" "t \<le> su_clock su" "su_now su \<le> su_clock su" "run_event pt su event st = Inr st'"
  shows "refines pt su event st st'"
proof (cases event)
  case (Schedule_Event cutover choices)
  then show ?thesis using assms refines_schedule [OF assms(1)] by (auto simp: run_event_def)
next
  case (Save_Event mode cutover choices)
  then obtain r where "save_non_live_rollout pt su \<lparr>rc_mode = mode, rc_cutover = cutover, rc_gate = None\<rparr> choices st = Inr (r, st')"
    using assms(4) by (auto simp: run_event_def)
  from refines_save [OF assms(1,2) _ this] show ?thesis using Save_Event by simp
next
  case Activate_Event
  then show ?thesis using assms refines_activate [OF assms(1,2,3)] by (auto simp: run_event_def)
next
  case (Record_Event day)
  then have "ro_setting st' = ro_setting st" "set (ro_strict st) \<subseteq> set (ro_strict st')"
    using assms(4) by (auto simp: run_event_def record_strict_day_def split: if_splits)
  then show ?thesis using Record_Event refines_nothing [OF assms(1,2)] config_step.recorded by auto
qed

lemma reachable_ok: "reachable pt t st \<Longrightarrow> rollout_ok t st"
proof (induction rule: reachable.induct)
  case (start t departments)
  show ?case by (simp add: rollout_ok_def fresh_state_def)
next
  case (wait t st t')
  then show ?case using ok_same(2) by blast
next
  case (event t st su e st')
  then show ?case using event_refines by (auto simp: refines_def)
qed

end
