(* ===== verification/Rollout_Claims.thy ===== *)
theory Rollout_Claims
  imports Rollout_Machine
begin

text \<open>
  The properties of the rollout: the setting of reachable states, starts and ends of live matching, and
  strict days; and a rollout of three days that the witnesses evaluate.
\<close>

section \<open>Strict days\<close>

definition live_at :: "rollout_state \<Rightarrow> datetime \<Rightarrow> bool" where
  "live_at st t = live_active (stored_config st) t"

definition strict_at :: "plant \<Rightarrow> rollout_state \<Rightarrow> date \<Rightarrow> datetime \<Rightarrow> bool" where
  "strict_at pt st day t = (match_state_for_day (pt_site pt) (ro_strict st) (ro_setting st) day t = Strict)"

lemma match_state_ok:
  assumes "rollout_ok t st"
  shows "match_state_for_day site (ro_strict st) (ro_setting st) day u =
      (if day \<in> set (ro_strict st) then Strict else match_state_from_config site day (stored_config st) u)"
    "match_state_for_day_cur site (ro_strict st) (ro_setting st) day u =
      (if day \<in> set (ro_strict st) then Strict else match_state_from_config site day (stored_config st) u)"
proof -
  have "match_state_for_day site (ro_strict st) (ro_setting st) day u =
      (if day \<in> set (ro_strict st) then Strict else match_state_from_config site day (stored_config st) u) \<and>
    match_state_for_day_cur site (ro_strict st) (ro_setting st) day u =
      (if day \<in> set (ro_strict st) then Strict else match_state_from_config site day (stored_config st) u)"
  proof (cases "ro_setting st")
    case None
    then show ?thesis
      by (simp add: match_state_for_day_def match_state_for_day_cur_def config_snapshot_def stored_config_def get_rollout_config_def)
  next
    case (Some raw)
    then have c: "parse_config raw = Inr (stored_config st)" using assms by (simp add: rollout_ok_def)
    then have "raw \<noteq> PyNone" by (auto simp: parse_config_def)
    then show ?thesis using Some c by (simp add: match_state_for_day_def match_state_for_day_cur_def config_snapshot_def)
  qed
  then show "match_state_for_day site (ro_strict st) (ro_setting st) day u =
      (if day \<in> set (ro_strict st) then Strict else match_state_from_config site day (stored_config st) u)"
    "match_state_for_day_cur site (ro_strict st) (ro_setting st) day u =
      (if day \<in> set (ro_strict st) then Strict else match_state_from_config site day (stored_config st) u)" by blast+
qed

lemma live_iff:
  assumes "rollout_ok t st" "t \<le> u"
  shows "live_at st u \<longleftrightarrow> gate_activated (stored_config st) \<noteq> None"
proof -
  have "validate_config_shape (stored_config st) = Inr ()" using rollout_ok_stored [OF assms(1)] by (simp add: config_ok_def)
  then show ?thesis
    by (cases rule: shape_cases)
      (use rollout_ok_activated [OF assms(1)] assms(2) in \<open>auto simp: live_at_def live_active_def gate_activated_def split: option.splits\<close>)
qed

lemma strict_config:
  "match_state_from_config site day c u = Strict \<longleftrightarrow> live_active c u \<and>
     (\<exists>due. rc_cutover c = Some due \<and>
        (rc_mode c = Shadow \<and> (\<exists>a. gate_activated c = Some a \<and> si_day site (instant a) \<le> day) \<and> day < si_day site (instant due) \<or>
         rc_mode c = Live \<and> si_day site (instant due) \<le> day \<and> instant due \<le> u))"
  by (auto simp: match_state_from_config_def Let_def live_active_def split: option.splits rollout_mode.splits)

text \<open>Waiting alone only advances a day.\<close>

lemma match_state_mono: "u \<le> u' \<Longrightarrow> match_state_from_config site day c u \<le> match_state_from_config site day c u'"
  by (auto simp: match_state_from_config_def Let_def live_active_def split: option.splits rollout_mode.splits)

lemma pending_config:
  "match_state_from_config site day c u = Pending \<Longrightarrow>
     \<exists>due. rc_cutover c = Some due \<and> instant due \<le> u \<and> si_day site (instant due) \<le> day \<and>
       (rc_mode c = Shadow \<and> gate_activated c \<noteq> None \<or> rc_mode c = Live \<and> \<not> live_active c u)"
  by (auto simp: match_state_from_config_def Let_def split: option.splits rollout_mode.splits if_splits)

text \<open>A decision at its time leaves nothing to wait for.\<close>

lemma decided:
  assumes "config_step su Activate_Event c c'" and "\<And>a. gate_activated c = Some a \<Longrightarrow> instant a \<le> su_now su"
    and "validate_config_shape c = Inr ()"
  shows "match_state_from_config site day c' (su_now su) \<noteq> Pending"
proof
  assume pending: "match_state_from_config site day c' (su_now su) = Pending"
  from assms(1) show False
  proof cases
    case waits
    from pending_config [OF pending] obtain due where due: "rc_cutover c = Some due" "instant due \<le> su_now su"
      "rc_mode c = Shadow \<or> rc_mode c = Live \<and> \<not> live_active c (su_now su)" using waits(1) by auto
    then show False using waits assms(2) by (auto simp: live_active_def)
  next
    case (restored a due)
    then show False using pending_config [OF pending] assms(2) by (auto simp: live_active_def)
  next
    case (started due)
    then show False using pending_config [OF pending] by (auto simp: live_active_def instant_def)
  qed (use pending in \<open>auto simp: match_state_from_config_def shadow_config_def\<close>)
qed

text \<open>What an event does to a day that is strict by the configuration.\<close>

lemma strict_step:
  assumes step: "config_step su event c c'" and strict: "match_state_from_config site day c t = Strict" and u: "t \<le> u"
    and active: "gate_activated c' \<noteq> None" "\<And>a. gate_activated c = Some a \<Longrightarrow> instant a \<le> u" and shape: "validate_config_shape c = Inr ()"
  shows "match_state_from_config site day c' u = Strict \<or>
    rc_mode c' = Shadow \<and> (\<exists>a due. gate_activated c' = Some a \<and> rc_cutover c' = Some due \<and>
      (day < si_day site (instant a) \<or> si_day site (instant due) \<le> day))"
  using step
proof cases
  case (rollback a due mode cutover choices)
  then show ?thesis using active(2) by (auto simp: strict_config live_active_def)
next
  case waits
  then show ?thesis using strict u by (auto simp: strict_config live_active_def split: option.splits)
next
  case (restored a due)
  then show ?thesis using strict active(2) by (auto simp: strict_config live_active_def instant_def split: moment.splits)
next
  case recorded
  then show ?thesis using strict u by (auto simp: strict_config live_active_def split: option.splits)
qed (use strict active in \<open>auto simp: strict_config live_active_def shadow_config_def gate_activated_def\<close>)

section \<open>A rollout\<close>

text \<open>Days start at midnight of the clock; the shift of Monday, day 1, starts at seven.\<close>

definition demo_plant :: plant where
  "demo_plant =
     \<lparr>pt_site = \<lparr>si_day = (\<lambda>t. t div minutes 1440), si_time = (\<lambda>t. t mod minutes 1440)\<rparr>, pt_digest = (\<lambda>_ _. ''seal'')\<rparr>"

definition demo_time :: "int \<Rightarrow> int \<Rightarrow> datetime" where
  "demo_time day hour = minutes (1440 * day + 60 * hour)"

definition demo_rows :: boundary_rows where
  "demo_rows =
     \<lparr>br_global_start = None, br_weekdays = [], br_saturday_start = None, br_published = False,
      br_custom_start = None, br_holiday = None, br_recruitment = None\<rparr>"

definition demo_healthy :: "datetime \<Rightarrow> readiness_inputs" where
  "demo_healthy now =
     unavailable_inputs\<lparr>ri_baseline := Some now, ri_incremental := Some now, ri_full_sweep := Some now,
       ri_projection := Some now, ri_shadow_complete_days := 1, ri_shadow_error := None, ri_source_error := None\<rparr>"

definition demo_around :: "datetime \<Rightarrow> surroundings" where
  "demo_around now =
     \<lparr>su_now = now, su_clock = now, su_shifts = \<lparr>sh_start = (\<lambda>_. clock_time 7 0), sh_workday = (\<lambda>_. Inr True)\<rparr>,
      su_rows = (\<lambda>_. Some demo_rows), su_read = (\<lambda>_ _. Some (demo_healthy now))\<rparr>"

fun demo_run :: "(datetime \<times> rollout_event) list \<Rightarrow> rollout_state \<Rightarrow> rollout_state result" where
  "demo_run [] st = Inr st"
| "demo_run ((now, event) # rest) st = rbind (run_event demo_plant (demo_around now) event st) (demo_run rest)"

definition demo_start :: "(datetime \<times> rollout_event) list" where
  "demo_start =
     [(demo_time 1 5, Save_Event Shadow None []),
      (demo_time 1 6, Schedule_Event (Aware (demo_time 1 7)) None)]"

definition demo_rollback :: rollout_event where
  "demo_rollback = Save_Event Shadow (Some (Aware (demo_time 3 7))) []"

lemma demo_reachable:
  "reachable demo_plant t st \<Longrightarrow> demo_run events st = Inr st' \<Longrightarrow> sorted (t # map fst events) \<Longrightarrow>
     reachable demo_plant (last (t # map fst events)) st'"
proof (induction events arbitrary: t st)
  case (Cons ne events)
  obtain now event where ne: "ne = (now, event)" by (cases ne)
  then obtain st1 where st1: "run_event demo_plant (demo_around now) event st = Inr st1" "demo_run events st1 = Inr st'"
    using Cons.prems(2) by auto
  have "reachable demo_plant (su_clock (demo_around now)) st1"
    by (rule reachable.event [OF Cons.prems(1) _ _ st1(1)]) (use Cons.prems(3) ne in \<open>simp_all add: demo_around_def\<close>)
  then have "reachable demo_plant now st1" by (simp add: demo_around_def)
  from Cons.IH [OF this st1(2)] show ?case using Cons.prems(3) ne by simp
qed simp

lemma rollout_times: "sorted (0 # map fst (demo_start @ [(demo_time 1 7, Activate_Event), (demo_time 1 8, demo_rollback)]))"
  "sorted (0 # map fst (demo_start @ [(demo_time 1 7, Activate_Event)]))" "sorted (0 # map fst demo_start)"
  by (simp_all add: demo_start_def demo_time_def minutes_def)

lemma demo_scheduled:
  obtains st where "demo_run demo_start (fresh_state []) = Inr st" "reachable demo_plant (demo_time 1 6) st"
    "match_state_for_day (pt_site demo_plant) (ro_strict st) (ro_setting st) 1 (demo_time 1 7) = Pending"
proof -
  have "(case demo_run demo_start (fresh_state []) of Inl _ \<Rightarrow> False | Inr st \<Rightarrow>
    match_state_for_day (pt_site demo_plant) (ro_strict st) (ro_setting st) 1 (demo_time 1 7) = Pending)" by code_simp
  then obtain st where st: "demo_run demo_start (fresh_state []) = Inr st"
    "match_state_for_day (pt_site demo_plant) (ro_strict st) (ro_setting st) 1 (demo_time 1 7) = Pending" by (auto split: sum.splits)
  have "reachable demo_plant (last (0 # map fst demo_start)) st" by (rule demo_reachable [OF reachable.start st(1) rollout_times(3)])
  then show ?thesis using that st by (simp add: demo_start_def)
qed

lemma demo_activated:
  obtains st where "demo_run (demo_start @ [(demo_time 1 7, Activate_Event)]) (fresh_state []) = Inr st"
    "reachable demo_plant (demo_time 1 7) st" "ro_strict st = [1]" "gate_activated (get_rollout_config (ro_setting st)) = Some (Aware (demo_time 1 7))"
proof -
  have "(case demo_run (demo_start @ [(demo_time 1 7, Activate_Event)]) (fresh_state []) of Inl _ \<Rightarrow> False | Inr st \<Rightarrow>
    ro_strict st = [1] \<and> gate_activated (get_rollout_config (ro_setting st)) = Some (Aware (demo_time 1 7)))" by code_simp
  then obtain st where st: "demo_run (demo_start @ [(demo_time 1 7, Activate_Event)]) (fresh_state []) = Inr st"
    "ro_strict st = [1]" "gate_activated (get_rollout_config (ro_setting st)) = Some (Aware (demo_time 1 7))" by (auto split: sum.splits)
  have "reachable demo_plant (last (0 # map fst (demo_start @ [(demo_time 1 7, Activate_Event)]))) st"
    by (rule demo_reachable [OF reachable.start st(1) rollout_times(2)])
  then show ?thesis using that st by simp
qed

text \<open>
  Scheduling live while a rollback is pending takes the activated gate away: live ends at once, in the
  middle of the day, without a boundary.
\<close>

lemma scheduling_over_rollback_ends_live:
  "(case demo_run (demo_start @ [(demo_time 1 7, Activate_Event), (demo_time 1 8, demo_rollback)]) (fresh_state []) of
      Inl _ \<Rightarrow> False
    | Inr st \<Rightarrow> live_active (get_rollout_config (ro_setting st)) (demo_time 1 9) \<and>
        (case run_event demo_plant (demo_around (demo_time 1 9)) (Schedule_Event (Aware (demo_time 4 7)) None) st of
           Inl _ \<Rightarrow> False
         | Inr st' \<Rightarrow> \<not> live_active (get_rollout_config (ro_setting st')) (demo_time 1 9)))"
  by code_simp

section \<open>The properties\<close>

text \<open>
  C38. The rollout's setting is always sound: in every reachable state the row, if there is one, parses,
  with an activation that lies in the past; the two decisions of how a day is matched agree; a day waits
  only for a boundary that is due, never because a setting is unreadable; and with no event, a day only
  advances from legacy to pending to strict as time passes.
\<close>

theorem rollout_setting_is_sound:
  assumes "reachable pt t st"
  shows "(case ro_setting st of None \<Rightarrow> True | Some raw \<Rightarrow>
      (case parse_config raw of Inl _ \<Rightarrow> False | Inr c \<Rightarrow> (case gate_activated c of None \<Rightarrow> True | Some a \<Rightarrow> instant a \<le> t))) \<and>
    match_state_for_day (pt_site pt) (ro_strict st) (ro_setting st) day u = match_state_for_day_cur (pt_site pt) (ro_strict st) (ro_setting st) day u \<and>
    (match_state_for_day (pt_site pt) (ro_strict st) (ro_setting st) day u = Pending \<longrightarrow>
      (\<exists>due. rc_cutover (get_rollout_config (ro_setting st)) = Some due \<and> instant due \<le> u \<and> si_day (pt_site pt) (instant due) \<le> day)) \<and>
    (u \<le> u' \<longrightarrow> match_state_for_day (pt_site pt) (ro_strict st) (ro_setting st) day u \<le> match_state_for_day (pt_site pt) (ro_strict st) (ro_setting st) day u')"
proof -
  have ok: "rollout_ok t st" by (rule reachable_ok [OF assms])
  show ?thesis using ok match_state_ok [OF ok] pending_config [of "pt_site pt" day "stored_config st" u] match_state_mono
    by (auto simp: rollout_ok_def stored_config_def [symmetric] split: option.splits if_splits)
qed

theorem rollout_setting_is_sound_witness:
  "\<exists>st. reachable demo_plant (demo_time 1 6) st \<and>
     (\<exists>due. rc_cutover (get_rollout_config (ro_setting st)) = Some due \<and> instant due \<le> demo_time 1 7)"
proof -
  obtain st where st: "reachable demo_plant (demo_time 1 6) st"
    "match_state_for_day (pt_site demo_plant) (ro_strict st) (ro_setting st) 1 (demo_time 1 7) = Pending" by (rule demo_scheduled)
  from rollout_setting_is_sound [OF st(1), of 1 "demo_time 1 7"] st show ?thesis by blast
qed

text \<open>
  C39. Live changes only where it may: an event ends live matching only by finishing a rollback that is
  due, or by scheduling live over a pending rollback (which the code does not refuse); an event starts
  it only at a due boundary with a ready report, and records the boundary's day as strict; and an
  activation at its own time leaves no day waiting.
\<close>

theorem live_changes_at_boundaries:
  assumes "reachable pt t st" and "t \<le> su_clock su" and "su_now su \<le> su_clock su" and "run_event pt su event st = Inr st'"
  shows "(live_active (get_rollout_config (ro_setting st)) (su_clock su) \<and> \<not> live_active (get_rollout_config (ro_setting st')) (su_clock su) \<longrightarrow>
      rc_mode (get_rollout_config (ro_setting st)) = Shadow \<and>
      ((\<exists>cutover choices. event = Schedule_Event cutover choices) \<or>
       event = Activate_Event \<and> (\<exists>due. rc_cutover (get_rollout_config (ro_setting st)) = Some due \<and> instant due \<le> su_now su))) \<and>
    (\<not> live_active (get_rollout_config (ro_setting st)) (su_clock su) \<and> live_active (get_rollout_config (ro_setting st')) (su_clock su) \<longrightarrow>
      event = Activate_Event \<and> rr_ready (build_report (su_read su) (ro_setting st) (su_now su)) \<and>
      (\<exists>due. rc_cutover (get_rollout_config (ro_setting st)) = Some due \<and> instant due \<le> su_now su \<and>
         si_day (pt_site pt) (instant due) \<in> set (ro_strict st'))) \<and>
    (event = Activate_Event \<and> t \<le> su_now su \<longrightarrow>
      match_state_for_day (pt_site pt) (ro_strict st') (ro_setting st') day (su_now su) \<noteq> Pending)"
proof -
  let ?c = "stored_config st" and ?c' = "stored_config st'"
  have ok: "rollout_ok t st" by (rule reachable_ok [OF assms(1)])
  have r: "refines pt su event st st'" by (rule event_refines [OF ok assms(2-4)])
  then have step: "config_step su event ?c ?c'" and ok': "rollout_ok (su_clock su) st'" by (simp_all add: refines_def)
  have live: "live_at st (su_clock su) \<longleftrightarrow> gate_activated ?c \<noteq> None" "live_at st' (su_clock su) \<longleftrightarrow> gate_activated ?c' \<noteq> None"
    using live_iff [OF ok assms(2)] live_iff [OF ok'] by simp_all
  have ends: "rc_mode ?c = Shadow \<and> ((\<exists>cutover choices. event = Schedule_Event cutover choices) \<or>
       event = Activate_Event \<and> (\<exists>due. rc_cutover ?c = Some due \<and> instant due \<le> su_now su))"
    if "gate_activated ?c \<noteq> None" "gate_activated ?c' = None" using step that by cases auto
  have starts: "event = Activate_Event \<and> rr_ready (build_report (su_read su) (ro_setting st) (su_now su)) \<and>
      (\<exists>due. rc_cutover ?c = Some due \<and> instant due \<le> su_now su \<and> si_day (pt_site pt) (instant due) \<in> set (ro_strict st'))"
    if "gate_activated ?c = None" "gate_activated ?c' \<noteq> None"
  proof -
    have "event = Activate_Event \<and> (\<exists>due. rc_cutover ?c = Some due \<and> instant due \<le> su_now su)" using step that by cases auto
    then show ?thesis using r that by (auto simp: refines_def)
  qed
  have settled: "match_state_for_day (pt_site pt) (ro_strict st') (ro_setting st') day (su_now su) \<noteq> Pending"
    if "event = Activate_Event" "t \<le> su_now su"
  proof -
    have past: "\<And>a. gate_activated ?c = Some a \<Longrightarrow> instant a \<le> su_now su" using rollout_ok_activated [OF ok] that(2) by fastforce
    have shape: "validate_config_shape ?c = Inr ()" using rollout_ok_stored [OF ok] by (simp add: config_ok_def)
    show ?thesis using decided [OF step [unfolded that(1)] past shape] by (simp add: match_state_ok [OF ok'])
  qed
  show ?thesis using ends starts settled live unfolding live_at_def stored_config_def by blast
qed

theorem live_changes_at_boundaries_witness:
  "\<exists>st st'. reachable demo_plant (demo_time 1 6) st \<and> run_event demo_plant (demo_around (demo_time 1 7)) Activate_Event st = Inr st' \<and>
     match_state_for_day (pt_site demo_plant) (ro_strict st') (ro_setting st') 3 (demo_time 1 7) \<noteq> Pending"
proof -
  obtain st where st: "demo_run demo_start (fresh_state []) = Inr st" "reachable demo_plant (demo_time 1 6) st" by (rule demo_scheduled)
  have split: "demo_run (xs @ ys) st0 = rbind (demo_run xs st0) (demo_run ys)" for xs ys st0
  proof (induction xs arbitrary: st0)
    case (Cons x xs)
    then show ?case by (cases x; cases "run_event demo_plant (demo_around (fst x)) (snd x) st0") auto
  qed simp
  obtain st' where st': "run_event demo_plant (demo_around (demo_time 1 7)) Activate_Event st = Inr st'"
    using demo_activated st(1) unfolding split by (auto simp: rbind_Inr_iff)
  have "demo_time 1 6 \<le> su_now (demo_around (demo_time 1 7))" "su_now (demo_around (demo_time 1 7)) = su_clock (demo_around (demo_time 1 7))"
    "su_now (demo_around (demo_time 1 7)) = demo_time 1 7"
    by (simp_all add: demo_around_def demo_time_def minutes_def)
  then have "match_state_for_day (pt_site demo_plant) (ro_strict st') (ro_setting st') 3 (demo_time 1 7) \<noteq> Pending"
    using live_changes_at_boundaries [OF st(2) _ _ st', of 3] by simp
  then show ?thesis using st(2) st' by blast
qed

text \<open>
  C40. Strict days stay strict: recorded days are never forgotten, and a day that is matched strictly
  when an event happens is matched strictly from then on, as long as live stays active, unless the event
  has scheduled a rollback that leaves the day out: before the day of the activation or from the day
  of the rollback on.
\<close>

theorem strict_days_stay_strict:
  assumes "reachable pt t st" and "t \<le> su_clock su" and "su_now su \<le> su_clock su" and "run_event pt su event st = Inr st'"
    and "match_state_for_day (pt_site pt) (ro_strict st) (ro_setting st) day (su_clock su) = Strict"
    and "live_active (get_rollout_config (ro_setting st')) (su_clock su)" and "su_clock su \<le> u"
  shows "set (ro_strict st) \<subseteq> set (ro_strict st') \<and>
    (match_state_for_day (pt_site pt) (ro_strict st') (ro_setting st') day u = Strict \<or>
     rc_mode (get_rollout_config (ro_setting st')) = Shadow \<and>
     (\<exists>a due. gate_activated (get_rollout_config (ro_setting st')) = Some a \<and> rc_cutover (get_rollout_config (ro_setting st')) = Some due \<and>
        (day < si_day (pt_site pt) (instant a) \<or> si_day (pt_site pt) (instant due) \<le> day)))"
proof -
  let ?c = "stored_config st" and ?c' = "stored_config st'"
  have ok: "rollout_ok t st" by (rule reachable_ok [OF assms(1)])
  have r: "refines pt su event st st'" by (rule event_refines [OF ok assms(2-4)])
  then have step: "config_step su event ?c ?c'" and ok': "rollout_ok (su_clock su) st'" and sub: "set (ro_strict st) \<subseteq> set (ro_strict st')"
    by (simp_all add: refines_def)
  have active: "gate_activated ?c' \<noteq> None" using live_iff [OF ok', of "su_clock su"] assms(6) by (simp add: live_at_def stored_config_def)
  have past: "\<And>a. gate_activated ?c = Some a \<Longrightarrow> instant a \<le> u" using rollout_ok_activated [OF ok] assms(2,7) by fastforce
  have shape: "validate_config_shape ?c = Inr ()" using rollout_ok_stored [OF ok] by (simp add: config_ok_def)
  show ?thesis
  proof (cases "day \<in> set (ro_strict st')")
    case True
    then show ?thesis using sub by (simp add: match_state_for_day_def)
  next
    case False
    then have "match_state_from_config (pt_site pt) day ?c (su_clock su) = Strict"
      using assms(5) sub by (auto simp: match_state_ok [OF ok] split: if_splits)
    from strict_step [OF step this assms(7) active past shape] show ?thesis
      using sub False by (simp add: match_state_ok [OF ok'] stored_config_def)
  qed
qed

theorem strict_days_stay_strict_witness:
  "\<exists>st st'. reachable demo_plant (demo_time 1 7) st \<and> run_event demo_plant (demo_around (demo_time 1 8)) demo_rollback st = Inr st' \<and>
     set (ro_strict st) \<subseteq> set (ro_strict st') \<and>
     match_state_for_day (pt_site demo_plant) (ro_strict st') (ro_setting st') 2 (demo_time 2 9) = Strict"
proof -
  let ?su = "demo_around (demo_time 1 8)"
  obtain st where st: "demo_run (demo_start @ [(demo_time 1 7, Activate_Event)]) (fresh_state []) = Inr st" "reachable demo_plant (demo_time 1 7) st"
    by (rule demo_activated)
  have "(case demo_run (demo_start @ [(demo_time 1 7, Activate_Event)]) (fresh_state []) of Inl _ \<Rightarrow> False | Inr st \<Rightarrow>
      match_state_for_day (pt_site demo_plant) (ro_strict st) (ro_setting st) 2 (demo_time 1 8) = Strict \<and>
      (case run_event demo_plant (demo_around (demo_time 1 8)) demo_rollback st of Inl _ \<Rightarrow> False | Inr st' \<Rightarrow>
        live_active (get_rollout_config (ro_setting st')) (demo_time 1 8) \<and>
        gate_activated (get_rollout_config (ro_setting st')) = Some (Aware (demo_time 1 7)) \<and>
        rc_cutover (get_rollout_config (ro_setting st')) = Some (Aware (demo_time 3 7))))" by code_simp
  then obtain st' where st': "match_state_for_day (pt_site demo_plant) (ro_strict st) (ro_setting st) 2 (demo_time 1 8) = Strict"
    "run_event demo_plant ?su demo_rollback st = Inr st'" "live_active (get_rollout_config (ro_setting st')) (demo_time 1 8)"
    "gate_activated (get_rollout_config (ro_setting st')) = Some (Aware (demo_time 1 7))"
    "rc_cutover (get_rollout_config (ro_setting st')) = Some (Aware (demo_time 3 7))"
    unfolding st(1) by (auto split: sum.splits)
  have su: "su_clock ?su = demo_time 1 8" "su_now ?su = demo_time 1 8" by (simp_all add: demo_around_def)
  have times: "demo_time 1 7 \<le> demo_time 1 8" "demo_time 1 8 \<le> demo_time 2 9" by (simp_all add: demo_time_def minutes_def)
  from strict_days_stay_strict [OF st(2) _ _ st'(2), of 2 "demo_time 2 9"] st'(1,3) times
  have "set (ro_strict st) \<subseteq> set (ro_strict st') \<and>
    (match_state_for_day (pt_site demo_plant) (ro_strict st') (ro_setting st') 2 (demo_time 2 9) = Strict \<or>
     2 < si_day (pt_site demo_plant) (demo_time 1 7) \<or> si_day (pt_site demo_plant) (demo_time 3 7) \<le> 2)"
    unfolding su st'(4,5) by (auto simp: instant_def)
  then have "set (ro_strict st) \<subseteq> set (ro_strict st') \<and>
     match_state_for_day (pt_site demo_plant) (ro_strict st') (ro_setting st') 2 (demo_time 2 9) = Strict"
    by (simp add: demo_plant_def demo_time_def minutes_def)
  then show ?thesis using st(2) st'(2) by blast
qed

end
