(* ===== verification/Spec2Isabelle.thy ===== *)
theory Spec2Isabelle
  imports Solver_Properties Timeline_Claims Correction_Claims Correction_Job_Claims Quick_Punch_Claims Work_Claims Saturday_Claims
    Quick_Fix_Claims Plan_Codec_Claims Rollout_Claims
begin

text \<open>
  A verification library of the plant manager, \<open>src/src/zira_dashboard\<close>: the server that schedules people
  to work centers, reads where they clocked in from Odoo, credits the pallets of the machines to
  them, and corrects wrong attendances in Odoo. The library models the decisions of the program, module by
  module in the order of the code, and leaves the web pages, the SQL and the transports aside.

  \<^bold>\<open>How the parts interact.\<close> The schedule solver (\<open>schedule_solver.py\<close>) proposes who works where. The
  attendance mirror's rows become location spans (\<open>attendance_timeline.py\<close>), the spans become work segments
  (\<open>assignment_windows.py\<close>), in which quick punches are smoothed away (\<open>quick_punch_smoothing.py\<close>). A smoothed
  punch that has settled is a fix (\<open>quick_punch_fixes.py\<close>), a fix or a manager's request is planned as a
  correction (\<open>attendance_corrections.py\<close>, first half), the plan is stored as JSON, and a worker carries it
  out in Odoo (second half). Whether a day is matched by attendance at all is decided by the rollout
  setting (\<open>attendance_location_policy.py\<close>, \<open>attendance_readiness.py\<close>). Saturdays are staffed by
  recruiting (\<open>saturday_recruiting.py\<close>, \<open>optional_workday.py\<close>).

  \<^bold>\<open>Shared theories.\<close>
  \<^item> \<open>Plant_Prelude\<close>: results (an error or a value), folds that may fail or not end, dictionaries in insertion
    order, and the lemmas on lists and multisets all theories use.
  \<^item> \<open>Python_Values\<close>: dynamically typed values, \<open>==\<close> on them, immutable copies (\<open>_FrozenMapping\<close>).
  \<^item> \<open>Utc_Text\<close>: the texts of instants, which are whole microseconds.

  \<^bold>\<open>The schedule solver.\<close> \<open>Schedule_Model\<close> has the data; \<open>Flow_Graph\<close>, \<open>Single_Matching\<close>, \<open>Crew_Plans\<close>,
  \<open>Coverage_Solver\<close>, \<open>Complete_Flow\<close> and \<open>Complete_Solver\<close> have every function of the module. The loops over
  the residual graph are partial functions (\<open>None\<close> is a loop that does not end); \<open>Flow_Search\<close> and
  \<open>Flow_Correctness\<close> prove that they end and give a maximum flow of least cost, \<open>Flow_Network\<close>,
  \<open>Assignment_Network\<close> and \<open>Edge_Selection\<close> carry this over to people and centers. \<open>Coverage_Search\<close> and
  \<open>Coverage_Optimality\<close> prove the branch and bound; the search relies on the locale \<open>single_matcher\<close> only,
  which the flow interprets. \<open>Complete_Properties\<close> and \<open>Solver_Properties\<close> hold the properties C1-C10:
  optimality, exactness of completeness and of the validations, safety, termination.

  \<^bold>\<open>Locations and work.\<close> \<open>Attendance_Rows\<close> (validation and normalisation of a feed) and
  \<open>Attendance_Timeline\<close> (slicing, merging, clipping); \<open>Timeline_Properties\<close> and \<open>Timeline_Claims\<close> show that the
  spans say at every instant what the running attendances say (C11-C15). \<open>Quick_Punch\<close> has the smoothing with
  its pallet evidence; \<open>Quick_Punch_Facts\<close>, \<open>Quick_Punch_Fixpoint\<close> and \<open>Quick_Punch_Claims\<close> show that it takes
  nothing that was real work and reaches its fixed point (C24-C26). \<open>Work_Segments\<close> and \<open>Work_Claims\<close>: blocked
  time is never credited, nobody is in two places (C27-C31). \<open>Quick_Fix\<close> and \<open>Quick_Fix_Claims\<close>: a fix writes
  the time of the real stints it lists, start and end, and takes no pallet and no blocked time (C35).

  \<^bold>\<open>Planning a correction.\<close> \<open>Correction_Rows\<close> (source rows), \<open>Correction_Pieces\<close> (the interval surgery in four
  variants) and \<open>Correction_Plan\<close> (operations, keys, simulation, validation) are the model.
  \<open>Correction_Surgery\<close> says what the pieces say at every instant; \<open>Correction_Sources\<close>, \<open>Correction_Keys\<close>,
  \<open>Correction_Planning\<close>, \<open>Correction_Projection\<close>, \<open>Correction_Simulation\<close> and \<open>Correction_Validation\<close> lead to
  \<open>Correction_Claims\<close> (C16-C21): planning succeeds, says what was asked for, its writes reach it, only the
  plan validates, replanning is idle (for a merge exactly where one row covers the request). \<open>Plan_Codec\<close>, \<open>Plan_Codec_Facts\<close> and \<open>Plan_Codec_Claims\<close> (C36, C37) are the
  JSON document of a plan; the locale \<open>json_codec\<close> is the contract of a writer and its reader, and the
  encoding of values and the one of rows interpret it; the other layers rest on them.

  \<^bold>\<open>Carrying it out.\<close> \<open>Correction_Remote\<close> has the rows in Odoo and the order of the writes, \<open>Correction_Job\<close> a
  whole attempt of a worker: the claim, the reservations, every write with the look before and after it,
  verification and the steps after it. \<open>Correction_Order\<close> and \<open>Correction_Writes\<close> show why no write of the order
  meets another row, \<open>Correction_Sending\<close> and \<open>Correction_Sent\<close> what Odoo holds after a part of them and after
  all (C22). \<open>Correction_Attempt\<close> has the rules for calls that may fail, \<open>Correction_Progress\<close> one operation,
  \<open>Correction_Attempts\<close> and \<open>Correction_Job_Claims\<close> any number of attempts (C23).

  \<^bold>\<open>Rollout and recruiting.\<close> \<open>Rollout_Policy\<close> (the setting and how a day is matched), \<open>Rollout_Readiness\<close> (the
  report, cutovers, rollbacks, and the reachable states under every event), \<open>Rollout_Machine\<close> (an abstract
  machine over the setting alone that every event refines) and \<open>Rollout_Claims\<close> (C38-C40).
  \<open>Saturday_Recruiting\<close>, \<open>Saturday_Matching\<close> and \<open>Saturday_Claims\<close> (C32-C34): the matching of commitments, the
  publishing check, the response deadline.

  \<^bold>\<open>Parameters.\<close> Code that is not under \<open>src/\<close> is an argument: SHA-256 over canonical JSON (\<open>digest\<close>, the seal of
  a plan), \<open>zoneinfo\<close> and the shift configuration (the site calendars), the readings of the database (metered
  names, holidays, readiness inputs, the lookups of a projection). What is assumed of them is in the
  hypotheses: a digest gives 64 hexadecimal digits and the operations of one plan different keys, the days
  of a site lie one after the other. Odoo is a model of what it documents: it keeps whole seconds, numbers rows
  upwards, and refuses a row that overlaps another one of its employee. What a remote call does, and what
  the clock says, is a list of ticks, one for each call; a list that ends is a worker that dies. The properties
  hold for every list.

  \<^bold>\<open>Numbers and loops.\<close> Python's integers are \<open>int\<close>, instants and durations are integers in microseconds,
  pallet units are rationals. There is no fuel:
  loops are recursions with a measure, or partial functions that are proved to return.

  \<^bold>\<open>Findings.\<close> Four places where the code does not do what it means to, each with a lemma that evaluates or
  proves it: \<open>mutual_cover_loses_pallet\<close> (two blips cover each other and a pallet is lost),
  \<open>scheduling_over_rollback_ends_live\<close> (live matching ends without a boundary),
  \<open>remainder_without_center_is_never_sent\<close> (a remainder without work center is never created), and
  \<open>quick_punch_job_stops_halfway\<close> (a job that changed Odoo fails).

  \<^bold>\<open>Not modelled.\<close> Database schema, stores and caches, the pages and their view models, the synchronisation with
  Odoo, Slack and mail: input and output around the decisions above. Of the modelled modules: messages and
  texts (errors and reasons are constructors), logging and events, row locks (an operation on a locked row is
  one step), SHA-256, floats in plan documents, \<open>expected_by_wc\<close> (floating-point products), the creation of
  correction jobs, and two workers on one job at the same time. The feedback workflow, payroll rules,
  absence and vacation, rotation suggestions, forklift advice and leaderboards are separate programs of their
  own that this library does not reach.
\<close>

end
